(* ===== verification/Go_Prelude.thy ===== *)
theory Go_Prelude
  imports Complex_Main "HOL-Library.AList" "HOL-Library.Sublist" "HOL-Library.Multiset"
    "HOL-Library.Char_ord" "HOL-Library.List_Lexorder"
begin

text \<open>
  The prelude of the development: what the components use of the Go language and of its
  standard library, and the generic lemmas they share.

  \<^item> A Go value of type \<open>any\<close> is a \<open>gval\<close>; a Go map with string keys is an association
    list with distinct keys, whose order stands for the (unspecified) iteration order.
  \<^item> A Go \<open>error\<close> is a \<open>go_error\<close>: an error built by \<open>fmt.Errorf\<close> keeps its format, its
    arguments and the error it wraps.  A call ends in an \<open>outcome\<close>: a value, an error or a
    run-time panic.
  \<^item> \<open>time.Time\<close> and \<open>time.Duration\<close> are integers (nanoseconds), \<open>float64\<close> is \<open>real\<close>,
    \<open>int\<close> and \<open>int64\<close> counters are \<open>int\<close>.
  \<^item> State machines share the reachability predicate \<open>reach\<close> and the locale
    \<open>inductive_invariant\<close>.
\<close>

section \<open>Collections of facts\<close>

named_theorems go_defs \<open>definitions of the Go model, unfolded to evaluate it\<close>
named_theorems inv_defs \<open>invariants of the components\<close>
named_theorems op_defs \<open>operations of the components\<close>

section \<open>Values, errors and outcomes\<close>

type_synonym time = int
type_synonym duration = int

datatype gval =
    GNil
  | GBool bool
  | GInt int
  | GFloat real
  | GStr string
  | GStrs "string list"
  | GList "gval list"
  | GMap "(string \<times> gval) list"
  | GFunc string \<comment> \<open>a function, with the text that \<open>fmt\<close> prints for it\<close>

text \<open>
  \<open>Errors_New s\<close> is an opaque error with text \<open>s\<close>; the other constructors are the error
  structs of the packages and the two sentinel errors of package \<open>context\<close>.
\<close>

datatype go_error =
    Errors_New string
  | Errorf string "gval list" "go_error option"
  | Context_Canceled
  | Context_DeadlineExceeded
  | CircuitBreakerError int
  | RateLimitError int real
  | TimeoutError string duration
  | BudgetExceededError string "gval list"
  | ConnectionError string "go_error option"
  | RemoteExecutionError string string "(string \<times> gval) list option"
  | InvalidMessageError string "(string \<times> gval) list option"
  | AgentTimeoutError string real
  | PermissionDeniedError string "string option"
  | TaskError string "go_error option"
  | TaskTimeoutError duration

text \<open>\<open>errors.Is\<close>: the error itself or one it wraps.\<close>

fun errors_is :: "go_error \<Rightarrow> go_error \<Rightarrow> bool" where
  "errors_is (Errorf f args (Some e)) t = (Errorf f args (Some e) = t \<or> errors_is e t)"
| "errors_is (ConnectionError m (Some e)) t = (ConnectionError m (Some e) = t \<or> errors_is e t)"
| "errors_is (TaskError m (Some e)) t = (TaskError m (Some e) = t \<or> errors_is e t)"
| "errors_is e t = (e = t)"

datatype 'a outcome = Ok 'a | Err go_error | Panic string

fun is_Ok :: "'a outcome \<Rightarrow> bool" where
  "is_Ok (Ok _) = True"
| "is_Ok _ = False"

fun is_Panic :: "'a outcome \<Rightarrow> bool" where
  "is_Panic (Panic _) = True"
| "is_Panic _ = False"

definition second :: duration where
  "second = 1000000000"

definition millisecond :: duration where
  "millisecond = 1000000"

text \<open>\<open>Duration.Seconds()\<close>.\<close>

definition Seconds :: "duration \<Rightarrow> real" where
  "Seconds d = real_of_int d / 1000000000"

text \<open>Conversion of a float to an integer type truncates towards zero.\<close>

definition go_trunc :: "real \<Rightarrow> int" where
  "go_trunc x = (if x < 0 then \<lceil>x\<rceil> else \<lfloor>x\<rfloor>)"

lemmas [go_defs] = second_def millisecond_def Seconds_def go_trunc_def

lemma go_trunc_of_int [simp]: "go_trunc (real_of_int i) = i"
  by (simp add: go_trunc_def)

lemma go_trunc_le: "0 \<le> x \<Longrightarrow> real_of_int (go_trunc x) \<le> x"
  by (simp add: go_trunc_def)

lemma go_trunc_gt: "x < real_of_int (go_trunc x) + 1"
  by (simp add: go_trunc_def) linarith

lemma go_trunc_nonneg: "0 \<le> x \<Longrightarrow> 0 \<le> go_trunc x"
  by (simp add: go_trunc_def)

lemma go_trunc_mono: "x \<le> y \<Longrightarrow> go_trunc x \<le> go_trunc y"
proof (cases "x < 0 \<and> \<not> y < 0")
  case True
  then have "\<lceil>x\<rceil> \<le> 0" and "0 \<le> \<lfloor>y\<rfloor>" by (simp_all add: ceiling_le_iff)
  then have "\<lceil>x\<rceil> \<le> \<lfloor>y\<rfloor>" by (rule order_trans)
  with True show ?thesis by (simp add: go_trunc_def)
next
  case False
  assume "x \<le> y"
  with False show ?thesis by (auto simp: go_trunc_def ceiling_mono floor_mono)
qed

section \<open>Maps\<close>

abbreviation go_get :: "('k \<times> 'v) list \<Rightarrow> 'k \<Rightarrow> 'v option" where
  "go_get m k \<equiv> map_of m k"

abbreviation go_set :: "'k \<Rightarrow> 'v \<Rightarrow> ('k \<times> 'v) list \<Rightarrow> ('k \<times> 'v) list" where
  "go_set \<equiv> AList.update"

abbreviation go_delete :: "'k \<Rightarrow> ('k \<times> 'v) list \<Rightarrow> ('k \<times> 'v) list" where
  "go_delete \<equiv> AList.delete"

text \<open>\<open>m[k]++\<close> on a map of counters: an absent key counts as 0.\<close>

definition go_incr :: "'k \<Rightarrow> ('k \<times> int) list \<Rightarrow> ('k \<times> int) list" where
  "go_incr k m = go_set k ((case go_get m k of None \<Rightarrow> 0 | Some n \<Rightarrow> n) + 1) m"

definition go_map_ok :: "('k \<times> 'v) list \<Rightarrow> bool" where
  "go_map_ok m \<longleftrightarrow> distinct (map fst m)"

lemmas [go_defs] = go_incr_def

lemma go_map_ok_Nil [simp]: "go_map_ok []"
  by (simp add: go_map_ok_def)

lemma go_map_ok_set [simp, intro]: "go_map_ok m \<Longrightarrow> go_map_ok (go_set k v m)"
  by (simp add: go_map_ok_def distinct_update)

lemma go_map_ok_delete [simp, intro]: "go_map_ok m \<Longrightarrow> go_map_ok (go_delete k m)"
  by (simp add: go_map_ok_def distinct_delete)

lemma go_map_ok_filter [simp, intro]: "go_map_ok m \<Longrightarrow> go_map_ok (filter P m)"
  by (auto simp: go_map_ok_def intro: distinct_map_filter)

lemma go_get_set [simp]: "go_get (go_set k v m) k' = (if k = k' then Some v else go_get m k')"
  by (simp add: update_conv')

lemma go_get_delete [simp]: "go_get (go_delete k m) k' = (if k = k' then None else go_get m k')"
  by (simp add: delete_conv')

lemma go_get_filter:
  "go_map_ok m \<Longrightarrow>
    go_get (filter P m) k = (case go_get m k of None \<Rightarrow> None | Some v \<Rightarrow> if P (k, v) then Some v else None)"
  unfolding go_map_ok_def
proof (induction m)
  case (Cons p m)
  obtain k' v where p: "p = (k', v)" by (cases p)
  show ?case
  proof (cases "k = k'")
    case True
    with Cons.prems p have "k \<notin> fst ` set (filter P m)" by auto
    then have "go_get (filter P m) k = None" by (simp add: map_of_eq_None_iff)
    with True p show ?thesis by simp
  next
    case False
    with Cons p show ?thesis by simp
  qed
qed simp

lemma go_set_new: "k \<notin> fst ` set m \<Longrightarrow> go_set k v m = m @ [(k, v)]"
  by (induction m) auto

lemma go_get_Some_mem: "go_get m k = Some v \<Longrightarrow> (k, v) \<in> set m"
  by (rule map_of_SomeD)

lemma go_map_mem_get: "go_map_ok m \<Longrightarrow> (k, v) \<in> set m \<Longrightarrow> go_get m k = Some v"
  by (simp add: go_map_ok_def)

lemma go_map_get_iff: "go_map_ok m \<Longrightarrow> go_get m k = Some v \<longleftrightarrow> (k, v) \<in> set m"
  by (auto intro: go_map_mem_get go_get_Some_mem)

section \<open>Strings\<close>

text \<open>\<open>strings.Contains\<close> and the loop \<open>findSubstring\<close> both decide \<open>sublist\<close>.\<close>

definition strings_Contains :: "string \<Rightarrow> string \<Rightarrow> bool" where
  "strings_Contains s sub = sublist sub s"

fun strings_Join :: "string list \<Rightarrow> string \<Rightarrow> string" where
  "strings_Join [] sep = []"
| "strings_Join [s] sep = s"
| "strings_Join (s # ss) sep = s @ sep @ strings_Join ss sep"

fun show_digits :: "nat \<Rightarrow> string" where
  "show_digits n =
     (if n < 10 then [char_of (48 + n)] else show_digits (n div 10) @ [char_of (48 + n mod 10)])"

declare show_digits.simps [simp del]

text \<open>The verb \<open>%d\<close>.\<close>

definition show_int :: "int \<Rightarrow> string" where
  "show_int i = (if i < 0 then CHR ''-'' # show_digits (nat (- i)) else show_digits (nat i))"

definition is_digit :: "char \<Rightarrow> bool" where
  "is_digit c \<longleftrightarrow> CHR ''0'' \<le> c \<and> c \<le> CHR ''9''"

definition digits_value :: "string \<Rightarrow> int" where
  "digits_value ds = fold (\<lambda>c n. 10 * n + (int (of_char c) - 48)) ds 0"

lemma digit_char:
  assumes "n < 10"
  shows "is_digit (char_of (48 + n :: nat))" "int (of_char (char_of (48 + n) :: char)) = 48 + int n"
    "char_of (48 + n) \<noteq> CHR '':''"
proof -
  have code: "of_char (char_of (48 + n) :: char) = 48 + n" using assms by (simp add: of_char_of)
  then show "int (of_char (char_of (48 + n) :: char)) = 48 + int n" by simp
  show "is_digit (char_of (48 + n :: nat))" using assms code by (simp add: is_digit_def less_eq_char_def)
  show "char_of (48 + n) \<noteq> CHR '':''"
  proof
    assume "char_of (48 + n) = CHR '':''"
    then have "48 + n = of_char (CHR '':'')" using code by metis
    then show False using assms by simp
  qed
qed

lemma digits_value_snoc: "digits_value (ds @ [c]) = 10 * digits_value ds + (int (of_char c) - 48)"
  by (simp add: digits_value_def)

lemma show_digits_spec: "digits_value (show_digits n) = int n \<and> list_all is_digit (show_digits n) \<and> show_digits n \<noteq> []"
proof (induction n rule: show_digits.induct)
  case (1 n)
  show ?case
  proof (cases "n < 10")
    case True
    then show ?thesis using digit_char [OF True] by (simp add: show_digits.simps [of n] digits_value_def)
  next
    case False
    have "int (n div 10) * 10 + int (n mod 10) = int n" by presburger
    with 1 [OF False] False digit_char [of "n mod 10"] show ?thesis
      by (simp add: show_digits.simps [of n] digits_value_snoc)
  qed
qed

lemma show_digits_inj: "show_digits m = show_digits n \<Longrightarrow> m = n"
  by (metis of_nat_eq_iff show_digits_spec)

lemma show_digits_no_char: "\<not> is_digit c \<Longrightarrow> c \<notin> set (show_digits n)"
  using show_digits_spec [of n] by (auto simp: list_all_iff)

text \<open>What follows the last separator.\<close>

lemma last_field_unique:
  assumes "xs @ c # ds = ys @ c # es" and "c \<notin> set ds" and "c \<notin> set es"
  shows "xs = ys \<and> ds = es"
proof -
  have "takeWhile (\<lambda>x. x \<noteq> c) (rev (zs @ c # fs)) = rev fs" if "c \<notin> set fs" for zs fs
  proof -
    have "takeWhile (\<lambda>x. x \<noteq> c) (rev fs @ c # rev zs) = rev fs @ takeWhile (\<lambda>x. x \<noteq> c) (c # rev zs)"
      by (rule takeWhile_append2) (use that in auto)
    then show ?thesis by simp
  qed
  from this [OF assms(2), of xs] this [OF assms(3), of ys] assms(1) have "rev ds = rev es" by simp
  then show ?thesis using assms(1) by simp
qed

section \<open>Reachability and invariants\<close>

inductive reach :: "('s \<Rightarrow> bool) \<Rightarrow> ('s \<Rightarrow> 's \<Rightarrow> bool) \<Rightarrow> 's \<Rightarrow> bool"
  for init step where
  reach_init: "init s \<Longrightarrow> reach init step s"
| reach_step: "reach init step s \<Longrightarrow> step s t \<Longrightarrow> reach init step t"

text \<open>
  The contract of a state machine with an inductive invariant: it holds initially and
  every step keeps it, so it holds in every reachable state.
\<close>

locale inductive_invariant =
  fixes init :: "'s \<Rightarrow> bool"
    and step :: "'s \<Rightarrow> 's \<Rightarrow> bool"
    and inv :: "'s \<Rightarrow> bool"
  assumes init_inv: "init s \<Longrightarrow> inv s"
    and step_inv: "inv s \<Longrightarrow> step s t \<Longrightarrow> inv t"
begin

lemma reach_inv: "reach init step s \<Longrightarrow> inv s"
  by (induction rule: reach.induct) (auto intro: init_inv step_inv)

lemma rtranclp_inv: "step\<^sup>*\<^sup>* s t \<Longrightarrow> inv s \<Longrightarrow> inv t"
  by (induction rule: rtranclp_induct) (auto intro: step_inv)

end

section \<open>Lists\<close>

lemma sum_list_filter_le:
  fixes f :: "'a \<Rightarrow> real"
  assumes "\<And>x. x \<in> set xs \<Longrightarrow> 0 \<le> f x"
  shows "sum_list (map f (filter P xs)) \<le> sum_list (map f xs)"
  using assms by (induction xs) (auto intro: add_increasing)

lemma in_set_tlD: "x \<in> set (tl xs) \<Longrightarrow> x \<in> set xs"
  by (cases xs) auto

lemma length_filter_int: "int (length xs) \<le> n \<Longrightarrow> int (length (filter P xs)) \<le> n"
  by (metis length_filter_le of_nat_mono order_trans)

text \<open>\<open>s[len(s)-n:]\<close>, taken when the slice is longer than \<open>n\<close>.\<close>

definition keep_last :: "nat \<Rightarrow> 'a list \<Rightarrow> 'a list" where
  "keep_last n xs = (if length xs > n then drop (length xs - n) xs else xs)"

lemma length_keep_last: "length (keep_last n xs) = min n (length xs)"
  by (auto simp: keep_last_def)

lemma keep_last_drop: "keep_last n xs = drop (length xs - n) xs"
  by (simp add: keep_last_def)

lemma set_keep_last: "set (keep_last n xs) \<subseteq> set xs"
  by (auto simp: keep_last_drop dest: in_set_dropD)

lemma keep_last_append: "keep_last n (keep_last n xs @ [x]) = keep_last n (xs @ [x])"
proof (cases "length xs \<le> n")
  case False
  show ?thesis
  proof (cases n)
    case (Suc k)
    then have "Suc (length xs - n) = length xs - k" using False by simp
    then have "drop 1 (drop (length xs - n) xs) = drop (length xs - k) xs" by (simp only: drop_drop) simp
    with False Suc show ?thesis by (simp add: keep_last_drop min_def)
  qed (simp add: keep_last_drop)
qed (simp add: keep_last_drop)

lemma take_last_drop: "length xs \<le> n \<Longrightarrow> drop (length xs - n) xs = xs"
  by simp

section \<open>Sorting with \<open>sort.Slice\<close>\<close>

text \<open>
  \<open>sort.Slice\<close> permutes a slice; if \<open>less\<close> is a strict weak order no element is less than one
  before it.  The order of equivalent elements is not specified, so the sort is a parameter
  with this contract.  \<open>go_insort\<close> is one function that keeps it.
\<close>

definition weak_order :: "('a \<Rightarrow> 'a \<Rightarrow> bool) \<Rightarrow> bool" where
  "weak_order lt \<longleftrightarrow> (\<forall>x. \<not> lt x x) \<and> (\<forall>x y z. lt x y \<longrightarrow> lt y z \<longrightarrow> lt x z) \<and>
     (\<forall>x y z. lt x z \<longrightarrow> lt x y \<or> lt y z)"

locale sort_slice =
  fixes srt :: "('a \<Rightarrow> 'a \<Rightarrow> bool) \<Rightarrow> 'a list \<Rightarrow> 'a list"
  assumes perm: "mset (srt lt xs) = mset xs"
    and sorted: "weak_order lt \<Longrightarrow> sorted_wrt (\<lambda>x y. \<not> lt y x) (srt lt xs)"
begin

lemma set_srt [simp]: "set (srt lt xs) = set xs"
  by (rule mset_eq_setD) (rule perm)

lemma length_srt [simp]: "length (srt lt xs) = length xs"
  by (rule mset_eq_length) (rule perm)

lemma distinct_srt [simp]: "distinct (srt lt xs) \<longleftrightarrow> distinct xs"
  by (rule mset_eq_imp_distinct_iff) (rule perm)

lemma srt_head:
  assumes "weak_order lt" and "srt lt xs = x # ys" and "z \<in> set xs"
  shows "\<not> lt z x"
proof -
  have "z \<in> set (x # ys)" using assms(3) set_srt [of lt xs] assms(2) by simp
  then show ?thesis using sorted [OF assms(1), of xs] assms by (auto simp: weak_order_def)
qed

end

fun go_insert :: "('a \<Rightarrow> 'a \<Rightarrow> bool) \<Rightarrow> 'a \<Rightarrow> 'a list \<Rightarrow> 'a list" where
  "go_insert lt x [] = [x]"
| "go_insert lt x (y # ys) = (if lt y x then y # go_insert lt x ys else x # y # ys)"

definition go_insort :: "('a \<Rightarrow> 'a \<Rightarrow> bool) \<Rightarrow> 'a list \<Rightarrow> 'a list" where
  "go_insort lt xs = foldr (go_insert lt) xs []"

lemma mset_go_insert [simp]: "mset (go_insert lt x ys) = add_mset x (mset ys)"
  by (induction ys) auto

lemma sorted_go_insert:
  assumes "weak_order lt" and "sorted_wrt (\<lambda>x y. \<not> lt y x) ys"
  shows "sorted_wrt (\<lambda>x y. \<not> lt y x) (go_insert lt x ys)"
  using assms(2)
proof (induction ys)
  case (Cons y ys)
  have set: "set (go_insert lt x ys) = insert x (set ys)"
    using mset_go_insert [of lt x ys] by (metis set_mset_add_mset_insert set_mset_mset)
  show ?case
  proof (cases "lt y x")
    case True
    then have "\<not> lt x y" using assms(1) unfolding weak_order_def by blast
    with Cons True show ?thesis by (simp add: set)
  next
    case False
    have "\<not> lt z x" if "z \<in> set ys" for z
      using Cons.prems that False assms(1) unfolding weak_order_def by (metis sorted_wrt.simps(2))
    with Cons.prems False show ?thesis by simp
  qed
qed simp

interpretation insertion: sort_slice go_insort
proof
  show "mset (go_insort lt xs) = mset xs" for lt and xs :: "'a list"
    unfolding go_insort_def by (induction xs) simp_all
  show "sorted_wrt (\<lambda>x y. \<not> lt y x) (go_insort lt xs)" if "weak_order lt" for lt and xs :: "'a list"
    unfolding go_insort_def using that by (induction xs) (simp_all add: sorted_go_insert)
qed

text \<open>Orders by a key, ascending and descending, and lexicographic combinations.\<close>

lemma weak_order_key [simp, intro]:
  fixes k :: "'a \<Rightarrow> 'b::linorder"
  shows "weak_order (\<lambda>x y. k x < k y)" and "weak_order (\<lambda>x y. k y < k x)"
  by (auto simp: weak_order_def)

lemma weak_order_lex [intro]:
  fixes k :: "'a \<Rightarrow> 'b::linorder" and l :: "'a \<Rightarrow> 'c::linorder"
  shows "weak_order (\<lambda>x y. if k x \<noteq> k y then k y < k x else l y < l x)"
  unfolding weak_order_def by (auto split: if_splits)

section \<open>Calls that read and change a world\<close>

text \<open>
  A fallible call on a world \<open>'w\<close>, and the sequencing of two calls that returns the error of
  the first: the idiom \<open>if err != nil { return err }\<close>.
\<close>

type_synonym ('w, 'a) call = "'w \<Rightarrow> 'a outcome \<times> 'w"

definition ret :: "'a \<Rightarrow> ('w, 'a) call" where
  "ret x w = (Ok x, w)"

definition fail :: "go_error \<Rightarrow> ('w, 'a) call" where
  "fail e w = (Err e, w)"

definition and_then :: "('w, 'a) call \<Rightarrow> ('a \<Rightarrow> ('w, 'b) call) \<Rightarrow> ('w, 'b) call" where
  "and_then m k w =
     (case m w of (Ok x, w') \<Rightarrow> k x w' | (Err e, w') \<Rightarrow> (Err e, w') | (Panic s, w') \<Rightarrow> (Panic s, w'))"

text \<open>The error of a call rewritten, as by \<open>fmt.Errorf("...: %w", err)\<close>.\<close>

definition wrap_err :: "string \<Rightarrow> ('w, 'a) call \<Rightarrow> ('w, 'a) call" where
  "wrap_err f m w = (case m w of (Err e, w') \<Rightarrow> (Err (Errorf f [] (Some e)), w') | r \<Rightarrow> r)"

lemma and_then_Ok: "m w = (Ok x, w') \<Longrightarrow> and_then m k w = k x w'"
  by (simp add: and_then_def)

lemma ret_simp [simp]: "ret x = Pair (Ok x)"
  by (simp add: ret_def fun_eq_iff)

lemma fail_simp [simp]: "fail e = Pair (Err e)"
  by (simp add: fail_def fun_eq_iff)

lemma and_then_ret [simp]: "and_then (Pair (Ok x)) k = k x"
  by (simp add: and_then_def fun_eq_iff)

lemma and_then_fail [simp]: "and_then (Pair (Err e)) k = Pair (Err e)"
  by (simp add: and_then_def fun_eq_iff)

lemma and_then_assoc: "and_then (and_then m k) l = and_then m (\<lambda>x. and_then (k x) l)"
  by (auto simp: and_then_def fun_eq_iff split: prod.splits outcome.splits)

lemma and_then_OkE:
  assumes "and_then m k w = (Ok y, w'')"
  obtains x w' where "m w = (Ok x, w')" and "k x w' = (Ok y, w'')"
  using assms by (auto simp: and_then_def split: prod.splits outcome.splits)

lemma and_then_cong [fundef_cong]:
  assumes "m = m'" and "\<And>x. k x = k' x"
  shows "and_then m k = and_then m' k'"
proof -
  have "k = k'" by (rule ext) (rule assms(2))
  with assms(1) show ?thesis by simp
qed

lemma wrap_err_Ok: "m w = (Ok x, w') \<Longrightarrow> wrap_err f m w = (Ok x, w')"
  by (simp add: wrap_err_def)

end
