(* ===== verification/Message.thy ===== *)
theory Message
  imports Go_Prelude
begin

text \<open>
  The core types of package \<open>agenkit\<close> (\<open>agenkit/interfaces.go\<close>): messages with their
  validation, contexts, and the interface \<open>Agent\<close>.

  An agent is a record of its name, its capabilities and its \<open>Process\<close> method.  \<open>Process\<close>
  acts on an arbitrary world \<open>'w\<close> (everything the agent may read or change, the clock
  included), so every theorem about a wrapper holds for every agent.  A \<open>*Message\<close> is a
  \<open>message option\<close>: \<open>None\<close> is the nil pointer.
\<close>

section \<open>Messages\<close>

record message =
  msg_role :: string
  msg_content :: gval
  msg_metadata :: "(string \<times> gval) list option" \<comment> \<open>\<open>None\<close>: the nil map\<close>
  msg_timestamp :: time

text \<open>
  \<open>fmt.Sprintf("%v", x)\<close>.  The text of a float is the parameter \<open>ff\<close>: reals stand for
  \<open>float64\<close> values here, and their shortest decimal text is a property of the latter.
\<close>

fun sprint_v :: "(real \<Rightarrow> string) \<Rightarrow> gval \<Rightarrow> string" where
  "sprint_v ff GNil = ''<nil>''"
| "sprint_v ff (GBool b) = (if b then ''true'' else ''false'')"
| "sprint_v ff (GInt i) = show_int i"
| "sprint_v ff (GFloat x) = ff x"
| "sprint_v ff (GStr s) = s"
| "sprint_v ff (GStrs ss) = ''['' @ strings_Join ss '' '' @ '']''"
| "sprint_v ff (GList vs) = ''['' @ strings_Join (map (sprint_v ff) vs) '' '' @ '']''"
| "sprint_v ff (GMap kvs) =
     ''map['' @
       strings_Join (map (\<lambda>(k, s). k @ '':'' @ s)
         (sort_key fst (map (\<lambda>(k, v). (k, sprint_v ff v)) kvs))) '' '' @ '']''"
| "sprint_v ff (GFunc s) = s"

definition ContentString :: "(real \<Rightarrow> string) \<Rightarrow> message \<Rightarrow> string" where
  "ContentString ff m =
     (case msg_content m of GStr s \<Rightarrow> s | GNil \<Rightarrow> [] | v \<Rightarrow> sprint_v ff v)"

definition NewMessage :: "time \<Rightarrow> string \<Rightarrow> string \<Rightarrow> message" where
  "NewMessage now role content =
     \<lparr>msg_role = role, msg_content = GStr content, msg_metadata = Some [], msg_timestamp = now\<rparr>"

text \<open>\<open>WithMetadata\<close>, and every assignment to \<open>m.Metadata[k]\<close>: a nil map panics.\<close>

definition WithMetadata :: "string \<Rightarrow> gval \<Rightarrow> message \<Rightarrow> message outcome" where
  "WithMetadata k v m =
     (case msg_metadata m of
        None \<Rightarrow> Panic ''assignment to entry in nil map''
      | Some md \<Rightarrow> Ok (m\<lparr>msg_metadata := Some (go_set k v md)\<rparr>))"

definition meta_get :: "message \<Rightarrow> string \<Rightarrow> gval option" where
  "meta_get m k = (case msg_metadata m of None \<Rightarrow> None | Some md \<Rightarrow> go_get md k)"

text \<open>\<open>Validate\<close>: nil is \<open>None\<close>.\<close>

definition allowedRoles :: "string list" where
  "allowedRoles = [''user'', ''assistant'', ''system'', ''tool'', ''agent'']"

definition maxContentSize :: nat where
  "maxContentSize = 16 * 1024 * 1024"

fun Validate_metadata :: "(real \<Rightarrow> string) \<Rightarrow> (string \<times> gval) list \<Rightarrow> go_error option" where
  "Validate_metadata ff [] = None"
| "Validate_metadata ff ((key, value) # kvs) =
     (if length key > 50 then
        Some (Errorf ''metadata key '%s...' exceeds maximum length of %d characters (got %d)''
          [GStr (take (min 20 (length key)) key), GInt 50, GInt (int (length key))] None)
      else if length (sprint_v ff value) > maxContentSize then
        Some (Errorf ''metadata value for key '%s' exceeds maximum size of %d bytes (got %d bytes)''
          [GStr key, GInt (int maxContentSize), GInt (int (length (sprint_v ff value)))] None)
      else Validate_metadata ff kvs)"

definition Validate :: "(real \<Rightarrow> string) \<Rightarrow> message \<Rightarrow> go_error option" where
  "Validate ff m =
     (if msg_role m = [] then Some (Errorf ''message role cannot be empty'' [] None)
      else if length (msg_role m) > 20 then
        Some (Errorf ''message role exceeds maximum length of 20 characters (got %d)''
          [GInt (int (length (msg_role m)))] None)
      else if msg_role m \<notin> set allowedRoles then
        Some (Errorf ''invalid message role: %s. Must be one of: user, assistant, system, tool, agent''
          [GStr (msg_role m)] None)
      else if length (ContentString ff m) > maxContentSize then
        Some (Errorf ''message content exceeds maximum size of %d bytes (got %d bytes)''
          [GInt (int maxContentSize), GInt (int (length (ContentString ff m)))] None)
      else
        (case msg_metadata m of
           None \<Rightarrow> None
         | Some md \<Rightarrow>
             if length md > 100 then
               Some (Errorf ''message metadata exceeds maximum of 100 keys (got %d)''
                 [GInt (int (length md))] None)
             else Validate_metadata ff md))"

definition NewValidatedMessage ::
    "(real \<Rightarrow> string) \<Rightarrow> time \<Rightarrow> string \<Rightarrow> string \<Rightarrow> message outcome" where
  "NewValidatedMessage ff now role content =
     (let m = NewMessage now role content in
      case Validate ff m of None \<Rightarrow> Ok m | Some e \<Rightarrow> Err e)"

lemma Validate_metadata_None_iff:
  "Validate_metadata ff kvs = None \<longleftrightarrow>
     (\<forall>(k, v) \<in> set kvs. length k \<le> 50 \<and> length (sprint_v ff v) \<le> maxContentSize)"
  by (induction ff kvs rule: Validate_metadata.induct) auto

section \<open>Contexts, replies and agents\<close>

record go_ctx =
  ctx_deadline :: "time option"

definition Background :: go_ctx where
  "Background = \<lparr>ctx_deadline = None\<rparr>"

text \<open>\<open>context.WithTimeout\<close> called at time \<open>now\<close>.\<close>

definition WithTimeout :: "time \<Rightarrow> duration \<Rightarrow> go_ctx \<Rightarrow> go_ctx" where
  "WithTimeout now d ctx =
     ctx\<lparr>ctx_deadline :=
       Some (case ctx_deadline ctx of None \<Rightarrow> now + d | Some t \<Rightarrow> min t (now + d))\<rparr>"

text \<open>
  \<open>(*Message, error)\<close>: \<open>Ok r\<close> is \<open>(r, nil)\<close>, \<open>Err e\<close> an error (no caller reads the
  message then), \<open>Panic\<close> a panic of the callee.
\<close>

type_synonym reply = "message option outcome"

record 'w agent =
  agent_Name :: string
  agent_Capabilities :: "string list"
  agent_Process :: "go_ctx \<Rightarrow> message option \<Rightarrow> 'w \<Rightarrow> reply \<times> 'w"

text \<open>What a caller sees of a context at a point of the execution: \<open>ctx.Err()\<close>.\<close>

type_synonym 'w ctx_err = "go_ctx \<Rightarrow> 'w \<Rightarrow> go_error option"

text \<open>\<open>time.Now()\<close>: reading the clock may change the world (time passes).\<close>

type_synonym 'w clock = "'w \<Rightarrow> time \<times> 'w"

end
