(* ===== verification/Circuit_Breaker.thy ===== *)
theory Circuit_Breaker
  imports Message
begin

text \<open>
  The circuit breaker middleware (\<open>middleware/circuit_breaker.go\<close>).

  \<open>Process\<close> holds the mutex in two critical sections, before and after the call of the
  wrapped agent, and not during the call.  They are \<open>cb_begin\<close> and \<open>cb_finish\<close>; concurrent
  requests interleave them in any order, which is the step relation \<open>cb_step\<close>.
  \<open>cb_Process\<close> is one request run on its own.
\<close>

section \<open>Data\<close>

datatype CircuitState = StateClosed | StateOpen | StateHalfOpen

fun CircuitState_String :: "CircuitState \<Rightarrow> string" where
  "CircuitState_String StateClosed = ''closed''"
| "CircuitState_String StateOpen = ''open''"
| "CircuitState_String StateHalfOpen = ''half_open''"

record CircuitBreakerConfig =
  cb_FailureThreshold :: int
  cb_RecoveryTimeout :: duration
  cb_SuccessThreshold :: int
  cb_Timeout :: duration

definition DefaultCircuitBreakerConfig :: CircuitBreakerConfig where
  "DefaultCircuitBreakerConfig =
     \<lparr>cb_FailureThreshold = 5, cb_RecoveryTimeout = 60 * second,
      cb_SuccessThreshold = 2, cb_Timeout = 30 * second\<rparr>"

record CircuitBreakerMetrics =
  cbm_TotalRequests :: int
  cbm_SuccessfulRequests :: int
  cbm_FailedRequests :: int
  cbm_RejectedRequests :: int
  cbm_StateChanges :: "(string \<times> int) list"
  cbm_LastStateChange :: "time option"
  cbm_CurrentState :: CircuitState

definition NewCircuitBreakerMetrics :: CircuitBreakerMetrics where
  "NewCircuitBreakerMetrics =
     \<lparr>cbm_TotalRequests = 0, cbm_SuccessfulRequests = 0, cbm_FailedRequests = 0,
      cbm_RejectedRequests = 0, cbm_StateChanges = [], cbm_LastStateChange = None,
      cbm_CurrentState = StateClosed\<rparr>"

record CircuitBreaker =
  cb_config :: CircuitBreakerConfig
  cb_state :: CircuitState
  cb_failureCount :: int
  cb_successCount :: int
  cb_lastFailureTime :: "time option"
  cb_metrics :: CircuitBreakerMetrics

definition NewCircuitBreakerDecorator :: "CircuitBreakerConfig \<Rightarrow> CircuitBreaker" where
  "NewCircuitBreakerDecorator config =
     (let config = (if cb_FailureThreshold config \<le> 0
                    then config\<lparr>cb_FailureThreshold := 5\<rparr> else config);
          config = (if cb_RecoveryTimeout config \<le> 0
                    then config\<lparr>cb_RecoveryTimeout := 60 * second\<rparr> else config);
          config = (if cb_SuccessThreshold config \<le> 0
                    then config\<lparr>cb_SuccessThreshold := 2\<rparr> else config);
          config = (if cb_Timeout config \<le> 0
                    then config\<lparr>cb_Timeout := 30 * second\<rparr> else config)
      in \<lparr>cb_config = config, cb_state = StateClosed, cb_failureCount = 0, cb_successCount = 0,
          cb_lastFailureTime = None, cb_metrics = NewCircuitBreakerMetrics\<rparr>)"

section \<open>Operations\<close>

definition cb_changeState :: "time \<Rightarrow> CircuitState \<Rightarrow> CircuitBreaker \<Rightarrow> CircuitBreaker" where
  "cb_changeState now newState c =
     (if cb_state c \<noteq> newState then
        let transition = CircuitState_String (cb_state c) @ ''->'' @ CircuitState_String newState
        in c\<lparr>cb_state := newState,
             cb_metrics := (cb_metrics c)
               \<lparr>cbm_CurrentState := newState, cbm_LastStateChange := Some now,
                cbm_StateChanges := go_incr transition (cbm_StateChanges (cb_metrics c))\<rparr>\<rparr>
      else c)"

definition cb_shouldAttemptReset :: "time \<Rightarrow> CircuitBreaker \<Rightarrow> bool" where
  "cb_shouldAttemptReset now c =
     (case cb_lastFailureTime c of
        None \<Rightarrow> False
      | Some t \<Rightarrow> now - t \<ge> cb_RecoveryTimeout (cb_config c))"

definition cb_onSuccess :: "time \<Rightarrow> CircuitBreaker \<Rightarrow> CircuitBreaker" where
  "cb_onSuccess now c =
     (let c = c\<lparr>cb_metrics := (cb_metrics c)
                 \<lparr>cbm_SuccessfulRequests := cbm_SuccessfulRequests (cb_metrics c) + 1\<rparr>\<rparr>
      in case cb_state c of
           StateHalfOpen \<Rightarrow>
             (let c = c\<lparr>cb_successCount := cb_successCount c + 1\<rparr> in
              if cb_successCount c \<ge> cb_SuccessThreshold (cb_config c)
              then (cb_changeState now StateClosed c)\<lparr>cb_failureCount := 0, cb_successCount := 0\<rparr>
              else c)
         | StateClosed \<Rightarrow> c\<lparr>cb_failureCount := 0\<rparr>
         | StateOpen \<Rightarrow> c)"

definition cb_onFailure :: "time \<Rightarrow> time \<Rightarrow> CircuitBreaker \<Rightarrow> CircuitBreaker" where
  "cb_onFailure now now' c =
     (let c = c\<lparr>cb_metrics := (cb_metrics c)
                 \<lparr>cbm_FailedRequests := cbm_FailedRequests (cb_metrics c) + 1\<rparr>\<rparr>;
          c = c\<lparr>cb_failureCount := cb_failureCount c + 1, cb_lastFailureTime := Some now\<rparr>
      in case cb_state c of
           StateHalfOpen \<Rightarrow> (cb_changeState now' StateOpen c)\<lparr>cb_successCount := 0\<rparr>
         | StateClosed \<Rightarrow>
             (if cb_failureCount c \<ge> cb_FailureThreshold (cb_config c)
              then cb_changeState now' StateOpen c else c)
         | StateOpen \<Rightarrow> c)"

text \<open>
  The first critical section of \<open>Process\<close>.  \<open>now\<close> is the clock read by
  \<open>shouldAttemptReset\<close>, \<open>now'\<close> the one read by \<open>changeState\<close>.
\<close>

definition cb_begin ::
    "time \<Rightarrow> time \<Rightarrow> CircuitBreaker \<Rightarrow> go_error option \<times> CircuitBreaker" where
  "cb_begin now now' c =
     (let c = c\<lparr>cb_metrics := (cb_metrics c)
                 \<lparr>cbm_TotalRequests := cbm_TotalRequests (cb_metrics c) + 1\<rparr>\<rparr>
      in if cb_state c = StateOpen then
           if cb_shouldAttemptReset now c
           then (None, (cb_changeState now' StateHalfOpen c)\<lparr>cb_successCount := 0\<rparr>)
           else (Some (CircuitBreakerError (cb_failureCount c)),
                 c\<lparr>cb_metrics := (cb_metrics c)
                     \<lparr>cbm_RejectedRequests := cbm_RejectedRequests (cb_metrics c) + 1\<rparr>\<rparr>)
         else (None, c))"

text \<open>The second critical section; it is not reached when the agent panics.\<close>

fun cb_finish ::
    "time \<Rightarrow> time \<Rightarrow> reply \<Rightarrow> CircuitBreaker \<Rightarrow> reply \<times> CircuitBreaker" where
  "cb_finish now now' (Ok r) c = (Ok r, cb_onSuccess now c)"
| "cb_finish now now' (Err e) c =
     (if errors_is e Context_DeadlineExceeded
      then (Err (Errorf ''request exceeded timeout of %v: %w''
                   [GInt (cb_Timeout (cb_config c))] (Some e)), cb_onFailure now now' c)
      else (Err e, cb_onFailure now now' c))"
| "cb_finish now now' (Panic p) c = (Panic p, c)"

definition cb_Process ::
    "'w clock \<Rightarrow> 'w agent \<Rightarrow> go_ctx \<Rightarrow> message option \<Rightarrow> CircuitBreaker \<times> 'w
      \<Rightarrow> reply \<times> CircuitBreaker \<times> 'w" where
  "cb_Process clk a ctx msg cw =
     (let (c, w) = cw; (t1, w) = clk w; (t2, w) = clk w in
      case cb_begin t1 t2 c of
        (Some e, c) \<Rightarrow> (Err e, c, w)
      | (None, c) \<Rightarrow>
          let (t3, w) = clk w;
              (r, w) = agent_Process a (WithTimeout t3 (cb_Timeout (cb_config c)) ctx) msg w;
              (t4, w) = clk w; (t5, w) = clk w;
              (r, c) = cb_finish t4 t5 r c
          in (r, c, w))"

text \<open>The decorated agent is an agent again, over the world extended with the breaker.\<close>

definition cb_agent :: "'w clock \<Rightarrow> 'w agent \<Rightarrow> (CircuitBreaker \<times> 'w) agent" where
  "cb_agent clk a =
     \<lparr>agent_Name = agent_Name a, agent_Capabilities = agent_Capabilities a,
      agent_Process = cb_Process clk a\<rparr>"

lemmas [op_defs] = cb_changeState_def cb_shouldAttemptReset_def cb_onSuccess_def
  cb_onFailure_def cb_begin_def
lemmas cb_ops = cb_changeState_def cb_shouldAttemptReset_def cb_onSuccess_def
  cb_onFailure_def cb_begin_def Let_def

section \<open>Concurrent requests\<close>

text \<open>
  A running breaker: the decorator, the number of requests between their two critical
  sections, and the number of requests whose agent panicked.
\<close>

record cb_run =
  run_cb :: CircuitBreaker
  run_inflight :: nat
  run_panicked :: nat

inductive cb_step :: "cb_run \<Rightarrow> cb_run \<Rightarrow> bool" where
  cb_admit: "cb_begin now now' (run_cb s) = (None, c) \<Longrightarrow>
    cb_step s (s\<lparr>run_cb := c, run_inflight := Suc (run_inflight s)\<rparr>)"
| cb_reject: "cb_begin now now' (run_cb s) = (Some e, c) \<Longrightarrow> cb_step s (s\<lparr>run_cb := c\<rparr>)"
| cb_complete: "run_inflight s = Suc n \<Longrightarrow> \<not> is_Panic r \<Longrightarrow>
    cb_finish now now' r (run_cb s) = (r', c) \<Longrightarrow>
    cb_step s (s\<lparr>run_cb := c, run_inflight := n\<rparr>)"
| cb_crash: "run_inflight s = Suc n \<Longrightarrow>
    cb_step s (s\<lparr>run_inflight := n, run_panicked := Suc (run_panicked s)\<rparr>)"

inductive_cases cb_stepE: "cb_step s t"

definition cb_init :: "CircuitBreakerConfig \<Rightarrow> cb_run \<Rightarrow> bool" where
  "cb_init config s \<longleftrightarrow>
     s = \<lparr>run_cb = NewCircuitBreakerDecorator config, run_inflight = 0, run_panicked = 0\<rparr>"

section \<open>The invariant\<close>

definition cb_config_ok :: "CircuitBreakerConfig \<Rightarrow> bool" where
  "cb_config_ok k \<longleftrightarrow>
     0 < cb_FailureThreshold k \<and> 0 < cb_RecoveryTimeout k \<and> 0 < cb_SuccessThreshold k \<and>
     0 < cb_Timeout k"

fun cb_counts_ok :: "CircuitBreaker \<Rightarrow> bool" where
  "cb_counts_ok c =
     (case cb_state c of
        StateClosed \<Rightarrow>
          0 \<le> cb_failureCount c \<and> cb_failureCount c < cb_FailureThreshold (cb_config c) \<and>
          cb_successCount c = 0
      | StateOpen \<Rightarrow>
          cb_FailureThreshold (cb_config c) \<le> cb_failureCount c \<and> cb_successCount c = 0 \<and>
          cb_lastFailureTime c \<noteq> None
      | StateHalfOpen \<Rightarrow>
          cb_FailureThreshold (cb_config c) \<le> cb_failureCount c \<and>
          0 \<le> cb_successCount c \<and> cb_successCount c < cb_SuccessThreshold (cb_config c) \<and>
          cb_lastFailureTime c \<noteq> None)"

definition cb_ok :: "CircuitBreaker \<Rightarrow> bool" where
  "cb_ok c \<longleftrightarrow>
     cb_config_ok (cb_config c) \<and> cb_counts_ok c \<and>
     cbm_CurrentState (cb_metrics c) = cb_state c"

definition cb_balance :: "CircuitBreaker \<Rightarrow> int" where
  "cb_balance c =
     (let m = cb_metrics c in
      cbm_TotalRequests m - cbm_SuccessfulRequests m - cbm_FailedRequests m - cbm_RejectedRequests m)"

definition cb_inv :: "cb_run \<Rightarrow> bool" where
  "cb_inv s \<longleftrightarrow>
     cb_ok (run_cb s) \<and> cb_balance (run_cb s) = int (run_inflight s) + int (run_panicked s)"

lemmas [inv_defs] = cb_ok_def cb_config_ok_def cb_balance_def

lemma cb_changeState_other [simp]:
  "cb_config (cb_changeState now st c) = cb_config c"
  "cb_failureCount (cb_changeState now st c) = cb_failureCount c"
  "cb_successCount (cb_changeState now st c) = cb_successCount c"
  "cb_lastFailureTime (cb_changeState now st c) = cb_lastFailureTime c"
  "cb_state (cb_changeState now st c) = st"
  "cbm_TotalRequests (cb_metrics (cb_changeState now st c)) = cbm_TotalRequests (cb_metrics c)"
  "cbm_SuccessfulRequests (cb_metrics (cb_changeState now st c)) = cbm_SuccessfulRequests (cb_metrics c)"
  "cbm_FailedRequests (cb_metrics (cb_changeState now st c)) = cbm_FailedRequests (cb_metrics c)"
  "cbm_RejectedRequests (cb_metrics (cb_changeState now st c)) = cbm_RejectedRequests (cb_metrics c)"
  by (simp_all add: cb_changeState_def Let_def)

lemma cb_changeState_current [simp]:
  "cbm_CurrentState (cb_metrics c) = cb_state c \<Longrightarrow>
     cbm_CurrentState (cb_metrics (cb_changeState now st c)) = st"
  by (simp add: cb_changeState_def Let_def)

lemmas cb_flow = cb_begin_def cb_onSuccess_def cb_onFailure_def cb_shouldAttemptReset_def Let_def

lemma cb_begin_config [simp]: "cb_config (snd (cb_begin now now' c)) = cb_config c"
  by (simp add: cb_flow)

lemma cb_finish_config [simp]: "cb_config (snd (cb_finish now now' r c)) = cb_config c"
  by (cases r) (simp_all add: cb_flow split: CircuitState.splits)

lemma cb_ok_new: "cb_ok (NewCircuitBreakerDecorator config)"
  by (simp add: NewCircuitBreakerDecorator_def NewCircuitBreakerMetrics_def inv_defs second_def Let_def)

lemma cb_balance_new [simp]: "cb_balance (NewCircuitBreakerDecorator config) = 0"
  by (simp add: NewCircuitBreakerDecorator_def NewCircuitBreakerMetrics_def cb_balance_def Let_def)

lemma cb_ok_begin: "cb_ok c \<Longrightarrow> cb_ok (snd (cb_begin now now' c))"
  by (auto simp: cb_flow inv_defs split: CircuitState.splits option.splits)

lemma cb_ok_onSuccess: "cb_ok c \<Longrightarrow> cb_ok (cb_onSuccess now c)"
  by (auto simp: cb_flow inv_defs split: CircuitState.splits)

lemma cb_ok_onFailure: "cb_ok c \<Longrightarrow> cb_ok (cb_onFailure now now' c)"
  by (auto simp: cb_flow inv_defs split: CircuitState.splits)

lemma cb_ok_finish: "cb_ok c \<Longrightarrow> cb_ok (snd (cb_finish now now' r c))"
  by (cases r) (auto intro: cb_ok_onSuccess cb_ok_onFailure)

lemma cb_balance_begin:
  "cb_balance (snd (cb_begin now now' c)) =
     cb_balance c + (if fst (cb_begin now now' c) = None then 1 else 0)"
  by (simp add: cb_flow cb_balance_def)

lemma cb_balance_finish:
  "\<not> is_Panic r \<Longrightarrow> cb_balance (snd (cb_finish now now' r c)) = cb_balance c - 1"
  by (cases r) (simp_all add: cb_flow cb_balance_def split: CircuitState.splits)

lemma cb_inv_step: "cb_inv s \<Longrightarrow> cb_step s t \<Longrightarrow> cb_inv t"
proof (elim cb_stepE)
  fix now now' c
  assume "cb_inv s" and "cb_begin now now' (run_cb s) = (None, c)"
    and "t = s\<lparr>run_cb := c, run_inflight := Suc (run_inflight s)\<rparr>"
  then show ?thesis
    using cb_ok_begin [of "run_cb s" now now'] cb_balance_begin [of now now' "run_cb s"]
    by (simp add: cb_inv_def)
next
  fix now now' e c
  assume "cb_inv s" and "cb_begin now now' (run_cb s) = (Some e, c)" and "t = s\<lparr>run_cb := c\<rparr>"
  then show ?thesis
    using cb_ok_begin [of "run_cb s" now now'] cb_balance_begin [of now now' "run_cb s"]
    by (simp add: cb_inv_def)
next
  fix n r now now' r' c
  assume "cb_inv s" and "run_inflight s = Suc n" and "\<not> is_Panic r"
    and "cb_finish now now' r (run_cb s) = (r', c)"
    and "t = s\<lparr>run_cb := c, run_inflight := n\<rparr>"
  then show ?thesis
    using cb_ok_finish [of "run_cb s" now now' r] cb_balance_finish [of r now now' "run_cb s"]
    by (simp add: cb_inv_def)
qed (simp add: cb_inv_def)

interpretation breaker: inductive_invariant "cb_init config" cb_step cb_inv
proof unfold_locales
  show "cb_init config s \<Longrightarrow> cb_inv s" for s
    by (auto simp: cb_init_def cb_inv_def cb_ok_new)
  show "cb_inv s \<Longrightarrow> cb_step s t \<Longrightarrow> cb_inv t" for s t
    by (rule cb_inv_step)
qed

section \<open>The contract of a breaker\<close>

text \<open>
  The automaton that the documentation of \<open>CircuitBreakerDecorator\<close> describes: closed with a
  count of consecutive failures, open since a failure, or half-open with a count of
  consecutive successes.
\<close>

datatype breaker_spec = Closed int | Open time | HalfOpen int

fun spec_begin :: "CircuitBreakerConfig \<Rightarrow> time \<Rightarrow> breaker_spec \<Rightarrow> bool \<times> breaker_spec" where
  "spec_begin k now (Open t) =
     (if now - t \<ge> cb_RecoveryTimeout k then (True, HalfOpen 0) else (False, Open t))"
| "spec_begin k now s = (True, s)"

fun spec_finish :: "CircuitBreakerConfig \<Rightarrow> time \<Rightarrow> bool \<Rightarrow> breaker_spec \<Rightarrow> breaker_spec" where
  "spec_finish k now True (Closed n) = Closed 0"
| "spec_finish k now False (Closed n) =
     (if n + 1 \<ge> cb_FailureThreshold k then Open now else Closed (n + 1))"
| "spec_finish k now True (Open t) = Open t"
| "spec_finish k now False (Open t) = Open now"
| "spec_finish k now True (HalfOpen n) =
     (if n + 1 \<ge> cb_SuccessThreshold k then Closed 0 else HalfOpen (n + 1))"
| "spec_finish k now False (HalfOpen n) = Open now"

definition cb_abs :: "CircuitBreaker \<Rightarrow> breaker_spec" where
  "cb_abs c =
     (case cb_state c of
        StateClosed \<Rightarrow> Closed (cb_failureCount c)
      | StateOpen \<Rightarrow> Open (the (cb_lastFailureTime c))
      | StateHalfOpen \<Rightarrow> HalfOpen (cb_successCount c))"

lemma cb_abs_begin:
  assumes "cb_ok c"
  shows "spec_begin (cb_config c) now (cb_abs c) =
     (fst (cb_begin now now' c) = None, cb_abs (snd (cb_begin now now' c)))"
  using assms
  by (auto simp: cb_flow inv_defs cb_abs_def split: CircuitState.splits option.splits)

lemma cb_abs_finish:
  assumes "cb_ok c" and "\<not> is_Panic r"
  shows "cb_abs (snd (cb_finish now now' r c)) = spec_finish (cb_config c) now (is_Ok r) (cb_abs c)"
  using assms
  by (cases r) (auto simp: cb_flow inv_defs cb_abs_def split: CircuitState.splits)

text \<open>
  Requests run one after the other: the two clock readings of each critical section and the
  agent's reply, used when the request is admitted.
\<close>

type_synonym cb_request = "(time \<times> time) \<times> (time \<times> time) \<times> reply"

fun cb_request :: "cb_request \<Rightarrow> CircuitBreaker \<Rightarrow> CircuitBreaker" where
  "cb_request ((t1, t2), (t3, t4), r) c =
     (case cb_begin t1 t2 c of
        (Some e, c') \<Rightarrow> c'
      | (None, c') \<Rightarrow> snd (cb_finish t3 t4 r c'))"

fun spec_request :: "CircuitBreakerConfig \<Rightarrow> cb_request \<Rightarrow> breaker_spec \<Rightarrow> breaker_spec" where
  "spec_request k ((t1, t2), (t3, t4), r) s =
     (case spec_begin k t1 s of
        (False, s') \<Rightarrow> s'
      | (True, s') \<Rightarrow> spec_finish k t3 (is_Ok r) s')"

abbreviation cb_requests :: "cb_request list \<Rightarrow> CircuitBreaker \<Rightarrow> CircuitBreaker" where
  "cb_requests \<equiv> fold cb_request"

definition reply_of :: "cb_request \<Rightarrow> reply" where
  "reply_of q = snd (snd q)"

definition start_of :: "cb_request \<Rightarrow> time" where
  "start_of q = fst (fst q)"

lemma cb_request_cases [case_names request]:
  obtains t1 t2 t3 t4 r where "(q :: cb_request) = ((t1, t2), (t3, t4), r)"
  by (metis prod.exhaust)

lemma cb_request_ok: "cb_ok c \<Longrightarrow> cb_ok (cb_request q c)"
  and cb_request_config: "cb_config (cb_request q c) = cb_config c"
proof -
  obtain t1 t2 t3 t4 r where q: "q = ((t1, t2), (t3, t4), r)" by (cases q rule: cb_request_cases)
  obtain e c' where b: "cb_begin t1 t2 c = (e, c')" by force
  show "cb_ok c \<Longrightarrow> cb_ok (cb_request q c)"
    using q b cb_ok_begin [of c t1 t2] cb_ok_finish [of c' t3 t4 r] by (cases e) auto
  show "cb_config (cb_request q c) = cb_config c"
    using q b cb_begin_config [of t1 t2 c] cb_finish_config [of t3 t4 r c'] by (cases e) auto
qed

lemma cb_abs_request:
  assumes "cb_ok c" and "\<not> is_Panic (reply_of q)"
  shows "cb_abs (cb_request q c) = spec_request (cb_config c) q (cb_abs c)"
proof (cases q rule: cb_request_cases)
  case (request t1 t2 t3 t4 r)
  obtain e c' where b: "cb_begin t1 t2 c = (e, c')" by force
  have "cb_ok c'" and k: "cb_config c' = cb_config c"
    using b assms(1) cb_ok_begin [of c t1 t2] cb_begin_config [of t1 t2 c] by auto
  moreover have "spec_begin (cb_config c) t1 (cb_abs c) = (e = None, cb_abs c')"
    using cb_abs_begin [OF assms(1), of t1 t2] b by simp
  ultimately show ?thesis
    using request b assms(2) by (cases e) (auto simp: reply_of_def cb_abs_finish)
qed

lemma cb_abs_requests:
  assumes "cb_ok c" and "\<forall>q \<in> set qs. \<not> is_Panic (reply_of q)"
  shows "cb_abs (cb_requests qs c) = fold (spec_request (cb_config c)) qs (cb_abs c) \<and>
         cb_ok (cb_requests qs c) \<and> cb_config (cb_requests qs c) = cb_config c"
  using assms
  by (induction qs arbitrary: c)
    (auto simp: cb_abs_request cb_request_ok cb_request_config)

lemma cb_state_abs:
  "cb_ok c \<Longrightarrow> cb_state c = StateClosed \<longleftrightarrow> cb_abs c = Closed (cb_failureCount c)"
  "cb_ok c \<Longrightarrow> cb_state c = StateOpen \<longleftrightarrow> (\<exists>t. cb_abs c = Open t)"
  by (auto simp: cb_abs_def split: CircuitState.splits)

lemma spec_failures:
  assumes "0 \<le> n" and "n + int (length qs) \<le> cb_FailureThreshold k"
    and "n < cb_FailureThreshold k" and "\<forall>q \<in> set qs. \<exists>e. reply_of q = Err e"
  shows "if n + int (length qs) = cb_FailureThreshold k
         then \<exists>t. fold (spec_request k) qs (Closed n) = Open t
         else fold (spec_request k) qs (Closed n) = Closed (n + int (length qs))"
  using assms
proof (induction qs arbitrary: n)
  case (Cons q qs)
  from Cons.prems have r: "\<not> is_Ok (reply_of q)" by auto
  show ?case
  proof (cases "qs = []")
    case True
    with Cons.prems r show ?thesis
      by (cases q rule: cb_request_cases) (auto simp: reply_of_def)
  next
    case False
    with Cons.prems have "n + 1 < cb_FailureThreshold k" by (cases qs) auto
    moreover from this r have "spec_request k q (Closed n) = Closed (n + 1)"
      by (cases q rule: cb_request_cases) (auto simp: reply_of_def)
    ultimately show ?thesis
      using Cons.IH [of "n + 1"] Cons.prems by (auto simp: ac_simps split: if_splits)
  qed
qed simp

lemma spec_successes:
  assumes "0 \<le> n" and "n + int (length qs) = cb_SuccessThreshold k"
    and "n < cb_SuccessThreshold k" and "\<forall>q \<in> set qs. is_Ok (reply_of q)"
  shows "fold (spec_request k) qs (HalfOpen n) = Closed 0"
  using assms
proof (induction qs arbitrary: n)
  case (Cons q qs)
  from Cons.prems have r: "is_Ok (reply_of q)" by auto
  show ?case
  proof (cases "qs = []")
    case True
    with Cons.prems r show ?thesis
      by (cases q rule: cb_request_cases) (auto simp: reply_of_def)
  next
    case False
    with Cons.prems have "n + 1 < cb_SuccessThreshold k" by (cases qs) auto
    moreover from this r have "spec_request k q (HalfOpen n) = HalfOpen (n + 1)"
      by (cases q rule: cb_request_cases) (auto simp: reply_of_def)
    ultimately show ?thesis
      using Cons.IH [of "n + 1"] Cons.prems by (simp add: algebra_simps)
  qed
qed simp

lemma is_Ok_not_Panic: "is_Ok r \<Longrightarrow> \<not> is_Panic r"
  by (cases r) auto

section \<open>Properties\<close>

text \<open>
  C2. In every state a running breaker can reach, with any number of concurrent requests in
  any interleaving and any clock readings, the configuration, the state and the counters
  agree: a closed breaker has fewer failures than the threshold, an open or half-open one at
  least as many and a recorded failure time, a half-open one fewer successes than its
  threshold; the metrics show the current state, and every request is accounted for exactly
  once as succeeded, failed, rejected, in flight or panicked.
\<close>

theorem cb_reachable_inv: "reach (cb_init config) cb_step s \<Longrightarrow> cb_inv s"
  by (rule breaker.reach_inv)

theorem cb_reachable_inv_witness:
  "cb_inv \<lparr>run_cb = NewCircuitBreakerDecorator DefaultCircuitBreakerConfig,
           run_inflight = 0, run_panicked = 0\<rparr>"
  by (rule cb_reachable_inv [of DefaultCircuitBreakerConfig], rule reach_init) (simp add: cb_init_def)

text \<open>
  C3. The critical sections of \<open>Process\<close> implement the documented automaton: the abstraction
  of the breaker follows the abstract admission and the abstract completion, whatever the
  interleaving, and a request is rejected exactly when the automaton rejects it.
\<close>

theorem cb_refines_spec:
  assumes "cb_ok c" and "\<not> is_Panic r"
  shows "spec_begin (cb_config c) now (cb_abs c) =
           (fst (cb_begin now now' c) = None, cb_abs (snd (cb_begin now now' c))) \<and>
         cb_abs (snd (cb_finish now now' r c)) =
           spec_finish (cb_config c) now (is_Ok r) (cb_abs c)"
  using assms by (simp add: cb_abs_begin cb_abs_finish)

theorem cb_refines_spec_witness:
  "cb_abs (snd (cb_finish 7 8 (Err (Errors_New ''x''))
     (NewCircuitBreakerDecorator DefaultCircuitBreakerConfig))) = Closed 1"
proof -
  let ?c = "NewCircuitBreakerDecorator DefaultCircuitBreakerConfig"
  let ?r = "Err (Errors_New ''x'') :: reply"
  have "cb_abs (snd (cb_finish 7 8 ?r ?c)) = spec_finish (cb_config ?c) 7 (is_Ok ?r) (cb_abs ?c)"
    by (rule cb_refines_spec [THEN conjunct2]) (simp_all add: cb_ok_new)
  also have "\<dots> = Closed 1"
    by (simp add: NewCircuitBreakerDecorator_def DefaultCircuitBreakerConfig_def cb_abs_def
        second_def Let_def)
  finally show ?thesis .
qed

text \<open>
  From a closed breaker without failures, consecutive failing requests leave it closed
  until there are exactly \<open>FailureThreshold\<close> of them, and then it is open.
\<close>

lemma cb_opens_at_threshold:
  assumes "cb_ok c" and "cb_state c = StateClosed" and "cb_failureCount c = 0"
    and "\<forall>q \<in> set qs. \<exists>e. reply_of q = Err e"
    and "int (length qs) \<le> cb_FailureThreshold (cb_config c)"
  shows "cb_state (cb_requests qs c) =
     (if int (length qs) = cb_FailureThreshold (cb_config c) then StateOpen else StateClosed)"
proof -
  have "cb_abs c = Closed 0" using assms(2,3) by (simp add: cb_abs_def)
  moreover have "0 < cb_FailureThreshold (cb_config c)"
    using assms(1) by (simp add: inv_defs)
  moreover have "\<forall>q \<in> set qs. \<not> is_Panic (reply_of q)" using assms(4) by auto
  ultimately show ?thesis
    using spec_failures [of 0 qs "cb_config c"] cb_abs_requests [OF assms(1), of qs] assms(4,5)
      cb_state_abs [of "cb_requests qs c"]
    by (auto simp: cb_abs_def split: if_splits CircuitState.splits)
qed

text \<open>
  Recovery: an open breaker whose last failure is at least \<open>RecoveryTimeout\<close> ago when the
  next request arrives is closed again, with its failure count reset, after
  \<open>SuccessThreshold\<close> successful requests in a row.
\<close>

lemma cb_recovers:
  assumes "cb_ok c" and "cb_state c = StateOpen" and "cb_lastFailureTime c = Some t"
    and "start_of q - t \<ge> cb_RecoveryTimeout (cb_config c)"
    and "\<forall>p \<in> set (q # qs). is_Ok (reply_of p)"
    and "int (length (q # qs)) = cb_SuccessThreshold (cb_config c)"
  shows "cb_state (cb_requests (q # qs) c) = StateClosed \<and>
         cb_failureCount (cb_requests (q # qs) c) = 0"
proof -
  let ?k = "cb_config c"
  have "cb_abs c = Open t" using assms(2,3) by (simp add: cb_abs_def)
  with assms(4) have "spec_request ?k q (cb_abs c) = spec_request ?k q (HalfOpen 0)"
    by (cases q rule: cb_request_cases) (simp add: start_of_def)
  moreover have "fold (spec_request ?k) (q # qs) (HalfOpen 0) = Closed 0"
    using assms(5,6) by (intro spec_successes) auto
  ultimately have "cb_abs (cb_requests (q # qs) c) = Closed 0"
    using cb_abs_requests [OF assms(1), of "q # qs"] assms(5) is_Ok_not_Panic by auto
  then show ?thesis by (auto simp: cb_abs_def split: CircuitState.splits)
qed

text \<open>
  Fail fast: while the breaker is open and the recovery timeout has not passed, \<open>Process\<close>
  returns the breaker's error, counts the rejection and leaves everything else as it was; the
  wrapped agent, whatever it is, is not called (the world changes by the clock readings only).
\<close>

lemma cb_fails_fast:
  assumes "cb_state c = StateOpen" and "cb_lastFailureTime c = Some t"
    and "clk w = (t1, w1)" and "clk w1 = (t2, w2)"
    and "t1 - t < cb_RecoveryTimeout (cb_config c)"
  shows "cb_Process clk a ctx msg (c, w) =
     (Err (CircuitBreakerError (cb_failureCount c)),
      c\<lparr>cb_metrics := (cb_metrics c)
          \<lparr>cbm_TotalRequests := cbm_TotalRequests (cb_metrics c) + 1,
           cbm_RejectedRequests := cbm_RejectedRequests (cb_metrics c) + 1\<rparr>\<rparr>, w2)"
  using assms by (simp add: cb_Process_def cb_flow)

end
