(* ===== verification/Rate_Limiter.thy ===== *)
theory Rate_Limiter
  imports Message
begin

text \<open>
  The token-bucket rate limiters (\<open>middleware/rate_limiter.go\<close>): the global
  \<open>RateLimiterDecorator\<close> and the per-user one.

  \<open>acquireTokens\<close> has two critical sections with a wait between them in which the mutex is
  free.  They are \<open>rl_acquire_begin\<close> and \<open>rl_acquire_end\<close> (\<open>pu_\<dots>\<close> for the per-user
  limiter); a list of events is any interleaving of such sections of concurrent requests.
  Both limiters are instances of the locale \<open>token_bucket\<close>, in which the bound on the
  admitted traffic is proved once.
\<close>

section \<open>Token buckets\<close>

fun run_events :: "('e \<Rightarrow> 's \<Rightarrow> 's) \<Rightarrow> 'e list \<Rightarrow> 's \<Rightarrow> 's" where
  "run_events app [] s = s"
| "run_events app (e # es) s = run_events app es (app e s)"

fun total_granted :: "('e \<Rightarrow> 's \<Rightarrow> 's) \<Rightarrow> ('e \<Rightarrow> 's \<Rightarrow> real) \<Rightarrow> 'e list \<Rightarrow> 's \<Rightarrow> real" where
  "total_granted app granted [] s = 0"
| "total_granted app granted (e # es) s = granted e s + total_granted app granted es (app e s)"

locale token_bucket =
  fixes rate :: real
    and slack :: real
    and level :: "'s \<Rightarrow> real"
    and stamp :: "'s \<Rightarrow> time"
    and event_time :: "'e \<Rightarrow> time"
    and app :: "'e \<Rightarrow> 's \<Rightarrow> 's"
    and granted :: "'e \<Rightarrow> 's \<Rightarrow> real"
    and ok :: "'s \<Rightarrow> bool"
  assumes ok_app: "ok s \<Longrightarrow> stamp s \<le> event_time e \<Longrightarrow> ok (app e s)"
    and conserve: "ok s \<Longrightarrow> stamp s \<le> event_time e \<Longrightarrow>
      level (app e s) + granted e s \<le> level s + rate * Seconds (stamp (app e s) - stamp s)"
    and stamp_app: "ok s \<Longrightarrow> stamp s \<le> event_time e \<Longrightarrow>
      stamp s \<le> stamp (app e s) \<and> stamp (app e s) \<le> event_time e"
    and level_floor: "ok s \<Longrightarrow> - slack \<le> level s"
begin

lemma run_ok:
  assumes "ok s" and "sorted (map event_time es)" and "\<forall>e \<in> set es. stamp s \<le> event_time e"
  shows "ok (run_events app es s)"
  using assms
proof (induction es arbitrary: s)
  case (Cons e es)
  then have "ok (app e s)" and "stamp (app e s) \<le> event_time e"
    by (auto intro: ok_app simp: stamp_app)
  with Cons show ?case by force
qed simp

lemma total_conserve:
  assumes "ok s" and "sorted (map event_time es)"
    and "\<forall>e \<in> set es. stamp s \<le> event_time e \<and> event_time e \<le> T" and "stamp s \<le> T"
  shows "total_granted app granted es s + level (run_events app es s)
           \<le> level s + rate * Seconds (stamp (run_events app es s) - stamp s)
         \<and> stamp (run_events app es s) \<le> T"
  using assms
proof (induction es arbitrary: s)
  case Nil
  then show ?case by (simp add: Seconds_def)
next
  case (Cons e es)
  let ?s = "app e s"
  have s: "ok ?s" "stamp s \<le> stamp ?s" "stamp ?s \<le> event_time e"
    using Cons.prems by (auto intro: ok_app simp: stamp_app)
  then have IH: "total_granted app granted es ?s + level (run_events app es ?s)
      \<le> level ?s + rate * Seconds (stamp (run_events app es ?s) - stamp ?s)
      \<and> stamp (run_events app es ?s) \<le> T"
    using Cons.prems by (intro Cons.IH) force+
  have step: "level ?s + granted e s \<le> level s + rate * Seconds (stamp ?s - stamp s)"
    using Cons.prems by (intro conserve) auto
  have "rate * Seconds (stamp ?s - stamp s) + rate * Seconds (stamp (run_events app es ?s) - stamp ?s)
      = rate * Seconds (stamp (run_events app es ?s) - stamp s)"
    by (simp add: Seconds_def field_simps)
  with IH step show ?case by simp
qed

lemma granted_bound:
  assumes "0 \<le> rate" and "ok s" and "sorted (map event_time es)"
    and "\<forall>e \<in> set es. stamp s \<le> event_time e \<and> event_time e \<le> T" and "stamp s \<le> T"
  shows "total_granted app granted es s \<le> level s + rate * Seconds (T - stamp s) + slack"
proof -
  let ?s = "run_events app es s"
  have "- slack \<le> level ?s"
    using assms run_ok by (intro level_floor) auto
  moreover have "rate * Seconds (stamp ?s - stamp s) \<le> rate * Seconds (T - stamp s)"
    using assms(1) total_conserve [OF assms(2-5)]
    by (intro mult_left_mono) (auto simp: Seconds_def divide_right_mono)
  ultimately show ?thesis using total_conserve [OF assms(2-5)] by linarith
qed

end

section \<open>The global limiter: data\<close>

record RateLimiterConfig =
  rl_Rate :: real
  rl_Capacity :: int
  rl_TokensPerRequest :: int
  rl_MaxWaitTimeout :: duration

definition DefaultRateLimiterConfig :: RateLimiterConfig where
  "DefaultRateLimiterConfig =
     \<lparr>rl_Rate = 10, rl_Capacity = 10, rl_TokensPerRequest = 1, rl_MaxWaitTimeout = 0\<rparr>"

record RateLimiterMetrics =
  rlm_TotalRequests :: int
  rlm_AllowedRequests :: int
  rlm_RejectedRequests :: int
  rlm_TotalWaitTime :: duration
  rlm_CurrentTokens :: real

definition NewRateLimiterMetrics :: "real \<Rightarrow> RateLimiterMetrics" where
  "NewRateLimiterMetrics initialTokens =
     \<lparr>rlm_TotalRequests = 0, rlm_AllowedRequests = 0, rlm_RejectedRequests = 0,
      rlm_TotalWaitTime = 0, rlm_CurrentTokens = initialTokens\<rparr>"

record RateLimiter =
  rl_config :: RateLimiterConfig
  rl_tokens :: real
  rl_lastUpdate :: time
  rl_metrics :: RateLimiterMetrics

definition NewRateLimiterDecorator :: "time \<Rightarrow> RateLimiterConfig \<Rightarrow> RateLimiter" where
  "NewRateLimiterDecorator now config =
     (let config = (if rl_Rate config \<le> 0 then config\<lparr>rl_Rate := 10\<rparr> else config);
          config = (if rl_Capacity config < 1 then config\<lparr>rl_Capacity := 10\<rparr> else config);
          config = (if rl_TokensPerRequest config < 1
                    then config\<lparr>rl_TokensPerRequest := 1\<rparr> else config);
          config = (if rl_TokensPerRequest config > rl_Capacity config
                    then config\<lparr>rl_TokensPerRequest := rl_Capacity config\<rparr> else config);
          initialTokens = real_of_int (rl_Capacity config)
      in \<lparr>rl_config = config, rl_tokens = initialTokens, rl_lastUpdate = now,
          rl_metrics = NewRateLimiterMetrics initialTokens\<rparr>)"

section \<open>The global limiter: operations\<close>

definition rl_refillTokens :: "time \<Rightarrow> RateLimiter \<Rightarrow> RateLimiter" where
  "rl_refillTokens now r =
     (let elapsed = Seconds (now - rl_lastUpdate r);
          tokensToAdd = elapsed * rl_Rate (rl_config r);
          tokens = min (rl_tokens r + tokensToAdd) (real_of_int (rl_Capacity (rl_config r)))
      in r\<lparr>rl_tokens := tokens, rl_lastUpdate := now,
           rl_metrics := (rl_metrics r)\<lparr>rlm_CurrentTokens := tokens\<rparr>\<rparr>)"

text \<open>How the first critical section of \<open>acquireTokens\<close> ends.\<close>

datatype acquire = Acquired | Refused go_error | WaitFor duration

text \<open>\<open>time.Duration(deficit / rate * 1000) * time.Millisecond\<close>.\<close>

definition rl_waitDuration :: "real \<Rightarrow> real \<Rightarrow> duration" where
  "rl_waitDuration deficit rate = go_trunc (deficit / rate * 1000) * millisecond"

definition rl_acquire_begin ::
    "time \<Rightarrow> int \<Rightarrow> bool \<Rightarrow> RateLimiter \<Rightarrow> acquire \<times> RateLimiter" where
  "rl_acquire_begin now tokensNeeded wait r =
     (let r = rl_refillTokens now r in
      if rl_tokens r \<ge> real_of_int tokensNeeded then
        let tokens = rl_tokens r - real_of_int tokensNeeded in
        (Acquired, r\<lparr>rl_tokens := tokens,
                     rl_metrics := (rl_metrics r)\<lparr>rlm_CurrentTokens := tokens\<rparr>\<rparr>)
      else if \<not> wait then (Refused (RateLimitError tokensNeeded (rl_tokens r)), r)
      else
        let tokensDeficit = real_of_int tokensNeeded - rl_tokens r;
            waitDuration = rl_waitDuration tokensDeficit (rl_Rate (rl_config r))
        in if rl_MaxWaitTimeout (rl_config r) > 0 \<and> waitDuration > rl_MaxWaitTimeout (rl_config r)
           then (Refused (RateLimitError tokensNeeded (rl_tokens r)), r)
           else (WaitFor waitDuration, r))"

definition rl_epsilon :: real where
  "rl_epsilon = 1 / 100"

definition rl_acquire_end ::
    "time \<Rightarrow> duration \<Rightarrow> int \<Rightarrow> RateLimiter \<Rightarrow> go_error option \<times> RateLimiter" where
  "rl_acquire_end now actualWait tokensNeeded r =
     (let r = rl_refillTokens now r in
      if rl_tokens r \<ge> real_of_int tokensNeeded - rl_epsilon then
        let tokens = rl_tokens r - real_of_int tokensNeeded in
        (None, r\<lparr>rl_tokens := tokens,
                 rl_metrics := (rl_metrics r)
                   \<lparr>rlm_CurrentTokens := tokens,
                    rlm_TotalWaitTime := rlm_TotalWaitTime (rl_metrics r) + actualWait\<rparr>\<rparr>)
      else (Some (RateLimitError tokensNeeded (rl_tokens r)), r))"

text \<open>
  \<open>select\<close> on \<open>time.After(d)\<close> and \<open>ctx.Done()\<close>: \<open>None\<close> when the timer fires first,
  otherwise \<open>ctx.Err()\<close>.
\<close>

type_synonym 'w sleeper = "duration \<Rightarrow> go_ctx \<Rightarrow> 'w \<Rightarrow> go_error option \<times> 'w"

definition rl_acquireTokens ::
    "'w clock \<Rightarrow> 'w sleeper \<Rightarrow> go_ctx \<Rightarrow> int \<Rightarrow> bool \<Rightarrow> RateLimiter \<times> 'w
      \<Rightarrow> go_error option \<times> RateLimiter \<times> 'w" where
  "rl_acquireTokens clk sleep ctx tokensNeeded wait rw =
     (let (r, w) = rw; (now, w) = clk w in
      case rl_acquire_begin now tokensNeeded wait r of
        (Acquired, r) \<Rightarrow> (None, r, w)
      | (Refused e, r) \<Rightarrow> (Some e, r, w)
      | (WaitFor d, r) \<Rightarrow>
          let (waitStart, w) = clk w in
          case sleep d ctx w of
            (Some e, w) \<Rightarrow> (Some e, r, w)
          | (None, w) \<Rightarrow>
              let (waitEnd, w) = clk w; (now, w) = clk w;
                  (e, r) = rl_acquire_end now (waitEnd - waitStart) tokensNeeded r
              in (e, r, w))"

definition rl_count_total :: "RateLimiter \<Rightarrow> RateLimiter" where
  "rl_count_total r =
     r\<lparr>rl_metrics := (rl_metrics r)\<lparr>rlm_TotalRequests := rlm_TotalRequests (rl_metrics r) + 1\<rparr>\<rparr>"

definition rl_count_allowed :: "RateLimiter \<Rightarrow> RateLimiter" where
  "rl_count_allowed r =
     r\<lparr>rl_metrics := (rl_metrics r)\<lparr>rlm_AllowedRequests := rlm_AllowedRequests (rl_metrics r) + 1\<rparr>\<rparr>"

definition rl_count_rejected :: "RateLimiter \<Rightarrow> RateLimiter" where
  "rl_count_rejected r =
     r\<lparr>rl_metrics := (rl_metrics r)\<lparr>rlm_RejectedRequests := rlm_RejectedRequests (rl_metrics r) + 1\<rparr>\<rparr>"

definition rl_Process ::
    "'w clock \<Rightarrow> 'w sleeper \<Rightarrow> 'w agent \<Rightarrow> go_ctx \<Rightarrow> message option \<Rightarrow> RateLimiter \<times> 'w
      \<Rightarrow> reply \<times> RateLimiter \<times> 'w" where
  "rl_Process clk sleep a ctx msg rw =
     (let (r, w) = rw; r = rl_count_total r in
      case rl_acquireTokens clk sleep ctx (rl_TokensPerRequest (rl_config r)) True (r, w) of
        (Some e, r, w) \<Rightarrow> (Err e, rl_count_rejected r, w)
      | (None, r, w) \<Rightarrow>
          let r = rl_count_allowed r; (rep, w) = agent_Process a ctx msg w in (rep, r, w))"

text \<open>
  \<open>Stream\<close>: \<open>stream\<close> is the wrapped agent's method, \<open>None\<close> when it is not a
  \<open>StreamingAgent\<close>; \<open>Inl e\<close> stands for a closed message channel and an error channel
  holding \<open>e\<close>.
\<close>

definition rl_Stream ::
    "'w clock \<Rightarrow> 'w sleeper \<Rightarrow> (go_ctx \<Rightarrow> message option \<Rightarrow> 'w \<Rightarrow> 'st \<times> 'w) option
      \<Rightarrow> go_ctx \<Rightarrow> message option \<Rightarrow> RateLimiter \<times> 'w \<Rightarrow> (go_error + 'st) \<times> RateLimiter \<times> 'w" where
  "rl_Stream clk sleep stream ctx msg rw =
     (let (r, w) = rw in
      case stream of
        None \<Rightarrow> (Inl (Errorf ''underlying agent does not support streaming'' [] None), r, w)
      | Some st \<Rightarrow>
          (case rl_acquireTokens clk sleep ctx (rl_TokensPerRequest (rl_config r)) True (r, w) of
             (Some e, r, w) \<Rightarrow> (Inl e, rl_count_rejected r, w)
           | (None, r, w) \<Rightarrow>
               let r = rl_count_allowed r; (x, w) = st ctx msg w in (Inr x, r, w)))"

section \<open>The global limiter: invariant and events\<close>

definition rl_ok :: "RateLimiter \<Rightarrow> bool" where
  "rl_ok r \<longleftrightarrow>
     (let k = rl_config r in
      0 < rl_Rate k \<and> 1 \<le> rl_TokensPerRequest k \<and> rl_TokensPerRequest k \<le> rl_Capacity k \<and>
      - rl_epsilon \<le> rl_tokens r \<and> rl_tokens r \<le> real_of_int (rl_Capacity k))"

lemmas [inv_defs] = rl_ok_def
lemmas rl_ops = rl_refillTokens_def rl_acquire_begin_def rl_acquire_end_def rl_epsilon_def
  rl_waitDuration_def Let_def

datatype rl_event = BeginAcquire time bool | EndAcquire time duration

fun rl_event_time :: "rl_event \<Rightarrow> time" where
  "rl_event_time (BeginAcquire t wait) = t"
| "rl_event_time (EndAcquire t waited) = t"

abbreviation rl_needed :: "RateLimiter \<Rightarrow> int" where
  "rl_needed r \<equiv> rl_TokensPerRequest (rl_config r)"

fun rl_apply :: "rl_event \<Rightarrow> RateLimiter \<Rightarrow> RateLimiter" where
  "rl_apply (BeginAcquire t wait) r = snd (rl_acquire_begin t (rl_needed r) wait r)"
| "rl_apply (EndAcquire t waited) r = snd (rl_acquire_end t waited (rl_needed r) r)"

fun rl_granted :: "rl_event \<Rightarrow> RateLimiter \<Rightarrow> real" where
  "rl_granted (BeginAcquire t wait) r =
     (if fst (rl_acquire_begin t (rl_needed r) wait r) = Acquired then real_of_int (rl_needed r) else 0)"
| "rl_granted (EndAcquire t waited) r =
     (if fst (rl_acquire_end t waited (rl_needed r) r) = None then real_of_int (rl_needed r) else 0)"

lemma rl_ok_new: "rl_ok (NewRateLimiterDecorator now config)"
  by (auto simp: NewRateLimiterDecorator_def rl_ok_def rl_epsilon_def Let_def)

lemma rl_new_simps [simp]:
  "rl_lastUpdate (NewRateLimiterDecorator now config) = now"
  "rl_tokens (NewRateLimiterDecorator now config) =
     real_of_int (rl_Capacity (rl_config (NewRateLimiterDecorator now config)))"
  by (simp_all add: NewRateLimiterDecorator_def Let_def)

lemma rl_apply_config [simp]: "rl_config (rl_apply e r) = rl_config r"
  by (cases e) (simp_all add: rl_ops)

lemma rl_apply_lastUpdate [simp]: "rl_lastUpdate (rl_apply e r) = rl_event_time e"
  by (cases e) (simp_all add: rl_ops)

lemma rl_refill_tokens:
  assumes "rl_ok r" and "rl_lastUpdate r \<le> now"
  shows "rl_tokens r \<le> rl_tokens (rl_refillTokens now r) \<and>
         rl_tokens (rl_refillTokens now r) \<le> real_of_int (rl_Capacity (rl_config r)) \<and>
         rl_tokens (rl_refillTokens now r) \<le>
           rl_tokens r + rl_Rate (rl_config r) * Seconds (now - rl_lastUpdate r)"
proof -
  have "0 \<le> Seconds (now - rl_lastUpdate r) * rl_Rate (rl_config r)"
    using assms by (auto simp: rl_ok_def Let_def Seconds_def)
  then show ?thesis
    using assms by (auto simp: rl_refillTokens_def rl_ok_def Let_def mult.commute)
qed

lemma rl_apply_tokens:
  "rl_tokens (rl_apply e r) = rl_tokens (rl_refillTokens (rl_event_time e) r) - rl_granted e r"
  by (cases e) (simp_all add: rl_acquire_begin_def rl_acquire_end_def Let_def)

lemma rl_granted_le:
  assumes "rl_ok r"
  shows "0 \<le> rl_granted e r \<and>
    rl_granted e r \<le> max 0 (rl_tokens (rl_refillTokens (rl_event_time e) r) + rl_epsilon)"
  using assms
  by (cases e) (auto simp: rl_acquire_begin_def rl_acquire_end_def rl_epsilon_def rl_ok_def Let_def)

lemma rl_ok_apply:
  assumes "rl_ok r" and "rl_lastUpdate r \<le> rl_event_time e"
  shows "rl_ok (rl_apply e r)"
  using assms rl_refill_tokens [OF assms] rl_granted_le [OF assms(1), of e]
  by (auto simp: rl_ok_def rl_apply_tokens Let_def)

interpretation global_limiter: token_bucket R rl_epsilon rl_tokens rl_lastUpdate rl_event_time
    rl_apply rl_granted "\<lambda>r. rl_ok r \<and> rl_Rate (rl_config r) = R" for R
proof unfold_locales
  fix r e
  assume r: "rl_ok r \<and> rl_Rate (rl_config r) = R" and t: "rl_lastUpdate r \<le> rl_event_time e"
  then show "rl_ok (rl_apply e r) \<and> rl_Rate (rl_config (rl_apply e r)) = R"
    by (simp add: rl_ok_apply)
  show "rl_tokens (rl_apply e r) + rl_granted e r
      \<le> rl_tokens r + R * Seconds (rl_lastUpdate (rl_apply e r) - rl_lastUpdate r)"
    using r t rl_refill_tokens [of r "rl_event_time e"] by (simp add: rl_apply_tokens)
  show "rl_lastUpdate r \<le> rl_lastUpdate (rl_apply e r) \<and>
      rl_lastUpdate (rl_apply e r) \<le> rl_event_time e"
    using t by simp
next
  show "rl_ok r \<and> rl_Rate (rl_config r) = R \<Longrightarrow> - rl_epsilon \<le> rl_tokens r" for r
    by (simp add: rl_ok_def Let_def)
qed

section \<open>The global limiter: properties\<close>

text \<open>
  C4. The limit on the admitted traffic: whatever concurrent requests do, in any interleaving
  of their critical sections with a clock that does not run backwards, the tokens granted by a
  fresh limiter up to time \<open>T\<close> are at most the capacity, plus the rate times the elapsed
  seconds, plus the comparison tolerance.
\<close>

theorem rl_granted_bound:
  assumes "r = NewRateLimiterDecorator t0 config"
    and "sorted (map rl_event_time es)"
    and "\<forall>e \<in> set es. t0 \<le> rl_event_time e \<and> rl_event_time e \<le> T" and "t0 \<le> T"
  shows "total_granted rl_apply rl_granted es r \<le>
     real_of_int (rl_Capacity (rl_config r)) + rl_Rate (rl_config r) * Seconds (T - t0) + rl_epsilon"
  using global_limiter.granted_bound [of "rl_Rate (rl_config r)" r es T] assms rl_ok_new [of t0 config]
  by (simp add: rl_ok_def Let_def)

theorem rl_granted_bound_witness:
  "total_granted rl_apply rl_granted [BeginAcquire 0 True, BeginAcquire 5 False]
     (NewRateLimiterDecorator 0 DefaultRateLimiterConfig)
   \<le> real_of_int (rl_Capacity (rl_config (NewRateLimiterDecorator 0 DefaultRateLimiterConfig))) +
     rl_Rate (rl_config (NewRateLimiterDecorator 0 DefaultRateLimiterConfig)) * Seconds (5 - 0) + rl_epsilon"
  by (rule rl_granted_bound [OF refl]) simp_all

text \<open>
  The bucket of a fresh limiter always holds between minus the tolerance and its capacity,
  after any interleaving of critical sections.
\<close>

lemma rl_tokens_bounded:
  assumes "sorted (map rl_event_time es)" and "\<forall>e \<in> set es. t0 \<le> rl_event_time e"
  shows "- rl_epsilon \<le> rl_tokens (run_events rl_apply es (NewRateLimiterDecorator t0 config)) \<and>
         rl_tokens (run_events rl_apply es (NewRateLimiterDecorator t0 config)) \<le>
           real_of_int (rl_Capacity (rl_config (NewRateLimiterDecorator t0 config)))"
proof -
  let ?r = "NewRateLimiterDecorator t0 config"
  have "rl_config (run_events rl_apply es r) = rl_config r" for r
    by (induction es arbitrary: r) simp_all
  moreover have "rl_ok (run_events rl_apply es ?r)"
    using global_limiter.run_ok [of ?r "rl_Rate (rl_config ?r)" es] assms rl_ok_new [of t0 config]
    by simp
  ultimately show ?thesis by (simp add: rl_ok_def Let_def)
qed

lemma rl_wait_seconds:
  assumes "0 < rate" and "0 \<le> deficit"
  shows "deficit - rate / 1000 < rate * Seconds (rl_waitDuration deficit rate)"
proof -
  have "deficit / rate * 1000 < real_of_int (go_trunc (deficit / rate * 1000)) + 1"
    by (rule go_trunc_gt)
  then have "deficit * 1000 < rate * (real_of_int (go_trunc (deficit / rate * 1000)) + 1)"
    using assms(1) by (simp add: field_simps)
  then show ?thesis
    by (simp add: rl_waitDuration_def Seconds_def millisecond_def field_simps)
qed

text \<open>
  A waiting request gets its tokens: when the limiter's rate is at most 10 tokens per
  second, a request that was told to wait for \<open>d\<close> and returns at least \<open>d\<close> later, with no
  other request served in between, is granted its tokens.
\<close>

lemma rl_wait_succeeds:
  assumes "rl_ok r" and "rl_lastUpdate r \<le> t" and "rl_Rate (rl_config r) \<le> 10"
    and "rl_acquire_begin t (rl_needed r) True r = (WaitFor d, r')" and "t + d \<le> t'"
  shows "fst (rl_acquire_end t' waited (rl_needed r') r') = None"
proof -
  let ?k = "rl_config r" and ?tok = "rl_tokens (rl_refillTokens t r)"
  let ?def = "real_of_int (rl_needed r) - ?tok"
  have r': "r' = rl_refillTokens t r" and d: "d = rl_waitDuration ?def (rl_Rate ?k)" and "0 < ?def"
    using assms(4) by (auto simp: rl_acquire_begin_def rl_refillTokens_def Let_def split: if_splits)
  have "0 < rl_Rate ?k" using assms(1) by (simp add: rl_ok_def Let_def)
  then have "?def - rl_Rate ?k / 1000 < rl_Rate ?k * Seconds d"
    using rl_wait_seconds \<open>0 < ?def\<close> d by simp
  also have "\<dots> \<le> rl_Rate ?k * Seconds (t' - t)"
    using assms(5) \<open>0 < rl_Rate ?k\<close>
    by (intro mult_left_mono) (auto simp: Seconds_def divide_right_mono)
  finally have "real_of_int (rl_needed r) - rl_epsilon \<le> ?tok + Seconds (t' - t) * rl_Rate ?k"
    using assms(3) by (simp add: rl_epsilon_def mult.commute)
  moreover have "real_of_int (rl_needed r) - rl_epsilon \<le> real_of_int (rl_Capacity ?k)"
    using assms(1) by (simp add: rl_ok_def rl_epsilon_def Let_def)
  ultimately show ?thesis
    unfolding r' by (simp add: rl_acquire_end_def rl_refillTokens_def Let_def)
qed

text \<open>
  Above 10 tokens per second the computed wait can be too short, because it is truncated
  to whole milliseconds while the tolerance is a fixed 0.01 tokens: with 100 tokens per second
  and capacity 1, a request that arrives half a millisecond after the bucket was emptied is
  told to wait 9 ms, and when it returns exactly then it is refused, although nobody else
  took tokens.
\<close>

lemma rl_wait_can_fail:
  "let k = \<lparr>rl_Rate = 100, rl_Capacity = 1, rl_TokensPerRequest = 1, rl_MaxWaitTimeout = 0\<rparr>;
       r0 = snd (rl_acquire_begin 0 1 True (NewRateLimiterDecorator 0 k));
       (res, r1) = rl_acquire_begin 500000 1 True r0
   in res = WaitFor 9000000 \<and>
      fst (rl_acquire_end (500000 + 9000000) 9000000 1 r1) = Some (RateLimitError 1 (95 / 100))"
  by (simp add: NewRateLimiterDecorator_def rl_ops go_defs floor_eq_iff)

text \<open>
  \<open>MaxWaitTimeout\<close> is respected: when it is set, no request is told to wait longer, and a
  request that would have to is refused at once, with the bucket only refilled.
\<close>

lemma rl_max_wait:
  assumes "0 < rl_MaxWaitTimeout (rl_config r)"
  shows "case rl_acquire_begin t n wait r of
           (WaitFor d, r') \<Rightarrow> d \<le> rl_MaxWaitTimeout (rl_config r) \<and> r' = rl_refillTokens t r
         | (Refused e, r') \<Rightarrow>
             e = RateLimitError n (rl_tokens (rl_refillTokens t r)) \<and> r' = rl_refillTokens t r
         | (Acquired, r') \<Rightarrow> rl_tokens r' = rl_tokens (rl_refillTokens t r) - real_of_int n"
  using assms
  by (simp add: rl_acquire_begin_def rl_refillTokens_def Let_def not_less)

lemma rl_refill_counts [simp]:
  "rlm_TotalRequests (rl_metrics (rl_refillTokens t r)) = rlm_TotalRequests (rl_metrics r)"
  "rlm_AllowedRequests (rl_metrics (rl_refillTokens t r)) = rlm_AllowedRequests (rl_metrics r)"
  "rlm_RejectedRequests (rl_metrics (rl_refillTokens t r)) = rlm_RejectedRequests (rl_metrics r)"
  by (simp_all add: rl_refillTokens_def Let_def)

text \<open>The counters of the metrics that \<open>acquireTokens\<close> leaves alone.\<close>

definition rl_counts :: "RateLimiter \<Rightarrow> int \<times> int \<times> int" where
  "rl_counts r =
     (rlm_TotalRequests (rl_metrics r), rlm_AllowedRequests (rl_metrics r),
      rlm_RejectedRequests (rl_metrics r))"

lemma rl_acquire_counts:
  "rl_counts (snd (rl_acquire_begin t n wait r)) = rl_counts r"
  "rl_counts (snd (rl_acquire_end t d n r)) = rl_counts r"
  by (simp_all add: rl_counts_def rl_acquire_begin_def rl_acquire_end_def Let_def)

lemma rl_acquireTokens_counts:
  assumes "rl_acquireTokens clk sleep ctx n wait (r, w) = (e, r', w')"
  shows "rl_counts r' = rl_counts r"
proof -
  obtain t w1 where clk: "clk w = (t, w1)" by force
  obtain res r1 where b: "rl_acquire_begin t n wait r = (res, r1)" by force
  have r1: "rl_counts r1 = rl_counts r" using rl_acquire_counts(1) [of t n wait r] b by simp
  show ?thesis
  proof (cases res)
    case (WaitFor d)
    obtain ws w2 where clk2: "clk w1 = (ws, w2)" by force
    obtain se w3 where sl: "sleep d ctx w2 = (se, w3)" by force
    obtain we w4 where clk3: "clk w3 = (we, w4)" by force
    obtain t' w5 where clk4: "clk w4 = (t', w5)" by force
    obtain e' r2 where f: "rl_acquire_end t' (we - ws) n r1 = (e', r2)" by force
    have "rl_counts r2 = rl_counts r1" using rl_acquire_counts(2) [of t' "we - ws" n r1] f by simp
    with assms r1 clk b WaitFor clk2 sl clk3 clk4 f show ?thesis
      by (cases se) (simp_all add: rl_acquireTokens_def)
  qed (use assms clk b r1 in \<open>simp_all add: rl_acquireTokens_def\<close>)
qed

text \<open>
  Every \<open>Process\<close> call is counted once in the total and once as allowed or rejected; it is
  allowed exactly when the wrapped agent was called, and an error of the limiter itself counts
  as a rejection.  A \<open>Stream\<close> call is counted as allowed or rejected but not in the total.
\<close>

lemma rl_accounting:
  "case rl_counts r of (n, ok, no) \<Rightarrow>
     rl_counts (fst (snd (rl_Process clk sleep a ctx msg (r, w)))) \<in>
       {(n + 1, ok + 1, no), (n + 1, ok, no + 1)} \<and>
     rl_counts (fst (snd (rl_Stream clk sleep (Some st) ctx msg (r, w)))) \<in>
       {(n, ok + 1, no), (n, ok, no + 1)}"
proof -
  obtain n ok no where r: "rl_counts r = (n, ok, no)" by (cases "rl_counts r")
  obtain e r1 w1 where
    p: "rl_acquireTokens clk sleep ctx (rl_needed (rl_count_total r)) True (rl_count_total r, w) = (e, r1, w1)"
    by (cases "rl_acquireTokens clk sleep ctx (rl_needed (rl_count_total r)) True (rl_count_total r, w)")
  have "rl_counts r1 = (n + 1, ok, no)"
    using rl_acquireTokens_counts [OF p] r by (simp add: rl_counts_def rl_count_total_def)
  then have "rl_counts (fst (snd (rl_Process clk sleep a ctx msg (r, w)))) \<in>
      {(n + 1, ok + 1, no), (n + 1, ok, no + 1)}"
    using p by (auto simp: rl_Process_def Let_def rl_counts_def rl_count_allowed_def
        rl_count_rejected_def split: option.splits prod.splits)
  moreover obtain e2 r2 w2 where
    q: "rl_acquireTokens clk sleep ctx (rl_needed r) True (r, w) = (e2, r2, w2)"
    by (cases "rl_acquireTokens clk sleep ctx (rl_needed r) True (r, w)")
  have "rl_counts r2 = (n, ok, no)"
    using rl_acquireTokens_counts [OF q] r by simp
  then have "rl_counts (fst (snd (rl_Stream clk sleep (Some st) ctx msg (r, w)))) \<in>
      {(n, ok + 1, no), (n, ok, no + 1)}"
    using q by (auto simp: rl_Stream_def Let_def rl_counts_def rl_count_allowed_def
        rl_count_rejected_def split: option.splits prod.splits)
  ultimately show ?thesis using r by simp
qed

section \<open>The per-user limiter\<close>

text \<open>
  The configuration's \<open>UserIDExtractor\<close> is \<open>None\<close> for a nil function; an extractor may
  panic (the default one does on a nil message).
\<close>

record PerUserRateLimiterConfig =
  pu_Rate :: real
  pu_Capacity :: int
  pu_TokensPerRequest :: int
  pu_MaxWaitTimeout :: duration
  pu_UserIDExtractor :: "(message option \<Rightarrow> string option outcome) option"

definition defaultUserIDExtractor :: "message option \<Rightarrow> string option outcome" where
  "defaultUserIDExtractor msg =
     (case msg of
        None \<Rightarrow> Panic ''nil pointer dereference''
      | Some m \<Rightarrow> Ok (case meta_get m ''user_id'' of Some (GStr userID) \<Rightarrow> Some userID | _ \<Rightarrow> None))"

definition DefaultPerUserRateLimiterConfig :: PerUserRateLimiterConfig where
  "DefaultPerUserRateLimiterConfig =
     \<lparr>pu_Rate = 10, pu_Capacity = 10, pu_TokensPerRequest = 1, pu_MaxWaitTimeout = 0,
      pu_UserIDExtractor = Some defaultUserIDExtractor\<rparr>"

record userBucket =
  ub_tokens :: real
  ub_lastUpdate :: time

record PerUserRateLimiterMetrics =
  pum_TotalRequests :: int
  pum_AllowedRequests :: int
  pum_RejectedRequests :: int
  pum_TotalWaitTime :: duration
  pum_ActiveUsers :: int

record PerUserRateLimiter =
  pu_config :: PerUserRateLimiterConfig
  pu_buckets :: "(string \<times> userBucket) list"
  pu_metrics :: PerUserRateLimiterMetrics

definition NewPerUserRateLimiterDecorator :: "PerUserRateLimiterConfig \<Rightarrow> PerUserRateLimiter" where
  "NewPerUserRateLimiterDecorator config =
     (let config = (if pu_Rate config \<le> 0 then config\<lparr>pu_Rate := 10\<rparr> else config);
          config = (if pu_Capacity config < 1 then config\<lparr>pu_Capacity := 10\<rparr> else config);
          config = (if pu_TokensPerRequest config < 1
                    then config\<lparr>pu_TokensPerRequest := 1\<rparr> else config);
          config = (if pu_UserIDExtractor config = None
                    then config\<lparr>pu_UserIDExtractor := Some defaultUserIDExtractor\<rparr> else config);
          config = (if pu_TokensPerRequest config > pu_Capacity config
                    then config\<lparr>pu_TokensPerRequest := pu_Capacity config\<rparr> else config)
      in \<lparr>pu_config = config, pu_buckets = [],
          pu_metrics = \<lparr>pum_TotalRequests = 0, pum_AllowedRequests = 0, pum_RejectedRequests = 0,
                        pum_TotalWaitTime = 0, pum_ActiveUsers = 0\<rparr>\<rparr>)"

definition pu_getUserBucket ::
    "time \<Rightarrow> string \<Rightarrow> PerUserRateLimiter \<Rightarrow> userBucket \<times> PerUserRateLimiter" where
  "pu_getUserBucket now userID r =
     (case go_get (pu_buckets r) userID of
        Some bucket \<Rightarrow> (bucket, r)
      | None \<Rightarrow>
          let bucket = \<lparr>ub_tokens = real_of_int (pu_Capacity (pu_config r)), ub_lastUpdate = now\<rparr>;
              buckets = go_set userID bucket (pu_buckets r)
          in (bucket, r\<lparr>pu_buckets := buckets,
                        pu_metrics := (pu_metrics r)\<lparr>pum_ActiveUsers := int (length buckets)\<rparr>\<rparr>))"

definition pu_refillUserTokens :: "time \<Rightarrow> PerUserRateLimiterConfig \<Rightarrow> userBucket \<Rightarrow> userBucket" where
  "pu_refillUserTokens now k bucket =
     (let elapsed = Seconds (now - ub_lastUpdate bucket);
          tokensToAdd = elapsed * pu_Rate k
      in \<lparr>ub_tokens = min (ub_tokens bucket + tokensToAdd) (real_of_int (pu_Capacity k)),
          ub_lastUpdate = now\<rparr>)"

text \<open>A write through the bucket's pointer, which the map holds.\<close>

definition pu_store :: "string \<Rightarrow> userBucket \<Rightarrow> PerUserRateLimiter \<Rightarrow> PerUserRateLimiter" where
  "pu_store userID bucket r = r\<lparr>pu_buckets := go_set userID bucket (pu_buckets r)\<rparr>"

definition pu_acquire_begin ::
    "time \<Rightarrow> time \<Rightarrow> string \<Rightarrow> int \<Rightarrow> bool \<Rightarrow> PerUserRateLimiter \<Rightarrow> acquire \<times> PerUserRateLimiter" where
  "pu_acquire_begin now now' userID tokensNeeded wait r =
     (let (bucket, r) = pu_getUserBucket now userID r;
          bucket = pu_refillUserTokens now' (pu_config r) bucket
      in if ub_tokens bucket \<ge> real_of_int tokensNeeded then
           (Acquired, pu_store userID
              (bucket\<lparr>ub_tokens := ub_tokens bucket - real_of_int tokensNeeded\<rparr>) r)
         else
           let r = pu_store userID bucket r in
           if \<not> wait then (Refused (RateLimitError tokensNeeded (ub_tokens bucket)), r)
           else
             let tokensDeficit = real_of_int tokensNeeded - ub_tokens bucket;
                 waitDuration = rl_waitDuration tokensDeficit (pu_Rate (pu_config r))
             in if pu_MaxWaitTimeout (pu_config r) > 0 \<and>
                   waitDuration > pu_MaxWaitTimeout (pu_config r)
                then (Refused (RateLimitError tokensNeeded (ub_tokens bucket)), r)
                else (WaitFor waitDuration, r))"

text \<open>
  The bucket of a waiting request is in the map (buckets are never removed); the other case
  cannot occur.
\<close>

definition pu_acquire_end ::
    "time \<Rightarrow> duration \<Rightarrow> string \<Rightarrow> int \<Rightarrow> PerUserRateLimiter \<Rightarrow> go_error option \<times> PerUserRateLimiter" where
  "pu_acquire_end now actualWait userID tokensNeeded r =
     (case go_get (pu_buckets r) userID of
        None \<Rightarrow> (Some (Errors_New ''no bucket''), r)
      | Some bucket \<Rightarrow>
          let bucket = pu_refillUserTokens now (pu_config r) bucket in
          if ub_tokens bucket \<ge> real_of_int tokensNeeded - rl_epsilon then
            (None,
             (pu_store userID (bucket\<lparr>ub_tokens := ub_tokens bucket - real_of_int tokensNeeded\<rparr>) r)
               \<lparr>pu_metrics := (pu_metrics r)
                  \<lparr>pum_TotalWaitTime := pum_TotalWaitTime (pu_metrics r) + actualWait\<rparr>\<rparr>)
          else (Some (RateLimitError tokensNeeded (ub_tokens bucket)), pu_store userID bucket r))"

definition pu_acquireUserTokens ::
    "'w clock \<Rightarrow> 'w sleeper \<Rightarrow> go_ctx \<Rightarrow> string \<Rightarrow> int \<Rightarrow> bool \<Rightarrow> PerUserRateLimiter \<times> 'w
      \<Rightarrow> go_error option \<times> PerUserRateLimiter \<times> 'w" where
  "pu_acquireUserTokens clk sleep ctx userID tokensNeeded wait rw =
     (let (r, w) = rw; (now, w) = clk w; (now', w) = clk w in
      case pu_acquire_begin now now' userID tokensNeeded wait r of
        (Acquired, r) \<Rightarrow> (None, r, w)
      | (Refused e, r) \<Rightarrow> (Some e, r, w)
      | (WaitFor d, r) \<Rightarrow>
          let (waitStart, w) = clk w in
          case sleep d ctx w of
            (Some e, w) \<Rightarrow> (Some e, r, w)
          | (None, w) \<Rightarrow>
              let (waitEnd, w) = clk w; (now, w) = clk w;
                  (e, r) = pu_acquire_end now (waitEnd - waitStart) userID tokensNeeded r
              in (e, r, w))"

definition pu_count_total :: "PerUserRateLimiter \<Rightarrow> PerUserRateLimiter" where
  "pu_count_total r =
     r\<lparr>pu_metrics := (pu_metrics r)\<lparr>pum_TotalRequests := pum_TotalRequests (pu_metrics r) + 1\<rparr>\<rparr>"

definition pu_count_allowed :: "PerUserRateLimiter \<Rightarrow> PerUserRateLimiter" where
  "pu_count_allowed r =
     r\<lparr>pu_metrics := (pu_metrics r)\<lparr>pum_AllowedRequests := pum_AllowedRequests (pu_metrics r) + 1\<rparr>\<rparr>"

definition pu_count_rejected :: "PerUserRateLimiter \<Rightarrow> PerUserRateLimiter" where
  "pu_count_rejected r =
     r\<lparr>pu_metrics := (pu_metrics r)\<lparr>pum_RejectedRequests := pum_RejectedRequests (pu_metrics r) + 1\<rparr>\<rparr>"

text \<open>The extractor in use: the constructor never leaves it nil.\<close>

definition pu_userID :: "PerUserRateLimiter \<Rightarrow> message option \<Rightarrow> string outcome" where
  "pu_userID r msg =
     (case pu_UserIDExtractor (pu_config r) of
        None \<Rightarrow> Panic ''nil function call''
      | Some f \<Rightarrow>
          (case f msg of
             Ok None \<Rightarrow> Ok ''anonymous''
           | Ok (Some u) \<Rightarrow> Ok u
           | Err e \<Rightarrow> Err e
           | Panic p \<Rightarrow> Panic p))"

definition pu_Process ::
    "'w clock \<Rightarrow> 'w sleeper \<Rightarrow> 'w agent \<Rightarrow> go_ctx \<Rightarrow> message option \<Rightarrow> PerUserRateLimiter \<times> 'w
      \<Rightarrow> reply \<times> PerUserRateLimiter \<times> 'w" where
  "pu_Process clk sleep a ctx msg rw =
     (let (r, w) = rw; r = pu_count_total r in
      case pu_userID r msg of
        Panic p \<Rightarrow> (Panic p, r, w)
      | Err e \<Rightarrow> (Err e, r, w)
      | Ok userID \<Rightarrow>
          (case pu_acquireUserTokens clk sleep ctx userID (pu_TokensPerRequest (pu_config r)) True (r, w) of
             (Some e, r, w) \<Rightarrow> (Err e, pu_count_rejected r, w)
           | (None, r, w) \<Rightarrow>
               let r = pu_count_allowed r; (rep, w) = agent_Process a ctx msg w in (rep, r, w)))"

definition pu_Stream ::
    "'w clock \<Rightarrow> 'w sleeper \<Rightarrow> (go_ctx \<Rightarrow> message option \<Rightarrow> 'w \<Rightarrow> 'st \<times> 'w) option
      \<Rightarrow> go_ctx \<Rightarrow> message option \<Rightarrow> PerUserRateLimiter \<times> 'w
      \<Rightarrow> 'st outcome \<times> PerUserRateLimiter \<times> 'w" where
  "pu_Stream clk sleep stream ctx msg rw =
     (let (r, w) = rw in
      case stream of
        None \<Rightarrow> (Err (Errorf ''underlying agent does not support streaming'' [] None), r, w)
      | Some st \<Rightarrow>
          (case pu_userID r msg of
             Panic p \<Rightarrow> (Panic p, r, w)
           | Err e \<Rightarrow> (Err e, r, w)
           | Ok userID \<Rightarrow>
               (case pu_acquireUserTokens clk sleep ctx userID (pu_TokensPerRequest (pu_config r)) True (r, w) of
                  (Some e, r, w) \<Rightarrow> (Err e, pu_count_rejected r, w)
                | (None, r, w) \<Rightarrow>
                    let r = pu_count_allowed r; (x, w) = st ctx msg w in (Ok x, r, w))))"

section \<open>The per-user limiter: every user has a bucket of their own\<close>

text \<open>
  The critical sections of concurrent requests.  The first one reads the clock twice, the
  second time \<open>d\<close> nanoseconds after the first.
\<close>

datatype pu_event = UserBegin time nat string bool | UserEnd time duration string

fun pu_event_time :: "pu_event \<Rightarrow> time" where
  "pu_event_time (UserBegin t d u wait) = t + int d"
| "pu_event_time (UserEnd t waited u) = t"

fun pu_event_user :: "pu_event \<Rightarrow> string" where
  "pu_event_user (UserBegin t d u wait) = u"
| "pu_event_user (UserEnd t waited u) = u"

abbreviation pu_needed :: "PerUserRateLimiter \<Rightarrow> int" where
  "pu_needed r \<equiv> pu_TokensPerRequest (pu_config r)"

fun pu_apply :: "pu_event \<Rightarrow> PerUserRateLimiter \<Rightarrow> PerUserRateLimiter" where
  "pu_apply (UserBegin t d u wait) r = snd (pu_acquire_begin t (t + int d) u (pu_needed r) wait r)"
| "pu_apply (UserEnd t waited u) r = snd (pu_acquire_end t waited u (pu_needed r) r)"

fun pu_admits :: "pu_event \<Rightarrow> PerUserRateLimiter \<Rightarrow> bool" where
  "pu_admits (UserBegin t d u wait) r =
     (fst (pu_acquire_begin t (t + int d) u (pu_needed r) wait r) = Acquired)"
| "pu_admits (UserEnd t waited u) r = (fst (pu_acquire_end t waited u (pu_needed r) r) = None)"

definition pu_granted :: "string \<Rightarrow> pu_event \<Rightarrow> PerUserRateLimiter \<Rightarrow> real" where
  "pu_granted u e r =
     (if pu_event_user e = u \<and> pu_admits e r then real_of_int (pu_needed r) else 0)"

text \<open>What user \<open>u\<close> sees: a user without a bucket yet has a full one, stamped \<open>t0\<close>.\<close>

definition pu_level :: "string \<Rightarrow> PerUserRateLimiter \<Rightarrow> real" where
  "pu_level u r =
     (case go_get (pu_buckets r) u of
        None \<Rightarrow> real_of_int (pu_Capacity (pu_config r)) | Some b \<Rightarrow> ub_tokens b)"

definition pu_stamp :: "time \<Rightarrow> string \<Rightarrow> PerUserRateLimiter \<Rightarrow> time" where
  "pu_stamp t0 u r =
     (case go_get (pu_buckets r) u of None \<Rightarrow> t0 | Some b \<Rightarrow> ub_lastUpdate b)"

definition pu_ok :: "string \<Rightarrow> PerUserRateLimiter \<Rightarrow> bool" where
  "pu_ok u r \<longleftrightarrow>
     (let k = pu_config r in
      0 < pu_Rate k \<and> 1 \<le> pu_TokensPerRequest k \<and> pu_TokensPerRequest k \<le> pu_Capacity k \<and>
      - rl_epsilon \<le> pu_level u r \<and> pu_level u r \<le> real_of_int (pu_Capacity k))"

lemmas pu_ops = pu_acquire_begin_def pu_acquire_end_def pu_getUserBucket_def pu_store_def Let_def

lemma pu_apply_config [simp]: "pu_config (pu_apply e r) = pu_config r"
  by (cases e) (simp_all add: pu_ops split: option.splits)

lemma pu_apply_other:
  "pu_event_user e \<noteq> u \<Longrightarrow> go_get (pu_buckets (pu_apply e r)) u = go_get (pu_buckets r) u"
  by (cases e) (auto simp: pu_ops split: option.splits)

lemma pu_bucket_kept:
  "go_get (pu_buckets r) u \<noteq> None \<Longrightarrow> go_get (pu_buckets (pu_apply e r)) u \<noteq> None"
  by (cases e) (auto simp: pu_ops split: option.splits)

text \<open>The bucket that a section of user \<open>u\<close> works on, refilled at the section's time.\<close>

definition pu_refilled :: "pu_event \<Rightarrow> PerUserRateLimiter \<Rightarrow> userBucket option" where
  "pu_refilled e r =
     map_option (pu_refillUserTokens (pu_event_time e) (pu_config r))
       (case e of
          UserBegin t d u wait \<Rightarrow> Some (fst (pu_getUserBucket t u r))
        | UserEnd t waited u \<Rightarrow> go_get (pu_buckets r) u)"

lemma pu_apply_own:
  "pu_event_user e = u \<Longrightarrow>
     (case pu_refilled e r of
        None \<Rightarrow> pu_apply e r = r \<and> \<not> pu_admits e r
      | Some b \<Rightarrow>
          go_get (pu_buckets (pu_apply e r)) u =
            Some (b\<lparr>ub_tokens := ub_tokens b - pu_granted u e r\<rparr>) \<and>
          (pu_admits e r \<longrightarrow> real_of_int (pu_needed r) \<le> ub_tokens b + rl_epsilon))"
  by (cases e)
    (auto simp: pu_ops pu_refilled_def pu_granted_def rl_epsilon_def split: option.splits)

lemma pu_refilled_bounds:
  assumes "pu_ok u r" and "pu_stamp t0 u r \<le> pu_event_time e" and "pu_event_user e = u"
    and "pu_refilled e r = Some b"
  shows "- rl_epsilon \<le> ub_tokens b \<and> ub_tokens b \<le> real_of_int (pu_Capacity (pu_config r)) \<and>
     ub_lastUpdate b = pu_event_time e \<and>
     ub_tokens b \<le> pu_level u r + pu_Rate (pu_config r) * Seconds (pu_event_time e - pu_stamp t0 u r)"
proof -
  have rate: "0 < pu_Rate (pu_config r)" using assms(1) by (simp add: pu_ok_def Let_def)
  have grow: "0 \<le> Seconds (d :: int) * pu_Rate (pu_config r)" if "0 \<le> d" for d
    using rate that by (simp add: Seconds_def)
  show ?thesis
  proof (cases "go_get (pu_buckets r) u")
    case None
    then obtain t d wait where e: "e = UserBegin t d u wait"
      using assms(3,4) by (cases e) (auto simp: pu_refilled_def)
    have "0 \<le> Seconds (t + int d - t0) * pu_Rate (pu_config r)"
      using grow assms(2) e None by (simp add: pu_stamp_def)
    with None e assms(1,4) grow [of "int d"] show ?thesis
      by (auto simp: pu_refilled_def pu_getUserBucket_def pu_refillUserTokens_def pu_level_def
          pu_stamp_def pu_ok_def rl_epsilon_def Let_def mult.commute)
  next
    case (Some b0)
    then have b: "b = pu_refillUserTokens (pu_event_time e) (pu_config r) b0"
      using assms(3,4) by (cases e) (auto simp: pu_refilled_def pu_getUserBucket_def)
    have "0 \<le> Seconds (pu_event_time e - ub_lastUpdate b0) * pu_Rate (pu_config r)"
      using grow assms(2) Some by (simp add: pu_stamp_def)
    with Some b assms(1) show ?thesis
      by (auto simp: pu_refillUserTokens_def pu_level_def pu_stamp_def pu_ok_def rl_epsilon_def
          Let_def mult.commute)
  qed
qed

lemma pu_apply_laws:
  assumes "pu_ok u r" and "pu_stamp t0 u r \<le> pu_event_time e"
  shows "pu_ok u (pu_apply e r)"
    and "pu_level u (pu_apply e r) + pu_granted u e r \<le>
       pu_level u r + pu_Rate (pu_config r) * Seconds (pu_stamp t0 u (pu_apply e r) - pu_stamp t0 u r)"
    and "pu_stamp t0 u r \<le> pu_stamp t0 u (pu_apply e r) \<and> pu_stamp t0 u (pu_apply e r) \<le> pu_event_time e"
proof -
  let ?r = "pu_apply e r"
  have "pu_ok u ?r \<and>
      pu_level u ?r + pu_granted u e r \<le>
        pu_level u r + pu_Rate (pu_config r) * Seconds (pu_stamp t0 u ?r - pu_stamp t0 u r) \<and>
      pu_stamp t0 u r \<le> pu_stamp t0 u ?r \<and> pu_stamp t0 u ?r \<le> pu_event_time e"
  proof (cases "pu_event_user e = u")
    case False
    with assms pu_apply_other [OF False] show ?thesis
      by (auto simp: pu_ok_def pu_level_def pu_stamp_def pu_granted_def Seconds_def Let_def
          split: option.splits)
  next
    case True
    show ?thesis
    proof (cases "pu_refilled e r")
      case None
      with True assms pu_apply_own [OF True, of r] show ?thesis
        by (simp add: pu_granted_def Seconds_def)
    next
      case (Some b)
      have own: "go_get (pu_buckets ?r) u = Some (b\<lparr>ub_tokens := ub_tokens b - pu_granted u e r\<rparr>)"
        and adm: "pu_admits e r \<longrightarrow> real_of_int (pu_needed r) \<le> ub_tokens b + rl_epsilon"
        using pu_apply_own [OF True, of r] Some by simp_all
      have "1 \<le> pu_needed r" using assms(1) by (simp add: pu_ok_def Let_def)
      with adm have "0 \<le> pu_granted u e r" "pu_granted u e r \<le> max 0 (ub_tokens b + rl_epsilon)"
        by (auto simp: pu_granted_def)
      with own assms pu_refilled_bounds [OF assms True Some] show ?thesis
        by (auto simp: pu_ok_def pu_level_def pu_stamp_def Let_def)
    qed
  qed
  then show "pu_ok u ?r"
    and "pu_level u ?r + pu_granted u e r \<le>
       pu_level u r + pu_Rate (pu_config r) * Seconds (pu_stamp t0 u ?r - pu_stamp t0 u r)"
    and "pu_stamp t0 u r \<le> pu_stamp t0 u ?r \<and> pu_stamp t0 u ?r \<le> pu_event_time e"
    by blast+
qed

interpretation user_limiter: token_bucket R rl_epsilon "pu_level u" "pu_stamp t0 u" pu_event_time
    pu_apply "pu_granted u" "\<lambda>r. pu_ok u r \<and> pu_Rate (pu_config r) = R" for R t0 u
proof unfold_locales
  fix r e
  assume "pu_ok u r \<and> pu_Rate (pu_config r) = R" and "pu_stamp t0 u r \<le> pu_event_time e"
  then show "pu_ok u (pu_apply e r) \<and> pu_Rate (pu_config (pu_apply e r)) = R"
    and "pu_level u (pu_apply e r) + pu_granted u e r
      \<le> pu_level u r + R * Seconds (pu_stamp t0 u (pu_apply e r) - pu_stamp t0 u r)"
    and "pu_stamp t0 u r \<le> pu_stamp t0 u (pu_apply e r) \<and>
      pu_stamp t0 u (pu_apply e r) \<le> pu_event_time e"
    using pu_apply_laws [of u r t0 e] by auto
next
  show "pu_ok u r \<and> pu_Rate (pu_config r) = R \<Longrightarrow> - rl_epsilon \<le> pu_level u r" for r
    by (simp add: pu_ok_def Let_def)
qed

lemma pu_new_ok: "pu_ok u (NewPerUserRateLimiterDecorator config)"
  by (auto simp: NewPerUserRateLimiterDecorator_def pu_ok_def pu_level_def rl_epsilon_def Let_def)

lemma pu_new_buckets [simp]: "pu_buckets (NewPerUserRateLimiterDecorator config) = []"
  by (simp add: NewPerUserRateLimiterDecorator_def Let_def)

text \<open>
  C21. Per-user limit: in any interleaving of the critical sections of requests of all users,
  the tokens granted to one user by a fresh limiter are at most that user's capacity, plus the
  rate times the elapsed seconds, plus the tolerance.
\<close>

theorem pu_granted_bound:
  assumes "r = NewPerUserRateLimiterDecorator config"
    and "sorted (map pu_event_time es)"
    and "\<forall>e \<in> set es. t0 \<le> pu_event_time e \<and> pu_event_time e \<le> T" and "t0 \<le> T"
  shows "total_granted pu_apply (pu_granted u) es r \<le>
     real_of_int (pu_Capacity (pu_config r)) + pu_Rate (pu_config r) * Seconds (T - t0) + rl_epsilon"
  using user_limiter.granted_bound [of "pu_Rate (pu_config r)" u r es t0 T] assms pu_new_ok [of u config]
  by (simp add: pu_ok_def pu_level_def pu_stamp_def Let_def)

theorem pu_granted_bound_witness:
  "let r = NewPerUserRateLimiterDecorator DefaultPerUserRateLimiterConfig in
   total_granted pu_apply (pu_granted ''u'') [UserBegin 0 1 ''u'' True, UserBegin 2 0 ''v'' True] r \<le>
     real_of_int (pu_Capacity (pu_config r)) + pu_Rate (pu_config r) * Seconds (2 - 0) + rl_epsilon"
  unfolding Let_def by (rule pu_granted_bound [OF refl]) simp_all

text \<open>
  Isolation: a critical section of one user's request leaves the bucket of every other
  user untouched, and what it decides depends on that user's own bucket only.
\<close>

lemma pu_isolation:
  assumes "pu_event_user e = u" and "pu_config r = pu_config r'"
    and "go_get (pu_buckets r) u = go_get (pu_buckets r') u"
  shows "(\<forall>v. v \<noteq> u \<longrightarrow> go_get (pu_buckets (pu_apply e r)) v = go_get (pu_buckets r) v) \<and>
         pu_admits e r = pu_admits e r' \<and>
         go_get (pu_buckets (pu_apply e r)) u = go_get (pu_buckets (pu_apply e r')) u"
proof -
  have "pu_admits e r = pu_admits e r' \<and>
      go_get (pu_buckets (pu_apply e r)) u = go_get (pu_buckets (pu_apply e r')) u"
    using assms by (cases e) (auto simp: pu_ops split: option.splits)
  then show ?thesis using pu_apply_other assms(1) by auto
qed

end
