(* ===== verification/Retry.thy ===== *)
theory Retry
  imports Message
begin

text \<open>
  The retry middleware (\<open>middleware/retry.go\<close>).  \<open>retry_loop\<close> is the loop of
  \<open>RetryDecorator.Process\<close>; its theorems observe an arbitrary agent through \<open>logged\<close>, which
  records the replies the agent gives, and an arbitrary wait through the log of delays.
\<close>

section \<open>Data\<close>

record RetryMetrics =
  rm_TotalAttempts :: int
  rm_SuccessfulFirstAttempt :: int
  rm_SuccessfulOnRetry :: int
  rm_FailedAfterRetries :: int
  rm_TotalRetries :: int

record RetryConfig =
  rc_MaxRetries :: int
  rc_InitialRetryDelay :: duration
  rc_MaxRetryDelay :: duration
  rc_RetryMultiplier :: real
  rc_ShouldRetry :: "(go_error \<Rightarrow> bool) option"

definition DefaultRetryConfig :: RetryConfig where
  "DefaultRetryConfig =
     \<lparr>rc_MaxRetries = 3, rc_InitialRetryDelay = 100 * millisecond, rc_MaxRetryDelay = 10 * second,
      rc_RetryMultiplier = 2, rc_ShouldRetry = None\<rparr>"

record RetryDecorator =
  rd_config :: RetryConfig
  rd_metrics :: RetryMetrics

definition NewRetryDecorator :: "RetryConfig \<Rightarrow> RetryDecorator" where
  "NewRetryDecorator config =
     (let config = (if rc_MaxRetries config \<le> 0 then config\<lparr>rc_MaxRetries := 3\<rparr> else config);
          config = (if rc_InitialRetryDelay config \<le> 0
                    then config\<lparr>rc_InitialRetryDelay := 100 * millisecond\<rparr> else config);
          config = (if rc_MaxRetryDelay config \<le> 0
                    then config\<lparr>rc_MaxRetryDelay := 10 * second\<rparr> else config);
          config = (if rc_RetryMultiplier config \<le> 0
                    then config\<lparr>rc_RetryMultiplier := 2\<rparr> else config)
      in \<lparr>rd_config = config,
          rd_metrics = \<lparr>rm_TotalAttempts = 0, rm_SuccessfulFirstAttempt = 0,
            rm_SuccessfulOnRetry = 0, rm_FailedAfterRetries = 0, rm_TotalRetries = 0\<rparr>\<rparr>)"

section \<open>Operations\<close>

text \<open>
  \<open>select\<close> on \<open>ctx.Done()\<close> and \<open>time.After(backoff)\<close>: \<open>None\<close> when the timer fires,
  otherwise \<open>ctx.Err()\<close>.
\<close>

type_synonym 'w waiter = "duration \<Rightarrow> go_ctx \<Rightarrow> 'w \<Rightarrow> go_error option \<times> 'w"

definition next_backoff :: "RetryConfig \<Rightarrow> duration \<Rightarrow> duration" where
  "next_backoff k backoff =
     (let backoff = go_trunc (real_of_int backoff * rc_RetryMultiplier k) in
      if backoff > rc_MaxRetryDelay k then rc_MaxRetryDelay k else backoff)"

definition retryable :: "RetryConfig \<Rightarrow> go_error \<Rightarrow> bool" where
  "retryable k e = (case rc_ShouldRetry k of None \<Rightarrow> True | Some f \<Rightarrow> f e)"

definition rm_fail :: "RetryMetrics \<Rightarrow> RetryMetrics" where
  "rm_fail m = m\<lparr>rm_FailedAfterRetries := rm_FailedAfterRetries m + 1\<rparr>"

definition retry_exhausted :: "RetryConfig \<Rightarrow> go_error option \<Rightarrow> go_error" where
  "retry_exhausted k lastErr =
     Errorf ''max retry attempts (%d) exceeded: %w'' [GInt (rc_MaxRetries k)] lastErr"

definition retry_refused :: "RetryConfig \<Rightarrow> int \<Rightarrow> go_error \<Rightarrow> go_error" where
  "retry_refused k attempt e =
     Errorf ''non-retryable error on attempt %d/%d: %w''
       [GInt attempt, GInt (rc_MaxRetries k)] (Some e)"

definition retry_cancelled :: "int \<Rightarrow> go_error \<Rightarrow> go_error" where
  "retry_cancelled attempt ce = Errorf ''retry cancelled after %d attempts: %w'' [GInt attempt] (Some ce)"

function retry_loop ::
    "'w waiter \<Rightarrow> 'w agent \<Rightarrow> go_ctx \<Rightarrow> message option \<Rightarrow> RetryConfig \<Rightarrow> int \<Rightarrow> duration
      \<Rightarrow> go_error option \<Rightarrow> RetryMetrics \<Rightarrow> 'w \<Rightarrow> reply \<times> RetryMetrics \<times> 'w" where
  "retry_loop wait a ctx msg k attempt backoff lastErr m w =
     (if attempt \<le> rc_MaxRetries k then
        let m = m\<lparr>rm_TotalAttempts := rm_TotalAttempts m + 1\<rparr>;
            (rep, w) = agent_Process a ctx msg w
        in case rep of
             Ok r \<Rightarrow>
               (Ok r,
                (if attempt = 1
                 then m\<lparr>rm_SuccessfulFirstAttempt := rm_SuccessfulFirstAttempt m + 1\<rparr>
                 else m\<lparr>rm_SuccessfulOnRetry := rm_SuccessfulOnRetry m + 1\<rparr>), w)
           | Panic p \<Rightarrow> (Panic p, m, w)
           | Err e \<Rightarrow>
               if \<not> retryable k e then (Err (retry_refused k attempt e), rm_fail m, w)
               else if attempt = rc_MaxRetries k then
                 (Err (retry_exhausted k (Some e)), rm_fail m, w)
               else
                 let m = m\<lparr>rm_TotalRetries := rm_TotalRetries m + 1\<rparr> in
                 (case wait backoff ctx w of
                    (Some ce, w) \<Rightarrow> (Err (retry_cancelled attempt ce), rm_fail m, w)
                  | (None, w) \<Rightarrow>
                      retry_loop wait a ctx msg k (attempt + 1) (next_backoff k backoff) (Some e) m w)
      else (Err (retry_exhausted k lastErr), rm_fail m, w))"
  by pat_completeness auto
termination
  by (relation "measure (\<lambda>(wait, a, ctx, msg, k, attempt, _). nat (rc_MaxRetries k + 1 - attempt))") auto

declare retry_loop.simps [simp del]

definition retry_Process ::
    "'w waiter \<Rightarrow> 'w agent \<Rightarrow> go_ctx \<Rightarrow> message option \<Rightarrow> RetryDecorator \<times> 'w
      \<Rightarrow> reply \<times> RetryDecorator \<times> 'w" where
  "retry_Process wait a ctx msg dw =
     (let (d, w) = dw; k = rd_config d;
          (rep, m, w) = retry_loop wait a ctx msg k 1 (rc_InitialRetryDelay k) None (rd_metrics d) w
      in (rep, d\<lparr>rd_metrics := m\<rparr>, w))"

definition retry_agent :: "'w waiter \<Rightarrow> 'w agent \<Rightarrow> (RetryDecorator \<times> 'w) agent" where
  "retry_agent wait a =
     \<lparr>agent_Name = agent_Name a, agent_Capabilities = agent_Capabilities a,
      agent_Process = retry_Process wait a\<rparr>"

section \<open>Observing the agent\<close>

text \<open>The world extended with the replies given so far and the delays waited for so far.\<close>

type_synonym 'w log = "'w \<times> reply list \<times> duration list"

definition logged :: "'w agent \<Rightarrow> 'w log agent" where
  "logged a =
     \<lparr>agent_Name = agent_Name a, agent_Capabilities = agent_Capabilities a,
      agent_Process = (\<lambda>ctx msg (w, rs, ds).
        let (r, w') = agent_Process a ctx msg w in (r, w', rs @ [r], ds))\<rparr>"

definition logged_wait :: "'w waiter \<Rightarrow> 'w log waiter" where
  "logged_wait wait d ctx lg =
     (let (w, rs, ds) = lg; (e, w') = wait d ctx w in (e, w', rs, ds @ [d]))"

text \<open>
  The result of a run that started with attempt \<open>i\<close> and drew the replies \<open>rs\<close>: they are
  retryable errors up to the last, which decides the result.
\<close>

definition retry_verdict :: "RetryConfig \<Rightarrow> int \<Rightarrow> reply list \<Rightarrow> reply \<Rightarrow> bool" where
  "retry_verdict k i rs res \<longleftrightarrow>
     rs \<noteq> [] \<and> (\<forall>r \<in> set (butlast rs). \<exists>e. r = Err e \<and> retryable k e) \<and>
     (let n = i + int (length rs) - 1 in
      n \<le> rc_MaxRetries k \<and>
      (case last rs of
         Ok r \<Rightarrow> res = Ok r
       | Panic p \<Rightarrow> res = Panic p
       | Err e \<Rightarrow>
           if \<not> retryable k e then res = Err (retry_refused k n e)
           else if n = rc_MaxRetries k then res = Err (retry_exhausted k (Some e))
           else \<exists>ce. res = Err (retry_cancelled n ce)))"

lemma retry_verdict_single:
  "retry_verdict k i [rep] res \<longleftrightarrow>
     i \<le> rc_MaxRetries k \<and>
     (case rep of
        Ok r \<Rightarrow> res = Ok r
      | Panic p \<Rightarrow> res = Panic p
      | Err e \<Rightarrow>
          if \<not> retryable k e then res = Err (retry_refused k i e)
          else if i = rc_MaxRetries k then res = Err (retry_exhausted k (Some e))
          else \<exists>ce. res = Err (retry_cancelled i ce))"
  by (simp add: retry_verdict_def)

lemma retry_verdict_Cons:
  assumes "retry_verdict k (i + 1) rs res" and "retryable k e"
  shows "retry_verdict k i (Err e # rs) res"
  using assms by (auto simp: retry_verdict_def Let_def algebra_simps)

text \<open>What the metrics gain in a run of \<open>n\<close> attempts with \<open>d\<close> waits, from attempt \<open>i\<close> on.\<close>

definition retry_tally ::
    "int \<Rightarrow> int \<Rightarrow> int \<Rightarrow> reply \<Rightarrow> RetryMetrics \<Rightarrow> RetryMetrics \<Rightarrow> bool" where
  "retry_tally i n d res m m' \<longleftrightarrow>
     m' = m\<lparr>rm_TotalAttempts := rm_TotalAttempts m + n, rm_TotalRetries := rm_TotalRetries m + d,
           rm_SuccessfulFirstAttempt := rm_SuccessfulFirstAttempt m +
             (if is_Ok res \<and> i + n = 2 then 1 else 0),
           rm_SuccessfulOnRetry := rm_SuccessfulOnRetry m + (if is_Ok res \<and> i + n \<noteq> 2 then 1 else 0),
           rm_FailedAfterRetries := rm_FailedAfterRetries m +
             (if is_Ok res \<or> is_Panic res then 0 else 1)\<rparr>"

lemma retry_tally_step:
  assumes "retry_tally (i + 1) n d res
     (m\<lparr>rm_TotalAttempts := rm_TotalAttempts m + 1, rm_TotalRetries := rm_TotalRetries m + 1\<rparr>) m'"
  shows "retry_tally i (n + 1) (d + 1) res m m'"
  using assms by (simp add: retry_tally_def add.assoc add.commute)

lemma retry_loop_logged:
  assumes "i \<le> rc_MaxRetries k" and "agent_Process a ctx msg w = (rep, w1)"
  shows "retry_loop (logged_wait wait) (logged a) ctx msg k i b le m (w, rs, ds) =
    (let m = m\<lparr>rm_TotalAttempts := rm_TotalAttempts m + 1\<rparr>; l = (w1, rs @ [rep], ds) in
     case rep of
       Ok r \<Rightarrow>
         (Ok r, (if i = 1 then m\<lparr>rm_SuccessfulFirstAttempt := rm_SuccessfulFirstAttempt m + 1\<rparr>
                 else m\<lparr>rm_SuccessfulOnRetry := rm_SuccessfulOnRetry m + 1\<rparr>), l)
     | Panic p \<Rightarrow> (Panic p, m, l)
     | Err e \<Rightarrow>
         if \<not> retryable k e then (Err (retry_refused k i e), rm_fail m, l)
         else if i = rc_MaxRetries k then (Err (retry_exhausted k (Some e)), rm_fail m, l)
         else
           let m = m\<lparr>rm_TotalRetries := rm_TotalRetries m + 1\<rparr> in
           (case wait b ctx w1 of
              (Some ce, w2) \<Rightarrow> (Err (retry_cancelled i ce), rm_fail m, (w2, rs @ [rep], ds @ [b]))
            | (None, w2) \<Rightarrow>
                retry_loop (logged_wait wait) (logged a) ctx msg k (i + 1) (next_backoff k b) (Some e) m
                  (w2, rs @ [rep], ds @ [b])))"
  using assms
  by (subst retry_loop.simps)
    (simp add: logged_def [of a] logged_wait_def Let_def split: outcome.splits prod.splits option.splits)

definition retry_run ::
    "RetryConfig \<Rightarrow> int \<Rightarrow> duration \<Rightarrow> RetryMetrics \<Rightarrow> reply list \<Rightarrow> duration list
      \<Rightarrow> reply \<Rightarrow> RetryMetrics \<Rightarrow> bool" where
  "retry_run k i b m new dl res m' \<longleftrightarrow>
     retry_verdict k i new res \<and>
     retry_tally i (int (length new)) (int (length dl)) res m m' \<and>
     length new - 1 \<le> length dl \<and> length dl \<le> length new \<and>
     dl = map (\<lambda>j. (next_backoff k ^^ j) b) [0..<length dl]"

lemma map_upt_funpow_Cons:
  "b # map (\<lambda>j. (f ^^ j) (f b)) [0..<n] = map (\<lambda>j. (f ^^ j) b) [0..<Suc n]"
  by (simp add: upt_conv_Cons map_Suc_upt [symmetric] o_def funpow_swap1 del: upt_Suc)

lemma retry_run_step:
  assumes "retry_run k (i + 1) (next_backoff k b)
      (m\<lparr>rm_TotalAttempts := rm_TotalAttempts m + 1, rm_TotalRetries := rm_TotalRetries m + 1\<rparr>)
      new dl res m'"
    and "retryable k e"
  shows "retry_run k i b m (Err e # new) (b # dl) res m'"
proof -
  have "b # dl = map (\<lambda>j. (next_backoff k ^^ j) b) [0..<length (b # dl)]"
    using assms(1) map_upt_funpow_Cons [of b "next_backoff k" "length dl"]
    by (simp add: retry_run_def del: upt_Suc)
  moreover have "retry_tally i (int (length new) + 1) (int (length dl) + 1) res m m'"
    using assms(1) by (intro retry_tally_step) (simp add: retry_run_def)
  moreover have "retry_verdict k i (Err e # new) res"
    using assms by (intro retry_verdict_Cons) (simp_all add: retry_run_def)
  moreover have "length (Err e # new) - 1 \<le> length (b # dl)" "length (b # dl) \<le> length (Err e # new)"
    using assms(1) by (auto simp: retry_run_def)
  ultimately show ?thesis unfolding retry_run_def by (simp add: add.commute)
qed

lemma retry_run_stop:
  assumes "retry_verdict k i [rep] res" and "retry_tally i 1 0 res m m'"
  shows "retry_run k i b m [rep] [] res m'"
  using assms by (simp add: retry_run_def)

lemma retry_loop_run:
  assumes "i \<le> rc_MaxRetries k"
    and "retry_loop (logged_wait wait) (logged a) ctx msg k i b le m (w, rs, ds) =
           (res, m', (w', rs', ds'))"
  shows "\<exists>new dl. rs' = rs @ new \<and> ds' = ds @ dl \<and> retry_run k i b m new dl res m'"
  using assms
proof (induction "nat (rc_MaxRetries k - i)" arbitrary: i b le m w rs ds)
  case 0
  obtain rep w1 where p: "agent_Process a ctx msg w = (rep, w1)" by force
  from 0 have i: "i = rc_MaxRetries k" by simp
  have "retry_run k i b m [rep] [] res m' \<and> rs' = rs @ [rep] \<and> ds' = ds"
    using "0.prems"(2) i unfolding retry_loop_logged [OF "0.prems"(1) p] retry_run_def
    by (cases rep)
      (auto simp: retry_verdict_single retry_tally_def rm_fail_def Let_def split: if_splits)
  then show ?case by auto
next
  case (Suc n)
  obtain rep w1 where p: "agent_Process a ctx msg w = (rep, w1)" by force
  from Suc.hyps(2) have i: "i < rc_MaxRetries k" and n: "n = nat (rc_MaxRetries k - (i + 1))" by auto
  show ?case
  proof (cases "\<exists>e. rep = Err e \<and> retryable k e")
    case True
    then obtain e where e: "rep = Err e" "retryable k e" by blast
    obtain we w2 where wt: "wait b ctx w1 = (we, w2)" by force
    let ?m = "m\<lparr>rm_TotalAttempts := rm_TotalAttempts m + 1, rm_TotalRetries := rm_TotalRetries m + 1\<rparr>"
    show ?thesis
    proof (cases we)
      case (Some ce)
      have "retry_run k i b m [rep] [b] res m' \<and> rs' = rs @ [rep] \<and> ds' = ds @ [b]"
        using Suc.prems(2) i e wt Some unfolding retry_loop_logged [OF Suc.prems(1) p] retry_run_def
        by (auto simp: retry_verdict_single retry_tally_def rm_fail_def Let_def)
      then show ?thesis by blast
    next
      case None
      have "retry_loop (logged_wait wait) (logged a) ctx msg k (i + 1) (next_backoff k b) (Some e) ?m
          (w2, rs @ [rep], ds @ [b]) = (res, m', (w', rs', ds'))"
        using Suc.prems(2) i e wt None unfolding retry_loop_logged [OF Suc.prems(1) p]
        by (simp add: Let_def)
      from Suc.hyps(1) [OF n _ this] i obtain new dl where
        "rs' = (rs @ [rep]) @ new" "ds' = (ds @ [b]) @ dl" and
        "retry_run k (i + 1) (next_backoff k b) ?m new dl res m'" by auto
      with retry_run_step [of k i b m new dl res m' e] e show ?thesis
        by (intro exI [of _ "rep # new"] exI [of _ "b # dl"]) simp
    qed
  next
    case False
    have "retry_run k i b m [rep] [] res m' \<and> rs' = rs @ [rep] \<and> ds' = ds"
      using Suc.prems(2) i False unfolding retry_loop_logged [OF Suc.prems(1) p] retry_run_def
      by (cases rep) (auto simp: retry_verdict_single retry_tally_def rm_fail_def Let_def)
    then show ?thesis by auto
  qed
qed

text \<open>Logging changes neither the result nor the metrics nor the world.\<close>

lemma retry_loop_unlogged:
  assumes "retry_loop (logged_wait wait) (logged a) ctx msg k i b le m (w, rs, ds) =
     (res, m', (w', rs', ds'))"
  shows "retry_loop wait a ctx msg k i b le m w = (res, m', w')"
  using assms
proof (induction "nat (rc_MaxRetries k + 1 - i)" arbitrary: i b le m w rs ds)
  case 0
  then have "\<not> i \<le> rc_MaxRetries k" by simp
  with "0.prems" show ?case by (simp add: retry_loop.simps [of _ _ _ _ _ i])
next
  case (Suc n)
  then have i: "i \<le> rc_MaxRetries k" and n: "n = nat (rc_MaxRetries k + 1 - (i + 1))" by auto
  obtain rep w1 where p: "agent_Process a ctx msg w = (rep, w1)" by force
  obtain we w2 where wt: "wait b ctx w1 = (we, w2)" by force
  show ?case
    using Suc.prems i p wt Suc.hyps(1) [OF n]
    unfolding retry_loop_logged [OF i p]
    by (subst retry_loop.simps)
      (auto simp: Let_def split: outcome.splits if_splits option.splits)
qed

section \<open>Properties\<close>

lemma retry_new_positive:
  "1 \<le> rc_MaxRetries (rd_config (NewRetryDecorator config))"
  "0 < rc_InitialRetryDelay (rd_config (NewRetryDecorator config))"
  "0 < rc_MaxRetryDelay (rd_config (NewRetryDecorator config))"
  "0 < rc_RetryMultiplier (rd_config (NewRetryDecorator config))"
  by (simp_all add: NewRetryDecorator_def second_def millisecond_def Let_def)

lemma retry_Process_run:
  assumes "retry_Process (logged_wait wait) (logged a) ctx msg (NewRetryDecorator config, (w, [], [])) =
     (res, d', (w', rs, ds))"
  shows "retry_run (rd_config (NewRetryDecorator config)) 1
           (rc_InitialRetryDelay (rd_config (NewRetryDecorator config)))
           (rd_metrics (NewRetryDecorator config)) rs ds res (rd_metrics d')"
proof -
  let ?d = "NewRetryDecorator config" and ?k = "rd_config (NewRetryDecorator config)"
  obtain m' where "retry_loop (logged_wait wait) (logged a) ctx msg ?k 1 (rc_InitialRetryDelay ?k) None
      (rd_metrics ?d) (w, [], []) = (res, m', (w', rs, ds))" and d': "d' = ?d\<lparr>rd_metrics := m'\<rparr>"
    using assms by (auto simp: retry_Process_def Let_def split: prod.splits)
  from retry_loop_run [OF _ this(1)] d' show ?thesis
    using retry_new_positive(1) [of config] by auto
qed

text \<open>
  C7. What a retried request returns, for every agent: the agent is called at least once and
  at most \<open>MaxRetries\<close> times, every reply before the last is an error that may be retried,
  and the last reply decides: a success is returned as it is, an error that may not be
  retried or that comes last is returned wrapped, an error followed by a cancelled wait
  reports the cancellation.  The metrics gain one attempt per call, one retry per wait and
  exactly one success or failure (none if the agent panics).
\<close>

theorem retry_process_spec:
  assumes "retry_Process (logged_wait wait) (logged a) ctx msg (NewRetryDecorator config, (w, [], [])) =
     (res, d', (w', rs, ds))"
  shows "retry_Process wait a ctx msg (NewRetryDecorator config, w) = (res, d', w') \<and>
     retry_verdict (rd_config (NewRetryDecorator config)) 1 rs res \<and>
     retry_tally 1 (int (length rs)) (int (length ds)) res
       (rd_metrics (NewRetryDecorator config)) (rd_metrics d')"
proof -
  have "retry_Process wait a ctx msg (NewRetryDecorator config, w) = (res, d', w')"
    using assms retry_loop_unlogged [of wait a ctx msg]
    by (fastforce simp: retry_Process_def Let_def split: prod.splits)
  then show ?thesis using retry_Process_run [OF assms] by (simp add: retry_run_def)
qed

text \<open>An agent that fails once, then succeeds; a wait that is never cancelled.\<close>

definition flaky :: "nat agent" where
  "flaky = \<lparr>agent_Name = ''flaky'', agent_Capabilities = [],
     agent_Process = (\<lambda>ctx msg w. if w = 0 then (Err (Errors_New ''x''), 1) else (Ok msg, w))\<rparr>"

lemma flaky_run:
  "retry_Process (logged_wait (\<lambda>d ctx w. (None, w))) (logged flaky) Background None
     (NewRetryDecorator DefaultRetryConfig, (0, [], [])) =
   (Ok None, \<lparr>rd_config = DefaultRetryConfig, rd_metrics = \<lparr>rm_TotalAttempts = 2,
      rm_SuccessfulFirstAttempt = 0, rm_SuccessfulOnRetry = 1, rm_FailedAfterRetries = 0,
      rm_TotalRetries = 1\<rparr>\<rparr>, (1, [Err (Errors_New ''x''), Ok None], [100000000]))"
  by (simp add: retry_Process_def NewRetryDecorator_def DefaultRetryConfig_def retry_loop.simps
      logged_def logged_wait_def flaky_def retryable_def go_defs Let_def)

theorem retry_process_spec_witness:
  "retry_verdict (rd_config (NewRetryDecorator DefaultRetryConfig)) 1
     [Err (Errors_New ''x''), Ok None] (Ok None)"
  using retry_process_spec [OF flaky_run] by simp

lemma next_backoff_nonneg:
  assumes "0 \<le> x" and "0 < rc_RetryMultiplier k" and "0 < rc_MaxRetryDelay k"
  shows "0 \<le> next_backoff k x"
  using assms go_trunc_nonneg [of "real_of_int x * rc_RetryMultiplier k"]
  by (simp add: next_backoff_def Let_def)

text \<open>
  Between attempts the decorator waits for at most \<open>MaxRetryDelay\<close>, and never a negative
  time, except that the first wait is \<open>InitialRetryDelay\<close> whatever the maximum is.
\<close>

lemma retry_delays_bounded:
  assumes "retry_Process (logged_wait wait) (logged a) ctx msg (NewRetryDecorator config, (w, [], [])) =
     (res, d', (w', rs, ds))"
    and "k = rd_config (NewRetryDecorator config)"
  shows "length ds \<le> length rs \<and> (\<forall>d \<in> set ds. 0 \<le> d) \<and>
     (\<forall>d \<in> set (tl ds). d \<le> rc_MaxRetryDelay k) \<and>
     (ds \<noteq> [] \<longrightarrow> hd ds = rc_InitialRetryDelay k)"
proof -
  let ?f = "next_backoff k" and ?b = "rc_InitialRetryDelay k"
  have ds: "ds = map (\<lambda>j. (?f ^^ j) ?b) [0..<length ds]" and len: "length ds \<le> length rs"
    using retry_Process_run [OF assms(1)] assms(2) by (simp_all add: retry_run_def)
  have pos: "0 \<le> (?f ^^ j) ?b" for j
  proof (induction j)
    case 0
    show ?case using retry_new_positive(2) [of config] assms(2) by simp
  next
    case (Suc j)
    then show ?case
      using retry_new_positive(3,4) [of config] assms(2) by (simp add: next_backoff_nonneg)
  qed
  have "?f x \<le> rc_MaxRetryDelay k" for x
    by (simp add: next_backoff_def Let_def)
  then have le: "(?f ^^ j) ?b \<le> rc_MaxRetryDelay k" if "0 < j" for j
    using that by (cases j) auto
  show ?thesis
  proof (cases "length ds")
    case 0
    then show ?thesis by simp
  next
    case (Suc n)
    have ds': "ds = ?b # map (\<lambda>j. (?f ^^ j) ?b) [1..<Suc n]"
      using ds unfolding Suc by (simp add: upt_conv_Cons del: upt_Suc)
    show ?thesis
      using len pos le pos [of 0] by (subst (2 3 4 5) ds') (auto simp del: upt_Suc)
  qed
qed

text \<open>
  Exponential backoff: with a whole multiplier and an initial delay within the maximum, the
  \<open>n\<close>-th delay is the initial delay times the multiplier to the \<open>n\<close>, cut off at the maximum.
\<close>

lemma backoff_exponential:
  assumes "rc_RetryMultiplier k = real q" and "1 \<le> q"
    and "0 \<le> b" and "b \<le> rc_MaxRetryDelay k"
  shows "(next_backoff k ^^ n) b = min (b * int q ^ n) (rc_MaxRetryDelay k)"
proof (induction n)
  case 0
  show ?case using assms(4) by simp
next
  case (Suc n)
  let ?M = "rc_MaxRetryDelay k"
  have next': "next_backoff k x = min (x * int q) ?M" for x
    using assms(1) go_trunc_of_int [of "x * int q"] by (simp add: next_backoff_def Let_def min_def)
  have "min (min (b * int q ^ n) ?M * int q) ?M = min (b * int q ^ n * int q) ?M"
  proof (cases "b * int q ^ n \<le> ?M")
    case False
    have M: "?M \<le> ?M * int q" using assms by (simp add: mult_le_cancel_left1)
    also have "\<dots> \<le> b * int q ^ n * int q" using False by (intro mult_right_mono) auto
    finally have "min (b * int q ^ n * int q) ?M = ?M" by (rule min.absorb2)
    moreover have "min (?M * int q) ?M = ?M" using M by (rule min.absorb2)
    moreover have "min (b * int q ^ n) ?M = ?M" using False by (intro min.absorb2) simp
    ultimately show ?thesis by simp
  qed (simp add: min_def)
  then show ?case
    using next' [of "(next_backoff k ^^ n) b"] by (simp add: Suc mult.assoc mult.left_commute mult.commute)
qed

end
