(* ===== verification/Caching.thy ===== *)
theory Caching
  imports Message
begin

text \<open>
  The caching middleware (\<open>middleware/caching.go\<close>): the interface \<open>CacheStore\<close>, its
  in-process implementation \<open>MemoryCacheStore\<close> and the \<open>CachingDecorator\<close> that is written
  against the interface.

  The memory store keeps a map from keys to list elements and a doubly linked list of items;
  an element is modelled by an address, so that map and list are linked by pointers as in the
  code.  \<open>ms_view\<close> reads the store as a queue of keyed entries, newest first.  The contract of
  the interface is the locale \<open>cache_store\<close>; the decorator's properties are proved in it
  and hold for the memory store by interpretation.
\<close>

section \<open>The interface\<close>

text \<open>
  A \<open>CacheStore\<close> value: the methods of the interface.  \<open>Get\<close> takes the clock reading it
  compares with, \<open>Set\<close> the readings for the examined keys, for the expiry and for the
  creation time; \<open>Set\<close> also returns whether the store signalled an eviction.
\<close>

record 's CacheStore =
  cs_Get :: "time \<Rightarrow> string \<Rightarrow> 's \<Rightarrow> message option option"
  cs_Set :: "(string \<Rightarrow> time) \<Rightarrow> time \<Rightarrow> time \<Rightarrow> string \<Rightarrow> message option \<Rightarrow> duration \<Rightarrow> 's \<Rightarrow> bool \<times> 's"
  cs_Delete :: "string \<Rightarrow> 's \<Rightarrow> 's"
  cs_Flush :: "'s \<Rightarrow> 's"
  cs_Size :: "'s \<Rightarrow> int"

section \<open>The memory store\<close>

record cacheEntry =
  ce_Response :: "message option"
  ce_ExpiresAt :: time
  ce_CreatedAt :: time

definition ce_isExpired :: "time \<Rightarrow> cacheEntry \<Rightarrow> bool" where
  "ce_isExpired now e \<longleftrightarrow> now > ce_ExpiresAt e"

record lruItem =
  li_key :: string
  li_entry :: cacheEntry

record MemoryCacheStore =
  ms_cache :: "(string \<times> nat) list"
  ms_lruList :: "(nat \<times> lruItem) list" \<comment> \<open>address and value of each element, front first\<close>
  ms_maxSize :: int
  ms_cleanupCounter :: int
  ms_fresh :: nat \<comment> \<open>the next address\<close>

definition NewMemoryCacheStore :: "int \<Rightarrow> MemoryCacheStore" where
  "NewMemoryCacheStore maxSize =
     \<lparr>ms_cache = [], ms_lruList = [], ms_maxSize = maxSize, ms_cleanupCounter = 0, ms_fresh = 0\<rparr>"

definition ms_Get :: "time \<Rightarrow> string \<Rightarrow> MemoryCacheStore \<Rightarrow> message option option" where
  "ms_Get now key s =
     (case go_get (ms_cache s) key of
        None \<Rightarrow> None
      | Some elem \<Rightarrow>
          (case go_get (ms_lruList s) elem of
             None \<Rightarrow> None
           | Some item \<Rightarrow>
               if ce_isExpired now (li_entry item) then None
               else Some (ce_Response (li_entry item))))"

definition ms_Delete :: "string \<Rightarrow> MemoryCacheStore \<Rightarrow> MemoryCacheStore" where
  "ms_Delete key s =
     (case go_get (ms_cache s) key of
        None \<Rightarrow> s
      | Some elem \<Rightarrow>
          s\<lparr>ms_lruList := go_delete elem (ms_lruList s), ms_cache := go_delete key (ms_cache s)\<rparr>)"

definition ms_expired_keys :: "(string \<Rightarrow> time) \<Rightarrow> MemoryCacheStore \<Rightarrow> string list" where
  "ms_expired_keys tc s =
     map fst (filter (\<lambda>(key, elem).
       case go_get (ms_lruList s) elem of
         None \<Rightarrow> False | Some item \<Rightarrow> ce_isExpired (tc key) (li_entry item)) (ms_cache s))"

definition ms_cleanupExpiredLocked :: "(string \<Rightarrow> time) \<Rightarrow> MemoryCacheStore \<Rightarrow> MemoryCacheStore" where
  "ms_cleanupExpiredLocked tc s = fold ms_Delete (ms_expired_keys tc s) s"

definition ms_evict :: "MemoryCacheStore \<Rightarrow> bool \<times> MemoryCacheStore" where
  "ms_evict s =
     (if int (length (ms_lruList s)) \<ge> ms_maxSize s \<and> ms_lruList s \<noteq> [] then
        let (oldest, evictedItem) = last (ms_lruList s) in
        (True, s\<lparr>ms_lruList := go_delete oldest (ms_lruList s),
                 ms_cache := go_delete (li_key evictedItem) (ms_cache s)\<rparr>)
      else (False, s))"

definition ms_pushFront :: "lruItem \<Rightarrow> MemoryCacheStore \<Rightarrow> MemoryCacheStore" where
  "ms_pushFront item s =
     s\<lparr>ms_lruList := (ms_fresh s, item) # ms_lruList s,
       ms_cache := go_set (li_key item) (ms_fresh s) (ms_cache s), ms_fresh := Suc (ms_fresh s)\<rparr>"

definition ms_Set ::
    "(string \<Rightarrow> time) \<Rightarrow> time \<Rightarrow> time \<Rightarrow> string \<Rightarrow> message option \<Rightarrow> duration
      \<Rightarrow> MemoryCacheStore \<Rightarrow> bool \<times> MemoryCacheStore" where
  "ms_Set tc now now' key value ttl s =
     (let s = ms_Delete key s;
          s = s\<lparr>ms_cleanupCounter := ms_cleanupCounter s + 1\<rparr>;
          s = (if ms_cleanupCounter s mod 100 = 0 then ms_cleanupExpiredLocked tc s else s);
          (evicted, s) = ms_evict s;
          entry = \<lparr>ce_Response = value, ce_ExpiresAt = now + ttl, ce_CreatedAt = now'\<rparr>
      in (evicted, ms_pushFront \<lparr>li_key = key, li_entry = entry\<rparr> s))"

definition ms_Flush :: "MemoryCacheStore \<Rightarrow> MemoryCacheStore" where
  "ms_Flush s = s\<lparr>ms_cache := [], ms_lruList := []\<rparr>"

definition ms_Size :: "MemoryCacheStore \<Rightarrow> int" where
  "ms_Size s = int (length (ms_cache s))"

definition MemoryCacheStore_methods :: "MemoryCacheStore CacheStore" where
  "MemoryCacheStore_methods =
     \<lparr>cs_Get = ms_Get, cs_Set = ms_Set, cs_Delete = ms_Delete, cs_Flush = ms_Flush, cs_Size = ms_Size\<rparr>"

subsection \<open>Map and list agree\<close>

text \<open>The store as a queue of keyed entries, newest first.\<close>

definition ms_view :: "MemoryCacheStore \<Rightarrow> (string \<times> cacheEntry) list" where
  "ms_view s = map (\<lambda>(elem, item). (li_key item, li_entry item)) (ms_lruList s)"

text \<open>
  The map holds exactly the pairs of key and address that the list shows, no key and no
  address occurs twice, and addresses in use are older than the next one.
\<close>

definition ms_links :: "(nat \<times> lruItem) list \<Rightarrow> (string \<times> nat) set" where
  "ms_links l = (\<lambda>(elem, item). (li_key item, elem)) ` set l"

definition ms_ok :: "MemoryCacheStore \<Rightarrow> bool" where
  "ms_ok s \<longleftrightarrow>
     set (ms_cache s) = ms_links (ms_lruList s) \<and> go_map_ok (ms_cache s) \<and>
     distinct (map fst (ms_lruList s)) \<and> distinct (map fst (ms_view s)) \<and>
     (\<forall>elem \<in> fst ` set (ms_lruList s). elem < ms_fresh s)"

lemma map_fst_ms_view: "map fst (ms_view s) = map (li_key \<circ> snd) (ms_lruList s)"
  by (simp add: ms_view_def comp_def split_def)

lemma ms_ok_new: "ms_ok (NewMemoryCacheStore n)"
  by (simp add: ms_ok_def NewMemoryCacheStore_def ms_links_def ms_view_def)

lemma ms_cache_get:
  assumes "ms_ok s"
  shows "go_get (ms_cache s) key = Some elem \<longleftrightarrow>
     (\<exists>item. (elem, item) \<in> set (ms_lruList s) \<and> li_key item = key)"
proof -
  have "go_get (ms_cache s) key = Some elem \<longleftrightarrow> (key, elem) \<in> set (ms_cache s)"
    using assms by (auto simp: ms_ok_def intro: go_map_mem_get dest: go_get_Some_mem)
  then show ?thesis using assms by (auto simp: ms_ok_def ms_links_def)
qed

lemma ms_view_mem: "(key, e) \<in> set (ms_view s) \<longleftrightarrow>
    (\<exists>elem item. (elem, item) \<in> set (ms_lruList s) \<and> li_key item = key \<and> li_entry item = e)"
  by (force simp: ms_view_def)

lemma ms_view_get:
  assumes "ms_ok s"
  shows "go_get (ms_view s) key =
     (case go_get (ms_cache s) key of
        None \<Rightarrow> None | Some elem \<Rightarrow> map_option li_entry (go_get (ms_lruList s) elem))"
proof (cases "go_get (ms_cache s) key")
  case None
  then have "\<nexists>elem item. (elem, item) \<in> set (ms_lruList s) \<and> li_key item = key"
    using ms_cache_get [OF assms] by (metis option.distinct(1))
  then have "key \<notin> fst ` set (ms_view s)" by (force simp: ms_view_def)
  then have "go_get (ms_view s) key = None" by (simp add: map_of_eq_None_iff)
  with None show ?thesis by (simp only: option.case)
next
  case (Some elem)
  then obtain item where item: "(elem, item) \<in> set (ms_lruList s)" "li_key item = key"
    using ms_cache_get [OF assms] by blast
  then have "go_get (ms_lruList s) elem = Some item" using assms by (simp add: ms_ok_def)
  moreover have "(key, li_entry item) \<in> set (ms_view s)" using item ms_view_mem by blast
  then have "go_get (ms_view s) key = Some (li_entry item)" using assms by (simp add: ms_ok_def)
  ultimately show ?thesis using Some by simp
qed

lemma ms_size_view: "ms_ok s \<Longrightarrow> ms_Size s = int (length (ms_view s))"
proof -
  assume ok: "ms_ok s"
  have "length (ms_cache s) = card (set (ms_cache s))"
    using ok by (metis distinct_card distinct_map go_map_ok_def ms_ok_def)
  also have "\<dots> = card (set (ms_lruList s))"
  proof -
    have "inj_on (\<lambda>(elem, item). (li_key item, elem)) (set (ms_lruList s))"
      using ok by (auto simp: inj_on_def ms_ok_def dest: eq_key_imp_eq_value)
    then show ?thesis using ok by (simp add: ms_ok_def ms_links_def card_image)
  qed
  also have "\<dots> = length (ms_view s)"
    using ok by (simp add: ms_ok_def ms_view_def distinct_card distinct_map)
  finally show ?thesis by (simp add: ms_Size_def)
qed

lemma ms_links_iff: "(key, elem) \<in> ms_links l \<longleftrightarrow> (\<exists>item. (elem, item) \<in> set l \<and> li_key item = key)"
  by (force simp: ms_links_def)

lemma ms_links_delete:
  assumes "distinct (map fst l)" and "distinct (map (li_key \<circ> snd) l)" and "(elem, item) \<in> set l"
  shows "ms_links (go_delete elem l) = {p \<in> ms_links l. fst p \<noteq> li_key item}"
    and "map (\<lambda>(elem, item). (li_key item, li_entry item)) (go_delete elem l) =
      filter (\<lambda>(k, e). k \<noteq> li_key item) (map (\<lambda>(elem, item). (li_key item, li_entry item)) l)"
proof -
  have same: "a = elem \<longleftrightarrow> li_key i = li_key item" if "(a, i) \<in> set l" for a i
    using assms that
    by (metis (no_types, lifting) comp_apply distinct_map eq_key_imp_eq_value inj_on_eq_iff snd_conv prod.inject)
  show "ms_links (go_delete elem l) = {p \<in> ms_links l. fst p \<noteq> li_key item}"
    using same by (auto simp: ms_links_iff AList.delete_eq) metis+
  have "filter (\<lambda>(k', _). elem \<noteq> k') l = filter (\<lambda>(a, i). li_key i \<noteq> li_key item) l"
    using same by (intro filter_cong) auto
  then show "map (\<lambda>(elem, item). (li_key item, li_entry item)) (go_delete elem l) =
      filter (\<lambda>(k, e). k \<noteq> li_key item) (map (\<lambda>(elem, item). (li_key item, li_entry item)) l)"
    by (simp add: AList.delete_eq filter_map comp_def split_def)
qed

text \<open>Removing one linked element, as \<open>Set\<close>, \<open>Delete\<close>, the clean-up and the eviction do.\<close>

definition ms_unlink :: "nat \<Rightarrow> string \<Rightarrow> MemoryCacheStore \<Rightarrow> MemoryCacheStore" where
  "ms_unlink elem key s =
     s\<lparr>ms_lruList := go_delete elem (ms_lruList s), ms_cache := go_delete key (ms_cache s)\<rparr>"

lemma ms_unlink:
  assumes ok: "ms_ok s" and mem: "(elem, item) \<in> set (ms_lruList s)"
  shows "ms_view (ms_unlink elem (li_key item) s) = filter (\<lambda>(k, e). k \<noteq> li_key item) (ms_view s)"
    and "ms_ok (ms_unlink elem (li_key item) s)"
proof -
  note d = ms_links_delete [OF _ _ mem]
  have dl: "distinct (map fst (ms_lruList s))" "distinct (map (li_key \<circ> snd) (ms_lruList s))"
    using ok by (simp_all add: ms_ok_def map_fst_ms_view)
  show v: "ms_view (ms_unlink elem (li_key item) s) = filter (\<lambda>(k, e). k \<noteq> li_key item) (ms_view s)"
    using d(2) [OF dl] by (simp add: ms_view_def ms_unlink_def)
  have "set (go_delete (li_key item) (ms_cache s)) = {p \<in> set (ms_cache s). fst p \<noteq> li_key item}"
    by (auto simp: AList.delete_eq)
  then have "set (ms_cache (ms_unlink elem (li_key item) s)) = ms_links (ms_lruList (ms_unlink elem (li_key item) s))"
    using d(1) [OF dl] ok by (simp add: ms_unlink_def ms_ok_def)
  moreover have "distinct (map fst (ms_view (ms_unlink elem (li_key item) s)))"
    using ok by (simp add: v ms_ok_def distinct_map_filter)
  moreover have "\<forall>a \<in> fst ` set (ms_lruList (ms_unlink elem (li_key item) s)). a < ms_fresh s"
    using ok by (auto simp: ms_ok_def ms_unlink_def AList.delete_eq)
  ultimately show "ms_ok (ms_unlink elem (li_key item) s)"
    using ok by (simp add: ms_ok_def ms_unlink_def distinct_delete)
qed

lemma ms_Delete_cases:
  assumes "ms_ok s"
  obtains "key \<notin> fst ` set (ms_view s)" and "ms_Delete key s = s"
  | elem item where "(elem, item) \<in> set (ms_lruList s)" and "li_key item = key"
      and "ms_Delete key s = ms_unlink elem (li_key item) s"
proof (cases "go_get (ms_cache s) key")
  case None
  then have "go_get (ms_view s) key = None" using ms_view_get [OF assms] by simp
  then have "key \<notin> fst ` set (ms_view s)" by (simp add: map_of_eq_None_iff)
  moreover have "ms_Delete key s = s" using None by (simp only: ms_Delete_def option.case)
  ultimately show thesis using that(1) by blast
next
  case (Some elem)
  then obtain item where "(elem, item) \<in> set (ms_lruList s)" and "li_key item = key"
    using ms_cache_get [OF assms] by blast
  moreover from this have "ms_Delete key s = ms_unlink elem (li_key item) s"
    using Some by (simp only: ms_Delete_def ms_unlink_def option.case)
  ultimately show thesis by (rule that(2))
qed

lemma ms_view_Delete:
  assumes "ms_ok s"
  shows "ms_view (ms_Delete key s) = filter (\<lambda>(k, e). k \<noteq> key) (ms_view s)"
proof (rule ms_Delete_cases [OF assms, of key])
  assume a: "key \<notin> fst ` set (ms_view s)" and e: "ms_Delete key s = s"
  have "filter (\<lambda>(k, e). k \<noteq> key) (ms_view s) = ms_view s"
    using a by (auto intro!: filter_True simp: image_iff)
  with e show ?thesis by simp
next
  fix elem item
  assume "(elem, item) \<in> set (ms_lruList s)" "li_key item = key"
    and "ms_Delete key s = ms_unlink elem (li_key item) s"
  with ms_unlink(1) [OF assms] show ?thesis by force
qed

lemma ms_ok_Delete: "ms_ok s \<Longrightarrow> ms_ok (ms_Delete key s)"
  by (rule ms_Delete_cases [of s key]) (auto intro: ms_unlink(2))

lemma ms_Delete_frame [simp]:
  "ms_maxSize (ms_Delete key s) = ms_maxSize s" "ms_fresh (ms_Delete key s) = ms_fresh s"
  "ms_cleanupCounter (ms_Delete key s) = ms_cleanupCounter s"
  by (simp_all add: ms_Delete_def split: option.split)

lemma ms_fold_Delete:
  assumes "ms_ok s"
  shows "ms_ok (fold ms_Delete ks s) \<and>
    ms_view (fold ms_Delete ks s) = filter (\<lambda>(k, e). k \<notin> set ks) (ms_view s) \<and>
    ms_maxSize (fold ms_Delete ks s) = ms_maxSize s \<and> ms_fresh (fold ms_Delete ks s) = ms_fresh s"
  using assms
proof (induction ks arbitrary: s)
  case (Cons k ks)
  from Cons.IH [OF ms_ok_Delete [OF Cons.prems]] show ?case
    using ms_view_Delete [OF Cons.prems] by (auto intro: filter_cong)
qed simp

lemma ms_expired_keys_view:
  assumes "ms_ok s" and "(key, e) \<in> set (ms_view s)"
  shows "key \<in> set (ms_expired_keys tc s) \<longleftrightarrow> ce_isExpired (tc key) e"
proof -
  have get: "go_get (ms_view s) key = Some e" using assms by (simp add: ms_ok_def)
  have "key \<in> set (ms_expired_keys tc s) \<longleftrightarrow>
     (\<exists>elem. go_get (ms_cache s) key = Some elem \<and>
        (\<exists>item. go_get (ms_lruList s) elem = Some item \<and> ce_isExpired (tc key) (li_entry item)))"
  proof -
    have "key \<in> set (ms_expired_keys tc s) \<longleftrightarrow>
      (\<exists>elem. (key, elem) \<in> set (ms_cache s) \<and>
        (case go_get (ms_lruList s) elem of
           None \<Rightarrow> False | Some item \<Rightarrow> ce_isExpired (tc key) (li_entry item)))"
      unfolding ms_expired_keys_def by (auto simp: image_iff)
    moreover have "go_map_ok (ms_cache s)" using assms(1) by (simp add: ms_ok_def)
    ultimately show ?thesis by (simp only: go_map_get_iff option.case_eq_if) (metis option.collapse option.sel option.simps(3))
  qed
  also have "\<dots> \<longleftrightarrow> ce_isExpired (tc key) e"
    using get ms_view_get [OF assms(1), of key] by (auto split: option.splits)
  finally show ?thesis .
qed

lemma ms_cleanup:
  assumes "ms_ok s"
  shows "ms_ok (ms_cleanupExpiredLocked tc s) \<and>
    ms_view (ms_cleanupExpiredLocked tc s) = filter (\<lambda>(k, e). \<not> ce_isExpired (tc k) e) (ms_view s) \<and>
    ms_maxSize (ms_cleanupExpiredLocked tc s) = ms_maxSize s"
proof -
  have "filter (\<lambda>(k, e). k \<notin> set (ms_expired_keys tc s)) (ms_view s) =
      filter (\<lambda>(k, e). \<not> ce_isExpired (tc k) e) (ms_view s)"
    using ms_expired_keys_view [OF assms] by (auto intro!: filter_cong)
  then show ?thesis using ms_fold_Delete [OF assms] by (simp add: ms_cleanupExpiredLocked_def)
qed

lemma filter_not_last:
  "distinct (map fst (xs @ [x])) \<Longrightarrow> filter (\<lambda>(k, e). k \<noteq> fst x) (xs @ [x]) = xs"
  by (auto simp: filter_id_conv image_iff split_def)

lemma ms_evict:
  assumes ok: "ms_ok s" and e: "ms_evict s = (ev, s')"
  shows "ms_ok s'"
    and "ms_view s' = (if ev then butlast (ms_view s) else ms_view s)"
    and "ev \<longleftrightarrow> int (length (ms_view s)) \<ge> ms_maxSize s \<and> ms_view s \<noteq> []"
    and "ms_maxSize s' = ms_maxSize s"
proof -
  have len: "length (ms_view s) = length (ms_lruList s)" by (simp add: ms_view_def)
  show ev: "ev \<longleftrightarrow> int (length (ms_view s)) \<ge> ms_maxSize s \<and> ms_view s \<noteq> []"
    using e by (auto simp: ms_evict_def ms_view_def split: if_splits prod.splits)
  show "ms_maxSize s' = ms_maxSize s"
    using e by (auto simp: ms_evict_def split: if_splits prod.splits)
  have "ms_ok s' \<and> ms_view s' = (if ev then butlast (ms_view s) else ms_view s)"
  proof (cases ev)
    case False
    with e ok show ?thesis by (auto simp: ms_evict_def split: if_splits prod.splits)
  next
    case True
    obtain elem item where l: "last (ms_lruList s) = (elem, item)" by (cases "last (ms_lruList s)")
    have ne: "ms_lruList s \<noteq> []" using True ev len by auto
    have s': "s' = ms_unlink elem (li_key item) s"
      using e True l by (auto simp: ms_evict_def ms_unlink_def split: if_splits)
    have mem: "(elem, item) \<in> set (ms_lruList s)" using ne l by (metis last_in_set)
    obtain xs where "ms_lruList s = xs @ [(elem, item)]"
      using ne l by (metis append_butlast_last_id)
    then have v: "ms_view s = butlast (ms_view s) @ [(li_key item, li_entry item)]"
      by (simp add: ms_view_def)
    have "filter (\<lambda>(k, e). k \<noteq> li_key item) (ms_view s) = butlast (ms_view s)"
      using filter_not_last [of "butlast (ms_view s)" "(li_key item, li_entry item)"] v ok
      by (simp add: ms_ok_def)
    then show ?thesis using ms_unlink [OF ok mem] s' True by simp
  qed
  then show "ms_ok s'" "ms_view s' = (if ev then butlast (ms_view s) else ms_view s)" by auto
qed

lemma ms_pushFront:
  assumes ok: "ms_ok s" and new: "li_key item \<notin> fst ` set (ms_view s)"
  shows "ms_ok (ms_pushFront item s)"
    and "ms_view (ms_pushFront item s) = (li_key item, li_entry item) # ms_view s"
proof -
  show v: "ms_view (ms_pushFront item s) = (li_key item, li_entry item) # ms_view s"
    by (simp add: ms_view_def ms_pushFront_def)
  have "li_key item \<notin> fst ` set (ms_cache s)"
    using new ok by (force simp: ms_ok_def ms_links_def ms_view_def)
  then have "set (go_set (li_key item) (ms_fresh s) (ms_cache s)) = insert (li_key item, ms_fresh s) (set (ms_cache s))"
    by (simp add: go_set_new)
  moreover have "ms_fresh s \<notin> fst ` set (ms_lruList s)" using ok by (auto simp: ms_ok_def)
  ultimately show "ms_ok (ms_pushFront item s)"
    using ok new unfolding ms_ok_def v by (simp add: ms_pushFront_def ms_links_def less_Suc_eq)
qed

subsection \<open>Refinement of a bounded queue with expiry\<close>

text \<open>
  What \<open>Set\<close> does to the queue: forget the old entry of the key, on every 100th write the
  expired entries, at capacity the oldest entry, and put the new entry in front.
\<close>

definition queue_set ::
    "(string \<Rightarrow> time) \<Rightarrow> bool \<Rightarrow> int \<Rightarrow> string \<Rightarrow> cacheEntry \<Rightarrow> (string \<times> cacheEntry) list
      \<Rightarrow> bool \<times> (string \<times> cacheEntry) list" where
  "queue_set tc clean n key e q =
     (let q = filter (\<lambda>(k, _). k \<noteq> key) q;
          q = (if clean then filter (\<lambda>(k, e). \<not> ce_isExpired (tc k) e) q else q);
          full = (n \<le> int (length q) \<and> q \<noteq> [])
      in (full, (key, e) # (if full then butlast q else q)))"

lemma ms_Set_refines_aux:
  assumes ok: "ms_ok s"
  shows "ms_ok (snd (ms_Set tc now now' key v ttl s)) \<and>
    (fst (ms_Set tc now now' key v ttl s), ms_view (snd (ms_Set tc now now' key v ttl s))) =
      queue_set tc ((ms_cleanupCounter s + 1) mod 100 = 0) (ms_maxSize s) key
        \<lparr>ce_Response = v, ce_ExpiresAt = now + ttl, ce_CreatedAt = now'\<rparr> (ms_view s) \<and>
    ms_maxSize (snd (ms_Set tc now now' key v ttl s)) = ms_maxSize s"
proof -
  define s1 where "s1 = (ms_Delete key s)\<lparr>ms_cleanupCounter := ms_cleanupCounter s + 1\<rparr>"
  define s2 where "s2 = (if ms_cleanupCounter s1 mod 100 = 0 then ms_cleanupExpiredLocked tc s1 else s1)"
  obtain ev s3 where s3: "ms_evict s2 = (ev, s3)" by (cases "ms_evict s2")
  let ?item = "\<lparr>li_key = key, li_entry = \<lparr>ce_Response = v, ce_ExpiresAt = now + ttl, ce_CreatedAt = now'\<rparr>\<rparr>"
  have set: "ms_Set tc now now' key v ttl s = (ev, ms_pushFront ?item s3)"
    using s3 by (cases "(ms_cleanupCounter s + 1) mod 100 = 0")
      (simp_all add: s1_def s2_def ms_Set_def Let_def)
  have v1: "ms_view s1 = filter (\<lambda>(k, e). k \<noteq> key) (ms_view s)"
    using ms_view_Delete [OF ok] by (simp add: s1_def ms_view_def)
  have ok1: "ms_ok s1" using ms_ok_Delete [OF ok, of key] by (simp add: s1_def ms_ok_def ms_view_def)
  have c2: "ms_ok s2 \<and> ms_maxSize s2 = ms_maxSize s \<and>
    ms_view s2 = (if (ms_cleanupCounter s + 1) mod 100 = 0
       then filter (\<lambda>(k, e). \<not> ce_isExpired (tc k) e) (ms_view s1) else ms_view s1)"
    using ms_cleanup [OF ok1, of tc] ok1 by (simp add: s2_def) (simp add: s1_def)
  note e3 = ms_evict [OF conjunct1 [OF c2] s3]
  have new: "key \<notin> fst ` set (ms_view s3)"
    using e3(2) c2 v1 by (auto split: if_splits dest: in_set_butlastD)
  from ms_pushFront [OF e3(1), of ?item] new
  have ok': "ms_ok (ms_pushFront ?item s3)"
    and view': "ms_view (ms_pushFront ?item s3) = (li_key ?item, li_entry ?item) # ms_view s3" by simp_all
  have "ms_maxSize (ms_pushFront ?item s3) = ms_maxSize s"
    using e3(4) c2 by (simp add: ms_pushFront_def)
  moreover have "queue_set tc ((ms_cleanupCounter s + 1) mod 100 = 0) (ms_maxSize s) key
        (li_entry ?item) (ms_view s) = (ev, (key, li_entry ?item) # ms_view s3)"
    using e3(2,3) c2 v1 by (simp add: queue_set_def Let_def)
  ultimately show ?thesis using ok' view' by (simp add: set)
qed

lemmas ms_ok_Set = ms_Set_refines_aux [THEN conjunct1]
lemmas ms_view_Set = ms_Set_refines_aux [THEN conjunct2, THEN conjunct1]
lemmas ms_maxSize_Set = ms_Set_refines_aux [THEN conjunct2, THEN conjunct2]

lemma ms_ok_Flush: "ms_ok (ms_Flush s)"
  by (simp add: ms_ok_def ms_Flush_def ms_links_def ms_view_def)

lemma ms_Get_view:
  "ms_ok s \<Longrightarrow> ms_Get now key s =
     (case go_get (ms_view s) key of
        None \<Rightarrow> None | Some e \<Rightarrow> if ce_isExpired now e then None else Some (ce_Response e))"
  by (simp add: ms_Get_def ms_view_get split: option.split)

lemma queue_set_length:
  "1 \<le> n \<Longrightarrow> int (length q) \<le> n \<Longrightarrow> int (length (snd (queue_set tc clean n key e q))) \<le> n"
proof -
  assume n: "1 \<le> n" and q: "int (length q) \<le> n"
  define q1 where "q1 = filter (\<lambda>(k, _). k \<noteq> key) q"
  define q2 where "q2 = (if clean then filter (\<lambda>(k, e). \<not> ce_isExpired (tc k) e) q1 else q1)"
  have "length q2 \<le> length q1" by (simp add: q2_def)
  moreover have "length q1 \<le> length q" by (simp add: q1_def)
  ultimately have "int (length q2) \<le> n" using q by linarith
  moreover have "queue_set tc clean n key e q =
    (n \<le> int (length q2) \<and> q2 \<noteq> [], (key, e) # (if n \<le> int (length q2) \<and> q2 \<noteq> [] then butlast q2 else q2))"
    unfolding queue_set_def q1_def q2_def Let_def by simp
  ultimately show "int (length (snd (queue_set tc clean n key e q))) \<le> n"
    using n by (cases q2) auto
qed

text \<open>Sequences of calls of the store's methods.\<close>

datatype ms_call =
    MGet time string
  | MSet "string \<Rightarrow> time" time time string "message option" duration
  | MDelete string
  | MFlush

fun ms_do :: "ms_call \<Rightarrow> MemoryCacheStore \<Rightarrow> MemoryCacheStore" where
  "ms_do (MGet now key) s = s"
| "ms_do (MSet tc now now' key v ttl) s = snd (ms_Set tc now now' key v ttl s)"
| "ms_do (MDelete key) s = ms_Delete key s"
| "ms_do MFlush s = ms_Flush s"

lemma ms_do_ok: "ms_ok s \<Longrightarrow> ms_ok (ms_do c s)"
  by (cases c) (simp_all add: ms_ok_Set ms_ok_Delete ms_ok_Flush)

lemma ms_do_size:
  assumes "ms_ok s" "1 \<le> ms_maxSize s" "int (length (ms_view s)) \<le> ms_maxSize s"
  shows "ms_maxSize (ms_do c s) = ms_maxSize s \<and> int (length (ms_view (ms_do c s))) \<le> ms_maxSize s"
proof (cases c)
  case (MSet tc now now' key v ttl)
  have "ms_view (snd (ms_Set tc now now' key v ttl s)) = snd (queue_set tc ((ms_cleanupCounter s + 1) mod 100 = 0)
     (ms_maxSize s) key \<lparr>ce_Response = v, ce_ExpiresAt = now + ttl, ce_CreatedAt = now'\<rparr> (ms_view s))"
    using ms_view_Set [OF assms(1)] by (metis snd_conv)
  then show ?thesis using MSet ms_maxSize_Set [OF assms(1)] queue_set_length [OF assms(2,3)] by simp
next
  case (MDelete key)
  have "int (length (filter (\<lambda>(k, e). k \<noteq> key) (ms_view s))) \<le> ms_maxSize s"
    using assms(3) by (meson length_filter_le of_nat_mono order_trans)
  then show ?thesis using MDelete ms_view_Delete [OF assms(1), of key] by simp
qed (use assms in \<open>simp_all add: ms_Flush_def ms_view_def\<close>)

lemma ms_run_ok:
  "1 \<le> n \<Longrightarrow> ms_ok (fold ms_do cs (NewMemoryCacheStore n)) \<and>
     ms_maxSize (fold ms_do cs (NewMemoryCacheStore n)) = n \<and>
     int (length (ms_view (fold ms_do cs (NewMemoryCacheStore n)))) \<le> n"
proof (induction cs rule: rev_induct)
  case Nil
  then show ?case by (simp add: ms_ok_new NewMemoryCacheStore_def ms_view_def ms_ok_def ms_links_def)
next
  case (snoc c cs)
  then show ?case using ms_do_ok ms_do_size [of "fold ms_do cs (NewMemoryCacheStore n)" c] by simp
qed

text \<open>What the store holds for a key: the entry of the list element that the map points to.\<close>

definition ms_held :: "MemoryCacheStore \<Rightarrow> string \<Rightarrow> cacheEntry option" where
  "ms_held s key =
     (case go_get (ms_cache s) key of
        None \<Rightarrow> None | Some elem \<Rightarrow> map_option li_entry (go_get (ms_lruList s) elem))"

lemma ms_held_view: "ms_ok s \<Longrightarrow> ms_held s = go_get (ms_view s)"
  by (simp add: fun_eq_iff ms_held_def ms_view_get)

lemma go_map_ok_view: "ms_ok s \<Longrightarrow> go_map_ok (ms_view s)"
  by (simp add: ms_ok_def go_map_ok_def)

lemma go_map_card: "go_map_ok q \<Longrightarrow> card (dom (go_get q)) = length q"
  by (metis distinct_card dom_map_of_conv_image_fst go_map_ok_def length_map set_map)

lemma go_get_butlast:
  assumes "go_map_ok q" and "q \<noteq> []"
  shows "go_get (butlast q) k = (if k = fst (last q) then None else go_get q k)"
proof -
  obtain xs x where q: "q = xs @ [x]" using assms(2) by (metis append_butlast_last_id)
  then have "fst x \<notin> fst ` set xs" using assms(1) by (simp add: go_map_ok_def)
  then have "go_get xs (fst x) = None" by (simp add: map_of_eq_None_iff)
  then show ?thesis by (cases x) (auto simp: q map_add_def split: option.split)
qed

text \<open>
  The queue as a map: the new entry is there; of the others only expired ones are dropped, on a
  clean-up, and one more exactly when the remaining ones fill the capacity.
\<close>

lemma queue_set_map:
  fixes q :: "(string \<times> cacheEntry) list"
  assumes q: "go_map_ok q" and n: "1 \<le> n" and run: "queue_set tc clean n key e q = (full, q')"
  defines "expired \<equiv> {k. clean \<and> (\<exists>e. go_get q k = Some e \<and> ce_isExpired (tc k) e)}"
  defines "rest \<equiv> dom (go_get q) - {key} - expired"
  shows "\<exists>victims. victims \<subseteq> rest \<and> card victims = (if full then 1 else 0) \<and> finite victims \<and>
      go_get q' = (\<lambda>k. if k = key then Some e else if k \<in> expired \<union> victims then None else go_get q k)"
    and "full \<longleftrightarrow> n \<le> int (card rest)"
proof -
  define q1 where "q1 = filter (\<lambda>(k, _). k \<noteq> key) q"
  define q2 where "q2 = (if clean then filter (\<lambda>(k, e). \<not> ce_isExpired (tc k) e) q1 else q1)"
  have ok1: "go_map_ok q1" using q by (simp add: q1_def)
  have ok2: "go_map_ok q2" using ok1 by (simp add: q2_def)
  have full: "full \<longleftrightarrow> n \<le> int (length q2) \<and> q2 \<noteq> []" and q': "q' = (key, e) # (if full then butlast q2 else q2)"
    using run unfolding queue_set_def q1_def [symmetric] Let_def q2_def [symmetric] by auto
  have g1: "go_get q1 k = (if k = key then None else go_get q k)" for k
    using go_get_filter [OF q] by (auto simp: q1_def split: option.split)
  have g2: "go_get q2 k = (if k = key \<or> k \<in> expired then None else go_get q k)" for k
    using go_get_filter [OF ok1] by (auto simp: q2_def g1 expired_def split: option.split)
  have rest: "dom (go_get q2) = rest" by (auto simp: g2 rest_def dom_def)
  then have len: "length q2 = card rest" using go_map_card [OF ok2] by simp
  then show "full \<longleftrightarrow> n \<le> int (card rest)" using full n by auto
  have old: "go_get q2 k = (if k \<in> expired then None else go_get q k)" if "k \<noteq> key" for k using that g2 by simp
  show "\<exists>victims. victims \<subseteq> rest \<and> card victims = (if full then 1 else 0) \<and> finite victims \<and>
      go_get q' = (\<lambda>k. if k = key then Some e else if k \<in> expired \<union> victims then None else go_get q k)"
  proof (cases full)
    case True
    then have "q2 \<noteq> []" using full by simp
    then have "fst (last q2) \<in> rest" unfolding rest [symmetric] by (simp add: dom_map_of_conv_image_fst)
    then show ?thesis using True go_get_butlast [OF ok2 \<open>q2 \<noteq> []\<close>] old
      by (intro exI [of _ "{fst (last q2)}"]) (auto simp: q' fun_eq_iff)
  next
    case False
    then show ?thesis using old by (intro exI [of _ "{}"]) (auto simp: q' fun_eq_iff)
  qed
qed

text \<open>
  C5.
  The memory store implements a bounded map with expiry.  After any sequence of calls on a
  store of capacity \<open>n \<ge> 1\<close>, the map and the linked list agree, and \<open>Set\<close> keeps that; it stores
  the new entry under its key; every other entry stays as it was, except for expired ones,
  which every 100th write drops, and for at most one victim, which is dropped, and
  signalled, exactly if the entries that remain beside the key fill the capacity.  So the
  store never holds more than \<open>n\<close> entries, and \<open>Size\<close> counts them.  \<open>Get\<close> returns the entry held
  unless it is expired, \<open>Delete\<close> and \<open>Flush\<close> drop the entry and all entries.  Which entry
  is the victim is left open here.
\<close>
theorem ms_bounded_map:
  assumes n: "1 \<le> n" and s: "s = fold ms_do cs (NewMemoryCacheStore n)"
    and set: "ms_Set tc now now' key v ttl s = (evicted, s')"
    and expired: "expired = {k. (ms_cleanupCounter s + 1) mod 100 = 0 \<and> (\<exists>e. ms_held s k = Some e \<and> ce_isExpired (tc k) e)}"
  shows "ms_ok s \<and> ms_ok s' \<and>
    (\<exists>victims. victims \<subseteq> dom (ms_held s) - {key} - expired \<and> card victims = (if evicted then 1 else 0) \<and> finite victims \<and>
      ms_held s' = (\<lambda>k. if k = key then Some \<lparr>ce_Response = v, ce_ExpiresAt = now + ttl, ce_CreatedAt = now'\<rparr>
        else if k \<in> expired \<union> victims then None else ms_held s k)) \<and>
    (evicted \<longleftrightarrow> n \<le> int (card (dom (ms_held s) - {key} - expired))) \<and>
    ms_Size s' = int (card (dom (ms_held s'))) \<and> ms_Size s' \<le> n \<and>
    (\<forall>t k. ms_Get t k s' = (case ms_held s' k of None \<Rightarrow> None | Some e \<Rightarrow> if t > ce_ExpiresAt e then None else Some (ce_Response e))) \<and>
    (\<forall>k. ms_held (ms_Delete k s') = (ms_held s')(k := None)) \<and> ms_held (ms_Flush s') = Map.empty"
proof -
  have ok: "ms_ok s" and max: "ms_maxSize s = n" using ms_run_ok [OF n, of cs] s by auto
  note aux = ms_Set_refines_aux [OF ok, of tc now now' key v ttl, unfolded set fst_conv snd_conv max]
  have ok': "ms_ok s'" using aux by blast
  have bound: "int (length (ms_view s')) \<le> n"
    using ms_run_ok [OF n, of "cs @ [MSet tc now now' key v ttl]"] set by (simp add: s [symmetric])
  have ex: "expired = {k. (ms_cleanupCounter s + 1) mod 100 = 0 \<and> (\<exists>e. go_get (ms_view s) k = Some e \<and> ce_isExpired (tc k) e)}"
    unfolding expired ms_held_view [OF ok] ..
  note map = queue_set_map [OF go_map_ok_view [OF ok] n sym [OF conjunct1 [OF conjunct2 [OF aux]]], folded ex]
  have "ms_Size s' = int (card (dom (ms_held s')))" "ms_Size s' \<le> n"
    using bound by (simp_all add: ms_size_view [OF ok'] ms_held_view [OF ok'] go_map_card [OF go_map_ok_view [OF ok']])
  moreover have "ms_Get t k s' = (case ms_held s' k of None \<Rightarrow> None | Some e \<Rightarrow> if t > ce_ExpiresAt e then None else Some (ce_Response e))" for t k
    by (simp add: ms_Get_view [OF ok'] ms_held_view [OF ok'] ce_isExpired_def split: option.split)
  moreover have "ms_held (ms_Delete k s') = (ms_held s')(k := None)" for k
    using go_get_filter [OF go_map_ok_view [OF ok']]
    by (auto simp: fun_eq_iff ms_held_view [OF ms_ok_Delete [OF ok']] ms_held_view [OF ok'] ms_view_Delete [OF ok'] split: option.split)
  moreover have "ms_held (ms_Flush s') = Map.empty" by (simp add: fun_eq_iff ms_held_def ms_Flush_def)
  ultimately show ?thesis
    using ok ok' map unfolding ms_held_view [OF ok] ms_held_view [OF ok'] by blast
qed

theorem ms_bounded_map_witness:
  "let s = fold ms_do [MSet (\<lambda>_. 0) 0 0 ''a'' None 10] (NewMemoryCacheStore 1); r = ms_Set (\<lambda>_. 0) 5 5 ''b'' None 10 s
   in fst r \<and> ms_held (snd r) ''b'' \<noteq> None \<and> ms_Size (snd r) \<le> 1"
proof -
  let ?s = "fold ms_do [MSet (\<lambda>_. 0) 0 0 ''a'' None 10] (NewMemoryCacheStore 1)"
  let ?r = "ms_Set (\<lambda>_. 0) 5 5 ''b'' None 10 ?s"
  have "(1 :: int) \<le> 1" by simp
  note t = ms_bounded_map [OF this refl prod.collapse [of ?r, symmetric] refl]
  have "fst ?r" by (simp add: ms_Set_def Let_def ms_Delete_def ms_evict_def ms_pushFront_def NewMemoryCacheStore_def)
  moreover have "ms_held (snd ?r) ''b'' \<noteq> None" using t by (elim conjE exE) simp
  moreover have "ms_Size (snd ?r) \<le> 1" using t by blast
  ultimately show ?thesis unfolding Let_def by blast
qed

text \<open>
  A store created with a capacity of at least one never holds more entries than that,
  whatever calls are made; \<open>Size\<close> is the number of keys that are present.
\<close>
lemma ms_size_bounded:
  assumes "1 \<le> n"
  shows "ms_Size (fold ms_do cs (NewMemoryCacheStore n)) \<le> n"
  using ms_run_ok [OF assms, of cs] by (simp add: ms_size_view)

text \<open>
  Eviction is by age of the entry and not by use: in a store of capacity two that holds
  \<open>a\<close> and then \<open>b\<close>, a \<open>Get\<close> of \<open>a\<close> does not protect \<open>a\<close>, and the next \<open>Set\<close> evicts it.
\<close>
lemma ms_eviction_ignores_use:
  "(let tc = \<lambda>_. 3;
        s = fold ms_do [MSet tc 0 0 ''a'' None 100, MSet tc 1 1 ''b'' None 100, MGet 2 ''a''] (NewMemoryCacheStore 2);
        t = ms_do (MSet tc 3 3 ''c'' None 100) s
    in ms_Get 2 ''a'' s = Some None \<and> ms_Get 4 ''a'' t = None \<and> ms_Get 4 ''b'' t = Some None)"
  by (simp add: Let_def ms_Get_def ms_Set_def ms_Delete_def ms_evict_def ms_pushFront_def
      NewMemoryCacheStore_def ce_isExpired_def)

section \<open>The contract of a cache store\<close>

text \<open>
  \<open>contents\<close> maps a key to its response and expiry time.  A store may drop any other entry
  when it takes a new one; it never invents one.
\<close>

locale cache_store =
  fixes st :: "'s CacheStore"
    and invar :: "'s \<Rightarrow> bool"
    and contents :: "'s \<Rightarrow> string \<rightharpoonup> message option \<times> time"
  assumes get: "invar s \<Longrightarrow> cs_Get st now key s =
        (case contents s key of None \<Rightarrow> None | Some (r, e) \<Rightarrow> if now > e then None else Some r)"
    and set_same: "invar s \<Longrightarrow> contents (snd (cs_Set st tc now now' key v ttl s)) key = Some (v, now + ttl)"
    and set_other: "invar s \<Longrightarrow> k \<noteq> key \<Longrightarrow>
        contents (snd (cs_Set st tc now now' key v ttl s)) k \<in> {None, contents s k}"
    and delete: "invar s \<Longrightarrow> contents (cs_Delete st key s) = (contents s)(key := None)"
    and flush: "invar s \<Longrightarrow> contents (cs_Flush st s) = Map.empty"
    and size: "invar s \<Longrightarrow> finite (dom (contents s)) \<and> cs_Size st s = int (card (dom (contents s)))"
    and inv_set: "invar s \<Longrightarrow> invar (snd (cs_Set st tc now now' key v ttl s))"
    and inv_delete: "invar s \<Longrightarrow> invar (cs_Delete st key s)"
    and inv_flush: "invar s \<Longrightarrow> invar (cs_Flush st s)"

definition ms_contents :: "MemoryCacheStore \<Rightarrow> string \<rightharpoonup> message option \<times> time" where
  "ms_contents s key = map_option (\<lambda>e. (ce_Response e, ce_ExpiresAt e)) (go_get (ms_view s) key)"

lemma butlast_get:
  "go_map_ok q \<Longrightarrow> go_get (butlast q) k \<in> {None, go_get q k}"
  unfolding go_map_ok_def
proof (induction q)
  case (Cons p q)
  then show ?case by (cases "k = fst p") (auto simp: map_of_eq_None_iff split_def dest: in_set_butlastD)
qed simp

lemma queue_set_get:
  assumes "go_map_ok q"
  shows "go_get (snd (queue_set tc clean n key e q)) key = Some e"
    and "k \<noteq> key \<Longrightarrow> go_get (snd (queue_set tc clean n key e q)) k \<in> {None, go_get q k}"
proof -
  show "go_get (snd (queue_set tc clean n key e q)) key = Some e" by (simp add: queue_set_def Let_def)
  assume k: "k \<noteq> key"
  define q1 where "q1 = filter (\<lambda>(k, _). k \<noteq> key) q"
  define q2 where "q2 = (if clean then filter (\<lambda>(k, e). \<not> ce_isExpired (tc k) e) q1 else q1)"
  have ok1: "go_map_ok q1" using assms by (simp add: q1_def)
  have g1: "go_get q1 k \<in> {None, go_get q k}"
    using go_get_filter [OF assms] by (auto simp: q1_def split: option.splits)
  have ok2: "go_map_ok q2" using ok1 by (simp add: q2_def)
  have g2: "go_get q2 k \<in> {None, go_get q1 k}"
    using go_get_filter [OF ok1] by (auto simp: q2_def split: option.splits)
  have "snd (queue_set tc clean n key e q) = (key, e) # (if n \<le> int (length q2) \<and> q2 \<noteq> [] then butlast q2 else q2)"
    unfolding queue_set_def q1_def q2_def Let_def by simp
  then show "go_get (snd (queue_set tc clean n key e q)) k \<in> {None, go_get q k}"
    using k g1 g2 butlast_get [OF ok2, of k] by auto
qed

lemma ms_contents_Set:
  assumes "ms_ok s"
  shows "ms_contents (snd (ms_Set tc now now' key v ttl s)) key = Some (v, now + ttl)"
    and "k \<noteq> key \<Longrightarrow> ms_contents (snd (ms_Set tc now now' key v ttl s)) k \<in> {None, ms_contents s k}"
proof -
  let ?e = "\<lparr>ce_Response = v, ce_ExpiresAt = now + ttl, ce_CreatedAt = now'\<rparr>"
  have v: "ms_view (snd (ms_Set tc now now' key v ttl s)) =
     snd (queue_set tc ((ms_cleanupCounter s + 1) mod 100 = 0) (ms_maxSize s) key ?e (ms_view s))"
    using ms_view_Set [OF assms] by (metis snd_conv)
  note g = queue_set_get [OF go_map_ok_view [OF assms]]
  show "ms_contents (snd (ms_Set tc now now' key v ttl s)) key = Some (v, now + ttl)"
    by (simp add: ms_contents_def v g(1))
  show "ms_contents (snd (ms_Set tc now now' key v ttl s)) k \<in> {None, ms_contents s k}" if "k \<noteq> key"
    using g(2) [OF that, of tc "(ms_cleanupCounter s + 1) mod 100 = 0" "ms_maxSize s" ?e]
    unfolding ms_contents_def v by auto
qed

lemma ms_contents_size:
  assumes "ms_ok s"
  shows "finite (dom (ms_contents s)) \<and> ms_Size s = int (card (dom (ms_contents s)))"
proof -
  have d: "dom (ms_contents s) = fst ` set (ms_view s)"
    by (auto simp: ms_contents_def dom_def dom_map_of_conv_image_fst [symmetric])
  moreover have "card (fst ` set (ms_view s)) = length (ms_view s)"
    using assms by (simp add: ms_ok_def) (metis distinct_card length_map list.set_map)
  ultimately show ?thesis using ms_size_view [OF assms] by simp
qed

interpretation memory_store: cache_store MemoryCacheStore_methods ms_ok ms_contents
proof (unfold_locales, goal_cases)
  case (1 s now key)
  then show ?case
    by (auto simp: MemoryCacheStore_methods_def ms_Get_view ms_contents_def ce_isExpired_def split: option.split)
next
  case (4 s key)
  then show ?case
    by (auto simp: MemoryCacheStore_methods_def ms_contents_def ms_view_Delete fun_eq_iff
        go_get_filter [OF go_map_ok_view] split: option.split)
next
  case (5 s)
  then show ?case
    by (simp add: MemoryCacheStore_methods_def ms_contents_def ms_Flush_def ms_view_def fun_eq_iff)
qed (simp_all add: MemoryCacheStore_methods_def ms_contents_Set(1) ms_contents_Set(2) [simplified]
    ms_contents_size ms_ok_Set ms_ok_Delete ms_ok_Flush)

section \<open>The decorator\<close>

record CachingConfig =
  cfg_MaxCacheSize :: int
  cfg_DefaultTTL :: duration
  cfg_KeyGenerator :: "(message option \<Rightarrow> string) option"

definition DefaultCachingConfig :: CachingConfig where
  "DefaultCachingConfig =
     \<lparr>cfg_MaxCacheSize = 1000, cfg_DefaultTTL = 5 * 60 * second, cfg_KeyGenerator = None\<rparr>"

definition CachingConfig_Validate :: "CachingConfig \<Rightarrow> go_error option" where
  "CachingConfig_Validate c =
     (if cfg_MaxCacheSize c < 1 then
        Some (Errorf ''max_cache_size must be at least 1, got %d'' [GInt (cfg_MaxCacheSize c)] None)
      else if cfg_DefaultTTL c \<le> 0 then
        Some (Errorf ''default_ttl must be positive, got %v'' [GInt (cfg_DefaultTTL c)] None)
      else None)"

record CachingMetrics =
  cm_TotalRequests :: int
  cm_CacheHits :: int
  cm_CacheMisses :: int
  cm_Evictions :: int
  cm_Invalidations :: int
  cm_CurrentSize :: int

definition NewCachingMetrics :: CachingMetrics where
  "NewCachingMetrics =
     \<lparr>cm_TotalRequests = 0, cm_CacheHits = 0, cm_CacheMisses = 0, cm_Evictions = 0,
      cm_Invalidations = 0, cm_CurrentSize = 0\<rparr>"

definition RecordHit :: "CachingMetrics \<Rightarrow> CachingMetrics" where
  "RecordHit m = m\<lparr>cm_TotalRequests := cm_TotalRequests m + 1, cm_CacheHits := cm_CacheHits m + 1\<rparr>"

definition RecordMiss :: "CachingMetrics \<Rightarrow> CachingMetrics" where
  "RecordMiss m = m\<lparr>cm_TotalRequests := cm_TotalRequests m + 1, cm_CacheMisses := cm_CacheMisses m + 1\<rparr>"

definition RecordEviction :: "CachingMetrics \<Rightarrow> CachingMetrics" where
  "RecordEviction m = m\<lparr>cm_Evictions := cm_Evictions m + 1\<rparr>"

definition RecordInvalidation :: "CachingMetrics \<Rightarrow> CachingMetrics" where
  "RecordInvalidation m = m\<lparr>cm_Invalidations := cm_Invalidations m + 1\<rparr>"

definition UpdateSize :: "int \<Rightarrow> CachingMetrics \<Rightarrow> CachingMetrics" where
  "UpdateSize n m = m\<lparr>cm_CurrentSize := n\<rparr>"

definition HitRate :: "CachingMetrics \<Rightarrow> real" where
  "HitRate m = (if cm_TotalRequests m = 0 then 0
     else real_of_int (cm_CacheHits m) / real_of_int (cm_TotalRequests m))"

definition MissRate :: "CachingMetrics \<Rightarrow> real" where
  "MissRate m = (if cm_TotalRequests m = 0 then 0
     else real_of_int (cm_CacheMisses m) / real_of_int (cm_TotalRequests m))"

definition caching_GetStats :: "CachingMetrics \<Rightarrow> (string \<times> gval) list" where
  "caching_GetStats m =
     [(''total_requests'', GInt (cm_TotalRequests m)), (''cache_hits'', GInt (cm_CacheHits m)),
      (''cache_misses'', GInt (cm_CacheMisses m)),
      (''hit_rate'', GFloat (real_of_int (cm_CacheHits m) / real_of_int (max (cm_TotalRequests m) 1))),
      (''miss_rate'', GFloat (real_of_int (cm_CacheMisses m) / real_of_int (max (cm_TotalRequests m) 1))),
      (''evictions'', GInt (cm_Evictions m)), (''invalidations'', GInt (cm_Invalidations m))]"

lemmas metrics_defs = RecordHit_def RecordMiss_def RecordEviction_def RecordInvalidation_def UpdateSize_def

text \<open>\<open>cd_hooked\<close>: the decorator created the store itself and listens to its evictions.\<close>

record 's CachingDecorator =
  cd_config :: CachingConfig
  cd_metrics :: CachingMetrics
  cd_store :: 's
  cd_hooked :: bool

definition caching_defaults :: "CachingConfig \<Rightarrow> CachingConfig" where
  "caching_defaults c =
     (let c = (if cfg_MaxCacheSize c \<le> 0 then c\<lparr>cfg_MaxCacheSize := 1000\<rparr> else c) in
      if cfg_DefaultTTL c \<le> 0 then c\<lparr>cfg_DefaultTTL := 5 * 60 * second\<rparr> else c)"

text \<open>\<open>NewCachingDecorator\<close> with \<open>config.Store = nil\<close>, and with a store of the caller's.\<close>

definition NewCachingDecorator :: "CachingConfig \<Rightarrow> MemoryCacheStore CachingDecorator outcome" where
  "NewCachingDecorator config =
     (let c = caching_defaults config in
      case CachingConfig_Validate c of
        Some e \<Rightarrow> Err e
      | None \<Rightarrow> Ok \<lparr>cd_config = c, cd_metrics = NewCachingMetrics,
                   cd_store = NewMemoryCacheStore (cfg_MaxCacheSize c), cd_hooked = True\<rparr>)"

definition NewCachingDecorator_store :: "CachingConfig \<Rightarrow> 's \<Rightarrow> 's CachingDecorator outcome" where
  "NewCachingDecorator_store config store =
     (let c = caching_defaults config in
      case CachingConfig_Validate c of
        Some e \<Rightarrow> Err e
      | None \<Rightarrow> Ok \<lparr>cd_config = c, cd_metrics = NewCachingMetrics, cd_store = store, cd_hooked = False\<rparr>)"

text \<open>
  The digest of a message: \<open>hash\<close> is the hexadecimal SHA-256 of the text that
  \<open>json.Marshal\<close> gives for the key data (\<open>None\<close> when it fails).  No property relies on
  their values.
\<close>

record digest =
  json_Marshal :: "gval \<Rightarrow> string option"
  sha256_hex :: "string \<Rightarrow> string"
  float_text :: "real \<Rightarrow> string"

definition generateCacheKey :: "digest \<Rightarrow> CachingConfig \<Rightarrow> message option \<Rightarrow> string option" where
  "generateCacheKey dg c message =
     (case cfg_KeyGenerator c of
        Some g \<Rightarrow> Some (g message)
      | None \<Rightarrow>
          (case message of
             None \<Rightarrow> None \<comment> \<open>nil pointer dereference\<close>
           | Some m \<Rightarrow>
               let keyData = GMap
                 [(''role'', GStr (msg_role m)), (''content'', GStr (ContentString (float_text dg) m)),
                  (''metadata'', case msg_metadata m of None \<Rightarrow> GNil | Some md \<Rightarrow> GMap md)]
               in (case json_Marshal dg keyData of
                     None \<Rightarrow> Some (msg_role m @ '':'' @ ContentString (float_text dg) m)
                   | Some txt \<Rightarrow> Some (sha256_hex dg txt))))"

text \<open>
  \<open>Process\<close> in the two parts that run before and after the call of the inner agent, so
  that concurrent calls are interleavings of the parts.
\<close>

datatype cache_lookup = Hit "message option" | Miss string | LookupPanic string

definition caching_begin ::
    "'s CacheStore \<Rightarrow> digest \<Rightarrow> time \<Rightarrow> message option \<Rightarrow> 's CachingDecorator
      \<Rightarrow> cache_lookup \<times> 's CachingDecorator" where
  "caching_begin st dg now message c =
     (case generateCacheKey dg (cd_config c) message of
        None \<Rightarrow> (LookupPanic ''nil pointer dereference'', c)
      | Some cacheKey \<Rightarrow>
          (case cs_Get st now cacheKey (cd_store c) of
             Some cached \<Rightarrow> (Hit cached, c\<lparr>cd_metrics := RecordHit (cd_metrics c)\<rparr>)
           | None \<Rightarrow> (Miss cacheKey, c\<lparr>cd_metrics := RecordMiss (cd_metrics c)\<rparr>)))"

definition caching_finish ::
    "'s CacheStore \<Rightarrow> (string \<Rightarrow> time) \<Rightarrow> time \<Rightarrow> time \<Rightarrow> string \<Rightarrow> message option \<Rightarrow> 's CachingDecorator
      \<Rightarrow> 's CachingDecorator" where
  "caching_finish st tc now now' cacheKey response c =
     (let (evicted, s) = cs_Set st tc now now' cacheKey response (cfg_DefaultTTL (cd_config c)) (cd_store c);
          mt = (if evicted \<and> cd_hooked c then RecordEviction (cd_metrics c) else cd_metrics c)
      in c\<lparr>cd_store := s, cd_metrics := UpdateSize (cs_Size st s) mt\<rparr>)"

definition caching_Process ::
    "'s CacheStore \<Rightarrow> digest \<Rightarrow> 'w clock \<Rightarrow> 'w agent \<Rightarrow> go_ctx \<Rightarrow> message option
      \<Rightarrow> 's CachingDecorator \<Rightarrow> 'w \<Rightarrow> reply \<times> 's CachingDecorator \<times> 'w" where
  "caching_Process st dg clk ag ctx message c w =
     (let (now, w) = clk w in
      case caching_begin st dg now message c of
        (LookupPanic p, c) \<Rightarrow> (Panic p, c, w)
      | (Hit cached, c) \<Rightarrow> (Ok cached, c, w)
      | (Miss cacheKey, c) \<Rightarrow>
          (case agent_Process ag ctx message w of
             (Ok response, w) \<Rightarrow>
               let (t, w) = clk w; (t', w) = clk w
               in (Ok response, caching_finish st (\<lambda>_. t) t t' cacheKey response c, w)
           | (r, w) \<Rightarrow> (r, c, w)))"

definition caching_Invalidate ::
    "'s CacheStore \<Rightarrow> digest \<Rightarrow> message option \<Rightarrow> 's CachingDecorator \<Rightarrow> 's CachingDecorator outcome" where
  "caching_Invalidate st dg message c =
     (case message of
        Some _ \<Rightarrow>
          (case generateCacheKey dg (cd_config c) message of
             None \<Rightarrow> Panic ''nil pointer dereference''
           | Some cacheKey \<Rightarrow>
               let s = cs_Delete st cacheKey (cd_store c)
               in Ok (c\<lparr>cd_store := s,
                    cd_metrics := UpdateSize (cs_Size st s) (RecordInvalidation (cd_metrics c))\<rparr>))
      | None \<Rightarrow>
          let count = cs_Size st (cd_store c); s = cs_Flush st (cd_store c)
          in Ok (c\<lparr>cd_store := s,
               cd_metrics := UpdateSize (cs_Size st s) ((RecordInvalidation ^^ nat count) (cd_metrics c))\<rparr>))"

definition GetCacheInfo :: "'s CacheStore \<Rightarrow> 's CachingDecorator \<Rightarrow> (string \<times> gval) list" where
  "GetCacheInfo st c =
     [(''size'', GInt (cs_Size st (cd_store c))), (''max_size'', GInt (cfg_MaxCacheSize (cd_config c))),
      (''default_ttl'', GFloat (Seconds (cfg_DefaultTTL (cd_config c)))),
      (''metrics'', GMap (caching_GetStats (cd_metrics c)))]"

subsection \<open>Interleaved calls\<close>

text \<open>
  A history of the decorator: look-ups, completed calls of the inner agent (with the message
  and the response) and invalidations, in the order in which they reach the store.
\<close>

datatype cd_event =
    Lookup time "message option"
  | Complete "string \<Rightarrow> time" time time "message option" "message option"
  | Invalidated "message option"

fun cd_step :: "'s CacheStore \<Rightarrow> digest \<Rightarrow> cd_event \<Rightarrow> 's CachingDecorator \<Rightarrow> 's CachingDecorator" where
  "cd_step st dg (Lookup now m) c = snd (caching_begin st dg now m c)"
| "cd_step st dg (Complete tc now now' m r) c =
     (case generateCacheKey dg (cd_config c) m of
        Some key \<Rightarrow> caching_finish st tc now now' key r c | None \<Rightarrow> c)"
| "cd_step st dg (Invalidated m) c =
     (case caching_Invalidate st dg m c of Ok c' \<Rightarrow> c' | _ \<Rightarrow> c)"

text \<open>The events that replace or remove the entry under \<open>key\<close>.\<close>

fun touches :: "digest \<Rightarrow> CachingConfig \<Rightarrow> string \<Rightarrow> cd_event \<Rightarrow> bool" where
  "touches dg cfg key (Lookup now m) = False"
| "touches dg cfg key (Complete tc now now' m r) = (generateCacheKey dg cfg m = Some key)"
| "touches dg cfg key (Invalidated m) = (m = None \<or> generateCacheKey dg cfg m = Some key)"

lemma caching_finish_sel [simp]:
  "cd_store (caching_finish st tc now now' key r c) =
     snd (cs_Set st tc now now' key r (cfg_DefaultTTL (cd_config c)) (cd_store c))"
  "cd_config (caching_finish st tc now now' key r c) = cd_config c"
  by (simp_all add: caching_finish_def Let_def split: prod.split)

lemma caching_begin_sel [simp]:
  "cd_store (snd (caching_begin st dg now m c)) = cd_store c"
  "cd_config (snd (caching_begin st dg now m c)) = cd_config c"
  by (simp_all add: caching_begin_def split: option.split)

lemma cd_step_config [simp]: "cd_config (cd_step st dg e c) = cd_config c"
  by (cases e) (auto simp: caching_Invalidate_def Let_def split: option.splits outcome.splits)

context cache_store
begin

lemma step_store:
  assumes "invar (cd_store c)"
  shows "invar (cd_store (cd_step st dg e c))"
    and "contents (cd_store (cd_step st dg e c)) key = Some (r, t) \<Longrightarrow>
      (\<exists>tc now now' m. e = Complete tc now now' m r \<and> generateCacheKey dg (cd_config c) m = Some key \<and>
         t = now + cfg_DefaultTTL (cd_config c)) \<or>
      \<not> touches dg (cd_config c) key e \<and> contents (cd_store c) key = Some (r, t)"
proof -
  have "invar (cd_store (cd_step st dg e c)) \<and>
    (contents (cd_store (cd_step st dg e c)) key = Some (r, t) \<longrightarrow>
      (\<exists>tc now now' m. e = Complete tc now now' m r \<and> generateCacheKey dg (cd_config c) m = Some key \<and>
         t = now + cfg_DefaultTTL (cd_config c)) \<or>
      \<not> touches dg (cd_config c) key e \<and> contents (cd_store c) key = Some (r, t))"
  proof (cases e)
    case (Complete tc now now' m r')
    show ?thesis
    proof (cases "generateCacheKey dg (cd_config c) m")
      case (Some k)
      then show ?thesis
        using Complete assms inv_set set_same
          set_other [OF assms, of key k tc now now' r' "cfg_DefaultTTL (cd_config c)"]
        by (cases "key = k") auto
    qed (use Complete assms in simp)
  next
    case (Invalidated m)
    then show ?thesis
      using assms inv_delete inv_flush
      by (cases m) (auto simp: caching_Invalidate_def Let_def delete flush split: option.splits)
  qed (use assms in simp)
  then show "invar (cd_store (cd_step st dg e c))"
    and "contents (cd_store (cd_step st dg e c)) key = Some (r, t) \<Longrightarrow>
      (\<exists>tc now now' m. e = Complete tc now now' m r \<and> generateCacheKey dg (cd_config c) m = Some key \<and>
         t = now + cfg_DefaultTTL (cd_config c)) \<or>
      \<not> touches dg (cd_config c) key e \<and> contents (cd_store c) key = Some (r, t)"
    by blast+
qed

lemma run_config: "cd_config (fold (cd_step st dg) es c) = cd_config c"
  by (induction es arbitrary: c) auto

lemma run_invar: "invar (cd_store c) \<Longrightarrow> invar (cd_store (fold (cd_step st dg) es c))"
  by (induction es arbitrary: c) (auto intro: step_store(1))

lemma run_provenance:
  assumes "invar (cd_store c)" and "contents (cd_store c) = Map.empty"
    and "contents (cd_store (fold (cd_step st dg) es c)) key = Some (r, t)"
  shows "\<exists>pre tc now now' m post. es = pre @ Complete tc now now' m r # post \<and>
    generateCacheKey dg (cd_config c) m = Some key \<and> t = now + cfg_DefaultTTL (cd_config c) \<and>
    (\<forall>e \<in> set post. \<not> touches dg (cd_config c) key e)"
  using assms(3)
proof (induction es rule: rev_induct)
  case Nil
  with assms(2) show ?case by simp
next
  case (snoc e es)
  let ?c = "fold (cd_step st dg) es c"
  have "invar (cd_store ?c)" by (rule run_invar [OF assms(1)])
  from step_store(2) [OF this, of dg e key r t] snoc.prems
  consider tc now now' m where "e = Complete tc now now' m r" "generateCacheKey dg (cd_config c) m = Some key"
      "t = now + cfg_DefaultTTL (cd_config c)"
    | "\<not> touches dg (cd_config c) key e" "contents (cd_store ?c) key = Some (r, t)"
    by (auto simp: run_config)
  then show ?case
  proof cases
    case 1
    then show ?thesis by (intro exI [of _ es] exI [of _ tc] exI [of _ now] exI [of _ now'] exI [of _ m] exI [of _ "[]"]) simp
  next
    case 2
    from snoc.IH [OF this(2)] obtain pre tc now now' m post where
      "es = pre @ Complete tc now now' m r # post" "generateCacheKey dg (cd_config c) m = Some key"
      "t = now + cfg_DefaultTTL (cd_config c)" "\<forall>e \<in> set post. \<not> touches dg (cd_config c) key e" by blast
    with 2(1) show ?thesis
      by (intro exI [of _ pre] exI [of _ tc] exI [of _ now] exI [of _ now'] exI [of _ m] exI [of _ "post @ [e]"]) auto
  qed
qed

text \<open>A hit is the response of the last completed call under that key, not yet expired.\<close>

lemma hit_provenance:
  assumes "invar (cd_store c)" and "contents (cd_store c) = Map.empty"
    and hit: "fst (caching_begin st dg t m (fold (cd_step st dg) es c)) = Hit r"
  shows "\<exists>pre tc now now' m' post. es = pre @ Complete tc now now' m' r # post \<and>
    generateCacheKey dg (cd_config c) m' = generateCacheKey dg (cd_config c) m \<and>
    t \<le> now + cfg_DefaultTTL (cd_config c) \<and>
    (\<forall>key. generateCacheKey dg (cd_config c) m = Some key \<longrightarrow>
       (\<forall>e \<in> set post. \<not> touches dg (cd_config c) key e))"
proof -
  let ?c = "fold (cd_step st dg) es c"
  obtain key where key: "generateCacheKey dg (cd_config c) m = Some key"
    and g: "cs_Get st t key (cd_store ?c) = Some r"
    using hit by (auto simp: caching_begin_def run_config split: option.splits)
  from g get [OF run_invar [OF assms(1), of dg es]] obtain x where
    x: "contents (cd_store ?c) key = Some (r, x)" "t \<le> x"
    by (auto split: option.splits if_splits)
  from run_provenance [OF assms(1,2) x(1)] key x(2) show ?thesis by fastforce
qed

text \<open>A completed call answers the next call with the same key until it expires.\<close>

lemma finish_then_hit:
  assumes "invar (cd_store c)" and "generateCacheKey dg (cd_config c) m = Some key"
    and "t \<le> now + cfg_DefaultTTL (cd_config c)"
  shows "fst (caching_begin st dg t m (caching_finish st tc now now' key r c)) = Hit r"
  using assms get [OF inv_set [OF assms(1)]] set_same [OF assms(1)]
  by (simp add: caching_begin_def)

end

subsection \<open>The default decorator\<close>

lemma NewCachingDecorator_ok:
  "NewCachingDecorator cfg = Ok \<lparr>cd_config = caching_defaults cfg, cd_metrics = NewCachingMetrics,
     cd_store = NewMemoryCacheStore (cfg_MaxCacheSize (caching_defaults cfg)), cd_hooked = True\<rparr>"
proof -
  have "CachingConfig_Validate (caching_defaults cfg) = None"
    by (simp add: CachingConfig_Validate_def caching_defaults_def Let_def second_def)
  then show ?thesis by (simp add: NewCachingDecorator_def Let_def)
qed

lemma ms_contents_new: "ms_contents (NewMemoryCacheStore n) = Map.empty"
  by (simp add: ms_contents_def NewMemoryCacheStore_def ms_view_def fun_eq_iff)

text \<open>
  Every answer from the cache is genuine and fresh, under every interleaving of concurrent
  calls and invalidations on a decorator with the default store: a hit at time \<open>t\<close> returns
  the response of a completed call of the inner agent for a message with the same cache key,
  stored no longer than the configured time to live before \<open>t\<close>, and since then no other call
  with that key completed and the key was not invalidated.
\<close>
lemma caching_hit_provenance:
  assumes "NewCachingDecorator cfg = Ok c"
    and "fst (caching_begin MemoryCacheStore_methods dg t m
           (fold (cd_step MemoryCacheStore_methods dg) es c)) = Hit r"
  shows "\<exists>pre tc now now' m' post. es = pre @ Complete tc now now' m' r # post \<and>
    generateCacheKey dg (cd_config c) m' = generateCacheKey dg (cd_config c) m \<and>
    t \<le> now + cfg_DefaultTTL (cd_config c) \<and>
    (\<forall>key. generateCacheKey dg (cd_config c) m = Some key \<longrightarrow>
       (\<forall>e \<in> set post. \<not> touches dg (cd_config c) key e))"
proof -
  have "ms_ok (cd_store c)" "ms_contents (cd_store c) = Map.empty"
    using assms(1) by (auto simp: NewCachingDecorator_ok ms_ok_new ms_contents_new)
  then show ?thesis using assms(2) by (rule memory_store.hit_provenance)
qed

definition sample_digest :: digest where
  "sample_digest = \<lparr>json_Marshal = (\<lambda>_. None), sha256_hex = (\<lambda>s. s), float_text = (\<lambda>_. [])\<rparr>"

lemmas store_eval = MemoryCacheStore_methods_def ms_Get_def ms_Set_def ms_Delete_def ms_evict_def ms_pushFront_def
  ms_Size_def NewMemoryCacheStore_def ce_isExpired_def
lemmas caching_eval = store_eval caching_begin_def caching_finish_def generateCacheKey_def sample_digest_def
  caching_defaults_def DefaultCachingConfig_def ContentString_def NewMessage_def metrics_defs
  NewCachingMetrics_def second_def

text \<open>
  Caching saves the second call: after a call that the inner agent answered, a call with the
  same cache key (of any context) that starts before the entry expires returns the same
  response without calling any inner agent; the world changes by the reading of the clock
  alone.
\<close>
lemma caching_second_call:
  assumes "ms_ok (cd_store c)"
    and "caching_Process MemoryCacheStore_methods dg clk ag ctx m c w = (Ok r, c', w')"
    and "fst (caching_begin MemoryCacheStore_methods dg (fst (clk w)) m c) = Miss key"
    and "generateCacheKey dg (cd_config c) m' = Some key"
    and "fst (clk v) \<le> fst (clk (snd (agent_Process ag ctx m (snd (clk w))))) + cfg_DefaultTTL (cd_config c)"
  shows "\<exists>c''. caching_Process MemoryCacheStore_methods dg clk ag' ctx' m' c' v = (Ok r, c'', snd (clk v))"
proof -
  let ?st = MemoryCacheStore_methods
  let ?b = "snd (caching_begin ?st dg (fst (clk w)) m c)"
  obtain u where u: "agent_Process ag ctx m (snd (clk w)) = (Ok r, u)"
    and c': "\<exists>t'. c' = caching_finish ?st (\<lambda>_. fst (clk u)) (fst (clk u)) t' key r ?b"
    using assms(2,3)
    by (auto simp: caching_Process_def Let_def split: prod.splits outcome.splits cache_lookup.splits)
  have "ms_ok (cd_store ?b)" "cd_config ?b = cd_config c" using assms(1) by simp_all
  then have "fst (caching_begin ?st dg (fst (clk v)) m' c') = Hit r"
    using memory_store.finish_then_hit [of ?b dg m' key "fst (clk v)" "fst (clk u)"] assms(4,5) u c' by auto
  then show ?thesis
    by (auto simp: caching_Process_def Let_def split: prod.splits cache_lookup.splits)
qed

definition echo_agent :: "nat agent" where
  "echo_agent = \<lparr>agent_Name = ''echo'', agent_Capabilities = [], agent_Process = (\<lambda>ctx m n. (Ok m, Suc n))\<rparr>"

lemma RecordInvalidation_funpow:
  "(RecordInvalidation ^^ n) x = x\<lparr>cm_Invalidations := cm_Invalidations x + int n\<rparr>"
  by (induction n) (simp_all add: RecordInvalidation_def)

lemma fold_cd_step_config [simp]: "cd_config (fold (cd_step st dg) es c) = cd_config c"
  by (induction es arbitrary: c) auto

text \<open>A look-up that produced a key.\<close>

fun is_lookup :: "digest \<Rightarrow> CachingConfig \<Rightarrow> cd_event \<Rightarrow> bool" where
  "is_lookup dg cfg (Lookup now m) = (generateCacheKey dg cfg m \<noteq> None)"
| "is_lookup dg cfg _ = False"

lemma cd_step_counts:
  "cm_TotalRequests (cd_metrics (cd_step st dg e c)) - cm_TotalRequests (cd_metrics c) =
     (if is_lookup dg (cd_config c) e then 1 else 0) \<and>
   cm_TotalRequests (cd_metrics (cd_step st dg e c)) - cm_TotalRequests (cd_metrics c) =
     (cm_CacheHits (cd_metrics (cd_step st dg e c)) - cm_CacheHits (cd_metrics c)) +
     (cm_CacheMisses (cd_metrics (cd_step st dg e c)) - cm_CacheMisses (cd_metrics c))"
  by (cases e)
    (auto simp: caching_begin_def caching_finish_def caching_Invalidate_def metrics_defs
      RecordInvalidation_funpow Let_def
      split: option.splits prod.splits)

lemma fold_cd_step_counts:
  assumes "cd_metrics c = NewCachingMetrics"
  shows "cm_TotalRequests (cd_metrics (fold (cd_step st dg) es c)) =
      cm_CacheHits (cd_metrics (fold (cd_step st dg) es c)) + cm_CacheMisses (cd_metrics (fold (cd_step st dg) es c)) \<and>
    cm_TotalRequests (cd_metrics (fold (cd_step st dg) es c)) = int (length (filter (is_lookup dg (cd_config c)) es))"
proof (induction es rule: rev_induct)
  case Nil
  then show ?case using assms by (simp add: NewCachingMetrics_def)
next
  case (snoc e es)
  then show ?case using cd_step_counts [of st dg e "fold (cd_step st dg) es c"] by (simp split: if_splits)
qed

lemma rates_sum:
  assumes "cm_TotalRequests mt = cm_CacheHits mt + cm_CacheMisses mt"
  shows "HitRate mt + MissRate mt = (if cm_TotalRequests mt = 0 then 0 else 1)"
proof (cases "cm_TotalRequests mt = 0")
  case False
  then show ?thesis
    using assms by (simp add: HitRate_def MissRate_def add_divide_distrib [symmetric] del: of_int_add flip: of_int_add)
qed (simp add: HitRate_def MissRate_def)

text \<open>
  The metrics account for every request: in every history of a new decorator the total is
  the sum of hits and misses, it is the number of look-ups that produced a key, and the hit
  rate and the miss rate add up to one as soon as there was one.
\<close>
lemma caching_metrics_account:
  assumes "cd_metrics c = NewCachingMetrics"
    and "mt = cd_metrics (fold (cd_step st dg) es c)"
  shows "cm_TotalRequests mt = cm_CacheHits mt + cm_CacheMisses mt \<and>
    cm_TotalRequests mt = int (length (filter (is_lookup dg (cd_config c)) es)) \<and>
    HitRate mt + MissRate mt = (if cm_TotalRequests mt = 0 then 0 else 1)"
  using fold_cd_step_counts [OF assms(1), of st dg es] rates_sum [of mt] assms(2) by simp

end
