(* ===== verification/Composition.thy ===== *)
theory Composition
  imports Message
begin

text \<open>
  The composition patterns of package \<open>composition\<close>: \<open>SequentialAgent\<close>, \<open>FallbackAgent\<close>,
  \<open>ConditionalAgent\<close> with its condition combinators, and \<open>ParallelAgent\<close>.

  Each composed agent acts on the same world as its parts, so the order and the number of
  calls are visible in the final world.  The specifications are rule-based: \<open>seq_chain\<close> and
  \<open>all_failed\<close> say which calls were made, with which results and in which order.
\<close>

section \<open>Shared parts\<close>

text \<open>
  The capabilities of a composed agent: the union, in the order of some iteration over the
  set the code builds, and the name of the pattern.
\<close>

definition combined_Capabilities :: "string \<Rightarrow> 'w agent list \<Rightarrow> string list" where
  "combined_Capabilities kind agents = remdups (concat (map agent_Capabilities agents)) @ [kind]"

text \<open>Two assignments to the metadata of the message an agent returned.\<close>

definition annotate :: "string \<Rightarrow> gval \<Rightarrow> string \<Rightarrow> gval \<Rightarrow> message option \<Rightarrow> reply" where
  "annotate k1 v1 k2 v2 result =
     (case result of
        None \<Rightarrow> Panic ''nil pointer dereference''
      | Some m \<Rightarrow>
          (case WithMetadata k1 v1 m of
             Ok m1 \<Rightarrow> (case WithMetadata k2 v2 m1 of Ok m2 \<Rightarrow> Ok (Some m2) | Err e \<Rightarrow> Err e | Panic p \<Rightarrow> Panic p)
           | Err e \<Rightarrow> Err e
           | Panic p \<Rightarrow> Panic p))"

lemma annotate_cases:
  "annotate k1 v1 k2 v2 result =
     (case result of
        None \<Rightarrow> Panic ''nil pointer dereference''
      | Some m \<Rightarrow>
          (case msg_metadata m of
             None \<Rightarrow> Panic ''assignment to entry in nil map''
           | Some md \<Rightarrow> Ok (Some (m\<lparr>msg_metadata := Some (go_set k2 v2 (go_set k1 v1 md))\<rparr>))))"
  by (simp add: annotate_def WithMetadata_def split: option.split)

section \<open>Sequential agent\<close>

record 'w SequentialAgent =
  sq_name :: string
  sq_agents :: "'w agent list"

definition NewSequentialAgent :: "string \<Rightarrow> 'w agent list \<Rightarrow> 'w SequentialAgent outcome" where
  "NewSequentialAgent name agents =
     (if agents = [] then Err (Errorf ''sequential agent requires at least one agent'' [] None)
      else Ok \<lparr>sq_name = name, sq_agents = agents\<rparr>)"

fun seq_loop ::
    "'w ctx_err \<Rightarrow> go_ctx \<Rightarrow> int \<Rightarrow> 'w agent list \<Rightarrow> message option \<Rightarrow> 'w \<Rightarrow> reply \<times> 'w" where
  "seq_loop cerr ctx i [] current w = (Ok current, w)"
| "seq_loop cerr ctx i (a # agents) current w =
     (case cerr ctx w of
        Some e \<Rightarrow> (Err (Errorf ''sequential execution cancelled at step %d: %w'' [GInt (i + 1)] (Some e)), w)
      | None \<Rightarrow>
          (case agent_Process a ctx current w of
             (Err e, w) \<Rightarrow>
               (Err (Errorf ''step %d (%s) failed: %w'' [GInt (i + 1), GStr (agent_Name a)] (Some e)), w)
           | (Panic p, w) \<Rightarrow> (Panic p, w)
           | (Ok result, w) \<Rightarrow> seq_loop cerr ctx (i + 1) agents result w))"

definition seq_Process ::
    "'w ctx_err \<Rightarrow> 'w SequentialAgent \<Rightarrow> go_ctx \<Rightarrow> message option \<Rightarrow> 'w \<Rightarrow> reply \<times> 'w" where
  "seq_Process cerr s ctx message w = seq_loop cerr ctx 0 (sq_agents s) message w"

definition seq_agent :: "'w ctx_err \<Rightarrow> 'w SequentialAgent \<Rightarrow> 'w agent" where
  "seq_agent cerr s =
     \<lparr>agent_Name = sq_name s, agent_Capabilities = combined_Capabilities ''sequential'' (sq_agents s),
      agent_Process = seq_Process cerr s\<rparr>"

text \<open>
  \<open>seq_chain cerr ctx agents m w r w'\<close>: the agents answer one after the other, each called
  once on the answer of the one before, the context being live before each call.
\<close>

inductive seq_chain ::
    "'w ctx_err \<Rightarrow> go_ctx \<Rightarrow> 'w agent list \<Rightarrow> message option \<Rightarrow> 'w \<Rightarrow> message option \<Rightarrow> 'w \<Rightarrow> bool"
  for cerr ctx where
  chain_Nil: "seq_chain cerr ctx [] m w m w"
| chain_Cons: "cerr ctx w = None \<Longrightarrow> agent_Process a ctx m w = (Ok m1, w1) \<Longrightarrow>
    seq_chain cerr ctx agents m1 w1 r w' \<Longrightarrow> seq_chain cerr ctx (a # agents) m w r w'"

inductive_simps seq_chain_simps [simp]:
  "seq_chain cerr ctx [] m w r w'"
  "seq_chain cerr ctx (a # agents) m w r w'"

text \<open>How the step after a chain ends the sequence.\<close>

inductive seq_stop ::
    "'w ctx_err \<Rightarrow> go_ctx \<Rightarrow> int \<Rightarrow> 'w agent \<Rightarrow> message option \<Rightarrow> 'w \<Rightarrow> reply \<Rightarrow> 'w \<Rightarrow> bool"
  for cerr ctx where
  stop_cancelled: "cerr ctx w = Some e \<Longrightarrow>
    seq_stop cerr ctx i a m w (Err (Errorf ''sequential execution cancelled at step %d: %w'' [GInt (i + 1)] (Some e))) w"
| stop_failed: "cerr ctx w = None \<Longrightarrow> agent_Process a ctx m w = (Err e, w') \<Longrightarrow>
    seq_stop cerr ctx i a m w
      (Err (Errorf ''step %d (%s) failed: %w'' [GInt (i + 1), GStr (agent_Name a)] (Some e))) w'"
| stop_panic: "cerr ctx w = None \<Longrightarrow> agent_Process a ctx m w = (Panic p, w') \<Longrightarrow>
    seq_stop cerr ctx i a m w (Panic p) w'"

lemma seq_loop_ok_iff:
  "seq_loop cerr ctx i agents m w = (Ok r, w') \<longleftrightarrow> seq_chain cerr ctx agents m w r w'"
  by (induction cerr ctx i agents m w rule: seq_loop.induct)
    (auto split: option.splits outcome.splits prod.splits)

lemma seq_loop_chain:
  "seq_chain cerr ctx pre m w m1 w1 \<Longrightarrow>
    seq_loop cerr ctx i (pre @ post) m w = seq_loop cerr ctx (i + int (length pre)) post m1 w1"
  by (induction arbitrary: i rule: seq_chain.induct) (simp_all add: add.assoc [symmetric] add.commute)

lemma seq_loop_stop:
  "seq_stop cerr ctx i a m w res w' \<Longrightarrow> seq_loop cerr ctx i (a # post) m w = (res, w')"
  by (induction rule: seq_stop.induct) simp_all

lemma seq_loop_not_ok:
  assumes "seq_loop cerr ctx i agents m w = (res, w')" and "\<not> is_Ok res"
  shows "\<exists>pre a post m1 w1. agents = pre @ a # post \<and> seq_chain cerr ctx pre m w m1 w1 \<and>
    seq_stop cerr ctx (i + int (length pre)) a m1 w1 res w'"
  using assms
proof (induction cerr ctx i agents m w rule: seq_loop.induct)
  case (2 cerr ctx i a agents m w)
  have stop: "\<exists>pre a' post m1 w1. a # agents = pre @ a' # post \<and> seq_chain cerr ctx pre m w m1 w1 \<and>
    seq_stop cerr ctx (i + int (length pre)) a' m1 w1 res w'" if "seq_stop cerr ctx i a m w res w'"
    using that by (intro exI [of _ "[]"] exI [of _ a] exI [of _ agents]) simp
  show ?case
  proof (cases "cerr ctx w")
    case (Some e)
    then show ?thesis using 2(2) by (intro stop) (auto intro: stop_cancelled)
  next
    case None
    obtain q u where q: "agent_Process a ctx m w = (q, u)" by (cases "agent_Process a ctx m w")
    show ?thesis
    proof (cases q)
      case (Ok x)
      with None q 2(2,3) 2(1) [OF None q [symmetric] Ok] obtain pre a' post m1 w1 where
        "agents = pre @ a' # post" "seq_chain cerr ctx pre x u m1 w1"
        "seq_stop cerr ctx (i + 1 + int (length pre)) a' m1 w1 res w'" by auto
      with None q Ok show ?thesis
        by (intro exI [of _ "a # pre"] exI [of _ a'] exI [of _ post] exI [of _ m1] exI [of _ w1])
          (simp add: add.assoc)
    next
      case (Err e)
      then show ?thesis using None q 2(2) by (intro stop) (auto intro: stop_failed)
    next
      case (Panic p)
      then show ?thesis using None q 2(2) by (intro stop) (auto intro: stop_panic)
    qed
  qed
qed auto

text \<open>
  The sequential agent is the composition of its agents: it answers \<open>r\<close> exactly when the
  agents answer one after the other, each called once on the previous answer, and it ends in
  an error or a panic exactly when the agents before some position do so and the step at that
  position is cancelled, fails or panics; the error names that position and wraps its cause,
  and no later agent is called.
\<close>
lemma seq_Process_spec:
  "(seq_Process cerr s ctx m w = (Ok r, w') \<longleftrightarrow> seq_chain cerr ctx (sq_agents s) m w r w') \<and>
   (is_Ok res \<or>
     (seq_Process cerr s ctx m w = (res, w') \<longleftrightarrow>
       (\<exists>pre a post m1 w1. sq_agents s = pre @ a # post \<and> seq_chain cerr ctx pre m w m1 w1 \<and>
          seq_stop cerr ctx (int (length pre)) a m1 w1 res w')))"
proof -
  have "seq_Process cerr s ctx m w = (res, w')"
    if "sq_agents s = pre @ a # post" "seq_chain cerr ctx pre m w m1 w1"
      "seq_stop cerr ctx (int (length pre)) a m1 w1 res w'" for pre a post m1 w1
    using seq_loop_chain [OF that(2), of 0 "a # post"] seq_loop_stop [OF that(3), of post] that(1)
    by (simp add: seq_Process_def)
  moreover have "\<exists>pre a post m1 w1. sq_agents s = pre @ a # post \<and> seq_chain cerr ctx pre m w m1 w1 \<and>
      seq_stop cerr ctx (int (length pre)) a m1 w1 res w'"
    if "seq_Process cerr s ctx m w = (res, w')" "\<not> is_Ok res"
    using seq_loop_not_ok [of cerr ctx 0 "sq_agents s" m w res w'] that by (simp add: seq_Process_def)
  ultimately show ?thesis by (auto simp: seq_Process_def seq_loop_ok_iff)
qed

section \<open>Fallback agent\<close>

record 'w FallbackAgent =
  fb_name :: string
  fb_agents :: "'w agent list"

definition NewFallbackAgent :: "string \<Rightarrow> 'w agent list \<Rightarrow> 'w FallbackAgent outcome" where
  "NewFallbackAgent name agents =
     (if agents = [] then Err (Errorf ''fallback agent requires at least one agent'' [] None)
      else Ok \<lparr>fb_name = name, fb_agents = agents\<rparr>)"

text \<open>\<open>et\<close> is the text of an error, \<open>err.Error()\<close>.\<close>

definition attempt_text :: "(go_error \<Rightarrow> string) \<Rightarrow> int \<Rightarrow> 'w agent \<Rightarrow> go_error \<Rightarrow> string" where
  "attempt_text et i a e = ''agent '' @ show_int (i + 1) @ '' ('' @ agent_Name a @ ''): '' @ et e"

fun fallback_loop ::
    "(go_error \<Rightarrow> string) \<Rightarrow> 'w ctx_err \<Rightarrow> go_ctx \<Rightarrow> message option \<Rightarrow> int \<Rightarrow> int \<Rightarrow> 'w agent list
      \<Rightarrow> string list \<Rightarrow> 'w \<Rightarrow> reply \<times> 'w" where
  "fallback_loop et cerr ctx message n i [] errors w =
     (Err (Errorf ''all %d agents failed: %s'' [GInt n, GStr (strings_Join errors ''; '')] None), w)"
| "fallback_loop et cerr ctx message n i (a # agents) errors w =
     (case cerr ctx w of
        Some e \<Rightarrow> (Err (Errorf ''fallback execution cancelled at attempt %d: %w'' [GInt (i + 1)] (Some e)), w)
      | None \<Rightarrow>
          (case agent_Process a ctx message w of
             (Ok result, w) \<Rightarrow>
               (annotate ''fallback_agent_used'' (GStr (agent_Name a)) ''fallback_attempt'' (GInt (i + 1)) result, w)
           | (Panic p, w) \<Rightarrow> (Panic p, w)
           | (Err e, w) \<Rightarrow>
               fallback_loop et cerr ctx message n (i + 1) agents (errors @ [attempt_text et i a e]) w))"

definition fallback_Process ::
    "(go_error \<Rightarrow> string) \<Rightarrow> 'w ctx_err \<Rightarrow> 'w FallbackAgent \<Rightarrow> go_ctx \<Rightarrow> message option \<Rightarrow> 'w \<Rightarrow> reply \<times> 'w" where
  "fallback_Process et cerr f ctx message w =
     fallback_loop et cerr ctx message (int (length (fb_agents f))) 0 (fb_agents f) [] w"

definition fallback_agent :: "(go_error \<Rightarrow> string) \<Rightarrow> 'w ctx_err \<Rightarrow> 'w FallbackAgent \<Rightarrow> 'w agent" where
  "fallback_agent et cerr f =
     \<lparr>agent_Name = fb_name f, agent_Capabilities = combined_Capabilities ''fallback'' (fb_agents f),
      agent_Process = fallback_Process et cerr f\<rparr>"

text \<open>
  \<open>all_failed cerr ctx m agents w es w'\<close>: every agent was called once, in order, on the
  original message, and failed, with the errors \<open>es\<close>.
\<close>

inductive all_failed ::
    "'w ctx_err \<Rightarrow> go_ctx \<Rightarrow> message option \<Rightarrow> 'w agent list \<Rightarrow> 'w \<Rightarrow> go_error list \<Rightarrow> 'w \<Rightarrow> bool"
  for cerr ctx m where
  failed_Nil: "all_failed cerr ctx m [] w [] w"
| failed_Cons: "cerr ctx w = None \<Longrightarrow> agent_Process a ctx m w = (Err e, w1) \<Longrightarrow>
    all_failed cerr ctx m agents w1 es w' \<Longrightarrow> all_failed cerr ctx m (a # agents) w (e # es) w'"

inductive_simps all_failed_simps [simp]:
  "all_failed cerr ctx m [] w es w'"
  "all_failed cerr ctx m (a # agents) w es w'"

text \<open>The recorded texts of the failed attempts, numbered from \<open>i + 1\<close>.\<close>

fun attempt_texts :: "(go_error \<Rightarrow> string) \<Rightarrow> int \<Rightarrow> 'w agent list \<Rightarrow> go_error list \<Rightarrow> string list" where
  "attempt_texts et i (a # agents) (e # es) = attempt_text et i a e # attempt_texts et (i + 1) agents es"
| "attempt_texts et i _ _ = []"

lemma fallback_loop_failed:
  "all_failed cerr ctx m pre w es w1 \<Longrightarrow>
    fallback_loop et cerr ctx m n i (pre @ post) errs w =
      fallback_loop et cerr ctx m n (i + int (length pre)) post (errs @ attempt_texts et i pre es) w1"
  by (induction arbitrary: i errs rule: all_failed.induct) (simp_all add: add.assoc [symmetric] add.commute)

text \<open>The attempt that ends the loop: cancelled, answered or panicked.\<close>

definition last_attempt :: "'w ctx_err \<Rightarrow> go_ctx \<Rightarrow> message option \<Rightarrow> 'w agent \<Rightarrow> 'w \<Rightarrow> bool" where
  "last_attempt cerr ctx m a w \<longleftrightarrow>
     cerr ctx w \<noteq> None \<or> (case agent_Process a ctx m w of (Err _, _) \<Rightarrow> False | _ \<Rightarrow> True)"

lemma all_failed_prefix:
  "\<exists>pre rest es w1. agents = pre @ rest \<and> all_failed cerr ctx m pre w es w1 \<and>
     (\<forall>a post. rest = a # post \<longrightarrow> last_attempt cerr ctx m a w1)"
proof (induction agents arbitrary: w)
  case (Cons a agents)
  show ?case
  proof (cases "last_attempt cerr ctx m a w")
    case True
    then show ?thesis
      by (intro exI [of _ "[]"] exI [of _ "a # agents"] exI [of _ w]) simp
  next
    case False
    then obtain e w' where a: "cerr ctx w = None" "agent_Process a ctx m w = (Err e, w')"
      by (auto simp: last_attempt_def split: prod.splits outcome.splits)
    from Cons [of w'] obtain pre rest es w1 where
      "agents = pre @ rest" "all_failed cerr ctx m pre w' es w1"
      "\<forall>a post. rest = a # post \<longrightarrow> last_attempt cerr ctx m a w1" by blast
    with a show ?thesis
      by (intro exI [of _ "a # pre"] exI [of _ rest] exI [of _ "e # es"] exI [of _ w1]) simp
  qed
qed (auto intro: failed_Nil)

text \<open>
  The fallback agent tries its agents in order until one does not fail.  There is a first
  part of the list whose agents all failed, each called once on the original message.  If it
  is the whole list, the result is the error that lists every attempt with its number and
  cause.  Otherwise the next agent ends the run and no later agent is called: the run is
  cancelled before its call, or it panics, or its answer is returned with the metadata
  entries that name the agent and the attempt.
\<close>
lemma fallback_Process_spec:
  "\<exists>pre rest es w1. fb_agents f = pre @ rest \<and> all_failed cerr ctx m pre w es w1 \<and>
    (case rest of
       [] \<Rightarrow> fallback_Process et cerr f ctx m w =
         (Err (Errorf ''all %d agents failed: %s''
            [GInt (int (length (fb_agents f))), GStr (strings_Join (attempt_texts et 0 pre es) ''; '')] None), w1)
     | a # post \<Rightarrow>
         (case (cerr ctx w1, agent_Process a ctx m w1) of
            (Some e, _) \<Rightarrow> fallback_Process et cerr f ctx m w =
              (Err (Errorf ''fallback execution cancelled at attempt %d: %w'' [GInt (int (length pre) + 1)] (Some e)), w1)
          | (None, Err e, w2) \<Rightarrow> False
          | (None, Panic p, w2) \<Rightarrow> fallback_Process et cerr f ctx m w = (Panic p, w2)
          | (None, Ok x, w2) \<Rightarrow> fallback_Process et cerr f ctx m w =
              (annotate ''fallback_agent_used'' (GStr (agent_Name a)) ''fallback_attempt''
                 (GInt (int (length pre) + 1)) x, w2)))"
proof -
  obtain pre rest es w1 where p: "fb_agents f = pre @ rest" "all_failed cerr ctx m pre w es w1"
      "\<forall>a post. rest = a # post \<longrightarrow> last_attempt cerr ctx m a w1"
    using all_failed_prefix [of "fb_agents f" cerr ctx m w] by blast
  have run: "fallback_Process et cerr f ctx m w =
      fallback_loop et cerr ctx m (int (length (fb_agents f))) (int (length pre)) rest (attempt_texts et 0 pre es) w1"
    using fallback_loop_failed [OF p(2), of et _ 0 rest "[]"] p(1) by (simp add: fallback_Process_def)
  show ?thesis
  proof (cases rest)
    case Nil
    with p run show ?thesis by (intro exI [of _ pre] exI [of _ rest] exI [of _ es] exI [of _ w1]) simp
  next
    case (Cons a post)
    with p(3) have "last_attempt cerr ctx m a w1" by blast
    with p(1,2) run Cons show ?thesis
      by (intro exI [of _ pre] exI [of _ rest] exI [of _ es] exI [of _ w1])
        (auto simp: last_attempt_def split: option.splits prod.splits outcome.splits)
  qed
qed

section \<open>Conditions\<close>

text \<open>A condition may panic (a nil message, a comparison of uncomparable values).\<close>

type_synonym condition = "message option \<Rightarrow> bool outcome"

function findSubstring_loop :: "string \<Rightarrow> string \<Rightarrow> nat \<Rightarrow> bool" where
  "findSubstring_loop s substr i =
     (if int i \<le> int (length s) - int (length substr) then
        if take (length substr) (drop i s) = substr then True else findSubstring_loop s substr (i + 1)
      else False)"
  by auto
termination by (relation "measure (\<lambda>(s, _, i). Suc (length s) - i)") auto

declare findSubstring_loop.simps [simp del]

definition findSubstring :: "string \<Rightarrow> string \<Rightarrow> bool" where
  "findSubstring s substr = findSubstring_loop s substr 0"

definition on_message :: "(message \<Rightarrow> bool outcome) \<Rightarrow> condition" where
  "on_message f m = (case m of None \<Rightarrow> Panic ''nil pointer dereference'' | Some m \<Rightarrow> f m)"

definition ContentContains :: "(real \<Rightarrow> string) \<Rightarrow> string \<Rightarrow> condition" where
  "ContentContains ff substr = on_message (\<lambda>m.
     Ok (length (ContentString ff m) \<ge> length substr \<and> findSubstring (ContentString ff m) substr))"

definition RoleEquals :: "string \<Rightarrow> condition" where
  "RoleEquals role = on_message (\<lambda>m. Ok (msg_role m = role))"

definition MetadataHasKey :: "string \<Rightarrow> condition" where
  "MetadataHasKey key = on_message (\<lambda>m. Ok (meta_get m key \<noteq> None))"

text \<open>\<open>==\<close> on \<open>interface{}\<close> values: two slices, two maps or two functions of one type panic.\<close>

fun interface_eq :: "gval \<Rightarrow> gval \<Rightarrow> bool outcome" where
  "interface_eq (GStrs a) (GStrs b) = Panic ''comparing uncomparable type''"
| "interface_eq (GList a) (GList b) = Panic ''comparing uncomparable type''"
| "interface_eq (GMap a) (GMap b) = Panic ''comparing uncomparable type''"
| "interface_eq (GFunc a) (GFunc b) = Panic ''comparing uncomparable type''"
| "interface_eq a b = Ok (a = b)"

definition MetadataEquals :: "string \<Rightarrow> gval \<Rightarrow> condition" where
  "MetadataEquals key v = on_message (\<lambda>m.
     case meta_get m key of None \<Rightarrow> Ok False | Some val \<Rightarrow> interface_eq val v)"

fun And :: "condition list \<Rightarrow> condition" where
  "And [] m = Ok True"
| "And (c # cs) m = (case c m of Ok b \<Rightarrow> if \<not> b then Ok False else And cs m | r \<Rightarrow> r)"

fun Or :: "condition list \<Rightarrow> condition" where
  "Or [] m = Ok False"
| "Or (c # cs) m = (case c m of Ok b \<Rightarrow> if b then Ok True else Or cs m | r \<Rightarrow> r)"

definition Not_cond :: "condition \<Rightarrow> condition" where
  "Not_cond c m = (case c m of Ok b \<Rightarrow> Ok (\<not> b) | r \<Rightarrow> r)"

lemma findSubstring_loop_iff:
  "findSubstring_loop s sub i \<longleftrightarrow>
     (\<exists>j \<ge> i. j + length sub \<le> length s \<and> take (length sub) (drop j s) = sub)"
proof (induction s sub i rule: findSubstring_loop.induct)
  case (1 s sub i)
  show ?case
  proof (cases "i + length sub \<le> length s \<and> take (length sub) (drop i s) \<noteq> sub")
    case True
    then have "findSubstring_loop s sub i = findSubstring_loop s sub (i + 1)"
      by (subst findSubstring_loop.simps) auto
    also have "\<dots> \<longleftrightarrow> (\<exists>j \<ge> i + 1. j + length sub \<le> length s \<and> take (length sub) (drop j s) = sub)"
      using 1 True by auto
    also have "\<dots> \<longleftrightarrow> (\<exists>j \<ge> i. j + length sub \<le> length s \<and> take (length sub) (drop j s) = sub)"
      using True by (metis Suc_eq_plus1 Suc_leD Suc_leI le_neq_implies_less)
    finally show ?thesis .
  next
    case False
    then show ?thesis by (subst findSubstring_loop.simps) force
  qed
qed

lemma findSubstring_sublist: "findSubstring s sub \<longleftrightarrow> sublist sub s"
proof
  assume "findSubstring s sub"
  then obtain j where "j + length sub \<le> length s" "take (length sub) (drop j s) = sub"
    by (auto simp: findSubstring_def findSubstring_loop_iff)
  then show "sublist sub s" by (metis append_take_drop_id sublist_appendI)
next
  assume "sublist sub s"
  then obtain ps ss where "s = ps @ sub @ ss" by (auto simp: sublist_def)
  then show "findSubstring s sub"
    by (auto simp: findSubstring_def findSubstring_loop_iff intro!: exI [of _ "length ps"])
qed

lemma ContentContains_sublist:
  "ContentContains ff sub (Some m) = Ok (strings_Contains (ContentString ff m) sub)"
  by (auto simp: ContentContains_def on_message_def findSubstring_sublist strings_Contains_def
      dest: sublist_length_le)

lemma Not_And: "Not_cond (And cs) m = Or (map Not_cond cs) m"
  by (induction cs) (auto simp: Not_cond_def split: outcome.splits)

section \<open>Conditional agent\<close>

record 'w ConditionalAgent =
  ca_name :: string
  ca_routes :: "(condition \<times> 'w agent) list"
  ca_defaultAgent :: "'w agent option"

definition NewConditionalAgent :: "string \<Rightarrow> 'w agent option \<Rightarrow> 'w ConditionalAgent" where
  "NewConditionalAgent name d = \<lparr>ca_name = name, ca_routes = [], ca_defaultAgent = d\<rparr>"

definition AddRoute :: "condition \<Rightarrow> 'w agent \<Rightarrow> 'w ConditionalAgent \<Rightarrow> 'w ConditionalAgent" where
  "AddRoute c a ca = ca\<lparr>ca_routes := ca_routes ca @ [(c, a)]\<rparr>"

definition cond_agents :: "'w ConditionalAgent \<Rightarrow> 'w agent list" where
  "cond_agents ca = (case ca_defaultAgent ca of None \<Rightarrow> [] | Some d \<Rightarrow> [d]) @ map snd (ca_routes ca)"

text \<open>The metadata map \<open>Introspect\<close> builds: it names the default agent without a nil check.\<close>

definition cond_Introspect :: "'w ConditionalAgent \<Rightarrow> (string \<times> gval) list outcome" where
  "cond_Introspect ca =
     (case ca_defaultAgent ca of
        None \<Rightarrow> Panic ''nil pointer dereference''
      | Some d \<Rightarrow> Ok [(''route_count'', GInt (int (length (ca_routes ca)))),
          (''route_names'', GStrs (map (agent_Name \<circ> snd) (ca_routes ca))),
          (''default_agent'', GStr (agent_Name d))])"

definition cond_call ::
    "string \<Rightarrow> gval list \<Rightarrow> gval \<Rightarrow> go_ctx \<Rightarrow> message option \<Rightarrow> 'w agent \<Rightarrow> 'w \<Rightarrow> reply \<times> 'w" where
  "cond_call fmt args route ctx message a w =
     (case agent_Process a ctx message w of
        (Err e, w) \<Rightarrow> (Err (Errorf fmt (args @ [GStr (agent_Name a)]) (Some e)), w)
      | (Panic p, w) \<Rightarrow> (Panic p, w)
      | (Ok result, w) \<Rightarrow>
          (annotate ''conditional_agent_used'' (GStr (agent_Name a)) ''conditional_route'' route result, w))"

fun cond_loop ::
    "go_ctx \<Rightarrow> message option \<Rightarrow> 'w agent option \<Rightarrow> int \<Rightarrow> (condition \<times> 'w agent) list \<Rightarrow> 'w \<Rightarrow> reply \<times> 'w" where
  "cond_loop ctx message d i [] w =
     (case d of
        None \<Rightarrow> (Err (Errorf ''no condition matched and no default agent configured'' [] None), w)
      | Some a \<Rightarrow> cond_call ''default agent (%s) failed: %w'' [] (GStr ''default'') ctx message a w)"
| "cond_loop ctx message d i ((c, a) # routes) w =
     (case c message of
        Ok True \<Rightarrow> cond_call ''route %d (%s) failed: %w'' [GInt (i + 1)] (GInt (i + 1)) ctx message a w
      | Ok False \<Rightarrow> cond_loop ctx message d (i + 1) routes w
      | Err e \<Rightarrow> (Err e, w)
      | Panic p \<Rightarrow> (Panic p, w))"

definition cond_Process ::
    "'w ctx_err \<Rightarrow> 'w ConditionalAgent \<Rightarrow> go_ctx \<Rightarrow> message option \<Rightarrow> 'w \<Rightarrow> reply \<times> 'w" where
  "cond_Process cerr ca ctx message w =
     (case cerr ctx w of
        Some e \<Rightarrow> (Err (Errorf ''conditional routing cancelled: %w'' [] (Some e)), w)
      | None \<Rightarrow> cond_loop ctx message (ca_defaultAgent ca) 0 (ca_routes ca) w)"

lemma cond_loop_skip:
  "\<forall>(c, a) \<in> set pre. c m = Ok False \<Longrightarrow>
    cond_loop ctx m d i (pre @ post) w = cond_loop ctx m d (i + int (length pre)) post w"
  by (induction pre arbitrary: i) (auto simp: add.assoc)

text \<open>
  The conditional agent calls exactly the agent of the first route whose condition holds on
  the message, and the default agent when every condition is false: the routes before it do
  not affect the world, the reply carries the number of the route, and a failure is wrapped
  with that number.
\<close>
lemma cond_Process_first_match:
  assumes "cerr ctx w = None"
    and "ca_routes ca = pre @ post" and "\<forall>(c, a) \<in> set pre. c m = Ok False"
    and "post = [] \<or> fst (hd post) m = Ok True"
  shows "cond_Process cerr ca ctx m w =
    (case post of
       (c, a) # rest \<Rightarrow> cond_call ''route %d (%s) failed: %w'' [GInt (int (length pre) + 1)]
         (GInt (int (length pre) + 1)) ctx m a w
     | [] \<Rightarrow>
         (case ca_defaultAgent ca of
            None \<Rightarrow> (Err (Errorf ''no condition matched and no default agent configured'' [] None), w)
          | Some a \<Rightarrow> cond_call ''default agent (%s) failed: %w'' [] (GStr ''default'') ctx m a w))"
  using assms(1,2,4) cond_loop_skip [OF assms(3), of ctx "ca_defaultAgent ca" 0 post w]
  by (auto simp: cond_Process_def split: list.split)

definition yes_agent :: "string \<Rightarrow> nat agent" where
  "yes_agent name = \<lparr>agent_Name = name, agent_Capabilities = [],
     agent_Process = (\<lambda>ctx m n. (Ok (Some (NewMessage 0 ''agent'' name)), Suc n))\<rparr>"

section \<open>Parallel agent\<close>

record 'w ParallelAgent =
  pa_name :: string
  pa_agents :: "'w agent list"

definition NewParallelAgent :: "string \<Rightarrow> 'w agent list \<Rightarrow> 'w ParallelAgent outcome" where
  "NewParallelAgent name agents =
     (if agents = [] then Err (Errorf ''parallel agent requires at least one agent'' [] None)
      else Ok \<lparr>pa_name = name, pa_agents = agents\<rparr>)"

record AgentResult =
  ar_AgentName :: string
  ar_Message :: "message option"
  ar_Error :: "go_error option"

text \<open>
  The goroutines of \<open>Process\<close>: one per agent calls it, sends its result on the channel, whose
  buffer has room for all, and reports to the wait group; one closes the channel when the wait
  group is at zero; the caller receives until the channel is closed and empty.  The steps
  interleave in any order; a call takes effect at its completion.  (A goroutine that panics
  ends the program: it has no step here.)
\<close>

record 'w par_state =
  pr_world :: 'w
  pr_calling :: "'w agent list"
  pr_sending :: "AgentResult list"
  pr_leaving :: nat
  pr_wg :: int
  pr_channel :: "AgentResult list"
  pr_closed :: bool
  pr_responses :: "AgentResult list"
  pr_returned :: bool

definition par_init :: "'w agent list \<Rightarrow> 'w \<Rightarrow> 'w par_state \<Rightarrow> bool" where
  "par_init agents w s \<longleftrightarrow> s =
     \<lparr>pr_world = w, pr_calling = agents, pr_sending = [], pr_leaving = 0, pr_wg = int (length agents), pr_channel = [],
      pr_closed = False, pr_responses = [], pr_returned = False\<rparr>"

definition par_result :: "string \<Rightarrow> reply \<Rightarrow> AgentResult option" where
  "par_result name reply =
     (case reply of
        Ok r \<Rightarrow> Some \<lparr>ar_AgentName = name, ar_Message = r, ar_Error = None\<rparr>
      | Err e \<Rightarrow> Some \<lparr>ar_AgentName = name, ar_Message = None, ar_Error = Some e\<rparr>
      | Panic p \<Rightarrow> None)"

inductive par_step :: "go_ctx \<Rightarrow> message option \<Rightarrow> nat \<Rightarrow> 'w par_state \<Rightarrow> 'w par_state \<Rightarrow> bool"
  for ctx m n where
  par_call: "pr_calling s = xs @ a # ys \<Longrightarrow> agent_Process a ctx m (pr_world s) = (reply, w) \<Longrightarrow>
    par_result (agent_Name a) reply = Some r \<Longrightarrow>
    par_step ctx m n s (s\<lparr>pr_world := w, pr_calling := xs @ ys, pr_sending := pr_sending s @ [r]\<rparr>)"
| par_send: "pr_sending s = xs @ r # ys \<Longrightarrow> length (pr_channel s) < n \<Longrightarrow>
    par_step ctx m n s (s\<lparr>pr_sending := xs @ ys, pr_channel := pr_channel s @ [r], pr_leaving := Suc (pr_leaving s)\<rparr>)"
| par_leave: "pr_leaving s = Suc k \<Longrightarrow> par_step ctx m n s (s\<lparr>pr_leaving := k, pr_wg := pr_wg s - 1\<rparr>)"
| par_close: "pr_wg s = 0 \<Longrightarrow> \<not> pr_closed s \<Longrightarrow> par_step ctx m n s (s\<lparr>pr_closed := True\<rparr>)"
| par_receive: "pr_channel s = r # rs \<Longrightarrow> \<not> pr_returned s \<Longrightarrow>
    par_step ctx m n s (s\<lparr>pr_channel := rs, pr_responses := pr_responses s @ [r]\<rparr>)"
| par_return: "pr_channel s = [] \<Longrightarrow> pr_closed s \<Longrightarrow> \<not> pr_returned s \<Longrightarrow> par_step ctx m n s (s\<lparr>pr_returned := True\<rparr>)"

definition prefixed :: "AgentResult \<Rightarrow> (string \<times> gval) list" where
  "prefixed r =
     (case ar_Message r of
        None \<Rightarrow> []
      | Some m \<Rightarrow> (case msg_metadata m of
          None \<Rightarrow> [] | Some md \<Rightarrow> map (\<lambda>(k, v). (ar_AgentName r @ ''.'' @ k, v)) md))"

definition combineResponses :: "(real \<Rightarrow> string) \<Rightarrow> time \<Rightarrow> AgentResult list \<Rightarrow> message" where
  "combineResponses ff now results =
     (let contentParts = concat (map (\<lambda>r. case ar_Message r of None \<Rightarrow> []
            | Some m \<Rightarrow> [''['' @ ar_AgentName r @ '']: '' @ ContentString ff m]) results);
          combinedMetadata = fold (\<lambda>r md. fold (\<lambda>(k, v). go_set k v) (prefixed r) md) results []
      in (NewMessage now ''agent'' (strings_Join contentParts [CHR 0x0A]))\<lparr>msg_metadata := Some combinedMetadata\<rparr>)"

definition error_texts :: "(go_error \<Rightarrow> string) \<Rightarrow> AgentResult list \<Rightarrow> string list" where
  "error_texts et responses =
     concat (map (\<lambda>r. case ar_Error r of None \<Rightarrow> [] | Some e \<Rightarrow> [ar_AgentName r @ '': '' @ et e]) responses)"

text \<open>\<open>Process\<close> after the results are collected.\<close>

definition par_finish ::
    "(go_error \<Rightarrow> string) \<Rightarrow> (real \<Rightarrow> string) \<Rightarrow> time \<Rightarrow> AgentResult list \<Rightarrow> reply" where
  "par_finish et ff now responses =
     (if error_texts et responses \<noteq> [] then
        Err (Errorf ''parallel execution had errors: %s'' [GStr (strings_Join (error_texts et responses) ''; '')] None)
      else Ok (Some (combineResponses ff now responses)))"

lemma fold_prefixed:
  "fold (\<lambda>r md. fold (\<lambda>(k, v). go_set k v) (prefixed r) md) rs md =
     fold (\<lambda>(k, v). go_set k v) (concat (map prefixed rs)) md"
  by (induction rs arbitrary: md) auto

lemma fold_go_set_get:
  "go_get (fold (\<lambda>(k, v). go_set k v) ps md) k =
     (case go_get (rev ps) k of None \<Rightarrow> go_get md k | Some v \<Rightarrow> Some v)"
  by (induction ps arbitrary: md) (auto simp: map_add_def split: option.splits)

lemma combine_metadata_get:
  assumes "distinct (map fst (concat (map prefixed rs)))"
  shows "meta_get (combineResponses ff now rs) k = Some v \<longleftrightarrow> (k, v) \<in> set (concat (map prefixed rs))"
proof -
  have "meta_get (combineResponses ff now rs) k = go_get (rev (concat (map prefixed rs))) k"
    by (simp add: combineResponses_def Let_def NewMessage_def meta_get_def fold_prefixed fold_go_set_get
        split: option.split)
  moreover have "distinct (map fst (rev (concat (map prefixed rs))))"
    using assms by (metis distinct_rev rev_map)
  ultimately show ?thesis by (metis map_of_eq_Some_iff set_rev)
qed

lemma error_texts_Nil: "error_texts et rs = [] \<longleftrightarrow> (\<forall>r \<in> set rs. ar_Error r = None)"
  by (induction rs) (auto simp: error_texts_def split: option.splits)

text \<open>Every result comes from a call of an agent of its name, and no goroutine is lost.\<close>

definition par_answers :: "go_ctx \<Rightarrow> message option \<Rightarrow> 'w agent \<Rightarrow> AgentResult \<Rightarrow> bool" where
  "par_answers ctx m a r \<longleftrightarrow>
     ar_AgentName r = agent_Name a \<and>
     (\<exists>w w'. agent_Process a ctx m w = (case ar_Error r of None \<Rightarrow> Ok (ar_Message r) | Some e \<Rightarrow> Err e, w'))"

definition par_inv :: "go_ctx \<Rightarrow> message option \<Rightarrow> 'w agent list \<Rightarrow> 'w par_state \<Rightarrow> bool" where
  "par_inv ctx m agents s \<longleftrightarrow>
     pr_wg s = int (length (pr_calling s) + length (pr_sending s) + pr_leaving s) \<and>
     (pr_closed s \<longrightarrow> pr_wg s = 0) \<and> (pr_returned s \<longrightarrow> pr_closed s \<and> pr_channel s = []) \<and>
     (\<exists>ps. mset (map fst ps) + mset (pr_calling s) = mset agents \<and>
        mset (map snd ps) = mset (pr_responses s) + mset (pr_channel s) + mset (pr_sending s) \<and>
        (\<forall>(a, r) \<in> set ps. par_answers ctx m a r))"

lemma par_inv_init: "par_init agents w s \<Longrightarrow> par_inv ctx m agents s"
  by (auto simp: par_init_def par_inv_def intro: exI [of _ "[]"])

lemma par_result_answers:
  "par_result (agent_Name a) reply = Some r \<Longrightarrow> agent_Process a ctx m w = (reply, w') \<Longrightarrow> par_answers ctx m a r"
  by (auto simp: par_result_def par_answers_def split: outcome.splits) blast+

lemma par_inv_step: "par_step ctx m n s t \<Longrightarrow> par_inv ctx m agents s \<Longrightarrow> par_inv ctx m agents t"
proof (induction rule: par_step.induct)
  case (par_call s xs a ys reply w r)
  from par_call.prems obtain ps where ps: "mset (map fst ps) + mset (pr_calling s) = mset agents"
      "mset (map snd ps) = mset (pr_responses s) + mset (pr_channel s) + mset (pr_sending s)"
      "\<forall>(a, r) \<in> set ps. par_answers ctx m a r" by (auto simp: par_inv_def)
  have "par_answers ctx m a r" by (rule par_result_answers [OF par_call(3,2)])
  then show ?case using par_call ps
    by (auto simp: par_inv_def intro!: exI [of _ "(a, r) # ps"])
next
  case (par_send s xs r ys)
  then show ?case by (auto simp: par_inv_def)
next
  case (par_receive s r rs)
  then show ?case by (auto simp: par_inv_def)
qed (auto simp: par_inv_def)

interpretation parallel: inductive_invariant "par_init agents w" "par_step ctx m n" "par_inv ctx m agents" for agents w ctx m n
  by unfold_locales (auto intro: par_inv_init par_inv_step)

text \<open>The steps end, and only when the caller has returned.\<close>

definition par_work :: "'w par_state \<Rightarrow> nat" where
  "par_work s =
     4 * length (pr_calling s) + 3 * length (pr_sending s) + pr_leaving s + length (pr_channel s) +
     (if pr_closed s then 0 else 1) + (if pr_returned s then 0 else 1)"

lemma par_work_decreases: "par_step ctx m n s t \<Longrightarrow> par_work t < par_work s"
  by (induction rule: par_step.induct) (auto simp: par_work_def)

lemma par_progress:
  fixes agents :: "'a agent list"
  assumes inv: "par_inv ctx m agents s" and live: "\<And>a w. a \<in> set agents \<Longrightarrow> \<not> is_Panic (fst (agent_Process a ctx m w))"
    and "\<not> pr_returned s"
  shows "\<exists>t. par_step ctx m (length agents) s t"
proof -
  consider (call) a ys where "pr_calling s = a # ys" | (send) r ys where "pr_calling s = []" "pr_sending s = r # ys"
    | (leave) k where "pr_calling s = []" "pr_sending s = []" "pr_leaving s = Suc k" | (quiet) "pr_calling s = []" "pr_sending s = []" "pr_leaving s = 0"
    by (metis nat.exhaust neq_Nil_conv)
  then show ?thesis
  proof cases
    case call
    obtain ps :: "('a agent \<times> AgentResult) list" where "mset (map fst ps) + mset (pr_calling s) = mset agents"
      using inv unfolding par_inv_def by blast
    then have "set agents = set (map fst ps @ pr_calling s)" by (metis mset_append mset_eq_setD)
    then have "a \<in> set agents" using call by simp
    obtain reply w where run: "agent_Process a ctx m (pr_world s) = (reply, w)" by (rule prod.exhaust)
    have "\<exists>r. par_result (agent_Name a) reply = Some r"
      using live [OF \<open>a \<in> set agents\<close>, of "pr_world s"] run by (cases reply) (auto simp: par_result_def)
    then show ?thesis using par_call [of s "[]" a ys, OF _ run] call by auto
  next
    case send
    show ?thesis
    proof (cases "pr_channel s")
      case Nil
      have "agents \<noteq> []" using inv send by (auto simp: par_inv_def)
      then have "length (pr_channel s) < length agents" using Nil by simp
      then show ?thesis using par_send [of s "[]" r ys] send by fastforce
    qed (use par_receive assms(3) in blast)
  next
    case leave
    then show ?thesis using par_leave by blast
  next
    case quiet
    show ?thesis
    proof (cases "pr_channel s")
      case Nil
      moreover have "pr_wg s = 0" using inv quiet by (simp add: par_inv_def)
      ultimately show ?thesis using assms(3) par_close [of s] par_return [of s] by (cases "pr_closed s") blast+
    qed (use par_receive assms(3) in blast)
  qed
qed

lemma permute_snd:
  "mset (map snd ps) = mset rs \<Longrightarrow> \<exists>qs. mset qs = mset ps \<and> map snd qs = rs"
proof (induction rs arbitrary: ps)
  case (Cons r rs)
  then have "r \<in> snd ` set ps" by (metis list.set_intros(1) list.set_map mset_eq_setD)
  then obtain a xs ys where ps: "ps = xs @ (a, r) # ys" by (metis imageE prod.collapse split_list)
  then have "mset (map snd (xs @ ys)) = mset rs" using Cons.prems by simp
  then obtain qs where "mset qs = mset (xs @ ys)" "map snd qs = rs" using Cons.IH by blast
  then show ?case using ps by (intro exI [of _ "(a, r) # qs"]) simp
qed simp

lemma par_returned:
  assumes "par_inv ctx m agents s" and "pr_returned s"
  shows "\<exists>as. mset as = mset agents \<and> list_all2 (par_answers ctx m) as (pr_responses s)"
proof -
  have "int (length (pr_calling s) + length (pr_sending s) + pr_leaving s) = 0" and ch: "pr_channel s = []"
    using assms by (auto simp: par_inv_def)
  then have "length (pr_calling s) + length (pr_sending s) + pr_leaving s = 0" by presburger
  then have "pr_calling s = []" "pr_sending s = []" by simp_all
  note idle = ch this
  from assms(1) idle obtain ps where ps: "mset (map fst ps) = mset agents" "mset (map snd ps) = mset (pr_responses s)"
      "\<forall>(a, r) \<in> set ps. par_answers ctx m a r" by (auto simp: par_inv_def)
  obtain qs where qs: "mset qs = mset ps" "map snd qs = pr_responses s" using permute_snd [OF ps(2)] by blast
  have "list_all2 (par_answers ctx m) (map fst qs) (map snd qs)"
    using ps(3) mset_eq_setD [OF qs(1)] by (auto simp: list_all2_conv_all_nth) (metis nth_mem prod.collapse case_prodD)
  moreover have "mset (map fst qs) = mset agents" using qs(1) ps(1) by (metis mset_map)
  ultimately show ?thesis using qs(2) by metis
qed

text \<open>Names without a dot keep the keys of different agents apart.\<close>

lemma dotted_key:
  "CHR ''.'' \<notin> set a \<Longrightarrow> CHR ''.'' \<notin> set b \<Longrightarrow> a @ ''.'' @ k = b @ ''.'' @ l \<Longrightarrow> a = b \<and> k = l"
proof (induction a arbitrary: b)
  case Nil
  then show ?case by (cases b) auto
next
  case (Cons x a)
  then show ?case by (cases b) auto
qed

lemma prefixed_distinct:
  assumes "distinct (map ar_AgentName rs)" and "\<And>r. r \<in> set rs \<Longrightarrow> CHR ''.'' \<notin> set (ar_AgentName r)"
    and "\<And>r msg md. r \<in> set rs \<Longrightarrow> ar_Message r = Some msg \<Longrightarrow> msg_metadata msg = Some md \<Longrightarrow> go_map_ok md"
  shows "distinct (map fst (concat (map prefixed rs)))"
  using assms
proof (induction rs)
  case (Cons r rs)
  have "distinct (map fst (prefixed r))"
    using Cons.prems(3) [of r]
    by (auto simp: prefixed_def go_map_ok_def comp_def case_prod_beta distinct_map inj_on_def split: option.split)
  moreover have "fst ` set (prefixed r) \<inter> fst ` set (concat (map prefixed rs)) = {}"
  proof (rule equals0I)
    fix k assume "k \<in> fst ` set (prefixed r) \<inter> fst ` set (concat (map prefixed rs))"
    then obtain r' k0 k1 where r': "r' \<in> set rs" "ar_AgentName r @ ''.'' @ k0 = ar_AgentName r' @ ''.'' @ k1"
      by (auto simp: prefixed_def split: option.splits)
    then have "ar_AgentName r = ar_AgentName r'" using dotted_key Cons.prems(2) by (metis list.set_intros)
    then show False using r'(1) Cons.prems(1) by auto
  qed
  moreover have "distinct (map fst (concat (map prefixed rs)))"
    by (rule Cons.IH) (use Cons.prems in \<open>auto intro: Cons.prems(3)\<close>)
  ultimately show ?case by simp
qed simp

text \<open>
  C22.
  The parallel agent answers for each of its agents, in every interleaving of its goroutines.
  As long as it has not returned some goroutine can go on, and every step brings it closer to
  its end (no agent panicking).  When it returns, it has received one result per agent, each from
  a call of that agent on the message, in some order.  The outcome is an error exactly if some
  agent failed, naming every failure; otherwise the answer has one line \<open>[name]: text\<close> for each
  message, and, if the names of the agents are distinct and have no dot, its metadata
  have exactly the entries of the messages, each under \<open>name.key\<close>.  A call takes effect at
  its completion.
\<close>
theorem parallel_Process_sound:
  assumes run: "reach (par_init agents w) (par_step ctx m (length agents)) s"
    and live: "\<And>a w. a \<in> set agents \<Longrightarrow> \<not> is_Panic (fst (agent_Process a ctx m w))"
  shows "(\<not> pr_returned s \<longrightarrow> (\<exists>t. par_step ctx m (length agents) s t)) \<and>
    (\<forall>t. par_step ctx m (length agents) s t \<longrightarrow> par_work t < par_work s) \<and>
    (pr_returned s \<longrightarrow>
      (\<exists>as. mset as = mset agents \<and> list_all2 (\<lambda>a r. ar_AgentName r = agent_Name a \<and>
          (\<exists>w w'. agent_Process a ctx m w = (case ar_Error r of None \<Rightarrow> Ok (ar_Message r) | Some e \<Rightarrow> Err e, w'))) as (pr_responses s)) \<and>
      (if \<exists>r \<in> set (pr_responses s). ar_Error r \<noteq> None
       then par_finish et ff now (pr_responses s) = Err (Errorf ''parallel execution had errors: %s''
          [GStr (strings_Join [ar_AgentName r @ '': '' @ et (the (ar_Error r)). r \<leftarrow> pr_responses s, ar_Error r \<noteq> None] ''; '')] None)
       else \<exists>out. par_finish et ff now (pr_responses s) = Ok (Some out) \<and>
          msg_content out = GStr (strings_Join
            [''['' @ ar_AgentName r @ '']: '' @ ContentString ff (the (ar_Message r)). r \<leftarrow> pr_responses s, ar_Message r \<noteq> None] [CHR 0x0A]) \<and>
          (distinct (map agent_Name agents) \<and> (\<forall>a \<in> set agents. CHR ''.'' \<notin> set (agent_Name a)) \<and>
           (\<forall>r \<in> set (pr_responses s). \<forall>msg md. ar_Message r = Some msg \<and> msg_metadata msg = Some md \<longrightarrow> go_map_ok md) \<longrightarrow>
            (\<forall>k v. meta_get out k = Some v \<longleftrightarrow>
              (\<exists>r \<in> set (pr_responses s). \<exists>msg md key. ar_Message r = Some msg \<and> msg_metadata msg = Some md \<and> (key, v) \<in> set md \<and>
                 k = ar_AgentName r @ ''.'' @ key)))))"
proof -
  have inv: "par_inv ctx m agents s" using parallel.reach_inv [OF run] .
  let ?rs = "pr_responses s"
  have errs: "error_texts et rs = [ar_AgentName r @ '': '' @ et (the (ar_Error r)). r \<leftarrow> rs, ar_Error r \<noteq> None]" for rs
    by (induction rs) (auto simp: error_texts_def split: option.split)
  have lines: "concat (map (\<lambda>r. case ar_Message r of None \<Rightarrow> [] | Some m \<Rightarrow> [''['' @ ar_AgentName r @ '']: '' @ ContentString ff m]) rs) =
      [''['' @ ar_AgentName r @ '']: '' @ ContentString ff (the (ar_Message r)). r \<leftarrow> rs, ar_Message r \<noteq> None]" for rs
    by (induction rs) (auto split: option.split)
  have names: "map ar_AgentName rs = map agent_Name as" if "list_all2 (par_answers ctx m) as rs" for as rs
    using that by (induction rule: list_all2_induct) (auto simp: par_answers_def)
  show ?thesis
  proof (intro conjI impI allI, goal_cases)
    case 1
    then show ?case using par_progress [OF inv live] by blast
  next
    case (2 t)
    then show ?case by (rule par_work_decreases)
  next
    case 3
    then show ?case using par_returned [OF inv] unfolding par_answers_def by blast
  next
    case 4
    obtain as where as: "mset as = mset agents" "list_all2 (par_answers ctx m) as (pr_responses s)"
      using par_returned [OF inv 4] by blast
    show ?case
  proof (cases "\<exists>r \<in> set ?rs. ar_Error r \<noteq> None")
    case True
    then have "error_texts et ?rs \<noteq> []" by (simp add: error_texts_Nil)
    with True show ?thesis by (simp add: par_finish_def errs)
  next
    case False
    then have fin: "par_finish et ff now ?rs = Ok (Some (combineResponses ff now ?rs))"
      using error_texts_Nil [of et ?rs] by (simp add: par_finish_def)
    have meta: "meta_get (combineResponses ff now ?rs) k = Some v \<longleftrightarrow> (\<exists>r \<in> set ?rs. \<exists>msg md key. ar_Message r = Some msg \<and>
        msg_metadata msg = Some md \<and> (key, v) \<in> set md \<and> k = ar_AgentName r @ ''.'' @ key)"
      if "distinct (map agent_Name agents)" "\<forall>a \<in> set agents. CHR ''.'' \<notin> set (agent_Name a)"
        "\<forall>r \<in> set ?rs. \<forall>msg md. ar_Message r = Some msg \<and> msg_metadata msg = Some md \<longrightarrow> go_map_ok md" for k v
    proof -
      have "distinct (map ar_AgentName ?rs)"
        unfolding names [OF as(2)] using that(1) as(1) by (metis mset_eq_imp_distinct_iff mset_map)
      moreover have "CHR ''.'' \<notin> set (ar_AgentName r)" if "r \<in> set ?rs" for r
      proof -
        have "ar_AgentName r \<in> agent_Name ` set as" using that names [OF as(2)] by (metis imageI list.set_map)
        then show ?thesis using \<open>\<forall>a \<in> set agents. CHR ''.'' \<notin> set (agent_Name a)\<close> mset_eq_setD [OF as(1)] by auto
      qed
      ultimately have "distinct (map fst (concat (map prefixed ?rs)))" using prefixed_distinct that(3) by blast
      from combine_metadata_get [OF this, of ff now k v] show ?thesis
        by (auto simp: prefixed_def split: option.splits) force+
    qed
    have content: "msg_content (combineResponses ff now ?rs) = GStr (strings_Join
        [''['' @ ar_AgentName r @ '']: '' @ ContentString ff (the (ar_Message r)). r \<leftarrow> ?rs, ar_Message r \<noteq> None] [CHR 0x0A])"
      by (simp add: combineResponses_def Let_def NewMessage_def lines)
    have "\<exists>out. par_finish et ff now ?rs = Ok (Some out) \<and> out = combineResponses ff now ?rs" using fin by simp
    then show ?thesis unfolding if_not_P [OF False] using content meta by blast
  qed
  qed
qed

text \<open>Both agents run to the end, the second one first.\<close>

theorem parallel_Process_sound_witness:
  "\<exists>s. reach (par_init [yes_agent ''a'', yes_agent ''b''] 0) (par_step Background None 2) s \<and> pr_returned s \<and>
     length (pr_responses s) = 2"
proof -
  let ?as = "[yes_agent ''a'', yes_agent ''b'']"
  let ?R = "reach (par_init ?as 0) (par_step Background None 2)"
  let ?r = "\<lambda>n. \<lparr>ar_AgentName = n, ar_Message = Some (NewMessage 0 ''agent'' n), ar_Error = None\<rparr>"
  let ?s = "\<lambda>w calling sending leaving wg ch closed rs ret. \<lparr>pr_world = w :: nat, pr_calling = calling, pr_sending = sending, pr_leaving = leaving,
    pr_wg = wg, pr_channel = ch, pr_closed = closed, pr_responses = rs, pr_returned = ret\<rparr>"
  have "?R (?s 0 ?as [] 0 2 [] False [] False)" by (rule reach_init) (simp add: par_init_def)
  from reach_step [OF this par_call [where xs = "[yes_agent ''a'']" and a = "yes_agent ''b''" and ys = "[]"]]
  have "?R (?s 1 [yes_agent ''a''] [?r ''b''] 0 2 [] False [] False)" by (simp add: yes_agent_def par_result_def)
  from reach_step [OF this par_send [where xs = "[]" and ys = "[]"]]
  have "?R (?s 1 [yes_agent ''a''] [] 1 2 [?r ''b''] False [] False)" by simp
  from reach_step [OF this par_call [where xs = "[]" and a = "yes_agent ''a''" and ys = "[]"]]
  have "?R (?s 2 [] [?r ''a''] 1 2 [?r ''b''] False [] False)" by (simp add: yes_agent_def par_result_def numeral_2_eq_2)
  from reach_step [OF this par_send [where xs = "[]" and ys = "[]"]]
  have "?R (?s 2 [] [] 2 2 [?r ''b'', ?r ''a''] False [] False)" by (simp add: numeral_2_eq_2)
  from reach_step [OF this par_leave [where k = 1]] have "?R (?s 2 [] [] 1 1 [?r ''b'', ?r ''a''] False [] False)" by simp
  from reach_step [OF this par_leave [where k = 0]] have "?R (?s 2 [] [] 0 0 [?r ''b'', ?r ''a''] False [] False)" by simp
  from reach_step [OF this par_close] have "?R (?s 2 [] [] 0 0 [?r ''b'', ?r ''a''] True [] False)" by simp
  from reach_step [OF this par_receive] have "?R (?s 2 [] [] 0 0 [?r ''a''] True [?r ''b''] False)" by simp
  from reach_step [OF this par_receive] have "?R (?s 2 [] [] 0 0 [] True [?r ''b'', ?r ''a''] False)" by simp
  from reach_step [OF this par_return] have run: "?R (?s 2 [] [] 0 0 [] True [?r ''b'', ?r ''a''] True)" by simp
  have live: "\<not> is_Panic (fst (agent_Process a Background None w))" if "a \<in> set ?as" for a w
    using that by (auto simp: yes_agent_def)
  have two: "length ?as = 2" by simp
  note t = parallel_Process_sound [where agents = ?as and m = None and ctx = Background, unfolded two, OF run live]
  have ret: "pr_returned (?s 2 [] [] 0 0 [] True [?r ''b'', ?r ''a''] True)" by simp
  obtain as where "mset as = mset ?as" "length as = length (pr_responses (?s 2 [] [] 0 0 [] True [?r ''b'', ?r ''a''] True))"
    using conjunct1 [OF mp [OF conjunct2 [OF conjunct2 [OF t]] ret]] list_all2_lengthD by blast
  then have "length (pr_responses (?s 2 [] [] 0 0 [] True [?r ''b'', ?r ''a''] True)) = 2" using mset_eq_length two by metis
  then show ?thesis using run ret by blast
qed

end
