(* ===== verification/Load_Balancer.thy ===== *)
theory Load_Balancer
  imports Message
begin

text \<open>
  The load balancer (\<open>infrastructure/load_balancer.go\<close>): backends, the four selection
  strategies, the health checks and the request loop with failover.

  A backend is named by its index.  The request loop may not end, so \<open>lb_loop\<close> takes fuel
  (one unit per iteration) and returns \<open>None\<close> when it runs out: it is proved to return under
  round robin when every backend is healthy, and never to return in two reachable situations.
  Requests are modelled one at a time; the random choice of the strategy \<open>Random\<close> is a
  function of the world.
\<close>

section \<open>Data\<close>

datatype LoadBalancingStrategy = RoundRobin | LeastConnections | WeightedRoundRobin | Random

record 'w AgentBackend =
  be_Agent :: "'w agent"
  be_Weight :: int
  be_Healthy :: bool
  be_ActiveConnections :: int
  be_TotalRequests :: int
  be_TotalFailures :: int
  be_LastHealthCheck :: "time option"
  be_consecutiveFailures :: int

record LoadBalancerConfig =
  lc_Strategy :: LoadBalancingStrategy
  lc_HealthCheckInterval :: duration
  lc_HealthCheckTimeout :: duration
  lc_FailureThreshold :: int
  lc_SuccessThreshold :: int
  lc_EnableFailover :: bool

definition DefaultLoadBalancerConfig :: LoadBalancerConfig where
  "DefaultLoadBalancerConfig =
     \<lparr>lc_Strategy = RoundRobin, lc_HealthCheckInterval = 30 * second, lc_HealthCheckTimeout = 5 * second,
      lc_FailureThreshold = 3, lc_SuccessThreshold = 2, lc_EnableFailover = True\<rparr>"

record LoadBalancerMetrics =
  lm_TotalRequests :: int
  lm_SuccessfulRequests :: int
  lm_FailedRequests :: int
  lm_FailoverAttempts :: int
  lm_BackendHealthChanges :: "(string \<times> int) list"

record 'w LoadBalancer =
  lb_backends :: "'w AgentBackend list"
  lb_config :: LoadBalancerConfig
  lb_metrics :: LoadBalancerMetrics
  lb_currentIndex :: nat

definition new_backend :: "'w agent \<times> int \<Rightarrow> 'w AgentBackend" where
  "new_backend = (\<lambda>(a, weight).
     \<lparr>be_Agent = a, be_Weight = weight, be_Healthy = True, be_ActiveConnections = 0, be_TotalRequests = 0,
      be_TotalFailures = 0, be_LastHealthCheck = None, be_consecutiveFailures = 0\<rparr>)"

definition NewLoadBalancer ::
    "'w agent list \<Rightarrow> LoadBalancerConfig \<Rightarrow> int list option \<Rightarrow> 'w LoadBalancer outcome" where
  "NewLoadBalancer agents config weights =
     (if agents = [] then Err (Errorf ''at least one agent required'' [] None)
      else
        let weights = (case weights of None \<Rightarrow> replicate (length agents) 1 | Some ws \<Rightarrow> ws) in
        if length weights \<noteq> length agents then
          Err (Errorf ''weights length (%d) must match agents length (%d)''
            [GInt (int (length weights)), GInt (int (length agents))] None)
        else Ok \<lparr>lb_backends = map new_backend (zip agents weights), lb_config = config,
               lb_metrics = \<lparr>lm_TotalRequests = 0, lm_SuccessfulRequests = 0, lm_FailedRequests = 0,
                 lm_FailoverAttempts = 0, lm_BackendHealthChanges = []\<rparr>, lb_currentIndex = 0\<rparr>)"

definition lb_Name :: "'w LoadBalancer \<Rightarrow> string" where
  "lb_Name lb = ''LoadBalancer('' @ show_int (int (length (lb_backends lb))) @ '' backends)''"

definition lb_Capabilities :: "'w LoadBalancer \<Rightarrow> string list" where
  "lb_Capabilities lb = remdups (concat (map (agent_Capabilities \<circ> be_Agent) (lb_backends lb)))"

definition backend_name :: "'w LoadBalancer \<Rightarrow> nat \<Rightarrow> string" where
  "backend_name lb i = agent_Name (be_Agent (lb_backends lb ! i))"

section \<open>Health checks\<close>

definition trackHealthChange :: "string \<Rightarrow> string \<Rightarrow> LoadBalancerMetrics \<Rightarrow> LoadBalancerMetrics" where
  "trackHealthChange agentName changeType m =
     m\<lparr>lm_BackendHealthChanges := go_incr (agentName @ '':'' @ changeType) (lm_BackendHealthChanges m)\<rparr>"

definition health_check_message :: message where
  "health_check_message =
     \<lparr>msg_role = ''system'', msg_content = GStr ''health_check'', msg_metadata = None, msg_timestamp = 0\<rparr>"

text \<open>What one check does to a backend, given whether the agent answered: the backend and the change.\<close>

definition checked :: "LoadBalancerConfig \<Rightarrow> time \<Rightarrow> bool \<Rightarrow> 'w AgentBackend \<Rightarrow> 'w AgentBackend \<times> string option" where
  "checked cfg now ok b =
     (let b = b\<lparr>be_LastHealthCheck := Some now\<rparr> in
      if ok then
        let b = b\<lparr>be_consecutiveFailures := 0\<rparr> in
        if \<not> be_Healthy b \<and> be_consecutiveFailures b = 0 then (b\<lparr>be_Healthy := True\<rparr>, Some ''recovered'')
        else (b, None)
      else
        let b = b\<lparr>be_consecutiveFailures := be_consecutiveFailures b + 1,
                  be_TotalFailures := be_TotalFailures b + 1\<rparr> in
        if be_Healthy b \<and> be_consecutiveFailures b \<ge> lc_FailureThreshold cfg
        then (b\<lparr>be_Healthy := False\<rparr>, Some ''unhealthy'') else (b, None))"

fun check_backends ::
    "'w clock \<Rightarrow> LoadBalancerConfig \<Rightarrow> go_ctx \<Rightarrow> 'w AgentBackend list \<Rightarrow> LoadBalancerMetrics \<Rightarrow> 'w
      \<Rightarrow> string option \<times> 'w AgentBackend list \<times> LoadBalancerMetrics \<times> 'w" where
  "check_backends clk cfg ctx [] m w = (None, [], m, w)"
| "check_backends clk cfg ctx (b # bs) m w =
     (let (t, w) = clk w;
          (r, w) = agent_Process (be_Agent b) (WithTimeout t (lc_HealthCheckTimeout cfg) ctx)
                     (Some health_check_message) w
      in case r of
           Panic p \<Rightarrow> (Some p, b # bs, m, w)
         | _ \<Rightarrow>
             let (now, w) = clk w;
                 (b', change) = checked cfg now (is_Ok r) b;
                 m = (case change of None \<Rightarrow> m | Some c \<Rightarrow> trackHealthChange (agent_Name (be_Agent b)) c m);
                 (p, bs', m, w) = check_backends clk cfg ctx bs m w
             in (p, b' # bs', m, w))"

text \<open>One tick of \<open>healthCheckLoop\<close>; the first component is a panic of a checked agent.\<close>

definition performHealthChecks ::
    "'w clock \<Rightarrow> go_ctx \<Rightarrow> 'w LoadBalancer \<Rightarrow> 'w \<Rightarrow> string option \<times> 'w LoadBalancer \<times> 'w" where
  "performHealthChecks clk ctx lb w =
     (let (p, bs, m, w) = check_backends clk (lb_config lb) ctx (lb_backends lb) (lb_metrics lb) w
      in (p, lb\<lparr>lb_backends := bs, lb_metrics := m\<rparr>, w))"

section \<open>Selection\<close>

definition healthyBackends :: "'w LoadBalancer \<Rightarrow> nat list" where
  "healthyBackends lb = filter (\<lambda>i. be_Healthy (lb_backends lb ! i)) [0 ..< length (lb_backends lb)]"

fun rr_loop :: "'w AgentBackend list \<Rightarrow> nat \<Rightarrow> nat \<Rightarrow> nat option \<times> nat" where
  "rr_loop bs 0 c = (None, c)"
| "rr_loop bs (Suc k) c =
     (let c = (c + 1) mod length bs in
      if be_Healthy (bs ! c) then (Some c, c) else rr_loop bs k c)"

definition selectRoundRobin :: "nat list \<Rightarrow> 'w LoadBalancer \<Rightarrow> nat \<times> 'w LoadBalancer" where
  "selectRoundRobin backends lb =
     (case rr_loop (lb_backends lb) (length (lb_backends lb)) (lb_currentIndex lb) of
        (Some i, c) \<Rightarrow> (i, lb\<lparr>lb_currentIndex := c\<rparr>)
      | (None, c) \<Rightarrow> (hd backends, lb\<lparr>lb_currentIndex := c\<rparr>))"

definition selectLeastConnections :: "nat list \<Rightarrow> 'w LoadBalancer \<Rightarrow> nat" where
  "selectLeastConnections backends lb =
     (let conns = (\<lambda>i. be_ActiveConnections (lb_backends lb ! i)) in
      snd (fold (\<lambda>i (minConnections, selected).
             if conns i < minConnections then (conns i, i) else (minConnections, selected))
           (tl backends) (conns (hd backends), hd backends)))"

definition weighted_list :: "nat list \<Rightarrow> 'w LoadBalancer \<Rightarrow> nat list" where
  "weighted_list backends lb = concat (map (\<lambda>i. replicate (nat (be_Weight (lb_backends lb ! i))) i) backends)"

definition selectWeightedRoundRobin :: "nat list \<Rightarrow> 'w LoadBalancer \<Rightarrow> nat \<times> 'w LoadBalancer" where
  "selectWeightedRoundRobin backends lb =
     (let weighted = weighted_list backends lb in
      if weighted = [] then (hd backends, lb)
      else
        let c = (lb_currentIndex lb + 1) mod length weighted
        in (weighted ! c, lb\<lparr>lb_currentIndex := c\<rparr>))"

text \<open>\<open>rand.Intn\<close> reads the state of the generator.\<close>

type_synonym 'w rand = "nat \<Rightarrow> 'w \<Rightarrow> nat \<times> 'w"

definition selectBackend :: "'w rand \<Rightarrow> 'w LoadBalancer \<Rightarrow> 'w \<Rightarrow> nat option \<times> 'w LoadBalancer \<times> 'w" where
  "selectBackend rand_Intn lb w =
     (let hs = healthyBackends lb in
      if hs = [] then (None, lb, w)
      else (case lc_Strategy (lb_config lb) of
              RoundRobin \<Rightarrow> let (i, lb) = selectRoundRobin hs lb in (Some i, lb, w)
            | LeastConnections \<Rightarrow> (Some (selectLeastConnections hs lb), lb, w)
            | WeightedRoundRobin \<Rightarrow> let (i, lb) = selectWeightedRoundRobin hs lb in (Some i, lb, w)
            | Random \<Rightarrow> let (k, w) = rand_Intn (length hs) w in (Some (hs ! k), lb, w)))"

section \<open>Requests\<close>

definition lb_backend_upd :: "nat \<Rightarrow> ('w AgentBackend \<Rightarrow> 'w AgentBackend) \<Rightarrow> 'w LoadBalancer \<Rightarrow> 'w LoadBalancer" where
  "lb_backend_upd i f lb = lb\<lparr>lb_backends := (lb_backends lb)[i := f (lb_backends lb ! i)]\<rparr>"

definition lb_metrics_upd :: "(LoadBalancerMetrics \<Rightarrow> LoadBalancerMetrics) \<Rightarrow> 'w LoadBalancer \<Rightarrow> 'w LoadBalancer" where
  "lb_metrics_upd f lb = lb\<lparr>lb_metrics := f (lb_metrics lb)\<rparr>"

definition lb_track :: "nat \<Rightarrow> 'w LoadBalancer \<Rightarrow> 'w LoadBalancer" where
  "lb_track i = lb_backend_upd i (\<lambda>b. b\<lparr>be_ActiveConnections := be_ActiveConnections b + 1,
     be_TotalRequests := be_TotalRequests b + 1\<rparr>)"

definition lb_release :: "nat \<Rightarrow> 'w LoadBalancer \<Rightarrow> 'w LoadBalancer" where
  "lb_release i = lb_backend_upd i (\<lambda>b. b\<lparr>be_ActiveConnections := be_ActiveConnections b - 1\<rparr>)"

definition lb_success :: "'w LoadBalancer \<Rightarrow> 'w LoadBalancer" where
  "lb_success = lb_metrics_upd (\<lambda>m. m\<lparr>lm_SuccessfulRequests := lm_SuccessfulRequests m + 1\<rparr>)"

definition lb_failure :: "nat \<Rightarrow> 'w LoadBalancer \<Rightarrow> 'w LoadBalancer" where
  "lb_failure i lb =
     (let lb = lb_backend_upd i (\<lambda>b. b\<lparr>be_TotalFailures := be_TotalFailures b + 1\<rparr>) lb;
          lb = lb_metrics_upd (\<lambda>m. m\<lparr>lm_FailedRequests := lm_FailedRequests m + 1\<rparr>) lb
      in if be_TotalFailures (lb_backends lb ! i) \<ge> lc_FailureThreshold (lb_config lb)
         then lb_metrics_upd (trackHealthChange (backend_name lb i) ''unhealthy'')
                (lb_backend_upd i (\<lambda>b. b\<lparr>be_Healthy := False\<rparr>) lb)
         else lb)"

fun lb_loop ::
    "'w rand \<Rightarrow> nat \<Rightarrow> go_ctx \<Rightarrow> message option \<Rightarrow> string list \<Rightarrow> 'w LoadBalancer \<Rightarrow> 'w
      \<Rightarrow> (reply \<times> 'w LoadBalancer \<times> 'w) option" where
  "lb_loop rand_Intn 0 ctx message attempted lb w = None"
| "lb_loop rand_Intn (Suc fuel) ctx message attempted lb w =
     (case selectBackend rand_Intn lb w of
        (None, lb, w) \<Rightarrow> Some (Err (Errorf ''all backends unhealthy'' [] None), lb, w)
      | (Some i, lb, w) \<Rightarrow>
          if backend_name lb i \<in> set attempted then
            if \<not> lc_EnableFailover (lb_config lb) \<or> length attempted \<ge> length (lb_backends lb)
            then Some (Err (Errorf ''all backends attempted'' [] None), lb, w)
            else lb_loop rand_Intn fuel ctx message attempted lb w
          else
            let attempted = backend_name lb i # attempted;
                lb = lb_track i lb;
                (response, w) = agent_Process (be_Agent (lb_backends lb ! i)) ctx message w
            in (case response of
                  Panic p \<Rightarrow> Some (Panic p, lb, w)
                | Ok r \<Rightarrow> Some (Ok r, lb_success (lb_release i lb), w)
                | Err e \<Rightarrow>
                    let lb = lb_failure i (lb_release i lb) in
                    if lc_EnableFailover (lb_config lb) \<and> length attempted < length (lb_backends lb) then
                      lb_loop rand_Intn fuel ctx message attempted
                        (lb_metrics_upd (\<lambda>m. m\<lparr>lm_FailoverAttempts := lm_FailoverAttempts m + 1\<rparr>) lb) w
                    else Some (Err (Errorf ''backend %s failed: %w'' [GStr (backend_name lb i)] (Some e)), lb, w)))"

definition lb_Process ::
    "'w rand \<Rightarrow> nat \<Rightarrow> go_ctx \<Rightarrow> message option \<Rightarrow> 'w LoadBalancer \<Rightarrow> 'w \<Rightarrow> (reply \<times> 'w LoadBalancer \<times> 'w) option" where
  "lb_Process rand_Intn fuel ctx message lb w =
     lb_loop rand_Intn fuel ctx message []
       (lb_metrics_upd (\<lambda>m. m\<lparr>lm_TotalRequests := lm_TotalRequests m + 1\<rparr>) lb) w"

section \<open>Selection is correct\<close>

lemma set_healthyBackends [simp]:
  "i \<in> set (healthyBackends lb) \<longleftrightarrow> i < length (lb_backends lb) \<and> be_Healthy (lb_backends lb ! i)"
  by (auto simp: healthyBackends_def)

lemma rr_loop_Some:
  "rr_loop bs k c = (Some i, c') \<Longrightarrow>
     c' = i \<and> (\<exists>d. 1 \<le> d \<and> d \<le> k \<and> i = (c + d) mod length bs \<and> be_Healthy (bs ! i) \<and>
       (\<forall>e. 1 \<le> e \<and> e < d \<longrightarrow> \<not> be_Healthy (bs ! ((c + e) mod length bs))))"
proof (induction bs k c rule: rr_loop.induct)
  case (2 bs k c)
  let ?c = "(c + 1) mod length bs"
  show ?case
  proof (cases "be_Healthy (bs ! ?c)")
    case True
    with 2(2) show ?thesis by (auto simp: Let_def intro!: exI [of _ 1])
  next
    case False
    with 2 obtain d where d: "c' = i" "1 \<le> d" "d \<le> k" "i = (?c + d) mod length bs" "be_Healthy (bs ! i)"
      "\<forall>e. 1 \<le> e \<and> e < d \<longrightarrow> \<not> be_Healthy (bs ! ((?c + e) mod length bs))" by (auto simp: Let_def)
    have "\<not> be_Healthy (bs ! ((c + e) mod length bs))" if "1 \<le> e" "e < Suc d" for e
    proof (cases "e = 1")
      case False
      with that obtain f where f: "e = Suc f" "1 \<le> f" "f < d" by (cases e) auto
      with d(6) have "\<not> be_Healthy (bs ! ((?c + f) mod length bs))" by blast
      with f(1) show ?thesis by (simp add: mod_add_left_eq)
    qed (use \<open>\<not> be_Healthy (bs ! ?c)\<close> in simp)
    moreover have "i = (c + Suc d) mod length bs" using d(4) by (simp add: mod_add_left_eq)
    ultimately show ?thesis using d by (intro conjI exI [of _ "Suc d"]) auto
  qed
qed simp

lemma rr_loop_None:
  "rr_loop bs k c = (None, c') \<Longrightarrow> 1 \<le> d \<Longrightarrow> d \<le> k \<Longrightarrow> \<not> be_Healthy (bs ! ((c + d) mod length bs))"
proof (induction bs k c arbitrary: d rule: rr_loop.induct)
  case (2 bs k c)
  let ?c = "(c + 1) mod length bs"
  from 2(2) have nh: "\<not> be_Healthy (bs ! ?c)" by (auto simp: Let_def split: if_splits)
  show ?case
  proof (cases "d = 1")
    case False
    with 2(3,4) obtain f where f: "d = Suc f" "1 \<le> f" "f \<le> k" by (cases d) auto
    with 2(2) nh 2(1) [of ?c f] have "\<not> be_Healthy (bs ! ((?c + f) mod length bs))" by (simp add: Let_def)
    with f(1) show ?thesis by (simp add: mod_add_left_eq)
  qed (use nh in simp)
qed simp

text \<open>Every index is reached from the current one within one round.\<close>

lemma round_reaches:
  assumes "i < n"
  obtains d where "1 \<le> d" and "d \<le> n" and "(c + d) mod n = (i :: nat)"
proof
  let ?d = "(if c mod n < i then i - c mod n else n + i - c mod n)"
  have lt: "c mod n < n" using assms by simp
  show "1 \<le> ?d" "?d \<le> n" using assms lt by (auto simp del: mod_less_divisor)
  have "c mod n + ?d = (if c mod n < i then i else n + i)" using lt by (auto simp del: mod_less_divisor)
  then have "(c mod n + ?d) mod n = i" using assms by simp
  then show "(c + ?d) mod n = i" by (metis mod_add_left_eq)
qed

lemma selectRoundRobin_sound:
  assumes "healthyBackends lb \<noteq> []" and "selectRoundRobin (healthyBackends lb) lb = (i, lb')"
  shows "lb' = lb\<lparr>lb_currentIndex := i\<rparr>"
    and "\<exists>d. 1 \<le> d \<and> d \<le> length (lb_backends lb) \<and> i = (lb_currentIndex lb + d) mod length (lb_backends lb) \<and>
      be_Healthy (lb_backends lb ! i) \<and>
      (\<forall>e. 1 \<le> e \<and> e < d \<longrightarrow> \<not> be_Healthy (lb_backends lb ! ((lb_currentIndex lb + e) mod length (lb_backends lb))))"
proof -
  obtain q c where q: "rr_loop (lb_backends lb) (length (lb_backends lb)) (lb_currentIndex lb) = (q, c)"
    by (cases "rr_loop (lb_backends lb) (length (lb_backends lb)) (lb_currentIndex lb)")
  obtain j where "j < length (lb_backends lb)" "be_Healthy (lb_backends lb ! j)"
    using assms(1) set_healthyBackends by (metis list.set_intros(1) neq_Nil_conv)
  then have "q \<noteq> None"
    using rr_loop_None [of "lb_backends lb" _ "lb_currentIndex lb" c] q round_reaches by metis
  then obtain k where k: "q = Some k" by blast
  note r = rr_loop_Some [OF q [unfolded k]]
  have "k = i" "lb' = lb\<lparr>lb_currentIndex := c\<rparr>" using assms(2) q k by (simp_all add: selectRoundRobin_def)
  with r show "lb' = lb\<lparr>lb_currentIndex := i\<rparr>"
    and "\<exists>d. 1 \<le> d \<and> d \<le> length (lb_backends lb) \<and> i = (lb_currentIndex lb + d) mod length (lb_backends lb) \<and>
      be_Healthy (lb_backends lb ! i) \<and>
      (\<forall>e. 1 \<le> e \<and> e < d \<longrightarrow> \<not> be_Healthy (lb_backends lb ! ((lb_currentIndex lb + e) mod length (lb_backends lb))))"
    by blast+
qed

lemma least_fold:
  fixes conns :: "nat \<Rightarrow> int"
  assumes "fold (\<lambda>i (mc, sel). if conns i < mc then (conns i, i) else (mc, sel)) xs (conns x, x) = (mc, sel)"
  shows "mc = conns sel \<and> sel \<in> insert x (set xs) \<and> (\<forall>i \<in> insert x (set xs). conns sel \<le> conns i)"
  using assms
proof (induction xs arbitrary: x)
  case (Cons y xs)
  show ?case
  proof (cases "conns y < conns x")
    case True
    with Cons.prems Cons.IH [of y] show ?thesis by fastforce
  next
    case False
    with Cons.prems Cons.IH [of x] show ?thesis by fastforce
  qed
qed simp

lemma selectLeastConnections_sound:
  assumes "hs \<noteq> []"
  shows "selectLeastConnections hs lb \<in> set hs \<and>
    (\<forall>i \<in> set hs. be_ActiveConnections (lb_backends lb ! selectLeastConnections hs lb)
       \<le> be_ActiveConnections (lb_backends lb ! i))"
proof -
  let ?f = "fold (\<lambda>i (mc, sel). if be_ActiveConnections (lb_backends lb ! i) < mc
      then (be_ActiveConnections (lb_backends lb ! i), i) else (mc, sel)) (tl hs)
    (be_ActiveConnections (lb_backends lb ! hd hs), hd hs)"
  obtain mc sel where f: "?f = (mc, sel)" by (cases ?f)
  from least_fold [of "\<lambda>i. be_ActiveConnections (lb_backends lb ! i)", OF f]
  show ?thesis using f assms by (cases hs) (simp_all add: selectLeastConnections_def Let_def)
qed

lemma selectLeastConnections_cong:
  assumes "hs \<noteq> []"
    and "\<And>j. j \<in> set hs \<Longrightarrow>
      be_ActiveConnections (lb_backends x ! j) = be_ActiveConnections (lb_backends lb ! j)"
  shows "selectLeastConnections hs x = selectLeastConnections hs lb"
proof -
  have "fold (\<lambda>i (mc, s). if be_ActiveConnections (lb_backends x ! i) < mc
        then (be_ActiveConnections (lb_backends x ! i), i) else (mc, s)) (tl hs) z =
      fold (\<lambda>i (mc, s). if be_ActiveConnections (lb_backends lb ! i) < mc
        then (be_ActiveConnections (lb_backends lb ! i), i) else (mc, s)) (tl hs) z" for z
  proof (intro fold_cong refl)
    fix j assume "j \<in> set (tl hs)"
    then have "j \<in> set hs" using assms(1) by (rule list.set_sel(2) [rotated])
    then show "(\<lambda>(mc, s). if be_ActiveConnections (lb_backends x ! j) < mc
          then (be_ActiveConnections (lb_backends x ! j), j) else (mc, s)) =
        (\<lambda>(mc, s). if be_ActiveConnections (lb_backends lb ! j) < mc
          then (be_ActiveConnections (lb_backends lb ! j), j) else (mc, s))" by (simp only: assms(2))
  qed
  then show ?thesis
    using assms(2) [OF hd_in_set [OF assms(1)]] by (simp add: selectLeastConnections_def Let_def)
qed

lemma weighted_list_sub: "set (weighted_list hs lb) \<subseteq> set hs"
  by (auto simp: weighted_list_def)

text \<open>What a selection promises: a healthy backend, and only the rotation moves.\<close>

lemma selectBackend_sound:
  assumes "selectBackend rnd lb w = (Some i, lb', w')" and "\<And>n w. 0 < n \<Longrightarrow> fst (rnd n w) < n"
  shows "i \<in> set (healthyBackends lb) \<and> (\<exists>c. lb' = lb\<lparr>lb_currentIndex := c\<rparr>)"
proof -
  let ?hs = "healthyBackends lb"
  have ne: "?hs \<noteq> []" using assms(1) by (auto simp: selectBackend_def)
  show ?thesis
  proof (cases "lc_Strategy (lb_config lb)")
    case RoundRobin
    with assms(1) ne have "selectRoundRobin ?hs lb = (i, lb')"
      by (auto simp: selectBackend_def Let_def split: prod.splits)
    note s = selectRoundRobin_sound [OF ne this]
    from s(2) ne show ?thesis using s(1) by (auto intro!: mod_less_divisor simp: healthyBackends_def)
  next
    case LeastConnections
    with assms(1) ne selectLeastConnections_sound [OF ne, of lb] show ?thesis
      by (auto simp: selectBackend_def Let_def intro: exI [of _ "lb_currentIndex lb"])
  next
    case WeightedRoundRobin
    have "weighted_list ?hs lb ! k \<in> set ?hs" if "weighted_list ?hs lb \<noteq> []" "k = m mod length (weighted_list ?hs lb)" for k m
    proof -
      have "k < length (weighted_list ?hs lb)" using that by simp
      then show ?thesis using weighted_list_sub [of ?hs lb] nth_mem by blast
    qed
    with WeightedRoundRobin assms(1) ne show ?thesis
      by (auto simp: selectBackend_def selectWeightedRoundRobin_def Let_def simp del: set_healthyBackends
          intro: exI [of _ "lb_currentIndex lb"] split: if_splits)
  next
    case Random
    with assms ne show ?thesis
      by (auto simp: selectBackend_def Let_def simp del: set_healthyBackends
          intro!: nth_mem exI [of _ "lb_currentIndex lb"] split: prod.splits)
        (metis fst_conv length_greater_0_conv)
  qed
qed

section \<open>Requests\<close>

lemma lb_upd_sel [simp]:
  "lb_config (lb_backend_upd i f lb) = lb_config lb" "lb_config (lb_metrics_upd g lb) = lb_config lb"
  "lb_backends (lb_metrics_upd g lb) = lb_backends lb"
  "length (lb_backends (lb_backend_upd i f lb)) = length (lb_backends lb)"
  "lb_currentIndex (lb_backend_upd i f lb) = lb_currentIndex lb"
  "lb_currentIndex (lb_metrics_upd g lb) = lb_currentIndex lb"
  by (simp_all add: lb_backend_upd_def lb_metrics_upd_def)

lemma lb_backend_upd_nth:
  "j < length (lb_backends lb) \<Longrightarrow>
    lb_backends (lb_backend_upd i f lb) ! j = (if i = j then f (lb_backends lb ! j) else lb_backends lb ! j)"
  by (auto simp: lb_backend_upd_def)

lemmas lb_op_defs = lb_track_def lb_release_def lb_success_def lb_failure_def

lemma lb_op_sel [simp]:
  "lb_config (lb_track i lb) = lb_config lb" "lb_config (lb_release i lb) = lb_config lb"
  "lb_config (lb_failure i lb) = lb_config lb" "lb_config (lb_success lb) = lb_config lb"
  "length (lb_backends (lb_track i lb)) = length (lb_backends lb)"
  "length (lb_backends (lb_release i lb)) = length (lb_backends lb)"
  "length (lb_backends (lb_failure i lb)) = length (lb_backends lb)"
  "lb_backends (lb_success lb) = lb_backends lb"
  "lb_currentIndex (lb_track i lb) = lb_currentIndex lb" "lb_currentIndex (lb_release i lb) = lb_currentIndex lb"
  "lb_currentIndex (lb_failure i lb) = lb_currentIndex lb"
  by (simp_all add: lb_op_defs Let_def)

text \<open>The effect on a backend of a call that failed: everything but the called backend stays.\<close>

lemma lb_attempt_nth:
  assumes "i < length (lb_backends lb)" "j < length (lb_backends lb)"
  shows "lb_backends (lb_release i (lb_track i lb)) ! j =
      (if i = j then (lb_backends lb ! j)\<lparr>be_TotalRequests := be_TotalRequests (lb_backends lb ! j) + 1\<rparr>
       else lb_backends lb ! j)"
    and "i \<noteq> j \<Longrightarrow> lb_backends (lb_failure i lb) ! j = lb_backends lb ! j"
    and "be_Agent (lb_backends (lb_failure i lb) ! j) = be_Agent (lb_backends lb ! j)"
    and "be_ActiveConnections (lb_backends (lb_failure i lb) ! j) = be_ActiveConnections (lb_backends lb ! j)"
    and "be_TotalRequests (lb_backends (lb_failure i lb) ! j) = be_TotalRequests (lb_backends lb ! j)"
    and "be_Agent (lb_backends (lb_track i lb) ! j) = be_Agent (lb_backends lb ! j)"
  using assms by (auto simp: lb_op_defs lb_backend_upd_nth Let_def)

text \<open>The names of the backends; they are the keys of \<open>attempted\<close>.\<close>

definition lb_names :: "'w LoadBalancer \<Rightarrow> string list" where
  "lb_names lb = map (agent_Name \<circ> be_Agent) (lb_backends lb)"

lemma lb_names_nth: "i < length (lb_backends lb) \<Longrightarrow> lb_names lb ! i = backend_name lb i"
  by (simp add: lb_names_def backend_name_def)

lemma lb_names_attempt [simp]:
  assumes "i < length (lb_backends lb)"
  shows "lb_names (lb_failure i (lb_release i (lb_track i lb))) = lb_names lb"
  using assms by (intro nth_equalityI) (simp_all add: lb_names_def lb_attempt_nth)

text \<open>
  The distance, in rotation steps, to the next backend that was not attempted.
\<close>

definition unattempted :: "string list \<Rightarrow> 'w LoadBalancer \<Rightarrow> nat \<Rightarrow> bool" where
  "unattempted att lb i \<longleftrightarrow> i < length (lb_backends lb) \<and> backend_name lb i \<notin> set att"

definition next_new :: "string list \<Rightarrow> 'w LoadBalancer \<Rightarrow> nat" where
  "next_new att lb = (LEAST d. 1 \<le> d \<and> unattempted att lb ((lb_currentIndex lb + d) mod length (lb_backends lb)))"

lemma next_new:
  assumes "unattempted att lb i"
  shows "1 \<le> next_new att lb" and "next_new att lb \<le> length (lb_backends lb)"
    and "unattempted att lb ((lb_currentIndex lb + next_new att lb) mod length (lb_backends lb))"
    and "1 \<le> d \<Longrightarrow> unattempted att lb ((lb_currentIndex lb + d) mod length (lb_backends lb)) \<Longrightarrow> next_new att lb \<le> d"
proof -
  let ?P = "\<lambda>d. 1 \<le> d \<and> unattempted att lb ((lb_currentIndex lb + d) mod length (lb_backends lb))"
  obtain d0 where d0: "?P d0" "d0 \<le> length (lb_backends lb)"
    using assms round_reaches [of i "length (lb_backends lb)" "lb_currentIndex lb"]
    by (auto simp: unattempted_def)
  have "?P (next_new att lb)" unfolding next_new_def by (rule LeastI [of ?P, OF d0(1)])
  then show "1 \<le> next_new att lb"
    and "unattempted att lb ((lb_currentIndex lb + next_new att lb) mod length (lb_backends lb))" by blast+
  have "next_new att lb \<le> d0" unfolding next_new_def by (rule Least_le [of ?P, OF d0(1)])
  with d0(2) show "next_new att lb \<le> length (lb_backends lb)" by (rule order_trans [rotated])
  show "1 \<le> d \<Longrightarrow> unattempted att lb ((lb_currentIndex lb + d) mod length (lb_backends lb)) \<Longrightarrow> next_new att lb \<le> d"
    unfolding next_new_def by (rule Least_le [of ?P]) simp
qed

lemma next_new_rotate:
  assumes "unattempted att lb i" and "1 \<le> d" and "d < next_new att lb"
  shows "next_new att (lb\<lparr>lb_currentIndex := (lb_currentIndex lb + d) mod length (lb_backends lb)\<rparr>) + d \<le> next_new att lb"
proof -
  let ?n = "length (lb_backends lb)" and ?lb = "lb\<lparr>lb_currentIndex := (lb_currentIndex lb + d) mod length (lb_backends lb)\<rparr>"
  have un: "unattempted att ?lb j \<longleftrightarrow> unattempted att lb j" for j
    by (simp add: unattempted_def backend_name_def)
  have eq: "(lb_currentIndex ?lb + (next_new att lb - d)) mod ?n = (lb_currentIndex lb + next_new att lb) mod ?n"
  proof -
    obtain k where "next_new att lb = d + k" using assms(3) by (metis less_imp_add_positive)
    then show ?thesis by (simp add: mod_add_left_eq add.assoc)
  qed
  have "unattempted att ?lb ((lb_currentIndex ?lb + (next_new att lb - d)) mod length (lb_backends ?lb))"
    unfolding un using next_new(3) [OF assms(1)] eq by simp
  with next_new(4) [of att ?lb i "next_new att lb - d"] assms un
  have "next_new att ?lb \<le> next_new att lb - d" by simp
  then show ?thesis using assms(3) by simp
qed

text \<open>The states of the loop from which round robin ends.\<close>

definition rr_live :: "string list \<Rightarrow> 'w LoadBalancer \<Rightarrow> bool" where
  "rr_live att lb \<longleftrightarrow>
     lc_Strategy (lb_config lb) = RoundRobin \<and> distinct (lb_names lb) \<and> distinct att \<and>
     set att \<subseteq> set (lb_names lb) \<and> (\<forall>i. unattempted att lb i \<longrightarrow> be_Healthy (lb_backends lb ! i))"

lemma rr_live_unattempted:
  assumes "rr_live att lb" and "length att < length (lb_backends lb)"
  shows "\<exists>i. unattempted att lb i"
proof -
  have "card (set att) < card (set (lb_names lb))"
    using assms by (simp add: rr_live_def distinct_card) (simp add: lb_names_def)
  then have "\<not> set (lb_names lb) \<subseteq> set att" by (metis List.finite_set card_mono not_le)
  then show ?thesis
    by (auto simp: unattempted_def lb_names_def backend_name_def in_set_conv_nth)
qed

lemma rr_live_attempt:
  assumes "rr_live att lb" and "unattempted att lb i"
  shows "rr_live (backend_name lb i # att) (lb_metrics_upd g (lb_failure i (lb_release i (lb_track i lb))))"
proof -
  let ?lb = "lb_metrics_upd g (lb_failure i (lb_release i (lb_track i lb)))"
  have i: "i < length (lb_backends lb)" "backend_name lb i \<notin> set att" using assms(2) by (simp_all add: unattempted_def)
  have names: "lb_names ?lb = lb_names lb" using i(1) lb_names_attempt [of i lb] by (simp add: lb_names_def)
  have bn: "backend_name ?lb j = backend_name lb j" if "j < length (lb_backends lb)" for j
    using lb_names_nth [of j ?lb] lb_names_nth [of j lb] names that by simp
  have "be_Healthy (lb_backends ?lb ! j)" if "unattempted (backend_name lb i # att) ?lb j" for j
  proof -
    from that have j: "j < length (lb_backends lb)" by (simp add: unattempted_def)
    with that bn have "backend_name lb j \<noteq> backend_name lb i" "unattempted att lb j" by (auto simp: unattempted_def)
    then have "i \<noteq> j" "be_Healthy (lb_backends lb ! j)" using assms(1) by (auto simp: rr_live_def)
    then show ?thesis using i(1) j by (simp add: lb_attempt_nth)
  qed
  moreover have "backend_name lb i \<in> set (lb_names lb)"
    using i(1) by (metis lb_names_def length_map lb_names_nth nth_mem)
  ultimately show ?thesis using assms(1) i(2) names by (simp add: rr_live_def)
qed

lemma lb_loop_returns:
  assumes "rr_live att lb" and "unattempted att lb i0"
    and "(length (lb_backends lb) - length att - 1) * length (lb_backends lb) + next_new att lb \<le> fuel"
  shows "\<exists>y. lb_loop rnd fuel ctx m att lb w = Some y"
  using assms
proof (induction fuel arbitrary: att lb w i0)
  case 0
  with next_new(1) [OF 0(2)] show ?case by simp
next
  case (Suc fuel)
  let ?n = "length (lb_backends lb)"
  from Suc.prems(1,2) have "i0 \<in> set (healthyBackends lb)" by (simp add: rr_live_def unattempted_def)
  then have ne: "healthyBackends lb \<noteq> []" by (metis empty_iff list.set(1))
  obtain i lb1 where sel: "selectRoundRobin (healthyBackends lb) lb = (i, lb1)"
    by (cases "selectRoundRobin (healthyBackends lb) lb")
  from selectRoundRobin_sound [OF ne sel] obtain d where lb1: "lb1 = lb\<lparr>lb_currentIndex := i\<rparr>"
    and d: "1 \<le> d" "i = (lb_currentIndex lb + d) mod ?n"
      "\<forall>e. 1 \<le> e \<and> e < d \<longrightarrow> \<not> be_Healthy (lb_backends lb ! ((lb_currentIndex lb + e) mod ?n))" by blast
  have sb: "selectBackend rnd lb w = (Some i, lb1, w)"
    using Suc.prems(1) ne sel by (simp add: selectBackend_def rr_live_def Let_def)
  have n0: "0 < ?n" using Suc.prems(2) by (auto simp: unattempted_def)
  have i: "i < ?n" using d(2) n0 by simp
  have un: "unattempted att' lb1 j \<longleftrightarrow> unattempted att' lb j" for att' j
    by (simp add: unattempted_def lb1 backend_name_def)
  have live1: "rr_live att lb1" using Suc.prems(1) un by (simp add: rr_live_def lb1 lb_names_def)
  show ?case
  proof (cases "backend_name lb1 i \<in> set att")
    case True
    have "d < next_new att lb"
    proof (rule ccontr)
      assume "\<not> d < next_new att lb"
      moreover have "next_new att lb \<noteq> d"
        using next_new(3) [OF Suc.prems(2)] d(2) True by (auto simp: unattempted_def lb1 backend_name_def)
      moreover have "be_Healthy (lb_backends lb ! ((lb_currentIndex lb + next_new att lb) mod ?n))"
        using next_new(3) [OF Suc.prems(2)] Suc.prems(1) by (simp add: rr_live_def)
      ultimately show False using d(3) next_new(1) [OF Suc.prems(2)] by simp
    qed
    from next_new_rotate [OF Suc.prems(2) d(1) this] have "next_new att lb1 + d \<le> next_new att lb"
      by (simp add: lb1 d(2) [symmetric])
    with Suc.prems(3) d(1) have "(length (lb_backends lb1) - length att - 1) * length (lb_backends lb1) + next_new att lb1 \<le> fuel"
      by (simp add: lb1)
    from Suc.IH [OF live1 _ this] Suc.prems(2) un sb True show ?thesis by simp
  next
    case False
    then have ua: "unattempted att lb1 i" using i by (simp add: unattempted_def lb1)
    let ?lb2 = "\<lambda>g. lb_metrics_upd g (lb_failure i (lb_release i (lb_track i lb1)))"
    have "\<exists>y. lb_loop rnd fuel ctx m (backend_name lb1 i # att) (?lb2 g) w' = Some y"
      if more: "Suc (length att) < ?n" for g w'
    proof -
      note live2 = rr_live_attempt [OF live1 ua, of g]
      have len: "length (lb_backends (?lb2 g)) = ?n" by (simp add: lb1)
      from rr_live_unattempted [OF live2] more len obtain j where
        j: "unattempted (backend_name lb1 i # att) (?lb2 g) j" by auto
      have "next_new (backend_name lb1 i # att) (?lb2 g) \<le> ?n" using next_new(2) [OF j] len by simp
      moreover have "(?n - Suc (length att) - 1) * ?n + ?n = (?n - length att - 1) * ?n"
      proof -
        have "?n - length att - 1 = Suc (?n - Suc (length att) - 1)" using more by simp
        then show ?thesis by simp
      qed
      ultimately have "(?n - Suc (length att) - 1) * ?n + next_new (backend_name lb1 i # att) (?lb2 g) \<le> fuel"
        using Suc.prems(3) next_new(1) [OF Suc.prems(2)] by linarith
      then show ?thesis using Suc.IH [OF live2 j] len by simp
    qed
    then show ?thesis
      using sb False by (auto simp: Let_def lb1 split: prod.splits outcome.splits)
  qed
qed

text \<open>
  C19.
  Under round robin a request always ends: with distinctly named, healthy backends the loop
  returns within \<open>n * n\<close> iterations for \<open>n\<close> backends, whatever the agents do, with or
  without failover.  Requests are served one at a time; concurrent requests share the index of
  the round robin.
\<close>
theorem lb_round_robin_returns:
  assumes "lc_Strategy (lb_config lb) = RoundRobin" and "lb_backends lb \<noteq> []"
    and "distinct (lb_names lb)" and "\<forall>b \<in> set (lb_backends lb). be_Healthy b"
    and "length (lb_backends lb) * length (lb_backends lb) \<le> fuel"
  shows "\<exists>y. lb_Process rnd fuel ctx m lb w = Some y"
proof -
  let ?lb = "lb_metrics_upd (\<lambda>m. m\<lparr>lm_TotalRequests := lm_TotalRequests m + 1\<rparr>) lb"
  have live: "rr_live [] ?lb" using assms(1,3,4) by (auto simp: rr_live_def unattempted_def lb_names_def)
  have un: "unattempted [] ?lb 0" using assms(2) by (simp add: unattempted_def)
  have "(length (lb_backends lb) - 1) * length (lb_backends lb) + length (lb_backends lb) =
      length (lb_backends lb) * length (lb_backends lb)"
    using assms(2) by (cases "length (lb_backends lb)") simp_all
  then show ?thesis
    using lb_loop_returns [OF live un, of fuel] next_new(2) [OF un] assms(5) by (simp add: lb_Process_def)
qed

definition down_agent :: "string \<Rightarrow> nat agent" where
  "down_agent name = \<lparr>agent_Name = name, agent_Capabilities = [],
     agent_Process = (\<lambda>ctx m n. (Err (Errors_New ''down''), Suc n))\<rparr>"

definition sample_lb :: "LoadBalancingStrategy \<Rightarrow> nat LoadBalancer" where
  "sample_lb st =
     \<lparr>lb_backends = [new_backend (down_agent ''a'', 1), new_backend (down_agent ''b'', 2)],
      lb_config = DefaultLoadBalancerConfig\<lparr>lc_Strategy := st\<rparr>,
      lb_metrics = \<lparr>lm_TotalRequests = 0, lm_SuccessfulRequests = 0, lm_FailedRequests = 0,
        lm_FailoverAttempts = 0, lm_BackendHealthChanges = []\<rparr>, lb_currentIndex = 0\<rparr>"

lemmas sample_lb_defs = sample_lb_def new_backend_def down_agent_def DefaultLoadBalancerConfig_def lb_names_def

theorem lb_round_robin_returns_witness:
  "\<exists>y. lb_Process (\<lambda>_ w. (0, w)) 4 Background None (sample_lb RoundRobin) 0 = Some y"
  by (rule lb_round_robin_returns) (simp_all add: sample_lb_defs)

text \<open>The state after a failed call that leaves the backend healthy.\<close>

lemma lb_failure_healthy:
  assumes "i < length (lb_backends lb)" and "j < length (lb_backends lb)"
    and "be_TotalFailures (lb_backends lb ! i) + 1 < lc_FailureThreshold (lb_config lb)"
  shows "be_Healthy (lb_backends (lb_failure i (lb_release i (lb_track i lb))) ! j) = be_Healthy (lb_backends lb ! j)"
    and "be_ActiveConnections (lb_backends (lb_failure i (lb_release i (lb_track i lb))) ! j) =
      be_ActiveConnections (lb_backends lb ! j)"
  using assms by (simp_all add: lb_op_defs Let_def lb_backend_upd_nth)

text \<open>
  A loop state is stuck when failover is on, every backend the strategy can select was
  attempted, and fewer names were attempted than there are backends.
\<close>

lemma lb_loop_stuck:
  assumes "lc_EnableFailover (lb_config lb)" and "length att < length (lb_backends lb)"
    and "\<And>c w. \<exists>i c' w'. selectBackend rnd (lb\<lparr>lb_currentIndex := c\<rparr>) w = (Some i, lb\<lparr>lb_currentIndex := c'\<rparr>, w') \<and>
      backend_name lb i \<in> set att"
  shows "lb_loop rnd fuel ctx m att (lb\<lparr>lb_currentIndex := c\<rparr>) w = None"
proof (induction fuel arbitrary: c w)
  case (Suc fuel)
  from assms(3) [of c w] obtain i c' w' where
    "selectBackend rnd (lb\<lparr>lb_currentIndex := c\<rparr>) w = (Some i, lb\<lparr>lb_currentIndex := c'\<rparr>, w')"
    "backend_name lb i \<in> set att" by blast
  then show ?case using assms(1,2) Suc.IH by (simp add: backend_name_def)
qed simp

text \<open>
  Failover can spin for ever: if one backend is healthy and at least one is not, failover is
  enabled, and the healthy backend fails a request without reaching the failure threshold,
  then the request never returns, under every strategy and for every amount of fuel (the
  loop waits for a backend that was not attempted, and none is ever selected).
\<close>
lemma lb_failover_never_returns:
  assumes "healthyBackends lb = [i]" and "2 \<le> length (lb_backends lb)" and "lc_EnableFailover (lb_config lb)"
    and "be_TotalFailures (lb_backends lb ! i) + 1 < lc_FailureThreshold (lb_config lb)"
    and "\<And>w. \<exists>e w'. agent_Process (be_Agent (lb_backends lb ! i)) ctx m w = (Err e, w')"
    and "\<And>n w. 0 < n \<Longrightarrow> fst (rnd n w) < n"
  shows "lb_Process rnd fuel ctx m lb w = None"
proof (cases fuel)
  case (Suc k)
  define lb0 where "lb0 = lb_metrics_upd (\<lambda>m. m\<lparr>lm_TotalRequests := lm_TotalRequests m + 1\<rparr>) lb"
  have i: "i < length (lb_backends lb)" using assms(1) set_healthyBackends [of i lb] by simp
  have sel: "\<exists>c' w'. selectBackend rnd x w = (Some i, x\<lparr>lb_currentIndex := c'\<rparr>, w')"
    if "healthyBackends x = [i]" for x w
  proof -
    obtain q x' w' where s: "selectBackend rnd x w = (q, x', w')" by (cases "selectBackend rnd x w")
    moreover have "q \<noteq> None"
      using s that by (auto simp: selectBackend_def Let_def split: LoadBalancingStrategy.splits prod.splits)
    ultimately obtain j where j: "selectBackend rnd x w = (Some j, x', w')" by blast
    from selectBackend_sound [OF j assms(6)] that have "j = i" "\<exists>c. x' = x\<lparr>lb_currentIndex := c\<rparr>"
      by (simp_all del: set_healthyBackends)
    with j show ?thesis by blast
  qed
  have h0: "healthyBackends lb0 = [i]" using assms(1) by (simp add: healthyBackends_def lb0_def)
  obtain c1 w1 where s1: "selectBackend rnd lb0 w = (Some i, lb0\<lparr>lb_currentIndex := c1\<rparr>, w1)"
    using sel [OF h0] by blast
  define lb1 where "lb1 = lb0\<lparr>lb_currentIndex := c1\<rparr>"
  have b1: "lb_backends lb1 = lb_backends lb" "lb_config lb1 = lb_config lb" by (simp_all add: lb1_def lb0_def)
  obtain e w2 where p: "agent_Process (be_Agent (lb_backends lb ! i)) ctx m w1 = (Err e, w2)" using assms(5) by blast
  let ?g = "\<lambda>m. m\<lparr>lm_FailoverAttempts := lm_FailoverAttempts m + 1\<rparr>"
  define lb2 where "lb2 = lb_metrics_upd ?g (lb_failure i (lb_release i (lb_track i lb1)))"
  have h2: "healthyBackends (lb2\<lparr>lb_currentIndex := c\<rparr>) = [i]" for c
  proof -
    have "healthyBackends (lb2\<lparr>lb_currentIndex := c\<rparr>) = healthyBackends lb"
      unfolding healthyBackends_def using i assms(4) b1 lb_failure_healthy(1) [of i lb1]
      by (auto simp: lb2_def intro!: filter_cong)
    with assms(1) show ?thesis by simp
  qed
  have n2: "backend_name lb2 i = backend_name lb1 i"
    using i b1 by (simp add: backend_name_def lb2_def lb_attempt_nth)
  have "\<exists>j c' w'. selectBackend rnd (lb2\<lparr>lb_currentIndex := c\<rparr>) w = (Some j, lb2\<lparr>lb_currentIndex := c'\<rparr>, w') \<and>
      backend_name lb2 j \<in> set [backend_name lb1 i]" for c w
    using sel [OF h2, of c w] n2 by auto
  then have "lb_loop rnd k ctx m [backend_name lb1 i] (lb2\<lparr>lb_currentIndex := lb_currentIndex lb2\<rparr>) w2 = None"
    using assms(2,3) b1 by (intro lb_loop_stuck) (simp_all add: lb2_def)
  moreover have "lb_Process rnd fuel ctx m lb w = lb_loop rnd k ctx m [backend_name lb1 i] lb2 w2"
    using Suc s1 p i b1 assms(2,3)
    by (simp add: lb_Process_def lb0_def [symmetric] lb1_def [symmetric] Let_def lb_attempt_nth lb2_def)
  ultimately show ?thesis by simp
qed (simp add: lb_Process_def)

text \<open>
  Least-connections never fails over: with failover enabled and at least two backends, if the
  backend with the fewest connections fails a request without reaching the failure threshold,
  the request never returns, although every other backend may be healthy (the strategy keeps
  selecting the backend that was attempted).
\<close>
lemma lb_least_connections_never_returns:
  assumes "lc_Strategy (lb_config lb) = LeastConnections" and "healthyBackends lb \<noteq> []"
    and "2 \<le> length (lb_backends lb)" and "lc_EnableFailover (lb_config lb)"
    and "i = selectLeastConnections (healthyBackends lb) lb"
    and "be_TotalFailures (lb_backends lb ! i) + 1 < lc_FailureThreshold (lb_config lb)"
    and "agent_Process (be_Agent (lb_backends lb ! i)) ctx m w = (Err e, w')"
  shows "lb_Process rnd fuel ctx m lb w = None"
proof (cases fuel)
  case (Suc k)
  define lb0 where "lb0 = lb_metrics_upd (\<lambda>m. m\<lparr>lm_TotalRequests := lm_TotalRequests m + 1\<rparr>) lb"
  have i: "i < length (lb_backends lb)"
    using selectLeastConnections_sound [OF assms(2), of lb] assms(5) by simp
  have b0: "lb_backends lb0 = lb_backends lb" "lb_config lb0 = lb_config lb" by (simp_all add: lb0_def)
  let ?g = "\<lambda>m. m\<lparr>lm_FailoverAttempts := lm_FailoverAttempts m + 1\<rparr>"
  define lb2 where "lb2 = lb_metrics_upd ?g (lb_failure i (lb_release i (lb_track i lb0)))"
  have same: "be_Healthy (lb_backends lb2 ! j) = be_Healthy (lb_backends lb ! j)"
    "be_ActiveConnections (lb_backends lb2 ! j) = be_ActiveConnections (lb_backends lb ! j)"
    if "j < length (lb_backends lb)" for j
    using lb_failure_healthy [of i lb0 j] i that assms(6) b0 by (simp_all add: lb2_def)
  have len2: "length (lb_backends lb2) = length (lb_backends lb)" "lb_config lb2 = lb_config lb"
    by (simp_all add: lb2_def b0)
  have h: "healthyBackends x = healthyBackends lb" if "lb_backends x = lb_backends lb2" for x :: "'a LoadBalancer"
    unfolding healthyBackends_def that using same(1) len2 by (intro filter_cong) auto
  have sel: "selectLeastConnections (healthyBackends lb) x = i" if "lb_backends x = lb_backends lb2" for x
    using selectLeastConnections_cong [OF assms(2), of x lb] same(2) that assms(5) by simp
  have sb: "selectBackend rnd x v = (Some i, x, v)"
    if "lb_backends x = lb_backends lb2" "lb_config x = lb_config lb" for x v
    using that h [OF that(1)] sel [OF that(1)] assms(1,2) by (simp add: selectBackend_def Let_def)
  have n2: "backend_name lb2 i = backend_name lb0 i"
    using i b0 by (simp add: backend_name_def lb2_def lb_attempt_nth)
  have "\<exists>j c' v'. selectBackend rnd (lb2\<lparr>lb_currentIndex := c\<rparr>) v = (Some j, lb2\<lparr>lb_currentIndex := c'\<rparr>, v') \<and>
      backend_name lb2 j \<in> set [backend_name lb0 i]" for c v
    using sb [of "lb2\<lparr>lb_currentIndex := c\<rparr>" v] len2 n2 by auto
  then have "lb_loop rnd k ctx m [backend_name lb0 i] (lb2\<lparr>lb_currentIndex := lb_currentIndex lb2\<rparr>) w' = None"
    using assms(3,4) len2 by (intro lb_loop_stuck) simp_all
  moreover have "selectBackend rnd lb0 w = (Some i, lb0, w)"
    using assms(1,2,5) b0
    by (simp add: selectBackend_def Let_def healthyBackends_def selectLeastConnections_def)
  then have "lb_Process rnd fuel ctx m lb w = lb_loop rnd k ctx m [backend_name lb0 i] lb2 w'"
    using Suc assms(3,4,7) i b0
    by (simp add: lb_Process_def lb0_def [symmetric] Let_def lb_attempt_nth lb2_def)
  ultimately show ?thesis by simp
qed (simp add: lb_Process_def)

text \<open>What a request changes of the backends, relative to the state \<open>lb\<close> at its start.\<close>

definition called_once :: "'w LoadBalancer \<Rightarrow> string list \<Rightarrow> 'w LoadBalancer \<Rightarrow> bool" where
  "called_once lb att lb' \<longleftrightarrow>
     lb_names lb' = lb_names lb \<and> lb_config lb' = lb_config lb \<and>
     (\<forall>i < length (lb_backends lb).
        be_ActiveConnections (lb_backends lb' ! i) = be_ActiveConnections (lb_backends lb ! i) \<and>
        be_TotalRequests (lb_backends lb' ! i) =
          be_TotalRequests (lb_backends lb ! i) + (if backend_name lb i \<in> set att then 1 else 0) \<and>
        (backend_name lb i \<in> set att \<longrightarrow> be_Healthy (lb_backends lb ! i)) \<and>
        (be_Healthy (lb_backends lb' ! i) \<longrightarrow> be_Healthy (lb_backends lb ! i)))"

lemma called_once_len: "called_once lb att lb' \<Longrightarrow> length (lb_backends lb') = length (lb_backends lb)"
  by (metis called_once_def lb_names_def length_map)

lemma called_once_name:
  "called_once lb att lb' \<Longrightarrow> i < length (lb_backends lb) \<Longrightarrow> backend_name lb' i = backend_name lb i"
  by (metis called_once_def called_once_len lb_names_nth)

lemma called_once_idx [simp]:
  "called_once lb att (lb'\<lparr>lb_currentIndex := c\<rparr>) = called_once lb att lb'"
  "called_once lb att (lb_metrics_upd g lb') = called_once lb att lb'"
  by (simp_all add: called_once_def lb_names_def)

lemma called_once_release:
  assumes inv: "called_once lb att lb'" and "distinct (lb_names lb)" and i: "i \<in> set (healthyBackends lb')"
    and new: "backend_name lb' i \<notin> set att"
  shows "called_once lb (backend_name lb' i # att) (lb_release i (lb_track i lb'))"
    and "called_once lb (backend_name lb' i # att) (lb_failure i (lb_release i (lb_track i lb')))"
proof -
  have len: "length (lb_backends lb') = length (lb_backends lb)" using inv by (rule called_once_len)
  have il: "i < length (lb_backends lb)" "be_Healthy (lb_backends lb' ! i)" using i len by simp_all
  have names: "lb_names (lb_release i (lb_track i lb')) = lb_names lb'"
    "lb_names (lb_failure i (lb_release i (lb_track i lb'))) = lb_names lb'"
    using il(1) len by (auto intro!: nth_equalityI simp: lb_names_def lb_attempt_nth)
  have eq: "backend_name lb j = backend_name lb' i \<longleftrightarrow> j = i" if "j < length (lb_backends lb)" for j
    using assms(2) that il(1) called_once_name [OF inv il(1)]
    by (metis lb_names_def length_map lb_names_nth nth_eq_iff_index_eq)
  have fh: "be_Healthy (lb_backends (lb_failure i x) ! j) \<Longrightarrow> be_Healthy (lb_backends x ! j)"
    if "i < length (lb_backends x)" "j < length (lb_backends x)" for x :: "'a LoadBalancer" and j
    using that by (auto simp: lb_failure_def Let_def lb_backend_upd_nth split: if_splits)
  show "called_once lb (backend_name lb' i # att) (lb_release i (lb_track i lb'))"
    using inv il new len names(1) eq called_once_name [OF inv il(1)]
    by (auto simp: called_once_def lb_attempt_nth)
  then show "called_once lb (backend_name lb' i # att) (lb_failure i (lb_release i (lb_track i lb')))"
    using il(1) len names lb_attempt_nth(4,5) [of i "lb_release i (lb_track i lb')"] fh [of "lb_release i (lb_track i lb')"]
    by (simp add: called_once_def)
qed

lemma lb_loop_called_once:
  assumes "called_once lb0 att lb" and "distinct (lb_names lb0)"
    and rnd: "\<And>n w. 0 < n \<Longrightarrow> fst (rnd n w) < n"
    and "lb_loop rnd fuel ctx m att lb w = Some (res, lb', w')" and "\<not> is_Panic res"
  shows "\<exists>att'. called_once lb0 att' lb'"
  using assms(1,4)
proof (induction fuel arbitrary: att lb w)
  case (Suc fuel)
  obtain q lb1 w1 where s: "selectBackend rnd lb w = (q, lb1, w1)" by (cases "selectBackend rnd lb w")
  show ?case
  proof (cases q)
    case None
    then have "lb1 = lb"
      using s by (auto simp: selectBackend_def Let_def split: if_splits LoadBalancingStrategy.splits prod.splits)
    with Suc.prems s None show ?thesis by auto
  next
    case (Some i)
    from selectBackend_sound [OF s [unfolded Some] rnd] obtain c where
      i: "i \<in> set (healthyBackends lb)" and lb1: "lb1 = lb\<lparr>lb_currentIndex := c\<rparr>" by blast
    have inv1: "called_once lb0 att lb1" using Suc.prems(1) lb1 by simp
    have i1: "i \<in> set (healthyBackends lb1)" using i lb1 by simp
    show ?thesis
    proof (cases "backend_name lb1 i \<in> set att")
      case True
      with Suc.prems(2) s Some Suc.IH [OF inv1] inv1 show ?thesis by (auto split: if_splits)
    next
      case False
      note c = called_once_release [OF inv1 assms(2) i1 False]
      show ?thesis
        using Suc.prems(2) s Some False assms(5) c(1)
          Suc.IH [of "backend_name lb1 i # att" "lb_metrics_upd g (lb_failure i (lb_release i (lb_track i lb1)))" for g] c(2)
        by (auto simp: Let_def lb_success_def split: prod.splits outcome.splits if_splits)
    qed
  qed
qed simp

text \<open>
  A request touches each backend at most once: when it returns, the connection counts of all
  backends are what they were, every backend was called at most once, and no backend that was
  unhealthy at the start of the request was called.
\<close>
lemma lb_calls_healthy_once:
  assumes "distinct (lb_names lb)" and "\<And>n w. 0 < n \<Longrightarrow> fst (rnd n w) < n"
    and "lb_Process rnd fuel ctx m lb w = Some (res, lb', w')" and "\<not> is_Panic res"
    and "i < length (lb_backends lb)"
  shows "be_ActiveConnections (lb_backends lb' ! i) = be_ActiveConnections (lb_backends lb ! i) \<and>
    be_TotalRequests (lb_backends lb' ! i) - be_TotalRequests (lb_backends lb ! i) \<in> {0, 1} \<and>
    (be_Healthy (lb_backends lb ! i) \<or> be_TotalRequests (lb_backends lb' ! i) = be_TotalRequests (lb_backends lb ! i))"
proof -
  have "called_once lb [] lb" by (simp add: called_once_def)
  then have "called_once lb [] (lb_metrics_upd (\<lambda>m. m\<lparr>lm_TotalRequests := lm_TotalRequests m + 1\<rparr>) lb)" by simp
  from lb_loop_called_once [OF this assms(1,2) assms(3) [unfolded lb_Process_def] assms(4)]
  obtain att' where "called_once lb att' lb'" by blast
  then show ?thesis using assms(5) by (auto simp: called_once_def)
qed

section \<open>Fairness of the rotations\<close>

text \<open>The backends that \<open>k\<close> selections in a row return.\<close>

fun picks :: "'w rand \<Rightarrow> nat \<Rightarrow> 'w LoadBalancer \<Rightarrow> 'w \<Rightarrow> nat option list" where
  "picks rnd 0 lb w = []"
| "picks rnd (Suc k) lb w = (let (q, lb, w) = selectBackend rnd lb w in q # picks rnd k lb w)"

definition rotation :: "nat \<Rightarrow> nat \<Rightarrow> 'a list \<Rightarrow> 'a list" where
  "rotation k c xs = map (\<lambda>j. xs ! ((c + j) mod length xs)) [1 ..< Suc k]"

lemma rotation_Suc:
  assumes "xs \<noteq> []"
  shows "rotation (Suc k) c xs = xs ! ((c + 1) mod length xs) # rotation k ((c + 1) mod length xs) xs"
proof -
  have "rotation (Suc k) c xs = xs ! ((c + 1) mod length xs) # map (\<lambda>j. xs ! ((c + Suc j) mod length xs)) [1 ..< Suc k]"
    by (simp add: rotation_def upt_conv_Cons map_Suc_upt [symmetric] del: upt_Suc)
  also have "map (\<lambda>j. xs ! ((c + Suc j) mod length xs)) [1 ..< Suc k] = rotation k ((c + 1) mod length xs) xs"
    unfolding rotation_def by (intro map_cong refl arg_cong [of _ _ "nth xs"]) (simp add: mod_add_left_eq)
  finally show ?thesis .
qed

lemma mset_rotate1: "mset (rotate1 xs) = mset xs"
  by (cases xs) simp_all

lemma mset_rotate: "mset (rotate k xs) = mset xs"
  by (induction k) (simp_all add: mset_rotate1)

lemma mset_rotation: "mset (rotation (length xs) c xs) = mset xs"
proof -
  have "rotation (length xs) c xs = rotate (c + 1) xs"
    by (rule nth_equalityI) (simp_all add: rotation_def nth_rotate add.commute add.left_commute del: upt_Suc rotate_Suc)
  then show ?thesis by (simp only: mset_rotate)
qed

lemma picks_weighted:
  assumes "lc_Strategy (lb_config lb) = WeightedRoundRobin" and "weighted_list (healthyBackends lb) lb \<noteq> []"
  shows "picks rnd k lb w = map Some (rotation k (lb_currentIndex lb) (weighted_list (healthyBackends lb) lb))"
  using assms
proof (induction k arbitrary: lb)
  case (Suc k)
  let ?ws = "weighted_list (healthyBackends lb) lb" and ?c = "(lb_currentIndex lb + 1) mod length (weighted_list (healthyBackends lb) lb)"
  have h: "healthyBackends lb \<noteq> []" using Suc.prems(2) by (auto simp: weighted_list_def)
  have same: "healthyBackends (lb\<lparr>lb_currentIndex := c\<rparr>) = healthyBackends lb"
    "weighted_list hs (lb\<lparr>lb_currentIndex := c\<rparr>) = weighted_list hs lb" for c hs
    by (simp_all add: healthyBackends_def weighted_list_def)
  have "selectBackend rnd lb w = (Some (?ws ! ?c), lb\<lparr>lb_currentIndex := ?c\<rparr>, w)"
    using Suc.prems h by (simp add: selectBackend_def selectWeightedRoundRobin_def Let_def)
  then show ?case
    using Suc.prems Suc.IH [of "lb\<lparr>lb_currentIndex := ?c\<rparr>"] rotation_Suc [OF Suc.prems(2), of k "lb_currentIndex lb"]
    by (simp add: same)
qed (simp add: rotation_def)

lemma count_image_Some: "count (image_mset Some M) (Some i) = count M i"
  by (induction M) auto

lemma count_weighted:
  "distinct hs \<Longrightarrow> i \<in> set hs \<Longrightarrow>
    count (mset (weighted_list hs lb)) i = nat (be_Weight (lb_backends lb ! i))"
proof (induction hs)
  case (Cons h hs)
  have "count (mset (weighted_list hs lb)) i = 0" if "i \<notin> set hs"
    using that weighted_list_sub [of hs lb] by (auto simp: count_eq_zero_iff)
  with Cons show ?case by (auto simp: weighted_list_def)
qed simp

text \<open>
  Weighted round robin is fair: while the health of the backends does not change, in any run
  of as many consecutive selections as the weights of the healthy backends add up to, each
  healthy backend is selected exactly as often as its weight says.
\<close>
lemma lb_weighted_fair:
  assumes "lc_Strategy (lb_config lb) = WeightedRoundRobin" and "i \<in> set (healthyBackends lb)"
    and "length (weighted_list (healthyBackends lb) lb) = n" and "0 < n"
  shows "count (mset (picks rnd n lb w)) (Some i) = nat (be_Weight (lb_backends lb ! i))"
proof -
  let ?ws = "weighted_list (healthyBackends lb) lb"
  have "?ws \<noteq> []" using assms(3,4) by auto
  then have "mset (picks rnd n lb w) = image_mset Some (mset ?ws)"
    using picks_weighted [OF assms(1)] mset_rotation [of ?ws] assms(3) by (metis mset_map)
  moreover have "distinct (healthyBackends lb)" by (simp add: healthyBackends_def)
  ultimately show ?thesis
    using count_weighted [OF _ assms(2), of lb] by (simp add: count_image_Some)
qed

end
