(* ===== verification/Reasoning_Graph.thy ===== *)
theory Reasoning_Graph
  imports Go_Prelude
begin

text \<open>
  The directed graph of thoughts (\<open>techniques/reasoning/reasoning_graph.go\<close>): construction,
  depth-first path search, cycle detection by node colours, topological sorting by in-degrees
  and the path score.

  The recursive closures of the code take fuel here, one unit per nested call; the number of
  nodes is proved to be enough.  Iteration over the node map is iteration over the association
  list, so the theorems hold for every iteration order.
\<close>

section \<open>Data and construction\<close>

type_synonym NodeType = string
type_synonym EdgeType = string

definition NodeTypePremise :: NodeType where "NodeTypePremise = ''premise''"
definition NodeTypeIntermediate :: NodeType where "NodeTypeIntermediate = ''intermediate''"
definition NodeTypeConclusion :: NodeType where "NodeTypeConclusion = ''conclusion''"

record ThoughtNode =
  tn_ID :: int
  tn_Content :: string
  tn_NodeType :: NodeType
  tn_Confidence :: real
  tn_Metadata :: "(string \<times> gval) list"

record LogicalEdge =
  le_FromNode :: int
  le_ToNode :: int
  le_EdgeType :: EdgeType
  le_Strength :: real
  le_Metadata :: "(string \<times> gval) list"

record ReasoningGraph =
  rg_nodes :: "(int \<times> ThoughtNode) list"
  rg_edges :: "LogicalEdge list"
  rg_nextID :: int
  rg_outgoing :: "(int \<times> int list) list"
  rg_incoming :: "(int \<times> int list) list"

definition NewReasoningGraph :: ReasoningGraph where
  "NewReasoningGraph = \<lparr>rg_nodes = [], rg_edges = [], rg_nextID = 0, rg_outgoing = [], rg_incoming = []\<rparr>"

text \<open>Reading a map of slices: an absent key gives the nil slice.\<close>

definition slice_at :: "(int \<times> int list) list \<Rightarrow> int \<Rightarrow> int list" where
  "slice_at m k = (case go_get m k of None \<Rightarrow> [] | Some xs \<Rightarrow> xs)"

definition AddNode ::
    "string \<Rightarrow> NodeType \<Rightarrow> real \<Rightarrow> (string \<times> gval) list option \<Rightarrow> ReasoningGraph \<Rightarrow> int \<times> ReasoningGraph" where
  "AddNode content nodeType confidence metadata g =
     (let nodeID = rg_nextID g;
          md = (case metadata of None \<Rightarrow> [] | Some md \<Rightarrow> md);
          node = \<lparr>tn_ID = nodeID, tn_Content = content, tn_NodeType = nodeType, tn_Confidence = confidence,
                  tn_Metadata = md\<rparr>
      in (nodeID, g\<lparr>rg_nextID := nodeID + 1, rg_nodes := go_set nodeID node (rg_nodes g),
            rg_outgoing := go_set nodeID [] (rg_outgoing g), rg_incoming := go_set nodeID [] (rg_incoming g)\<rparr>))"

definition AddEdge ::
    "int \<Rightarrow> int \<Rightarrow> EdgeType \<Rightarrow> real \<Rightarrow> (string \<times> gval) list option \<Rightarrow> ReasoningGraph \<Rightarrow> ReasoningGraph outcome" where
  "AddEdge fromNode toNode edgeType strength metadata g =
     (if go_get (rg_nodes g) fromNode = None then Err (Errorf ''source node %d not found'' [GInt fromNode] None)
      else if go_get (rg_nodes g) toNode = None then Err (Errorf ''target node %d not found'' [GInt toNode] None)
      else
        let md = (case metadata of None \<Rightarrow> [] | Some md \<Rightarrow> md);
            edge = \<lparr>le_FromNode = fromNode, le_ToNode = toNode, le_EdgeType = edgeType,
                    le_Strength = strength, le_Metadata = md\<rparr>
        in Ok (g\<lparr>rg_edges := rg_edges g @ [edge],
              rg_outgoing := go_set fromNode (slice_at (rg_outgoing g) fromNode @ [toNode]) (rg_outgoing g),
              rg_incoming := go_set toNode (slice_at (rg_incoming g) toNode @ [fromNode]) (rg_incoming g)\<rparr>))"

definition GetNode :: "int \<Rightarrow> ReasoningGraph \<Rightarrow> ThoughtNode option" where
  "GetNode nodeID g = go_get (rg_nodes g) nodeID"

definition GetOutgoingEdges :: "int \<Rightarrow> ReasoningGraph \<Rightarrow> LogicalEdge list" where
  "GetOutgoingEdges nodeID g = filter (\<lambda>e. le_FromNode e = nodeID) (rg_edges g)"

definition GetIncomingEdges :: "int \<Rightarrow> ReasoningGraph \<Rightarrow> LogicalEdge list" where
  "GetIncomingEdges nodeID g = filter (\<lambda>e. le_ToNode e = nodeID) (rg_edges g)"

abbreviation outs :: "ReasoningGraph \<Rightarrow> int \<Rightarrow> int list" where
  "outs g n \<equiv> slice_at (rg_outgoing g) n"

abbreviation ins :: "ReasoningGraph \<Rightarrow> int \<Rightarrow> int list" where
  "ins g n \<equiv> slice_at (rg_incoming g) n"

definition node_ids :: "ReasoningGraph \<Rightarrow> int list" where
  "node_ids g = map fst (rg_nodes g)"

section \<open>Graph queries\<close>

subsection \<open>Paths\<close>

fun fp_dfs :: "nat \<Rightarrow> ReasoningGraph \<Rightarrow> int \<Rightarrow> int \<Rightarrow> int \<Rightarrow> int list \<Rightarrow> int list \<Rightarrow> int list list option"
  and fp_loop :: "nat \<Rightarrow> ReasoningGraph \<Rightarrow> int \<Rightarrow> int \<Rightarrow> int list \<Rightarrow> int list \<Rightarrow> int list \<Rightarrow> int list list option" where
  "fp_dfs 0 g end' maxLength current path visited = None"
| "fp_dfs (Suc fuel) g end' maxLength current path visited =
     (if current = end' then Some [path]
      else if maxLength > 0 \<and> int (length path) \<ge> maxLength then Some []
      else fp_loop fuel g end' maxLength (outs g current) path visited)"
| "fp_loop fuel g end' maxLength [] path visited = Some []"
| "fp_loop fuel g end' maxLength (nextNode # rest) path visited =
     (if nextNode \<in> set visited then fp_loop fuel g end' maxLength rest path visited
      else
        (case fp_dfs fuel g end' maxLength nextNode (path @ [nextNode]) (nextNode # visited) of
           None \<Rightarrow> None
         | Some ps \<Rightarrow>
             (case fp_loop fuel g end' maxLength rest path visited of
                None \<Rightarrow> None | Some qs \<Rightarrow> Some (ps @ qs))))"

text \<open>\<open>FindPaths\<close>; the fuel is one more than the number of nodes.\<close>

definition FindPaths :: "int \<Rightarrow> int \<Rightarrow> int \<Rightarrow> ReasoningGraph \<Rightarrow> int list list option" where
  "FindPaths start end' maxLength g =
     (if go_get (rg_nodes g) start = None then Some []
      else if go_get (rg_nodes g) end' = None then Some []
      else fp_dfs (Suc (length (rg_nodes g))) g end' maxLength start [start] [start])"

subsection \<open>Cycles\<close>

datatype color = White | Gray | Black

text \<open>The map of colours: an absent key reads 0, which is white.\<close>

fun hc_visit :: "nat \<Rightarrow> ReasoningGraph \<Rightarrow> int \<Rightarrow> (int \<Rightarrow> color) \<Rightarrow> (bool \<times> (int \<Rightarrow> color)) option"
  and hc_loop :: "nat \<Rightarrow> ReasoningGraph \<Rightarrow> int list \<Rightarrow> (int \<Rightarrow> color) \<Rightarrow> (bool \<times> (int \<Rightarrow> color)) option" where
  "hc_visit 0 g nodeID c = None"
| "hc_visit (Suc fuel) g nodeID c =
     (case hc_loop fuel g (outs g nodeID) (c(nodeID := Gray)) of
        None \<Rightarrow> None
      | Some (r, c) \<Rightarrow> if r then Some (True, c) else Some (False, c(nodeID := Black)))"
| "hc_loop fuel g [] c = Some (False, c)"
| "hc_loop fuel g (nextNode # rest) c =
     (if c nextNode = Gray then Some (True, c)
      else if c nextNode = White then
        (case hc_visit fuel g nextNode c of
           None \<Rightarrow> None
         | Some (r, c) \<Rightarrow> if r then Some (True, c) else hc_loop fuel g rest c)
      else hc_loop fuel g rest c)"

fun hc_nodes :: "nat \<Rightarrow> ReasoningGraph \<Rightarrow> int list \<Rightarrow> (int \<Rightarrow> color) \<Rightarrow> bool option" where
  "hc_nodes fuel g [] c = Some False"
| "hc_nodes fuel g (nodeID # ids) c =
     (if c nodeID = White then
        (case hc_visit fuel g nodeID c of
           None \<Rightarrow> None
         | Some (r, c) \<Rightarrow> if r then Some True else hc_nodes fuel g ids c)
      else hc_nodes fuel g ids c)"

definition HasCycle :: "ReasoningGraph \<Rightarrow> bool option" where
  "HasCycle g = hc_nodes (length (rg_nodes g)) g (node_ids g) (\<lambda>_. White)"

subsection \<open>Topological order\<close>

definition deg_at :: "(int \<times> int) list \<Rightarrow> int \<Rightarrow> int" where
  "deg_at d k = (case go_get d k of None \<Rightarrow> 0 | Some n \<Rightarrow> n)"

fun ts_relax :: "int list \<Rightarrow> (int \<times> int) list \<Rightarrow> int list \<Rightarrow> (int \<times> int) list \<times> int list" where
  "ts_relax [] d queue = (d, queue)"
| "ts_relax (nextNode # rest) d queue =
     (let d = go_set nextNode (deg_at d nextNode - 1) d;
          queue = (if deg_at d nextNode = 0 then queue @ [nextNode] else queue)
      in ts_relax rest d queue)"

definition deg_weight :: "(int \<times> int) list \<Rightarrow> nat" where
  "deg_weight d = sum_list (map (nat \<circ> snd) d)"

lemma deg_weight_set:
  "deg_weight (go_set k (deg_at d k - 1) d) + (if deg_at d k - 1 = 0 then 1 else 0) \<le> deg_weight d"
  by (induction d) (auto simp: deg_weight_def deg_at_def)

lemma ts_relax_weight:
  "ts_relax ms d q = (d', q') \<Longrightarrow> deg_weight d' + length q' \<le> deg_weight d + length q"
proof (induction ms d q rule: ts_relax.induct)
  case (2 m ms d q)
  define d1 where "d1 = go_set m (deg_at d m - 1) d"
  define q1 where "q1 = (if deg_at d1 m = 0 then q @ [m] else q)"
  have "deg_at d1 m = deg_at d m - 1" by (simp add: d1_def deg_at_def)
  then have "deg_weight d1 + length q1 \<le> deg_weight d + length q"
    using deg_weight_set [of m d] by (auto simp: q1_def d1_def split: if_splits)
  moreover have "ts_relax ms d1 q1 = (d', q')" using 2(2) by (simp add: Let_def d1_def q1_def)
  ultimately show ?case using 2(1) [OF d1_def q1_def] by simp
qed simp

function ts_loop :: "ReasoningGraph \<Rightarrow> (int \<times> int) list \<Rightarrow> int list \<Rightarrow> int list \<Rightarrow> int list" where
  "ts_loop g d [] result = result"
| "ts_loop g d (nodeID # queue) result =
     (let (d, queue) = ts_relax (outs g nodeID) d queue in ts_loop g d queue (result @ [nodeID]))"
  by pat_completeness auto
termination
  by (relation "measure (\<lambda>(g, d, queue, result). deg_weight d + length queue)")
    (auto dest!: sym [of "(_, _)"] ts_relax_weight)

definition inDegrees :: "ReasoningGraph \<Rightarrow> (int \<times> int) list" where
  "inDegrees g = map (\<lambda>(nodeID, _). (nodeID, int (length (ins g nodeID)))) (rg_nodes g)"

text \<open>The outer option is the fuel of \<open>HasCycle\<close>, the inner one the nil result.\<close>

definition TopologicalSort :: "ReasoningGraph \<Rightarrow> int list option option" where
  "TopologicalSort g =
     (case HasCycle g of
        None \<Rightarrow> None
      | Some True \<Rightarrow> Some None
      | Some False \<Rightarrow>
          let d = inDegrees g;
              result = ts_loop g d (map fst (filter (\<lambda>(_, degree). degree = 0) d)) []
          in Some (if length result \<noteq> length (rg_nodes g) then None else Some result))"

subsection \<open>Selections and scores\<close>

definition GetPremises :: "ReasoningGraph \<Rightarrow> ThoughtNode list" where
  "GetPremises g = filter (\<lambda>n. tn_NodeType n = NodeTypePremise) (map snd (rg_nodes g))"

definition GetConclusions :: "ReasoningGraph \<Rightarrow> ThoughtNode list" where
  "GetConclusions g = filter (\<lambda>n. tn_NodeType n = NodeTypeConclusion) (map snd (rg_nodes g))"

text \<open>The strengths of the first edges between consecutive nodes, where there is one.\<close>

fun path_strengths :: "ReasoningGraph \<Rightarrow> int list \<Rightarrow> real list" where
  "path_strengths g (u # v # path) =
     (case find (\<lambda>e. le_FromNode e = u \<and> le_ToNode e = v) (rg_edges g) of
        None \<Rightarrow> [] | Some e \<Rightarrow> [le_Strength e]) @ path_strengths g (v # path)"
| "path_strengths g _ = []"

definition GetPathScore :: "int list \<Rightarrow> ReasoningGraph \<Rightarrow> real" where
  "GetPathScore path g =
     (if path = [] then 0
      else
        let totalConfidence = sum_list (map (\<lambda>n. case go_get (rg_nodes g) n of None \<Rightarrow> 0 | Some nd \<Rightarrow> tn_Confidence nd) path);
            avgNodeScore = totalConfidence / real (length path)
        in if length path < 2 then avgNodeScore
           else
             let strengths = path_strengths g path;
                 avgEdgeScore = (if strengths \<noteq> [] then sum_list strengths / real (length strengths) else 1)
             in (avgNodeScore + avgEdgeScore) / 2)"

record GraphStatistics =
  gs_NumNodes :: int
  gs_NumEdges :: int
  gs_NodeTypes :: "(string \<times> int) list"
  gs_EdgeTypes :: "(string \<times> int) list"
  gs_HasCycles :: "bool option"
  gs_AvgConfidence :: real

definition Statistics :: "ReasoningGraph \<Rightarrow> GraphStatistics" where
  "Statistics g =
     \<lparr>gs_NumNodes = int (length (rg_nodes g)), gs_NumEdges = int (length (rg_edges g)),
      gs_NodeTypes = fold (\<lambda>(_, n). go_incr (tn_NodeType n)) (rg_nodes g) [],
      gs_EdgeTypes = fold (\<lambda>e. go_incr (le_EdgeType e)) (rg_edges g) [],
      gs_HasCycles = HasCycle g,
      gs_AvgConfidence = (if rg_nodes g \<noteq> [] then
         sum_list (map (tn_Confidence \<circ> snd) (rg_nodes g)) / real (length (rg_nodes g)) else 0)\<rparr>"

section \<open>Well-formed graphs\<close>

text \<open>
  Node identifiers are below the next one, and the two adjacency maps list, for every node,
  the ends of its edges in the order in which they were added.
\<close>

definition rg_ok :: "ReasoningGraph \<Rightarrow> bool" where
  "rg_ok g \<longleftrightarrow> go_map_ok (rg_nodes g) \<and> (\<forall>k \<in> set (node_ids g). k < rg_nextID g) \<and>
     (\<forall>e \<in> set (rg_edges g). le_FromNode e \<in> set (node_ids g) \<and> le_ToNode e \<in> set (node_ids g)) \<and>
     (\<forall>n. outs g n = map le_ToNode (filter (\<lambda>e. le_FromNode e = n) (rg_edges g))) \<and>
     (\<forall>n. ins g n = map le_FromNode (filter (\<lambda>e. le_ToNode e = n) (rg_edges g)))"

lemma node_ids_get: "go_get (rg_nodes g) n \<noteq> None \<longleftrightarrow> n \<in> set (node_ids g)"
  by (simp add: node_ids_def map_of_eq_None_iff)

lemma slice_at_set: "slice_at (go_set k v m) n = (if n = k then v else slice_at m n)"
  by (simp add: slice_at_def)

lemma rg_ok_new: "rg_ok NewReasoningGraph"
  by (simp add: rg_ok_def NewReasoningGraph_def node_ids_def slice_at_def)

lemma node_ids_AddNode: "set (node_ids (snd (AddNode c t f md g))) = insert (rg_nextID g) (set (node_ids g))"
  by (auto simp: AddNode_def Let_def node_ids_def update_keys)

lemma rg_ok_AddNode: "rg_ok g \<Longrightarrow> rg_ok (snd (AddNode c t f md g))"
proof -
  assume ok: "rg_ok g"
  have none: "filter (\<lambda>e. le_FromNode e = rg_nextID g) (rg_edges g) = []"
    "filter (\<lambda>e. le_ToNode e = rg_nextID g) (rg_edges g) = []"
    using ok unfolding rg_ok_def filter_empty_conv by (metis order_less_irrefl)+
  show ?thesis
    using ok none node_ids_AddNode [of c t f md g]
    by (auto simp: rg_ok_def slice_at_set AddNode_def Let_def)
qed

lemma rg_ok_AddEdge:
  assumes "rg_ok g" and "AddEdge u v t s md g = Ok g'"
  shows "rg_ok g'"
proof -
  have uv: "u \<in> set (node_ids g)" "v \<in> set (node_ids g)"
    using assms(2) by (auto simp: AddEdge_def simp flip: node_ids_get split: if_splits)
  have "node_ids g' = node_ids g" "rg_nodes g' = rg_nodes g" "rg_nextID g' = rg_nextID g"
    using assms(2) by (auto simp: AddEdge_def Let_def node_ids_def split: if_splits)
  with assms uv show ?thesis
    by (auto simp: rg_ok_def AddEdge_def Let_def slice_at_set split: if_splits)
qed

text \<open>Graphs that the two constructors build.\<close>

inductive rg_built :: "ReasoningGraph \<Rightarrow> bool" where
  built_new: "rg_built NewReasoningGraph"
| built_node: "rg_built g \<Longrightarrow> rg_built (snd (AddNode c t f md g))"
| built_edge: "rg_built g \<Longrightarrow> AddEdge u v t s md g = Ok g' \<Longrightarrow> rg_built g'"

lemma rg_built_ok: "rg_built g \<Longrightarrow> rg_ok g"
  by (induction rule: rg_built.induct) (auto intro: rg_ok_new rg_ok_AddNode rg_ok_AddEdge)

definition edge_rel :: "ReasoningGraph \<Rightarrow> (int \<times> int) set" where
  "edge_rel g = {(u, v). v \<in> set (outs g u)}"

lemma edge_rel_edges: "rg_ok g \<Longrightarrow> (u, v) \<in> edge_rel g \<longleftrightarrow> (\<exists>e \<in> set (rg_edges g). le_FromNode e = u \<and> le_ToNode e = v)"
  by (auto simp: edge_rel_def rg_ok_def)

lemma edge_rel_nodes: "rg_ok g \<Longrightarrow> (u, v) \<in> edge_rel g \<Longrightarrow> u \<in> set (node_ids g) \<and> v \<in> set (node_ids g)"
  by (auto simp: edge_rel_edges rg_ok_def)

lemma edge_rel_ins: "rg_ok g \<Longrightarrow> (u, v) \<in> edge_rel g \<longleftrightarrow> u \<in> set (ins g v)"
  by (auto simp: edge_rel_edges rg_ok_def)

section \<open>Cycle detection\<close>

definition whites :: "ReasoningGraph \<Rightarrow> (int \<Rightarrow> color) \<Rightarrow> int set" where
  "whites g c = {n \<in> set (node_ids g). c n = White}"

lemma finite_whites [simp]: "finite (whites g c)"
  by (simp add: whites_def)

text \<open>No node turns white, and without a cycle found, grey nodes stay grey and black ones black.\<close>

definition keeps :: "bool \<Rightarrow> (int \<Rightarrow> color) \<Rightarrow> (int \<Rightarrow> color) \<Rightarrow> bool" where
  "keeps r c c' \<longleftrightarrow> (\<forall>x. c' x = White \<longrightarrow> c x = White) \<and>
     (\<not> r \<longrightarrow> (\<forall>x. (c' x = Gray) = (c x = Gray)) \<and> (\<forall>x. c x = Black \<longrightarrow> c' x = Black))"

lemma keeps_refl [simp]: "keeps r c c"
  by (simp add: keeps_def)

lemma keepsD:
  "keeps r c c' \<Longrightarrow> c' x = White \<Longrightarrow> c x = White"
  "keeps r c c' \<Longrightarrow> \<not> r \<Longrightarrow> c' x = Gray \<longleftrightarrow> c x = Gray"
  "keeps r c c' \<Longrightarrow> \<not> r \<Longrightarrow> c x = Black \<Longrightarrow> c' x = Black"
  unfolding keeps_def by blast+

lemma keeps_trans: "keeps False c c1 \<Longrightarrow> keeps r c1 c' \<Longrightarrow> keeps r c c'"
  unfolding keeps_def by metis

lemma keeps_visit:
  assumes "c n = White" and k: "keeps r (c(n := Gray)) c1"
  shows "keeps r c (if r then c1 else c1(n := Black))"
proof -
  have eq: "(c(n := Gray)) x = c x" if "x \<noteq> n" for x using that by simp
  have w: "c x = White" if "c1 x = White" for x
    using keepsD(1) [OF k that] eq assms(1) by (cases "x = n") simp_all
  have "(c1(n := Black)) x = Gray \<longleftrightarrow> c x = Gray" if "\<not> r" for x
    using keepsD(2) [OF k that, of x] assms(1) by (cases "x = n") simp_all
  moreover have "(c1(n := Black)) x = Black" if "\<not> r" "c x = Black" for x
    using keepsD(3) [OF k that(1), of x] that(2) by (cases "x = n") simp_all
  ultimately show ?thesis unfolding keeps_def using w by auto
qed

lemma hc_frame:
  "hc_visit fuel g n c = Some (r, c') \<Longrightarrow> c n = White \<Longrightarrow> keeps r c c' \<and> (\<not> r \<longrightarrow> c' n = Black)"
  "hc_loop fuel g ns c = Some (r, c') \<Longrightarrow> keeps r c c' \<and> (\<not> r \<longrightarrow> (\<forall>n \<in> set ns. c' n = Black))"
proof (induction fuel g n c and fuel g ns c arbitrary: r c' and r c' rule: hc_visit_hc_loop.induct)
  case (2 fuel g n c)
  from 2(2) obtain r1 c1 where l: "hc_loop fuel g (outs g n) (c(n := Gray)) = Some (r1, c1)"
    by (auto split: option.splits)
  have "keeps r1 (c(n := Gray)) c1" using 2(1) [OF l] by blast
  from keeps_visit [OF 2(3) this] 2(2) l show ?case by (cases r1) auto
next
  case (4 fuel g m ms c)
  show ?case
  proof (cases "c m")
    case White
    with 4(4) obtain r1 c1 where v: "hc_visit fuel g m c = Some (r1, c1)"
      by (auto split: option.splits)
    have f: "keeps r1 c c1" "\<not> r1 \<longrightarrow> c1 m = Black" using 4(1) [OF _ White v White] White by simp_all
    show ?thesis
    proof (cases r1)
      case True
      with White v 4(4) f show ?thesis by simp
    next
      case False
      with White v 4(4) have "hc_loop fuel g ms c1 = Some (r, c')" by simp
      from 4(2) [OF _ White v refl False this] White
      have "keeps r c1 c'" "\<not> r \<longrightarrow> (\<forall>n \<in> set ms. c' n = Black)" by simp_all
      moreover have "c' m = Black" if "\<not> r" using keepsD(3) [OF \<open>keeps r c1 c'\<close> that] f(2) False by blast
      ultimately show ?thesis using f(1) False by (auto intro: keeps_trans)
    qed
  next
    case Gray
    with 4(4) show ?thesis by simp
  next
    case Black
    with 4(4) have "hc_loop fuel g ms c = Some (r, c')" by simp
    from 4(3) [OF _ _ this] Black have k: "keeps r c c'" "\<not> r \<longrightarrow> (\<forall>n \<in> set ms. c' n = Black)" by simp_all
    then show ?thesis using keepsD(3) [OF k(1)] Black by auto
  qed
qed simp_all

text \<open>A cycle is reported only if there is one: every grey node reaches the node being visited.\<close>

lemma hc_sound:
  "hc_visit fuel g n c = Some (True, c') \<Longrightarrow> c n = White \<Longrightarrow> \<forall>x. c x = Gray \<longrightarrow> (x, n) \<in> (edge_rel g)\<^sup>* \<Longrightarrow>
     \<exists>x. (x, x) \<in> (edge_rel g)\<^sup>+"
  "hc_loop fuel g ns c = Some (True, c') \<Longrightarrow> set ns \<subseteq> set (outs g u) \<Longrightarrow>
     \<forall>x. c x = Gray \<longrightarrow> (x, u) \<in> (edge_rel g)\<^sup>* \<Longrightarrow> \<exists>x. (x, x) \<in> (edge_rel g)\<^sup>+"
proof (induction fuel g n c and fuel g ns c arbitrary: c' and c' u rule: hc_visit_hc_loop.induct)
  case (2 fuel g n c)
  have "hc_loop fuel g (outs g n) (c(n := Gray)) = Some (True, c')"
    using 2(2) by (auto split: option.splits if_splits)
  moreover have "\<forall>x. (c(n := Gray)) x = Gray \<longrightarrow> (x, n) \<in> (edge_rel g)\<^sup>*" using 2(4) by auto
  ultimately show ?case by (rule 2(1) [OF _ subset_refl])
next
  case (4 fuel g m ms c)
  have um: "(u, m) \<in> edge_rel g" using 4(5) by (simp add: edge_rel_def)
  show ?case
  proof (cases "c m")
    case White
    with 4(4) obtain r1 c1 where v: "hc_visit fuel g m c = Some (r1, c1)"
      by (auto split: option.splits)
    have reach: "\<forall>x. c x = Gray \<longrightarrow> (x, m) \<in> (edge_rel g)\<^sup>*"
      using 4(6) um by (meson rtrancl.rtrancl_into_rtrancl)
    show ?thesis
    proof (cases r1)
      case True
      with v White reach show ?thesis using 4(1) [of c1] by simp
    next
      case False
      with White v 4(4) have l: "hc_loop fuel g ms c1 = Some (True, c')" by simp
      have "keeps False c c1" using hc_frame(1) [OF v White] False by simp
      then have "\<forall>x. c1 x = Gray \<longrightarrow> (x, u) \<in> (edge_rel g)\<^sup>*" using 4(6) keepsD(2) by blast
      with 4(2) [OF _ White v refl False l, of u] White 4(5) show ?thesis by simp
    qed
  next
    case Gray
    then have "(m, u) \<in> (edge_rel g)\<^sup>*" using 4(6) by blast
    then have "(m, m) \<in> (edge_rel g)\<^sup>+" using um by (rule rtrancl_into_trancl1)
    then show ?thesis by blast
  next
    case Black
    with 4(4) have l: "hc_loop fuel g ms c = Some (True, c')" by simp
    from 4(3) [OF _ _ l, of u] Black 4(5,6) show ?thesis by simp
  qed
qed simp_all

text \<open>Black nodes are closed under edges and lie on no cycle.\<close>

definition blacks_ok :: "ReasoningGraph \<Rightarrow> (int \<Rightarrow> color) \<Rightarrow> bool" where
  "blacks_ok g c \<longleftrightarrow> (\<forall>b. c b = Black \<longrightarrow> (b, b) \<notin> (edge_rel g)\<^sup>+ \<and> (\<forall>m \<in> set (outs g b). c m = Black))"

lemma blacks_closed: "(b, x) \<in> (edge_rel g)\<^sup>* \<Longrightarrow> blacks_ok g c \<Longrightarrow> c b = Black \<Longrightarrow> c x = Black"
  by (induction rule: rtrancl_induct) (auto simp: blacks_ok_def edge_rel_def)

lemma blacks_ok_gray: "c n = White \<Longrightarrow> blacks_ok g c \<Longrightarrow> blacks_ok g (c(n := Gray))"
  by (auto simp: blacks_ok_def)

lemma blacks_ok_black:
  assumes "blacks_ok g c" and "c n = Gray" and "\<forall>m \<in> set (outs g n). c m = Black"
  shows "blacks_ok g (c(n := Black))"
proof -
  have "(n, n) \<notin> (edge_rel g)\<^sup>+"
  proof
    assume "(n, n) \<in> (edge_rel g)\<^sup>+"
    then obtain m where m: "(n, m) \<in> edge_rel g" "(m, n) \<in> (edge_rel g)\<^sup>*" by (metis tranclD)
    have "c m = Black" using m(1) assms(3) by (simp add: edge_rel_def)
    with blacks_closed [OF m(2) assms(1)] have "c n = Black" by blast
    with assms(2) show False by simp
  qed
  with assms show ?thesis by (simp add: blacks_ok_def)
qed

lemma hc_blacks:
  "hc_visit fuel g n c = Some (False, c') \<Longrightarrow> c n = White \<Longrightarrow> blacks_ok g c \<Longrightarrow> blacks_ok g c'"
  "hc_loop fuel g ns c = Some (False, c') \<Longrightarrow> blacks_ok g c \<Longrightarrow> blacks_ok g c'"
proof (induction fuel g n c and fuel g ns c arbitrary: c' and c' rule: hc_visit_hc_loop.induct)
  case (2 fuel g n c)
  then obtain c1 where l: "hc_loop fuel g (outs g n) (c(n := Gray)) = Some (False, c1)" and c': "c' = c1(n := Black)"
    by (auto split: option.splits if_splits)
  have "blacks_ok g c1" using 2(1) [OF l] blacks_ok_gray 2(3,4) by blast
  moreover have k: "keeps False (c(n := Gray)) c1" "\<forall>m \<in> set (outs g n). c1 m = Black"
    using hc_frame(2) [OF l] by simp_all
  have "c1 n = Gray" using keepsD(2) [OF k(1)] by simp
  ultimately show ?case using blacks_ok_black k(2) c' by blast
next
  case (4 fuel g m ms c)
  show ?case
  proof (cases "c m")
    case White
    with 4(4) obtain c1 where v: "hc_visit fuel g m c = Some (False, c1)" and l: "hc_loop fuel g ms c1 = Some (False, c')"
      by (auto split: option.splits if_splits)
    have "blacks_ok g c1" using 4(1) [OF _ White v White 4(5)] White by simp
    with 4(2) [OF _ White v refl _ l] White show ?thesis by simp
  qed (use 4 in auto)
qed simp_all

text \<open>As much fuel as there are white nodes is enough.\<close>

lemma whites_gray: "c n = White \<Longrightarrow> n \<in> set (node_ids g) \<Longrightarrow> Suc (card (whites g (c(n := Gray)))) = card (whites g c)"
proof -
  assume a: "c n = White" "n \<in> set (node_ids g)"
  then have "whites g c = insert n (whites g (c(n := Gray)))" by (auto simp: whites_def)
  moreover have "n \<notin> whites g (c(n := Gray))" by (simp add: whites_def)
  ultimately show ?thesis by simp
qed

lemma whites_keeps: "keeps r c c' \<Longrightarrow> card (whites g c') \<le> card (whites g c)"
  by (rule card_mono) (auto simp: whites_def dest: keepsD(1))

lemma hc_fuel:
  "rg_ok g \<Longrightarrow> c n = White \<Longrightarrow> n \<in> set (node_ids g) \<Longrightarrow> card (whites g c) \<le> fuel \<Longrightarrow> hc_visit fuel g n c \<noteq> None"
  "rg_ok g \<Longrightarrow> set ns \<subseteq> set (node_ids g) \<Longrightarrow> card (whites g c) \<le> fuel \<Longrightarrow> hc_loop fuel g ns c \<noteq> None"
proof (induction fuel g n c and fuel g ns c rule: hc_visit_hc_loop.induct)
  case (1 g n c)
  then show ?case using whites_gray [of c n g] by simp
next
  case (2 fuel g n c)
  have "set (outs g n) \<subseteq> set (node_ids g)" using edge_rel_nodes [OF 2(2)] by (auto simp: edge_rel_def)
  moreover have "card (whites g (c(n := Gray))) \<le> fuel" using whites_gray [of c n g] 2(3-5) by simp
  ultimately have "hc_loop fuel g (outs g n) (c(n := Gray)) \<noteq> None" by (rule 2(1) [OF 2(2)])
  then show ?case by (simp del: not_None_eq split: option.splits)
next
  case (4 fuel g m ms c)
  show ?case
  proof (cases "c m")
    case White
    with 4 obtain r1 c1 where v: "hc_visit fuel g m c = Some (r1, c1)" by auto
    have "card (whites g c1) \<le> fuel" using hc_frame(1) [OF v White] whites_keeps 4(6) by (meson order_trans)
    with White v 4(2) [OF _ White v refl] 4(4,5) show ?thesis by auto
  qed (use 4 in auto)
qed simp_all

lemma hc_nodes_correct:
  assumes "rg_ok g" and "set ids \<subseteq> set (node_ids g)" and "card (whites g c) \<le> fuel"
    and "blacks_ok g c" and "\<forall>x. c x \<noteq> Gray"
  shows "\<exists>r. hc_nodes fuel g ids c = Some r \<and> (r \<longrightarrow> (\<exists>x. (x, x) \<in> (edge_rel g)\<^sup>+)) \<and>
    (\<not> r \<longrightarrow> (\<forall>x \<in> set ids. (x, x) \<notin> (edge_rel g)\<^sup>+))"
  using assms
proof (induction ids arbitrary: c)
  case (Cons n ids)
  show ?case
  proof (cases "c n = White")
    case True
    then obtain r c1 where v: "hc_visit fuel g n c = Some (r, c1)"
      using hc_fuel(1) [of g c n fuel] True Cons.prems(1-3) by auto
    show ?thesis
    proof (cases r)
      case True
      then show ?thesis
        using v \<open>c n = White\<close> hc_sound(1) [of fuel g n c c1] Cons.prems(5) by auto
    next
      case False
      have k: "keeps False c c1" "c1 n = Black" using hc_frame(1) [OF v True] False by simp_all
      have "blacks_ok g c1" using hc_blacks(1) [of fuel g n c c1] v True False Cons.prems(4) by simp
      moreover have "\<forall>x. c1 x \<noteq> Gray" using keepsD(2) [OF k(1)] Cons.prems(5) by simp
      moreover have "card (whites g c1) \<le> fuel" using whites_keeps [OF k(1)] Cons.prems(3) by (meson order_trans)
      ultimately have "\<exists>r. hc_nodes fuel g ids c1 = Some r \<and> (r \<longrightarrow> (\<exists>x. (x, x) \<in> (edge_rel g)\<^sup>+)) \<and>
          (\<not> r \<longrightarrow> (\<forall>x \<in> set ids. (x, x) \<notin> (edge_rel g)\<^sup>+))"
        using Cons.IH [of c1] Cons.prems(1,2) by simp
      moreover have "(n, n) \<notin> (edge_rel g)\<^sup>+" using \<open>blacks_ok g c1\<close> k(2) by (simp add: blacks_ok_def)
      ultimately show ?thesis using v True False by auto
    qed
  next
    case False
    then have "c n = Black" using Cons.prems(5) by (cases "c n") auto
    then show ?thesis using Cons False by (auto simp: blacks_ok_def)
  qed
qed auto

lemma HasCycle_iff:
  assumes "rg_built g"
  shows "HasCycle g = Some (\<exists>x. (x, x) \<in> (edge_rel g)\<^sup>+)"
proof -
  have ok: "rg_ok g" using assms by (rule rg_built_ok)
  have "card (whites g (\<lambda>_. White)) \<le> length (rg_nodes g)"
    using card_length [of "node_ids g"] by (simp add: whites_def node_ids_def)
  with hc_nodes_correct [OF ok subset_refl, of "\<lambda>_. White" "length (rg_nodes g)"] obtain r where
    r: "HasCycle g = Some r" "r \<longrightarrow> (\<exists>x. (x, x) \<in> (edge_rel g)\<^sup>+)"
      "\<not> r \<longrightarrow> (\<forall>x \<in> set (node_ids g). (x, x) \<notin> (edge_rel g)\<^sup>+)"
    by (auto simp: HasCycle_def blacks_ok_def)
  moreover have "x \<in> set (node_ids g)" if "(x, x) \<in> (edge_rel g)\<^sup>+" for x
    using tranclD [OF that] edge_rel_nodes [OF ok] by blast
  ultimately show ?thesis by auto
qed

text \<open>
  C8.
  Cycle detection is correct on every graph built with \<open>AddNode\<close> and \<open>AddEdge\<close>: \<open>HasCycle\<close>
  returns, and it answers true exactly when some node reaches itself along one or more edges.
\<close>
theorem HasCycle_correct:
  assumes "rg_built g"
  shows "HasCycle g = Some (\<exists>x. (x, x) \<in> (edge_rel g)\<^sup>+)"
  using assms by (rule HasCycle_iff)

definition sample_graph :: ReasoningGraph where
  "sample_graph =
     (let g = snd (AddNode ''p'' NodeTypePremise 1 None NewReasoningGraph);
          g = snd (AddNode ''q'' NodeTypeConclusion (1 / 2) None g)
      in g\<lparr>rg_edges := [\<lparr>le_FromNode = 0, le_ToNode = 1, le_EdgeType = ''supports'', le_Strength = 1, le_Metadata = []\<rparr>],
           rg_outgoing := [(0, [1]), (1, [])], rg_incoming := [(0, []), (1, [0])]\<rparr>)"

lemma sample_built: "rg_built sample_graph"
proof -
  let ?g = "snd (AddNode ''q'' NodeTypeConclusion (1 / 2) None (snd (AddNode ''p'' NodeTypePremise 1 None NewReasoningGraph)))"
  have "rg_built ?g" by (intro built_node built_new)
  moreover have "AddEdge 0 1 ''supports'' 1 None ?g = Ok sample_graph"
    by (simp add: AddEdge_def AddNode_def sample_graph_def NewReasoningGraph_def slice_at_def Let_def)
  ultimately show ?thesis by (rule built_edge)
qed

theorem HasCycle_correct_witness: "Some False = Some (\<exists>x. (x, x) \<in> (edge_rel sample_graph)\<^sup>+)"
proof -
  have "HasCycle sample_graph = Some False"
    by (simp add: HasCycle_def sample_graph_def AddNode_def NewReasoningGraph_def node_ids_def slice_at_def Let_def)
  then show ?thesis using HasCycle_correct [OF sample_built] by simp
qed

section \<open>Topological order\<close>

lemma deg_at_set: "deg_at (go_set k v d) x = (if x = k then v else deg_at d x)"
  by (simp add: deg_at_def)

text \<open>
  Relaxing the successors of a node lowers each degree by the number of edges, and enqueues
  exactly the nodes whose degree becomes zero.
\<close>

lemma ts_relax_spec:
  assumes "\<And>k. k \<in> set ms \<Longrightarrow> int (count_list ms k) \<le> deg_at d k" and "ts_relax ms d q = (d', q')"
  shows "(\<forall>k. deg_at d' k = deg_at d k - int (count_list ms k)) \<and>
    (\<exists>new. q' = q @ new \<and> distinct new \<and> set new = {k \<in> set ms. deg_at d k = int (count_list ms k)})"
  using assms
proof (induction ms arbitrary: d q)
  case (Cons m ms)
  define d1 where "d1 = go_set m (deg_at d m - 1) d"
  define q1 where "q1 = (if deg_at d1 m = 0 then q @ [m] else q)"
  have d1: "deg_at d1 k = (if k = m then deg_at d m - 1 else deg_at d k)" for k by (simp add: d1_def deg_at_set)
  have pre: "int (count_list ms k) \<le> deg_at d1 k" if "k \<in> set ms" for k
    using Cons.prems(1) [of k] that by (auto simp: d1 split: if_splits)
  have run: "ts_relax ms d1 q1 = (d', q')" using Cons.prems(2) by (simp add: Let_def d1_def q1_def)
  from Cons.IH [OF pre run] obtain new where
    deg: "\<forall>k. deg_at d' k = deg_at d1 k - int (count_list ms k)" and
    new: "q' = q1 @ new" "distinct new" "set new = {k \<in> set ms. deg_at d1 k = int (count_list ms k)}" by blast
  have "\<forall>k. deg_at d' k = deg_at d k - int (count_list (m # ms) k)" using deg d1 by simp
  moreover have "\<exists>new. q' = q @ new \<and> distinct new \<and> set new = {k \<in> set (m # ms). deg_at d k = int (count_list (m # ms) k)}"
  proof (cases "deg_at d1 m = 0")
    case True
    have "m \<notin> set ms"
    proof
      assume "m \<in> set ms"
      then have "0 < count_list ms m" by (metis count_list_0_iff gr0I)
      with pre [OF \<open>m \<in> set ms\<close>] True show False by simp
    qed
    moreover have "set (m # new) = {k \<in> set (m # ms). deg_at d k = int (count_list (m # ms) k)}"
      using new(3) True d1 \<open>m \<notin> set ms\<close> count_notin [of m ms] by auto
    ultimately show ?thesis using new True by (intro exI [of _ "m # new"]) (simp add: q1_def)
  next
    case False
    have "set new = {k \<in> set (m # ms). deg_at d k = int (count_list (m # ms) k)}"
      using new(3) False d1 count_notin [of m ms] by auto
    then show ?thesis using new False by (simp add: q1_def)
  qed
  ultimately show ?case by blast
qed simp

definition ts_inv :: "ReasoningGraph \<Rightarrow> (int \<times> int) list \<Rightarrow> int list \<Rightarrow> int list \<Rightarrow> bool" where
  "ts_inv g d queue result \<longleftrightarrow>
     distinct (result @ queue) \<and> set (result @ queue) \<subseteq> set (node_ids g) \<and>
     (\<forall>k \<in> set (node_ids g). deg_at d k = int (length (filter (\<lambda>p. p \<notin> set result) (ins g k)))) \<and>
     (\<forall>k \<in> set (node_ids g). k \<in> set (result @ queue) \<longleftrightarrow> deg_at d k = 0) \<and>
     (\<forall>i < length result. set (ins g (result ! i)) \<subseteq> set (take i result))"

lemma count_ins_outs:
  assumes "rg_ok g"
  shows "count_list (ins g k) n = count_list (outs g n) k"
proof -
  have "count_list (map le_FromNode (filter (\<lambda>e. le_ToNode e = k) es)) n =
      count_list (map le_ToNode (filter (\<lambda>e. le_FromNode e = n) es)) k" for es
    by (induction es) auto
  then show ?thesis using assms by (simp add: rg_ok_def)
qed

lemma length_filter_snoc:
  "n \<notin> set R \<Longrightarrow> length (filter (\<lambda>p. p \<notin> set R) xs) =
     length (filter (\<lambda>p. p \<notin> set (R @ [n])) xs) + count_list xs n"
  by (induction xs) auto

lemma ts_inv_step:
  assumes ok: "rg_ok g" and inv: "ts_inv g d (n # queue) result" and r: "ts_relax (outs g n) d queue = (d', queue')"
  shows "ts_inv g d' queue' (result @ [n])"
proof -
  have n: "n \<notin> set result" "n \<in> set (node_ids g)" "deg_at d n = 0"
    using inv by (auto simp: ts_inv_def)
  have deg: "deg_at d k = int (length (filter (\<lambda>p. p \<notin> set (result @ [n])) (ins g k))) + int (count_list (outs g n) k)"
    if "k \<in> set (node_ids g)" for k
    using inv that length_filter_snoc [OF n(1), of "ins g k"] count_ins_outs [OF ok, of k n]
    by (simp add: ts_inv_def)
  have sub: "set (outs g n) \<subseteq> set (node_ids g)" using edge_rel_nodes [OF ok] by (auto simp: edge_rel_def)
  have "int (count_list (outs g n) k) \<le> deg_at d k" if "k \<in> set (outs g n)" for k
    using deg [of k] sub that by auto
  from ts_relax_spec [OF this r] obtain new where
    d': "\<forall>k. deg_at d' k = deg_at d k - int (count_list (outs g n) k)" and
    q': "queue' = queue @ new" and new: "distinct new" "set new = {k \<in> set (outs g n). deg_at d k = int (count_list (outs g n) k)}"
    by blast
  have pos: "0 < count_list (outs g n) k" if "k \<in> set (outs g n)" for k
    using that by (metis count_list_0_iff gr0I)
  have fresh: "k \<notin> set (result @ n # queue)" if "k \<in> set new" for k
    using inv that new(2) pos [of k] sub by (auto simp: ts_inv_def)
  have deg': "deg_at d' k = int (length (filter (\<lambda>p. p \<notin> set (result @ [n])) (ins g k)))"
    if "k \<in> set (node_ids g)" for k using deg [OF that] d' by simp
  have zero: "k \<in> set ((result @ [n]) @ queue') \<longleftrightarrow> deg_at d' k = 0" if k: "k \<in> set (node_ids g)" for k
  proof -
    have old: "k \<in> set (result @ n # queue) \<longleftrightarrow> deg_at d k = 0" using inv k by (simp add: ts_inv_def)
    have "deg_at d' k = 0 \<longleftrightarrow> deg_at d k = int (count_list (outs g n) k)" using d' by simp
    also have "\<dots> \<longleftrightarrow> deg_at d k = 0 \<or> k \<in> set new"
      using new(2) deg [OF k] pos [of k] count_notin [of k "outs g n"] by (cases "k \<in> set (outs g n)") auto
    finally show ?thesis using old q' by auto
  qed
  have "set (ins g n) \<subseteq> set result"
    using inv n by (auto simp: ts_inv_def filter_empty_conv)
  then have pred: "set (ins g ((result @ [n]) ! i)) \<subseteq> set (take i (result @ [n]))" if "i < length (result @ [n])" for i
    using inv that by (cases "i < length result") (auto simp: ts_inv_def nth_append)
  have "distinct ((result @ [n]) @ queue')"
    using inv fresh new(1) q' by (auto simp: ts_inv_def)
  moreover have "set ((result @ [n]) @ queue') \<subseteq> set (node_ids g)"
    using inv new(2) sub q' by (auto simp: ts_inv_def)
  ultimately show ?thesis using deg' zero pred by (simp add: ts_inv_def)
qed

lemma ts_loop_inv:
  "rg_ok g \<Longrightarrow> ts_inv g d queue result \<Longrightarrow> \<exists>d'. ts_inv g d' [] (ts_loop g d queue result)"
proof (induction g d queue result rule: ts_loop.induct)
  case (2 g d n queue result)
  obtain d' queue' where r: "ts_relax (outs g n) d queue = (d', queue')" by (cases "ts_relax (outs g n) d queue")
  from 2(1) [OF r [symmetric] refl 2(2) ts_inv_step [OF 2(2,3) r]] r show ?case by simp
qed auto

lemma go_get_map_key: "go_get (map (\<lambda>(k, _). (k, f k)) xs) k = map_option (\<lambda>_. f k) (go_get xs k)"
  by (induction xs) auto

lemma ts_init:
  assumes "rg_ok g"
  shows "ts_inv g (inDegrees g) (map fst (filter (\<lambda>(_, degree). degree = 0) (inDegrees g))) []"
proof -
  have deg: "deg_at (inDegrees g) k = int (length (ins g k))" if "k \<in> set (node_ids g)" for k
  proof -
    have "go_get (inDegrees g) k = map_option (\<lambda>_. int (length (ins g k))) (go_get (rg_nodes g) k)"
      unfolding inDegrees_def by (rule go_get_map_key)
    then show ?thesis using that node_ids_get [of g k] by (auto simp: deg_at_def)
  qed
  have fst: "map fst (inDegrees g) = node_ids g" by (simp add: inDegrees_def node_ids_def comp_def split_def)
  have "distinct (map fst (filter (\<lambda>(_, degree). degree = 0) (inDegrees g)))"
    using assms fst by (metis distinct_map_filter go_map_ok_def node_ids_def rg_ok_def)
  moreover have "k \<in> set (map fst (filter (\<lambda>(_, degree). degree = 0) (inDegrees g))) \<longleftrightarrow> length (ins g k) = 0"
    if "k \<in> set (node_ids g)" for k
  proof -
    have "(k, x) \<in> set (inDegrees g) \<longleftrightarrow> x = int (length (ins g k))" for x
      using that by (force simp: inDegrees_def node_ids_def)
    moreover have "k \<in> set (map fst (filter (\<lambda>(_, degree). degree = 0) (inDegrees g))) \<longleftrightarrow> (k, 0) \<in> set (inDegrees g)"
      by force
    ultimately show ?thesis by simp
  qed
  moreover have "set (map fst (filter (\<lambda>(_, degree). degree = 0) (inDegrees g))) \<subseteq> set (node_ids g)"
    using fst by (metis filter_is_subset image_mono set_map)
  ultimately show ?thesis using deg by (simp add: ts_inv_def)
qed

text \<open>A finite set of nodes in which every node has a predecessor contains a cycle.\<close>

lemma predecessors_cycle:
  assumes "finite U" and "U \<noteq> {}" and "\<And>x. x \<in> U \<Longrightarrow> \<exists>y \<in> U. (y, x) \<in> E"
  shows "\<exists>x. (x, x) \<in> E\<^sup>+"
proof (rule ccontr)
  assume no: "\<nexists>x. (x, x) \<in> E\<^sup>+"
  let ?R = "E \<inter> U \<times> U"
  have "acyclic ?R" using no trancl_mono [of _ ?R E] by (auto simp: acyclic_def)
  moreover have "finite ?R" using assms(1) by simp
  ultimately have "wf ?R" by (intro finite_acyclic_wf)
  then obtain z where "z \<in> U" "\<And>y. (y, z) \<in> ?R \<Longrightarrow> y \<notin> U" using assms(2) by (metis wfE_min ex_in_conv)
  with assms(3) [of z] show False by blast
qed

lemma ts_inv_done:
  assumes "rg_ok g" and "ts_inv g d [] result" and "\<nexists>x. (x, x) \<in> (edge_rel g)\<^sup>+"
  shows "set result = set (node_ids g)"
proof (rule ccontr)
  let ?U = "set (node_ids g) - set result"
  assume "set result \<noteq> set (node_ids g)"
  then have "?U \<noteq> {}" using assms(2) by (auto simp: ts_inv_def)
  moreover have "\<exists>y \<in> ?U. (y, x) \<in> edge_rel g" if "x \<in> ?U" for x
  proof -
    have "filter (\<lambda>p. p \<notin> set result) (ins g x) \<noteq> []"
      using assms(2) that by (auto simp: ts_inv_def)
    then obtain y where y: "y \<in> set (ins g x)" "y \<notin> set result" by (auto simp: filter_empty_conv)
    then have e: "(y, x) \<in> edge_rel g" using edge_rel_ins [OF assms(1)] by blast
    then show ?thesis using edge_rel_nodes [OF assms(1) e] y(2) by blast
  qed
  ultimately show False using predecessors_cycle [of ?U "edge_rel g"] assms(3) by simp
qed

text \<open>
  C9.
  Topological sorting is correct on every graph built with \<open>AddNode\<close> and \<open>AddEdge\<close>: it
  returns nil exactly on a cyclic graph, and otherwise a list of all nodes without repetition
  in which every edge leads from an earlier to a later node.
\<close>
theorem TopologicalSort_correct:
  assumes "rg_built g"
  shows "case TopologicalSort g of
      None \<Rightarrow> False
    | Some None \<Rightarrow> (\<exists>x. (x, x) \<in> (edge_rel g)\<^sup>+)
    | Some (Some xs) \<Rightarrow> (\<nexists>x. (x, x) \<in> (edge_rel g)\<^sup>+) \<and> distinct xs \<and> set xs = set (node_ids g) \<and>
        (\<forall>i j. i < length xs \<and> j < length xs \<and> (xs ! i, xs ! j) \<in> edge_rel g \<longrightarrow> i < j)"
proof (cases "\<exists>x. (x, x) \<in> (edge_rel g)\<^sup>+")
  case True
  then have "HasCycle g = Some True" using HasCycle_iff [OF assms] by simp
  with True show ?thesis by (simp add: TopologicalSort_def)
next
  case False
  then have hc: "HasCycle g = Some False" using HasCycle_iff [OF assms] by simp
  have ok: "rg_ok g" using assms by (rule rg_built_ok)
  define xs where "xs = ts_loop g (inDegrees g) (map fst (filter (\<lambda>(_, degree). degree = 0) (inDegrees g))) []"
  obtain d where inv: "ts_inv g d [] xs" using ts_loop_inv [OF ok ts_init [OF ok]] xs_def by blast
  have set: "set xs = set (node_ids g)" using ts_inv_done [OF ok inv False] .
  have dist: "distinct xs" using inv by (simp add: ts_inv_def)
  have "length xs = length (rg_nodes g)"
    using set dist ok distinct_card [of xs] distinct_card [of "node_ids g"]
    by (simp add: rg_ok_def go_map_ok_def node_ids_def)
  then have "TopologicalSort g = Some (Some xs)"
    using hc by (simp add: TopologicalSort_def Let_def xs_def)
  moreover have "i < j" if "i < length xs" "j < length xs" "(xs ! i, xs ! j) \<in> edge_rel g" for i j
  proof -
    have "xs ! i \<in> set (take j xs)"
      using inv that edge_rel_ins [OF ok] by (auto simp: ts_inv_def)
    then obtain k where "k < j" "xs ! k = xs ! i" using \<open>j < length xs\<close> by (auto simp: in_set_conv_nth)
    then show ?thesis using dist \<open>i < length xs\<close> \<open>j < length xs\<close> by (simp add: nth_eq_iff_index_eq)
  qed
  ultimately show ?thesis using False dist set by simp
qed

theorem TopologicalSort_correct_witness:
  "case TopologicalSort sample_graph of
      None \<Rightarrow> False | Some None \<Rightarrow> False | Some (Some xs) \<Rightarrow> distinct xs \<and> set xs = {0, 1}"
proof -
  have "TopologicalSort sample_graph = Some (Some [0, 1])"
    by (simp add: TopologicalSort_def HasCycle_def inDegrees_def sample_graph_def AddNode_def NewReasoningGraph_def
        node_ids_def slice_at_def Let_def deg_at_def)
  moreover have "set (node_ids sample_graph) = {0, 1}"
    by (simp add: node_ids_def sample_graph_def AddNode_def NewReasoningGraph_def Let_def)
  ultimately show ?thesis using TopologicalSort_correct [OF sample_built] by simp
qed

section \<open>Path search\<close>

text \<open>The extensions of \<open>path\<close>, which ends in \<open>cur\<close>, that the search follows to \<open>e\<close>.\<close>

inductive fp_ext :: "ReasoningGraph \<Rightarrow> int \<Rightarrow> int \<Rightarrow> int \<Rightarrow> int list \<Rightarrow> int list \<Rightarrow> bool" for g e M where
  ext_stop: "fp_ext g e M e path []"
| ext_go: "cur \<noteq> e \<Longrightarrow> \<not> (M > 0 \<and> int (length path) \<ge> M) \<Longrightarrow> n \<in> set (outs g cur) \<Longrightarrow> n \<notin> set path \<Longrightarrow>
    fp_ext g e M n (path @ [n]) ext \<Longrightarrow> fp_ext g e M cur path (n # ext)"

inductive_simps fp_ext_Nil [simp]: "fp_ext g e M cur path []"
inductive_simps fp_ext_Cons [simp]: "fp_ext g e M cur path (n # ext)"

lemma fp_ext_target: "fp_ext g e M e path ext \<longleftrightarrow> ext = []"
  by (cases ext) auto

lemma fp_search:
  "fp_dfs fuel g e M cur path visited = Some ps \<Longrightarrow> set visited = set path \<Longrightarrow>
     set ps = {path @ ext | ext. fp_ext g e M cur path ext}"
  "fp_loop fuel g e M ns path visited = Some ps \<Longrightarrow> set visited = set path \<Longrightarrow>
     set ps = {path @ n # ext | n ext. n \<in> set ns \<and> n \<notin> set path \<and> fp_ext g e M n (path @ [n]) ext}"
proof (induction fuel g e M cur path visited and fuel g e M ns path visited arbitrary: ps and ps
    rule: fp_dfs_fp_loop.induct)
  case (2 fuel g e M cur path visited)
  show ?case
  proof (cases "cur = e")
    case True
    with 2(2) show ?thesis by (auto simp: fp_ext_target)
  next
    case ne: False
    show ?thesis
    proof (cases "M > 0 \<and> int (length path) \<ge> M")
      case True
      have "\<not> fp_ext g e M cur path ext" for ext using ne True by (cases ext) auto
      then show ?thesis using 2(2) ne True by simp
    next
      case False
      have l: "fp_loop fuel g e M (outs g cur) path visited = Some ps" using 2(2) ne False by (simp split: if_splits)
      have "{path @ ext | ext. fp_ext g e M cur path ext} =
          {path @ n # ext | n ext. n \<in> set (outs g cur) \<and> n \<notin> set path \<and> fp_ext g e M n (path @ [n]) ext}"
        using ne False by (auto elim: fp_ext.cases)
      with 2(1) [OF ne False l 2(3)] show ?thesis by simp
    qed
  qed
next
  case (4 fuel g e M n ns path visited)
  show ?case
  proof (cases "n \<in> set visited")
    case True
    with 4(4) have "fp_loop fuel g e M ns path visited = Some ps" by simp
    from 4(1) [OF True this 4(5)] True 4(5) show ?thesis by auto
  next
    case False
    with 4(4) obtain p1 p2 where d: "fp_dfs fuel g e M n (path @ [n]) (n # visited) = Some p1"
      and l: "fp_loop fuel g e M ns path visited = Some p2" and ps: "ps = p1 @ p2"
      by (auto split: option.splits)
    have "set p1 = {(path @ [n]) @ ext | ext. fp_ext g e M n (path @ [n]) ext}"
      using 4(2) [OF False d] 4(5) by auto
    moreover have "set p2 = {path @ m # ext | m ext. m \<in> set ns \<and> m \<notin> set path \<and> fp_ext g e M m (path @ [m]) ext}"
      using 4(3) [OF False d l 4(5)] .
    ultimately show ?thesis using False 4(5) ps by auto
  qed
qed simp_all

lemma fp_fuel:
  "rg_ok g \<Longrightarrow> cur \<in> set (node_ids g) \<Longrightarrow> card (set (node_ids g) - set visited) < fuel \<Longrightarrow>
     fp_dfs fuel g e M cur path visited \<noteq> None"
  "rg_ok g \<Longrightarrow> set ns \<subseteq> set (node_ids g) \<Longrightarrow> card (set (node_ids g) - set visited) \<le> fuel \<Longrightarrow>
     fp_loop fuel g e M ns path visited \<noteq> None"
proof (induction fuel g e M cur path visited and fuel g e M ns path visited rule: fp_dfs_fp_loop.induct)
  case (2 fuel g e M cur path visited)
  have "set (outs g cur) \<subseteq> set (node_ids g)" using edge_rel_nodes [OF 2(2)] by (auto simp: edge_rel_def)
  then show ?case using 2 by (auto split: if_splits)
next
  case (4 fuel g e M n ns path visited)
  show ?case
  proof (cases "n \<in> set visited")
    case False
    have "n \<in> set (node_ids g) - set visited" using False 4(5) by simp
    then have "card (set (node_ids g) - set (n # visited)) < card (set (node_ids g) - set visited)"
      by (intro psubset_card_mono) auto
    then have "card (set (node_ids g) - set (n # visited)) < fuel" using 4(6) by simp
    then have "fp_dfs fuel g e M n (path @ [n]) (n # visited) \<noteq> None" using 4(2) [OF False 4(4)] 4(5) by simp
    moreover from this obtain p1 where p1: "fp_dfs fuel g e M n (path @ [n]) (n # visited) = Some p1" by blast
    have "fp_loop fuel g e M ns path visited \<noteq> None" using 4(3) [OF False p1 4(4)] 4(5,6) by simp
    ultimately show ?thesis using False by auto
  qed (use 4 in simp)
qed simp_all

text \<open>A simple path in the graph: consecutive nodes are joined by edges and no node repeats.\<close>

definition walk :: "ReasoningGraph \<Rightarrow> int list \<Rightarrow> bool" where
  "walk g p = successively (\<lambda>u v. (u, v) \<in> edge_rel g) p"

lemma fp_ext_iff:
  assumes "cur \<in> set path"
  shows "fp_ext g e M cur path ext \<longleftrightarrow>
    walk g (cur # ext) \<and> distinct (cur # ext) \<and> set ext \<inter> set path = {} \<and> last (cur # ext) = e \<and>
    (M > 0 \<and> ext \<noteq> [] \<longrightarrow> int (length path + length ext) \<le> M)"
  using assms
proof (induction ext arbitrary: cur path)
  case Nil
  then show ?case by (auto simp: walk_def)
next
  case (Cons n ext)
  have IH: "fp_ext g e M n (path @ [n]) ext \<longleftrightarrow>
      walk g (n # ext) \<and> distinct (n # ext) \<and> set ext \<inter> set (path @ [n]) = {} \<and> last (n # ext) = e \<and>
      (M > 0 \<and> ext \<noteq> [] \<longrightarrow> int (length (path @ [n]) + length ext) \<le> M)"
    using Cons.IH [of n "path @ [n]"] by simp
  have walk: "walk g (cur # n # ext) \<longleftrightarrow> n \<in> set (outs g cur) \<and> walk g (n # ext)"
    by (simp add: walk_def edge_rel_def)
  have last: "last (n # ext) \<in> set (n # ext)" by (rule last_in_set) simp
  show ?case
  proof
    assume "fp_ext g e M cur path (n # ext)"
    then show "walk g (cur # n # ext) \<and> distinct (cur # n # ext) \<and> set (n # ext) \<inter> set path = {} \<and>
        last (cur # n # ext) = e \<and> (M > 0 \<and> n # ext \<noteq> [] \<longrightarrow> int (length path + length (n # ext)) \<le> M)"
      using IH walk Cons.prems by (cases "ext = []") auto
  next
    assume r: "walk g (cur # n # ext) \<and> distinct (cur # n # ext) \<and> set (n # ext) \<inter> set path = {} \<and>
        last (cur # n # ext) = e \<and> (M > 0 \<and> n # ext \<noteq> [] \<longrightarrow> int (length path + length (n # ext)) \<le> M)"
    then have "cur \<noteq> e" using last by auto
    then show "fp_ext g e M cur path (n # ext)" using IH walk r by auto
  qed
qed

lemma FindPaths_iff:
  assumes "rg_built g" and "start \<in> set (node_ids g)" and "end' \<in> set (node_ids g)"
  shows "\<exists>ps. FindPaths start end' maxLength g = Some ps \<and>
    (\<forall>p. p \<in> set ps \<longleftrightarrow> p \<noteq> [] \<and> hd p = start \<and> last p = end' \<and> distinct p \<and> walk g p \<and>
       (0 < maxLength \<longrightarrow> int (length p) \<le> maxLength))"
proof -
  have ok: "rg_ok g" using assms(1) by (rule rg_built_ok)
  have "card (set (node_ids g) - set [start]) < Suc (length (rg_nodes g))"
    using card_mono [of "set (node_ids g)" "set (node_ids g) - {start}"] card_length [of "node_ids g"]
    by (simp add: node_ids_def)
  from fp_fuel(1) [OF ok assms(2) this] obtain ps where
    ps: "fp_dfs (Suc (length (rg_nodes g))) g end' maxLength start [start] [start] = Some ps" by blast
  have run: "FindPaths start end' maxLength g = Some ps"
    using ps assms(2,3) node_ids_get [of g start] node_ids_get [of g end']
    by (simp add: FindPaths_def del: fp_dfs.simps) fastforce
  have "p \<in> set ps \<longleftrightarrow> p \<noteq> [] \<and> hd p = start \<and> last p = end' \<and> distinct p \<and> walk g p \<and>
       (0 < maxLength \<longrightarrow> int (length p) \<le> maxLength)" for p
  proof -
    have "p \<in> set ps \<longleftrightarrow> (\<exists>ext. p = start # ext \<and> fp_ext g end' maxLength start [start] ext)"
      using fp_search(1) [OF ps refl] by auto
    then show ?thesis using fp_ext_iff [of start "[start]" g end' maxLength] by (cases p) auto
  qed
  with run show ?thesis by blast
qed

text \<open>
  C13.
  Path search is sound and complete on every graph built with \<open>AddNode\<close> and \<open>AddEdge\<close>:
  \<open>FindPaths\<close> returns, and the paths it returns are exactly the paths from the start to the
  end node along edges that repeat no node and, when a positive maximum is given, have at
  most that many nodes.
\<close>
theorem FindPaths_correct:
  assumes "rg_built g" and "start \<in> set (node_ids g)" and "end' \<in> set (node_ids g)"
  shows "\<exists>ps. FindPaths start end' maxLength g = Some ps \<and>
    (\<forall>p. p \<in> set ps \<longleftrightarrow> p \<noteq> [] \<and> hd p = start \<and> last p = end' \<and> distinct p \<and> walk g p \<and>
       (0 < maxLength \<longrightarrow> int (length p) \<le> maxLength))"
  using assms by (rule FindPaths_iff)

theorem FindPaths_correct_witness:
  "\<exists>ps. FindPaths 0 1 0 sample_graph = Some ps \<and> [0, 1] \<in> set ps"
proof -
  have ids: "0 \<in> set (node_ids sample_graph)" "1 \<in> set (node_ids sample_graph)"
    by (simp_all add: node_ids_def sample_graph_def AddNode_def NewReasoningGraph_def Let_def)
  have "walk sample_graph [0, 1]"
    by (simp add: walk_def edge_rel_def sample_graph_def slice_at_def Let_def)
  with FindPaths_correct [OF sample_built ids, of 0] show ?thesis by fastforce
qed

end
