(* ===== verification/Reasoning_Tree.thy ===== *)
theory Reasoning_Tree
  imports Go_Prelude
begin

text \<open>
  The tree of reasoning steps (\<open>techniques/reasoning/reasoning_tree.go\<close>): construction, the
  path to a node, leaves and statistics.  Nodes are kept in a map by identifier, with links
  to the parent and to the children; the loop of \<open>GetPath\<close> follows parent links and is a
  partial function here, proved to return on every tree the operations build.
\<close>

section \<open>Data\<close>

datatype NodeState = NodeStateOpen | NodeStateActive | NodeStateEvaluated | NodeStatePruned | NodeStateTerminal

record ReasoningNode =
  rn_ID :: int
  rn_Content :: string
  rn_ParentID :: "int option"
  rn_ChildrenIDs :: "int list"
  rn_Depth :: int
  rn_Score :: real
  rn_State :: NodeState
  rn_Metadata :: "(string \<times> gval) list"

record ReasoningTree =
  rt_nodes :: "(int \<times> ReasoningNode) list"
  rt_rootID :: "int option"
  rt_nextID :: int
  rt_MaxDepth :: int

definition IsLeaf :: "ReasoningNode \<Rightarrow> bool" where
  "IsLeaf n \<longleftrightarrow> length (rn_ChildrenIDs n) = 0"

definition IsRoot :: "ReasoningNode \<Rightarrow> bool" where
  "IsRoot n \<longleftrightarrow> rn_ParentID n = None"

definition node_AddChild :: "int \<Rightarrow> ReasoningNode \<Rightarrow> ReasoningNode" where
  "node_AddChild childID n =
     (if childID \<in> set (rn_ChildrenIDs n) then n else n\<lparr>rn_ChildrenIDs := rn_ChildrenIDs n @ [childID]\<rparr>)"

section \<open>Operations\<close>

definition NewReasoningTree :: ReasoningTree where
  "NewReasoningTree = \<lparr>rt_nodes = [], rt_rootID = None, rt_nextID = 0, rt_MaxDepth = 0\<rparr>"

definition CreateRoot :: "string \<Rightarrow> (string \<times> gval) list option \<Rightarrow> ReasoningTree \<Rightarrow> int \<times> ReasoningTree" where
  "CreateRoot content metadata t =
     (let nodeID = rt_nextID t;
          md = (case metadata of None \<Rightarrow> [] | Some md \<Rightarrow> md);
          node = \<lparr>rn_ID = nodeID, rn_Content = content, rn_ParentID = None, rn_ChildrenIDs = [], rn_Depth = 0,
                  rn_Score = 0, rn_State = NodeStateOpen, rn_Metadata = md\<rparr>
      in (nodeID, t\<lparr>rt_nextID := nodeID + 1, rt_nodes := go_set nodeID node (rt_nodes t), rt_rootID := Some nodeID\<rparr>))"

definition AddChild ::
    "int \<Rightarrow> string \<Rightarrow> real \<Rightarrow> (string \<times> gval) list option \<Rightarrow> ReasoningTree \<Rightarrow> (int \<times> ReasoningTree) outcome" where
  "AddChild parentID content score metadata t =
     (case go_get (rt_nodes t) parentID of
        None \<Rightarrow> Err (Errorf ''parent node %d not found'' [GInt parentID] None)
      | Some parent \<Rightarrow>
          let childID = rt_nextID t;
              md = (case metadata of None \<Rightarrow> [] | Some md \<Rightarrow> md);
              child = \<lparr>rn_ID = childID, rn_Content = content, rn_ParentID = Some parentID, rn_ChildrenIDs = [],
                       rn_Depth = rn_Depth parent + 1, rn_Score = score, rn_State = NodeStateOpen,
                       rn_Metadata = md\<rparr>;
              nodes = go_set childID child (rt_nodes t);
              nodes = go_set parentID (node_AddChild childID parent) nodes
          in Ok (childID, t\<lparr>rt_nextID := childID + 1, rt_nodes := nodes,
               rt_MaxDepth := (if rn_Depth child > rt_MaxDepth t then rn_Depth child else rt_MaxDepth t)\<rparr>))"

definition PruneNode :: "int \<Rightarrow> ReasoningTree \<Rightarrow> ReasoningTree" where
  "PruneNode nodeID t =
     (case go_get (rt_nodes t) nodeID of
        None \<Rightarrow> t
      | Some n \<Rightarrow> t\<lparr>rt_nodes := go_set nodeID (n\<lparr>rn_State := NodeStatePruned\<rparr>) (rt_nodes t)\<rparr>)"

text \<open>\<open>nil\<close> is \<open>None\<close>.\<close>

definition GetChildren :: "int \<Rightarrow> ReasoningTree \<Rightarrow> ReasoningNode list option" where
  "GetChildren nodeID t =
     (case go_get (rt_nodes t) nodeID of
        None \<Rightarrow> None
      | Some n \<Rightarrow> Some (List.map_filter (go_get (rt_nodes t)) (rn_ChildrenIDs n)))"

text \<open>The loop of \<open>GetPath\<close>; \<open>None\<close> is a loop that does not end.\<close>

partial_function (option) path_loop ::
    "(int \<times> ReasoningNode) list \<Rightarrow> int option \<Rightarrow> ReasoningNode list \<Rightarrow> ReasoningNode list option" where
  "path_loop nodes currentID path =
     (case currentID of
        None \<Rightarrow> Some path
      | Some i \<Rightarrow>
          (case go_get nodes i of
             None \<Rightarrow> Some path
           | Some node \<Rightarrow> path_loop nodes (rn_ParentID node) (node # path)))"

declare path_loop.simps [code]

definition GetPath :: "int \<Rightarrow> ReasoningTree \<Rightarrow> ReasoningNode list option" where
  "GetPath nodeID t = path_loop (rt_nodes t) (Some nodeID) []"

definition GetPathText :: "int \<Rightarrow> string \<Rightarrow> ReasoningTree \<Rightarrow> string option" where
  "GetPathText nodeID delimiter t =
     map_option (\<lambda>path. strings_Join (map rn_Content path) delimiter) (GetPath nodeID t)"

definition GetLeaves :: "ReasoningTree \<Rightarrow> ReasoningNode list" where
  "GetLeaves t = filter IsLeaf (map snd (rt_nodes t))"

definition GetBestLeaf :: "ReasoningTree \<Rightarrow> ReasoningNode option" where
  "GetBestLeaf t =
     (case GetLeaves t of
        [] \<Rightarrow> None
      | l # ls \<Rightarrow> Some (fold (\<lambda>leaf best. if rn_Score leaf > rn_Score best then leaf else best) ls l))"

record TreeStatistics =
  ts_TotalNodes :: int
  ts_MaxDepth :: int
  ts_NumLeaves :: int
  ts_NumEvaluated :: int
  ts_NumPruned :: int
  ts_AvgScore :: real
  ts_BestScore :: real

definition GetStatistics :: "ReasoningTree \<Rightarrow> TreeStatistics" where
  "GetStatistics t =
     (let leaves = GetLeaves t; ns = map snd (rt_nodes t);
          avgScore = (if leaves \<noteq> [] then sum_list (map rn_Score leaves) / real (length leaves) else 0);
          bestScore = fold (\<lambda>leaf best. if rn_Score leaf > best then rn_Score leaf else best) leaves 0
      in \<lparr>ts_TotalNodes = int (length ns), ts_MaxDepth = rt_MaxDepth t, ts_NumLeaves = int (length leaves),
          ts_NumEvaluated = int (length (filter (\<lambda>n. rn_State n = NodeStateEvaluated) ns)),
          ts_NumPruned = int (length (filter (\<lambda>n. rn_State n = NodeStatePruned) ns)),
          ts_AvgScore = avgScore, ts_BestScore = bestScore\<rparr>)"

section \<open>Well-formed trees\<close>

text \<open>
  A node is stored under its identifier, which is below the next one.  The parent of a node
  exists, is older, is one level higher and lists the node as a child; every listed child
  names the node as its parent; a node without parent has depth 0; the recorded maximum
  bounds the depths.
\<close>

definition node_ok :: "ReasoningTree \<Rightarrow> int \<Rightarrow> ReasoningNode \<Rightarrow> bool" where
  "node_ok t k n \<longleftrightarrow> rn_ID n = k \<and> k < rt_nextID t \<and> 0 \<le> rn_Depth n \<and> rn_Depth n \<le> rt_MaxDepth t \<and> distinct (rn_ChildrenIDs n) \<and>
     (case rn_ParentID n of
        None \<Rightarrow> rn_Depth n = 0
      | Some p \<Rightarrow> p < k \<and> (\<exists>pn. go_get (rt_nodes t) p = Some pn \<and> rn_Depth n = rn_Depth pn + 1 \<and>
          k \<in> set (rn_ChildrenIDs pn))) \<and>
     (\<forall>c \<in> set (rn_ChildrenIDs n). \<exists>cn. go_get (rt_nodes t) c = Some cn \<and> rn_ParentID cn = Some k)"

definition rt_ok :: "ReasoningTree \<Rightarrow> bool" where
  "rt_ok t \<longleftrightarrow> 0 \<le> rt_MaxDepth t \<and> (\<forall>k n. go_get (rt_nodes t) k = Some n \<longrightarrow> node_ok t k n)"

lemma rt_okD: "rt_ok t \<Longrightarrow> go_get (rt_nodes t) k = Some n \<Longrightarrow> node_ok t k n"
  by (simp add: rt_ok_def)

lemma rt_ok_new: "rt_ok NewReasoningTree"
  by (simp add: rt_ok_def NewReasoningTree_def)

lemma next_unused: "rt_ok t \<Longrightarrow> go_get (rt_nodes t) (rt_nextID t) = None"
  by (cases "go_get (rt_nodes t) (rt_nextID t)") (auto simp: rt_ok_def node_ok_def)

lemma rt_ok_CreateRoot:
  assumes "rt_ok t"
  shows "rt_ok (snd (CreateRoot c md t))"
proof -
  note fresh = next_unused [OF assms]
  let ?t = "snd (CreateRoot c md t)"
  have get: "go_get (rt_nodes ?t) k = (if k = rt_nextID t then go_get (rt_nodes ?t) k else go_get (rt_nodes t) k)" for k
    by (simp add: CreateRoot_def Let_def)
  have "node_ok ?t k n" if "go_get (rt_nodes ?t) k = Some n" for k n
  proof (cases "k = rt_nextID t")
    case True
    then show ?thesis using that assms by (auto simp: CreateRoot_def Let_def node_ok_def rt_ok_def)
  next
    case False
    with that have "go_get (rt_nodes t) k = Some n" using get [of k] by simp
    from rt_okD [OF assms this] fresh show ?thesis
      by (fastforce simp: node_ok_def CreateRoot_def Let_def split: option.splits)
  qed
  then show ?thesis using assms by (simp add: rt_ok_def CreateRoot_def Let_def)
qed

text \<open>What \<open>AddChild\<close> stores: the child, the parent with one more child, and the rest unchanged.\<close>

lemma AddChild_get:
  assumes "rt_ok t" and "AddChild p c sc md t = Ok (i, t')"
  obtains pn where "go_get (rt_nodes t) p = Some pn" and "i = rt_nextID t" and "rt_nextID t' = i + 1" and "p < i"
    and "\<exists>cn. go_get (rt_nodes t') i = Some cn \<and> rn_ID cn = i \<and> rn_ParentID cn = Some p \<and> rn_ChildrenIDs cn = [] \<and>
      rn_Depth cn = rn_Depth pn + 1"
    and "go_get (rt_nodes t') p = Some (pn\<lparr>rn_ChildrenIDs := rn_ChildrenIDs pn @ [i]\<rparr>)"
    and "\<And>k. k \<noteq> i \<Longrightarrow> k \<noteq> p \<Longrightarrow> go_get (rt_nodes t') k = go_get (rt_nodes t) k"
    and "rt_MaxDepth t' = max (rt_MaxDepth t) (rn_Depth pn + 1)"
proof -
  from assms(2) obtain pn where pn: "go_get (rt_nodes t) p = Some pn"
    by (auto simp: AddChild_def split: option.splits)
  have ok: "node_ok t p pn" by (rule rt_okD [OF assms(1) pn])
  then have lt: "p < rt_nextID t" by (simp add: node_ok_def)
  have "rt_nextID t \<notin> set (rn_ChildrenIDs pn)" using ok next_unused [OF assms(1)] by (force simp: node_ok_def)
  then have add: "node_AddChild (rt_nextID t) pn = pn\<lparr>rn_ChildrenIDs := rn_ChildrenIDs pn @ [rt_nextID t]\<rparr>"
    by (simp add: node_AddChild_def)
  show thesis
    by (rule that [OF pn]) (use assms(2) pn lt add in \<open>auto simp: AddChild_def Let_def max_def\<close>)
qed

lemma rt_ok_AddChild:
  assumes ok: "rt_ok t" and a: "AddChild p c sc md t = Ok (i, t')"
  shows "rt_ok t'"
proof -
  from AddChild_get [OF ok a] obtain pn cn where pn: "go_get (rt_nodes t) p = Some pn" and i: "i = rt_nextID t"
    and nx: "rt_nextID t' = i + 1" and pi: "p < i"
    and cn: "go_get (rt_nodes t') i = Some cn" "rn_ID cn = i" "rn_ParentID cn = Some p" "rn_ChildrenIDs cn = []"
      "rn_Depth cn = rn_Depth pn + 1"
    and p': "go_get (rt_nodes t') p = Some (pn\<lparr>rn_ChildrenIDs := rn_ChildrenIDs pn @ [i]\<rparr>)"
    and rest: "\<And>k. k \<noteq> i \<Longrightarrow> k \<noteq> p \<Longrightarrow> go_get (rt_nodes t') k = go_get (rt_nodes t) k"
    and md: "rt_MaxDepth t' = max (rt_MaxDepth t) (rn_Depth pn + 1)" by metis
  have fresh: "go_get (rt_nodes t) i = None" using next_unused [OF ok] i by simp
  have keep: "\<exists>n'. go_get (rt_nodes t') k = Some n' \<and> rn_ParentID n' = rn_ParentID n \<and> rn_Depth n' = rn_Depth n \<and>
      set (rn_ChildrenIDs n) \<subseteq> set (rn_ChildrenIDs n')" if "go_get (rt_nodes t) k = Some n" for k n
    using that rest [of k] p' pn fresh by (cases "k = p"; cases "k = i") auto
  have old: "node_ok t' k n'" if n: "go_get (rt_nodes t) k = Some n"
    and n': "n' = n \<or> k = p \<and> n' = n\<lparr>rn_ChildrenIDs := rn_ChildrenIDs n @ [i]\<rparr>" for k n n'
  proof -
    have nk: "node_ok t k n" by (rule rt_okD [OF ok n])
    have par: "\<exists>pn. go_get (rt_nodes t') q = Some pn \<and> rn_Depth n = rn_Depth pn + 1 \<and> k \<in> set (rn_ChildrenIDs pn)"
      if "rn_ParentID n = Some q" for q
      using nk that keep [of q] by (fastforce simp: node_ok_def)
    have ch: "\<exists>cn. go_get (rt_nodes t') x = Some cn \<and> rn_ParentID cn = Some k" if "x \<in> set (rn_ChildrenIDs n)" for x
      using nk that keep [of x] by (fastforce simp: node_ok_def)
    have "i \<notin> set (rn_ChildrenIDs n)" using nk fresh by (auto simp: node_ok_def)
    then show ?thesis
      using nk n' par ch i nx md cn(1,3) by (auto simp: node_ok_def split: option.splits)
  qed
  have new: "node_ok t' i cn"
    using cn p' pi nx md rt_okD [OF ok pn] by (auto simp: node_ok_def)
  have "node_ok t' k n" if n: "go_get (rt_nodes t') k = Some n" for k n
  proof (cases "k = i")
    case True
    then show ?thesis using n cn(1) new by simp
  next
    case False
    then show ?thesis using n rest [of k] p' pn old [of k] by (cases "k = p") auto
  qed
  moreover have "0 \<le> rt_MaxDepth t'" using md ok by (auto simp: rt_ok_def)
  ultimately show ?thesis by (simp add: rt_ok_def)
qed

lemma rt_ok_PruneNode:
  assumes "rt_ok t"
  shows "rt_ok (PruneNode i t)"
proof (cases "go_get (rt_nodes t) i")
  case (Some n)
  have keep: "\<exists>n'. go_get (rt_nodes (PruneNode i t)) k = Some n' \<and> rn_ParentID n' = rn_ParentID m \<and>
      rn_Depth n' = rn_Depth m \<and> rn_ChildrenIDs n' = rn_ChildrenIDs m" if "go_get (rt_nodes t) k = Some m" for k m
    using Some that by (auto simp: PruneNode_def)
  have "node_ok (PruneNode i t) k m'" if m: "go_get (rt_nodes t) k = Some m"
      and m': "m' = m \<or> m' = m\<lparr>rn_State := NodeStatePruned\<rparr>" for k m m'
  proof -
    have nk: "node_ok t k m" by (rule rt_okD [OF assms m])
    have "\<exists>pn. go_get (rt_nodes (PruneNode i t)) q = Some pn \<and> rn_Depth m = rn_Depth pn + 1 \<and> k \<in> set (rn_ChildrenIDs pn)"
      if "rn_ParentID m = Some q" for q
      using nk that keep [of q] by (fastforce simp: node_ok_def)
    moreover have "\<exists>cn. go_get (rt_nodes (PruneNode i t)) x = Some cn \<and> rn_ParentID cn = Some k"
      if "x \<in> set (rn_ChildrenIDs m)" for x
      using nk that keep [of x] by (fastforce simp: node_ok_def)
    moreover have "rt_nextID (PruneNode i t) = rt_nextID t" "rt_MaxDepth (PruneNode i t) = rt_MaxDepth t"
      using Some by (simp_all add: PruneNode_def)
    ultimately show ?thesis using nk m' by (auto simp: node_ok_def split: option.splits)
  qed
  then show ?thesis using assms Some by (auto simp: rt_ok_def PruneNode_def split: if_splits)
qed (simp add: PruneNode_def assms)

inductive rt_built :: "ReasoningTree \<Rightarrow> bool" where
  tree_new: "rt_built NewReasoningTree"
| tree_root: "rt_built t \<Longrightarrow> rt_built (snd (CreateRoot c md t))"
| tree_child: "rt_built t \<Longrightarrow> AddChild p c sc md t = Ok (i, t') \<Longrightarrow> rt_built t'"
| tree_prune: "rt_built t \<Longrightarrow> rt_built (PruneNode i t)"

lemma rt_built_ok: "rt_built t \<Longrightarrow> rt_ok t"
  by (induction rule: rt_built.induct) (auto intro: rt_ok_new rt_ok_CreateRoot rt_ok_AddChild rt_ok_PruneNode)

section \<open>The path to a node\<close>

text \<open>A list of nodes from a root downwards, each the parent of the next.\<close>

fun descends :: "ReasoningNode list \<Rightarrow> bool" where
  "descends (u # v # path) \<longleftrightarrow> rn_ParentID v = Some (rn_ID u) \<and> descends (v # path)"
| "descends _ \<longleftrightarrow> True"

lemma path_loop_spec:
  assumes "rt_ok t" and "go_get (rt_nodes t) k = Some n"
    and "descends path" and "path = [] \<or> rn_ParentID (hd path) = Some k"
  shows "\<exists>pre. path_loop (rt_nodes t) (Some k) path = Some (pre @ n # path) \<and>
    int (length pre) = rn_Depth n \<and> descends (pre @ n # path) \<and> IsRoot (hd (pre @ n # path))"
proof -
  have "0 \<le> rn_Depth n" using rt_okD [OF assms(1,2)] by (simp add: node_ok_def)
  then have "\<exists>d. rn_Depth n = int d" by (metis nonneg_int_cases)
  then obtain d where "rn_Depth n = int d" by blast
  then show ?thesis using assms
  proof (induction d arbitrary: k n path)
    case (0 k n path)
    have nk: "node_ok t k n" by (rule rt_okD [OF 0(2,3)])
    have root: "rn_ParentID n = None"
    proof (cases "rn_ParentID n")
      case (Some p)
      then obtain pn where "go_get (rt_nodes t) p = Some pn" "rn_Depth n = rn_Depth pn + 1"
        using nk by (auto simp: node_ok_def)
      then show ?thesis using rt_okD [OF 0(2)] 0(1) by (fastforce simp: node_ok_def)
    qed simp
    have "path_loop (rt_nodes t) (Some k) path = path_loop (rt_nodes t) None (n # path)"
      using 0(3) root by (subst path_loop.simps) simp
    also have "\<dots> = Some (n # path)" by (subst path_loop.simps) simp
    finally show ?case
      using root nk 0(1,4,5) by (intro exI [of _ "[]"]) (cases path; simp add: IsRoot_def node_ok_def)
  next
    case (Suc d k n path)
    have nk: "node_ok t k n" by (rule rt_okD [OF Suc.prems(2,3)])
    have desc: "descends (n # path)" using Suc.prems(4,5) nk by (cases path) (auto simp: node_ok_def)
    from nk Suc.prems(1) obtain p pn where p: "rn_ParentID n = Some p" "go_get (rt_nodes t) p = Some pn"
        "rn_Depth n = rn_Depth pn + 1"
      by (auto simp: node_ok_def split: option.splits)
    have "path_loop (rt_nodes t) (Some k) path = path_loop (rt_nodes t) (Some p) (n # path)"
      using Suc.prems(3) p(1) by (subst path_loop.simps) simp
    moreover from Suc.IH [of pn p "n # path"] Suc.prems(1,2) desc p obtain pre where
      "path_loop (rt_nodes t) (Some p) (n # path) = Some (pre @ pn # n # path)"
      "int (length pre) = rn_Depth pn" "descends (pre @ pn # n # path)" "IsRoot (hd (pre @ pn # n # path))"
      by auto
    ultimately show ?case using p(3) by (intro exI [of _ "pre @ [pn]"]) simp
  qed
qed

text \<open>
  On every tree built with the operations, \<open>GetPath\<close> of a node returns: the result is a list
  of nodes that starts at a root, ends in the node and leads from each node to one of its
  children, and its length is the depth of the node plus one, at most the recorded maximum
  depth plus one.
\<close>
lemma GetPath_correct:
  assumes "rt_built t" and "go_get (rt_nodes t) k = Some n"
  shows "\<exists>path. GetPath k t = Some path \<and> path \<noteq> [] \<and> IsRoot (hd path) \<and> last path = n \<and> descends path \<and>
    int (length path) = rn_Depth n + 1 \<and> int (length path) \<le> rt_MaxDepth t + 1"
proof -
  have ok: "rt_ok t" using assms(1) by (rule rt_built_ok)
  from path_loop_spec [OF ok assms(2), of "[]"] obtain pre where
    "GetPath k t = Some (pre @ [n])" "int (length pre) = rn_Depth n" "descends (pre @ [n])" "IsRoot (hd (pre @ [n]))"
    by (auto simp: GetPath_def)
  moreover have "rn_Depth n \<le> rt_MaxDepth t" using rt_okD [OF ok assms(2)] by (simp add: node_ok_def)
  ultimately show ?thesis by (intro exI [of _ "pre @ [n]"]) simp
qed

lemma fold_best:
  "fold (\<lambda>leaf best. if rn_Score leaf > rn_Score best then leaf else best) ls l \<in> insert l (set ls) \<and>
   (\<forall>x \<in> insert l (set ls). rn_Score x \<le>
      rn_Score (fold (\<lambda>leaf best. if rn_Score leaf > rn_Score best then leaf else best) ls l))"
proof (induction ls arbitrary: l)
  case (Cons a ls)
  show ?case using Cons [of "if rn_Score a > rn_Score l then a else l"] by fastforce
qed simp

lemma GetBestLeaf_maximal:
  "GetBestLeaf t = Some b \<Longrightarrow> b \<in> set (GetLeaves t) \<and> (\<forall>l \<in> set (GetLeaves t). rn_Score l \<le> rn_Score b)"
  using fold_best by (auto simp: GetBestLeaf_def split: list.splits)

end
