(* ===== verification/Registry.thy ===== *)
theory Registry
  imports Go_Prelude
begin

text \<open>
  The in-process agent registry (\<open>adapter/registry/registry.go\<close>): registration, heartbeats and
  pruning of stale agents as operations on a map, each under the registry's lock, and the
  protocol between \<open>Stop\<close> and the background \<open>pruneLoop\<close> as a step relation over the lock,
  the cancelled context and the channel \<open>pruneDone\<close>.

  A registration is a value here: the pointer the caller keeps is not modelled.  The zero
  \<open>time.Time\<close> is \<open>None\<close>.
\<close>

section \<open>The table of agents\<close>

record AgentRegistration =
  ag_Name :: string
  ag_Endpoint :: string
  ag_Capabilities :: "(string \<times> gval) list"
  ag_Metadata :: "(string \<times> gval) list"
  ag_RegisteredAt :: "time option"
  ag_LastHeartbeat :: "time option"

record AgentRegistry =
  reg_agents :: "(string \<times> AgentRegistration) list"
  reg_heartbeatInterval :: duration
  reg_heartbeatTimeout :: duration

definition NewAgentRegistry :: "duration \<Rightarrow> duration \<Rightarrow> AgentRegistry" where
  "NewAgentRegistry heartbeatInterval heartbeatTimeout =
     \<lparr>reg_agents = [], reg_heartbeatInterval = heartbeatInterval, reg_heartbeatTimeout = heartbeatTimeout\<rparr>"

definition zero_or :: "time \<Rightarrow> time option \<Rightarrow> time option" where
  "zero_or now t = (case t of None \<Rightarrow> Some now | Some x \<Rightarrow> Some x)"

definition Register :: "time \<Rightarrow> AgentRegistration \<Rightarrow> AgentRegistry \<Rightarrow> AgentRegistry outcome" where
  "Register now registration r =
     (if ag_Name registration = [] then Err (Errorf ''agent name cannot be empty'' [] None)
      else
        let registration = registration\<lparr>ag_RegisteredAt := zero_or now (ag_RegisteredAt registration),
              ag_LastHeartbeat := zero_or now (ag_LastHeartbeat registration)\<rparr>
        in Ok (r\<lparr>reg_agents := go_set (ag_Name registration) registration (reg_agents r)\<rparr>))"

definition Unregister :: "string \<Rightarrow> AgentRegistry \<Rightarrow> AgentRegistry" where
  "Unregister agentName r = r\<lparr>reg_agents := go_delete agentName (reg_agents r)\<rparr>"

definition reg_Lookup :: "string \<Rightarrow> AgentRegistry \<Rightarrow> AgentRegistration option" where
  "reg_Lookup agentName r = go_get (reg_agents r) agentName"

definition ListAgents :: "AgentRegistry \<Rightarrow> AgentRegistration list" where
  "ListAgents r = map snd (reg_agents r)"

definition Heartbeat :: "time \<Rightarrow> string \<Rightarrow> AgentRegistry \<Rightarrow> AgentRegistry outcome" where
  "Heartbeat now agentName r =
     (case go_get (reg_agents r) agentName of
        None \<Rightarrow> Err (Errorf ''agent '%s' is not registered'' [GStr agentName] None)
      | Some ag \<Rightarrow> Ok (r\<lparr>reg_agents := go_set agentName (ag\<lparr>ag_LastHeartbeat := Some now\<rparr>) (reg_agents r)\<rparr>))"

text \<open>
  \<open>now.Sub(LastHeartbeat) > heartbeatTimeout\<close>; a registered agent has a heartbeat time (below),
  and the difference to the zero time is the largest duration.
\<close>

definition stale :: "time \<Rightarrow> AgentRegistry \<Rightarrow> AgentRegistration \<Rightarrow> bool" where
  "stale now r ag = (case ag_LastHeartbeat ag of None \<Rightarrow> True | Some t \<Rightarrow> now - t > reg_heartbeatTimeout r)"

definition staleAgents :: "time \<Rightarrow> AgentRegistry \<Rightarrow> string list" where
  "staleAgents now r = map fst (filter (\<lambda>(name, registration). stale now r registration) (reg_agents r))"

definition PruneStaleAgents :: "time \<Rightarrow> AgentRegistry \<Rightarrow> int \<times> AgentRegistry" where
  "PruneStaleAgents now r =
     fold (\<lambda>name (pruned, r). (pruned + 1, r\<lparr>reg_agents := go_delete name (reg_agents r)\<rparr>)) (staleAgents now r) (0, r)"

definition reg_Len :: "AgentRegistry \<Rightarrow> int" where
  "reg_Len r = int (length (reg_agents r))"

definition reg_ok :: "AgentRegistry \<Rightarrow> bool" where
  "reg_ok r \<longleftrightarrow> go_map_ok (reg_agents r) \<and>
     (\<forall>(name, ag) \<in> set (reg_agents r). ag_Name ag = name \<and> name \<noteq> [] \<and> ag_LastHeartbeat ag \<noteq> None)"

lemma prune_fold:
  "fold (\<lambda>name (pruned, r). (pruned + 1, r\<lparr>reg_agents := go_delete name (reg_agents r)\<rparr>)) names (p, r) =
     (p + int (length names), r\<lparr>reg_agents := filter (\<lambda>(k, _). k \<notin> set names) (reg_agents r)\<rparr>)"
proof (induction names arbitrary: p r)
  case (Cons n names)
  have "filter (\<lambda>(k, _). k \<notin> set names) (go_delete n (reg_agents r)) =
      filter (\<lambda>(k, _). k \<notin> set (n # names)) (reg_agents r)"
    by (auto simp: AList.delete_eq intro: filter_cong)
  with Cons show ?case by simp
qed simp

lemma go_map_ok_fst_filter:
  "go_map_ok m \<Longrightarrow> (k, v) \<in> set m \<Longrightarrow> k \<in> fst ` set (filter P m) \<longleftrightarrow> P (k, v)"
  by (force simp: go_map_ok_def dest: eq_key_imp_eq_value)

lemma prune_filter:
  assumes "go_map_ok (reg_agents r)"
  shows "PruneStaleAgents now r =
    (int (length (filter (\<lambda>(name, ag). stale now r ag) (reg_agents r))),
     r\<lparr>reg_agents := filter (\<lambda>(name, ag). \<not> stale now r ag) (reg_agents r)\<rparr>)"
proof -
  have "filter (\<lambda>(k, _). k \<notin> set (staleAgents now r)) (reg_agents r) =
      filter (\<lambda>(name, ag). \<not> stale now r ag) (reg_agents r)"
    using go_map_ok_fst_filter [OF assms, of _ _ "\<lambda>(name, ag). stale now r ag"]
    by (intro filter_cong refl) (auto simp: staleAgents_def simp del: set_filter)
  then show ?thesis by (simp add: PruneStaleAgents_def prune_fold) (simp add: staleAgents_def)
qed

section \<open>Sequences of calls\<close>

datatype reg_call =
    CRegister time AgentRegistration
  | CUnregister string
  | CHeartbeat time string
  | CPrune time

fun reg_do :: "reg_call \<Rightarrow> AgentRegistry \<Rightarrow> AgentRegistry" where
  "reg_do (CRegister now a) r = (case Register now a r of Ok r' \<Rightarrow> r' | _ \<Rightarrow> r)"
| "reg_do (CUnregister n) r = Unregister n r"
| "reg_do (CHeartbeat now n) r = (case Heartbeat now n r of Ok r' \<Rightarrow> r' | _ \<Rightarrow> r)"
| "reg_do (CPrune now) r = snd (PruneStaleAgents now r)"

lemma go_set_mem: "(k', v') \<in> set (go_set k v m) \<Longrightarrow> (k', v') = (k, v) \<or> (k', v') \<in> set m"
  by (induction m) (auto split: if_splits)

lemma reg_ok_do: "reg_ok r \<Longrightarrow> reg_ok (reg_do c r)"
proof (cases c)
  case (CRegister now a)
  assume "reg_ok r"
  with CRegister show ?thesis
    by (auto simp: reg_ok_def Register_def Let_def zero_or_def dest!: go_set_mem split: option.splits)
next
  case (CUnregister n)
  assume "reg_ok r"
  with CUnregister show ?thesis by (auto simp: reg_ok_def Unregister_def AList.delete_eq)
next
  case (CHeartbeat now n)
  assume "reg_ok r"
  with CHeartbeat show ?thesis
    by (auto simp: reg_ok_def Heartbeat_def dest!: go_set_mem go_get_Some_mem split: option.splits)
next
  case (CPrune now)
  assume "reg_ok r"
  with CPrune show ?thesis by (auto simp: reg_ok_def prune_filter)
qed

text \<open>
  \<open>alive name t timeout cs\<close>: after the last recorded sign of life at \<open>t\<close>, the calls \<open>cs\<close> never
  unregister the agent, and every pruning reads a clock at most \<open>timeout\<close> after the last sign
  of life before it (a heartbeat, or a registration without an older heartbeat time).
\<close>

fun alive :: "string \<Rightarrow> time \<Rightarrow> duration \<Rightarrow> reg_call list \<Rightarrow> bool" where
  "alive name t timeout [] \<longleftrightarrow> True"
| "alive name t timeout (CRegister now a # cs) \<longleftrightarrow>
     alive name (if ag_Name a = name then (case ag_LastHeartbeat a of None \<Rightarrow> now | Some x \<Rightarrow> x) else t) timeout cs"
| "alive name t timeout (CUnregister n # cs) \<longleftrightarrow> n \<noteq> name \<and> alive name t timeout cs"
| "alive name t timeout (CHeartbeat now n # cs) \<longleftrightarrow> alive name (if n = name then now else t) timeout cs"
| "alive name t timeout (CPrune now # cs) \<longleftrightarrow> now - t \<le> timeout \<and> alive name t timeout cs"

lemma alive_kept:
  assumes "reg_ok r" and "name \<noteq> []" and "reg_Lookup name r = Some ag" and "ag_LastHeartbeat ag = Some t"
    and "alive name t (reg_heartbeatTimeout r) cs"
  shows "\<exists>ag'. reg_Lookup name (fold reg_do cs r) = Some ag'"
  using assms
proof (induction cs arbitrary: r ag t)
  case (Cons c cs)
  have ok: "reg_ok (reg_do c r)" using Cons.prems(1) by (rule reg_ok_do)
  have "\<exists>ag' t'. reg_Lookup name (reg_do c r) = Some ag' \<and> ag_LastHeartbeat ag' = Some t' \<and>
      reg_heartbeatTimeout (reg_do c r) = reg_heartbeatTimeout r \<and> alive name t' (reg_heartbeatTimeout r) cs"
  proof (cases c)
    case (CRegister now a)
    with Cons.prems show ?thesis
      by (auto simp: Register_def Let_def reg_Lookup_def zero_or_def split: option.splits)
  next
    case (CUnregister n)
    with Cons.prems show ?thesis by (auto simp: Unregister_def reg_Lookup_def)
  next
    case (CHeartbeat now n)
    with Cons.prems show ?thesis
      by (cases "n = name") (auto simp: Heartbeat_def reg_Lookup_def split: option.splits)
  next
    case (CPrune now)
    with Cons.prems show ?thesis
      by (auto simp: prune_filter reg_ok_def reg_Lookup_def go_get_filter stale_def)
  qed
  then obtain ag' t' where "reg_Lookup name (reg_do c r) = Some ag'" "ag_LastHeartbeat ag' = Some t'"
    "reg_heartbeatTimeout (reg_do c r) = reg_heartbeatTimeout r" "alive name t' (reg_heartbeatTimeout r) cs" by blast
  then show ?case using Cons.IH [OF ok Cons.prems(2)] by simp
qed simp

lemma reg_timeout_do: "reg_ok r \<Longrightarrow> reg_heartbeatTimeout (reg_do c r) = reg_heartbeatTimeout r"
  by (cases c)
    (auto simp: Register_def Unregister_def Heartbeat_def prune_filter reg_ok_def Let_def split: option.splits)

lemma reg_run:
  "reg_ok r \<Longrightarrow> reg_ok (fold reg_do cs r) \<and> reg_heartbeatTimeout (fold reg_do cs r) = reg_heartbeatTimeout r"
  by (induction cs arbitrary: r) (simp_all add: reg_ok_do reg_timeout_do)

text \<open>
  Agents that keep sending heartbeats stay registered: from any state of the registry in
  which the agent is listed, whatever other calls are interleaved, the agent can still be
  looked up as long as it is not unregistered and every pruning comes at most the heartbeat
  timeout after its last sign of life.
\<close>
lemma registry_keeps_alive:
  assumes "r = fold reg_do cs0 (NewAgentRegistry interval timeout)"
    and "reg_Lookup name r = Some ag" and "ag_LastHeartbeat ag = Some t"
    and "alive name t timeout cs"
  shows "\<exists>ag'. reg_Lookup name (fold reg_do cs r) = Some ag'"
proof -
  have "reg_ok r" "reg_heartbeatTimeout r = timeout"
    using reg_run [of "NewAgentRegistry interval timeout" cs0] assms(1)
    by (simp_all add: NewAgentRegistry_def reg_ok_def)
  moreover have "name \<noteq> []" using \<open>reg_ok r\<close> assms(2) by (auto simp: reg_ok_def reg_Lookup_def dest!: go_get_Some_mem)
  ultimately show ?thesis using alive_kept [of r name ag t cs] assms by simp
qed

definition sample_registration :: AgentRegistration where
  "sample_registration = \<lparr>ag_Name = ''a'', ag_Endpoint = ''tcp://x'', ag_Capabilities = [], ag_Metadata = [],
     ag_RegisteredAt = None, ag_LastHeartbeat = None\<rparr>"

text \<open>
  Pruning is exact: it removes exactly the agents whose last heartbeat is older than the
  timeout, keeps every other registration as it is, and returns the number of removed agents.
\<close>
lemma prune_exact:
  assumes "r = fold reg_do cs (NewAgentRegistry interval timeout)" and "PruneStaleAgents now r = (n, r')"
  shows "reg_Lookup name r' =
      (case reg_Lookup name r of
         None \<Rightarrow> None
       | Some ag \<Rightarrow> (case ag_LastHeartbeat ag of
           None \<Rightarrow> None | Some t \<Rightarrow> if now - t > timeout then None else Some ag)) \<and>
    n = reg_Len r - reg_Len r'"
proof -
  have ok: "reg_ok r" "reg_heartbeatTimeout r = timeout"
    using reg_run [of "NewAgentRegistry interval timeout" cs] assms(1)
    by (simp_all add: NewAgentRegistry_def reg_ok_def)
  have p: "n = int (length (filter (\<lambda>(name, ag). stale now r ag) (reg_agents r)))"
    "reg_agents r' = filter (\<lambda>(name, ag). \<not> stale now r ag) (reg_agents r)"
    using assms(2) ok(1) prune_filter [of r now] by (auto simp: reg_ok_def)
  have "length (filter (\<lambda>(name, ag). stale now r ag) (reg_agents r)) +
      length (filter (\<lambda>(name, ag). \<not> stale now r ag) (reg_agents r)) = length (reg_agents r)"
    using sum_length_filter_compl [of "\<lambda>(name, ag). stale now r ag" "reg_agents r"] by (simp add: split_def)
  then have "n = reg_Len r - reg_Len r'" by (simp add: reg_Len_def p)
  moreover have "go_map_ok (reg_agents r)" using ok(1) by (simp add: reg_ok_def)
  ultimately show ?thesis
    by (auto simp: reg_Lookup_def p(2) go_get_filter stale_def ok(2) split: option.splits)
qed

section \<open>Stopping the background task\<close>

text \<open>
  The two goroutines at a call of \<open>Stop\<close> on a started registry.  \<open>Stop\<close> takes the lock,
  cancels the context, waits for \<open>pruneDone\<close> and only then releases the lock (it is deferred).
  \<open>pruneLoop\<close> waits in its \<open>select\<close>; on a tick it calls \<open>PruneStaleAgents\<close>, which takes the
  lock; on cancellation it returns and closes \<open>pruneDone\<close>.
\<close>

datatype stop_pc = StopLock | StopCancel | StopWait | StopReturned
datatype loop_pc = LoopSelect | LoopLock | LoopPrune | LoopReturned
datatype owner = Free | ByStop | ByLoop

record proto =
  pr_stop :: stop_pc
  pr_loop :: loop_pc
  pr_mu :: owner
  pr_cancelled :: bool
  pr_pruneDone :: bool \<comment> \<open>the channel is closed\<close>

inductive proto_step :: "proto \<Rightarrow> proto \<Rightarrow> bool" where
  stop_lock: "pr_stop s = StopLock \<Longrightarrow> pr_mu s = Free \<Longrightarrow> proto_step s (s\<lparr>pr_stop := StopCancel, pr_mu := ByStop\<rparr>)"
| stop_cancel: "pr_stop s = StopCancel \<Longrightarrow> proto_step s (s\<lparr>pr_stop := StopWait, pr_cancelled := True\<rparr>)"
| stop_return: "pr_stop s = StopWait \<Longrightarrow> pr_pruneDone s \<Longrightarrow> proto_step s (s\<lparr>pr_stop := StopReturned, pr_mu := Free\<rparr>)"
| loop_tick: "pr_loop s = LoopSelect \<Longrightarrow> proto_step s (s\<lparr>pr_loop := LoopLock\<rparr>)"
| loop_lock: "pr_loop s = LoopLock \<Longrightarrow> pr_mu s = Free \<Longrightarrow> proto_step s (s\<lparr>pr_loop := LoopPrune, pr_mu := ByLoop\<rparr>)"
| loop_unlock: "pr_loop s = LoopPrune \<Longrightarrow> proto_step s (s\<lparr>pr_loop := LoopSelect, pr_mu := Free\<rparr>)"
| loop_return: "pr_loop s = LoopSelect \<Longrightarrow> pr_cancelled s \<Longrightarrow> proto_step s (s\<lparr>pr_loop := LoopReturned, pr_pruneDone := True\<rparr>)"

inductive_cases proto_stepE: "proto_step s t"

definition proto_init :: "proto \<Rightarrow> bool" where
  "proto_init s \<longleftrightarrow> s = \<lparr>pr_stop = StopLock, pr_loop = LoopSelect, pr_mu = Free, pr_cancelled = False, pr_pruneDone = False\<rparr>"

text \<open>
  The lock is held by at most one of the two and only in its critical section; the channel is
  closed exactly when the loop has returned, and the loop returns only after the cancellation.
\<close>

definition proto_inv :: "proto \<Rightarrow> bool" where
  "proto_inv s \<longleftrightarrow>
     (pr_mu s = ByStop) = (pr_stop s = StopCancel \<or> pr_stop s = StopWait) \<and>
     (pr_mu s = ByLoop) = (pr_loop s = LoopPrune) \<and>
     pr_pruneDone s = (pr_loop s = LoopReturned) \<and>
     pr_cancelled s = (pr_stop s = StopWait \<or> pr_stop s = StopReturned) \<and>
     (pr_loop s = LoopReturned \<longrightarrow> pr_cancelled s) \<and> (pr_stop s = StopReturned \<longrightarrow> pr_loop s = LoopReturned)"

lemma proto_inv_step: "proto_inv s \<Longrightarrow> proto_step s t \<Longrightarrow> proto_inv t"
  by (erule proto_stepE) (auto simp: proto_inv_def)

interpretation stop_protocol: inductive_invariant proto_init proto_step proto_inv
  by unfold_locales (simp add: proto_init_def proto_inv_def, rule proto_inv_step)

definition stuck :: "proto \<Rightarrow> bool" where
  "stuck s \<longleftrightarrow> pr_stop s = StopWait \<and> pr_loop s = LoopLock"

lemma stuck_no_step: "proto_inv s \<Longrightarrow> stuck s \<Longrightarrow> \<not> proto_step s t"
  by (auto simp: stuck_def proto_inv_def elim!: proto_stepE)

lemma progress:
  assumes "proto_inv s" and "\<not> stuck s" and "pr_stop s \<noteq> StopReturned"
  shows "\<exists>t. proto_step s t"
proof (cases "pr_stop s")
  case StopLock
  show ?thesis
  proof (cases "pr_mu s")
    case Free
    then show ?thesis using StopLock stop_lock by blast
  next
    case ByLoop
    then show ?thesis using assms(1) loop_unlock by (auto simp: proto_inv_def)
  next
    case ByStop
    then show ?thesis using assms(1) StopLock by (simp add: proto_inv_def)
  qed
next
  case StopWait
  show ?thesis
  proof (cases "pr_loop s")
    case LoopReturned
    then show ?thesis using StopWait assms(1) stop_return by (auto simp: proto_inv_def)
  qed (use StopWait assms in \<open>auto simp: stuck_def intro: loop_tick loop_unlock\<close>)
qed (use assms(3) stop_cancel in auto)

text \<open>
  \<open>Stop\<close> can deadlock: there is a reachable state in which \<open>Stop\<close> holds the lock and waits for
  the background task while the task waits for the lock, no step is possible, and the lock is
  never released; it is the only kind of reachable state in which \<open>Stop\<close> has not returned and
  no step is possible.
\<close>
lemma registry_stop_deadlock:
  "(\<exists>s. reach proto_init proto_step s \<and> stuck s \<and> pr_mu s = ByStop \<and> (\<nexists>t. proto_step s t)) \<and>
   {s. reach proto_init proto_step s \<and> pr_stop s \<noteq> StopReturned \<and> (\<nexists>t. proto_step s t)} =
   {s. reach proto_init proto_step s \<and> stuck s}"
proof
  let ?s0 = "\<lparr>pr_stop = StopLock, pr_loop = LoopSelect, pr_mu = Free, pr_cancelled = False, pr_pruneDone = False\<rparr>"
  have "reach proto_init proto_step ?s0" by (rule reach_init) (simp add: proto_init_def)
  then have "reach proto_init proto_step (?s0\<lparr>pr_loop := LoopLock\<rparr>)"
    by (rule reach_step) (rule loop_tick, simp)
  then have "reach proto_init proto_step (?s0\<lparr>pr_loop := LoopLock, pr_stop := StopCancel, pr_mu := ByStop\<rparr>)"
    by (rule reach_step) (use stop_lock [of "?s0\<lparr>pr_loop := LoopLock\<rparr>"] in simp)
  then have r: "reach proto_init proto_step
      (?s0\<lparr>pr_loop := LoopLock, pr_stop := StopWait, pr_mu := ByStop, pr_cancelled := True\<rparr>)"
    by (rule reach_step) (use stop_cancel [of "?s0\<lparr>pr_loop := LoopLock, pr_stop := StopCancel, pr_mu := ByStop\<rparr>"] in simp)
  then have "\<nexists>t. proto_step (?s0\<lparr>pr_loop := LoopLock, pr_stop := StopWait, pr_mu := ByStop, pr_cancelled := True\<rparr>) t"
    using stuck_no_step [OF stop_protocol.reach_inv [OF r]] by (simp add: stuck_def)
  with r show "\<exists>s. reach proto_init proto_step s \<and> stuck s \<and> pr_mu s = ByStop \<and> (\<nexists>t. proto_step s t)"
    by (intro exI [of _ "?s0\<lparr>pr_loop := LoopLock, pr_stop := StopWait, pr_mu := ByStop, pr_cancelled := True\<rparr>"])
      (simp add: stuck_def)
  show "{s. reach proto_init proto_step s \<and> pr_stop s \<noteq> StopReturned \<and> (\<nexists>t. proto_step s t)} =
      {s. reach proto_init proto_step s \<and> stuck s}"
  proof -
    have "pr_stop s \<noteq> StopReturned" if "stuck s" for s using that by (simp add: stuck_def)
    then show ?thesis using stop_protocol.reach_inv progress stuck_no_step by blast
  qed
qed

end
