(* ===== verification/Health.thy ===== *)
theory Health
  imports Message
begin

text \<open>
  The health checker (\<open>infrastructure/health.go\<close>): the three probes, the metrics they update
  and the background loops that turn probe results into the flags \<open>isAlive\<close> and \<open>isReady\<close>.
  A probe reads the clock of the world and calls the agent in it; one tick of a loop is one
  operation, so a history of the checker is a sequence of ticks in any order.
\<close>

section \<open>Data\<close>

datatype HealthStatus = Healthy | Unhealthy | Degraded | Unknown
datatype ProbeType = Liveness | Readiness | Startup

record HealthCheckResult =
  hr_Status :: HealthStatus
  hr_ProbeType :: ProbeType
  hr_Message :: string
  hr_Timestamp :: time
  hr_DurationMS :: real

record 'w HealthCheckConfig =
  hcf_LivenessEnabled :: bool
  hcf_LivenessInterval :: duration
  hcf_LivenessTimeout :: duration
  hcf_LivenessFailureThreshold :: int
  hcf_ReadinessEnabled :: bool
  hcf_ReadinessInterval :: duration
  hcf_ReadinessTimeout :: duration
  hcf_ReadinessFailureThreshold :: int
  hcf_StartupEnabled :: bool
  hcf_StartupTimeout :: duration
  hcf_StartupFailureThreshold :: int
  hcf_CustomCheck :: "('w agent \<Rightarrow> 'w \<Rightarrow> bool \<times> 'w) option"

definition DefaultHealthCheckConfig :: "'w HealthCheckConfig" where
  "DefaultHealthCheckConfig =
     \<lparr>hcf_LivenessEnabled = True, hcf_LivenessInterval = 10 * second, hcf_LivenessTimeout = 5 * second,
      hcf_LivenessFailureThreshold = 3, hcf_ReadinessEnabled = True, hcf_ReadinessInterval = 5 * second,
      hcf_ReadinessTimeout = 3 * second, hcf_ReadinessFailureThreshold = 2, hcf_StartupEnabled = True,
      hcf_StartupTimeout = 30 * second, hcf_StartupFailureThreshold = 30, hcf_CustomCheck = None\<rparr>"

record HealthMetrics =
  hm_TotalChecks :: "(ProbeType \<times> int) list"
  hm_SuccessfulChecks :: "(ProbeType \<times> int) list"
  hm_FailedChecks :: "(ProbeType \<times> int) list"
  hm_LastCheckTime :: "(ProbeType \<times> time) list"
  hm_LastCheckDuration :: "(ProbeType \<times> real) list"
  hm_ConsecutiveFailures :: "(ProbeType \<times> int) list"
  hm_UptimeStart :: time

definition NewHealthMetrics :: "time \<Rightarrow> HealthMetrics" where
  "NewHealthMetrics now =
     \<lparr>hm_TotalChecks = [], hm_SuccessfulChecks = [], hm_FailedChecks = [], hm_LastCheckTime = [],
      hm_LastCheckDuration = [], hm_ConsecutiveFailures = [], hm_UptimeStart = now\<rparr>"

definition GetUptime :: "time \<Rightarrow> HealthMetrics \<Rightarrow> real" where
  "GetUptime now m = Seconds (now - hm_UptimeStart m)"

record 'w HealthChecker =
  hk_agent :: "'w agent"
  hk_config :: "'w HealthCheckConfig"
  hk_metrics :: HealthMetrics
  hk_isAlive :: bool
  hk_isReady :: bool
  hk_startupComplete :: bool
  hk_lastSuccessfulRequest :: "time option"

definition NewHealthChecker :: "time \<Rightarrow> 'w agent \<Rightarrow> 'w HealthCheckConfig \<Rightarrow> 'w HealthChecker" where
  "NewHealthChecker now a config =
     \<lparr>hk_agent = a, hk_config = config, hk_metrics = NewHealthMetrics now, hk_isAlive = True, hk_isReady = False,
      hk_startupComplete = False, hk_lastSuccessfulRequest = None\<rparr>"

definition IsHealthy :: "'w HealthChecker \<Rightarrow> bool" where
  "IsHealthy hc \<longleftrightarrow> hk_isAlive hc \<and> hk_isReady hc"

section \<open>Metrics\<close>

definition count_at :: "(ProbeType \<times> int) list \<Rightarrow> ProbeType \<Rightarrow> int" where
  "count_at m p = (case go_get m p of None \<Rightarrow> 0 | Some n \<Rightarrow> n)"

definition upd_metrics :: "(HealthMetrics \<Rightarrow> HealthMetrics) \<Rightarrow> 'w HealthChecker \<Rightarrow> 'w HealthChecker" where
  "upd_metrics f hc = hc\<lparr>hk_metrics := f (hk_metrics hc)\<rparr>"

definition trackCheckStarted :: "ProbeType \<Rightarrow> 'w HealthChecker \<Rightarrow> 'w HealthChecker" where
  "trackCheckStarted p = upd_metrics (\<lambda>m. m\<lparr>hm_TotalChecks := go_incr p (hm_TotalChecks m)\<rparr>)"

definition trackCheckSuccess :: "time \<Rightarrow> ProbeType \<Rightarrow> real \<Rightarrow> 'w HealthChecker \<Rightarrow> 'w HealthChecker" where
  "trackCheckSuccess now p d = upd_metrics (\<lambda>m. m\<lparr>hm_SuccessfulChecks := go_incr p (hm_SuccessfulChecks m),
     hm_LastCheckTime := go_set p now (hm_LastCheckTime m),
     hm_LastCheckDuration := go_set p d (hm_LastCheckDuration m),
     hm_ConsecutiveFailures := go_set p 0 (hm_ConsecutiveFailures m)\<rparr>)"

definition trackCheckFailure :: "time \<Rightarrow> ProbeType \<Rightarrow> real \<Rightarrow> 'w HealthChecker \<Rightarrow> 'w HealthChecker" where
  "trackCheckFailure now p d = upd_metrics (\<lambda>m. m\<lparr>hm_FailedChecks := go_incr p (hm_FailedChecks m),
     hm_LastCheckTime := go_set p now (hm_LastCheckTime m),
     hm_LastCheckDuration := go_set p d (hm_LastCheckDuration m),
     hm_ConsecutiveFailures := go_incr p (hm_ConsecutiveFailures m)\<rparr>)"

section \<open>Probes\<close>

text \<open>\<open>Duration.Milliseconds()\<close> as a float.\<close>

definition ms_between :: "time \<Rightarrow> time \<Rightarrow> real" where
  "ms_between t t' = real_of_int (go_trunc (real_of_int (t' - t) / 1000000))"

text \<open>
  The end of a probe: measure the duration (unless it is known), record success or failure,
  and build the result, each with its own reading of the clock.
\<close>

definition record_probe ::
    "'w clock \<Rightarrow> bool \<Rightarrow> ProbeType \<Rightarrow> time \<Rightarrow> real option \<Rightarrow> 'w HealthChecker \<Rightarrow> 'w \<Rightarrow> real \<times> 'w HealthChecker \<times> 'w" where
  "record_probe clk ok p startTime known hc w =
     (let (d, w) = (case known of Some d \<Rightarrow> (d, w) | None \<Rightarrow> let (t, w) = clk w in (ms_between startTime t, w));
          (t1, w) = clk w
      in (d, if ok then trackCheckSuccess t1 p d hc else trackCheckFailure t1 p d hc, w))"

definition probe_result ::
    "'w clock \<Rightarrow> bool \<Rightarrow> ProbeType \<Rightarrow> string \<Rightarrow> real \<Rightarrow> 'w \<Rightarrow> HealthCheckResult \<times> 'w" where
  "probe_result clk ok p msg d w =
     (let (t, w) = clk w
      in (\<lparr>hr_Status = (if ok then Healthy else Unhealthy), hr_ProbeType = p, hr_Message = msg,
           hr_Timestamp = t, hr_DurationMS = d\<rparr>, w))"

definition finish_probe ::
    "'w clock \<Rightarrow> bool \<Rightarrow> ProbeType \<Rightarrow> string \<Rightarrow> time \<Rightarrow> real option \<Rightarrow> 'w HealthChecker \<Rightarrow> 'w
      \<Rightarrow> HealthCheckResult \<times> 'w HealthChecker \<times> 'w" where
  "finish_probe clk ok p msg startTime known hc w =
     (let (d, hc, w) = record_probe clk ok p startTime known hc w;
          (r, w) = probe_result clk ok p msg d w
      in (r, hc, w))"

definition CheckLiveness :: "'w clock \<Rightarrow> 'w HealthChecker \<Rightarrow> 'w \<Rightarrow> HealthCheckResult \<times> 'w HealthChecker \<times> 'w" where
  "CheckLiveness clk hc w =
     (let (startTime, w) = clk w;
          hc = trackCheckStarted Liveness hc;
          (ok, w) = (case hcf_CustomCheck (hk_config hc) of None \<Rightarrow> (True, w) | Some f \<Rightarrow> f (hk_agent hc) w)
      in if \<not> ok then finish_probe clk False Liveness ''Custom health check failed'' startTime None hc w
         else finish_probe clk True Liveness ''Agent process is alive'' startTime None hc w)"

definition readiness_message :: message where
  "readiness_message =
     \<lparr>msg_role = ''system'', msg_content = GStr ''readiness_check'', msg_metadata = None, msg_timestamp = 0\<rparr>"

text \<open>A panic of the agent, or of reading the content of a nil response, is \<open>Panic\<close>.\<close>

definition CheckReadiness ::
    "'w clock \<Rightarrow> (real \<Rightarrow> string) \<Rightarrow> (go_error \<Rightarrow> string) \<Rightarrow> go_ctx \<Rightarrow> 'w HealthChecker \<Rightarrow> 'w
      \<Rightarrow> HealthCheckResult outcome \<times> 'w HealthChecker \<times> 'w" where
  "CheckReadiness clk ff et ctx hc w =
     (let (startTime, w) = clk w;
          hc = trackCheckStarted Readiness hc
      in if hcf_StartupEnabled (hk_config hc) \<and> \<not> hk_startupComplete hc then
           let (r, hc, w) = finish_probe clk False Readiness ''Startup not complete'' startTime None hc w
           in (Ok r, hc, w)
         else
           let (t, w) = clk w;
               (response, w) = agent_Process (hk_agent hc) (WithTimeout t (hcf_ReadinessTimeout (hk_config hc)) ctx)
                                 (Some readiness_message) w;
               (t', w) = clk w;
               d = ms_between startTime t'
           in (case response of
                 Panic p \<Rightarrow> (Panic p, hc, w)
               | Err e \<Rightarrow>
                   let (r, hc, w) = finish_probe clk False Readiness (''Readiness check failed: '' @ et e) startTime (Some d) hc w
                   in (Ok r, hc, w)
               | Ok None \<Rightarrow> (Panic ''nil pointer dereference'', hc, w)
               | Ok (Some m) \<Rightarrow>
                   if ContentString ff m = [] then
                     let (r, hc, w) = finish_probe clk False Readiness ''Readiness check failed: <nil>'' startTime (Some d) hc w
                     in (Ok r, hc, w)
                   else
                     let (d, hc, w) = record_probe clk True Readiness startTime (Some d) hc w;
                         (now, w) = clk w;
                         hc = hc\<lparr>hk_lastSuccessfulRequest := Some now\<rparr>;
                         (r, w) = probe_result clk True Readiness ''Agent is ready to handle requests'' d w
                     in (Ok r, hc, w)))"

definition CheckStartup ::
    "'w clock \<Rightarrow> (real \<Rightarrow> string) \<Rightarrow> (go_error \<Rightarrow> string) \<Rightarrow> go_ctx \<Rightarrow> 'w HealthChecker \<Rightarrow> 'w
      \<Rightarrow> HealthCheckResult outcome \<times> 'w HealthChecker \<times> 'w" where
  "CheckStartup clk ff et ctx hc w =
     (let (startTime, w) = clk w;
          hc = trackCheckStarted Startup hc
      in case CheckReadiness clk ff et ctx hc w of
           (Ok readinessResult, hc, w) \<Rightarrow>
             if hr_Status readinessResult = Healthy then
               let hc = hc\<lparr>hk_startupComplete := True\<rparr>;
                   (r, hc, w) = finish_probe clk True Startup ''Startup complete'' startTime None hc w
               in (Ok r, hc, w)
             else
               let (r, hc, w) = finish_probe clk False Startup ''Startup checks not passing yet'' startTime None hc w
               in (Ok r, hc, w)
         | (bad, hc, w) \<Rightarrow> (bad, hc, w))"

section \<open>Background loops\<close>

text \<open>One tick of \<open>livenessLoop\<close> and of \<open>readinessLoop\<close>.\<close>

definition liveness_tick :: "'w clock \<Rightarrow> 'w HealthChecker \<Rightarrow> 'w \<Rightarrow> 'w HealthChecker \<times> 'w" where
  "liveness_tick clk hc w =
     (let (result, hc, w) = CheckLiveness clk hc w
      in (if hr_Status result = Unhealthy then
            if count_at (hm_ConsecutiveFailures (hk_metrics hc)) Liveness
                 \<ge> hcf_LivenessFailureThreshold (hk_config hc)
            then hc\<lparr>hk_isAlive := False\<rparr> else hc
          else hc\<lparr>hk_isAlive := True\<rparr>, w))"

definition readiness_tick ::
    "'w clock \<Rightarrow> (real \<Rightarrow> string) \<Rightarrow> (go_error \<Rightarrow> string) \<Rightarrow> go_ctx \<Rightarrow> 'w HealthChecker \<Rightarrow> 'w \<Rightarrow> 'w HealthChecker \<times> 'w" where
  "readiness_tick clk ff et ctx hc w =
     (case CheckReadiness clk ff et ctx hc w of
        (Ok result, hc, w) \<Rightarrow>
          (if hr_Status result = Unhealthy then
             if count_at (hm_ConsecutiveFailures (hk_metrics hc)) Readiness
                  \<ge> hcf_ReadinessFailureThreshold (hk_config hc)
             then hc\<lparr>hk_isReady := False\<rparr> else hc
           else hc\<lparr>hk_isReady := True\<rparr>, w)
      | (_, hc, w) \<Rightarrow> (hc, w))"

text \<open>
  \<open>startupCheck\<close>: \<open>n\<close> attempts are left, \<open>wait\<close> is the pause of ten seconds and tells whether
  the checker was stopped meanwhile.
\<close>

fun startup_loop ::
    "'w clock \<Rightarrow> ('w \<Rightarrow> bool \<times> 'w) \<Rightarrow> (real \<Rightarrow> string) \<Rightarrow> (go_error \<Rightarrow> string) \<Rightarrow> go_ctx \<Rightarrow> time \<Rightarrow> nat
      \<Rightarrow> 'w HealthChecker \<Rightarrow> 'w \<Rightarrow> 'w HealthChecker \<times> 'w" where
  "startup_loop clk wait ff et ctx startTime 0 hc w = (hc, snd (clk w))"
| "startup_loop clk wait ff et ctx startTime (Suc n) hc w =
     (let (t, w) = clk w in
      if t - startTime > hcf_StartupTimeout (hk_config hc) then (hc, w)
      else
        (case CheckStartup clk ff et ctx hc w of
           (Ok result, hc, w) \<Rightarrow>
             if hr_Status result = Healthy then (hc, w)
             else
               let (stopped, w) = wait w in
               if stopped then (hc, w) else startup_loop clk wait ff et ctx startTime n hc w
         | (_, hc, w) \<Rightarrow> (hc, w)))"

definition startupCheck ::
    "'w clock \<Rightarrow> ('w \<Rightarrow> bool \<times> 'w) \<Rightarrow> (real \<Rightarrow> string) \<Rightarrow> (go_error \<Rightarrow> string) \<Rightarrow> go_ctx
      \<Rightarrow> 'w HealthChecker \<Rightarrow> 'w \<Rightarrow> 'w HealthChecker \<times> 'w" where
  "startupCheck clk wait ff et ctx hc w =
     (let (startTime, w) = clk w
      in startup_loop clk wait ff et ctx startTime (nat (hcf_StartupFailureThreshold (hk_config hc))) hc w)"

datatype hc_event = LivenessTick | ReadinessTick | StartupAttempt | StartupTask

definition hc_do ::
    "'w clock \<Rightarrow> ('w \<Rightarrow> bool \<times> 'w) \<Rightarrow> (real \<Rightarrow> string) \<Rightarrow> (go_error \<Rightarrow> string) \<Rightarrow> go_ctx \<Rightarrow> hc_event
      \<Rightarrow> 'w HealthChecker \<times> 'w \<Rightarrow> 'w HealthChecker \<times> 'w" where
  "hc_do clk wait ff et ctx e = (\<lambda>(hc, w).
     case e of
       LivenessTick \<Rightarrow> liveness_tick clk hc w
     | ReadinessTick \<Rightarrow> readiness_tick clk ff et ctx hc w
     | StartupAttempt \<Rightarrow> snd (CheckStartup clk ff et ctx hc w)
     | StartupTask \<Rightarrow> startupCheck clk wait ff et ctx hc w)"

section \<open>What the probes change\<close>

definition same_flags :: "'w HealthChecker \<Rightarrow> 'w HealthChecker \<Rightarrow> bool" where
  "same_flags hc hc' \<longleftrightarrow> hk_config hc' = hk_config hc \<and> hk_agent hc' = hk_agent hc \<and>
     hk_isAlive hc' = hk_isAlive hc \<and> hk_isReady hc' = hk_isReady hc \<and>
     hk_startupComplete hc' = hk_startupComplete hc"

lemma same_flags_refl [simp]: "same_flags hc hc"
  by (simp add: same_flags_def)

lemma track_flags [simp]:
  "same_flags hc (trackCheckStarted p hc')= same_flags hc hc'"
  "same_flags hc (trackCheckSuccess t p d hc') = same_flags hc hc'"
  "same_flags hc (trackCheckFailure t p d hc') = same_flags hc hc'"
  "same_flags hc (hc'\<lparr>hk_lastSuccessfulRequest := x\<rparr>) = same_flags hc hc'"
  by (simp_all add: same_flags_def trackCheckStarted_def trackCheckSuccess_def trackCheckFailure_def upd_metrics_def)

lemma track_sel [simp]:
  "hk_config (trackCheckStarted p hc) = hk_config hc" "hk_agent (trackCheckStarted p hc) = hk_agent hc"
  "hk_startupComplete (trackCheckStarted p hc) = hk_startupComplete hc"
  by (simp_all add: trackCheckStarted_def upd_metrics_def)

lemma record_probe_flags: "record_probe clk ok p st k hc' w = (d, hc'', w') \<Longrightarrow> same_flags hc hc'' = same_flags hc hc'"
  by (auto simp: record_probe_def Let_def split: prod.splits option.splits if_splits)

lemma finish_probe_flags:
  "finish_probe clk ok p msg st k hc' w = (r, hc'', w') \<Longrightarrow>
     same_flags hc hc'' = same_flags hc hc' \<and> hr_Status r = (if ok then Healthy else Unhealthy)"
  by (auto simp: finish_probe_def probe_result_def Let_def dest: record_probe_flags split: prod.splits)

lemma CheckLiveness_flags:
  "CheckLiveness clk hc w = (r, hc', w') \<Longrightarrow> same_flags hc hc'"
  by (auto simp: CheckLiveness_def Let_def dest!: finish_probe_flags [where hc = hc] split: prod.splits if_splits)

lemma CheckReadiness_flags:
  "CheckReadiness clk ff et ctx hc w = (r, hc', w') \<Longrightarrow> same_flags hc hc'"
  by (auto simp: CheckReadiness_def Let_def dest!: finish_probe_flags [where hc = hc] record_probe_flags [where hc = hc]
      split: prod.splits if_splits outcome.splits option.splits)

lemma CheckReadiness_blocked:
  assumes "hcf_StartupEnabled (hk_config hc)" "\<not> hk_startupComplete hc"
    and "CheckReadiness clk ff et ctx hc w = (r, hc', w')"
  shows "\<exists>x. r = Ok x \<and> hr_Status x = Unhealthy"
  using assms by (auto simp: CheckReadiness_def Let_def dest!: finish_probe_flags split: prod.splits)

text \<open>The states in which start-up is required and has not completed, and the agent is not ready.\<close>

definition waiting :: "'w HealthChecker \<Rightarrow> bool" where
  "waiting hc \<longleftrightarrow> hcf_StartupEnabled (hk_config hc) \<and> \<not> hk_startupComplete hc \<and> \<not> hk_isReady hc"

lemma waiting_flags: "same_flags hc hc' \<Longrightarrow> waiting hc' = waiting hc"
  by (simp add: same_flags_def waiting_def)

lemma waiting_CheckStartup:
  assumes "waiting hc" and "CheckStartup clk ff et ctx hc w = (r, hc', w')"
  shows "waiting hc'"
proof -
  obtain t w1 where t: "clk w = (t, w1)" by (cases "clk w")
  let ?hc = "trackCheckStarted Startup hc"
  have w1: "waiting ?hc" using assms(1) by (simp add: waiting_def trackCheckStarted_def upd_metrics_def)
  obtain q hc1 w2 where q: "CheckReadiness clk ff et ctx ?hc w1 = (q, hc1, w2)"
    by (cases "CheckReadiness clk ff et ctx ?hc w1")
  have bad: "\<exists>x. q = Ok x \<and> hr_Status x = Unhealthy"
    using CheckReadiness_blocked [OF _ _ q] w1 by (simp add: waiting_def)
  have "waiting hc1" using waiting_flags [OF CheckReadiness_flags [OF q]] w1 by simp
  with assms(2) t q bad show ?thesis
    by (auto simp: CheckStartup_def Let_def dest!: finish_probe_flags [where hc = hc1] split: prod.splits
        dest: waiting_flags)
qed

lemma waiting_startup_loop:
  "waiting hc \<Longrightarrow> waiting (fst (startup_loop clk wait ff et ctx st n hc w))"
proof (induction clk wait ff et ctx st n hc w rule: startup_loop.induct)
  case (2 clk wait ff et ctx st n hc w)
  then show ?case
    by (auto simp: Let_def dest: waiting_CheckStartup split: prod.splits outcome.splits)
qed simp

lemma waiting_do: "waiting hc \<Longrightarrow> waiting (fst (hc_do clk wait ff et ctx e (hc, w)))"
proof (cases e)
  case LivenessTick
  assume w: "waiting hc"
  obtain r hc' w' where c: "CheckLiveness clk hc w = (r, hc', w')" by (cases "CheckLiveness clk hc w")
  have "waiting hc'" using waiting_flags [OF CheckLiveness_flags [OF c]] w by simp
  then show ?thesis using LivenessTick c by (simp add: hc_do_def liveness_tick_def Let_def waiting_def)
next
  case ReadinessTick
  assume w: "waiting hc"
  obtain r hc' w' where c: "CheckReadiness clk ff et ctx hc w = (r, hc', w')" by (cases "CheckReadiness clk ff et ctx hc w")
  have "waiting hc'" using waiting_flags [OF CheckReadiness_flags [OF c]] w by simp
  moreover obtain x where "r = Ok x" "hr_Status x = Unhealthy"
    using CheckReadiness_blocked [OF _ _ c] w by (auto simp: waiting_def)
  ultimately show ?thesis using ReadinessTick c by (simp add: hc_do_def readiness_tick_def waiting_def)
next
  case StartupAttempt
  assume "waiting hc"
  then show ?thesis using StartupAttempt waiting_CheckStartup
    by (cases "CheckStartup clk ff et ctx hc w") (fastforce simp: hc_do_def)
next
  case StartupTask
  assume "waiting hc"
  then show ?thesis using StartupTask
    by (simp add: hc_do_def startupCheck_def Let_def waiting_startup_loop split: prod.split)
qed

text \<open>
  With the start-up probe enabled, as it is by default, the checker never reports the agent
  healthy: the start-up probe waits for the readiness probe, which fails until start-up has
  completed.  This holds for every agent and every sequence of probes and loop ticks.
\<close>
lemma startup_never_healthy:
  assumes "hcf_StartupEnabled config"
  shows "\<not> IsHealthy (fst (fold (hc_do clk wait ff et ctx) es (NewHealthChecker now a config, w))) \<and>
    \<not> hk_startupComplete (fst (fold (hc_do clk wait ff et ctx) es (NewHealthChecker now a config, w)))"
proof -
  have "waiting (fst (fold (hc_do clk wait ff et ctx) es (hc, w)))" if "waiting hc" for hc w
    using that
  proof (induction es arbitrary: hc w)
    case (Cons e es)
    then show ?case
      using waiting_do [OF Cons.prems, of clk wait ff et ctx e w] by (cases "hc_do clk wait ff et ctx e (hc, w)") simp
  qed simp
  moreover have "waiting (NewHealthChecker now a config)" using assms by (simp add: waiting_def NewHealthChecker_def)
  ultimately show ?thesis by (simp add: waiting_def IsHealthy_def)
qed

end
