(* ===== verification/Budget.thy ===== *)
theory Budget
  imports Message
begin

text \<open>
  Cost tracking and budgets (package \<open>budget\<close>): the price table (\<open>models.go\<close>), the storage
  interface with its in-memory implementation and the cost tracker (\<open>tracker.go\<close>), and the
  limiter that wraps an agent (\<open>limiter.go\<close>).

  The contract of a storage backend is the locale \<open>cost_storage\<close>; the tracker's sums are
  proved in it and hold for the in-memory storage by interpretation.  Amounts are reals.
  Sorting with \<open>sort.Slice\<close> is not stable in Go; the model returns one of the possible orders.
\<close>

section \<open>Prices\<close>

record ModelPricing =
  mp_pricing :: "(string \<times> (string \<times> real) list) list"

definition rates :: "real \<Rightarrow> real \<Rightarrow> (string \<times> real) list" where
  "rates i ou = [(''input'', i), (''output'', ou)]"

definition NewModelPricing :: ModelPricing where
  "NewModelPricing = \<lparr>mp_pricing =
     [(''gpt-4o'', rates 2.5 10), (''gpt-4-turbo'', rates 10 30), (''gpt-3.5-turbo'', rates 0.5 1.5),
      (''o3'', rates 5 15), (''o3-mini'', rates 1 3),
      (''claude-opus-4'', rates 15 75), (''claude-sonnet-4'', rates 3 15), (''claude-sonnet-4.5'', rates 3 15),
      (''claude-haiku-3'', rates 0.25 1.25),
      (''gemini-2.0-flash-exp'', rates 0 0), (''gemini-pro'', rates 0.5 1.5),
      (''default'', rates 0.01 0.01)]\<rparr>"

definition real_at :: "(string \<times> real) list \<Rightarrow> string \<Rightarrow> real" where
  "real_at m k = (case go_get m k of None \<Rightarrow> 0 | Some x \<Rightarrow> x)"

definition pricing_for :: "ModelPricing \<Rightarrow> string \<Rightarrow> (string \<times> real) list" where
  "pricing_for m model =
     (case go_get (mp_pricing m) model of
        Some p \<Rightarrow> p
      | None \<Rightarrow> (case go_get (mp_pricing m) ''default'' of Some p \<Rightarrow> p | None \<Rightarrow> []))"

definition Calculate :: "ModelPricing \<Rightarrow> string \<Rightarrow> int \<Rightarrow> string \<Rightarrow> real outcome" where
  "Calculate m model tokens direction =
     (if direction \<noteq> ''input'' \<and> direction \<noteq> ''output'' then
        Err (Errorf ''direction must be 'input' or 'output', got: %s'' [GStr direction] None)
      else Ok (real_of_int tokens / 1000000 * real_at (pricing_for m model) direction))"

definition GetModelPricing :: "ModelPricing \<Rightarrow> string \<Rightarrow> (string \<times> real) list option" where
  "GetModelPricing m model = go_get (mp_pricing m) model"

definition ListModels :: "ModelPricing \<Rightarrow> string list" where
  "ListModels m = filter (\<lambda>k. k \<noteq> ''default'') (map fst (mp_pricing m))"

definition UpdatePricing :: "string \<Rightarrow> real \<Rightarrow> real \<Rightarrow> ModelPricing \<Rightarrow> ModelPricing" where
  "UpdatePricing model inputPrice outputPrice m =
     m\<lparr>mp_pricing := go_set model (rates inputPrice outputPrice) (mp_pricing m)\<rparr>"

definition both_costs :: "ModelPricing \<Rightarrow> string \<Rightarrow> int \<Rightarrow> int \<Rightarrow> real outcome" where
  "both_costs m model inputTokens outputTokens =
     (case Calculate m model inputTokens ''input'' of
        Ok i \<Rightarrow> (case Calculate m model outputTokens ''output'' of Ok ou \<Rightarrow> Ok (i + ou) | r \<Rightarrow> r)
      | r \<Rightarrow> r)"

definition EstimateConversationCost :: "ModelPricing \<Rightarrow> string \<Rightarrow> int \<Rightarrow> int \<Rightarrow> int \<Rightarrow> real outcome" where
  "EstimateConversationCost m model numTurns avgInputTokens avgOutputTokens =
     both_costs m model (numTurns * avgInputTokens) (numTurns * avgOutputTokens)"

fun CompareModels :: "ModelPricing \<Rightarrow> string list \<Rightarrow> int \<Rightarrow> int \<Rightarrow> (string \<times> real) list \<Rightarrow> (string \<times> real) list outcome" where
  "CompareModels m [] inputTokens outputTokens costs = Ok costs"
| "CompareModels m (model # models) inputTokens outputTokens costs =
     (case both_costs m model inputTokens outputTokens of
        Ok c \<Rightarrow> CompareModels m models inputTokens outputTokens (go_set model c costs)
      | Err e \<Rightarrow> Err e
      | Panic p \<Rightarrow> Panic p)"

lemma both_costs_eq:
  "both_costs m model i ou = Ok (real_of_int i / 1000000 * real_at (pricing_for m model) ''input'' +
     real_of_int ou / 1000000 * real_at (pricing_for m model) ''output'')"
  by (simp add: both_costs_def Calculate_def)

section \<open>Cost records and storage\<close>

record Cost =
  co_SessionID :: string
  co_AgentName :: string
  co_Model :: string
  co_InputTokens :: int
  co_OutputTokens :: int
  co_ThinkingTokens :: int
  co_InputCost :: real
  co_OutputCost :: real
  co_ThinkingCost :: real
  co_TotalCost :: real
  co_Timestamp :: time
  co_Metadata :: "(string \<times> gval) list"

text \<open>A \<open>Storage\<close> value: the methods of the interface.\<close>

record 's Storage =
  st_Store :: "Cost \<Rightarrow> 's \<Rightarrow> go_error option \<times> 's"
  st_Query :: "string \<Rightarrow> string \<Rightarrow> time option \<Rightarrow> time option \<Rightarrow> 's \<Rightarrow> Cost list outcome"

type_synonym MemoryStorage = "Cost list"

definition NewMemoryStorage :: MemoryStorage where
  "NewMemoryStorage = []"

definition mem_Store :: "Cost \<Rightarrow> MemoryStorage \<Rightarrow> go_error option \<times> MemoryStorage" where
  "mem_Store cost s = (None, s @ [cost])"

definition query_matches :: "string \<Rightarrow> string \<Rightarrow> time option \<Rightarrow> time option \<Rightarrow> Cost \<Rightarrow> bool" where
  "query_matches sessionID agentName startTime endTime cost \<longleftrightarrow>
     \<not> (sessionID \<noteq> [] \<and> co_SessionID cost \<noteq> sessionID) \<and>
     \<not> (agentName \<noteq> [] \<and> co_AgentName cost \<noteq> agentName) \<and>
     (case startTime of None \<Rightarrow> True | Some t \<Rightarrow> \<not> co_Timestamp cost < t) \<and>
     (case endTime of None \<Rightarrow> True | Some t \<Rightarrow> \<not> co_Timestamp cost > t)"

definition mem_Query ::
    "string \<Rightarrow> string \<Rightarrow> time option \<Rightarrow> time option \<Rightarrow> MemoryStorage \<Rightarrow> Cost list outcome" where
  "mem_Query sessionID agentName startTime endTime s =
     Ok (filter (query_matches sessionID agentName startTime endTime) s)"

definition MemoryStorage_methods :: "MemoryStorage Storage" where
  "MemoryStorage_methods = \<lparr>st_Store = mem_Store, st_Query = mem_Query\<rparr>"

section \<open>The tracker\<close>

record 's CostTracker =
  ct_storage :: 's
  ct_modelPricing :: ModelPricing

definition NewCostTracker :: "MemoryStorage CostTracker" where
  "NewCostTracker = \<lparr>ct_storage = NewMemoryStorage, ct_modelPricing = NewModelPricing\<rparr>"

definition RecordCost ::
    "'s Storage \<Rightarrow> time \<Rightarrow> string \<Rightarrow> string \<Rightarrow> string \<Rightarrow> int \<Rightarrow> int \<Rightarrow> int \<Rightarrow> (string \<times> gval) list option
      \<Rightarrow> 's CostTracker \<Rightarrow> Cost outcome \<times> 's CostTracker" where
  "RecordCost st now sessionID agentName model inputTokens outputTokens thinkingTokens metadata t =
     (let p = ct_modelPricing t in
      case Calculate p model inputTokens ''input'' of
        Ok inputCost \<Rightarrow>
          (case Calculate p model outputTokens ''output'' of
             Ok outputCost \<Rightarrow>
               (case (if thinkingTokens > 0 then Calculate p model thinkingTokens ''output'' else Ok 0) of
                  Ok thinkingCost \<Rightarrow>
                    let cost = \<lparr>co_SessionID = sessionID, co_AgentName = agentName, co_Model = model,
                          co_InputTokens = inputTokens, co_OutputTokens = outputTokens,
                          co_ThinkingTokens = thinkingTokens, co_InputCost = inputCost, co_OutputCost = outputCost,
                          co_ThinkingCost = thinkingCost, co_TotalCost = inputCost + outputCost + thinkingCost,
                          co_Timestamp = now, co_Metadata = (case metadata of None \<Rightarrow> [] | Some md \<Rightarrow> md)\<rparr>;
                        (e, s) = st_Store st cost (ct_storage t)
                    in (case e of Some err \<Rightarrow> (Err err, t\<lparr>ct_storage := s\<rparr>) | None \<Rightarrow> (Ok cost, t\<lparr>ct_storage := s\<rparr>))
                | Err e \<Rightarrow> (Err e, t) | Panic q \<Rightarrow> (Panic q, t))
           | Err e \<Rightarrow> (Err e, t) | Panic q \<Rightarrow> (Panic q, t))
      | Err e \<Rightarrow> (Err e, t) | Panic q \<Rightarrow> (Panic q, t))"

definition sum_query ::
    "'s Storage \<Rightarrow> string \<Rightarrow> string \<Rightarrow> time option \<Rightarrow> time option \<Rightarrow> 's CostTracker \<Rightarrow> real outcome" where
  "sum_query st sessionID agentName startTime endTime t =
     (case st_Query st sessionID agentName startTime endTime (ct_storage t) of
        Ok costs \<Rightarrow> Ok (sum_list (map co_TotalCost costs))
      | Err e \<Rightarrow> Err e | Panic q \<Rightarrow> Panic q)"

definition GetSessionCost :: "'s Storage \<Rightarrow> string \<Rightarrow> time option \<Rightarrow> time option \<Rightarrow> 's CostTracker \<Rightarrow> real outcome" where
  "GetSessionCost st sessionID startTime endTime t = sum_query st sessionID [] startTime endTime t"

definition GetAgentCost :: "'s Storage \<Rightarrow> string \<Rightarrow> time option \<Rightarrow> time option \<Rightarrow> 's CostTracker \<Rightarrow> real outcome" where
  "GetAgentCost st agentName startTime endTime t = sum_query st [] agentName startTime endTime t"

definition GetGlobalCost :: "'s Storage \<Rightarrow> time option \<Rightarrow> time option \<Rightarrow> 's CostTracker \<Rightarrow> real outcome" where
  "GetGlobalCost st startTime endTime t = sum_query st [] [] startTime endTime t"

definition add_to :: "string \<Rightarrow> real \<Rightarrow> (string \<times> real) list \<Rightarrow> (string \<times> real) list" where
  "add_to k x m = go_set k (real_at m k + x) m"

definition GetBreakdown :: "'s Storage \<Rightarrow> string \<Rightarrow> string \<Rightarrow> 's CostTracker \<Rightarrow> (string \<times> real) list outcome" where
  "GetBreakdown st sessionID agentName t =
     (case st_Query st sessionID agentName None None (ct_storage t) of
        Ok costs \<Rightarrow> Ok (fold (\<lambda>c. add_to (co_Model c) (co_TotalCost c)) costs [])
      | Err e \<Rightarrow> Err e | Panic q \<Rightarrow> Panic q)"

text \<open>\<open>GetTopSessions\<close> and \<open>GetTopAgents\<close>; a negative limit panics when it slices.\<close>

definition top_by :: "(Cost \<Rightarrow> string) \<Rightarrow> int \<Rightarrow> Cost list \<Rightarrow> (string \<times> real) list outcome" where
  "top_by key limit costs =
     (let results = sort_key (\<lambda>(_, x). - x) (fold (\<lambda>c. add_to (key c) (co_TotalCost c)) costs [])
      in if int (length results) > limit then
           if limit < 0 then Panic ''slice bounds out of range'' else Ok (take (nat limit) results)
         else Ok results)"

definition GetTopSessions ::
    "'s Storage \<Rightarrow> int \<Rightarrow> time option \<Rightarrow> time option \<Rightarrow> 's CostTracker \<Rightarrow> (string \<times> real) list outcome" where
  "GetTopSessions st limit startTime endTime t =
     (case st_Query st [] [] startTime endTime (ct_storage t) of
        Ok costs \<Rightarrow> top_by co_SessionID limit costs | Err e \<Rightarrow> Err e | Panic q \<Rightarrow> Panic q)"

definition GetTopAgents ::
    "'s Storage \<Rightarrow> int \<Rightarrow> time option \<Rightarrow> time option \<Rightarrow> 's CostTracker \<Rightarrow> (string \<times> real) list outcome" where
  "GetTopAgents st limit startTime endTime t =
     (case st_Query st [] [] startTime endTime (ct_storage t) of
        Ok costs \<Rightarrow> top_by co_AgentName limit costs | Err e \<Rightarrow> Err e | Panic q \<Rightarrow> Panic q)"

definition tracker_GetStatistics :: "'s Storage \<Rightarrow> string \<Rightarrow> string \<Rightarrow> 's CostTracker \<Rightarrow> (string \<times> gval) list outcome" where
  "tracker_GetStatistics st sessionID agentName t =
     (case st_Query st sessionID agentName None None (ct_storage t) of
        Ok costs \<Rightarrow>
          if costs = [] then
            Ok [(''total_cost'', GFloat 0), (''total_requests'', GInt 0), (''total_input_tokens'', GInt 0),
                (''total_output_tokens'', GInt 0), (''avg_cost_per_request'', GFloat 0),
                (''avg_tokens_per_request'', GFloat 0)]
          else
            let totalCost = sum_list (map co_TotalCost costs);
                totalInputTokens = sum_list (map co_InputTokens costs);
                totalOutputTokens = sum_list (map co_OutputTokens costs);
                totalTokens = totalInputTokens + totalOutputTokens;
                numRequests = int (length costs)
            in Ok [(''total_cost'', GFloat totalCost), (''total_requests'', GInt numRequests),
                   (''total_input_tokens'', GInt totalInputTokens), (''total_output_tokens'', GInt totalOutputTokens),
                   (''total_tokens'', GInt totalTokens),
                   (''avg_cost_per_request'', GFloat (totalCost / real_of_int numRequests)),
                   (''avg_tokens_per_request'', GFloat (real_of_int totalTokens / real_of_int numRequests))]
      | Err e \<Rightarrow> Err e | Panic q \<Rightarrow> Panic q)"

section \<open>The limiter\<close>

record BudgetLimiter =
  bl_sessionBudget :: "real option"
  bl_agentBudget :: "real option"
  bl_globalBudget :: "real option"
  bl_action :: string
  bl_modelSwitcher :: "(string \<Rightarrow> string) option"
  bl_agentNameOverride :: string

definition NewBudgetLimiter :: "BudgetLimiter \<Rightarrow> BudgetLimiter outcome" where
  "NewBudgetLimiter config =
     (if bl_action config \<noteq> ''error'' \<and> bl_action config \<noteq> ''warning'' \<and> bl_action config \<noteq> ''switch_model'' then
        Err (Errorf ''action must be 'error', 'warning', or 'switch_model', got: %s'' [GStr (bl_action config)] None)
      else if bl_action config = ''switch_model'' \<and> bl_modelSwitcher config = None then
        Err (Errorf (''model_switcher required when action='switch_model'' @ [CHR 0x27]) [] None)
      else Ok config)"

definition handleBudgetExceeded :: "BudgetLimiter \<Rightarrow> string \<Rightarrow> gval list \<Rightarrow> unit outcome" where
  "handleBudgetExceeded l fmt args =
     (if bl_action l = ''error'' then Err (BudgetExceededError fmt args)
      else if bl_action l = ''warning'' then Ok ()
      else if bl_action l = ''switch_model'' then Ok ()
      else Err (Errorf ''unknown action: %s'' [GStr (bl_action l)] None))"

text \<open>One of the three checks; \<open>None\<close> means that the next check follows.\<close>

definition check_one ::
    "BudgetLimiter \<Rightarrow> real option \<Rightarrow> real outcome \<Rightarrow> string \<Rightarrow> gval list \<Rightarrow> unit outcome option" where
  "check_one l budget current fmt args =
     (case budget of
        None \<Rightarrow> None
      | Some b \<Rightarrow>
          (case current of
             Ok currentCost \<Rightarrow>
               if currentCost \<ge> b
               then Some (handleBudgetExceeded l fmt (args @ [GFloat b, GFloat currentCost])) else None
           | Err e \<Rightarrow> Some (Err e) | Panic q \<Rightarrow> Some (Panic q)))"

definition checkBudgets :: "'s Storage \<Rightarrow> BudgetLimiter \<Rightarrow> string \<Rightarrow> string \<Rightarrow> 's CostTracker \<Rightarrow> unit outcome" where
  "checkBudgets st l sessionID agentName t =
     (case check_one l (bl_sessionBudget l) (GetSessionCost st sessionID None None t)
             ''Session budget $%.2f exceeded (current: $%.2f)'' [] of
        Some r \<Rightarrow> r
      | None \<Rightarrow>
     (case check_one l (bl_agentBudget l) (GetAgentCost st agentName None None t)
             ''Agent '%s' budget $%.2f exceeded (current: $%.2f)'' [GStr agentName] of
        Some r \<Rightarrow> r
      | None \<Rightarrow>
     (case check_one l (bl_globalBudget l) (GetGlobalCost st None None t)
             ''Global budget $%.2f exceeded (current: $%.2f)'' [] of
        Some r \<Rightarrow> r
      | None \<Rightarrow> Ok ())))"

definition token_count :: "gval option \<Rightarrow> int" where
  "token_count v = (case v of Some (GInt n) \<Rightarrow> n | Some (GFloat x) \<Rightarrow> go_trunc x | _ \<Rightarrow> 0)"

definition str_or :: "string \<Rightarrow> gval option \<Rightarrow> string" where
  "str_or d v = (case v of Some (GStr s) \<Rightarrow> s | _ \<Rightarrow> d)"

definition recordCost ::
    "'s Storage \<Rightarrow> time \<Rightarrow> string \<Rightarrow> string \<Rightarrow> message \<Rightarrow> 's CostTracker \<Rightarrow> go_error option \<times> 's CostTracker" where
  "recordCost st now sessionID agentName response t =
     (case meta_get response ''usage'' of
        Some (GMap usage) \<Rightarrow>
          let model = str_or ''unknown'' (meta_get response ''model'');
              md = [(''model'', GStr model)] @
                (case meta_get response ''message_id'' of None \<Rightarrow> [] | Some v \<Rightarrow> [(''message_id'', v)])
          in (case RecordCost st now sessionID agentName model (token_count (go_get usage ''prompt_tokens''))
                     (token_count (go_get usage ''completion_tokens'')) 0 (Some md) t of
                (Err e, t) \<Rightarrow> (Some e, t)
              | (_, t) \<Rightarrow> (None, t))
      | _ \<Rightarrow> (None, t))"

text \<open>\<open>Process\<close> of the wrapped agent, before and after the call of the inner agent.\<close>

definition bl_begin ::
    "'s Storage \<Rightarrow> BudgetLimiter \<Rightarrow> string \<Rightarrow> message option \<Rightarrow> 's CostTracker \<Rightarrow> (string \<times> string) outcome" where
  "bl_begin st l innerName message t =
     (let agentName = (if bl_agentNameOverride l = [] then innerName else bl_agentNameOverride l) in
      case message of
        None \<Rightarrow> Panic ''nil pointer dereference''
      | Some m \<Rightarrow>
          let sessionID = str_or ''default'' (meta_get m ''session_id'') in
          (case checkBudgets st l sessionID agentName t of
             Ok _ \<Rightarrow> Ok (sessionID, agentName) | Err e \<Rightarrow> Err e | Panic q \<Rightarrow> Panic q))"

definition bl_Process ::
    "'s Storage \<Rightarrow> 'w clock \<Rightarrow> BudgetLimiter \<Rightarrow> 'w agent \<Rightarrow> go_ctx \<Rightarrow> message option \<Rightarrow> 's CostTracker \<Rightarrow> 'w
      \<Rightarrow> reply \<times> 's CostTracker \<times> 'w" where
  "bl_Process st clk l a ctx message t w =
     (case bl_begin st l (agent_Name a) message t of
        Err e \<Rightarrow> (Err e, t, w)
      | Panic q \<Rightarrow> (Panic q, t, w)
      | Ok (sessionID, agentName) \<Rightarrow>
          (case agent_Process a ctx message w of
             (Ok None, w) \<Rightarrow> (Panic ''nil pointer dereference'', t, w)
           | (Ok (Some response), w) \<Rightarrow>
               let (now, w) = clk w in
               (Ok (Some response), snd (recordCost st now sessionID agentName response t), w)
           | (Err e, w) \<Rightarrow> (Err e, t, w)
           | (Panic q, w) \<Rightarrow> (Panic q, t, w)))"

text \<open>\<open>GetRemainingBudget\<close>: the three remaining amounts, \<open>None\<close> for an unlimited budget.\<close>

definition remaining_of :: "real option \<Rightarrow> bool \<Rightarrow> real outcome \<Rightarrow> real option outcome" where
  "remaining_of budget relevant current =
     (case budget of
        None \<Rightarrow> Ok None
      | Some b \<Rightarrow>
          if \<not> relevant then Ok None
          else (case current of Ok c \<Rightarrow> Ok (Some (max 0 (b - c))) | Err e \<Rightarrow> Err e | Panic q \<Rightarrow> Panic q))"

definition GetRemainingBudget ::
    "'s Storage \<Rightarrow> BudgetLimiter \<Rightarrow> string \<Rightarrow> string \<Rightarrow> 's CostTracker \<Rightarrow> (string \<times> real option) list outcome" where
  "GetRemainingBudget st l sessionID agentName t =
     (case remaining_of (bl_sessionBudget l) (sessionID \<noteq> []) (GetSessionCost st sessionID None None t) of
        Ok s \<Rightarrow>
          (case remaining_of (bl_agentBudget l) (agentName \<noteq> []) (GetAgentCost st agentName None None t) of
             Ok a \<Rightarrow>
               (case remaining_of (bl_globalBudget l) True (GetGlobalCost st None None t) of
                  Ok g \<Rightarrow> Ok [(''session'', s), (''agent'', a), (''global'', g)]
                | Err e \<Rightarrow> Err e | Panic q \<Rightarrow> Panic q)
           | Err e \<Rightarrow> Err e | Panic q \<Rightarrow> Panic q)
      | Err e \<Rightarrow> Err e | Panic q \<Rightarrow> Panic q)"

section \<open>The contract of a storage backend\<close>

text \<open>What a query adds up, over the records of a storage.\<close>

definition spent :: "string \<Rightarrow> string \<Rightarrow> time option \<Rightarrow> time option \<Rightarrow> Cost list \<Rightarrow> real" where
  "spent sid an a b cs = sum_list (map co_TotalCost (filter (query_matches sid an a b) cs))"

lemma spent_append: "spent sid an a b (xs @ ys) = spent sid an a b xs + spent sid an a b ys"
  by (simp add: spent_def)

text \<open>The amount a response is charged.\<close>

definition charge :: "ModelPricing \<Rightarrow> message \<Rightarrow> real" where
  "charge p response =
     (case meta_get response ''usage'' of
        Some (GMap usage) \<Rightarrow>
          let model = str_or ''unknown'' (meta_get response ''model'') in
          real_of_int (token_count (go_get usage ''prompt_tokens'')) / 1000000 * real_at (pricing_for p model) ''input'' +
          real_of_int (token_count (go_get usage ''completion_tokens'')) / 1000000 * real_at (pricing_for p model) ''output''
      | _ \<Rightarrow> 0)"

locale cost_storage =
  fixes st :: "'s Storage"
    and records :: "'s \<Rightarrow> Cost list"
  assumes store_ok: "st_Store st c s = (None, s') \<Longrightarrow> records s' = records s @ [c]"
    and store_err: "st_Store st c s = (Some e, s') \<Longrightarrow> records s' = records s"
    and query: "st_Query st sid an a b s = Ok (filter (query_matches sid an a b) (records s))"
begin

lemma sum_query_spent: "sum_query st sid an a b t = Ok (spent sid an a b (records (ct_storage t)))"
  by (simp add: sum_query_def query spent_def)

lemma RecordCost_records:
  "RecordCost st now sid an model i ou th md t = (Ok c, t') \<Longrightarrow>
     records (ct_storage t') = records (ct_storage t) @ [c] \<and> ct_modelPricing t' = ct_modelPricing t \<and>
     co_SessionID c = sid \<and> co_AgentName c = an \<and> co_Model c = model \<and> co_Timestamp c = now \<and>
     co_TotalCost c = real_of_int i / 1000000 * real_at (pricing_for (ct_modelPricing t) model) ''input'' +
       real_of_int (ou + max 0 th) / 1000000 * real_at (pricing_for (ct_modelPricing t) model) ''output''"
  by (auto simp: RecordCost_def Calculate_def Let_def add_divide_distrib distrib_right
      split: prod.splits option.splits if_splits dest: store_ok)

lemma RecordCost_failed:
  "RecordCost st now sid an model i ou th md t = (Err e, t') \<Longrightarrow>
     records (ct_storage t') = records (ct_storage t) \<and> ct_modelPricing t' = ct_modelPricing t"
  by (auto simp: RecordCost_def Calculate_def Let_def split: prod.splits option.splits if_splits dest: store_err)

lemma RecordCost_not_panic: "fst (RecordCost st now sid an model i ou th md t) \<noteq> Panic q"
  by (auto simp: RecordCost_def Calculate_def Let_def split: prod.splits option.splits)

text \<open>Recording a response adds its charge to the sums it belongs to, or nothing on a failure.\<close>

lemma recordCost_spent:
  assumes "recordCost st now sid an response t = (e, t')"
  shows "\<exists>x \<in> {0, charge (ct_modelPricing t) response}.
    (\<forall>s a. spent s a None None (records (ct_storage t')) =
       spent s a None None (records (ct_storage t)) +
       (if (s = [] \<or> s = sid) \<and> (a = [] \<or> a = an) then x else 0)) \<and> ct_modelPricing t' = ct_modelPricing t"
proof (cases "\<exists>usage. meta_get response ''usage'' = Some (GMap usage)")
  case False
  then have "t' = t" using assms by (auto simp: recordCost_def split: option.splits gval.splits)
  then show ?thesis by auto
next
  case True
  then obtain usage where u: "meta_get response ''usage'' = Some (GMap usage)" by blast
  let ?model = "str_or ''unknown'' (meta_get response ''model'')"
  let ?i = "token_count (go_get usage ''prompt_tokens'')" and ?o = "token_count (go_get usage ''completion_tokens'')"
  obtain md r where r: "RecordCost st now sid an ?model ?i ?o 0 (Some md) t = (r, t')"
    using assms u by (auto simp: recordCost_def Let_def split: prod.splits outcome.splits)
  show ?thesis
  proof (cases r)
    case (Ok c)
    note rec = RecordCost_records [OF r [unfolded Ok]]
    have "co_TotalCost c = charge (ct_modelPricing t) response" using rec u by (simp add: charge_def Let_def)
    moreover have "query_matches s a None None c \<longleftrightarrow> (s = [] \<or> s = sid) \<and> (a = [] \<or> a = an)" for s a
      using rec by (auto simp: query_matches_def)
    ultimately show ?thesis using rec
      by (intro bexI [of _ "charge (ct_modelPricing t) response"]) (simp_all add: spent_append, simp add: spent_def)
  next
    case (Err e)
    with RecordCost_failed r show ?thesis by (intro bexI [of _ 0]) auto
  next
    case (Panic q)
    then show ?thesis using RecordCost_not_panic r by (metis fst_conv)
  qed
qed

end

interpretation memory_storage: cost_storage MemoryStorage_methods "\<lambda>s. s"
  by unfold_locales (auto simp: MemoryStorage_methods_def mem_Store_def mem_Query_def)

section \<open>The tracker adds up\<close>

text \<open>A call of \<open>RecordCost\<close>.\<close>

record cost_call =
  cc_now :: time
  cc_session :: string
  cc_agent :: string
  cc_model :: string
  cc_input :: int
  cc_output :: int
  cc_thinking :: int

definition do_record :: "cost_call \<Rightarrow> MemoryStorage CostTracker \<Rightarrow> MemoryStorage CostTracker" where
  "do_record c t = snd (RecordCost MemoryStorage_methods (cc_now c) (cc_session c) (cc_agent c) (cc_model c)
     (cc_input c) (cc_output c) (cc_thinking c) None t)"

definition call_price :: "ModelPricing \<Rightarrow> cost_call \<Rightarrow> real" where
  "call_price p c =
     real_of_int (cc_input c) / 1000000 * real_at (pricing_for p (cc_model c)) ''input'' +
     real_of_int (cc_output c + max 0 (cc_thinking c)) / 1000000 * real_at (pricing_for p (cc_model c)) ''output''"

lemma do_record_spent:
  "ct_modelPricing (do_record c t) = ct_modelPricing t \<and>
   spent s a None None (ct_storage (do_record c t)) = spent s a None None (ct_storage t) +
     (if (s = [] \<or> s = cc_session c) \<and> (a = [] \<or> a = cc_agent c) then call_price (ct_modelPricing t) c else 0)"
proof -
  obtain r t' where r: "RecordCost MemoryStorage_methods (cc_now c) (cc_session c) (cc_agent c) (cc_model c)
     (cc_input c) (cc_output c) (cc_thinking c) None t = (r, t')" by (metis surj_pair)
  then obtain k where k: "r = Ok k"
    by (cases "0 < cc_thinking c") (auto simp: RecordCost_def Calculate_def MemoryStorage_methods_def mem_Store_def Let_def)
  note rec = memory_storage.RecordCost_records [OF r [unfolded k]]
  have "query_matches s a None None k \<longleftrightarrow> (s = [] \<or> s = cc_session c) \<and> (a = [] \<or> a = cc_agent c)"
    using rec by (auto simp: query_matches_def)
  then have "spent s a None None [k] =
      (if (s = [] \<or> s = cc_session c) \<and> (a = [] \<or> a = cc_agent c) then call_price (ct_modelPricing t) c else 0)"
    using rec by (simp add: spent_def call_price_def)
  then show ?thesis using rec r by (simp add: do_record_def spent_append)
qed

lemma fold_record_spent:
  "ct_modelPricing (fold do_record cs t) = ct_modelPricing t \<and>
   spent s a None None (ct_storage (fold do_record cs t)) = spent s a None None (ct_storage t) +
     sum_list (map (call_price (ct_modelPricing t))
       (filter (\<lambda>c. (s = [] \<or> s = cc_session c) \<and> (a = [] \<or> a = cc_agent c)) cs))"
  by (induction cs arbitrary: t) (simp_all add: do_record_spent)

text \<open>
  The tracker's totals are exact: after any sequence of \<open>RecordCost\<close> calls on a new tracker,
  the cost of a session is the sum of the prices of the calls for that session, the cost of
  an agent the sum for that agent, and the global cost the sum of all; a session with the
  empty name is charged the global cost.
\<close>
lemma tracker_totals:
  assumes "t = fold do_record cs NewCostTracker" and "sid \<noteq> []" and "an \<noteq> []"
  shows "GetSessionCost MemoryStorage_methods sid None None t =
      Ok (sum_list (map (call_price NewModelPricing) (filter (\<lambda>c. cc_session c = sid) cs))) \<and>
    GetAgentCost MemoryStorage_methods an None None t =
      Ok (sum_list (map (call_price NewModelPricing) (filter (\<lambda>c. cc_agent c = an) cs))) \<and>
    GetGlobalCost MemoryStorage_methods None None t = Ok (sum_list (map (call_price NewModelPricing) cs)) \<and>
    GetSessionCost MemoryStorage_methods [] None None t = GetGlobalCost MemoryStorage_methods None None t"
proof -
  have sp: "spent s a None None (ct_storage t) = sum_list (map (call_price NewModelPricing)
       (filter (\<lambda>c. (s = [] \<or> s = cc_session c) \<and> (a = [] \<or> a = cc_agent c)) cs))" for s a
    using fold_record_spent [of cs NewCostTracker s a] assms(1)
    by (simp add: NewCostTracker_def NewMemoryStorage_def spent_def)
  have "filter (\<lambda>c. sid = cc_session c) cs = filter (\<lambda>c. cc_session c = sid) cs"
    "filter (\<lambda>c. an = cc_agent c) cs = filter (\<lambda>c. cc_agent c = an) cs" by (auto intro: filter_cong)
  then show ?thesis
    using assms(2,3) memory_storage.sum_query_spent [of _ _ _ _ t]
    by (simp add: GetSessionCost_def GetAgentCost_def GetGlobalCost_def sp)
qed

section \<open>The limiter bounds the overspending\<close>

text \<open>
  Requests on one limiter with at most \<open>k\<close> of a session in flight at a time: a request is
  admitted by the check, and later its response is recorded or the call has failed.  \<open>c\<close>
  bounds the charge of a single response.
\<close>

record bl_run =
  br_tracker :: "MemoryStorage CostTracker"
  br_inflight :: "(string \<times> string) list" \<comment> \<open>session and agent of the admitted requests\<close>

definition in_flight :: "string \<Rightarrow> bl_run \<Rightarrow> nat" where
  "in_flight sid s = length (filter (\<lambda>(x, _). x = sid) (br_inflight s))"

inductive bl_step :: "BudgetLimiter \<Rightarrow> nat \<Rightarrow> real \<Rightarrow> bl_run \<Rightarrow> bl_run \<Rightarrow> bool" for l k c where
  bl_admit: "bl_begin MemoryStorage_methods l innerName message (br_tracker s) = Ok (sid, an) \<Longrightarrow> in_flight sid s < k \<Longrightarrow>
    bl_step l k c s (s\<lparr>br_inflight := (sid, an) # br_inflight s\<rparr>)"
| bl_settle: "(sid, an) \<in> set (br_inflight s) \<Longrightarrow> charge (ct_modelPricing (br_tracker s)) response \<le> c \<Longrightarrow>
    bl_step l k c s (s\<lparr>br_inflight := remove1 (sid, an) (br_inflight s),
      br_tracker := snd (recordCost MemoryStorage_methods now sid an response (br_tracker s))\<rparr>)"
| bl_failed: "(sid, an) \<in> set (br_inflight s) \<Longrightarrow>
    bl_step l k c s (s\<lparr>br_inflight := remove1 (sid, an) (br_inflight s)\<rparr>)"

definition bl_init :: "bl_run \<Rightarrow> bool" where
  "bl_init s \<longleftrightarrow> s = \<lparr>br_tracker = NewCostTracker, br_inflight = []\<rparr>"

definition session_spent :: "string \<Rightarrow> bl_run \<Rightarrow> real" where
  "session_spent sid s = spent sid [] None None (ct_storage (br_tracker s))"

text \<open>What is spent and what may still be charged by the requests in flight stays below the bound.\<close>

definition bl_bound :: "real \<Rightarrow> nat \<Rightarrow> real \<Rightarrow> string \<Rightarrow> bl_run \<Rightarrow> bool" where
  "bl_bound b k c sid s \<longleftrightarrow> session_spent sid s + c * real (in_flight sid s) \<le> max 0 b + c * real k"

lemma in_flight_remove:
  "(sid', an) \<in> set xs \<Longrightarrow>
    length (filter (\<lambda>(x, _). x = sid) xs) = length (filter (\<lambda>(x, _). x = sid) (remove1 (sid', an) xs)) + (if sid' = sid then 1 else 0)"
  by (induction xs) auto

lemma bl_admitted_below:
  assumes "bl_begin MemoryStorage_methods l innerName message t = Ok (sid, an)"
    and "bl_action l = ''error''" and "bl_sessionBudget l = Some b"
  shows "spent sid [] None None (ct_storage t) < b"
proof (rule ccontr)
  assume "\<not> spent sid [] None None (ct_storage t) < b"
  then have "checkBudgets MemoryStorage_methods l sid a t = Err (BudgetExceededError
      ''Session budget $%.2f exceeded (current: $%.2f)'' [GFloat b, GFloat (spent sid [] None None (ct_storage t))])" for a
    using assms(2,3) memory_storage.sum_query_spent [of sid "[]" None None t]
    by (simp add: checkBudgets_def check_one_def GetSessionCost_def handleBudgetExceeded_def)
  then show False using assms(1) by (auto simp: bl_begin_def Let_def split: option.splits outcome.splits)
qed

lemma bl_bound_step:
  assumes inv: "bl_bound b k c sid s" and st: "bl_step l k c s s'"
    and l: "bl_action l = ''error''" "bl_sessionBudget l = Some b" and c: "0 \<le> c" and sid: "sid \<noteq> []"
  shows "bl_bound b k c sid s'"
  using st
proof cases
  case (bl_admit innerName message sid' an)
  show ?thesis
  proof (cases "sid' = sid")
    case True
    have "session_spent sid s < b" using bl_admitted_below [OF bl_admit(2) l] True by (simp add: session_spent_def)
    moreover have "c * real (Suc (in_flight sid s)) \<le> c * real k"
      using bl_admit(3) True c by (intro mult_left_mono) auto
    ultimately show ?thesis
      using bl_admit(1) True by (simp add: bl_bound_def session_spent_def in_flight_def)
  next
    case False
    then show ?thesis using inv bl_admit(1) by (simp add: bl_bound_def session_spent_def in_flight_def)
  qed
next
  case (bl_settle sid' an response now)
  obtain e t' where t': "recordCost MemoryStorage_methods now sid' an response (br_tracker s) = (e, t')"
    by (metis surj_pair)
  obtain x where x: "x \<in> {0, charge (ct_modelPricing (br_tracker s)) response}"
    and add: "\<forall>u a. spent u a None None (ct_storage t') = spent u a None None (ct_storage (br_tracker s)) +
      (if (u = [] \<or> u = sid') \<and> (a = [] \<or> a = an) then x else 0)"
    using memory_storage.recordCost_spent [OF t'] by blast
  have sp: "session_spent sid s' = session_spent sid s + (if sid = sid' then x else 0)"
    using add [rule_format, of sid "[]"] sid bl_settle(1) t' by (simp add: session_spent_def)
  have "x \<le> c" using x bl_settle(3) c by auto
  moreover have "in_flight sid s = in_flight sid s' + (if sid' = sid then 1 else 0)"
    using in_flight_remove [OF bl_settle(2)] bl_settle(1) by (simp add: in_flight_def)
  ultimately show ?thesis using inv sp by (auto simp: bl_bound_def algebra_simps split: if_splits)
next
  case (bl_failed sid' an)
  have "in_flight sid s = in_flight sid s' + (if sid' = sid then 1 else 0)"
    using in_flight_remove [OF bl_failed(2)] bl_failed(1) by (simp add: in_flight_def)
  then have "c * real (in_flight sid s') \<le> c * real (in_flight sid s)" using c by (intro mult_left_mono) auto
  then show ?thesis using inv bl_failed(1) by (simp add: bl_bound_def session_spent_def)
qed

text \<open>
  C20.
  The limiter bounds the overspending: with the action \<open>error\<close> and a session budget \<open>b\<close>, if
  at most \<open>k\<close> requests of the session are in flight at a time and no response is charged more
  than \<open>c\<close>, then in every reachable state the session has spent at most \<open>b + k * c\<close> (and at
  most \<open>k * c\<close> for a negative budget).  The session has a name: for the empty name the storage
  sums over all sessions.
\<close>
theorem limiter_overspend_bound:
  assumes "reach bl_init (bl_step l k c) s" and "bl_action l = ''error''" and "bl_sessionBudget l = Some b"
    and "0 \<le> c" and "sid \<noteq> []"
  shows "session_spent sid s \<le> max 0 b + c * real k"
proof -
  have "bl_bound b k c sid s"
    using assms(1)
  proof (induction rule: reach.induct)
    case (reach_init s)
    then show ?case using assms(4)
      by (simp add: bl_init_def bl_bound_def session_spent_def in_flight_def spent_def NewCostTracker_def NewMemoryStorage_def)
  next
    case (reach_step s t)
    then show ?case using bl_bound_step assms(2-5) by blast
  qed
  moreover have "0 \<le> c * real (in_flight sid s)" using assms(4) by simp
  ultimately show ?thesis by (simp add: bl_bound_def)
qed

definition session_limiter :: BudgetLimiter where
  "session_limiter =
     \<lparr>bl_sessionBudget = Some 5, bl_agentBudget = None, bl_globalBudget = None, bl_action = ''error'',
      bl_modelSwitcher = None, bl_agentNameOverride = []\<rparr>"

definition billed :: message where
  "billed = (NewMessage 0 ''assistant'' ''r'')\<lparr>msg_metadata := Some
     [(''model'', GStr ''claude-sonnet-4''), (''usage'', GMap [(''prompt_tokens'', GInt 2000000), (''completion_tokens'', GInt 0)])]\<rparr>"

text \<open>Two requests are in flight when the first is charged 6, more than the budget of 5.\<close>

definition two_admitted :: bl_run where
  "two_admitted = \<lparr>br_tracker = NewCostTracker, br_inflight = [(''default'', ''a''), (''default'', ''a'')]\<rparr>"

definition one_charged :: bl_run where
  "one_charged = two_admitted\<lparr>br_inflight := remove1 (''default'', ''a'') (br_inflight two_admitted),
     br_tracker := snd (recordCost MemoryStorage_methods 0 ''default'' ''a'' billed (br_tracker two_admitted))\<rparr>"

lemma one_charged_reach: "reach bl_init (bl_step session_limiter 2 7) one_charged"
proof -
  let ?s = "\<lambda>l. \<lparr>br_tracker = NewCostTracker, br_inflight = l\<rparr>"
  have "bl_begin MemoryStorage_methods session_limiter ''a'' (Some (NewMessage 0 ''user'' ''q'')) NewCostTracker = Ok (''default'', ''a'')"
    by (simp add: bl_begin_def checkBudgets_def check_one_def GetSessionCost_def sum_query_def MemoryStorage_methods_def
        mem_Query_def NewCostTracker_def NewMemoryStorage_def meta_get_def NewMessage_def str_or_def session_limiter_def)
  then have admit: "bl_step session_limiter 2 7 (?s l) (?s ((''default'', ''a'') # l))" if "in_flight ''default'' (?s l) < 2" for l
    using bl_admit [of session_limiter "''a''" "Some (NewMessage 0 ''user'' ''q'')" "?s l" "''default''" "''a''" 2 7] that by simp
  have "reach bl_init (bl_step session_limiter 2 7) (?s [])" by (rule reach_init) (simp add: bl_init_def)
  then have "reach bl_init (bl_step session_limiter 2 7) (?s [(''default'', ''a'')])"
    by (rule reach_step) (rule admit, simp add: in_flight_def)
  then have r: "reach bl_init (bl_step session_limiter 2 7) two_admitted"
    unfolding two_admitted_def by (rule reach_step) (rule admit, simp add: in_flight_def)
  have "charge (ct_modelPricing (br_tracker two_admitted)) billed \<le> 7" by code_simp
  from bl_settle [OF _ this, of "''default''" "''a''" session_limiter 2 0]
  have "bl_step session_limiter 2 7 two_admitted one_charged" by (simp add: one_charged_def two_admitted_def)
  with r show ?thesis by (rule reach_step)
qed

theorem limiter_overspend_bound_witness:
  "reach bl_init (bl_step session_limiter 2 7) one_charged \<and> session_spent ''default'' one_charged = 6 \<and>
   session_spent ''default'' one_charged \<le> max 0 5 + 7 * real 2"
proof -
  have "session_spent ''default'' one_charged = 6" by code_simp
  moreover have "session_spent ''default'' one_charged \<le> max 0 5 + 7 * real 2"
    by (rule limiter_overspend_bound [OF one_charged_reach]) (simp_all add: session_limiter_def)
  ultimately show ?thesis using one_charged_reach by blast
qed

end
