(* ===== verification/Memory.thy ===== *)
theory Memory
  imports Message
begin

text \<open>
  Session memories (package \<open>memory\<close>): the interface \<open>Memory\<close> (\<open>memory.go\<close>), its in-process
  implementation \<open>EphemeralMemory\<close> (\<open>in_memory.go\<close>) and the strategies that select the
  context of an agent from a memory (\<open>strategies/\<close>).

  The interface is a record of methods on a state \<open>'s\<close>; its contract is the locale
  \<open>session_memory\<close>, in which a session is a list of messages, the most recent first.  The
  strategies are written against the interface, their properties are proved in the locale
  and hold for \<open>EphemeralMemory\<close> by interpretation.
\<close>

section \<open>The interface\<close>

record RetrieveOptions =
  ro_Query :: string
  ro_Limit :: "int option"
  ro_TimeRange :: "(int \<times> int) option"
  ro_ImportanceThreshold :: "real option"
  ro_Tags :: "string list"

text \<open>\<open>RetrieveOptions{Limit: &n}\<close>.\<close>

definition with_limit :: "int \<Rightarrow> RetrieveOptions" where
  "with_limit n = \<lparr>ro_Query = [], ro_Limit = Some n, ro_TimeRange = None,
     ro_ImportanceThreshold = None, ro_Tags = []\<rparr>"

record 's Memory =
  mi_Store :: "time \<Rightarrow> string \<Rightarrow> message \<Rightarrow> (string \<times> gval) list option \<Rightarrow> 's \<Rightarrow> go_error option \<times> 's"
  mi_Retrieve :: "string \<Rightarrow> RetrieveOptions \<Rightarrow> 's \<Rightarrow> message list outcome"
  mi_Summarize :: "string \<Rightarrow> 's \<Rightarrow> message outcome"
  mi_Clear :: "string \<Rightarrow> 's \<Rightarrow> go_error option \<times> 's"

section \<open>Ephemeral memory\<close>

record MessageWithMetadata =
  mm_Timestamp :: real
  mm_Message :: message
  mm_Metadata :: "(string \<times> gval) list"

record EphemeralMemory =
  em_maxSize :: int
  em_storage :: "(string \<times> MessageWithMetadata list) list"
  em_counter :: int

definition NewEphemeralMemory :: "int \<Rightarrow> EphemeralMemory" where
  "NewEphemeralMemory maxSize = \<lparr>em_maxSize = maxSize, em_storage = [], em_counter = 0\<rparr>"

definition em_session :: "EphemeralMemory \<Rightarrow> string \<Rightarrow> MessageWithMetadata list" where
  "em_session m sessionID = (case go_get (em_storage m) sessionID of None \<Rightarrow> [] | Some ms \<Rightarrow> ms)"

definition em_Store ::
    "time \<Rightarrow> string \<Rightarrow> message \<Rightarrow> (string \<times> gval) list option \<Rightarrow> EphemeralMemory
      \<Rightarrow> go_error option \<times> EphemeralMemory" where
  "em_Store now sessionID message metadata m =
     (let m = (if go_get (em_storage m) sessionID = None
               then m\<lparr>em_storage := go_set sessionID [] (em_storage m)\<rparr> else m);
          timestamp = real_of_int now / 1000000000 + real_of_int (em_counter m) * (1 / 1000000);
          m = m\<lparr>em_counter := em_counter m + 1\<rparr>;
          metadata = (case metadata of None \<Rightarrow> [] | Some md \<Rightarrow> md);
          items = em_session m sessionID @
            [\<lparr>mm_Timestamp = timestamp, mm_Message = message, mm_Metadata = metadata\<rparr>];
          items = (if int (length items) > em_maxSize m then tl items else items)
      in (None, m\<lparr>em_storage := go_set sessionID items (em_storage m)\<rparr>))"

text \<open>The three filters of \<open>Retrieve\<close>.\<close>

definition em_in_range :: "RetrieveOptions \<Rightarrow> MessageWithMetadata \<Rightarrow> bool" where
  "em_in_range opts item =
     (case ro_TimeRange opts of
        None \<Rightarrow> True
      | Some (start, end') \<Rightarrow>
          let msgTime = go_trunc (mm_Timestamp item) in \<not> (msgTime < start \<or> msgTime > end'))"

definition em_important :: "RetrieveOptions \<Rightarrow> MessageWithMetadata \<Rightarrow> bool" where
  "em_important opts item =
     (case ro_ImportanceThreshold opts of
        None \<Rightarrow> True
      | Some threshold \<Rightarrow>
          let importance = (case go_get (mm_Metadata item) ''importance'' of Some (GFloat f) \<Rightarrow> f | _ \<Rightarrow> 0)
          in \<not> importance < threshold)"

definition string_tags :: "gval option \<Rightarrow> string list" where
  "string_tags v =
     (case v of
        Some (GStrs tags) \<Rightarrow> tags
      | Some (GList tags) \<Rightarrow> concat (map (\<lambda>t. case t of GStr s \<Rightarrow> [s] | _ \<Rightarrow> []) tags)
      | _ \<Rightarrow> [])"

definition em_tagged :: "RetrieveOptions \<Rightarrow> MessageWithMetadata \<Rightarrow> bool" where
  "em_tagged opts item =
     (ro_Tags opts = [] \<or>
      list_ex (\<lambda>tag. tag \<in> set (string_tags (go_get (mm_Metadata item) ''tags''))) (ro_Tags opts))"

definition em_matches :: "RetrieveOptions \<Rightarrow> MessageWithMetadata \<Rightarrow> bool" where
  "em_matches opts item \<longleftrightarrow> em_in_range opts item \<and> em_important opts item \<and> em_tagged opts item"

text \<open>The loop over the messages: it stops when there are \<open>limit\<close> of them.\<close>

fun em_collect ::
    "int \<Rightarrow> RetrieveOptions \<Rightarrow> MessageWithMetadata list \<Rightarrow> message list \<Rightarrow> message list" where
  "em_collect limit opts [] filtered = filtered"
| "em_collect limit opts (item # items) filtered =
     (if em_matches opts item then
        let filtered = filtered @ [mm_Message item] in
        if int (length filtered) \<ge> limit then filtered else em_collect limit opts items filtered
      else em_collect limit opts items filtered)"

definition em_Retrieve :: "string \<Rightarrow> RetrieveOptions \<Rightarrow> EphemeralMemory \<Rightarrow> message list outcome" where
  "em_Retrieve sessionID opts m =
     (case go_get (em_storage m) sessionID of
        None \<Rightarrow> Ok []
      | Some sessionStorage \<Rightarrow>
          let limit = (case ro_Limit opts of None \<Rightarrow> 10 | Some n \<Rightarrow> n);
              filtered = em_collect limit opts (rev sessionStorage) []
          in if int (length filtered) > limit then
               if limit < 0 then Panic ''slice bounds out of range'' else Ok (take (nat limit) filtered)
             else Ok filtered)"

definition system_message :: "string \<Rightarrow> message" where
  "system_message content =
     \<lparr>msg_role = ''system'', msg_content = GStr content, msg_metadata = None, msg_timestamp = 0\<rparr>"

definition summary_part :: "(real \<Rightarrow> string) \<Rightarrow> nat \<times> message \<Rightarrow> string" where
  "summary_part ff = (\<lambda>(i, msg).
     let preview = ContentString ff msg;
         preview = (if length preview > 100 then take 100 preview @ ''...'' else preview)
     in show_int (int i + 1) @ ''. ['' @ msg_role msg @ ''] '' @ preview)"

definition summary_text :: "(real \<Rightarrow> string) \<Rightarrow> message list \<Rightarrow> string" where
  "summary_text ff messages =
     ''Session summary ('' @ show_int (int (length messages)) @ '' messages):'' @ [CHR 0x0A] @
     concat (map (\<lambda>p. summary_part ff p @ [CHR 0x0A])
       (enumerate 0 (take (min 10 (length messages)) messages)))"

definition em_Summarize :: "(real \<Rightarrow> string) \<Rightarrow> string \<Rightarrow> EphemeralMemory \<Rightarrow> message outcome" where
  "em_Summarize ff sessionID m =
     (case em_Retrieve sessionID (with_limit 100) m of
        Ok messages \<Rightarrow>
          if messages = [] then Ok (system_message ''No messages in session.'')
          else Ok (system_message (summary_text ff messages))
      | Err e \<Rightarrow> Err e
      | Panic p \<Rightarrow> Panic p)"

definition em_Clear :: "string \<Rightarrow> EphemeralMemory \<Rightarrow> go_error option \<times> EphemeralMemory" where
  "em_Clear sessionID m = (None, m\<lparr>em_storage := go_delete sessionID (em_storage m)\<rparr>)"

definition GetSessionCount :: "string \<Rightarrow> EphemeralMemory \<Rightarrow> int" where
  "GetSessionCount sessionID m =
     (case go_get (em_storage m) sessionID of Some items \<Rightarrow> int (length items) | None \<Rightarrow> 0)"

definition GetAllSessions :: "EphemeralMemory \<Rightarrow> string list" where
  "GetAllSessions m = sort (map fst (em_storage m))"

definition GetMemoryUsage :: "EphemeralMemory \<Rightarrow> (string \<times> gval) list" where
  "GetMemoryUsage m =
     [(''total_sessions'', GInt (int (length (em_storage m)))),
      (''total_messages'', GInt (int (sum_list (map (length \<circ> snd) (em_storage m))))),
      (''max_size_per_session'', GInt (em_maxSize m))]"

definition EphemeralMemory_methods :: "(real \<Rightarrow> string) \<Rightarrow> EphemeralMemory Memory" where
  "EphemeralMemory_methods ff =
     \<lparr>mi_Store = em_Store, mi_Retrieve = em_Retrieve, mi_Summarize = em_Summarize ff, mi_Clear = em_Clear\<rparr>"

section \<open>Strategies\<close>

record SlidingWindowStrategy =
  sw_windowSize :: int

definition NewSlidingWindowStrategy :: "int \<Rightarrow> SlidingWindowStrategy" where
  "NewSlidingWindowStrategy windowSize = \<lparr>sw_windowSize = (if windowSize \<le> 0 then 10 else windowSize)\<rparr>"

definition sw_Select ::
    "SlidingWindowStrategy \<Rightarrow> 's Memory \<Rightarrow> string \<Rightarrow> int \<Rightarrow> 's \<Rightarrow> message list outcome" where
  "sw_Select s mem sessionID contextLimit m =
     (let limit = (if sw_windowSize s < contextLimit then sw_windowSize s else contextLimit)
      in mi_Retrieve mem sessionID (with_limit limit) m)"

record ImportanceWeightingStrategy =
  iw_importanceThreshold :: real
  iw_recencyWeight :: real
  iw_minRecent :: int

definition NewImportanceWeightingStrategy :: "real \<Rightarrow> real \<Rightarrow> int \<Rightarrow> ImportanceWeightingStrategy" where
  "NewImportanceWeightingStrategy importanceThreshold recencyWeight minRecent =
     \<lparr>iw_importanceThreshold = importanceThreshold, iw_recencyWeight = recencyWeight,
      iw_minRecent = (if minRecent \<le> 0 then 3 else minRecent)\<rparr>"

definition calculateImportance :: "message \<Rightarrow> real" where
  "calculateImportance message = (case meta_get message ''importance'' of Some (GFloat f) \<Rightarrow> f | _ \<Rightarrow> 1 / 2)"

type_synonym scoredMessage = "message \<times> real"

text \<open>The scores of the messages from index \<open>i\<close> on; \<open>n\<close> is the number of all messages.\<close>

fun iw_score :: "ImportanceWeightingStrategy \<Rightarrow> nat \<Rightarrow> nat \<Rightarrow> message list \<Rightarrow> scoredMessage list" where
  "iw_score s n i [] = []"
| "iw_score s n i (msg # msgs) =
     (let importance = calculateImportance msg in
      if importance < iw_importanceThreshold s then iw_score s n (Suc i) msgs
      else
        let recencyBonus = iw_recencyWeight s * (1 - real i / real n)
        in (msg, importance + recencyBonus) # iw_score s n (Suc i) msgs)"

text \<open>The two nested loops that sort by score.\<close>

definition swap_scored :: "nat \<Rightarrow> nat \<Rightarrow> scoredMessage list \<Rightarrow> scoredMessage list" where
  "swap_scored i j scored =
     (if snd (scored ! j) > snd (scored ! i)
      then scored[i := scored ! j, j := scored ! i] else scored)"

definition sort_pass :: "nat \<Rightarrow> scoredMessage list \<Rightarrow> scoredMessage list" where
  "sort_pass i scored = fold (swap_scored i) [Suc i ..< length scored] scored"

definition sort_scored :: "scoredMessage list \<Rightarrow> scoredMessage list" where
  "sort_scored scored = fold sort_pass [0 ..< length scored] scored"

definition iw_Select ::
    "ImportanceWeightingStrategy \<Rightarrow> 's Memory \<Rightarrow> string \<Rightarrow> int \<Rightarrow> 's \<Rightarrow> message list outcome" where
  "iw_Select s mem sessionID contextLimit m =
     (case mi_Retrieve mem sessionID (with_limit (contextLimit * 3)) m of
        Ok allMessages \<Rightarrow>
          if allMessages = [] then Ok []
          else
            let recentCount = (if iw_minRecent s > int (length allMessages)
                               then length allMessages else nat (iw_minRecent s));
                recent = take recentCount allMessages;
                scored = sort_scored (iw_score s (length allMessages) recentCount (drop recentCount allMessages));
                remainingBudget = contextLimit - int (length recent);
                remainingBudget = (if remainingBudget < 0 then 0 else remainingBudget);
                remainingBudget = (if remainingBudget > int (length scored) then int (length scored) else remainingBudget)
            in Ok (map fst (take (nat remainingBudget) scored) @ recent)
      | Err e \<Rightarrow> Err e
      | Panic p \<Rightarrow> Panic p)"

record SummarizationStrategy =
  ss_recentCount :: int
  ss_summarizeOlder :: bool

definition NewSummarizationStrategy :: "int \<Rightarrow> bool \<Rightarrow> SummarizationStrategy" where
  "NewSummarizationStrategy recentCount summarizeOlder =
     \<lparr>ss_recentCount = (if recentCount \<le> 0 then 10 else recentCount), ss_summarizeOlder = summarizeOlder\<rparr>"

text \<open>\<open>recent[:n]\<close> after the check \<open>len(recent) > n\<close>, then \<open>reverseMessages\<close>.\<close>

definition reversed_upto :: "int \<Rightarrow> message list \<Rightarrow> message list outcome" where
  "reversed_upto contextLimit recent =
     (if int (length recent) > contextLimit then
        if contextLimit < 0 then Panic ''slice bounds out of range''
        else Ok (rev (take (nat contextLimit) recent))
      else Ok (rev recent))"

definition ss_Select ::
    "(real \<Rightarrow> string) \<Rightarrow> SummarizationStrategy \<Rightarrow> 's Memory \<Rightarrow> string \<Rightarrow> int \<Rightarrow> 's \<Rightarrow> message list outcome" where
  "ss_Select ff s mem sessionID contextLimit m =
     (case mi_Retrieve mem sessionID (with_limit (ss_recentCount s)) m of
        Ok recent \<Rightarrow>
          if \<not> ss_summarizeOlder s \<or> recent = [] then reversed_upto contextLimit recent
          else
            (case mi_Summarize mem sessionID m of
               Err _ \<Rightarrow> reversed_upto contextLimit recent
             | Panic p \<Rightarrow> Panic p
             | Ok summary \<Rightarrow>
                 if strings_Contains (ContentString ff summary) ''No messages''
                 then reversed_upto contextLimit recent
                 else
                   let recentBudget = (if contextLimit - 1 < 0 then 0 else contextLimit - 1);
                       recentBudget = (if recentBudget > int (length recent)
                                       then int (length recent) else recentBudget)
                   in Ok (summary # rev (take (nat recentBudget) recent)))
      | Err e \<Rightarrow> Err e
      | Panic p \<Rightarrow> Panic p)"

section \<open>What an ephemeral memory keeps\<close>

text \<open>The last \<open>n\<close> elements of a list.\<close>

definition last_n :: "nat \<Rightarrow> 'a list \<Rightarrow> 'a list" where
  "last_n n xs = drop (length xs - n) xs"

lemma last_n_Nil [simp]: "last_n n [] = []"
  by (simp add: last_n_def)

lemma length_last_n [simp]: "length (last_n n xs) = min n (length xs)"
  by (simp add: last_n_def)

lemma rev_last_n: "rev (last_n n xs) = take n (rev xs)"
  by (simp add: last_n_def take_rev)

lemma last_n_snoc:
  "(if length (last_n n xs @ [x]) > n then tl (last_n n xs @ [x]) else last_n n xs @ [x]) =
     last_n n (xs @ [x])"
proof (cases "length xs < n")
  case True
  then show ?thesis by (simp add: last_n_def)
next
  case False
  then have "tl (drop (length xs - n) xs @ [x]) = drop (Suc (length xs) - n) (xs @ [x])"
    by (cases "n = 0") (simp_all add: Suc_diff_le drop_Suc tl_drop)
  with False show ?thesis by (simp add: last_n_def)
qed

text \<open>
  Operations of a memory, and what a session has been told since it was last cleared, in
  the order of the stores.
\<close>

datatype em_call =
    EStore time string message "(string \<times> gval) list option"
  | EClear string

fun em_do :: "em_call \<Rightarrow> EphemeralMemory \<Rightarrow> EphemeralMemory" where
  "em_do (EStore now sid msg md) m = snd (em_Store now sid msg md m)"
| "em_do (EClear sid) m = snd (em_Clear sid m)"

fun told :: "string \<Rightarrow> em_call \<Rightarrow> message list \<Rightarrow> message list" where
  "told sid (EStore now sid' msg md) h = (if sid' = sid then h @ [msg] else h)"
| "told sid (EClear sid') h = (if sid' = sid then [] else h)"

lemma em_session_store:
  "em_session (snd (em_Store now sid msg md m)) sid' =
     (if sid' = sid
      then let items = em_session m sid @
             [\<lparr>mm_Timestamp = real_of_int now / 1000000000 + real_of_int (em_counter m) * (1 / 1000000),
               mm_Message = msg, mm_Metadata = (case md of None \<Rightarrow> [] | Some d \<Rightarrow> d)\<rparr>]
           in if int (length items) > em_maxSize m then tl items else items
      else em_session m sid')"
  by (auto simp: em_Store_def em_session_def Let_def split: option.split)

lemma em_session_clear:
  "em_session (snd (em_Clear sid m)) sid' = (if sid' = sid then [] else em_session m sid')"
  by (simp add: em_Clear_def em_session_def)

lemma em_maxSize_do [simp]: "em_maxSize (em_do c m) = em_maxSize m"
  by (cases c) (simp_all add: em_Store_def em_Clear_def Let_def)

lemma em_session_do:
  assumes "map mm_Message (em_session m sid) = last_n (nat (em_maxSize m)) h"
  shows "map mm_Message (em_session (em_do c m) sid) = last_n (nat (em_maxSize m)) (told sid c h)"
proof (cases c)
  case (EStore now sid' msg md)
  let ?n = "nat (em_maxSize m)"
  have len: "length (em_session m sid) = length (last_n ?n h)"
    using arg_cong [OF assms, of length] by simp
  have "int (Suc (length (em_session m sid))) > em_maxSize m \<longleftrightarrow> length (last_n ?n h @ [msg]) > ?n"
    unfolding len by auto
  then show ?thesis
    using EStore assms last_n_snoc [of ?n h msg]
    by (auto simp: em_session_store Let_def map_tl)
next
  case (EClear sid')
  with assms show ?thesis by (simp add: em_session_clear)
qed

lemma em_session_run:
  "map mm_Message (em_session (fold em_do cs (NewEphemeralMemory n)) sid) =
     last_n (nat n) (fold (told sid) cs []) \<and> em_maxSize (fold em_do cs (NewEphemeralMemory n)) = n"
proof (induction cs rule: rev_induct)
  case Nil
  show ?case by (simp add: em_session_def NewEphemeralMemory_def)
next
  case (snoc c cs)
  then show ?case using em_session_do [of "fold em_do cs (NewEphemeralMemory n)" sid _ c] by simp
qed

lemma em_collect_take:
  assumes "int (length acc) < limit"
  shows "em_collect limit opts items acc =
     take (nat limit) (acc @ map mm_Message (filter (em_matches opts) items))"
  using assms
proof (induction limit opts items acc rule: em_collect.induct)
  case (2 limit opts item items filtered)
  have "take (nat limit) ((filtered @ [mm_Message item]) @ ys) = filtered @ [mm_Message item]"
    if "int (length (filtered @ [mm_Message item])) \<ge> limit" for ys
  proof -
    have "nat limit = length (filtered @ [mm_Message item])" using that "2.prems" by simp
    then show ?thesis by simp
  qed
  with 2 show ?case by (auto simp: Let_def)
qed simp

lemma em_Retrieve_eq:
  assumes "limit = (case ro_Limit opts of None \<Rightarrow> 10 | Some n \<Rightarrow> n)"
  shows "em_Retrieve sid opts m =
     (if go_get (em_storage m) sid = None then Ok []
      else if limit < 0 then Panic ''slice bounds out of range''
      else Ok (take (nat limit) (map mm_Message (filter (em_matches opts) (rev (em_session m sid))))))"
proof (cases "go_get (em_storage m) sid")
  case None
  then show ?thesis by (simp add: em_Retrieve_def)
next
  case (Some items)
  then have s: "em_session m sid = items" by (simp add: em_session_def)
  consider "limit < 0" | "limit = 0" | "0 < limit" by linarith
  then show ?thesis
  proof cases
    case 3
    then show ?thesis
      using Some assms em_collect_take [of "[]" limit opts "rev items"]
      by (auto simp: em_Retrieve_def s Let_def)
  qed (use Some assms in \<open>simp_all add: em_Retrieve_def Let_def not_less\<close>)
qed

lemma em_matches_with_limit [simp]: "em_matches (with_limit n) item"
  by (simp add: em_matches_def em_in_range_def em_important_def em_tagged_def with_limit_def)

lemma ro_Limit_with_limit [simp]: "ro_Limit (with_limit n) = Some n"
  by (simp add: with_limit_def)

lemma em_Retrieve_limit:
  assumes "0 \<le> n"
  shows "em_Retrieve sid (with_limit n) m = Ok (take (nat n) (rev (map mm_Message (em_session m sid))))"
  using assms em_Retrieve_eq [of n "with_limit n" sid m]
  by (auto simp: rev_map em_session_def)

section \<open>The contract of a memory\<close>

text \<open>
  \<open>history\<close> is what a session retains, the most recent message first.  A store puts the
  message in front and may forget old ones; other sessions are not touched.
\<close>

locale session_memory =
  fixes mem :: "'s Memory"
    and invar :: "'s \<Rightarrow> bool"
    and history :: "'s \<Rightarrow> string \<Rightarrow> message list"
  assumes retrieve: "invar s \<Longrightarrow> 0 \<le> n \<Longrightarrow>
        mi_Retrieve mem sid (with_limit n) s = Ok (take (nat n) (history s sid))"
    and store: "invar s \<Longrightarrow> mi_Store mem now sid msg md s = (e, s') \<Longrightarrow>
        invar s' \<and> (e = None \<longrightarrow> (\<exists>k. history s' sid = take k (msg # history s sid)) \<and>
          (\<forall>sid'. sid' \<noteq> sid \<longrightarrow> history s' sid' = history s sid'))"
    and clear: "invar s \<Longrightarrow> mi_Clear mem sid s = (e, s') \<Longrightarrow>
        invar s' \<and> (e = None \<longrightarrow> history s' = (history s)(sid := []))"
begin

lemma sliding_select:
  assumes "invar s" and "0 \<le> contextLimit"
  shows "sw_Select (NewSlidingWindowStrategy w) mem sid contextLimit s =
     Ok (take (nat (min contextLimit (sw_windowSize (NewSlidingWindowStrategy w)))) (history s sid))"
  using assms retrieve [OF assms(1)]
  by (simp add: sw_Select_def NewSlidingWindowStrategy_def min_def)

lemma importance_select:
  assumes "invar s" and "0 \<le> contextLimit" and "0 < iw_minRecent st"
    and "all = take (nat (contextLimit * 3)) (history s sid)"
    and "r = min (nat (iw_minRecent st)) (length all)"
  shows "iw_Select st mem sid contextLimit s =
     Ok (map fst (take (nat contextLimit - r) (sort_scored (iw_score st (length all) r (drop r all)))) @ take r all)"
proof (cases "all = []")
  case True
  then show ?thesis
    using assms(2,5) retrieve [OF assms(1), of "contextLimit * 3" sid]
    unfolding assms(4) [symmetric] by (simp add: iw_Select_def sort_scored_def)
next
  case False
  have r: "(if iw_minRecent st > int (length all) then length all else nat (iw_minRecent st)) = r"
    using assms(3,5) by auto
  have "min (length all) r = r" using assms(5) by simp
  then show ?thesis
    using False assms(2) retrieve [OF assms(1), of "contextLimit * 3" sid]
    unfolding assms(4) [symmetric] iw_Select_def
    by (auto simp: Let_def r nat_diff_distrib)
qed

lemma summarization_length:
  assumes "invar s" and "0 \<le> contextLimit"
    and "ss_Select ff (NewSummarizationStrategy n b) mem sid contextLimit s = Ok res"
  shows "int (length res) \<le> max 1 contextLimit"
proof -
  let ?st = "NewSummarizationStrategy n b"
  have "0 \<le> ss_recentCount ?st" by (simp add: NewSummarizationStrategy_def)
  note ret = retrieve [OF assms(1) this, of sid]
  show ?thesis
    using assms(2,3) unfolding ss_Select_def ret
    by (auto simp: reversed_upto_def Let_def split: if_splits outcome.splits)
qed

end

text \<open>The ephemeral memory keeps the contract.\<close>

definition em_history :: "EphemeralMemory \<Rightarrow> string \<Rightarrow> message list" where
  "em_history m sid = rev (map mm_Message (em_session m sid))"

lemma rev_tl_snoc: "rev (tl (xs @ [x])) = take (length xs) (x # rev xs)"
  by (cases xs) simp_all

lemma em_history_store:
  "em_history (snd (em_Store now sid msg md m)) sid' =
     (if sid' = sid then take (length (em_session (snd (em_Store now sid msg md m)) sid)) (msg # em_history m sid)
      else em_history m sid')"
proof (cases "sid' = sid")
  case True
  let ?h = "map mm_Message (em_session m sid)"
  have "rev (tl (?h @ [msg])) = take (length ?h) (msg # rev ?h)" by (rule rev_tl_snoc)
  with True show ?thesis
    by (auto simp: em_history_def em_session_store Let_def map_tl simp del: tl_append2)
qed (simp add: em_history_def em_session_store)

interpretation ephemeral: session_memory "EphemeralMemory_methods ff" "\<lambda>_. True" em_history
proof unfold_locales
  fix s s' :: EphemeralMemory and n :: int and sid now msg md e
  show "0 \<le> n \<Longrightarrow> mi_Retrieve (EphemeralMemory_methods ff) sid (with_limit n) s =
      Ok (take (nat n) (em_history s sid))"
    by (simp add: EphemeralMemory_methods_def em_Retrieve_limit em_history_def)
  show "mi_Store (EphemeralMemory_methods ff) now sid msg md s = (e, s') \<Longrightarrow>
      True \<and> (e = None \<longrightarrow> (\<exists>k. em_history s' sid = take k (msg # em_history s sid)) \<and>
          (\<forall>sid'. sid' \<noteq> sid \<longrightarrow> em_history s' sid' = em_history s sid'))"
    using em_history_store [of now sid msg md s] by (auto simp: EphemeralMemory_methods_def)
  show "mi_Clear (EphemeralMemory_methods ff) sid s = (e, s') \<Longrightarrow>
      True \<and> (e = None \<longrightarrow> em_history s' = (em_history s)(sid := []))"
    using em_session_clear [of sid s]
    by (auto simp: EphemeralMemory_methods_def em_history_def fun_eq_iff)
qed

section \<open>Sorting by score\<close>

lemma length_swap_scored [simp]: "length (swap_scored i j xs) = length xs"
  by (simp add: swap_scored_def)

lemma mset_swap_scored [simp]:
  "i < length xs \<Longrightarrow> j < length xs \<Longrightarrow> mset (swap_scored i j xs) = mset xs"
  by (simp add: swap_scored_def mset_swap)

lemma sort_pass_inv:
  assumes "i < length xs" and "Suc i \<le> j" and "j \<le> length xs"
  shows "let ys = fold (swap_scored i) [Suc i ..< j] xs in
     length ys = length xs \<and> mset ys = mset xs \<and> take i ys = take i xs \<and>
     (\<forall>k. i \<le> k \<and> k < j \<longrightarrow> snd (ys ! k) \<le> snd (ys ! i))"
  using assms(2,3)
proof (induction j rule: dec_induct)
  case base
  show ?case by (auto simp: less_Suc_eq_le dest: antisym)
next
  case (step j)
  define ys where "ys = fold (swap_scored i) [Suc i ..< j] xs"
  have ys: "length ys = length xs" "mset ys = mset xs" "take i ys = take i xs"
    "\<And>k. i \<le> k \<Longrightarrow> k < j \<Longrightarrow> snd (ys ! k) \<le> snd (ys ! i)"
    using step.IH step.prems unfolding Let_def ys_def [symmetric] by auto
  have fold': "fold (swap_scored i) [Suc i ..< Suc j] xs = swap_scored i j ys"
    using step.hyps by (simp add: ys_def)
  have "snd (swap_scored i j ys ! k) \<le> snd (swap_scored i j ys ! i)" if "i \<le> k" "k < Suc j" for k
    using ys(4) [of k] that ys(1) assms(1) step.hyps step.prems
    by (cases "k = j"; cases "k = i") (auto simp: swap_scored_def nth_list_update)
  then show ?case
    unfolding fold' Let_def
    using ys assms(1) step.hyps step.prems by (auto simp: swap_scored_def mset_swap)
qed

lemma sort_pass:
  assumes "i < length xs"
  shows "length (sort_pass i xs) = length xs" and "mset (sort_pass i xs) = mset xs"
    and "take i (sort_pass i xs) = take i xs"
    and "i \<le> k \<Longrightarrow> k < length xs \<Longrightarrow> snd (sort_pass i xs ! k) \<le> snd (sort_pass i xs ! i)"
  using sort_pass_inv [OF assms, of "length xs"] assms by (auto simp: sort_pass_def Let_def)

lemma set_drop_eq:
  assumes "mset ys = mset xs" and "take i ys = take i xs"
  shows "set (drop i ys) = set (drop i xs)"
proof -
  have "mset (take i ys) + mset (drop i ys) = mset (take i xs) + mset (drop i xs)"
    using assms(1) by (simp flip: mset_append)
  then have "mset (drop i ys) = mset (drop i xs)" using assms(2) by simp
  then show ?thesis by (rule mset_eq_setD)
qed

lemma sort_scored_inv:
  assumes "i \<le> length xs"
  shows "let ys = fold sort_pass [0 ..< i] xs in
     length ys = length xs \<and> mset ys = mset xs \<and>
     (\<forall>a b. a < i \<and> a < b \<and> b < length xs \<longrightarrow> snd (ys ! b) \<le> snd (ys ! a))"
  using assms
proof (induction i)
  case (Suc i)
  define ys where "ys = fold sort_pass [0 ..< i] xs"
  have ys: "length ys = length xs" "mset ys = mset xs"
    "\<And>a b. a < i \<Longrightarrow> a < b \<Longrightarrow> b < length xs \<Longrightarrow> snd (ys ! b) \<le> snd (ys ! a)"
    using Suc unfolding Let_def ys_def [symmetric] by auto
  let ?zs = "sort_pass i ys"
  have i: "i < length ys" using Suc.prems ys by simp
  note zs = sort_pass [OF i]
  have "snd (?zs ! b) \<le> snd (?zs ! a)" if "a < Suc i" "a < b" "b < length xs" for a b
  proof (cases "a = i")
    case True
    then show ?thesis using zs(4) [of b] that ys(1) by simp
  next
    case False
    with that have a: "a < i" by simp
    then have za: "?zs ! a = ys ! a" using zs(3) by (metis nth_take)
    show ?thesis
    proof (cases "b < i")
      case True
      then have "?zs ! b = ys ! b" using zs(3) by (metis nth_take)
      then show ?thesis using ys(3) [OF a that(2,3)] za by simp
    next
      case False
      have "drop i ?zs ! (b - i) \<in> set (drop i ?zs)"
        using False that(3) ys(1) zs(1) by (intro nth_mem) simp
      then have "?zs ! b \<in> set (drop i ?zs)" using False that(3) ys(1) zs(1) by simp
      then have "?zs ! b \<in> set (drop i ys)" using set_drop_eq [OF zs(2,3)] by simp
      then obtain k where "k < length ys - i" "?zs ! b = ys ! (i + k)"
        by (auto simp: in_set_conv_nth)
      then show ?thesis using ys(1) ys(3) [OF a, of "i + k"] a za by simp
    qed
  qed
  then show ?case using ys zs by (auto simp: ys_def Let_def)
qed simp

lemma sort_scored_correct:
  "mset (sort_scored xs) = mset xs" "sorted_wrt (\<lambda>x y. snd x \<ge> snd y) (sort_scored xs)"
  using sort_scored_inv [of "length xs" xs]
  by (auto simp: sort_scored_def Let_def sorted_wrt_iff_nth_less)

section \<open>Properties\<close>

text \<open>
  What an agent sees of its memory through a sliding window: after any sequence of
  stores and clears on any sessions, the selection is exactly the most recent messages the
  session was told since it was last cleared, newest first, at most as many as the context
  limit, the window and the memory's size per session allow.
\<close>

lemma memory_window:
  assumes "0 \<le> contextLimit"
  shows "sw_Select (NewSlidingWindowStrategy w) (EphemeralMemory_methods ff) sid contextLimit
       (fold em_do cs (NewEphemeralMemory maxSize)) =
     Ok (take (nat (min contextLimit (sw_windowSize (NewSlidingWindowStrategy w))))
       (take (nat maxSize) (rev (fold (told sid) cs []))))"
  using ephemeral.sliding_select [OF TrueI assms] em_session_run [of cs maxSize sid]
  by (simp add: em_history_def rev_last_n)

text \<open>
  \<open>Retrieve\<close>, which filters in a loop that stops early: an unknown session has no messages;
  otherwise the result is the messages that pass all three filters, newest first, cut off at
  the limit (10 by default), and a negative limit panics, whatever is stored.
\<close>

lemma em_Retrieve_spec:
  "em_Retrieve sid opts m =
     (let limit = (case ro_Limit opts of None \<Rightarrow> 10 | Some n \<Rightarrow> n) in
      if go_get (em_storage m) sid = None then Ok []
      else if limit < 0 then Panic ''slice bounds out of range''
      else Ok (take (nat limit) (map mm_Message (filter (em_matches opts) (rev (em_session m sid))))))"
  unfolding Let_def by (rule em_Retrieve_eq) (rule refl)

text \<open>
  Selection by importance: of the \<open>3 * contextLimit\<close> most recent messages the \<open>minRecent\<close>
  newest are always selected and come last; in front of them are the messages with the
  highest scores among the others that reach the threshold, in descending order of score,
  as many as the context limit leaves room for.  (When \<open>minRecent\<close> exceeds the context limit
  the selection exceeds it too.)
\<close>

lemma importance_select_top:
  assumes "0 \<le> contextLimit"
    and "st = NewImportanceWeightingStrategy threshold weight minRecent"
    and "all = take (nat (contextLimit * 3)) (em_history m sid)"
    and "r = min (nat (iw_minRecent st)) (length all)"
  shows "\<exists>chosen rest.
     iw_Select st (EphemeralMemory_methods ff) sid contextLimit m = Ok (map fst chosen @ take r all) \<and>
     mset (chosen @ rest) = mset (iw_score st (length all) r (drop r all)) \<and>
     (length chosen = nat contextLimit - r \<or> length chosen \<le> nat contextLimit - r \<and> rest = []) \<and>
     sorted_wrt (\<lambda>x y. snd x \<ge> snd y) chosen \<and> (\<forall>x \<in> set chosen. \<forall>y \<in> set rest. snd y \<le> snd x)"
proof -
  let ?l = "sort_scored (iw_score st (length all) r (drop r all))" and ?n = "nat contextLimit - r"
  have "0 < iw_minRecent st" by (simp add: assms(2) NewImportanceWeightingStrategy_def)
  from ephemeral.importance_select [OF TrueI assms(1) this assms(3,4)]
  have "iw_Select st (EphemeralMemory_methods ff) sid contextLimit m = Ok (map fst (take ?n ?l) @ take r all)" .
  moreover have "sorted_wrt (\<lambda>x y. snd x \<ge> snd y) (take ?n ?l @ drop ?n ?l)"
    by (simp only: append_take_drop_id sort_scored_correct)
  moreover have "mset (take ?n ?l @ drop ?n ?l) = mset (iw_score st (length all) r (drop r all))"
    by (simp only: append_take_drop_id sort_scored_correct)
  moreover have "length (take ?n ?l) = ?n \<or> length (take ?n ?l) \<le> ?n \<and> drop ?n ?l = []"
    by auto
  ultimately show ?thesis unfolding sorted_wrt_append by blast
qed

lemma sublist_concat: "x \<in> set xs \<Longrightarrow> sublist x (concat xs)"
  by (auto dest!: split_list)

lemma summary_text_contains:
  assumes "i < length msgs" and "i < 10" and "length (ContentString ff (msgs ! i)) \<le> 100"
    and "strings_Contains (ContentString ff (msgs ! i)) p"
  shows "strings_Contains (ContentString ff (system_message (summary_text ff msgs))) p"
proof -
  let ?part = "summary_part ff (i, msgs ! i) @ [CHR 0x0A]"
  let ?parts = "concat (map (\<lambda>p. summary_part ff p @ [CHR 0x0A])
      (enumerate 0 (take (min 10 (length msgs)) msgs)))"
  have "(i, msgs ! i) \<in> set (enumerate 0 (take (min 10 (length msgs)) msgs))"
    using assms(1,2) by (auto simp: in_set_enumerate_eq)
  then have part: "sublist ?part ?parts" by (intro sublist_concat) auto
  obtain pre where "summary_text ff msgs = pre @ ?parts" by (simp add: summary_text_def)
  then have "sublist ?parts (summary_text ff msgs)" by (simp only: sublist_append_leftI)
  with part have "sublist ?part (summary_text ff msgs)" by (rule sublist_order.order.trans)
  moreover have "?part = (show_int (int i + 1) @ ''. ['' @ msg_role (msgs ! i) @ ''] '') @
      ContentString ff (msgs ! i) @ [CHR 0x0A]"
    using assms(3) by (simp add: summary_part_def Let_def)
  then have "sublist (ContentString ff (msgs ! i)) ?part" by (simp only: sublist_appendI)
  ultimately have "sublist p (summary_text ff msgs)"
    using assms(4) unfolding strings_Contains_def by (meson sublist_order.order.trans)
  then show ?thesis by (simp add: strings_Contains_def ContentString_def system_message_def)
qed

lemma reversed_upto_take: "0 \<le> n \<Longrightarrow> reversed_upto n xs = Ok (rev (take (nat n) xs))"
  by (auto simp: reversed_upto_def)

text \<open>
  The summarization strategy takes the text of a conversation for a report of the memory:
  if one of the ten most recent messages, at most 100 characters long, contains the words
  \<open>No messages\<close>, the summary is left out and only the recent messages are returned, however
  long the history is.
\<close>

lemma summary_suppressed_by_content:
  assumes "0 \<le> contextLimit" and "i < length (em_history m sid)" and "i < 10"
    and "length (ContentString ff (em_history m sid ! i)) \<le> 100"
    and "strings_Contains (ContentString ff (em_history m sid ! i)) ''No messages''"
  shows "ss_Select ff (NewSummarizationStrategy n True) (EphemeralMemory_methods ff) sid contextLimit m =
     Ok (rev (take (nat contextLimit)
       (take (nat (ss_recentCount (NewSummarizationStrategy n True))) (em_history m sid))))"
proof -
  let ?st = "NewSummarizationStrategy n True" and ?h = "em_history m sid"
  have n: "0 < ss_recentCount ?st" by (simp add: NewSummarizationStrategy_def)
  have ret: "mi_Retrieve (EphemeralMemory_methods ff) sid (with_limit k) m = Ok (take (nat k) ?h)"
    if "0 \<le> k" for k
    using that by (rule ephemeral.retrieve [OF TrueI])
  have "strings_Contains (ContentString ff (system_message (summary_text ff (take 100 ?h)))) ''No messages''"
    by (rule summary_text_contains [of i]) (use assms in auto)
  moreover have "em_Summarize ff sid m = Ok (system_message (summary_text ff (take 100 ?h)))"
    using ret [of 100] assms(2) by (auto simp: em_Summarize_def EphemeralMemory_methods_def)
  moreover have "take (nat (ss_recentCount ?st)) ?h \<noteq> []" using n assms(2) by auto
  ultimately show ?thesis
    using ret [of "ss_recentCount ?st"] n assms(1)
    by (simp add: ss_Select_def EphemeralMemory_methods_def reversed_upto_take)
qed

end
