(* ===== verification/Timeout.thy ===== *)
theory Timeout
  imports Message "HOL-Library.Signed_Division"
begin

text \<open>
  The timeout middleware (\<open>middleware/timeout.go\<close>) and the metrics middleware
  (\<open>middleware/metrics.go\<close>).

  \<open>Process\<close> runs the agent in a goroutine and selects between its result and the end of the
  context; the outcome of that race is a value \<open>race\<close> that the execution of the agent
  delivers.  The proxy goroutine of \<open>Stream\<close> is the step relation \<open>sp_step\<close>, between steps of
  the source and of the context in any order.
\<close>

section \<open>Metrics of the timeout middleware\<close>

record TimeoutConfig =
  tc_Timeout :: duration
  tc_MethodTimeouts :: "(string \<times> duration) list"

definition DefaultTimeoutConfig :: TimeoutConfig where
  "DefaultTimeoutConfig = \<lparr>tc_Timeout = 30 * second, tc_MethodTimeouts = []\<rparr>"

record TimeoutMetrics =
  tm_TotalRequests :: int
  tm_SuccessfulRequests :: int
  tm_TimedOutRequests :: int
  tm_FailedRequests :: int
  tm_TotalDuration :: duration
  tm_MinDuration :: "duration option"
  tm_MaxDuration :: "duration option"

definition NewTimeoutMetrics :: TimeoutMetrics where
  "NewTimeoutMetrics =
     \<lparr>tm_TotalRequests = 0, tm_SuccessfulRequests = 0, tm_TimedOutRequests = 0, tm_FailedRequests = 0,
      tm_TotalDuration = 0, tm_MinDuration = None, tm_MaxDuration = None\<rparr>"

definition updateDurationStats :: "duration \<Rightarrow> TimeoutMetrics \<Rightarrow> TimeoutMetrics" where
  "updateDurationStats duration m =
     (let m = m\<lparr>tm_TotalDuration := tm_TotalDuration m + duration\<rparr>;
          m = (case tm_MinDuration m of
                 None \<Rightarrow> m\<lparr>tm_MinDuration := Some duration\<rparr>
               | Some d \<Rightarrow> if duration < d then m\<lparr>tm_MinDuration := Some duration\<rparr> else m)
      in case tm_MaxDuration m of
           None \<Rightarrow> m\<lparr>tm_MaxDuration := Some duration\<rparr>
         | Some d \<Rightarrow> if duration > d then m\<lparr>tm_MaxDuration := Some duration\<rparr> else m)"

definition RecordSuccess :: "duration \<Rightarrow> TimeoutMetrics \<Rightarrow> TimeoutMetrics" where
  "RecordSuccess duration m =
     updateDurationStats duration
       (m\<lparr>tm_TotalRequests := tm_TotalRequests m + 1, tm_SuccessfulRequests := tm_SuccessfulRequests m + 1\<rparr>)"

definition RecordTimeout :: "duration \<Rightarrow> TimeoutMetrics \<Rightarrow> TimeoutMetrics" where
  "RecordTimeout duration m =
     updateDurationStats duration
       (m\<lparr>tm_TotalRequests := tm_TotalRequests m + 1, tm_TimedOutRequests := tm_TimedOutRequests m + 1\<rparr>)"

definition RecordFailure :: "duration \<Rightarrow> TimeoutMetrics \<Rightarrow> TimeoutMetrics" where
  "RecordFailure duration m =
     updateDurationStats duration
       (m\<lparr>tm_TotalRequests := tm_TotalRequests m + 1, tm_FailedRequests := tm_FailedRequests m + 1\<rparr>)"

definition AvgDuration :: "TimeoutMetrics \<Rightarrow> duration" where
  "AvgDuration m =
     (if tm_TotalRequests m = 0 then 0 else tm_TotalDuration m sdiv tm_TotalRequests m)"

section \<open>Requests\<close>

record TimeoutDecorator =
  td_config :: TimeoutConfig
  td_metrics :: TimeoutMetrics

definition NewTimeoutDecorator :: "TimeoutConfig \<Rightarrow> TimeoutDecorator" where
  "NewTimeoutDecorator config =
     \<lparr>td_config = (if tc_Timeout config \<le> 0 then config\<lparr>tc_Timeout := 30 * second\<rparr> else config),
      td_metrics = NewTimeoutMetrics\<rparr>"

definition getTimeoutForMessage :: "TimeoutConfig \<Rightarrow> message option \<Rightarrow> duration outcome" where
  "getTimeoutForMessage k message =
     (if tc_MethodTimeouts k = [] then Ok (tc_Timeout k)
      else
        (case message of
           None \<Rightarrow> Panic ''nil pointer dereference''
         | Some m \<Rightarrow>
             let method = (case meta_get m ''method'' of
                             Some (GStr v) \<Rightarrow> v
                           | _ \<Rightarrow> (case meta_get m ''operation'' of Some (GStr v) \<Rightarrow> v | _ \<Rightarrow> ''process''))
             in case go_get (tc_MethodTimeouts k) method of
                  Some t \<Rightarrow> Ok t
                | None \<Rightarrow> Ok (tc_Timeout k)))"

text \<open>
  How the \<open>select\<close> of \<open>Process\<close> went: the agent's result was received, with \<open>timeoutCtx.Err()\<close>
  read after it, or the context ended first.
\<close>

datatype race = AgentDone reply "go_error option" | CtxDone

definition td_upd :: "(TimeoutMetrics \<Rightarrow> TimeoutMetrics) \<Rightarrow> TimeoutDecorator \<Rightarrow> TimeoutDecorator" where
  "td_upd f d = d\<lparr>td_metrics := f (td_metrics d)\<rparr>"

fun timeout_finish :: "string \<Rightarrow> duration \<Rightarrow> duration \<Rightarrow> race \<Rightarrow> TimeoutDecorator \<Rightarrow> reply \<times> TimeoutDecorator" where
  "timeout_finish name timeout duration (AgentDone (Ok r) cerr) d = (Ok r, td_upd (RecordSuccess duration) d)"
| "timeout_finish name timeout duration (AgentDone (Err e) cerr) d =
     (if cerr = Some Context_DeadlineExceeded
      then (Err (TimeoutError name timeout), td_upd (RecordTimeout duration) d)
      else (Err e, td_upd (RecordFailure duration) d))"
| "timeout_finish name timeout duration (AgentDone (Panic p) cerr) d = (Panic p, d)"
| "timeout_finish name timeout duration CtxDone d =
     (Err (TimeoutError name timeout), td_upd (RecordTimeout duration) d)"

text \<open>\<open>run\<close> executes the agent in its goroutine until the \<open>select\<close> proceeds.\<close>

definition timeout_Process ::
    "'w clock \<Rightarrow> (go_ctx \<Rightarrow> message option \<Rightarrow> 'w \<Rightarrow> race \<times> 'w) \<Rightarrow> string \<Rightarrow> go_ctx \<Rightarrow> message option
      \<Rightarrow> TimeoutDecorator \<times> 'w \<Rightarrow> reply \<times> TimeoutDecorator \<times> 'w" where
  "timeout_Process clk run name ctx message dw =
     (let (d, w) = dw; (startTime, w) = clk w in
      case getTimeoutForMessage (td_config d) message of
        Ok timeout \<Rightarrow>
          let (t, w) = clk w;
              (res, w) = run (WithTimeout t timeout ctx) message w;
              (t', w) = clk w;
              (r, d) = timeout_finish name timeout (t' - startTime) res d
          in (r, d, w)
      | Err e \<Rightarrow> (Err e, d, w)
      | Panic p \<Rightarrow> (Panic p, d, w))"

section \<open>Streams\<close>

text \<open>
  The channels of one stream and its proxy: what is waiting in the source's two channels and
  whether they are closed, the error of the context once it is done, what the proxy is
  doing, and what it has sent.  \<open>sp_produced\<close> is everything the source has sent.
\<close>

datatype stream_pc = Waiting | Sending "message option" | Returned

record stream =
  sp_source :: "message option list"
  sp_source_closed :: bool
  sp_errs :: "go_error option list"
  sp_errs_closed :: bool
  sp_ctx :: "go_error option"
  sp_pc :: stream_pc
  sp_out :: "message option list"
  sp_out_errs :: "go_error list"
  sp_metrics :: TimeoutMetrics
  sp_produced :: "message option list"

definition sp_success :: "duration \<Rightarrow> stream \<Rightarrow> stream" where
  "sp_success duration s = s\<lparr>sp_pc := Returned, sp_metrics := RecordSuccess duration (sp_metrics s)\<rparr>"

definition sp_timeout :: "string \<Rightarrow> duration \<Rightarrow> duration \<Rightarrow> stream \<Rightarrow> stream" where
  "sp_timeout name timeout duration s =
     s\<lparr>sp_pc := Returned, sp_metrics := RecordTimeout duration (sp_metrics s),
       sp_out_errs := sp_out_errs s @ [TimeoutError name timeout]\<rparr>"

definition sp_error :: "string \<Rightarrow> duration \<Rightarrow> duration \<Rightarrow> go_error \<Rightarrow> stream \<Rightarrow> stream" where
  "sp_error name timeout duration e s =
     (if sp_ctx s = Some Context_DeadlineExceeded then sp_timeout name timeout duration s
      else s\<lparr>sp_pc := Returned, sp_metrics := RecordFailure duration (sp_metrics s),
             sp_out_errs := sp_out_errs s @ [e]\<rparr>)"

inductive sp_step :: "string \<Rightarrow> duration \<Rightarrow> stream \<Rightarrow> stream \<Rightarrow> bool"
  for name timeout where
  source_put: "\<not> sp_source_closed s \<Longrightarrow>
    sp_step name timeout s (s\<lparr>sp_source := sp_source s @ [m], sp_produced := sp_produced s @ [m]\<rparr>)"
| source_close: "sp_step name timeout s (s\<lparr>sp_source_closed := True\<rparr>)"
| errs_put: "\<not> sp_errs_closed s \<Longrightarrow> sp_step name timeout s (s\<lparr>sp_errs := sp_errs s @ [e]\<rparr>)"
| errs_close: "sp_step name timeout s (s\<lparr>sp_errs_closed := True\<rparr>)"
| ctx_end: "sp_ctx s = None \<Longrightarrow> sp_step name timeout s (s\<lparr>sp_ctx := Some e\<rparr>)"
| recv: "sp_pc s = Waiting \<Longrightarrow> sp_source s = m # ms \<Longrightarrow>
    sp_step name timeout s (s\<lparr>sp_source := ms, sp_pc := Sending m\<rparr>)"
| ended_error: "sp_pc s = Waiting \<Longrightarrow> sp_source s = [] \<Longrightarrow> sp_source_closed s \<Longrightarrow>
    sp_errs s = Some e # es \<Longrightarrow>
    sp_step name timeout s (sp_error name timeout duration e (s\<lparr>sp_errs := es\<rparr>))"
| ended_nil: "sp_pc s = Waiting \<Longrightarrow> sp_source s = [] \<Longrightarrow> sp_source_closed s \<Longrightarrow>
    sp_errs s = None # es \<Longrightarrow> sp_step name timeout s (sp_success duration (s\<lparr>sp_errs := es\<rparr>))"
| ended_none: "sp_pc s = Waiting \<Longrightarrow> sp_source s = [] \<Longrightarrow> sp_source_closed s \<Longrightarrow>
    sp_errs s = [] \<Longrightarrow> sp_step name timeout s (sp_success duration s)"
| recv_error: "sp_pc s = Waiting \<Longrightarrow> sp_errs s = Some e # es \<Longrightarrow>
    sp_step name timeout s (sp_error name timeout duration e (s\<lparr>sp_errs := es\<rparr>))"
| recv_nil: "sp_pc s = Waiting \<Longrightarrow> sp_errs s = None # es \<Longrightarrow> sp_step name timeout s (s\<lparr>sp_errs := es\<rparr>)"
| recv_closed: "sp_pc s = Waiting \<Longrightarrow> sp_errs s = [] \<Longrightarrow> sp_errs_closed s \<Longrightarrow> sp_step name timeout s s"
| wait_timeout: "sp_pc s = Waiting \<Longrightarrow> sp_ctx s \<noteq> None \<Longrightarrow>
    sp_step name timeout s (sp_timeout name timeout duration s)"
| send: "sp_pc s = Sending m \<Longrightarrow>
    sp_step name timeout s (s\<lparr>sp_pc := Waiting, sp_out := sp_out s @ [m]\<rparr>)"
| send_timeout: "sp_pc s = Sending m \<Longrightarrow> sp_ctx s \<noteq> None \<Longrightarrow>
    sp_step name timeout s (sp_timeout name timeout duration s)"

definition sp_init :: "TimeoutMetrics \<Rightarrow> stream \<Rightarrow> bool" where
  "sp_init m0 s \<longleftrightarrow>
     s = \<lparr>sp_source = [], sp_source_closed = False, sp_errs = [], sp_errs_closed = False,
          sp_ctx = None, sp_pc = Waiting, sp_out = [], sp_out_errs = [], sp_metrics = m0, sp_produced = []\<rparr>"

section \<open>The metrics middleware\<close>

record Metrics =
  mt_TotalRequests :: int
  mt_SuccessRequests :: int
  mt_ErrorRequests :: int
  mt_TotalLatency :: duration
  mt_MinLatency :: duration
  mt_MaxLatency :: duration
  mt_InFlightRequests :: int

definition NewMetrics :: Metrics where
  "NewMetrics =
     \<lparr>mt_TotalRequests = 0, mt_SuccessRequests = 0, mt_ErrorRequests = 0, mt_TotalLatency = 0,
      mt_MinLatency = 0, mt_MaxLatency = 0, mt_InFlightRequests = 0\<rparr>"

definition AverageLatency :: "Metrics \<Rightarrow> duration" where
  "AverageLatency m = (if mt_TotalRequests m = 0 then 0 else mt_TotalLatency m sdiv mt_TotalRequests m)"

definition ErrorRate :: "Metrics \<Rightarrow> real" where
  "ErrorRate m =
     (if mt_TotalRequests m = 0 then 0 else real_of_int (mt_ErrorRequests m) / real_of_int (mt_TotalRequests m))"

definition metrics_Reset :: "Metrics \<Rightarrow> Metrics" where
  "metrics_Reset m =
     m\<lparr>mt_TotalRequests := 0, mt_SuccessRequests := 0, mt_ErrorRequests := 0, mt_TotalLatency := 0,
       mt_MinLatency := 0, mt_MaxLatency := 0, mt_InFlightRequests := 0\<rparr>"

text \<open>The critical sections of \<open>Process\<close>: the entry, the update after the call, the deferred exit.\<close>

definition metrics_enter :: "Metrics \<Rightarrow> Metrics" where
  "metrics_enter m = m\<lparr>mt_InFlightRequests := mt_InFlightRequests m + 1\<rparr>"

definition metrics_record :: "duration \<Rightarrow> bool \<Rightarrow> Metrics \<Rightarrow> Metrics" where
  "metrics_record latency failed m =
     (let m = m\<lparr>mt_TotalRequests := mt_TotalRequests m + 1, mt_TotalLatency := mt_TotalLatency m + latency\<rparr>;
          m = (if mt_MinLatency m = 0 \<or> latency < mt_MinLatency m then m\<lparr>mt_MinLatency := latency\<rparr> else m);
          m = (if latency > mt_MaxLatency m then m\<lparr>mt_MaxLatency := latency\<rparr> else m)
      in if failed then m\<lparr>mt_ErrorRequests := mt_ErrorRequests m + 1\<rparr>
         else m\<lparr>mt_SuccessRequests := mt_SuccessRequests m + 1\<rparr>)"

definition metrics_leave :: "Metrics \<Rightarrow> Metrics" where
  "metrics_leave m = m\<lparr>mt_InFlightRequests := mt_InFlightRequests m - 1\<rparr>"

definition metrics_Process ::
    "'w clock \<Rightarrow> 'w agent \<Rightarrow> go_ctx \<Rightarrow> message option \<Rightarrow> Metrics \<times> 'w \<Rightarrow> reply \<times> Metrics \<times> 'w" where
  "metrics_Process clk a ctx message mw =
     (let (m, w) = mw; m = metrics_enter m; (start, w) = clk w;
          (r, w) = agent_Process a ctx message w
      in case r of
           Panic p \<Rightarrow> (Panic p, metrics_leave m, w)
         | _ \<Rightarrow> let (t, w) = clk w in (r, metrics_leave (metrics_record (t - start) (\<not> is_Ok r) m), w))"

section \<open>Statistics of durations\<close>

datatype verdict = Succeeded | TimedOut | Failed

fun tm_record :: "verdict \<times> duration \<Rightarrow> TimeoutMetrics \<Rightarrow> TimeoutMetrics" where
  "tm_record (Succeeded, d) m = RecordSuccess d m"
| "tm_record (TimedOut, d) m = RecordTimeout d m"
| "tm_record (Failed, d) m = RecordFailure d m"

lemmas record_defs = RecordSuccess_def RecordTimeout_def RecordFailure_def

lemma updateDurationStats_counts [simp]:
  "tm_TotalRequests (updateDurationStats d m) = tm_TotalRequests m"
  "tm_SuccessfulRequests (updateDurationStats d m) = tm_SuccessfulRequests m"
  "tm_TimedOutRequests (updateDurationStats d m) = tm_TimedOutRequests m"
  "tm_FailedRequests (updateDurationStats d m) = tm_FailedRequests m"
  "tm_TotalDuration (updateDurationStats d m) = tm_TotalDuration m + d"
  by (simp_all add: updateDurationStats_def Let_def split: option.split)

lemma updateDurationStats_extremes [simp]:
  "tm_MinDuration (updateDurationStats d m) =
     Some (case tm_MinDuration m of None \<Rightarrow> d | Some x \<Rightarrow> min d x)"
  "tm_MaxDuration (updateDurationStats d m) =
     Some (case tm_MaxDuration m of None \<Rightarrow> d | Some x \<Rightarrow> max d x)"
  by (auto simp: updateDurationStats_def Let_def min_def max_def split: option.split)

text \<open>What the metrics say about the requests \<open>es\<close>.\<close>

definition tm_describes :: "(verdict \<times> duration) list \<Rightarrow> TimeoutMetrics \<Rightarrow> bool" where
  "tm_describes es m \<longleftrightarrow>
     tm_TotalRequests m = int (length es) \<and>
     tm_SuccessfulRequests m = int (length (filter (\<lambda>e. fst e = Succeeded) es)) \<and>
     tm_TimedOutRequests m = int (length (filter (\<lambda>e. fst e = TimedOut) es)) \<and>
     tm_FailedRequests m = int (length (filter (\<lambda>e. fst e = Failed) es)) \<and>
     tm_TotalDuration m = sum_list (map snd es) \<and>
     tm_MinDuration m = (if es = [] then None else Some (Min (snd ` set es))) \<and>
     tm_MaxDuration m = (if es = [] then None else Some (Max (snd ` set es)))"

lemma tm_describes_record:
  assumes "tm_describes es m"
  shows "tm_describes (es @ [e]) (tm_record e m)"
proof (cases e)
  case (Pair v d)
  show ?thesis
    using assms Pair by (cases v; cases "es = []") (auto simp: tm_describes_def record_defs)
qed

lemma tm_describes_run: "tm_describes es (fold tm_record es NewTimeoutMetrics)"
proof (induction es rule: rev_induct)
  case Nil
  show ?case by (simp add: tm_describes_def NewTimeoutMetrics_def)
next
  case (snoc e es)
  then show ?case by (simp add: tm_describes_record)
qed

lemma sdiv_between:
  fixes a lo hi n :: int
  assumes "0 < n" and "lo * n \<le> a" and "a \<le> hi * n"
  shows "lo \<le> a sdiv n \<and> a sdiv n \<le> hi"
proof (cases "0 \<le> a")
  case True
  then have "a sdiv n = a div n" using assms(1) by (cases "a = 0") (simp_all add: signed_divide_int_def)
  moreover have "lo * n div n \<le> a div n" using assms by (intro zdiv_mono1)
  moreover have "a div n \<le> hi * n div n" using assms by (intro zdiv_mono1)
  ultimately show ?thesis using assms(1) by simp
next
  case False
  then have eq: "a sdiv n = - ((- a) div n)" using assms(1) by (simp add: signed_divide_int_def)
  have cancel: "x * n div n = x" for x using assms(1) by simp
  have "(- hi * n) div n \<le> (- a) div n" using assms by (intro zdiv_mono1) auto
  moreover have "(- a) div n \<le> (- lo * n) div n" using assms by (intro zdiv_mono1) auto
  ultimately show ?thesis unfolding eq cancel by simp
qed

lemma sum_list_between:
  fixes ds :: "int list"
  assumes "ds \<noteq> []"
  shows "Min (set ds) * int (length ds) \<le> sum_list ds \<and> sum_list ds \<le> Max (set ds) * int (length ds)"
proof -
  have "lo * int (length ds) \<le> sum_list ds" if "\<And>d. d \<in> set ds \<Longrightarrow> lo \<le> d" for lo
    using that by (induction ds) (force simp: algebra_simps)+
  moreover have "sum_list ds \<le> hi * int (length ds)" if "\<And>d. d \<in> set ds \<Longrightarrow> d \<le> hi" for hi
    using that by (induction ds) (force simp: algebra_simps)+
  ultimately show ?thesis by simp
qed

text \<open>Every request that does not panic is recorded once, under the verdict its caller sees.\<close>

lemma timeout_Process_records:
  assumes "timeout_Process clk run name ctx message (d, w) = (r, d', w')" and "\<not> is_Panic r"
  shows "\<exists>v duration. td_metrics d' = tm_record (v, duration) (td_metrics d) \<and>
     (v = Succeeded \<longleftrightarrow> is_Ok r) \<and> (v = TimedOut \<longrightarrow> (\<exists>timeout. r = Err (TimeoutError name timeout)))"
proof -
  have fin: "\<exists>v. td_metrics d2 = tm_record (v, t) (td_metrics d) \<and> (v = Succeeded \<longleftrightarrow> is_Ok r2) \<and>
      (v = TimedOut \<longrightarrow> (\<exists>timeout. r2 = Err (TimeoutError name timeout)))"
    if "timeout_finish name k t res d = (r2, d2)" "\<not> is_Panic r2" for k t res r2 d2
    using that
  proof (induction name k t res d rule: timeout_finish.induct)
    case (1 name k t x cerr d)
    then show ?case by (intro exI [of _ Succeeded]) (auto simp: td_upd_def)
  next
    case (2 name k t e cerr d)
    then show ?case
      by (cases "cerr = Some Context_DeadlineExceeded")
        (auto simp: td_upd_def intro: exI [of _ TimedOut] exI [of _ Failed])
  next
    case (4 name k t d)
    then show ?case by (intro exI [of _ TimedOut]) (auto simp: td_upd_def)
  qed auto
  have "getTimeoutForMessage (td_config d) message \<noteq> Err e" for e
    by (simp add: getTimeoutForMessage_def Let_def split: option.split)
  then show ?thesis
    using assms fin by (fastforce simp: timeout_Process_def Let_def split: prod.splits outcome.splits)
qed

text \<open>The metrics middleware counts a request once and leaves no request in flight behind.\<close>

lemma metrics_Process_counts:
  assumes "metrics_Process clk a ctx message (m, w) = (r, m', w')"
  shows "mt_InFlightRequests m' = mt_InFlightRequests m \<and>
     mt_TotalRequests m' = mt_TotalRequests m + (if is_Panic r then 0 else 1) \<and>
     mt_SuccessRequests m' = mt_SuccessRequests m + (if is_Ok r then 1 else 0) \<and>
     mt_ErrorRequests m' = mt_ErrorRequests m + (if is_Ok r \<or> is_Panic r then 0 else 1)"
  using assms
  by (auto simp: metrics_Process_def metrics_enter_def metrics_record_def metrics_leave_def Let_def
      split: prod.splits outcome.splits if_splits)

section \<open>The proxy of a stream\<close>

fun in_hand :: "stream_pc \<Rightarrow> message option list" where
  "in_hand (Sending m) = [m]"
| "in_hand _ = []"

definition sp_inv :: "TimeoutMetrics \<Rightarrow> stream \<Rightarrow> bool" where
  "sp_inv m0 s \<longleftrightarrow>
     (if sp_pc s = Returned then
        prefix (sp_out s) (sp_produced s) \<and> length (sp_out_errs s) \<le> 1 \<and>
        tm_TotalRequests (sp_metrics s) = tm_TotalRequests m0 + 1 \<and>
        (sp_out_errs s = [] \<longleftrightarrow> tm_SuccessfulRequests (sp_metrics s) = tm_SuccessfulRequests m0 + 1) \<and>
        (sp_out_errs s = [] \<longrightarrow> sp_source_closed s \<and> sp_out s = sp_produced s)
      else
        sp_produced s = sp_out s @ in_hand (sp_pc s) @ sp_source s \<and>
        sp_out_errs s = [] \<and> sp_metrics s = m0)"

lemma sp_inv_timeout:
  "sp_inv m0 s \<Longrightarrow> sp_pc s \<noteq> Returned \<Longrightarrow> sp_inv m0 (sp_timeout name timeout d s)"
  by (auto simp: sp_inv_def sp_timeout_def record_defs)

lemma sp_inv_error:
  "sp_inv m0 s \<Longrightarrow> sp_pc s \<noteq> Returned \<Longrightarrow> sp_inv m0 (sp_error name timeout d e s)"
  using sp_inv_timeout [of m0 s name timeout d] by (auto simp: sp_inv_def sp_error_def record_defs)

lemma sp_inv_success:
  "sp_inv m0 s \<Longrightarrow> sp_pc s = Waiting \<Longrightarrow> sp_source s = [] \<Longrightarrow> sp_source_closed s \<Longrightarrow>
     sp_inv m0 (sp_success d s)"
  by (auto simp: sp_inv_def sp_success_def record_defs)

lemma sp_inv_errs: "sp_inv m0 s \<Longrightarrow> sp_inv m0 (s\<lparr>sp_errs := es\<rparr>)"
  by (auto simp: sp_inv_def split: if_splits)

lemma sp_inv_step: "sp_step name timeout s t \<Longrightarrow> sp_inv m0 s \<Longrightarrow> sp_inv m0 t"
proof (induction rule: sp_step.induct)
  case (source_put s m)
  then show ?case by (auto simp: sp_inv_def)
qed (auto intro: sp_inv_timeout sp_inv_error sp_inv_success sp_inv_errs, auto simp: sp_inv_def)

interpretation stream_proxy: inductive_invariant "sp_init m0" "sp_step name timeout" "sp_inv m0"
proof unfold_locales
  show "sp_init m0 s \<Longrightarrow> sp_inv m0 s" for s by (simp add: sp_init_def sp_inv_def)
  show "sp_inv m0 s \<Longrightarrow> sp_step name timeout s t \<Longrightarrow> sp_inv m0 t" for s t by (rule sp_inv_step)
qed

section \<open>Properties\<close>

text \<open>
  A stream through the timeout middleware, in every reachable state of its proxy: what
  was delivered is a prefix of what the source produced, in order; at most one error is
  reported; the stream is counted exactly once, when the proxy returns, and counted as a
  success exactly if no error is reported; and then nothing was lost: the source is closed
  and everything it produced was delivered.
\<close>

lemma stream_delivers:
  assumes "reach (sp_init m0) (sp_step name timeout) s"
  shows "prefix (sp_out s) (sp_produced s) \<and> length (sp_out_errs s) \<le> 1 \<and>
     (if sp_pc s = Returned
      then tm_TotalRequests (sp_metrics s) = tm_TotalRequests m0 + 1 \<and>
           (sp_out_errs s = [] \<longleftrightarrow> tm_SuccessfulRequests (sp_metrics s) = tm_SuccessfulRequests m0 + 1) \<and>
           (sp_out_errs s = [] \<longrightarrow> sp_source_closed s \<and> sp_out s = sp_produced s)
      else sp_metrics s = m0 \<and> sp_out_errs s = [])"
  using stream_proxy.reach_inv [OF assms] by (auto simp: sp_inv_def split: if_splits)

text \<open>
  The statistics of the timeout middleware describe the requests exactly: the counters are
  the numbers of requests that succeeded, timed out and failed, the total duration is the
  sum, the extremes are the shortest and the longest duration, and the average lies between
  them.
\<close>

lemma timeout_metrics_exact:
  assumes "es \<noteq> []" and "m = fold tm_record es NewTimeoutMetrics"
  shows "tm_describes es m \<and>
     tm_TotalRequests m = tm_SuccessfulRequests m + tm_TimedOutRequests m + tm_FailedRequests m \<and>
     (\<exists>lo hi. tm_MinDuration m = Some lo \<and> tm_MaxDuration m = Some hi \<and>
        lo \<le> AvgDuration m \<and> AvgDuration m \<le> hi)"
proof -
  have d: "tm_describes es m" using assms(2) tm_describes_run by simp
  have split: "length es = length (filter (\<lambda>e. fst e = Succeeded) es) +
      length (filter (\<lambda>e. fst e = TimedOut) es) + length (filter (\<lambda>e. fst e = Failed) es)" for es :: "(verdict \<times> duration) list"
  proof (induction es)
    case (Cons e es)
    then show ?case by (cases "fst e") auto
  qed simp
  have "Min (snd ` set es) \<le> AvgDuration m \<and> AvgDuration m \<le> Max (snd ` set es)"
    using sdiv_between [of "int (length es)" "Min (set (map snd es))" "sum_list (map snd es)" "Max (set (map snd es))"]
      sum_list_between [of "map snd es"] assms(1) d
    by (simp add: AvgDuration_def tm_describes_def)
  then show ?thesis using d split [of es] assms(1) by (simp add: tm_describes_def)
qed

end
