(* ===== verification/Go_Json.thy ===== *)
theory Go_Json
  imports Go_Prelude
begin

text \<open>
  The encoding of strings and values that package \<open>encoding/json\<close> of Go implements, as far as
  the components use it.

  A text is represented by the value that \<open>json.Unmarshal\<close> reads from it into an
  \<open>interface{}\<close>.  Writing a value and reading it back changes it: numbers become \<open>float64\<close>
  values (rounded to the nearest one), bytes that are no UTF-8 become the replacement
  character, keys that become equal are merged, and a function has no text at all.  The
  predicate \<open>json_ok\<close> says when none of this loses anything but the type of numbers.
  \<open>float64\<close> values are reals here, so NaN and the infinities, for which \<open>json.Marshal\<close> fails
  too, are not among the values; times lie in the years 0 to 9999, whose texts exist.
\<close>

section \<open>UTF-8\<close>

text \<open>
  The conversion of a string to its runes, with their width in bytes: UTF-8, where a byte that
  starts no valid encoding counts as the replacement character.
\<close>

definition between :: "nat \<Rightarrow> nat \<Rightarrow> nat \<Rightarrow> bool" where
  "between lo hi b \<longleftrightarrow> lo \<le> b \<and> b \<le> hi"

fun multibyte :: "nat \<Rightarrow> nat list \<Rightarrow> (nat \<times> nat) option" where
  "multibyte b0 bs =
     (if between 0xC2 0xDF b0 then
        (case bs of
           b1 # _ \<Rightarrow> if between 0x80 0xBF b1 then Some ((b0 - 0xC0) * 64 + (b1 - 0x80), 1) else None
         | _ \<Rightarrow> None)
      else if between 0xE0 0xEF b0 then
        (case bs of
           b1 # b2 # _ \<Rightarrow>
             if between (if b0 = 0xE0 then 0xA0 else 0x80) (if b0 = 0xED then 0x9F else 0xBF) b1 \<and> between 0x80 0xBF b2
             then Some ((b0 - 0xE0) * 4096 + (b1 - 0x80) * 64 + (b2 - 0x80), 2) else None
         | _ \<Rightarrow> None)
      else if between 0xF0 0xF4 b0 then
        (case bs of
           b1 # b2 # b3 # _ \<Rightarrow>
             if between (if b0 = 0xF0 then 0x90 else 0x80) (if b0 = 0xF4 then 0x8F else 0xBF) b1 \<and> between 0x80 0xBF b2 \<and> between 0x80 0xBF b3
             then Some ((b0 - 0xF0) * 262144 + (b1 - 0x80) * 4096 + (b2 - 0x80) * 64 + (b3 - 0x80), 3) else None
         | _ \<Rightarrow> None)
      else None)"

declare multibyte.simps [simp del]

function decode_runes :: "nat list \<Rightarrow> (nat \<times> nat) list" where
  "decode_runes [] = []"
| "decode_runes (b # bs) =
     (if b < 0x80 then (b, 1) # decode_runes bs
      else
        (case multibyte b bs of
           Some (r, k) \<Rightarrow> (r, Suc k) # decode_runes (drop k bs)
         | None \<Rightarrow> (0xFFFD, 1) # decode_runes bs))"
  by pat_completeness auto
termination by (relation "measure length") auto

definition runes :: "string \<Rightarrow> nat list" where
  "runes s = map fst (decode_runes (map of_char s))"

lemma runes_ascii: "list_all (\<lambda>c. of_char c < (128 :: nat)) s \<Longrightarrow> runes s = map of_char s"
  unfolding runes_def by (induction s) auto

text \<open>The bytes of a string in a JSON text, as they are read back.\<close>

function json_bytes :: "nat list \<Rightarrow> nat list" where
  "json_bytes [] = []"
| "json_bytes (b # bs) =
     (if b < 0x80 then b # json_bytes bs
      else
        (case multibyte b bs of
           Some (r, k) \<Rightarrow> b # take k bs @ json_bytes (drop k bs)
         | None \<Rightarrow> [0xEF, 0xBF, 0xBD] @ json_bytes bs))"
  by pat_completeness auto
termination by (relation "measure length") auto

definition json_string :: "string \<Rightarrow> string" where
  "json_string s = map char_of (json_bytes (map of_char s))"

function valid_bytes :: "nat list \<Rightarrow> bool" where
  "valid_bytes [] = True"
| "valid_bytes (b # bs) =
     (if b < 0x80 then valid_bytes bs
      else
        (case multibyte b bs of
           Some (r, k) \<Rightarrow> valid_bytes (drop k bs)
         | None \<Rightarrow> False))"
  by pat_completeness auto
termination by (relation "measure length") auto

definition valid_utf8 :: "string \<Rightarrow> bool" where
  "valid_utf8 s \<longleftrightarrow> valid_bytes (map of_char s)"

lemma json_bytes_valid: "valid_bytes bs \<Longrightarrow> json_bytes bs = bs"
  by (induction bs rule: valid_bytes.induct) (auto split: if_splits option.splits)

lemma json_string_valid [simp]: "valid_utf8 s \<Longrightarrow> json_string s = s"
  by (simp add: json_string_def valid_utf8_def json_bytes_valid comp_def)

lemma valid_utf8_Nil [simp]: "valid_utf8 []"
  by (simp add: valid_utf8_def)

lemma valid_utf8_Cons [simp]: "of_char c < (128 :: nat) \<Longrightarrow> valid_utf8 (c # s) = valid_utf8 s"
  by (simp add: valid_utf8_def)

lemma valid_ascii: "list_all (\<lambda>c. of_char c < (128 :: nat)) s \<Longrightarrow> valid_utf8 s"
  by (induction s) auto

text \<open>Evaluation of these functions on ASCII texts.\<close>

lemma of_char_ascii: "of_char c < (128 :: nat) \<longleftrightarrow> \<not> digit7 c"
proof (cases c)
  case (Char b0 b1 b2 b3 b4 b5 b6 b7)
  then show ?thesis by (cases b0; cases b1; cases b2; cases b3; cases b4; cases b5; cases b6; cases b7) simp_all
qed

lemma json_string_code [code]:
  "json_string s = (if list_all (\<lambda>c. \<not> digit7 c) s then s else map char_of (json_bytes (map of_char s)))"
  using valid_ascii [of s] by (simp add: of_char_ascii) (simp add: json_string_def)

lemma valid_utf8_code [code]:
  "valid_utf8 s = (if list_all (\<lambda>c. \<not> digit7 c) s then True else valid_bytes (map of_char s))"
  using valid_ascii [of s] by (simp add: of_char_ascii) (simp add: valid_utf8_def)

section \<open>Numbers\<close>

text \<open>
  The nearest \<open>float64\<close> to an integer, ties to even: a \<open>float64\<close> has 53 significant bits, so
  an integer of more bits is a multiple of a power of two.
\<close>

function excess_bits :: "int \<Rightarrow> nat" where
  "excess_bits n = (if n < 2 ^ 53 then 0 else Suc (excess_bits (n div 2)))"
  by pat_completeness auto
termination by (relation "measure nat") auto

declare excess_bits.simps [simp del]

definition round_significand :: "int \<Rightarrow> int" where
  "round_significand n =
     (let u = 2 ^ excess_bits n; q = n div u; r = n mod u in
      if 2 * r < u \<or> 2 * r = u \<and> even q then q * u else (q + 1) * u)"

definition float64_of_int :: "int \<Rightarrow> real" where
  "float64_of_int i = real_of_int (if i < 0 then - round_significand (- i) else round_significand i)"

definition exact_int :: "int \<Rightarrow> bool" where
  "exact_int i \<longleftrightarrow> \<bar>i\<bar> \<le> 2 ^ 53"

lemma round_significand_exact: "0 \<le> n \<Longrightarrow> n \<le> 2 ^ 53 \<Longrightarrow> round_significand n = n"
proof (cases "n = 2 ^ 53")
  case True
  then show ?thesis by (simp add: round_significand_def excess_bits.simps)
next
  case False
  assume "0 \<le> n" "n \<le> 2 ^ 53"
  with False have "excess_bits n = 0" by (simp add: excess_bits.simps)
  then show ?thesis by (simp add: round_significand_def)
qed

lemma float64_exact [simp]: "exact_int i \<Longrightarrow> float64_of_int i = real_of_int i"
  by (auto simp: float64_of_int_def exact_int_def round_significand_exact)

lemma float64_code [code]:
  "float64_of_int i = (if \<bar>i\<bar> \<le> 2 ^ 53 then real_of_int i
     else real_of_int (if i < 0 then - round_significand (- i) else round_significand i))"
  using float64_exact [of i] by (simp add: exact_int_def float64_of_int_def)

section \<open>Values\<close>

text \<open>
  The keys of an object: \<open>json.Marshal\<close> writes them in the order of their bytes, and of keys
  with one text \<open>json.Unmarshal\<close> keeps the last.
\<close>

definition json_keys :: "(string \<times> 'a) list \<Rightarrow> (string \<times> 'a) list" where
  "json_keys m =
     (let ts = map (\<lambda>(k, v). (json_string k, k, v)) m in
      map (\<lambda>(t, k, v). (t, v))
        (filter (\<lambda>(t, k, v). list_all (\<lambda>(t', k', v'). if t' = t then k' \<le> k else True) ts) ts))"

text \<open>
  What \<open>json.Unmarshal\<close> makes of the text of a value: every number is a \<open>float64\<close>, every
  slice a \<open>[]interface{}\<close>.
\<close>

fun json_value :: "gval \<Rightarrow> gval" where
  "json_value (GInt i) = GFloat (float64_of_int i)"
| "json_value (GStr s) = GStr (json_string s)"
| "json_value (GStrs ss) = GList (map (GStr \<circ> json_string) ss)"
| "json_value (GList vs) = GList (map json_value vs)"
| "json_value (GMap kvs) = GMap (json_keys (map (\<lambda>(k, v). (k, json_value v)) kvs))"
| "json_value v = v"

type_synonym gmap = "(string \<times> gval) list"

definition json_map :: "gmap \<Rightarrow> gmap" where
  "json_map m = json_keys (map (\<lambda>(k, v). (k, json_value v)) m)"

text \<open>A nil map is written as \<open>null\<close>.\<close>

definition json_of_map :: "gmap option \<Rightarrow> gval" where
  "json_of_map m = (case m of None \<Rightarrow> GNil | Some kvs \<Rightarrow> GMap kvs)"

fun json_supported :: "gval \<Rightarrow> bool" where
  "json_supported (GFunc s) = False"
| "json_supported (GList vs) = list_all json_supported vs"
| "json_supported (GMap kvs) = list_all (\<lambda>(k, v). json_supported v) kvs"
| "json_supported v = True"

datatype json_text = Json gval | Malformed go_error

definition json_Marshal :: "gval \<Rightarrow> json_text outcome" where
  "json_Marshal v =
     (if json_supported v then Ok (Json (json_value v))
      else Err (Errors_New ''json: unsupported type: func()''))"

text \<open>Values that the text represents exactly: nothing but the type of a number is lost.\<close>

fun json_ok :: "gval \<Rightarrow> bool" where
  "json_ok (GInt i) = exact_int i"
| "json_ok (GStr s) = valid_utf8 s"
| "json_ok (GStrs ss) = list_all valid_utf8 ss"
| "json_ok (GList vs) = list_all json_ok vs"
| "json_ok (GMap kvs) = list_all (\<lambda>(k, v). valid_utf8 k \<and> json_ok v) kvs"
| "json_ok (GFunc s) = False"
| "json_ok v = True"

lemma json_value_GMap [simp]: "json_value (GMap m) = GMap (json_map m)"
  by (simp add: json_map_def)

declare json_value.simps(5) [simp del]

lemma json_ok_supported: "json_ok v \<Longrightarrow> json_supported v"
  by (induction v rule: json_ok.induct) (auto simp: list_all_iff)

lemma json_Marshal_ok: "json_ok v \<Longrightarrow> json_Marshal v = Ok (Json (json_value v))"
  by (simp add: json_Marshal_def json_ok_supported)

definition valid_keys :: "(string \<times> 'a) list \<Rightarrow> bool" where
  "valid_keys m \<longleftrightarrow> list_all (valid_utf8 \<circ> fst) m"

lemma valid_keys_simps [simp]: "valid_keys []" "valid_keys (x # m) \<longleftrightarrow> valid_utf8 (fst x) \<and> valid_keys m"
  "valid_keys (m @ m') \<longleftrightarrow> valid_keys m \<and> valid_keys m'"
  by (simp_all add: valid_keys_def)

lemma json_keys_valid: "valid_keys m \<Longrightarrow> json_keys m = m"
proof -
  assume "valid_keys m"
  then have ts: "map (\<lambda>(k, v). (json_string k, k, v)) m = map (\<lambda>(k, v). (k, k, v)) m"
    by (auto simp: valid_keys_def list_all_iff)
  let ?ts = "map (\<lambda>(k, v). (k, k, v)) m"
  have "filter (\<lambda>(t, k, v). list_all (\<lambda>(t', k', v'). if t' = t then k' \<le> k else True) ?ts) ?ts = ?ts"
    by (intro filter_True) (auto simp: list_all_iff)
  then show ?thesis unfolding json_keys_def ts Let_def by (simp add: comp_def case_prod_beta)
qed

lemma json_map_valid: "valid_keys m \<Longrightarrow> json_map m = map (\<lambda>(k, v). (k, json_value v)) m"
  unfolding json_map_def by (rule json_keys_valid) (auto simp: valid_keys_def list_all_iff)

lemma json_map_get: "valid_keys m \<Longrightarrow> go_get (json_map m) k = map_option json_value (go_get m k)"
  by (subst json_map_valid, assumption) (induction m, auto)

lemma json_map_Nil [simp]: "json_map [] = []"
  by (simp add: json_map_def json_keys_def)

lemma json_ok_map: "json_ok (GMap m) \<longleftrightarrow> valid_keys m \<and> (\<forall>(k, v) \<in> set m. json_ok v)"
  by (auto simp: valid_keys_def list_all_iff)

text \<open>Reading and writing such a value again changes nothing more.\<close>

lemma json_value_again: "json_ok v \<Longrightarrow> json_ok (json_value v) \<and> json_value (json_value v) = json_value v"
proof (induction v rule: json_value.induct)
  case (5 kvs)
  have vk: "valid_keys kvs" and ok: "\<forall>(k, v) \<in> set kvs. json_ok v" using "5.prems" unfolding json_ok_map by auto
  have ih: "json_ok (json_value v) \<and> json_value (json_value v) = json_value v" if "(k, v) \<in> set kvs" for k v
    using "5.IH" that ok by fastforce
  have m: "json_map kvs = map (\<lambda>(k, v). (k, json_value v)) kvs" using vk by (rule json_map_valid)
  have vk': "valid_keys (json_map kvs)" using vk by (auto simp: m valid_keys_def list_all_iff)
  have "json_map (json_map kvs) = json_map kvs"
    using ih unfolding json_map_valid [OF vk'] by (auto simp: m)
  moreover have "json_ok (GMap (json_map kvs))"
    unfolding json_ok_map using vk' ih by (auto simp: m)
  ultimately show ?case by simp
qed (auto simp: list_all_iff)

lemma json_map_again: "json_ok (GMap m) \<Longrightarrow> json_ok (GMap (json_map m)) \<and> json_map (json_map m) = json_map m"
  using json_value_again [of "GMap m"] by simp

lemma json_value_of_map: "json_value (json_of_map m) = json_of_map (map_option json_map m)"
  by (simp add: json_of_map_def split: option.split)

lemma json_value_GInt: "json_value v \<noteq> GInt i"
  by (cases v) auto

lemma json_map_GInt: "go_get (json_map m) k \<noteq> Some (GInt i)"
proof
  assume "go_get (json_map m) k = Some (GInt i)"
  then have "(k, GInt i) \<in> set (json_map m)" by (rule map_of_SomeD)
  then show False by (auto simp: json_map_def json_keys_def json_value_GInt [symmetric] Let_def)
qed

end
