(* ===== verification/Checkpoint.thy ===== *)
theory Checkpoint
  imports Message Go_Json
begin

text \<open>
  Checkpoints and their storage (\<open>checkpointing/checkpoint.go\<close>, \<open>checkpointing/storage.go\<close>,
  \<open>checkpointing/migration.go\<close>).

  The agent state of a checkpoint has a type \<open>'st\<close> of its own: the content of the map where a
  checkpoint is written to JSON, and the address of the map where the reference matters
  (theory \<open>Durable\<close>).  A JSON text is represented by the value that \<open>json.Unmarshal\<close> reads
  from it (theory \<open>Go_Json\<close>); the texts of times are parameters with the law of \<open>time.RFC3339\<close>.
\<close>

section \<open>Checkpoints\<close>

record 'st Checkpoint =
  CheckpointID :: string
  SessionID :: string
  AgentName :: string
  Timestamp :: time
  StepNumber :: int
  State :: 'st
  Messages :: "message list"
  Metadata :: "gmap option"
  ParentCheckpointID :: "string option"

text \<open>The same checkpoint with another representation of its state.\<close>

definition with_State :: "'b \<Rightarrow> 'a Checkpoint \<Rightarrow> 'b Checkpoint" where
  "with_State s c =
     \<lparr>CheckpointID = CheckpointID c, SessionID = SessionID c, AgentName = AgentName c,
      Timestamp = Timestamp c, StepNumber = StepNumber c, State = s, Messages = Messages c,
      Metadata = Metadata c, ParentCheckpointID = ParentCheckpointID c\<rparr>"

section \<open>JSON\<close>

text \<open>How Go writes and reads times: \<open>time.RFC3339\<close>, and the format of \<open>time.Time\<close> in JSON.\<close>

record time_texts =
  format_RFC3339 :: "time \<Rightarrow> string"
  parse_RFC3339 :: "string \<Rightarrow> time option"
  format_JSON :: "time \<Rightarrow> string"
  parse_JSON :: "string \<Rightarrow> time option"

text \<open>
  \<open>time.RFC3339\<close> keeps whole seconds, the format in JSON (\<open>time.RFC3339Nano\<close>) nanoseconds; the
  texts are ASCII.
\<close>

definition rfc3339 :: "time_texts \<Rightarrow> bool" where
  "rfc3339 tt \<longleftrightarrow>
     (\<forall>t. parse_RFC3339 tt (format_RFC3339 tt t) = Some (t div second * second) \<and>
       valid_utf8 (format_RFC3339 tt t) \<and> valid_utf8 (format_JSON tt t))"

definition rfc3339_nano :: "time_texts \<Rightarrow> bool" where
  "rfc3339_nano tt \<longleftrightarrow> (\<forall>t. parse_JSON tt (format_JSON tt t) = Some t \<and> valid_utf8 (format_JSON tt t))"

definition message_json :: "time_texts \<Rightarrow> message \<Rightarrow> gval" where
  "message_json tt m =
     GMap [(''role'', GStr (msg_role m)), (''content'', msg_content m),
           (''metadata'', json_of_map (msg_metadata m)),
           (''timestamp'', GStr (format_JSON tt (msg_timestamp m)))]"

definition ToMap :: "time_texts \<Rightarrow> gmap option Checkpoint \<Rightarrow> gmap" where
  "ToMap tt c =
     [(''checkpoint_id'', GStr (CheckpointID c)), (''session_id'', GStr (SessionID c)),
      (''agent_name'', GStr (AgentName c)), (''timestamp'', GStr (format_RFC3339 tt (Timestamp c))),
      (''step_number'', GInt (StepNumber c)), (''state'', json_of_map (State c)),
      (''messages'', GList (map (message_json tt) (Messages c))),
      (''metadata'', json_of_map (Metadata c))] @
     (case ParentCheckpointID c of None \<Rightarrow> [] | Some p \<Rightarrow> [(''parent_checkpoint_id'', GStr p)])"

definition ToJSON :: "time_texts \<Rightarrow> gmap option Checkpoint \<Rightarrow> json_text outcome" where
  "ToJSON tt c =
     (case json_Marshal (GMap (ToMap tt c)) of
        Err e \<Rightarrow> Err e
      | r \<Rightarrow> r)"

text \<open>\<open>data[k].(string)\<close> and \<open>data[k].(float64)\<close> without the second result panic.\<close>

definition assert_string :: "gmap \<Rightarrow> string \<Rightarrow> string outcome" where
  "assert_string data k =
     (case go_get data k of Some (GStr s) \<Rightarrow> Ok s | _ \<Rightarrow> Panic ''interface conversion'')"

definition assert_float :: "gmap \<Rightarrow> string \<Rightarrow> real outcome" where
  "assert_float data k =
     (case go_get data k of Some (GFloat x) \<Rightarrow> Ok x | _ \<Rightarrow> Panic ''interface conversion'')"

definition get_map :: "gmap \<Rightarrow> string \<Rightarrow> gmap option" where
  "get_map data k = (case go_get data k of Some (GMap m) \<Rightarrow> Some m | _ \<Rightarrow> None)"

definition get_string :: "gmap \<Rightarrow> string \<Rightarrow> string option" where
  "get_string data k = (case go_get data k of Some (GStr s) \<Rightarrow> Some s | _ \<Rightarrow> None)"

fun read_messages :: "gval list \<Rightarrow> message list" where
  "read_messages [] = []"
| "read_messages (GMap mm # vs) =
     \<lparr>msg_role = (case get_string mm ''role'' of Some s \<Rightarrow> s | None \<Rightarrow> []),
      msg_content = (case get_string mm ''content'' of Some s \<Rightarrow> GStr s | None \<Rightarrow> GNil),
      msg_metadata = get_map mm ''metadata'',
      msg_timestamp = 0\<rparr> # read_messages vs"
| "read_messages (_ # vs) = read_messages vs"

definition read_timestamp :: "time_texts \<Rightarrow> gmap \<Rightarrow> time" where
  "read_timestamp tt data =
     (case get_string data ''timestamp'' of
        Some s \<Rightarrow> (case parse_RFC3339 tt s of Some t \<Rightarrow> t | None \<Rightarrow> 0)
      | None \<Rightarrow> 0)"

definition read_checkpoint :: "time_texts \<Rightarrow> gmap \<Rightarrow> gmap option Checkpoint outcome" where
  "read_checkpoint tt data =
     (case (assert_string data ''checkpoint_id'', assert_string data ''session_id'',
            assert_string data ''agent_name'', assert_float data ''step_number'') of
        (Ok cid, Ok sid, Ok name, Ok step) \<Rightarrow>
          Ok \<lparr>CheckpointID = cid, SessionID = sid, AgentName = name,
              Timestamp = read_timestamp tt data, StepNumber = go_trunc step,
              State = Some (case get_map data ''state'' of Some m \<Rightarrow> m | None \<Rightarrow> []),
              Messages = (case go_get data ''messages'' of Some (GList vs) \<Rightarrow> read_messages vs | _ \<Rightarrow> []),
              Metadata = Some (case get_map data ''metadata'' of Some m \<Rightarrow> m | None \<Rightarrow> []),
              ParentCheckpointID = get_string data ''parent_checkpoint_id''\<rparr>
      | _ \<Rightarrow> Panic ''interface conversion'')"

definition FromJSON :: "time_texts \<Rightarrow> json_text \<Rightarrow> gmap option Checkpoint outcome" where
  "FromJSON tt t =
     (case t of
        Malformed e \<Rightarrow> Err e
      | Json (GMap data) \<Rightarrow> read_checkpoint tt data
      | Json GNil \<Rightarrow> read_checkpoint tt []
      | Json _ \<Rightarrow> Err (Errors_New ''json: cannot unmarshal into Go value of type map[string]interface {}''))"

lemmas [go_defs] =
  ToMap_def ToJSON_def FromJSON_def read_checkpoint_def read_timestamp_def assert_string_def
  assert_float_def get_map_def get_string_def json_of_map_def message_json_def json_map_def json_Marshal_def

text \<open>
  What the text of a checkpoint keeps of it, when its texts are UTF-8 and its integers within
  the exact ones.
\<close>

definition json_message :: "message \<Rightarrow> message" where
  "json_message m =
     \<lparr>msg_role = msg_role m,
      msg_content = (case msg_content m of GStr s \<Rightarrow> GStr s | _ \<Rightarrow> GNil),
      msg_metadata = map_option json_map (msg_metadata m),
      msg_timestamp = 0\<rparr>"

definition map_or_empty :: "gmap option \<Rightarrow> gmap" where
  "map_or_empty m = (case m of None \<Rightarrow> [] | Some kvs \<Rightarrow> kvs)"

definition json_checkpoint :: "gmap option Checkpoint \<Rightarrow> gmap option Checkpoint" where
  "json_checkpoint c =
     c\<lparr>Timestamp := Timestamp c div second * second,
       State := Some (json_map (map_or_empty (State c))),
       Messages := map json_message (Messages c),
       Metadata := Some (json_map (map_or_empty (Metadata c)))\<rparr>"

definition exact_message :: "message \<Rightarrow> bool" where
  "exact_message m \<longleftrightarrow> valid_utf8 (msg_role m) \<and> json_ok (msg_content m) \<and> json_ok (json_of_map (msg_metadata m))"

definition exact_checkpoint :: "gmap option Checkpoint \<Rightarrow> bool" where
  "exact_checkpoint c \<longleftrightarrow>
     valid_utf8 (CheckpointID c) \<and> valid_utf8 (SessionID c) \<and> valid_utf8 (AgentName c) \<and>
     exact_int (StepNumber c) \<and> json_ok (json_of_map (State c)) \<and> list_all exact_message (Messages c) \<and>
     json_ok (json_of_map (Metadata c)) \<and> (\<forall>p \<in> set_option (ParentCheckpointID c). valid_utf8 p)"

lemma ToMap_keys [simp]: "valid_keys (ToMap tt c)"
  by (simp add: ToMap_def split: option.split)

lemma exact_ToMap:
  assumes "rfc3339 tt" and "exact_checkpoint c"
  shows "json_ok (GMap (ToMap tt c))"
proof -
  have msg: "json_ok (message_json tt m)" if "m \<in> set (Messages c)" for m
    using assms that by (simp add: exact_checkpoint_def exact_message_def message_json_def rfc3339_def list_all_iff)
  then have "list_all (json_ok \<circ> message_json tt) (Messages c)" by (simp add: list_all_iff)
  then show ?thesis unfolding json_ok_map
    using assms by (auto simp: ToMap_def exact_checkpoint_def rfc3339_def list_all_iff split: option.split)
qed

text \<open>A checkpoint as its text keeps it is written exactly, and keeps no less the second time.\<close>

lemma json_of_map_again:
  assumes "json_ok (json_of_map m)"
  shows "json_ok (json_of_map (Some (json_map (map_or_empty m))))"
    and "json_map (json_map (map_or_empty m)) = json_map (map_or_empty m)"
    and "json_ok (json_of_map (map_option json_map m))"
    and "map_option (json_map \<circ> json_map) m = map_option json_map m"
proof -
  have ok: "json_ok (GMap (map_or_empty m))"
    using assms by (cases m) (simp_all add: json_of_map_def map_or_empty_def)
  note again = json_map_again [OF ok]
  from again show "json_ok (json_of_map (Some (json_map (map_or_empty m))))"
    and "json_map (json_map (map_or_empty m)) = json_map (map_or_empty m)"
    by (simp_all add: json_of_map_def)
  from again show "json_ok (json_of_map (map_option json_map m))"
    and "map_option (json_map \<circ> json_map) m = map_option json_map m"
    by (cases m; simp add: json_of_map_def map_or_empty_def)+
qed

lemma json_message_again:
  assumes "exact_message m"
  shows "exact_message (json_message m) \<and> json_message (json_message m) = json_message m"
  using assms json_of_map_again [of "msg_metadata m"]
  by (auto simp: exact_message_def json_message_def option.map_comp split: gval.split)

lemma json_checkpoint_again:
  assumes "exact_checkpoint c"
  shows "exact_checkpoint (json_checkpoint c) \<and> json_checkpoint (json_checkpoint c) = json_checkpoint c"
proof -
  have "list_all exact_message (Messages c)" "json_ok (json_of_map (State c))" "json_ok (json_of_map (Metadata c))"
    using assms by (simp_all add: exact_checkpoint_def)
  then have "map (json_message \<circ> json_message) (Messages c) = map json_message (Messages c)"
    "list_all exact_message (map json_message (Messages c))"
    using json_message_again by (simp_all add: list_all_iff)
  moreover note json_of_map_again [OF \<open>json_ok (json_of_map (State c))\<close>] json_of_map_again [OF \<open>json_ok (json_of_map (Metadata c))\<close>]
  ultimately show ?thesis
    using assms by (simp add: exact_checkpoint_def json_checkpoint_def second_def) (simp add: map_or_empty_def)
qed

lemma read_message_json:
  assumes "rfc3339 tt" and "exact_message m"
  shows "read_messages (json_value (message_json tt m) # vs) = json_message m # read_messages vs"
proof -
  have "(case json_value v of GStr s \<Rightarrow> Some s | _ \<Rightarrow> None) = (case v of GStr s \<Rightarrow> Some s | _ \<Rightarrow> None)"
    if "json_ok v" for v using that by (cases v) auto
  moreover have "json_map [(''role'', GStr (msg_role m)), (''content'', msg_content m),
      (''metadata'', json_of_map (msg_metadata m)), (''timestamp'', GStr (format_JSON tt (msg_timestamp m)))] =
    [(''role'', GStr (msg_role m)), (''content'', json_value (msg_content m)),
      (''metadata'', json_of_map (map_option json_map (msg_metadata m))), (''timestamp'', GStr (format_JSON tt (msg_timestamp m)))]"
    using assms by (subst json_map_valid) (simp_all add: json_value_of_map exact_message_def rfc3339_def)
  ultimately show ?thesis using assms(2)
    by (auto simp: message_json_def json_message_def get_string_def get_map_def json_of_map_def exact_message_def
        split: option.split gval.split)
qed

lemma read_messages_json:
  assumes "rfc3339 tt" and "list_all exact_message ms"
  shows "read_messages (map (json_value \<circ> message_json tt) ms) = map json_message ms"
  using assms(2) by (induction ms) (simp_all add: read_message_json [OF assms(1)])

lemma FromJSON_ToJSON:
  assumes "rfc3339 tt" and "exact_checkpoint c"
  shows "\<exists>t. ToJSON tt c = Ok t \<and> FromJSON tt t = Ok (json_checkpoint c)"
proof -
  let ?d = "json_map (ToMap tt c)"
  have data: "go_get ?d ''checkpoint_id'' = Some (GStr (CheckpointID c))"
    "go_get ?d ''session_id'' = Some (GStr (SessionID c))"
    "go_get ?d ''agent_name'' = Some (GStr (AgentName c))"
    "go_get ?d ''timestamp'' = Some (GStr (format_RFC3339 tt (Timestamp c)))"
    "go_get ?d ''step_number'' = Some (GFloat (real_of_int (StepNumber c)))"
    "go_get ?d ''state'' = Some (json_of_map (map_option json_map (State c)))"
    "go_get ?d ''messages'' = Some (GList (map (json_value \<circ> message_json tt) (Messages c)))"
    "go_get ?d ''metadata'' = Some (json_of_map (map_option json_map (Metadata c)))"
    "go_get ?d ''parent_checkpoint_id'' = map_option GStr (ParentCheckpointID c)"
    using assms
    by (simp_all add: json_map_get, simp_all add: ToMap_def exact_checkpoint_def rfc3339_def json_value_of_map split: option.split)
  have st: "(case get_map ?d k of Some m \<Rightarrow> m | None \<Rightarrow> []) = json_map (map_or_empty x)"
    if "go_get ?d k = Some (json_of_map (map_option json_map x))" for k x
    using that by (cases x) (simp_all add: get_map_def json_of_map_def map_or_empty_def)
  have "list_all exact_message (Messages c)" using assms(2) by (simp add: exact_checkpoint_def)
  then have "read_checkpoint tt ?d = Ok (json_checkpoint c)"
    using assms by (simp add: read_checkpoint_def assert_string_def assert_float_def data st
        read_timestamp_def get_string_def rfc3339_def read_messages_json json_checkpoint_def split: option.split)
  then show ?thesis using exact_ToMap [OF assms]
    by (simp add: FromJSON_def ToJSON_def json_Marshal_ok)
qed

text \<open>Writing a checkpoint fails exactly if it holds a function somewhere.\<close>

lemma ToJSON_fails_iff:
  "(\<exists>e. ToJSON tt c = Err e) \<longleftrightarrow>
     \<not> json_supported (json_of_map (State c)) \<or> \<not> json_supported (json_of_map (Metadata c)) \<or>
     (\<exists>m \<in> set (Messages c). \<not> json_supported (msg_content m) \<or> \<not> json_supported (json_of_map (msg_metadata m)))"
  by (auto simp: ToJSON_def json_Marshal_def ToMap_def message_json_def list_all_iff split: option.split)


text \<open>Formats of times that have these properties.\<close>

definition unary :: "int \<Rightarrow> string" where
  "unary n = (if n < 0 then CHR ''-'' # replicate (nat (- n)) CHR ''1'' else replicate (nat n) CHR ''1'')"

definition read_unary :: "string \<Rightarrow> int" where
  "read_unary s =
     (case s of [] \<Rightarrow> 0 | x # xs \<Rightarrow> if x = CHR ''-'' then - int (length xs) else int (length s))"

definition unary_times :: time_texts where
  "unary_times =
     \<lparr>format_RFC3339 = (\<lambda>t. unary (t div second)), parse_RFC3339 = (\<lambda>s. Some (read_unary s * second)),
      format_JSON = unary, parse_JSON = (\<lambda>s. Some (read_unary s))\<rparr>"

lemma read_unary [simp]: "read_unary (unary n) = n"
proof (cases "n < 0")
  case False
  show ?thesis
  proof (cases "nat n")
    case (Suc k)
    then have "int (Suc k) = n" by simp
    with False Suc show ?thesis by (simp add: read_unary_def unary_def del: of_nat_Suc)
  qed (use False in \<open>simp add: read_unary_def unary_def\<close>)
qed (simp add: read_unary_def unary_def)

lemma valid_unary [simp]: "valid_utf8 (unary n)"
  by (rule valid_ascii) (auto simp: unary_def list_all_iff)

lemma unary_times_rfc3339: "rfc3339 unary_times" "rfc3339_nano unary_times"
  by (simp_all add: rfc3339_def rfc3339_nano_def unary_times_def)

definition sample_checkpoint :: "gmap option Checkpoint" where
  "sample_checkpoint =
     \<lparr>CheckpointID = ''c'', SessionID = ''s'', AgentName = ''a'', Timestamp = 1500000000, StepNumber = 3,
      State = Some [(''message_count'', GInt 3)],
      Messages = [\<lparr>msg_role = ''user'', msg_content = GStr ''hi'', msg_metadata = None, msg_timestamp = 5\<rparr>],
      Metadata = None, ParentCheckpointID = Some ''b''\<rparr>"


section \<open>The interface of a storage\<close>

text \<open>
  \<open>CheckpointStorage\<close>: a record of methods over a world \<open>'w\<close>.  \<open>None\<close> as limit is the nil
  pointer, \<open>Ok None\<close> the nil checkpoint of an unknown identifier.
\<close>

record ('st, 'w) CheckpointStorage =
  st_Save :: "'st Checkpoint \<Rightarrow> ('w, unit) call"
  st_Load :: "string \<Rightarrow> ('w, 'st Checkpoint option) call"
  st_ListCheckpoints :: "string \<Rightarrow> int option \<Rightarrow> ('w, 'st Checkpoint list) call"
  st_GetLatest :: "string \<Rightarrow> ('w, 'st Checkpoint option) call"
  st_Delete :: "string \<Rightarrow> ('w, bool) call"
  st_DeleteSession :: "string \<Rightarrow> ('w, int) call"
  st_GetCheckpointHistory :: "string \<Rightarrow> int \<Rightarrow> ('w, 'st Checkpoint list) call"

text \<open>
  Bodies that every backend repeats on its own \<open>Load\<close> and \<open>ListCheckpoints\<close>: cutting a list to
  its limit, \<open>GetLatest\<close>, and the loop that follows the parent links.
\<close>

definition apply_limit :: "int option \<Rightarrow> 'a list \<Rightarrow> 'a list outcome" where
  "apply_limit limit xs =
     (case limit of
        None \<Rightarrow> Ok xs
      | Some n \<Rightarrow>
          if n < int (length xs) then
            (if n < 0 then Panic ''slice bounds out of range'' else Ok (take (nat n) xs))
          else Ok xs)"

definition latest_of ::
    "(string \<Rightarrow> int option \<Rightarrow> ('w, 'st Checkpoint list) call) \<Rightarrow> string \<Rightarrow> ('w, 'st Checkpoint option) call" where
  "latest_of lst sid =
     and_then (lst sid (Some 1)) (\<lambda>cs. ret (case cs of [] \<Rightarrow> None | c # _ \<Rightarrow> Some c))"

primrec history_loop ::
    "(string \<Rightarrow> ('w, 'st Checkpoint option) call) \<Rightarrow> nat \<Rightarrow> string \<Rightarrow> ('w, 'st Checkpoint list) call" where
  "history_loop load 0 cur = ret []"
| "history_loop load (Suc n) cur =
     and_then (load cur) (\<lambda>found.
       case found of
         None \<Rightarrow> ret []
       | Some c \<Rightarrow>
           (case ParentCheckpointID c of
              None \<Rightarrow> ret [c]
            | Some p \<Rightarrow> and_then (history_loop load n p) (\<lambda>h. ret (c # h))))"

definition history_of ::
    "(string \<Rightarrow> ('w, 'st Checkpoint option) call) \<Rightarrow> string \<Rightarrow> int \<Rightarrow> ('w, 'st Checkpoint list) call" where
  "history_of load cid maxDepth = history_loop load (nat maxDepth) cid"

section \<open>The in-memory storage\<close>

record 'st InMemoryStorage =
  im_checkpoints :: "(string \<times> 'st Checkpoint) list"
  im_sessionCheckpoints :: "(string \<times> string list) list"

definition NewInMemoryStorage :: "'st InMemoryStorage" where
  "NewInMemoryStorage = \<lparr>im_checkpoints = [], im_sessionCheckpoints = []\<rparr>"

definition im_ids :: "'st InMemoryStorage \<Rightarrow> string \<Rightarrow> string list" where
  "im_ids s sid = (case go_get (im_sessionCheckpoints s) sid of None \<Rightarrow> [] | Some ids \<Rightarrow> ids)"

text \<open>
  \<open>s.checkpoints[a].Timestamp.After(s.checkpoints[b].Timestamp)\<close>; \<open>im_Save\<close> deals with the nil
  pointers before it sorts.
\<close>

definition im_time :: "(string \<times> 'st Checkpoint) list \<Rightarrow> string \<Rightarrow> time" where
  "im_time cps a = (case go_get cps a of None \<Rightarrow> 0 | Some c \<Rightarrow> Timestamp c)"

definition im_after :: "(string \<times> 'st Checkpoint) list \<Rightarrow> string \<Rightarrow> string \<Rightarrow> bool" where
  "im_after cps a b \<longleftrightarrow> im_time cps b < im_time cps a"

text \<open>
  \<open>Save\<close>.  Sorting two or more identifiers reads the checkpoint of each of them; the nil
  pointer of an identifier without a checkpoint panics.
\<close>

definition im_Save ::
    "((string \<Rightarrow> string \<Rightarrow> bool) \<Rightarrow> string list \<Rightarrow> string list) \<Rightarrow> 'st Checkpoint \<Rightarrow>
     ('st InMemoryStorage, unit) call" where
  "im_Save srt c s =
     (let cps = go_set (CheckpointID c) c (im_checkpoints s);
          ids = im_ids s (SessionID c);
          new = ids @ [CheckpointID c]
      in if CheckpointID c \<in> set ids then (Ok (), s\<lparr>im_checkpoints := cps\<rparr>)
         else if 2 \<le> length new \<and> (\<exists>i \<in> set new. go_get cps i = None) then
           (Panic ''nil pointer dereference'',
            s\<lparr>im_checkpoints := cps,
              im_sessionCheckpoints := go_set (SessionID c) new (im_sessionCheckpoints s)\<rparr>)
         else
           (Ok (),
            s\<lparr>im_checkpoints := cps,
              im_sessionCheckpoints :=
                go_set (SessionID c) (srt (im_after cps) new) (im_sessionCheckpoints s)\<rparr>))"

definition im_Load :: "string \<Rightarrow> ('st InMemoryStorage, 'st Checkpoint option) call" where
  "im_Load cid s = (Ok (go_get (im_checkpoints s) cid), s)"

definition im_ListCheckpoints ::
    "string \<Rightarrow> int option \<Rightarrow> ('st InMemoryStorage, 'st Checkpoint list) call" where
  "im_ListCheckpoints sid limit s =
     (case go_get (im_sessionCheckpoints s) sid of
        None \<Rightarrow> (Ok [], s)
      | Some ids \<Rightarrow>
          (case apply_limit limit ids of
             Ok ids' \<Rightarrow> (Ok (List.map_filter (go_get (im_checkpoints s)) ids'), s)
           | Err e \<Rightarrow> (Err e, s)
           | Panic p \<Rightarrow> (Panic p, s)))"

definition im_GetLatest :: "string \<Rightarrow> ('st InMemoryStorage, 'st Checkpoint option) call" where
  "im_GetLatest = latest_of im_ListCheckpoints"

definition im_Delete :: "string \<Rightarrow> ('st InMemoryStorage, bool) call" where
  "im_Delete cid s =
     (case go_get (im_checkpoints s) cid of
        None \<Rightarrow> (Ok False, s)
      | Some c \<Rightarrow>
          (let ids = im_ids s (SessionID c) in
           (Ok True,
            s\<lparr>im_checkpoints := go_delete cid (im_checkpoints s),
              im_sessionCheckpoints :=
                (if cid \<in> set ids then go_set (SessionID c) (remove1 cid ids) (im_sessionCheckpoints s)
                 else im_sessionCheckpoints s)\<rparr>)))"

definition im_DeleteSession :: "string \<Rightarrow> ('st InMemoryStorage, int) call" where
  "im_DeleteSession sid s =
     (case go_get (im_sessionCheckpoints s) sid of
        None \<Rightarrow> (Ok 0, s)
      | Some ids \<Rightarrow>
          (Ok (int (length ids)),
           s\<lparr>im_checkpoints := fold go_delete ids (im_checkpoints s),
             im_sessionCheckpoints := go_delete sid (im_sessionCheckpoints s)\<rparr>))"

definition im_GetCheckpointHistory ::
    "string \<Rightarrow> int \<Rightarrow> ('st InMemoryStorage, 'st Checkpoint list) call" where
  "im_GetCheckpointHistory = history_of im_Load"

definition im_GetStats :: "'st InMemoryStorage \<Rightarrow> gmap" where
  "im_GetStats s =
     [(''total_checkpoints'', GInt (int (length (im_checkpoints s)))),
      (''total_sessions'', GInt (int (length (im_sessionCheckpoints s)))),
      (''checkpoints_per_session'',
        GMap (map (\<lambda>(sid, ids). (sid, GInt (int (length ids)))) (im_sessionCheckpoints s)))]"

definition InMemoryStorage_methods ::
    "((string \<Rightarrow> string \<Rightarrow> bool) \<Rightarrow> string list \<Rightarrow> string list) \<Rightarrow>
     ('st, 'st InMemoryStorage) CheckpointStorage" where
  "InMemoryStorage_methods srt =
     \<lparr>st_Save = im_Save srt, st_Load = im_Load, st_ListCheckpoints = im_ListCheckpoints,
      st_GetLatest = im_GetLatest, st_Delete = im_Delete, st_DeleteSession = im_DeleteSession,
      st_GetCheckpointHistory = im_GetCheckpointHistory\<rparr>"

section \<open>The contract of a storage\<close>

text \<open>
  What a client relies on.  \<open>stored\<close> is the checkpoint kept under an identifier, \<open>kept c\<close> what
  the backend keeps of \<open>c\<close>; \<open>valid_id\<close> and \<open>valid_session\<close> are the names it can take.
\<close>

definition in_session :: "(string \<Rightarrow> 'st Checkpoint option) \<Rightarrow> string \<Rightarrow> 'st Checkpoint set" where
  "in_session m sid = {c \<in> ran m. SessionID c = sid}"

definition newest_first :: "'st Checkpoint list \<Rightarrow> bool" where
  "newest_first cs \<longleftrightarrow> distinct (map CheckpointID cs) \<and> sorted_wrt (\<lambda>x y. Timestamp y \<le> Timestamp x) cs"

definition valid_limit :: "int option \<Rightarrow> bool" where
  "valid_limit limit \<longleftrightarrow> (case limit of None \<Rightarrow> True | Some n \<Rightarrow> 0 \<le> n)"

locale checkpoint_storage =
  fixes st :: "('st, 'w) CheckpointStorage"
    and ok :: "'w \<Rightarrow> bool"
    and stored :: "'w \<Rightarrow> string \<Rightarrow> 'st Checkpoint option"
    and kept :: "'st Checkpoint \<Rightarrow> 'st Checkpoint"
    and valid_id :: "string \<Rightarrow> bool"
    and valid_session :: "string \<Rightarrow> bool"
    and writable :: "'st Checkpoint \<Rightarrow> bool"
  assumes save: "ok w \<Longrightarrow> writable c \<Longrightarrow> valid_id (CheckpointID c) \<Longrightarrow> valid_session (SessionID c) \<Longrightarrow> stored w (CheckpointID c) = None \<Longrightarrow>
      \<exists>w'. st_Save st c w = (Ok (), w') \<and> ok w' \<and> stored w' = (stored w)(CheckpointID c \<mapsto> kept c)"
    and load: "ok w \<Longrightarrow> valid_id i \<Longrightarrow> st_Load st i w = (Ok (stored w i), w)"
    and list: "ok w \<Longrightarrow> valid_session sid \<Longrightarrow> \<exists>cs. newest_first cs \<and> set cs = in_session (stored w) sid \<and>
      (\<forall>limit. valid_limit limit \<longrightarrow> st_ListCheckpoints st sid limit w = (apply_limit limit cs, w))"
    and latest: "st_GetLatest st = latest_of (st_ListCheckpoints st)"
    and delete: "ok w \<Longrightarrow> valid_id i \<Longrightarrow> \<exists>w'. st_Delete st i w = (Ok (stored w i \<noteq> None), w') \<and> ok w' \<and>
      stored w' = (stored w)(i := None)"
    and delete_session: "ok w \<Longrightarrow> valid_session sid \<Longrightarrow> \<exists>w'. st_DeleteSession st sid w =
        (Ok (int (card (in_session (stored w) sid))), w') \<and> ok w' \<and>
      (\<forall>i. stored w' i = (case stored w i of None \<Rightarrow> None
         | Some c \<Rightarrow> if SessionID c = sid then None else Some c))"
    and history: "st_GetCheckpointHistory st = history_of (st_Load st)"
    and kept_simps: "CheckpointID (kept c) = CheckpointID c" "SessionID (kept c) = SessionID c"
      "StepNumber (kept c) = StepNumber c" "ParentCheckpointID (kept c) = ParentCheckpointID c"
    and stored_id: "ok w \<Longrightarrow> stored w i = Some c \<Longrightarrow> CheckpointID c = i \<and> valid_id i"
begin

lemma latest_newest:
  assumes "ok w" and "valid_session sid"
  shows "\<exists>l. st_GetLatest st sid w = (Ok l, w) \<and>
    (case l of None \<Rightarrow> in_session (stored w) sid = {}
     | Some c \<Rightarrow> c \<in> in_session (stored w) sid \<and>
         (\<forall>c' \<in> in_session (stored w) sid. Timestamp c' \<le> Timestamp c))"
proof -
  obtain cs where cs: "newest_first cs" "set cs = in_session (stored w) sid"
    "\<And>limit. valid_limit limit \<Longrightarrow> st_ListCheckpoints st sid limit w = (apply_limit limit cs, w)"
    using list [OF assms] by metis
  show ?thesis
  proof (cases cs)
    case Nil
    with cs show ?thesis by (auto simp: latest latest_of_def and_then_def apply_limit_def valid_limit_def)
  next
    case (Cons c cs')
    with cs(3) [of "Some 1"] have "st_GetLatest st sid w = (Ok (Some c), w)"
      by (cases cs') (simp_all add: latest latest_of_def and_then_def apply_limit_def valid_limit_def)
    with Cons cs show ?thesis by (fastforce simp: newest_first_def)
  qed
qed

end

text \<open>
  The invariant of the in-memory storage: the index of a session lists exactly its
  checkpoints, each once, newest first.
\<close>

definition im_ok :: "'st InMemoryStorage \<Rightarrow> bool" where
  "im_ok s \<longleftrightarrow> go_map_ok (im_checkpoints s) \<and>
     (\<forall>i c. go_get (im_checkpoints s) i = Some c \<longrightarrow> CheckpointID c = i) \<and>
     (\<forall>sid. distinct (im_ids s sid) \<and>
        sorted_wrt (\<lambda>a b. im_time (im_checkpoints s) b \<le> im_time (im_checkpoints s) a) (im_ids s sid) \<and>
        set (im_ids s sid) = {i. \<exists>c. go_get (im_checkpoints s) i = Some c \<and> SessionID c = sid})"

lemmas [inv_defs] = im_ok_def

abbreviation im_stored :: "'st InMemoryStorage \<Rightarrow> string \<Rightarrow> 'st Checkpoint option" where
  "im_stored s \<equiv> go_get (im_checkpoints s)"

lemma im_ok_new: "im_ok NewInMemoryStorage"
  by (simp add: im_ok_def NewInMemoryStorage_def im_ids_def)

lemma im_time_set: "im_time (go_set i c cps) j = (if j = i then Timestamp c else im_time cps j)"
  by (simp add: im_time_def)

lemma im_time_delete: "j \<noteq> i \<Longrightarrow> im_time (go_delete i cps) j = im_time cps j"
  by (simp add: im_time_def)

lemma im_Save_ok:
  assumes "sort_slice srt" and ok: "im_ok s" and new: "im_stored s (CheckpointID c) = None"
  shows "\<exists>s'. im_Save srt c s = (Ok (), s') \<and> im_ok s' \<and>
    im_stored s' = (im_stored s)(CheckpointID c \<mapsto> c)"
proof -
  let ?i = "CheckpointID c" and ?cps = "go_set (CheckpointID c) c (im_checkpoints s)"
  let ?ids = "im_ids s (SessionID c)"
  let ?s = "s\<lparr>im_checkpoints := ?cps,
    im_sessionCheckpoints := go_set (SessionID c) (srt (im_after ?cps) (?ids @ [?i])) (im_sessionCheckpoints s)\<rparr>"
  have ids: "set (im_ids s sid) = {i. \<exists>c. im_stored s i = Some c \<and> SessionID c = sid}"
    "distinct (im_ids s sid)" for sid
    using ok by (auto simp: im_ok_def)
  have fresh: "?i \<notin> set (im_ids s sid)" for sid using ids new by simp
  have run: "im_Save srt c s = (Ok (), ?s)"
    using fresh [of "SessionID c"] ids(1) [of "SessionID c"] by (auto simp: im_Save_def Let_def)
  have ids': "im_ids ?s sid = (if sid = SessionID c then srt (im_after ?cps) (?ids @ [?i]) else im_ids s sid)" for sid
    by (simp add: im_ids_def)
  have sorted: "sorted_wrt (\<lambda>a b. im_time ?cps b \<le> im_time ?cps a) (im_ids ?s sid)" for sid
  proof (cases "sid = SessionID c")
    case True
    have "weak_order (im_after ?cps)" unfolding im_after_def by (rule weak_order_key(2))
    from sort_slice.sorted [OF assms(1) this] show ?thesis
      unfolding ids' if_P [OF True] by (rule sorted_wrt_mono_rel [rotated]) (simp add: im_after_def)
  next
    case False
    have "sorted_wrt (\<lambda>a b. im_time (im_checkpoints s) b \<le> im_time (im_checkpoints s) a) (im_ids s sid)"
      using ok by (simp add: im_ok_def)
    then have "sorted_wrt (\<lambda>a b. im_time ?cps b \<le> im_time ?cps a) (im_ids s sid)"
      by (rule sorted_wrt_mono_rel [rotated]) (use fresh [of sid] in \<open>auto simp: im_time_set\<close>)
    with False show ?thesis by (simp add: ids')
  qed
  have "im_ok ?s"
    unfolding im_ok_def
  proof (intro conjI allI)
    show "go_map_ok (im_checkpoints ?s)" using ok by (simp add: im_ok_def)
    show "im_stored ?s i = Some c' \<longrightarrow> CheckpointID c' = i" for i c'
      using ok by (auto simp: im_ok_def)
    show "distinct (im_ids ?s sid)" for sid
      using ids(2) fresh by (simp add: ids' sort_slice.distinct_srt [OF assms(1)])
    show "set (im_ids ?s sid) = {i. \<exists>c. im_stored ?s i = Some c \<and> SessionID c = sid}" for sid
      using ids(1) new by (auto simp: ids' sort_slice.set_srt [OF assms(1)])
    show "sorted_wrt (\<lambda>a b. im_time (im_checkpoints ?s) b \<le> im_time (im_checkpoints ?s) a) (im_ids ?s sid)" for sid
      using sorted [of sid] by simp
  qed
  moreover have "im_stored ?s = (im_stored s)(?i \<mapsto> c)" by (auto simp: fun_eq_iff)
  ultimately show ?thesis using run by blast
qed

lemma im_Delete_ok:
  assumes ok: "im_ok s"
  shows "\<exists>s'. im_Delete i s = (Ok (im_stored s i \<noteq> None), s') \<and> im_ok s' \<and>
    im_stored s' = (im_stored s)(i := None)"
proof (cases "im_stored s i")
  case None
  with ok show ?thesis by (auto simp: im_Delete_def)
next
  case (Some c)
  have ids: "set (im_ids s sid) = {i. \<exists>c. im_stored s i = Some c \<and> SessionID c = sid}"
    "distinct (im_ids s sid)" for sid
    using ok by (auto simp: im_ok_def)
  let ?s = "snd (im_Delete i s)"
  have run: "im_Delete i s = (Ok True, ?s)" and cps: "im_checkpoints ?s = go_delete i (im_checkpoints s)"
    using Some by (simp_all add: im_Delete_def Let_def)
  have ids': "im_ids ?s sid = remove1 i (im_ids s sid)" for sid
    using Some ids(1) by (auto simp: im_Delete_def Let_def im_ids_def remove1_idem split: option.splits)
  have sorted: "sorted_wrt (\<lambda>a b. im_time (im_checkpoints ?s) b \<le> im_time (im_checkpoints ?s) a) (im_ids ?s sid)" for sid
  proof -
    have "sorted_wrt (\<lambda>a b. im_time (im_checkpoints s) b \<le> im_time (im_checkpoints s) a) (remove1 i (im_ids s sid))"
      using ok unfolding im_ok_def distinct_remove1_removeAll [OF ids(2)] removeAll_filter_not_eq
      by (auto intro: sorted_wrt_filter)
    then show ?thesis
      unfolding ids' cps by (rule sorted_wrt_mono_rel [rotated]) (use ids(2) in \<open>auto simp: im_time_delete\<close>)
  qed
  have "im_ok ?s"
    using ok ids sorted by (auto simp: im_ok_def ids' cps)
  with run cps Some show ?thesis by (auto simp: fun_eq_iff)
qed

lemma fold_delete_get:
  "go_get (fold go_delete is m) k = (if k \<in> set is then None else go_get m k)"
  by (induction "is" arbitrary: m) auto

lemma go_map_ok_fold_delete: "go_map_ok m \<Longrightarrow> go_map_ok (fold go_delete is m)"
  by (induction "is" arbitrary: m) auto

lemma im_session_card:
  assumes "im_ok s"
  shows "card (in_session (im_stored s) sid) = length (im_ids s sid)"
proof -
  have ids: "set (im_ids s sid) = {i. \<exists>c. im_stored s i = Some c \<and> SessionID c = sid}"
    "distinct (im_ids s sid)" and self: "\<And>i c. im_stored s i = Some c \<Longrightarrow> CheckpointID c = i"
    using assms by (auto simp: im_ok_def)
  have "bij_betw CheckpointID (in_session (im_stored s) sid) (set (im_ids s sid))"
  proof (rule bij_betwI')
    fix x y assume "x \<in> in_session (im_stored s) sid" "y \<in> in_session (im_stored s) sid"
    then show "(CheckpointID x = CheckpointID y) = (x = y)"
      using self by (auto simp: in_session_def ran_def)
  next
    fix x assume "x \<in> in_session (im_stored s) sid"
    then show "CheckpointID x \<in> set (im_ids s sid)"
      using self by (auto simp: in_session_def ran_def ids)
  next
    fix i assume "i \<in> set (im_ids s sid)"
    then show "\<exists>x \<in> in_session (im_stored s) sid. i = CheckpointID x"
      using self by (auto simp: in_session_def ran_def ids)
  qed
  then have "card (in_session (im_stored s) sid) = card (set (im_ids s sid))" by (rule bij_betw_same_card)
  with ids(2) show ?thesis by (simp add: distinct_card)
qed

lemma im_DeleteSession_ok:
  assumes ok: "im_ok s"
  shows "\<exists>s'. im_DeleteSession sid s = (Ok (int (card (in_session (im_stored s) sid))), s') \<and> im_ok s' \<and>
    (\<forall>i. im_stored s' i = (case im_stored s i of None \<Rightarrow> None
       | Some c \<Rightarrow> if SessionID c = sid then None else Some c))"
proof -
  have ids: "set (im_ids s sid) = {i. \<exists>c. im_stored s i = Some c \<and> SessionID c = sid}"
    "distinct (im_ids s sid)" for sid
    using ok by (auto simp: im_ok_def)
  let ?s = "snd (im_DeleteSession sid s)"
  have run: "im_DeleteSession sid s = (Ok (int (length (im_ids s sid))), ?s)"
    and cps: "im_checkpoints ?s = fold go_delete (im_ids s sid) (im_checkpoints s)"
    and ids': "im_ids ?s x = (if x = sid then [] else im_ids s x)" for x
    by (auto simp: im_DeleteSession_def im_ids_def split: option.splits)
  have get: "im_stored ?s i = (case im_stored s i of None \<Rightarrow> None
       | Some c \<Rightarrow> if SessionID c = sid then None else Some c)" for i
    using ids(1) by (auto simp: cps fold_delete_get split: option.split)
  have sorted: "sorted_wrt (\<lambda>a b. im_time (im_checkpoints ?s) b \<le> im_time (im_checkpoints ?s) a) (im_ids ?s x)" for x
  proof (cases "x = sid")
    case False
    have "sorted_wrt (\<lambda>a b. im_time (im_checkpoints s) b \<le> im_time (im_checkpoints s) a) (im_ids s x)"
      using ok by (simp add: im_ok_def)
    then have "sorted_wrt (\<lambda>a b. im_time (im_checkpoints ?s) b \<le> im_time (im_checkpoints ?s) a) (im_ids s x)"
      by (rule sorted_wrt_mono_rel [rotated]) (use False ids(1) in \<open>auto simp: im_time_def get\<close>)
    with False show ?thesis by (simp add: ids')
  qed (simp add: ids')
  have "im_ok ?s"
    unfolding im_ok_def
  proof (intro conjI allI)
    show "go_map_ok (im_checkpoints ?s)" using ok by (simp add: im_ok_def cps go_map_ok_fold_delete)
    show "im_stored ?s i = Some c \<longrightarrow> CheckpointID c = i" for i c
      using ok by (auto simp: im_ok_def get split: option.splits if_splits)
    show "distinct (im_ids ?s x)" for x using ids(2) by (simp add: ids')
    show "set (im_ids ?s x) = {i. \<exists>c. im_stored ?s i = Some c \<and> SessionID c = x}" for x
      using ids(1) by (auto simp: ids' get split: option.splits)
  qed (rule sorted)
  with run get im_session_card [OF ok] show ?thesis by auto
qed

lemma im_List_ok:
  fixes sid :: string
  assumes ok: "im_ok s"
  defines "cs \<equiv> List.map_filter (im_stored s) (im_ids s sid)"
  shows "newest_first cs \<and> set cs = in_session (im_stored s) sid \<and>
    (\<forall>limit. valid_limit limit \<longrightarrow> im_ListCheckpoints sid limit s = (apply_limit limit cs, s))"
proof -
  have ids: "set (im_ids s sid) = {i. \<exists>c. im_stored s i = Some c \<and> SessionID c = sid}"
    "distinct (im_ids s sid)" and self: "\<And>i c. im_stored s i = Some c \<Longrightarrow> CheckpointID c = i"
    and sorted: "sorted_wrt (\<lambda>a b. im_time (im_checkpoints s) b \<le> im_time (im_checkpoints s) a) (im_ids s sid)"
    using ok by (auto simp: im_ok_def)
  have all: "\<forall>i \<in> set (im_ids s sid). im_stored s i \<noteq> None" using ids(1) by auto
  have mf: "List.map_filter (im_stored s) xs = map (\<lambda>i. the (im_stored s i)) xs"
    if "\<forall>i \<in> set xs. im_stored s i \<noteq> None" for xs
    using that by (induction xs) (auto simp: List.map_filter_def)
  have cs: "cs = map (\<lambda>i. the (im_stored s i)) (im_ids s sid)"
    using mf [OF all] by (simp add: cs_def)
  have id: "map CheckpointID cs = im_ids s sid"
    unfolding cs using all self by (auto simp: comp_def intro!: map_idI)
  have time: "im_time (im_checkpoints s) i = Timestamp (the (im_stored s i))" if "i \<in> set (im_ids s sid)" for i
    using all that by (auto simp: im_time_def)
  have "sorted_wrt (\<lambda>x y. Timestamp y \<le> Timestamp x) cs"
    unfolding cs sorted_wrt_map using sorted
    by (rule sorted_wrt_mono_rel [rotated]) (simp add: time)
  then have "newest_first cs" using ids(2) by (simp add: newest_first_def id)
  moreover have "set cs = in_session (im_stored s) sid"
    using ids(1) by (force simp: cs in_session_def ran_def)
  moreover have "im_ListCheckpoints sid limit s = (apply_limit limit cs, s)" if "valid_limit limit" for limit
  proof (cases "go_get (im_sessionCheckpoints s) sid")
    case None
    then have "cs = []" by (simp add: cs im_ids_def)
    with None that show ?thesis
      by (auto simp: im_ListCheckpoints_def apply_limit_def valid_limit_def split: option.split)
  next
    case (Some xs)
    then have xs: "im_ids s sid = xs" by (simp add: im_ids_def)
    have "List.map_filter (im_stored s) (take n xs) = take n cs" for n
      using mf [of "take n xs"] all by (auto simp: cs xs take_map dest: in_set_takeD)
    with Some xs mf [OF all] show ?thesis
      by (auto simp: im_ListCheckpoints_def apply_limit_def cs split: option.split)
  qed
  ultimately show ?thesis by blast
qed

lemma in_memory_storage:
  assumes "sort_slice srt"
  shows "checkpoint_storage (InMemoryStorage_methods srt) im_ok im_stored (\<lambda>c. c) (\<lambda>i. True) (\<lambda>sid. True) (\<lambda>c. True)"
proof (unfold_locales, goal_cases)
  case (1 w c)
  then show ?case using im_Save_ok [OF assms] by (simp add: InMemoryStorage_methods_def)
next
  case (3 w sid)
  from im_List_ok [OF this(1), of sid] show ?case
    by (intro exI [of _ "List.map_filter (im_stored w) (im_ids w sid)"]) (simp add: InMemoryStorage_methods_def)
next
  case (5 w i)
  then show ?case using im_Delete_ok by (simp add: InMemoryStorage_methods_def)
next
  case (6 w sid)
  then show ?case using im_DeleteSession_ok by (simp add: InMemoryStorage_methods_def)
qed (simp_all add: InMemoryStorage_methods_def im_Load_def im_GetLatest_def im_GetCheckpointHistory_def im_ok_def)

interpretation in_memory: checkpoint_storage "InMemoryStorage_methods go_insort" im_ok im_stored
    "\<lambda>c. c" "\<lambda>i. True" "\<lambda>sid. True" "\<lambda>c. True"
  by (rule in_memory_storage) (rule insertion.sort_slice_axioms)

section \<open>Migration contexts\<close>

text \<open>
  \<open>checkpointing/migration.go\<close>: the provenance of a migrated session, kept in the metadata of
  its checkpoint as the map that its JSON text reads back as.
\<close>

record MigrationContext =
  SourceHost :: string
  SourceVMSlot :: int
  InterruptedBy :: string
  MigrationID :: string
  ExecutionElapsedMS :: int
  OriginalMessageID :: string
  Deadline :: time

definition migrationMetaKey :: string where
  "migrationMetaKey = ''_migration_context''"

definition zero_context :: MigrationContext where
  "zero_context =
     \<lparr>SourceHost = [], SourceVMSlot = 0, InterruptedBy = [], MigrationID = [], ExecutionElapsedMS = 0,
      OriginalMessageID = [], Deadline = 0\<rparr>"

definition migration_json :: "time_texts \<Rightarrow> MigrationContext \<Rightarrow> gmap" where
  "migration_json tt mc =
     [(''source_host'', GStr (SourceHost mc)),
      (''source_vm_slot'', GInt (SourceVMSlot mc)),
      (''interrupted_by'', GStr (InterruptedBy mc)),
      (''migration_id'', GStr (MigrationID mc)),
      (''execution_elapsed_ms'', GInt (ExecutionElapsedMS mc)),
      (''original_message_id'', GStr (OriginalMessageID mc)),
      (''deadline'', GStr (format_JSON tt (Deadline mc)))]"

definition AttachMigrationContext ::
    "time_texts \<Rightarrow> 'st Checkpoint \<Rightarrow> MigrationContext \<Rightarrow> 'st Checkpoint" where
  "AttachMigrationContext tt cp mc =
     cp\<lparr>Metadata := Some (go_set migrationMetaKey (GMap (json_map (migration_json tt mc))) (map_or_empty (Metadata cp)))\<rparr>"

text \<open>
  Decoding into the fields of the struct: an absent field or \<open>null\<close> leaves the zero value, a
  value of another type is an error.  Keys are compared exactly; an integer is read as one.
\<close>

definition decode_string :: "gmap \<Rightarrow> string \<Rightarrow> string option" where
  "decode_string m k =
     (case go_get m k of None \<Rightarrow> Some [] | Some GNil \<Rightarrow> Some [] | Some (GStr s) \<Rightarrow> Some (json_string s) | _ \<Rightarrow> None)"

definition decode_int :: "gmap \<Rightarrow> string \<Rightarrow> int option" where
  "decode_int m k =
     (case go_get m k of
        None \<Rightarrow> Some 0
      | Some GNil \<Rightarrow> Some 0
      | Some (GInt i) \<Rightarrow> Some i
      | Some (GFloat x) \<Rightarrow> (if real_of_int (go_trunc x) = x then Some (go_trunc x) else None)
      | _ \<Rightarrow> None)"

definition decode_time :: "time_texts \<Rightarrow> gmap \<Rightarrow> string \<Rightarrow> time option" where
  "decode_time tt m k =
     (case go_get m k of
        None \<Rightarrow> Some 0 | Some GNil \<Rightarrow> Some 0 | Some (GStr s) \<Rightarrow> parse_JSON tt s | _ \<Rightarrow> None)"

definition decode_context :: "time_texts \<Rightarrow> gval \<Rightarrow> MigrationContext option" where
  "decode_context tt raw =
     (case raw of
        GNil \<Rightarrow> Some zero_context
      | GMap m \<Rightarrow>
          Option.bind (decode_string m ''source_host'') (\<lambda>h.
          Option.bind (decode_int m ''source_vm_slot'') (\<lambda>v.
          Option.bind (decode_string m ''interrupted_by'') (\<lambda>b.
          Option.bind (decode_string m ''migration_id'') (\<lambda>i.
          Option.bind (decode_int m ''execution_elapsed_ms'') (\<lambda>e.
          Option.bind (decode_string m ''original_message_id'') (\<lambda>q.
          Option.bind (decode_time tt m ''deadline'') (\<lambda>d.
            Some \<lparr>SourceHost = h, SourceVMSlot = v, InterruptedBy = b, MigrationID = i,
                  ExecutionElapsedMS = e, OriginalMessageID = q, Deadline = d\<rparr>)))))))
      | _ \<Rightarrow> None)"

text \<open>\<open>None\<close> is the pair of the zero context and \<open>false\<close>, also when \<open>json.Marshal\<close> fails.\<close>

definition ExtractMigrationContext :: "time_texts \<Rightarrow> 'st Checkpoint \<Rightarrow> MigrationContext option" where
  "ExtractMigrationContext tt cp =
     (case Metadata cp of
        None \<Rightarrow> None
      | Some md \<Rightarrow> (case go_get md migrationMetaKey of None \<Rightarrow> None | Some raw \<Rightarrow>
          if \<not> json_supported raw then None else decode_context tt raw))"

definition IsMigrationCheckpoint :: "time_texts \<Rightarrow> 'st Checkpoint \<Rightarrow> bool" where
  "IsMigrationCheckpoint tt cp \<longleftrightarrow> ExtractMigrationContext tt cp \<noteq> None"

definition exact_context :: "MigrationContext \<Rightarrow> bool" where
  "exact_context mc \<longleftrightarrow>
     valid_utf8 (SourceHost mc) \<and> exact_int (SourceVMSlot mc) \<and> valid_utf8 (InterruptedBy mc) \<and>
     valid_utf8 (MigrationID mc) \<and> exact_int (ExecutionElapsedMS mc) \<and> valid_utf8 (OriginalMessageID mc)"

lemma exact_migration_json:
  assumes "rfc3339_nano tt" and "exact_context mc"
  shows "json_ok (GMap (migration_json tt mc))"
  using assms by (simp add: migration_json_def exact_context_def rfc3339_nano_def)

lemma decode_migration_json:
  assumes "rfc3339_nano tt" and "exact_context mc"
  shows "decode_context tt (GMap (json_map (migration_json tt mc))) = Some mc"
proof -
  have "valid_keys (migration_json tt mc)" by (simp add: migration_json_def)
  from json_map_valid [OF this] show ?thesis
    using assms by (simp add: decode_context_def migration_json_def decode_string_def decode_int_def decode_time_def
      rfc3339_nano_def exact_context_def)
qed

text \<open>
  A migration context attached to a checkpoint is found on it, with every field intact,
  and still after the checkpoint went through a JSON text, whatever else its metadata holds
  (texts in UTF-8, integers of at most 53 bits).
\<close>

lemma migration_context_roundtrip:
  assumes "rfc3339 tt" and "rfc3339_nano tt" and "exact_context mc" and "exact_checkpoint cp"
  shows "ExtractMigrationContext tt (AttachMigrationContext tt cp mc) = Some mc \<and>
    (\<exists>t cp'. ToJSON tt (AttachMigrationContext tt cp mc) = Ok t \<and> FromJSON tt t = Ok cp' \<and>
       ExtractMigrationContext tt cp' = Some mc)"
proof -
  let ?c = "AttachMigrationContext tt cp mc" and ?j = "json_map (migration_json tt mc)"
  let ?md = "go_set migrationMetaKey (GMap ?j) (map_or_empty (Metadata cp))"
  have md: "Metadata ?c = Some ?md" by (simp add: AttachMigrationContext_def)
  have j: "json_ok (GMap ?j)" "json_map ?j = ?j"
    using json_map_again [OF exact_migration_json [OF assms(2,3)]] by auto
  have dec: "json_supported (GMap ?j)" "decode_context tt (GMap ?j) = Some mc"
    using json_ok_supported [OF j(1)] decode_migration_json [OF assms(2,3)] by auto
  have old: "json_ok (GMap (map_or_empty (Metadata cp)))"
    using assms(4) by (cases "Metadata cp") (simp_all add: exact_checkpoint_def json_of_map_def map_or_empty_def)
  have "set (go_set k v m) \<subseteq> insert (k, v) (set m)" for k v and m :: gmap
    by (induction m) auto
  then have "set ?md \<subseteq> insert (migrationMetaKey, GMap ?j) (set (map_or_empty (Metadata cp)))" .
  then have ok: "json_ok (GMap ?md)" using old j(1)
    by (auto simp: list_all_iff migrationMetaKey_def)
  then have "exact_checkpoint ?c"
    using assms(4) md by (simp add: exact_checkpoint_def AttachMigrationContext_def json_of_map_def)
  then obtain t where t: "ToJSON tt ?c = Ok t" "FromJSON tt t = Ok (json_checkpoint ?c)"
    using FromJSON_ToJSON [OF assms(1)] by blast
  have "valid_keys ?md" using ok unfolding json_ok_map by blast
  then have "ExtractMigrationContext tt (json_checkpoint ?c) = Some mc"
    using dec j(2) by (simp add: ExtractMigrationContext_def json_checkpoint_def md map_or_empty_def json_map_get)
  moreover have "ExtractMigrationContext tt ?c = Some mc"
    using dec by (simp add: ExtractMigrationContext_def md)
  ultimately show ?thesis using t by blast
qed

end
