(* ===== verification/Checkpoint_Manager.thy ===== *)
theory Checkpoint_Manager
  imports Checkpoint
begin

text \<open>
  The checkpoint manager (\<open>checkpointing/manager.go\<close>) over any storage: creation with parent
  links, automatic checkpoints, history, replay, pruning.  Its properties are proved in the
  locale \<open>checkpoint_storage\<close> and hold for the in-memory storage by interpretation.
  \<open>uuid.New()\<close> and the clock readings are arguments of the operations.
\<close>

section \<open>State and operations\<close>

record PrunePolicy =
  MaxCheckpointsPerSession :: int
  RetainMigrationCheckpoints :: bool
  MigrationCheckpointTTL :: duration
  MaxCheckpointSizeBytes :: int

record CheckpointManager =
  cm_autoCheckpointInterval :: int
  cm_prunePolicy :: "PrunePolicy option"
  cm_sessionSteps :: "(string \<times> int) list"
  cm_sessionLastCheckpoint :: "(string \<times> string) list"

definition NewCheckpointManager :: "int \<Rightarrow> CheckpointManager" where
  "NewCheckpointManager interval =
     \<lparr>cm_autoCheckpointInterval = interval, cm_prunePolicy = None, cm_sessionSteps = [],
      cm_sessionLastCheckpoint = []\<rparr>"

definition WithPrunePolicy :: "PrunePolicy \<Rightarrow> CheckpointManager \<Rightarrow> CheckpointManager" where
  "WithPrunePolicy p m = m\<lparr>cm_prunePolicy := Some p\<rparr>"

text \<open>A call on the storage, made by the manager: it acts on the second part of the world.\<close>

definition on_store :: "('w, 'a) call \<Rightarrow> ('m \<times> 'w, 'a) call" where
  "on_store f mw = (let (m, w) = mw; (r, w') = f w in (r, m, w'))"

text \<open>
  \<open>CreateCheckpoint\<close>; the size check of the policy only logs.
\<close>

definition CreateCheckpoint ::
    "('st, 'w) CheckpointStorage \<Rightarrow> string \<Rightarrow> time \<Rightarrow> string \<Rightarrow> string \<Rightarrow> int \<Rightarrow> 'st \<Rightarrow> message list \<Rightarrow>
     gmap option \<Rightarrow> string option \<Rightarrow> (CheckpointManager \<times> 'w, string) call" where
  "CreateCheckpoint st uuid now sessionID agentName stepNumber state messages metadata parent mw =
     (let (m, w) = mw;
          parent' = (case parent of None \<Rightarrow> go_get (cm_sessionLastCheckpoint m) sessionID | Some p \<Rightarrow> Some p);
          c = \<lparr>CheckpointID = uuid, SessionID = sessionID, AgentName = agentName, Timestamp = now,
               StepNumber = stepNumber, State = state, Messages = messages,
               Metadata = Some (map_or_empty metadata), ParentCheckpointID = parent'\<rparr>
      in case st_Save st c w of
           (Ok _, w') \<Rightarrow>
             (Ok uuid,
              m\<lparr>cm_sessionLastCheckpoint := go_set sessionID uuid (cm_sessionLastCheckpoint m),
                cm_sessionSteps := go_set sessionID stepNumber (cm_sessionSteps m)\<rparr>, w')
         | (Err e, w') \<Rightarrow> (Err e, m, w')
         | (Panic p, w') \<Rightarrow> (Panic p, m, w'))"

definition ShouldCheckpoint :: "CheckpointManager \<Rightarrow> string \<Rightarrow> int \<Rightarrow> bool" where
  "ShouldCheckpoint m sessionID stepNumber =
     (if cm_autoCheckpointInterval m = 0 then False
      else
        let lastStep = (case go_get (cm_sessionSteps m) sessionID of None \<Rightarrow> 0 | Some s \<Rightarrow> s)
        in cm_autoCheckpointInterval m \<le> stepNumber - lastStep)"

definition cm_GetLatest where "cm_GetLatest st sid = on_store (st_GetLatest st sid)"
definition cm_LoadCheckpoint where "cm_LoadCheckpoint st cid = on_store (st_Load st cid)"
definition cm_ListCheckpoints where "cm_ListCheckpoints st sid limit = on_store (st_ListCheckpoints st sid limit)"
definition cm_DeleteCheckpoint where "cm_DeleteCheckpoint st cid = on_store (st_Delete st cid)"
definition cm_GetCheckpointHistory where
  "cm_GetCheckpointHistory st cid maxDepth = on_store (st_GetCheckpointHistory st cid maxDepth)"

text \<open>\<open>RestoreState\<close>: a copy of the map, which is never nil.\<close>

definition RestoreState :: "gmap option Checkpoint \<Rightarrow> gmap" where
  "RestoreState c = map_or_empty (State c)"

primrec replay_loop ::
    "('st Checkpoint \<Rightarrow> 'st \<Rightarrow> ('w, 'r) call) \<Rightarrow> int option \<Rightarrow> 'st Checkpoint list \<Rightarrow> ('w, 'r list) call" where
  "replay_loop fn upTo [] = ret []"
| "replay_loop fn upTo (c # cs) =
     (if (case upTo of None \<Rightarrow> False | Some n \<Rightarrow> n < StepNumber c) then ret []
      else
        (\<lambda>w. case fn c (State c) w of
           (Err e, w') \<Rightarrow> (Err (Errorf ''replay failed at step %d: %w'' [GInt (StepNumber c)] (Some e)), w')
         | (Panic p, w') \<Rightarrow> (Panic p, w')
         | (Ok r, w') \<Rightarrow> and_then (replay_loop fn upTo cs) (\<lambda>rs. ret (r # rs)) w'))"

definition ReplayFromCheckpoint ::
    "('st, 'w) CheckpointStorage \<Rightarrow> ('st Checkpoint \<Rightarrow> 'st \<Rightarrow> ('m \<times> 'w, 'r) call) \<Rightarrow> string \<Rightarrow> int option \<Rightarrow>
     ('m \<times> 'w, 'r list) call" where
  "ReplayFromCheckpoint st fn cid upTo =
     and_then (cm_GetCheckpointHistory st cid 100) (\<lambda>h. replay_loop fn upTo (rev h))"

definition cm_DeleteSession ::
    "('st, 'w) CheckpointStorage \<Rightarrow> string \<Rightarrow> (CheckpointManager \<times> 'w, int) call" where
  "cm_DeleteSession st sid mw =
     (case on_store (st_DeleteSession st sid) mw of
        (Ok n, m, w) \<Rightarrow>
          (Ok n, m\<lparr>cm_sessionSteps := go_delete sid (cm_sessionSteps m),
                   cm_sessionLastCheckpoint := go_delete sid (cm_sessionLastCheckpoint m)\<rparr>, w)
      | r \<Rightarrow> r)"

definition session_stats :: "'st Checkpoint list \<Rightarrow> gmap" where
  "session_stats cs =
     (if cs = [] then
        [(''total_checkpoints'', GInt 0), (''first_checkpoint'', GNil), (''latest_checkpoint'', GNil),
         (''steps_covered'', GInt 0)]
      else
        let first = last cs; latest = hd cs in
        [(''total_checkpoints'', GInt (int (length cs))),
         (''first_checkpoint'', GStr (CheckpointID first)),
         (''latest_checkpoint'', GStr (CheckpointID latest)),
         (''first_step'', GInt (StepNumber first)),
         (''latest_step'', GInt (StepNumber latest)),
         (''steps_covered'', GInt (StepNumber latest - StepNumber first)),
         (''time_span'', GFloat (Seconds (Timestamp latest - Timestamp first)))])"

definition GetSessionStats ::
    "('st, 'w) CheckpointStorage \<Rightarrow> string \<Rightarrow> ('m \<times> 'w, gmap) call" where
  "GetSessionStats st sid = and_then (cm_ListCheckpoints st sid None) (\<lambda>cs. ret (session_stats cs))"

text \<open>
  Pruning.  \<open>age c\<close> is what \<open>time.Since(c.Timestamp)\<close> returns when the loop reaches \<open>c\<close>.
\<close>

definition retained :: "time_texts \<Rightarrow> PrunePolicy option \<Rightarrow> ('st Checkpoint \<Rightarrow> duration) \<Rightarrow> 'st Checkpoint \<Rightarrow> bool" where
  "retained tt policy age c =
     (case policy of
        None \<Rightarrow> False
      | Some p \<Rightarrow>
          RetainMigrationCheckpoints p \<and> IsMigrationCheckpoint tt c \<and>
          (0 < MigrationCheckpointTTL p \<longrightarrow> age c < MigrationCheckpointTTL p))"

primrec prune_loop ::
    "('st, 'w) CheckpointStorage \<Rightarrow> ('st Checkpoint \<Rightarrow> bool) \<Rightarrow> 'st Checkpoint list \<Rightarrow> int \<Rightarrow> ('w, int) call" where
  "prune_loop st keep [] deleted w = (Ok deleted, w)"
| "prune_loop st keep (c # cs) deleted w =
     (if keep c then prune_loop st keep cs deleted w
      else
        case st_Delete st (CheckpointID c) w of
          (Ok d, w') \<Rightarrow> prune_loop st keep cs (if d then deleted + 1 else deleted) w'
        | (Err e, w') \<Rightarrow> prune_loop st keep cs deleted w'
        | (Panic p, w') \<Rightarrow> (Panic p, w'))"

definition PruneOldCheckpoints ::
    "time_texts \<Rightarrow> ('st, 'w) CheckpointStorage \<Rightarrow> ('st Checkpoint \<Rightarrow> duration) \<Rightarrow> string \<Rightarrow> int \<Rightarrow>
     (CheckpointManager \<times> 'w, int) call" where
  "PruneOldCheckpoints tt st age sid keepLast mw =
     and_then (cm_ListCheckpoints st sid None) (\<lambda>cs mw'.
       if int (length cs) \<le> keepLast then (Ok 0, mw')
       else if keepLast < 0 then (Panic ''slice bounds out of range'', mw')
       else on_store (prune_loop st (retained tt (cm_prunePolicy (fst mw')) age) (drop (nat keepLast) cs) 0) mw') mw"

lemmas [op_defs] =
  CreateCheckpoint_def cm_GetLatest_def cm_LoadCheckpoint_def cm_ListCheckpoints_def cm_DeleteCheckpoint_def
  cm_GetCheckpointHistory_def on_store_def

section \<open>Histories\<close>

text \<open>
  A history, newest first: every checkpoint is stored and its parent is the next one.
\<close>

fun chained :: "(string \<Rightarrow> 'st Checkpoint option) \<Rightarrow> 'st Checkpoint list \<Rightarrow> bool" where
  "chained stored [] \<longleftrightarrow> True"
| "chained stored (c # cs) \<longleftrightarrow> stored (CheckpointID c) = Some c \<and>
     ParentCheckpointID c = (case cs of [] \<Rightarrow> None | d # _ \<Rightarrow> Some (CheckpointID d)) \<and> chained stored cs"

lemma chained_mono:
  "chained f cs \<Longrightarrow> (\<And>c. c \<in> set cs \<Longrightarrow> g (CheckpointID c) = f (CheckpointID c)) \<Longrightarrow> chained g cs"
  by (induction cs) auto

text \<open>A call of \<open>CreateCheckpoint\<close> with the parent left to the manager.\<close>

record 'st creation =
  cr_uuid :: string
  cr_now :: time
  cr_session :: string
  cr_agent :: string
  cr_step :: int
  cr_state :: 'st
  cr_messages :: "message list"
  cr_metadata :: "gmap option"

definition do_create ::
    "('st, 'w) CheckpointStorage \<Rightarrow> 'st creation \<Rightarrow> (CheckpointManager \<times> 'w, string) call" where
  "do_create st r = CreateCheckpoint st (cr_uuid r) (cr_now r) (cr_session r) (cr_agent r) (cr_step r)
     (cr_state r) (cr_messages r) (cr_metadata r) None"

primrec create_all ::
    "('st, 'w) CheckpointStorage \<Rightarrow> 'st creation list \<Rightarrow> (CheckpointManager \<times> 'w, unit) call" where
  "create_all st [] = ret ()"
| "create_all st (r # rs) = and_then (do_create st r) (\<lambda>_. create_all st rs)"

text \<open>The checkpoint a call creates, and the history of a session after a series of calls.\<close>

definition created :: "'st creation \<Rightarrow> string option \<Rightarrow> 'st Checkpoint" where
  "created r p =
     \<lparr>CheckpointID = cr_uuid r, SessionID = cr_session r, AgentName = cr_agent r, Timestamp = cr_now r,
      StepNumber = cr_step r, State = cr_state r, Messages = cr_messages r,
      Metadata = Some (map_or_empty (cr_metadata r)), ParentCheckpointID = p\<rparr>"

definition last_id :: "'st Checkpoint list \<Rightarrow> string option" where
  "last_id cs = (case cs of [] \<Rightarrow> None | c # _ \<Rightarrow> Some (CheckpointID c))"

fun session_history :: "('st Checkpoint \<Rightarrow> 'st Checkpoint) \<Rightarrow> 'st creation list \<Rightarrow> 'st Checkpoint list" where
  "session_history kept [] = []"
| "session_history kept (r # older) =
     (let h = session_history kept older in kept (created r (last_id h)) # h)"

text \<open>The requests of one session, newest first.\<close>

definition of_session :: "string \<Rightarrow> 'st creation list \<Rightarrow> 'st creation list" where
  "of_session sid rs = rev (filter (\<lambda>r. cr_session r = sid) rs)"

lemma of_session_snoc:
  "of_session sid (rs @ [r]) = (if cr_session r = sid then r # of_session sid rs else of_session sid rs)"
  by (simp add: of_session_def)

lemma create_all_append:
  "create_all st (rs @ rs') = and_then (create_all st rs) (\<lambda>_. create_all st rs')"
  by (induction rs) (simp_all add: and_then_assoc)

text \<open>What the manager tracks of a session: its last checkpoint and step.\<close>

definition tracks :: "CheckpointManager \<Rightarrow> string \<Rightarrow> 'st Checkpoint list \<Rightarrow> bool" where
  "tracks m sid cs \<longleftrightarrow> go_get (cm_sessionLastCheckpoint m) sid = last_id cs \<and>
     go_get (cm_sessionSteps m) sid = (case cs of [] \<Rightarrow> None | c # _ \<Rightarrow> Some (StepNumber c))"

context checkpoint_storage
begin

lemma session_history_ids: "map CheckpointID (session_history kept rs) = map cr_uuid rs"
  by (induction rs) (simp_all add: Let_def kept_simps created_def)

lemma do_create_step:
  assumes "ok w" and "stored w (cr_uuid r) = None" and "valid_id (cr_uuid r)" and "valid_session (cr_session r)"
    and "tracks m (cr_session r) cs" and "writable (created r (last_id cs))"
  shows "\<exists>m' w'. do_create st r (m, w) = (Ok (cr_uuid r), m', w') \<and> ok w' \<and>
    stored w' = (stored w)(cr_uuid r \<mapsto> kept (created r (last_id cs))) \<and>
    tracks m' (cr_session r) (kept (created r (last_id cs)) # cs) \<and>
    (\<forall>sid (cs' :: 'st Checkpoint list). sid \<noteq> cr_session r \<longrightarrow> tracks m' sid cs' = tracks m sid cs') \<and>
    cm_prunePolicy m' = cm_prunePolicy m \<and> cm_autoCheckpointInterval m' = cm_autoCheckpointInterval m"
proof -
  have l: "go_get (cm_sessionLastCheckpoint m) (cr_session r) = last_id cs"
    using assms(5) by (simp add: tracks_def)
  obtain w' where "st_Save st (created r (last_id cs)) w = (Ok (), w')" "ok w'"
    "stored w' = (stored w)(cr_uuid r \<mapsto> kept (created r (last_id cs)))"
    using save [OF assms(1,6)] assms(2-4) by (auto simp: created_def)
  then show ?thesis
    by (auto simp: do_create_def CreateCheckpoint_def created_def [symmetric] l tracks_def last_id_def
        kept_simps) (simp_all add: created_def)
qed

lemma create_all_histories:
  assumes "ok w0" and "stored w0 = (\<lambda>_. None)" 
    and "\<And>r. r \<in> set rs \<Longrightarrow> valid_id (cr_uuid r) \<and> valid_session (cr_session r) \<and> (\<forall>p. writable (created r p))"
    and "distinct (map cr_uuid rs)"
  shows "\<exists>m w. create_all st rs (NewCheckpointManager n, w0) = (Ok (), m, w) \<and> ok w \<and>
    dom (stored w) = cr_uuid ` set rs \<and>
    (\<forall>sid. tracks m sid (session_history kept (of_session sid rs)) \<and>
       chained (stored w) (session_history kept (of_session sid rs)))"
  using assms(3,4)
proof (induction rs rule: rev_induct)
  case Nil
  show ?case using assms(1,2)
    by (auto simp: of_session_def tracks_def NewCheckpointManager_def last_id_def)
next
  case (snoc r rs)
  then obtain m w where run: "create_all st rs (NewCheckpointManager n, w0) = (Ok (), m, w)" and "ok w"
    and dom: "dom (stored w) = cr_uuid ` set rs"
    and hist: "\<And>sid. tracks m sid (session_history kept (of_session sid rs))"
      "\<And>sid. chained (stored w) (session_history kept (of_session sid rs))" by auto
  let ?cs = "session_history kept (of_session (cr_session r) rs)"
  have fresh: "stored w (cr_uuid r) = None" using snoc.prems dom by auto
  obtain m' w' where c: "do_create st r (m, w) = (Ok (cr_uuid r), m', w')" "ok w'"
    "stored w' = (stored w)(cr_uuid r \<mapsto> kept (created r (last_id ?cs)))"
    "tracks m' (cr_session r) (kept (created r (last_id ?cs)) # ?cs)"
    "\<And>sid (cs' :: 'st Checkpoint list). sid \<noteq> cr_session r \<Longrightarrow> tracks m' sid cs' = tracks m sid cs'"
    using do_create_step [OF \<open>ok w\<close> fresh _ _ hist(1)] snoc.prems(1) by auto
  have ids: "CheckpointID c \<noteq> cr_uuid r" if "c \<in> set (session_history kept (of_session sid rs))" for c sid
  proof -
    have "CheckpointID c \<in> set (map cr_uuid (of_session sid rs))"
      using that session_history_ids [of "of_session sid rs"] by (metis imageI set_map)
    then show ?thesis using snoc.prems by (auto simp: of_session_def)
  qed
  have old: "chained (stored w') (session_history kept (of_session sid rs))" for sid
    by (rule chained_mono [OF hist(2)]) (auto simp: c(3) dest: ids)
  have "create_all st (rs @ [r]) (NewCheckpointManager n, w0) = (Ok (), m', w')"
    using run c(1) by (simp add: create_all_append and_then_def)
  moreover have "dom (stored w') = cr_uuid ` set (rs @ [r])" using dom c(3) by auto
  moreover have "tracks m' sid (session_history kept (of_session sid (rs @ [r]))) \<and>
    chained (stored w') (session_history kept (of_session sid (rs @ [r])))" for sid
  proof (cases "sid = cr_session r")
    case True
    have "chained (stored w') (kept (created r (last_id ?cs)) # ?cs)"
      using old [of "cr_session r"] c(3)
      by (simp add: kept_simps) (simp add: created_def last_id_def)
    with True c(4) show ?thesis by (simp add: of_session_snoc Let_def)
  next
    case False
    with c(5) hist(1) old show ?thesis by (simp add: of_session_snoc)
  qed
  ultimately show ?case using c(2) by blast
qed

lemma chained_history:
  assumes "ok w" and "chained (stored w) cs" and "cs \<noteq> []"
  shows "history_loop (st_Load st) n (CheckpointID (hd cs)) w = (Ok (take n cs), w)"
  using assms(2,3)
proof (induction n arbitrary: cs)
  case (Suc n)
  obtain c cs' where cs: "cs = c # cs'" using Suc.prems(2) by (cases cs) auto
  have ld: "st_Load st (CheckpointID c) w = (Ok (Some c), w)"
    using Suc.prems(1) cs load [OF assms(1)] stored_id [OF assms(1)] by auto
  show ?case
  proof (cases cs')
    case Nil
    with Suc.prems cs ld show ?thesis by (simp add: and_then_def)
  next
    case (Cons d ds)
    with Suc.IH [of cs'] Suc.prems cs ld show ?thesis by (simp add: and_then_def)
  qed
qed simp

end

definition up_to :: "int option \<Rightarrow> int \<Rightarrow> bool" where
  "up_to upTo n \<longleftrightarrow> (case upTo of None \<Rightarrow> True | Some u \<Rightarrow> n \<le> u)"

lemma replay_loop_total:
  "replay_loop (\<lambda>c s w. (Ok (f (StepNumber c) s), w)) upTo cs w =
     (Ok (map (\<lambda>c. f (StepNumber c) (State c)) (takeWhile (\<lambda>c. up_to upTo (StepNumber c)) cs)), w)"
proof (induction cs)
  case (Cons c cs)
  then show ?case by (cases upTo) (auto simp: and_then_def up_to_def)
qed simp

lemma on_store_simp [simp]: "f w = (r, w') \<Longrightarrow> on_store f (m, w) = (r, m, w')"
  by (simp add: on_store_def)

lemma rev_map_takeWhile_take:
  assumes "map g cs = map h rs" and "\<And>c. P c = Q (g c)"
  shows "map g (takeWhile P (rev (take n cs))) = map h (takeWhile (\<lambda>r. Q (h r)) (rev (take n rs)))"
proof -
  have "P = Q \<circ> g" using assms(2) by (simp add: fun_eq_iff)
  then have "map g (takeWhile P (rev (take n cs))) = takeWhile Q (rev (take n (map g cs)))"
    by (simp add: takeWhile_map take_map rev_map)
  also have "\<dots> = map h (takeWhile (\<lambda>r. Q (h r)) (rev (take n rs)))"
    by (simp add: assms(1) takeWhile_map comp_def take_map rev_map)
  finally show ?thesis .
qed

context checkpoint_storage
begin

lemma prune_loop_exact:
  assumes "ok w" and "distinct (map CheckpointID cs)" and "\<And>c. c \<in> set cs \<Longrightarrow> stored w (CheckpointID c) = Some c"
  shows "\<exists>w'. prune_loop st keep cs d w = (Ok (d + int (length (filter (\<lambda>c. \<not> keep c) cs))), w') \<and> ok w' \<and>
    stored w' = (\<lambda>i. if i \<in> CheckpointID ` {c \<in> set cs. \<not> keep c} then None else stored w i)"
  using assms
proof (induction cs arbitrary: d w)
  case (Cons c cs)
  show ?case
  proof (cases "keep c")
    case True
    then have "{x \<in> set (c # cs). \<not> keep x} = {x \<in> set cs. \<not> keep x}" by auto
    with True Cons.IH [OF Cons.prems(1), of d] Cons.prems(2,3) show ?thesis by simp
  next
    case False
    obtain w1 where w1: "st_Delete st (CheckpointID c) w = (Ok True, w1)" "ok w1"
      "stored w1 = (stored w)(CheckpointID c := None)"
      using delete [OF Cons.prems(1), of "CheckpointID c"] Cons.prems(3) [of c]
        stored_id [OF Cons.prems(1), of "CheckpointID c" c] by auto
    have "\<And>x. x \<in> set cs \<Longrightarrow> stored w1 (CheckpointID x) = Some x"
      using Cons.prems(2,3) by (auto simp: w1(3)) (metis imageI)
    then obtain w' where "prune_loop st keep cs (d + 1) w1 =
        (Ok (d + 1 + int (length (filter (\<lambda>c. \<not> keep c) cs))), w')" "ok w'"
      "stored w' = (\<lambda>i. if i \<in> CheckpointID ` {c \<in> set cs. \<not> keep c} then None else stored w1 i)"
      using Cons.IH [OF w1(2), of "d + 1"] Cons.prems(2) by auto
    with w1 False show ?thesis by (auto simp: fun_eq_iff)
  qed
qed (auto simp: fun_eq_iff)

lemma PruneOldCheckpoints_exact:
  assumes "ok w" and "0 \<le> keepLast" and "valid_session sid"
  shows "\<exists>cs w'. newest_first cs \<and> set cs = in_session (stored w) sid \<and>
    (let gone = filter (\<lambda>c. \<not> retained tt (cm_prunePolicy m) age c) (drop (nat keepLast) cs) in
     PruneOldCheckpoints tt st age sid keepLast (m, w) = (Ok (int (length gone)), m, w') \<and> ok w' \<and>
     stored w' = (\<lambda>i. if i \<in> CheckpointID ` set gone then None else stored w i))"
proof -
  obtain cs where cs: "newest_first cs" "set cs = in_session (stored w) sid"
    "\<And>limit. valid_limit limit \<Longrightarrow> st_ListCheckpoints st sid limit w = (apply_limit limit cs, w)"
    using list [OF assms(1,3)] by metis
  let ?keep = "retained tt (cm_prunePolicy m) age"
  have l: "cm_ListCheckpoints st sid None (m, w) = (Ok cs, m, w)"
    using cs(3) [of None] by (simp add: cm_ListCheckpoints_def valid_limit_def apply_limit_def)
  show ?thesis
  proof (cases "int (length cs) \<le> keepLast")
    case True
    then have "drop (nat keepLast) cs = []" by auto
    with True l cs assms(1) show ?thesis
      by (auto simp: PruneOldCheckpoints_def and_then_def intro!: exI [of _ cs])
  next
    case False
    have st: "stored w (CheckpointID c) = Some c" if "c \<in> set (drop (nat keepLast) cs)" for c
      using in_set_dropD [OF that] cs(2) stored_id [OF assms(1)] by (auto simp: in_session_def ran_def)
    have "distinct (map CheckpointID (drop (nat keepLast) cs))"
      using cs(1) by (simp add: newest_first_def drop_map [symmetric])
    from prune_loop_exact [OF assms(1) this st, where d = 0 and keep = ?keep] obtain w' where
      "prune_loop st ?keep (drop (nat keepLast) cs) 0 w =
        (Ok (int (length (filter (\<lambda>c. \<not> ?keep c) (drop (nat keepLast) cs)))), w')" "ok w'"
      "stored w' = (\<lambda>i. if i \<in> CheckpointID ` {c \<in> set (drop (nat keepLast) cs). \<not> ?keep c} then None else stored w i)"
      by auto
    with False assms(2) l cs show ?thesis
      by (intro exI [of _ cs] exI [of _ w'])
        (auto simp: PruneOldCheckpoints_def and_then_def Let_def set_filter)
  qed
qed

lemma session_history_steps:
  "map (\<lambda>c. StepNumber c) (session_history kept rs) = map cr_step rs"
  by (induction rs) (simp_all add: Let_def kept_simps created_def)

end

lemma session_history_states:
  "map (\<lambda>c. (StepNumber c, State c)) (session_history (\<lambda>c. c) rs) = map (\<lambda>r. (cr_step r, cr_state r)) rs"
  by (induction rs) (simp_all add: Let_def created_def)

text \<open>
  C18. Replay is faithful to what was saved.  Whatever interleaving of sessions creates the
  checkpoints (with fresh identifiers and any clock), the manager remembers the last
  checkpoint of a session, and a replay from it calls the replay function on the (at most
  100) most recent checkpoints of exactly this session, in the order of their creation, each
  with the state it was created with, up to the first beyond \<open>upToStep\<close>.
\<close>

theorem replay_visits_in_order:
  fixes f :: "int \<Rightarrow> 'st \<Rightarrow> 'r"
  assumes "sort_slice srt" and "distinct (map cr_uuid rs)" and "of_session sid rs = r # older"
  shows "\<exists>m w. create_all (InMemoryStorage_methods srt) rs (NewCheckpointManager n, NewInMemoryStorage) = (Ok (), m, w) \<and>
    go_get (cm_sessionLastCheckpoint m) sid = Some (cr_uuid r) \<and>
    ReplayFromCheckpoint (InMemoryStorage_methods srt) (\<lambda>c s mw. (Ok (f (StepNumber c) s), mw)) (cr_uuid r) upTo (m, w) =
      (Ok (map (\<lambda>r. f (cr_step r) (cr_state r))
         (takeWhile (\<lambda>r. up_to upTo (cr_step r)) (rev (take 100 (r # older))))), m, w)"
proof -
  let ?st = "InMemoryStorage_methods srt" and ?h = "session_history (\<lambda>c. c) (r # older)"
  note storage = in_memory_storage [OF assms(1)]
  obtain m w where run: "create_all ?st rs (NewCheckpointManager n, NewInMemoryStorage) = (Ok (), m, w)" and "im_ok w"
    and tr: "tracks m sid ?h" and ch: "chained (im_stored w) ?h"
    using checkpoint_storage.create_all_histories [OF storage im_ok_new, of rs n] assms(2)
    by (auto simp: NewInMemoryStorage_def assms(3) [symmetric] simp del: session_history.simps)
  have hd: "CheckpointID (hd ?h) = cr_uuid r" by (simp add: Let_def created_def)
  have "st_GetCheckpointHistory ?st (cr_uuid r) 100 w = (Ok (take 100 ?h), w)"
    using checkpoint_storage.chained_history [OF storage \<open>im_ok w\<close> ch, of 100] hd
    by (simp add: checkpoint_storage.history [OF storage] history_of_def Let_def)
  moreover have "map (\<lambda>c. f (StepNumber c) (State c)) (takeWhile (\<lambda>c. up_to upTo (StepNumber c)) (rev (take 100 ?h))) =
      map (\<lambda>r. f (cr_step r) (cr_state r)) (takeWhile (\<lambda>r. up_to upTo (cr_step r)) (rev (take 100 (r # older))))"
    using arg_cong [OF rev_map_takeWhile_take [OF session_history_states [of "r # older"],
      of "\<lambda>c. up_to upTo (StepNumber c)" "\<lambda>(s, _). up_to upTo s" 100], of "map (\<lambda>(s, x). f s x)"]
    by (simp add: comp_def)
  moreover have "go_get (cm_sessionLastCheckpoint m) sid = Some (cr_uuid r)"
    using tr hd by (simp add: tracks_def last_id_def Let_def)
  ultimately show ?thesis
    using run by (auto simp: ReplayFromCheckpoint_def cm_GetCheckpointHistory_def and_then_def replay_loop_total)
qed

theorem replay_visits_in_order_witness:
  "let st = InMemoryStorage_methods go_insort;
       mk = (\<lambda>i s n. \<lparr>cr_uuid = i, cr_now = 0, cr_session = s, cr_agent = ''a'', cr_step = n, cr_state = n,
                    cr_messages = [], cr_metadata = None\<rparr>);
       rs = [mk ''x'' ''s'' 1, mk ''y'' ''t'' 1, mk ''z'' ''s'' 2]
   in \<exists>m w. create_all st rs (NewCheckpointManager 0, NewInMemoryStorage) = (Ok (), m, w) \<and>
        ReplayFromCheckpoint st (\<lambda>c s mw. (Ok (StepNumber c, s), mw)) ''z'' None (m, w) =
          (Ok [(1 :: int, 1 :: int), (2, 2)], m, w)"
proof -
  let ?mk = "\<lambda>i s n. \<lparr>cr_uuid = i, cr_now = 0, cr_session = s, cr_agent = ''a'', cr_step = n, cr_state = n,
                    cr_messages = [], cr_metadata = None\<rparr> :: int creation"
  let ?rs = "[?mk ''x'' ''s'' 1, ?mk ''y'' ''t'' 1, ?mk ''z'' ''s'' 2]"
  have s: "of_session ''s'' ?rs = ?mk ''z'' ''s'' 2 # [?mk ''x'' ''s'' 1]" by (simp add: of_session_def)
  show ?thesis
    using replay_visits_in_order [OF insertion.sort_slice_axioms _ s, of 0 Pair None]
    by (auto simp: Let_def up_to_def)
qed

text \<open>
  Pruning keeps the newest: with \<open>keepLast\<close> of at least 0, a session loses exactly the
  checkpoints after the first \<open>keepLast\<close> of its listing, which is ordered from the newest,
  except those the policy retains; nothing else is touched, the index stays consistent, and
  the number of deleted checkpoints is returned.
\<close>

lemma prune_keeps_newest:
  assumes "sort_slice srt" and "im_ok s" and "0 \<le> keepLast"
  shows "\<exists>cs s'. newest_first cs \<and> set cs = in_session (im_stored s) sid \<and>
    (let gone = filter (\<lambda>c. \<not> retained tt (cm_prunePolicy m) age c) (drop (nat keepLast) cs) in
     PruneOldCheckpoints tt (InMemoryStorage_methods srt) age sid keepLast (m, s) = (Ok (int (length gone)), m, s') \<and>
     im_ok s' \<and>
     im_stored s' = (\<lambda>i. if i \<in> CheckpointID ` set gone then None else im_stored s i))"
  by (rule checkpoint_storage.PruneOldCheckpoints_exact [OF in_memory_storage [OF assms(1)] assms(2,3) TrueI])

end
