(* ===== verification/Durable.thy ===== *)
theory Durable
  imports Checkpoint_Manager
begin

text \<open>
  The durable agent (\<open>checkpointing/durable.go\<close>): an agent with one state map and one message
  history per session, saved by the checkpoint manager and restored on the first call or
  after an error.

  The state map of a session is an object that the agent and a saved checkpoint may share, so
  maps live in an explicit store: \<open>heap\<close> lists them, an address is an index, and \<open>None\<close> is the
  nil map.  Values inside a map are values (nested maps are not updated by this code).
\<close>

section \<open>Maps in a store\<close>

type_synonym heap = "gmap list"
type_synonym ref = "nat option"

definition deref :: "heap \<Rightarrow> ref \<Rightarrow> gmap" where
  "deref h r = (case r of None \<Rightarrow> [] | Some a \<Rightarrow> if a < length h then h ! a else [])"

text \<open>\<open>make(map[string]interface{})\<close> followed by the copy of every entry.\<close>

definition alloc :: "gmap \<Rightarrow> heap \<Rightarrow> nat \<times> heap" where
  "alloc m h = (length h, h @ [m])"

text \<open>
  A storage as seen by the durable agent: the in-memory storage keeps the reference, a
  storage that writes JSON keeps the content and returns a new map.
\<close>

definition by_reference :: "('st, 's) CheckpointStorage \<Rightarrow> ('st, heap \<times> 's) CheckpointStorage" where
  "by_reference st =
     \<lparr>st_Save = (\<lambda>c. on_store (st_Save st c)), st_Load = (\<lambda>i. on_store (st_Load st i)),
      st_ListCheckpoints = (\<lambda>sid l. on_store (st_ListCheckpoints st sid l)),
      st_GetLatest = (\<lambda>sid. on_store (st_GetLatest st sid)), st_Delete = (\<lambda>i. on_store (st_Delete st i)),
      st_DeleteSession = (\<lambda>sid. on_store (st_DeleteSession st sid)),
      st_GetCheckpointHistory = (\<lambda>i n. on_store (st_GetCheckpointHistory st i n))\<rparr>"

definition save_value :: "(gmap option, 's) CheckpointStorage \<Rightarrow> ref Checkpoint \<Rightarrow> (heap \<times> 's, unit) call" where
  "save_value st c hs =
     (let (h, s) = hs in on_store (st_Save st (with_State (map_option (\<lambda>a. deref h (Some a)) (State c)) c)) (h, s))"

definition load_value :: "gmap option Checkpoint \<Rightarrow> heap \<Rightarrow> ref Checkpoint \<times> heap" where
  "load_value c h =
     (case State c of None \<Rightarrow> (with_State None c, h)
      | Some m \<Rightarrow> let (a, h') = alloc m h in (with_State (Some a) c, h'))"

fun load_values :: "gmap option Checkpoint list \<Rightarrow> heap \<Rightarrow> ref Checkpoint list \<times> heap" where
  "load_values [] h = ([], h)"
| "load_values (c # cs) h =
     (let (c', h1) = load_value c h; (cs', h2) = load_values cs h1 in (c' # cs', h2))"

definition load_list :: "('s, gmap option Checkpoint list) call \<Rightarrow> (heap \<times> 's, ref Checkpoint list) call" where
  "load_list f = and_then (on_store f) (\<lambda>cs (h, s). let (cs', h') = load_values cs h in (Ok cs', h', s))"

definition load_one :: "('s, gmap option Checkpoint option) call \<Rightarrow> (heap \<times> 's, ref Checkpoint option) call" where
  "load_one f = and_then (on_store f) (\<lambda>c (h, s).
     case c of None \<Rightarrow> (Ok None, h, s)
     | Some c \<Rightarrow> let (c', h') = load_value c h in (Ok (Some c'), h', s))"

definition by_value :: "(gmap option, 's) CheckpointStorage \<Rightarrow> (ref, heap \<times> 's) CheckpointStorage" where
  "by_value st =
     \<lparr>st_Save = save_value st, st_Load = (\<lambda>i. load_one (st_Load st i)),
      st_ListCheckpoints = (\<lambda>sid l. load_list (st_ListCheckpoints st sid l)),
      st_GetLatest = (\<lambda>sid. load_one (st_GetLatest st sid)), st_Delete = (\<lambda>i. on_store (st_Delete st i)),
      st_DeleteSession = (\<lambda>sid. on_store (st_DeleteSession st sid)),
      st_GetCheckpointHistory = (\<lambda>i n. load_list (st_GetCheckpointHistory st i n))\<rparr>"

section \<open>State and operations\<close>

record DurableAgent =
  da_agentName :: string
  da_checkpointInterval :: int
  da_autoResume :: bool
  da_manager :: CheckpointManager
  da_sessionState :: "(string \<times> nat) list"
  da_sessionSteps :: "(string \<times> int) list"
  da_sessionMessages :: "(string \<times> message list) list"
  da_sessionResumed :: "(string \<times> bool) list"

definition NewDurableAgent :: "'w agent \<Rightarrow> int \<Rightarrow> bool \<Rightarrow> string \<Rightarrow> DurableAgent" where
  "NewDurableAgent agent checkpointInterval autoResume agentName =
     \<lparr>da_agentName = (if agentName = [] then agent_Name agent else agentName),
      da_checkpointInterval = checkpointInterval, da_autoResume = autoResume,
      da_manager = NewCheckpointManager checkpointInterval,
      da_sessionState = [], da_sessionSteps = [], da_sessionMessages = [], da_sessionResumed = []\<rparr>"

type_synonym 's dstate = "DurableAgent \<times> heap \<times> 's"

abbreviation steps_of :: "DurableAgent \<Rightarrow> string \<Rightarrow> int" where
  "steps_of d sid \<equiv> (case go_get (da_sessionSteps d) sid of None \<Rightarrow> 0 | Some n \<Rightarrow> n)"

abbreviation messages_of :: "DurableAgent \<Rightarrow> string \<Rightarrow> message list" where
  "messages_of d sid \<equiv> (case go_get (da_sessionMessages d) sid of None \<Rightarrow> [] | Some ms \<Rightarrow> ms)"

definition via_manager :: "(CheckpointManager \<times> heap \<times> 's, 'r) call \<Rightarrow> ('s dstate, 'r) call" where
  "via_manager f ds =
     (let (d, hs) = ds; (r, m, hs') = f (da_manager d, hs) in (r, d\<lparr>da_manager := m\<rparr>, hs'))"

text \<open>\<open>Checkpoint\<close> hands the session's own map to the manager.\<close>

definition da_Checkpoint ::
    "(ref, heap \<times> 's) CheckpointStorage \<Rightarrow> string \<Rightarrow> time \<Rightarrow> string \<Rightarrow> gmap option \<Rightarrow> ('s dstate, string) call" where
  "da_Checkpoint st uuid now sid metadata ds =
     (let d = fst ds in
      via_manager (CreateCheckpoint st uuid now sid (da_agentName d) (steps_of d sid)
        (go_get (da_sessionState d) sid) (messages_of d sid) metadata None) ds)"

definition da_restore :: "ref Checkpoint \<Rightarrow> string \<Rightarrow> 's dstate \<Rightarrow> 's dstate" where
  "da_restore c sid ds =
     (let (d, h, s) = ds; (a, h') = alloc (deref h (State c)) h
      in (d\<lparr>da_sessionState := go_set sid a (da_sessionState d),
            da_sessionSteps := go_set sid (StepNumber c) (da_sessionSteps d),
            da_sessionMessages := go_set sid (Messages c) (da_sessionMessages d)\<rparr>, h', s))"

definition da_Resume ::
    "(ref, heap \<times> 's) CheckpointStorage \<Rightarrow> string \<Rightarrow> string \<Rightarrow> ('s dstate, ref) call" where
  "da_Resume st sid checkpointID =
     and_then
       (via_manager (if checkpointID \<noteq> [] then cm_LoadCheckpoint st checkpointID else cm_GetLatest st sid))
       (\<lambda>found ds.
          case found of
            None \<Rightarrow> (Ok None, ds)
          | Some c \<Rightarrow> (Ok (go_get (da_sessionState (fst (da_restore c sid ds))) sid), da_restore c sid ds))"

text \<open>\<open>updateState\<close> assigns to the session's map in place; assigning to a nil map panics.\<close>

definition updated_state :: "(real \<Rightarrow> string) \<Rightarrow> message \<Rightarrow> message \<Rightarrow> gmap \<Rightarrow> gmap" where
  "updated_state ff inputMessage outputMessage state =
     (let n = (case go_get state ''message_count'' of Some (GInt i) \<Rightarrow> i | _ \<Rightarrow> 0);
          s1 = go_set ''message_count'' (GInt (n + 1)) state;
          s2 = go_set ''last_input'' (GStr (ContentString ff inputMessage)) s1;
          s3 = go_set ''last_output'' (GStr (ContentString ff outputMessage)) s2
      in case msg_metadata outputMessage of None \<Rightarrow> s3 | Some md \<Rightarrow> go_set ''last_metadata'' (GMap md) s3)"

definition updateState ::
    "(real \<Rightarrow> string) \<Rightarrow> string \<Rightarrow> message \<Rightarrow> message \<Rightarrow> ('s dstate, unit) call" where
  "updateState ff sid inputMessage outputMessage ds =
     (let (d, h, s) = ds in
      case go_get (da_sessionState d) sid of
        None \<Rightarrow> (Panic ''assignment to entry in nil map'', ds)
      | Some a \<Rightarrow> (Ok (), d, h[a := updated_state ff inputMessage outputMessage (deref h (Some a))], s))"

text \<open>The parts of \<open>Process\<close>: the resumption, the entry of the message, the reply.\<close>

definition da_auto_resume :: "(ref, heap \<times> 's) CheckpointStorage \<Rightarrow> string \<Rightarrow> ('s dstate, unit) call" where
  "da_auto_resume st sid ds =
     (if da_autoResume (fst ds) \<and> go_get (da_sessionResumed (fst ds)) sid \<noteq> Some True then
        (case da_Resume st sid [] ds of
           (Panic p, ds') \<Rightarrow> (Panic p, ds')
         | (_, d, hs) \<Rightarrow> (Ok (), d\<lparr>da_sessionResumed := go_set sid True (da_sessionResumed d)\<rparr>, hs))
      else (Ok (), ds))"

definition da_init :: "string \<Rightarrow> 's dstate \<Rightarrow> 's dstate" where
  "da_init sid ds =
     (let (d, h, s) = ds in
      case go_get (da_sessionState d) sid of
        Some _ \<Rightarrow> ds
      | None \<Rightarrow>
          (let (a, h') = alloc [] h in
           (d\<lparr>da_sessionState := go_set sid a (da_sessionState d),
              da_sessionSteps := go_set sid 0 (da_sessionSteps d),
              da_sessionMessages := go_set sid [] (da_sessionMessages d)\<rparr>, h', s)))"

definition da_append :: "string \<Rightarrow> message \<Rightarrow> DurableAgent \<Rightarrow> DurableAgent" where
  "da_append sid m d =
     d\<lparr>da_sessionMessages := go_set sid (messages_of d sid @ [m]) (da_sessionMessages d)\<rparr>"

definition da_begin ::
    "(ref, heap \<times> 's) CheckpointStorage \<Rightarrow> string \<Rightarrow> message option \<Rightarrow> ('s dstate, int \<times> message) call" where
  "da_begin st sid msg =
     and_then (da_auto_resume st sid) (\<lambda>_ ds.
       let (d, hs) = da_init sid ds;
           step = steps_of d sid + 1;
           d' = d\<lparr>da_sessionSteps := go_set sid step (da_sessionSteps d)\<rparr>
       in case msg of
            None \<Rightarrow> (Panic ''nil pointer dereference'', d', hs)
          | Some m \<Rightarrow> (Ok (step, m), da_append sid m d', hs))"

definition da_rollback :: "(ref, heap \<times> 's) CheckpointStorage \<Rightarrow> string \<Rightarrow> ('s dstate, unit) call" where
  "da_rollback st sid ds =
     (case via_manager (cm_GetLatest st sid) ds of
        (Ok (Some c), ds') \<Rightarrow>
          (case da_Resume st sid (CheckpointID c) ds' of
             (Panic p, ds'') \<Rightarrow> (Panic p, ds'')
           | (_, ds'') \<Rightarrow> (Ok (), ds''))
      | (Panic p, ds') \<Rightarrow> (Panic p, ds')
      | (_, ds') \<Rightarrow> (Ok (), ds'))"

definition da_finish ::
    "(real \<Rightarrow> string) \<Rightarrow> (ref, heap \<times> 's) CheckpointStorage \<Rightarrow> string \<Rightarrow> time \<Rightarrow> string \<Rightarrow> int \<Rightarrow> message \<Rightarrow>
     reply \<Rightarrow> ('s dstate, message option) call" where
  "da_finish ff st uuid now sid step message reply ds =
     (case reply of
        Err e \<Rightarrow> (case da_rollback st sid ds of (Panic p, ds') \<Rightarrow> (Panic p, ds') | (_, ds') \<Rightarrow> (Err e, ds'))
      | Panic p \<Rightarrow> (Panic p, ds)
      | Ok None \<Rightarrow> (Panic ''nil pointer dereference'', ds)
      | Ok (Some response) \<Rightarrow>
          and_then (updateState ff sid message response) (\<lambda>_ ds'.
            if ShouldCheckpoint (da_manager (fst ds')) sid step then
              (case da_Checkpoint st uuid now sid None ds' of
                 (Panic p, ds'') \<Rightarrow> (Panic p, ds'')
               | (_, ds'') \<Rightarrow> (Ok (Some response), ds''))
            else (Ok (Some response), ds')) (da_append sid response (fst ds), snd ds))"

definition da_Process ::
    "(real \<Rightarrow> string) \<Rightarrow> (ref, heap \<times> 's) CheckpointStorage \<Rightarrow> 'w agent \<Rightarrow> string \<Rightarrow> time \<Rightarrow> go_ctx \<Rightarrow>
     message option \<Rightarrow> string \<Rightarrow> ('s dstate \<times> 'w, message option) call" where
  "da_Process ff st ag uuid now ctx msg sid dsw =
     (let (ds, w) = dsw in
      case da_begin st sid msg ds of
        (Err e, ds') \<Rightarrow> (Err e, ds', w)
      | (Panic p, ds') \<Rightarrow> (Panic p, ds', w)
      | (Ok (step, m), ds') \<Rightarrow>
          (let (rep, w') = agent_Process ag ctx msg w;
               (r, ds'') = da_finish ff st uuid now sid step m rep ds'
           in (r, ds'', w')))"

definition da_GetState :: "string \<Rightarrow> 's dstate \<Rightarrow> gmap" where
  "da_GetState sid ds = (let (d, h, s) = ds in deref h (go_get (da_sessionState d) sid))"

definition da_SetState :: "string \<Rightarrow> gmap \<Rightarrow> 's dstate \<Rightarrow> 's dstate" where
  "da_SetState sid state ds =
     (let (d, h, s) = ds; (a, h') = alloc state h in (d\<lparr>da_sessionState := go_set sid a (da_sessionState d)\<rparr>, h', s))"

definition da_GetMessages :: "string \<Rightarrow> DurableAgent \<Rightarrow> message list" where
  "da_GetMessages sid d = messages_of d sid"

definition da_ResetSession :: "string \<Rightarrow> DurableAgent \<Rightarrow> DurableAgent" where
  "da_ResetSession sid d =
     d\<lparr>da_sessionState := go_delete sid (da_sessionState d),
       da_sessionSteps := go_delete sid (da_sessionSteps d),
       da_sessionMessages := go_delete sid (da_sessionMessages d),
       da_sessionResumed := go_delete sid (da_sessionResumed d)\<rparr>"

definition da_DeleteCheckpoints ::
    "(ref, heap \<times> 's) CheckpointStorage \<Rightarrow> string \<Rightarrow> ('s dstate, int) call" where
  "da_DeleteCheckpoints st sid =
     and_then (via_manager (cm_DeleteSession st sid)) (\<lambda>n (d, hs). (Ok n, da_ResetSession sid d, hs))"

definition da_ListCheckpoints ::
    "(ref, heap \<times> 's) CheckpointStorage \<Rightarrow> string \<Rightarrow> int option \<Rightarrow> ('s dstate, ref Checkpoint list) call" where
  "da_ListCheckpoints st sid limit = via_manager (cm_ListCheckpoints st sid limit)"

definition da_GetSessionStats :: "(ref, heap \<times> 's) CheckpointStorage \<Rightarrow> string \<Rightarrow> ('s dstate, gmap) call" where
  "da_GetSessionStats st sid =
     and_then (via_manager (GetSessionStats st sid)) (\<lambda>stats ds.
       (Ok (go_set ''state_size'' (GInt (int (length (da_GetState sid ds))))
          (go_set ''message_count'' (GInt (int (length (messages_of (fst ds) sid))))
            (go_set ''current_step'' (GInt (steps_of (fst ds) sid)) stats))), ds))"

text \<open>\<open>ResumeMigrated\<close> returns the migration context it puts into the Go context, and the state.\<close>

definition da_ResumeMigrated ::
    "time_texts \<Rightarrow> (ref, heap \<times> 's) CheckpointStorage \<Rightarrow> string \<Rightarrow>
     ('s dstate, MigrationContext option \<times> gmap) call" where
  "da_ResumeMigrated tt st cid ds =
     (case via_manager (cm_LoadCheckpoint st cid) ds of
        (Err e, ds') \<Rightarrow> (Err (Errorf ''failed to load checkpoint: %w'' [] (Some e)), ds')
      | (Panic p, ds') \<Rightarrow> (Panic p, ds')
      | (Ok None, ds') \<Rightarrow> (Err (Errorf ''checkpoint %s not found'' [GStr cid] None), ds')
      | (Ok (Some c), ds') \<Rightarrow>
          (let sid = SessionID c; (d, hs) = da_restore c sid ds';
               ds'' = (d\<lparr>da_sessionResumed := go_set sid True (da_sessionResumed d)\<rparr>, hs)
           in (Ok (ExtractMigrationContext tt c, da_GetState sid ds''), ds'')))"

lemmas [op_defs] =
  via_manager_def da_Checkpoint_def da_restore_def da_Resume_def updateState_def alloc_def deref_def

section \<open>A shared map\<close>

abbreviation mem_by_ref ::
    "((string \<Rightarrow> string \<Rightarrow> bool) \<Rightarrow> string list \<Rightarrow> string list) \<Rightarrow> (ref, heap \<times> ref InMemoryStorage) CheckpointStorage" where
  "mem_by_ref srt \<equiv> by_reference (InMemoryStorage_methods srt)"

lemma deref_Some [simp]: "a < length h \<Longrightarrow> deref h (Some a) = h ! a"
  by (simp add: deref_def)

lemma by_ref_load [simp]: "st_Load (mem_by_ref srt) i (h, s) = (Ok (im_stored s i), h, s)"
  by (simp add: by_reference_def InMemoryStorage_methods_def im_Load_def on_store_def)

lemma updated_state_neq: "updated_state ff i out m \<noteq> m"
proof
  assume "updated_state ff i out m = m"
  then have "go_get (updated_state ff i out m) ''message_count'' = go_get m ''message_count''" by simp
  then show False
    by (auto simp: updated_state_def Let_def split: option.splits gval.splits)
qed

lemma da_Checkpoint_mem:
  assumes "sort_slice srt" and "im_ok s" and "im_stored s uuid = None"
  shows "\<exists>m' s' c. da_Checkpoint (mem_by_ref srt) uuid now sid md (d, h, s) = (Ok uuid, d\<lparr>da_manager := m'\<rparr>, h, s') \<and>
    im_ok s' \<and> im_stored s' = (im_stored s)(uuid \<mapsto> c) \<and>
    SessionID c = sid \<and> StepNumber c = steps_of d sid \<and> State c = go_get (da_sessionState d) sid \<and>
    Messages c = messages_of d sid \<and> Timestamp c = now \<and>
    cm_sessionSteps m' = go_set sid (steps_of d sid) (cm_sessionSteps (da_manager d)) \<and>
    cm_autoCheckpointInterval m' = cm_autoCheckpointInterval (da_manager d)"
proof -
  let ?c = "\<lparr>CheckpointID = uuid, SessionID = sid, AgentName = da_agentName d, Timestamp = now,
    StepNumber = steps_of d sid, State = go_get (da_sessionState d) sid, Messages = messages_of d sid,
    Metadata = Some (map_or_empty md), ParentCheckpointID = go_get (cm_sessionLastCheckpoint (da_manager d)) sid\<rparr>"
  obtain s' where "im_Save srt ?c s = (Ok (), s')" "im_ok s'" "im_stored s' = (im_stored s)(uuid \<mapsto> ?c)"
    using im_Save_ok [OF assms(1,2), of ?c] assms(3) by auto
  then show ?thesis
    by (intro exI [of _ "(da_manager d)\<lparr>
        cm_sessionLastCheckpoint := go_set sid uuid (cm_sessionLastCheckpoint (da_manager d)),
        cm_sessionSteps := go_set sid (steps_of d sid) (cm_sessionSteps (da_manager d))\<rparr>"]
        exI [of _ s'] exI [of _ ?c])
      (auto simp: da_Checkpoint_def via_manager_def CreateCheckpoint_def by_reference_def
        InMemoryStorage_methods_def on_store_def Let_def)
qed

text \<open>
  A rollback in memory does not restore the saved state.  \<open>Checkpoint\<close> stores the session's
  own map, the next successful message updates this map in place, and resuming from the
  checkpoint then copies the updated map: the step goes back to the one of the checkpoint,
  the state does not.  This is the path taken when a later message fails.
\<close>

lemma rollback_sees_later_updates:
  assumes "sort_slice srt" and "im_ok s" and "im_stored s uuid = None" and "uuid \<noteq> []"
    and "go_get (da_sessionState d) sid = Some a" and "a < length h"
    and "da_Checkpoint (mem_by_ref srt) uuid now sid md (d, h, s) = (r, ds1)"
    and "updateState ff sid inp out ds1 = (u, ds2)"
    and "da_Resume (mem_by_ref srt) sid uuid ds2 = (r', d3, h3, s3)"
  shows "r = Ok uuid \<and> da_GetState sid (d3, h3, s3) = updated_state ff inp out (da_GetState sid (d, h, s)) \<and>
    da_GetState sid (d3, h3, s3) \<noteq> da_GetState sid (d, h, s) \<and> steps_of d3 sid = steps_of d sid"
proof -
  obtain m1 s1 c where ck: "da_Checkpoint (mem_by_ref srt) uuid now sid md (d, h, s) = (Ok uuid, d\<lparr>da_manager := m1\<rparr>, h, s1)"
    "im_stored s1 = (im_stored s)(uuid \<mapsto> c)" "StepNumber c = steps_of d sid" "State c = Some a"
    using da_Checkpoint_mem [OF assms(1-3), of now sid md d h] assms(5) by auto
  let ?h = "h[a := updated_state ff inp out (h ! a)]"
  have ds2: "ds2 = (d\<lparr>da_manager := m1\<rparr>, ?h, s1)" and r: "r = Ok uuid"
    using assms(5-8) ck(1) by (auto simp: updateState_def)
  have "d3 = d\<lparr>da_manager := m1, da_sessionState := go_set sid (length h) (da_sessionState d),
      da_sessionSteps := go_set sid (StepNumber c) (da_sessionSteps d),
      da_sessionMessages := go_set sid (Messages c) (da_sessionMessages d)\<rparr>"
    and "h3 = ?h @ [?h ! a]"
    using assms(4,6,9) ck
    by (auto simp: ds2 da_Resume_def and_then_def via_manager_def cm_LoadCheckpoint_def on_store_def
        da_restore_def alloc_def)
  then show ?thesis
    using r ck(3) assms(5,6) updated_state_neq [of ff inp out "h ! a"]
    by (simp add: da_GetState_def nth_append deref_def)
qed

section \<open>Automatic checkpoints\<close>

text \<open>What one successful call leaves: nothing of the other sessions changes.\<close>

definition da_frame :: "string \<Rightarrow> DurableAgent \<Rightarrow> DurableAgent \<Rightarrow> bool" where
  "da_frame sid d d' \<longleftrightarrow>
     da_autoResume d' = da_autoResume d \<and>
     cm_autoCheckpointInterval (da_manager d') = cm_autoCheckpointInterval (da_manager d) \<and>
     (\<forall>x. x \<noteq> sid \<longrightarrow>
        go_get (da_sessionState d') x = go_get (da_sessionState d) x \<and>
        go_get (da_sessionSteps d') x = go_get (da_sessionSteps d) x \<and>
        go_get (da_sessionMessages d') x = go_get (da_sessionMessages d) x \<and>
        go_get (da_sessionResumed d') x = go_get (da_sessionResumed d) x \<and>
        go_get (cm_sessionSteps (da_manager d')) x = go_get (cm_sessionSteps (da_manager d)) x)"

lemma da_frame_refl [simp]: "da_frame sid d d"
  by (simp add: da_frame_def)

lemma da_frame_trans: "da_frame sid d d1 \<Longrightarrow> da_frame sid d1 d2 \<Longrightarrow> da_frame sid d d2"
  by (simp add: da_frame_def)

text \<open>The step of a session and the step of its last checkpoint, for the manager.\<close>

definition da_step :: "DurableAgent \<Rightarrow> string \<Rightarrow> int" where
  "da_step d sid = (if go_get (da_sessionState d) sid = None then 0 else steps_of d sid)"

definition cm_last_step :: "DurableAgent \<Rightarrow> string \<Rightarrow> int" where
  "cm_last_step d sid = (case go_get (cm_sessionSteps (da_manager d)) sid of None \<Rightarrow> 0 | Some n \<Rightarrow> n)"

lemma da_begin_mem:
  assumes "sort_slice srt" and "im_ok s"
    and "da_autoResume d \<Longrightarrow> go_get (da_sessionResumed d) sid = Some True \<or> in_session (im_stored s) sid = {}"
  shows "\<exists>d' h' a. da_begin (mem_by_ref srt) sid (Some m) (d, h, s) = (Ok (da_step d sid + 1, m), d', h', s) \<and>
    da_frame sid d d' \<and> go_get (da_sessionState d') sid = Some a \<and> steps_of d' sid = da_step d sid + 1 \<and>
    (da_autoResume d \<longrightarrow> go_get (da_sessionResumed d') sid = Some True) \<and> da_manager d' = da_manager d"
proof -
  have auto: "\<exists>rs. da_auto_resume (mem_by_ref srt) sid (d, h, s) = (Ok (), d\<lparr>da_sessionResumed := rs\<rparr>, h, s) \<and>
    (da_autoResume d \<longrightarrow> go_get rs sid = Some True) \<and>
    (\<forall>x. x \<noteq> sid \<longrightarrow> go_get rs x = go_get (da_sessionResumed d) x)"
  proof (cases "da_autoResume d \<and> go_get (da_sessionResumed d) sid \<noteq> Some True")
    case True
    then have "in_session (im_stored s) sid = {}" using assms(3) by blast
    then have "st_GetLatest (InMemoryStorage_methods srt) sid s = (Ok None, s)"
      using checkpoint_storage.latest_newest [OF in_memory_storage [OF assms(1)] assms(2) TrueI, of sid]
      by (auto split: option.splits)
    then have "da_Resume (mem_by_ref srt) sid [] (d, h, s) = (Ok None, d, h, s)"
      by (simp add: da_Resume_def and_then_def via_manager_def cm_GetLatest_def on_store_def by_reference_def)
    with True show ?thesis
      by (intro exI [of _ "go_set sid True (da_sessionResumed d)"]) (simp add: da_auto_resume_def)
  next
    case False
    then show ?thesis
      by (intro exI [of _ "da_sessionResumed d"]) (auto simp: da_auto_resume_def)
  qed
  then obtain rs where rs: "da_auto_resume (mem_by_ref srt) sid (d, h, s) = (Ok (), d\<lparr>da_sessionResumed := rs\<rparr>, h, s)"
    "da_autoResume d \<Longrightarrow> go_get rs sid = Some True" "\<And>x. x \<noteq> sid \<Longrightarrow> go_get rs x = go_get (da_sessionResumed d) x"
    by blast
  show ?thesis
    using rs
    by (cases "go_get (da_sessionState d) sid")
      (auto simp: da_begin_def and_then_def da_init_def da_append_def alloc_def Let_def da_frame_def da_step_def)
qed

lemma da_finish_mem:
  assumes "sort_slice srt" and "im_ok s" and "im_stored s uuid = None"
    and a: "go_get (da_sessionState d) sid = Some a"
    and n: "cm_autoCheckpointInterval (da_manager d) = n" "n \<noteq> 0"
    and step: "steps_of d sid = step"
  shows "\<exists>d' h' s'. da_finish ff (mem_by_ref srt) uuid now sid step m (Ok (Some resp)) (d, h, s) =
      (Ok (Some resp), d', h', s') \<and> im_ok s' \<and> da_frame sid d d' \<and>
    go_get (da_sessionState d') sid = Some a \<and> steps_of d' sid = step \<and>
    go_get (da_sessionResumed d') sid = go_get (da_sessionResumed d) sid \<and>
    (if n \<le> step - cm_last_step d sid
     then cm_last_step d' sid = step \<and>
       (\<exists>c. im_stored s' = (im_stored s)(uuid \<mapsto> c) \<and> SessionID c = sid \<and> StepNumber c = step)
     else cm_last_step d' sid = cm_last_step d sid \<and> s' = s)"
proof -
  let ?d = "da_append sid resp d" and ?h = "h[a := updated_state ff m resp (deref h (Some a))]"
  have fr: "da_frame sid d ?d" and d: "da_manager ?d = da_manager d" "da_sessionState ?d = da_sessionState d"
    "da_sessionSteps ?d = da_sessionSteps d" "da_sessionResumed ?d = da_sessionResumed d"
    by (auto simp: da_append_def da_frame_def)
  have up: "updateState ff sid m resp (?d, h, s) = (Ok (), ?d, ?h, s)"
    using a by (simp add: updateState_def d)
  have should: "ShouldCheckpoint (da_manager ?d) sid step \<longleftrightarrow> n \<le> step - cm_last_step d sid"
    using n by (simp add: ShouldCheckpoint_def cm_last_step_def d Let_def)
  show ?thesis
  proof (cases "n \<le> step - cm_last_step d sid")
    case False
    with up should fr a step d assms(2) show ?thesis
      by (auto simp: da_finish_def and_then_def cm_last_step_def)
  next
    case True
    obtain m' s' c where ck: "da_Checkpoint (mem_by_ref srt) uuid now sid None (?d, ?h, s) =
        (Ok uuid, ?d\<lparr>da_manager := m'\<rparr>, ?h, s')" "im_ok s'" "im_stored s' = (im_stored s)(uuid \<mapsto> c)"
      "SessionID c = sid" "StepNumber c = step"
      "cm_sessionSteps m' = go_set sid step (cm_sessionSteps (da_manager d))"
      "cm_autoCheckpointInterval m' = cm_autoCheckpointInterval (da_manager d)"
      using da_Checkpoint_mem [OF assms(1-3), of now sid None ?d ?h] step by (auto simp: d)
    have "da_frame sid d (?d\<lparr>da_manager := m'\<rparr>)" using fr ck(6,7) by (simp add: da_frame_def)
    moreover have "da_finish ff (mem_by_ref srt) uuid now sid step m (Ok (Some resp)) (d, h, s) =
        (Ok (Some resp), ?d\<lparr>da_manager := m'\<rparr>, ?h, s')"
      using True should up ck(1) by (simp add: da_finish_def and_then_def)
    ultimately show ?thesis using True ck a step
      by (intro exI [of _ "?d\<lparr>da_manager := m'\<rparr>"] exI [of _ ?h] exI [of _ s'])
        (auto simp: d cm_last_step_def)
  qed
qed

lemma in_session_new:
  "f i = None \<Longrightarrow> in_session (f(i \<mapsto> c)) sid = in_session f sid \<union> (if SessionID c = sid then {c} else {})"
  by (auto simp: in_session_def ran_map_upd)

lemma div_step:
  fixes n k :: int
  assumes "0 < n" and "0 \<le> k"
  shows "(k + 1) div n = (if n \<le> k + 1 - n * (k div n) then k div n + 1 else k div n)"
    and "n \<le> k + 1 - n * (k div n) \<Longrightarrow> n * (k div n + 1) = k + 1"
proof -
  define q r where "q = k div n" and "r = k mod n"
  have k: "k = n * q + r" "0 \<le> r" "r < n" using assms by (simp_all add: q_def r_def)
  show "(k + 1) div n = (if n \<le> k + 1 - n * (k div n) then k div n + 1 else k div n)"
  proof (cases "r + 1 = n")
    case True
    then have "k + 1 = n * (q + 1)" using k by (simp add: algebra_simps)
    then have "(k + 1) div n = q + 1" using assms by (metis nonzero_mult_div_cancel_left less_irrefl)
    with True k show ?thesis by (simp add: q_def [symmetric])
  next
    case False
    then have "r + 1 < n" using k by simp
    then have "(n * q + (r + 1)) div n = q" using k by simp
    then have "(k + 1) div n = q" by (simp add: k(1) add.assoc)
    with \<open>r + 1 < n\<close> k show ?thesis by (simp add: q_def [symmetric])
  qed
  show "n * (k div n + 1) = k + 1" if "n \<le> k + 1 - n * (k div n)"
    using that k by (simp add: q_def [symmetric] algebra_simps)
qed

record request =
  rq_uuid :: string
  rq_now :: time
  rq_session :: string
  rq_message :: message

definition responsive :: "'w agent \<Rightarrow> go_ctx \<Rightarrow> bool" where
  "responsive ag ctx \<longleftrightarrow> (\<forall>m w. \<exists>resp w'. agent_Process ag ctx (Some m) w = (Ok (Some resp), w'))"

definition da_request ::
    "(real \<Rightarrow> string) \<Rightarrow> (ref, heap \<times> 's) CheckpointStorage \<Rightarrow> 'w agent \<Rightarrow> go_ctx \<Rightarrow> request \<Rightarrow>
     's dstate \<times> 'w \<Rightarrow> 's dstate \<times> 'w" where
  "da_request ff st ag ctx r dsw =
     snd (da_Process ff st ag (rq_uuid r) (rq_now r) ctx (Some (rq_message r)) (rq_session r) dsw)"

definition calls_of :: "string \<Rightarrow> request list \<Rightarrow> int" where
  "calls_of sid rs = int (length (filter (\<lambda>r. rq_session r = sid) rs))"

lemma calls_of_snoc: "calls_of sid (rs @ [r]) = (if rq_session r = sid then calls_of sid rs + 1 else calls_of sid rs)"
  by (simp add: calls_of_def)

text \<open>The multiples of the interval up to the number of calls.\<close>

definition due_steps :: "int \<Rightarrow> int \<Rightarrow> int set" where
  "due_steps n k = {n * j |j. 1 \<le> j \<and> j \<le> k div n}"

lemma due_steps_Suc:
  assumes "k' div n = k div n + 1" and "0 \<le> k div n"
  shows "due_steps n k' = insert (n * (k div n + 1)) (due_steps n k)"
proof -
  have "{j. 1 \<le> j \<and> j \<le> k' div n} = insert (k div n + 1) {j. 1 \<le> j \<and> j \<le> k div n}"
    using assms by auto
  moreover have "due_steps n x = (*) n ` {j. 1 \<le> j \<and> j \<le> x div n}" for x by (auto simp: due_steps_def)
  ultimately show ?thesis by simp
qed

definition da_ok :: "int \<Rightarrow> bool \<Rightarrow> request list \<Rightarrow> DurableAgent \<Rightarrow> ref InMemoryStorage \<Rightarrow> bool" where
  "da_ok n auto rs d s \<longleftrightarrow> im_ok s \<and> dom (im_stored s) \<subseteq> rq_uuid ` set rs \<and>
     cm_autoCheckpointInterval (da_manager d) = n \<and> da_autoResume d = auto \<and>
     (\<forall>sid. da_step d sid = calls_of sid rs \<and>
        (0 < calls_of sid rs \<longrightarrow> go_get (da_sessionState d) sid \<noteq> None \<and>
           (auto \<longrightarrow> go_get (da_sessionResumed d) sid = Some True)) \<and>
        cm_last_step d sid = n * (calls_of sid rs div n) \<and>
        StepNumber ` in_session (im_stored s) sid = due_steps n (calls_of sid rs))"

lemma da_ok_request:
  assumes "sort_slice srt" and "0 < n" and "responsive ag ctx" and ok: "da_ok n auto rs d s"
    and fresh: "rq_uuid r \<notin> rq_uuid ` set rs"
  shows "\<exists>d' h' s' w'. da_request ff (mem_by_ref srt) ag ctx r ((d, h, s), w) = ((d', h', s'), w') \<and>
    da_ok n auto (rs @ [r]) d' s'"
proof -
  let ?sid = "rq_session r" and ?u = "rq_uuid r" and ?m = "rq_message r"
  define k where "k = calls_of ?sid rs"
  have k0: "0 \<le> k" by (simp add: k_def calls_of_def)
  have s: "im_ok s" "im_stored s ?u = None" and n: "cm_autoCheckpointInterval (da_manager d) = n"
    and step: "da_step d ?sid = k" and last: "cm_last_step d ?sid = n * (k div n)"
    and au: "da_autoResume d = auto"
    using ok fresh by (auto simp: da_ok_def k_def dom_def)
  have "in_session (im_stored s) ?sid = {}" if "k = 0"
  proof -
    have "StepNumber ` in_session (im_stored s) ?sid = due_steps n k" using ok by (simp add: da_ok_def k_def)
    also have "\<dots> = {}" using that by (auto simp: due_steps_def)
    finally show ?thesis by blast
  qed
  then have res: "da_autoResume d \<Longrightarrow> go_get (da_sessionResumed d) ?sid = Some True \<or> in_session (im_stored s) ?sid = {}"
    using ok k0 by (cases "k = 0") (auto simp: da_ok_def k_def)
  obtain d1 h1 a where b: "da_begin (mem_by_ref srt) ?sid (Some ?m) (d, h, s) = (Ok (k + 1, ?m), d1, h1, s)"
    "da_frame ?sid d d1" "go_get (da_sessionState d1) ?sid = Some a" "steps_of d1 ?sid = k + 1"
    "da_autoResume d \<Longrightarrow> go_get (da_sessionResumed d1) ?sid = Some True" "da_manager d1 = da_manager d"
    using da_begin_mem [OF assms(1) s(1) res, of ?m h] step by auto
  obtain resp w' where ag: "agent_Process ag ctx (Some ?m) w = (Ok (Some resp), w')"
    using assms(3) unfolding responsive_def by blast
  have last1: "cm_last_step d1 ?sid = n * (k div n)" using last b(6) by (simp add: cm_last_step_def)
  have n1: "cm_autoCheckpointInterval (da_manager d1) = n" "n \<noteq> 0" using n b(6) assms(2) by simp_all
  obtain d2 h2 s2 where f: "da_finish ff (mem_by_ref srt) ?u (rq_now r) ?sid (k + 1) ?m (Ok (Some resp)) (d1, h1, s) =
      (Ok (Some resp), d2, h2, s2)" "im_ok s2" "da_frame ?sid d1 d2" "go_get (da_sessionState d2) ?sid = Some a"
    "steps_of d2 ?sid = k + 1" "go_get (da_sessionResumed d2) ?sid = go_get (da_sessionResumed d1) ?sid"
    and due: "if n \<le> k + 1 - n * (k div n)
     then cm_last_step d2 ?sid = k + 1 \<and>
       (\<exists>c. im_stored s2 = (im_stored s)(?u \<mapsto> c) \<and> SessionID c = ?sid \<and> StepNumber c = k + 1)
     else cm_last_step d2 ?sid = n * (k div n) \<and> s2 = s"
    using da_finish_mem [OF assms(1) s b(3) n1 b(4), of ff "rq_now r" ?m resp h1] last1 by auto
  have run: "da_request ff (mem_by_ref srt) ag ctx r ((d, h, s), w) = ((d2, h2, s2), w')"
    using b(1) ag f(1) by (simp add: da_request_def da_Process_def)
  have fr: "da_frame ?sid d d2" by (rule da_frame_trans [OF b(2) f(3)])
  have last2: "cm_last_step d2 ?sid = n * ((k + 1) div n)"
    using due div_step [OF assms(2) k0] by (auto split: if_splits)
  have steps: "StepNumber ` in_session (im_stored s2) x =
      (if x = ?sid then due_steps n (k + 1) else StepNumber ` in_session (im_stored s) x)" for x
  proof (cases "n \<le> k + 1 - n * (k div n)")
    case False
    then have "s2 = s" and "(k + 1) div n = k div n" using due div_step [OF assms(2) k0] by auto
    with ok show ?thesis by (simp add: da_ok_def k_def due_steps_def)
  next
    case True
    then obtain c where c: "im_stored s2 = (im_stored s)(?u \<mapsto> c)" "SessionID c = ?sid" "StepNumber c = k + 1"
      using due by auto
    have "due_steps n (k + 1) = insert (k + 1) (due_steps n k)"
      using due_steps_Suc [of "k + 1" n k] True div_step [OF assms(2) k0] pos_imp_zdiv_nonneg_iff [OF assms(2), of k] k0
      by simp
    moreover have "in_session (im_stored s2) x = in_session (im_stored s) x \<union> (if ?sid = x then {c} else {})"
      unfolding c(1) using in_session_new [of "im_stored s" ?u c x] s(2) c(2) by metis
    moreover have "StepNumber ` in_session (im_stored s) ?sid = due_steps n k" using ok by (simp add: da_ok_def k_def)
    ultimately show ?thesis using c(3) by auto
  qed
  have "da_step d2 x = calls_of x (rs @ [r]) \<and>
      (0 < calls_of x (rs @ [r]) \<longrightarrow> go_get (da_sessionState d2) x \<noteq> None \<and>
         (auto \<longrightarrow> go_get (da_sessionResumed d2) x = Some True)) \<and>
      cm_last_step d2 x = n * (calls_of x (rs @ [r]) div n) \<and>
      StepNumber ` in_session (im_stored s2) x = due_steps n (calls_of x (rs @ [r]))" for x
  proof (cases "x = ?sid")
    case True
    then show ?thesis
      using f(4,5,6) b(5) au last2 steps [of x] by (auto simp: calls_of_snoc k_def da_step_def)
  next
    case False
    then have "da_step d2 x = da_step d x" "cm_last_step d2 x = cm_last_step d x"
      "go_get (da_sessionState d2) x = go_get (da_sessionState d) x"
      "go_get (da_sessionResumed d2) x = go_get (da_sessionResumed d) x"
      using fr by (simp_all add: da_frame_def da_step_def cm_last_step_def)
    with False ok steps [of x] show ?thesis by (simp add: calls_of_snoc da_ok_def)
  qed
  moreover have "dom (im_stored s2) \<subseteq> rq_uuid ` set (rs @ [r])"
  proof -
    have "dom (im_stored s) \<subseteq> rq_uuid ` set rs" using ok by (simp add: da_ok_def)
    moreover have "dom (im_stored s2) \<subseteq> insert ?u (dom (im_stored s))" using due by (auto split: if_splits)
    ultimately have "dom (im_stored s2) \<subseteq> insert ?u (rq_uuid ` set rs)" by (meson insert_mono order_trans)
    then show ?thesis by simp
  qed
  ultimately have "da_ok n auto (rs @ [r]) d2 s2"
    using f(2) fr n au by (simp add: da_ok_def da_frame_def)
  with run show ?thesis by blast
qed

lemma da_ok_new: "da_ok n auto [] (NewDurableAgent ag n auto name) NewInMemoryStorage"
  using im_ok_new
  by (auto simp: da_ok_def NewDurableAgent_def NewCheckpointManager_def NewInMemoryStorage_def calls_of_def
      da_step_def cm_last_step_def in_session_def due_steps_def)

lemma da_ok_run:
  assumes "sort_slice srt" and "0 < n" and "responsive ag ctx" and "distinct (map rq_uuid rs)"
  shows "\<exists>d h s w. fold (da_request ff (mem_by_ref srt) ag ctx) rs
      ((NewDurableAgent ag n auto name, [], NewInMemoryStorage), w0) = ((d, h, s), w) \<and> da_ok n auto rs d s"
  using assms(4)
proof (induction rs rule: rev_induct)
  case Nil
  show ?case using da_ok_new by auto
next
  case (snoc r rs)
  then obtain d h s w where "fold (da_request ff (mem_by_ref srt) ag ctx) rs
      ((NewDurableAgent ag n auto name, [], NewInMemoryStorage), w0) = ((d, h, s), w)" "da_ok n auto rs d s" by auto
  moreover have "rq_uuid r \<notin> rq_uuid ` set rs" using snoc.prems by simp
  ultimately show ?case using da_ok_request [OF assms(1-3), of auto rs d s r ff h w] by auto
qed

text \<open>
  C14. Checkpoints are taken on schedule.  While the wrapped agent answers, whatever the
  interleaving of sessions, after \<open>k\<close> messages of a session the durable agent is at step \<open>k\<close>
  of it, and the checkpoints in the storage for it are exactly those of the steps
  \<open>n\<close>, \<open>2n\<close>, ... up to \<open>k\<close>, where \<open>n\<close> is the interval; no session is resumed or
  checkpointed because of another.
\<close>

theorem durable_checkpoints_on_schedule:
  assumes "sort_slice srt" and "0 < n" and "responsive ag ctx" and "distinct (map rq_uuid rs)"
  shows "\<exists>d h s w. fold (da_request ff (mem_by_ref srt) ag ctx) rs
      ((NewDurableAgent ag n auto name, [], NewInMemoryStorage), w0) = ((d, h, s), w) \<and>
    im_ok s \<and>
    (\<forall>sid. da_step d sid = calls_of sid rs \<and>
       StepNumber ` in_session (im_stored s) sid = {n * j |j. 1 \<le> j \<and> j \<le> calls_of sid rs div n})"
  using da_ok_run [OF assms, of ff auto name w0] by (auto simp: da_ok_def due_steps_def)

theorem durable_checkpoints_on_schedule_witness:
  "let ag = \<lparr>agent_Name = ''a'', agent_Capabilities = [], agent_Process = (\<lambda>ctx m (w :: unit). (Ok m, w))\<rparr>;
       rq = (\<lambda>u. \<lparr>rq_uuid = u, rq_now = 0, rq_session = ''s'', rq_message = NewMessage 0 ''user'' ''hi''\<rparr>)
   in \<exists>d h s w. fold (da_request (\<lambda>x. []) (mem_by_ref go_insort) ag Background) [rq ''x'', rq ''y'', rq ''z'']
        ((NewDurableAgent ag 2 True [], [], NewInMemoryStorage), ()) = ((d, h, s), w) \<and>
      da_step d ''s'' = 3 \<and> StepNumber ` in_session (im_stored s) ''s'' = {2}"
proof -
  let ?ag = "\<lparr>agent_Name = ''a'', agent_Capabilities = [], agent_Process = (\<lambda>ctx m (w :: unit). (Ok m, w))\<rparr>"
  let ?rq = "\<lambda>u. \<lparr>rq_uuid = u, rq_now = 0, rq_session = ''s'', rq_message = NewMessage 0 ''user'' ''hi''\<rparr>"
  have "responsive ?ag Background" by (simp add: responsive_def)
  then have "\<exists>d h s w. fold (da_request (\<lambda>x. []) (mem_by_ref go_insort) ?ag Background) [?rq ''x'', ?rq ''y'', ?rq ''z'']
        ((NewDurableAgent ?ag 2 True [], [], NewInMemoryStorage), ()) = ((d, h, s), w) \<and>
      da_step d ''s'' = 3 \<and> StepNumber ` in_session (im_stored s) ''s'' = {2 * j |j. 1 \<le> j \<and> j \<le> 3 div 2}"
    using durable_checkpoints_on_schedule [OF insertion.sort_slice_axioms, of 2 ?ag Background
        "[?rq ''x'', ?rq ''y'', ?rq ''z'']" "\<lambda>x. []" True "[]" "()"]
    by (fastforce simp: calls_of_def)
  moreover have "{2 * j |j. 1 \<le> j \<and> j \<le> 3 div (2 :: int)} = {2}" by force
  ultimately show ?thesis by (simp add: Let_def)
qed

end
