(* ===== verification/Local_Storage.thy ===== *)
theory Local_Storage
  imports Durable
begin

text \<open>
  The file storage of checkpoints (\<open>LocalStorage\<close> of \<open>checkpointing/storage.go\<close>): one directory
  per session, one JSON file per checkpoint.  The part of packages \<open>os\<close> and \<open>path/filepath\<close>
  that it uses is modelled on a tree of directories and files; every call of \<open>os\<close> may also
  fail for reasons outside the tree (permissions, a full disk), given by \<open>fs_fault\<close>.

  The storage keeps the contract \<open>checkpoint_storage\<close> of the in-memory storage, with
  \<open>json_checkpoint\<close> as what it keeps of a checkpoint.
\<close>

section \<open>Files\<close>

type_synonym path = "string list" \<comment> \<open>a clean absolute path, by components\<close>

datatype 'c node = Dir | File 'c

record 'c fs =
  fs_nodes :: "(path \<times> 'c node) list"
  fs_fault :: "string \<Rightarrow> path \<Rightarrow> go_error option"

definition ErrNotExist :: go_error where "ErrNotExist = Errors_New ''file does not exist''"
definition ENOTDIR :: go_error where "ENOTDIR = Errors_New ''not a directory''"
definition EISDIR :: go_error where "EISDIR = Errors_New ''is a directory''"
definition ENOTEMPTY :: go_error where "ENOTEMPTY = Errors_New ''directory not empty''"

fun split_slash :: "string \<Rightarrow> string list" where
  "split_slash [] = [[]]"
| "split_slash (c # s) =
     (if c = CHR ''/'' then [] # split_slash s
      else case split_slash s of [] \<Rightarrow> [[c]] | x # xs \<Rightarrow> (c # x) # xs)"

text \<open>\<open>filepath.Join\<close>: the components of the second path, cleaned on the way.\<close>

definition path_step :: "string \<Rightarrow> path \<Rightarrow> path" where
  "path_step x p = (if x = [] \<or> x = ''.'' then p else if x = ''..'' then butlast p else p @ [x])"

definition filepath_Join :: "path \<Rightarrow> string \<Rightarrow> path" where
  "filepath_Join p s = fold path_step (split_slash s) p"

definition filepath_Ext :: "string \<Rightarrow> string" where
  "filepath_Ext name =
     (if CHR ''.'' \<in> set name then CHR ''.'' # rev (takeWhile (\<lambda>c. c \<noteq> CHR ''.'') (rev name)) else [])"

definition fs_get :: "'c fs \<Rightarrow> path \<Rightarrow> 'c node option" where
  "fs_get s p = (if p = [] then Some Dir else go_get (fs_nodes s) p)"

definition under_file :: "'c fs \<Rightarrow> path \<Rightarrow> bool" where
  "under_file s p \<longleftrightarrow> list_ex (\<lambda>i. case fs_get s (take i p) of Some (File _) \<Rightarrow> True | _ \<Rightarrow> False) [0..<length p]"

definition missing :: "'c fs \<Rightarrow> path \<Rightarrow> go_error" where
  "missing s p = (if under_file s p then ENOTDIR else ErrNotExist)"

definition may_fail :: "string \<Rightarrow> path \<Rightarrow> ('c fs, 'a) call \<Rightarrow> ('c fs, 'a) call" where
  "may_fail op p k s = (case fs_fault s op p of Some e \<Rightarrow> (Err e, s) | None \<Rightarrow> k s)"

definition os_Stat :: "path \<Rightarrow> ('c fs, unit) call" where
  "os_Stat p = may_fail ''stat'' p (\<lambda>s.
     case fs_get s p of None \<Rightarrow> (Err (missing s p), s) | Some _ \<Rightarrow> (Ok (), s))"

definition os_ReadFile :: "path \<Rightarrow> ('c fs, 'c) call" where
  "os_ReadFile p = may_fail ''read'' p (\<lambda>s.
     case fs_get s p of
       None \<Rightarrow> (Err (missing s p), s) | Some Dir \<Rightarrow> (Err EISDIR, s) | Some (File t) \<Rightarrow> (Ok t, s))"

definition os_WriteFile :: "path \<Rightarrow> 'c \<Rightarrow> ('c fs, unit) call" where
  "os_WriteFile p t = may_fail ''write'' p (\<lambda>s.
     if fs_get s p = Some Dir then (Err EISDIR, s)
     else if fs_get s (butlast p) \<noteq> Some Dir then (Err (missing s p), s)
     else (Ok (), s\<lparr>fs_nodes := go_set p (File t) (fs_nodes s)\<rparr>))"

definition fs_children :: "'c fs \<Rightarrow> path \<Rightarrow> (string \<times> 'c node) list" where
  "fs_children s p =
     sort_key fst (map (\<lambda>(q, n). (last q, n)) (filter (\<lambda>(q, n). q \<noteq> [] \<and> butlast q = p) (fs_nodes s)))"

text \<open>\<open>os.ReadDir\<close> returns the entries sorted by name, here with their nodes.\<close>

definition os_ReadDir :: "path \<Rightarrow> ('c fs, (string \<times> 'c node) list) call" where
  "os_ReadDir p = may_fail ''readdir'' p (\<lambda>s.
     case fs_get s p of
       None \<Rightarrow> (Err (missing s p), s)
     | Some (File _) \<Rightarrow> (Err ENOTDIR, s)
     | Some Dir \<Rightarrow> (Ok (fs_children s p), s))"

definition os_Remove :: "path \<Rightarrow> ('c fs, unit) call" where
  "os_Remove p = may_fail ''remove'' p (\<lambda>s.
     case fs_get s p of
       None \<Rightarrow> (Err (missing s p), s)
     | Some (File _) \<Rightarrow> (Ok (), s\<lparr>fs_nodes := go_delete p (fs_nodes s)\<rparr>)
     | Some Dir \<Rightarrow>
         if p = [] \<or> fs_children s p \<noteq> [] then (Err ENOTEMPTY, s)
         else (Ok (), s\<lparr>fs_nodes := go_delete p (fs_nodes s)\<rparr>))"

definition add_dir :: "path \<Rightarrow> 'c fs \<Rightarrow> 'c fs" where
  "add_dir p s = (if fs_get s p = None then s\<lparr>fs_nodes := go_set p Dir (fs_nodes s)\<rparr> else s)"

definition os_MkdirAll :: "path \<Rightarrow> ('c fs, unit) call" where
  "os_MkdirAll p = may_fail ''mkdir'' p (\<lambda>s.
     if under_file s p \<or> (fs_get s p \<noteq> None \<and> fs_get s p \<noteq> Some Dir) then (Err ENOTDIR, s)
     else (Ok (), fold (\<lambda>i. add_dir (take i p)) [1..<Suc (length p)] s))"

lemmas [go_defs] = os_Stat_def os_ReadFile_def os_WriteFile_def os_ReadDir_def os_Remove_def os_MkdirAll_def may_fail_def

section \<open>The storage\<close>

type_synonym disk = "json_text fs"

definition NewLocalStorage :: "path \<Rightarrow> (disk, path) call" where
  "NewLocalStorage checkpointDir =
     and_then (wrap_err ''failed to create checkpoint directory: %w'' (os_MkdirAll checkpointDir))
       (\<lambda>_. ret checkpointDir)"

definition getSessionDir :: "path \<Rightarrow> string \<Rightarrow> path" where
  "getSessionDir dir sessionID = filepath_Join dir sessionID"

definition getCheckpointPath :: "path \<Rightarrow> string \<Rightarrow> string \<Rightarrow> path" where
  "getCheckpointPath dir sessionID checkpointID =
     filepath_Join (getSessionDir dir sessionID) (checkpointID @ ''.json'')"

definition ls_Save :: "time_texts \<Rightarrow> path \<Rightarrow> gmap option Checkpoint \<Rightarrow> (disk, unit) call" where
  "ls_Save tt dir c =
     and_then (wrap_err ''failed to create session directory: %w'' (os_MkdirAll (getSessionDir dir (SessionID c))))
       (\<lambda>_. and_then (wrap_err ''failed to serialize checkpoint: %w'' (\<lambda>s. (ToJSON tt c, s)))
       (\<lambda>jsonData. wrap_err ''failed to write checkpoint file: %w''
          (os_WriteFile (getCheckpointPath dir (SessionID c) (CheckpointID c)) jsonData)))"

text \<open>The loops of \<open>Load\<close> and \<open>Delete\<close> over the session directories.\<close>

primrec ls_find :: "path \<Rightarrow> string \<Rightarrow> (string \<times> json_text node) list \<Rightarrow> (disk, path option) call" where
  "ls_find dir cid [] = ret None"
| "ls_find dir cid (e # es) =
     (if snd e \<noteq> Dir then ls_find dir cid es
      else
        (let p = filepath_Join (filepath_Join dir (fst e)) (cid @ ''.json'') in
         (\<lambda>s. case os_Stat p s of (Ok _, s') \<Rightarrow> (Ok (Some p), s') | (_, s') \<Rightarrow> ls_find dir cid es s')))"

definition read_entries :: "string \<Rightarrow> 'a \<Rightarrow> path \<Rightarrow> ((string \<times> json_text node) list \<Rightarrow> (disk, 'a) call) \<Rightarrow> (disk, 'a) call" where
  "read_entries f absent p k s =
     (case os_ReadDir p s of
        (Ok es, s') \<Rightarrow> k es s'
      | (Err e, s') \<Rightarrow> (if e = ErrNotExist then (Ok absent, s') else (Err (Errorf f [] (Some e)), s'))
      | (Panic p, s') \<Rightarrow> (Panic p, s'))"

definition decode :: "time_texts \<Rightarrow> json_text \<Rightarrow> (disk, gmap option Checkpoint) call" where
  "decode tt t s = (FromJSON tt t, s)"

definition ls_Load :: "time_texts \<Rightarrow> path \<Rightarrow> string \<Rightarrow> (disk, gmap option Checkpoint option) call" where
  "ls_Load tt dir cid =
     read_entries ''failed to read checkpoint directory: %w'' None dir (\<lambda>es.
       and_then (ls_find dir cid es) (\<lambda>found.
         case found of
           None \<Rightarrow> ret None
         | Some p \<Rightarrow>
             and_then (wrap_err ''failed to read checkpoint file: %w'' (os_ReadFile p)) (\<lambda>t.
             and_then (wrap_err ''failed to deserialize checkpoint: %w'' (decode tt t)) (\<lambda>c. ret (Some c)))))"

definition is_checkpoint_file :: "string \<times> 'c node \<Rightarrow> bool" where
  "is_checkpoint_file e \<longleftrightarrow> snd e \<noteq> Dir \<and> filepath_Ext (fst e) = ''.json''"

text \<open>Files that cannot be read or parsed are skipped; a panic of \<open>FromJSON\<close> is not.\<close>

primrec ls_read_all :: "time_texts \<Rightarrow> path \<Rightarrow> (string \<times> json_text node) list \<Rightarrow> (disk, gmap option Checkpoint list) call" where
  "ls_read_all tt sessionDir [] = ret []"
| "ls_read_all tt sessionDir (e # es) =
     (if \<not> is_checkpoint_file e then ls_read_all tt sessionDir es
      else
        (\<lambda>s. case and_then (os_ReadFile (filepath_Join sessionDir (fst e))) (decode tt) s of
           (Ok c, s') \<Rightarrow> and_then (ls_read_all tt sessionDir es) (\<lambda>cs. ret (c # cs)) s'
         | (Err _, s') \<Rightarrow> ls_read_all tt sessionDir es s'
         | (Panic p, s') \<Rightarrow> (Panic p, s')))"

definition ls_ListCheckpoints ::
    "((gmap option Checkpoint \<Rightarrow> gmap option Checkpoint \<Rightarrow> bool) \<Rightarrow> gmap option Checkpoint list \<Rightarrow> gmap option Checkpoint list) \<Rightarrow>
     time_texts \<Rightarrow> path \<Rightarrow> string \<Rightarrow> int option \<Rightarrow> (disk, gmap option Checkpoint list) call" where
  "ls_ListCheckpoints srt tt dir sessionID limit =
     (let sessionDir = getSessionDir dir sessionID in
      read_entries ''failed to read session directory: %w'' [] sessionDir (\<lambda>es.
        and_then (ls_read_all tt sessionDir es) (\<lambda>cs s.
          (apply_limit limit (srt (\<lambda>x y. Timestamp y < Timestamp x) cs), s))))"

definition ls_GetLatest where
  "ls_GetLatest srt tt dir = latest_of (ls_ListCheckpoints srt tt dir)"

definition ls_Delete :: "path \<Rightarrow> string \<Rightarrow> (disk, bool) call" where
  "ls_Delete dir cid =
     read_entries ''failed to read checkpoint directory: %w'' False dir (\<lambda>es.
       and_then (ls_find dir cid es) (\<lambda>found.
         case found of
           None \<Rightarrow> ret False
         | Some p \<Rightarrow>
             and_then (wrap_err ''failed to delete checkpoint file: %w'' (os_Remove p)) (\<lambda>_. ret True)))"

primrec ls_remove_all :: "path \<Rightarrow> (string \<times> json_text node) list \<Rightarrow> int \<Rightarrow> (disk, int) call" where
  "ls_remove_all sessionDir [] deleted = ret deleted"
| "ls_remove_all sessionDir (e # es) deleted =
     (if \<not> is_checkpoint_file e then ls_remove_all sessionDir es deleted
      else
        (\<lambda>s. case os_Remove (filepath_Join sessionDir (fst e)) s of
           (Ok _, s') \<Rightarrow> ls_remove_all sessionDir es (deleted + 1) s'
         | (_, s') \<Rightarrow> ls_remove_all sessionDir es deleted s'))"

definition ls_DeleteSession :: "path \<Rightarrow> string \<Rightarrow> (disk, int) call" where
  "ls_DeleteSession dir sessionID =
     (let sessionDir = getSessionDir dir sessionID in
      read_entries ''failed to read session directory: %w'' 0 sessionDir (\<lambda>es.
        and_then (ls_remove_all sessionDir es 0) (\<lambda>deleted s. (Ok deleted, snd (os_Remove sessionDir s)))))"

definition ls_GetCheckpointHistory where
  "ls_GetCheckpointHistory tt dir = history_of (ls_Load tt dir)"

definition LocalStorage_methods ::
    "((gmap option Checkpoint \<Rightarrow> gmap option Checkpoint \<Rightarrow> bool) \<Rightarrow> gmap option Checkpoint list \<Rightarrow> gmap option Checkpoint list) \<Rightarrow>
     time_texts \<Rightarrow> path \<Rightarrow> (gmap option, disk) CheckpointStorage" where
  "LocalStorage_methods srt tt dir =
     \<lparr>st_Save = ls_Save tt dir, st_Load = ls_Load tt dir, st_ListCheckpoints = ls_ListCheckpoints srt tt dir,
      st_GetLatest = ls_GetLatest srt tt dir, st_Delete = ls_Delete dir, st_DeleteSession = ls_DeleteSession dir,
      st_GetCheckpointHistory = ls_GetCheckpointHistory tt dir\<rparr>"

section \<open>The contract\<close>

text \<open>Names that are one component of a path; the others reach outside the session directory.\<close>

definition clean_name :: "string \<Rightarrow> bool" where
  "clean_name n \<longleftrightarrow> n \<noteq> [] \<and> CHR ''/'' \<notin> set n \<and> n \<noteq> ''.'' \<and> n \<noteq> ''..''"

definition clean_id :: "string \<Rightarrow> bool" where
  "clean_id i \<longleftrightarrow> CHR ''/'' \<notin> set i"

lemma split_slash_clean: "CHR ''/'' \<notin> set n \<Longrightarrow> split_slash n = [n]"
  by (induction n) auto

lemma filepath_Join_clean [simp]: "clean_name n \<Longrightarrow> filepath_Join p n = p @ [n]"
  by (simp add: filepath_Join_def split_slash_clean clean_name_def path_step_def)

lemma clean_json [simp]: "clean_id i \<Longrightarrow> clean_name (i @ ''.json'')"
  by (auto simp: clean_name_def clean_id_def append_eq_Cons_conv)

lemma filepath_Ext_json [simp]: "filepath_Ext (i @ ''.json'') = ''.json''"
  by (simp add: filepath_Ext_def)

text \<open>
  The files as the storage leaves them: every directory below \<open>dir\<close> is a session, every file
  in it is the text of a checkpoint of this session under its identifier, and no identifier
  occurs in two sessions.
\<close>

definition ls_ok :: "time_texts \<Rightarrow> path \<Rightarrow> disk \<Rightarrow> bool" where
  "ls_ok tt dir s \<longleftrightarrow>
     (\<forall>op p. fs_fault s op p = None) \<and> go_map_ok (fs_nodes s) \<and>
     (\<forall>p. p \<noteq> [] \<longrightarrow> fs_get s p \<noteq> None \<longrightarrow> fs_get s (butlast p) = Some Dir) \<and>
     fs_get s dir = Some Dir \<and>
     (\<forall>n nd. fs_get s (dir @ [n]) = Some nd \<longrightarrow> nd = Dir \<and> clean_name n) \<and>
     (\<forall>n f nd. fs_get s (dir @ [n, f]) = Some nd \<longrightarrow>
        (\<exists>t c. nd = File t \<and> FromJSON tt t = Ok c \<and> SessionID c = n \<and> f = CheckpointID c @ ''.json'' \<and>
           clean_id (CheckpointID c))) \<and>
     (\<forall>n n' f. fs_get s (dir @ [n, f]) \<noteq> None \<longrightarrow> fs_get s (dir @ [n', f]) \<noteq> None \<longrightarrow> n = n')"

lemma ls_okD:
  assumes "ls_ok tt dir s"
  shows "fs_fault s op p = None" and "go_map_ok (fs_nodes s)"
    and "p \<noteq> [] \<Longrightarrow> fs_get s p \<noteq> None \<Longrightarrow> fs_get s (butlast p) = Some Dir"
    and "fs_get s dir = Some Dir"
    and "fs_get s (dir @ [n]) = Some nd \<Longrightarrow> nd = Dir \<and> clean_name n"
    and "fs_get s (dir @ [n, f]) = Some nd \<Longrightarrow>
        \<exists>t c. nd = File t \<and> FromJSON tt t = Ok c \<and> SessionID c = n \<and> f = CheckpointID c @ ''.json'' \<and>
           clean_id (CheckpointID c)"
    and "fs_get s (dir @ [n, f]) \<noteq> None \<Longrightarrow> fs_get s (dir @ [n', f]) \<noteq> None \<Longrightarrow> n = n'"
  using assms unfolding ls_ok_def by blast+

definition ls_stored :: "time_texts \<Rightarrow> path \<Rightarrow> disk \<Rightarrow> string \<Rightarrow> gmap option Checkpoint option" where
  "ls_stored tt dir s i =
     (case List.find (\<lambda>(p, nd). length p = length dir + 2 \<and> take (length dir) p = dir \<and> last p = i @ ''.json'')
        (fs_nodes s) of
        Some (p, File t) \<Rightarrow> (case FromJSON tt t of Ok c \<Rightarrow> Some c | _ \<Rightarrow> None)
      | _ \<Rightarrow> None)"

lemma two_more:
  assumes "length p = length dir + 2" and "take (length dir) p = dir" and "last p = f"
  shows "\<exists>n. p = dir @ [n, f]"
proof -
  have "length (drop (length dir) p) = 2" using assms(1) by simp
  then obtain n x where "drop (length dir) p = [n, x]"
    by (metis (no_types, lifting) One_nat_def Suc_1 length_0_conv length_Suc_conv)
  then have "p = dir @ [n, x]" using assms(2) by (metis append_take_drop_id)
  with assms(3) show ?thesis by auto
qed

lemma ls_stored_iff:
  assumes "ls_ok tt dir s"
  shows "ls_stored tt dir s i = Some c \<longleftrightarrow>
    (\<exists>t. fs_get s (dir @ [SessionID c, i @ ''.json'']) = Some (File t) \<and> FromJSON tt t = Ok c)"
proof -
  let ?P = "\<lambda>(p, nd :: json_text node). length p = length dir + 2 \<and> take (length dir) p = dir \<and> last p = i @ ''.json''"
  note ok = ls_okD [OF assms]
  have mem: "(p, nd) \<in> set (fs_nodes s) \<longleftrightarrow> fs_get s p = Some nd" if "p \<noteq> []" for p nd
    using go_map_get_iff [OF ok(2)] that by (simp add: fs_get_def)
  show ?thesis
  proof (cases "List.find ?P (fs_nodes s)")
    case None
    have "fs_get s (dir @ [n, i @ ''.json'']) = None" for n
    proof (rule ccontr)
      assume "fs_get s (dir @ [n, i @ ''.json'']) \<noteq> None"
      then obtain nd where "(dir @ [n, i @ ''.json''], nd) \<in> set (fs_nodes s)" using mem by auto
      moreover have "?P (dir @ [n, i @ ''.json''], nd)" by simp
      ultimately show False using None unfolding find_None_iff by blast
    qed
    with None show ?thesis by (auto simp: ls_stored_def)
  next
    case (Some q)
    obtain p nd where q: "q = (p, nd)" by force
    from Some q have "(p, nd) \<in> set (fs_nodes s)" "?P (p, nd)"
      by (auto simp: find_Some_iff in_set_conv_nth)
    then obtain n where p: "p = dir @ [n, i @ ''.json'']" and g: "fs_get s p = Some nd"
      using two_more [of p dir] mem [of p nd] by fastforce
    obtain t d where d: "nd = File t" "FromJSON tt t = Ok d" "SessionID d = n"
      using ok(6) [OF g [unfolded p]] by blast
    have uniq: "m = n" if "fs_get s (dir @ [m, i @ ''.json'']) = Some x" for m x
      using ok(7) [of m "i @ ''.json''" n] that g p by simp
    have "ls_stored tt dir s i = Some d" using Some q d by (simp add: ls_stored_def)
    moreover have "c = d" if "fs_get s (dir @ [SessionID c, i @ ''.json'']) = Some (File t')" "FromJSON tt t' = Ok c" for t'
      using uniq [OF that(1)] that g p d by simp
    ultimately show ?thesis using g p d by auto
  qed
qed

lemma ls_stored_id:
  assumes "ls_ok tt dir s" and "ls_stored tt dir s i = Some c"
  shows "CheckpointID c = i \<and> clean_id i"
  using assms ls_stored_iff [OF assms(1)] ls_okD(6) [OF assms(1)] by fastforce

lemma ls_stored_None:
  assumes "ls_ok tt dir s"
  shows "ls_stored tt dir s i = None \<longleftrightarrow> (\<forall>n. fs_get s (dir @ [n, i @ ''.json'']) = None)"
proof -
  have "ls_stored tt dir s i \<noteq> None" if "fs_get s (dir @ [n, i @ ''.json'']) = Some nd" for n nd
    using ls_okD(6) [OF assms that] that ls_stored_iff [OF assms] by fastforce
  moreover have "\<exists>n. fs_get s (dir @ [n, i @ ''.json'']) \<noteq> None" if "ls_stored tt dir s i = Some c" for c
    using that ls_stored_iff [OF assms] by auto
  ultimately show ?thesis by fastforce
qed

lemma fs_children_set:
  assumes "go_map_ok (fs_nodes s)"
  shows "(x, nd) \<in> set (fs_children s p) \<longleftrightarrow> fs_get s (p @ [x]) = Some nd"
proof -
  have "(x, nd) \<in> set (fs_children s p) \<longleftrightarrow> (\<exists>q. (q, nd) \<in> set (fs_nodes s) \<and> q \<noteq> [] \<and> butlast q = p \<and> last q = x)"
    by (force simp: fs_children_def)
  also have "\<dots> \<longleftrightarrow> (p @ [x], nd) \<in> set (fs_nodes s)"
    by (metis append_butlast_last_id append_is_Nil_conv butlast_snoc last_snoc not_Cons_self2)
  finally show ?thesis using go_map_get_iff [OF assms, of "p @ [x]"] by (simp add: fs_get_def)
qed

lemma fs_children_distinct:
  assumes "go_map_ok (fs_nodes s)"
  shows "distinct (map fst (fs_children s p))"
proof -
  have "distinct (filter (\<lambda>q. q \<noteq> [] \<and> butlast q = p) (map fst (fs_nodes s)))"
    using assms by (simp add: go_map_ok_def)
  moreover have "inj_on last {q. q \<noteq> [] \<and> butlast q = p}"
    by (auto intro!: inj_onI) (metis append_butlast_last_id)
  ultimately have "distinct (map last (filter (\<lambda>q. q \<noteq> [] \<and> butlast q = p) (map fst (fs_nodes s))))"
    by (auto simp: distinct_map intro: inj_on_subset)
  moreover have "mset (map fst (fs_children s p)) =
      mset (map last (filter (\<lambda>q. q \<noteq> [] \<and> butlast q = p) (map fst (fs_nodes s))))"
    by (simp add: fs_children_def filter_map comp_def case_prod_beta' image_mset.compositionality)
  ultimately show ?thesis using mset_eq_imp_distinct_iff by blast
qed

lemma ls_prefix_dir:
  assumes "ls_ok tt dir s"
  shows "fs_get s p \<noteq> None \<Longrightarrow> i < length p \<Longrightarrow> fs_get s (take i p) = Some Dir"
proof (induction p rule: rev_induct)
  case (snoc x q)
  have q: "fs_get s q = Some Dir" using ls_okD(3) [OF assms, of "q @ [x]"] snoc.prems(1) by simp
  show ?case
  proof (cases "i = length q")
    case True
    with q show ?thesis by simp
  next
    case False
    with snoc q show ?thesis by simp
  qed
qed simp

lemma ls_not_under_file:
  assumes "ls_ok tt dir s"
  shows "\<not> under_file s (dir @ [n])"
proof -
  have "fs_get s (take i (dir @ [n])) = Some Dir" if "i \<le> length dir" for i
    using ls_prefix_dir [OF assms, of dir i] ls_okD(4) [OF assms] that by (cases "i = length dir") auto
  then show ?thesis using ls_okD(4) [OF assms] by (auto simp: under_file_def list_ex_iff)
qed

lemma ls_ReadDir:
  assumes "ls_ok tt dir s" and "fs_get s p = Some Dir"
  shows "os_ReadDir p s = (Ok (fs_children s p), s)"
  using assms ls_okD(1) [OF assms(1)] by (simp add: os_ReadDir_def may_fail_def)

lemma ls_session_entry:
  assumes "ls_ok tt dir s" and "e \<in> set (fs_children s dir)"
  shows "snd e = Dir \<and> clean_name (fst e)"
  using fs_children_set [OF ls_okD(2) [OF assms(1)], of "fst e" "snd e" dir] ls_okD(5) [OF assms(1), of "fst e" "snd e"]
    assms(2) by simp

text \<open>The search through the session directories finds the file of a clean identifier.\<close>

lemma ls_find_spec:
  assumes "ls_ok tt dir s" and "clean_id cid" and "\<And>e. e \<in> set es \<Longrightarrow> snd e = Dir \<and> clean_name (fst e)"
  shows "ls_find dir cid es s =
    (Ok (map_option (\<lambda>e. dir @ [fst e, cid @ ''.json''])
       (List.find (\<lambda>e. fs_get s (dir @ [fst e, cid @ ''.json'']) \<noteq> None) es)), s)"
  using assms(3)
proof (induction es)
  case (Cons e es)
  then have "snd e = Dir" "clean_name (fst e)" by auto
  with Cons assms(2) ls_okD(1) [OF assms(1)] show ?case
    by (auto simp: Let_def os_Stat_def may_fail_def split: option.split)
qed simp

lemma ls_find_stored:
  assumes "ls_ok tt dir s" and "clean_id cid"
  shows "ls_find dir cid (fs_children s dir) s =
    (Ok (map_option (\<lambda>c. dir @ [SessionID c, cid @ ''.json'']) (ls_stored tt dir s cid)), s)"
proof -
  let ?P = "\<lambda>e. fs_get s (dir @ [fst e, cid @ ''.json'']) \<noteq> None"
  have "map_option (\<lambda>e. dir @ [fst e, cid @ ''.json'']) (List.find ?P (fs_children s dir)) =
      map_option (\<lambda>c. dir @ [SessionID c, cid @ ''.json'']) (ls_stored tt dir s cid)"
  proof (cases "ls_stored tt dir s cid")
    case None
    then have "List.find ?P (fs_children s dir) = None"
      using ls_stored_None [OF assms(1)] by (auto simp: find_None_iff)
    with None show ?thesis by simp
  next
    case (Some c)
    then obtain t where t: "fs_get s (dir @ [SessionID c, cid @ ''.json'']) = Some (File t)"
      using ls_stored_iff [OF assms(1)] by blast
    then have "fs_get s (dir @ [SessionID c]) = Some Dir"
      using ls_okD(3) [OF assms(1), of "dir @ [SessionID c, cid @ ''.json'']"] by (simp add: butlast_append)
    then have "(SessionID c, Dir) \<in> set (fs_children s dir)"
      using fs_children_set [OF ls_okD(2) [OF assms(1)]] by blast
    then have "List.find ?P (fs_children s dir) \<noteq> None" using t by (auto simp: find_None_iff)
    then obtain e where e: "List.find ?P (fs_children s dir) = Some e" by blast
    then have "?P e" by (auto simp: find_Some_iff)
    then have "fst e = SessionID c" using ls_okD(7) [OF assms(1)] t by blast
    with e Some show ?thesis by simp
  qed
  then show ?thesis
    using ls_find_spec [OF assms ls_session_entry [OF assms(1)]] by simp
qed

lemma ls_Load_ok:
  assumes "ls_ok tt dir s" and "clean_id cid"
  shows "ls_Load tt dir cid s = (Ok (ls_stored tt dir s cid), s)"
proof (cases "ls_stored tt dir s cid")
  case None
  then show ?thesis
    using ls_find_stored [OF assms] ls_ReadDir [OF assms(1) ls_okD(4) [OF assms(1)]]
    by (simp add: ls_Load_def read_entries_def and_then_def)
next
  case (Some c)
  then obtain t where "fs_get s (dir @ [SessionID c, cid @ ''.json'']) = Some (File t)" "FromJSON tt t = Ok c"
    using ls_stored_iff [OF assms(1)] by blast
  with Some show ?thesis
    using ls_find_stored [OF assms] ls_ReadDir [OF assms(1) ls_okD(4) [OF assms(1)]] ls_okD(1) [OF assms(1)]
    by (simp add: ls_Load_def read_entries_def and_then_def wrap_err_def os_ReadFile_def may_fail_def decode_def)
qed

lemma fs_get_set: "p \<noteq> [] \<Longrightarrow> fs_get (s\<lparr>fs_nodes := go_set p nd (fs_nodes s)\<rparr>) q = (if q = p then Some nd else fs_get s q)"
  by (simp add: fs_get_def)

lemma fs_get_delete: "p \<noteq> [] \<Longrightarrow> fs_get (s\<lparr>fs_nodes := go_delete p (fs_nodes s)\<rparr>) q = (if q = p then None else fs_get s q)"
  by (simp add: fs_get_def)

lemma map_eqI: "(\<And>x y. f x = Some y \<longleftrightarrow> g x = Some y) \<Longrightarrow> f = g"
  by (rule ext) (metis not_Some_eq)

lemma ls_ok_add:
  assumes ok: "ls_ok tt dir s" and "clean_name (SessionID c)" and "clean_id (CheckpointID c)"
    and new: "ls_stored tt dir s (CheckpointID c) = None" and t: "FromJSON tt t = Ok c"
    and fault: "\<And>op p. fs_fault s' op p = None" and map: "go_map_ok (fs_nodes s')"
    and get: "\<And>q. fs_get s' q = (if q = dir @ [SessionID c, CheckpointID c @ ''.json''] then Some (File t)
       else if q = dir @ [SessionID c] then Some Dir else fs_get s q)"
  shows "ls_ok tt dir s' \<and> ls_stored tt dir s' = (ls_stored tt dir s)(CheckpointID c \<mapsto> c)"
proof -
  note D = ls_okD [OF ok]
  have none: "fs_get s (dir @ [n, CheckpointID c @ ''.json'']) = None" for n
    using new ls_stored_None [OF ok] by blast
  have ok': "ls_ok tt dir s'"
    unfolding ls_ok_def
  proof (intro conjI allI impI)
    show "fs_fault s' op p = None" for op p by (rule fault)
    show "go_map_ok (fs_nodes s')" by (rule map)
    show "fs_get s' dir = Some Dir" using D(4) by (simp add: get)
    show "fs_get s' (butlast p) = Some Dir" if "p \<noteq> []" "fs_get s' p \<noteq> None" for p
      using that D(3) [OF that(1)] D(4) none by (auto simp: get butlast_append split: if_splits)
    show "nd = Dir" "clean_name n" if "fs_get s' (dir @ [n]) = Some nd" for n nd
      using that D(5) [of n nd] assms(2) by (auto simp: get split: if_splits)
    show "n = n'" if "fs_get s' (dir @ [n, f]) \<noteq> None" "fs_get s' (dir @ [n', f]) \<noteq> None" for n n' f
      using that D(7) [of n f n'] none by (auto simp: get split: if_splits)
    show "\<exists>t d. nd = File t \<and> FromJSON tt t = Ok d \<and> SessionID d = n \<and> f = CheckpointID d @ ''.json'' \<and>
        clean_id (CheckpointID d)" if "fs_get s' (dir @ [n, f]) = Some nd" for n f nd
      using that D(6) [of n f nd] t assms(3) by (auto simp: get split: if_splits)
  qed
  moreover have "ls_stored tt dir s' = (ls_stored tt dir s)(CheckpointID c \<mapsto> c)"
  proof (rule map_eqI)
    show "ls_stored tt dir s' j = Some d \<longleftrightarrow> ((ls_stored tt dir s)(CheckpointID c \<mapsto> c)) j = Some d" for j d
      using ls_stored_iff [OF ok', of j d] ls_stored_iff [OF ok, of j d] none t by (auto simp: get)
  qed
  ultimately show ?thesis by blast
qed

lemma ls_Save_ok:
  assumes "rfc3339 tt" and ok: "ls_ok tt dir s" and "clean_id (CheckpointID c)" and "clean_name (SessionID c)"
    and new: "ls_stored tt dir s (CheckpointID c) = None" and exact: "exact_checkpoint c"
  shows "\<exists>s'. ls_Save tt dir c s = (Ok (), s') \<and> ls_ok tt dir s' \<and>
    ls_stored tt dir s' = (ls_stored tt dir s)(CheckpointID c \<mapsto> json_checkpoint c)"
proof -
  note D = ls_okD [OF ok]
  let ?n = "SessionID c" and ?f = "CheckpointID c @ ''.json''"
  have pre: "fs_get s (take i (dir @ [?n])) \<noteq> None" if "i \<le> length dir" for i
    using ls_prefix_dir [OF ok, of dir i] D(4) that by (cases "i = length dir") auto
  have noop: "fold (\<lambda>i. add_dir (take i (dir @ [?n]))) is s = s" if "\<forall>i \<in> set is. i \<le> length dir" for "is"
    using that
  proof (induction "is")
    case (Cons i "is")
    then have "add_dir (take i (dir @ [?n])) s = s" using pre [of i] by (auto simp: add_dir_def simp del: take_append)
    with Cons show ?case by (simp del: take_append)
  qed simp
  define s1 where "s1 = add_dir (dir @ [?n]) s"
  have sess: "fs_get s (dir @ [?n]) = None \<or> fs_get s (dir @ [?n]) = Some Dir"
    using D(5) [of ?n] by (cases "fs_get s (dir @ [?n])") auto
  have g1: "fs_get s1 q = (if q = dir @ [?n] then Some Dir else fs_get s q)" for q
    using sess by (auto simp: s1_def add_dir_def fs_get_set)
  have m1: "go_map_ok (fs_nodes s1)" "\<And>op p. fs_fault s1 op p = None"
    using D(1,2) by (auto simp: s1_def add_dir_def)
  have mk: "os_MkdirAll (dir @ [?n]) s = (Ok (), s1)"
    using noop [of "[1..<Suc (length dir)]"] sess ls_not_under_file [OF ok, of ?n] D(1)
    by (auto simp: os_MkdirAll_def may_fail_def s1_def)
  have none: "fs_get s (dir @ [?n, ?f]) = None" using new ls_stored_None [OF ok] by blast
  obtain t where t: "ToJSON tt c = Ok t" "FromJSON tt t = Ok (json_checkpoint c)"
    using FromJSON_ToJSON [OF assms(1) exact] by blast
  let ?s = "s1\<lparr>fs_nodes := go_set (dir @ [?n, ?f]) (File t) (fs_nodes s1)\<rparr>"
  have wr: "os_WriteFile (dir @ [?n, ?f]) t s1 = (Ok (), ?s)"
    using m1(2) none by (simp add: os_WriteFile_def may_fail_def g1 butlast_append)
  have run: "ls_Save tt dir c s = (Ok (), ?s)"
    using mk wr assms(3,4) t(1)
    by (simp add: ls_Save_def getSessionDir_def getCheckpointPath_def and_then_def wrap_err_def)
  have id: "SessionID (json_checkpoint c) = ?n" "CheckpointID (json_checkpoint c) = CheckpointID c"
    by (simp_all add: json_checkpoint_def)
  have "ls_ok tt dir ?s \<and> ls_stored tt dir ?s = (ls_stored tt dir s)(CheckpointID (json_checkpoint c) \<mapsto> json_checkpoint c)"
    by (rule ls_ok_add [OF ok _ _ _ t(2)])
      (use assms(3,4) new m1 in \<open>auto simp: id fs_get_set g1\<close>)
  with run show ?thesis by (simp add: id)
qed

lemma ls_ok_remove:
  assumes ok: "ls_ok tt dir s" and p: "p = dir @ r" "r \<noteq> []" and leaf: "\<And>x. fs_get s (p @ [x]) = None"
  shows "ls_ok tt dir (s\<lparr>fs_nodes := go_delete p (fs_nodes s)\<rparr>)"
proof -
  note D = ls_okD [OF ok]
  let ?s = "s\<lparr>fs_nodes := go_delete p (fs_nodes s)\<rparr>"
  have get: "fs_get ?s q = (if q = p then None else fs_get s q)" for q
    using p by (simp add: fs_get_delete)
  show ?thesis
    unfolding ls_ok_def
  proof (intro conjI allI impI)
    show "fs_fault ?s op q = None" for op q using D(1) by simp
    show "go_map_ok (fs_nodes ?s)" using D(2) by simp
    show "fs_get ?s dir = Some Dir" unfolding get using D(4) p by simp
    show "fs_get ?s (butlast q) = Some Dir" if q: "q \<noteq> []" "fs_get ?s q \<noteq> None" for q
    proof -
      have "butlast q \<noteq> p"
      proof
        assume "butlast q = p"
        then have "q = p @ [last q]" using q(1) by (metis append_butlast_last_id)
        then have "fs_get s q = None" using leaf by metis
        with q(2) show False by (simp add: get split: if_splits)
      qed
      then show ?thesis using q D(3) [OF q(1)] by (auto simp: get split: if_splits)
    qed
    show "nd = Dir" "clean_name n" if "fs_get ?s (dir @ [n]) = Some nd" for n nd
      using that D(5) [of n nd] by (auto simp: get split: if_splits)
    show "n = n'" if "fs_get ?s (dir @ [n, f]) \<noteq> None" "fs_get ?s (dir @ [n', f]) \<noteq> None" for n n' f
      using that D(7) [of n f n'] by (auto simp: get split: if_splits)
    show "\<exists>t d. nd = File t \<and> FromJSON tt t = Ok d \<and> SessionID d = n \<and> f = CheckpointID d @ ''.json'' \<and>
        clean_id (CheckpointID d)" if "fs_get ?s (dir @ [n, f]) = Some nd" for n f nd
      using that D(6) [of n f nd] by (auto simp: get split: if_splits)
  qed
qed

lemma ls_file_leaf:
  assumes "ls_ok tt dir s" and "fs_get s p = Some (File t)"
  shows "fs_get s (p @ [x]) = None"
  using ls_okD(3) [OF assms(1), of "p @ [x]"] assms(2) by (cases "fs_get s (p @ [x])") auto

lemma ls_Delete_ok:
  assumes ok: "ls_ok tt dir s" and "clean_id i"
  shows "\<exists>s'. ls_Delete dir i s = (Ok (ls_stored tt dir s i \<noteq> None), s') \<and> ls_ok tt dir s' \<and>
    ls_stored tt dir s' = (ls_stored tt dir s)(i := None)"
proof (cases "ls_stored tt dir s i")
  case None
  then show ?thesis
    using ls_find_stored [OF assms] ls_ReadDir [OF ok ls_okD(4) [OF ok]] ok
    by (auto simp: ls_Delete_def read_entries_def and_then_def)
next
  case (Some c)
  let ?p = "dir @ [SessionID c, i @ ''.json'']"
  let ?s = "s\<lparr>fs_nodes := go_delete ?p (fs_nodes s)\<rparr>"
  obtain t where t: "fs_get s ?p = Some (File t)" using Some ls_stored_iff [OF ok] by blast
  have run: "ls_Delete dir i s = (Ok True, ?s)"
    using ls_find_stored [OF assms] ls_ReadDir [OF ok ls_okD(4) [OF ok]] ls_okD(1) [OF ok] Some t
    by (simp add: ls_Delete_def read_entries_def and_then_def wrap_err_def os_Remove_def may_fail_def)
  have ok': "ls_ok tt dir ?s"
    using ls_ok_remove [OF ok _ _ ls_file_leaf [OF ok t], of "[SessionID c, i @ ''.json'']"] by simp
  have only: "SessionID d = SessionID c" if "fs_get s (dir @ [SessionID d, i @ ''.json'']) = Some x" for d :: "gmap option Checkpoint" and x
    using ls_okD(7) [OF ok, of "SessionID d" "i @ ''.json''" "SessionID c"] that t by simp
  have "ls_stored tt dir ?s = (ls_stored tt dir s)(i := None)"
  proof (rule map_eqI)
    show "ls_stored tt dir ?s j = Some d \<longleftrightarrow> ((ls_stored tt dir s)(i := None)) j = Some d" for j d
      using ls_stored_iff [OF ok', of j d] ls_stored_iff [OF ok, of j d] only [of d] by (auto simp: fs_get_delete)
  qed
  with run ok' Some show ?thesis by auto
qed

text \<open>The entries of a session directory.\<close>

lemma ls_entries:
  assumes ok: "ls_ok tt dir s"
  shows "(f, nd) \<in> set (fs_children s (dir @ [sid])) \<longleftrightarrow>
    (\<exists>t c. nd = File t \<and> FromJSON tt t = Ok c \<and> SessionID c = sid \<and> f = CheckpointID c @ ''.json'' \<and>
       ls_stored tt dir s (CheckpointID c) = Some c \<and> fs_get s (dir @ [sid, f]) = Some nd)"
  using fs_children_set [OF ls_okD(2) [OF ok], of f nd "dir @ [sid]"] ls_okD(6) [OF ok, of sid f nd]
    ls_stored_iff [OF ok] by auto

text \<open>What the entries of a directory decode to.\<close>

definition entry_checkpoint :: "time_texts \<Rightarrow> string \<times> json_text node \<Rightarrow> gmap option Checkpoint" where
  "entry_checkpoint tt e = (case snd e of File t \<Rightarrow> (case FromJSON tt t of Ok c \<Rightarrow> c))"

lemma ls_read_all_spec:
  assumes ok: "ls_ok tt dir s" and "set es \<subseteq> set (fs_children s (dir @ [sid]))"
  shows "ls_read_all tt (dir @ [sid]) es s = (Ok (map (entry_checkpoint tt) es), s)"
  using assms(2)
proof (induction es)
  case (Cons e es)
  obtain f nd where e: "e = (f, nd)" by force
  obtain t c where c: "nd = File t" "FromJSON tt t = Ok c" "f = CheckpointID c @ ''.json''"
    "ls_stored tt dir s (CheckpointID c) = Some c" "fs_get s (dir @ [sid, f]) = Some nd"
    using Cons.prems e ls_entries [OF ok, of f nd sid] by auto
  have "clean_id (CheckpointID c)" using ls_stored_id [OF ok c(4)] by blast
  then have "and_then (os_ReadFile (filepath_Join (dir @ [sid]) f)) (decode tt) s = (Ok c, s)"
    using c ls_okD(1) [OF ok] by (simp add: os_ReadFile_def may_fail_def and_then_def decode_def)
  moreover have "is_checkpoint_file e" using c e by (simp add: is_checkpoint_file_def)
  ultimately show ?case using Cons e c by (simp add: and_then_def entry_checkpoint_def)
qed simp

lemma ls_list_raw:
  assumes ok: "ls_ok tt dir s" and sid: "clean_name sid"
  defines "cs \<equiv> (if fs_get s (dir @ [sid]) = None then [] else map (entry_checkpoint tt) (fs_children s (dir @ [sid])))"
  shows "ls_ListCheckpoints srt tt dir sid limit s =
      (if fs_get s (dir @ [sid]) = None then (Ok [], s)
       else (apply_limit limit (srt (\<lambda>x y. Timestamp y < Timestamp x) cs), s))"
    and "distinct (map CheckpointID cs)" and "set cs = in_session (ls_stored tt dir s) sid"
proof -
  show "ls_ListCheckpoints srt tt dir sid limit s =
      (if fs_get s (dir @ [sid]) = None then (Ok [], s)
       else (apply_limit limit (srt (\<lambda>x y. Timestamp y < Timestamp x) cs), s))"
  proof (cases "fs_get s (dir @ [sid])")
    case None
    with sid ls_not_under_file [OF ok, of sid] ls_okD(1) [OF ok] show ?thesis
      by (simp add: ls_ListCheckpoints_def getSessionDir_def read_entries_def os_ReadDir_def may_fail_def missing_def
          Let_def)
  next
    case (Some nd)
    then have "fs_get s (dir @ [sid]) = Some Dir" using ls_okD(5) [OF ok, of sid nd] by simp
    with sid ls_ReadDir [OF ok] ls_read_all_spec [OF ok, of "fs_children s (dir @ [sid])" sid] show ?thesis
      by (simp add: ls_ListCheckpoints_def getSessionDir_def read_entries_def and_then_def cs_def Let_def)
  qed
  have entry: "\<exists>c. entry_checkpoint tt e = c \<and> fst e = CheckpointID c @ ''.json'' \<and> SessionID c = sid \<and>
      ls_stored tt dir s (CheckpointID c) = Some c" if "e \<in> set (fs_children s (dir @ [sid]))" for e
    using that ls_entries [OF ok, of "fst e" "snd e" sid] by (auto simp: entry_checkpoint_def)
  have names: "map (\<lambda>e. CheckpointID (entry_checkpoint tt e) @ ''.json'') (fs_children s (dir @ [sid])) =
      map fst (fs_children s (dir @ [sid]))"
    using entry by (intro map_cong) auto
  have "distinct (map (\<lambda>e. CheckpointID (entry_checkpoint tt e) @ ''.json'') (fs_children s (dir @ [sid])))"
    unfolding names by (rule fs_children_distinct [OF ls_okD(2) [OF ok]])
  then have "distinct (map (\<lambda>e. CheckpointID (entry_checkpoint tt e)) (fs_children s (dir @ [sid])))"
    by (auto simp: distinct_map inj_on_def)
  then show "distinct (map CheckpointID cs)" by (simp add: cs_def comp_def)
  show "set cs = in_session (ls_stored tt dir s) sid"
  proof (intro set_eqI iffI)
    fix c assume "c \<in> set cs"
    then show "c \<in> in_session (ls_stored tt dir s) sid"
      using entry by (auto simp: cs_def in_session_def ran_def split: if_splits)
  next
    fix c assume c: "c \<in> in_session (ls_stored tt dir s) sid"
    then obtain i where i: "ls_stored tt dir s i = Some c" "SessionID c = sid" by (auto simp: in_session_def ran_def)
    then have "CheckpointID c = i" using ls_stored_id [OF ok] by blast
    with i obtain t where t: "fs_get s (dir @ [sid, CheckpointID c @ ''.json'']) = Some (File t)" "FromJSON tt t = Ok c"
      using ls_stored_iff [OF ok] by blast
    then have "(CheckpointID c @ ''.json'', File t) \<in> set (fs_children s (dir @ [sid]))"
      using fs_children_set [OF ls_okD(2) [OF ok], of _ _ "dir @ [sid]"] by simp
    moreover have "fs_get s (dir @ [sid]) \<noteq> None"
      using ls_okD(3) [OF ok, of "dir @ [sid, CheckpointID c @ ''.json'']"] t by (simp add: butlast_append)
    ultimately show "c \<in> set cs" using t(2) by (force simp: cs_def entry_checkpoint_def image_iff)
  qed
qed

lemma ls_List_ok:
  assumes "sort_slice srt" and ok: "ls_ok tt dir s" and sid: "clean_name sid"
  shows "\<exists>cs. newest_first cs \<and> set cs = in_session (ls_stored tt dir s) sid \<and>
    (\<forall>limit. valid_limit limit \<longrightarrow> ls_ListCheckpoints srt tt dir sid limit s = (apply_limit limit cs, s))"
proof -
  let ?lt = "\<lambda>(x :: gmap option Checkpoint) y. Timestamp y < Timestamp x"
  let ?raw = "if fs_get s (dir @ [sid]) = None then [] else map (entry_checkpoint tt) (fs_children s (dir @ [sid]))"
  note raw = ls_list_raw [OF ok sid]
  have perm: "mset (map CheckpointID (srt ?lt ?raw)) = mset (map CheckpointID ?raw)"
    by (simp add: sort_slice.perm [OF assms(1)])
  have "sorted_wrt (\<lambda>x y. \<not> ?lt y x) (srt ?lt ?raw)"
    by (rule sort_slice.sorted [OF assms(1)]) (rule weak_order_key(2))
  then have "newest_first (srt ?lt ?raw)"
    using mset_eq_imp_distinct_iff [OF perm] raw(2) by (simp add: newest_first_def not_less)
  moreover have "set (srt ?lt ?raw) = in_session (ls_stored tt dir s) sid"
    using raw(3) by (simp add: sort_slice.set_srt [OF assms(1)])
  moreover have "ls_ListCheckpoints srt tt dir sid limit s = (apply_limit limit (srt ?lt ?raw), s)" if "valid_limit limit" for limit
  proof (cases "fs_get s (dir @ [sid])")
    case None
    then have "srt ?lt ?raw = []" using sort_slice.length_srt [OF assms(1), of ?lt "[]"] by simp
    with None raw(1) that show ?thesis by (auto simp: apply_limit_def valid_limit_def split: option.splits)
  qed (simp add: raw(1))
  ultimately show ?thesis by blast
qed

lemma ls_remove_all_spec:
  assumes "ls_ok tt dir s" and "distinct (map fst es)" and "set es \<subseteq> set (fs_children s (dir @ [sid]))"
  shows "\<exists>s'. ls_remove_all (dir @ [sid]) es k s = (Ok (k + int (length es)), s') \<and> ls_ok tt dir s' \<and>
    (\<forall>q. fs_get s' q = (if \<exists>f \<in> fst ` set es. q = dir @ [sid, f] then None else fs_get s q))"
  using assms
proof (induction es arbitrary: s k)
  case (Cons e es)
  obtain f nd where e: "e = (f, nd)" by force
  obtain t c where c: "nd = File t" "f = CheckpointID c @ ''.json''"
    "ls_stored tt dir s (CheckpointID c) = Some c" "fs_get s (dir @ [sid, f]) = Some nd"
    using Cons.prems(3) e ls_entries [OF Cons.prems(1), of f nd sid] by auto
  let ?p = "dir @ [sid, f]"
  let ?s = "s\<lparr>fs_nodes := go_delete ?p (fs_nodes s)\<rparr>"
  have id: "clean_id (CheckpointID c)" using ls_stored_id [OF Cons.prems(1) c(3)] by blast
  have rm: "os_Remove (filepath_Join (dir @ [sid]) f) s = (Ok (), ?s)"
    using id c ls_okD(1) [OF Cons.prems(1)] by (simp add: os_Remove_def may_fail_def)
  have ok': "ls_ok tt dir ?s"
    using ls_ok_remove [OF Cons.prems(1) _ _ ls_file_leaf [OF Cons.prems(1)], of ?p "[sid, f]"] c by simp
  have "set es \<subseteq> set (fs_children ?s (dir @ [sid]))"
  proof
    fix x assume x: "x \<in> set es"
    then have "fst x \<noteq> f" using Cons.prems(2) e by force
    moreover have "(fst x, snd x) \<in> set (fs_children s (dir @ [sid]))" using x Cons.prems(3) by auto
    ultimately have "fs_get ?s (dir @ [sid] @ [fst x]) = Some (snd x)"
      using fs_children_set [OF ls_okD(2) [OF Cons.prems(1)], of "fst x" "snd x" "dir @ [sid]"]
      by (simp add: fs_get_delete)
    then show "x \<in> set (fs_children ?s (dir @ [sid]))"
      using fs_children_set [OF ls_okD(2) [OF ok'], of "fst x" "snd x" "dir @ [sid]"] by simp
  qed
  from Cons.IH [OF ok' _ this, of "k + 1"] Cons.prems(2) obtain s' where
    "ls_remove_all (dir @ [sid]) es (k + 1) ?s = (Ok (k + 1 + int (length es)), s')" "ls_ok tt dir s'"
    "\<And>q. fs_get s' q = (if \<exists>f \<in> fst ` set es. q = dir @ [sid, f] then None else fs_get ?s q)" by auto
  moreover have "is_checkpoint_file e" using c e by (simp add: is_checkpoint_file_def)
  ultimately show ?case using rm e by (auto simp: fs_get_delete)
qed auto

lemma ls_DeleteSession_ok:
  assumes ok: "ls_ok tt dir s" and sid: "clean_name sid"
  shows "\<exists>s'. ls_DeleteSession dir sid s = (Ok (int (card (in_session (ls_stored tt dir s) sid))), s') \<and>
    ls_ok tt dir s' \<and>
    (\<forall>i. ls_stored tt dir s' i = (case ls_stored tt dir s i of None \<Rightarrow> None
       | Some c \<Rightarrow> if SessionID c = sid then None else Some c))"
proof (cases "fs_get s (dir @ [sid])")
  case None
  have none: "in_session (ls_stored tt dir s) sid = {}" using ls_list_raw(3) [OF ok sid] None by simp
  then have "ls_stored tt dir s i = (case ls_stored tt dir s i of None \<Rightarrow> None
       | Some c \<Rightarrow> if SessionID c = sid then None else Some c)" for i
    by (auto simp: in_session_def ran_def split: option.split)
  moreover have "ls_DeleteSession dir sid s = (Ok 0, s)"
    using None sid ls_not_under_file [OF ok, of sid] ls_okD(1) [OF ok]
    by (simp add: ls_DeleteSession_def getSessionDir_def read_entries_def os_ReadDir_def may_fail_def missing_def Let_def)
  ultimately show ?thesis using ok none by auto
next
  case (Some nd)
  then have dir: "fs_get s (dir @ [sid]) = Some Dir" using ls_okD(5) [OF ok, of sid nd] by simp
  let ?es = "fs_children s (dir @ [sid])" and ?p = "dir @ [sid]"
  obtain s1 where s1: "ls_remove_all ?p ?es 0 s = (Ok (int (length ?es)), s1)" "ls_ok tt dir s1"
    "\<And>q. fs_get s1 q = (if \<exists>f \<in> fst ` set ?es. q = dir @ [sid, f] then None else fs_get s q)"
    using ls_remove_all_spec [OF ok fs_children_distinct [OF ls_okD(2) [OF ok]] subset_refl, of sid 0] by auto
  have empty: "fs_get s1 (?p @ [f]) = None" for f
    using fs_children_set [OF ls_okD(2) [OF ok], of f _ ?p] s1(3) [of "?p @ [f]"]
    by (cases "fs_get s (?p @ [f])") (force simp: image_iff)+
  then have "fs_children s1 ?p = []"
    using fs_children_set [OF ls_okD(2) [OF s1(2)], of _ _ ?p] by (cases "fs_children s1 ?p") auto
  let ?s = "s1\<lparr>fs_nodes := go_delete ?p (fs_nodes s1)\<rparr>"
  have rm: "os_Remove ?p s1 = (Ok (), ?s)"
    using \<open>fs_children s1 ?p = []\<close> dir s1(3) [of ?p] ls_okD(1) [OF s1(2)] by (simp add: os_Remove_def may_fail_def)
  have ok': "ls_ok tt dir ?s" by (rule ls_ok_remove [OF s1(2) refl _ empty]) simp
  have len: "length ?es = card (in_session (ls_stored tt dir s) sid)"
  proof -
    have "distinct (map CheckpointID (map (entry_checkpoint tt) ?es))" using ls_list_raw(2) [OF ok sid] dir by simp
    then have "distinct (map (entry_checkpoint tt) ?es)" unfolding distinct_map [of CheckpointID] by blast
    from distinct_card [OF this] show ?thesis using ls_list_raw(3) [OF ok sid] dir by simp
  qed
  have run: "ls_DeleteSession dir sid s = (Ok (int (card (in_session (ls_stored tt dir s) sid))), ?s)"
    using sid dir s1(1) rm ls_ReadDir [OF ok dir] len
    by (simp add: ls_DeleteSession_def getSessionDir_def read_entries_def and_then_def Let_def)
  have get: "fs_get ?s (dir @ [n, f]) = (if n = sid then None else fs_get s (dir @ [n, f]))" for n f
    using empty [of f] s1(3) [of "dir @ [n, f]"] by (auto simp: fs_get_delete)
  have iff: "ls_stored tt dir ?s i = Some c \<longleftrightarrow> ls_stored tt dir s i = Some c \<and> SessionID c \<noteq> sid" for i c
    using ls_stored_iff [OF ok', of i c] ls_stored_iff [OF ok, of i c] by (simp add: get)
  have "ls_stored tt dir ?s = (\<lambda>i. case ls_stored tt dir s i of None \<Rightarrow> None
       | Some c \<Rightarrow> if SessionID c = sid then None else Some c)"
    by (rule map_eqI) (auto simp: iff split: option.split)
  with run ok' show ?thesis by (intro exI [of _ ?s]) (simp only: simp_thms)
qed

lemma local_storage:
  assumes "sort_slice srt" and "rfc3339 tt"
  shows "checkpoint_storage (LocalStorage_methods srt tt dir) (ls_ok tt dir) (ls_stored tt dir) json_checkpoint
    clean_id clean_name exact_checkpoint"
proof (unfold_locales, goal_cases)
  case (1 w c)
  then show ?case using ls_Save_ok [OF assms(2)] by (simp add: LocalStorage_methods_def)
next
  case (2 w i)
  then show ?case using ls_Load_ok by (simp add: LocalStorage_methods_def)
next
  case (3 w sid)
  from ls_List_ok [OF assms(1) this] show ?case by (simp add: LocalStorage_methods_def)
next
  case (5 w i)
  then show ?case using ls_Delete_ok by (simp add: LocalStorage_methods_def)
next
  case (6 w sid)
  then show ?case using ls_DeleteSession_ok by (simp add: LocalStorage_methods_def)
next
  case (12 w i c)
  then show ?case by (rule ls_stored_id)
qed (simp_all add: LocalStorage_methods_def ls_GetLatest_def ls_GetCheckpointHistory_def json_checkpoint_def)

interpretation local_files: checkpoint_storage "LocalStorage_methods go_insort unary_times dir" "ls_ok unary_times dir"
    "ls_stored unary_times dir" json_checkpoint clean_id clean_name exact_checkpoint for dir
  by (rule local_storage [OF insertion.sort_slice_axioms unary_times_rfc3339(1)])

section \<open>Two storages, one specification\<close>

datatype 'st store_op = OpSave "'st Checkpoint" | OpDelete string | OpDeleteSession string

datatype store_reply = Saved | Deleted bool | Removed int

definition do_op :: "('st, 'w) CheckpointStorage \<Rightarrow> 'st store_op \<Rightarrow> ('w, store_reply) call" where
  "do_op st op =
     (case op of
        OpSave c \<Rightarrow> and_then (st_Save st c) (\<lambda>_. ret Saved)
      | OpDelete i \<Rightarrow> and_then (st_Delete st i) (\<lambda>b. ret (Deleted b))
      | OpDeleteSession sid \<Rightarrow> and_then (st_DeleteSession st sid) (\<lambda>n. ret (Removed n)))"

primrec do_ops :: "('st, 'w) CheckpointStorage \<Rightarrow> 'st store_op list \<Rightarrow> ('w, store_reply list) call" where
  "do_ops st [] = ret []"
| "do_ops st (op # ops) = and_then (do_op st op) (\<lambda>r. and_then (do_ops st ops) (\<lambda>rs. ret (r # rs)))"

text \<open>The specification: a finite map from identifiers to checkpoints.\<close>

definition spec_op ::
    "('st Checkpoint \<Rightarrow> 'st Checkpoint) \<Rightarrow> 'st store_op \<Rightarrow> (string \<Rightarrow> 'st Checkpoint option) \<Rightarrow>
     store_reply \<times> (string \<Rightarrow> 'st Checkpoint option)" where
  "spec_op kept op m =
     (case op of
        OpSave c \<Rightarrow> (Saved, m(CheckpointID c \<mapsto> kept c))
      | OpDelete i \<Rightarrow> (Deleted (m i \<noteq> None), m(i := None))
      | OpDeleteSession sid \<Rightarrow>
          (Removed (int (card {i. \<exists>c. m i = Some c \<and> SessionID c = sid})),
           (\<lambda>i. case m i of None \<Rightarrow> None | Some c \<Rightarrow> if SessionID c = sid then None else Some c)))"

primrec spec_ops where
  "spec_ops kept [] m = ([], m)"
| "spec_ops kept (op # ops) m =
     (let (r, m1) = spec_op kept op m; (rs, m2) = spec_ops kept ops m1 in (r # rs, m2))"

text \<open>Saves use names a file system takes, and identifiers that are not in use.\<close>

fun legal_op :: "(string \<Rightarrow> 'st Checkpoint option) \<Rightarrow> 'st store_op \<Rightarrow> bool" where
  "legal_op m (OpSave c) \<longleftrightarrow> clean_id (CheckpointID c) \<and> clean_name (SessionID c) \<and> m (CheckpointID c) = None"
| "legal_op m (OpDelete i) \<longleftrightarrow> clean_id i"
| "legal_op m (OpDeleteSession sid) \<longleftrightarrow> clean_name sid"

primrec legal_ops :: "('st Checkpoint \<Rightarrow> 'st Checkpoint) \<Rightarrow> (string \<Rightarrow> 'st Checkpoint option) \<Rightarrow> 'st store_op list \<Rightarrow> bool" where
  "legal_ops kept m [] \<longleftrightarrow> True"
| "legal_ops kept m (op # ops) \<longleftrightarrow> legal_op m op \<and> legal_ops kept (snd (spec_op kept op m)) ops"

lemma in_session_card:
  assumes "\<And>i c. m i = Some c \<Longrightarrow> CheckpointID c = i"
  shows "card (in_session m sid) = card {i. \<exists>c. m i = Some c \<and> SessionID c = sid}"
proof (rule bij_betw_same_card)
  show "bij_betw CheckpointID (in_session m sid) {i. \<exists>c. m i = Some c \<and> SessionID c = sid}"
  proof (rule bij_betwI')
    fix x y assume "x \<in> in_session m sid" "y \<in> in_session m sid"
    then show "(CheckpointID x = CheckpointID y) = (x = y)" using assms by (auto simp: in_session_def ran_def)
  qed (use assms in \<open>fastforce simp: in_session_def ran_def\<close>)+
qed

context checkpoint_storage
begin

lemma do_op_spec:
  assumes "ok w" and "\<And>i. clean_id i \<Longrightarrow> valid_id i" and "\<And>s. clean_name s \<Longrightarrow> valid_session s"
    and "legal_op (stored w) op" and "\<And>c. op = OpSave c \<Longrightarrow> writable c"
  shows "\<exists>w'. do_op st op w = (Ok (fst (spec_op kept op (stored w))), w') \<and> ok w' \<and>
    stored w' = snd (spec_op kept op (stored w))"
proof (cases op)
  case (OpSave c)
  then show ?thesis using assms save [of w c] by (auto simp: do_op_def and_then_def spec_op_def)
next
  case (OpDelete i)
  then show ?thesis using assms delete [of w i] by (auto simp: do_op_def and_then_def spec_op_def)
next
  case (OpDeleteSession sid)
  have "valid_session sid" using OpDeleteSession assms by simp
  then obtain w' where "st_DeleteSession st sid w = (Ok (int (card (in_session (stored w) sid))), w')" "ok w'"
    "\<And>i. stored w' i = (case stored w i of None \<Rightarrow> None | Some c \<Rightarrow> if SessionID c = sid then None else Some c)"
    using delete_session [OF assms(1)] by blast
  moreover have "card (in_session (stored w) sid) = card {i. \<exists>c. stored w i = Some c \<and> SessionID c = sid}"
    using stored_id [OF assms(1)] by (intro in_session_card) blast
  ultimately show ?thesis using OpDeleteSession
    by (auto simp: do_op_def and_then_def spec_op_def fun_eq_iff)
qed

lemma do_ops_spec:
  assumes "ok w" and "\<And>i. clean_id i \<Longrightarrow> valid_id i" and "\<And>s. clean_name s \<Longrightarrow> valid_session s"
    and "legal_ops kept (stored w) ops" and "\<And>c. OpSave c \<in> set ops \<Longrightarrow> writable c"
  shows "\<exists>w'. do_ops st ops w = (Ok (fst (spec_ops kept ops (stored w))), w') \<and> ok w' \<and>
    stored w' = snd (spec_ops kept ops (stored w))"
  using assms(1,4,5)
proof (induction ops arbitrary: w)
  case (Cons op ops)
  obtain w1 where w1: "do_op st op w = (Ok (fst (spec_op kept op (stored w))), w1)" "ok w1"
    "stored w1 = snd (spec_op kept op (stored w))"
    using do_op_spec [OF Cons.prems(1) assms(2,3), of op] Cons.prems(2,3) by auto
  with Cons.IH [of w1] Cons.prems(2,3) show ?case by (auto simp: and_then_def Let_def case_prod_beta)
qed auto

end

lemma spec_ops_map:
  assumes "\<And>c. CheckpointID (k c) = CheckpointID c \<and> SessionID (k c) = SessionID c"
  shows "legal_ops (\<lambda>c. c) m ops \<Longrightarrow>
    legal_ops k (\<lambda>i. map_option k (m i)) ops \<and>
    fst (spec_ops k ops (\<lambda>i. map_option k (m i))) = fst (spec_ops (\<lambda>c. c) ops m) \<and>
    snd (spec_ops k ops (\<lambda>i. map_option k (m i))) = (\<lambda>i. map_option k (snd (spec_ops (\<lambda>c. c) ops m) i))"
proof (induction ops arbitrary: m)
  case (Cons op ops)
  let ?m = "\<lambda>i. map_option k (m i)"
  have step: "fst (spec_op k op ?m) = fst (spec_op (\<lambda>c. c) op m)"
    "snd (spec_op k op ?m) = (\<lambda>i. map_option k (snd (spec_op (\<lambda>c. c) op m) i))"
    using assms by (auto simp: spec_op_def fun_eq_iff intro!: arg_cong [where f = card] split: store_op.split option.split)
  moreover have "legal_op ?m op" using Cons.prems by (cases op) auto
  ultimately show ?case using Cons by (simp add: Let_def case_prod_beta)
qed simp

text \<open>
  C6. The two storages behave alike.  From empty storages, on a file system whose operations
  never fault, any series of saves, deletions and session deletions succeeds on both with the
  same answers, provided that identifiers are fresh, names are one path component, and the
  saved checkpoints are ones that JSON represents exactly (texts in UTF-8, integers of at
  most 53 bits, no functions; any other numbers and nested values).  Afterwards both return the
  same checkpoint for every identifier, the file storage what JSON keeps of it, and the
  file storage lists a session newest first.
\<close>

theorem storages_agree:
  assumes "sort_slice srt" and "sort_slice srt'" and "rfc3339 tt"
    and "ls_ok tt dir disk0" and "\<And>i. ls_stored tt dir disk0 i = None" and "legal_ops (\<lambda>c. c) (\<lambda>_. None) ops"
    and "\<And>c. OpSave c \<in> set ops \<Longrightarrow> exact_checkpoint c"
    and "\<And>op p. fs_fault disk0 op p = None"
  shows "\<exists>rs s disk. do_ops (InMemoryStorage_methods srt) ops NewInMemoryStorage = (Ok rs, s) \<and>
    do_ops (LocalStorage_methods srt' tt dir) ops disk0 = (Ok rs, disk) \<and> im_ok s \<and> ls_ok tt dir disk \<and>
    (\<forall>i. clean_id i \<longrightarrow> (\<exists>found. im_Load i s = (Ok found, s) \<and>
       ls_Load tt dir i disk = (Ok (map_option json_checkpoint found), disk))) \<and>
    (\<forall>sid. clean_name sid \<longrightarrow> (\<exists>cs. ls_ListCheckpoints srt' tt dir sid None disk = (Ok cs, disk) \<and>
       newest_first cs \<and> set cs = json_checkpoint ` in_session (im_stored s) sid))"
proof -
  let ?spec = "spec_ops (\<lambda>c. c) ops (\<lambda>_. None)"
  obtain s where s: "do_ops (InMemoryStorage_methods srt) ops NewInMemoryStorage = (Ok (fst ?spec), s)" "im_ok s"
    "im_stored s = snd ?spec"
    using checkpoint_storage.do_ops_spec [OF in_memory_storage [OF assms(1)] im_ok_new, of ops] assms(6)
    by (auto simp: NewInMemoryStorage_def)
  have init: "ls_stored tt dir disk0 = (\<lambda>i. map_option json_checkpoint None)" using assms(5) by auto
  have map: "legal_ops json_checkpoint (\<lambda>i. map_option json_checkpoint None) ops"
    "fst (spec_ops json_checkpoint ops (\<lambda>i. map_option json_checkpoint None)) = fst ?spec"
    "snd (spec_ops json_checkpoint ops (\<lambda>i. map_option json_checkpoint None)) = (\<lambda>i. map_option json_checkpoint (snd ?spec i))"
    using spec_ops_map [of json_checkpoint "\<lambda>_. None" ops] assms(6) by (simp_all add: json_checkpoint_def)
  note storage = local_storage [OF assms(2,3), of dir]
  obtain disk where d: "do_ops (LocalStorage_methods srt' tt dir) ops disk0 = (Ok (fst ?spec), disk)"
    "ls_ok tt dir disk" "ls_stored tt dir disk = (\<lambda>i. map_option json_checkpoint (snd ?spec i))"
    using checkpoint_storage.do_ops_spec [OF storage assms(4), of ops] map assms(7) unfolding init by auto
  have sess: "in_session (ls_stored tt dir disk) sid = json_checkpoint ` in_session (im_stored s) sid" for sid
  proof -
    have "SessionID (json_checkpoint c) = SessionID c" for c by (simp add: json_checkpoint_def)
    then show ?thesis by (auto simp: in_session_def d(3) s(3) ran_def image_iff)
  qed
  have "\<exists>cs. ls_ListCheckpoints srt' tt dir sid None disk = (Ok cs, disk) \<and> newest_first cs \<and>
      set cs = json_checkpoint ` in_session (im_stored s) sid" if "clean_name sid" for sid
    using ls_List_ok [OF assms(2) d(2) that] sess by (fastforce simp: valid_limit_def apply_limit_def)
  then show ?thesis
    using s d ls_Load_ok [OF d(2)] by (auto simp: im_Load_def)
qed

text \<open>A disk with an empty checkpoint directory.\<close>

definition empty_disk :: "string \<Rightarrow> disk" where
  "empty_disk d = \<lparr>fs_nodes = [([d], Dir)], fs_fault = (\<lambda>op p. None)\<rparr>"

lemma empty_disk_ok: "ls_ok tt [d] (empty_disk d)" and empty_disk_stored: "ls_stored tt [d] (empty_disk d) i = None"
  by (auto simp: ls_ok_def empty_disk_def fs_get_def go_map_ok_def ls_stored_def)

theorem storages_agree_witness:
  "let c = \<lparr>CheckpointID = ''i'', SessionID = ''s'', AgentName = ''a'', Timestamp = 1500000000, StepNumber = 1,
            State = None, Messages = [], Metadata = None, ParentCheckpointID = None\<rparr>;
       ops = [OpSave c, OpDelete ''j'', OpDeleteSession ''t'']
   in \<exists>rs s disk. do_ops (InMemoryStorage_methods go_insort) ops NewInMemoryStorage = (Ok rs, s) \<and>
        do_ops (LocalStorage_methods go_insort unary_times [''d'']) ops (empty_disk ''d'') = (Ok rs, disk) \<and>
        (\<exists>found. im_Load ''i'' s = (Ok found, s) \<and>
           ls_Load unary_times [''d''] ''i'' disk = (Ok (map_option json_checkpoint found), disk))"
proof -
  let ?c = "\<lparr>CheckpointID = ''i'', SessionID = ''s'', AgentName = ''a'', Timestamp = 1500000000, StepNumber = 1,
            State = None, Messages = [], Metadata = None, ParentCheckpointID = None\<rparr> :: gmap option Checkpoint"
  have "legal_ops (\<lambda>c. c) (\<lambda>_. None) [OpSave ?c, OpDelete ''j'', OpDeleteSession ''t'']" and "clean_id ''i''"
    by (simp_all add: clean_id_def clean_name_def)
  moreover have "exact_checkpoint c" if "OpSave c \<in> set [OpSave ?c, OpDelete ''j'', OpDeleteSession ''t'']" for c
    using that by (auto simp: exact_checkpoint_def json_of_map_def exact_int_def)
  moreover have "fs_fault (empty_disk ''d'') op p = None" for op p by (simp add: empty_disk_def)
  ultimately show ?thesis
    using storages_agree [OF insertion.sort_slice_axioms insertion.sort_slice_axioms unary_times_rfc3339(1)
        empty_disk_ok empty_disk_stored, of "[OpSave ?c, OpDelete ''j'', OpDeleteSession ''t'']" "''d''"]
    unfolding Let_def by blast
qed

section \<open>Resuming from files\<close>

abbreviation file_by_value where
  "file_by_value srt tt dir \<equiv> by_value (LocalStorage_methods srt tt dir)"

lemma da_Checkpoint_file:
  assumes "rfc3339 tt" and "ls_ok tt dir s" and "ls_stored tt dir s uuid = None" and "clean_id uuid" and "clean_name sid"
    and "go_get (da_sessionState d) sid = Some a"
    and "exact_checkpoint \<lparr>CheckpointID = uuid, SessionID = sid, AgentName = da_agentName d, Timestamp = now,
      StepNumber = steps_of d sid, State = Some (deref h (Some a)), Messages = messages_of d sid,
      Metadata = Some (map_or_empty md), ParentCheckpointID = go_get (cm_sessionLastCheckpoint (da_manager d)) sid\<rparr>"
  shows "\<exists>m' s' c. da_Checkpoint (file_by_value srt tt dir) uuid now sid md (d, h, s) = (Ok uuid, d\<lparr>da_manager := m'\<rparr>, h, s') \<and>
    ls_ok tt dir s' \<and> ls_stored tt dir s' uuid = Some c \<and> StepNumber c = steps_of d sid \<and>
    State c = Some (json_map (deref h (Some a))) \<and> Messages c = map json_message (messages_of d sid)"
proof -
  let ?c = "\<lparr>CheckpointID = uuid, SessionID = sid, AgentName = da_agentName d, Timestamp = now,
    StepNumber = steps_of d sid, State = Some (deref h (Some a)), Messages = messages_of d sid,
    Metadata = Some (map_or_empty md), ParentCheckpointID = go_get (cm_sessionLastCheckpoint (da_manager d)) sid\<rparr>"
  obtain s' where "ls_Save tt dir ?c s = (Ok (), s')" "ls_ok tt dir s'"
    "ls_stored tt dir s' = (ls_stored tt dir s)(uuid \<mapsto> json_checkpoint ?c)"
    using ls_Save_ok [OF assms(1,2), of ?c] assms(3-5,7) by auto
  then show ?thesis
    by (intro exI [of _ "(da_manager d)\<lparr>
        cm_sessionLastCheckpoint := go_set sid uuid (cm_sessionLastCheckpoint (da_manager d)),
        cm_sessionSteps := go_set sid (steps_of d sid) (cm_sessionSteps (da_manager d))\<rparr>"]
        exI [of _ s'] exI [of _ "json_checkpoint ?c"])
      (auto simp: da_Checkpoint_def via_manager_def CreateCheckpoint_def by_value_def save_value_def with_State_def
        LocalStorage_methods_def on_store_def Let_def assms(6) json_checkpoint_def map_or_empty_def)
qed

lemma da_Resume_file:
  assumes "ls_ok tt dir s" and "clean_id uuid" and "uuid \<noteq> []"
    and "ls_stored tt dir s uuid = Some c" and "State c = Some m"
  shows "\<exists>d' h' r. da_Resume (file_by_value srt tt dir) sid uuid (d, h, s) = (Ok r, d', h', s) \<and>
    da_GetState sid (d', h', s) = m \<and> steps_of d' sid = StepNumber c \<and> messages_of d' sid = Messages c \<and>
    go_get (da_sessionState d') sid = Some (length h' - 1) \<and> h' \<noteq> []"
  using ls_Load_ok [OF assms(1,2)] assms(3-5)
  by (auto simp: da_Resume_def and_then_def via_manager_def cm_LoadCheckpoint_def on_store_def by_value_def load_one_def
      LocalStorage_methods_def load_value_def alloc_def with_State_def da_restore_def da_GetState_def deref_def
      nth_append Let_def)

text \<open>
  A rollback from files restores what was saved: after a checkpoint and any later update
  of the session's state, resuming from the checkpoint restores the step, the messages and
  the state of the moment of the checkpoint, as JSON keeps them (the map itself is a new one),
  if JSON represents the checkpoint exactly.
\<close>

lemma file_rollback_restores_saved:
  assumes "rfc3339 tt" and "ls_ok tt dir s" and "ls_stored tt dir s uuid = None" and "clean_id uuid"
    and "uuid \<noteq> []" and "clean_name sid" and "go_get (da_sessionState d) sid = Some a"
    and "exact_checkpoint \<lparr>CheckpointID = uuid, SessionID = sid, AgentName = da_agentName d, Timestamp = now,
      StepNumber = steps_of d sid, State = Some (deref h (Some a)), Messages = messages_of d sid,
      Metadata = Some (map_or_empty md), ParentCheckpointID = go_get (cm_sessionLastCheckpoint (da_manager d)) sid\<rparr>"
    and "da_Checkpoint (file_by_value srt tt dir) uuid now sid md (d, h, s) = (r, ds1)"
    and "updateState ff sid inp out ds1 = (u, ds2)"
    and "da_Resume (file_by_value srt tt dir) sid uuid ds2 = (r', d3, h3, s3)"
  shows "r = Ok uuid \<and> da_GetState sid (d3, h3, s3) = json_map (da_GetState sid (d, h, s)) \<and>
    steps_of d3 sid = steps_of d sid \<and> messages_of d3 sid = map json_message (messages_of d sid)"
proof -
  obtain m' s' c where ck: "da_Checkpoint (file_by_value srt tt dir) uuid now sid md (d, h, s) =
      (Ok uuid, d\<lparr>da_manager := m'\<rparr>, h, s')" "ls_ok tt dir s'" "ls_stored tt dir s' uuid = Some c"
    "StepNumber c = steps_of d sid" "State c = Some (json_map (deref h (Some a)))"
    "Messages c = map json_message (messages_of d sid)"
    using da_Checkpoint_file [OF assms(1-4,6,7,8), of srt] by blast
  obtain h2 where "ds2 = (d\<lparr>da_manager := m'\<rparr>, h2, s')"
    using assms(7,9,10) ck(1) by (auto simp: updateState_def)
  with da_Resume_file [OF ck(2) assms(4,5) ck(3,5), of srt sid "d\<lparr>da_manager := m'\<rparr>" h2] assms(7,9,11) ck
  show ?thesis by (auto simp: da_GetState_def)
qed

text \<open>
  The message count does not survive a restart from files: JSON has no integers, \<open>updateState\<close>
  only accepts an \<open>int\<close>, so after a session is resumed from any checkpoint that a file holds, the
  next message sets \<open>message_count\<close> to 1, whatever it was.
\<close>

lemma message_count_restarts:
  assumes "ls_ok tt dir s" and "clean_id uuid" and "uuid \<noteq> []" and "ls_stored tt dir s uuid = Some (json_checkpoint c)"
    and "da_Resume (file_by_value srt tt dir) sid uuid (d, h, s) = (r, ds1)"
    and "updateState ff sid inp out ds1 = (u, ds2)"
  shows "go_get (da_GetState sid ds2) ''message_count'' = Some (GInt 1)"
proof -
  let ?m = "json_map (map_or_empty (State c))"
  obtain d' h' where r: "ds1 = (d', h', s)" and g: "da_GetState sid (d', h', s) = ?m"
    and a: "go_get (da_sessionState d') sid = Some (length h' - 1)" "h' \<noteq> []"
    using da_Resume_file [OF assms(1-4), of ?m srt sid d h] assms(5) by (auto simp: json_checkpoint_def)
  have cnt: "go_get (updated_state ff inp out ?m) ''message_count'' = Some (GInt 1)"
  proof -
    have "go_get ?m ''message_count'' \<noteq> Some (GInt i)" for i by (rule json_map_GInt)
    then show ?thesis
      by (auto simp: updated_state_def Let_def split: option.split gval.split)
  qed
  have "h' ! (length h' - 1) = ?m" using g a by (simp add: da_GetState_def)
  then have "ds2 = (d', h'[length h' - 1 := updated_state ff inp out ?m], s)"
    using assms(6) r a by (auto simp: updateState_def)
  with a cnt show ?thesis by (simp add: da_GetState_def)
qed

text \<open>
  The latest checkpoint of a session on disk may be an older one: \<open>ToJSON\<close> cuts times to
  seconds, so two checkpoints within one second tie, and the listing leaves them in the
  order of their (random) file names.  Here the checkpoint of step 2 is saved 0.7 seconds
  after the one of step 1, and \<open>GetLatest\<close>, from which a restarted agent resumes, returns step 1.
\<close>

lemma latest_on_disk_can_be_older:
  "let c = (\<lambda>i n t. \<lparr>CheckpointID = i, SessionID = ''s'', AgentName = ''a'', Timestamp = t, StepNumber = n,
              State = Some [], Messages = [], Metadata = Some [], ParentCheckpointID = None\<rparr>);
       (r, disk) = do_ops (LocalStorage_methods go_insort unary_times [''d''])
         [OpSave (c ''a'' 1 1200000000), OpSave (c ''b'' 2 1900000000)] (empty_disk ''d'')
   in fst (ls_GetLatest go_insort unary_times [''d''] ''s'' disk) = Ok (Some (c ''a'' 1 1000000000))"
  by code_simp

end
