(* ===== verification/Memory_Hierarchy.thy ===== *)
theory Memory_Hierarchy
  imports Memory Checkpoint
begin

text \<open>
  The memory hierarchy (\<open>patterns/memory.go\<close>): working, short-term and long-term memory over
  shared entries, and its adapter to the session memories (\<open>memory/hierarchy.go\<close>).

  The tiers hold pointers to the same entries, and retrieving from one tier updates the
  access data that another tier sorts by; so entries live in a store (\<open>entries\<close>), a tier
  lists their addresses.  \<open>uuid.New()\<close> and the readings of the clock are arguments; the sort
  of \<open>sort.Slice\<close> and \<open>strings.ToLower\<close> are parameters.

  The three tiers implement one interface, \<open>MemoryStore\<close>: its contract is the locale
  \<open>memory_tier\<close>, interpreted on each of them.
\<close>

section \<open>Entries\<close>

record MemoryEntry =
  me_ID :: string
  me_Content :: string
  me_Metadata :: gmap
  me_Timestamp :: time
  me_AccessCount :: int
  me_LastAccessed :: "time option"
  me_Importance :: real
  me_SessionID :: string

type_synonym entries = "MemoryEntry list"

definition CreateMemoryEntry ::
    "string \<Rightarrow> time \<Rightarrow> string \<Rightarrow> gmap option \<Rightarrow> real \<Rightarrow> string \<Rightarrow> MemoryEntry" where
  "CreateMemoryEntry uuid now content metadata importance sessionID =
     \<lparr>me_ID = uuid, me_Content = content, me_Metadata = map_or_empty metadata, me_Timestamp = now,
      me_AccessCount = 0, me_LastAccessed = None, me_Importance = importance, me_SessionID = sessionID\<rparr>"

text \<open>The loops that record an access: \<open>entry.AccessCount++; entry.LastAccessed = &now\<close>.\<close>

definition touch :: "time \<Rightarrow> nat \<Rightarrow> entries \<Rightarrow> entries" where
  "touch now a h =
     h[a := (h ! a)\<lparr>me_AccessCount := me_AccessCount (h ! a) + 1, me_LastAccessed := Some now\<rparr>]"

definition touch_all :: "time \<Rightarrow> nat list \<Rightarrow> entries \<Rightarrow> entries" where
  "touch_all now as h = fold (touch now) as h"

text \<open>The readings of the clock in one retrieval: by \<open>cleanExpired\<close>, for the accesses of the
  short-term tier, for the age of each entry of the long-term tier, for its accesses.\<close>

record readings =
  rd_clean :: time
  rd_short :: time
  rd_since :: "nat \<Rightarrow> time"
  rd_long :: time

section \<open>Working memory\<close>

record WorkingMemory =
  wm_maxMessages :: int
  wm_messages :: "nat list"

definition NewWorkingMemory :: "int \<Rightarrow> WorkingMemory outcome" where
  "NewWorkingMemory maxMessages =
     (if maxMessages < 1 then Err (Errorf ''maxMessages must be at least 1'' [] None)
      else Ok \<lparr>wm_maxMessages = maxMessages, wm_messages = []\<rparr>)"

definition wm_Store :: "nat \<Rightarrow> WorkingMemory \<Rightarrow> WorkingMemory" where
  "wm_Store a w =
     (let ms = wm_messages w @ [a] in
      w\<lparr>wm_messages := (if wm_maxMessages w < int (length ms) then tl ms else ms)\<rparr>)"

definition wm_Retrieve :: "int \<Rightarrow> WorkingMemory \<Rightarrow> nat list outcome" where
  "wm_Retrieve limit w =
     (let n = int (length (wm_messages w)); start = (if limit < n then n - limit else 0) in
      if n < start then Panic ''makeslice: len out of range'' else Ok (drop (nat start) (wm_messages w)))"

definition wm_Delete :: "string \<Rightarrow> entries \<Rightarrow> WorkingMemory \<Rightarrow> WorkingMemory" where
  "wm_Delete i h w = w\<lparr>wm_messages := filter (\<lambda>a. me_ID (h ! a) \<noteq> i) (wm_messages w)\<rparr>"

definition wm_GetAll :: "WorkingMemory \<Rightarrow> nat list" where
  "wm_GetAll w = wm_messages w"

definition wm_Clear :: "WorkingMemory \<Rightarrow> WorkingMemory" where
  "wm_Clear w = w\<lparr>wm_messages := []\<rparr>"

section \<open>Short-term memory\<close>

type_synonym address_sort = "(nat \<Rightarrow> nat \<Rightarrow> bool) \<Rightarrow> nat list \<Rightarrow> nat list"

record ShortTermMemory =
  stm_maxMessages :: int
  stm_ttl :: duration
  stm_messages :: "nat list"

text \<open>The product of the durations is one of 64-bit integers and wraps around.\<close>

definition NewShortTermMemory :: "int \<Rightarrow> int \<Rightarrow> ShortTermMemory outcome" where
  "NewShortTermMemory maxMessages ttlSeconds =
     (if maxMessages < 1 then Err (Errorf ''maxMessages must be at least 1'' [] None)
      else if ttlSeconds < 1 then Err (Errorf ''ttlSeconds must be at least 1'' [] None)
      else Ok \<lparr>stm_maxMessages = maxMessages, stm_ttl = signed_take_bit 63 (ttlSeconds * second), stm_messages = []\<rparr>)"

definition cleanExpired :: "time \<Rightarrow> entries \<Rightarrow> ShortTermMemory \<Rightarrow> ShortTermMemory" where
  "cleanExpired now h s =
     s\<lparr>stm_messages := filter (\<lambda>a. now - me_Timestamp (h ! a) < stm_ttl s) (stm_messages s)\<rparr>"

text \<open>The time an entry was last used: its last access, or its creation.\<close>

definition last_used :: "entries \<Rightarrow> nat \<Rightarrow> time" where
  "last_used h a = (case me_LastAccessed (h ! a) of None \<Rightarrow> me_Timestamp (h ! a) | Some t \<Rightarrow> t)"

definition stm_Store :: "address_sort \<Rightarrow> time \<Rightarrow> nat \<Rightarrow> entries \<Rightarrow> ShortTermMemory \<Rightarrow> ShortTermMemory" where
  "stm_Store srt now a h s =
     (let s1 = cleanExpired now h s; ms = stm_messages s1 @ [a] in
      s1\<lparr>stm_messages :=
        (if stm_maxMessages s1 < int (length ms)
         then tl (srt (\<lambda>x y. last_used h x < last_used h y) ms) else ms)\<rparr>)"

definition stm_Retrieve ::
    "address_sort \<Rightarrow> readings \<Rightarrow> int \<Rightarrow> ShortTermMemory \<Rightarrow> entries \<Rightarrow>
     nat list outcome \<times> ShortTermMemory \<times> entries" where
  "stm_Retrieve srt rd limit s h =
     (let s1 = cleanExpired (rd_clean rd) h s;
          sorted = srt (\<lambda>x y. me_Timestamp (h ! y) < me_Timestamp (h ! x)) (stm_messages s1)
      in case apply_limit (Some limit) sorted of
           Ok results \<Rightarrow> (Ok results, s1, touch_all (rd_short rd) results h)
         | Err e \<Rightarrow> (Err e, s1, h)
         | Panic p \<Rightarrow> (Panic p, s1, h))"

definition stm_Delete :: "string \<Rightarrow> entries \<Rightarrow> ShortTermMemory \<Rightarrow> ShortTermMemory" where
  "stm_Delete i h s = s\<lparr>stm_messages := filter (\<lambda>a. me_ID (h ! a) \<noteq> i) (stm_messages s)\<rparr>"

section \<open>Long-term memory\<close>

record LongTermMemory =
  ltm_storage :: "(string \<times> nat) list"
  ltm_minImportance :: real

definition NewLongTermMemory :: "(string \<times> nat) list option \<Rightarrow> real \<Rightarrow> LongTermMemory outcome" where
  "NewLongTermMemory storageBackend minImportance =
     (if minImportance < 0 \<or> 1 < minImportance
      then Err (Errorf ''minImportance must be between 0.0 and 1.0'' [] None)
      else Ok \<lparr>ltm_storage = (case storageBackend of None \<Rightarrow> [] | Some m \<Rightarrow> m), ltm_minImportance = minImportance\<rparr>)"

definition ltm_Store :: "nat \<Rightarrow> entries \<Rightarrow> LongTermMemory \<Rightarrow> LongTermMemory" where
  "ltm_Store a h l =
     (if me_Importance (h ! a) < ltm_minImportance l then l
      else l\<lparr>ltm_storage := go_set (me_ID (h ! a)) a (ltm_storage l)\<rparr>)"

text \<open>\<open>Duration.Hours()\<close>.\<close>

definition Hours :: "duration \<Rightarrow> real" where
  "Hours d = real_of_int d / 3600000000000"

definition ltm_score :: "(string \<Rightarrow> string) \<Rightarrow> (nat \<Rightarrow> time) \<Rightarrow> string \<Rightarrow> entries \<Rightarrow> nat \<Rightarrow> real" where
  "ltm_score lower since query h a =
     (let e = h ! a;
          keyword = (if strings_Contains (lower (me_Content e)) (lower query) then 1 / 2 else 0);
          ageDays = Hours (since a - me_Timestamp e) / 24;
          recencyScore = max 0 (1 - ageDays / 365)
      in keyword + me_Importance e * (3 / 10) + recencyScore * (2 / 10))"

text \<open>\<open>Retrieve\<close>; the loop \<open>i < len && i < limit\<close> takes nothing for a negative limit.\<close>

definition ltm_Retrieve ::
    "address_sort \<Rightarrow> (string \<Rightarrow> string) \<Rightarrow> readings \<Rightarrow> string \<Rightarrow> int \<Rightarrow> LongTermMemory \<Rightarrow> entries \<Rightarrow>
     nat list \<times> entries" where
  "ltm_Retrieve srt lower rd query limit l h =
     (let score = ltm_score lower (rd_since rd) query h;
          scored = srt (\<lambda>x y. score y < score x) (map snd (ltm_storage l));
          results = take (nat limit) scored
      in (results, touch_all (rd_long rd) results h))"

definition ltm_Delete :: "string \<Rightarrow> LongTermMemory \<Rightarrow> LongTermMemory" where
  "ltm_Delete i l = l\<lparr>ltm_storage := go_delete i (ltm_storage l)\<rparr>"

section \<open>The hierarchy\<close>

record MemoryHierarchy =
  mh_working :: WorkingMemory
  mh_shortTerm :: "ShortTermMemory option"
  mh_longTerm :: "LongTermMemory option"

definition NewMemoryHierarchy where
  "NewMemoryHierarchy w s l = \<lparr>mh_working = w, mh_shortTerm = s, mh_longTerm = l\<rparr>"

definition mh_Store ::
    "address_sort \<Rightarrow> string \<Rightarrow> time \<Rightarrow> time \<Rightarrow> string \<Rightarrow> gmap option \<Rightarrow> real \<Rightarrow> string \<Rightarrow>
     (MemoryHierarchy \<times> entries, string) call" where
  "mh_Store srt uuid now clean content metadata importance sessionID mh =
     (let (m, h) = mh in
      if importance < 0 \<or> 1 < importance then
        (Err (Errorf ''importance must be between 0.0 and 1.0'' [] None), mh)
      else
        let a = length h;
            h' = h @ [CreateMemoryEntry uuid now content metadata importance sessionID]
        in (Ok uuid,
            m\<lparr>mh_working := wm_Store a (mh_working m),
              mh_shortTerm := map_option (stm_Store srt clean a h') (mh_shortTerm m),
              mh_longTerm := map_option (\<lambda>l. if ltm_minImportance l \<le> importance then ltm_Store a h' l else l)
                (mh_longTerm m)\<rparr>, h'))"

text \<open>Deduplication by identifier, keeping the first entry of each.\<close>

fun dedup :: "entries \<Rightarrow> string list \<Rightarrow> nat list \<Rightarrow> nat list" where
  "dedup h seen [] = []"
| "dedup h seen (a # as) =
     (if me_ID (h ! a) \<in> set seen then dedup h seen as
      else a # dedup h (me_ID (h ! a) # seen) as)"

definition mh_before :: "entries \<Rightarrow> nat \<Rightarrow> nat \<Rightarrow> bool" where
  "mh_before h x y =
     (if me_Importance (h ! x) \<noteq> me_Importance (h ! y)
      then me_Importance (h ! y) < me_Importance (h ! x)
      else me_Timestamp (h ! y) < me_Timestamp (h ! x))"

definition searched :: "string list option \<Rightarrow> string \<Rightarrow> bool" where
  "searched tiers t = (case tiers of None \<Rightarrow> True | Some ts \<Rightarrow> t \<in> set ts)"

definition mh_Retrieve ::
    "address_sort \<Rightarrow> (string \<Rightarrow> string) \<Rightarrow> readings \<Rightarrow> string \<Rightarrow> int \<Rightarrow> string list option \<Rightarrow>
     (MemoryHierarchy \<times> entries, nat list) call" where
  "mh_Retrieve srt lower rd query limit tiers =
     and_then (\<lambda>(m, h).
       if searched tiers ''working'' then (wm_Retrieve limit (mh_working m), m, h) else (Ok [], m, h))
     (\<lambda>workingResults. and_then (\<lambda>(m, h).
       case mh_shortTerm m of
         Some s \<Rightarrow>
           if searched tiers ''short_term'' then
             (let (r, s', h') = stm_Retrieve srt rd limit s h in (r, m\<lparr>mh_shortTerm := Some s'\<rparr>, h'))
           else (Ok [], m, h)
       | None \<Rightarrow> (Ok [], m, h))
     (\<lambda>shortResults. and_then (\<lambda>(m, h).
       case mh_longTerm m of
         Some l \<Rightarrow>
           if searched tiers ''long_term'' then
             (let (r, h') = ltm_Retrieve srt lower rd query limit l h in (Ok r, m, h'))
           else (Ok [], m, h)
       | None \<Rightarrow> (Ok [], m, h))
     (\<lambda>longResults (m, h).
       let unique = dedup h [] (workingResults @ shortResults @ longResults)
       in (apply_limit (Some limit) (srt (mh_before h) unique), m, h))))"

definition mh_Delete :: "string \<Rightarrow> MemoryHierarchy \<times> entries \<Rightarrow> MemoryHierarchy \<times> entries" where
  "mh_Delete i mh =
     (let (m, h) = mh in
      (m\<lparr>mh_working := wm_Delete i h (mh_working m),
         mh_shortTerm := map_option (stm_Delete i h) (mh_shortTerm m),
         mh_longTerm := map_option (ltm_Delete i) (mh_longTerm m)\<rparr>, h))"

definition mh_ClearWorking :: "MemoryHierarchy \<Rightarrow> MemoryHierarchy" where
  "mh_ClearWorking m = m\<lparr>mh_working := wm_Clear (mh_working m)\<rparr>"

definition mh_GetStats :: "MemoryHierarchy \<Rightarrow> gmap" where
  "mh_GetStats m =
     (''working'', GMap [(''size'', GInt (int (length (wm_messages (mh_working m))))),
                         (''capacity'', GInt (wm_maxMessages (mh_working m)))]) #
     (case mh_shortTerm m of None \<Rightarrow> []
      | Some s \<Rightarrow> [(''short_term'', GMap [(''size'', GInt (int (length (stm_messages s)))),
                     (''capacity'', GInt (stm_maxMessages s)), (''ttl_seconds'', GInt (stm_ttl s))])]) @
     (case mh_longTerm m of None \<Rightarrow> []
      | Some l \<Rightarrow> [(''long_term'', GMap [(''size'', GInt (int (length (ltm_storage l)))),
                     (''min_importance'', GFloat (ltm_minImportance l))])])"

section \<open>The adapter to session memories\<close>

record HierarchyConfig =
  hc_WorkingCapacity :: int
  hc_ShortTermCapacity :: int
  hc_ShortTermTTLSeconds :: int
  hc_LongTermMinImportance :: real
  hc_EnableLongTerm :: bool

definition DefaultHierarchyConfig :: HierarchyConfig where
  "DefaultHierarchyConfig =
     \<lparr>hc_WorkingCapacity = 10, hc_ShortTermCapacity = 100, hc_ShortTermTTLSeconds = 3600,
      hc_LongTermMinImportance = 7 / 10, hc_EnableLongTerm = True\<rparr>"

text \<open>After the checks of the configuration none of the constructors of the tiers fails.\<close>

definition NewHierarchyMemory :: "HierarchyConfig \<Rightarrow> MemoryHierarchy outcome" where
  "NewHierarchyMemory config =
     (if hc_WorkingCapacity config < 1 then Err (Errorf ''working capacity must be at least 1'' [] None)
      else if hc_ShortTermCapacity config < 1 then Err (Errorf ''short-term capacity must be at least 1'' [] None)
      else if hc_ShortTermTTLSeconds config < 1 then Err (Errorf ''short-term TTL must be at least 1 second'' [] None)
      else if hc_LongTermMinImportance config < 0 \<or> 1 < hc_LongTermMinImportance config then
        Err (Errorf ''long-term min importance must be between 0.0 and 1.0'' [] None)
      else
        (case (NewWorkingMemory (hc_WorkingCapacity config),
               NewShortTermMemory (hc_ShortTermCapacity config) (hc_ShortTermTTLSeconds config),
               NewLongTermMemory None (hc_LongTermMinImportance config)) of
           (Ok w, Ok s, Ok l) \<Rightarrow>
             Ok (NewMemoryHierarchy w (Some s) (if hc_EnableLongTerm config then Some l else None))
         | (Err e, _, _) \<Rightarrow> Err (Errorf ''failed to create working memory: %w'' [] (Some e))
         | (_, Err e, _) \<Rightarrow> Err (Errorf ''failed to create short-term memory: %w'' [] (Some e))
         | (_, _, Err e) \<Rightarrow> Err (Errorf ''failed to create long-term memory: %w'' [] (Some e))
         | _ \<Rightarrow> Panic []))"

definition defaultImportance :: "message \<Rightarrow> real" where
  "defaultImportance m =
     (case go_get [(''system'', 3 / 10), (''user'', 5 / 10), (''assistant'', 4 / 10), (''tool'', 3 / 10),
                   (''agent'', 4 / 10)] (msg_role m) of
        Some i \<Rightarrow> i
      | None \<Rightarrow> 5 / 10)"

text \<open>\<open>for k, v := range m { combined[k] = v }\<close>; ranging over a nil map does nothing.\<close>

definition copy_into :: "gmap \<Rightarrow> gmap option \<Rightarrow> gmap" where
  "copy_into combined m = fold (\<lambda>(k, v). go_set k v) (map_or_empty m) combined"

definition combined_metadata :: "time_texts \<Rightarrow> string \<Rightarrow> message \<Rightarrow> gmap option \<Rightarrow> gmap" where
  "combined_metadata tt sessionID message metadata =
     copy_into (copy_into
       [(''session_id'', GStr sessionID), (''role'', GStr (msg_role message)),
        (''message_timestamp'', GStr (format_JSON tt (msg_timestamp message)))]
       (msg_metadata message)) metadata"

definition hm_importance :: "message \<Rightarrow> gmap \<Rightarrow> real" where
  "hm_importance message combined =
     (let importance = (case go_get combined ''importance'' of Some (GFloat f) \<Rightarrow> f | _ \<Rightarrow> defaultImportance message);
          importance = (if importance < 0 then 0 else importance)
      in if 1 < importance then 1 else importance)"

definition hm_Store ::
    "address_sort \<Rightarrow> (real \<Rightarrow> string) \<Rightarrow> time_texts \<Rightarrow> string \<Rightarrow> time \<Rightarrow> time \<Rightarrow> string \<Rightarrow> message \<Rightarrow> gmap option \<Rightarrow>
     (MemoryHierarchy \<times> entries, unit) call" where
  "hm_Store srt ff tt uuid now clean sessionID message metadata =
     (let combined = combined_metadata tt sessionID message metadata in
      and_then
        (wrap_err ''failed to store in hierarchy: %w''
          (mh_Store srt uuid now clean (ContentString ff message) (Some combined)
            (hm_importance message combined) sessionID))
        (\<lambda>_. ret ()))"

definition message_time :: "time_texts \<Rightarrow> MemoryEntry \<Rightarrow> time" where
  "message_time tt e =
     (case go_get (me_Metadata e) ''message_timestamp'' of
        Some (GStr s) \<Rightarrow> (case parse_JSON tt s of Some t \<Rightarrow> t | None \<Rightarrow> me_Timestamp e)
      | _ \<Rightarrow> me_Timestamp e)"

definition entryToMessage :: "time_texts \<Rightarrow> MemoryEntry \<Rightarrow> message" where
  "entryToMessage tt e =
     \<lparr>msg_role = (case go_get (me_Metadata e) ''role'' of Some (GStr s) \<Rightarrow> s | _ \<Rightarrow> ''assistant''),
      msg_content = GStr (me_Content e),
      msg_metadata = Some (filter (\<lambda>(k, v). k \<noteq> ''session_id'' \<and> k \<noteq> ''role'' \<and> k \<noteq> ''message_timestamp'') (me_Metadata e)),
      msg_timestamp = message_time tt e\<rparr>"

text \<open>Only a \<open>[]interface{}\<close> counts as tags here.\<close>

definition matchesFilters :: "time_texts \<Rightarrow> MemoryEntry \<Rightarrow> RetrieveOptions \<Rightarrow> bool" where
  "matchesFilters tt e opts \<longleftrightarrow>
     (case ro_ImportanceThreshold opts of None \<Rightarrow> True | Some t \<Rightarrow> \<not> me_Importance e < t) \<and>
     (ro_Tags opts = [] \<or>
      (case go_get (me_Metadata e) ''tags'' of
         Some (GList tags) \<Rightarrow> list_ex (\<lambda>t. GStr t \<in> set tags) (ro_Tags opts)
       | _ \<Rightarrow> False)) \<and>
     (case ro_TimeRange opts of
        None \<Rightarrow> True
      | Some (start, end') \<Rightarrow> \<not> (message_time tt e < start * second \<or> end' * second < message_time tt e))"

definition of_hm_session :: "entries \<Rightarrow> string \<Rightarrow> nat \<Rightarrow> bool" where
  "of_hm_session h sessionID a \<longleftrightarrow> go_get (me_Metadata (h ! a)) ''session_id'' = Some (GStr sessionID)"

fun hm_collect :: "(nat \<Rightarrow> bool) \<Rightarrow> int \<Rightarrow> nat list \<Rightarrow> nat list \<Rightarrow> nat list" where
  "hm_collect P limit [] found = found"
| "hm_collect P limit (a # as) found =
     (if P a then
        let found = found @ [a] in if limit \<le> int (length found) then found else hm_collect P limit as found
      else hm_collect P limit as found)"

definition hm_Retrieve ::
    "address_sort \<Rightarrow> (string \<Rightarrow> string) \<Rightarrow> time_texts \<Rightarrow> readings \<Rightarrow> string \<Rightarrow> RetrieveOptions \<Rightarrow>
     (MemoryHierarchy \<times> entries, message list) call" where
  "hm_Retrieve srt lower tt rd sessionID opts =
     (let limit = (case ro_Limit opts of None \<Rightarrow> 10 | Some n \<Rightarrow> n) in
      and_then
        (wrap_err ''failed to retrieve from hierarchy: %w'' (mh_Retrieve srt lower rd (ro_Query opts) (limit * 3) None))
        (\<lambda>entries (m, h).
           (Ok (map (\<lambda>a. entryToMessage tt (h ! a))
              (hm_collect (\<lambda>a. of_hm_session h sessionID a \<and> matchesFilters tt (h ! a) opts) limit entries [])), m, h)))"

definition hm_Summarize ::
    "address_sort \<Rightarrow> (string \<Rightarrow> string) \<Rightarrow> (real \<Rightarrow> string) \<Rightarrow> time_texts \<Rightarrow> readings \<Rightarrow> string \<Rightarrow>
     (MemoryHierarchy \<times> entries, message) call" where
  "hm_Summarize srt lower ff tt rd sessionID =
     and_then
       (wrap_err ''failed to retrieve messages: %w'' (hm_Retrieve srt lower tt rd sessionID (with_limit 1000)))
       (\<lambda>messages. ret (system_message
          (if messages = [] then ''No messages in session.'' else summary_text ff messages)))"

definition hm_Clear ::
    "address_sort \<Rightarrow> (string \<Rightarrow> string) \<Rightarrow> readings \<Rightarrow> string \<Rightarrow> (MemoryHierarchy \<times> entries, unit) call" where
  "hm_Clear srt lower rd sessionID =
     and_then (wrap_err ''failed to retrieve entries: %w'' (mh_Retrieve srt lower rd [] 9999 None))
       (\<lambda>found (m, h).
          (Ok (), fold (\<lambda>a mh. mh_Delete (me_ID (h ! a)) mh) (filter (of_hm_session h sessionID) found) (m, h)))"

section \<open>The contract of a tier\<close>

text \<open>Retrieving changes nothing of an entry but its access data.\<close>

definition unread :: "MemoryEntry \<Rightarrow> MemoryEntry" where
  "unread e = e\<lparr>me_AccessCount := 0, me_LastAccessed := None\<rparr>"

definition same_entries :: "entries \<Rightarrow> entries \<Rightarrow> bool" where
  "same_entries h h' \<longleftrightarrow> map unread h' = map unread h"

lemma same_entries_refl [simp]: "same_entries h h"
  by (simp add: same_entries_def)

lemma same_entries_trans: "same_entries h h1 \<Longrightarrow> same_entries h1 h2 \<Longrightarrow> same_entries h h2"
  by (simp add: same_entries_def)

lemma same_entries_length: "same_entries h h' \<Longrightarrow> length h' = length h"
  unfolding same_entries_def by (metis length_map)

lemma same_entries_fields:
  assumes "same_entries h h'" and "a < length h"
  shows "me_ID (h' ! a) = me_ID (h ! a)" "me_Importance (h' ! a) = me_Importance (h ! a)"
    "me_Timestamp (h' ! a) = me_Timestamp (h ! a)" "me_Metadata (h' ! a) = me_Metadata (h ! a)"
    "me_Content (h' ! a) = me_Content (h ! a)" "me_SessionID (h' ! a) = me_SessionID (h ! a)"
proof -
  have "unread (h' ! a) = unread (h ! a)"
    using assms same_entries_length [OF assms(1)] unfolding same_entries_def by (metis nth_map)
  then show "me_ID (h' ! a) = me_ID (h ! a)" "me_Importance (h' ! a) = me_Importance (h ! a)"
    "me_Timestamp (h' ! a) = me_Timestamp (h ! a)" "me_Metadata (h' ! a) = me_Metadata (h ! a)"
    "me_Content (h' ! a) = me_Content (h ! a)" "me_SessionID (h' ! a) = me_SessionID (h ! a)"
    by (metis MemoryEntry.select_convs unread_def MemoryEntry.simps MemoryEntry.surjective MemoryEntry.update_convs)+
qed

lemma same_entries_touch: "same_entries h (touch now a h)"
proof (cases "a < length h")
  case True
  then show ?thesis
    by (auto simp: same_entries_def touch_def map_update unread_def intro!: list_update_same_conv [THEN iffD2])
qed (simp add: touch_def not_less list_update_beyond)

lemma same_entries_touch_all: "same_entries h (touch_all now as h)"
  unfolding touch_all_def
  by (induction as arbitrary: h) (auto intro: same_entries_trans same_entries_touch)

locale memory_tier =
  fixes tier_ok :: "'t \<Rightarrow> entries \<Rightarrow> bool"
    and contents :: "'t \<Rightarrow> nat list"
    and store :: "time \<Rightarrow> nat \<Rightarrow> entries \<Rightarrow> 't \<Rightarrow> 't"
    and retrieve :: "readings \<Rightarrow> string \<Rightarrow> int \<Rightarrow> 't \<Rightarrow> entries \<Rightarrow> nat list outcome \<times> 't \<times> entries"
    and delete :: "string \<Rightarrow> entries \<Rightarrow> 't \<Rightarrow> 't"
  assumes bounded: "tier_ok t h \<Longrightarrow> a \<in> set (contents t) \<Longrightarrow> a < length h"
    and store: "tier_ok t h \<Longrightarrow> distinct (map me_ID (h @ [e])) \<Longrightarrow>
      tier_ok (store now (length h) (h @ [e]) t) (h @ [e]) \<and>
      set (contents (store now (length h) (h @ [e]) t)) \<subseteq> insert (length h) (set (contents t))"
    and grow: "tier_ok t h \<Longrightarrow> tier_ok t (h @ [e])"
    and frame: "tier_ok t h \<Longrightarrow> same_entries h h' \<Longrightarrow> tier_ok t h'"
    and retrieve: "tier_ok t h \<Longrightarrow> 0 \<le> limit \<Longrightarrow>
      \<exists>as t' h'. retrieve rd query limit t h = (Ok as, t', h') \<and> tier_ok t' h' \<and> same_entries h h' \<and>
        set as \<subseteq> set (contents t') \<and> set (contents t') \<subseteq> set (contents t) \<and> int (length as) \<le> limit \<and>
        (int (length (contents t)) \<le> limit \<longrightarrow> set as = set (contents t'))"
    and delete: "tier_ok t h \<Longrightarrow> tier_ok (delete i h t) h \<and>
      set (contents (delete i h t)) = {a \<in> set (contents t). me_ID (h ! a) \<noteq> i}"

definition wm_ok :: "WorkingMemory \<Rightarrow> entries \<Rightarrow> bool" where
  "wm_ok w h \<longleftrightarrow> 1 \<le> wm_maxMessages w \<and> int (length (wm_messages w)) \<le> wm_maxMessages w \<and>
     distinct (wm_messages w) \<and> (\<forall>a \<in> set (wm_messages w). a < length h)"

definition stm_ok :: "ShortTermMemory \<Rightarrow> entries \<Rightarrow> bool" where
  "stm_ok s h \<longleftrightarrow> 1 \<le> stm_maxMessages s \<and> int (length (stm_messages s)) \<le> stm_maxMessages s \<and>
     distinct (stm_messages s) \<and> (\<forall>a \<in> set (stm_messages s). a < length h)"

definition ltm_ok :: "LongTermMemory \<Rightarrow> entries \<Rightarrow> bool" where
  "ltm_ok l h \<longleftrightarrow> 0 \<le> ltm_minImportance l \<and> ltm_minImportance l \<le> 1 \<and> go_map_ok (ltm_storage l) \<and>
     (\<forall>(i, a) \<in> set (ltm_storage l). a < length h \<and> me_ID (h ! a) = i \<and> ltm_minImportance l \<le> me_Importance (h ! a))"

definition wm_retrieve_tier where
  "wm_retrieve_tier rd query limit w h = (wm_Retrieve limit w, w :: WorkingMemory, h :: entries)"

definition stm_retrieve_tier where
  "stm_retrieve_tier srt rd query limit s h = stm_Retrieve srt rd limit s h"

definition ltm_retrieve_tier where
  "ltm_retrieve_tier srt lower rd query limit l h =
     (let (r, h') = ltm_Retrieve srt lower rd query limit l h in (Ok r, l, h'))"

lemma wm_Retrieve_ok: "0 \<le> limit \<Longrightarrow> wm_Retrieve limit w = Ok (last_n (nat limit) (wm_messages w))"
  by (auto simp: wm_Retrieve_def last_n_def Let_def nat_diff_distrib)

interpretation working: memory_tier wm_ok wm_messages "\<lambda>now a h. wm_Store a" wm_retrieve_tier wm_Delete
proof (unfold_locales, goal_cases)
  case (2 t h e now)
  then show ?case
    by (auto simp: wm_ok_def wm_Store_def Let_def distinct_tl dest!: in_set_tlD dest: bspec)
next
  case (5 t h limit rd query)
  then show ?case
    by (auto simp: wm_retrieve_tier_def wm_Retrieve_ok last_n_def dest: in_set_dropD)
next
  case (6 t h i)
  then show ?case by (auto simp: wm_ok_def wm_Delete_def length_filter_int)
qed (auto simp: wm_ok_def same_entries_length)

lemma stm_clean_subset:
  assumes "stm_ok s h"
  shows "stm_ok (cleanExpired now h s) h" "set (stm_messages (cleanExpired now h s)) \<subseteq> set (stm_messages s)"
    "length (stm_messages (cleanExpired now h s)) \<le> length (stm_messages s)"
    "stm_maxMessages (cleanExpired now h s) = stm_maxMessages s"
proof -
  show "length (stm_messages (cleanExpired now h s)) \<le> length (stm_messages s)"
    by (simp add: cleanExpired_def)
  then show "stm_ok (cleanExpired now h s) h" using assms by (auto simp: stm_ok_def cleanExpired_def length_filter_int)
qed (auto simp: cleanExpired_def)

lemma stm_frame: "stm_ok s h \<Longrightarrow> length h \<le> length h' \<Longrightarrow> stm_ok s h'"
  by (auto simp: stm_ok_def dest: bspec)

lemma stm_Store_cases:
  fixes srt now h s a
  defines "ms \<equiv> stm_messages (cleanExpired now h s) @ [a]"
  shows "stm_messages (stm_Store srt now a h s) =
    (if stm_maxMessages s < int (length ms) then tl (srt (\<lambda>x y. last_used h x < last_used h y) ms) else ms)"
    and "stm_maxMessages (stm_Store srt now a h s) = stm_maxMessages s"
    and "stm_ttl (stm_Store srt now a h s) = stm_ttl s"
  by (simp_all add: stm_Store_def Let_def ms_def cleanExpired_def)

lemma short_term_tier:
  assumes "sort_slice srt"
  shows "memory_tier stm_ok stm_messages (stm_Store srt) (stm_retrieve_tier srt) stm_Delete"
proof (unfold_locales, goal_cases)
  case (2 t h e now)
  let ?h = "h @ [e]" and ?c = "cleanExpired now (h @ [e]) t"
  have ok: "stm_ok t ?h" by (rule stm_frame [OF 2(1)]) simp
  note c = stm_clean_subset [OF ok, of now]
  let ?ms = "stm_messages ?c @ [length h]"
  have new: "length h \<notin> set (stm_messages ?c)" using 2(1) c(2) by (fastforce simp: stm_ok_def)
  have d: "distinct ?ms" "set ?ms \<subseteq> insert (length h) (set (stm_messages t))" "\<forall>a \<in> set ?ms. a < length ?h"
    using new c by (auto simp: stm_ok_def)
  have len: "int (length ?ms) \<le> stm_maxMessages t + 1" using c(1) c(4) by (simp add: stm_ok_def)
  let ?s = "srt (\<lambda>x y. last_used ?h x < last_used ?h y) ?ms"
  have s: "set (tl ?s) \<subseteq> set ?ms" "distinct (tl ?s)" "length (tl ?s) = length (stm_messages ?c)"
    using sort_slice.set_srt [OF assms] sort_slice.distinct_srt [OF assms] sort_slice.length_srt [OF assms] d(1)
    by (auto simp: distinct_tl dest: in_set_tlD)
  show ?case
    using d s len c(1) c(4) ok stm_Store_cases [of srt now "length h" ?h t] by (auto simp: stm_ok_def)
next
  case (5 t h limit rd query)
  let ?s = "cleanExpired (rd_clean rd) h t"
  let ?l = "srt (\<lambda>x y. me_Timestamp (h ! y) < me_Timestamp (h ! x)) (stm_messages ?s)"
  note c = stm_clean_subset [OF 5(1), of "rd_clean rd"]
  have lim: "apply_limit (Some limit) ?l = Ok (take (nat limit) ?l)" using 5(2) by (simp add: apply_limit_def)
  have "same_entries h (touch_all (rd_short rd) (take (nat limit) ?l) h)" by (rule same_entries_touch_all)
  moreover from this have "stm_ok ?s (touch_all (rd_short rd) (take (nat limit) ?l) h)"
    using stm_frame [OF c(1)] same_entries_length by simp
  ultimately show ?case
    using lim c sort_slice.set_srt [OF assms] sort_slice.length_srt [OF assms] 5(2)
    by (auto simp: stm_retrieve_tier_def stm_Retrieve_def Let_def dest: in_set_takeD)
next
  case (6 t h i)
  then show ?case by (auto simp: stm_ok_def stm_Delete_def length_filter_int)
qed (auto simp: stm_ok_def same_entries_length)

lemma ltm_frame: "ltm_ok l h \<Longrightarrow> same_entries h h' \<Longrightarrow> ltm_ok l h'"
  unfolding ltm_ok_def using same_entries_fields same_entries_length by fastforce

lemma ltm_grow: "ltm_ok l h \<Longrightarrow> ltm_ok l (h @ [e])"
  by (fastforce simp: ltm_ok_def nth_append)

lemma set_go_set: "set (go_set k v m) \<subseteq> insert (k, v) (set m)"
  by (induction m) auto

lemma long_term_tier:
  assumes "sort_slice srt"
  shows "memory_tier ltm_ok (\<lambda>l. map snd (ltm_storage l)) (\<lambda>now. ltm_Store) (ltm_retrieve_tier srt lower) (\<lambda>i h. ltm_Delete i)"
proof (unfold_locales, goal_cases)
  case (1 t h a)
  then show ?case by (auto simp: ltm_ok_def)
next
  case (2 t h e now)
  note sub = set_go_set [of "me_ID e" "length h" "ltm_storage t"]
  show ?case using 2(1) ltm_grow [OF 2(1), of e] subsetD [OF sub]
    by (auto simp: ltm_Store_def ltm_ok_def dest!: subsetD [OF sub]) 
next
  case (3 t h e)
  then show ?case by (rule ltm_grow)
next
  case (4 t h h')
  then show ?case by (rule ltm_frame)
next
  case (5 t h limit rd query)
  let ?sc = "ltm_score lower (rd_since rd) query h"
  let ?l = "srt (\<lambda>x y. ?sc y < ?sc x) (map snd (ltm_storage t))"
  have "same_entries h (touch_all (rd_long rd) (take (nat limit) ?l) h)" by (rule same_entries_touch_all)
  moreover from this have "ltm_ok t (touch_all (rd_long rd) (take (nat limit) ?l) h)" by (rule ltm_frame [OF 5(1)])
  ultimately show ?case
    using sort_slice.set_srt [OF assms] sort_slice.length_srt [OF assms] 5(2)
    by (auto simp: ltm_retrieve_tier_def ltm_Retrieve_def Let_def dest: in_set_takeD)
next
  case (6 t h i)
  have del: "set (go_delete i (ltm_storage t)) = {p \<in> set (ltm_storage t). fst p \<noteq> i}"
    by (auto simp: AList.delete_eq)
  have key: "fst p = me_ID (h ! snd p)" if "p \<in> set (ltm_storage t)" for p
    using 6 that by (auto simp: ltm_ok_def)
  have "ltm_ok (ltm_Delete i t) h" using 6 by (auto simp: ltm_ok_def ltm_Delete_def del)
  moreover have "snd ` {p \<in> set (ltm_storage t). fst p \<noteq> i} = {a \<in> snd ` set (ltm_storage t). me_ID (h ! a) \<noteq> i}"
    using key by auto
  ultimately show ?case by (simp add: ltm_Delete_def del)
qed

interpretation short_term: memory_tier stm_ok stm_messages "stm_Store go_insort" "stm_retrieve_tier go_insort" stm_Delete
  by (rule short_term_tier) (rule insertion.sort_slice_axioms)

interpretation long_term: memory_tier ltm_ok "\<lambda>l. map snd (ltm_storage l)" "\<lambda>now. ltm_Store"
    "ltm_retrieve_tier go_insort lower" "\<lambda>i h. ltm_Delete i" for lower
  by (rule long_term_tier) (rule insertion.sort_slice_axioms)

section \<open>The hierarchy keeps its invariant\<close>

definition mh_ok :: "MemoryHierarchy \<Rightarrow> entries \<Rightarrow> bool" where
  "mh_ok m h \<longleftrightarrow> distinct (map me_ID h) \<and> wm_ok (mh_working m) h \<and>
     (case mh_shortTerm m of None \<Rightarrow> True | Some s \<Rightarrow> stm_ok s h) \<and>
     (case mh_longTerm m of None \<Rightarrow> True | Some l \<Rightarrow> ltm_ok l h)"

definition short_contents :: "MemoryHierarchy \<Rightarrow> nat list" where
  "short_contents m = (case mh_shortTerm m of None \<Rightarrow> [] | Some s \<Rightarrow> stm_messages s)"

definition long_contents :: "MemoryHierarchy \<Rightarrow> nat list" where
  "long_contents m = (case mh_longTerm m of None \<Rightarrow> [] | Some l \<Rightarrow> map snd (ltm_storage l))"

definition mh_contents :: "MemoryHierarchy \<Rightarrow> nat set" where
  "mh_contents m = set (wm_messages (mh_working m)) \<union> set (short_contents m) \<union> set (long_contents m)"

lemmas [inv_defs] = mh_ok_def wm_ok_def stm_ok_def ltm_ok_def

lemma mh_ok_bounded: "mh_ok m h \<Longrightarrow> a \<in> mh_contents m \<Longrightarrow> a < length h"
  by (auto simp: mh_ok_def mh_contents_def short_contents_def long_contents_def wm_ok_def stm_ok_def ltm_ok_def
      split: option.splits)

lemma same_entries_ids: "same_entries h h' \<Longrightarrow> map me_ID h' = map me_ID h"
  by (rule nth_equalityI) (auto simp: same_entries_length same_entries_fields)

lemma mh_ok_frame:
  assumes "mh_ok m h" and "same_entries h h'"
  shows "mh_ok m h'"
  using assms working.frame [of "mh_working m" h h'] stm_frame [of _ h h'] ltm_frame [of _ h h']
    same_entries_ids [OF assms(2)] same_entries_length [OF assms(2)]
  by (auto simp: mh_ok_def split: option.splits)

lemma mh_Store_ok:
  assumes "sort_slice srt" and ok: "mh_ok m h" and "uuid \<notin> me_ID ` set h"
    and run: "mh_Store srt uuid now clean content md imp sid (m, h) = (r, m', h')"
  shows "mh_ok m' h' \<and> mh_contents m' \<subseteq> insert (length h) (mh_contents m) \<and>
    (if imp < 0 \<or> 1 < imp then is_Panic r = False \<and> m' = m \<and> h' = h
     else r = Ok uuid \<and> h' = h @ [CreateMemoryEntry uuid now content md imp sid] \<and>
       length h \<in> mh_contents m')"
proof (cases "imp < 0 \<or> 1 < imp")
  case True
  with run ok show ?thesis by (auto simp: mh_Store_def)
next
  case False
  let ?e = "CreateMemoryEntry uuid now content md imp sid"
  have d: "distinct (map me_ID (h @ [?e]))" using ok assms(3) by (simp add: mh_ok_def CreateMemoryEntry_def)
  have w: "wm_ok (mh_working m) h" and s: "\<And>s. mh_shortTerm m = Some s \<Longrightarrow> stm_ok s h"
    and l: "\<And>l. mh_longTerm m = Some l \<Longrightarrow> ltm_ok l h"
    using ok by (auto simp: mh_ok_def)
  have m': "m' = m\<lparr>mh_working := wm_Store (length h) (mh_working m),
      mh_shortTerm := map_option (stm_Store srt clean (length h) (h @ [?e])) (mh_shortTerm m),
      mh_longTerm := map_option (\<lambda>l. if ltm_minImportance l \<le> imp then ltm_Store (length h) (h @ [?e]) l else l) (mh_longTerm m)\<rparr>"
    and h': "h' = h @ [?e]" and r: "r = Ok uuid"
    using run False by (auto simp: mh_Store_def Let_def)
  note w' = working.store [OF w d]
  note s' = memory_tier.store [OF short_term_tier [OF assms(1)] s d, of _ clean]
  note l' = memory_tier.store [OF long_term_tier [OF assms(1), where lower = id] l d] memory_tier.grow [OF long_term_tier [OF assms(1), where lower = id] l, of _ ?e]
  have "mh_ok m' h'"
    using w' s' l' d by (auto simp: mh_ok_def m' h' split: option.split)
  moreover have "set (short_contents m') \<subseteq> insert (length h) (set (short_contents m))"
    using s' by (cases "mh_shortTerm m") (simp_all add: short_contents_def m')
  moreover have "set (long_contents m') \<subseteq> insert (length h) (set (long_contents m))"
    using l'(1) by (cases "mh_longTerm m") (auto simp: long_contents_def m')
  ultimately have "mh_contents m' \<subseteq> insert (length h) (mh_contents m)" and "mh_ok m' h'"
    using w' by (auto simp: mh_contents_def m')
  moreover have "length h \<in> set (wm_messages (wm_Store (length h) (mh_working m)))"
    using w by (cases "wm_messages (mh_working m)") (auto simp: wm_Store_def Let_def wm_ok_def)
  then have "length h \<in> mh_contents m'" by (simp add: mh_contents_def m')
  with \<open>mh_ok m' h'\<close> \<open>mh_contents m' \<subseteq> _\<close> show ?thesis using False r h' by simp
qed

lemma mh_Delete_ok:
  assumes "mh_ok m h" and "mh_Delete i (m, h) = (m', h')"
  shows "mh_ok m' h' \<and> h' = h \<and> mh_contents m' = {a \<in> mh_contents m. me_ID (h ! a) \<noteq> i}"
proof -
  have w: "wm_ok (mh_working m) h" and s: "\<And>s. mh_shortTerm m = Some s \<Longrightarrow> stm_ok s h"
    and l: "\<And>l. mh_longTerm m = Some l \<Longrightarrow> ltm_ok l h"
    using assms(1) by (auto simp: mh_ok_def)
  note laws = working.delete [OF w, of i] short_term.delete [OF s, of _ i] long_term.delete [OF l, of _ i]
  have m': "m' = m\<lparr>mh_working := wm_Delete i h (mh_working m), mh_shortTerm := map_option (stm_Delete i h) (mh_shortTerm m),
      mh_longTerm := map_option (ltm_Delete i) (mh_longTerm m)\<rparr>" and h': "h' = h"
    using assms(2) by (auto simp: mh_Delete_def)
  have "mh_ok m' h'" using laws assms(1) by (auto simp: mh_ok_def m' h' split: option.split)
  moreover have "mh_contents m' = {a \<in> mh_contents m. me_ID (h ! a) \<noteq> i}"
    using laws unfolding mh_contents_def m' short_contents_def long_contents_def
    by (cases "mh_shortTerm m"; cases "mh_longTerm m") auto
  ultimately show ?thesis using h' by blast
qed

lemma id_inj:
  assumes "distinct (map me_ID h)" and "a < length h" and "b < length h" and "me_ID (h ! a) = me_ID (h ! b)"
  shows "a = b"
  using assms by (metis length_map nth_eq_iff_index_eq nth_map)

lemma dedup_spec:
  assumes "distinct (map me_ID h)" and "\<forall>a \<in> set as. a < length h"
  shows "set (dedup h seen as) = {a \<in> set as. me_ID (h ! a) \<notin> set seen} \<and>
    distinct (map (\<lambda>a. me_ID (h ! a)) (dedup h seen as))"
  using assms(2)
proof (induction as arbitrary: seen)
  case (Cons a as)
  have inj: "b = a" if "b \<in> set as" "me_ID (h ! b) = me_ID (h ! a)" for b
    using id_inj [OF assms(1)] Cons.prems that by auto
  show ?case
  proof (cases "me_ID (h ! a) \<in> set seen")
    case True
    with Cons show ?thesis by auto
  next
    case False
    with Cons.IH [of "me_ID (h ! a) # seen"] Cons.prems inj show ?thesis by auto
  qed
qed simp

text \<open>
  What a retrieval may return: at most \<open>limit\<close> live entries with distinct identifiers, by
  importance and then recency.
\<close>

definition ranked :: "entries \<Rightarrow> nat list \<Rightarrow> bool" where
  "ranked h as \<longleftrightarrow> distinct (map (\<lambda>a. me_ID (h ! a)) as) \<and> sorted_wrt (\<lambda>x y. \<not> mh_before h y x) as"

lemma mh_rank:
  assumes "sort_slice srt" and "distinct (map me_ID h)" and "\<forall>a \<in> set as. a < length h" and "0 \<le> limit"
  shows "\<exists>bs. apply_limit (Some limit) (srt (mh_before h) (dedup h [] as)) = Ok bs \<and> ranked h bs \<and>
    int (length bs) \<le> limit \<and> set bs \<subseteq> set as \<and>
    (\<forall>a \<in> set as. a \<in> set bs \<or> int (length bs) = limit \<and> (\<forall>b \<in> set bs. \<not> mh_before h a b))"
proof -
  let ?u = "dedup h [] as" and ?n = "nat limit"
  let ?s = "srt (mh_before h) ?u"
  note d = dedup_spec [OF assms(2,3), of "[]"]
  have set: "set ?s = set as" using d sort_slice.set_srt [OF assms(1)] by simp
  have sorted: "sorted_wrt (\<lambda>x y. \<not> mh_before h y x) ?s"
    by (rule sort_slice.sorted [OF assms(1)]) (unfold mh_before_def, rule weak_order_lex)
  have perm: "mset (map (\<lambda>a. me_ID (h ! a)) ?s) = mset (map (\<lambda>a. me_ID (h ! a)) ?u)"
    by (simp add: sort_slice.perm [OF assms(1)])
  have dist: "distinct (map (\<lambda>a. me_ID (h ! a)) ?s)" using d mset_eq_imp_distinct_iff [OF perm] by blast
  have split: "take ?n ?s @ drop ?n ?s = ?s" by simp
  have lim: "apply_limit (Some limit) ?s = Ok (take ?n ?s)" using assms(4) by (simp add: apply_limit_def)
  moreover have "ranked h (take ?n ?s)"
    using sorted dist by (auto simp: ranked_def take_map [symmetric] intro: sorted_wrt_take)
  moreover have "a \<in> set (take ?n ?s) \<or> int (length (take ?n ?s)) = limit \<and> (\<forall>b \<in> set (take ?n ?s). \<not> mh_before h a b)"
    if "a \<in> set as" for a
  proof (cases "a \<in> set (take ?n ?s)")
    case False
    then have a: "a \<in> set (drop ?n ?s)" using that set split by (metis Un_iff set_append)
    then have "?n < length ?s" by (metis drop_eq_Nil2 empty_iff empty_set not_le)
    moreover have "\<not> mh_before h a b" if "b \<in> set (take ?n ?s)" for b
      using sorted a that by (metis sorted_wrt_append split)
    ultimately show ?thesis using assms(4) by simp
  qed simp
  ultimately show ?thesis using set assms(4) by (auto dest: in_set_takeD)
qed

lemma mh_ok_distinct:
  assumes "mh_ok m h"
  shows "distinct (wm_messages (mh_working m))" "distinct (short_contents m)" "distinct (long_contents m)"
proof -
  show "distinct (wm_messages (mh_working m))" using assms by (simp add: mh_ok_def wm_ok_def)
  show "distinct (short_contents m)"
    using assms by (cases "mh_shortTerm m") (auto simp: mh_ok_def short_contents_def stm_ok_def)
  show "distinct (long_contents m)"
  proof (cases "mh_longTerm m")
    case (Some l)
    then have ok: "ltm_ok l h" using assms by (simp add: mh_ok_def)
    have key: "map (\<lambda>p. me_ID (h ! snd p)) (ltm_storage l) = map fst (ltm_storage l)"
      using ok by (auto simp: ltm_ok_def)
    have "distinct (map (\<lambda>p. me_ID (h ! snd p)) (ltm_storage l))"
      unfolding key using ok by (simp add: ltm_ok_def go_map_ok_def)
    then have "distinct (map snd (ltm_storage l))" by (auto simp: distinct_map inj_on_def)
    with Some show ?thesis by (simp add: long_contents_def)
  qed (simp add: long_contents_def)
qed

lemma searched_None: "searched None t = True"
  by (simp add: searched_def)

text \<open>The configured sizes, which no operation changes.\<close>

definition mh_config :: "MemoryHierarchy \<Rightarrow> int \<times> (int \<times> duration) option \<times> real option" where
  "mh_config m =
     (wm_maxMessages (mh_working m), map_option (\<lambda>s. (stm_maxMessages s, stm_ttl s)) (mh_shortTerm m),
      map_option ltm_minImportance (mh_longTerm m))"

lemma mh_short_step:
  assumes "sort_slice srt" and ok: "mh_ok m h" and lim: "0 \<le> limit"
  shows "\<exists>ss m1 h1. (case mh_shortTerm m of
         Some s \<Rightarrow>
           if searched tiers ''short_term'' then
             (let (r, s', h') = stm_Retrieve srt rd limit s h in (r, m\<lparr>mh_shortTerm := Some s'\<rparr>, h'))
           else (Ok [], m, h)
       | None \<Rightarrow> (Ok [], m, h)) = (Ok ss, m1, h1) \<and>
    mh_ok m1 h1 \<and> same_entries h h1 \<and> mh_working m1 = mh_working m \<and> mh_longTerm m1 = mh_longTerm m \<and>
    set ss \<subseteq> set (short_contents m1) \<and> set (short_contents m1) \<subseteq> set (short_contents m) \<and>
    mh_config m1 = mh_config m \<and>
    (tiers = None \<longrightarrow> int (length (short_contents m)) \<le> limit \<longrightarrow> set ss = set (short_contents m1))"
proof (cases "mh_shortTerm m")
  case None
  then show ?thesis using ok by (simp add: short_contents_def)
next
  case (Some s)
  show ?thesis
  proof (cases "searched tiers ''short_term''")
    case False
    then have "tiers \<noteq> None" by (cases tiers) (auto simp: searched_def)
    with False Some ok show ?thesis by auto
  next
    case True
    have "stm_ok s h" using ok Some by (simp add: mh_ok_def)
    from memory_tier.retrieve [OF short_term_tier [OF assms(1)] this lim, of rd "[]"]
    obtain as s' h' where r: "stm_Retrieve srt rd limit s h = (Ok as, s', h')" "stm_ok s' h'" "same_entries h h'"
      "set as \<subseteq> set (stm_messages s')" "set (stm_messages s') \<subseteq> set (stm_messages s)"
      "int (length (stm_messages s)) \<le> limit \<Longrightarrow> set as = set (stm_messages s')"
      by (auto simp: stm_retrieve_tier_def)
    have "mh_ok (m\<lparr>mh_shortTerm := Some s'\<rparr>) h'"
      using mh_ok_frame [OF ok r(3)] r(2) by (simp add: mh_ok_def split: option.split)
    moreover have "stm_maxMessages s' = stm_maxMessages s" "stm_ttl s' = stm_ttl s"
      using r(1) lim by (auto simp: stm_Retrieve_def Let_def apply_limit_def cleanExpired_def split: if_splits)
    ultimately show ?thesis using True Some r by (auto simp: short_contents_def mh_config_def)
  qed
qed

lemma mh_long_step:
  assumes "sort_slice srt" and ok: "mh_ok m h" and lim: "0 \<le> limit"
  shows "\<exists>ls h1. (case mh_longTerm m of
         Some l \<Rightarrow>
           if searched tiers ''long_term'' then
             (let (r, h') = ltm_Retrieve srt lower rd query limit l h in (Ok r, m, h'))
           else (Ok [], m, h)
       | None \<Rightarrow> (Ok [], m, h)) = (Ok ls, m, h1) \<and> same_entries h h1 \<and> set ls \<subseteq> set (long_contents m) \<and>
    (tiers = None \<longrightarrow> int (length (long_contents m)) \<le> limit \<longrightarrow> set ls = set (long_contents m))"
proof (cases "mh_longTerm m")
  case None
  then show ?thesis by (simp add: long_contents_def)
next
  case (Some l)
  show ?thesis
  proof (cases "searched tiers ''long_term''")
    case False
    then have "tiers \<noteq> None" by (cases tiers) (auto simp: searched_def)
    with False Some show ?thesis by auto
  next
    case True
    have "ltm_ok l h" using ok Some by (simp add: mh_ok_def)
    from memory_tier.retrieve [OF long_term_tier [OF assms(1), where lower = lower] this lim, of rd query]
    obtain as h' where "ltm_Retrieve srt lower rd query limit l h = (as, h')" "same_entries h h'"
      "set as \<subseteq> set (long_contents m)" "int (length (long_contents m)) \<le> limit \<Longrightarrow> set as = set (long_contents m)"
      using Some by (auto simp: ltm_retrieve_tier_def long_contents_def split: prod.splits)
    with True Some show ?thesis by auto
  qed
qed

lemma mh_Retrieve_spec:
  assumes "sort_slice srt" and ok: "mh_ok m h" and lim: "0 \<le> limit"
  shows "\<exists>as m' h'. mh_Retrieve srt lower rd query limit tiers (m, h) = (Ok as, m', h') \<and> mh_ok m' h' \<and>
    same_entries h h' \<and> mh_contents m' \<subseteq> mh_contents m \<and> set as \<subseteq> mh_contents m' \<and>
    ranked h' as \<and> int (length as) \<le> limit \<and> mh_config m' = mh_config m \<and>
    (tiers = None \<longrightarrow> int (length (wm_messages (mh_working m))) \<le> limit \<longrightarrow> int (length (short_contents m)) \<le> limit \<longrightarrow>
     int (length (long_contents m)) \<le> limit \<longrightarrow>
     (\<forall>a \<in> mh_contents m'. a \<in> set as \<or> int (length as) = limit \<and> (\<forall>b \<in> set as. \<not> mh_before h' a b)))"
proof -
  let ?w = "if searched tiers ''working'' then last_n (nat limit) (wm_messages (mh_working m)) else []"
  have w: "(if searched tiers ''working'' then (wm_Retrieve limit (mh_working m), m, h) else (Ok [], m, h)) = (Ok ?w, m, h)"
    by (simp add: wm_Retrieve_ok [OF lim])
  have ws: "set ?w \<subseteq> set (wm_messages (mh_working m))" by (auto simp: last_n_def dest: in_set_dropD)
  obtain ss m1 h1 where s: "(case mh_shortTerm m of
         Some s \<Rightarrow>
           if searched tiers ''short_term'' then
             (let (r, s', h') = stm_Retrieve srt rd limit s h in (r, m\<lparr>mh_shortTerm := Some s'\<rparr>, h'))
           else (Ok [], m, h)
       | None \<Rightarrow> (Ok [], m, h)) = (Ok ss, m1, h1)"
    and ok1: "mh_ok m1 h1" "same_entries h h1" "mh_working m1 = mh_working m" "mh_longTerm m1 = mh_longTerm m"
      "set ss \<subseteq> set (short_contents m1)" "set (short_contents m1) \<subseteq> set (short_contents m)"
      "mh_config m1 = mh_config m"
      "tiers = None \<Longrightarrow> int (length (short_contents m)) \<le> limit \<Longrightarrow> set ss = set (short_contents m1)"
    using mh_short_step [OF assms, of tiers rd] by blast
  have long: "long_contents m1 = long_contents m" using ok1(4) by (simp add: long_contents_def)
  obtain ls h2 where l: "(case mh_longTerm m1 of
         Some l \<Rightarrow>
           if searched tiers ''long_term'' then
             (let (r, h') = ltm_Retrieve srt lower rd query limit l h1 in (Ok r, m1, h'))
           else (Ok [], m1, h1)
       | None \<Rightarrow> (Ok [], m1, h1)) = (Ok ls, m1, h2)"
    and ok2: "same_entries h1 h2" "set ls \<subseteq> set (long_contents m1)"
      "tiers = None \<Longrightarrow> int (length (long_contents m)) \<le> limit \<Longrightarrow> set ls = set (long_contents m1)"
    using mh_long_step [OF assms(1) ok1(1) lim, of tiers lower rd query] unfolding long by blast
  have mok: "mh_ok m1 h2" by (rule mh_ok_frame [OF ok1(1) ok2(1)])
  have sub: "set (?w @ ss @ ls) \<subseteq> mh_contents m1"
    using ws ok1(3,5) ok2(2) by (auto simp: mh_contents_def)
  have "\<forall>a \<in> set (?w @ ss @ ls). a < length h2" using sub mh_ok_bounded [OF mok] by blast
  then obtain bs where bs: "apply_limit (Some limit) (srt (mh_before h2) (dedup h2 [] (?w @ ss @ ls))) = Ok bs"
    "ranked h2 bs" "int (length bs) \<le> limit" "set bs \<subseteq> set (?w @ ss @ ls)"
    "\<And>a. a \<in> set (?w @ ss @ ls) \<Longrightarrow> a \<in> set bs \<or> int (length bs) = limit \<and> (\<forall>b \<in> set bs. \<not> mh_before h2 a b)"
    using mh_rank [OF assms(1) _ _ lim, of h2 "?w @ ss @ ls"] mok by (auto simp: mh_ok_def)
  have run: "mh_Retrieve srt lower rd query limit tiers (m, h) = (Ok bs, m1, h2)"
    unfolding mh_Retrieve_def using w s l bs(1) by (simp add: and_then_def)
  have full: "set (?w @ ss @ ls) = mh_contents m1"
    if "tiers = None" "int (length (wm_messages (mh_working m))) \<le> limit" "int (length (short_contents m)) \<le> limit"
      "int (length (long_contents m)) \<le> limit"
    using that ok1 ok2 lim by (simp add: mh_contents_def last_n_def Un_assoc searched_None)
  have "mh_contents m1 \<subseteq> mh_contents m"
    using ok1(3,4,6) by (auto simp: mh_contents_def long_contents_def)
  moreover have "set bs \<subseteq> mh_contents m1" using bs(4) sub by (rule order_trans)
  moreover have "tiers = None \<longrightarrow> int (length (wm_messages (mh_working m))) \<le> limit \<longrightarrow>
      int (length (short_contents m)) \<le> limit \<longrightarrow> int (length (long_contents m)) \<le> limit \<longrightarrow>
      (\<forall>a \<in> mh_contents m1. a \<in> set bs \<or> int (length bs) = limit \<and> (\<forall>b \<in> set bs. \<not> mh_before h2 a b))"
    using full bs(5) by blast
  ultimately show ?thesis
    using run mok bs(2,3) ok1(7) same_entries_trans [OF ok1(2) ok2(1)] by (intro exI conjI)
qed

section \<open>Runs of the hierarchy\<close>

text \<open>
  The operations in any order, with identifiers that are not in use (\<open>uuid.New()\<close>) and limits
  that are not negative.
\<close>

inductive mh_step ::
    "address_sort \<Rightarrow> (string \<Rightarrow> string) \<Rightarrow> MemoryHierarchy \<times> entries \<Rightarrow> MemoryHierarchy \<times> entries \<Rightarrow> bool"
  for srt lower where
  step_store: "uuid \<notin> me_ID ` set h \<Longrightarrow>
     mh_Store srt uuid now clean content md imp sid (m, h) = (r, s') \<Longrightarrow> mh_step srt lower (m, h) s'"
| step_retrieve: "0 \<le> limit \<Longrightarrow>
     mh_Retrieve srt lower rd query limit tiers (m, h) = (r, s') \<Longrightarrow> mh_step srt lower (m, h) s'"
| step_delete: "mh_Delete i (m, h) = s' \<Longrightarrow> mh_step srt lower (m, h) s'"
| step_clear: "mh_step srt lower (m, h) (mh_ClearWorking m, h)"

definition mh_init :: "HierarchyConfig \<Rightarrow> MemoryHierarchy \<times> entries \<Rightarrow> bool" where
  "mh_init config s \<longleftrightarrow> NewHierarchyMemory config = Ok (fst s) \<and> snd s = []"

definition config_of :: "HierarchyConfig \<Rightarrow> int \<times> (int \<times> duration) option \<times> real option" where
  "config_of c =
     (hc_WorkingCapacity c, Some (hc_ShortTermCapacity c, signed_take_bit 63 (hc_ShortTermTTLSeconds c * second)),
      if hc_EnableLongTerm c then Some (hc_LongTermMinImportance c) else None)"

definition mh_inv :: "HierarchyConfig \<Rightarrow> MemoryHierarchy \<times> entries \<Rightarrow> bool" where
  "mh_inv config s \<longleftrightarrow> mh_ok (fst s) (snd s) \<and> mh_config (fst s) = config_of config"

lemma NewHierarchyMemory_inv: "NewHierarchyMemory config = Ok m \<Longrightarrow> mh_inv config (m, [])"
  by (auto simp: mh_inv_def NewHierarchyMemory_def NewWorkingMemory_def NewShortTermMemory_def
      NewLongTermMemory_def NewMemoryHierarchy_def mh_ok_def wm_ok_def stm_ok_def ltm_ok_def mh_config_def
      config_of_def second_def split: if_splits)

lemma mh_init_inv: "mh_init config s \<Longrightarrow> mh_inv config s"
  using NewHierarchyMemory_inv [of config "fst s"] by (cases s) (simp add: mh_init_def)

lemma mh_Store_config:
  "mh_Store srt uuid now clean content md imp sid (m, h) = (r, m', h') \<Longrightarrow> mh_config m' = mh_config m"
  by (cases "mh_shortTerm m"; cases "mh_longTerm m")
    (auto simp: mh_Store_def mh_config_def Let_def wm_Store_def stm_Store_cases ltm_Store_def split: if_splits)

lemma mh_step_inv:
  assumes "sort_slice srt" and inv: "mh_inv config s" and "mh_step srt lower s s'"
  shows "mh_inv config s'"
  using assms(3)
proof cases
  case (step_store uuid h now clean content md imp sid m r)
  obtain m' h' where s': "s' = (m', h')" by force
  show ?thesis
    using mh_Store_ok [OF assms(1) _ step_store(2) step_store(3) [unfolded s']] inv mh_Store_config [OF step_store(3) [unfolded s']]
    by (simp add: mh_inv_def step_store(1) s')
next
  case (step_retrieve limit rd query tiers m h r)
  then show ?thesis
    using mh_Retrieve_spec [OF assms(1), of m h limit lower rd query tiers] inv by (auto simp: mh_inv_def)
next
  case (step_delete i m h)
  obtain m' h' where s': "s' = (m', h')" by force
  have "mh_config m' = mh_config m"
    using step_delete(2) s'
    by (auto simp: mh_Delete_def mh_config_def wm_Delete_def stm_Delete_def ltm_Delete_def option.map_comp comp_def)
  then show ?thesis
    using mh_Delete_ok [of m h i m' h'] step_delete inv s' by (auto simp: mh_inv_def)
next
  case (step_clear m h)
  then show ?thesis
    using inv by (auto simp: mh_inv_def mh_ClearWorking_def wm_Clear_def mh_ok_def wm_ok_def mh_config_def)
qed

interpretation hierarchy: inductive_invariant "mh_init config" "mh_step go_insort lower" "mh_inv config" for config lower
  by unfold_locales (auto intro: mh_init_inv mh_step_inv [OF insertion.sort_slice_axioms])

lemma mh_reach_inv:
  assumes "sort_slice srt" and "reach (mh_init config) (mh_step srt lower) s"
  shows "mh_inv config s"
  using assms(2) by (induction rule: reach.induct) (auto intro: mh_init_inv mh_step_inv [OF assms(1)])

text \<open>
  C30. The tiers stay within what the configuration promises.  In every state reachable from a
  new hierarchy by stores with fresh identifiers, retrievals, deletions and clearings, working
  and short-term memory hold at most their capacities, no tier holds an entry twice,
  long-term memory holds only entries of at least the configured importance, each stored under
  its own identifier as key and under no other, and every pointer leads to an entry.
\<close>

theorem hierarchy_well_formed:
  assumes "sort_slice srt" and "reach (mh_init config) (mh_step srt lower) (m, h)"
  shows "int (length (wm_messages (mh_working m))) \<le> hc_WorkingCapacity config \<and>
    int (length (short_contents m)) \<le> hc_ShortTermCapacity config \<and>
    distinct (wm_messages (mh_working m)) \<and> distinct (short_contents m) \<and> distinct (long_contents m) \<and>
    (\<forall>a \<in> set (long_contents m). hc_LongTermMinImportance config \<le> me_Importance (h ! a)) \<and>
    (\<forall>l. mh_longTerm m = Some l \<longrightarrow> distinct (map fst (ltm_storage l)) \<and>
      (\<forall>(key, a) \<in> set (ltm_storage l). a < length h \<and> key = me_ID (h ! a))) \<and>
    (\<forall>a \<in> mh_contents m. a < length h) \<and> distinct (map me_ID h)"
proof -
  have inv: "mh_ok m h" "mh_config m = config_of config" using mh_reach_inv [OF assms] by (simp_all add: mh_inv_def)
  have "\<forall>a \<in> set (long_contents m). hc_LongTermMinImportance config \<le> me_Importance (h ! a)"
    using inv by (cases "mh_longTerm m")
      (auto simp: mh_ok_def mh_config_def config_of_def long_contents_def ltm_ok_def split: if_splits)
  moreover have "distinct (map fst (ltm_storage l)) \<and> (\<forall>(key, a) \<in> set (ltm_storage l). a < length h \<and> key = me_ID (h ! a))"
    if "mh_longTerm m = Some l" for l
    using inv(1) that by (auto simp: mh_ok_def ltm_ok_def go_map_ok_def)
  moreover have "int (length (short_contents m)) \<le> hc_ShortTermCapacity config"
    using inv by (cases "mh_shortTerm m") (auto simp: mh_ok_def mh_config_def config_of_def short_contents_def stm_ok_def)
  moreover have "int (length (wm_messages (mh_working m))) \<le> hc_WorkingCapacity config"
    using inv by (auto simp: mh_ok_def mh_config_def config_of_def wm_ok_def)
  ultimately show ?thesis using inv(1) mh_ok_distinct [OF inv(1)] mh_ok_bounded [OF inv(1)] by (auto simp: mh_ok_def)
qed

text \<open>The hierarchy of the default configuration.\<close>

definition default_hierarchy :: MemoryHierarchy where
  "default_hierarchy =
     \<lparr>mh_working = \<lparr>wm_maxMessages = 10, wm_messages = []\<rparr>,
      mh_shortTerm = Some \<lparr>stm_maxMessages = 100, stm_ttl = 3600 * second, stm_messages = []\<rparr>,
      mh_longTerm = Some \<lparr>ltm_storage = [], ltm_minImportance = 7 / 10\<rparr>\<rparr>"

lemma mh_init_default: "mh_init DefaultHierarchyConfig (default_hierarchy, [])"
  by (simp add: second_def signed_take_bit_int_eq_self mh_init_def DefaultHierarchyConfig_def NewHierarchyMemory_def NewWorkingMemory_def
      NewShortTermMemory_def NewLongTermMemory_def NewMemoryHierarchy_def default_hierarchy_def)

lemma mh_reach_default: "reach (mh_init DefaultHierarchyConfig) step (default_hierarchy, [])"
  by (rule reach_init) (rule mh_init_default)

theorem hierarchy_well_formed_witness:
  "let (r, m, h) = mh_Store go_insort ''i'' 0 0 ''c'' None (9 / 10) ''s'' (default_hierarchy, [])
   in int (length (wm_messages (mh_working m))) \<le> 10 \<and> distinct (long_contents m)"
  (is "let (r, m, h) = ?run in _")
proof -
  obtain r m h where run: "?run = (r, m, h)" by (metis prod.exhaust)
  have "mh_step go_insort id (default_hierarchy, []) (m, h)" by (rule step_store [OF _ run]) simp
  then have "reach (mh_init DefaultHierarchyConfig) (mh_step go_insort id) (m, h)"
    by (rule reach_step [rotated]) (rule mh_reach_default)
  from hierarchy_well_formed [OF insertion.sort_slice_axioms this] show ?thesis
    using run by (simp add: DefaultHierarchyConfig_def)
qed

text \<open>
  What a search over all tiers returns.  It succeeds for every limit that is not negative
  with at most \<open>limit\<close> entries that some tier holds, none twice, the more important first and
  of equally important ones the more recent; and when no tier holds more than \<open>limit\<close> entries,
  an entry that is left out is beaten by none of them only because \<open>limit\<close> others rank at
  least as high.  Of the entries only the access data change.
\<close>

lemma hierarchy_retrieve_ranked:
  assumes "sort_slice srt" and "reach (mh_init config) (mh_step srt lower) (m, h)" and "0 \<le> limit"
  shows "\<exists>as m' h'. mh_Retrieve srt lower rd query limit None (m, h) = (Ok as, m', h') \<and>
    same_entries h h' \<and> set as \<subseteq> mh_contents m' \<and> mh_contents m' \<subseteq> mh_contents m \<and>
    int (length as) \<le> limit \<and> distinct (map (\<lambda>a. me_ID (h' ! a)) as) \<and>
    sorted_wrt (\<lambda>x y. me_Importance (h' ! y) < me_Importance (h' ! x) \<or>
      me_Importance (h' ! y) = me_Importance (h' ! x) \<and> me_Timestamp (h' ! y) \<le> me_Timestamp (h' ! x)) as \<and>
    (int (length (wm_messages (mh_working m))) \<le> limit \<and> int (length (short_contents m)) \<le> limit \<and>
     int (length (long_contents m)) \<le> limit \<longrightarrow>
     (\<forall>a \<in> mh_contents m' - set as. int (length as) = limit \<and>
        (\<forall>b \<in> set as. me_Importance (h' ! a) \<le> me_Importance (h' ! b))))"
proof -
  have "mh_ok m h" using mh_reach_inv [OF assms(1,2)] by (simp add: mh_inv_def)
  then obtain as m' h' where r: "mh_Retrieve srt lower rd query limit None (m, h) = (Ok as, m', h')"
    "same_entries h h'" "mh_contents m' \<subseteq> mh_contents m" "set as \<subseteq> mh_contents m'" "ranked h' as" "int (length as) \<le> limit"
    "int (length (wm_messages (mh_working m))) \<le> limit \<Longrightarrow> int (length (short_contents m)) \<le> limit \<Longrightarrow>
     int (length (long_contents m)) \<le> limit \<Longrightarrow>
     (\<forall>a \<in> mh_contents m'. a \<in> set as \<or> int (length as) = limit \<and> (\<forall>b \<in> set as. \<not> mh_before h' a b))"
    using mh_Retrieve_spec [OF assms(1) _ assms(3), of m h lower rd query None] by auto
  have le: "me_Importance (h' ! a) \<le> me_Importance (h' ! b)" if "\<not> mh_before h' a b" for a b
    using that by (auto simp: mh_before_def split: if_splits)
  have srt: "sorted_wrt (\<lambda>x y. me_Importance (h' ! y) < me_Importance (h' ! x) \<or>
      me_Importance (h' ! y) = me_Importance (h' ! x) \<and> me_Timestamp (h' ! y) \<le> me_Timestamp (h' ! x)) as"
  proof -
    have "sorted_wrt (\<lambda>x y. \<not> mh_before h' y x) as" using r(5) by (simp add: ranked_def)
    then show ?thesis by (rule sorted_wrt_mono_rel [rotated]) (auto simp: mh_before_def split: if_splits)
  qed
  have "\<forall>a \<in> mh_contents m' - set as. int (length as) = limit \<and>
      (\<forall>b \<in> set as. me_Importance (h' ! a) \<le> me_Importance (h' ! b))"
    if "int (length (wm_messages (mh_working m))) \<le> limit" "int (length (short_contents m)) \<le> limit"
      "int (length (long_contents m)) \<le> limit"
    using r(7) [OF that] le by blast
  with r(1-4,6) srt show ?thesis
    using r(5) by (intro exI [of _ as] exI [of _ m'] exI [of _ h']) (auto simp: ranked_def)
qed

text \<open>
  Short-term memory evicts the least recently used entry: when the entries that have not
  expired fill it, storing removes exactly one, and no entry that stays (the new one
  included) was used before the one that is removed.
\<close>

lemma short_term_evicts_lru:
  assumes "sort_slice srt" and "stm_ok s h" and "a \<notin> set (stm_messages s)"
    and "live = filter (\<lambda>b. now - me_Timestamp (h ! b) < stm_ttl s) (stm_messages s)"
    and "stm_maxMessages s \<le> int (length live)"
  shows "\<exists>v \<in> set (live @ [a]). set (stm_messages (stm_Store srt now a h s)) = set (live @ [a]) - {v} \<and>
    length (stm_messages (stm_Store srt now a h s)) = length live \<and>
    (\<forall>b \<in> set (stm_messages (stm_Store srt now a h s)). last_used h v \<le> last_used h b)"
proof -
  let ?lt = "\<lambda>x y. last_used h x < last_used h y" and ?ms = "live @ [a]"
  have live: "stm_messages (cleanExpired now h s) = live" using assms(4) by (simp add: cleanExpired_def)
  have st: "stm_messages (stm_Store srt now a h s) = tl (srt ?lt ?ms)"
    using assms(5) stm_Store_cases(1) [of srt now a h s] by (simp add: live)
  have "length (srt ?lt ?ms) = Suc (length live)" by (simp add: sort_slice.length_srt [OF assms(1)])
  then obtain v vs where v: "srt ?lt ?ms = v # vs" by (cases "srt ?lt ?ms") auto
  have d: "distinct (v # vs)"
    using assms(2-4) sort_slice.distinct_srt [OF assms(1), of ?lt ?ms] unfolding v by (auto simp: stm_ok_def)
  have set: "set (v # vs) = set ?ms" using sort_slice.set_srt [OF assms(1), of ?lt ?ms] unfolding v .
  have "\<not> ?lt b v" if "b \<in> set ?ms" for b
    by (rule sort_slice.srt_head [OF assms(1) weak_order_key(1) v that])
  then have "\<forall>b \<in> set vs. last_used h v \<le> last_used h b" using set by (metis list.set_intros(2) not_le)
  moreover have "set vs = set ?ms - {v}" using d set by auto
  moreover have "length vs = length live" using v sort_slice.length_srt [OF assms(1), of ?lt ?ms] by simp
  moreover have "v \<in> set ?ms" using set by (metis list.set_intros(1))
  ultimately show ?thesis unfolding st v list.sel by blast
qed

section \<open>Sessions\<close>

text \<open>
  The adapter finds the messages of a session by the metadata key \<open>session_id\<close>.  A caller that
  does not set this key itself keeps the sessions apart.
\<close>

definition no_session_key :: "gmap option \<Rightarrow> bool" where
  "no_session_key md \<longleftrightarrow> ''session_id'' \<notin> fst ` set (map_or_empty md)"

lemma copy_into_get: "k \<notin> fst ` set (map_or_empty m) \<Longrightarrow> go_get (copy_into c m) k = go_get c k"
proof -
  have "go_get (fold (\<lambda>(k, v). go_set k v) kvs c) k = go_get c k" if "k \<notin> fst ` set kvs" for kvs :: gmap and c
    using that by (induction kvs arbitrary: c) auto
  then show "k \<notin> fst ` set (map_or_empty m) \<Longrightarrow> go_get (copy_into c m) k = go_get c k"
    by (simp add: copy_into_def)
qed

lemma combined_session:
  "no_session_key (msg_metadata msg) \<Longrightarrow> no_session_key md \<Longrightarrow>
     go_get (combined_metadata tt sid msg md) ''session_id'' = Some (GStr sid)"
  by (simp add: combined_metadata_def copy_into_get no_session_key_def)

inductive hm_step ::
    "address_sort \<Rightarrow> (string \<Rightarrow> string) \<Rightarrow> time_texts \<Rightarrow> MemoryHierarchy \<times> entries \<Rightarrow> MemoryHierarchy \<times> entries \<Rightarrow> bool"
  for srt lower tt where
  hm_store: "uuid \<notin> me_ID ` set h \<Longrightarrow> no_session_key (msg_metadata msg) \<Longrightarrow> no_session_key md \<Longrightarrow>
     hm_Store srt ff tt uuid now clean sid msg md (m, h) = (r, s') \<Longrightarrow> hm_step srt lower tt (m, h) s'"
| hm_retrieve: "ro_Limit opts \<noteq> None \<Longrightarrow> 0 \<le> the (ro_Limit opts) \<Longrightarrow>
     hm_Retrieve srt lower tt rd sid opts (m, h) = (r, s') \<Longrightarrow> hm_step srt lower tt (m, h) s'"
| hm_clear: "hm_Clear srt lower rd sid (m, h) = (r, s') \<Longrightarrow> hm_step srt lower tt (m, h) s'"

definition hm_inv :: "MemoryHierarchy \<times> entries \<Rightarrow> bool" where
  "hm_inv s \<longleftrightarrow> mh_ok (fst s) (snd s) \<and>
     (\<forall>e \<in> set (snd s). go_get (me_Metadata e) ''session_id'' = Some (GStr (me_SessionID e)))"

lemma hm_inv_frame:
  assumes "hm_inv (m, h)" and "mh_ok m' h'" and "same_entries h h'"
  shows "hm_inv (m', h')"
proof -
  have "go_get (me_Metadata (h' ! a)) ''session_id'' = Some (GStr (me_SessionID (h' ! a)))" if "a < length h'" for a
    using assms(1) same_entries_fields [OF assms(3), of a] same_entries_length [OF assms(3)] that
    by (simp add: hm_inv_def)
  with assms(2) show ?thesis by (auto simp: hm_inv_def in_set_conv_nth)
qed

lemma hm_importance_range: "0 \<le> hm_importance msg md" "hm_importance msg md \<le> 1"
  by (simp_all add: hm_importance_def Let_def)

lemma fold_mh_Delete:
  assumes "mh_ok m h"
  shows "\<exists>m'. fold (\<lambda>a. mh_Delete (me_ID (h ! a))) as (m, h) = (m', h) \<and> mh_ok m' h \<and>
    mh_contents m' = {a \<in> mh_contents m. me_ID (h ! a) \<notin> (\<lambda>a. me_ID (h ! a)) ` set as}"
  using assms
proof (induction as arbitrary: m)
  case (Cons a as)
  obtain m1 where m1: "mh_Delete (me_ID (h ! a)) (m, h) = (m1, h)" "mh_ok m1 h"
    "mh_contents m1 = {b \<in> mh_contents m. me_ID (h ! b) \<noteq> me_ID (h ! a)}"
    using mh_Delete_ok [OF Cons.prems, of "me_ID (h ! a)"] by (metis prod.exhaust)
  from Cons.IH [OF m1(2)] m1 show ?case by auto
qed simp

lemma mh_Retrieve_all:
  assumes "sort_slice srt" and ok: "mh_ok m h" and "0 \<le> limit"
  shows "\<exists>as m' h'. mh_Retrieve srt lower rd query limit None (m, h) = (Ok as, m', h') \<and> mh_ok m' h' \<and>
    same_entries h h' \<and> mh_contents m' \<subseteq> mh_contents m \<and> set as \<subseteq> mh_contents m' \<and> int (length as) \<le> limit \<and>
    (int (card (mh_contents m)) \<le> limit \<longrightarrow> set as = mh_contents m')"
proof -
  obtain as m1 h1 where r: "mh_Retrieve srt lower rd query limit None (m, h) = (Ok as, m1, h1)" "mh_ok m1 h1"
    "same_entries h h1" "mh_contents m1 \<subseteq> mh_contents m" "set as \<subseteq> mh_contents m1" "ranked h1 as" "int (length as) \<le> limit"
    "int (length (wm_messages (mh_working m))) \<le> limit \<Longrightarrow> int (length (short_contents m)) \<le> limit \<Longrightarrow>
     int (length (long_contents m)) \<le> limit \<Longrightarrow>
     (\<forall>a \<in> mh_contents m1. a \<in> set as \<or> int (length as) = limit \<and> (\<forall>b \<in> set as. \<not> mh_before h1 a b))"
    using mh_Retrieve_spec [OF assms, of lower rd query None] by auto
  have fin: "finite (mh_contents m)" by (simp add: mh_contents_def)
  have "mh_contents m1 \<subseteq> set as" if small: "int (card (mh_contents m)) \<le> limit"
  proof
    fix a assume a: "a \<in> mh_contents m1"
    have tier: "int (length xs) \<le> limit" if "distinct xs" "set xs \<subseteq> mh_contents m" for xs
      using that small card_mono [OF fin that(2)] distinct_card [OF that(1)] by simp
    note d = mh_ok_distinct [OF ok]
    have "a \<in> set as \<or> int (length as) = limit"
      using r(8) a tier [OF d(1)] tier [OF d(2)] tier [OF d(3)] by (force simp: mh_contents_def)
    moreover have "set as = mh_contents m" if "int (length as) = limit"
    proof (rule card_subset_eq [OF fin])
      show "set as \<subseteq> mh_contents m" using r(4,5) by blast
      then have "card (set as) \<le> card (mh_contents m)" by (rule card_mono [OF fin])
      moreover have "card (set as) = length as" using r(6) by (auto simp: ranked_def distinct_map distinct_card)
      ultimately show "card (set as) = card (mh_contents m)" using that small by simp
    qed
    ultimately show "a \<in> set as" using a r(4) by blast
  qed
  with r show ?thesis by blast
qed

definition expired :: "readings \<Rightarrow> MemoryHierarchy \<Rightarrow> entries \<Rightarrow> nat \<Rightarrow> bool" where
  "expired rd m h a \<longleftrightarrow> (\<exists>s. mh_shortTerm m = Some s \<and> stm_ttl s \<le> rd_clean rd - me_Timestamp (h ! a))"

lemma mh_Retrieve_keeps:
  assumes "mh_Retrieve srt lower rd query limit tiers (m, h) = (r, m1, h1)" and "a \<in> mh_contents m"
  shows "a \<in> mh_contents m1 \<or> expired rd m h a"
proof -
  have "m1 = m \<or> m1 = m\<lparr>mh_shortTerm := map_option (cleanExpired (rd_clean rd) h) (mh_shortTerm m)\<rparr>"
    using assms(1) by (auto simp: mh_Retrieve_def and_then_def stm_Retrieve_def Let_def
      split: if_splits outcome.splits option.splits prod.splits)
  with assms(2) show ?thesis
    by (cases "mh_shortTerm m") (auto simp: mh_contents_def short_contents_def long_contents_def cleanExpired_def expired_def not_less)
qed

lemma hm_Clear_spec:
  assumes "sort_slice srt" and inv: "hm_inv (m, h)"
  shows "\<exists>m' h'. hm_Clear srt lower rd sid (m, h) = (Ok (), m', h') \<and> hm_inv (m', h') \<and> same_entries h h' \<and>
    mh_contents m' \<subseteq> mh_contents m \<and>
    (\<forall>a \<in> mh_contents m. me_SessionID (h ! a) \<noteq> sid \<longrightarrow> a \<in> mh_contents m' \<or> expired rd m h a) \<and>
    (card (mh_contents m) \<le> 9999 \<longrightarrow> (\<forall>a \<in> mh_contents m'. me_SessionID (h' ! a) \<noteq> sid))"
proof -
  have ok: "mh_ok m h" using inv by (simp add: hm_inv_def)
  obtain as m1 h1 where r: "mh_Retrieve srt lower rd [] 9999 None (m, h) = (Ok as, m1, h1)" "mh_ok m1 h1"
    "same_entries h h1" "mh_contents m1 \<subseteq> mh_contents m" "set as \<subseteq> mh_contents m1"
    "int (card (mh_contents m)) \<le> 9999 \<Longrightarrow> set as = mh_contents m1"
    using mh_Retrieve_all [OF assms(1) ok, of 9999 lower rd "[]"] by auto
  have inv1: "hm_inv (m1, h1)" by (rule hm_inv_frame [OF inv r(2,3)])
  let ?del = "filter (of_hm_session h1 sid) as"
  obtain m' where f: "fold (\<lambda>a. mh_Delete (me_ID (h1 ! a))) ?del (m1, h1) = (m', h1)" "mh_ok m' h1"
    "mh_contents m' = {a \<in> mh_contents m1. me_ID (h1 ! a) \<notin> (\<lambda>a. me_ID (h1 ! a)) ` set ?del}"
    using fold_mh_Delete [OF r(2), of ?del] by blast
  have run: "hm_Clear srt lower rd sid (m, h) = (Ok (), m', h1)"
    using r(1) f(1) by (simp add: hm_Clear_def and_then_def wrap_err_def)
  have lt: "a < length h1" if "a \<in> mh_contents m1" for a using mh_ok_bounded [OF r(2)] that by blast
  have own: "of_hm_session h1 sid a \<longleftrightarrow> me_SessionID (h1 ! a) = sid" if "a \<in> mh_contents m1" for a
    using inv1 lt [OF that] by (auto simp: hm_inv_def of_hm_session_def)
  have keep: "a \<in> mh_contents m'" if "a \<in> mh_contents m1" "me_SessionID (h ! a) \<noteq> sid" for a
  proof -
    have "me_SessionID (h1 ! a) \<noteq> sid"
      using that lt [OF that(1)] same_entries_fields(6) [OF r(3), of a] same_entries_length [OF r(3)] by simp
    moreover have "b = a" if "b \<in> set ?del" "me_ID (h1 ! a) = me_ID (h1 ! b)" for b
      using id_inj [of h1 b a] that r(2,5) lt \<open>a \<in> mh_contents m1\<close> by (auto simp: mh_ok_def)
    ultimately show ?thesis using that(1) own [OF that(1)] f(3) by auto
  qed
  have "me_SessionID (h1 ! a) \<noteq> sid" if "card (mh_contents m) \<le> 9999" "a \<in> mh_contents m'" for a
    using that f(3) r(6) own [of a] by auto
  moreover have "a \<in> mh_contents m' \<or> expired rd m h a" if "a \<in> mh_contents m" "me_SessionID (h ! a) \<noteq> sid" for a
    using mh_Retrieve_keeps [OF r(1) that(1)] keep [OF _ that(2)] by blast
  moreover have "mh_contents m' \<subseteq> mh_contents m" using f(3) r(4) by blast
  ultimately show ?thesis using run r(3) hm_inv_frame [OF inv1 f(2) same_entries_refl] by blast
qed

lemma hm_Store_inv:
  assumes "sort_slice srt" and inv: "hm_inv (m, h)" and "uuid \<notin> me_ID ` set h"
    and "no_session_key (msg_metadata msg)" and "no_session_key md"
    and run: "hm_Store srt ff tt uuid now clean sid msg md (m, h) = (r, m', h')"
  shows "hm_inv (m', h') \<and> r = Ok ()"
proof -
  let ?c = "combined_metadata tt sid msg md"
  let ?i = "hm_importance msg ?c" and ?e = "\<lambda>i. CreateMemoryEntry uuid now (ContentString ff msg) (Some ?c) i sid"
  obtain q m1 h1 where st: "mh_Store srt uuid now clean (ContentString ff msg) (Some ?c) ?i sid (m, h) = (q, m1, h1)"
    by (metis prod.exhaust)
  have ok: "mh_ok m h" using inv by (simp add: hm_inv_def)
  have post: "mh_ok m1 h1" "q = Ok uuid" "h1 = h @ [?e ?i]"
    using mh_Store_ok [OF assms(1) ok assms(3) st] hm_importance_range [of msg ?c] by auto
  have "go_get (me_Metadata (?e ?i)) ''session_id'' = Some (GStr (me_SessionID (?e ?i)))"
    using combined_session [OF assms(4,5)] by (simp add: CreateMemoryEntry_def map_or_empty_def)
  then have "hm_inv (m1, h1)" using inv post(1) by (auto simp: hm_inv_def post(3))
  with run st post(2) show ?thesis by (auto simp: hm_Store_def Let_def and_then_def wrap_err_def ret_simp)
qed

lemma hm_Retrieve_run:
  assumes "sort_slice srt" and inv: "hm_inv (m, h)" and "ro_Limit opts = Some limit" and "0 \<le> limit"
  shows "\<exists>as m' h'. mh_Retrieve srt lower rd (ro_Query opts) (limit * 3) None (m, h) = (Ok as, m', h') \<and>
    hm_Retrieve srt lower tt rd sid opts (m, h) =
      (Ok (map (\<lambda>a. entryToMessage tt (h' ! a))
        (hm_collect (\<lambda>a. of_hm_session h' sid a \<and> matchesFilters tt (h' ! a) opts) limit as [])), m', h') \<and>
    hm_inv (m', h') \<and> same_entries h h' \<and> set as \<subseteq> mh_contents m' \<and> mh_contents m' \<subseteq> mh_contents m \<and>
    int (length as) \<le> limit * 3 \<and> (int (card (mh_contents m)) \<le> limit * 3 \<longrightarrow> set as = mh_contents m')"
proof -
  have ok: "mh_ok m h" using inv by (simp add: hm_inv_def)
  have "0 \<le> limit * 3" using assms(4) by simp
  from mh_Retrieve_all [OF assms(1) ok this, of lower rd "ro_Query opts"]
  obtain as m' h' where r: "mh_Retrieve srt lower rd (ro_Query opts) (limit * 3) None (m, h) = (Ok as, m', h')"
    "mh_ok m' h'" "same_entries h h'" "set as \<subseteq> mh_contents m'" "mh_contents m' \<subseteq> mh_contents m" "int (length as) \<le> limit * 3"
    "int (card (mh_contents m)) \<le> limit * 3 \<longrightarrow> set as = mh_contents m'"
    by blast
  have run: "hm_Retrieve srt lower tt rd sid opts (m, h) =
      (Ok (map (\<lambda>a. entryToMessage tt (h' ! a))
        (hm_collect (\<lambda>a. of_hm_session h' sid a \<and> matchesFilters tt (h' ! a) opts) limit as [])), m', h')"
    using r(1) by (simp add: hm_Retrieve_def assms(3) and_then_def wrap_err_def)
  show ?thesis
    by (intro exI conjI) (rule r(1), rule run, rule hm_inv_frame [OF inv r(2,3)], rule r(3), rule r(4), rule r(5), rule r(6), rule r(7))
qed

lemma hm_step_inv:
  assumes "sort_slice srt" and "hm_inv s" and "hm_step srt lower tt s s'"
  shows "hm_inv s'"
  using assms(3)
proof cases
  case (hm_store uuid h msg md ff now clean sid m r)
  obtain m' h' where s': "s' = (m', h')" by force
  show ?thesis
    using hm_Store_inv [OF assms(1) _ hm_store(2-4) hm_store(5) [unfolded s']] assms(2) by (simp add: hm_store(1) s')
next
  case (hm_retrieve opts rd sid m h r)
  then obtain limit where l: "ro_Limit opts = Some limit" "0 \<le> limit" by auto
  with hm_retrieve assms(2) show ?thesis
    using hm_Retrieve_run [OF assms(1) _ l, of m h lower rd tt sid] by auto
next
  case (hm_clear rd sid m h r)
  then show ?thesis using hm_Clear_spec [OF assms(1), of m h lower rd sid] assms(2) by auto
qed

definition hm_init :: "HierarchyConfig \<Rightarrow> MemoryHierarchy \<times> entries \<Rightarrow> bool" where
  "hm_init = mh_init"

lemma hm_init_inv: "hm_init config s \<Longrightarrow> hm_inv s"
  using mh_init_inv [of config s] by (auto simp: hm_init_def hm_inv_def mh_inv_def mh_init_def)

lemma hm_reach_inv:
  assumes "sort_slice srt" and "reach (hm_init config) (hm_step srt lower tt) s"
  shows "hm_inv s"
  using assms(2) by (induction rule: reach.induct) (auto intro: hm_init_inv hm_step_inv [OF assms(1)])

interpretation hierarchy_sessions: inductive_invariant "hm_init config" "hm_step go_insort lower tt" hm_inv for config lower tt
  by unfold_locales (auto intro: hm_init_inv hm_step_inv [OF insertion.sort_slice_axioms])

lemma hm_collect_filter:
  "int (length found) < limit \<Longrightarrow>
     hm_collect P limit as found = found @ take (nat limit - length found) (filter P as)"
proof (induction as arbitrary: found)
  case (Cons a as)
  show ?case
  proof (cases "limit \<le> int (length (found @ [a]))")
    case True
    then have "nat limit - length found = 1" using Cons.prems by simp
    with True Cons show ?thesis by simp
  next
    case False
    then have "nat limit - length found = Suc (nat limit - length (found @ [a]))" using Cons.prems by simp
    with False Cons.IH [of "found @ [a]"] Cons.IH [of found] Cons.prems show ?thesis by simp
  qed
qed simp

text \<open>
  Sessions are kept apart.  As long as no caller sets the metadata key \<open>session_id\<close>
  itself, retrieving for a session succeeds with at most \<open>limit\<close> messages, each made from an
  entry that the hierarchy holds, that was stored for this session and that passes the
  filters; and when the hierarchy holds at most three times \<open>limit\<close> entries, either \<open>limit\<close>
  messages are returned or every such entry is.
\<close>

lemma hm_retrieve_isolated:
  assumes "sort_slice srt" and "reach (hm_init config) (hm_step srt lower tt) (m, h)"
    and "ro_Limit opts = Some limit" and "0 < limit"
  shows "\<exists>as m' h'. hm_Retrieve srt lower tt rd sid opts (m, h) = (Ok (map (\<lambda>a. entryToMessage tt (h' ! a)) as), m', h') \<and>
    int (length as) \<le> limit \<and>
    (\<forall>a \<in> set as. a \<in> mh_contents m' \<and> me_SessionID (h' ! a) = sid \<and> matchesFilters tt (h' ! a) opts) \<and>
    (int (card (mh_contents m)) \<le> 3 * limit \<longrightarrow> int (length as) = limit \<or>
      set as = {a \<in> mh_contents m'. me_SessionID (h' ! a) = sid \<and> matchesFilters tt (h' ! a) opts})"
proof -
  have "hm_inv (m, h)" by (rule hm_reach_inv [OF assms(1,2)])
  then obtain as m' h' where r: "hm_Retrieve srt lower tt rd sid opts (m, h) =
      (Ok (map (\<lambda>a. entryToMessage tt (h' ! a))
        (hm_collect (\<lambda>a. of_hm_session h' sid a \<and> matchesFilters tt (h' ! a) opts) limit as [])), m', h')"
    "hm_inv (m', h')" "set as \<subseteq> mh_contents m'" "int (card (mh_contents m)) \<le> limit * 3 \<longrightarrow> set as = mh_contents m'"
    using hm_Retrieve_run [OF assms(1) _ assms(3), of m h lower rd tt sid] assms(4) by auto
  let ?P = "\<lambda>a. of_hm_session h' sid a \<and> matchesFilters tt (h' ! a) opts"
  let ?as = "take (nat limit) (filter ?P as)"
  have c: "hm_collect ?P limit as [] = ?as" using hm_collect_filter [of "[]" limit ?P as] assms(4) by simp
  have own: "of_hm_session h' sid a \<longleftrightarrow> me_SessionID (h' ! a) = sid" if "a \<in> mh_contents m'" for a
    using r(2) mh_ok_bounded [of m' h'] that by (auto simp: hm_inv_def of_hm_session_def)
  have "\<forall>a \<in> set ?as. a \<in> mh_contents m' \<and> me_SessionID (h' ! a) = sid \<and> matchesFilters tt (h' ! a) opts"
    using r(3) own by (auto dest!: in_set_takeD)
  moreover have "int (length ?as) = limit \<or> set ?as = {a \<in> mh_contents m'. me_SessionID (h' ! a) = sid \<and> matchesFilters tt (h' ! a) opts}"
    if "int (card (mh_contents m)) \<le> 3 * limit"
  proof (cases "length (filter ?P as) \<le> nat limit")
    case True
    then have "set ?as = {a \<in> set as. ?P a}" by simp
    with r(4) that own show ?thesis by (auto simp: mult.commute)
  qed (use assms(4) in simp)
  moreover have "int (length ?as) \<le> limit" using assms(4) by simp
  ultimately show ?thesis using r(1) [unfolded c] by blast
qed

text \<open>
  Clearing a session.  It succeeds, adds nothing, and when the hierarchy holds at most
  9999 entries no tier keeps an entry of the session; entries of other sessions are deleted by it
  only if they had expired.
\<close>

lemma hm_clear_erases:
  assumes "sort_slice srt" and "reach (hm_init config) (hm_step srt lower tt) (m, h)"
    and "hm_Clear srt lower rd sid (m, h) = (r, m', h')"
  shows "r = Ok () \<and> mh_contents m' \<subseteq> mh_contents m \<and>
    (card (mh_contents m) \<le> 9999 \<longrightarrow> (\<forall>a \<in> mh_contents m'. me_SessionID (h' ! a) \<noteq> sid)) \<and>
    (\<forall>a \<in> mh_contents m - mh_contents m'. me_SessionID (h ! a) = sid \<or>
       (\<exists>s. mh_shortTerm m = Some s \<and> stm_ttl s \<le> rd_clean rd - me_Timestamp (h ! a)))"
  using hm_Clear_spec [OF assms(1) hm_reach_inv [OF assms(1,2)], of lower rd sid] assms(3) by (auto simp: expired_def)

text \<open>A concrete run: messages stored in a new default hierarchy, each at its own time.\<close>

definition at_time :: "time \<Rightarrow> readings" where
  "at_time now = \<lparr>rd_clean = now, rd_short = now, rd_since = (\<lambda>_. now), rd_long = now\<rparr>"

definition user_message :: "string \<Rightarrow> gmap \<Rightarrow> message" where
  "user_message content md = \<lparr>msg_role = ''user'', msg_content = GStr content, msg_metadata = Some md, msg_timestamp = 0\<rparr>"

definition stored_for :: "string \<Rightarrow> message \<Rightarrow> MemoryHierarchy \<times> entries \<Rightarrow> MemoryHierarchy \<times> entries" where
  "stored_for sid msg s = snd (hm_Store go_insort (\<lambda>_. []) unary_times (replicate (length (snd s)) CHR ''i'') 0 0 sid msg None s)"

definition two_sessions :: "MemoryHierarchy \<times> entries" where
  "two_sessions = stored_for ''b'' (user_message ''second'' []) (stored_for ''a'' (user_message ''first'' []) (default_hierarchy, []))"

lemma two_sessions_reach:
  "reach (hm_init DefaultHierarchyConfig) (hm_step go_insort id unary_times) two_sessions"
proof -
  have step: "hm_step go_insort id unary_times s (stored_for sid (user_message c []) s)"
    if "replicate (length (snd s)) CHR ''i'' \<notin> me_ID ` set (snd s)" for s sid c
  proof -
    obtain m h where s: "s = (m, h)" by force
    show ?thesis
      unfolding s stored_for_def
      by (rule hm_store [OF that [unfolded s snd_conv], where md = None])
        (auto simp: no_session_key_def user_message_def map_or_empty_def intro: prod.collapse [symmetric])
  qed
  have "reach (hm_init DefaultHierarchyConfig) (hm_step go_insort id unary_times) (default_hierarchy, [])"
    by (simp add: hm_init_def mh_reach_default)
  then have "reach (hm_init DefaultHierarchyConfig) (hm_step go_insort id unary_times)
      (stored_for ''a'' (user_message ''first'' []) (default_hierarchy, []))"
    by (rule reach_step) (rule step, simp)
  then show ?thesis
    unfolding two_sessions_def by (rule reach_step) (rule step, code_simp)
qed

text \<open>The hierarchy with long-term memory disabled.\<close>

definition two_tiers :: MemoryHierarchy where
  "two_tiers = default_hierarchy\<lparr>mh_longTerm := None\<rparr>"

text \<open>
  The limit of the adapter does not cover the sessions it shares the hierarchy with.  It
  asks the hierarchy for three times the limit and filters afterwards, so three more
  important messages of another session hide the only message of a session from a retrieval
  with limit 1, although the hierarchy holds it.
\<close>

lemma hm_other_sessions_hide_messages:
  "let s = stored_for ''a'' (user_message ''mine'' []) (two_tiers, []);
       s = fold (stored_for ''b'') [user_message ''x'' [(''importance'', GFloat 1)], user_message ''y'' [(''importance'', GFloat 1)],
             user_message ''z'' [(''importance'', GFloat 1)]] s
   in fst (hm_Retrieve go_insort id unary_times (at_time 1) ''a'' (with_limit 1) s) = Ok [] \<and>
      map_outcome (map msg_content) (fst (hm_Retrieve go_insort id unary_times (at_time 1) ''a'' (with_limit 2) s)) = Ok [GStr ''mine'']"
  by code_simp

text \<open>
  A message can put itself into another session: its own metadata key \<open>session_id\<close>
  replaces the session it is stored for, so it is retrieved for the other session and is not
  found, summarized or cleared in its own.
\<close>

lemma hm_session_override:
  "let s = stored_for ''a'' (user_message ''secret'' [(''session_id'', GStr ''b'')]) (two_tiers, []);
       s' = snd (hm_Clear go_insort id (at_time 1) ''a'' s)
   in fst (hm_Retrieve go_insort id unary_times (at_time 1) ''a'' (with_limit 5) s) = Ok [] \<and>
      map_outcome (map msg_content) (fst (hm_Retrieve go_insort id unary_times (at_time 2) ''b'' (with_limit 5) s')) = Ok [GStr ''secret'']"
  by code_simp

end
