(* ===== verification/Batching.thy ===== *)
theory Batching
  imports Message
begin

text \<open>
  The batching decorator (\<open>middleware/batching.go\<close>): callers put requests into a channel, one
  background goroutine collects batches from it, calls the agent on the requests of a batch
  in parallel and sends each its result.

  The decorator is a step relation: a state holds the channel, the point at which the
  background goroutine stands, the requests and the callers; a step is one communication,
  one call of the agent or one tick of the clock, so every interleaving is a run.  A panic
  of the agent in a goroutine ends the program: such a call has no successor state.
\<close>

section \<open>Configuration and metrics\<close>

record BatchingConfig =
  bc_MaxBatchSize :: int
  bc_MaxWaitTime :: duration
  bc_MaxQueueSize :: int

definition DefaultBatchingConfig :: BatchingConfig where
  "DefaultBatchingConfig =
     \<lparr>bc_MaxBatchSize = 10, bc_MaxWaitTime = 100 * millisecond, bc_MaxQueueSize = 1000\<rparr>"

record BatchingMetrics =
  bm_TotalRequests :: int
  bm_TotalBatches :: int
  bm_SuccessfulBatches :: int
  bm_FailedBatches :: int
  bm_PartialBatches :: int
  bm_TotalWaitTime :: duration
  bm_MinBatchSize :: "int option"
  bm_MaxBatchSize :: "int option"

definition NewBatchingMetrics :: BatchingMetrics where
  "NewBatchingMetrics =
     \<lparr>bm_TotalRequests = 0, bm_TotalBatches = 0, bm_SuccessfulBatches = 0, bm_FailedBatches = 0,
      bm_PartialBatches = 0, bm_TotalWaitTime = 0, bm_MinBatchSize = None, bm_MaxBatchSize = None\<rparr>"

definition RecordBatch :: "int \<Rightarrow> int \<Rightarrow> int \<Rightarrow> duration \<Rightarrow> BatchingMetrics \<Rightarrow> BatchingMetrics" where
  "RecordBatch batchSize successes failures totalWait m =
     (let m = m\<lparr>bm_TotalRequests := bm_TotalRequests m + batchSize,
                bm_TotalBatches := bm_TotalBatches m + 1,
                bm_TotalWaitTime := bm_TotalWaitTime m + totalWait,
                bm_MinBatchSize :=
                  (case bm_MinBatchSize m of
                     None \<Rightarrow> Some batchSize
                   | Some k \<Rightarrow> if batchSize < k then Some batchSize else Some k),
                bm_MaxBatchSize :=
                  (case bm_MaxBatchSize m of
                     None \<Rightarrow> Some batchSize
                   | Some k \<Rightarrow> if k < batchSize then Some batchSize else Some k)\<rparr>
      in if failures = 0 then m\<lparr>bm_SuccessfulBatches := bm_SuccessfulBatches m + 1\<rparr>
         else if successes = 0 then m\<lparr>bm_FailedBatches := bm_FailedBatches m + 1\<rparr>
         else m\<lparr>bm_PartialBatches := bm_PartialBatches m + 1\<rparr>)"

definition AvgBatchSize :: "BatchingMetrics \<Rightarrow> real" where
  "AvgBatchSize m =
     (if bm_TotalBatches m = 0 then 0
      else real_of_int (bm_TotalRequests m) / real_of_int (bm_TotalBatches m))"

text \<open>Division of durations truncates towards zero.\<close>

definition AvgWaitTime :: "BatchingMetrics \<Rightarrow> duration" where
  "AvgWaitTime m =
     (if bm_TotalRequests m = 0 then 0
      else go_trunc (real_of_int (bm_TotalWaitTime m) / real_of_int (bm_TotalRequests m)))"

section \<open>Requests, callers and the processor\<close>

text \<open>A request and its result channel, which has room for one result.\<close>

record batchRequest =
  br_message :: "message option"
  br_resultChan :: "reply option"
  br_enqueuedAt :: time

text \<open>A call of \<open>Process\<close>: at its first \<open>select\<close>, at its second, or returned.\<close>

datatype caller = Enqueuing | Waiting | Returned reply

text \<open>Where \<open>processBatch\<close> returns to: the loop of \<open>batchProcessor\<close>, the loop of
  \<open>processPendingBatches\<close>, or the return from it.\<close>

datatype after = ToLoop | ToDrain | ToExit

text \<open>
  The background goroutine: at the \<open>select\<close> of \<open>batchProcessor\<close>; at the first \<open>select\<close> of
  \<open>collectBatch\<close>; in its loop, with the batch so far and the deadline; in the inner loop of
  \<open>processPendingBatches\<close>; in \<open>processBatch\<close>, while the goroutines run (with the total wait
  and the results so far) and while it sends the results (with the number sent, the
  successes and the failures); returned.  Requests are named by their position.
\<close>

datatype processor =
    AtSelect
  | AwaitFirst
  | Collecting "nat list" time
  | Draining "nat list"
  | Running after "nat list" duration "reply option list"
  | Sending after "nat list" duration "reply list" nat int int
  | Exited

text \<open>
  \<open>bt_ctx\<close> is the error of the context of each caller, \<open>None\<close> while it has not ended.
  The last three fields record the history and are read by no operation: the requests in the
  order in which the channel took them, the batches completed, the calls of the agent.
\<close>

record 'w batching =
  bt_queue :: "nat list"
  bt_queueClosed :: bool
  bt_shutdown :: bool
  bt_stopping :: bool
  bt_processor :: processor
  bt_requests :: "batchRequest list"
  bt_callers :: "caller list"
  bt_ctx :: "go_error option list"
  bt_metrics :: BatchingMetrics
  bt_now :: time
  bt_world :: 'w
  bt_accepted :: "nat list"
  bt_batches :: "nat list list"
  bt_answers :: "(nat \<times> reply) list"

text \<open>\<open>NewBatchingDecorator\<close>; \<open>make(chan *batchRequest, n)\<close> panics for a negative \<open>n\<close>.\<close>

definition NewBatchingDecorator :: "BatchingConfig \<Rightarrow> time \<Rightarrow> 'w \<Rightarrow> 'w batching outcome" where
  "NewBatchingDecorator config now w =
     (if bc_MaxQueueSize config < 0 then Panic ''makechan: size out of range''
      else Ok \<lparr>bt_queue = [], bt_queueClosed = False, bt_shutdown = False, bt_stopping = False,
               bt_processor = AtSelect, bt_requests = [], bt_callers = [], bt_ctx = [], bt_metrics = NewBatchingMetrics,
               bt_now = now, bt_world = w, bt_accepted = [], bt_batches = [], bt_answers = []\<rparr>)"

text \<open>Receiving request \<open>i\<close> from the channel; \<open>None\<close> where the goroutine does not receive.\<close>

fun receive :: "BatchingConfig \<Rightarrow> time \<Rightarrow> nat \<Rightarrow> processor \<Rightarrow> processor option" where
  "receive config now i AwaitFirst = Some (Collecting [i] (now + bc_MaxWaitTime config))"
| "receive config now i (Collecting batch deadline) =
     (if int (length batch) < bc_MaxBatchSize config then Some (Collecting (batch @ [i]) deadline) else None)"
| "receive config now i (Draining batch) =
     (if int (length batch) < bc_MaxBatchSize config then Some (Draining (batch @ [i])) else None)"
| "receive config now i _ = None"

text \<open>The beginning of \<open>processBatch\<close>: the total wait, and a goroutine for each request.\<close>

definition start_batch :: "after \<Rightarrow> nat list \<Rightarrow> 'w batching \<Rightarrow> 'w batching" where
  "start_batch af batch s =
     s\<lparr>bt_processor :=
        Running af batch (sum_list (map (\<lambda>i. bt_now s - br_enqueuedAt (bt_requests s ! i)) batch))
          (replicate (length batch) None)\<rparr>"

text \<open>The goroutine with index \<open>k\<close> calls the agent and stores its result.\<close>

definition run_request :: "'w agent \<Rightarrow> nat \<Rightarrow> 'w batching \<Rightarrow> 'w batching" where
  "run_request a k s =
     (case bt_processor s of
        Running af batch wait results \<Rightarrow>
          (let (r, w) = agent_Process a Background (br_message (bt_requests s ! (batch ! k))) (bt_world s) in
           s\<lparr>bt_processor := Running af batch wait (results[k := Some r]), bt_world := w,
             bt_answers := bt_answers s @ [(batch ! k, r)]\<rparr>)
      | _ \<Rightarrow> s)"

text \<open>One round of the loop that sends the results back, and the recording after it.\<close>

definition send_result :: "'w batching \<Rightarrow> 'w batching" where
  "send_result s =
     (case bt_processor s of
        Sending af batch wait results n successes failures \<Rightarrow>
          let i = batch ! n; r = results ! n in
          s\<lparr>bt_requests := (bt_requests s)[i := (bt_requests s ! i)\<lparr>br_resultChan := Some r\<rparr>],
            bt_processor := Sending af batch wait results (n + 1)
              (if is_Ok r then successes + 1 else successes) (if is_Ok r then failures else failures + 1)\<rparr>
      | _ \<Rightarrow> s)"

fun resume :: "after \<Rightarrow> processor" where
  "resume ToLoop = AtSelect"
| "resume ToDrain = Draining []"
| "resume ToExit = Exited"

definition finish_batch :: "'w batching \<Rightarrow> 'w batching" where
  "finish_batch s =
     (case bt_processor s of
        Sending af batch wait results n successes failures \<Rightarrow>
          s\<lparr>bt_metrics := RecordBatch (int (length batch)) successes failures wait (bt_metrics s),
            bt_processor := resume af, bt_batches := bt_batches s @ [batch]\<rparr>
      | _ \<Rightarrow> s)"

text \<open>
  The steps of \<open>batchProcessor\<close>, with \<open>collectBatch\<close>, \<open>processBatch\<close> and
  \<open>processPendingBatches\<close>.  A \<open>select\<close> takes any of its cases that is ready.  Allocating a batch
  panics for a negative size and ends the program.
\<close>

inductive processor_step :: "BatchingConfig \<Rightarrow> 'w agent \<Rightarrow> 'w batching \<Rightarrow> 'w batching \<Rightarrow> bool"
  for config a where
  p_loop: "bt_processor s = AtSelect \<Longrightarrow> \<not> bt_shutdown s \<Longrightarrow> 0 \<le> bc_MaxBatchSize config \<Longrightarrow>
     processor_step config a s (s\<lparr>bt_processor := AwaitFirst\<rparr>)"
| p_shutdown: "bt_processor s = AtSelect \<Longrightarrow> bt_shutdown s \<Longrightarrow> 0 \<le> bc_MaxBatchSize config \<Longrightarrow>
     processor_step config a s (s\<lparr>bt_processor := Draining []\<rparr>)"
| p_receive: "bt_queue s = i # q \<Longrightarrow> receive config (bt_now s) i (bt_processor s) = Some p \<Longrightarrow>
     processor_step config a s (s\<lparr>bt_queue := q, bt_processor := p\<rparr>)"
| p_first_shutdown: "bt_processor s = AwaitFirst \<Longrightarrow> bt_shutdown s \<Longrightarrow>
     processor_step config a s (s\<lparr>bt_processor := AtSelect\<rparr>)"
| p_collected: "bt_processor s = Collecting batch deadline \<Longrightarrow>
     bc_MaxBatchSize config \<le> int (length batch) \<or> deadline \<le> bt_now s \<or> bt_shutdown s \<Longrightarrow>
     processor_step config a s (start_batch ToLoop batch s)"
| p_drained: "bt_processor s = Draining batch \<Longrightarrow> int (length batch) < bc_MaxBatchSize config \<Longrightarrow> bt_queue s = [] \<Longrightarrow>
     processor_step config a s (if batch = [] then s\<lparr>bt_processor := Exited\<rparr> else start_batch ToExit batch s)"
| p_drain_full: "bt_processor s = Draining batch \<Longrightarrow> bc_MaxBatchSize config \<le> int (length batch) \<Longrightarrow>
     processor_step config a s (if batch = [] then s\<lparr>bt_processor := Draining []\<rparr> else start_batch ToDrain batch s)"
| p_run: "bt_processor s = Running af batch wait results \<Longrightarrow> k < length batch \<Longrightarrow> results ! k = None \<Longrightarrow>
     \<not> is_Panic (fst (agent_Process a Background (br_message (bt_requests s ! (batch ! k))) (bt_world s))) \<Longrightarrow>
     processor_step config a s (run_request a k s)"
| p_ran: "bt_processor s = Running af batch wait results \<Longrightarrow> None \<notin> set results \<Longrightarrow>
     processor_step config a s (s\<lparr>bt_processor := Sending af batch wait (map the results) 0 0 0\<rparr>)"
| p_send: "bt_processor s = Sending af batch wait results n su fa \<Longrightarrow> n < length batch \<Longrightarrow>
     br_resultChan (bt_requests s ! (batch ! n)) = None \<Longrightarrow>
     processor_step config a s (send_result s)"
| p_sent: "bt_processor s = Sending af batch wait results n su fa \<Longrightarrow> n = length batch \<Longrightarrow>
     processor_step config a s (finish_batch s)"

text \<open>
  The steps of the callers, of \<open>Shutdown\<close> and of the clock.  A send on the full channel waits; on
  an unbuffered one it is handed to the receiving goroutine; on the closed one it panics.  The context of
  a caller may end at any time; only then does a \<open>select\<close> on it return.
\<close>

definition ctx_errors :: "go_error set" where
  "ctx_errors = {Context_Canceled, Context_DeadlineExceeded}"

inductive caller_step :: "BatchingConfig \<Rightarrow> 'w batching \<Rightarrow> 'w batching \<Rightarrow> bool"
  for config where
  c_call: "caller_step config s
     (s\<lparr>bt_requests := bt_requests s @ [\<lparr>br_message = msg, br_resultChan = None, br_enqueuedAt = bt_now s\<rparr>],
        bt_callers := bt_callers s @ [Enqueuing], bt_ctx := bt_ctx s @ [None]\<rparr>)"
| c_enqueue: "i < length (bt_callers s) \<Longrightarrow> bt_callers s ! i = Enqueuing \<Longrightarrow> \<not> bt_queueClosed s \<Longrightarrow>
     int (length (bt_queue s)) < bc_MaxQueueSize config \<Longrightarrow>
     caller_step config s (s\<lparr>bt_queue := bt_queue s @ [i], bt_accepted := bt_accepted s @ [i],
       bt_callers := (bt_callers s)[i := Waiting]\<rparr>)"
| c_handoff: "i < length (bt_callers s) \<Longrightarrow> bt_callers s ! i = Enqueuing \<Longrightarrow> \<not> bt_queueClosed s \<Longrightarrow>
     bc_MaxQueueSize config = 0 \<Longrightarrow> receive config (bt_now s) i (bt_processor s) = Some p \<Longrightarrow>
     caller_step config s (s\<lparr>bt_processor := p, bt_accepted := bt_accepted s @ [i],
       bt_callers := (bt_callers s)[i := Waiting]\<rparr>)"
| c_closed: "i < length (bt_callers s) \<Longrightarrow> bt_callers s ! i = Enqueuing \<Longrightarrow> bt_queueClosed s \<Longrightarrow>
     caller_step config s (s\<lparr>bt_callers := (bt_callers s)[i := Returned (Panic ''send on closed channel'')]\<rparr>)"
| c_refused: "i < length (bt_callers s) \<Longrightarrow> bt_callers s ! i = Enqueuing \<Longrightarrow> bt_shutdown s \<Longrightarrow>
     caller_step config s (s\<lparr>bt_callers := (bt_callers s)[i :=
       Returned (Err (Errorf ''batching middleware shutting down'' [] None))]\<rparr>)"
| c_ctx_ends: "i < length (bt_ctx s) \<Longrightarrow> bt_ctx s ! i = None \<Longrightarrow> e \<in> ctx_errors \<Longrightarrow>
     caller_step config s (s\<lparr>bt_ctx := (bt_ctx s)[i := Some e]\<rparr>)"
| c_cancelled: "i < length (bt_callers s) \<Longrightarrow> bt_callers s ! i \<in> {Enqueuing, Waiting} \<Longrightarrow> bt_ctx s ! i = Some e \<Longrightarrow>
     caller_step config s (s\<lparr>bt_callers := (bt_callers s)[i := Returned (Err e)]\<rparr>)"
| c_result: "i < length (bt_callers s) \<Longrightarrow> bt_callers s ! i = Waiting \<Longrightarrow> br_resultChan (bt_requests s ! i) = Some r \<Longrightarrow>
     caller_step config s (s\<lparr>bt_callers := (bt_callers s)[i := Returned r],
       bt_requests := (bt_requests s)[i := (bt_requests s ! i)\<lparr>br_resultChan := None\<rparr>]\<rparr>)"
| c_shutdown: "\<not> bt_shutdown s \<Longrightarrow> caller_step config s (s\<lparr>bt_shutdown := True, bt_stopping := True\<rparr>)"
| c_stopped: "bt_stopping s \<Longrightarrow> bt_processor s = Exited \<Longrightarrow>
     caller_step config s (s\<lparr>bt_stopping := False, bt_queueClosed := True\<rparr>)"
| c_tick: "0 \<le> d \<Longrightarrow> caller_step config s (s\<lparr>bt_now := bt_now s + d\<rparr>)"

definition batching_step :: "BatchingConfig \<Rightarrow> 'w agent \<Rightarrow> 'w batching \<Rightarrow> 'w batching \<Rightarrow> bool" where
  "batching_step config a s t \<longleftrightarrow> processor_step config a s t \<or> caller_step config s t"

definition batching_init :: "BatchingConfig \<Rightarrow> 'w batching \<Rightarrow> bool" where
  "batching_init config s \<longleftrightarrow> (\<exists>now w. NewBatchingDecorator config now w = Ok s)"

section \<open>The flow of requests\<close>

fun batch_of :: "processor \<Rightarrow> nat list" where
  "batch_of (Collecting batch _) = batch"
| "batch_of (Draining batch) = batch"
| "batch_of (Running _ batch _ _) = batch"
| "batch_of (Sending _ batch _ _ _ _ _) = batch"
| "batch_of _ = []"

definition size_ok :: "BatchingConfig \<Rightarrow> nat list \<Rightarrow> bool" where
  "size_ok config batch \<longleftrightarrow> batch \<noteq> [] \<and> int (length batch) \<le> max 1 (bc_MaxBatchSize config)"

fun processor_ok :: "BatchingConfig \<Rightarrow> bool \<Rightarrow> processor \<Rightarrow> bool" where
  "processor_ok config shut (Collecting batch _) \<longleftrightarrow> size_ok config batch"
| "processor_ok config shut (Draining batch) \<longleftrightarrow> shut \<and> (batch = [] \<or> size_ok config batch)"
| "processor_ok config shut (Running af batch _ results) \<longleftrightarrow>
     (af \<noteq> ToLoop \<longrightarrow> shut) \<and> size_ok config batch \<and> length results = length batch"
| "processor_ok config shut (Sending af batch _ results n _ _) \<longleftrightarrow>
     (af \<noteq> ToLoop \<longrightarrow> shut) \<and> size_ok config batch \<and> length results = length batch \<and> n \<le> length batch"
| "processor_ok config shut Exited \<longleftrightarrow> shut"
| "processor_ok config shut _ \<longleftrightarrow> True"

text \<open>Which callers the channel has accepted.\<close>

definition accepted_ok :: "nat list \<Rightarrow> caller list \<Rightarrow> bool" where
  "accepted_ok acc callers \<longleftrightarrow> distinct acc \<and>
     (\<forall>i \<in> set acc. i < length callers \<and> callers ! i \<noteq> Enqueuing) \<and>
     (\<forall>i < length callers. callers ! i = Waiting \<longrightarrow> i \<in> set acc)"

lemma accepted_ok_call: "accepted_ok acc callers \<Longrightarrow> accepted_ok acc (callers @ [Enqueuing])"
  by (auto simp: accepted_ok_def nth_append less_Suc_eq)

lemma accepted_ok_accept:
  "accepted_ok acc callers \<Longrightarrow> i < length callers \<Longrightarrow> callers ! i = Enqueuing \<Longrightarrow>
     accepted_ok (acc @ [i]) (callers[i := Waiting])"
  by (auto simp: accepted_ok_def nth_list_update)

lemma accepted_ok_return: "accepted_ok acc callers \<Longrightarrow> accepted_ok acc (callers[i := Returned r])"
  by (cases "i < length callers") (auto simp: accepted_ok_def nth_list_update list_update_beyond split: if_splits)

definition bt_flow :: "BatchingConfig \<Rightarrow> 'w batching \<Rightarrow> bool" where
  "bt_flow config s \<longleftrightarrow>
     bt_accepted s = concat (bt_batches s) @ batch_of (bt_processor s) @ bt_queue s \<and>
     accepted_ok (bt_accepted s) (bt_callers s) \<and> length (bt_requests s) = length (bt_callers s) \<and>
     int (length (bt_queue s)) \<le> bc_MaxQueueSize config \<and>
     (bt_queueClosed s \<longrightarrow> bt_processor s = Exited) \<and> (bt_stopping s \<longrightarrow> bt_shutdown s) \<and>
     processor_ok config (bt_shutdown s) (bt_processor s) \<and> (\<forall>b \<in> set (bt_batches s). size_ok config b)"

lemma bt_flowD:
  assumes "bt_flow config s"
  shows "bt_accepted s = concat (bt_batches s) @ batch_of (bt_processor s) @ bt_queue s"
    "accepted_ok (bt_accepted s) (bt_callers s)" "length (bt_requests s) = length (bt_callers s)"
    "int (length (bt_queue s)) \<le> bc_MaxQueueSize config" "bt_queueClosed s \<Longrightarrow> bt_processor s = Exited"
    "bt_stopping s \<Longrightarrow> bt_shutdown s" "processor_ok config (bt_shutdown s) (bt_processor s)"
    "\<And>b. b \<in> set (bt_batches s) \<Longrightarrow> size_ok config b"
  using assms unfolding bt_flow_def by (elim conjE, (assumption | blast))+

lemma receive_batch:
  assumes "receive config now i p = Some p'" and "processor_ok config shut p"
  shows "batch_of p' = batch_of p @ [i]" "processor_ok config shut p'" "p \<noteq> Exited" "p' \<noteq> Exited"
  using assms by (cases p; auto simp: size_ok_def split: if_splits)+

lemma resume_ok: "(af \<noteq> ToLoop \<longrightarrow> shut) \<Longrightarrow> processor_ok config shut (resume af)" "batch_of (resume af) = []"
  by (cases af; simp)+

lemma processor_ok_mono: "processor_ok config shut p \<Longrightarrow> processor_ok config True p"
  by (cases p) auto

lemma bt_flow_init: "batching_init config s \<Longrightarrow> bt_flow config s"
  by (auto simp: batching_init_def NewBatchingDecorator_def bt_flow_def accepted_ok_def split: if_splits)

lemma bt_flow_processor:
  assumes "bt_flow config s" and "processor_step config a s t"
  shows "bt_flow config t"
  using assms(2)
proof cases
  case (p_receive i q p)
  have ok: "processor_ok config (bt_shutdown s) (bt_processor s)" using assms(1) by (simp add: bt_flow_def)
  show ?thesis using assms(1) p_receive receive_batch [OF p_receive(3) ok] by (auto simp: bt_flow_def)
next
  case (p_sent af batch wait results n su fa)
  then show ?thesis using assms(1) resume_ok(1) [of af "bt_shutdown s" config] resume_ok(2) [of af] by (auto simp: bt_flow_def finish_batch_def)
qed (use assms(1) in \<open>auto simp: bt_flow_def start_batch_def run_request_def send_result_def Let_def split: prod.splits\<close>)

lemma bt_flow_caller:
  assumes "bt_flow config s" and "caller_step config s t"
  shows "bt_flow config t"
  using assms(2)
proof cases
  case (c_handoff i p)
  have ok: "processor_ok config (bt_shutdown s) (bt_processor s)" and "accepted_ok (bt_accepted s) (bt_callers s)"
    and "bt_queue s = []" using assms(1) c_handoff(5) unfolding bt_flow_def by auto
  with c_handoff show ?thesis
    using assms(1) receive_batch [OF c_handoff(6) ok] accepted_ok_accept [of "bt_accepted s" "bt_callers s" i]
    by (auto simp: bt_flow_def)
next
  case c_shutdown
  then show ?thesis using assms(1) by (auto simp: bt_flow_def intro: processor_ok_mono)
qed (use assms(1) in \<open>auto simp: bt_flow_def accepted_ok_call accepted_ok_return dest: accepted_ok_accept\<close>)

lemma bt_flow_step: "bt_flow config s \<Longrightarrow> batching_step config a s t \<Longrightarrow> bt_flow config t"
  unfolding batching_step_def by (blast intro: bt_flow_processor bt_flow_caller)

interpretation batching_flow: inductive_invariant "batching_init config" "batching_step config a" "bt_flow config" for config a
  by unfold_locales (auto intro: bt_flow_init bt_flow_step)

section \<open>Calls and results\<close>

text \<open>The results the processor holds, and the requests whose result it has sent.\<close>

fun ran :: "processor \<Rightarrow> (nat \<times> reply) set" where
  "ran (Running _ batch _ results) = {(batch ! k, r) | k r. k < length batch \<and> results ! k = Some r}"
| "ran (Sending _ batch _ results _ _ _) = {(batch ! k, results ! k) | k. k < length batch}"
| "ran _ = {}"

fun sent :: "processor \<Rightarrow> nat set" where
  "sent (Sending _ batch _ _ n _ _) = set (take n batch)"
| "sent _ = {}"

lemma ran_start: "ran (Running af batch wait (replicate (length batch) None)) = {}"
  by auto

lemma ran_update:
  assumes "length results = length batch" and "k < length batch" and "results ! k = None"
  shows "ran (Running af batch wait (results[k := Some r])) = insert (batch ! k, r) (ran (Running af batch wait results))"
  using assms by (auto simp: nth_list_update)

lemma ran_pending: "distinct batch \<Longrightarrow> k < length batch \<Longrightarrow> results ! k = None \<Longrightarrow>
    batch ! k \<notin> fst ` ran (Running af batch wait results)"
  by (auto simp: nth_eq_iff_index_eq)

lemma ran_all:
  assumes "length results = length batch" and "None \<notin> set results"
  shows "ran (Sending af batch wait (map the results) n su fa) = ran (Running af batch wait results)"
proof -
  have "results ! k = Some (the (results ! k))" if "k < length batch" for k
    using assms that by (metis nth_mem option.collapse)
  with assms(1) show ?thesis by auto
qed

lemma ran_Sending: "fst ` ran (Sending af batch wait results n su fa) = set batch"
  by (force simp: in_set_conv_nth image_iff)

lemma receive_ran: "receive config now i p = Some p' \<Longrightarrow> ran p = {} \<and> ran p' = {} \<and> sent p = {} \<and> sent p' = {}"
  by (cases p) (auto split: if_splits)

lemma resume_ran [simp]: "ran (resume af) = {}" "sent (resume af) = {}"
  by (cases af; simp)+

definition bt_calls :: "'w batching \<Rightarrow> bool" where
  "bt_calls s \<longleftrightarrow> distinct (map fst (bt_answers s)) \<and> ran (bt_processor s) \<subseteq> set (bt_answers s) \<and>
     fst ` set (bt_answers s) = set (concat (bt_batches s)) \<union> fst ` ran (bt_processor s)"

lemma bt_flow_batch:
  assumes "bt_flow config s"
  shows "distinct (batch_of (bt_processor s))" "set (concat (bt_batches s)) \<inter> set (batch_of (bt_processor s)) = {}"
    "\<And>i. i \<in> set (batch_of (bt_processor s)) \<Longrightarrow> i < length (bt_requests s)"
    "\<And>i. i \<in> set (concat (bt_batches s)) \<Longrightarrow> i < length (bt_requests s)"
    "processor_ok config (bt_shutdown s) (bt_processor s)"
proof -
  let ?b = "batch_of (bt_processor s)" and ?d = "concat (bt_batches s)"
  have acc: "bt_accepted s = ?d @ ?b @ bt_queue s" "accepted_ok (bt_accepted s) (bt_callers s)"
    "length (bt_requests s) = length (bt_callers s)"
    by (rule bt_flowD [OF assms])+
  have "distinct (?d @ ?b @ bt_queue s)" using acc(2) by (simp only: accepted_ok_def acc(1))
  then have "distinct (?b @ bt_queue s)" "set ?d \<inter> set (?b @ bt_queue s) = {}" by (simp_all only: distinct_append)
  then show "distinct ?b" "set ?d \<inter> set ?b = {}" by (simp_all only: distinct_append set_append Int_Un_distrib Un_empty)
  have "i < length (bt_requests s)" if "i \<in> set (bt_accepted s)" for i
    using acc(2,3) that by (simp add: accepted_ok_def)
  then show "\<And>i. i \<in> set ?b \<Longrightarrow> i < length (bt_requests s)" "\<And>i. i \<in> set ?d \<Longrightarrow> i < length (bt_requests s)"
    unfolding acc(1) by simp_all
  show "processor_ok config (bt_shutdown s) (bt_processor s)" using assms by (simp add: bt_flow_def)
qed

lemma bt_calls_processor:
  assumes flow: "bt_flow config s" and calls: "bt_calls s" and "processor_step config a s t"
  shows "bt_calls t"
  using assms(3)
proof cases
  case (p_receive i q p)
  then show ?thesis using calls receive_ran [OF p_receive(3)] by (simp add: bt_calls_def)
next
  case (p_run af batch wait results k)
  obtain r w where r: "agent_Process a Background (br_message (bt_requests s ! (batch ! k))) (bt_world s) = (r, w)" by force
  have b: "distinct batch" "length results = length batch" and new: "batch ! k \<notin> set (concat (bt_batches s))"
    using bt_flow_batch(1,2,5) [OF flow] nth_mem [OF p_run(3)] p_run(2) by auto
  have "bt_calls t \<longleftrightarrow> bt_calls (s\<lparr>bt_processor := Running af batch wait (results[k := Some r]), bt_answers := bt_answers s @ [(batch ! k, r)]\<rparr>)"
    using p_run(1,2) r by (simp add: run_request_def bt_calls_def)
  then show ?thesis
    using calls p_run(2) new ran_pending [OF b(1) p_run(3,4), of af wait] unfolding bt_calls_def
    by (simp add: ran_update [OF b(2) p_run(3,4)] del: ran.simps) blast
next
  case (p_ran af batch wait results)
  have "length results = length batch" using bt_flow_batch(5) [OF flow] p_ran(2) by simp
  with p_ran show ?thesis using calls ran_all [of results batch af wait] by (simp add: bt_calls_def del: ran.simps)
next
  case (p_send af batch wait results n su fa)
  then show ?thesis using calls by (simp add: bt_calls_def send_result_def Let_def)
next
  case (p_sent af batch wait results n su fa)
  then show ?thesis
    using calls ran_Sending [of af batch wait results n su fa] by (auto simp: bt_calls_def finish_batch_def simp del: ran.simps)
qed (use calls in \<open>auto simp: bt_calls_def start_batch_def\<close>)

lemma bt_calls_caller:
  assumes "bt_calls s" and "caller_step config s t"
  shows "bt_calls t"
  using assms(2)
proof cases
  case (c_handoff i p)
  then show ?thesis using assms(1) receive_ran [OF c_handoff(6)] by (simp add: bt_calls_def)
qed (use assms(1) in \<open>simp_all add: bt_calls_def\<close>)

text \<open>Results are sent once; a waiting caller finds its result in its channel.\<close>

definition sent_requests :: "'w batching \<Rightarrow> nat set" where
  "sent_requests s = set (concat (bt_batches s)) \<union> sent (bt_processor s)"

definition bt_sent :: "'w batching \<Rightarrow> bool" where
  "bt_sent s \<longleftrightarrow>
     (\<forall>i < length (bt_requests s). \<forall>r. br_resultChan (bt_requests s ! i) = Some r \<longrightarrow>
        (i, r) \<in> set (bt_answers s) \<and> i \<in> sent_requests s) \<and>
     (\<forall>i \<in> sent_requests s. br_resultChan (bt_requests s ! i) = None \<longrightarrow> bt_callers s ! i \<noteq> Waiting)"

lemma bt_sent_processor:
  assumes flow: "bt_flow config s" and calls: "bt_calls s" and inv: "bt_sent s" and "processor_step config a s t"
  shows "bt_sent t"
  using assms(4)
proof cases
  case (p_receive i q p)
  then show ?thesis using inv receive_ran [OF p_receive(3)] by (simp add: bt_sent_def sent_requests_def)
next
  case (p_run af batch wait results k)
  then show ?thesis using inv by (auto simp: bt_sent_def sent_requests_def run_request_def split: prod.splits)
next
  case (p_send af batch wait results n su fa)
  have len: "batch ! n < length (bt_requests s)" using bt_flow_batch(3) [OF flow] p_send(2,3) by simp
  have ans: "(batch ! n, results ! n) \<in> set (bt_answers s)" using calls p_send(2,3) by (auto simp: bt_calls_def)
  have req: "sent_requests t = insert (batch ! n) (sent_requests s)"
    using p_send by (auto simp: sent_requests_def send_result_def Let_def take_Suc_conv_app_nth)
  show ?thesis
    using inv len ans p_send(1,2) unfolding bt_sent_def req
    by (auto simp: send_result_def Let_def nth_list_update)
next
  case (p_sent af batch wait results n su fa)
  then have "sent_requests t = sent_requests s" by (auto simp: sent_requests_def finish_batch_def)
  with p_sent show ?thesis using inv by (simp add: bt_sent_def finish_batch_def)
qed (use inv in \<open>auto simp: bt_sent_def sent_requests_def start_batch_def\<close>)

lemma bt_sent_caller:
  assumes flow: "bt_flow config s" and inv: "bt_sent s" and "caller_step config s t"
  shows "bt_sent t"
  using assms(3)
proof cases
  case (c_call msg)
  have "i < length (bt_requests s)" if "i \<in> sent_requests s" for i
    using bt_flow_batch(3,4) [OF flow] that by (cases "bt_processor s") (auto simp: sent_requests_def dest: in_set_takeD)
  moreover have "length (bt_requests s) = length (bt_callers s)" using flow by (simp add: bt_flow_def)
  ultimately show ?thesis using inv c_call by (auto simp: bt_sent_def sent_requests_def nth_append less_Suc_eq)
next
  case (c_enqueue i)
  have "i \<notin> sent_requests s"
    using flow c_enqueue(3) by (cases "bt_processor s") (auto simp: sent_requests_def bt_flow_def accepted_ok_def dest: in_set_takeD)
  with c_enqueue inv show ?thesis by (auto simp: bt_sent_def sent_requests_def nth_list_update)
next
  case (c_handoff i p)
  have "i \<notin> sent_requests s"
    using flow c_handoff(3) by (cases "bt_processor s") (auto simp: sent_requests_def bt_flow_def accepted_ok_def dest: in_set_takeD)
  with c_handoff inv receive_ran [OF c_handoff(6)] show ?thesis by (auto simp: bt_sent_def sent_requests_def nth_list_update)
qed (use inv flow in \<open>auto simp: bt_sent_def sent_requests_def bt_flow_def nth_list_update\<close>)

text \<open>
  Why a caller may return without a result: its context has ended with this error; or the
  decorator is shutting down and the channel has not accepted the request, and the call is
  refused or, when the channel is closed already, panics.
\<close>

definition gave_up :: "'w batching \<Rightarrow> nat \<Rightarrow> reply \<Rightarrow> bool" where
  "gave_up s i r \<longleftrightarrow> (\<exists>e. bt_ctx s ! i = Some e \<and> r = Err e) \<or>
     (bt_shutdown s \<and> i \<notin> set (bt_accepted s) \<and>
      (r = Err (Errorf ''batching middleware shutting down'' [] None) \<or>
       bt_queueClosed s \<and> r = Panic ''send on closed channel''))"

text \<open>Where the reply of a caller comes from.\<close>

definition bt_origin :: "'w agent \<Rightarrow> 'w batching \<Rightarrow> bool" where
  "bt_origin a s \<longleftrightarrow> length (bt_ctx s) = length (bt_callers s) \<and> (bt_queueClosed s \<longrightarrow> bt_shutdown s) \<and>
     (\<forall>i < length (bt_callers s). \<forall>r. bt_callers s ! i = Returned r \<longrightarrow> (i, r) \<in> set (bt_answers s) \<or> gave_up s i r) \<and>
     (\<forall>(i, r) \<in> set (bt_answers s). \<exists>w. r = fst (agent_Process a Background (br_message (bt_requests s ! i)) w))"

lemma bt_originD:
  assumes "bt_origin a s"
  shows "length (bt_ctx s) = length (bt_callers s)" "bt_queueClosed s \<Longrightarrow> bt_shutdown s"
    "\<And>i r. i < length (bt_callers s) \<Longrightarrow> bt_callers s ! i = Returned r \<Longrightarrow> (i, r) \<in> set (bt_answers s) \<or> gave_up s i r"
    "\<And>i r. (i, r) \<in> set (bt_answers s) \<Longrightarrow> \<exists>w. r = fst (agent_Process a Background (br_message (bt_requests s ! i)) w)"
  using assms unfolding bt_origin_def by (elim conjE, blast)+

text \<open>The reasons to give up last.\<close>

lemma gave_up_mono:
  assumes "gave_up s i r" and "i < length (bt_ctx s)" and "\<forall>e. bt_ctx s ! i = Some e \<longrightarrow> bt_ctx t ! i = Some e"
    and "bt_shutdown s \<longrightarrow> bt_shutdown t" and "bt_queueClosed s \<longrightarrow> bt_queueClosed t"
    and "i \<in> set (bt_accepted t) \<longrightarrow> i \<in> set (bt_accepted s)"
  shows "gave_up t i r"
  using assms unfolding gave_up_def by blast

text \<open>What a step keeps of the callers that have returned, and where the others come from.\<close>

lemma processor_step_callers:
  assumes "processor_step config a s t"
  shows "bt_callers t = bt_callers s \<and> bt_ctx t = bt_ctx s \<and> bt_shutdown t = bt_shutdown s \<and>
    bt_queueClosed t = bt_queueClosed s \<and> bt_accepted t = bt_accepted s \<and> set (bt_answers s) \<subseteq> set (bt_answers t)"
  using assms
  by cases (auto simp: start_batch_def run_request_def send_result_def finish_batch_def Let_def split: prod.splits processor.splits)

lemma bt_origin_processor:
  assumes "bt_origin a s" and "processor_step config a s t"
  shows "bt_origin a t"
proof -
  note same = processor_step_callers [OF assms(2)]
  have up: "gave_up t i r \<longleftrightarrow> gave_up s i r" for i r using same by (simp add: gave_up_def)
  have "\<exists>w. r = fst (agent_Process a Background (br_message (bt_requests t ! i)) w)" if "(i, r) \<in> set (bt_answers t)" for i r
    using assms(2)
  proof cases
    case (p_run af batch wait results k)
    then show ?thesis using that bt_originD(4) [OF assms(1)] by (auto simp: run_request_def split: prod.splits) (metis fst_conv)+
  next
    case (p_send af batch wait results n su fa)
    have "br_message (bt_requests t ! i) = br_message (bt_requests s ! i)"
      using p_send by (cases "i = batch ! n"; cases "i < length (bt_requests s)")
        (simp_all add: send_result_def Let_def list_update_beyond)
    with p_send show ?thesis using that bt_originD(4) [OF assms(1)] by (auto simp: send_result_def Let_def)
  qed (use that bt_originD(4) [OF assms(1)] in \<open>auto simp: start_batch_def finish_batch_def split: if_splits\<close>)
  then show ?thesis using bt_originD(1-3) [OF assms(1)] same up unfolding bt_origin_def by (simp add: case_prod_beta) blast
qed

lemma answers_accepted:
  assumes "bt_flow config s" and "bt_calls s" and "(i, r) \<in> set (bt_answers s)"
  shows "i \<in> set (bt_accepted s)" "i < length (bt_requests s)"
proof -
  have "i \<in> set (concat (bt_batches s)) \<union> fst ` ran (bt_processor s)"
    using assms(2,3) by (force simp: bt_calls_def)
  moreover have "fst ` ran p \<subseteq> set (batch_of p)" for p by (cases p) auto
  ultimately have i: "i \<in> set (concat (bt_batches s)) \<union> set (batch_of (bt_processor s))" by blast
  then show "i < length (bt_requests s)" using bt_flow_batch(3,4) [OF assms(1)] by blast
  show "i \<in> set (bt_accepted s)" using i bt_flowD(1) [OF assms(1)] by auto
qed

text \<open>A step of the callers: who had returned keeps the reply, and who returns has a reason.\<close>

lemma caller_step_returns:
  assumes o: "bt_origin a s" and flow: "bt_flow config s" and sent: "bt_sent s" and step: "caller_step config s t"
    and i: "i < length (bt_callers t)" "bt_callers t ! i = Returned r"
  shows "(i, r) \<in> set (bt_answers t) \<or> gave_up t i r"
proof -
  note od = bt_originD(1-3) [OF o]
  have acc: "\<And>j. j \<in> set (bt_accepted s) \<Longrightarrow> bt_callers s ! j \<noteq> Enqueuing"
    using bt_flowD(2) [OF flow] by (simp add: accepted_ok_def)
  have old: "(i, r) \<in> set (bt_answers t) \<or> gave_up t i r"
    if "i < length (bt_callers s)" "bt_callers s ! i = Returned r"
  proof -
    have "bt_answers t = bt_answers s" "\<forall>e. bt_ctx s ! i = Some e \<longrightarrow> bt_ctx t ! i = Some e"
      "bt_shutdown s \<longrightarrow> bt_shutdown t" "bt_queueClosed s \<longrightarrow> bt_queueClosed t"
      "i \<in> set (bt_accepted t) \<longrightarrow> i \<in> set (bt_accepted s)"
      using step that od(1) by (cases; auto simp: nth_append nth_list_update)+
    then show ?thesis using od(3) [OF that] gave_up_mono [of s i r t] that(1) od(1) by metis
  qed
  show ?thesis
    using step
  proof cases
    case (c_call msg)
    then show ?thesis using i old by (auto simp: nth_append less_Suc_eq split: if_splits)
  next
    case (c_closed j)
    then show ?thesis using i old acc od(2) by (cases "i = j") (auto simp: gave_up_def)
  next
    case (c_refused j)
    then show ?thesis using i old acc by (cases "i = j") (auto simp: gave_up_def)
  next
    case (c_cancelled j e)
    then show ?thesis using i old by (cases "i = j") (auto simp: gave_up_def)
  next
    case (c_result j q)
    have "(j, q) \<in> set (bt_answers s)" using sent c_result bt_flowD(3) [OF flow] by (simp add: bt_sent_def)
    then show ?thesis using c_result i old by (cases "i = j") auto
  qed (use i old in \<open>auto simp: nth_list_update split: if_splits\<close>)
qed

lemma bt_origin_caller:
  assumes o: "bt_origin a s" and flow: "bt_flow config s" and calls: "bt_calls s" and sent: "bt_sent s"
    and step: "caller_step config s t"
  shows "bt_origin a t"
proof -
  have "bt_answers t = bt_answers s" using step by cases auto
  moreover have "br_message (bt_requests t ! i) = br_message (bt_requests s ! i)" if "i < length (bt_requests s)" for i
    using step that
  proof cases
    case (c_result j q)
    then show ?thesis using that by (cases "i = j") simp_all
  qed (auto simp: nth_append)
  ultimately have "\<exists>w. r = fst (agent_Process a Background (br_message (bt_requests t ! i)) w)"
    if "(i, r) \<in> set (bt_answers t)" for i r
    using that bt_originD(4) [OF o] answers_accepted(2) [OF flow calls] by metis
  moreover have "length (bt_ctx t) = length (bt_callers t)" "bt_queueClosed t \<longrightarrow> bt_shutdown t"
    using step bt_originD(1,2) [OF o] bt_flowD(6) [OF flow] by (cases; auto)+
  moreover have "\<forall>i < length (bt_callers t). \<forall>r. bt_callers t ! i = Returned r \<longrightarrow> (i, r) \<in> set (bt_answers t) \<or> gave_up t i r"
    using caller_step_returns [OF o flow sent step] by blast
  ultimately show ?thesis unfolding bt_origin_def by blast
qed

definition bt_inv :: "BatchingConfig \<Rightarrow> 'w agent \<Rightarrow> 'w batching \<Rightarrow> bool" where
  "bt_inv config a s \<longleftrightarrow> bt_flow config s \<and> bt_calls s \<and> bt_sent s \<and> bt_origin a s"

lemma bt_inv_init: "batching_init config s \<Longrightarrow> bt_inv config a s"
  using bt_flow_init [of config s]
  by (auto simp: bt_inv_def batching_init_def NewBatchingDecorator_def bt_calls_def bt_sent_def bt_origin_def
      sent_requests_def split: if_splits)

lemma bt_inv_step: "bt_inv config a s \<Longrightarrow> batching_step config a s t \<Longrightarrow> bt_inv config a t"
  unfolding bt_inv_def batching_step_def
  by (meson bt_flow_processor bt_flow_caller bt_calls_processor bt_calls_caller bt_sent_processor bt_sent_caller
      bt_origin_processor bt_origin_caller)

interpretation batching: inductive_invariant "batching_init config" "batching_step config a" "bt_inv config a" for config a
  by unfold_locales (auto intro: bt_inv_init bt_inv_step)

text \<open>
  C10. Every request is processed in the order of its arrival, in one batch, once.  In every
  reachable state, the requests that the channel accepted are, in this order, those of the
  completed batches, those of the current batch and those in the channel; no request occurs
  twice, the agent is called at most once for each and only for accepted requests, no batch
  is empty or larger than \<open>MaxBatchSize\<close> (and 1), and the channel holds at most
  \<open>MaxQueueSize\<close> requests.
\<close>

theorem batching_fifo_once:
  assumes "reach (batching_init config) (batching_step config a) s"
  shows "bt_accepted s = concat (bt_batches s) @ batch_of (bt_processor s) @ bt_queue s \<and>
    distinct (bt_accepted s) \<and> distinct (map fst (bt_answers s)) \<and>
    set (concat (bt_batches s)) \<subseteq> fst ` set (bt_answers s) \<and>
    fst ` set (bt_answers s) \<subseteq> set (concat (bt_batches s) @ batch_of (bt_processor s)) \<and>
    (\<forall>b \<in> set (bt_batches s). b \<noteq> [] \<and> int (length b) \<le> max 1 (bc_MaxBatchSize config)) \<and>
    int (length (batch_of (bt_processor s))) \<le> max 1 (bc_MaxBatchSize config) \<and>
    int (length (bt_queue s)) \<le> bc_MaxQueueSize config"
proof -
  have inv: "bt_flow config s" "bt_calls s" using batching.reach_inv [OF assms] by (simp_all add: bt_inv_def)
  note flow = bt_flowD [OF inv(1)]
  have "fst ` ran p \<subseteq> set (batch_of p)" for p by (cases p) auto
  then have "fst ` set (bt_answers s) \<subseteq> set (concat (bt_batches s) @ batch_of (bt_processor s))"
    using inv(2) unfolding bt_calls_def by (metis Un_mono order_refl set_append)
  moreover have "int (length (batch_of p)) \<le> max 1 (bc_MaxBatchSize config)" if "processor_ok config shut p" for p shut
    using that by (cases p) (auto simp: size_ok_def)
  moreover have "distinct (bt_accepted s)" using flow(2) by (simp add: accepted_ok_def)
  moreover have "distinct (map fst (bt_answers s))" "set (concat (bt_batches s)) \<subseteq> fst ` set (bt_answers s)"
    using inv(2) by (auto simp: bt_calls_def)
  ultimately show ?thesis using flow(1,4,7,8) unfolding size_ok_def by blast
qed

text \<open>
  C11. Every caller gets its own result, or has a reason to give up.  When a call of \<open>Process\<close> has
  returned, either its request was accepted and it returned the reply of the agent to a call on
  its own message, and no other call of the agent was made for it; or its context has ended, and
  it returned the error of its context; or the decorator is shutting down and the channel has not
  accepted the request, and it returned the error that says so or, when \<open>Shutdown\<close> has closed the
  channel, panicked.  So a caller whose request was accepted and whose context has not ended can
  only get the result of its own request.
\<close>

theorem batching_own_result:
  assumes "reach (batching_init config) (batching_step config a) s"
    and "i < length (bt_callers s)" and "bt_callers s ! i = Returned r"
  shows "(i \<in> set (bt_accepted s) \<and> (i, r) \<in> set (bt_answers s) \<and> (\<forall>r'. (i, r') \<in> set (bt_answers s) \<longrightarrow> r' = r) \<and>
      (\<exists>w. r = fst (agent_Process a Background (br_message (bt_requests s ! i)) w))) \<or>
    (\<exists>e. bt_ctx s ! i = Some e \<and> r = Err e) \<or>
    (bt_shutdown s \<and> i \<notin> set (bt_accepted s) \<and>
      (r = Err (Errorf ''batching middleware shutting down'' [] None) \<or>
       bt_queueClosed s \<and> r = Panic ''send on closed channel''))"
proof -
  have inv: "bt_flow config s" "bt_calls s" "bt_origin a s" using batching.reach_inv [OF assms(1)] by (simp_all add: bt_inv_def)
  have "(i, r) \<in> set (bt_answers s) \<Longrightarrow> (i, r') \<in> set (bt_answers s) \<Longrightarrow> r' = r" for r'
    using inv(2) unfolding bt_calls_def by (metis map_of_eq_Some_iff option.inject)
  then show ?thesis
    using bt_originD(3) [OF inv(3) assms(2,3)] bt_originD(4) [OF inv(3)] answers_accepted(1) [OF inv(1,2)]
    unfolding gave_up_def by blast
qed

section \<open>Running the model\<close>

text \<open>The steps as functions of a schedule, to evaluate concrete runs.\<close>

datatype action = Call "message option" | Enqueue nat | SendClosed nat | EndContext nat | Cancel nat | TakeResult nat
  | CallShutdown | ReturnShutdown | Tick duration | Advance | Run nat

fun advance :: "BatchingConfig \<Rightarrow> 'w batching \<Rightarrow> 'w batching option" where
  "advance config s =
     (case bt_processor s of
        AtSelect \<Rightarrow>
          if 0 \<le> bc_MaxBatchSize config
          then Some (s\<lparr>bt_processor := (if bt_shutdown s then Draining [] else AwaitFirst)\<rparr>) else None
      | AwaitFirst \<Rightarrow>
          (case bt_queue s of
             i # q \<Rightarrow> Some (s\<lparr>bt_queue := q, bt_processor := Collecting [i] (bt_now s + bc_MaxWaitTime config)\<rparr>)
           | [] \<Rightarrow> if bt_shutdown s then Some (s\<lparr>bt_processor := AtSelect\<rparr>) else None)
      | Collecting batch deadline \<Rightarrow>
          if bc_MaxBatchSize config \<le> int (length batch) \<or> deadline \<le> bt_now s \<or> bt_shutdown s
          then Some (start_batch ToLoop batch s)
          else (case bt_queue s of
             i # q \<Rightarrow> Some (s\<lparr>bt_queue := q, bt_processor := Collecting (batch @ [i]) deadline\<rparr>)
           | [] \<Rightarrow> None)
      | Draining batch \<Rightarrow>
          if bc_MaxBatchSize config \<le> int (length batch)
          then Some (if batch = [] then s\<lparr>bt_processor := Draining []\<rparr> else start_batch ToDrain batch s)
          else (case bt_queue s of
             i # q \<Rightarrow> Some (s\<lparr>bt_queue := q, bt_processor := Draining (batch @ [i])\<rparr>)
           | [] \<Rightarrow> Some (if batch = [] then s\<lparr>bt_processor := Exited\<rparr> else start_batch ToExit batch s))
      | Running af batch wait results \<Rightarrow>
          if None \<in> set results then None
          else Some (s\<lparr>bt_processor := Sending af batch wait (map the results) 0 0 0\<rparr>)
      | Sending af batch wait results n su fa \<Rightarrow>
          if n < length batch \<and> br_resultChan (bt_requests s ! (batch ! n)) = None then Some (send_result s)
          else if n = length batch then Some (finish_batch s) else None
      | Exited \<Rightarrow> None)"

fun perform :: "BatchingConfig \<Rightarrow> 'w agent \<Rightarrow> action \<Rightarrow> 'w batching \<Rightarrow> 'w batching option" where
  "perform config a (Call msg) s =
     Some (s\<lparr>bt_requests := bt_requests s @ [\<lparr>br_message = msg, br_resultChan = None, br_enqueuedAt = bt_now s\<rparr>],
             bt_callers := bt_callers s @ [Enqueuing], bt_ctx := bt_ctx s @ [None]\<rparr>)"
| "perform config a (Enqueue i) s =
     (if i < length (bt_callers s) \<and> bt_callers s ! i = Enqueuing \<and> \<not> bt_queueClosed s \<and>
         int (length (bt_queue s)) < bc_MaxQueueSize config
      then Some (s\<lparr>bt_queue := bt_queue s @ [i], bt_accepted := bt_accepted s @ [i],
                   bt_callers := (bt_callers s)[i := Waiting]\<rparr>) else None)"
| "perform config a (SendClosed i) s =
     (if i < length (bt_callers s) \<and> bt_callers s ! i = Enqueuing \<and> bt_queueClosed s
      then Some (s\<lparr>bt_callers := (bt_callers s)[i := Returned (Panic ''send on closed channel'')]\<rparr>) else None)"
| "perform config a (EndContext i) s =
     (if i < length (bt_ctx s) \<and> bt_ctx s ! i = None then Some (s\<lparr>bt_ctx := (bt_ctx s)[i := Some Context_Canceled]\<rparr>) else None)"
| "perform config a (Cancel i) s =
     (if i < length (bt_callers s) \<and> bt_callers s ! i \<in> {Enqueuing, Waiting} then
        case bt_ctx s ! i of
          Some e \<Rightarrow> Some (s\<lparr>bt_callers := (bt_callers s)[i := Returned (Err e)]\<rparr>)
        | None \<Rightarrow> None
      else None)"
| "perform config a (TakeResult i) s =
     (if i < length (bt_callers s) \<and> bt_callers s ! i = Waiting then
        case br_resultChan (bt_requests s ! i) of
          Some r \<Rightarrow> Some (s\<lparr>bt_callers := (bt_callers s)[i := Returned r],
            bt_requests := (bt_requests s)[i := (bt_requests s ! i)\<lparr>br_resultChan := None\<rparr>]\<rparr>)
        | None \<Rightarrow> None
      else None)"
| "perform config a CallShutdown s =
     (if bt_shutdown s then None else Some (s\<lparr>bt_shutdown := True, bt_stopping := True\<rparr>))"
| "perform config a ReturnShutdown s =
     (if bt_stopping s \<and> bt_processor s = Exited then Some (s\<lparr>bt_stopping := False, bt_queueClosed := True\<rparr>) else None)"
| "perform config a (Tick d) s = (if 0 \<le> d then Some (s\<lparr>bt_now := bt_now s + d\<rparr>) else None)"
| "perform config a Advance s = advance config s"
| "perform config a (Run k) s =
     (case bt_processor s of
        Running af batch wait results \<Rightarrow>
          if k < length batch \<and> results ! k = None \<and>
             \<not> is_Panic (fst (agent_Process a Background (br_message (bt_requests s ! (batch ! k))) (bt_world s)))
          then Some (run_request a k s) else None
      | _ \<Rightarrow> None)"

fun schedule :: "BatchingConfig \<Rightarrow> 'w agent \<Rightarrow> action list \<Rightarrow> 'w batching \<Rightarrow> 'w batching option" where
  "schedule config a [] s = Some s"
| "schedule config a (x # xs) s =
     (case perform config a x s of None \<Rightarrow> None | Some t \<Rightarrow> schedule config a xs t)"

lemma advance_step: "advance config s = Some t \<Longrightarrow> processor_step config a s t"
proof (cases "bt_processor s")
  case AtSelect
  then show "advance config s = Some t \<Longrightarrow> processor_step config a s t"
    by (auto split: if_splits intro: p_loop p_shutdown)
next
  case AwaitFirst
  then show "advance config s = Some t \<Longrightarrow> processor_step config a s t"
    by (auto split: if_splits list.splits intro: p_receive p_first_shutdown)
next
  case (Collecting batch deadline)
  then show "advance config s = Some t \<Longrightarrow> processor_step config a s t"
    by (auto split: if_splits list.splits intro: p_collected p_receive)
next
  case (Draining batch)
  then show "advance config s = Some t \<Longrightarrow> processor_step config a s t"
    using p_drained [of s batch config a] p_drain_full [of s batch config a]
    by (auto split: if_splits list.splits intro: p_receive)
next
  case (Running af batch wait results)
  then show "advance config s = Some t \<Longrightarrow> processor_step config a s t" by (auto split: if_splits intro: p_ran)
next
  case (Sending af batch wait results n su fa)
  then show "advance config s = Some t \<Longrightarrow> processor_step config a s t" by (auto split: if_splits intro: p_send p_sent)
qed simp

lemma perform_step: "perform config a x s = Some t \<Longrightarrow> batching_step config a s t"
proof (cases x)
  case (Run k)
  then show "perform config a x s = Some t \<Longrightarrow> batching_step config a s t"
    by (auto simp: batching_step_def split: if_splits processor.splits intro: p_run)
next
  case Advance
  then show "perform config a x s = Some t \<Longrightarrow> batching_step config a s t"
    by (auto simp: batching_step_def intro: advance_step simp del: advance.simps)
qed (auto simp: batching_step_def ctx_errors_def split: if_splits option.splits
  intro: c_call c_enqueue c_closed c_ctx_ends c_cancelled c_result c_shutdown c_stopped c_tick)

lemma schedule_reach:
  assumes "reach init (batching_step config a) s" and "\<not> Option.is_none (schedule config a xs s)"
  shows "reach init (batching_step config a) (the (schedule config a xs s))"
  using assms
proof (induction xs arbitrary: s)
  case (Cons x xs)
  then obtain t where t: "perform config a x s = Some t" by (cases "perform config a x s") auto
  have "reach init (batching_step config a) t" by (rule reach_step [OF Cons.prems(1) perform_step [OF t]])
  from Cons.IH [OF this] Cons.prems(2) t show ?case by simp
qed simp

text \<open>A decorator around an agent that echoes, with batches of one request.\<close>

definition echo :: "unit agent" where
  "echo = \<lparr>agent_Name = ''echo'', agent_Capabilities = [], agent_Process = (\<lambda>ctx msg w. (Ok msg, w))\<rparr>"

definition single :: BatchingConfig where
  "single = \<lparr>bc_MaxBatchSize = 1, bc_MaxWaitTime = 0, bc_MaxQueueSize = 2\<rparr>"

definition new_batching :: "unit batching" where
  "new_batching =
     \<lparr>bt_queue = [], bt_queueClosed = False, bt_shutdown = False, bt_stopping = False, bt_processor = AtSelect,
      bt_requests = [], bt_callers = [], bt_ctx = [], bt_metrics = NewBatchingMetrics, bt_now = 0, bt_world = (),
      bt_accepted = [], bt_batches = [], bt_answers = []\<rparr>"

lemma new_batching_init: "0 \<le> bc_MaxQueueSize config \<Longrightarrow> reach (batching_init config) step new_batching"
  by (rule reach_init) (auto simp: batching_init_def NewBatchingDecorator_def new_batching_def)

definition one_answer :: "unit batching" where
  "one_answer = the (schedule single echo
     [Call None, Enqueue 0, Advance, Advance, Advance, Run 0, Advance, Advance, Advance, TakeResult 0] new_batching)"

lemma one_answer_reach: "reach (batching_init single) (batching_step single echo) one_answer"
  unfolding one_answer_def by (rule schedule_reach, rule new_batching_init) code_simp+

theorem batching_fifo_once_witness:
  "bt_accepted one_answer = concat (bt_batches one_answer) @ batch_of (bt_processor one_answer) @ bt_queue one_answer \<and>
   distinct (map fst (bt_answers one_answer)) \<and> bt_batches one_answer = [[0]]"
proof -
  have "bt_batches one_answer = [[0]]" by code_simp
  with batching_fifo_once [OF one_answer_reach] show ?thesis by blast
qed

theorem batching_own_result_witness:
  "bt_callers one_answer = [Returned (Ok None)] \<and> (0, Ok None) \<in> set (bt_answers one_answer)"
proof -
  have c: "bt_callers one_answer = [Returned (Ok None)]" by code_simp
  have "0 < length (bt_callers one_answer)" "bt_callers one_answer ! 0 = Returned (Ok None)" by (simp_all add: c)
  note run = batching_own_result [OF one_answer_reach this]
  have "(Ok None :: reply) \<noteq> Err e" "(Ok None :: reply) \<noteq> Panic p" for e p by simp_all
  then have "(0, Ok None) \<in> set (bt_answers one_answer)" using run by blast
  with c show ?thesis by blast
qed

section \<open>Progress\<close>

text \<open>
  The steps left to the processor.  A request in the channel costs at most 20 of them; the
  position of the processor gives the rest.
\<close>

fun base :: "after \<Rightarrow> nat" where
  "base ToLoop = 11"
| "base ToDrain = 8"
| "base ToExit = 0"

fun weight :: "bool \<Rightarrow> processor \<Rightarrow> nat" where
  "weight shut AtSelect = (if shut then 10 else 12)"
| "weight shut AwaitFirst = 11"
| "weight shut (Collecting batch _) = 14 + 3 * length batch"
| "weight shut (Draining batch) = (if batch = [] then 9 else 14 + 3 * length batch)"
| "weight shut (Running af batch _ results) = base af + 3 + length batch + length (filter (\<lambda>r. r = None) results)"
| "weight shut (Sending af batch _ _ n _ _) = base af + 2 + (length batch - n)"
| "weight shut Exited = 0"

definition pending_work :: "'w batching \<Rightarrow> nat" where
  "pending_work s = 20 * length (bt_queue s) + weight (bt_shutdown s) (bt_processor s)"

lemma filter_None_update:
  assumes "k < length results" and "results ! k = None"
  shows "length (filter (\<lambda>r. r = None) (results[k := Some r])) < length (filter (\<lambda>r. r = None) results)"
  using assms
proof (induction results arbitrary: k)
  case (Cons x xs)
  then show ?case by (cases k) auto
qed simp

lemma receive_weight: "receive config now i p = Some p' \<Longrightarrow> weight shut p' < weight shut p + 20"
  by (cases p) (auto split: if_splits)

lemma processor_step_decreases:
  assumes flow: "bt_flow config s" and max: "1 \<le> bc_MaxBatchSize config" and "processor_step config a s t"
  shows "pending_work t < pending_work s"
  using assms(3)
proof cases
  case (p_receive i q p)
  then show ?thesis using receive_weight [OF p_receive(3), of "bt_shutdown s"] by (simp add: pending_work_def)
next
  case (p_collected batch deadline)
  then have "batch \<noteq> []" using bt_flowD(7) [OF flow] by (simp add: size_ok_def)
  with p_collected show ?thesis by (cases batch) (simp_all add: pending_work_def start_batch_def)
next
  case (p_drained batch)
  then show ?thesis by (cases batch) (simp_all add: pending_work_def start_batch_def)
next
  case (p_drain_full batch)
  then have "batch \<noteq> []" using max by auto
  with p_drain_full show ?thesis by (cases batch) (simp_all add: pending_work_def start_batch_def)
next
  case (p_run af batch wait results k)
  have "k < length results" using bt_flowD(7) [OF flow] p_run(2,3) by simp
  from filter_None_update [OF this p_run(4)] p_run show ?thesis
    by (simp add: pending_work_def run_request_def split: prod.splits)
next
  case (p_ran af batch wait results)
  then show ?thesis by (simp add: pending_work_def)
next
  case (p_sent af batch wait results n su fa)
  then show ?thesis by (cases af) (simp_all add: pending_work_def finish_batch_def)
qed (simp_all add: pending_work_def send_result_def Let_def)

lemma processor_step_frame:
  assumes "processor_step config a s t"
  shows "bt_shutdown t = bt_shutdown s" "bt_callers t = bt_callers s" "bt_accepted t = bt_accepted s" "bt_now t = bt_now s"
  using assms
  by (cases; simp add: start_batch_def run_request_def send_result_def finish_batch_def Let_def split: prod.splits)+

lemma unsent_empty:
  assumes "bt_flow config s" and "bt_sent s" and "bt_processor s = Sending af batch wait results n su fa" and "n < length batch"
  shows "br_resultChan (bt_requests s ! (batch ! n)) = None"
proof (rule ccontr)
  note b = bt_flow_batch [OF assms(1)]
  assume "br_resultChan (bt_requests s ! (batch ! n)) \<noteq> None"
  moreover have "batch ! n < length (bt_requests s)" using b(3) assms(3,4) by simp
  ultimately have "batch ! n \<in> sent_requests s" using assms(2) by (auto simp: bt_sent_def)
  moreover have "batch ! n \<notin> set (concat (bt_batches s))" using b(2) nth_mem [OF assms(4)] assms(3) by auto
  ultimately have "batch ! n \<in> set (take n batch)" by (auto simp: sent_requests_def assms(3))
  then show False using b(1) assms(3,4) by (auto simp: in_set_conv_nth nth_eq_iff_index_eq)
qed

definition never_panics :: "'w agent \<Rightarrow> bool" where
  "never_panics a \<longleftrightarrow> (\<forall>msg w. \<not> is_Panic (fst (agent_Process a Background msg w)))"

text \<open>Where the processor can stand still.\<close>

lemma processor_blocked:
  assumes inv: "bt_inv config a s" and max: "1 \<le> bc_MaxBatchSize config" and "never_panics a"
    and stuck: "\<And>t. \<not> processor_step config a s t"
  shows "bt_processor s = Exited \<or> (\<not> bt_shutdown s \<and> bt_queue s = [] \<and>
    (bt_processor s = AwaitFirst \<or>
     (\<exists>batch deadline. bt_processor s = Collecting batch deadline \<and> bt_now s < deadline)))"
proof (cases "bt_processor s")
  case AtSelect
  then show ?thesis using stuck p_loop [of s config a] p_shutdown [of s config a] max by (cases "bt_shutdown s") auto
next
  case AwaitFirst
  then show ?thesis
    using stuck p_first_shutdown [of s config a] p_receive [of s _ _ config _ a] by (cases "bt_queue s") auto
next
  case (Collecting batch deadline)
  then have "int (length batch) < bc_MaxBatchSize config" "bt_now s < deadline" "\<not> bt_shutdown s"
    using stuck p_collected [of s batch deadline config a] by force+
  then show ?thesis using stuck p_receive [of s _ _ config _ a] Collecting by (cases "bt_queue s") auto
next
  case (Draining batch)
  then have "\<not> bc_MaxBatchSize config \<le> int (length batch)" using stuck p_drain_full [of s batch config a] by blast
  then show ?thesis
    using stuck p_receive [of s _ _ config _ a] p_drained [of s batch config a] Draining by (cases "bt_queue s") auto
next
  case (Running af batch wait results)
  have len: "length results = length batch" using inv Running bt_flowD(7) [of config s] by (simp add: bt_inv_def)
  show ?thesis
  proof (cases "None \<in> set results")
    case True
    then obtain k where "k < length batch" "results ! k = None" using len by (auto simp: in_set_conv_nth)
    then show ?thesis using stuck p_run [OF Running, of k a config] assms(3) by (auto simp: never_panics_def)
  next
    case False
    then show ?thesis using stuck p_ran [OF Running, of config a] by blast
  qed
next
  case (Sending af batch wait results n su fa)
  have "n \<le> length batch" using inv Sending bt_flowD(7) [of config s] by (simp add: bt_inv_def)
  then show ?thesis
    using stuck p_send [OF Sending, of config a] p_sent [OF Sending, of config a] unsent_empty [OF _ _ Sending] inv
    by (auto simp: bt_inv_def order_le_less)
qed simp

lemma processor_run:
  assumes "(processor_step config a)\<^sup>*\<^sup>* s t" and "bt_inv config a s"
  shows "bt_inv config a t \<and> bt_shutdown t = bt_shutdown s \<and> bt_callers t = bt_callers s \<and> bt_accepted t = bt_accepted s"
  using assms
proof (induction rule: rtranclp_induct)
  case (step t u)
  moreover have "batching_step config a t u" using step.hyps(2) by (simp add: batching_step_def)
  ultimately show ?case using bt_inv_step processor_step_frame [OF step.hyps(2)] by fastforce
qed simp

lemma processor_run_bounded:
  assumes "(processor_step config a ^^ n) s t" and "bt_inv config a s" and "1 \<le> bc_MaxBatchSize config"
  shows "n + pending_work t \<le> pending_work s"
  using assms(1)
proof (induction n arbitrary: t)
  case (Suc n)
  then obtain u where u: "(processor_step config a ^^ n) s u" "processor_step config a u t" by auto
  have "bt_inv config a u" using processor_run [OF relpowp_imp_rtranclp [OF u(1)] assms(2)] by blast
  then have "pending_work t < pending_work u"
    using processor_step_decreases [OF _ assms(3) u(2)] by (simp add: bt_inv_def)
  with Suc.IH [OF u(1)] show ?case by simp
qed simp


definition shutting_down :: "unit batching" where
  "shutting_down = the (schedule single echo [Call None, Enqueue 0, CallShutdown] new_batching)"


section \<open>Requests that are never answered\<close>

lemma exited_step:
  assumes "batching_step config a s t" and "bt_processor s = Exited" and "i < length (bt_callers s)"
    and "length (bt_requests s) = length (bt_callers s)" and "br_resultChan (bt_requests s ! i) = None"
    and "bt_callers s ! i \<in> insert Waiting ((Returned \<circ> Err) ` ctx_errors)"
    and "length (bt_ctx s) = length (bt_callers s)" and "\<forall>e. bt_ctx s ! i = Some e \<longrightarrow> e \<in> ctx_errors"
  shows "bt_processor t = Exited \<and> i < length (bt_callers t) \<and> length (bt_requests t) = length (bt_callers t) \<and>
    br_resultChan (bt_requests t ! i) = None \<and> bt_callers t ! i \<in> insert Waiting ((Returned \<circ> Err) ` ctx_errors) \<and>
    length (bt_ctx t) = length (bt_callers t) \<and> (\<forall>e. bt_ctx t ! i = Some e \<longrightarrow> e \<in> ctx_errors)"
proof -
  have "\<not> processor_step config a s t" using assms(2) by (auto elim: processor_step.cases)
  then have "caller_step config s t" using assms(1) by (simp add: batching_step_def)
  then show ?thesis
  proof cases
    case (c_handoff j p)
    then show ?thesis using assms(2) by simp
  qed (use assms in \<open>auto simp: nth_append nth_list_update\<close>)
qed

definition after_shutdown :: "unit batching" where
  "after_shutdown = the (schedule single echo
     [Call None, CallShutdown, Advance, Advance, Enqueue 0, ReturnShutdown] new_batching)"

text \<open>
  A request can be accepted and never answered.  Between the last look of the processor at
  the channel and the return of \<open>Shutdown\<close>, a caller can still put its request into the
  channel; in every continuation it waits, unless its own context ends.
\<close>

lemma batching_strands_request:
  "\<exists>s. reach (batching_init single) (batching_step single echo) s \<and> bt_callers s = [Waiting] \<and>
    (\<forall>t. (batching_step single echo)\<^sup>*\<^sup>* s t \<longrightarrow>
       bt_callers t ! 0 = Waiting \<or> (\<exists>e \<in> ctx_errors. bt_callers t ! 0 = Returned (Err e)))"
proof -
  have r: "reach (batching_init single) (batching_step single echo) after_shutdown"
    unfolding after_shutdown_def by (rule schedule_reach, rule new_batching_init) code_simp+
  have now: "bt_processor after_shutdown = Exited" "bt_callers after_shutdown = [Waiting]"
    "map br_resultChan (bt_requests after_shutdown) = [None]" "bt_ctx after_shutdown = [None]" by code_simp+
  have len: "length (bt_requests after_shutdown) = 1" "br_resultChan (bt_requests after_shutdown ! 0) = None"
    using now(3) by auto
  have "bt_processor t = Exited \<and> 0 < length (bt_callers t) \<and> length (bt_requests t) = length (bt_callers t) \<and>
      br_resultChan (bt_requests t ! 0) = None \<and> bt_callers t ! 0 \<in> insert Waiting ((Returned \<circ> Err) ` ctx_errors) \<and>
      length (bt_ctx t) = length (bt_callers t) \<and> (\<forall>e. bt_ctx t ! 0 = Some e \<longrightarrow> e \<in> ctx_errors)"
    if "(batching_step single echo)\<^sup>*\<^sup>* after_shutdown t" for t
    using that
  proof (induction rule: rtranclp_induct)
    case (step t u)
    then show ?case using exited_step [OF step.hyps(2), of 0] by blast
  qed (use now len in simp)
  with r now(2) show ?thesis by (intro exI [of _ after_shutdown]) auto
qed

text \<open>
  After \<open>Shutdown\<close> has returned, a call of \<open>Process\<close> may panic on the closed channel instead of
  returning the documented error.
\<close>

lemma batching_send_panics:
  "\<exists>s. reach (batching_init single) (batching_step single echo) s \<and>
     bt_callers s = [Returned (Panic ''send on closed channel'')]"
proof -
  let ?xs = "[CallShutdown, Advance, Advance, ReturnShutdown, Call None, SendClosed 0]"
  have "reach (batching_init single) (batching_step single echo) (the (schedule single echo ?xs new_batching))"
    by (rule schedule_reach, rule new_batching_init) code_simp+
  moreover have "bt_callers (the (schedule single echo ?xs new_batching)) = [Returned (Panic ''send on closed channel'')]"
    by code_simp
  ultimately show ?thesis by blast
qed

text \<open>With \<open>MaxBatchSize\<close> 0 the processor drains forever, so \<open>Shutdown\<close> does not return.\<close>

lemma batching_spins:
  assumes "bc_MaxBatchSize config = 0" and "bt_processor s = Draining []" and "bt_stopping s" and "bt_shutdown s"
    and "(batching_step config a)\<^sup>*\<^sup>* s t"
  shows "bt_processor t = Draining [] \<and> bt_stopping t \<and> bt_shutdown t"
  using assms(5,2-4)
proof (induction rule: rtranclp_induct)
  case (step t u)
  then show ?case
    unfolding batching_step_def using assms(1)
    by (elim disjE processor_step.cases caller_step.cases) auto
qed simp

section \<open>What the metrics say\<close>

definition bt_counts :: "'w batching \<Rightarrow> bool" where
  "bt_counts s \<longleftrightarrow>
     bm_TotalRequests (bt_metrics s) = int (length (concat (bt_batches s))) \<and>
     bm_TotalBatches (bt_metrics s) = int (length (bt_batches s)) \<and>
     bm_SuccessfulBatches (bt_metrics s) + bm_FailedBatches (bt_metrics s) + bm_PartialBatches (bt_metrics s) =
       int (length (bt_batches s))"

lemma RecordBatch_counts:
  "bm_TotalRequests (RecordBatch n su fa w m) = bm_TotalRequests m + n"
  "bm_TotalBatches (RecordBatch n su fa w m) = bm_TotalBatches m + 1"
  "bm_SuccessfulBatches (RecordBatch n su fa w m) + bm_FailedBatches (RecordBatch n su fa w m) +
     bm_PartialBatches (RecordBatch n su fa w m) =
   bm_SuccessfulBatches m + bm_FailedBatches m + bm_PartialBatches m + 1"
  by (simp_all add: RecordBatch_def Let_def)

lemma bt_counts_step:
  assumes "bt_counts s" and "batching_step config a s t"
  shows "bt_counts t"
  using assms(2) unfolding batching_step_def
proof
  assume "processor_step config a s t"
  then show ?thesis
  proof cases
    case (p_sent af batch wait results n su fa)
    then show ?thesis using assms(1) RecordBatch_counts [of "int (length batch)" su fa wait "bt_metrics s"]
      by (simp add: bt_counts_def finish_batch_def)
  qed (use assms(1) in \<open>simp_all add: bt_counts_def start_batch_def run_request_def send_result_def Let_def split: prod.splits\<close>)
next
  assume "caller_step config s t"
  then show ?thesis by cases (use assms(1) in \<open>simp_all add: bt_counts_def\<close>)
qed

lemma bt_counts_init: "batching_init config s \<Longrightarrow> bt_counts s"
  by (auto simp: batching_init_def NewBatchingDecorator_def bt_counts_def NewBatchingMetrics_def split: if_splits)

interpretation batching_counts: inductive_invariant "batching_init config" "batching_step config a" bt_counts for config a
  by (unfold_locales, rule bt_counts_init) (auto intro: bt_counts_step)

text \<open>The average size that the metrics report lies between 1 and the configured size.\<close>

lemma AvgBatchSize_range:
  assumes r: "reach (batching_init config) (batching_step config a) s" and "bt_batches s \<noteq> []"
  shows "1 \<le> AvgBatchSize (bt_metrics s) \<and> AvgBatchSize (bt_metrics s) \<le> real_of_int (max 1 (bc_MaxBatchSize config))"
proof -
  have c: "bt_counts s" by (rule batching_counts.reach_inv [OF r])
  have "bt_flow config s" using batching.reach_inv [OF r] by (simp add: bt_inv_def)
  then have size: "1 \<le> length b \<and> int (length b) \<le> max 1 (bc_MaxBatchSize config)" if "b \<in> set (bt_batches s)" for b
    using bt_flowD(8) [of config s b] that by (cases b) (simp_all add: size_ok_def)
  have "int (length bs) \<le> int (length (concat bs)) \<and>
      int (length (concat bs)) \<le> int (length bs) * max 1 (bc_MaxBatchSize config)"
    if "\<And>b. b \<in> set bs \<Longrightarrow> 1 \<le> length b \<and> int (length b) \<le> max 1 (bc_MaxBatchSize config)" for bs :: "nat list list"
    using that
  proof (induction bs)
    case (Cons b bs)
    then have "1 \<le> length b" "int (length b) \<le> max 1 (bc_MaxBatchSize config)" by simp_all
    moreover have "int (length bs) \<le> int (length (concat bs)) \<and>
        int (length (concat bs)) \<le> int (length bs) * max 1 (bc_MaxBatchSize config)"
      by (rule Cons.IH) (use Cons.prems in simp)
    ultimately show ?case by (simp add: distrib_right)
  qed simp
  from this [of "bt_batches s", OF size]
  have b: "int (length (bt_batches s)) \<le> int (length (concat (bt_batches s)))"
    "int (length (concat (bt_batches s))) \<le> int (length (bt_batches s)) * max 1 (bc_MaxBatchSize config)" by auto
  have pos: "0 < real (length (bt_batches s))" using assms(2) by simp
  have "real (length (concat (bt_batches s))) \<le> real (length (bt_batches s)) * real_of_int (max 1 (bc_MaxBatchSize config))"
    using b(2) by (metis of_int_le_iff of_int_mult of_int_of_nat_eq)
  moreover have "real (length (bt_batches s)) \<le> real (length (concat (bt_batches s)))" using b(1) by simp
  ultimately show ?thesis using c pos assms(2)
    by (simp add: AvgBatchSize_def bt_counts_def divide_simps mult.commute)
qed

end
