(* ===== verification/Framing.thy ===== *)
theory Framing
  imports Go_Prelude "HOL-Library.Word"
begin

text \<open>
  Messages on a byte stream (\<open>adapter/transport/transport.go\<close>): the Unix socket and the TCP
  transport send a payload behind its length, four bytes in big-endian order, and the server
  (\<open>adapter/local/local_agent.go\<close>, \<open>sendFramed\<close> and the head of \<open>handleClient\<close>) does the same.
  A connection is the bytes still to be read, the error behind them, the bytes written and
  the number of bytes after which a write fails.  \<open>ParseEndpoint\<close> chooses a transport.
\<close>

unbundle bit_operations_syntax

section \<open>Big-endian lengths\<close>

type_synonym byte = "8 word"

text \<open>\<open>binary.Write\<close> and \<open>binary.Read\<close> of a \<open>uint32\<close> with \<open>binary.BigEndian\<close>.\<close>

definition be32 :: "32 word \<Rightarrow> byte list" where
  "be32 w = [ucast (drop_bit 24 w), ucast (drop_bit 16 w), ucast (drop_bit 8 w), ucast w]"

definition of_be32 :: "byte list \<Rightarrow> 32 word" where
  "of_be32 bs =
     push_bit 24 (ucast (bs ! 0)) OR push_bit 16 (ucast (bs ! 1)) OR push_bit 8 (ucast (bs ! 2)) OR ucast (bs ! 3)"

lemma length_be32 [simp]: "length (be32 w) = 4"
  by (simp add: be32_def)

lemma of_be32_be32 [simp]: "of_be32 (be32 w) = w"
proof (rule bit_word_eqI)
  fix n assume "n < LENGTH(32)"
  then have n: "n < 32" by simp
  have "n < 8 \<or> 8 \<le> n \<and> n < 16 \<or> 16 \<le> n \<and> n < 24 \<or> 24 \<le> n" by linarith
  then show "bit (of_be32 (be32 w)) n = bit w n"
    using n by (elim disjE) (auto simp: of_be32_def be32_def bit_simps)
qed

section \<open>Connections\<close>

definition io_EOF :: go_error where
  "io_EOF = Errors_New ''EOF''"

definition io_ErrUnexpectedEOF :: go_error where
  "io_ErrUnexpectedEOF = Errors_New ''unexpected EOF''"

record conn =
  cn_in :: "byte list"
  cn_end :: go_error
  cn_out :: "byte list"
  cn_room :: "(nat \<times> go_error) option"

text \<open>\<open>io.ReadFull\<close>.\<close>

definition io_ReadFull :: "nat \<Rightarrow> conn \<Rightarrow> byte list outcome \<times> conn" where
  "io_ReadFull n c =
     (if n \<le> length (cn_in c) then (Ok (take n (cn_in c)), c\<lparr>cn_in := drop n (cn_in c)\<rparr>)
      else (Err (if cn_in c \<noteq> [] \<and> cn_end c = io_EOF then io_ErrUnexpectedEOF else cn_end c), c\<lparr>cn_in := []\<rparr>))"

text \<open>\<open>conn.Write\<close>: an error means that only a part was written.\<close>

definition conn_Write :: "byte list \<Rightarrow> conn \<Rightarrow> unit outcome \<times> conn" where
  "conn_Write bs c =
     (case cn_room c of
        None \<Rightarrow> (Ok (), c\<lparr>cn_out := cn_out c @ bs\<rparr>)
      | Some (n, e) \<Rightarrow>
          if length bs \<le> n then (Ok (), c\<lparr>cn_out := cn_out c @ bs, cn_room := Some (n - length bs, e)\<rparr>)
          else (Err e, c\<lparr>cn_out := cn_out c @ take n bs, cn_room := Some (0, e)\<rparr>))"

section \<open>The socket transports\<close>

text \<open>\<open>UnixSocketTransport\<close> and \<open>TCPTransport\<close>: an address and a connection, nil before \<open>Connect\<close>.\<close>

record SocketTransport =
  st_address :: string
  st_conn :: "conn option"

text \<open>\<open>Connect\<close>, with the answer of the dialer.\<close>

definition st_Connect :: "conn outcome \<Rightarrow> SocketTransport \<Rightarrow> unit outcome \<times> SocketTransport" where
  "st_Connect dial t =
     (case dial of
        Ok c \<Rightarrow> (Ok (), t\<lparr>st_conn := Some c\<rparr>)
      | Err e \<Rightarrow> (Err (ConnectionError (''failed to connect to '' @ st_address t) (Some e)), t)
      | Panic p \<Rightarrow> (Panic p, t))"

text \<open>The body of \<open>SendFramed\<close>, and \<open>sendFramed\<close> of the server, which returns the errors as
  they are; \<open>uint32(len(data))\<close> is the length modulo \<open>2^32\<close>.\<close>

definition send_frame :: "byte list \<Rightarrow> conn \<Rightarrow> (string \<times> go_error) option \<times> conn" where
  "send_frame data c =
     (let (r, c) = conn_Write (be32 (of_nat (length data))) c in
      case r of
        Err e \<Rightarrow> (Some (''failed to write length prefix'', e), c)
      | Panic p \<Rightarrow> (None, c)
      | Ok _ \<Rightarrow>
          (let (r, c) = conn_Write data c in
           case r of Err e \<Rightarrow> (Some (''failed to write payload'', e), c) | _ \<Rightarrow> (None, c)))"

definition SendFramed :: "byte list \<Rightarrow> SocketTransport \<Rightarrow> unit outcome \<times> SocketTransport" where
  "SendFramed data t =
     (case st_conn t of
        None \<Rightarrow> (Err (ConnectionError ''not connected'' None), t)
      | Some c \<Rightarrow>
          (case send_frame data c of
             (None, c) \<Rightarrow> (Ok (), t\<lparr>st_conn := Some c\<rparr>)
           | (Some (m, e), c) \<Rightarrow> (Err (ConnectionError m (Some e)), t\<lparr>st_conn := Some c\<rparr>)))"

definition sendFramed :: "byte list \<Rightarrow> conn \<Rightarrow> unit outcome \<times> conn" where
  "sendFramed data c =
     (case send_frame data c of (None, c) \<Rightarrow> (Ok (), c) | (Some (m, e), c) \<Rightarrow> (Err e, c))"

text \<open>Reading one frame: the step that failed and its error, or the payload.\<close>

definition read_frame :: "conn \<Rightarrow> (byte list + string \<times> go_error) \<times> conn" where
  "read_frame c =
     (let (r, c) = io_ReadFull 4 c in
      case r of
        Err e \<Rightarrow> (Inr (''failed to read length prefix'', e), c)
      | Panic p \<Rightarrow> (Inr (p, io_EOF), c)
      | Ok bs \<Rightarrow>
          (let (r, c) = io_ReadFull (unat (of_be32 bs)) c in
           case r of
             Ok data \<Rightarrow> (Inl data, c)
           | Err e \<Rightarrow> (Inr (''failed to read payload'', e), c)
           | Panic p \<Rightarrow> (Inr (p, io_EOF), c)))"

definition ReceiveFramed :: "SocketTransport \<Rightarrow> byte list outcome \<times> SocketTransport" where
  "ReceiveFramed t =
     (case st_conn t of
        None \<Rightarrow> (Err (ConnectionError ''not connected'' None), t)
      | Some c \<Rightarrow>
          (case read_frame c of
             (Inl data, c) \<Rightarrow> (Ok data, t\<lparr>st_conn := Some c\<rparr>)
           | (Inr (m, e), c) \<Rightarrow>
               (Err (ConnectionError
                  (if m = ''failed to read length prefix'' \<and> e = io_EOF then ''connection closed'' else m) (Some e)),
                t\<lparr>st_conn := Some c\<rparr>)))"

definition st_Close :: "unit outcome \<Rightarrow> SocketTransport \<Rightarrow> unit outcome \<times> SocketTransport" where
  "st_Close res t =
     (case st_conn t of None \<Rightarrow> (Ok (), t) | Some c \<Rightarrow> (res, t\<lparr>st_conn := None\<rparr>))"

definition st_IsConnected :: "SocketTransport \<Rightarrow> bool" where
  "st_IsConnected t \<longleftrightarrow> st_conn t \<noteq> None"

text \<open>The frames of a stream, until reading fails.\<close>

definition frame :: "byte list \<Rightarrow> byte list" where
  "frame data = be32 (of_nat (length data)) @ data"

fun read_frames :: "nat \<Rightarrow> conn \<Rightarrow> byte list list \<times> string \<times> go_error" where
  "read_frames 0 c = ([], '''', io_EOF)"
| "read_frames (Suc n) c =
     (case read_frame c of
        (Inl data, c) \<Rightarrow> (let (ds, e) = read_frames n c in (data # ds, e))
      | (Inr e, c) \<Rightarrow> ([], e))"

section \<open>Framing is faithful\<close>

lemma io_ReadFull_append:
  "cn_in c = bs @ rest \<Longrightarrow> length bs = n \<Longrightarrow> io_ReadFull n c = (Ok bs, c\<lparr>cn_in := rest\<rparr>)"
  by (simp add: io_ReadFull_def)

lemma read_frame_frame:
  assumes "cn_in c = be32 w @ bs @ rest" and "length bs = unat w"
  shows "read_frame c = (Inl bs, c\<lparr>cn_in := rest\<rparr>)"
  using io_ReadFull_append [OF assms(1), of 4] io_ReadFull_append [of "c\<lparr>cn_in := bs @ rest\<rparr>" bs rest] assms(2)
  by (simp add: read_frame_def)

lemma send_frame_writes:
  assumes "cn_room c = None"
  shows "send_frame data c = (None, c\<lparr>cn_out := cn_out c @ frame data\<rparr>)"
  using assms by (simp add: send_frame_def conn_Write_def frame_def)

lemma unat_length: "length data < 2 ^ 32 \<Longrightarrow> unat (of_nat (length data) :: 32 word) = length data"
  by (simp add: unat_of_nat take_bit_nat_eq_self)

text \<open>What a failed write leaves on the stream is a beginning of the frame.\<close>

lemma send_frame_prefix:
  assumes "send_frame data c = (r, c')"
  shows "\<exists>p. prefix p (frame data) \<and> cn_out c' = cn_out c @ p \<and> (r = None \<longrightarrow> p = frame data)"
proof (cases "cn_room c")
  case None
  with assms send_frame_writes [OF None, of data] show ?thesis by auto
next
  case (Some ne)
  obtain n e where "ne = (n, e)" by force
  with Some assms show ?thesis
    by (auto simp: send_frame_def conn_Write_def frame_def take_is_prefix split: if_splits)
qed

lemma read_frame_short:
  assumes "strict_prefix (cn_in c) (frame d)" and "length d < 2 ^ 32"
  shows "\<exists>e c'. read_frame c = (Inr e, c')"
proof (cases "length (cn_in c) < 4")
  case True
  then show ?thesis by (auto simp: read_frame_def io_ReadFull_def)
next
  case False
  let ?w = "of_nat (length d) :: 32 word"
  obtain q where q: "frame d = cn_in c @ q" "q \<noteq> []" using assms(1) by (auto simp: strict_prefix_def prefix_def)
  have "take 4 (cn_in c) = take 4 (frame d)" using False q(1) by simp
  then have len: "take 4 (cn_in c) = be32 ?w" by (simp add: frame_def)
  have "length (cn_in c) < length (frame d)" using q by simp
  then have "length (cn_in c) - 4 < unat ?w" using False unat_length [OF assms(2)] by (simp add: frame_def)
  then show ?thesis using False len by (auto simp: read_frame_def io_ReadFull_def)
qed

lemma read_frame_cons:
  assumes "cn_in c = frame d @ rest" and "length d < 2 ^ 32"
  shows "read_frame c = (Inl d, c\<lparr>cn_in := rest\<rparr>)"
  using read_frame_frame [of c "of_nat (length d)" d rest] assms unat_length [of d] by (simp add: frame_def)

lemma read_frames_prefix:
  assumes "\<forall>d \<in> set ds. length d < 2 ^ 32" and "prefix (cn_in c) (concat (map frame ds))"
  shows "\<exists>k. fst (read_frames (Suc (length ds)) c) = take k ds \<and>
    prefix (concat (map frame (take k ds))) (cn_in c) \<and>
    (k < length ds \<longrightarrow> strict_prefix (cn_in c) (concat (map frame (take (Suc k) ds))))"
  using assms
proof (induction ds arbitrary: c)
  case Nil
  then show ?case by (simp add: read_frame_def io_ReadFull_def)
next
  case (Cons d ds)
  have len: "length d < 2 ^ 32" using Cons.prems(1) by simp
  have "prefix (cn_in c) (frame d) \<or> (\<exists>p. cn_in c = frame d @ p \<and> prefix p (concat (map frame ds)))"
    using Cons.prems(2) by (simp add: prefix_append)
  then consider "strict_prefix (cn_in c) (frame d)" | p where "cn_in c = frame d @ p" "prefix p (concat (map frame ds))"
    by (metis Nil_prefix append_Nil2 strict_prefix_def)
  then show ?case
  proof cases
    case 1
    from read_frame_short [OF this len] 1 show ?thesis by (intro exI [of _ 0]) auto
  next
    case (2 p)
    let ?c = "c\<lparr>cn_in := p\<rparr>"
    obtain k where k: "fst (read_frames (Suc (length ds)) ?c) = take k ds"
      "prefix (concat (map frame (take k ds))) p"
      "k < length ds \<Longrightarrow> strict_prefix p (concat (map frame (take (Suc k) ds)))"
      using Cons.IH [of ?c] Cons.prems(1) 2(2) by auto
    have "fst (read_frames (Suc (length (d # ds))) c) = d # fst (read_frames (Suc (length ds)) ?c)"
      using read_frame_cons [OF 2(1) len] by (simp split: prod.split del: read_frames.simps(2) add: read_frames.simps(2) [of "Suc (length ds)"])
    with k 2(1) show ?thesis
      by (intro exI [of _ "Suc k"]) (auto simp: strict_prefix_def simp del: read_frames.simps)
  qed
qed

text \<open>
  C17. Frames arrive whole, in order and unchanged, or not at all.  When the peer has written
  frames of fewer than \<open>2^32\<close> bytes and the connection delivers any beginning of them, the
  reader gets exactly the payloads of the frames that are complete, in order, and then
  an error.
\<close>

theorem frames_survive_cut:
  assumes "\<forall>d \<in> set ds. length d < 2 ^ 32" and "prefix (cn_in c) (concat (map frame ds))"
  shows "\<exists>k. fst (read_frames (Suc (length ds)) c) = take k ds \<and>
    prefix (concat (map frame (take k ds))) (cn_in c) \<and>
    (k < length ds \<longrightarrow> strict_prefix (cn_in c) (concat (map frame (take (Suc k) ds))))"
  by (rule read_frames_prefix [OF assms])

theorem frames_survive_cut_witness:
  "\<exists>k. fst (read_frames 3 \<lparr>cn_in = frame [1, 2] @ [0, 0], cn_end = io_EOF, cn_out = [], cn_room = None\<rparr>) =
     take k [[1, 2], [3]]"
  (is "\<exists>k. fst (read_frames 3 ?c) = _")
proof -
  have "prefix (cn_in ?c) (concat (map frame [[1, 2], [3]]))" by (simp add: frame_def be32_def)
  from frames_survive_cut [OF _ this] show ?thesis by (auto simp: numeral_3_eq_3)
qed

text \<open>
  A payload of \<open>2^32\<close> bytes or more is not sent whole: its length is written modulo
  \<open>2^32\<close>, the receiver returns that many of its bytes without an error and takes the next bytes of the
  payload for the length of another frame.
\<close>

lemma long_frame_is_cut:
  assumes "2 ^ 32 \<le> length data" and "st_conn t = Some c" and "cn_in c = frame data @ rest"
  shows "fst (ReceiveFramed t) = Ok (take (length data mod 2 ^ 32) data) \<and>
    map_option cn_in (st_conn (snd (ReceiveFramed t))) = Some (drop (length data mod 2 ^ 32) data @ rest)"
proof -
  let ?n = "length data mod 2 ^ 32"
  have "unat (of_nat (length data) :: 32 word) = ?n" by (simp add: unat_of_nat take_bit_eq_mod)
  moreover have "?n \<le> length data" by (rule mod_less_eq_dividend)
  moreover have "cn_in c = be32 (of_nat (length data)) @ take ?n data @ drop ?n data @ rest"
    by (simp add: assms(3) frame_def flip: append_assoc)
  ultimately have "read_frame c = (Inl (take ?n data), c\<lparr>cn_in := drop ?n data @ rest\<rparr>)"
    using read_frame_frame [of c "of_nat (length data)" "take ?n data" "drop ?n data @ rest"] by simp
  then show ?thesis using assms(2) by (simp add: ReceiveFramed_def)
qed

text \<open>Sending and receiving compose to the identity.\<close>

lemma SendFramed_frame:
  assumes "st_conn t = Some c" and "cn_room c = None"
  shows "SendFramed data t = (Ok (), t\<lparr>st_conn := Some (c\<lparr>cn_out := cn_out c @ frame data\<rparr>)\<rparr>)"
  using assms send_frame_writes [of c data] by (simp add: SendFramed_def)

lemma ReceiveFramed_frame:
  assumes "st_conn t = Some c" and "cn_in c = frame data @ rest" and "length data < 2 ^ 32"
  shows "ReceiveFramed t = (Ok data, t\<lparr>st_conn := Some (c\<lparr>cn_in := rest\<rparr>)\<rparr>)"
  using read_frame_cons [OF assms(2,3)] assms(1) by (simp add: ReceiveFramed_def)

section \<open>Endpoints\<close>

datatype endpoint = Unix string | TCP string int | GRPC string | WebSocket string | HTTP string

text \<open>
  \<open>fmt.Sscanf(s, "%d", &port)\<close>: leading blanks are skipped, a sign may follow, then digits; the
  rest of the text is not looked at.  A number beyond 64 bits is an error.
\<close>





definition scan_d :: "string \<Rightarrow> int option" where
  "scan_d s =
     (let s = dropWhile (\<lambda>c. c = CHR '' '' \<or> c = CHR 0x09) s;
          (sign, s) = (case s of c # cs \<Rightarrow> if c = CHR ''-'' then (- 1, cs) else if c = CHR ''+'' then (1, cs) else (1, s) | [] \<Rightarrow> (1, s));
          ds = takeWhile is_digit s; n = sign * digits_value ds
      in if ds = [] \<or> n < - (2 ^ 63) \<or> 2 ^ 63 \<le> n then None else Some n)"

text \<open>The loop that looks for the last colon.\<close>

definition split_port :: "string \<Rightarrow> (string \<times> string) option" where
  "split_port s =
     (if CHR '':'' \<in> set s
      then Some (rev (tl (dropWhile (\<lambda>c. c \<noteq> CHR '':'') (rev s))), rev (takeWhile (\<lambda>c. c \<noteq> CHR '':'') (rev s)))
      else None)"

text \<open>\<open>NewGRPCTransport\<close>, which parses the URL, is the parameter \<open>grpc\<close>.\<close>

definition ParseEndpoint :: "(string \<Rightarrow> endpoint outcome) \<Rightarrow> string \<Rightarrow> endpoint outcome" where
  "ParseEndpoint grpc e =
     (if e = [] then Err (Errorf ''empty endpoint'' [] None)
      else if prefix ''unix://'' e then Ok (Unix (drop 7 e))
      else if prefix ''tcp://'' e then
        (case split_port (drop 6 e) of
           None \<Rightarrow> Err (Errorf ''invalid TCP endpoint format: %s'' [GStr e] None)
         | Some (host, portStr) \<Rightarrow>
             (case scan_d portStr of
                None \<Rightarrow> Err (Errorf ''invalid port in TCP endpoint: %s'' [GStr e] None)
              | Some port \<Rightarrow>
                  if port \<le> 0 \<or> 65535 < port then Err (Errorf ''invalid port in endpoint: %s'' [GStr e] None)
                  else Ok (TCP host port)))
      else if prefix ''grpc://'' e then grpc e
      else if prefix ''wss://'' e \<or> prefix ''ws://'' e then Ok (WebSocket e)
      else if prefix ''https://'' e \<or> prefix ''http://'' e \<or> prefix ''h2c://'' e \<or> prefix ''h3://'' e then Ok (HTTP e)
      else Err (Errorf ''unsupported endpoint format: %s'' [GStr e] None))"

lemma scan_d_show:
  assumes "0 \<le> n" and "n < 2 ^ 63"
  shows "scan_d (show_int n) = Some n"
proof -
  let ?ds = "show_digits (nat n)"
  have ds: "digits_value ?ds = n" "list_all is_digit ?ds" "?ds \<noteq> []" using show_digits_spec [of "nat n"] assms by auto
  obtain c cs where c: "?ds = c # cs" "is_digit c" using ds(2,3) by (cases ?ds) auto
  then have "c \<noteq> CHR '' ''" "c \<noteq> CHR 0x09" "c \<noteq> CHR ''-''" "c \<noteq> CHR ''+''"
    by (auto simp: is_digit_def less_eq_char_def)
  moreover have "takeWhile is_digit cs = cs" using ds(2) c(1) by (simp add: takeWhile_eq_all_conv list_all_iff)
  moreover have "digits_value (c # cs) = n" using ds(1) c(1) by simp
  ultimately show ?thesis using assms c by (simp add: scan_d_def show_int_def Let_def del: takeWhile_eq_all_conv)
qed

lemma split_port_join:
  assumes "CHR '':'' \<notin> set p"
  shows "split_port (h @ CHR '':'' # p) = Some (h, p)"
proof -
  have "dropWhile (\<lambda>c. c \<noteq> CHR '':'') (rev p @ CHR '':'' # rev h) = CHR '':'' # rev h"
    "takeWhile (\<lambda>c. c \<noteq> CHR '':'') (rev p @ CHR '':'' # rev h) = rev p"
    using assms by (simp_all add: dropWhile_append3 dropWhile_append takeWhile_append)
  then show ?thesis by (simp add: split_port_def)
qed

text \<open>
  A TCP address is read back as it is written: parsing the text of a host (which may itself
  contain colons) and a port gives this host and port exactly for the ports 1 to 65535, and
  an error for every other number.
\<close>

lemma ParseEndpoint_tcp:
  assumes "0 \<le> port" and "port < 2 ^ 63"
  shows "ParseEndpoint grpc (''tcp://'' @ host @ '':'' @ show_int port) =
    (if 1 \<le> port \<and> port \<le> 65535 then Ok (TCP host port)
     else Err (Errorf ''invalid port in endpoint: %s'' [GStr (''tcp://'' @ host @ '':'' @ show_int port)] None))"
proof -
  have "CHR '':'' \<notin> set (show_int port)"
    using show_digits_spec [of "nat port"] assms(1)
    by (auto simp: show_int_def list_all_iff is_digit_def less_eq_char_def)
  from split_port_join [OF this, of host] scan_d_show [OF assms] show ?thesis
    by (simp add: ParseEndpoint_def not_le)
qed

end
