(* ===== verification/Remote.thy ===== *)
theory Remote
  imports Framing Checkpoint
begin

text \<open>
  Agents across a connection: the envelopes (\<open>adapter/codec/codec.go\<close>), the server around an
  agent (\<open>adapter/local/local_agent.go\<close>) and the client that is itself an agent
  (\<open>adapter/remote/remote_agent.go\<close>).

  A JSON text is represented by the value that \<open>json.Unmarshal\<close> reads from it (theory \<open>Go_Json\<close>;
  keys match exactly), and a payload on the connection is such a text; theory \<open>Framing\<close> shows that payloads
  arrive as they were sent.  Readings of the clock and new identifiers are arguments.  Writes
  of the server succeed; a panic in one of its goroutines ends the program.
\<close>

section \<open>Messages and envelopes\<close>

record MessageData =
  md_Role :: string
  md_Content :: string
  md_Metadata :: "gmap option"
  md_Timestamp :: string

text \<open>A nil pointer panics.\<close>

definition EncodeMessage :: "(real \<Rightarrow> string) \<Rightarrow> time_texts \<Rightarrow> message option \<Rightarrow> MessageData outcome" where
  "EncodeMessage ff tt msg =
     (case msg of
        None \<Rightarrow> Panic ''nil pointer dereference''
      | Some m \<Rightarrow> Ok \<lparr>md_Role = msg_role m, md_Content = ContentString ff m, md_Metadata = msg_metadata m,
                      md_Timestamp = format_JSON tt (msg_timestamp m)\<rparr>)"

definition DecodeMessage :: "time_texts \<Rightarrow> time \<Rightarrow> MessageData \<Rightarrow> message" where
  "DecodeMessage tt now data =
     \<lparr>msg_role = md_Role data, msg_content = GStr (md_Content data), msg_metadata = md_Metadata data,
      msg_timestamp = (case parse_JSON tt (md_Timestamp data) of Some t \<Rightarrow> t | None \<Rightarrow> now)\<rparr>"

text \<open>A \<open>MessageData\<close> as a value of a payload: the object that its struct tags describe.\<close>

definition message_value :: "MessageData \<Rightarrow> gval" where
  "message_value d =
     GMap [(''role'', GStr (md_Role d)), (''content'', GStr (md_Content d)),
           (''metadata'', json_of_map (md_Metadata d)), (''timestamp'', GStr (md_Timestamp d))]"

definition ProtocolVersion :: string where
  "ProtocolVersion = ''1.0''"

record Envelope =
  ev_Version :: string
  ev_Type :: string
  ev_ID :: string
  ev_Timestamp :: string
  ev_Payload :: "gmap option"

definition new_envelope :: "time_texts \<Rightarrow> time \<Rightarrow> string \<Rightarrow> string \<Rightarrow> gmap \<Rightarrow> Envelope" where
  "new_envelope tt now type i payload =
     \<lparr>ev_Version = ProtocolVersion, ev_Type = type, ev_ID = i, ev_Timestamp = format_JSON tt now,
      ev_Payload = Some payload\<rparr>"

definition CreateRequestEnvelope ::
    "time_texts \<Rightarrow> string \<Rightarrow> time \<Rightarrow> string \<Rightarrow> string \<Rightarrow> gmap option \<Rightarrow> Envelope" where
  "CreateRequestEnvelope tt uuid now method agentName payload =
     (let payload = go_set ''method'' (GStr method) (map_or_empty payload);
          payload = (if agentName \<noteq> [] then go_set ''agent_name'' (GStr agentName) payload else payload)
      in new_envelope tt now ''request'' uuid payload)"

definition CreateResponseEnvelope :: "time_texts \<Rightarrow> time \<Rightarrow> string \<Rightarrow> gmap option \<Rightarrow> Envelope" where
  "CreateResponseEnvelope tt now requestID payload =
     new_envelope tt now ''response'' requestID (map_or_empty payload)"

definition CreateErrorEnvelope ::
    "time_texts \<Rightarrow> time \<Rightarrow> string \<Rightarrow> string \<Rightarrow> string \<Rightarrow> gmap option \<Rightarrow> Envelope" where
  "CreateErrorEnvelope tt now requestID errorCode errorMessage errorDetails =
     new_envelope tt now ''error'' requestID
       [(''error_code'', GStr errorCode), (''error_message'', GStr errorMessage),
        (''error_details'', GMap (map_or_empty errorDetails))]"

definition CreateStreamChunkEnvelope :: "time_texts \<Rightarrow> time \<Rightarrow> string \<Rightarrow> MessageData \<Rightarrow> Envelope" where
  "CreateStreamChunkEnvelope tt now requestID message =
     new_envelope tt now ''stream_chunk'' requestID [(''message'', message_value message)]"

definition CreateStreamEndEnvelope :: "time_texts \<Rightarrow> time \<Rightarrow> string \<Rightarrow> Envelope" where
  "CreateStreamEndEnvelope tt now requestID = new_envelope tt now ''stream_end'' requestID []"

definition validTypes :: "string list" where
  "validTypes = [''request'', ''response'', ''error'', ''heartbeat'', ''register'', ''unregister'',
     ''stream_chunk'', ''stream_end'']"

definition ValidateEnvelope :: "Envelope \<Rightarrow> go_error option" where
  "ValidateEnvelope env =
     (if ev_Version env = [] then Some (Errorf ''missing 'version' field in envelope'' [] None)
      else if ev_Version env \<noteq> ProtocolVersion then
        Some (Errorf ''unsupported protocol version: %s'' [GStr (ev_Version env)] None)
      else if ev_Type env = [] then Some (Errorf ''missing 'type' field in envelope'' [] None)
      else if ev_Type env \<notin> set validTypes then
        Some (Errorf ''invalid message type: %s'' [GStr (ev_Type env)] None)
      else if ev_ID env = [] then Some (Errorf ''missing 'id' field in envelope'' [] None)
      else if ev_Payload env = None then Some (Errorf ''missing 'payload' field in envelope'' [] None)
      else None)"

definition envelope_value :: "Envelope \<Rightarrow> gval" where
  "envelope_value env =
     GMap [(''version'', GStr (ev_Version env)), (''type'', GStr (ev_Type env)), (''id'', GStr (ev_ID env)),
           (''timestamp'', GStr (ev_Timestamp env)), (''payload'', json_of_map (ev_Payload env))]"

definition EncodeBytes :: "Envelope \<Rightarrow> json_text outcome" where
  "EncodeBytes env = json_Marshal (envelope_value env)"

text \<open>Bytes whose error is ignored, as in \<open>endBytes, _ := codec.EncodeBytes(endEnv)\<close>: none if there is one.\<close>

definition bytes_of :: "json_text outcome \<Rightarrow> json_text" where
  "bytes_of r = (case r of Ok t \<Rightarrow> t | _ \<Rightarrow> Malformed (Errors_New ''unexpected end of JSON input''))"

text \<open>\<open>json.Unmarshal\<close> into the struct: a missing key or \<open>null\<close> leaves the zero value, a value of another type is an error.\<close>

definition unmarshal_error :: go_error where
  "unmarshal_error = Errors_New ''json: cannot unmarshal''"

definition field_string :: "gmap \<Rightarrow> string \<Rightarrow> string outcome" where
  "field_string data k =
     (case go_get data k of
        None \<Rightarrow> Ok [] | Some GNil \<Rightarrow> Ok [] | Some (GStr s) \<Rightarrow> Ok s | Some _ \<Rightarrow> Err unmarshal_error)"

definition field_map :: "gmap \<Rightarrow> string \<Rightarrow> gmap option outcome" where
  "field_map data k =
     (case go_get data k of
        None \<Rightarrow> Ok None | Some GNil \<Rightarrow> Ok None | Some (GMap m) \<Rightarrow> Ok (Some m) | Some _ \<Rightarrow> Err unmarshal_error)"

definition unmarshal_envelope :: "json_text \<Rightarrow> Envelope outcome" where
  "unmarshal_envelope t =
     (case t of
        Malformed e \<Rightarrow> Err e
      | Json v \<Rightarrow>
          (case (case v of GMap data \<Rightarrow> Some data | GNil \<Rightarrow> Some [] | _ \<Rightarrow> None) of
             None \<Rightarrow> Err unmarshal_error
           | Some data \<Rightarrow>
               (case (field_string data ''version'', field_string data ''type'', field_string data ''id'',
                      field_string data ''timestamp'', field_map data ''payload'') of
                  (Ok v, Ok ty, Ok i, Ok ts, Ok p) \<Rightarrow>
                    Ok \<lparr>ev_Version = v, ev_Type = ty, ev_ID = i, ev_Timestamp = ts, ev_Payload = p\<rparr>
                | _ \<Rightarrow> Err unmarshal_error)))"

definition DecodeBytes :: "json_text \<Rightarrow> Envelope outcome" where
  "DecodeBytes t =
     (case unmarshal_envelope t of
        Ok env \<Rightarrow> (case ValidateEnvelope env of Some e \<Rightarrow> Err e | None \<Rightarrow> Ok env)
      | Err e \<Rightarrow> Err (Errorf ''failed to decode JSON: %w'' [] (Some e))
      | Panic p \<Rightarrow> Panic p)"

section \<open>The server\<close>

text \<open>The message of a request; every type assertion without a second result panics.\<close>

definition server_message :: "gmap \<Rightarrow> MessageData outcome" where
  "server_message data =
     (case (assert_string data ''role'', assert_string data ''content'', get_map data ''metadata'',
            assert_string data ''timestamp'') of
        (Ok r, Ok c, Some md, Ok ts) \<Rightarrow>
          Ok \<lparr>md_Role = r, md_Content = c, md_Metadata = Some md, md_Timestamp = ts\<rparr>
      | _ \<Rightarrow> Panic ''interface conversion'')"

text \<open>The format \<open>'%s'\<close>.\<close>

definition quoted :: "string \<Rightarrow> string" where
  "quoted s = CHR 0x27 # s @ [CHR 0x27]"

definition payload_of :: "Envelope \<Rightarrow> gmap" where
  "payload_of env = map_or_empty (ev_Payload env)"

definition processRequest ::
    "(go_error \<Rightarrow> string) \<Rightarrow> (real \<Rightarrow> string) \<Rightarrow> time_texts \<Rightarrow> time \<Rightarrow> 'w agent \<Rightarrow> go_ctx \<Rightarrow> json_text \<Rightarrow>
     ('w, json_text) call" where
  "processRequest et ff tt now a ctx requestBytes w =
     (case DecodeBytes requestBytes of
        Err e \<Rightarrow> (Err e, w)
      | Panic p \<Rightarrow> (Panic p, w)
      | Ok request \<Rightarrow>
          if ev_Type request \<noteq> ''request'' then
            (Err (InvalidMessageError (''expected 'request' but got '' @ quoted (ev_Type request))
               (Some [(''request'', envelope_value request)])), w)
          else
            (case get_string (payload_of request) ''method'' of
               None \<Rightarrow> (Err (InvalidMessageError ''missing method'' None), w)
             | Some method \<Rightarrow>
                 if method = ''process'' then
                   (case get_map (payload_of request) ''message'' of
                      None \<Rightarrow> (Err (InvalidMessageError ''invalid message format'' None), w)
                    | Some messageData \<Rightarrow>
                        (case server_message messageData of
                           Ok msgData \<Rightarrow>
                             (let (r, w) = agent_Process a ctx (Some (DecodeMessage tt now msgData)) w in
                              case r of
                                Panic p \<Rightarrow> (Panic p, w)
                              | Err e \<Rightarrow>
                                  (EncodeBytes (CreateErrorEnvelope tt now (ev_ID request) ''AGENT_ERROR'' (et e) None), w)
                              | Ok out \<Rightarrow>
                                  (case EncodeMessage ff tt out of
                                     Ok d \<Rightarrow> (EncodeBytes (CreateResponseEnvelope tt now (ev_ID request)
                                               (Some [(''message'', message_value d)])), w)
                                   | Err e \<Rightarrow> (Err e, w)
                                   | Panic p \<Rightarrow> (Panic p, w)))
                         | Err e \<Rightarrow> (Err e, w)
                         | Panic p \<Rightarrow> (Panic p, w)))
                 else (Err (InvalidMessageError (''unknown method: '' @ method) None), w)))"

text \<open>
  What the select loop of \<open>handleStreamRequest\<close> sees, in the order in which it sees it: the
  chunks and the end of one channel, the errors (nil among them) and the end of the other, the
  end of the context.
\<close>

datatype stream_event = Chunk "message option" | ChunksClosed | StreamFailed go_error | NilError | ErrorsClosed | CtxDone

text \<open>A connection goes on, is closed by the server, waits for more events, or the program ends.\<close>

datatype served = Continues | Closes | Waits | Crashes string

fun stream_loop ::
    "(go_error \<Rightarrow> string) \<Rightarrow> (real \<Rightarrow> string) \<Rightarrow> time_texts \<Rightarrow> time \<Rightarrow> string \<Rightarrow> bool \<Rightarrow> bool \<Rightarrow> stream_event list \<Rightarrow>
     json_text list \<times> served" where
  "stream_loop et ff tt now i messagesClosed errorsClosed [] = ([], Waits)"
| "stream_loop et ff tt now i messagesClosed errorsClosed (ChunksClosed # evs) =
     (if errorsClosed then ([bytes_of (EncodeBytes (CreateStreamEndEnvelope tt now i))], Continues)
      else stream_loop et ff tt now i True errorsClosed evs)"
| "stream_loop et ff tt now i messagesClosed errorsClosed (ErrorsClosed # evs) =
     (if messagesClosed then ([bytes_of (EncodeBytes (CreateStreamEndEnvelope tt now i))], Continues)
      else stream_loop et ff tt now i messagesClosed True evs)"
| "stream_loop et ff tt now i messagesClosed errorsClosed (Chunk chunk # evs) =
     (case EncodeMessage ff tt chunk of
        Ok d \<Rightarrow>
          (case EncodeBytes (CreateStreamChunkEnvelope tt now i d) of
             Ok chunkBytes \<Rightarrow>
               (let (out, r) = stream_loop et ff tt now i messagesClosed errorsClosed evs in (chunkBytes # out, r))
           | Err e \<Rightarrow> ([], Continues)
           | Panic p \<Rightarrow> ([], Crashes p))
      | Err e \<Rightarrow> ([], Continues)
      | Panic p \<Rightarrow> ([], Crashes p))"
| "stream_loop et ff tt now i messagesClosed errorsClosed (StreamFailed e # evs) =
     ([bytes_of (EncodeBytes (CreateErrorEnvelope tt now i ''STREAM_ERROR'' (et e) None))], Continues)"
| "stream_loop et ff tt now i messagesClosed errorsClosed (NilError # evs) =
     stream_loop et ff tt now i messagesClosed errorsClosed evs"
| "stream_loop et ff tt now i messagesClosed errorsClosed (CtxDone # evs) =
     ([bytes_of (EncodeBytes (CreateErrorEnvelope tt now i ''CANCELLED'' ''context cancelled'' None))], Continues)"

text \<open>An agent that streams, as the events it causes; \<open>None\<close> if the agent does not stream.\<close>

type_synonym 'w streamer = "(go_ctx \<Rightarrow> message option \<Rightarrow> 'w \<Rightarrow> stream_event list \<times> 'w) option"

definition handleStreamRequest ::
    "(go_error \<Rightarrow> string) \<Rightarrow> (real \<Rightarrow> string) \<Rightarrow> time_texts \<Rightarrow> time \<Rightarrow> 'w streamer \<Rightarrow> go_ctx \<Rightarrow> Envelope \<Rightarrow> 'w \<Rightarrow>
     (json_text list \<times> served) \<times> 'w" where
  "handleStreamRequest et ff tt now sa ctx request w =
     (let sendError = (\<lambda>code text. (([bytes_of (EncodeBytes (CreateErrorEnvelope tt now (ev_ID request) code text None))], Continues), w)) in
      if ev_Type request \<noteq> ''request'' then
        sendError ''INVALID_MESSAGE'' (''expected 'request' but got '' @ quoted (ev_Type request))
      else
        (case get_map (payload_of request) ''message'' of
           None \<Rightarrow> sendError ''INVALID_MESSAGE'' ''invalid message format''
         | Some messageData \<Rightarrow>
             (case server_message messageData of
                Ok msgData \<Rightarrow>
                  (case sa of
                     None \<Rightarrow> sendError ''NOT_IMPLEMENTED'' ''agent does not support streaming''
                   | Some str \<Rightarrow>
                       (let (evs, w) = str ctx (Some (DecodeMessage tt now msgData)) w in
                        (stream_loop et ff tt now (ev_ID request) False False evs, w)))
              | Err e \<Rightarrow> sendError ''INVALID_MESSAGE'' (et e)
              | Panic p \<Rightarrow> (([], Crashes p), w))))"

text \<open>One round of the loop of \<open>handleClient\<close>: what it sends, and how it goes on.\<close>

definition serve ::
    "(go_error \<Rightarrow> string) \<Rightarrow> (real \<Rightarrow> string) \<Rightarrow> time_texts \<Rightarrow> time \<Rightarrow> 'w agent \<Rightarrow> 'w streamer \<Rightarrow> go_ctx \<Rightarrow> json_text \<Rightarrow> 'w \<Rightarrow>
     (json_text list \<times> served) \<times> 'w" where
  "serve et ff tt now a sa ctx payload w =
     (let sendError = (\<lambda>i code text. [bytes_of (EncodeBytes (CreateErrorEnvelope tt now i code text None))]) in
      case DecodeBytes payload of
        Err e \<Rightarrow> ((sendError ''unknown'' ''INVALID_MESSAGE'' (et e), Closes), w)
      | Panic p \<Rightarrow> (([], Crashes p), w)
      | Ok request \<Rightarrow>
          (case get_string (payload_of request) ''method'' of
             None \<Rightarrow> ((sendError (ev_ID request) ''INVALID_MESSAGE'' ''missing method'', Closes), w)
           | Some method \<Rightarrow>
               if method = ''stream'' then handleStreamRequest et ff tt now sa ctx request w
               else
                 (case processRequest et ff tt now a ctx payload w of
                    (Ok response, w) \<Rightarrow> (([response], Continues), w)
                  | (Err e, w) \<Rightarrow> ((sendError (ev_ID request) ''INTERNAL_ERROR'' (et e), Closes), w)
                  | (Panic p, w) \<Rightarrow> (([], Crashes p), w))))"

section \<open>The client\<close>

text \<open>The interface \<open>Transport\<close> over payloads, acting on a world.\<close>

record 'w Transport =
  tr_Connect :: "'w \<Rightarrow> go_error option \<times> 'w"
  tr_SendFramed :: "json_text \<Rightarrow> 'w \<Rightarrow> go_error option \<times> 'w"
  tr_ReceiveFramed :: "'w \<Rightarrow> json_text outcome \<times> 'w"
  tr_Close :: "'w \<Rightarrow> go_error option \<times> 'w"

record RemoteAgent =
  ra_name :: string
  ra_endpoint :: string
  ra_timeout :: duration
  ra_connected :: bool

definition NewRemoteAgentWithTransport :: "string \<Rightarrow> duration \<Rightarrow> RemoteAgent" where
  "NewRemoteAgentWithTransport name timeout =
     \<lparr>ra_name = name, ra_endpoint = [], ra_timeout = (if timeout = 0 then 30 * second else timeout),
      ra_connected = False\<rparr>"

type_synonym ('w, 'a) remote_call = "(RemoteAgent \<times> 'w, 'a) call"

definition ensureConnected :: "'w Transport \<Rightarrow> ('w, unit) remote_call" where
  "ensureConnected tr s =
     (let (r, w) = s in
      if ra_connected r then (Ok (), s)
      else (case tr_Connect tr w of
              (Some e, w) \<Rightarrow> (Err e, r, w)
            | (None, w) \<Rightarrow> (Ok (), r\<lparr>ra_connected := True\<rparr>, w)))"

text \<open>Lifting an operation of the transport that returns only an error.\<close>

definition transport_op :: "('w \<Rightarrow> go_error option \<times> 'w) \<Rightarrow> ('w, unit) remote_call" where
  "transport_op f s =
     (let (r, w) = s in case f w of (Some e, w) \<Rightarrow> (Err e, r, w) | (None, w) \<Rightarrow> (Ok (), r, w))"

text \<open>\<open>ReceiveFramed\<close> with its error handling; \<open>late\<close> says that \<open>ctx.Err()\<close> is then \<open>DeadlineExceeded\<close>.\<close>

definition receive_payload :: "'w Transport \<Rightarrow> bool \<Rightarrow> ('w, json_text) remote_call" where
  "receive_payload tr late s =
     (let (r, w) = s in
      case tr_ReceiveFramed tr w of
        (Ok d, w) \<Rightarrow> (Ok d, r, w)
      | (Err e, w) \<Rightarrow> (Err (if late then AgentTimeoutError (ra_name r) (Seconds (ra_timeout r)) else e), r, w)
      | (Panic p, w) \<Rightarrow> (Panic p, r, w))"

definition decode_payload :: "json_text \<Rightarrow> ('w, Envelope) remote_call" where
  "decode_payload d s = (DecodeBytes d, s)"

text \<open>The message of a response or chunk; metadata that is not an object is dropped.\<close>

definition client_message :: "gmap \<Rightarrow> MessageData outcome" where
  "client_message data =
     (case (assert_string data ''role'', assert_string data ''content'', assert_string data ''timestamp'') of
        (Ok r, Ok c, Ok ts) \<Rightarrow>
          Ok \<lparr>md_Role = r, md_Content = c, md_Metadata = get_map data ''metadata'', md_Timestamp = ts\<rparr>
      | _ \<Rightarrow> Panic ''interface conversion'')"

definition remote_error :: "string \<Rightarrow> Envelope \<Rightarrow> go_error" where
  "remote_error name response =
     RemoteExecutionError name
       (case get_string (payload_of response) ''error_message'' of Some s \<Rightarrow> s | None \<Rightarrow> [])
       (get_map (payload_of response) ''error_details'')"

definition handle_response :: "time_texts \<Rightarrow> time \<Rightarrow> string \<Rightarrow> Envelope \<Rightarrow> reply" where
  "handle_response tt now name response =
     (if ev_Type response = ''error'' then Err (remote_error name response)
      else if ev_Type response \<noteq> ''response'' then
        Err (InvalidMessageError (''expected 'response' but got '' @ quoted (ev_Type response))
          (Some [(''response'', envelope_value response)]))
      else
        (case get_map (payload_of response) ''message'' of
           None \<Rightarrow> Err (InvalidMessageError ''invalid message format in response'' None)
         | Some messageData \<Rightarrow>
             (case client_message messageData of
                Ok d \<Rightarrow> Ok (Some (DecodeMessage tt now d))
              | Err e \<Rightarrow> Err e
              | Panic p \<Rightarrow> Panic p)))"

definition lift_outcome :: "'a outcome \<Rightarrow> ('s, 'a) call" where
  "lift_outcome r s = (r, s)"

definition remote_request ::
    "(real \<Rightarrow> string) \<Rightarrow> time_texts \<Rightarrow> string \<Rightarrow> time \<Rightarrow> string \<Rightarrow> message option \<Rightarrow> ('w, Envelope) remote_call" where
  "remote_request ff tt uuid now method message s =
     (case EncodeMessage ff tt message of
        Ok d \<Rightarrow> (Ok (CreateRequestEnvelope tt uuid now method (ra_name (fst s)) (Some [(''message'', message_value d)])), s)
      | Err e \<Rightarrow> (Err e, s)
      | Panic p \<Rightarrow> (Panic p, s))"

definition encode_request :: "Envelope \<Rightarrow> ('w, json_text) remote_call" where
  "encode_request request s =
     (case EncodeBytes request of
        Ok requestBytes \<Rightarrow> (Ok requestBytes, s)
      | Err e \<Rightarrow> (Err (Errorf ''failed to encode request: %w'' [] (Some e)), s)
      | Panic p \<Rightarrow> (Panic p, s))"

text \<open>\<open>Process\<close> over a transport that carries bytes.\<close>

definition remote_Process ::
    "(real \<Rightarrow> string) \<Rightarrow> time_texts \<Rightarrow> 'w Transport \<Rightarrow> string \<Rightarrow> time \<Rightarrow> bool \<Rightarrow> message option \<Rightarrow>
     ('w, message option) remote_call" where
  "remote_Process ff tt tr uuid now late message =
     and_then (ensureConnected tr) (\<lambda>_.
     and_then (remote_request ff tt uuid now ''process'' message) (\<lambda>request.
     and_then (encode_request request) (\<lambda>requestBytes.
     and_then (transport_op (tr_SendFramed tr requestBytes)) (\<lambda>_.
     and_then (receive_payload tr late) (\<lambda>responseBytes.
     and_then (decode_payload responseBytes) (\<lambda>response s.
       (handle_response tt now (ra_name (fst s)) response, s)))))))"

text \<open>
  \<open>handleStreamResponse\<close>: a chunk for the message channel, an error for the error channel, or
  the end.  The consumer takes the chunk unless its context ends first (\<open>gone\<close>).
\<close>

definition handleStreamResponse ::
    "time_texts \<Rightarrow> time \<Rightarrow> string \<Rightarrow> go_error option \<Rightarrow> Envelope \<Rightarrow> message option outcome" where
  "handleStreamResponse tt now name gone response =
     (if ev_Type response = ''error'' then Err (remote_error name response)
      else if ev_Type response = ''stream_chunk'' then
        (case get_map (payload_of response) ''message'' of
           None \<Rightarrow> Err (InvalidMessageError ''invalid message format in stream chunk'' None)
         | Some messageData \<Rightarrow>
             (case client_message messageData of
                Ok d \<Rightarrow> (case gone of Some e \<Rightarrow> Err e | None \<Rightarrow> Ok (Some (DecodeMessage tt now d)))
              | Err e \<Rightarrow> Err e
              | Panic p \<Rightarrow> Panic p))
      else if ev_Type response = ''stream_end'' then Ok None
      else Err (InvalidMessageError (''expected 'stream_chunk' or 'stream_end' but got '' @ quoted (ev_Type response))
             (Some [(''response'', envelope_value response)])))"

text \<open>
  The loop that receives chunks: the chunks delivered and how it ended, at most \<open>fuel\<close> rounds (\<open>None\<close>: more).
  \<open>gone k\<close> is the error of the context if it ends before chunk \<open>k\<close> is taken.
\<close>

fun stream_receive ::
    "time_texts \<Rightarrow> 'w Transport \<Rightarrow> time \<Rightarrow> bool \<Rightarrow> (nat \<Rightarrow> go_error option) \<Rightarrow> nat \<Rightarrow> nat \<Rightarrow> RemoteAgent \<times> 'w \<Rightarrow>
     (message list \<times> unit outcome) option \<times> RemoteAgent \<times> 'w" where
  "stream_receive tt tr now late gone 0 k s = (None, s)"
| "stream_receive tt tr now late gone (Suc fuel) k s =
     (case and_then (receive_payload tr late) decode_payload s of
        (Err e, s) \<Rightarrow> (Some ([], Err e), s)
      | (Panic p, s) \<Rightarrow> (Some ([], Panic p), s)
      | (Ok response, s) \<Rightarrow>
          (case handleStreamResponse tt now (ra_name (fst s)) (gone k) response of
             Err e \<Rightarrow> (Some ([], Err e), s)
           | Panic p \<Rightarrow> (Some ([], Panic p), s)
           | Ok None \<Rightarrow> (Some ([], Ok ()), s)
           | Ok (Some m) \<Rightarrow>
               (case stream_receive tt tr now late gone fuel (k + 1) s of
                  (None, s) \<Rightarrow> (None, s)
                | (Some (ms, r), s) \<Rightarrow> (Some (m # ms, r), s))))"

definition remote_Stream ::
    "(real \<Rightarrow> string) \<Rightarrow> time_texts \<Rightarrow> 'w Transport \<Rightarrow> string \<Rightarrow> time \<Rightarrow> bool \<Rightarrow> (nat \<Rightarrow> go_error option) \<Rightarrow> nat \<Rightarrow>
     message option \<Rightarrow> RemoteAgent \<times> 'w \<Rightarrow> (message list \<times> unit outcome) option \<times> RemoteAgent \<times> 'w" where
  "remote_Stream ff tt tr uuid now late gone fuel message s =
     (case and_then (ensureConnected tr) (\<lambda>_.
           and_then (remote_request ff tt uuid now ''stream'' message) (\<lambda>request.
           and_then (encode_request request) (\<lambda>requestBytes.
             transport_op (tr_SendFramed tr requestBytes)))) s of
        (Ok _, s) \<Rightarrow> stream_receive tt tr now late gone fuel 0 s
      | (Err e, s) \<Rightarrow> (Some ([], Err e), s)
      | (Panic p, s) \<Rightarrow> (Some ([], Panic p), s))"

definition remote_Close :: "'w Transport \<Rightarrow> ('w, unit) remote_call" where
  "remote_Close tr s =
     (let (r, w) = s in
      if ra_connected r then
        (case tr_Close tr w of
           (None, w) \<Rightarrow> (Ok (), r\<lparr>ra_connected := False\<rparr>, w)
         | (Some e, w) \<Rightarrow> (Err e, r\<lparr>ra_connected := False\<rparr>, w))
      else (Ok (), s))"

section \<open>A client and a server\<close>

text \<open>
  What the wire keeps of a message: the content becomes its text, and the metadata what JSON
  makes of them.
\<close>

definition wire :: "(real \<Rightarrow> string) \<Rightarrow> message \<Rightarrow> message" where
  "wire ff m = m\<lparr>msg_content := GStr (ContentString ff m), msg_metadata := map_option json_map (msg_metadata m)\<rparr>"

text \<open>
  The connection: the world of the server, the payloads it has sent that the client has not
  read, whether it still serves the connection and whether the program has ended.  The
  server answers a payload before the client reads again; a read with nothing to come fails.
\<close>

record 'w link =
  ln_server :: 'w
  ln_unread :: "json_text list"
  ln_open :: bool
  ln_crashed :: bool

definition connection_closed :: go_error where
  "connection_closed = ConnectionError ''connection closed'' (Some io_EOF)"

definition link_transport :: "(json_text \<Rightarrow> 'w \<Rightarrow> (json_text list \<times> served) \<times> 'w) \<Rightarrow> 'w link Transport" where
  "link_transport srv =
     \<lparr>tr_Connect = (\<lambda>l. if ln_crashed l then (Some (ConnectionError ''failed to connect'' None), l)
                        else (None, l\<lparr>ln_unread := [], ln_open := True\<rparr>)),
      tr_SendFramed = (\<lambda>d l. if ln_open l then
          (let ((out, st), w) = srv d (ln_server l) in
           (None, l\<lparr>ln_server := w, ln_unread := ln_unread l @ out, ln_open := (st = Continues \<or> st = Waits),
                    ln_crashed := (case st of Crashes _ \<Rightarrow> True | _ \<Rightarrow> False)\<rparr>))
        else (None, l)),
      tr_ReceiveFramed = (\<lambda>l. case ln_unread l of d # ds \<Rightarrow> (Ok d, l\<lparr>ln_unread := ds\<rparr>) | [] \<Rightarrow> (Err connection_closed, l)),
      tr_Close = (\<lambda>l. (None, l\<lparr>ln_open := False, ln_unread := []\<rparr>))\<rparr>"

lemmas link_defs = link_transport_def ensureConnected_def transport_op_def receive_payload_def decode_payload_def
  remote_request_def encode_request_def and_then_def

text \<open>The text of an envelope that JSON represents exactly.\<close>

definition encoded :: "Envelope \<Rightarrow> json_text" where
  "encoded env = Json (json_value (envelope_value env))"

definition exact_envelope :: "Envelope \<Rightarrow> bool" where
  "exact_envelope env \<longleftrightarrow>
     valid_utf8 (ev_Version env) \<and> valid_utf8 (ev_Type env) \<and> valid_utf8 (ev_ID env) \<and> valid_utf8 (ev_Timestamp env) \<and>
     json_ok (json_of_map (ev_Payload env))"

lemma EncodeBytes_exact: "exact_envelope env \<Longrightarrow> EncodeBytes env = Ok (encoded env)"
  unfolding EncodeBytes_def encoded_def
  by (rule json_Marshal_ok) (simp add: exact_envelope_def envelope_value_def)

lemma DecodeBytes_encoded:
  assumes "exact_envelope env" and "ev_Version env = ProtocolVersion" and "ev_Type env \<in> set validTypes" and "ev_ID env \<noteq> []"
    and "ev_Payload env = Some p"
  shows "DecodeBytes (encoded env) = Ok (env\<lparr>ev_Payload := Some (json_map p)\<rparr>)"
proof -
  have "json_value (envelope_value env) = GMap [(''version'', GStr (ev_Version env)), (''type'', GStr (ev_Type env)),
      (''id'', GStr (ev_ID env)), (''timestamp'', GStr (ev_Timestamp env)), (''payload'', GMap (json_map p))]"
    using assms(1,5) by (simp add: envelope_value_def json_map_valid exact_envelope_def json_of_map_def)
  moreover have "ev_Type env \<noteq> []" using assms(3) by (auto simp: validTypes_def)
  ultimately show ?thesis
    using assms by (cases env) (simp add: DecodeBytes_def encoded_def unmarshal_envelope_def
        field_string_def field_map_def ValidateEnvelope_def ProtocolVersion_def)
qed

text \<open>
  Envelopes survive the wire: an envelope that JSON represents exactly can be encoded, and
  decoding it, if it has the protocol version, a known type, an identifier and a payload,
  returns it, with the payload as JSON makes it; every envelope that decoding accepts is of
  this form.
\<close>

lemma envelope_roundtrip:
  "(exact_envelope env \<and> ev_Version env = ProtocolVersion \<and> ev_Type env \<in> set validTypes \<and> ev_ID env \<noteq> [] \<and> ev_Payload env \<noteq> None \<longrightarrow>
      (\<exists>t. EncodeBytes env = Ok t \<and> DecodeBytes t = Ok (env\<lparr>ev_Payload := map_option json_map (ev_Payload env)\<rparr>))) \<and>
   (DecodeBytes t = Ok e \<longrightarrow>
      ev_Version e = ProtocolVersion \<and> ev_Type e \<in> set validTypes \<and> ev_ID e \<noteq> [] \<and> ev_Payload e \<noteq> None)"
proof -
  have "ev_Version e = ProtocolVersion \<and> ev_Type e \<in> set validTypes \<and> ev_ID e \<noteq> [] \<and> ev_Payload e \<noteq> None"
    if "DecodeBytes t = Ok e"
    using that by (auto simp: DecodeBytes_def ValidateEnvelope_def split: outcome.splits option.splits if_splits)
  then show ?thesis using DecodeBytes_encoded [of env] EncodeBytes_exact [of env] by auto
qed

definition message_map :: "(real \<Rightarrow> string) \<Rightarrow> time_texts \<Rightarrow> message \<Rightarrow> gmap" where
  "message_map ff tt m = [(''role'', GStr (msg_role m)), (''content'', GStr (ContentString ff m)),
    (''metadata'', json_of_map (msg_metadata m)), (''timestamp'', GStr (format_JSON tt (msg_timestamp m)))]"

text \<open>Messages that the wire carries exactly: texts in UTF-8, integers of at most 53 bits, no functions.\<close>

definition exact_wire :: "(real \<Rightarrow> string) \<Rightarrow> message \<Rightarrow> bool" where
  "exact_wire ff m \<longleftrightarrow> valid_utf8 (msg_role m) \<and> valid_utf8 (ContentString ff m) \<and> json_ok (json_of_map (msg_metadata m))"

lemma json_message_map:
  assumes "rfc3339_nano tt" and "exact_wire ff m"
  shows "json_map (message_map ff tt m) = message_map ff tt (wire ff m)" and "json_ok (GMap (message_map ff tt m))"
proof -
  have "valid_keys (message_map ff tt m)" by (simp add: message_map_def)
  then show "json_map (message_map ff tt m) = message_map ff tt (wire ff m)"
    using assms by (simp add: json_map_valid)
      (simp add: message_map_def exact_wire_def rfc3339_nano_def wire_def json_value_of_map ContentString_def)
  show "json_ok (GMap (message_map ff tt m))"
    using assms by (simp add: message_map_def exact_wire_def rfc3339_nano_def)
qed

lemma client_message_wire:
  assumes "rfc3339_nano tt"
  shows "\<exists>d. client_message (message_map ff tt (wire ff m)) = Ok d \<and> DecodeMessage tt now d = wire ff m"
  using assms by (auto simp: client_message_def message_map_def assert_string_def get_map_def json_of_map_def
      DecodeMessage_def rfc3339_nano_def wire_def ContentString_def split: option.splits)

lemma server_message_wire:
  assumes "rfc3339_nano tt" and "msg_metadata m \<noteq> None"
  shows "\<exists>d. server_message (message_map ff tt (wire ff m)) = Ok d \<and> DecodeMessage tt now d = wire ff m"
  using assms by (auto simp: server_message_def message_map_def assert_string_def get_map_def json_of_map_def
      DecodeMessage_def rfc3339_nano_def wire_def ContentString_def)

lemma server_message_nil:
  "msg_metadata m = None \<Longrightarrow> server_message (message_map ff tt (wire ff m)) = Panic ''interface conversion''"
  by (simp add: server_message_def message_map_def assert_string_def get_map_def json_of_map_def wire_def)

lemma EncodeMessage_Some:
  "\<exists>d. EncodeMessage ff tt (Some m) = Ok d \<and> message_value d = GMap (message_map ff tt m)"
  by (simp add: EncodeMessage_def message_value_def message_map_def)

lemma get_message:
  assumes "rfc3339_nano tt" and "exact_wire ff m"
  shows "json_map [(''message'', GMap (message_map ff tt m))] = [(''message'', GMap (message_map ff tt (wire ff m)))]"
  by (subst json_map_valid) (simp_all add: json_message_map [OF assms])

lemma DecodeBytes_new:
  assumes "rfc3339_nano tt" and "i \<noteq> []" and "valid_utf8 i" and "type \<in> set validTypes" and "json_ok (GMap p)"
  shows "EncodeBytes (new_envelope tt now type i p) = Ok (encoded (new_envelope tt now type i p))"
    and "DecodeBytes (encoded (new_envelope tt now type i p)) = Ok (new_envelope tt now type i (json_map p))"
proof -
  have "valid_utf8 type" using assms(4) by (auto simp: validTypes_def)
  then have ex: "exact_envelope (new_envelope tt now type i p)"
    using assms by (simp add: exact_envelope_def new_envelope_def ProtocolVersion_def json_of_map_def rfc3339_nano_def)
  from EncodeBytes_exact [OF this] show "EncodeBytes (new_envelope tt now type i p) = Ok (encoded (new_envelope tt now type i p))" .
  show "DecodeBytes (encoded (new_envelope tt now type i p)) = Ok (new_envelope tt now type i (json_map p))"
    using DecodeBytes_encoded [OF ex, of p] assms by (simp add: new_envelope_def)
qed

text \<open>The request as the server reads it.\<close>

lemma DecodeBytes_request:
  fixes m :: message and now :: time
  assumes "rfc3339_nano tt" and "exact_wire ff m" and "uuid \<noteq> []" and "valid_utf8 uuid" and "valid_utf8 name" and "valid_utf8 method"
  defines "env \<equiv> CreateRequestEnvelope tt uuid now method name (Some [(''message'', GMap (message_map ff tt m))])"
  shows "EncodeBytes env = Ok (encoded env)"
    and "\<exists>request. DecodeBytes (encoded env) = Ok request \<and> ev_Type request = ''request'' \<and>
    ev_ID request = uuid \<and> get_string (payload_of request) ''method'' = Some method \<and>
    get_map (payload_of request) ''message'' = Some (message_map ff tt (wire ff m))"
proof -
  define p where "p = [(''message'', GMap (message_map ff tt m)), (''method'', GStr method)] @
    (if name \<noteq> [] then [(''agent_name'', GStr name)] else [])"
  have env: "env = new_envelope tt now ''request'' uuid p"
    by (simp add: env_def CreateRequestEnvelope_def map_or_empty_def Let_def p_def)
  have ok: "json_ok (GMap p)" using json_message_map(2) [OF assms(1,2)] assms(5,6) by (simp add: p_def)
  have ty: "''request'' \<in> set validTypes" by (simp add: validTypes_def)
  note dec = DecodeBytes_new [OF assms(1,3,4) ty ok, of now, folded env]
  from dec(1) show "EncodeBytes env = Ok (encoded env)" .
  have keys: "valid_keys p" using ok unfolding json_ok_map by blast
  have get: "go_get p ''method'' = Some (GStr method)" "go_get p ''message'' = Some (GMap (message_map ff tt m))"
    by (simp_all add: p_def)
  show "\<exists>request. DecodeBytes (encoded env) = Ok request \<and> ev_Type request = ''request'' \<and>
    ev_ID request = uuid \<and> get_string (payload_of request) ''method'' = Some method \<and>
    get_map (payload_of request) ''message'' = Some (message_map ff tt (wire ff m))"
    using dec(2) json_message_map(1) [OF assms(1,2)] assms(6)
    by (simp add: new_envelope_def payload_of_def map_or_empty_def get_string_def get_map_def json_map_get [OF keys] get)
qed

text \<open>The reply that a client sees for the reply of the agent.\<close>

definition wire_reply :: "(go_error \<Rightarrow> string) \<Rightarrow> (real \<Rightarrow> string) \<Rightarrow> string \<Rightarrow> reply \<Rightarrow> reply" where
  "wire_reply et ff name r =
     (case r of
        Ok out \<Rightarrow> Ok (map_option (wire ff) out)
      | Err e \<Rightarrow> Err (RemoteExecutionError name (et e) (Some []))
      | Panic p \<Rightarrow> Panic p)"

text \<open>Replies that the wire carries exactly.\<close>

definition exact_reply :: "(go_error \<Rightarrow> string) \<Rightarrow> (real \<Rightarrow> string) \<Rightarrow> reply \<Rightarrow> bool" where
  "exact_reply et ff r =
     (case r of Ok (Some m) \<Rightarrow> exact_wire ff m | Ok None \<Rightarrow> False | Err e \<Rightarrow> valid_utf8 (et e) | Panic p \<Rightarrow> False)"

lemma processRequest_wire:
  assumes tt: "rfc3339_nano tt" and md: "msg_metadata m \<noteq> None" and uuid: "uuid \<noteq> []" "valid_utf8 uuid"
    and request: "DecodeBytes req = Ok request" "ev_Type request = ''request''" "ev_ID request = uuid"
      "get_string (payload_of request) ''method'' = Some ''process''"
      "get_map (payload_of request) ''message'' = Some (message_map ff tt (wire ff m))"
    and run: "agent_Process a ctx (Some (wire ff m)) w = (r, w')" and exact: "exact_reply et ff r"
  shows "\<exists>response. processRequest et ff tt now a ctx req w = (Ok response, w') \<and>
    (\<exists>env. DecodeBytes response = Ok env \<and> handle_response tt now'' name env = wire_reply et ff name r)"
proof -
  obtain d where d: "server_message (message_map ff tt (wire ff m)) = Ok d" "DecodeMessage tt now d = wire ff m"
    using server_message_wire [OF tt md] by blast
  show ?thesis
  proof (cases r)
    case (Ok out)
    then obtain o' where o': "out = Some o'" "exact_wire ff o'" using exact by (cases out) (auto simp: exact_reply_def)
    obtain d' where d': "EncodeMessage ff tt (Some o') = Ok d'" "message_value d' = GMap (message_map ff tt o')"
      using EncodeMessage_Some by blast
    let ?p = "[(''message'', GMap (message_map ff tt o'))]"
    have "json_ok (GMap ?p)" using json_message_map(2) [OF tt o'(2)] by simp
    moreover have "''response'' \<in> set validTypes" by (simp add: validTypes_def)
    ultimately have enc: "EncodeBytes (new_envelope tt now ''response'' uuid ?p) = Ok (encoded (new_envelope tt now ''response'' uuid ?p))"
      "DecodeBytes (encoded (new_envelope tt now ''response'' uuid ?p)) = Ok (new_envelope tt now ''response'' uuid (json_map ?p))"
      using DecodeBytes_new [OF tt uuid] by blast+
    obtain d'' where "client_message (message_map ff tt (wire ff o')) = Ok d''" "DecodeMessage tt now'' d'' = wire ff o'"
      using client_message_wire [OF tt] by blast
    then have "handle_response tt now'' name (new_envelope tt now ''response'' uuid (json_map ?p)) = wire_reply et ff name r"
      unfolding get_message [OF tt o'(2)]
      by (simp add: handle_response_def new_envelope_def payload_of_def map_or_empty_def get_map_def wire_reply_def Ok o')
    moreover have "processRequest et ff tt now a ctx req w = (Ok (encoded (new_envelope tt now ''response'' uuid ?p)), w')"
      using request d run d' enc(1) by (simp add: processRequest_def Ok o' CreateResponseEnvelope_def map_or_empty_def)
    ultimately show ?thesis using enc(2) by blast
  next
    case (Err e)
    let ?p = "[(''error_code'', GStr ''AGENT_ERROR''), (''error_message'', GStr (et e)), (''error_details'', GMap [])]"
    have keys: "valid_keys ?p" by simp
    have "json_ok (GMap ?p)" using exact by (simp add: exact_reply_def Err)
    moreover have "''error'' \<in> set validTypes" by (simp add: validTypes_def)
    ultimately have enc: "EncodeBytes (new_envelope tt now ''error'' uuid ?p) = Ok (encoded (new_envelope tt now ''error'' uuid ?p))"
      "DecodeBytes (encoded (new_envelope tt now ''error'' uuid ?p)) = Ok (new_envelope tt now ''error'' uuid (json_map ?p))"
      using DecodeBytes_new [OF tt uuid] by blast+
    have "handle_response tt now'' name (new_envelope tt now ''error'' uuid (json_map ?p)) = wire_reply et ff name r"
      using exact by (simp add: handle_response_def new_envelope_def remote_error_def payload_of_def map_or_empty_def get_map_def
          get_string_def wire_reply_def Err json_map_valid [OF keys] exact_reply_def)
    moreover have "processRequest et ff tt now a ctx req w = (Ok (encoded (new_envelope tt now ''error'' uuid ?p)), w')"
      using request d run enc(1) by (simp add: processRequest_def Err CreateErrorEnvelope_def map_or_empty_def)
    ultimately show ?thesis using enc(2) by blast
  qed (use exact in \<open>simp add: exact_reply_def\<close>)
qed

definition idle :: "'w \<Rightarrow> 'w link" where
  "idle w = \<lparr>ln_server = w, ln_unread = [], ln_open = True, ln_crashed = False\<rparr>"

text \<open>
  C16. A remote agent answers like the agent behind it.  Over a connection with nothing in
  flight, for a message that has metadata, the server calls its agent once, on the message as
  the wire carries it; the client returns the reply as the wire carries it, an error of the
  agent as a \<open>RemoteExecutionError\<close> with its text; and nothing is in flight afterwards, so
  the same holds for the next call.  This assumes that the agent does not panic and does
  not return a nil message without an error (either ends the server), and that JSON
  represents message and reply exactly: texts in UTF-8, integers of at most 53 bits, no
  functions.  What a request with a function in its metadata gives is proved too: the
  client returns the error of the encoder, and the server sees nothing.
\<close>

theorem remote_call_transparent:
  assumes "rfc3339_nano tt" and "uuid \<noteq> []" and "valid_utf8 uuid" and "valid_utf8 (ra_name ra)"
  shows "(msg_metadata m \<noteq> None \<and> exact_wire ff m \<and> agent_Process a ctx (Some (wire ff m)) w = (r, w') \<and>
      r \<noteq> Ok None \<and> \<not> is_Panic r \<and> exact_reply et ff r \<longrightarrow>
      remote_Process ff tt (link_transport (serve et ff tt now a sa ctx)) uuid now' late (Some m) (ra, idle w) =
        (wire_reply et ff (ra_name ra) r, ra\<lparr>ra_connected := True\<rparr>, idle w')) \<and>
    (\<not> json_supported (json_of_map (msg_metadata m)) \<longrightarrow>
      (\<exists>e. remote_Process ff tt (link_transport (serve et ff tt now a sa ctx)) uuid now' late (Some m) (ra, idle w) =
        (Err (Errorf ''failed to encode request: %w'' [] (Some e)), ra\<lparr>ra_connected := True\<rparr>, idle w)))"
proof (intro conjI impI; (elim conjE)?)
  obtain d where d: "EncodeMessage ff tt (Some m) = Ok d" "message_value d = GMap (message_map ff tt m)"
    using EncodeMessage_Some by blast
  let ?req = "CreateRequestEnvelope tt uuid now' ''process'' (ra_name ra) (Some [(''message'', GMap (message_map ff tt m))])"
  {
    assume md: "msg_metadata m \<noteq> None" and m: "exact_wire ff m" and run: "agent_Process a ctx (Some (wire ff m)) w = (r, w')"
      and ex: "exact_reply et ff r"
    have pm: "valid_utf8 ''process''" by simp
    note enc = DecodeBytes_request [OF assms(1) m assms(2-4) pm, of now']
    obtain request where request: "DecodeBytes (encoded ?req) = Ok request" "ev_Type request = ''request''" "ev_ID request = uuid"
      "get_string (payload_of request) ''method'' = Some ''process''"
      "get_map (payload_of request) ''message'' = Some (message_map ff tt (wire ff m))" using enc(2) by blast
    obtain response env where response: "processRequest et ff tt now a ctx (encoded ?req) w = (Ok response, w')"
      "DecodeBytes response = Ok env" "handle_response tt now' (ra_name ra) env = wire_reply et ff (ra_name ra) r"
      using processRequest_wire [OF assms(1) md assms(2,3) request run ex] by blast
    have "serve et ff tt now a sa ctx (encoded ?req) w = (([response], Continues), w')"
      using request response(1) by (simp add: serve_def)
    then show "remote_Process ff tt (link_transport (serve et ff tt now a sa ctx)) uuid now' late (Some m) (ra, idle w) =
        (wire_reply et ff (ra_name ra) r, ra\<lparr>ra_connected := True\<rparr>, idle w')"
      using d response enc(1) by (cases "ra_connected ra") (simp_all add: remote_Process_def link_defs idle_def)
  }
  assume "\<not> json_supported (json_of_map (msg_metadata m))"
  then have "\<exists>e. EncodeBytes ?req = Err e"
    by (simp add: EncodeBytes_def json_Marshal_def envelope_value_def CreateRequestEnvelope_def new_envelope_def json_of_map_def
        map_or_empty_def Let_def message_map_def)
  then obtain e where "EncodeBytes ?req = Err e" by blast
  then show "\<exists>e. remote_Process ff tt (link_transport (serve et ff tt now a sa ctx)) uuid now' late (Some m) (ra, idle w) =
        (Err (Errorf ''failed to encode request: %w'' [] (Some e)), ra\<lparr>ra_connected := True\<rparr>, idle w)"
    using d by (cases "ra_connected ra") (simp_all add: remote_Process_def link_defs idle_def)
qed

text \<open>A server around an agent that echoes, and a client of it.\<close>

definition echo_agent :: "unit agent" where
  "echo_agent = \<lparr>agent_Name = ''echo'', agent_Capabilities = [], agent_Process = (\<lambda>ctx msg w. (Ok msg, w))\<rparr>"

definition echo_link :: "unit streamer \<Rightarrow> unit link Transport" where
  "echo_link sa = link_transport (serve (\<lambda>_. ''error'') (\<lambda>_. []) unary_times 0 echo_agent sa Background)"

definition client :: RemoteAgent where
  "client = NewRemoteAgentWithTransport ''echo'' 0"

definition hello :: "gmap option \<Rightarrow> message" where
  "hello md = \<lparr>msg_role = ''user'', msg_content = GStr ''hello'', msg_metadata = md, msg_timestamp = 2\<rparr>"

theorem remote_call_transparent_witness:
  "fst (remote_Process (\<lambda>_. []) unary_times (echo_link None) ''id'' 0 False (Some (hello (Some [(''n'', GInt 3)]))) (client, idle ())) =
     Ok (Some (hello (Some [(''n'', GFloat 3)])))"
proof -
  let ?m = "hello (Some [(''n'', GInt 3)])"
  have wire: "wire (\<lambda>_. []) ?m = hello (Some [(''n'', GFloat 3)])"
    by (simp add: wire_def hello_def ContentString_def json_map_valid exact_int_def)
  have wire2: "wire (\<lambda>_. []) (hello (Some [(''n'', GFloat 3)])) = hello (Some [(''n'', GFloat 3)])"
    by (simp add: wire_def hello_def ContentString_def json_map_valid)
  have run: "agent_Process echo_agent Background (Some (wire (\<lambda>_. []) ?m)) () = (Ok (Some (wire (\<lambda>_. []) ?m)), ())"
    by (simp add: echo_agent_def)
  have ex: "msg_metadata ?m \<noteq> None" "exact_wire (\<lambda>_. []) ?m" "exact_reply (\<lambda>_. ''error'') (\<lambda>_. []) (Ok (Some (wire (\<lambda>_. []) ?m)))"
    unfolding wire by (simp_all add: hello_def exact_wire_def exact_reply_def ContentString_def json_of_map_def exact_int_def)
  have "valid_utf8 (ra_name client)" by (simp add: client_def NewRemoteAgentWithTransport_def)
  from remote_call_transparent [OF unary_times_rfc3339(2) _ _ this, where uuid = "''id''" and et = "\<lambda>_. ''error''" and now = 0
      and sa = None and now' = 0 and late = False and ff = "\<lambda>_. []" and m = ?m and w = "()" and w' = "()" and a = echo_agent
      and ctx = Background and r = "Ok (Some (wire (\<lambda>_. []) ?m))"] run ex
  show ?thesis unfolding wire by (simp add: echo_link_def wire_reply_def wire2)
qed

text \<open>
  A message without metadata ends the server.  A nil map is sent as \<open>null\<close>, and the server
  asserts that it is an object: the first such request, of whatever content and for whatever
  agent, panics in the goroutine of the connection; the caller gets a connection error.
\<close>

lemma nil_metadata_ends_server:
  assumes "rfc3339_nano tt" and "exact_wire ff m" and "uuid \<noteq> []" and "valid_utf8 uuid" and "valid_utf8 (ra_name ra)"
    and "msg_metadata m = None"
  shows "\<exists>l'. remote_Process ff tt (link_transport (serve et ff tt now a sa ctx)) uuid now' False (Some m) (ra, idle w) =
      (Err connection_closed, ra\<lparr>ra_connected := True\<rparr>, l') \<and> ln_crashed l' \<and> ln_server l' = w"
proof -
  obtain d where d: "EncodeMessage ff tt (Some m) = Ok d" "message_value d = GMap (message_map ff tt m)"
    using EncodeMessage_Some by blast
  let ?req = "CreateRequestEnvelope tt uuid now' ''process'' (ra_name ra) (Some [(''message'', GMap (message_map ff tt m))])"
  have "valid_utf8 ''process''" by simp
  note enc = DecodeBytes_request [OF assms(1-5) this, of now']
  obtain request where request: "DecodeBytes (encoded ?req) = Ok request" "ev_Type request = ''request''"
    "get_string (payload_of request) ''method'' = Some ''process''"
    "get_map (payload_of request) ''message'' = Some (message_map ff tt (wire ff m))" using enc(2) by blast
  have "serve et ff tt now a sa ctx (encoded ?req) w = (([], Crashes ''interface conversion''), w)"
    using request server_message_nil [OF assms(6), of ff tt] by (simp add: serve_def processRequest_def)
  then show ?thesis
    using d enc(1) by (cases "ra_connected ra") (simp_all add: remote_Process_def link_defs idle_def)
qed

text \<open>
  A client whose connection was closed never opens another: \<open>connected\<close> stays set, and every
  later call that can be encoded fails although the server would accept a new connection.
\<close>

lemma remote_stays_broken:
  assumes "ra_connected ra" and "\<not> ln_open l" and "ln_unread l = []" and "json_supported (json_of_map (msg_metadata m))"
  shows "remote_Process ff tt (link_transport srv) uuid now False (Some m) (ra, l) = (Err connection_closed, ra, l)"
proof -
  obtain d where d: "EncodeMessage ff tt (Some m) = Ok d" "message_value d = GMap (message_map ff tt m)"
    using EncodeMessage_Some by blast
  have "\<exists>t. EncodeBytes (CreateRequestEnvelope tt uuid now ''process'' (ra_name ra) (Some [(''message'', GMap (message_map ff tt m))])) = Ok t"
    using assms(4) by (simp add: EncodeBytes_def json_Marshal_def envelope_value_def CreateRequestEnvelope_def new_envelope_def
        json_of_map_def map_or_empty_def Let_def message_map_def)
  with assms d show ?thesis by (auto simp: remote_Process_def link_defs)
qed

section \<open>Streams\<close>

abbreviation chunk_envelope :: "(real \<Rightarrow> string) \<Rightarrow> time_texts \<Rightarrow> time \<Rightarrow> string \<Rightarrow> message \<Rightarrow> Envelope" where
  "chunk_envelope ff tt now i m \<equiv> new_envelope tt now ''stream_chunk'' i [(''message'', GMap (message_map ff tt m))]"

lemma chunk_envelope_ok:
  assumes "rfc3339_nano tt" and "i \<noteq> []" and "valid_utf8 i" and "exact_wire ff m"
  shows "EncodeBytes (chunk_envelope ff tt now i m) = Ok (encoded (chunk_envelope ff tt now i m))"
    and "DecodeBytes (encoded (chunk_envelope ff tt now i m)) = Ok (chunk_envelope ff tt now i (wire ff m))"
proof -
  have "json_ok (GMap [(''message'', GMap (message_map ff tt m))])" using json_message_map(2) [OF assms(1,4)] by simp
  moreover have "''stream_chunk'' \<in> set validTypes" by (simp add: validTypes_def)
  ultimately show "EncodeBytes (chunk_envelope ff tt now i m) = Ok (encoded (chunk_envelope ff tt now i m))"
    and "DecodeBytes (encoded (chunk_envelope ff tt now i m)) = Ok (chunk_envelope ff tt now i (wire ff m))"
    using DecodeBytes_new [OF assms(1-3)] get_message [OF assms(1,4)] by simp_all
qed

lemma end_envelope_ok:
  assumes "rfc3339_nano tt" and "i \<noteq> []" and "valid_utf8 i"
  shows "EncodeBytes (CreateStreamEndEnvelope tt now i) = Ok (encoded (CreateStreamEndEnvelope tt now i))"
    and "DecodeBytes (encoded (CreateStreamEndEnvelope tt now i)) = Ok (new_envelope tt now ''stream_end'' i [])"
proof -
  have "''stream_end'' \<in> set validTypes" by (simp add: validTypes_def)
  from DecodeBytes_new [OF assms this, of "[]"] show
    "EncodeBytes (CreateStreamEndEnvelope tt now i) = Ok (encoded (CreateStreamEndEnvelope tt now i))"
    "DecodeBytes (encoded (CreateStreamEndEnvelope tt now i)) = Ok (new_envelope tt now ''stream_end'' i [])"
    by (simp_all add: CreateStreamEndEnvelope_def)
qed

text \<open>What the loop sends for the chunks \<open>ms\<close>, wherever the end of the other channel is seen.\<close>

lemma stream_loop_chunk:
  assumes "rfc3339_nano tt" and "i \<noteq> []" and "valid_utf8 i" and "exact_wire ff m"
    and "stream_loop et ff tt now i mc ec evs = (out, st)"
  shows "stream_loop et ff tt now i mc ec (Chunk (Some m) # evs) = (encoded (chunk_envelope ff tt now i m) # out, st)"
proof -
  obtain d where "EncodeMessage ff tt (Some m) = Ok d" "message_value d = GMap (message_map ff tt m)"
    using EncodeMessage_Some by blast
  with assms show ?thesis by (simp add: CreateStreamChunkEnvelope_def chunk_envelope_ok)
qed

lemma stream_loop_chunks:
  assumes tt: "rfc3339_nano tt" and i: "i \<noteq> []" "valid_utf8 i" and ms: "list_all (exact_wire ff) ms"
    and evs: "xs @ ys = map (Chunk \<circ> Some) ms @ [ChunksClosed]"
  shows "stream_loop et ff tt now i False False (xs @ [ErrorsClosed] @ ys) =
     (map (encoded \<circ> chunk_envelope ff tt now i) ms @ [encoded (CreateStreamEndEnvelope tt now i)], Continues)"
  using ms evs
proof (induction ms arbitrary: xs)
  case Nil
  then have "xs = [] \<and> ys = [ChunksClosed] \<or> xs = [ChunksClosed] \<and> ys = []" by (auto simp: append_eq_Cons_conv)
  then show ?case using end_envelope_ok(1) [OF tt i] by (auto simp: bytes_of_def)
next
  case (Cons m ms)
  then have m: "exact_wire ff m" "list_all (exact_wire ff) ms" by simp_all
  show ?case
  proof (cases xs)
    case Nil
    have "stream_loop et ff tt now i False True (map (Chunk \<circ> Some) ns @ [ChunksClosed]) =
        (map (encoded \<circ> chunk_envelope ff tt now i) ns @ [encoded (CreateStreamEndEnvelope tt now i)], Continues)"
      if "list_all (exact_wire ff) ns" for ns
      using that
    proof (induction ns)
      case (Cons n ns)
      then show ?case using stream_loop_chunk [OF tt i, of ff n] by simp
    qed (simp add: end_envelope_ok(1) [OF tt i] bytes_of_def)
    from this [OF Cons.prems(1)] Cons.prems(2) Nil show ?thesis by (simp del: stream_loop.simps(4) add: comp_def)
  next
    case (Cons x xs')
    then have "x = Chunk (Some m)" "xs' @ ys = map (Chunk \<circ> Some) ms @ [ChunksClosed]" using Cons.prems by simp_all
    then show ?thesis using Cons Cons.IH [OF m(2)] stream_loop_chunk [OF tt i m(1)] by simp
  qed
qed

lemma stream_receive_chunks:
  assumes tt: "rfc3339_nano tt" and i: "i \<noteq> []" "valid_utf8 i" and gone: "\<And>k. gone k = None" and "list_all (exact_wire ff) ms"
    and "ln_unread l = map (encoded \<circ> chunk_envelope ff tt now i) ms @ encoded (CreateStreamEndEnvelope tt now i) # rest"
  shows "stream_receive tt (link_transport srv) now' late gone (Suc (length ms)) k (ra, l) =
    (Some (map (wire ff) ms, Ok ()), ra, l\<lparr>ln_unread := rest\<rparr>)"
  using assms(5,6)
proof (induction ms arbitrary: k l)
  case Nil
  with end_envelope_ok(2) [OF tt i, of now] show ?case
    by (simp add: link_defs handleStreamResponse_def new_envelope_def)
next
  case (Cons m ms)
  let ?env = "chunk_envelope ff tt now i (wire ff m)"
  have env: "DecodeBytes (encoded (chunk_envelope ff tt now i m)) = Ok ?env"
    using chunk_envelope_ok(2) [OF tt i] Cons.prems(1) by simp
  obtain d where "client_message (message_map ff tt (wire ff m)) = Ok d" "DecodeMessage tt now' d = wire ff m"
    using client_message_wire [OF tt] by blast
  then have h: "handleStreamResponse tt now' (ra_name ra) (gone k) ?env = Ok (Some (wire ff m))"
    by (simp add: handleStreamResponse_def gone) (simp add: new_envelope_def payload_of_def map_or_empty_def get_map_def)
  let ?l = "l\<lparr>ln_unread := map (encoded \<circ> chunk_envelope ff tt now i) ms @ encoded (CreateStreamEndEnvelope tt now i) # rest\<rparr>"
  have r: "and_then (receive_payload (link_transport srv) late) decode_payload (ra, l) = (Ok ?env, ra, ?l)"
    using Cons.prems env by (simp add: link_defs)
  show ?case using Cons.IH [of ?l "Suc k"] Cons.prems(1) r h by (simp del: link_defs)
qed

text \<open>
  C29. A remote stream delivers the chunks of the agent, in order, and ends: over a connection
  with nothing in flight, for a message that has metadata, the client receives exactly the
  chunks, as the wire carries them, without an error, in one round more than there are
  chunks; nothing is in flight afterwards.  The server may see the end of the error
  channel at any moment, before, between or after the chunks and the end of their channel.
  This assumes that the agent sends no nil chunk and no error, that no context ends before
  the stream does, and that JSON represents message and chunks exactly (texts in UTF-8,
  integers of at most 53 bits, no functions).
\<close>

theorem remote_stream_delivers:
  assumes "rfc3339_nano tt" and "msg_metadata m \<noteq> None" and "uuid \<noteq> []" and "valid_utf8 uuid" and "valid_utf8 (ra_name ra)"
    and "exact_wire ff m" and "list_all (exact_wire ff) ms" and "\<And>k. gone k = None"
    and "str ctx (Some (wire ff m)) w = (xs @ [ErrorsClosed] @ ys, w')" and "xs @ ys = map (Chunk \<circ> Some) ms @ [ChunksClosed]"
  shows "remote_Stream ff tt (link_transport (serve et ff tt now a (Some str) ctx)) uuid now' late gone (Suc (length ms)) (Some m) (ra, idle w) =
    (Some (map (wire ff) ms, Ok ()), ra\<lparr>ra_connected := True\<rparr>, idle w')"
proof -
  obtain d where d: "EncodeMessage ff tt (Some m) = Ok d" "message_value d = GMap (message_map ff tt m)"
    using EncodeMessage_Some by blast
  obtain e where e: "server_message (message_map ff tt (wire ff m)) = Ok e" "DecodeMessage tt now e = wire ff m"
    using server_message_wire [OF assms(1,2)] by blast
  let ?req = "CreateRequestEnvelope tt uuid now' ''stream'' (ra_name ra) (Some [(''message'', GMap (message_map ff tt m))])"
  let ?out = "map (encoded \<circ> chunk_envelope ff tt now uuid) ms @ [encoded (CreateStreamEndEnvelope tt now uuid)]"
  have "valid_utf8 ''stream''" by simp
  note enc = DecodeBytes_request [OF assms(1,6,3,4,5) this, of now']
  obtain request where request: "DecodeBytes (encoded ?req) = Ok request" "ev_Type request = ''request''" "ev_ID request = uuid"
    "get_string (payload_of request) ''method'' = Some ''stream''"
    "get_map (payload_of request) ''message'' = Some (message_map ff tt (wire ff m))" using enc(2) by blast
  have srv: "serve et ff tt now a (Some str) ctx (encoded ?req) w = ((?out, Continues), w')"
    using request e assms(9) stream_loop_chunks [OF assms(1,3,4,7,10), of et now] by (simp add: serve_def handleStreamRequest_def)
  let ?srv = "serve et ff tt now a (Some str) ctx"
  let ?l = "\<lparr>ln_server = w', ln_unread = ?out, ln_open = True, ln_crashed = False\<rparr>"
  have "and_then (ensureConnected (link_transport ?srv)) (\<lambda>_.
      and_then (remote_request ff tt uuid now' ''stream'' (Some m)) (\<lambda>request.
      and_then (encode_request request) (\<lambda>requestBytes.
        transport_op (tr_SendFramed (link_transport ?srv) requestBytes)))) (ra, idle w) =
      (Ok (), ra\<lparr>ra_connected := True\<rparr>, ?l)"
    using d srv enc(1) by (cases "ra_connected ra") (simp_all add: link_defs idle_def)
  then show ?thesis
    using stream_receive_chunks [where gone = gone and l = ?l and rest = "[]" and srv = ?srv and k = 0 and late = late
        and ra = "ra\<lparr>ra_connected := True\<rparr>" and ms = ms and ff = ff and now = now and now' = now', OF assms(1,3,4,8,7)]
    by (simp add: remote_Stream_def idle_def)
qed

definition two_chunks :: "unit streamer" where
  "two_chunks = Some (\<lambda>ctx msg w. ([Chunk (Some (hello (Some []))), ErrorsClosed, Chunk (Some (hello None)), ChunksClosed], w))"

theorem remote_stream_delivers_witness:
  "fst (remote_Stream (\<lambda>_. []) unary_times (echo_link two_chunks) ''id'' 0 False (\<lambda>_. None) 3 (Some (hello (Some []))) (client, idle ())) =
     Some ([hello (Some []), hello None], Ok ())"
proof -
  let ?str = "\<lambda>ctx msg w. ([Chunk (Some (hello (Some []))), ErrorsClosed, Chunk (Some (hello None)), ChunksClosed], w) :: stream_event list \<times> unit"
  have ex: "exact_wire (\<lambda>_. []) (hello (Some []))" "exact_wire (\<lambda>_. []) (hello None)" "valid_utf8 (ra_name client)"
    by (simp_all add: exact_wire_def hello_def ContentString_def json_of_map_def client_def NewRemoteAgentWithTransport_def)
  from remote_stream_delivers [where str = ?str and ctx = Background and ff = "\<lambda>_. []" and ms = "[hello (Some []), hello None]"
      and tt = unary_times and m = "hello (Some [])" and uuid = "''id''" and gone = "\<lambda>_. None" and w = "()" and w' = "()"
      and et = "\<lambda>_. ''error''" and now = 0 and a = echo_agent and now' = 0 and late = False and ra = client
      and xs = "[Chunk (Some (hello (Some [])))]" and ys = "[Chunk (Some (hello None)), ChunksClosed]"]
  show ?thesis using unary_times_rfc3339(2) ex
    by (simp add: echo_link_def two_chunks_def numeral_3_eq_3 hello_def)
      (simp add: wire_def ContentString_def)
qed

text \<open>
  An abandoned stream breaks the connection.  When the consumer's context ends, the client
  stops reading but keeps the connection; the chunks that the server has sent stay in it, and the next call,
  whose own request the server answers, takes a stale chunk for its response and fails.
\<close>

lemma abandoned_stream_breaks_calls:
  "let s = snd (remote_Stream (\<lambda>_. []) unary_times (echo_link two_chunks) ''id'' 0 False (\<lambda>_. Some Context_Canceled) 3
             (Some (hello (Some []))) (client, idle ()));
       r = remote_Process (\<lambda>_. []) unary_times (echo_link two_chunks) ''jd'' 0 False (Some (hello (Some []))) s
   in (case fst r of Err (InvalidMessageError text _) \<Rightarrow> text = ''expected 'response' but got '' @ quoted ''stream_chunk'' | _ \<Rightarrow> False) \<and>
      length (ln_unread (snd (snd r))) = 2"
  by code_simp

end
