(* ===== verification/Tree_Of_Thought.thy ===== *)
theory Tree_Of_Thought
  imports Message Reasoning_Tree
begin

text \<open>
  The agent that reasons in a tree (\<open>techniques/reasoning/tree_of_thought.go\<close>, with
  \<open>artifact.go\<close>): it grows a tree of theory \<open>Reasoning_Tree\<close> with branches from an agent,
  breadth-first, depth-first or best-first, and answers with the path to the best leaf.

  The three loops differ in how they take a node from the list of open nodes and put its
  children back; the locale \<open>search_strategy\<close> says what they share, and the search is
  analysed once in it.  The goroutines of \<open>generateBranches\<close> run in any order (\<open>ord\<close>, which may
  depend on the world).  Loops carry fuel; the number of nodes of a full tree is proved enough.
\<close>

section \<open>Configuration\<close>

record ScoredCandidate =
  sc_Text :: string
  sc_Score :: real

record reasoningArtifact =
  art_technique :: string
  art_sessionID :: string
  art_candidates :: "ScoredCandidate list"
  art_metadata :: "(string \<times> gval) list"

definition newArtifact ::
    "string \<Rightarrow> string \<Rightarrow> ScoredCandidate list \<Rightarrow> (string \<times> gval) list option \<Rightarrow> reasoningArtifact" where
  "newArtifact technique sessionID candidates meta =
     \<lparr>art_technique = technique, art_sessionID = sessionID, art_candidates = candidates,
      art_metadata = (case meta of None \<Rightarrow> [] | Some m \<Rightarrow> m)\<rparr>"

definition BestCandidate :: "reasoningArtifact \<Rightarrow> ScoredCandidate" where
  "BestCandidate a =
     (case art_candidates a of
        [] \<Rightarrow> \<lparr>sc_Text = [], sc_Score = 0\<rparr>
      | c # cs \<Rightarrow> fold (\<lambda>c best. if sc_Score c > sc_Score best then c else best) cs c)"

text \<open>A verifier returns a result or an error (\<open>None\<close>).  A memory that stores artifacts (\<open>ReasoningMemory\<close>) or messages only; its errors are ignored.\<close>

datatype 'w artifact_memory =
    ReasoningMemory "string \<Rightarrow> reasoningArtifact \<Rightarrow> 'w \<Rightarrow> 'w"
  | PlainMemory "string \<Rightarrow> string \<Rightarrow> reasoningArtifact \<Rightarrow> 'w \<Rightarrow> 'w"

record 'w TreeOfThought =
  tot_agent :: "'w agent"
  tot_branchingFactor :: int
  tot_maxDepth :: int
  tot_evaluator :: "string \<Rightarrow> real"
  tot_strategy :: string
  tot_pruneThreshold :: real
  tot_mem :: "'w artifact_memory option"
  tot_verifier :: "(string \<Rightarrow> string \<Rightarrow> 'w \<Rightarrow> gval option \<times> 'w) option"
  tot_sessionID :: string

text \<open>The bytes of the bullet character are \<open>E2 80 A2\<close>.\<close>

definition bullet :: string where
  "bullet = [CHR 0xE2, CHR 0x80, CHR 0xA2]"

definition defaultEvaluator :: "string \<Rightarrow> real" where
  "defaultEvaluator text =
     (if length text < 50 then 2 / 10
      else
        let lengthScore = min (real (length text) / 500) 1;
            structureBonus =
              (if strings_Contains text ''1.'' \<or> strings_Contains text ''2.'' \<or> strings_Contains text ''-'' \<or>
                  strings_Contains text bullet then 1 / 10 else 0)
        in min (lengthScore + structureBonus) 1)"

definition NewTreeOfThought :: "'w agent \<Rightarrow> ('w TreeOfThought \<Rightarrow> 'w TreeOfThought) list \<Rightarrow> 'w TreeOfThought" where
  "NewTreeOfThought a options =
     fold (\<lambda>option. option) options
       \<lparr>tot_agent = a, tot_branchingFactor = 3, tot_maxDepth = 5, tot_evaluator = defaultEvaluator,
        tot_strategy = ''best-first'', tot_pruneThreshold = 3 / 10, tot_mem = None, tot_verifier = None,
        tot_sessionID = []\<rparr>"

definition WithBranchingFactor :: "int \<Rightarrow> 'w TreeOfThought \<Rightarrow> 'w TreeOfThought" where
  "WithBranchingFactor n tot = tot\<lparr>tot_branchingFactor := n\<rparr>"

definition WithMaxDepth :: "int \<Rightarrow> 'w TreeOfThought \<Rightarrow> 'w TreeOfThought" where
  "WithMaxDepth depth tot = tot\<lparr>tot_maxDepth := depth\<rparr>"

definition WithEvaluator :: "(string \<Rightarrow> real) \<Rightarrow> 'w TreeOfThought \<Rightarrow> 'w TreeOfThought" where
  "WithEvaluator ev tot = tot\<lparr>tot_evaluator := ev\<rparr>"

definition WithStrategy :: "string \<Rightarrow> 'w TreeOfThought \<Rightarrow> 'w TreeOfThought" where
  "WithStrategy strategy tot = tot\<lparr>tot_strategy := strategy\<rparr>"

definition WithPruneThreshold :: "real \<Rightarrow> 'w TreeOfThought \<Rightarrow> 'w TreeOfThought" where
  "WithPruneThreshold threshold tot = tot\<lparr>tot_pruneThreshold := threshold\<rparr>"

section \<open>Growing the tree\<close>

definition newline :: string where
  "newline = [CHR 0x0A]"

definition branch_message :: "string \<Rightarrow> nat \<Rightarrow> message" where
  "branch_message prompt idx =
     \<lparr>msg_role = ''user'',
      msg_content = GStr (prompt @ newline @ newline @ ''Alternative approach #'' @ show_int (int idx + 1) @ '':''),
      msg_metadata = Some [], msg_timestamp = 0\<rparr>"

text \<open>The goroutines in the order in which they run: results and errors in the order of arrival.\<close>

fun run_branches ::
    "(real \<Rightarrow> string) \<Rightarrow> 'w agent \<Rightarrow> go_ctx \<Rightarrow> string \<Rightarrow> nat list \<Rightarrow> ('w, string list \<times> go_error list) call" where
  "run_branches ff a ctx prompt [] w = (Ok ([], []), w)"
| "run_branches ff a ctx prompt (i # is) w =
     (let (r, w) = agent_Process a ctx (Some (branch_message prompt i)) w in
      case r of
        Panic p \<Rightarrow> (Panic p, w)
      | Ok None \<Rightarrow> (Panic ''nil pointer dereference'', w)
      | Ok (Some m) \<Rightarrow>
          (case run_branches ff a ctx prompt is w of
             (Ok (rs, es), w) \<Rightarrow> (Ok (ContentString ff m # rs, es), w)
           | (Err e, w) \<Rightarrow> (Err e, w)
           | (Panic p, w) \<Rightarrow> (Panic p, w))
      | Err e \<Rightarrow>
          (case run_branches ff a ctx prompt is w of
             (Ok (rs, es), w) \<Rightarrow> (Ok (rs, e # es), w)
           | (Err e, w) \<Rightarrow> (Err e, w)
           | (Panic p, w) \<Rightarrow> (Panic p, w)))"

type_synonym 'w order = "'w \<Rightarrow> nat \<Rightarrow> nat list"

definition generateBranches ::
    "(real \<Rightarrow> string) \<Rightarrow> 'w order \<Rightarrow> 'w agent \<Rightarrow> go_ctx \<Rightarrow> string \<Rightarrow> int \<Rightarrow> ('w, string list) call" where
  "generateBranches ff ord a ctx prompt n w =
     (if n < 0 then (Panic ''makechan: size out of range'', w)
      else
        (case run_branches ff a ctx prompt (ord w (nat n)) w of
           (Ok (rs, []), w) \<Rightarrow> (Ok rs, w)
         | (Ok (rs, e # es), w) \<Rightarrow> (Err (Errorf ''branch generation failed: %w'' [] (Some e)), w)
         | (Err e, w) \<Rightarrow> (Err e, w)
         | (Panic p, w) \<Rightarrow> (Panic p, w)))"

definition set_state :: "int \<Rightarrow> NodeState \<Rightarrow> ReasoningTree \<Rightarrow> ReasoningTree" where
  "set_state i st t =
     (case go_get (rt_nodes t) i of
        None \<Rightarrow> t
      | Some n \<Rightarrow> t\<lparr>rt_nodes := go_set i (n\<lparr>rn_State := st\<rparr>) (rt_nodes t)\<rparr>)"

text \<open>Adding the branches as children: the children that are not pruned.\<close>

fun add_branches ::
    "'w TreeOfThought \<Rightarrow> int \<Rightarrow> string \<Rightarrow> string list \<Rightarrow> int list \<Rightarrow> ReasoningTree \<Rightarrow> int list outcome \<times> ReasoningTree" where
  "add_branches tot nodeID pathText [] childIDs t = (Ok childIDs, t)"
| "add_branches tot nodeID pathText (branchText # bs) childIDs t =
     (let score = tot_evaluator tot (pathText @ newline @ branchText) in
      case AddChild nodeID branchText score None t of
        Err e \<Rightarrow> (Err (Errorf ''failed to add child: %w'' [] (Some e)), t)
      | Panic p \<Rightarrow> (Panic p, t)
      | Ok (childID, t) \<Rightarrow>
          if score < tot_pruneThreshold tot
          then add_branches tot nodeID pathText bs childIDs (PruneNode childID t)
          else add_branches tot nodeID pathText bs (childIDs @ [childID]) t)"

definition expand_prompt :: "string \<Rightarrow> string \<Rightarrow> string" where
  "expand_prompt query pathText =
     ''Original question: '' @ query @ newline @ newline @ ''Reasoning so far:'' @ newline @ pathText @ newline @ newline @
     ''Continue reasoning:''"

text \<open>\<open>None\<close>: the path to the node is not found in finite time.\<close>

definition expandNode ::
    "(real \<Rightarrow> string) \<Rightarrow> 'w order \<Rightarrow> 'w TreeOfThought \<Rightarrow> go_ctx \<Rightarrow> int \<Rightarrow> string \<Rightarrow> ReasoningTree \<Rightarrow> 'w \<Rightarrow>
     (int list outcome \<times> ReasoningTree \<times> 'w) option" where
  "expandNode ff ord tot ctx nodeID query t w =
     (case go_get (rt_nodes t) nodeID of
        None \<Rightarrow> Some (Ok [], t, w)
      | Some node \<Rightarrow>
          (case GetPathText nodeID newline t of
             None \<Rightarrow> None
           | Some pathText \<Rightarrow>
               Some (case generateBranches ff ord (tot_agent tot) ctx (expand_prompt query pathText) (tot_branchingFactor tot) w of
                       (Err e, w) \<Rightarrow> (Err (Errorf ''failed to generate branches: %w'' [] (Some e)), t, w)
                     | (Panic p, w) \<Rightarrow> (Panic p, t, w)
                     | (Ok branches, w) \<Rightarrow>
                         (case add_branches tot nodeID pathText branches [] t of
                            (Ok childIDs, t) \<Rightarrow> (Ok childIDs, set_state nodeID NodeStateEvaluated t, w)
                          | (Err e, t) \<Rightarrow> (Err e, t, w)
                          | (Panic p, t) \<Rightarrow> (Panic p, t, w)))))"

section \<open>Searching\<close>

text \<open>The loop that the three searches share: \<open>pop\<close> takes a node, \<open>push\<close> adds its children.\<close>

fun search_loop ::
    "(real \<Rightarrow> string) \<Rightarrow> 'w order \<Rightarrow> 'w TreeOfThought \<Rightarrow> go_ctx \<Rightarrow> string \<Rightarrow> string \<Rightarrow>
     (ReasoningTree \<Rightarrow> int list \<Rightarrow> int \<times> int list) \<Rightarrow> (int list \<Rightarrow> int list \<Rightarrow> int list) \<Rightarrow>
     nat \<Rightarrow> int list \<Rightarrow> ReasoningTree \<Rightarrow> 'w \<Rightarrow> (unit outcome \<times> ReasoningTree \<times> 'w) option" where
  "search_loop ff ord tot ctx query label pop push 0 openNodes t w = None"
| "search_loop ff ord tot ctx query label pop push (Suc fuel) openNodes t w =
     (if openNodes = [] then Some (Ok (), t, w)
      else
        let (nodeID, rest) = pop t openNodes in
        case go_get (rt_nodes t) nodeID of
          None \<Rightarrow> search_loop ff ord tot ctx query label pop push fuel rest t w
        | Some node \<Rightarrow>
            if rn_State node = NodeStatePruned then search_loop ff ord tot ctx query label pop push fuel rest t w
            else if tot_maxDepth tot \<le> rn_Depth node then
              search_loop ff ord tot ctx query label pop push fuel rest (set_state nodeID NodeStateTerminal t) w
            else
              (case expandNode ff ord tot ctx nodeID query t w of
                 None \<Rightarrow> None
               | Some (Ok childIDs, t, w) \<Rightarrow>
                   search_loop ff ord tot ctx query label pop push fuel (push rest childIDs) t w
               | Some (Err e, t, w) \<Rightarrow> Some (Err (Errorf (label @ '' expansion failed: %w'') [] (Some e)), t, w)
               | Some (Panic p, t, w) \<Rightarrow> Some (Panic p, t, w)))"

definition queue_pop :: "ReasoningTree \<Rightarrow> int list \<Rightarrow> int \<times> int list" where
  "queue_pop t q = (hd q, tl q)"

definition queue_push :: "int list \<Rightarrow> int list \<Rightarrow> int list" where
  "queue_push q childIDs = q @ childIDs"

definition stack_pop :: "ReasoningTree \<Rightarrow> int list \<Rightarrow> int \<times> int list" where
  "stack_pop t s = (last s, butlast s)"

definition stack_push :: "int list \<Rightarrow> int list \<Rightarrow> int list" where
  "stack_push s childIDs = s @ rev childIDs"

type_synonym id_sort = "(int \<Rightarrow> int \<Rightarrow> bool) \<Rightarrow> int list \<Rightarrow> int list"

definition better :: "ReasoningTree \<Rightarrow> int \<Rightarrow> int \<Rightarrow> bool" where
  "better t i j =
     (case go_get (rt_nodes t) i of
        None \<Rightarrow> False
      | Some nodeI \<Rightarrow> (case go_get (rt_nodes t) j of None \<Rightarrow> True | Some nodeJ \<Rightarrow> rn_Score nodeI > rn_Score nodeJ))"

definition best_pop :: "id_sort \<Rightarrow> ReasoningTree \<Rightarrow> int list \<Rightarrow> int \<times> int list" where
  "best_pop srt t openNodes = (let sorted = srt (better t) openNodes in (hd sorted, tl sorted))"

definition searchBFS where
  "searchBFS ff ord tot ctx fuel rootID query = search_loop ff ord tot ctx query ''bfs'' queue_pop queue_push fuel [rootID]"

definition searchDFS where
  "searchDFS ff ord tot ctx fuel rootID query = search_loop ff ord tot ctx query ''dfs'' stack_pop stack_push fuel [rootID]"

definition searchBestFirst where
  "searchBestFirst ff ord srt tot ctx fuel rootID query =
     search_loop ff ord tot ctx query ''best-first'' (best_pop srt) queue_push fuel [rootID]"

text \<open>The number of nodes of a full tree of the given depth, and the fuel that \<open>Process\<close> is given.\<close>

fun full_size :: "nat \<Rightarrow> nat \<Rightarrow> nat" where
  "full_size b 0 = 1"
| "full_size b (Suc d) = 1 + b * full_size b d"

definition tot_fuel :: "'w TreeOfThought \<Rightarrow> nat" where
  "tot_fuel tot = Suc (full_size (nat (tot_branchingFactor tot)) (nat (tot_maxDepth tot)))"

definition tot_search ::
    "(real \<Rightarrow> string) \<Rightarrow> 'w order \<Rightarrow> id_sort \<Rightarrow> 'w TreeOfThought \<Rightarrow> go_ctx \<Rightarrow> int \<Rightarrow> string \<Rightarrow> ReasoningTree \<Rightarrow> 'w \<Rightarrow>
     (unit outcome \<times> ReasoningTree \<times> 'w) option" where
  "tot_search ff ord srt tot ctx rootID query t w =
     (if tot_strategy tot = ''bfs'' then searchBFS ff ord tot ctx (tot_fuel tot) rootID query t w
      else if tot_strategy tot = ''dfs'' then searchDFS ff ord tot ctx (tot_fuel tot) rootID query t w
      else if tot_strategy tot = ''best-first'' then searchBestFirst ff ord srt tot ctx (tot_fuel tot) rootID query t w
      else Some (Err (Errorf ''invalid strategy: %s'' [GStr (tot_strategy tot)] None), t, w))"

section \<open>Answering\<close>

definition stats_value :: "TreeStatistics \<Rightarrow> gval" where
  "stats_value s =
     GMap [(''TotalNodes'', GInt (ts_TotalNodes s)), (''MaxDepth'', GInt (ts_MaxDepth s)),
           (''NumLeaves'', GInt (ts_NumLeaves s)), (''NumEvaluated'', GInt (ts_NumEvaluated s)),
           (''NumPruned'', GInt (ts_NumPruned s)), (''AvgScore'', GFloat (ts_AvgScore s)),
           (''BestScore'', GFloat (ts_BestScore s))]"

definition artifact_value :: "reasoningArtifact \<Rightarrow> gval" where
  "artifact_value a =
     GMap [(''technique'', GStr (art_technique a)), (''session_id'', GStr (art_sessionID a)),
           (''candidates'', GList (map (\<lambda>c. GMap [(''Text'', GStr (sc_Text c)), (''Score'', GFloat (sc_Score c))]) (art_candidates a))),
           (''metadata'', GMap (art_metadata a))]"

definition assistant_message :: "string \<Rightarrow> (string \<times> gval) list \<Rightarrow> message" where
  "assistant_message content md =
     \<lparr>msg_role = ''assistant'', msg_content = GStr content, msg_metadata = Some md, msg_timestamp = 0\<rparr>"

definition no_path_answer :: "'w TreeOfThought \<Rightarrow> ReasoningTree \<Rightarrow> message" where
  "no_path_answer tot t =
     assistant_message ''Unable to find valid reasoning path.''
       [(''technique'', GStr ''tree_of_thought''), (''search_strategy'', GStr (tot_strategy tot)),
        (''reasoning_tree_stats'', stats_value (GetStatistics t)), (''error'', GStr ''no_valid_path'')]"

text \<open>The candidates: the leaves that are not pruned, with their paths (\<open>None\<close> as in \<open>GetPathText\<close>).\<close>

fun candidates_of :: "ReasoningTree \<Rightarrow> ReasoningNode list \<Rightarrow> ScoredCandidate list option" where
  "candidates_of t [] = Some []"
| "candidates_of t (leaf # leaves) =
     (if rn_State leaf \<noteq> NodeStatePruned then
        (case (GetPathText (rn_ID leaf) newline t, candidates_of t leaves) of
           (Some text, Some cs) \<Rightarrow> Some (\<lparr>sc_Text = text, sc_Score = rn_Score leaf\<rparr> # cs)
         | _ \<Rightarrow> None)
      else candidates_of t leaves)"

definition verify_path ::
    "'w TreeOfThought \<Rightarrow> string \<Rightarrow> string \<Rightarrow> (string \<times> gval) list \<Rightarrow> 'w \<Rightarrow> (string \<times> gval) list \<times> 'w" where
  "verify_path tot query pathText meta w =
     (case tot_verifier tot of
        None \<Rightarrow> (meta, w)
      | Some v \<Rightarrow>
          (case v query pathText w of
             (Some result, w) \<Rightarrow> (go_set ''verification'' result meta, w)
           | (None, w) \<Rightarrow> (meta, w)))"

definition store_artifact :: "'w TreeOfThought \<Rightarrow> string \<Rightarrow> reasoningArtifact \<Rightarrow> 'w \<Rightarrow> 'w" where
  "store_artifact tot pathText artifact w =
     (case tot_mem tot of
        None \<Rightarrow> w
      | Some (ReasoningMemory f) \<Rightarrow> f (tot_sessionID tot) artifact w
      | Some (PlainMemory f) \<Rightarrow> f (tot_sessionID tot) pathText artifact w)"

definition answer ::
    "'w TreeOfThought \<Rightarrow> string \<Rightarrow> ReasoningTree \<Rightarrow> 'w \<Rightarrow> (reply \<times> 'w) option" where
  "answer tot query t w =
     (case GetBestLeaf t of
        None \<Rightarrow> Some (Ok (Some (no_path_answer tot t)), w)
      | Some bestLeaf \<Rightarrow>
          (case (GetPath (rn_ID bestLeaf) t, GetPathText (rn_ID bestLeaf) newline t, candidates_of t (GetLeaves t)) of
             (Some bestPath, Some pathText, Some candidates) \<Rightarrow>
               (let stats = GetStatistics t;
                    (meta, w) = verify_path tot query pathText
                      [(''search_strategy'', GStr (tot_strategy tot)), (''num_nodes'', GInt (ts_TotalNodes stats))] w;
                    artifact = newArtifact ''tree_of_thought'' (tot_sessionID tot) candidates (Some meta);
                    response = assistant_message pathText
                      [(''technique'', GStr ''tree_of_thought''), (''search_strategy'', GStr (tot_strategy tot)),
                       (''reasoning_tree_stats'', stats_value stats), (''reasoning_path'', GStrs (map rn_Content bestPath)),
                       (''num_steps'', GInt (int (length bestPath))), (''best_score'', GFloat (rn_Score bestLeaf)),
                       (''reasoning_artifact'', artifact_value artifact)]
                in Some (Ok (Some response), store_artifact tot pathText artifact w))
           | _ \<Rightarrow> None))"

definition tot_Process ::
    "(real \<Rightarrow> string) \<Rightarrow> 'w order \<Rightarrow> id_sort \<Rightarrow> 'w TreeOfThought \<Rightarrow> go_ctx \<Rightarrow> message \<Rightarrow> 'w \<Rightarrow> (reply \<times> 'w) option" where
  "tot_Process ff ord srt tot ctx message w =
     (let query = ContentString ff message;
          (rootID, t) = CreateRoot query None NewReasoningTree
      in if tot_strategy tot \<notin> {''bfs'', ''dfs'', ''best-first''}
         then Some (Err (Errorf ''invalid strategy: %s'' [GStr (tot_strategy tot)] None), w)
         else
           (case tot_search ff ord srt tot ctx rootID query t w of
              None \<Rightarrow> None
            | Some (Err e, t, w) \<Rightarrow> Some (Err (Errorf ''tree search failed: %w'' [] (Some e)), w)
            | Some (Panic p, t, w) \<Rightarrow> Some (Panic p, w)
            | Some (Ok _, t, w) \<Rightarrow> answer tot query t w))"

section \<open>One expansion\<close>

lemma set_state_get:
  "go_get (rt_nodes (set_state i st t)) k =
     (if k = i then map_option (\<lambda>n. n\<lparr>rn_State := st\<rparr>) (go_get (rt_nodes t) i) else go_get (rt_nodes t) k)"
  by (auto simp: set_state_def split: option.splits)

lemma set_state_counters [simp]: "rt_nextID (set_state i st t) = rt_nextID t" "rt_MaxDepth (set_state i st t) = rt_MaxDepth t"
  by (simp_all add: set_state_def split: option.splits)

lemma length_go_set: "length (go_set k v m) = (if go_get m k = None then Suc (length m) else length m)"
  by (induction m) auto

lemma set_state_length [simp]: "length (rt_nodes (set_state i st t)) = length (rt_nodes t)"
  by (auto simp: set_state_def length_go_set split: option.splits)

lemma set_state_map_ok [simp]: "go_map_ok (rt_nodes t) \<Longrightarrow> go_map_ok (rt_nodes (set_state i st t))"
  by (simp add: set_state_def split: option.splits)

lemma PruneNode_set_state: "PruneNode i t = set_state i NodeStatePruned t"
  by (simp add: PruneNode_def set_state_def)

text \<open>Well-formedness does not look at the states, the contents and the scores.\<close>

definition same_shape :: "ReasoningNode \<Rightarrow> ReasoningNode \<Rightarrow> bool" where
  "same_shape n n' \<longleftrightarrow> rn_ID n = rn_ID n' \<and> rn_ParentID n = rn_ParentID n' \<and> rn_ChildrenIDs n = rn_ChildrenIDs n' \<and>
     rn_Depth n = rn_Depth n'"

lemma rt_ok_same_shape:
  assumes ok: "rt_ok t" and "rt_nextID t' = rt_nextID t" "rt_MaxDepth t' = rt_MaxDepth t"
    and same: "\<And>k. rel_option same_shape (go_get (rt_nodes t) k) (go_get (rt_nodes t') k)"
  shows "rt_ok t'"
proof -
  have fwd: "\<exists>n'. go_get (rt_nodes t') k = Some n' \<and> same_shape n n'" if "go_get (rt_nodes t) k = Some n" for k n
    using same [of k] that by (auto simp: option_rel_Some1)
  have "node_ok t' k n'" if "go_get (rt_nodes t') k = Some n'" for k n'
  proof -
    from same [of k] that obtain n where n: "go_get (rt_nodes t) k = Some n" "same_shape n n'"
      by (auto simp: option_rel_Some2)
    have nk: "node_ok t k n" by (rule rt_okD [OF ok n(1)])
    have "\<exists>pn. go_get (rt_nodes t') q = Some pn \<and> rn_Depth n' = rn_Depth pn + 1 \<and> k \<in> set (rn_ChildrenIDs pn)"
      if "rn_ParentID n = Some q" for q
      using nk that n(2) fwd [of q] by (fastforce simp: node_ok_def same_shape_def)
    moreover have "\<exists>cn. go_get (rt_nodes t') x = Some cn \<and> rn_ParentID cn = Some k" if "x \<in> set (rn_ChildrenIDs n)" for x
      using nk that fwd [of x] by (fastforce simp: node_ok_def same_shape_def)
    ultimately show ?thesis
      using nk n(2) assms(2,3) by (auto simp: node_ok_def same_shape_def split: option.splits)
  qed
  then show ?thesis using ok assms(3) by (simp add: rt_ok_def)
qed

lemma rt_ok_set_state: "rt_ok t \<Longrightarrow> rt_ok (set_state i st t)"
  by (rule rt_ok_same_shape) (auto simp: set_state_get same_shape_def option.rel_map intro: option.rel_refl)

text \<open>
  A tree grown by children \<open>ids\<close> of one node, of which \<open>kept\<close> are open and the others pruned
  for a score below the threshold.
\<close>

definition grown ::
    "'w TreeOfThought \<Rightarrow> int \<Rightarrow> ReasoningNode \<Rightarrow> int list \<Rightarrow> int list \<Rightarrow> ReasoningTree \<Rightarrow> ReasoningTree \<Rightarrow> bool" where
  "grown tot p pn ids kept t t' \<longleftrightarrow> rt_ok t' \<and> (go_map_ok (rt_nodes t) \<longrightarrow> go_map_ok (rt_nodes t')) \<and> distinct ids \<and> distinct kept \<and> set kept \<subseteq> set ids \<and>
     length (rt_nodes t') = length (rt_nodes t) + length ids \<and>
     go_get (rt_nodes t') p = Some (pn\<lparr>rn_ChildrenIDs := rn_ChildrenIDs pn @ ids\<rparr>) \<and>
     (\<forall>i \<in> set ids. go_get (rt_nodes t) i = None \<and>
        (\<exists>cn. go_get (rt_nodes t') i = Some cn \<and> IsLeaf cn \<and> rn_Depth cn = rn_Depth pn + 1 \<and>
           (if i \<in> set kept then rn_State cn = NodeStateOpen
            else rn_State cn = NodeStatePruned \<and> rn_Score cn < tot_pruneThreshold tot))) \<and>
     (\<forall>k. k \<noteq> p \<longrightarrow> k \<notin> set ids \<longrightarrow> go_get (rt_nodes t') k = go_get (rt_nodes t) k)"

lemma grown_none: "rt_ok t \<Longrightarrow> go_get (rt_nodes t) p = Some pn \<Longrightarrow> grown tot p pn [] [] t t"
  by (simp add: grown_def)

lemma grown_fresh: "grown tot p pn ids kept t t' \<Longrightarrow> i \<in> set ids \<Longrightarrow> go_get (rt_nodes t) i = None"
  by (simp add: grown_def)

lemma grown_other:
  "grown tot p pn ids kept t t' \<Longrightarrow> k \<noteq> p \<Longrightarrow> k \<notin> set ids \<Longrightarrow> go_get (rt_nodes t') k = go_get (rt_nodes t) k"
  by (simp add: grown_def)

lemma AddChild_grown:
  assumes ok: "rt_ok t" and pn: "go_get (rt_nodes t) p = Some pn"
  obtains i t' where "AddChild p c sc None t = Ok (i, t')"
    and "grown tot p pn [i] (if sc < tot_pruneThreshold tot then [] else [i]) t
      (if sc < tot_pruneThreshold tot then PruneNode i t' else t')"
proof -
  let ?i = "rt_nextID t"
  have nk: "node_ok t p pn" by (rule rt_okD [OF ok pn])
  have lt: "p < ?i" using nk by (simp add: node_ok_def)
  have fresh: "go_get (rt_nodes t) ?i = None" by (rule next_unused [OF ok])
  have add: "node_AddChild ?i pn = pn\<lparr>rn_ChildrenIDs := rn_ChildrenIDs pn @ [?i]\<rparr>"
    using nk fresh by (force simp: node_ok_def node_AddChild_def)
  obtain t' where t': "AddChild p c sc None t = Ok (?i, t')" using pn by (simp add: AddChild_def Let_def)
  have okt: "rt_ok t'" by (rule rt_ok_AddChild [OF ok t'])
  have get: "go_get (rt_nodes t') k =
      (if k = p then Some (pn\<lparr>rn_ChildrenIDs := rn_ChildrenIDs pn @ [?i]\<rparr>)
       else if k = ?i then Some \<lparr>rn_ID = ?i, rn_Content = c, rn_ParentID = Some p, rn_ChildrenIDs = [],
         rn_Depth = rn_Depth pn + 1, rn_Score = sc, rn_State = NodeStateOpen, rn_Metadata = []\<rparr>
       else go_get (rt_nodes t) k)" for k
    using t' pn add by (auto simp: AddChild_def Let_def)
  have len: "length (rt_nodes t') = Suc (length (rt_nodes t))"
    using t' pn fresh lt by (auto simp: AddChild_def Let_def length_go_set)
  have keys: "go_map_ok (rt_nodes t')" if "go_map_ok (rt_nodes t)"
    using t' pn that by (auto simp: AddChild_def Let_def)
  show thesis
  proof (rule that [OF t'])
    show "grown tot p pn [?i] (if sc < tot_pruneThreshold tot then [] else [?i]) t
      (if sc < tot_pruneThreshold tot then PruneNode ?i t' else t')"
      using lt fresh okt len keys
      by (auto simp: grown_def PruneNode_set_state set_state_get get IsLeaf_def rt_ok_set_state)
  qed
qed

lemma grown_trans:
  assumes a: "grown tot p pn ids kept t t1" and b: "grown tot p (pn\<lparr>rn_ChildrenIDs := rn_ChildrenIDs pn @ ids\<rparr>) ids' kept' t1 t2"
    and p: "go_get (rt_nodes t) p \<noteq> None"
  shows "grown tot p pn (ids @ ids') (kept @ kept') t t2"
proof -
  have dis: "set ids \<inter> set ids' = {}" using a b by (fastforce simp: grown_def)
  have new: "go_get (rt_nodes t) i = None" if "i \<in> set ids'" for i
  proof (cases "i = p \<or> i \<in> set ids")
    case True
    then show ?thesis using that a b dis by (fastforce simp: grown_def)
  next
    case False
    then show ?thesis using grown_fresh [OF b that] grown_other [OF a] by simp
  qed
  have old: "go_get (rt_nodes t2) i = go_get (rt_nodes t1) i" if "i \<in> set ids" for i
    by (rule grown_other [OF b]) (use that p dis grown_fresh [OF a] in auto)
  have kept: "i \<in> set kept' \<longleftrightarrow> False" if "i \<in> set ids" for i using that b dis by (auto simp: grown_def)
  have kept2: "i \<in> set kept \<longleftrightarrow> False" if "i \<in> set ids'" for i using that a dis by (auto simp: grown_def)
  have "\<forall>i \<in> set ids \<union> set ids'. go_get (rt_nodes t) i = None \<and>
        (\<exists>cn. go_get (rt_nodes t2) i = Some cn \<and> IsLeaf cn \<and> rn_Depth cn = rn_Depth pn + 1 \<and>
           (if i \<in> set kept \<union> set kept' then rn_State cn = NodeStateOpen
            else rn_State cn = NodeStatePruned \<and> rn_Score cn < tot_pruneThreshold tot))"
  proof
    fix i assume "i \<in> set ids \<union> set ids'"
    then consider "i \<in> set ids" | "i \<in> set ids'" by blast
    then show "go_get (rt_nodes t) i = None \<and>
        (\<exists>cn. go_get (rt_nodes t2) i = Some cn \<and> IsLeaf cn \<and> rn_Depth cn = rn_Depth pn + 1 \<and>
           (if i \<in> set kept \<union> set kept' then rn_State cn = NodeStateOpen
            else rn_State cn = NodeStatePruned \<and> rn_Score cn < tot_pruneThreshold tot))"
    proof cases
      case 1
      then show ?thesis using a old [OF 1] kept [OF 1] by (simp add: grown_def)
    next
      case 2
      then show ?thesis using b new [OF 2] kept2 [OF 2] by (simp add: grown_def)
    qed
  qed
  moreover have "set kept \<inter> set kept' = {}" using a b dis by (auto simp: grown_def)
  ultimately show ?thesis using a b dis by (auto simp: grown_def)
qed

lemma add_branches_grown:
  assumes "rt_ok t" and "go_get (rt_nodes t) p = Some pn"
  shows "\<exists>ids kept t'. add_branches tot p ptext bs cs t = (Ok (cs @ kept), t') \<and> length ids = length bs \<and>
    grown tot p pn ids kept t t'"
  using assms
proof (induction bs arbitrary: cs t pn)
  case Nil
  then show ?case using grown_none [OF Nil] by fastforce
next
  case (Cons b bs)
  define sc where "sc = tot_evaluator tot (ptext @ newline @ b)"
  obtain i t1 where a: "AddChild p b sc None t = Ok (i, t1)"
    and g: "grown tot p pn [i] (if sc < tot_pruneThreshold tot then [] else [i]) t
      (if sc < tot_pruneThreshold tot then PruneNode i t1 else t1)" (is "grown _ _ _ _ ?k1 _ ?t1")
    by (rule AddChild_grown [OF Cons.prems, where tot = tot and c = b and sc = sc])
  have "rt_ok ?t1" "go_get (rt_nodes ?t1) p = Some (pn\<lparr>rn_ChildrenIDs := rn_ChildrenIDs pn @ [i]\<rparr>)"
    using g by (simp_all add: grown_def)
  from Cons.IH [OF this, of "cs @ ?k1"] obtain ids kept t' where
    r: "add_branches tot p ptext bs (cs @ ?k1) ?t1 = (Ok ((cs @ ?k1) @ kept), t')" "length ids = length bs"
      "grown tot p (pn\<lparr>rn_ChildrenIDs := rn_ChildrenIDs pn @ [i]\<rparr>) ids kept ?t1 t'"
    by blast
  have "add_branches tot p ptext (b # bs) cs t = add_branches tot p ptext bs (cs @ ?k1) ?t1"
    using a by (simp add: sc_def [symmetric])
  moreover have "grown tot p pn ([i] @ ids) (?k1 @ kept) t t'"
    by (rule grown_trans [OF g r(3)]) (simp add: Cons.prems)
  ultimately show ?case using r(1,2) by (intro exI [of _ "[i] @ ids"] exI [of _ "?k1 @ kept"] exI [of _ t']) simp
qed

lemma run_branches_length:
  "run_branches ff a ctx prompt is w = (Ok (rs, []), w') \<Longrightarrow> length rs = length is"
  by (induction "is" arbitrary: w rs w') (auto simp: Let_def split: prod.splits outcome.splits option.splits)

text \<open>A schedule of the goroutines runs each of them once.\<close>

definition schedules :: "'w order \<Rightarrow> bool" where
  "schedules ord \<longleftrightarrow> (\<forall>w n. mset (ord w n) = mset [0..<n])"

lemma schedules_length: "schedules ord \<Longrightarrow> length (ord w n) = n"
  unfolding schedules_def by (metis size_mset length_upt minus_nat.diff_0)

lemma generateBranches_length:
  assumes "schedules ord" and "generateBranches ff ord a ctx prompt n w = (Ok rs, w')"
  shows "int (length rs) = n"
  using assms(2) run_branches_length [of ff a ctx prompt "ord w (nat n)" w] schedules_length [OF assms(1)]
  by (auto simp: generateBranches_def split: if_splits prod.splits outcome.splits list.splits)

lemma GetPathText_returns:
  "rt_ok t \<Longrightarrow> go_get (rt_nodes t) k = Some n \<Longrightarrow> \<exists>s. GetPathText k delim t = Some s"
  using path_loop_spec [of t k n "[]"] by (auto simp: GetPathText_def GetPath_def)

text \<open>
  An expansion of a node returns.  It succeeds with one child for each branch, or fails (the
  agent failed) with the tree as it was.
\<close>

lemma expandNode_spec:
  assumes "schedules ord" and ok: "rt_ok t" and n: "go_get (rt_nodes t) i = Some n"
  obtains (expanded) ids kept t1 w' where "expandNode ff ord tot ctx i query t w = Some (Ok kept, set_state i NodeStateEvaluated t1, w')"
      and "grown tot i n ids kept t t1" and "int (length ids) = tot_branchingFactor tot"
  | (failed) r w' where "expandNode ff ord tot ctx i query t w = Some (r, t, w')" and "\<not> (\<exists>v. r = Ok v)"
proof -
  obtain ptext where ptext: "GetPathText i newline t = Some ptext" using GetPathText_returns [OF ok n] by blast
  obtain r w' where r: "generateBranches ff ord (tot_agent tot) ctx (expand_prompt query ptext) (tot_branchingFactor tot) w = (r, w')"
    by (metis prod.exhaust)
  show thesis
  proof (cases r)
    case (Ok bs)
    from add_branches_grown [OF ok n, of tot ptext bs "[]"] obtain ids kept t1 where
      g: "add_branches tot i ptext bs [] t = (Ok kept, t1)" "length ids = length bs" "grown tot i n ids kept t t1"
      by auto
    show thesis
      by (rule expanded [of kept t1 w' ids])
        (use g r Ok n ptext generateBranches_length [OF assms(1)] in \<open>auto simp: expandNode_def\<close>)
  next
    case (Err e)
    show thesis by (rule failed) (use r Err n ptext in \<open>auto simp: expandNode_def\<close>)
  next
    case (Panic p)
    show thesis by (rule failed) (use r Panic n ptext in \<open>auto simp: expandNode_def\<close>)
  qed
qed

section \<open>The searches\<close>

text \<open>
  What the three strategies share: a strategy takes one of the open nodes and adds the new
  ones; nothing is lost and nothing is duplicated.  Which node is taken is left open.
\<close>

locale search_strategy =
  fixes pop :: "ReasoningTree \<Rightarrow> int list \<Rightarrow> int \<times> int list" and push :: "int list \<Rightarrow> int list \<Rightarrow> int list"
  assumes pop: "q \<noteq> [] \<Longrightarrow> mset (fst (pop t q) # snd (pop t q)) = mset q"
    and push: "mset (push q cs) = mset q + mset cs"

text \<open>A node that the search is done with: pruned, at the depth limit, or expanded.\<close>

definition node_done :: "'w TreeOfThought \<Rightarrow> ReasoningNode \<Rightarrow> bool" where
  "node_done tot n \<longleftrightarrow>
     rn_State n = NodeStatePruned \<and> IsLeaf n \<and> rn_Score n < tot_pruneThreshold tot \<or>
     rn_State n = NodeStateTerminal \<and> IsLeaf n \<and> tot_maxDepth tot \<le> rn_Depth n \<or>
     rn_State n = NodeStateEvaluated \<and> rn_Depth n < tot_maxDepth tot \<and>
       int (length (rn_ChildrenIDs n)) = tot_branchingFactor tot"

definition explored :: "'w TreeOfThought \<Rightarrow> ReasoningTree \<Rightarrow> bool" where
  "explored tot t \<longleftrightarrow> rt_ok t \<and> go_map_ok (rt_nodes t) \<and> (\<forall>k n. go_get (rt_nodes t) k = Some n \<longrightarrow> node_done tot n)"

definition search_inv :: "'w TreeOfThought \<Rightarrow> ReasoningTree \<Rightarrow> int list \<Rightarrow> bool" where
  "search_inv tot t q \<longleftrightarrow> rt_ok t \<and> go_map_ok (rt_nodes t) \<and> distinct q \<and>
     (\<forall>k \<in> set q. \<exists>n. go_get (rt_nodes t) k = Some n \<and> rn_State n = NodeStateOpen \<and> IsLeaf n) \<and>
     (\<forall>k n. go_get (rt_nodes t) k = Some n \<longrightarrow> k \<notin> set q \<longrightarrow> node_done tot n)"

text \<open>An open node stands for the full tree below it; the potential is the size the tree can reach.\<close>

definition weight :: "'w TreeOfThought \<Rightarrow> ReasoningTree \<Rightarrow> int \<Rightarrow> nat" where
  "weight tot t k =
     (case go_get (rt_nodes t) k of
        None \<Rightarrow> 0
      | Some n \<Rightarrow> full_size (nat (tot_branchingFactor tot)) (nat (tot_maxDepth tot - rn_Depth n)))"

definition potential :: "'w TreeOfThought \<Rightarrow> ReasoningTree \<Rightarrow> int list \<Rightarrow> nat" where
  "potential tot t q = length (rt_nodes t) + (\<Sum>k \<in># mset q. weight tot t k - 1)"

definition work :: "'w TreeOfThought \<Rightarrow> ReasoningTree \<Rightarrow> int list \<Rightarrow> nat" where
  "work tot t q = (\<Sum>k \<in># mset q. weight tot t k)"

lemma full_size_pos [simp]: "0 < full_size b d"
  by (cases d) simp_all

lemma search_inv_perm: "search_inv tot t q \<Longrightarrow> mset q' = mset q \<Longrightarrow> search_inv tot t q'"
  unfolding search_inv_def by (metis mset_eq_imp_distinct_iff mset_eq_setD)

lemma potential_perm: "mset q' = mset q \<Longrightarrow> potential tot t q' = potential tot t q"
  by (simp add: potential_def)

lemma work_perm: "mset q' = mset q \<Longrightarrow> work tot t q' = work tot t q"
  by (simp add: work_def)

lemma weight_same:
  "rel_option same_shape (go_get (rt_nodes t) k) (go_get (rt_nodes t') k) \<Longrightarrow> weight tot t' k = weight tot t k"
  by (auto simp: weight_def same_shape_def rel_option_iff split: option.splits)

lemma sum_weight_same:
  assumes "\<And>k. k \<in> set q \<Longrightarrow> weight tot t' k = weight tot t k"
  shows "(\<Sum>k \<in># mset q. f (weight tot t' k)) = (\<Sum>k \<in># mset q. f (weight tot t k))"
  by (intro arg_cong [where f = sum_mset] image_mset_cong) (simp add: assms)

text \<open>The node at the head of the list reaches the depth limit.\<close>

lemma terminal_step:
  assumes inv: "search_inv tot t (i # q)" and n: "go_get (rt_nodes t) i = Some n" and deep: "tot_maxDepth tot \<le> rn_Depth n"
  defines "t' \<equiv> set_state i NodeStateTerminal t"
  shows "search_inv tot t' q" and "potential tot t' q \<le> potential tot t (i # q)" and "work tot t' q < work tot t (i # q)"
proof -
  have same: "weight tot t' k = weight tot t k" for k
    by (rule weight_same) (auto simp: t'_def set_state_get same_shape_def option.rel_map intro: option.rel_refl)
  show "search_inv tot t' q"
    using inv n deep by (auto simp: search_inv_def t'_def set_state_get rt_ok_set_state node_done_def IsLeaf_def)
  show "potential tot t' q \<le> potential tot t (i # q)" by (simp add: potential_def same [unfolded t'_def] t'_def)
  have "0 < weight tot t i" using n by (simp add: weight_def)
  then show "work tot t' q < work tot t (i # q)" by (simp add: work_def same)
qed

text \<open>The node at the head of the list is expanded.\<close>

lemma expand_inv:
  assumes inv: "search_inv tot t (i # q)" and n: "go_get (rt_nodes t) i = Some n" and "rn_Depth n < tot_maxDepth tot"
    and g: "grown tot i n ids kept t t1" and b: "int (length ids) = tot_branchingFactor tot"
  shows "search_inv tot (set_state i NodeStateEvaluated t1) (q @ kept)" (is "search_inv tot ?t _")
proof -
  have leaf: "rn_ChildrenIDs n = []" using inv n by (auto simp: search_inv_def IsLeaf_def)
  have idq: "k \<notin> set ids" if "k \<in> set (i # q)" for k
    using inv that grown_fresh [OF g, of k] by (auto simp: search_inv_def)
  have old: "go_get (rt_nodes ?t) k = go_get (rt_nodes t) k" if "k \<noteq> i" "k \<notin> set ids" for k
    using that grown_other [OF g] by (simp add: set_state_get)
  have new: "go_get (rt_nodes ?t) k = go_get (rt_nodes t1) k" if "k \<in> set ids" for k
    using that idq [of i] by (auto simp: set_state_get)
  have self: "go_get (rt_nodes ?t) i = Some (n\<lparr>rn_ChildrenIDs := ids, rn_State := NodeStateEvaluated\<rparr>)"
    using g leaf by (simp add: set_state_get grown_def)
  have "rt_ok ?t" "go_map_ok (rt_nodes ?t)" using g inv by (simp_all add: grown_def rt_ok_set_state search_inv_def)
  moreover have "distinct (q @ kept)" using inv g idq by (auto simp: search_inv_def grown_def)
  moreover have "\<exists>n. go_get (rt_nodes ?t) k = Some n \<and> rn_State n = NodeStateOpen \<and> IsLeaf n" if "k \<in> set (q @ kept)" for k
  proof (cases "k \<in> set kept")
    case True
    then have "k \<in> set ids" using g by (auto simp: grown_def)
    then show ?thesis using g True new by (auto simp: grown_def)
  next
    case False
    then have "k \<in> set q" "k \<noteq> i" using that inv by (auto simp: search_inv_def)
    then show ?thesis using old [of k] idq [of k] inv by (simp add: search_inv_def)
  qed
  moreover have "node_done tot m" if m: "go_get (rt_nodes ?t) k = Some m" "k \<notin> set (q @ kept)" for k m
  proof -
    consider "k = i" | "k \<in> set ids" | "k \<noteq> i" "k \<notin> set ids" by blast
    then show ?thesis
    proof cases
      case 1
      then show ?thesis using m(1) self assms(3) b by (auto simp: node_done_def)
    next
      case 2
      have "\<exists>cn. go_get (rt_nodes t1) k = Some cn \<and> IsLeaf cn \<and> rn_State cn = NodeStatePruned \<and> rn_Score cn < tot_pruneThreshold tot"
        using g 2 m(2) by (force simp: grown_def)
      then show ?thesis using m(1) new [OF 2] by (auto simp: node_done_def)
    next
      case 3
      then show ?thesis using m old [OF 3] inv by (simp add: search_inv_def)
    qed
  qed
  ultimately show ?thesis by (auto simp: search_inv_def)
qed

lemma expand_cost:
  assumes inv: "search_inv tot t (i # q)" and n: "go_get (rt_nodes t) i = Some n" and lt: "rn_Depth n < tot_maxDepth tot"
    and g: "grown tot i n ids kept t t1" and b: "int (length ids) = tot_branchingFactor tot"
  defines "t' \<equiv> set_state i NodeStateEvaluated t1"
  shows "potential tot t' (q @ kept) \<le> potential tot t (i # q)" and "work tot t' (q @ kept) < work tot t (i # q)"
proof -
  define F where "F = full_size (nat (tot_branchingFactor tot)) (nat (tot_maxDepth tot - rn_Depth n - 1))"
  let ?b = "nat (tot_branchingFactor tot)"
  have "nat (tot_maxDepth tot - rn_Depth n) = Suc (nat (tot_maxDepth tot - rn_Depth n - 1))" using lt by simp
  then have wi: "weight tot t i = 1 + ?b * F" using n by (simp add: weight_def F_def)
  have F: "0 < F" by (simp add: F_def)
  have lenids: "length ids = ?b" using b by simp
  have kb: "length kept \<le> ?b"
    using g lenids by (metis grown_def card_mono distinct_card List.finite_set)
  have rest: "weight tot t' k = weight tot t k" if "k \<in> set q" for k
  proof -
    have "k \<noteq> i" "k \<notin> set ids" using that inv grown_fresh [OF g, of k] by (auto simp: search_inv_def)
    then show ?thesis using grown_other [OF g, of k] by (simp add: weight_def t'_def set_state_get)
  qed
  have new: "weight tot t' k = F" if "k \<in> set kept" for k
  proof -
    have "k \<in> set ids" using g that by (auto simp: grown_def)
    moreover from this have "k \<noteq> i" using n grown_fresh [OF g, of k] by auto
    ultimately obtain cn where "go_get (rt_nodes t') k = Some cn" "rn_Depth cn = rn_Depth n + 1"
      using g by (auto simp: grown_def t'_def set_state_get)
    then show ?thesis by (simp add: weight_def F_def algebra_simps)
  qed
  have kept: "(\<Sum>k \<in># mset kept. f (weight tot t' k)) = length kept * f F" for f :: "nat \<Rightarrow> nat"
    using new by (induction kept) simp_all
  have len: "length (rt_nodes t') = length (rt_nodes t) + ?b" using g lenids by (simp add: grown_def t'_def)
  have "length kept * (F - 1) \<le> ?b * (F - 1)" using kb by simp
  also have "\<dots> = ?b * F - ?b" by (simp add: algebra_simps)
  finally have "?b + length kept * (F - 1) \<le> ?b * F" using F by (simp add: le_diff_conv2)
  then show "potential tot t' (q @ kept) \<le> potential tot t (i # q)"
    using kept [of "\<lambda>x. x - 1"] sum_weight_same [OF rest, where f = "\<lambda>x. x - 1"] len wi by (simp add: potential_def)
  have "length kept * F \<le> ?b * F" using kb by simp
  then have "length kept * F < Suc (?b * F)" by (rule le_imp_less_Suc)
  then show "work tot t' (q @ kept) < work tot t (i # q)"
    using kept [of "\<lambda>x. x"] sum_weight_same [OF rest, where f = "\<lambda>x. x"] wi by (simp add: work_def)
qed

context search_strategy
begin

text \<open>
  With more fuel than the work left, the search returns; it ends with an explored tree or with
  the failure of an expansion, and the tree is never larger than the potential.
\<close>

lemma search_returns:
  assumes "schedules ord" and "search_inv tot t q" and "work tot t q < fuel"
  shows "\<exists>r t' w'. search_loop ff ord tot ctx query label pop push fuel q t w = Some (r, t', w') \<and>
    length (rt_nodes t) \<le> length (rt_nodes t') \<and> length (rt_nodes t') \<le> potential tot t q \<and>
    (r = Ok () \<longrightarrow> explored tot t')"
  using assms(2,3)
proof (induction fuel arbitrary: q t w)
  case (Suc fuel)
  show ?case
  proof (cases "q = []")
    case True
    then show ?thesis using Suc.prems by (auto simp: search_inv_def explored_def potential_def)
  next
    case False
    obtain i rest where p: "pop t q = (i, rest)" by (metis prod.exhaust)
    then have perm: "mset (i # rest) = mset q" using pop [OF False, of t] by simp
    have inv: "search_inv tot t (i # rest)" by (rule search_inv_perm [OF Suc.prems(1) perm])
    have pot: "potential tot t (i # rest) = potential tot t q" by (rule potential_perm [OF perm])
    have fuel: "work tot t (i # rest) \<le> fuel" using Suc.prems(2) work_perm [OF perm, of tot t] by simp
    obtain n where n: "go_get (rt_nodes t) i = Some n" "rn_State n = NodeStateOpen" using inv by (auto simp: search_inv_def)
    show ?thesis
    proof (cases "tot_maxDepth tot \<le> rn_Depth n")
      case True
      note st = terminal_step [OF inv n(1) True]
      from Suc.IH [OF st(1), of w] st(2,3) fuel pot show ?thesis using False p n True by fastforce
    next
      case shallow: False
      then have lt: "rn_Depth n < tot_maxDepth tot" by simp
      have ok: "rt_ok t" using inv by (simp add: search_inv_def)
      from assms(1) ok n(1) show ?thesis
      proof (cases rule: expandNode_spec [where ff = ff and tot = tot and ctx = ctx and query = query and w = w])
        case (expanded ids kept t1 w')
        let ?t = "set_state i NodeStateEvaluated t1"
        have perm': "mset (push rest kept) = mset (rest @ kept)" by (simp add: push)
        note cost = expand_cost [OF inv n(1) lt expanded(2,3)]
        have "search_inv tot ?t (push rest kept)"
          by (rule search_inv_perm [OF expand_inv [OF inv n(1) lt expanded(2,3)] perm'])
        moreover have "work tot ?t (push rest kept) < fuel" using cost(2) fuel work_perm [OF perm', of tot ?t] by simp
        ultimately obtain r t' w'' where
          "search_loop ff ord tot ctx query label pop push fuel (push rest kept) ?t w' = Some (r, t', w'')"
          "length (rt_nodes ?t) \<le> length (rt_nodes t')" "length (rt_nodes t') \<le> potential tot ?t (push rest kept)"
          "r = Ok () \<longrightarrow> explored tot t'"
          using Suc.IH by blast
        moreover have "length (rt_nodes t) \<le> length (rt_nodes ?t)" using expanded(2) by (simp add: grown_def)
        ultimately show ?thesis
          using False p n shallow expanded(1) cost(1) pot potential_perm [OF perm', of tot ?t] by (auto simp: Let_def)
      next
        case (failed r w')
        moreover have "length (rt_nodes t) \<le> potential tot t q" by (simp add: potential_def)
        ultimately show ?thesis using False p n shallow by (cases r) (auto simp: Let_def)
      qed
    qed
  qed
qed simp

end

lemma best_first_strategy: "sort_slice srt \<Longrightarrow> search_strategy (best_pop srt) queue_push"
proof
  fix t and q :: "int list" and cs :: "int list"
  assume srt: "sort_slice srt"
  show "mset (fst (best_pop srt t q) # snd (best_pop srt t q)) = mset q" if "q \<noteq> []"
  proof -
    have "srt (better t) q \<noteq> []" using that sort_slice.length_srt [OF srt, of "better t" q] by auto
    then show ?thesis by (simp add: best_pop_def Let_def sort_slice.perm [OF srt] flip: mset.simps(2))
  qed
  show "mset (queue_push q cs) = mset q + mset cs" by (simp add: queue_push_def)
qed

interpretation bfs: search_strategy queue_pop queue_push
  by unfold_locales (simp_all add: queue_pop_def queue_push_def flip: mset.simps(2))

interpretation dfs: search_strategy stack_pop stack_push
proof
  show "mset (fst (stack_pop t q) # snd (stack_pop t q)) = mset q" if "q \<noteq> []" for t q
  proof -
    have "mset (butlast q @ [last q]) = mset q" using that by simp
    then show ?thesis by (simp add: stack_pop_def)
  qed
qed (simp add: stack_push_def)

interpretation best_first: search_strategy "best_pop go_insort" queue_push
  by (rule best_first_strategy) (rule insertion.sort_slice_axioms)

definition root_tree :: "string \<Rightarrow> ReasoningTree" where
  "root_tree query = snd (CreateRoot query None NewReasoningTree)"

lemma CreateRoot_root: "CreateRoot query None NewReasoningTree = (0, root_tree query)"
  by (simp add: root_tree_def CreateRoot_def NewReasoningTree_def Let_def)

lemma root_get: "go_get (rt_nodes (root_tree query)) k =
  (if k = 0 then Some \<lparr>rn_ID = 0, rn_Content = query, rn_ParentID = None, rn_ChildrenIDs = [], rn_Depth = 0,
     rn_Score = 0, rn_State = NodeStateOpen, rn_Metadata = []\<rparr> else None)"
  by (simp add: root_tree_def CreateRoot_def NewReasoningTree_def Let_def)

lemma root_inv: "search_inv tot (root_tree query) [0]"
proof -
  have "rt_ok (root_tree query)" unfolding root_tree_def by (rule rt_ok_CreateRoot) (rule rt_ok_new)
  then show ?thesis
    by (auto simp: search_inv_def root_get IsLeaf_def root_tree_def CreateRoot_def NewReasoningTree_def Let_def go_map_ok_def)
qed

lemma root_bounds:
  "potential tot (root_tree query) [0] = full_size (nat (tot_branchingFactor tot)) (nat (tot_maxDepth tot))"
  "work tot (root_tree query) [0] < tot_fuel tot" "length (rt_nodes (root_tree query)) = 1"
proof -
  have w: "weight tot (root_tree query) 0 = full_size (nat (tot_branchingFactor tot)) (nat (tot_maxDepth tot))"
    by (simp add: weight_def root_get)
  show l: "length (rt_nodes (root_tree query)) = 1"
    by (simp add: root_tree_def CreateRoot_def NewReasoningTree_def Let_def)
  show "potential tot (root_tree query) [0] = full_size (nat (tot_branchingFactor tot)) (nat (tot_maxDepth tot))"
    by (simp add: potential_def w l)
  show "work tot (root_tree query) [0] < tot_fuel tot" by (simp add: work_def w tot_fuel_def)
qed

lemma tot_search_returns:
  assumes "schedules ord" and "sort_slice srt" and "tot_strategy tot \<in> {''bfs'', ''dfs'', ''best-first''}"
  shows "\<exists>r t' w'. tot_search ff ord srt tot ctx 0 query (root_tree query) w = Some (r, t', w') \<and>
    0 < length (rt_nodes t') \<and>
    length (rt_nodes t') \<le> full_size (nat (tot_branchingFactor tot)) (nat (tot_maxDepth tot)) \<and>
    (r = Ok () \<longrightarrow> explored tot t')"
proof -
  note root = assms(1) root_inv [of tot query] root_bounds(2) [of tot query]
  have "\<exists>label pop push. tot_search ff ord srt tot ctx 0 query (root_tree query) w =
      search_loop ff ord tot ctx query label pop push (tot_fuel tot) [0] (root_tree query) w \<and> search_strategy pop push"
    using assms(3) bfs.search_strategy_axioms dfs.search_strategy_axioms best_first_strategy [OF assms(2)]
    by (auto simp: tot_search_def searchBFS_def searchDFS_def searchBestFirst_def)
  then obtain label pop push where s: "tot_search ff ord srt tot ctx 0 query (root_tree query) w =
      search_loop ff ord tot ctx query label pop push (tot_fuel tot) [0] (root_tree query) w" "search_strategy pop push"
    by blast
  from search_strategy.search_returns [OF s(2) root, where ff = ff and ctx = ctx and query = query and label = label and w = w] show ?thesis
    using s(1) root_bounds(1) [of tot query] root_bounds(3) [of query] by auto
qed

text \<open>
  C31.
  Every search of a tree of thoughts ends, whatever the agent does, with a tree of at most as
  many nodes as the full tree of the configured depth and branching factor has.  If the agent
  does not fail, the tree is explored completely, for all three strategies: every node is
  either a leaf pruned for a score below the threshold, a leaf at the depth limit, or was
  expanded and has exactly as many children as the branching factor.
\<close>
theorem tot_explores_all:
  assumes "schedules ord" and "sort_slice srt" and "tot_strategy tot \<in> {''bfs'', ''dfs'', ''best-first''}"
  shows "\<exists>r t' w'. tot_search ff ord srt tot ctx 0 query (snd (CreateRoot query None NewReasoningTree)) w = Some (r, t', w') \<and>
    length (rt_nodes t') \<le> full_size (nat (tot_branchingFactor tot)) (nat (tot_maxDepth tot)) \<and>
    (r = Ok () \<longrightarrow> explored tot t')"
  using tot_search_returns [OF assms, where ff = ff and ctx = ctx and query = query and w = w] by (auto simp: CreateRoot_root)

definition constant_thoughts :: "string \<Rightarrow> real \<Rightarrow> unit TreeOfThought" where
  "constant_thoughts strategy score =
     NewTreeOfThought
       \<lparr>agent_Name = ''a'', agent_Capabilities = [],
        agent_Process = (\<lambda>ctx m w. (Ok (Some (assistant_message ''b'' [])), w))\<rparr>
       [WithStrategy strategy, WithBranchingFactor 2, WithMaxDepth 1, WithEvaluator (\<lambda>text. score)]"

lemma in_order_schedules: "schedules (\<lambda>w n. [0..<n])"
  by (simp add: schedules_def)

theorem tot_explores_all_witness:
  "\<exists>r t' w'. tot_search (\<lambda>r. []) (\<lambda>w n. [0..<n]) go_insort (constant_thoughts ''dfs'' 1) Background 0 ''q''
      (snd (CreateRoot ''q'' None NewReasoningTree)) () = Some (r, t', w') \<and> length (rt_nodes t') \<le> 3"
proof -
  have c: "tot_strategy (constant_thoughts ''dfs'' 1) \<in> {''bfs'', ''dfs'', ''best-first''}"
      "tot_branchingFactor (constant_thoughts ''dfs'' 1) = 2" "tot_maxDepth (constant_thoughts ''dfs'' 1) = 1"
    by (simp_all add: constant_thoughts_def NewTreeOfThought_def WithStrategy_def WithBranchingFactor_def WithMaxDepth_def
        WithEvaluator_def)
  show ?thesis
    using tot_explores_all [OF in_order_schedules insertion.sort_slice_axioms c(1),
        where ff = "\<lambda>r. []" and ctx = Background and query = "''q''" and w = "()"] c(2,3)
    by auto
qed

section \<open>The answer\<close>

text \<open>A tree has a leaf: the node with the largest identifier, because children are younger.\<close>

lemma GetLeaves_not_empty:
  assumes ok: "rt_ok t" and keys: "go_map_ok (rt_nodes t)" and ne: "rt_nodes t \<noteq> []"
  shows "GetLeaves t \<noteq> []"
proof -
  define k where "k = Max (fst ` set (rt_nodes t))"
  have "k \<in> fst ` set (rt_nodes t)" unfolding k_def using ne by (intro Max_in) auto
  then obtain n where kn: "(k, n) \<in> set (rt_nodes t)" by force
  have nk: "node_ok t k n" by (rule rt_okD [OF ok]) (rule go_map_mem_get [OF keys kn])
  have "rn_ChildrenIDs n = []"
  proof (rule ccontr)
    assume "rn_ChildrenIDs n \<noteq> []"
    then obtain c cn where "c \<in> set (rn_ChildrenIDs n)" and cn: "go_get (rt_nodes t) c = Some cn" "rn_ParentID cn = Some k"
      using nk by (fastforce simp: node_ok_def neq_Nil_conv)
    then have "k < c" using rt_okD [OF ok cn(1)] by (simp add: node_ok_def)
    moreover have "c \<le> k" unfolding k_def using go_get_Some_mem [OF cn(1)] by (intro Max_ge) force+
    ultimately show False by simp
  qed
  then have "n \<in> set (GetLeaves t)" using kn by (force simp: GetLeaves_def IsLeaf_def)
  then show ?thesis by auto
qed

lemma leaf_path:
  assumes "rt_ok t" and "go_map_ok (rt_nodes t)" and "leaf \<in> set (GetLeaves t)"
  obtains path where "GetPath (rn_ID leaf) t = Some path" and "path \<noteq> []" and "IsRoot (hd path)" and "last path = leaf"
    and "descends path" and "GetPathText (rn_ID leaf) newline t = Some (strings_Join (map rn_Content path) newline)"
proof -
  from assms(3) obtain k where "(k, leaf) \<in> set (rt_nodes t)" by (auto simp: GetLeaves_def)
  then have get: "go_get (rt_nodes t) k = Some leaf" by (rule go_map_mem_get [OF assms(2)])
  then have "rn_ID leaf = k" using rt_okD [OF assms(1)] by (simp add: node_ok_def)
  with path_loop_spec [OF assms(1) get, of "[]"] show thesis
    using that by (auto simp: GetPath_def GetPathText_def)
qed

lemma candidates_returns:
  assumes "rt_ok t" and "go_map_ok (rt_nodes t)" and "set leaves \<subseteq> set (GetLeaves t)"
  shows "\<exists>cs. candidates_of t leaves = Some cs"
  using assms(3)
proof (induction leaves)
  case (Cons leaf leaves)
  obtain ptext where "GetPathText (rn_ID leaf) newline t = Some ptext"
    using leaf_path [OF assms(1,2), of leaf] Cons.prems by auto
  with Cons show ?case by auto
qed simp

definition reports_error :: "message \<Rightarrow> bool" where
  "reports_error m \<longleftrightarrow> (case msg_metadata m of None \<Rightarrow> False | Some md \<Rightarrow> go_get md ''error'' \<noteq> None)"

text \<open>What the answer is, for an explored tree.\<close>

lemma answer_spec:
  assumes "explored tot t" and "rt_nodes t \<noteq> []"
  obtains m w' leaf path where "answer tot query t w = Some (Ok (Some m), w')" and "GetBestLeaf t = Some leaf"
    and "GetPath (rn_ID leaf) t = Some path" and "IsRoot (hd path)" and "last path = leaf" and "descends path"
    and "msg_content m = GStr (strings_Join (map rn_Content path) newline)"
    and "\<not> reports_error m"
proof -
  have ok: "rt_ok t" "go_map_ok (rt_nodes t)" using assms(1) by (simp_all add: explored_def)
  obtain leaf where leaf: "GetBestLeaf t = Some leaf"
    using GetLeaves_not_empty [OF ok assms(2)] by (cases "GetLeaves t") (auto simp: GetBestLeaf_def)
  have mem: "leaf \<in> set (GetLeaves t)" using GetBestLeaf_maximal [OF leaf] by simp
  obtain path where p: "GetPath (rn_ID leaf) t = Some path" "path \<noteq> []" "IsRoot (hd path)" "last path = leaf" "descends path"
      "GetPathText (rn_ID leaf) newline t = Some (strings_Join (map rn_Content path) newline)"
    by (rule leaf_path [OF ok mem])
  obtain cs where cs: "candidates_of t (GetLeaves t) = Some cs" using candidates_returns [OF ok] by blast
  have "\<exists>m w'. answer tot query t w = Some (Ok (Some m), w') \<and>
      msg_content m = GStr (strings_Join (map rn_Content path) newline) \<and>
      \<not> reports_error m"
    using leaf p(1,6) cs by (auto simp: answer_def assistant_message_def reports_error_def Let_def split: prod.splits)
  then show thesis using that [OF _ leaf p(1,3,4,5)] by blast
qed

text \<open>
  With a valid strategy, \<open>Process\<close> of the tree of thoughts ends; it fails only when the
  search fails.  A reply is the text of the path from the root to a leaf of the searched tree
  with the highest score of all its leaves, and never the message for a missing path.
\<close>
lemma tot_answers_best_leaf:
  assumes "schedules ord" and "sort_slice srt" and "tot_strategy tot \<in> {''bfs'', ''dfs'', ''best-first''}"
    and "query = ContentString ff msg"
  shows "(\<exists>t w' m w'' leaf path.
      tot_search ff ord srt tot ctx 0 query (root_tree query) w = Some (Ok (), t, w') \<and>
      tot_Process ff ord srt tot ctx msg w = Some (Ok (Some m), w'') \<and>
      leaf \<in> set (GetLeaves t) \<and> (\<forall>l \<in> set (GetLeaves t). rn_Score l \<le> rn_Score leaf) \<and>
      GetPath (rn_ID leaf) t = Some path \<and> IsRoot (hd path) \<and> last path = leaf \<and> descends path \<and>
      msg_content m = GStr (strings_Join (map rn_Content path) newline) \<and>
      \<not> reports_error m) \<or>
    (\<exists>r t w' r'.
      tot_search ff ord srt tot ctx 0 query (root_tree query) w = Some (r, t, w') \<and> r \<noteq> Ok () \<and>
      tot_Process ff ord srt tot ctx msg w = Some (r', w') \<and> (\<nexists>v. r' = Ok v))" (is "?found \<or> ?failed")
proof -
  obtain r t w' where s: "tot_search ff ord srt tot ctx 0 query (root_tree query) w = Some (r, t, w')"
      "0 < length (rt_nodes t)" "r = Ok () \<longrightarrow> explored tot t"
    using tot_search_returns [OF assms(1-3), where ff = ff and ctx = ctx and query = query and w = w] by blast
  show ?thesis
  proof (cases r)
    case (Ok u)
    then have ex: "explored tot t" "rt_nodes t \<noteq> []" using s by auto
    have P: "tot_Process ff ord srt tot ctx msg w = answer tot query t w'"
      using s(1) Ok assms(3,4) by (simp add: tot_Process_def CreateRoot_root)
    from ex obtain m w'' leaf path where
      a: "answer tot query t w' = Some (Ok (Some m), w'')" "GetBestLeaf t = Some leaf" "GetPath (rn_ID leaf) t = Some path"
        "IsRoot (hd path)" "last path = leaf" "descends path" "msg_content m = GStr (strings_Join (map rn_Content path) newline)"
        "\<not> reports_error m"
      by (rule answer_spec)
    have ?found
      by (rule exI [of _ t], rule exI [of _ w'], rule exI [of _ m], rule exI [of _ w''], rule exI [of _ leaf],
          rule exI [of _ path]) (use s(1) Ok a P GetBestLeaf_maximal [OF a(2)] in auto)
    then show ?thesis ..
  next
    case (Err e)
    then have ?failed using s(1) assms(3,4) by (auto simp: tot_Process_def CreateRoot_root)
    then show ?thesis ..
  next
    case (Panic p)
    then have ?failed using s(1) assms(3,4) by (auto simp: tot_Process_def CreateRoot_root)
    then show ?thesis ..
  qed
qed

text \<open>
  Pruning does not keep a path out of the answer: when every branch scores 0.2 and is pruned
  (the threshold is 0.3), the reply is a pruned path all the same, with no candidates in its
  artifact, and not the message that there is no valid path.
\<close>
lemma tot_answers_pruned_path:
  "case tot_search (\<lambda>r. []) (\<lambda>w n. [0..<n]) go_insort (constant_thoughts ''bfs'' (1 / 5)) Background 0 ''q''
       (root_tree ''q'') () of
     Some (Ok _, t, w') \<Rightarrow>
       map rn_State (GetLeaves t) = [NodeStatePruned, NodeStatePruned] \<and>
       map_option length (candidates_of t (GetLeaves t)) = Some 0 \<and>
       map_option rn_State (GetBestLeaf t) = Some NodeStatePruned \<and>
       map_option (map_outcome (map_option msg_content) \<circ> fst) (answer (constant_thoughts ''bfs'' (1 / 5)) ''q'' t w') =
         Some (Ok (Some (GStr (''q'' @ newline @ ''b''))))
   | _ \<Rightarrow> False"
  by code_simp

end
