(* ===== verification/Permissions.thy ===== *)
theory Permissions
  imports Message
begin

text \<open>
  Permissions and the sandbox (\<open>safety/permissions.go\<close>): the roles, the checks of paths,
  commands, SQL statements and domains, and the middleware that asks for the permissions that
  the text of a message calls for.

  Of package \<open>path/filepath\<close>, the lexical functions \<open>Abs\<close>, \<open>Clean\<close> and \<open>Rel\<close> are modelled for
  Unix: a resolved path is the list of its elements, a path text is split at the slashes.
  \<open>strings.ToLower\<close>, \<open>strings.ToUpper\<close> and \<open>strings.TrimSpace\<close> read Unicode and are parameters.
\<close>

section \<open>Permissions and roles\<close>

type_synonym permission = string
type_synonym role = string
type_synonym permissions = "(permission \<times> bool) list"

abbreviation ReadFiles :: permission where "ReadFiles \<equiv> ''read:files''"
abbreviation WriteFiles :: permission where "WriteFiles \<equiv> ''write:files''"
abbreviation DeleteFiles :: permission where "DeleteFiles \<equiv> ''delete:files''"
abbreviation ExecuteCommands :: permission where "ExecuteCommands \<equiv> ''execute:commands''"
abbreviation ExecuteShell :: permission where "ExecuteShell \<equiv> ''execute:shell''"
abbreviation QueryDatabase :: permission where "QueryDatabase \<equiv> ''query:database''"
abbreviation WriteDatabase :: permission where "WriteDatabase \<equiv> ''write:database''"
abbreviation MakeHTTPRequests :: permission where "MakeHTTPRequests \<equiv> ''network:http''"
abbreviation MakeExternalAPICalls :: permission where "MakeExternalAPICalls \<equiv> ''network:api''"
abbreviation ManageUsers :: permission where "ManageUsers \<equiv> ''manage:users''"
abbreviation ManageAgents :: permission where "ManageAgents \<equiv> ''manage:agents''"
abbreviation AccessSecrets :: permission where "AccessSecrets \<equiv> ''access:secrets''"
abbreviation UseTools :: permission where "UseTools \<equiv> ''use:tools''"
abbreviation UseDangerousTools :: permission where "UseDangerousTools \<equiv> ''use:dangerous_tools''"

abbreviation RoleAdmin :: role where "RoleAdmin \<equiv> ''admin''"
abbreviation RoleUser :: role where "RoleUser \<equiv> ''user''"
abbreviation RoleReadOnly :: role where "RoleReadOnly \<equiv> ''readonly''"
abbreviation RoleRestricted :: role where "RoleRestricted \<equiv> ''restricted''"

definition RolePermissions :: "(role \<times> permissions) list" where
  "RolePermissions =
     [(RoleAdmin,
        [(ReadFiles, True), (WriteFiles, True), (DeleteFiles, True), (ExecuteCommands, True), (ExecuteShell, True),
         (QueryDatabase, True), (WriteDatabase, True), (MakeHTTPRequests, True), (MakeExternalAPICalls, True),
         (ManageUsers, True), (ManageAgents, True), (AccessSecrets, True), (UseTools, True), (UseDangerousTools, True)]),
      (RoleUser,
        [(ReadFiles, True), (WriteFiles, True), (ExecuteCommands, True), (QueryDatabase, True), (MakeHTTPRequests, True),
         (UseTools, True)]),
      (RoleReadOnly, [(ReadFiles, True), (QueryDatabase, True), (UseTools, True)]),
      (RoleRestricted, [(ReadFiles, True), (UseTools, True)])]"

section \<open>The sandbox\<close>

record Sandbox =
  sb_AllowedPaths :: "string list"
  sb_DeniedPaths :: "string list"
  sb_AllowedCommands :: "string list"
  sb_DeniedCommands :: "string list"
  sb_AllowedSQLOperations :: "string list"
  sb_AllowedDomains :: "string list"
  sb_DeniedDomains :: "string list"
  sb_MaxFileSizeMB :: int
  sb_MaxExecutionTime :: int
  sb_MaxMemoryMB :: int

definition NewSandbox :: Sandbox where
  "NewSandbox =
     \<lparr>sb_AllowedPaths = [], sb_DeniedPaths = [''/etc'', ''/sys'', ''/proc''],
      sb_AllowedCommands = [''ls'', ''cat'', ''grep'', ''git'', ''python''],
      sb_DeniedCommands = [''rm'', ''sudo'', ''chmod'', ''chown''], sb_AllowedSQLOperations = [''SELECT'', ''EXPLAIN''],
      sb_AllowedDomains = [], sb_DeniedDomains = [''localhost'', ''127.0.0.1'', ''0.0.0.0''], sb_MaxFileSizeMB = 10,
      sb_MaxExecutionTime = 30, sb_MaxMemoryMB = 512\<rparr>"

text \<open>The elements of a path text, and the lexical processing of \<open>filepath.Clean\<close> for a rooted path.\<close>

fun split_slash :: "string \<Rightarrow> string list" where
  "split_slash [] = [[]]"
| "split_slash (c # s) =
     (if c = CHR ''/'' then [] # split_slash s
      else (case split_slash s of [] \<Rightarrow> [[c]] | e # es \<Rightarrow> (c # e) # es))"

definition clean_step :: "string \<Rightarrow> string list \<Rightarrow> string list" where
  "clean_step e out =
     (if e = [] \<or> e = ''.'' then out else if e = ''..'' then butlast out else out @ [e])"

definition filepath_Clean :: "string \<Rightarrow> string list" where
  "filepath_Clean path = fold clean_step (split_slash path) []"

text \<open>\<open>filepath.Abs\<close>; the working directory is \<open>None\<close> when it cannot be read.\<close>

definition IsAbs :: "string \<Rightarrow> bool" where
  "IsAbs path \<longleftrightarrow> prefix ''/'' path"

definition filepath_Abs :: "string option \<Rightarrow> string \<Rightarrow> string list option" where
  "filepath_Abs wd path =
     (if IsAbs path then Some (filepath_Clean path)
      else (case wd of None \<Rightarrow> None | Some d \<Rightarrow> Some (filepath_Clean (d @ ''/'' @ path))))"

text \<open>\<open>filepath.Rel\<close> of two rooted clean paths: never an error.\<close>

fun strip_common :: "string list \<Rightarrow> string list \<Rightarrow> string list \<times> string list" where
  "strip_common (b # bs) (t # ts) = (if b = t then strip_common bs ts else (b # bs, t # ts))"
| "strip_common bs ts = (bs, ts)"

definition filepath_Rel :: "string list \<Rightarrow> string list \<Rightarrow> string" where
  "filepath_Rel base targ =
     (if base = targ then ''.''
      else case strip_common base targ of
             (bs, ts) \<Rightarrow> strings_Join (replicate (length bs) ''..'' @ ts) ''/'')"

definition inside :: "string list \<Rightarrow> string list \<Rightarrow> bool" where
  "inside dir path \<longleftrightarrow> \<not> prefix ''..'' (filepath_Rel dir path)"

fun in_some_dir :: "string option \<Rightarrow> string list \<Rightarrow> string list \<Rightarrow> string option" where
  "in_some_dir wd resolved [] = None"
| "in_some_dir wd resolved (dir # dirs) =
     (case filepath_Abs wd dir of
        None \<Rightarrow> in_some_dir wd resolved dirs
      | Some d \<Rightarrow> if inside d resolved then Some dir else in_some_dir wd resolved dirs)"

text \<open>A check returns whether the input is allowed, with a text when it is not.\<close>

type_synonym check = "bool \<times> string option"

definition IsPathAllowed :: "string option \<Rightarrow> string \<Rightarrow> string \<Rightarrow> Sandbox \<Rightarrow> check" where
  "IsPathAllowed wd wderr path s =
     (case filepath_Abs wd path of
        None \<Rightarrow> (False, Some (''Path validation error: '' @ wderr))
      | Some resolved \<Rightarrow>
          (case in_some_dir wd resolved (sb_DeniedPaths s) of
             Some denied \<Rightarrow> (False, Some (''Path is in denied directory: '' @ denied))
           | None \<Rightarrow>
               if length (sb_AllowedPaths s) > 0 then
                 (case in_some_dir wd resolved (sb_AllowedPaths s) of
                    Some _ \<Rightarrow> (True, None)
                  | None \<Rightarrow> (False, Some ''Path is outside allowed directories''))
               else (True, None)))"

text \<open>The text before the first space.\<close>

definition first_word :: "string \<Rightarrow> string" where
  "first_word s = takeWhile (\<lambda>c. c \<noteq> CHR '' '') s"

definition IsCommandAllowed :: "string \<Rightarrow> Sandbox \<Rightarrow> check" where
  "IsCommandAllowed command s =
     (let cmdName = first_word command in
      if cmdName \<in> set (sb_DeniedCommands s) then (False, Some (''Command is denied: '' @ cmdName))
      else if length (sb_AllowedCommands s) > 0 \<and> cmdName \<notin> set (sb_AllowedCommands s)
      then (False, Some (''Command not in allowed list: '' @ cmdName))
      else (True, None))"

definition IsSqlOperationAllowed ::
    "(string \<Rightarrow> string) \<Rightarrow> (string \<Rightarrow> string) \<Rightarrow> string \<Rightarrow> Sandbox \<Rightarrow> check" where
  "IsSqlOperationAllowed upper trim sql s =
     (if sql = [] then (True, None)
      else
        let operation = first_word (upper (trim sql)) in
        if operation \<notin> set (sb_AllowedSQLOperations s) then (False, Some (''SQL operation not allowed: '' @ operation))
        else (True, None))"

definition IsDomainAllowed :: "string \<Rightarrow> Sandbox \<Rightarrow> check" where
  "IsDomainAllowed domain s =
     (if domain \<in> set (sb_DeniedDomains s) then (False, Some (''Domain is denied: '' @ domain))
      else if length (sb_AllowedDomains s) > 0 \<and> domain \<notin> set (sb_AllowedDomains s)
      then (False, Some (''Domain not in allowed list: '' @ domain))
      else (True, None))"

section \<open>The middleware\<close>

record 'w PermissionMiddleware =
  pm_agent :: "'w agent"
  pm_role :: role
  pm_permissions :: permissions
  pm_sandbox :: Sandbox

definition NewPermissionMiddleware ::
    "'w agent \<Rightarrow> role \<Rightarrow> permissions option \<Rightarrow> Sandbox option \<Rightarrow> 'w PermissionMiddleware" where
  "NewPermissionMiddleware a role customPermissions sandbox =
     \<lparr>pm_agent = a, pm_role = role,
      pm_permissions =
        (case customPermissions of
           Some p \<Rightarrow> p
         | None \<Rightarrow> (case go_get RolePermissions role of Some p \<Rightarrow> p | None \<Rightarrow> [])),
      pm_sandbox = (case sandbox of None \<Rightarrow> NewSandbox | Some s \<Rightarrow> s)\<rparr>"

definition HasPermission :: "permission \<Rightarrow> 'w PermissionMiddleware \<Rightarrow> bool" where
  "HasPermission permission pm = (case go_get (pm_permissions pm) permission of None \<Rightarrow> False | Some v \<Rightarrow> v)"

definition CheckPermission :: "permission \<Rightarrow> 'w PermissionMiddleware \<Rightarrow> go_error option" where
  "CheckPermission permission pm =
     (if \<not> HasPermission permission pm
      then Some (PermissionDeniedError
        (''Permission denied: '' @ permission @ '' required (role: '' @ pm_role pm @ '')'') (Some permission))
      else None)"

definition file_check :: "string \<Rightarrow> 'w PermissionMiddleware \<Rightarrow> go_error option" where
  "file_check c pm =
     (if strings_Contains c ''read file'' \<or> strings_Contains c ''write file'' \<or> strings_Contains c ''delete file'' then
        if strings_Contains c ''delete'' then CheckPermission DeleteFiles pm
        else if strings_Contains c ''write'' then CheckPermission WriteFiles pm
        else CheckPermission ReadFiles pm
      else None)"

definition command_check :: "string \<Rightarrow> 'w PermissionMiddleware \<Rightarrow> go_error option" where
  "command_check c pm =
     (if strings_Contains c ''execute'' \<or> strings_Contains c ''run command'' \<or> strings_Contains c ''shell'' then
        if strings_Contains c ''shell'' then CheckPermission ExecuteShell pm else CheckPermission ExecuteCommands pm
      else None)"

definition database_check :: "string \<Rightarrow> 'w PermissionMiddleware \<Rightarrow> go_error option" where
  "database_check c pm =
     (if strings_Contains c ''insert'' \<or> strings_Contains c ''update'' \<or> strings_Contains c ''delete'' \<or>
         strings_Contains c ''drop'' \<or> strings_Contains c ''alter'' \<or> strings_Contains c ''create table''
      then CheckPermission WriteDatabase pm
      else if strings_Contains c ''query'' \<or> strings_Contains c ''database'' \<or> strings_Contains c ''sql'' \<or>
         strings_Contains c ''select'' \<or> strings_Contains c ''from''
      then CheckPermission QueryDatabase pm
      else None)"

definition pm_Process ::
    "(real \<Rightarrow> string) \<Rightarrow> (string \<Rightarrow> string) \<Rightarrow> 'w PermissionMiddleware \<Rightarrow> go_ctx \<Rightarrow> message option \<Rightarrow> 'w \<Rightarrow> reply \<times> 'w" where
  "pm_Process ff lower pm ctx msg w =
     (case CheckPermission UseTools pm of
        Some e \<Rightarrow> (Err e, w)
      | None \<Rightarrow>
          (case msg of
             None \<Rightarrow> (Panic ''nil pointer dereference'', w)
           | Some m \<Rightarrow>
               let contentStr = lower (ContentString ff m) in
               case file_check contentStr pm of
                 Some e \<Rightarrow> (Err e, w)
               | None \<Rightarrow>
                   (case command_check contentStr pm of
                      Some e \<Rightarrow> (Err e, w)
                    | None \<Rightarrow>
                        (case database_check contentStr pm of
                           Some e \<Rightarrow> (Err e, w)
                         | None \<Rightarrow> agent_Process (pm_agent pm) ctx msg w))))"

section \<open>Paths\<close>

lemma strip_common_spec:
  "strip_common b t = (bs, ts) \<Longrightarrow> \<exists>p. b = p @ bs \<and> t = p @ ts \<and> (bs = [] \<or> ts = [] \<or> hd bs \<noteq> hd ts)"
proof (induction b t rule: strip_common.induct)
  case (1 b bs' t ts')
  show ?case
  proof (cases "b = t")
    case True
    then obtain p where "bs' = p @ bs" "ts' = p @ ts" "bs = [] \<or> ts = [] \<or> hd bs \<noteq> hd ts" using 1 by auto
    then show ?thesis using True by (intro exI [of _ "b # p"]) simp
  qed (use 1 in auto)
qed auto

lemma Join_hd: "es \<noteq> [] \<Longrightarrow> \<exists>r. strings_Join (e # es) sep = e @ sep @ r"
  by (cases es) auto

lemma prefix_dots_Join: "prefix ''..'' (strings_Join (e # es) ''/'') \<longleftrightarrow> prefix ''..'' e"
proof (cases "es = []")
  case False
  obtain r where r: "strings_Join (e # es) ''/'' = e @ ''/'' @ r" using Join_hd [OF False] by blast
  show ?thesis unfolding r by (cases e; cases "tl e") auto
qed simp

text \<open>
  The test by the text of the relative path: the directory is a prefix of the path, and the
  first element below it does not begin with two dots.
\<close>

lemma inside_iff:
  "inside dir path \<longleftrightarrow> (\<exists>rest. path = dir @ rest \<and> (rest = [] \<or> \<not> prefix ''..'' (hd rest)))"
proof (cases "dir = path")
  case True
  then show ?thesis by (simp add: inside_def filepath_Rel_def)
next
  case False
  obtain bs ts where st: "strip_common dir path = (bs, ts)" by (metis prod.exhaust)
  then obtain p where p: "dir = p @ bs" "path = p @ ts" "bs = [] \<or> ts = [] \<or> hd bs \<noteq> hd ts"
    using strip_common_spec by blast
  have rel: "filepath_Rel dir path = strings_Join (replicate (length bs) ''..'' @ ts) ''/''"
    using False st by (simp add: filepath_Rel_def)
  show ?thesis
  proof (cases bs)
    case Nil
    then obtain e es where "ts = e # es" using False p by (cases ts) auto
    then show ?thesis using Nil p rel prefix_dots_Join [of e es] by (simp add: inside_def)
  next
    case (Cons b bs')
    have "\<not> inside dir path"
      using rel Cons prefix_dots_Join [of "''..''" "replicate (length bs') ''..'' @ ts"] by (simp add: inside_def)
    moreover have "path \<noteq> dir @ rest" for rest using p Cons by (cases ts) auto
    ultimately show ?thesis by blast
  qed
qed

lemma inside_prefix: "inside dir path \<Longrightarrow> prefix dir path"
  by (auto simp: inside_iff)

lemma inside_exact: "\<forall>e \<in> set path. \<not> prefix ''..'' e \<Longrightarrow> inside dir path \<longleftrightarrow> prefix dir path"
  unfolding inside_iff prefix_def by (metis hd_in_set Un_iff set_append)

lemma in_some_dir_Some:
  "in_some_dir wd r dirs = Some dir \<Longrightarrow> dir \<in> set dirs \<and> (\<exists>d. filepath_Abs wd dir = Some d \<and> inside d r)"
  by (induction dirs) (auto split: option.splits if_splits)

lemma in_some_dir_None:
  "in_some_dir wd r dirs = None \<longleftrightarrow> (\<forall>dir \<in> set dirs. \<forall>d. filepath_Abs wd dir = Some d \<longrightarrow> \<not> inside d r)"
  by (induction dirs) (auto split: option.splits)

text \<open>The elements of a resolved path are names: not empty, not \<open>.\<close> or \<open>..\<close>, without a slash.\<close>

definition is_name :: "string \<Rightarrow> bool" where
  "is_name e \<longleftrightarrow> e \<noteq> [] \<and> e \<noteq> ''.'' \<and> e \<noteq> ''..'' \<and> CHR ''/'' \<notin> set e"

lemma split_slash_no_slash: "e \<in> set (split_slash s) \<Longrightarrow> CHR ''/'' \<notin> set e"
  by (induction s arbitrary: e) (auto split: list.splits if_splits)

lemma clean_step_names:
  "\<forall>x \<in> set out. is_name x \<Longrightarrow> CHR ''/'' \<notin> set e \<Longrightarrow> \<forall>x \<in> set (clean_step e out). is_name x"
  by (auto simp: clean_step_def is_name_def dest: in_set_butlastD)

lemma fold_clean_names:
  "\<forall>x \<in> set out. is_name x \<Longrightarrow> \<forall>e \<in> set es. CHR ''/'' \<notin> set e \<Longrightarrow> \<forall>x \<in> set (fold clean_step es out). is_name x"
proof (induction es arbitrary: out)
  case (Cons e es)
  have "\<forall>x \<in> set (clean_step e out). is_name x" by (rule clean_step_names) (use Cons.prems in simp_all)
  from Cons.IH [OF this] Cons.prems(2) show ?case by simp
qed simp

lemma Clean_names: "e \<in> set (filepath_Clean path) \<Longrightarrow> is_name e"
  unfolding filepath_Clean_def using fold_clean_names [of "[]" "split_slash path"] split_slash_no_slash by auto

lemma Abs_names: "filepath_Abs wd path = Some r \<Longrightarrow> e \<in> set r \<Longrightarrow> is_name e"
  by (auto simp: filepath_Abs_def intro: Clean_names split: if_splits option.splits)

text \<open>
  C25.
  A sandbox with allowed directories confines: a path that \<open>IsPathAllowed\<close> accepts resolves to
  a sequence of proper names (no \<open>..\<close>, no empty element) that begins with the names of one of
  the allowed directories, however the path is spelled.
\<close>
theorem sandbox_confines:
  assumes "fst (IsPathAllowed wd wderr path s)" and "sb_AllowedPaths s \<noteq> []"
  shows "\<exists>r dir d. filepath_Abs wd path = Some r \<and> dir \<in> set (sb_AllowedPaths s) \<and> filepath_Abs wd dir = Some d \<and>
    prefix d r \<and> (\<forall>e \<in> set r. is_name e)"
proof -
  obtain r where r: "filepath_Abs wd path = Some r"
    using assms(1) by (cases "filepath_Abs wd path") (simp_all add: IsPathAllowed_def)
  then obtain dir where dir: "in_some_dir wd r (sb_AllowedPaths s) = Some dir"
    using assms by (auto simp: IsPathAllowed_def split: option.splits)
  from in_some_dir_Some [OF dir] inside_prefix Abs_names [OF r] r show ?thesis by blast
qed

theorem sandbox_confines_witness:
  "\<exists>r d. filepath_Abs (Some ''/home'') ''/app/./x/../data/a'' = Some r \<and> filepath_Abs (Some ''/home'') ''/app/data'' = Some d \<and>
    prefix d r"
proof -
  let ?s = "NewSandbox\<lparr>sb_AllowedPaths := [''/app/data'']\<rparr>"
  have "fst (IsPathAllowed (Some ''/home'') [] ''/app/./x/../data/a'' ?s)" by code_simp
  from sandbox_confines [OF this] show ?thesis by (auto simp: NewSandbox_def)
qed

text \<open>
  If no element of the resolved path begins with two dots, the check of a path is exact: the
  path is allowed if and only if it lies in none of the denied directories and, when there are
  allowed directories, in one of them.
\<close>
lemma sandbox_path_exact:
  assumes "filepath_Abs wd path = Some r" and "\<forall>e \<in> set r. \<not> prefix ''..'' e"
  shows "fst (IsPathAllowed wd wderr path s) \<longleftrightarrow>
    (\<forall>dir \<in> set (sb_DeniedPaths s). \<forall>d. filepath_Abs wd dir = Some d \<longrightarrow> \<not> prefix d r) \<and>
    (sb_AllowedPaths s = [] \<or> (\<exists>dir \<in> set (sb_AllowedPaths s). \<exists>d. filepath_Abs wd dir = Some d \<and> prefix d r))"
proof -
  note ex = inside_exact [OF assms(2)]
  have none: "in_some_dir wd r dirs = None \<longleftrightarrow> (\<forall>dir \<in> set dirs. \<forall>d. filepath_Abs wd dir = Some d \<longrightarrow> \<not> prefix d r)" for dirs
    by (simp add: in_some_dir_None ex)
  show ?thesis
    using none [of "sb_DeniedPaths s"] none [of "sb_AllowedPaths s"] assms(1)
    by (cases "in_some_dir wd r (sb_DeniedPaths s)"; cases "in_some_dir wd r (sb_AllowedPaths s)")
      (auto simp: IsPathAllowed_def)
qed

text \<open>
  The test is not exact for names that begin with two dots: the default sandbox allows the
  path \<open>/etc/..secret\<close> although \<open>/etc\<close> is a denied directory, and a sandbox that allows
  \<open>/app/data\<close> rejects \<open>/app/data/..cache\<close>.
\<close>
lemma sandbox_dotdot_names:
  "IsPathAllowed None [] ''/etc/..secret'' NewSandbox = (True, None) \<and>
   IsPathAllowed None [] ''/etc/secret'' NewSandbox = (False, Some ''Path is in denied directory: /etc'') \<and>
   IsPathAllowed None [] ''/app/data/..cache'' (NewSandbox\<lparr>sb_AllowedPaths := [''/app/data'']\<rparr>) =
     (False, Some ''Path is outside allowed directories'')"
  by code_simp

section \<open>Commands and statements\<close>

text \<open>
  Only the first word of a statement is checked: with the default sandbox a second statement
  after a semicolon is accepted, a statement with a line break after its first word is
  rejected; and with an empty list of allowed commands a denied command passes when a tab
  follows it or when it is called by its path.
\<close>
lemma sandbox_first_word_only:
  "IsSqlOperationAllowed id id ''SELECT 1; DROP TABLE users'' NewSandbox = (True, None) \<and>
   fst (IsSqlOperationAllowed id id (''SELECT'' @ [CHR 0x0A] @ ''1'') NewSandbox) = False \<and>
   IsCommandAllowed (''rm'' @ [CHR 0x09] @ ''-rf /'') (NewSandbox\<lparr>sb_AllowedCommands := []\<rparr>) = (True, None) \<and>
   IsCommandAllowed ''/bin/rm -rf /'' (NewSandbox\<lparr>sb_AllowedCommands := []\<rparr>) = (True, None) \<and>
   fst (IsCommandAllowed ''rm -rf /'' (NewSandbox\<lparr>sb_AllowedCommands := []\<rparr>)) = False"
  by code_simp

lemma command_allowed_iff:
  "fst (IsCommandAllowed command s) \<longleftrightarrow> first_word command \<notin> set (sb_DeniedCommands s) \<and>
     (sb_AllowedCommands s = [] \<or> first_word command \<in> set (sb_AllowedCommands s))"
  by (auto simp: IsCommandAllowed_def Let_def)

lemma domain_allowed_iff:
  "fst (IsDomainAllowed domain s) \<longleftrightarrow> domain \<notin> set (sb_DeniedDomains s) \<and>
     (sb_AllowedDomains s = [] \<or> domain \<in> set (sb_AllowedDomains s))"
  by (auto simp: IsDomainAllowed_def)

section \<open>The gate\<close>

text \<open>The permissions that a text calls for, in the order in which they are checked.\<close>

definition file_words :: "string list" where
  "file_words = [''read file'', ''write file'', ''delete file'']"

definition command_words :: "string list" where
  "command_words = [''execute'', ''run command'', ''shell'']"

definition write_words :: "string list" where
  "write_words = [''insert'', ''update'', ''delete'', ''drop'', ''alter'', ''create table'']"

definition query_words :: "string list" where
  "query_words = [''query'', ''database'', ''sql'', ''select'', ''from'']"

definition mentions :: "string \<Rightarrow> string list \<Rightarrow> bool" where
  "mentions c ws \<longleftrightarrow> (\<exists>x \<in> set ws. strings_Contains c x)"

definition required_permissions :: "string \<Rightarrow> permission list" where
  "required_permissions c =
     [UseTools] @
     (if mentions c file_words then
        [if strings_Contains c ''delete'' then DeleteFiles else if strings_Contains c ''write'' then WriteFiles else ReadFiles]
      else []) @
     (if mentions c command_words then [if strings_Contains c ''shell'' then ExecuteShell else ExecuteCommands] else []) @
     (if mentions c write_words then [WriteDatabase] else if mentions c query_words then [QueryDatabase] else [])"

definition missing :: "string \<Rightarrow> 'w PermissionMiddleware \<Rightarrow> permission list" where
  "missing c pm = filter (\<lambda>p. \<not> HasPermission p pm) (required_permissions c)"

lemmas word_defs = mentions_def file_words_def command_words_def write_words_def query_words_def

lemma file_check_iff:
  "file_check c pm =
     (if mentions c file_words
      then CheckPermission (if strings_Contains c ''delete'' then DeleteFiles
        else if strings_Contains c ''write'' then WriteFiles else ReadFiles) pm else None)"
  by (simp add: file_check_def word_defs)

lemma command_check_iff:
  "command_check c pm =
     (if mentions c command_words
      then CheckPermission (if strings_Contains c ''shell'' then ExecuteShell else ExecuteCommands) pm else None)"
  by (simp add: command_check_def word_defs)

lemma database_check_iff:
  "database_check c pm =
     (if mentions c write_words then CheckPermission WriteDatabase pm
      else if mentions c query_words then CheckPermission QueryDatabase pm else None)"
  by (simp add: database_check_def word_defs)

definition denied :: "'w PermissionMiddleware \<Rightarrow> permission \<Rightarrow> go_error" where
  "denied pm p =
     PermissionDeniedError (''Permission denied: '' @ p @ '' required (role: '' @ pm_role pm @ '')'') (Some p)"

lemma CheckPermission_denied: "CheckPermission p pm = (if HasPermission p pm then None else Some (denied pm p))"
  by (simp add: CheckPermission_def denied_def)

lemma pm_Process_gate:
  "pm_Process ff lower pm ctx (Some m) w =
     (case missing (lower (ContentString ff m)) pm of
        [] \<Rightarrow> agent_Process (pm_agent pm) ctx (Some m) w
      | p # ps \<Rightarrow> (Err (denied pm p), w))"
proof -
  define c where "c = lower (ContentString ff m)"
  define f where "f = (if strings_Contains c ''delete'' then DeleteFiles
    else if strings_Contains c ''write'' then WriteFiles else ReadFiles)"
  define k where "k = (if strings_Contains c ''shell'' then ExecuteShell else ExecuteCommands)"
  have "required_permissions c = [UseTools] @ (if mentions c file_words then [f] else []) @
      (if mentions c command_words then [k] else []) @
      (if mentions c write_words then [WriteDatabase] else if mentions c query_words then [QueryDatabase] else [])"
    by (simp add: required_permissions_def f_def k_def)
  moreover have "file_check c pm = (if mentions c file_words then CheckPermission f pm else None)"
    by (simp add: file_check_iff f_def)
  moreover have "command_check c pm = (if mentions c command_words then CheckPermission k pm else None)"
    by (simp add: command_check_iff k_def)
  ultimately show ?thesis
    unfolding pm_Process_def missing_def c_def [symmetric] Let_def option.case
    by (simp add: database_check_iff CheckPermission_denied)
qed

text \<open>
  The middleware passes a message to the wrapped agent exactly when it holds every permission
  that the text of the message calls for; otherwise it returns the error that names the first
  missing one and the agent is not called.
\<close>
lemma permission_gate:
  "pm_Process ff lower pm ctx (Some m) w =
     (let needed = required_permissions (lower (ContentString ff m)) in
      if list_all (\<lambda>p. HasPermission p pm) needed then agent_Process (pm_agent pm) ctx (Some m) w
      else
        let p = hd (filter (\<lambda>p. \<not> HasPermission p pm) needed) in
        (Err (PermissionDeniedError (''Permission denied: '' @ p @ '' required (role: '' @ pm_role pm @ '')'') (Some p)), w))"
proof (cases "missing (lower (ContentString ff m)) pm")
  case Nil
  then show ?thesis by (simp add: pm_Process_gate) (simp add: missing_def filter_empty_conv list_all_iff)
next
  case (Cons p ps)
  then have "p \<in> set (missing (lower (ContentString ff m)) pm)" by simp
  then have "\<not> list_all (\<lambda>p. HasPermission p pm) (required_permissions (lower (ContentString ff m)))"
    by (auto simp: missing_def list_all_iff)
  then show ?thesis using Cons by (simp add: pm_Process_gate denied_def) (simp add: missing_def)
qed

text \<open>The four roles, from the least to the most powerful.\<close>

definition role_order :: "role list" where
  "role_order = [RoleRestricted, RoleReadOnly, RoleUser, RoleAdmin]"

definition role_grants :: "role \<Rightarrow> permission set" where
  "role_grants r = {p. \<exists>ps. go_get RolePermissions r = Some ps \<and> go_get ps p = Some True}"

lemma HasPermission_role: "HasPermission p (NewPermissionMiddleware a r None sb) \<longleftrightarrow> p \<in> role_grants r"
  by (auto simp: role_grants_def HasPermission_def NewPermissionMiddleware_def split: option.splits)

lemma role_grants_known:
  "role_grants RoleRestricted = {ReadFiles, UseTools}"
  "role_grants RoleReadOnly = {ReadFiles, QueryDatabase, UseTools}"
  "role_grants RoleUser = {ReadFiles, WriteFiles, ExecuteCommands, QueryDatabase, MakeHTTPRequests, UseTools}"
  "role_grants RoleAdmin = {ReadFiles, WriteFiles, DeleteFiles, ExecuteCommands, ExecuteShell, QueryDatabase, WriteDatabase,
     MakeHTTPRequests, MakeExternalAPICalls, ManageUsers, ManageAgents, AccessSecrets, UseTools, UseDangerousTools}"
  by (auto simp: role_grants_def HasPermission_def NewPermissionMiddleware_def RolePermissions_def)

lemma role_grants_mono:
  assumes "i \<le> j" and "j < length role_order"
  shows "role_grants (role_order ! i) \<subseteq> role_grants (role_order ! j)"
proof -
  have "role_grants RoleRestricted \<subseteq> role_grants RoleReadOnly" "role_grants RoleReadOnly \<subseteq> role_grants RoleUser"
    "role_grants RoleUser \<subseteq> role_grants RoleAdmin"
    unfolding role_grants_known by (intro insert_subsetI empty_subsetI; simp only: insert_iff simp_thms)+
  then have chain: "role_grants (role_order ! 0) \<subseteq> role_grants (role_order ! 1)"
    "role_grants (role_order ! 1) \<subseteq> role_grants (role_order ! 2)" "role_grants (role_order ! 2) \<subseteq> role_grants (role_order ! 3)"
    by (simp_all only: role_order_def nth_Cons_0 nth_Cons_numeral One_nat_def nth_Cons_Suc pred_numeral_simps numeral_One
        numeral_2_eq_2 numeral_3_eq_3)
  have "j = 0 \<or> j = 1 \<or> j = 2 \<or> j = 3" using assms(2) by (auto simp: role_order_def)
  moreover have "i = j \<or> i = 0 \<or> i = 1 \<or> i = 2" using assms by (auto simp: role_order_def)
  ultimately show ?thesis using assms(1) chain by fastforce
qed

lemma role_Process:
  "pm_Process ff lower (NewPermissionMiddleware a r None sb) ctx (Some m) w =
     (if set (required_permissions (lower (ContentString ff m))) \<subseteq> role_grants r then agent_Process a ctx (Some m) w
      else (Err (denied (NewPermissionMiddleware a r None sb)
        (hd (filter (\<lambda>p. p \<notin> role_grants r) (required_permissions (lower (ContentString ff m)))))), w))"
proof -
  have ag: "pm_agent (NewPermissionMiddleware a r None sb) = a" by (simp add: NewPermissionMiddleware_def)
  have miss: "missing c (NewPermissionMiddleware a r None sb) = filter (\<lambda>p. p \<notin> role_grants r) (required_permissions c)" for c
    by (simp add: missing_def HasPermission_role)
  show ?thesis
    unfolding pm_Process_gate miss ag
    by (cases "filter (\<lambda>p. p \<notin> role_grants r) (required_permissions (lower (ContentString ff m)))")
      (auto simp: filter_empty_conv filter_eq_Cons_iff subset_iff)
qed

lemma required_admin: "set (required_permissions c) \<subseteq> role_grants RoleAdmin"
  unfolding role_grants_known required_permissions_def by auto

text \<open>
  The roles form a chain: if the middleware of a role passes a message to every agent, so does
  the middleware of every more powerful role.  The administrator passes every message, and a
  role that is not defined passes none.
\<close>
lemma roles_form_a_chain:
  fixes w :: 'w
  assumes "i \<le> j" and "j < length role_order"
    and "\<And>a (w :: 'w). pm_Process ff lower (NewPermissionMiddleware a (role_order ! i) None sb) ctx (Some m) w =
      agent_Process a ctx (Some m) w"
  shows "pm_Process ff lower (NewPermissionMiddleware a (role_order ! j) None sb) ctx (Some m) w =
      agent_Process a ctx (Some m) w \<and>
    pm_Process ff lower (NewPermissionMiddleware a RoleAdmin None sb) ctx (Some m') w = agent_Process a ctx (Some m') w \<and>
    (go_get RolePermissions r = None \<longrightarrow>
      pm_Process ff lower (NewPermissionMiddleware a r None sb) ctx (Some m') w =
        (Err (denied (NewPermissionMiddleware a r None sb) UseTools), w))"
proof -
  define c where "c = lower (ContentString ff m)"
  let ?a = "\<lparr>agent_Name = [], agent_Capabilities = [], agent_Process = \<lambda>ctx m w. (Panic [], w)\<rparr> :: 'w agent"
  have "set (required_permissions c) \<subseteq> role_grants (role_order ! i)"
    using assms(3) [of ?a w] unfolding role_Process c_def [symmetric] by (simp split: if_splits)
  then have sub: "set (required_permissions c) \<subseteq> role_grants (role_order ! j)"
    using role_grants_mono [OF assms(1,2)] by blast
  have none: "pm_Process ff lower (NewPermissionMiddleware a r None sb) ctx (Some m') w =
      (Err (denied (NewPermissionMiddleware a r None sb) UseTools), w)" if "go_get RolePermissions r = None"
  proof -
    have "role_grants r = {}" using that by (simp add: role_grants_def)
    moreover obtain ps where "required_permissions (lower (ContentString ff m')) = UseTools # ps"
      by (simp add: required_permissions_def)
    ultimately show ?thesis unfolding role_Process by simp
  qed
  show ?thesis
    by (intro conjI impI none) (simp_all only: role_Process c_def [symmetric] sub required_admin if_True)
qed

end
