(* ===== verification/Anomaly.thy ===== *)
theory Anomaly
  imports Message "HOL-Library.Word"
begin

unbundle bit_operations_syntax

text \<open>
  Anomaly detection (\<open>safety/anomaly_detection.go\<close>): the detectors of request rates, failure
  rates, sizes and repeated contents, each with the window of observations that it keeps, and
  the middleware that runs them around an agent.

  A reading of the clock is an argument of the detector that takes it.  Every detector runs
  under the mutex of the detector record, so its state is passed through whole calls.
\<close>

section \<open>The detector\<close>

datatype SecurityEvent =
    HighRequestRate | BurstDetected | RepeatedFailures | PermissionDeniedSpike | ValidationFailures
  | UnusualInputSize | UnusualOutputSize | UnusualProcessingTime | SuspiciousContentPattern | RepetitiveContent

type_synonym details = "(string \<times> gval) list"

record AnomalyDetector =
  ad_MaxRequestsPerMinute :: int
  ad_MaxBurstSize :: int
  ad_InputSizeThreshold :: real
  ad_OutputSizeThreshold :: real
  ad_ProcessingTimeThreshold :: real
  ad_FailureRateThreshold :: real
  ad_requestTimestamps :: "(string \<times> real list) list"
  ad_failureCounts :: "(string \<times> int) list"
  ad_successCounts :: "(string \<times> int) list"
  ad_inputSizes :: "int list"
  ad_outputSizes :: "int list"
  ad_recentContent :: "(string \<times> 64 word list) list"

definition NewAnomalyDetector :: AnomalyDetector where
  "NewAnomalyDetector =
     \<lparr>ad_MaxRequestsPerMinute = 60, ad_MaxBurstSize = 10, ad_InputSizeThreshold = 3, ad_OutputSizeThreshold = 3,
      ad_ProcessingTimeThreshold = 30, ad_FailureRateThreshold = 1 / 2, ad_requestTimestamps = [], ad_failureCounts = [],
      ad_successCounts = [], ad_inputSizes = [], ad_outputSizes = [], ad_recentContent = []\<rparr>"

definition entry :: "(string \<times> 'a list) list \<Rightarrow> string \<Rightarrow> 'a list" where
  "entry m k = (case go_get m k of None \<Rightarrow> [] | Some xs \<Rightarrow> xs)"

definition counter :: "(string \<times> int) list \<Rightarrow> string \<Rightarrow> int" where
  "counter m k = (case go_get m k of None \<Rightarrow> 0 | Some n \<Rightarrow> n)"

text \<open>\<open>time.Now().Unix()\<close> of a clock in nanoseconds.\<close>

definition Unix :: "time \<Rightarrow> int" where
  "Unix t = t div second"

definition DetectRateAnomaly ::
    "time \<Rightarrow> string \<Rightarrow> AnomalyDetector \<Rightarrow> (SecurityEvent \<times> details) option \<times> AnomalyDetector" where
  "DetectRateAnomaly t userID d =
     (let nowFloat = real_of_int (Unix t);
          recorded = entry (ad_requestTimestamps d) userID @ [nowFloat];
          cleaned = filter (\<lambda>ts. nowFloat - ts \<le> 60) recorded;
          stamps = keep_last 1000 cleaned;
          d = d\<lparr>ad_requestTimestamps := go_set userID stamps (ad_requestTimestamps d)\<rparr>;
          requestsPerMinute = int (length stamps)
      in if requestsPerMinute > ad_MaxRequestsPerMinute d
         then (Some (HighRequestRate,
                [(''user_id'', GStr userID), (''requests_per_minute'', GInt requestsPerMinute),
                 (''threshold'', GInt (ad_MaxRequestsPerMinute d))]), d)
         else
           let recent = int (length (filter (\<lambda>ts. nowFloat - ts < 1) stamps)) in
           if recent > ad_MaxBurstSize d
           then (Some (BurstDetected,
                  [(''user_id'', GStr userID), (''burst_size'', GInt recent), (''threshold'', GInt (ad_MaxBurstSize d))]), d)
           else (None, d))"

definition DetectFailureAnomaly ::
    "string \<Rightarrow> bool \<Rightarrow> AnomalyDetector \<Rightarrow> (SecurityEvent \<times> details) option \<times> AnomalyDetector" where
  "DetectFailureAnomaly userID isFailure d =
     (let d = (if isFailure then d\<lparr>ad_failureCounts := go_incr userID (ad_failureCounts d)\<rparr>
               else d\<lparr>ad_successCounts := go_incr userID (ad_successCounts d)\<rparr>);
          failures = counter (ad_failureCounts d) userID;
          total = failures + counter (ad_successCounts d) userID;
          failureRate = real_of_int failures / real_of_int total
      in if total \<ge> 10 \<and> failureRate > ad_FailureRateThreshold d
         then (Some (RepeatedFailures,
                [(''user_id'', GStr userID), (''failure_rate'', GFloat failureRate), (''failures'', GInt failures),
                 (''total'', GInt total)]), d)
         else (None, d))"

definition mean :: "int list \<Rightarrow> real" where
  "mean values = (if length values = 0 then 0 else real_of_int (sum_list values) / real (length values))"

definition stdev :: "int list \<Rightarrow> real \<Rightarrow> real" where
  "stdev values mu =
     (if length values \<le> 1 then 0
      else sqrt (sum_list (map (\<lambda>v. (real_of_int v - mu) * (real_of_int v - mu)) values) / real (length values - 1)))"

definition size_event ::
    "SecurityEvent \<Rightarrow> string \<Rightarrow> int list \<Rightarrow> real \<Rightarrow> int \<Rightarrow> (SecurityEvent \<times> details) option" where
  "size_event ev label sizes threshold n =
     (let m = mean sizes; sd = stdev sizes m; zScore = \<bar>real_of_int n - m\<bar> / sd in
      if sd > 0 \<and> zScore > threshold
      then Some (ev, [(label, GInt n), (''mean'', GFloat m), (''stdev'', GFloat sd), (''z_score'', GFloat zScore)])
      else None)"

definition DetectSizeAnomaly ::
    "int \<Rightarrow> int \<Rightarrow> AnomalyDetector \<Rightarrow> (SecurityEvent \<times> details) option \<times> AnomalyDetector" where
  "DetectSizeAnomaly inputSize outputSize d =
     (let d = d\<lparr>ad_inputSizes := keep_last 100 (ad_inputSizes d @ [inputSize]),
                ad_outputSizes := keep_last 100 (ad_outputSizes d @ [outputSize])\<rparr>
      in if length (ad_inputSizes d) < 20 then (None, d)
         else
           (case size_event UnusualInputSize ''input_size'' (ad_inputSizes d) (ad_InputSizeThreshold d) inputSize of
              Some e \<Rightarrow> (Some e, d)
            | None \<Rightarrow> (size_event UnusualOutputSize ''output_size'' (ad_outputSizes d) (ad_OutputSizeThreshold d) outputSize, d)))"

text \<open>The 64-bit FNV-1a hash of the standard library.\<close>

definition fnv_step :: "char \<Rightarrow> 64 word \<Rightarrow> 64 word" where
  "fnv_step c h = (h XOR of_nat (of_char c)) * 1099511628211"

definition hashString :: "string \<Rightarrow> 64 word" where
  "hashString s = fold fnv_step s 14695981039346656037"

definition DetectContentAnomaly ::
    "string \<Rightarrow> string \<Rightarrow> AnomalyDetector \<Rightarrow> (SecurityEvent \<times> details) option \<times> AnomalyDetector" where
  "DetectContentAnomaly userID content d =
     (let contentHash = hashString (take 500 content);
          hashes = keep_last 10 (entry (ad_recentContent d) userID @ [contentHash]);
          d = d\<lparr>ad_recentContent := go_set userID hashes (ad_recentContent d)\<rparr>
      in if length hashes \<ge> 5 \<and> (\<forall>h \<in> set (drop (length hashes - 5) hashes). h = hashes ! (length hashes - 5))
         then (Some (RepetitiveContent, [(''user_id'', GStr userID), (''repetitions'', GInt 5)]), d)
         else (None, d))"

section \<open>The middleware\<close>

record 'w AnomalyDetectionMiddleware =
  am_agent :: "'w agent"
  am_userID :: string
  am_onAnomaly :: "SecurityEvent \<Rightarrow> details \<Rightarrow> 'w \<Rightarrow> 'w"

definition notify ::
    "'w AnomalyDetectionMiddleware \<Rightarrow> (SecurityEvent \<times> details) option \<Rightarrow> 'w \<Rightarrow> 'w" where
  "notify am e w = (case e of None \<Rightarrow> w | Some (ev, ds) \<Rightarrow> am_onAnomaly am ev ds w)"

text \<open>The checks after a reply: size, then processing time.\<close>

definition after_reply ::
    "(real \<Rightarrow> string) \<Rightarrow> 'w clock \<Rightarrow> 'w AnomalyDetectionMiddleware \<Rightarrow> time \<Rightarrow> string \<Rightarrow> message \<Rightarrow>
     AnomalyDetector \<Rightarrow> 'w \<Rightarrow> AnomalyDetector \<times> 'w" where
  "after_reply ff clock am startTime contentStr response d w =
     (let (now, w) = clock w;
          processingTime = Seconds (now - startTime);
          (e, d) = DetectSizeAnomaly (int (length contentStr)) (int (length (ContentString ff response))) d;
          w = notify am e w
      in (d, if processingTime > ad_ProcessingTimeThreshold d
             then am_onAnomaly am UnusualProcessingTime
               [(''user_id'', GStr (am_userID am)), (''processing_time'', GFloat processingTime),
                (''threshold'', GFloat (ad_ProcessingTimeThreshold d))] w
             else w))"

text \<open>An agent that returns an error returns no message with it.\<close>

definition am_Process ::
    "(real \<Rightarrow> string) \<Rightarrow> 'w clock \<Rightarrow> 'w AnomalyDetectionMiddleware \<Rightarrow> go_ctx \<Rightarrow> message option \<Rightarrow>
     AnomalyDetector \<Rightarrow> 'w \<Rightarrow> reply \<times> AnomalyDetector \<times> 'w" where
  "am_Process ff clock am ctx msg d w =
     (let (startTime, w) = clock w;
          (now, w) = clock w;
          (e, d) = DetectRateAnomaly now (am_userID am) d;
          w = notify am e w
      in case msg of
           None \<Rightarrow> (Panic ''nil pointer dereference'', d, w)
         | Some m \<Rightarrow>
             let contentStr = ContentString ff m;
                 (e, d) = DetectContentAnomaly (am_userID am) contentStr d;
                 w = notify am e w;
                 (r, w) = agent_Process (am_agent am) ctx msg w
             in case r of
                  Panic p \<Rightarrow> (Panic p, d, w)
                | Err err \<Rightarrow>
                    (let (e, d) = DetectFailureAnomaly (am_userID am) True d in (Err err, d, notify am e w))
                | Ok response \<Rightarrow>
                    (let (e, d) = DetectFailureAnomaly (am_userID am) False d;
                         w = notify am e w
                     in case response of
                          None \<Rightarrow> (Ok None, d, w)
                        | Some r \<Rightarrow> (Ok (Some r), after_reply ff clock am startTime contentStr r d w)))"

section \<open>Windows\<close>

text \<open>
  In a list with an upper part selected by \<open>P\<close> (all elements after one that satisfies \<open>P\<close>
  satisfy it), keeping the last \<open>n\<close> elements and selecting can be exchanged.
\<close>

definition upper_part :: "('a \<Rightarrow> bool) \<Rightarrow> 'a list \<Rightarrow> bool" where
  "upper_part P xs \<longleftrightarrow> (\<exists>us vs. xs = us @ vs \<and> (\<forall>u \<in> set us. \<not> P u) \<and> (\<forall>v \<in> set vs. P v))"

lemma upper_part_sorted:
  fixes xs :: "real list"
  assumes "sorted xs"
  shows "upper_part (\<lambda>x. c \<le> x) xs"
proof -
  have "xs = takeWhile (\<lambda>x. x < c) xs @ dropWhile (\<lambda>x. x < c) xs" by simp
  moreover have "c \<le> v" if "v \<in> set (dropWhile (\<lambda>x. x < c) xs)" for v
  proof -
    let ?d = "dropWhile (\<lambda>x. x < c) xs"
    have "?d \<noteq> []" using that by (metis empty_iff list.set(1))
    then have "c \<le> hd ?d" using hd_dropWhile [of "\<lambda>x. x < c" xs] by force
    moreover have "sorted ?d" using assms by (rule sorted_dropWhile)
    ultimately show ?thesis using that by (cases ?d) auto
  qed
  moreover have "\<not> c \<le> u" if "u \<in> set (takeWhile (\<lambda>x. x < c) xs)" for u using set_takeWhileD [OF that] by simp
  ultimately show ?thesis unfolding upper_part_def by blast
qed

lemma keep_last_filter:
  assumes "upper_part P xs"
  shows "keep_last n (filter P (keep_last n xs)) = keep_last n (filter P xs)"
proof -
  from assms obtain us vs where x: "xs = us @ vs" "\<forall>u \<in> set us. \<not> P u" "\<forall>v \<in> set vs. P v"
    unfolding upper_part_def by blast
  have f: "filter P xs = vs" using x by (simp add: filter_empty_conv filter_id_conv)
  show ?thesis
  proof (cases "length vs \<le> n")
    case True
    then have "keep_last n xs = drop (length xs - n) us @ vs" using x(1) by (simp add: keep_last_drop)
    moreover have "filter P (drop (length xs - n) us) = []" using x(2) by (auto simp: filter_empty_conv dest: in_set_dropD)
    ultimately show ?thesis using f x(3) by (simp add: filter_id_conv)
  next
    case False
    then have "keep_last n xs = keep_last n vs" using x(1) by (simp add: keep_last_drop)
    moreover have "filter P (keep_last n vs) = keep_last n vs" using x(3) set_keep_last [of n vs] by (auto simp: filter_id_conv)
    ultimately show ?thesis using f by (simp add: keep_last_drop)
  qed
qed

section \<open>Request rates\<close>

text \<open>A history of calls of the rate detector, and the requests of a user since a second.\<close>

definition after_requests :: "(time \<times> string) list \<Rightarrow> AnomalyDetector \<Rightarrow> AnomalyDetector" where
  "after_requests calls d = fold (\<lambda>(t, u) d. snd (DetectRateAnomaly t u d)) calls d"

definition stamps_of :: "string \<Rightarrow> (time \<times> string) list \<Rightarrow> real list" where
  "stamps_of u calls = map (\<lambda>(t, v). real_of_int (Unix t)) (filter (\<lambda>(t, v). v = u) calls)"

definition requests_since :: "int \<Rightarrow> string \<Rightarrow> (time \<times> string) list \<Rightarrow> nat" where
  "requests_since c u calls = length (filter (\<lambda>(t, v). v = u \<and> c \<le> Unix t) calls)"

lemma stamps_since: "length (filter (\<lambda>x. real_of_int c \<le> x) (stamps_of u calls)) = requests_since c u calls"
  unfolding stamps_of_def requests_since_def filter_map length_map filter_filter comp_def
  by (rule arg_cong [where f = length]) (rule filter_cong, auto)

lemma DetectRate_frame:
  "ad_requestTimestamps (snd (DetectRateAnomaly t u d)) =
     go_set u (keep_last 1000 (filter (\<lambda>ts. real_of_int (Unix t) - ts \<le> 60)
       (entry (ad_requestTimestamps d) u @ [real_of_int (Unix t)]))) (ad_requestTimestamps d)"
  "ad_MaxRequestsPerMinute (snd (DetectRateAnomaly t u d)) = ad_MaxRequestsPerMinute d"
  "ad_MaxBurstSize (snd (DetectRateAnomaly t u d)) = ad_MaxBurstSize d"
  by (simp_all add: DetectRateAnomaly_def Let_def)

lemma after_requests_snoc:
  "after_requests (calls @ [(t, u)]) d = snd (DetectRateAnomaly t u (after_requests calls d))"
  by (simp add: after_requests_def)

lemma after_requests_config [simp]:
  "ad_MaxRequestsPerMinute (after_requests calls d) = ad_MaxRequestsPerMinute d"
  "ad_MaxBurstSize (after_requests calls d) = ad_MaxBurstSize d"
  by (induction calls rule: rev_induct) (auto simp: after_requests_snoc DetectRate_frame(2,3) after_requests_def)

lemma entry_go_set: "entry (go_set k xs m) k' = (if k = k' then xs else entry m k')"
  by (simp add: entry_def)

definition times_ordered :: "(time \<times> string) list \<Rightarrow> bool" where
  "times_ordered calls \<longleftrightarrow> sorted (map (\<lambda>(t, u). Unix t) calls)"

lemma times_ordered_snoc:
  "times_ordered (calls @ [(t, u)]) \<longleftrightarrow> times_ordered calls \<and> (\<forall>(s, v) \<in> set calls. Unix s \<le> Unix t)"
  by (auto simp: times_ordered_def sorted_append)

lemma sorted_stamps: "times_ordered calls \<Longrightarrow> sorted (stamps_of u calls)"
proof (induction calls rule: rev_induct)
  case (snoc c calls)
  obtain t v where c: "c = (t, v)" by force
  show ?case using snoc unfolding c times_ordered_snoc by (auto simp: stamps_of_def sorted_append)
qed (simp add: stamps_of_def)

text \<open>The window kept for a user: the last 1000 requests of the minute before its last request.\<close>

lemma window_step:
  assumes s: "sorted ys" and "\<forall>y \<in> set ys. y \<le> t" and "c \<le> t - 60"
  shows "keep_last 1000 (filter (\<lambda>ts. t - ts \<le> 60) (keep_last 1000 (filter (\<lambda>x. c \<le> x) ys) @ [t])) =
    keep_last 1000 (filter (\<lambda>x. t - 60 \<le> x) (ys @ [t :: real]))"
proof -
  let ?P = "\<lambda>x. t - 60 \<le> x"
  have P: "(\<lambda>ts. t - ts \<le> 60) = ?P" by auto
  have sub: "filter ?P (filter (\<lambda>x. c \<le> x) ys) = filter ?P ys" using assms(3) by (auto simp: filter_filter intro: filter_cong)
  have up: "upper_part ?P (filter (\<lambda>x. c \<le> x) ys)" by (rule upper_part_sorted) (rule sorted_wrt_filter [OF s])
  have "keep_last 1000 (filter ?P (keep_last 1000 (filter (\<lambda>x. c \<le> x) ys)) @ [t]) =
      keep_last 1000 (keep_last 1000 (filter ?P (keep_last 1000 (filter (\<lambda>x. c \<le> x) ys))) @ [t])"
    by (rule keep_last_append [symmetric])
  also have "\<dots> = keep_last 1000 (keep_last 1000 (filter ?P ys) @ [t])" by (simp only: keep_last_filter [OF up] sub)
  also have "\<dots> = keep_last 1000 (filter ?P ys @ [t])" by (rule keep_last_append)
  finally show ?thesis by (simp add: P)
qed

lemma after_requests_window:
  assumes "ad_requestTimestamps d = []" and "times_ordered calls" and "\<forall>y \<in> set (stamps_of u calls). y \<le> t"
  shows "\<exists>c \<le> t - 60. entry (ad_requestTimestamps (after_requests calls d)) u =
    keep_last 1000 (filter (\<lambda>x. c \<le> x) (stamps_of u calls))"
  using assms(2,3)
proof (induction calls arbitrary: t rule: rev_induct)
  case Nil
  then show ?case using assms(1) by (auto simp: after_requests_def entry_def stamps_of_def keep_last_def)
next
  case (snoc call calls)
  obtain t0 v where call: "call = (t0, v)" by force
  let ?t0 = "real_of_int (Unix t0)"
  have ord: "times_ordered calls" "\<forall>y \<in> set (stamps_of u calls). y \<le> ?t0"
    using snoc.prems(1) unfolding call times_ordered_snoc by (auto simp: stamps_of_def)
  show ?case
  proof (cases "v = u")
    case True
    from snoc.IH [OF ord] obtain c where c: "c \<le> ?t0 - 60"
        "entry (ad_requestTimestamps (after_requests calls d)) u = keep_last 1000 (filter (\<lambda>x. c \<le> x) (stamps_of u calls))"
      by blast
    have "entry (ad_requestTimestamps (after_requests (calls @ [call]) d)) u =
        keep_last 1000 (filter (\<lambda>x. ?t0 - 60 \<le> x) (stamps_of u calls @ [?t0]))"
      unfolding call True after_requests_snoc DetectRate_frame(1) entry_go_set if_P [OF refl] c(2)
      by (rule window_step [OF sorted_stamps [OF ord(1)] ord(2) c(1)])
    moreover have "stamps_of u (calls @ [call]) = stamps_of u calls @ [?t0]" by (simp add: call True stamps_of_def)
    ultimately show ?thesis using snoc.prems(2) by (intro exI [of _ "?t0 - 60"]) simp
  next
    case False
    then have "stamps_of u (calls @ [call]) = stamps_of u calls"
      "entry (ad_requestTimestamps (after_requests (calls @ [call]) d)) u = entry (ad_requestTimestamps (after_requests calls d)) u"
      unfolding call after_requests_snoc DetectRate_frame(1) entry_go_set by (simp_all add: stamps_of_def)
    then show ?thesis using snoc.IH [OF ord(1), of t] snoc.prems(2) by simp
  qed
qed

lemma length_filter_keep_last:
  assumes "upper_part P xs"
  shows "length (filter P (keep_last n xs)) = min n (length (filter P xs))"
proof -
  have "length (filter P (keep_last n xs)) \<le> n" by (metis length_filter_le length_keep_last min.cobounded1 order_trans)
  then have "keep_last n (filter P (keep_last n xs)) = filter P (keep_last n xs)" by (simp add: keep_last_def)
  then show ?thesis using keep_last_filter [OF assms, of n] length_keep_last [of n "filter P xs"] by simp
qed

text \<open>
  For calls with clock readings in order, the rate detector is exact up to its window of 1000
  entries: a high rate is reported if and only if the user made more requests in the last 60
  seconds than allowed, and a burst if and only if the rate is not high and more requests fell
  into the current second than allowed; in both counts at most 1000 requests are seen, and the
  requests of other users do not count.
\<close>
lemma rate_anomaly_exact:
  assumes "ad_requestTimestamps d = []" and "times_ordered (calls @ [(t, u)])"
  shows "map_option fst (fst (DetectRateAnomaly t u (after_requests calls d))) =
    (if ad_MaxRequestsPerMinute d < min 1000 (int (requests_since (Unix t - 60) u (calls @ [(t, u)]))) then Some HighRequestRate
     else if ad_MaxBurstSize d < min 1000 (int (requests_since (Unix t) u (calls @ [(t, u)]))) then Some BurstDetected
     else None)"
proof -
  define W where "W = keep_last 1000 (filter (\<lambda>ts. real_of_int (Unix t) - ts \<le> 60)
      (entry (ad_requestTimestamps (after_requests calls d)) u @ [real_of_int (Unix t)]))"
  define S where "S = filter (\<lambda>x. real_of_int (Unix t - 60) \<le> x) (stamps_of u (calls @ [(t, u)]))"
  have ord: "times_ordered calls" "\<forall>y \<in> set (stamps_of u calls). y \<le> real_of_int (Unix t)"
    using assms(2) unfolding times_ordered_snoc by (auto simp: stamps_of_def)
  from after_requests_window [OF assms(1) ord] obtain c where "c \<le> real_of_int (Unix t) - 60"
      "entry (ad_requestTimestamps (after_requests calls d)) u = keep_last 1000 (filter (\<lambda>x. c \<le> x) (stamps_of u calls))"
    by blast
  then have W: "W = keep_last 1000 S"
    using window_step [OF sorted_stamps [OF ord(1)] ord(2)] by (simp add: W_def S_def stamps_of_def)
  have sS: "sorted S" unfolding S_def by (rule sorted_wrt_filter [OF sorted_stamps [OF assms(2)]])
  have n: "length W = min 1000 (requests_since (Unix t - 60) u (calls @ [(t, u)]))"
    unfolding W length_keep_last S_def stamps_since ..
  have "length (filter (\<lambda>ts. real_of_int (Unix t) - ts < 1) W) = length (filter (\<lambda>x. real_of_int (Unix t) \<le> x) W)"
  proof (rule arg_cong [where f = length], rule filter_cong [OF refl])
    fix x assume "x \<in> set W"
    then have "x \<in> set (stamps_of u (calls @ [(t, u)]))" using set_keep_last [of 1000 S] by (auto simp: W S_def)
    then obtain k where x: "x = real_of_int k" by (auto simp: stamps_of_def)
    have "real_of_int (Unix t) - real_of_int k < 1 \<longleftrightarrow> Unix t - k < 1" by (metis of_int_diff of_int_less_1_iff)
    then show "(real_of_int (Unix t) - x < 1) = (real_of_int (Unix t) \<le> x)" unfolding x by auto
  qed
  also have "\<dots> = min 1000 (length (filter (\<lambda>x. real_of_int (Unix t) \<le> x) S))"
    unfolding W by (rule length_filter_keep_last) (rule upper_part_sorted [OF sS])
  also have "filter (\<lambda>x. real_of_int (Unix t) \<le> x) S = filter (\<lambda>x. real_of_int (Unix t) \<le> x) (stamps_of u (calls @ [(t, u)]))"
    unfolding S_def filter_filter by (rule filter_cong) auto
  finally have b: "length (filter (\<lambda>ts. real_of_int (Unix t) - ts < 1) W) = min 1000 (requests_since (Unix t) u (calls @ [(t, u)]))"
    by (simp only: stamps_since)
  define N where "N = min 1000 (int (requests_since (Unix t - 60) u (calls @ [(t, u)])))"
  define M where "M = min 1000 (int (requests_since (Unix t) u (calls @ [(t, u)])))"
  have "int (length W) = N" "int (length (filter (\<lambda>ts. real_of_int (Unix t) - ts < 1) W)) = M"
    by (simp_all add: n b N_def M_def)
  then show ?thesis
    unfolding DetectRateAnomaly_def Let_def W_def [symmetric] N_def [symmetric] M_def [symmetric] by simp
qed

text \<open>
  Two limits of the rate detector: a limit of 1000 or more requests per minute is never
  exceeded, because only 1000 requests are kept; and twenty requests within two milliseconds
  are no burst for the default limit of ten per second when a second of the clock begins
  between them.
\<close>
lemma rate_anomaly_blind_spots:
  "(1000 \<le> ad_MaxRequestsPerMinute d \<longrightarrow> map_option fst (fst (DetectRateAnomaly t u d)) \<noteq> Some HighRequestRate) \<and>
   (let calls = replicate 10 (999 * millisecond, ''u'') @ replicate 9 (1000 * millisecond, ''u'') in
    fst (DetectRateAnomaly (1000 * millisecond) ''u'' (after_requests calls NewAnomalyDetector)) = None)"
proof
  have le: "int (length (keep_last 1000 xs)) \<le> 1000" for xs :: "real list" by (simp add: length_keep_last)
  show "1000 \<le> ad_MaxRequestsPerMinute d \<longrightarrow> map_option fst (fst (DetectRateAnomaly t u d)) \<noteq> Some HighRequestRate"
  proof
    assume "1000 \<le> ad_MaxRequestsPerMinute d"
    then have "\<not> ad_MaxRequestsPerMinute d < int (length (keep_last 1000 xs))" for xs :: "real list"
      using le [of xs] by linarith
    then show "map_option fst (fst (DetectRateAnomaly t u d)) \<noteq> Some HighRequestRate"
      by (simp add: DetectRateAnomaly_def Let_def)
  qed
  show "let calls = replicate 10 (999 * millisecond, ''u'') @ replicate 9 (1000 * millisecond, ''u'') in
    fst (DetectRateAnomaly (1000 * millisecond) ''u'' (after_requests calls NewAnomalyDetector)) = None"
    by code_simp
qed

section \<open>Sizes\<close>

lemma sum_list_shifted_squares:
  fixes c :: real
  shows "(\<Sum>y\<leftarrow>ys. (y - c)\<^sup>2) = (\<Sum>y\<leftarrow>ys. y\<^sup>2) - 2 * c * sum_list ys + real (length ys) * c\<^sup>2"
  by (induction ys) (simp_all add: power2_eq_square algebra_simps)

lemma sum_list_squared_le:
  fixes ys :: "real list"
  shows "(sum_list ys)\<^sup>2 \<le> real (length ys) * (\<Sum>y\<leftarrow>ys. y\<^sup>2)"
proof (cases "ys = []")
  case False
  let ?m = "real (length ys)" and ?S = "sum_list ys"
  have m: "0 < ?m" using False by simp
  have "0 \<le> (\<Sum>y\<leftarrow>ys. (y - ?S / ?m)\<^sup>2)" by (rule sum_list_nonneg) auto
  also have "\<dots> = (\<Sum>y\<leftarrow>ys. y\<^sup>2) - ?S\<^sup>2 / ?m"
    unfolding sum_list_shifted_squares using m by (simp add: field_simps power2_eq_square)
  finally have "?S\<^sup>2 / ?m \<le> (\<Sum>y\<leftarrow>ys. y\<^sup>2)" by simp
  then show ?thesis using m by (simp add: field_simps)
qed simp

text \<open>One observation among \<open>n\<close> is at most \<open>(n - 1) / \<surd>n\<close> sample deviations from the mean.\<close>

lemma deviation_bound:
  fixes xs :: "real list"
  assumes "x \<in> set xs" and mu: "real (length xs) * mu = sum_list xs"
  shows "(x - mu)\<^sup>2 * real (length xs) \<le> real (length xs - 1) * (\<Sum>v\<leftarrow>xs. (v - mu)\<^sup>2)"
proof -
  obtain us vs where xs: "xs = us @ x # vs" using assms(1) by (meson split_list)
  define ys where "ys = map (\<lambda>v. v - mu) (us @ vs)"
  have len: "length ys = length xs - 1" by (simp add: ys_def xs)
  have "sum_list ys + (x - mu) = (\<Sum>v\<leftarrow>xs. v - mu)" by (simp add: ys_def xs)
  also have "\<dots> = sum_list xs - real (length xs) * mu" by (simp add: sum_list_subtractf sum_list_triv)
  finally have S: "sum_list ys = - (x - mu)" using mu by simp
  have Q: "(\<Sum>v\<leftarrow>xs. (v - mu)\<^sup>2) = (x - mu)\<^sup>2 + (\<Sum>y\<leftarrow>ys. y\<^sup>2)" by (simp add: ys_def xs comp_def)
  define q m where "q = (x - mu)\<^sup>2" and "m = real (length xs - 1)"
  have "q \<le> m * (\<Sum>y\<leftarrow>ys. y\<^sup>2)"
    using sum_list_squared_le [of ys] unfolding S len q_def m_def power2_minus .
  moreover have "real (length xs) = m + 1" using xs by (simp add: m_def)
  ultimately show ?thesis unfolding Q q_def [symmetric] m_def [symmetric] by (simp add: distrib_left mult.commute)
qed

lemma sum_list_of_int: "sum_list (map real_of_int xs) = real_of_int (sum_list xs)"
  by (induction xs) simp_all

lemma hundred_observations: "n \<le> 100 \<Longrightarrow> 0 < n \<Longrightarrow> (real (n - 1))\<^sup>2 \<le> (99 / 10)\<^sup>2 * real n"
proof -
  assume "n \<le> 100" "0 < n"
  then have "0 \<le> (100 - real n) * (100 * real n - 1)" by (intro mult_nonneg_nonneg) auto
  then show ?thesis using \<open>0 < n\<close> by (simp add: of_nat_diff power2_eq_square algebra_simps)
qed

lemma size_event_silent:
  assumes "n \<in> set sizes" and "length sizes \<le> 100" and "99 / 10 \<le> threshold"
  shows "size_event ev label sizes threshold n = None"
proof (rule ccontr)
  let ?mu = "mean sizes" and ?k = "length sizes"
  let ?x = "real_of_int n - ?mu" and ?sd = "stdev sizes ?mu"
  assume "size_event ev label sizes threshold n \<noteq> None"
  then have sd: "0 < ?sd" and z: "threshold < \<bar>?x\<bar> / ?sd" by (auto simp: size_event_def Let_def split: if_splits)
  from sd have k: "1 < ?k" by (auto simp: stdev_def split: if_splits)
  define SS where "SS = (\<Sum>v\<leftarrow>map real_of_int sizes. (v - ?mu)\<^sup>2)"
  have sd2: "real (?k - 1) * ?sd\<^sup>2 = SS"
  proof -
    have "0 \<le> SS" unfolding SS_def by (rule sum_list_nonneg) auto
    then show ?thesis using k by (simp add: stdev_def SS_def power2_eq_square comp_def real_sqrt_mult_self field_simps)
  qed
  have "real (length (map real_of_int sizes)) * ?mu = sum_list (map real_of_int sizes)"
    using k by (simp add: mean_def sum_list_of_int)
  from deviation_bound [OF _ this, of "real_of_int n"] assms(1)
  have dev: "?x\<^sup>2 * real ?k \<le> real (?k - 1) * SS" by (simp add: SS_def)
  define q m K where "q = ?sd\<^sup>2" and "m = real (?k - 1)" and "K = real ?k"
  have "99 / 10 * ?sd \<le> threshold * ?sd" using assms(3) sd by (intro mult_right_mono) auto
  also have "\<dots> < \<bar>?x\<bar>" using z sd by (simp add: pos_less_divide_eq)
  finally have "(99 / 10 * ?sd)\<^sup>2 < \<bar>?x\<bar>\<^sup>2" by (rule power_strict_mono) (use sd in auto)
  then have "(99 / 10)\<^sup>2 * q < ?x\<^sup>2" unfolding q_def power_mult_distrib power2_abs .
  then have "(99 / 10)\<^sup>2 * q * K < ?x\<^sup>2 * K" by (rule mult_strict_right_mono) (use k in \<open>auto simp: K_def\<close>)
  also have "\<dots> \<le> m * (m * q)" using dev unfolding sd2 [symmetric] q_def m_def K_def .
  finally have "((99 / 10)\<^sup>2 * K) * q < (m\<^sup>2) * q" by (simp only: power2_eq_square mult_ac)
  moreover have "0 < q" using sd by (simp add: q_def)
  ultimately have "(99 / 10)\<^sup>2 * real ?k < (real (?k - 1))\<^sup>2"
    unfolding K_def [symmetric] m_def [symmetric] by (simp only: mult_less_cancel_right_pos)
  moreover have "(real (?k - 1))\<^sup>2 \<le> (99 / 10)\<^sup>2 * real ?k" by (rule hundred_observations) (use assms(2) k in auto)
  ultimately show False by (metis not_less)
qed

text \<open>
  The detector of sizes cannot report with thresholds of 9.9 standard deviations or more,
  whatever the sizes are: an observation that is itself one of at most 100 in the sample is
  never further than \<open>99 / 10\<close> sample deviations from the mean.
\<close>
lemma size_anomaly_limit:
  assumes "99 / 10 \<le> ad_InputSizeThreshold d" and "99 / 10 \<le> ad_OutputSizeThreshold d"
  shows "fst (DetectSizeAnomaly inputSize outputSize d) = None"
proof -
  have mem: "x \<in> set (keep_last 100 (xs @ [x]))" for x :: int and xs
    by (simp add: keep_last_drop)
  have len: "length (keep_last 100 xs) \<le> 100" for xs :: "int list" by (simp add: length_keep_last)
  show ?thesis
    using size_event_silent [OF mem len assms(1)] size_event_silent [OF mem len assms(2)]
    by (simp add: DetectSizeAnomaly_def Let_def)
qed

section \<open>Contents and failures\<close>

definition after_contents :: "(string \<times> string) list \<Rightarrow> AnomalyDetector \<Rightarrow> AnomalyDetector" where
  "after_contents calls d = fold (\<lambda>(u, c) d. snd (DetectContentAnomaly u c d)) calls d"

definition hashes_of :: "string \<Rightarrow> (string \<times> string) list \<Rightarrow> 64 word list" where
  "hashes_of u calls = map (\<lambda>(v, c). hashString (take 500 c)) (filter (\<lambda>(v, c). v = u) calls)"

lemma DetectContent_frame:
  "ad_recentContent (snd (DetectContentAnomaly u c d)) =
     go_set u (keep_last 10 (entry (ad_recentContent d) u @ [hashString (take 500 c)])) (ad_recentContent d)"
  by (simp add: DetectContentAnomaly_def Let_def)

lemma after_contents_window:
  assumes "ad_recentContent d = []"
  shows "entry (ad_recentContent (after_contents calls d)) u = keep_last 10 (hashes_of u calls)"
proof (induction calls rule: rev_induct)
  case Nil
  then show ?case using assms by (simp add: after_contents_def entry_def hashes_of_def keep_last_def)
next
  case (snoc call calls)
  obtain v c where call: "call = (v, c)" by force
  have "after_contents (calls @ [call]) d = snd (DetectContentAnomaly v c (after_contents calls d))"
    by (simp add: after_contents_def call)
  then show ?case
    using snoc by (simp add: DetectContent_frame entry_go_set keep_last_append call hashes_of_def)
qed

lemma last_five: "drop (length (keep_last 10 xs) - 5) (keep_last 10 xs) = keep_last 5 xs"
  by (cases "length xs \<le> 10") (simp_all add: keep_last_drop add.commute min_def)

text \<open>
  Repeated content is reported exactly when the user has made at least five requests and the
  hashes of the contents (of their first 500 bytes) of the last five are equal, whatever other
  users sent in between.
\<close>
lemma content_anomaly_exact:
  assumes "ad_recentContent d = []"
  shows "fst (DetectContentAnomaly u c (after_contents calls d)) \<noteq> None \<longleftrightarrow>
    5 \<le> length (hashes_of u (calls @ [(u, c)])) \<and>
    (\<exists>h. keep_last 5 (hashes_of u (calls @ [(u, c)])) = replicate 5 h)"
proof -
  let ?H = "hashes_of u (calls @ [(u, c)])"
  define K where "K = keep_last 10 (entry (ad_recentContent (after_contents calls d)) u @ [hashString (take 500 c)])"
  have K: "K = keep_last 10 ?H"
    unfolding K_def after_contents_window [OF assms] keep_last_append by (simp add: hashes_of_def)
  have "fst (DetectContentAnomaly u c (after_contents calls d)) \<noteq> None \<longleftrightarrow>
      5 \<le> length K \<and> (\<forall>h \<in> set (drop (length K - 5) K). h = K ! (length K - 5))"
    by (simp add: DetectContentAnomaly_def Let_def K_def [symmetric])
  also have "\<dots> \<longleftrightarrow> 5 \<le> length K \<and> (\<exists>h. drop (length K - 5) K = replicate 5 h)"
  proof (intro conj_cong refl iffI)
    assume five: "5 \<le> length K"
    let ?D = "drop (length K - 5) K"
    have D: "length ?D = 5" using five by simp
    {
      assume "\<forall>h \<in> set ?D. h = K ! (length K - 5)"
      then show "\<exists>h. ?D = replicate 5 h" using D by (metis replicate_eqI)
    next
      assume "\<exists>h. ?D = replicate 5 h"
      then obtain h where h: "?D = replicate 5 h" ..
      then have "K ! (length K - 5) = h" using five by (metis Cons_nth_drop_Suc diff_less length_greater_0_conv less_numeral_extra(3)
          list.size(3) not_numeral_le_zero nth_via_drop replicate_Suc numeral_eq_Suc zero_less_numeral)
      then show "\<forall>h \<in> set ?D. h = K ! (length K - 5)" using h by simp
    }
  qed
  finally show ?thesis using last_five [of ?H] by (simp add: K length_keep_last)
qed

definition after_results :: "(string \<times> bool) list \<Rightarrow> AnomalyDetector \<Rightarrow> AnomalyDetector" where
  "after_results calls d = fold (\<lambda>(u, b) d. snd (DetectFailureAnomaly u b d)) calls d"

definition results_of :: "string \<Rightarrow> bool \<Rightarrow> (string \<times> bool) list \<Rightarrow> int" where
  "results_of u b calls = int (length (filter (\<lambda>x. x = (u, b)) calls))"

lemma DetectFailure_counts:
  "counter (ad_failureCounts (snd (DetectFailureAnomaly v b d))) u =
     counter (ad_failureCounts d) u + (if (v, b) = (u, True) then 1 else 0)"
  "counter (ad_successCounts (snd (DetectFailureAnomaly v b d))) u =
     counter (ad_successCounts d) u + (if (v, b) = (u, False) then 1 else 0)"
  "ad_FailureRateThreshold (snd (DetectFailureAnomaly v b d)) = ad_FailureRateThreshold d"
  by (simp_all add: DetectFailureAnomaly_def Let_def counter_def go_incr_def)

lemma DetectFailure_event:
  "fst (DetectFailureAnomaly u b d) \<noteq> None \<longleftrightarrow>
     (let d = snd (DetectFailureAnomaly u b d); f = counter (ad_failureCounts d) u; n = f + counter (ad_successCounts d) u
      in 10 \<le> n \<and> real_of_int f / real_of_int n > ad_FailureRateThreshold d)"
  by (simp add: DetectFailureAnomaly_def Let_def)

lemma after_results_counts:
  assumes "ad_failureCounts d = []" and "ad_successCounts d = []"
  shows "counter (ad_failureCounts (after_results calls d)) u = results_of u True calls \<and>
    counter (ad_successCounts (after_results calls d)) u = results_of u False calls \<and>
    ad_FailureRateThreshold (after_results calls d) = ad_FailureRateThreshold d"
proof (induction calls rule: rev_induct)
  case Nil
  then show ?case using assms by (simp add: after_results_def counter_def results_of_def)
next
  case (snoc call calls)
  obtain v b where call: "call = (v, b)" by force
  have "after_results (calls @ [call]) d = snd (DetectFailureAnomaly v b (after_results calls d))"
    by (simp add: after_results_def call)
  then show ?case using snoc by (simp add: DetectFailure_counts call results_of_def)
qed

text \<open>
  Failures are reported exactly: after any history, a call is reported if and only if the
  user has at least ten results in all, this one included, and the share of failures among
  them exceeds the threshold.
\<close>
lemma failure_anomaly_exact:
  assumes "ad_failureCounts d = []" and "ad_successCounts d = []"
  shows "fst (DetectFailureAnomaly u b (after_results calls d)) \<noteq> None \<longleftrightarrow>
    (let f = results_of u True (calls @ [(u, b)]); n = f + results_of u False (calls @ [(u, b)]) in
     10 \<le> n \<and> ad_FailureRateThreshold d * real_of_int n < real_of_int f)"
proof -
  let ?d = "after_results calls d"
  note c = after_results_counts [OF assms, of "calls @ [(u, b)]" u]
  have "after_results (calls @ [(u, b)]) d = snd (DetectFailureAnomaly u b ?d)" by (simp add: after_results_def)
  note step = this
  have "fst (DetectFailureAnomaly u b ?d) \<noteq> None \<longleftrightarrow>
      (let f = results_of u True (calls @ [(u, b)]); n = f + results_of u False (calls @ [(u, b)]) in
       10 \<le> n \<and> real_of_int f / real_of_int n > ad_FailureRateThreshold d)"
    unfolding DetectFailure_event step [symmetric] using c by (simp add: Let_def)
  then show ?thesis by (auto simp: Let_def pos_less_divide_eq)
qed

section \<open>The middleware only observes\<close>

text \<open>
  With a callback and a clock that do not act on the world, the middleware is transparent: the
  reply and the effect are those of the wrapped agent, whatever anomalies are found.
\<close>
lemma anomaly_middleware_transparent:
  assumes "\<And>e ds w. am_onAnomaly am e ds w = w" and "\<And>w. snd (clock w) = w"
    and "agent_Process (am_agent am) ctx (Some m) w = (r, w')"
  shows "\<exists>d'. am_Process ff clock am ctx (Some m) d w = (r, d', w')"
proof -
  have n: "notify am e w = w" for e w by (simp add: notify_def assms(1) split: option.splits)
  have a: "\<exists>d'. after_reply ff clock am t s m d w = (d', w)" for t s m d w
    using assms(2) [of w] by (auto simp: after_reply_def n assms(1) Let_def split: prod.splits)
  obtain t1 where t1: "clock w = (t1, w)" using assms(2) by (metis prod.collapse)
  show ?thesis
    using assms(3) a t1 by (auto simp: am_Process_def n Let_def split: prod.splits outcome.splits option.splits)
qed

end
