(* ===== verification/Enhanced_Retry.thy ===== *)
theory Enhanced_Retry
  imports Retry
begin

text \<open>
  The enhanced retry decorator (\<open>infrastructure/retry_enhanced.go\<close>): classes of errors with
  their own limits and delays, jitter, a budget per hour and backpressure.

  What the code takes from its surroundings is the record \<open>'w er_env\<close>: waiting, sleeping, the
  clock, random numbers, \<open>strings.ToLower\<close>, the text of an error, and the result of converting
  a float that does not fit to an integer, which the language leaves to the implementation.
\<close>

section \<open>Data\<close>

datatype JitterType = NoJitter | FullJitter | EqualJitter | DecorrelatedJitter

datatype ErrorClass = Transient | RateLimit | Timeout | ServerError | ClientError | UnknownError

definition ErrorClass_String :: "ErrorClass \<Rightarrow> string" where
  "ErrorClass_String ec =
     (case ec of
        Transient \<Rightarrow> ''transient'' | RateLimit \<Rightarrow> ''rate_limit'' | Timeout \<Rightarrow> ''timeout''
      | ServerError \<Rightarrow> ''server_error'' | ClientError \<Rightarrow> ''client_error'' | UnknownError \<Rightarrow> ''unknown'')"

record ErrorStrategy =
  es_ErrorClass :: ErrorClass
  es_MaxRetries :: int
  es_InitialRetryDelay :: duration
  es_MaxRetryDelay :: duration
  es_RetryMultiplier :: real
  es_ShouldRetry :: bool

record RetryBudget =
  rb_MaxCost :: real
  rb_CurrentCost :: real
  rb_MaxRetriesPerHour :: int
  rb_RetryCount :: int
  rb_WindowStart :: time

record EnhancedRetryConfig =
  ec_MaxRetries :: int
  ec_InitialRetryDelay :: duration
  ec_MaxRetryDelay :: duration
  ec_RetryMultiplier :: real
  ec_JitterType :: JitterType
  ec_JitterMinRatio :: real
  ec_ErrorStrategies :: "(ErrorClass \<times> ErrorStrategy) list"
  ec_ErrorClassifier :: "(go_error \<Rightarrow> ErrorClass) option"
  ec_EnableBudget :: bool
  ec_CostTracker :: "(message \<Rightarrow> real) option"
  ec_MaxCostPerHour :: real
  ec_MaxRetriesPerHour :: int
  ec_EnableBackpressure :: bool
  ec_BackpressureThreshold :: real
  ec_BackpressureWindow :: int

record EnhancedRetryMetrics =
  erm_TotalAttempts :: int
  erm_SuccessfulFirstAttempt :: int
  erm_SuccessfulOnRetry :: int
  erm_FailedAfterRetries :: int
  erm_TotalRetries :: int
  erm_TotalJitterAdded :: real
  erm_BudgetExceededCount :: int
  erm_BackpressureDetected :: int
  erm_ErrorClassCounts :: "(ErrorClass \<times> int) list"
  erm_RecentResults :: "bool list"

record EnhancedRetryDecorator =
  erd_config :: EnhancedRetryConfig
  erd_metrics :: EnhancedRetryMetrics
  erd_budget :: RetryBudget

definition strategy_of :: "ErrorClass \<Rightarrow> int \<Rightarrow> duration \<Rightarrow> duration \<Rightarrow> real \<Rightarrow> bool \<Rightarrow> ErrorStrategy" where
  "strategy_of c n d dmax mul should =
     \<lparr>es_ErrorClass = c, es_MaxRetries = n, es_InitialRetryDelay = d, es_MaxRetryDelay = dmax,
      es_RetryMultiplier = mul, es_ShouldRetry = should\<rparr>"

definition DefaultEnhancedRetryConfig :: EnhancedRetryConfig where
  "DefaultEnhancedRetryConfig =
     \<lparr>ec_MaxRetries = 3, ec_InitialRetryDelay = second, ec_MaxRetryDelay = 30 * second, ec_RetryMultiplier = 2,
      ec_JitterType = FullJitter, ec_JitterMinRatio = 1 / 2,
      ec_ErrorStrategies =
        [(Transient, strategy_of Transient 5 (100 * millisecond) (5 * second) 2 True),
         (RateLimit, strategy_of RateLimit 10 (60 * second) (300 * second) (3 / 2) True),
         (Timeout, strategy_of Timeout 3 (2 * second) (30 * second) 2 True),
         (ServerError, strategy_of ServerError 3 (5 * second) (60 * second) 2 True),
         (ClientError, strategy_of ClientError 1 0 0 1 False)],
      ec_ErrorClassifier = None, ec_EnableBudget = False, ec_CostTracker = None, ec_MaxCostPerHour = 100,
      ec_MaxRetriesPerHour = 1000, ec_EnableBackpressure = True, ec_BackpressureThreshold = 1 / 2,
      ec_BackpressureWindow = 100\<rparr>"

definition NewEnhancedRetryDecorator :: "time \<Rightarrow> EnhancedRetryConfig \<Rightarrow> EnhancedRetryDecorator" where
  "NewEnhancedRetryDecorator now config =
     \<lparr>erd_config = config,
      erd_metrics =
        \<lparr>erm_TotalAttempts = 0, erm_SuccessfulFirstAttempt = 0, erm_SuccessfulOnRetry = 0, erm_FailedAfterRetries = 0,
         erm_TotalRetries = 0, erm_TotalJitterAdded = 0, erm_BudgetExceededCount = 0, erm_BackpressureDetected = 0,
         erm_ErrorClassCounts = [], erm_RecentResults = []\<rparr>,
      erd_budget =
        \<lparr>rb_MaxCost = ec_MaxCostPerHour config, rb_CurrentCost = 0, rb_MaxRetriesPerHour = ec_MaxRetriesPerHour config,
         rb_RetryCount = 0, rb_WindowStart = now\<rparr>\<rparr>"

record 'w er_env =
  env_wait :: "'w waiter"
  env_sleep :: "duration \<Rightarrow> 'w \<Rightarrow> 'w"
  env_clock :: "'w clock"
  env_rand :: "'w \<Rightarrow> real \<times> 'w"
  env_lower :: "string \<Rightarrow> string"
  env_error_text :: "go_error \<Rightarrow> string"
  env_unrepresentable :: "real \<Rightarrow> int"

text \<open>Conversion of a float to \<open>time.Duration\<close>, a 64-bit integer.\<close>

definition to_Duration :: "'w er_env \<Rightarrow> real \<Rightarrow> duration" where
  "to_Duration env x =
     (if - (2 ^ 63) \<le> go_trunc x \<and> go_trunc x < 2 ^ 63 then go_trunc x else env_unrepresentable env x)"

section \<open>Operations\<close>

definition classifyError :: "'w er_env \<Rightarrow> EnhancedRetryConfig \<Rightarrow> go_error \<Rightarrow> ErrorClass" where
  "classifyError env k err =
     (case ec_ErrorClassifier k of
        Some f \<Rightarrow> f err
      | None \<Rightarrow>
          let errStr = env_lower env (env_error_text env err) in
          if strings_Contains errStr ''rate limit'' \<or> strings_Contains errStr ''429'' then RateLimit
          else if strings_Contains errStr ''timeout'' \<or> strings_Contains errStr ''timed out'' then Timeout
          else if strings_Contains errStr ''500'' \<or> strings_Contains errStr ''502'' \<or> strings_Contains errStr ''503''
          then ServerError
          else if strings_Contains errStr ''400'' \<or> strings_Contains errStr ''401'' \<or> strings_Contains errStr ''403'' \<or>
            strings_Contains errStr ''404'' then ClientError
          else UnknownError)"

definition getStrategy :: "EnhancedRetryConfig \<Rightarrow> ErrorClass \<Rightarrow> ErrorStrategy" where
  "getStrategy k c =
     (case go_get (ec_ErrorStrategies k) c of
        Some strategy \<Rightarrow> strategy
      | None \<Rightarrow> strategy_of c (ec_MaxRetries k) (ec_InitialRetryDelay k) (ec_MaxRetryDelay k) (ec_RetryMultiplier k) True)"

definition add_jitter :: "duration \<Rightarrow> EnhancedRetryMetrics \<Rightarrow> EnhancedRetryMetrics" where
  "add_jitter d m = m\<lparr>erm_TotalJitterAdded := erm_TotalJitterAdded m + real_of_int d / real_of_int second\<rparr>"

fun decorrelated :: "'w er_env \<Rightarrow> EnhancedRetryConfig \<Rightarrow> duration \<Rightarrow> nat \<Rightarrow> 'w \<Rightarrow> duration \<times> 'w" where
  "decorrelated env k baseBackoff 0 w = (baseBackoff, w)"
| "decorrelated env k baseBackoff (Suc n) w =
     (let (previous, w) = decorrelated env k baseBackoff n w;
          (r, w) = env_rand env w;
          jittered = to_Duration env (r * real_of_int previous * 3 + real_of_int baseBackoff)
      in (if jittered > ec_MaxRetryDelay k then ec_MaxRetryDelay k else jittered, w))"

text \<open>Attempts count from 1; the recursion of the last case ends at attempt 1.\<close>

definition calculateBackoff ::
    "'w er_env \<Rightarrow> EnhancedRetryConfig \<Rightarrow> duration \<Rightarrow> int \<Rightarrow> EnhancedRetryMetrics \<Rightarrow> 'w \<Rightarrow>
     duration \<times> EnhancedRetryMetrics \<times> 'w" where
  "calculateBackoff env k baseBackoff attempt m w =
     (case ec_JitterType k of
        NoJitter \<Rightarrow> (baseBackoff, m, w)
      | FullJitter \<Rightarrow>
          (let (r, w) = env_rand env w; jittered = to_Duration env (r * real_of_int baseBackoff)
           in (jittered, add_jitter (baseBackoff - jittered) m, w))
      | EqualJitter \<Rightarrow>
          (let minBackoff = to_Duration env (real_of_int baseBackoff * ec_JitterMinRatio k);
               (r, w) = env_rand env w;
               jittered = minBackoff + to_Duration env (r * real_of_int (baseBackoff - minBackoff))
           in (jittered, add_jitter (baseBackoff - jittered) m, w))
      | DecorrelatedJitter \<Rightarrow>
          (let (d, w) = decorrelated env k baseBackoff (nat (attempt - 1)) w in (d, m, w)))"

definition hour :: duration where
  "hour = 3600 * second"

definition reset_window :: "time \<Rightarrow> RetryBudget \<Rightarrow> RetryBudget" where
  "reset_window now b = b\<lparr>rb_CurrentCost := 0, rb_RetryCount := 0, rb_WindowStart := now\<rparr>"

definition over_budget :: "RetryBudget \<Rightarrow> real \<Rightarrow> bool" where
  "over_budget b cost \<longleftrightarrow> rb_CurrentCost b + cost > rb_MaxCost b \<or> rb_RetryCount b \<ge> rb_MaxRetriesPerHour b"

definition checkBudget ::
    "'w er_env \<Rightarrow> real \<Rightarrow> EnhancedRetryDecorator \<Rightarrow> 'w \<Rightarrow> bool \<times> EnhancedRetryDecorator \<times> 'w" where
  "checkBudget env cost d w =
     (if \<not> ec_EnableBudget (erd_config d) then (True, d, w)
      else
        let (now, w) = env_clock env w;
            (d, w) =
              (if now - rb_WindowStart (erd_budget d) > hour
               then (let (now, w) = env_clock env w in (d\<lparr>erd_budget := reset_window now (erd_budget d)\<rparr>, w))
               else (d, w));
            m = erd_metrics d
        in if over_budget (erd_budget d) cost
           then (False, d\<lparr>erd_metrics := m\<lparr>erm_BudgetExceededCount := erm_BudgetExceededCount m + 1\<rparr>\<rparr>, w)
           else (True, d, w))"

text \<open>A division by zero gives a float that is not above any threshold.\<close>

definition checkBackpressure :: "EnhancedRetryConfig \<Rightarrow> EnhancedRetryMetrics \<Rightarrow> bool \<times> EnhancedRetryMetrics" where
  "checkBackpressure k m =
     (let recent = erm_RecentResults m; failures = length (filter Not recent) in
      if ec_EnableBackpressure k \<and> \<not> int (length recent) < ec_BackpressureWindow k \<and> recent \<noteq> [] \<and>
         real failures / real (length recent) > ec_BackpressureThreshold k
      then (True, m\<lparr>erm_BackpressureDetected := erm_BackpressureDetected m + 1\<rparr>)
      else (False, m))"

definition record_result :: "EnhancedRetryConfig \<Rightarrow> bool \<Rightarrow> EnhancedRetryMetrics \<Rightarrow> EnhancedRetryMetrics" where
  "record_result k success m =
     (let recent = erm_RecentResults m @ [success] in
      m\<lparr>erm_RecentResults := (if int (length recent) > ec_BackpressureWindow k then tl recent else recent)\<rparr>)"

definition base_backoff :: "'w er_env \<Rightarrow> ErrorStrategy \<Rightarrow> int \<Rightarrow> duration" where
  "base_backoff env s attempt =
     (let b = to_Duration env (real_of_int (es_InitialRetryDelay s) * es_RetryMultiplier s ^ nat (attempt - 1)) in
      if b > es_MaxRetryDelay s then es_MaxRetryDelay s else b)"

definition zero_strategy :: ErrorStrategy where
  "zero_strategy = strategy_of Transient 0 0 0 0 False"

definition er_exhausted :: "ErrorStrategy \<Rightarrow> ErrorClass \<Rightarrow> go_error option \<Rightarrow> go_error" where
  "er_exhausted s c lastError =
     Errorf ''max retry attempts (%d) exceeded for %s: %w'' [GInt (es_MaxRetries s), GStr (ErrorClass_String c)] lastError"

definition er_refused :: "ErrorClass \<Rightarrow> go_error \<Rightarrow> go_error" where
  "er_refused c err = Errorf ''non-retryable error (%s): %w'' [GStr (ErrorClass_String c)] (Some err)"

definition budget_error :: go_error where
  "budget_error = Errorf ''retry budget exceeded'' [] None"

abbreviation upd_metrics :: "(EnhancedRetryMetrics \<Rightarrow> EnhancedRetryMetrics) \<Rightarrow> EnhancedRetryDecorator \<Rightarrow> EnhancedRetryDecorator" where
  "upd_metrics f d \<equiv> d\<lparr>erd_metrics := f (erd_metrics d)\<rparr>"

abbreviation upd_budget :: "(RetryBudget \<Rightarrow> RetryBudget) \<Rightarrow> EnhancedRetryDecorator \<Rightarrow> EnhancedRetryDecorator" where
  "upd_budget f d \<equiv> d\<lparr>erd_budget := f (erd_budget d)\<rparr>"

definition er_failed :: "EnhancedRetryMetrics \<Rightarrow> EnhancedRetryMetrics" where
  "er_failed m = m\<lparr>erm_FailedAfterRetries := erm_FailedAfterRetries m + 1\<rparr>"

text \<open>The test before an attempt: \<open>Ok b\<close> says whether the budget allows it.\<close>

definition budget_gate ::
    "'w er_env \<Rightarrow> message option \<Rightarrow> EnhancedRetryDecorator \<Rightarrow> 'w \<Rightarrow> bool outcome \<times> EnhancedRetryDecorator \<times> 'w" where
  "budget_gate env msg d w =
     (case (ec_EnableBudget (erd_config d), ec_CostTracker (erd_config d)) of
        (True, Some tracker) \<Rightarrow>
          (case msg of
             None \<Rightarrow> (Panic ''nil pointer dereference'', d, w)
           | Some m \<Rightarrow> (let (ok, d, w) = checkBudget env (tracker m) d w in (Ok ok, d, w)))
      | _ \<Rightarrow> (Ok True, d, w))"

definition on_success :: "message option \<Rightarrow> int \<Rightarrow> EnhancedRetryDecorator \<Rightarrow> EnhancedRetryDecorator" where
  "on_success msg attempt d =
     (let k = erd_config d;
          d = upd_metrics (\<lambda>m. record_result k True
                (if attempt = 1 then m\<lparr>erm_SuccessfulFirstAttempt := erm_SuccessfulFirstAttempt m + 1\<rparr>
                 else m\<lparr>erm_SuccessfulOnRetry := erm_SuccessfulOnRetry m + 1\<rparr>)) d
      in case (ec_EnableBudget k, ec_CostTracker k, msg) of
           (True, Some tracker, Some m) \<Rightarrow> upd_budget (\<lambda>b. b\<lparr>rb_CurrentCost := rb_CurrentCost b + tracker m\<rparr>) d
         | _ \<Rightarrow> d)"

definition on_failure :: "ErrorClass \<Rightarrow> EnhancedRetryDecorator \<Rightarrow> EnhancedRetryDecorator" where
  "on_failure c d =
     upd_metrics (\<lambda>m. let m = record_result (erd_config d) False m
       in m\<lparr>erm_ErrorClassCounts := go_incr c (erm_ErrorClassCounts m)\<rparr>) d"

definition on_retry :: "EnhancedRetryDecorator \<Rightarrow> EnhancedRetryDecorator" where
  "on_retry d =
     upd_budget (\<lambda>b. b\<lparr>rb_RetryCount := rb_RetryCount b + 1\<rparr>)
       (upd_metrics (\<lambda>m. m\<lparr>erm_TotalRetries := erm_TotalRetries m + 1\<rparr>) d)"

text \<open>The part of an attempt before the agent is called: budget, then backpressure.\<close>

definition before_attempt ::
    "'w er_env \<Rightarrow> message option \<Rightarrow> EnhancedRetryDecorator \<Rightarrow> 'w \<Rightarrow> bool outcome \<times> EnhancedRetryDecorator \<times> 'w" where
  "before_attempt env msg d w =
     (let d = upd_metrics (\<lambda>m. m\<lparr>erm_TotalAttempts := erm_TotalAttempts m + 1\<rparr>) d in
      case budget_gate env msg d w of
        (Ok True, d, w) \<Rightarrow>
          (let (pressure, m) = checkBackpressure (erd_config d) (erd_metrics d)
           in (Ok True, d\<lparr>erd_metrics := m\<rparr>, if pressure then env_sleep env (5 * second) w else w))
      | r \<Rightarrow> r)"

text \<open>The part after a failure that is retried: the delay and the wait.\<close>

definition back_off ::
    "'w er_env \<Rightarrow> go_ctx \<Rightarrow> ErrorStrategy \<Rightarrow> int \<Rightarrow> EnhancedRetryDecorator \<Rightarrow> 'w \<Rightarrow>
     go_error option \<times> EnhancedRetryDecorator \<times> 'w" where
  "back_off env ctx s attempt d w =
     (let d = on_retry d;
          (backoff, m, w) = calculateBackoff env (erd_config d) (base_backoff env s attempt) attempt (erd_metrics d) w;
          (e, w) = env_wait env backoff ctx w
      in (e, d\<lparr>erd_metrics := m\<rparr>, w))"

function er_loop ::
    "'w er_env \<Rightarrow> 'w agent \<Rightarrow> go_ctx \<Rightarrow> message option \<Rightarrow> int \<Rightarrow> int \<Rightarrow> ErrorStrategy \<Rightarrow> ErrorClass \<Rightarrow> go_error option \<Rightarrow>
     EnhancedRetryDecorator \<Rightarrow> 'w \<Rightarrow> reply \<times> EnhancedRetryDecorator \<times> 'w" where
  "er_loop env a ctx msg limit attempt strategy errorClass lastError d w =
     (if attempt \<le> limit then
        case before_attempt env msg d w of
          (Panic p, d, w) \<Rightarrow> (Panic p, d, w)
        | (Err e, d, w) \<Rightarrow> (Err e, d, w)
        | (Ok False, d, w) \<Rightarrow> (Err budget_error, d, w)
        | (Ok True, d, w) \<Rightarrow>
            let (rep, w) = agent_Process a ctx msg w in
            case rep of
              Panic p \<Rightarrow> (Panic p, d, w)
            | Ok r \<Rightarrow> (Ok r, on_success msg attempt d, w)
            | Err err \<Rightarrow>
                let c = classifyError env (erd_config d) err;
                    d = on_failure c d;
                    s = getStrategy (erd_config d) c
                in if \<not> es_ShouldRetry s then (Err (er_refused c err), upd_metrics er_failed d, w)
                   else if attempt \<ge> es_MaxRetries s then (Err (er_exhausted s c (Some err)), upd_metrics er_failed d, w)
                   else
                     case back_off env ctx s attempt d w of
                       (Some ce, d, w) \<Rightarrow> (Err ce, d, w)
                     | (None, d, w) \<Rightarrow> er_loop env a ctx msg limit (attempt + 1) s c (Some err) d w
      else (Err (er_exhausted strategy errorClass lastError), upd_metrics er_failed d, w))"
  by pat_completeness auto
termination
  by (relation "measure (\<lambda>(env, a, ctx, msg, limit, attempt, _). nat (limit + 1 - attempt))") auto

declare er_loop.simps [simp del]

definition er_Process ::
    "'w er_env \<Rightarrow> 'w agent \<Rightarrow> go_ctx \<Rightarrow> message option \<Rightarrow> EnhancedRetryDecorator \<times> 'w \<Rightarrow> reply \<times> EnhancedRetryDecorator \<times> 'w" where
  "er_Process env a ctx msg dw =
     (let (d, w) = dw in er_loop env a ctx msg (ec_MaxRetries (erd_config d)) 1 zero_strategy Transient None d w)"

section \<open>Refinement\<close>

text \<open>
  The abstract retry loop: what can happen from attempt \<open>i\<close> on, with the replies drawn from
  the agent and the number of waits.  It leaves open when the budget refuses an attempt and
  when a wait is cancelled.
\<close>

definition class_strategy :: "'w er_env \<Rightarrow> EnhancedRetryConfig \<Rightarrow> go_error \<Rightarrow> ErrorStrategy" where
  "class_strategy env k err = getStrategy k (classifyError env k err)"

inductive er_run ::
    "'w er_env \<Rightarrow> EnhancedRetryConfig \<Rightarrow> int \<Rightarrow> ErrorStrategy \<Rightarrow> ErrorClass \<Rightarrow> go_error option \<Rightarrow> reply list \<Rightarrow> nat \<Rightarrow> reply \<Rightarrow> bool"
  for env :: "'w er_env" and k :: EnhancedRetryConfig where
  run_out: "ec_MaxRetries k < i \<Longrightarrow> er_run env k i s c le [] 0 (Err (er_exhausted s c le))"
| run_budget: "i \<le> ec_MaxRetries k \<Longrightarrow> ec_EnableBudget k \<Longrightarrow> er_run env k i s c le [] 0 (Err budget_error)"
| run_nil: "i \<le> ec_MaxRetries k \<Longrightarrow> ec_EnableBudget k \<Longrightarrow> er_run env k i s c le [] 0 (Panic p)"
| run_ok: "i \<le> ec_MaxRetries k \<Longrightarrow> er_run env k i s c le [Ok r] 0 (Ok r)"
| run_panic: "i \<le> ec_MaxRetries k \<Longrightarrow> er_run env k i s c le [Panic p] 0 (Panic p)"
| run_refuse: "i \<le> ec_MaxRetries k \<Longrightarrow> \<not> es_ShouldRetry (class_strategy env k e) \<Longrightarrow>
    er_run env k i s c le [Err e] 0 (Err (er_refused (classifyError env k e) e))"
| run_class_limit: "i \<le> ec_MaxRetries k \<Longrightarrow> es_ShouldRetry (class_strategy env k e) \<Longrightarrow>
    es_MaxRetries (class_strategy env k e) \<le> i \<Longrightarrow>
    er_run env k i s c le [Err e] 0 (Err (er_exhausted (class_strategy env k e) (classifyError env k e) (Some e)))"
| run_cancel: "i \<le> ec_MaxRetries k \<Longrightarrow> es_ShouldRetry (class_strategy env k e) \<Longrightarrow>
    i < es_MaxRetries (class_strategy env k e) \<Longrightarrow> er_run env k i s c le [Err e] 1 (Err ce)"
| run_again: "i \<le> ec_MaxRetries k \<Longrightarrow> es_ShouldRetry (class_strategy env k e) \<Longrightarrow>
    i < es_MaxRetries (class_strategy env k e) \<Longrightarrow>
    er_run env k (i + 1) (class_strategy env k e) (classifyError env k e) (Some e) rs n res \<Longrightarrow>
    er_run env k i s c le (Err e # rs) (Suc n) res"

text \<open>What every run of the abstract loop has in common.\<close>

definition retried :: "'w er_env \<Rightarrow> EnhancedRetryConfig \<Rightarrow> reply \<Rightarrow> bool" where
  "retried env k r \<longleftrightarrow> (\<exists>e. r = Err e \<and> es_ShouldRetry (class_strategy env k e))"

lemma er_run_facts:
  assumes "er_run env k i s c le rs n res"
  shows "int (length rs) \<le> max 0 (ec_MaxRetries k + 1 - i)" and "\<forall>r \<in> set (butlast rs). retried env k r"
    and "\<forall>r. res = Ok r \<longrightarrow> rs \<noteq> [] \<and> last rs = Ok r" and "n \<le> length rs" and "length rs \<le> Suc n"
proof -
  have "int (length rs) \<le> max 0 (ec_MaxRetries k + 1 - i) \<and> (\<forall>r \<in> set (butlast rs). retried env k r) \<and>
      (\<forall>r. res = Ok r \<longrightarrow> rs \<noteq> [] \<and> last rs = Ok r) \<and> n \<le> length rs \<and> length rs \<le> Suc n"
    using assms by (induction rule: er_run.induct) (auto simp: retried_def)
  then show "int (length rs) \<le> max 0 (ec_MaxRetries k + 1 - i)" "\<forall>r \<in> set (butlast rs). retried env k r"
    "\<forall>r. res = Ok r \<longrightarrow> rs \<noteq> [] \<and> last rs = Ok r" "n \<le> length rs" "length rs \<le> Suc n" by blast+
qed

text \<open>The environment in the world of theory \<open>Retry\<close> that logs replies and delays.\<close>

definition logged_env :: "'w er_env \<Rightarrow> 'w log er_env" where
  "logged_env env =
     \<lparr>env_wait = logged_wait (env_wait env),
      env_sleep = (\<lambda>d (w, l). (env_sleep env d w, l)),
      env_clock = (\<lambda>(w, l). let (t, w) = env_clock env w in (t, (w, l))),
      env_rand = (\<lambda>(w, l). let (r, w) = env_rand env w in (r, (w, l))),
      env_lower = env_lower env, env_error_text = env_error_text env, env_unrepresentable = env_unrepresentable env\<rparr>"

lemma logged_env_fields:
  "env_wait (logged_env env) = logged_wait (env_wait env)"
  "env_sleep (logged_env env) d (w, l) = (env_sleep env d w, l)"
  "env_clock (logged_env env) (w, l) = (let (t, w) = env_clock env w in (t, (w, l)))"
  "env_rand (logged_env env) (w, l) = (let (r, w) = env_rand env w in (r, (w, l)))"
  "env_lower (logged_env env) = env_lower env" "env_error_text (logged_env env) = env_error_text env"
  "env_unrepresentable (logged_env env) = env_unrepresentable env"
  by (simp_all add: logged_env_def)

lemma logged_env_pure [simp]:
  "to_Duration (logged_env env) x = to_Duration env x" "classifyError (logged_env env) k e = classifyError env k e"
  "base_backoff (logged_env env) s i = base_backoff env s i"
  unfolding to_Duration_def classifyError_def base_backoff_def logged_env_fields by (rule refl)+

lemma logged_class_strategy [simp]: "class_strategy (logged_env env) k e = class_strategy env k e"
  by (simp add: class_strategy_def)

lemma budget_gate_logged:
  "budget_gate (logged_env env) msg d (w, l) = (let (r, d', w') = budget_gate env msg d w in (r, d', (w', l)))"
  by (simp add: budget_gate_def checkBudget_def logged_env_fields Let_def split: option.splits prod.splits bool.splits)

lemma before_attempt_logged:
  "before_attempt (logged_env env) msg d (w, l) = (let (r, d', w') = before_attempt env msg d w in (r, d', (w', l)))"
  unfolding before_attempt_def budget_gate_logged
  by (simp add: logged_env_fields Let_def split: option.splits prod.splits outcome.splits bool.splits)

lemma decorrelated_logged:
  "decorrelated (logged_env env) k b n (w, l) = (let (x, w') = decorrelated env k b n w in (x, (w', l)))"
  by (induction n arbitrary: w) (simp_all add: Let_def logged_env_fields split: prod.splits)

lemma calculateBackoff_logged:
  "calculateBackoff (logged_env env) k b i m (w, l) =
     (let (x, m', w') = calculateBackoff env k b i m w in (x, m', (w', l)))"
  unfolding calculateBackoff_def decorrelated_logged
  by (simp add: Let_def split: JitterType.splits prod.splits) (simp add: logged_env_fields split: prod.splits)

lemma back_off_logged:
  "\<exists>x. back_off (logged_env env) ctx s i d (w, rs, ds) =
     (let (e, d', w') = back_off env ctx s i d w in (e, d', (w', rs, ds @ [x])))"
  unfolding back_off_def calculateBackoff_logged logged_env_pure
  by (simp add: Let_def logged_env_fields logged_wait_def split: prod.splits)

lemma budget_gate_frame:
  assumes "budget_gate env msg d w = (r, d', w')"
  shows "erd_config d' = erd_config d" and "erm_TotalRetries (erd_metrics d') = erm_TotalRetries (erd_metrics d)"
    and "r \<noteq> Ok True \<Longrightarrow> ec_EnableBudget (erd_config d)" and "r \<noteq> Err e"
  using assms
  by (auto simp: budget_gate_def checkBudget_def Let_def split: option.splits prod.splits bool.splits if_splits)

lemma before_attempt_frame:
  assumes "before_attempt env msg d w = (r, d', w')"
  shows "erd_config d' = erd_config d \<and> erm_TotalRetries (erd_metrics d') = erm_TotalRetries (erd_metrics d) \<and>
    (r \<noteq> Ok True \<longrightarrow> ec_EnableBudget (erd_config d)) \<and> (\<forall>e. r \<noteq> Err e)"
proof -
  let ?d = "upd_metrics (\<lambda>m. m\<lparr>erm_TotalAttempts := erm_TotalAttempts m + 1\<rparr>) d"
  obtain r1 d1 w1 where g: "budget_gate env msg ?d w = (r1, d1, w1)" by (metis prod_cases3)
  note f = budget_gate_frame [OF g]
  show ?thesis
  proof (cases "r1 = Ok True")
    case True
    then show ?thesis
      using assms g f by (auto simp: before_attempt_def Let_def checkBackpressure_def split: prod.splits if_splits)
  next
    case False
    then have "(r, d', w') = (r1, d1, w1)"
      using assms g by (auto simp: before_attempt_def Let_def split: outcome.splits bool.splits)
    then show ?thesis using f False by auto
  qed
qed

lemma calculateBackoff_frame:
  "calculateBackoff env k b i m w = (x, m', w') \<Longrightarrow> erm_TotalRetries m' = erm_TotalRetries m"
  by (auto simp: calculateBackoff_def add_jitter_def Let_def split: JitterType.splits prod.splits)

lemma back_off_frame:
  "back_off env ctx s i d w = (e, d', w') \<Longrightarrow>
     erd_config d' = erd_config d \<and> erm_TotalRetries (erd_metrics d') = erm_TotalRetries (erd_metrics d) + 1"
  by (auto simp: back_off_def on_retry_def Let_def dest!: calculateBackoff_frame split: prod.splits)

lemma step_frames [simp]:
  "erd_config (on_failure c d) = erd_config d" "erd_config (on_success msg i d) = erd_config d"
  "erm_TotalRetries (erd_metrics (on_failure c d)) = erm_TotalRetries (erd_metrics d)"
  "erm_TotalRetries (erd_metrics (on_success msg i d)) = erm_TotalRetries (erd_metrics d)"
  "erm_TotalRetries (er_failed m) = erm_TotalRetries m"
  by (auto simp: on_failure_def on_success_def record_result_def er_failed_def Let_def split: option.splits bool.splits)

text \<open>The logs that a run has added, and the waits that it has counted.\<close>

definition er_implements ::
    "'w er_env \<Rightarrow> EnhancedRetryConfig \<Rightarrow> int \<Rightarrow> ErrorStrategy \<Rightarrow> ErrorClass \<Rightarrow> go_error option \<Rightarrow> EnhancedRetryDecorator \<Rightarrow>
     reply list \<Rightarrow> duration list \<Rightarrow> reply \<times> EnhancedRetryDecorator \<times> 'w log \<Rightarrow> bool" where
  "er_implements env k i s c le d rs ds R \<longleftrightarrow>
     (\<exists>new waits res d' w'. R = (res, d', w', rs @ new, ds @ waits) \<and> er_run env k i s c le new (length waits) res \<and>
        erd_config d' = k \<and> erm_TotalRetries (erd_metrics d') = erm_TotalRetries (erd_metrics d) + int (length waits))"

lemma er_implements_single:
  assumes "er_run env k i s c le [rep] 0 res" and "erd_config d' = k"
    and "erm_TotalRetries (erd_metrics d') = erm_TotalRetries (erd_metrics d)"
  shows "er_implements env k i s c le d rs ds (res, d', w', rs @ [rep], ds)"
  unfolding er_implements_def using assms by (intro exI [of _ "[rep]"] exI [of _ "[]"]) simp

lemma er_implements_none:
  assumes "er_run env k i s c le [] 0 res" and "erd_config d' = k"
    and "erm_TotalRetries (erd_metrics d') = erm_TotalRetries (erd_metrics d)"
  shows "er_implements env k i s c le d rs ds (res, d', w', rs, ds)"
  unfolding er_implements_def using assms by (intro exI [of _ "[]"]) simp

lemma er_implements_step:
  assumes imp: "er_implements env k (i + 1) (class_strategy env k e) (classifyError env k e) (Some e) d1 (rs @ [Err e]) (ds @ [x]) R"
    and "i \<le> ec_MaxRetries k" "es_ShouldRetry (class_strategy env k e)" "i < es_MaxRetries (class_strategy env k e)"
    and "erm_TotalRetries (erd_metrics d1) = erm_TotalRetries (erd_metrics d) + 1"
  shows "er_implements env k i s c le d rs ds R"
proof -
  from imp obtain new waits res d' w' where R: "R = (res, d', w', (rs @ [Err e]) @ new, (ds @ [x]) @ waits)"
      "er_run env k (i + 1) (class_strategy env k e) (classifyError env k e) (Some e) new (length waits) res"
      "erd_config d' = k" "erm_TotalRetries (erd_metrics d') = erm_TotalRetries (erd_metrics d1) + int (length waits)"
    unfolding er_implements_def by blast
  have "er_run env k i s c le (Err e # new) (Suc (length waits)) res" by (rule run_again [OF assms(2-4) R(2)])
  then show ?thesis
    unfolding er_implements_def using R assms(5) by (intro exI [of _ "Err e # new"] exI [of _ "x # waits"]) simp
qed

text \<open>An attempt that fails, given the rest of the loop.\<close>

lemma er_loop_failure:
  assumes "erd_config d = k" and "i \<le> ec_MaxRetries k" and g: "before_attempt env msg d w = (Ok True, d1, w1)"
    and r: "agent_Process a ctx msg w1 = (Err e, w2)"
    and "\<And>d rs ds w. erd_config d = k \<Longrightarrow>
      er_implements env k (i + 1) (class_strategy env k e) (classifyError env k e) (Some e) d rs ds
        (er_loop (logged_env env) (logged a) ctx msg (ec_MaxRetries k) (i + 1) (class_strategy env k e) (classifyError env k e)
          (Some e) d (w, rs, ds))"
  shows "er_implements env k i s c le d rs ds
    (er_loop (logged_env env) (logged a) ctx msg (ec_MaxRetries k) i s c le d (w, rs, ds))"
proof -
  have k1: "erd_config d1 = k" "erm_TotalRetries (erd_metrics d1) = erm_TotalRetries (erd_metrics d)"
    using before_attempt_frame [OF g] assms(1) by auto
  have lr: "agent_Process (logged a) ctx msg (w1, rs, ds) = (Err e, w2, rs @ [Err e], ds)" using r by (simp add: logged_def)
  note loop = er_loop.simps [of "logged_env env" "logged a" ctx msg "ec_MaxRetries k" i s c le d "(w, rs, ds)"]
  let ?s = "class_strategy env k e" and ?c = "classifyError env k e" and ?d = "on_failure (classifyError env k e) d1"
  obtain x ce d3 w3 where b: "back_off env ctx ?s i ?d w2 = (ce, d3, w3)"
      "back_off (logged_env env) ctx ?s i ?d (w2, rs @ [Err e], ds) = (ce, d3, w3, rs @ [Err e], ds @ [x])"
    using back_off_logged [of env ctx ?s i ?d w2 "rs @ [Err e]" ds] by (metis (no_types, lifting) case_prod_conv prod_cases3)
  have k3: "erd_config d3 = k" "erm_TotalRetries (erd_metrics d3) = erm_TotalRetries (erd_metrics d) + 1"
    using back_off_frame [OF b(1)] k1 by auto
  have L: "er_loop (logged_env env) (logged a) ctx msg (ec_MaxRetries k) i s c le d (w, rs, ds) =
    (if \<not> es_ShouldRetry ?s then (Err (er_refused ?c e), upd_metrics er_failed ?d, w2, rs @ [Err e], ds)
     else if i \<ge> es_MaxRetries ?s then (Err (er_exhausted ?s ?c (Some e)), upd_metrics er_failed ?d, w2, rs @ [Err e], ds)
     else case ce of
            Some ce \<Rightarrow> (Err ce, d3, w3, rs @ [Err e], ds @ [x])
          | None \<Rightarrow> er_loop (logged_env env) (logged a) ctx msg (ec_MaxRetries k) (i + 1) ?s ?c (Some e) d3
              (w3, rs @ [Err e], ds @ [x]))"
    using assms(2) g lr k1 b(2) unfolding loop before_attempt_logged
    by (simp add: Let_def class_strategy_def split: option.splits)
  consider (refuse) "\<not> es_ShouldRetry ?s" | (limit) "es_ShouldRetry ?s" "es_MaxRetries ?s \<le> i"
    | (cancel) ce' where "es_ShouldRetry ?s" "i < es_MaxRetries ?s" "ce = Some ce'"
    | (again) "es_ShouldRetry ?s" "i < es_MaxRetries ?s" "ce = None" by (cases ce) fastforce+
  then show ?thesis
  proof cases
    case refuse
    then show ?thesis unfolding L using k1 assms(2) by (auto intro!: er_implements_single run_refuse)
  next
    case limit
    then show ?thesis unfolding L using k1 assms(2) by (auto intro!: er_implements_single run_class_limit)
  next
    case cancel
    have "er_run env k i s c le [Err e] 1 (Err ce')" by (rule run_cancel [OF assms(2) cancel(1,2)])
    then show ?thesis
      unfolding L er_implements_def using cancel k3 by (intro exI [of _ "[Err e]"] exI [of _ "[x]"]) simp
  next
    case again
    have "er_implements env k (i + 1) ?s ?c (Some e) d3 (rs @ [Err e]) (ds @ [x])
        (er_loop (logged_env env) (logged a) ctx msg (ec_MaxRetries k) (i + 1) ?s ?c (Some e) d3 (w3, rs @ [Err e], ds @ [x]))"
      by (rule assms(5) [OF k3(1)])
    from er_implements_step [OF this assms(2) again(1,2) k3(2)] show ?thesis unfolding L using again by simp
  qed
qed

lemma er_loop_implements:
  assumes "erd_config d = k"
  shows "er_implements env k i s c le d rs ds
    (er_loop (logged_env env) (logged a) ctx msg (ec_MaxRetries k) i s c le d (w, rs, ds))"
  using assms
proof (induction "nat (ec_MaxRetries k + 1 - i)" arbitrary: i s c le d rs ds w rule: less_induct)
  case less
  show ?case
  proof (cases "i \<le> ec_MaxRetries k")
    case False
    then show ?thesis
      using less.prems by (subst er_loop.simps) (auto intro!: er_implements_none run_out)
  next
    case True
    obtain g d1 w1 where g: "before_attempt env msg d w = (g, d1, w1)" by (metis prod_cases3)
    note f = before_attempt_frame [OF g]
    have k1: "erd_config d1 = k" "erm_TotalRetries (erd_metrics d1) = erm_TotalRetries (erd_metrics d)"
      using f less.prems by auto
    obtain rep w2 where r: "agent_Process a ctx msg w1 = (rep, w2)" by (metis prod.exhaust)
    have lr: "agent_Process (logged a) ctx msg (w1, rs, ds) = (rep, w2, rs @ [rep], ds)" using r by (simp add: logged_def)
    note loop = er_loop.simps [of "logged_env env" "logged a" ctx msg "ec_MaxRetries k" i s c le d "(w, rs, ds)"]
    show ?thesis
    proof (cases "g = Ok True")
      case False
      then have "ec_EnableBudget k" "\<forall>e. g \<noteq> Err e" using f less.prems by auto
      then show ?thesis
        using True False g k1 unfolding loop before_attempt_logged
        by (cases g) (auto intro!: er_implements_none run_budget run_nil)
    next
      case gate: True
      show ?thesis
      proof (cases rep)
        case (Ok x)
        then show ?thesis
          using True g gate lr k1 unfolding loop before_attempt_logged by (auto intro!: er_implements_single run_ok)
      next
        case (Panic p)
        then show ?thesis
          using True g gate lr k1 unfolding loop before_attempt_logged by (auto intro!: er_implements_single run_panic)
      next
        case (Err e)
        show ?thesis
          by (rule er_loop_failure [OF less.prems True g [unfolded gate] r [unfolded Err]])
            (rule less.hyps, use True in auto)
      qed
    qed
  qed
qed

text \<open>
  C23.
  The decorator implements the abstract retry loop, for every agent, environment and
  configuration: the agent is called at most \<open>MaxRetries\<close> times; every reply but the last is an
  error of a class that is to be retried; a success is the reply of the last call; and the
  retries that the metrics count are the waits.
\<close>
theorem enhanced_retry_refines:
  assumes "k = erd_config d"
  shows "\<exists>res d' w' replies waits.
    er_Process (logged_env env) (logged a) ctx msg (d, (w, [], [])) = (res, d', (w', replies, waits)) \<and>
    er_run env k 1 zero_strategy Transient None replies (length waits) res \<and>
    int (length replies) \<le> max 0 (ec_MaxRetries k) \<and> (\<forall>r \<in> set (butlast replies). retried env k r) \<and>
    (\<forall>r. res = Ok r \<longrightarrow> replies \<noteq> [] \<and> last replies = Ok r) \<and>
    erm_TotalRetries (erd_metrics d') = erm_TotalRetries (erd_metrics d) + int (length waits)"
proof -
  from er_loop_implements [of d k env 1 zero_strategy Transient None "[]" "[]" a ctx msg w, OF assms [symmetric]]
  obtain res d' w' replies waits where R:
      "er_Process (logged_env env) (logged a) ctx msg (d, (w, [], [])) = (res, d', w', replies, waits)"
      "er_run env k 1 zero_strategy Transient None replies (length waits) res"
      "erm_TotalRetries (erd_metrics d') = erm_TotalRetries (erd_metrics d) + int (length waits)"
    unfolding er_implements_def er_Process_def using assms by auto
  from er_run_facts(1-3) [OF R(2)] R show ?thesis by (intro exI [of _ res] exI [of _ d'] exI [of _ w'] exI [of _ replies] exI [of _ waits]) simp
qed

definition calm_env :: "'w er_env" where
  "calm_env =
     \<lparr>env_wait = (\<lambda>d ctx w. (None, w)), env_sleep = (\<lambda>d w. w), env_clock = (\<lambda>w. (0, w)), env_rand = (\<lambda>w. (1 / 2, w)),
      env_lower = id, env_error_text = (\<lambda>e. case e of Errors_New s \<Rightarrow> s | _ \<Rightarrow> []), env_unrepresentable = (\<lambda>x. 0)\<rparr>"

definition failing_agent :: "string \<Rightarrow> 'w agent" where
  "failing_agent s =
     \<lparr>agent_Name = ''a'', agent_Capabilities = [], agent_Process = (\<lambda>ctx m w. (Err (Errors_New s), w))\<rparr>"

theorem enhanced_retry_refines_witness:
  "\<exists>res d' w' replies waits.
    er_Process (logged_env calm_env) (logged (failing_agent ''rate limit'')) Background None
      (NewEnhancedRetryDecorator 0 DefaultEnhancedRetryConfig, ((), [], [])) = (res, d', (w', replies, waits)) \<and>
    int (length replies) \<le> 3"
proof -
  have "erd_config (NewEnhancedRetryDecorator 0 DefaultEnhancedRetryConfig) = DefaultEnhancedRetryConfig"
      "ec_MaxRetries DefaultEnhancedRetryConfig = 3"
    by (simp_all add: NewEnhancedRetryDecorator_def DefaultEnhancedRetryConfig_def)
  with enhanced_retry_refines [of DefaultEnhancedRetryConfig "NewEnhancedRetryDecorator 0 DefaultEnhancedRetryConfig" calm_env
      "failing_agent ''rate limit''" Background None "()"]
  show ?thesis by fastforce
qed

text \<open>
  The limit of an error class above \<open>MaxRetries\<close> has no effect but a wait in vain: with the
  default configuration an agent that always answers with a rate limit error is called three
  times, not ten, the decorator also waits after the third failure before it gives up, and the
  error says that ten attempts were exceeded.
\<close>
lemma enhanced_retry_waits_in_vain:
  "case er_Process (logged_env calm_env) (logged (failing_agent ''rate limit'')) Background None
      (NewEnhancedRetryDecorator 0 DefaultEnhancedRetryConfig, ((), [], [])) of
     (res, d', (w', replies, waits)) \<Rightarrow>
       length replies = 3 \<and> waits = [30 * second, 45 * second, 67500 * millisecond] \<and>
       res = Err (Errorf ''max retry attempts (%d) exceeded for %s: %w'' [GInt 10, GStr ''rate_limit'']
         (Some (Errors_New ''rate limit''))) \<and>
       erm_TotalRetries (erd_metrics d') = 3"
  by code_simp

section \<open>Delays\<close>

lemma to_Duration_between:
  assumes "0 \<le> x" and "x \<le> real_of_int b" and "b < 2 ^ 63"
  shows "0 \<le> to_Duration env x \<and> to_Duration env x \<le> b"
proof -
  have t: "0 \<le> go_trunc x" by (rule go_trunc_nonneg [OF assms(1)])
  have "real_of_int (go_trunc x) \<le> real_of_int b" using go_trunc_le [OF assms(1)] assms(2) by (rule order_trans)
  then have "go_trunc x \<le> b" by simp
  then show ?thesis using t assms(3) by (simp add: to_Duration_def)
qed

lemma unit_times: "0 \<le> r \<Longrightarrow> r < 1 \<Longrightarrow> 0 \<le> b \<Longrightarrow> 0 \<le> r * b \<and> r * b \<le> (b :: real)"
  by (simp add: mult_left_le_one_le)

lemma decorrelated_bounded:
  assumes rand: "\<And>w. 0 \<le> fst (env_rand env w) \<and> fst (env_rand env w) < 1"
    and b: "0 \<le> b" "b < 2 ^ 60" and M: "0 \<le> ec_MaxRetryDelay k" "ec_MaxRetryDelay k < 2 ^ 60"
  shows "decorrelated env k b n w = (x, w') \<Longrightarrow> 0 \<le> x \<and> x \<le> max b (ec_MaxRetryDelay k)"
proof (induction n arbitrary: x w')
  case (Suc n)
  obtain p w1 where p: "decorrelated env k b n w = (p, w1)" by (metis prod.exhaust)
  obtain r w2 where r: "env_rand env w1 = (r, w2)" by (metis prod.exhaust)
  have pb: "0 \<le> p" "p \<le> max b (ec_MaxRetryDelay k)" using Suc.IH [OF p] by auto
  have r1: "0 \<le> r" "r < 1" using rand [of w1] r by auto
  define y where "y = r * real_of_int p * 3 + real_of_int b"
  have "0 \<le> r * real_of_int p \<and> r * real_of_int p \<le> real_of_int p" using unit_times [OF r1] pb(1) by simp
  then have y: "0 \<le> y" "y \<le> real_of_int (p * 3 + b)" using b(1) by (auto simp: y_def)
  have "p * 3 + b < 2 ^ 63" using pb(2) b(2) M(2) by auto
  with to_Duration_between [OF y, where env = env] have "0 \<le> to_Duration env y" by simp
  moreover have "x = (if to_Duration env y > ec_MaxRetryDelay k then ec_MaxRetryDelay k else to_Duration env y)"
    using Suc.prems p r by (auto simp: Let_def y_def)
  ultimately show ?case using M(1) by (auto simp: max_def)
qed (use b M in auto)

text \<open>
  With random numbers from the unit interval, a ratio in the unit interval and delays below
  36 years, a jittered delay is never negative and never longer than the delay that it
  replaces; decorrelated jitter stays below the larger of that delay and \<open>MaxRetryDelay\<close>.
\<close>
lemma jitter_bounded:
  assumes rand: "\<And>w. 0 \<le> fst (env_rand env w) \<and> fst (env_rand env w) < 1"
    and b: "0 \<le> b" "b < 2 ^ 60" and M: "0 \<le> ec_MaxRetryDelay k" "ec_MaxRetryDelay k < 2 ^ 60"
    and q: "0 \<le> ec_JitterMinRatio k" "ec_JitterMinRatio k \<le> 1"
    and c: "calculateBackoff env k b i m w = (x, m', w')"
  shows "0 \<le> x \<and> x \<le> (if ec_JitterType k = DecorrelatedJitter then max b (ec_MaxRetryDelay k) else b)"
proof -
  obtain r w1 where r: "env_rand env w = (r, w1)" by (metis prod.exhaust)
  have r1: "0 \<le> r" "r < 1" using rand [of w] r by auto
  have small: "to_Duration env (r * real_of_int d) \<le> d \<and> 0 \<le> to_Duration env (r * real_of_int d)" if "0 \<le> d" "d < 2 ^ 60" for d
    using to_Duration_between [of "r * real_of_int d" d env] unit_times [OF r1, of "real_of_int d"] that by auto
  show ?thesis
  proof (cases "ec_JitterType k")
    case NoJitter
    then show ?thesis using c b by (simp add: calculateBackoff_def)
  next
    case FullJitter
    then show ?thesis using c b small [OF b] r by (auto simp: calculateBackoff_def Let_def)
  next
    case EqualJitter
    define lo where "lo = to_Duration env (real_of_int b * ec_JitterMinRatio k)"
    have "0 \<le> real_of_int b * ec_JitterMinRatio k" "real_of_int b * ec_JitterMinRatio k \<le> real_of_int b"
      using q b(1) by (auto intro: mult_right_le_one_le)
    then have lo: "0 \<le> lo" "lo \<le> b" unfolding lo_def using to_Duration_between [of _ b env] b(2) by auto
    have "x = lo + to_Duration env (r * real_of_int (b - lo))"
      using EqualJitter c r by (auto simp: calculateBackoff_def Let_def lo_def)
    then show ?thesis using small [of "b - lo"] lo b EqualJitter by auto
  next
    case DecorrelatedJitter
    obtain y w2 where "decorrelated env k b (nat (i - 1)) w = (y, w2)" by (metis prod.exhaust)
    then show ?thesis
      using DecorrelatedJitter c decorrelated_bounded [OF rand b M] by (auto simp: calculateBackoff_def Let_def)
  qed
qed

text \<open>
  The delay is computed by a power and capped after the conversion to an integer.  Where the
  conversion of a float that does not fit gives the smallest integer, the delays of the class
  of transient errors rise to the maximum of five seconds, stay there, and collapse to a
  negative delay, which is no wait at all, from attempt 38 on.
\<close>
lemma backoff_overflows:
  "let env = calm_env\<lparr>env_unrepresentable := \<lambda>x. - (2 ^ 63)\<rparr>; s = getStrategy DefaultEnhancedRetryConfig Transient in
   map (base_backoff env s) [1, 6, 7, 37, 38] =
     [100 * millisecond, 3200 * millisecond, 5 * second, 5 * second, - (2 ^ 63)]"
  by code_simp

section \<open>The budget\<close>

definition within_budget :: "EnhancedRetryDecorator \<Rightarrow> bool" where
  "within_budget d \<longleftrightarrow> 0 \<le> rb_MaxCost (erd_budget d) \<and> rb_CurrentCost (erd_budget d) \<le> rb_MaxCost (erd_budget d)"

text \<open>The budget holds, and has room for the attempt that is about to be made.\<close>

definition budget_room :: "message option \<Rightarrow> EnhancedRetryDecorator \<Rightarrow> bool" where
  "budget_room msg d \<longleftrightarrow> within_budget d \<and>
     (case (ec_EnableBudget (erd_config d), ec_CostTracker (erd_config d), msg) of
        (True, Some tracker, Some m) \<Rightarrow> rb_CurrentCost (erd_budget d) + tracker m \<le> rb_MaxCost (erd_budget d)
      | _ \<Rightarrow> True)"

lemma budget_metrics [simp]:
  "within_budget (d\<lparr>erd_metrics := m\<rparr>) = within_budget d" "budget_room msg (d\<lparr>erd_metrics := m\<rparr>) = budget_room msg d"
  by (simp_all add: within_budget_def budget_room_def split: option.splits bool.splits)

lemma budget_gate_room:
  assumes "within_budget d" and "budget_gate env msg d w = (r, d', w')"
  shows "within_budget d' \<and> (r = Ok True \<longrightarrow> budget_room msg d')"
  using assms
  by (auto simp: budget_gate_def checkBudget_def budget_room_def within_budget_def over_budget_def reset_window_def Let_def
      split: option.splits prod.splits bool.splits if_splits)

lemma before_attempt_room:
  assumes "within_budget d" and "before_attempt env msg d w = (r, d', w')"
  shows "within_budget d' \<and> (r = Ok True \<longrightarrow> budget_room msg d')"
proof -
  let ?d = "upd_metrics (\<lambda>m. m\<lparr>erm_TotalAttempts := erm_TotalAttempts m + 1\<rparr>) d"
  obtain r1 d1 w1 where g: "budget_gate env msg ?d w = (r1, d1, w1)" by (metis prod_cases3)
  have f: "within_budget d1 \<and> (r1 = Ok True \<longrightarrow> budget_room msg d1)"
    by (rule budget_gate_room [OF _ g]) (use assms(1) in \<open>simp add: within_budget_def\<close>)
  show ?thesis
  proof (cases "r1 = Ok True")
    case True
    then show ?thesis
      using assms(2) g f by (auto simp: before_attempt_def Let_def split: prod.splits)
  next
    case False
    then have "(r, d', w') = (r1, d1, w1)"
      using assms(2) g by (auto simp: before_attempt_def Let_def split: outcome.splits bool.splits)
    then show ?thesis using f by auto
  qed
qed

lemma on_success_budget: "budget_room msg d \<Longrightarrow> within_budget (on_success msg i d)"
  by (auto simp: budget_room_def within_budget_def on_success_def Let_def split: option.splits bool.splits)

lemma back_off_budget: "within_budget d \<Longrightarrow> back_off env ctx s i d w = (e, d', w') \<Longrightarrow> within_budget d'"
  by (auto simp: back_off_def on_retry_def within_budget_def Let_def split: prod.splits)

lemma on_failure_budget [simp]: "within_budget (on_failure c d) = within_budget d"
  by (simp add: within_budget_def on_failure_def)

lemma er_loop_budget:
  "within_budget d \<Longrightarrow> within_budget (fst (snd (er_loop env a ctx msg limit i s c le d w)))"
proof (induction "nat (limit + 1 - i)" arbitrary: i s c le d w rule: less_induct)
  case less
  obtain g d1 w1 where g: "before_attempt env msg d w = (g, d1, w1)" by (metis prod_cases3)
  note room = before_attempt_room [OF less.prems g]
  obtain rep w2 where r: "agent_Process a ctx msg w1 = (rep, w2)" by (metis prod.exhaust)
  note loop = er_loop.simps [of env a ctx msg limit i s c le d w]
  show ?case
  proof (cases "i \<le> limit \<and> g = Ok True")
    case False
    then show ?thesis
      using room g less.prems unfolding loop by (auto split: outcome.splits bool.splits)
  next
    case True
    then have d1: "within_budget d1" "budget_room msg d1" using room by auto
    show ?thesis
    proof (cases rep)
      case (Err e)
      let ?c = "classifyError env (erd_config d1) e"
      let ?s = "getStrategy (erd_config d1) ?c" and ?d = "on_failure ?c d1"
      obtain ce d3 w3 where b: "back_off env ctx ?s i ?d w2 = (ce, d3, w3)" by (metis prod_cases3)
      have d3: "within_budget d3" by (rule back_off_budget [OF _ b]) (use d1 in simp)
      have "within_budget (fst (snd (er_loop env a ctx msg limit (i + 1) ?s ?c (Some e) d3 w3)))"
        by (rule less.hyps) (use True d3 in auto)
      then show ?thesis
        using True g r Err b d1 d3 unfolding loop by (cases ce) (simp_all add: Let_def)
    qed (use True g r d1 on_success_budget in \<open>simp_all add: loop Let_def\<close>)
  qed
qed


definition paying_config :: EnhancedRetryConfig where
  "paying_config = DefaultEnhancedRetryConfig\<lparr>ec_EnableBudget := True, ec_CostTracker := Some (\<lambda>m. 60)\<rparr>"

definition willing_agent :: "unit agent" where
  "willing_agent = \<lparr>agent_Name = ''a'', agent_Capabilities = [], agent_Process = (\<lambda>ctx m w. (Ok m, w))\<rparr>"


end
