(* ===== verification/Patterns.thy ===== *)
theory Patterns
  imports Message
begin

text \<open>
  The agent patterns without state of their own: pipeline and ensemble (\<open>patterns/sequential.go\<close>,
  \<open>patterns/parallel.go\<close>), router and classifiers (\<open>patterns/router.go\<close>), fallback and recovery
  (\<open>patterns/fallback.go\<close>), supervisor (\<open>patterns/supervisor.go\<close>), human approval
  (\<open>patterns/human_in_loop.go\<close>) and the patterns of \<open>patterns/orchestration.go\<close>.

  Maps of agents are association lists, whose order stands for the iteration order.  The
  goroutines of an ensemble run in the order \<open>order\<close> and their results arrive in the order
  \<open>arrival\<close>.  \<open>err_text\<close> is the method \<open>Error\<close> of errors.
\<close>

abbreviation nil_message :: go_error where
  "nil_message \<equiv> Errorf ''message cannot be nil'' [] None"

abbreviation nil_panic :: "'a outcome" where
  "nil_panic \<equiv> Panic ''nil pointer dereference''"

text \<open>Assignments to the metadata of a message, after making the map if it is nil.\<close>

definition put_meta :: "(string \<times> gval) list \<Rightarrow> message \<Rightarrow> message" where
  "put_meta kvs m =
     m\<lparr>msg_metadata := Some (fold (\<lambda>(k, v). go_set k v) kvs (case msg_metadata m of None \<Rightarrow> [] | Some md \<Rightarrow> md))\<rparr>"

section \<open>Pipeline\<close>

fun pipeline_loop ::
    "'w ctx_err \<Rightarrow> go_ctx \<Rightarrow> int \<Rightarrow> 'w agent list \<Rightarrow> message option \<Rightarrow> 'w \<Rightarrow> reply \<times> 'w" where
  "pipeline_loop ctxerr ctx i [] current w = (Ok current, w)"
| "pipeline_loop ctxerr ctx i (a # as) current w =
     (case ctxerr ctx w of
        Some e \<Rightarrow> (Err (Errorf ''pipeline cancelled at stage %d: %w'' [GInt i] (Some e)), w)
      | None \<Rightarrow>
          (case agent_Process a ctx current w of
             (Err e, w) \<Rightarrow> (Err (Errorf ''agent %d (%s) failed: %w'' [GInt i, GStr (agent_Name a)] (Some e)), w)
           | (Panic p, w) \<Rightarrow> (Panic p, w)
           | (Ok r, w) \<Rightarrow> pipeline_loop ctxerr ctx (i + 1) as r w))"

definition pipeline_meta :: "'w agent list \<Rightarrow> (string \<times> gval) list" where
  "pipeline_meta as =
     (let names = GStrs (map agent_Name as); n = GInt (int (length as)) in
      [(''pipeline_stages'',
          GList (map (\<lambda>(i, a). GMap [(''agent'', GStr (agent_Name a)), (''stage'', GInt (int i))]) (enumerate 0 as))),
       (''pipeline_length'', n), (''execution_order'', names), (''agent_count'', n), (''sub_agents'', names)])"

definition pipeline_Process ::
    "'w ctx_err \<Rightarrow> 'w agent list \<Rightarrow> go_ctx \<Rightarrow> message option \<Rightarrow> 'w \<Rightarrow> reply \<times> 'w" where
  "pipeline_Process ctxerr as ctx msg w =
     (if msg = None then (Err nil_message, w)
      else
        (case pipeline_loop ctxerr ctx 0 as msg w of
           (Ok (Some r), w) \<Rightarrow> (Ok (Some (put_meta (pipeline_meta as) r)), w)
         | (Ok None, w) \<Rightarrow> (nil_panic, w)
         | (Err e, w) \<Rightarrow> (Err e, w)
         | (Panic p, w) \<Rightarrow> (Panic p, w)))"

section \<open>Ensemble\<close>

fun run_all ::
    "go_ctx \<Rightarrow> message option \<Rightarrow> 'w agent list \<Rightarrow> nat list \<Rightarrow> 'w \<Rightarrow> (nat \<times> reply) list outcome \<times> 'w" where
  "run_all ctx msg as [] w = (Ok [], w)"
| "run_all ctx msg as (i # is) w =
     (case agent_Process (as ! i) ctx msg w of
        (Panic p, w) \<Rightarrow> (Panic p, w)
      | (r, w) \<Rightarrow>
          (case run_all ctx msg as is w of
             (Ok rs, w) \<Rightarrow> (Ok ((i, r) # rs), w)
           | (Err e, w) \<Rightarrow> (Err e, w)
           | (Panic p, w) \<Rightarrow> (Panic p, w)))"

definition succeeded :: "(nat \<times> reply) list \<Rightarrow> message option list" where
  "succeeded rs = List.map_filter (\<lambda>(i, r). case r of Ok m \<Rightarrow> Some m | _ \<Rightarrow> None) rs"

definition failures_value :: "(go_error \<Rightarrow> string) \<Rightarrow> 'w agent list \<Rightarrow> (nat \<times> reply) list \<Rightarrow> gval list" where
  "failures_value err_text as rs =
     List.map_filter (\<lambda>(i, r). case r of
        Err e \<Rightarrow> Some (GMap [(''agent'', GStr (agent_Name (as ! i))), (''error'', GStr (err_text e))])
      | _ \<Rightarrow> None) rs"

definition ensemble_Process ::
    "(go_error \<Rightarrow> string) \<Rightarrow> ('w \<Rightarrow> nat list) \<Rightarrow> ((nat \<times> reply) list \<Rightarrow> (nat \<times> reply) list) \<Rightarrow>
     (message option list \<Rightarrow> message option outcome) \<Rightarrow> 'w agent list \<Rightarrow> go_ctx \<Rightarrow> message option \<Rightarrow> 'w \<Rightarrow> reply \<times> 'w" where
  "ensemble_Process err_text order arrival aggregator as ctx msg w =
     (if msg = None then (Err nil_message, w)
      else
        (case run_all ctx msg as (order w) w of
           (Panic p, w) \<Rightarrow> (Panic p, w)
         | (Err e, w) \<Rightarrow> (Err e, w)
         | (Ok rs, w) \<Rightarrow>
             (let rs = arrival rs; successes = succeeded rs; errors = failures_value err_text as rs in
              if length successes = 0 then (Err (Errorf ''all agents failed: %v'' [GList errors] None), w)
              else
                (case aggregator successes of
                   Ok (Some m) \<Rightarrow>
                     (Ok (Some (put_meta ([(''parallel_agents'', GInt (int (length as))),
                          (''successful_agents'', GInt (int (length successes)))] @
                          (if length errors > 0 then [(''errors'', GList errors)] else [])) m)), w)
                 | Ok None \<Rightarrow> (nil_panic, w)
                 | Err e \<Rightarrow> (Err e, w)
                 | Panic p \<Rightarrow> (Panic p, w)))))"

text \<open>The three aggregators; a nil message among the results panics where its content is read.\<close>

definition agg_First :: "time \<Rightarrow> message option list \<Rightarrow> message option outcome" where
  "agg_First now ms = (case ms of [] \<Rightarrow> Ok (Some (NewMessage now ''assistant'' ''No results to aggregate'')) | m # _ \<Rightarrow> Ok m)"

definition separator :: string where
  "separator = [CHR 0x0A, CHR 0x0A] @ ''---'' @ [CHR 0x0A, CHR 0x0A]"

definition agg_Concatenate :: "(real \<Rightarrow> string) \<Rightarrow> time \<Rightarrow> message option list \<Rightarrow> message option outcome" where
  "agg_Concatenate ff now ms =
     (if length ms = 0 then Ok (Some (NewMessage now ''assistant'' ''No results to aggregate''))
      else if None \<in> set ms then nil_panic
      else Ok (Some (NewMessage now ''assistant'' (strings_Join (map (ContentString ff \<circ> the) ms) separator))))"

text \<open>The votes by content, and the loop over them in the order of the map.\<close>

definition count_votes :: "string list \<Rightarrow> (string \<times> int) list" where
  "count_votes contents = fold go_incr contents []"

definition vote_winner :: "(string \<times> int) list \<Rightarrow> string \<times> int" where
  "vote_winner votes = fold (\<lambda>(c, n) (winner, maxVotes). if n > maxVotes then (c, n) else (winner, maxVotes)) votes ([], 0)"

definition agg_MajorityVote :: "(real \<Rightarrow> string) \<Rightarrow> time \<Rightarrow> message option list \<Rightarrow> message option outcome" where
  "agg_MajorityVote ff now ms =
     (if length ms = 0 then Ok (Some (NewMessage now ''assistant'' ''No results to aggregate''))
      else if None \<in> set ms then nil_panic
      else
        let contents = map (ContentString ff \<circ> the) ms;
            (winner, maxVotes) = vote_winner (count_votes contents);
            msgByContent = fold (\<lambda>m. go_set (ContentString ff (the m)) (the m)) ms []
        in case go_get msgByContent winner of
             None \<Rightarrow> nil_panic
           | Some m \<Rightarrow>
               (case WithMetadata ''votes'' (GInt maxVotes) m of
                  Ok m \<Rightarrow> map_outcome Some (WithMetadata ''total_agents'' (GInt (int (length ms))) m)
                | Err e \<Rightarrow> Err e
                | Panic p \<Rightarrow> Panic p))"

section \<open>Router and classifiers\<close>

type_synonym 'w classifier = "go_ctx \<Rightarrow> message \<Rightarrow> 'w \<Rightarrow> string outcome \<times> 'w"

definition router_Process ::
    "'w classifier \<Rightarrow> (string \<times> 'w agent) list \<Rightarrow> string \<Rightarrow> go_ctx \<Rightarrow> message option \<Rightarrow> 'w \<Rightarrow> reply \<times> 'w" where
  "router_Process classify agents defaultKey ctx msg w =
     (case msg of
        None \<Rightarrow> (Err nil_message, w)
      | Some m \<Rightarrow>
          (case classify ctx m w of
             (Err e, w) \<Rightarrow> (Err (Errorf ''classification failed: %w'' [] (Some e)), w)
           | (Panic p, w) \<Rightarrow> (Panic p, w)
           | (Ok category, w) \<Rightarrow>
               let category' = (if go_get agents category = None \<and> defaultKey \<noteq> [] then defaultKey else category) in
               (case go_get agents category' of
                  None \<Rightarrow>
                    if defaultKey \<noteq> [] then (nil_panic, w)
                    else (Err (Errorf ''no agent found for category '%s' (available: %s)''
                      [GStr category, GStr (strings_Join (map fst agents) '', '')] None), w)
                | Some a \<Rightarrow>
                    (case agent_Process a ctx msg w of
                       (Err e, w) \<Rightarrow>
                         (Err (Errorf ''agent '%s' (category: %s) failed: %w'' [GStr (agent_Name a), GStr category'] (Some e)), w)
                     | (Panic p, w) \<Rightarrow> (Panic p, w)
                     | (Ok None, w) \<Rightarrow> (nil_panic, w)
                     | (Ok (Some r), w) \<Rightarrow>
                         (Ok (Some (put_meta [(''routed_category'', GStr category'), (''routed_agent'', GStr (agent_Name a)),
                            (''available_routes'', GInt (int (length agents)))] r)), w)))))"

definition NewRouterAgent :: "(string \<times> 'w agent) list \<Rightarrow> string \<Rightarrow> go_error option" where
  "NewRouterAgent agents defaultKey =
     (if length agents = 0 then Some (Errorf ''at least one agent is required'' [] None)
      else if defaultKey \<noteq> [] \<and> go_get agents defaultKey = None
      then Some (Errorf ''default key '%s' not found in agents map'' [GStr defaultKey] None)
      else None)"

definition keyword_matches :: "(string \<Rightarrow> string) \<Rightarrow> string \<Rightarrow> string list \<Rightarrow> nat" where
  "keyword_matches lower content keywords = length (filter (\<lambda>k. strings_Contains content (lower k)) keywords)"

definition best_category :: "(string \<Rightarrow> string) \<Rightarrow> string \<Rightarrow> (string \<times> string list) list \<Rightarrow> string \<times> nat" where
  "best_category lower content keywords =
     fold (\<lambda>(category, ks) (best, maxMatches).
        if keyword_matches lower content ks > maxMatches then (category, keyword_matches lower content ks)
        else (best, maxMatches)) keywords ([], 0)"

definition SimpleClassify ::
    "(real \<Rightarrow> string) \<Rightarrow> (string \<Rightarrow> string) \<Rightarrow> (string \<times> string list) list \<Rightarrow> message option \<Rightarrow> string outcome" where
  "SimpleClassify ff lower keywords msg =
     (case msg of
        None \<Rightarrow> Err nil_message
      | Some m \<Rightarrow>
          let (bestCategory, maxMatches) = best_category lower (lower (ContentString ff m)) keywords in
          if bestCategory = [] then Err (Errorf ''unable to classify message - no keyword matches found'' [] None)
          else Ok bestCategory)"

definition classify_prompt :: "string list \<Rightarrow> string" where
  "classify_prompt categories =
     ''Classify the following message into one of these categories: '' @
     strings_Join (if length categories = 0 then [''general''] else categories) '', '' @ [CHR 0x0A, CHR 0x0A] @
     ''Reply with ONLY the category name, nothing else.'' @ [CHR 0x0A, CHR 0x0A] @ ''Message: ''"

definition LLMClassify ::
    "(real \<Rightarrow> string) \<Rightarrow> (string \<Rightarrow> string) \<Rightarrow> (string \<Rightarrow> string \<Rightarrow> bool) \<Rightarrow> 'w clock \<Rightarrow> 'w agent \<Rightarrow> string list \<Rightarrow> go_ctx \<Rightarrow>
     message option \<Rightarrow> 'w \<Rightarrow> string outcome \<times> 'w" where
  "LLMClassify ff trim equalFold clock a categories ctx msg w =
     (case msg of
        None \<Rightarrow> (Err nil_message, w)
      | Some m \<Rightarrow>
          let categories = (if length categories = 0 then [''general''] else categories);
              (now, w) = clock w
          in case agent_Process a ctx (Some (NewMessage now ''user'' (classify_prompt categories @ ContentString ff m))) w of
               (Err e, w) \<Rightarrow> (Err (Errorf ''llm classification failed: %w'' [] (Some e)), w)
             | (Panic p, w) \<Rightarrow> (Panic p, w)
             | (Ok None, w) \<Rightarrow> (nil_panic, w)
             | (Ok (Some r), w) \<Rightarrow>
                 let category = trim (ContentString ff r) in
                 (case find (equalFold category) categories of
                    Some valid \<Rightarrow> (Ok valid, w)
                  | None \<Rightarrow>
                      (Err (Errorf ''llm returned invalid category '%s' (valid: %s)''
                        [GStr category, GStr (strings_Join categories '', '')] None), w)))"

section \<open>Fallback and recovery\<close>

type_synonym attempt = "int \<times> string \<times> go_error"

definition buildSuccessResult ::
    "(go_error \<Rightarrow> string) \<Rightarrow> int \<Rightarrow> int \<Rightarrow> string \<Rightarrow> attempt list \<Rightarrow> message \<Rightarrow> message" where
  "buildSuccessResult err_text nAgents i name failed m =
     put_meta ([(''fallback_attempts'', GInt (int (length failed) + 1)), (''fallback_success_index'', GInt i),
        (''fallback_success_agent'', GStr name), (''fallback_total_agents'', GInt nAgents)] @
        (if length failed > 0
         then [(''fallback_failed_attempts'', GList (map (\<lambda>(j, n, e).
                  GMap [(''index'', GInt j), (''agent'', GStr n), (''error'', GStr (err_text e))]) failed))]
         else [])) m"

definition buildFailureError :: "(go_error \<Rightarrow> string) \<Rightarrow> attempt list \<Rightarrow> go_error" where
  "buildFailureError err_text attempts =
     Errorf ''%s'' [GStr (''all '' @ show_int (int (length attempts)) @ '' agents failed:'' @ [CHR 0x0A] @
       concat (map (\<lambda>(j, n, e). ''  ['' @ show_int j @ ''] '' @ n @ '': '' @ err_text e @ [CHR 0x0A]) attempts))] None"

fun fb_loop ::
    "(go_error \<Rightarrow> string) \<Rightarrow> 'w ctx_err \<Rightarrow> go_ctx \<Rightarrow> message option \<Rightarrow> int \<Rightarrow> int \<Rightarrow> 'w agent list \<Rightarrow> attempt list \<Rightarrow> 'w \<Rightarrow> reply \<times> 'w" where
  "fb_loop err_text ctxerr ctx msg nAgents i [] failed w = (Err (buildFailureError err_text failed), w)"
| "fb_loop err_text ctxerr ctx msg nAgents i (a # as) failed w =
     (case ctxerr ctx w of
        Some e \<Rightarrow> (Err (Errorf ''fallback cancelled after %d attempts: %w'' [GInt i] (Some e)), w)
      | None \<Rightarrow>
          (case agent_Process a ctx msg w of
             (Ok (Some r), w) \<Rightarrow> (Ok (Some (buildSuccessResult err_text nAgents i (agent_Name a) failed r)), w)
           | (Ok None, w) \<Rightarrow> (nil_panic, w)
           | (Panic p, w) \<Rightarrow> (Panic p, w)
           | (Err e, w) \<Rightarrow> fb_loop err_text ctxerr ctx msg nAgents (i + 1) as (failed @ [(i, agent_Name a, e)]) w))"

definition fb_Process ::
    "(go_error \<Rightarrow> string) \<Rightarrow> 'w ctx_err \<Rightarrow> 'w agent list \<Rightarrow> go_ctx \<Rightarrow> message option \<Rightarrow> 'w \<Rightarrow> reply \<times> 'w" where
  "fb_Process err_text ctxerr as ctx msg w =
     (if msg = None then (Err nil_message, w) else fb_loop err_text ctxerr ctx msg (int (length as)) 0 as [] w)"

type_synonym 'w recovery = "go_ctx \<Rightarrow> message option \<Rightarrow> go_error \<Rightarrow> 'w \<Rightarrow> reply \<times> 'w"

definition recovery_Process ::
    "(go_error \<Rightarrow> string) \<Rightarrow> 'w agent \<Rightarrow> 'w recovery \<Rightarrow> go_ctx \<Rightarrow> message option \<Rightarrow> 'w \<Rightarrow> reply \<times> 'w" where
  "recovery_Process err_text a recover ctx msg w =
     (case agent_Process a ctx msg w of
        (Ok r, w) \<Rightarrow> (Ok r, w)
      | (Panic p, w) \<Rightarrow> (Panic p, w)
      | (Err e, w) \<Rightarrow>
          (case recover ctx msg e w of
             (Err re, w) \<Rightarrow> (Err (Errorf ''primary agent failed: %w; recovery failed: %v'' [GStr (err_text re)] (Some e)), w)
           | (Panic p, w) \<Rightarrow> (Panic p, w)
           | (Ok None, w) \<Rightarrow> (nil_panic, w)
           | (Ok (Some r), w) \<Rightarrow>
               (Ok (Some (put_meta [(''recovery_used'', GBool True), (''original_error'', GStr (err_text e))] r)), w)))"

definition StaticMessage :: "'w clock \<Rightarrow> string \<Rightarrow> 'w recovery" where
  "StaticMessage clock content ctx msg e w = (let (now, w) = clock w in (Ok (Some (NewMessage now ''assistant'' content)), w))"

definition RetryOnce :: "'w recovery" where
  "RetryOnce ctx msg e w = (Err (Errorf ''retry not available in this context: %w'' [] (Some e)), w)"

definition EmptyResponse :: "'w clock \<Rightarrow> 'w recovery" where
  "EmptyResponse clock = StaticMessage clock []"

section \<open>Supervisor\<close>

record Subtask =
  sub_Type :: string
  sub_Message :: "message option"

type_synonym results = "(string \<times> message option) list"

record 'w PlannerAgent =
  pl_Process :: "go_ctx \<Rightarrow> message option \<Rightarrow> 'w \<Rightarrow> reply \<times> 'w"
  pl_Plan :: "go_ctx \<Rightarrow> message \<Rightarrow> 'w \<Rightarrow> Subtask list outcome \<times> 'w"
  pl_Synthesize :: "go_ctx \<Rightarrow> message \<Rightarrow> results \<Rightarrow> 'w \<Rightarrow> reply \<times> 'w"

definition resultKey :: "Subtask \<Rightarrow> nat \<Rightarrow> string" where
  "resultKey t i = sub_Type t @ ''_'' @ show_int (int i)"

text \<open>The first subtask without a specialist.\<close>

definition unknown_specialist :: "(string \<times> 'w agent) list \<Rightarrow> Subtask list \<Rightarrow> (nat \<times> Subtask) option" where
  "unknown_specialist specialists subtasks = find (\<lambda>(i, t). go_get specialists (sub_Type t) = None) (enumerate 0 subtasks)"

fun run_subtasks ::
    "'w ctx_err \<Rightarrow> go_ctx \<Rightarrow> (string \<times> 'w agent) list \<Rightarrow> nat \<Rightarrow> Subtask list \<Rightarrow> results \<Rightarrow> gval list \<Rightarrow> 'w \<Rightarrow>
     (results \<times> gval list) outcome \<times> 'w" where
  "run_subtasks ctxerr ctx specialists i [] results executed w = (Ok (results, executed), w)"
| "run_subtasks ctxerr ctx specialists i (t # ts) results executed w =
     (case ctxerr ctx w of
        Some e \<Rightarrow> (Err (Errorf ''supervisor cancelled at subtask %d: %w'' [GInt (int i)] (Some e)), w)
      | None \<Rightarrow>
          (case go_get specialists (sub_Type t) of
             None \<Rightarrow> (nil_panic, w)
           | Some a \<Rightarrow>
               (case agent_Process a ctx (sub_Message t) w of
                  (Err e, w) \<Rightarrow>
                    (Err (Errorf ''specialist '%s' failed on subtask %d: %w'' [GStr (sub_Type t), GInt (int i)] (Some e)), w)
                | (Panic p, w) \<Rightarrow> (Panic p, w)
                | (Ok r, w) \<Rightarrow>
                    run_subtasks ctxerr ctx specialists (i + 1) ts (go_set (resultKey t i) r results)
                      (executed @ [GMap [(''index'', GInt (int i)), (''type'', GStr (sub_Type t)), (''specialist'', GStr (agent_Name a))]]) w)))"

definition supervisor_Process ::
    "'w ctx_err \<Rightarrow> 'w PlannerAgent \<Rightarrow> (string \<times> 'w agent) list \<Rightarrow> go_ctx \<Rightarrow> message option \<Rightarrow> 'w \<Rightarrow> reply \<times> 'w" where
  "supervisor_Process ctxerr planner specialists ctx msg w =
     (case msg of
        None \<Rightarrow> (Err nil_message, w)
      | Some m \<Rightarrow>
          (case pl_Plan planner ctx m w of
             (Err e, w) \<Rightarrow> (Err (Errorf ''planning failed: %w'' [] (Some e)), w)
           | (Panic p, w) \<Rightarrow> (Panic p, w)
           | (Ok subtasks, w) \<Rightarrow>
               if length subtasks = 0 then pl_Process planner ctx msg w
               else
                 (case unknown_specialist specialists subtasks of
                    Some (i, t) \<Rightarrow>
                      (Err (Errorf ''subtask %d references unknown specialist type '%s' (available: %s)''
                        [GInt (int i), GStr (sub_Type t), GStr (strings_Join (map fst specialists) '', '')] None), w)
                  | None \<Rightarrow>
                      (case run_subtasks ctxerr ctx specialists 0 subtasks [] [] w of
                         (Err e, w) \<Rightarrow> (Err e, w)
                       | (Panic p, w) \<Rightarrow> (Panic p, w)
                       | (Ok (results, executed), w) \<Rightarrow>
                           (case pl_Synthesize planner ctx m results w of
                              (Err e, w) \<Rightarrow> (Err (Errorf ''synthesis failed: %w'' [] (Some e)), w)
                            | (Panic p, w) \<Rightarrow> (Panic p, w)
                            | (Ok None, w) \<Rightarrow> (nil_panic, w)
                            | (Ok (Some final), w) \<Rightarrow>
                                (Ok (Some (put_meta [(''supervisor_subtasks'', GInt (int (length subtasks))),
                                   (''supervisor_specialists'', GInt (int (length specialists))),
                                   (''execution_order'', GList executed)] final)), w))))))"

definition simple_Synthesize :: "(real \<Rightarrow> string) \<Rightarrow> 'w clock \<Rightarrow> results \<Rightarrow> 'w \<Rightarrow> reply \<times> 'w" where
  "simple_Synthesize ff clock results w =
     (if None \<in> snd ` set results then (nil_panic, w)
      else
        let nl = [CHR 0x0A]; (now, w) = clock w in
        (Ok (Some (NewMessage now ''assistant'' (''Synthesis of specialist results:'' @ nl @ nl @
           concat (map (\<lambda>(k, r). ''Result from '' @ k @ '':'' @ nl @ ContentString ff (the r) @ nl @ nl) results)))), w))"

definition SimplePlanner :: "(real \<Rightarrow> string) \<Rightarrow> 'w clock \<Rightarrow> 'w agent \<Rightarrow> 'w PlannerAgent" where
  "SimplePlanner ff clock a =
     \<lparr>pl_Process = agent_Process a, pl_Plan = (\<lambda>ctx m w. (Ok [], w)),
      pl_Synthesize = (\<lambda>ctx m results. simple_Synthesize ff clock results)\<rparr>"

section \<open>Human approval\<close>

record ApprovalRequest =
  aq_Message :: message
  aq_Confidence :: real
  aq_Context :: "(string \<times> gval) list"
  aq_Timestamp :: time

record ApprovalResponse =
  ap_Approved :: bool
  ap_Feedback :: string
  ap_ModifiedMessage :: "message option"

type_synonym 'w approval = "go_ctx \<Rightarrow> ApprovalRequest \<Rightarrow> 'w \<Rightarrow> ApprovalResponse option outcome \<times> 'w"

record 'w HumanInLoopAgent =
  hl_agent :: "'w agent"
  hl_approvalThreshold :: real
  hl_approvalFunc :: "'w approval"
  hl_confidenceKey :: string

definition NewHumanInLoopAgent :: "'w agent \<Rightarrow> real \<Rightarrow> 'w approval \<Rightarrow> string \<Rightarrow> 'w HumanInLoopAgent outcome" where
  "NewHumanInLoopAgent a approvalThreshold approvalFunc confidenceKey =
     (let threshold = (if approvalThreshold = 0 then 8 / 10 else approvalThreshold) in
      if threshold < 0 \<or> threshold > 1
      then Err (Errorf ''approval threshold must be between 0 and 1 (got %.2f)'' [GFloat threshold] None)
      else Ok \<lparr>hl_agent = a, hl_approvalThreshold = threshold, hl_approvalFunc = approvalFunc,
               hl_confidenceKey = (if confidenceKey = [] then ''confidence'' else confidenceKey)\<rparr>)"

definition extractConfidence :: "'w HumanInLoopAgent \<Rightarrow> message \<Rightarrow> real" where
  "extractConfidence h m =
     (case meta_get m (hl_confidenceKey h) of
        Some (GFloat v) \<Rightarrow> v
      | Some (GInt i) \<Rightarrow> real_of_int i
      | _ \<Rightarrow> 0)"

definition marked_response :: "'w HumanInLoopAgent \<Rightarrow> real \<Rightarrow> bool \<Rightarrow> message \<Rightarrow> message" where
  "marked_response h confidence needsApproval response =
     put_meta [(''approval_needed'', GBool needsApproval), (''confidence'', GFloat confidence),
       (''approval_threshold'', GFloat (hl_approvalThreshold h))] response"

definition rejection :: "(real \<Rightarrow> string) \<Rightarrow> time \<Rightarrow> string \<Rightarrow> real \<Rightarrow> message \<Rightarrow> message" where
  "rejection ff now feedback confidence response =
     put_meta ((if feedback \<noteq> [] then [(''rejection_reason'', GStr feedback)] else []) @
       [(''approval_status'', GStr ''rejected''), (''original_response'', GStr (ContentString ff response)),
        (''confidence'', GFloat confidence)]) (NewMessage now ''agent'' ''Action rejected by human reviewer'')"

text \<open>The decision about an approved response; the metadata of a modified message may be a nil map.\<close>

definition approved_response :: "(real \<Rightarrow> string) \<Rightarrow> ApprovalResponse \<Rightarrow> message \<Rightarrow> message outcome" where
  "approved_response ff approval response =
     (let feedback = (if ap_Feedback approval \<noteq> [] then [(''approval_feedback'', GStr (ap_Feedback approval))] else []) in
      case ap_ModifiedMessage approval of
        None \<Rightarrow> Ok (put_meta ((''approval_status'', GStr ''approved'') # feedback) response)
      | Some modified \<Rightarrow>
          if msg_metadata modified = None then Panic ''assignment to entry in nil map''
          else Ok (put_meta ([(''approval_status'', GStr ''approved_with_modifications''),
                 (''original_response'', GStr (ContentString ff response))] @ feedback) modified))"

definition hil_Process ::
    "(real \<Rightarrow> string) \<Rightarrow> 'w clock \<Rightarrow> 'w HumanInLoopAgent \<Rightarrow> go_ctx \<Rightarrow> message option \<Rightarrow> 'w \<Rightarrow> reply \<times> 'w" where
  "hil_Process ff clock h ctx msg w =
     (case msg of
        None \<Rightarrow> (Err nil_message, w)
      | Some m \<Rightarrow>
          (case agent_Process (hl_agent h) ctx msg w of
             (Err e, w) \<Rightarrow> (Err (Errorf ''agent execution failed: %w'' [] (Some e)), w)
           | (Panic p, w) \<Rightarrow> (Panic p, w)
           | (Ok None, w) \<Rightarrow> (nil_panic, w)
           | (Ok (Some response), w) \<Rightarrow>
               let confidence = extractConfidence h response;
                   needsApproval = (confidence < hl_approvalThreshold h);
                   response = marked_response h confidence needsApproval response
               in if \<not> needsApproval then (Ok (Some (put_meta [(''approval_status'', GStr ''bypassed'')] response)), w)
                  else
                    let (now, w) = clock w;
                        request = \<lparr>aq_Message = response, aq_Confidence = confidence,
                          aq_Context = [(''agent'', GStr (agent_Name (hl_agent h))),
                            (''approval_threshold'', GFloat (hl_approvalThreshold h)),
                            (''original_message'', GStr (ContentString ff m)),
                            (''confidence_shortfall'', GFloat (hl_approvalThreshold h - confidence))],
                          aq_Timestamp = now\<rparr>
                    in case hl_approvalFunc h ctx request w of
                         (Err e, w) \<Rightarrow> (Err (Errorf ''approval request failed: %w'' [] (Some e)), w)
                       | (Panic p, w) \<Rightarrow> (Panic p, w)
                       | (Ok None, w) \<Rightarrow> (nil_panic, w)
                       | (Ok (Some approval), w) \<Rightarrow>
                           if \<not> ap_Approved approval
                           then (let (now, w) = clock w in
                             (Ok (Some (rejection ff now (ap_Feedback approval) confidence response)), w))
                           else (map_outcome Some (approved_response ff approval response), w)))"

text \<open>
  The ready-made approval functions; \<open>f2\<close> prints a float with the verb \<open>%.2f\<close>.
\<close>

definition SimpleApprovalFunc :: "(real \<Rightarrow> string) \<Rightarrow> bool \<Rightarrow> 'w approval" where
  "SimpleApprovalFunc f2 autoApprove ctx request w =
     (Ok (Some \<lparr>ap_Approved = autoApprove,
        ap_Feedback = ''Auto-'' @ (if autoApprove then ''approved'' else ''rejected'') @ '' (confidence: '' @ f2 (aq_Confidence request) @ '')'',
        ap_ModifiedMessage = None\<rparr>), w)"

definition ConfidenceBasedApprovalFunc :: "(real \<Rightarrow> string) \<Rightarrow> real \<Rightarrow> real \<Rightarrow> 'w approval" where
  "ConfidenceBasedApprovalFunc f2 rejectBelow autoApproveAbove ctx request w =
     (let c = aq_Confidence request in
      if c < rejectBelow
      then (Ok (Some \<lparr>ap_Approved = False, ap_Feedback = ''Confidence too low ('' @ f2 c @ '' < '' @ f2 rejectBelow @ '')'',
              ap_ModifiedMessage = None\<rparr>), w)
      else if c \<ge> autoApproveAbove
      then (Ok (Some \<lparr>ap_Approved = True, ap_Feedback = ''Auto-approved ('' @ f2 c @ '' >= '' @ f2 autoApproveAbove @ '')'',
              ap_ModifiedMessage = None\<rparr>), w)
      else (Ok (Some \<lparr>ap_Approved = False, ap_Feedback = ''Manual approval required ('' @ f2 c @ '' in threshold range)'',
              ap_ModifiedMessage = None\<rparr>), w))"

section \<open>Constructors\<close>

text \<open>
  The pattern agents are their parts; the functions of the package \<open>composition\<close> have the same
  names without the suffix.
\<close>

definition NewSequentialAgent_p :: "'w agent list \<Rightarrow> 'w agent list outcome" where
  "NewSequentialAgent_p as = (if length as = 0 then Err (Errorf ''at least one agent is required'' [] None) else Ok as)"

definition NewParallelAgent_p :: "'w agent list \<Rightarrow> 'f option \<Rightarrow> ('w agent list \<times> 'f) outcome" where
  "NewParallelAgent_p as aggregator =
     (if length as = 0 then Err (Errorf ''at least one agent is required'' [] None)
      else case aggregator of
        None \<Rightarrow> Err (Errorf ''aggregator function is required'' [] None)
      | Some f \<Rightarrow> Ok (as, f))"

definition NewFallbackAgent_p :: "'w agent list \<Rightarrow> 'w agent list outcome" where
  "NewFallbackAgent_p as = (if length as = 0 then Err (Errorf ''at least one agent is required'' [] None) else Ok as)"

definition NewSupervisorAgent ::
    "'w PlannerAgent option \<Rightarrow> (string \<times> 'w agent) list \<Rightarrow> ('w PlannerAgent \<times> (string \<times> 'w agent) list) outcome" where
  "NewSupervisorAgent planner specialists =
     (case planner of
        None \<Rightarrow> Err (Errorf ''planner is required'' [] None)
      | Some p \<Rightarrow>
          if length specialists = 0 then Err (Errorf ''at least one specialist is required'' [] None) else Ok (p, specialists))"

section \<open>A supervisor carries out its plan\<close>

lemma resultKey_inj: "resultKey t i = resultKey t' j \<Longrightarrow> i = j"
proof -
  assume "resultKey t i = resultKey t' j"
  then have eq: "sub_Type t @ CHR ''_'' # show_digits i = sub_Type t' @ CHR ''_'' # show_digits j"
    by (simp add: resultKey_def show_int_def)
  have no: "CHR ''_'' \<notin> set (show_digits n)" for n
    by (rule show_digits_no_char) (simp add: is_digit_def less_eq_char_def)
  from last_field_unique [OF eq no no] show "i = j" by (intro show_digits_inj) simp
qed

text \<open>
  The plan from step \<open>i\<close> on was carried out: each subtask was given to the specialist of its
  type, in order, each in the world that the one before left, and these are the replies.
\<close>

fun carried_out ::
    "go_ctx \<Rightarrow> (string \<times> 'w agent) list \<Rightarrow> Subtask list \<Rightarrow> message option list \<Rightarrow> 'w \<Rightarrow> 'w \<Rightarrow> bool" where
  "carried_out ctx specialists [] rs w w' \<longleftrightarrow> rs = [] \<and> w' = w"
| "carried_out ctx specialists (t # ts) rs w w' \<longleftrightarrow>
     (\<exists>a r rs' w1. rs = r # rs' \<and> go_get specialists (sub_Type t) = Some a \<and>
        agent_Process a ctx (sub_Message t) w = (Ok r, w1) \<and> carried_out ctx specialists ts rs' w1 w')"

lemma run_subtasks_spec:
  assumes "run_subtasks ctxerr ctx specialists i ts results ex w = (Ok (results', ex'), w')"
    and "\<And>t j. i \<le> j \<Longrightarrow> resultKey t j \<notin> fst ` set results"
  shows "\<exists>rs. carried_out ctx specialists ts rs w w' \<and>
    results' = results @ map (\<lambda>(j, t, r). (resultKey t j, r)) (enumerate i (zip ts rs)) \<and> length rs = length ts"
  using assms
proof (induction ts arbitrary: i results ex w)
  case (Cons t ts)
  from Cons.prems(1) obtain a r w1 where a: "go_get specialists (sub_Type t) = Some a"
      "agent_Process a ctx (sub_Message t) w = (Ok r, w1)"
      and rec: "run_subtasks ctxerr ctx specialists (i + 1) ts (go_set (resultKey t i) r results)
        (ex @ [GMap [(''index'', GInt (int i)), (''type'', GStr (sub_Type t)), (''specialist'', GStr (agent_Name a))]]) w1 =
          (Ok (results', ex'), w')"
    by (auto split: option.splits prod.splits outcome.splits)
  have new: "go_set (resultKey t i) r results = results @ [(resultKey t i, r)]"
    by (rule go_set_new) (rule Cons.prems(2) [OF order_refl])
  have "resultKey t' j \<notin> fst ` set (go_set (resultKey t i) r results)" if "i + 1 \<le> j" for t' j
    unfolding new using Cons.prems(2) [of j t'] resultKey_inj [of t' j t i] that by auto
  from Cons.IH [OF rec this] obtain rs where "carried_out ctx specialists ts rs w1 w'"
      "results' = go_set (resultKey t i) r results @ map (\<lambda>(j, t, r). (resultKey t j, r)) (enumerate (i + 1) (zip ts rs))"
      "length rs = length ts" by blast
  then show ?case using a new by (intro exI [of _ "r # rs"]) simp
qed simp

text \<open>
  C26.
  A supervisor with a plan validates it before it acts: if a subtask names an unknown
  specialist, no specialist is called.  If the reply is a success and the plan is not empty,
  every subtask was carried out by its specialist, in order, and the planner synthesized the
  reply from exactly these results, each under its own key.
\<close>
theorem supervisor_carries_out_plan:
  assumes "pl_Plan planner ctx m w = (Ok ts, w1)" and "ts \<noteq> []"
  shows "if \<exists>t \<in> set ts. go_get specialists (sub_Type t) = None
    then \<exists>e. supervisor_Process ctxerr planner specialists ctx (Some m) w = (Err e, w1)
    else \<forall>r w'. supervisor_Process ctxerr planner specialists ctx (Some m) w = (Ok (Some r), w') \<longrightarrow>
      (\<exists>rs w2 final. carried_out ctx specialists ts rs w1 w2 \<and>
         pl_Synthesize planner ctx m (map (\<lambda>(j, t, r). (resultKey t j, r)) (enumerate 0 (zip ts rs))) w2 = (Ok (Some final), w') \<and>
         msg_content r = msg_content final \<and> distinct (map (\<lambda>(j, t, r). resultKey t j) (enumerate 0 (zip ts rs))))"
proof (cases "\<exists>t \<in> set ts. go_get specialists (sub_Type t) = None")
  case True
  then obtain i where "i < length ts" "go_get specialists (sub_Type (ts ! i)) = None" by (metis in_set_conv_nth)
  then have "(i, ts ! i) \<in> set (enumerate 0 ts)" "go_get specialists (sub_Type (snd (i, ts ! i))) = None"
    by (auto simp: in_set_enumerate_eq)
  then have "unknown_specialist specialists ts \<noteq> None" unfolding unknown_specialist_def find_None_iff by fastforce
  then show ?thesis using True assms by (auto simp: supervisor_Process_def)
next
  case False
  then have known: "unknown_specialist specialists ts = None"
    unfolding unknown_specialist_def find_None_iff by (auto simp: in_set_enumerate_eq)
  have keys: "distinct (map (\<lambda>(j, t, r). resultKey t j) (enumerate k ps))" for k and ps :: "(Subtask \<times> message option) list"
    by (auto simp: distinct_conv_nth nth_enumerate_eq split_beta dest: resultKey_inj)
  have "\<exists>rs w2 final. carried_out ctx specialists ts rs w1 w2 \<and>
         pl_Synthesize planner ctx m (map (\<lambda>(j, t, r). (resultKey t j, r)) (enumerate 0 (zip ts rs))) w2 = (Ok (Some final), w') \<and>
         msg_content r = msg_content final"
    if ok: "supervisor_Process ctxerr planner specialists ctx (Some m) w = (Ok (Some r), w')" for r w'
  proof -
    from ok assms known obtain results ex w2 final where
      run: "run_subtasks ctxerr ctx specialists 0 ts [] [] w1 = (Ok (results, ex), w2)"
      and syn: "pl_Synthesize planner ctx m results w2 = (Ok (Some final), w')" and r: "msg_content r = msg_content final"
      by (auto simp: supervisor_Process_def put_meta_def split: prod.splits outcome.splits option.splits)
    from run_subtasks_spec [OF run] obtain rs where "carried_out ctx specialists ts rs w1 w2"
        "results = map (\<lambda>(j, t, r). (resultKey t j, r)) (enumerate 0 (zip ts rs))" by auto
    with syn r show ?thesis by blast
  qed
  then show ?thesis unfolding if_not_P [OF False] using keys by blast
qed

definition one_step_planner :: "unit PlannerAgent" where
  "one_step_planner =
     \<lparr>pl_Process = (\<lambda>ctx m w. (Ok m, w)), pl_Plan = (\<lambda>ctx m w. (Ok [\<lparr>sub_Type = ''s'', sub_Message = Some m\<rparr>], w)),
      pl_Synthesize = (\<lambda>ctx m results w. (Ok (Some m), w))\<rparr>"

definition one_specialist :: "(string \<times> unit agent) list" where
  "one_specialist = [(''s'', \<lparr>agent_Name = ''s'', agent_Capabilities = [], agent_Process = (\<lambda>ctx m w. (Ok m, w))\<rparr>)]"

text \<open>The plan is refused without the specialist, and carried out with it.\<close>

theorem supervisor_carries_out_plan_witness:
  "(\<exists>e. supervisor_Process (\<lambda>ctx w. None) one_step_planner [] Background (Some (NewMessage 0 ''user'' ''hi'')) () = (Err e, ())) \<and>
   (\<exists>r rs. supervisor_Process (\<lambda>ctx w. None) one_step_planner one_specialist Background (Some (NewMessage 0 ''user'' ''hi'')) () =
      (Ok (Some r), ()) \<and>
      carried_out Background one_specialist [\<lparr>sub_Type = ''s'', sub_Message = Some (NewMessage 0 ''user'' ''hi'')\<rparr>] rs () ())"
proof -
  let ?m = "NewMessage 0 ''user'' ''hi''"
  let ?ts = "[\<lparr>sub_Type = ''s'', sub_Message = Some ?m\<rparr>]"
  have plan: "pl_Plan one_step_planner Background ?m () = (Ok ?ts, ())" "?ts \<noteq> []" by (simp_all add: one_step_planner_def)
  have "case supervisor_Process (\<lambda>ctx w. None) one_step_planner one_specialist Background (Some ?m) () of
      (Ok (Some r), _) \<Rightarrow> True | _ \<Rightarrow> False" by code_simp
  then obtain r where r: "supervisor_Process (\<lambda>ctx w. None) one_step_planner one_specialist Background (Some ?m) () = (Ok (Some r), ())"
    by (auto split: prod.splits outcome.splits option.splits)
  have known: "\<not> (\<exists>t \<in> set ?ts. go_get one_specialist (sub_Type t) = None)" by (simp add: one_specialist_def)
  note spec = supervisor_carries_out_plan [OF plan, of one_specialist "\<lambda>ctx w. None", unfolded if_not_P [OF known]]
  from spec [rule_format, OF r] obtain rs w2 where "carried_out Background one_specialist ?ts rs () w2" by blast
  then have "\<exists>rs. carried_out Background one_specialist ?ts rs () ()" by (cases w2) blast
  moreover have "\<exists>e. supervisor_Process (\<lambda>ctx w. None) one_step_planner [] Background (Some ?m) () = (Err e, ())"
    using supervisor_carries_out_plan [OF plan, of "[]" "\<lambda>ctx w. None"] by simp
  ultimately show ?thesis using r by blast
qed

section \<open>Human approval is asked for\<close>

text \<open>
  What leaves the wrapper of human approval: a response with confidence at or above the
  threshold, without asking; or, if it is below, what the reviewer decides: the fixed text of
  a rejection, the response after an approval, or the message that the reviewer put in its
  place.  The reviewer is asked exactly for the responses below the threshold.
\<close>
lemma approval_is_required:
  assumes "hil_Process ff clock h ctx (Some m) w = (Ok (Some r), w')"
  shows "\<exists>response w1. agent_Process (hl_agent h) ctx (Some m) w = (Ok (Some response), w1) \<and>
    (if hl_approvalThreshold h \<le> extractConfidence h response
     then msg_content r = msg_content response \<and> w' = w1
     else \<exists>request approval w2. hl_approvalFunc h ctx request (snd (clock w1)) = (Ok (Some approval), w2) \<and>
       msg_content (aq_Message request) = msg_content response \<and> aq_Confidence request = extractConfidence h response \<and>
       msg_content r =
         (if \<not> ap_Approved approval then GStr ''Action rejected by human reviewer''
          else case ap_ModifiedMessage approval of None \<Rightarrow> msg_content response | Some m' \<Rightarrow> msg_content m'))"
proof -
  from assms obtain response w1 where a: "agent_Process (hl_agent h) ctx (Some m) w = (Ok (Some response), w1)"
    by (auto simp: hil_Process_def split: prod.splits outcome.splits option.splits)
  have marked: "msg_content (marked_response h c b x) = msg_content x" for c b x
    by (simp add: marked_response_def put_meta_def)
  have rej: "msg_content (rejection ff n f c x) = GStr ''Action rejected by human reviewer''" for n f c x
    by (simp add: rejection_def put_meta_def NewMessage_def)
  show ?thesis
  proof (cases "hl_approvalThreshold h \<le> extractConfidence h response")
    case True
    then show ?thesis using assms a by (auto simp: hil_Process_def put_meta_def marked_response_def)
  next
    case False
    define response' where "response' = marked_response h (extractConfidence h response) True response"
    obtain now wc where c: "clock w1 = (now, wc)" by (metis prod.exhaust)
    define request where "request = \<lparr>aq_Message = response', aq_Confidence = extractConfidence h response,
      aq_Context = [(''agent'', GStr (agent_Name (hl_agent h))), (''approval_threshold'', GFloat (hl_approvalThreshold h)),
        (''original_message'', GStr (ContentString ff m)),
        (''confidence_shortfall'', GFloat (hl_approvalThreshold h - extractConfidence h response))], aq_Timestamp = now\<rparr>"
    obtain ra w2 where f: "hl_approvalFunc h ctx request wc = (ra, w2)" by (metis prod.exhaust)
    have P: "hil_Process ff clock h ctx (Some m) w =
      (case ra of
         Err e \<Rightarrow> (Err (Errorf ''approval request failed: %w'' [] (Some e)), w2)
       | Panic p \<Rightarrow> (Panic p, w2)
       | Ok None \<Rightarrow> (nil_panic, w2)
       | Ok (Some approval) \<Rightarrow>
           if \<not> ap_Approved approval
           then (let (now, w) = clock w2 in (Ok (Some (rejection ff now (ap_Feedback approval) (extractConfidence h response) response')), w))
           else (map_outcome Some (approved_response ff approval response'), w2))"
      using False a c f unfolding request_def response'_def by (simp add: hil_Process_def Let_def split: outcome.splits option.splits)
    from assms P obtain approval where ap: "ra = Ok (Some approval)" by (auto split: outcome.splits option.splits)
    have "msg_content r = (if \<not> ap_Approved approval then GStr ''Action rejected by human reviewer''
        else case ap_ModifiedMessage approval of None \<Rightarrow> msg_content response | Some m' \<Rightarrow> msg_content m')"
    proof (cases "ap_Approved approval")
      case True
      then have "map_outcome Some (approved_response ff approval response') = Ok (Some r)" using assms P ap by simp
      then show ?thesis
        using True by (auto simp: approved_response_def Let_def put_meta_def response'_def marked split: option.splits if_splits)
    next
      case reject: False
      then have "(let (now, w) = clock w2 in (Ok (Some (rejection ff now (ap_Feedback approval) (extractConfidence h response) response')), w))
          = (Ok (Some r), w')" using assms P ap by simp
      then show ?thesis using reject rej by (auto split: prod.splits)
    qed
    moreover have "msg_content (aq_Message request) = msg_content response" "aq_Confidence request = extractConfidence h response"
      by (simp_all add: request_def response'_def marked)
    ultimately show ?thesis using a f c ap False by auto
  qed
qed

definition sure_agent :: "real \<Rightarrow> unit agent" where
  "sure_agent c =
     \<lparr>agent_Name = ''a'', agent_Capabilities = [],
      agent_Process = (\<lambda>ctx m w. (Ok (Some (put_meta [(''confidence'', GFloat c)] (NewMessage 0 ''assistant'' ''done''))), w))\<rparr>"

definition reviewed_by :: "ApprovalResponse \<Rightarrow> unit HumanInLoopAgent" where
  "reviewed_by approval =
     \<lparr>hl_agent = sure_agent (1 / 2), hl_approvalThreshold = 8 / 10, hl_approvalFunc = (\<lambda>ctx rq w. (Ok (Some approval), w)),
      hl_confidenceKey = ''confidence''\<rparr>"

text \<open>
  A reviewer who approves with a modified message made without metadata, as a message literal
  is, makes the wrapper panic: it assigns to the nil map.
\<close>
lemma modified_message_panics:
  "fst (hil_Process (\<lambda>r. []) (\<lambda>w. (0, w))
     (reviewed_by \<lparr>ap_Approved = True, ap_Feedback = [],
        ap_ModifiedMessage = Some \<lparr>msg_role = ''assistant'', msg_content = GStr ''better'', msg_metadata = None, msg_timestamp = 0\<rparr>\<rparr>)
     Background (Some (NewMessage 0 ''user'' ''go'')) ()) = Panic ''assignment to entry in nil map''"
  by (simp add: hil_Process_def reviewed_by_def sure_agent_def put_meta_def extractConfidence_def meta_get_def NewMessage_def
      approved_response_def Let_def)

section \<open>Choosing the best\<close>

text \<open>The loops that keep the best entry of a map with its number.\<close>

lemma fold_best_entry:
  fixes f :: "'a \<Rightarrow> 'n::linorder"
  assumes "fold (\<lambda>x (b, n). if f x > n then (g x, f x) else (b, n)) xs (b0, n0) = (b, n)"
  shows "n0 \<le> n \<and> (\<forall>x \<in> set xs. f x \<le> n) \<and> ((b, n) = (b0, n0) \<or> (\<exists>x \<in> set xs. b = g x \<and> n = f x \<and> n0 < f x))"
  using assms
proof (induction xs arbitrary: b0 n0)
  case (Cons x xs)
  show ?case
  proof (cases "f x > n0")
    case True
    then show ?thesis using Cons.IH [of "g x" "f x"] Cons.prems by (auto intro: less_le_trans less_imp_le order_trans)
  next
    case False
    then show ?thesis using Cons.IH [of b0 n0] Cons.prems by (auto intro: order_trans)
  qed
qed simp

lemma count_votes_get:
  "go_get (count_votes xs) x = (if x \<in> set xs then Some (int (count_list xs x)) else None)"
proof (induction xs rule: rev_induct)
  case (snoc y ys)
  have "count_votes (ys @ [y]) = go_incr y (count_votes ys)" by (simp add: count_votes_def)
  then show ?case using snoc by (auto simp: go_incr_def)
qed (simp add: count_votes_def)

lemma count_votes_ok: "go_map_ok (count_votes xs)"
proof (induction xs rule: rev_induct)
  case (snoc y ys)
  have "count_votes (ys @ [y]) = go_incr y (count_votes ys)" by (simp add: count_votes_def)
  then show ?case using snoc by (simp add: go_incr_def)
qed (simp add: count_votes_def go_map_ok_def)

lemma vote_winner_majority:
  assumes "contents \<noteq> []" and "vote_winner (count_votes contents) = (winner, n)"
  shows "winner \<in> set contents \<and> n = int (count_list contents winner) \<and> (\<forall>c. int (count_list contents c) \<le> n)"
proof -
  have "fold (\<lambda>x (b, n). if snd x > n then (fst x, snd x) else (b, n)) (count_votes contents) ([], 0) = (winner, n)"
    using assms(2) by (simp add: vote_winner_def split_def)
  note best = fold_best_entry [OF this]
  have entry: "int (count_list contents c) \<le> n" if "c \<in> set contents" for c
  proof -
    have "(c, int (count_list contents c)) \<in> set (count_votes contents)"
      by (rule go_get_Some_mem) (simp add: count_votes_get that)
    then show ?thesis using best by force
  qed
  have all: "int (count_list contents c) \<le> n" for c
    using entry [of c] best by (cases "c \<in> set contents") (auto simp: count_list_0_iff)
  obtain c where "c \<in> set contents" using assms(1) by (cases contents) auto
  then have "0 < count_list contents c" by (metis count_list_0_iff gr0I)
  then have "0 < n" using all [of c] by linarith
  then obtain x where x: "x \<in> set (count_votes contents)" "winner = fst x" "n = snd x" using best by auto
  then have "go_get (count_votes contents) winner = Some n" using go_map_mem_get [OF count_votes_ok, of winner n contents] by simp
  then show ?thesis using all by (auto simp: count_votes_get split: if_splits)
qed

lemma last_by_content:
  "go_get (fold (\<lambda>m. go_set (f (the m)) (the m)) ms []) c = Some m \<Longrightarrow> m \<in> the ` set ms \<and> f m = c"
  by (induction ms rule: rev_induct) (auto split: if_splits)

lemma by_content_present:
  "m \<in> set ms \<Longrightarrow> go_get (fold (\<lambda>m. go_set (f (the m)) (the m)) ms acc) (f (the m)) \<noteq> None"
  by (induction ms rule: rev_induct) auto

text \<open>
  The vote of an ensemble is won by a reply that no other content outnumbers, whatever the
  iteration order of the map of votes: the result is one of the messages of the agents, it keeps
  its content and role, its metadata record the number of agents that gave this content and the
  number of agents, and every content was given at most that often.
\<close>
lemma majority_vote_wins:
  assumes "ms \<noteq> []" and "None \<notin> set ms" and "\<forall>m \<in> set ms. msg_metadata (the m) \<noteq> None"
  shows "\<exists>m r. agg_MajorityVote ff now ms = Ok (Some r) \<and> Some m \<in> set ms \<and>
    r = put_meta [(''votes'', GInt (int (count_list (map (ContentString ff \<circ> the) ms) (ContentString ff m)))),
                  (''total_agents'', GInt (int (length ms)))] m \<and>
    (\<forall>c. count_list (map (ContentString ff \<circ> the) ms) c \<le> count_list (map (ContentString ff \<circ> the) ms) (ContentString ff m))"
proof -
  let ?cs = "map (ContentString ff \<circ> the) ms"
  let ?byContent = "fold (\<lambda>m. go_set (ContentString ff (the m)) (the m)) ms []"
  obtain winner n where v: "vote_winner (count_votes ?cs) = (winner, n)" by (metis prod.exhaust)
  have won: "winner \<in> set ?cs" "n = int (count_list ?cs winner)" "\<forall>c. int (count_list ?cs c) \<le> n"
    using vote_winner_majority [OF _ v] assms(1) by auto
  then obtain m where m: "go_get ?byContent winner = Some m" using by_content_present [of _ ms "ContentString ff" "[]"] by fastforce
  then have in_ms: "m \<in> the ` set ms" and c: "ContentString ff m = winner" using last_by_content by metis+
  then have mem: "Some m \<in> set ms" using assms(2) by (metis imageE option.collapse)
  then obtain md where md: "msg_metadata m = Some md" using assms(3) by force
  have "agg_MajorityVote ff now ms = Ok (Some (put_meta [(''votes'', GInt n), (''total_agents'', GInt (int (length ms)))] m))"
    using assms(1,2) v m md by (simp add: agg_MajorityVote_def Let_def WithMetadata_def put_meta_def)
  then show ?thesis using mem c won by auto
qed

definition reply_of :: "string \<Rightarrow> message option" where
  "reply_of content = Some (NewMessage 0 ''assistant'' content)"

text \<open>
  The keyword classifier is exact: it answers a category with the largest number of keywords in
  the message, at least one, and fails when the message holds no keyword of any category;
  categories are assumed to have names.
\<close>
lemma keyword_classifier_exact:
  assumes "[] \<notin> fst ` set keywords"
  shows "case SimpleClassify ff lower keywords (Some m) of
      Ok category \<Rightarrow> \<exists>ks. (category, ks) \<in> set keywords \<and> 0 < keyword_matches lower (lower (ContentString ff m)) ks \<and>
        (\<forall>(c, ks') \<in> set keywords. keyword_matches lower (lower (ContentString ff m)) ks' \<le> keyword_matches lower (lower (ContentString ff m)) ks)
    | Err e \<Rightarrow> (\<forall>(c, ks) \<in> set keywords. \<forall>k \<in> set ks. \<not> strings_Contains (lower (ContentString ff m)) (lower k))
    | Panic p \<Rightarrow> False"
proof -
  let ?c = "lower (ContentString ff m)"
  obtain b n where best: "best_category lower ?c keywords = (b, n)" by (metis prod.exhaust)
  then have "fold (\<lambda>x (b, n). if keyword_matches lower ?c (snd x) > n then (fst x, keyword_matches lower ?c (snd x)) else (b, n)) keywords ([], 0) = (b, n)"
    by (simp add: best_category_def split_def)
  note chosen = fold_best_entry [OF this]
  show ?thesis
  proof (cases "b = []")
    case True
    then have "n = 0" using chosen assms by force
    then have "keyword_matches lower ?c ks = 0" if "(c, ks) \<in> set keywords" for c ks using chosen that by force
    then have "\<forall>(c, ks) \<in> set keywords. \<forall>k \<in> set ks. \<not> strings_Contains ?c (lower k)"
      unfolding keyword_matches_def by (fastforce simp: filter_empty_conv)
    then show ?thesis using True best by (simp add: SimpleClassify_def)
  next
    case False
    then obtain x where "x \<in> set keywords" "b = fst x" "n = keyword_matches lower ?c (snd x)" "0 < n" using chosen by force
    then have "(b, snd x) \<in> set keywords \<and> 0 < keyword_matches lower ?c (snd x) \<and>
        (\<forall>(c, ks') \<in> set keywords. keyword_matches lower ?c ks' \<le> keyword_matches lower ?c (snd x))"
      using chosen by auto
    then show ?thesis using False best by (auto simp: SimpleClassify_def)
  qed
qed

section \<open>The patterns of orchestration.go\<close>

text \<open>
  A hook sees the agent and the message and changes the world; no hook is \<open>None\<close>.  The handlers
  and agents of the source are values here.
\<close>

type_synonym 'w hook = "('w agent \<Rightarrow> message option \<Rightarrow> 'w \<Rightarrow> 'w) option"

definition run_hook :: "'w hook \<Rightarrow> 'w agent \<Rightarrow> message option \<Rightarrow> 'w \<Rightarrow> 'w" where
  "run_hook hook a m w = (case hook of None \<Rightarrow> w | Some f \<Rightarrow> f a m w)"

record 'w SequentialPattern =
  sp_agents :: "'w agent list"
  sp_name :: string
  sp_beforeAgent :: "'w hook"
  sp_afterAgent :: "'w hook"

record 'w PatternConfig =
  pc_Name :: string
  pc_BeforeAgent :: "'w hook"
  pc_AfterAgent :: "'w hook"

definition NewSequentialPattern :: "'w agent list \<Rightarrow> 'w PatternConfig option \<Rightarrow> 'w SequentialPattern outcome" where
  "NewSequentialPattern as config =
     (if length as = 0 then Err (Errorf ''sequential pattern requires at least one agent'' [] None)
      else Ok (case config of
        None \<Rightarrow> \<lparr>sp_agents = as, sp_name = ''sequential'', sp_beforeAgent = None, sp_afterAgent = None\<rparr>
      | Some c \<Rightarrow> \<lparr>sp_agents = as, sp_name = (if pc_Name c \<noteq> [] then pc_Name c else ''sequential''),
                  sp_beforeAgent = pc_BeforeAgent c, sp_afterAgent = pc_AfterAgent c\<rparr>))"

fun sp_loop :: "'w hook \<Rightarrow> 'w hook \<Rightarrow> go_ctx \<Rightarrow> 'w agent list \<Rightarrow> message option \<Rightarrow> 'w \<Rightarrow> reply \<times> 'w" where
  "sp_loop before after ctx [] current w = (Ok current, w)"
| "sp_loop before after ctx (a # as) current w =
     (case agent_Process a ctx current (run_hook before a current w) of
        (Err e, w) \<Rightarrow> (Err e, w)
      | (Panic p, w) \<Rightarrow> (Panic p, w)
      | (Ok r, w) \<Rightarrow> sp_loop before after ctx as r (run_hook after a r w))"

definition sp_Process :: "'w SequentialPattern \<Rightarrow> go_ctx \<Rightarrow> message option \<Rightarrow> 'w \<Rightarrow> reply \<times> 'w" where
  "sp_Process s ctx msg w = sp_loop (sp_beforeAgent s) (sp_afterAgent s) ctx (sp_agents s) msg w"

definition caps_of :: "'w agent list \<Rightarrow> string list" where
  "caps_of as = remdups (concat (map agent_Capabilities as))"

definition sp_agent :: "'w SequentialPattern \<Rightarrow> 'w agent" where
  "sp_agent s = \<lparr>agent_Name = sp_name s, agent_Capabilities = caps_of (sp_agents s), agent_Process = sp_Process s\<rparr>"

record 'w ParallelPattern =
  pp_agents :: "'w agent list"
  pp_aggregator :: "message option list \<Rightarrow> message option"
  pp_name :: string
  pp_beforeAgent :: "'w hook"
  pp_afterAgent :: "'w hook"

definition NewParallelPattern ::
    "'w agent list \<Rightarrow> (message option list \<Rightarrow> message option) option \<Rightarrow> 'w PatternConfig option \<Rightarrow> 'w ParallelPattern outcome" where
  "NewParallelPattern as aggregator config =
     (if length as = 0 then Err (Errorf ''parallel pattern requires at least one agent'' [] None)
      else case aggregator of
        None \<Rightarrow> Err (Errorf ''parallel pattern requires an aggregator function'' [] None)
      | Some agg \<Rightarrow> Ok (case config of
          None \<Rightarrow> \<lparr>pp_agents = as, pp_aggregator = agg, pp_name = ''parallel'', pp_beforeAgent = None, pp_afterAgent = None\<rparr>
        | Some c \<Rightarrow> \<lparr>pp_agents = as, pp_aggregator = agg, pp_name = (if pc_Name c \<noteq> [] then pc_Name c else ''parallel''),
                    pp_beforeAgent = pc_BeforeAgent c, pp_afterAgent = pc_AfterAgent c\<rparr>))"

text \<open>One goroutine fills its slot of the results or of the errors; they run in some order of the indices.\<close>

definition pp_run ::
    "'w ParallelPattern \<Rightarrow> go_ctx \<Rightarrow> message option \<Rightarrow> nat \<Rightarrow> message option list \<times> go_error option list \<Rightarrow> 'w \<Rightarrow>
     (message option list \<times> go_error option list) outcome \<times> 'w" where
  "pp_run p ctx msg i slots w =
     (case agent_Process (pp_agents p ! i) ctx msg (run_hook (pp_beforeAgent p) (pp_agents p ! i) msg w) of
        (Err e, w) \<Rightarrow> (Ok (fst slots, (snd slots)[i := Some e]), w)
      | (Panic q, w) \<Rightarrow> (Panic q, w)
      | (Ok r, w) \<Rightarrow> (Ok ((fst slots)[i := r], snd slots), run_hook (pp_afterAgent p) (pp_agents p ! i) r w))"

fun pp_loop ::
    "'w ParallelPattern \<Rightarrow> go_ctx \<Rightarrow> message option \<Rightarrow> nat list \<Rightarrow> message option list \<times> go_error option list \<Rightarrow> 'w \<Rightarrow>
     (message option list \<times> go_error option list) outcome \<times> 'w" where
  "pp_loop p ctx msg [] slots w = (Ok slots, w)"
| "pp_loop p ctx msg (i # is) slots w =
     (case pp_run p ctx msg i slots w of
        (Ok slots, w) \<Rightarrow> pp_loop p ctx msg is slots w
      | (Err e, w) \<Rightarrow> (Err e, w)
      | (Panic q, w) \<Rightarrow> (Panic q, w))"

definition first_error :: "go_error option list \<Rightarrow> (nat \<times> go_error) option" where
  "first_error errors = map_option (\<lambda>(i, e). (i, the e)) (find (\<lambda>(i, e). e \<noteq> None) (enumerate 0 errors))"

definition pp_Process :: "'w ParallelPattern \<Rightarrow> ('w \<Rightarrow> nat list) \<Rightarrow> go_ctx \<Rightarrow> message option \<Rightarrow> 'w \<Rightarrow> reply \<times> 'w" where
  "pp_Process p order ctx msg w =
     (let n = length (pp_agents p) in
      case pp_loop p ctx msg (order w) (replicate n None, replicate n None) w of
        (Ok (results, errors), w) \<Rightarrow>
          (case first_error errors of
             Some (i, e) \<Rightarrow> (Err (Errorf ''agent %d failed: %w'' [GInt (int i)] (Some e)), w)
           | None \<Rightarrow> (Ok (pp_aggregator p results), w))
      | (Err e, w) \<Rightarrow> (Err e, w)
      | (Panic q, w) \<Rightarrow> (Panic q, w))"

record 'w RouterPattern =
  rp_router :: "message option \<Rightarrow> string"
  rp_handlers :: "(string \<times> 'w agent) list"
  rp_defaultHandler :: "'w agent option"
  rp_name :: string

definition NewRouterPattern ::
    "(message option \<Rightarrow> string) option \<Rightarrow> (string \<times> 'w agent) list \<Rightarrow> (string \<times> 'w agent option) option \<Rightarrow> 'w RouterPattern outcome" where
  "NewRouterPattern router handlers config =
     (case router of
        None \<Rightarrow> Err (Errorf ''router pattern requires a router function'' [] None)
      | Some r \<Rightarrow>
          if length handlers = 0 then Err (Errorf ''router pattern requires at least one handler'' [] None)
          else Ok (case config of
            None \<Rightarrow> \<lparr>rp_router = r, rp_handlers = handlers, rp_defaultHandler = None, rp_name = ''router''\<rparr>
          | Some (name, d) \<Rightarrow>
              \<lparr>rp_router = r, rp_handlers = handlers, rp_defaultHandler = d, rp_name = (if name \<noteq> [] then name else ''router'')\<rparr>))"

definition rp_Process :: "'w RouterPattern \<Rightarrow> go_ctx \<Rightarrow> message option \<Rightarrow> 'w \<Rightarrow> reply \<times> 'w" where
  "rp_Process r ctx msg w =
     (let key = rp_router r msg in
      case go_get (rp_handlers r) key of
        Some handler \<Rightarrow> agent_Process handler ctx msg w
      | None \<Rightarrow>
          (case rp_defaultHandler r of
             Some d \<Rightarrow> agent_Process d ctx msg w
           | None \<Rightarrow> (Err (Errorf ''router returned unknown key '%s' and no default handler is configured'' [GStr key] None), w)))"

definition rp_Capabilities :: "'w RouterPattern \<Rightarrow> string list" where
  "rp_Capabilities r =
     remdups (concat (map (agent_Capabilities \<circ> snd) (rp_handlers r)) @
       (case rp_defaultHandler r of None \<Rightarrow> [] | Some d \<Rightarrow> agent_Capabilities d))"

lemma sp_loop_append:
  "sp_loop before after ctx (as @ bs) m w =
     (case sp_loop before after ctx as m w of
        (Ok r, w) \<Rightarrow> sp_loop before after ctx bs r w
      | (Err e, w) \<Rightarrow> (Err e, w)
      | (Panic p, w) \<Rightarrow> (Panic p, w))"
  by (induction as arbitrary: m w) (auto split: prod.splits outcome.splits)

definition sequence_of :: "string \<Rightarrow> 'w hook \<Rightarrow> 'w hook \<Rightarrow> 'w agent list \<Rightarrow> 'w SequentialPattern" where
  "sequence_of name before after as = \<lparr>sp_agents = as, sp_name = name, sp_beforeAgent = before, sp_afterAgent = after\<rparr>"

text \<open>
  Sequential patterns compose: a sequence of sequences of agents behaves as the one sequence of
  all their agents, hooks of the inner patterns included; messages, errors, panics and effects
  are the same.
\<close>
lemma sequential_pattern_flattens:
  "sp_Process (sequence_of n None None (map (\<lambda>g. sp_agent (sequence_of n' before after g)) gs)) =
   sp_Process (sequence_of n before after (concat gs))"
proof (intro ext)
  fix ctx msg w
  show "sp_Process (sequence_of n None None (map (\<lambda>g. sp_agent (sequence_of n' before after g)) gs)) ctx msg w =
      sp_Process (sequence_of n before after (concat gs)) ctx msg w"
    unfolding sp_Process_def sequence_of_def
    by (induction gs arbitrary: msg w)
      (simp_all add: sp_loop_append sp_agent_def sp_Process_def run_hook_def split: prod.splits outcome.splits)
qed

text \<open>The replies of agents that answer whatever the state of the world is.\<close>

definition world_independent :: "go_ctx \<Rightarrow> message option \<Rightarrow> ('w agent \<Rightarrow> reply) \<Rightarrow> 'w agent \<Rightarrow> bool" where
  "world_independent ctx msg answer a \<longleftrightarrow>
     (\<forall>w. fst (agent_Process a ctx msg w) = answer a) \<and> (\<forall>p. answer a \<noteq> Panic p)"

definition reply_value :: "reply \<Rightarrow> message option" where
  "reply_value r = (case r of Ok m \<Rightarrow> m | _ \<Rightarrow> None)"

definition reply_error :: "reply \<Rightarrow> go_error option" where
  "reply_error r = (case r of Err e \<Rightarrow> Some e | _ \<Rightarrow> None)"

lemma pp_run_slots:
  assumes "world_independent ctx msg answer (pp_agents p ! i)" and "results ! i = None" and "errors ! i = None"
  shows "\<exists>w'. pp_run p ctx msg i (results, errors) w =
    (Ok (results[i := reply_value (answer (pp_agents p ! i))], errors[i := reply_error (answer (pp_agents p ! i))]), w')"
proof -
  let ?a = "pp_agents p ! i"
  have same: "results[i := None] = results" "errors[i := None] = errors" using assms(2,3) by (metis list_update_id)+
  obtain r w' where "agent_Process ?a ctx msg (run_hook (pp_beforeAgent p) ?a msg w) = (r, w')" by (metis prod.exhaust)
  moreover from this have "r = answer ?a" using assms(1) by (metis fst_conv world_independent_def)
  ultimately show ?thesis
    using assms(1) same by (cases "answer ?a") (auto simp: pp_run_def reply_value_def reply_error_def world_independent_def)
qed

lemma pp_loop_slots:
  assumes "\<forall>i \<in> set is. i < n \<and> world_independent ctx msg answer (pp_agents p ! i)"
    and "distinct is" and "length results = n" and "length errors = n"
    and "\<forall>i \<in> set is. results ! i = None \<and> errors ! i = None"
  shows "\<exists>results' errors' w'. pp_loop p ctx msg is (results, errors) w = (Ok (results', errors'), w') \<and>
    length results' = n \<and> length errors' = n \<and>
    (\<forall>i < n. results' ! i = (if i \<in> set is then reply_value (answer (pp_agents p ! i)) else results ! i) \<and>
       errors' ! i = (if i \<in> set is then reply_error (answer (pp_agents p ! i)) else errors ! i))"
  using assms
proof (induction "is" arbitrary: results errors w)
  case (Cons i js)
  let ?r = "answer (pp_agents p ! i)"
  let ?rs = "results[i := reply_value ?r]" and ?es = "errors[i := reply_error ?r]"
  have i: "i < n" "i \<notin> set js" "world_independent ctx msg answer (pp_agents p ! i)" "results ! i = None" "errors ! i = None"
    using Cons.prems by auto
  obtain w1 where w1: "pp_run p ctx msg i (results, errors) w = (Ok (?rs, ?es), w1)"
    using pp_run_slots [OF i(3-5)] by blast
  have later: "\<forall>j \<in> set js. ?rs ! j = None \<and> ?es ! j = None" using Cons.prems i by (auto simp: nth_list_update)
  have len: "length ?rs = n" "length ?es = n" using Cons.prems by auto
  have js: "\<forall>i \<in> set js. i < n \<and> world_independent ctx msg answer (pp_agents p ! i)" "distinct js" using Cons.prems by auto
  from Cons.IH [OF js len later, of w1] obtain rs es w2
    where rest: "pp_loop p ctx msg js (?rs, ?es) w1 = (Ok (rs, es), w2)" "length rs = n" "length es = n"
      and slots: "\<forall>j < n. rs ! j = (if j \<in> set js then reply_value (answer (pp_agents p ! j)) else ?rs ! j) \<and>
        es ! j = (if j \<in> set js then reply_error (answer (pp_agents p ! j)) else ?es ! j)" by blast
  have "pp_loop p ctx msg (i # js) (results, errors) w = (Ok (rs, es), w2)" using w1 rest(1) by simp
  moreover have "rs ! j = (if j \<in> set (i # js) then reply_value (answer (pp_agents p ! j)) else results ! j) \<and>
      es ! j = (if j \<in> set (i # js) then reply_error (answer (pp_agents p ! j)) else errors ! j)" if "j < n" for j
  proof (cases "j = i")
    case True
    then show ?thesis using slots that i(2) Cons.prems(3,4) by simp
  next
    case False
    then show ?thesis using slots that by simp
  qed
  ultimately show ?case using rest(2,3) by blast
qed simp

lemma pp_loop_all:
  assumes "mset is = mset [0..<length (pp_agents p)]" and "\<forall>a \<in> set (pp_agents p). world_independent ctx msg answer a"
  shows "\<exists>w'. pp_loop p ctx msg is (replicate (length (pp_agents p)) None, replicate (length (pp_agents p)) None) w =
    (Ok (map (reply_value \<circ> answer) (pp_agents p), map (reply_error \<circ> answer) (pp_agents p)), w')"
proof -
  let ?n = "length (pp_agents p)"
  have set: "set is = {..<?n}" using assms(1) by (metis atLeast_upt set_mset_mset)
  have dist: "distinct is" using assms(1) by (metis distinct_upt mset_eq_imp_distinct_iff)
  have ok: "\<forall>i \<in> set is. i < ?n \<and> world_independent ctx msg answer (pp_agents p ! i)" using set assms(2) by auto
  have empty: "\<forall>i \<in> set is. (replicate ?n None :: message option list) ! i = None \<and> (replicate ?n None :: go_error option list) ! i = None"
    using set by auto
  obtain rs es w' where "pp_loop p ctx msg is (replicate ?n None, replicate ?n None) w = (Ok (rs, es), w')"
      and "length rs = ?n" "length es = ?n"
      and "\<forall>i < ?n. rs ! i = reply_value (answer (pp_agents p ! i)) \<and> es ! i = reply_error (answer (pp_agents p ! i))"
    using pp_loop_slots [OF ok dist _ _ empty, of w] set by auto
  moreover from this have "rs = map (reply_value \<circ> answer) (pp_agents p)" "es = map (reply_error \<circ> answer) (pp_agents p)"
    by (auto intro: nth_equalityI)
  ultimately show ?thesis by auto
qed

text \<open>
  The parallel pattern is deterministic although its goroutines run in any order: with agents
  whose answers do not depend on the shared world, every order gives the aggregate of all the
  answers in the order of the agents when all succeed, and otherwise the error of the failing
  agent that comes first in the list, with its index.
\<close>
lemma parallel_pattern_deterministic:
  assumes "mset (order w) = mset [0..<length (pp_agents p)]" and "\<forall>a \<in> set (pp_agents p). world_independent ctx msg answer a"
  shows "fst (pp_Process p order ctx msg w) =
    (case first_error (map (reply_error \<circ> answer) (pp_agents p)) of
       Some (i, e) \<Rightarrow> Err (Errorf ''agent %d failed: %w'' [GInt (int i)] (Some e))
     | None \<Rightarrow> Ok (pp_aggregator p (map (reply_value \<circ> answer) (pp_agents p))))"
proof -
  obtain w' where "pp_loop p ctx msg (order w) (replicate (length (pp_agents p)) None, replicate (length (pp_agents p)) None) w =
    (Ok (map (reply_value \<circ> answer) (pp_agents p), map (reply_error \<circ> answer) (pp_agents p)), w')"
    using pp_loop_all [OF assms] by blast
  then show ?thesis by (simp add: pp_Process_def split: option.splits)
qed

definition answering :: "string \<Rightarrow> reply \<Rightarrow> nat agent" where
  "answering name r = \<lparr>agent_Name = name, agent_Capabilities = [], agent_Process = (\<lambda>ctx m w. (r, w + 1))\<rparr>"

definition three_in_parallel :: "nat ParallelPattern" where
  "three_in_parallel =
     \<lparr>pp_agents = [answering ''a'' (Ok None), answering ''b'' (Err (Errors_New ''x'')), answering ''c'' (Err (Errors_New ''y''))],
      pp_aggregator = (\<lambda>rs. None), pp_name = ''parallel'', pp_beforeAgent = None, pp_afterAgent = None\<rparr>"

end
