(* ===== verification/Text_Lines.thy ===== *)
theory Text_Lines
  imports Go_Prelude
begin

text \<open>
  The functions of the package \<open>strings\<close> with which agents read the replies of language models:
  splitting into lines and prefixes.  Trimming of white space, which depends on the Unicode
  tables, is a parameter \<open>trim\<close> of the definitions that use it.
\<close>

abbreviation newline :: string where
  "newline \<equiv> [CHR 0x0A]"

text \<open>\<open>strings.Split\<close> with a separator of one byte: there is always one field.\<close>

fun split_char :: "char \<Rightarrow> string \<Rightarrow> string list" where
  "split_char c [] = [[]]"
| "split_char c (x # xs) =
     (if x = c then [] # split_char c xs
      else case split_char c xs of [] \<Rightarrow> [[x]] | l # ls \<Rightarrow> (x # l) # ls)"

definition HasPrefix :: "string \<Rightarrow> string \<Rightarrow> bool" where
  "HasPrefix s p \<longleftrightarrow> take (length p) s = p"

definition TrimPrefix :: "string \<Rightarrow> string \<Rightarrow> string" where
  "TrimPrefix s p = (if HasPrefix s p then drop (length p) s else s)"

lemma split_char_nonempty [simp]: "split_char c s \<noteq> []"
  by (induction s) (auto split: list.splits)

lemma split_char_no_sep: "l \<in> set (split_char c s) \<Longrightarrow> c \<notin> set l"
  by (induction s arbitrary: l) (auto split: list.splits if_splits)

lemma split_char_append_sep: "split_char c (s @ c # t) = split_char c s @ split_char c t"
  by (induction s) (auto split: list.splits)

lemma split_char_id: "c \<notin> set s \<Longrightarrow> split_char c s = [s]"
  by (induction s) auto

text \<open>Splitting undoes joining lines that have no line break in them.\<close>

lemma split_join:
  "ls \<noteq> [] \<Longrightarrow> \<forall>l \<in> set ls. c \<notin> set l \<Longrightarrow> split_char c (strings_Join ls [c]) = ls"
proof (induction ls "[c]" rule: strings_Join.induct)
  case (3 x y xs)
  then show ?case by (simp add: split_char_append_sep split_char_id)
qed (auto simp: split_char_id)

lemma HasPrefix_append [simp]: "HasPrefix (p @ s) p"
  by (simp add: HasPrefix_def)

lemma TrimPrefix_append [simp]: "TrimPrefix (p @ s) p = s"
  by (simp add: TrimPrefix_def)

text \<open>Parts of a text and of joined texts.\<close>

lemma contains_append: "strings_Contains t s \<Longrightarrow> strings_Contains (xs @ t @ ys) s"
  by (auto simp: strings_Contains_def sublist_def) (metis append.assoc)

lemma contains_Join: "x \<in> set xs \<Longrightarrow> strings_Contains (strings_Join xs sep) x"
proof (induction xs)
  case (Cons y ys)
  show ?case
  proof (cases ys)
    case Nil
    then show ?thesis using Cons.prems by (simp add: strings_Contains_def)
  next
    case (Cons z zs)
    then have j: "strings_Join (y # ys) sep = y @ sep @ strings_Join ys sep" by simp
    show ?thesis
    proof (cases "x = y")
      case True
      then show ?thesis using j contains_append [of x x "[]" "sep @ strings_Join ys sep"]
        by (simp add: strings_Contains_def)
    next
      case False
      then have "strings_Contains (strings_Join ys sep) x" using Cons.IH Cons.prems by simp
      then show ?thesis using j contains_append [of "strings_Join ys sep" x "y @ sep" "[]"] by simp
    qed
  qed
qed simp

end
