(* ===== verification/Task_Patterns.thy ===== *)
theory Task_Patterns
  imports Retry
begin

text \<open>
  The agent patterns that keep state: the one-shot task (\<open>patterns/task.go\<close>), the conversation
  with its history (\<open>patterns/conversational.go\<close>) and the autonomous agent that works on goals
  (\<open>patterns/autonomous.go\<close>).

  As in theory \<open>Retry\<close>, the agent and the waits of a task are observed through logs.  The
  goals of the autonomous agent are shared with its worker by pointers; a goal is its index,
  and the worker may change any goal, add goals and stop the agent.
\<close>

section \<open>Tasks\<close>

record TaskConfig =
  tc_Timeout :: duration
  tc_Retries :: int

record 'w Task =
  tk_agent :: "'w agent"
  tk_timeout :: duration
  tk_retries :: int
  tk_completed :: bool
  tk_result :: "message option"

definition NewTask :: "'w agent \<Rightarrow> TaskConfig option \<Rightarrow> 'w Task" where
  "NewTask a config =
     (let c = (case config of None \<Rightarrow> \<lparr>tc_Timeout = 0, tc_Retries = 0\<rparr> | Some c \<Rightarrow> c) in
      \<lparr>tk_agent = a, tk_timeout = tc_Timeout c, tk_retries = tc_Retries c, tk_completed = False, tk_result = None\<rparr>)"

definition task_reused :: go_error where
  "task_reused = TaskError ''task already completed. Create a new Task for another execution'' None"

definition task_failed :: "int \<Rightarrow> go_error \<Rightarrow> go_error" where
  "task_failed attempts e =
     TaskError (''task execution failed after '' @ show_int attempts @ '' attempts'') (Some e)"

text \<open>The context of one attempt.\<close>

definition exec_ctx :: "'w clock \<Rightarrow> 'w Task \<Rightarrow> go_ctx \<Rightarrow> 'w \<Rightarrow> go_ctx \<times> 'w" where
  "exec_ctx clock t ctx w =
     (if tk_timeout t > 0 then (let (now, w) = clock w in (WithTimeout now (tk_timeout t) ctx, w)) else (ctx, w))"

function task_loop ::
    "'w clock \<Rightarrow> 'w ctx_err \<Rightarrow> 'w waiter \<Rightarrow> 'w Task \<Rightarrow> go_ctx \<Rightarrow> message option \<Rightarrow> int \<Rightarrow> int \<Rightarrow> go_error option \<Rightarrow> 'w \<Rightarrow>
     reply \<times> 'w Task \<times> 'w" where
  "task_loop clock ctxerr wait t ctx msg attempts attempt lastError w =
     (if attempt < attempts then
        let (execCtx, w) = exec_ctx clock t ctx w;
            (rep, w) = agent_Process (tk_agent t) execCtx msg w
        in case rep of
             Panic p \<Rightarrow> (Panic p, t, w)
           | Ok r \<Rightarrow> (Ok r, t\<lparr>tk_completed := True, tk_result := r\<rparr>, w)
           | Err e \<Rightarrow>
               if ctxerr execCtx w = Some Context_DeadlineExceeded
               then (Err (TaskTimeoutError (tk_timeout t)), t\<lparr>tk_completed := True\<rparr>, w)
               else if attempt = attempts - 1 then (Err (task_failed attempts e), t\<lparr>tk_completed := True\<rparr>, w)
               else
                 (case wait (100 * (attempt + 1) * millisecond) ctx w of
                    (None, w) \<Rightarrow> task_loop clock ctxerr wait t ctx msg attempts (attempt + 1) (Some e) w
                  | (Some ce, w) \<Rightarrow>
                      (Err (TaskError ''task cancelled during retry backoff'' (Some ce)), t\<lparr>tk_completed := True\<rparr>, w))
      else (Err (TaskError ''task execution failed'' lastError), t\<lparr>tk_completed := True\<rparr>, w))"
  by pat_completeness auto
termination
  by (relation "measure (\<lambda>(clock, ctxerr, wait, t, ctx, msg, attempts, attempt, _). nat (attempts - attempt))") auto

declare task_loop.simps [simp del]

definition task_Execute ::
    "'w clock \<Rightarrow> 'w ctx_err \<Rightarrow> 'w waiter \<Rightarrow> go_ctx \<Rightarrow> message option \<Rightarrow> 'w Task \<Rightarrow> 'w \<Rightarrow> reply \<times> 'w Task \<times> 'w" where
  "task_Execute clock ctxerr wait ctx msg t w =
     (if tk_completed t then (Err task_reused, t, w)
      else task_loop clock ctxerr wait t ctx msg (tk_retries t + 1) 0 None w)"

definition ExecuteTask ::
    "'w clock \<Rightarrow> 'w ctx_err \<Rightarrow> 'w waiter \<Rightarrow> go_ctx \<Rightarrow> 'w agent \<Rightarrow> message option \<Rightarrow> TaskConfig option \<Rightarrow> 'w \<Rightarrow> reply \<times> 'w" where
  "ExecuteTask clock ctxerr wait ctx a msg config w =
     (let (r, t, w) = task_Execute clock ctxerr wait ctx msg (NewTask a config) w in (r, w))"

section \<open>Conversations\<close>

text \<open>A language model is a function of the messages; a nil message in the history is \<open>None\<close>.\<close>

type_synonym 'w chat = "go_ctx \<Rightarrow> message option list \<Rightarrow> 'w \<Rightarrow> reply \<times> 'w"

record 'w ConversationalAgentConfig =
  cc_LLMClient :: "'w chat option"
  cc_MaxHistory :: int
  cc_SystemPrompt :: string
  cc_IncludeSystem :: bool

record 'w ConversationalAgent =
  ca_llmClient :: "'w chat"
  ca_maxHistory :: int
  ca_systemPrompt :: string
  ca_includeSystem :: bool
  ca_history :: "message option list"

definition prompt_message :: "string \<Rightarrow> message" where
  "prompt_message prompt =
     \<lparr>msg_role = ''system'', msg_content = GStr prompt, msg_metadata = None, msg_timestamp = 0\<rparr>"

definition init_conversation :: "'w chat \<Rightarrow> 'w ConversationalAgentConfig \<Rightarrow> 'w ConversationalAgent" where
  "init_conversation chat config =
     (let maxHistory = (if cc_MaxHistory config = 0 then 10 else cc_MaxHistory config);
          includeSystem =
            (if \<not> cc_IncludeSystem config \<and> cc_MaxHistory config = 0 \<and> cc_SystemPrompt config = [] then True
             else cc_IncludeSystem config)
      in \<lparr>ca_llmClient = chat, ca_maxHistory = maxHistory, ca_systemPrompt = cc_SystemPrompt config,
          ca_includeSystem = includeSystem,
          ca_history =
            (if cc_SystemPrompt config \<noteq> [] \<and> includeSystem then [Some (prompt_message (cc_SystemPrompt config))] else [])\<rparr>)"

definition NewConversationalAgent :: "'w ConversationalAgentConfig option \<Rightarrow> 'w ConversationalAgent outcome" where
  "NewConversationalAgent config =
     (case config of
        None \<Rightarrow> Err (Errorf ''config is required'' [] None)
      | Some config \<Rightarrow>
          (case cc_LLMClient config of
             None \<Rightarrow> Err (Errorf ''llmClient is required'' [] None)
           | Some chat \<Rightarrow> Ok (init_conversation chat config)))"

definition is_system :: "message option \<Rightarrow> bool" where
  "is_system m \<longleftrightarrow> (case m of None \<Rightarrow> False | Some m \<Rightarrow> msg_role m = ''system'')"

text \<open>Reading the role of a nil message panics: \<open>None\<close>.\<close>

definition pruneHistory :: "'w ConversationalAgent \<Rightarrow> 'w ConversationalAgent option" where
  "pruneHistory c =
     (if int (length (ca_history c)) \<le> ca_maxHistory c then Some c
      else if None \<in> set (ca_history c) then None
      else
        let systemMessages = filter is_system (ca_history c);
            conversationMessages = filter (\<lambda>m. \<not> is_system m) (ca_history c);
            messagesToKeep = ca_maxHistory c - int (length systemMessages);
            keptConversation =
              (if messagesToKeep > 0 \<and> int (length conversationMessages) > messagesToKeep
               then drop (nat (int (length conversationMessages) - messagesToKeep)) conversationMessages
               else if messagesToKeep > 0 then conversationMessages
               else [])
        in Some (c\<lparr>ca_history := systemMessages @ keptConversation\<rparr>))"

definition prune_added :: "message option \<Rightarrow> 'w ConversationalAgent \<Rightarrow> 'w ConversationalAgent option" where
  "prune_added m c = pruneHistory (c\<lparr>ca_history := ca_history c @ [m]\<rparr>)"

abbreviation nil_deref :: "'a outcome" where
  "nil_deref \<equiv> Panic ''nil pointer dereference''"

definition conv_Process ::
    "go_ctx \<Rightarrow> message option \<Rightarrow> 'w ConversationalAgent \<Rightarrow> 'w \<Rightarrow> reply \<times> 'w ConversationalAgent \<times> 'w" where
  "conv_Process ctx msg c w =
     (case prune_added msg c of
        None \<Rightarrow> (nil_deref, c\<lparr>ca_history := ca_history c @ [msg]\<rparr>, w)
      | Some c \<Rightarrow>
          let (r, w) = ca_llmClient c ctx (ca_history c) w in
          case r of
            Err e \<Rightarrow> (Err (Errorf ''llm chat failed: %w'' [] (Some e)), c, w)
          | Panic p \<Rightarrow> (Panic p, c, w)
          | Ok response \<Rightarrow>
              (case prune_added response c of
                 None \<Rightarrow> (nil_deref, c\<lparr>ca_history := ca_history c @ [response]\<rparr>, w)
               | Some c \<Rightarrow> (Ok response, c, w)))"

definition ClearHistory :: "bool \<Rightarrow> 'w ConversationalAgent \<Rightarrow> 'w ConversationalAgent" where
  "ClearHistory keepSystem c =
     c\<lparr>ca_history :=
       (if keepSystem \<and> ca_systemPrompt c \<noteq> [] \<and> ca_includeSystem c then [Some (prompt_message (ca_systemPrompt c))] else [])\<rparr>"

definition HistoryLength :: "'w ConversationalAgent \<Rightarrow> int" where
  "HistoryLength c = int (length (ca_history c))"

definition SetMaxHistory :: "int \<Rightarrow> 'w ConversationalAgent \<Rightarrow> 'w ConversationalAgent option" where
  "SetMaxHistory n c = pruneHistory (c\<lparr>ca_maxHistory := n\<rparr>)"

section \<open>Autonomous agents\<close>

datatype GoalStatus = GoalStatusActive | GoalStatusCompleted | GoalStatusAbandoned

record Goal =
  gl_Description :: string
  gl_Priority :: int
  gl_Status :: GoalStatus
  gl_Progress :: real
  gl_CreatedAt :: time

definition CreateGoal :: "time \<Rightarrow> string \<Rightarrow> int \<Rightarrow> Goal" where
  "CreateGoal now description priority =
     \<lparr>gl_Description = description, gl_Priority = priority, gl_Status = GoalStatusActive, gl_Progress = 0,
      gl_CreatedAt = now\<rparr>"

record AutonomousAgent =
  aa_objective :: string
  aa_maxIterations :: int
  aa_goals :: "Goal list"
  aa_iterationCount :: int
  aa_isRunning :: bool

record AutonomousResult =
  ar_Objective :: string
  ar_Iterations :: int
  ar_GoalsCompleted :: int
  ar_Results :: "string list"

definition NewAutonomousAgent :: "string \<Rightarrow> int \<Rightarrow> AutonomousAgent" where
  "NewAutonomousAgent objective maxIterations =
     \<lparr>aa_objective = objective, aa_maxIterations = (if maxIterations \<le> 0 then 10 else maxIterations), aa_goals = [],
      aa_iterationCount = 0, aa_isRunning = False\<rparr>"

definition AddGoal :: "time \<Rightarrow> string \<Rightarrow> int \<Rightarrow> AutonomousAgent \<Rightarrow> AutonomousAgent" where
  "AddGoal now description priority a = a\<lparr>aa_goals := aa_goals a @ [CreateGoal now description priority]\<rparr>"

text \<open>The active goals, by index, and the first one of the highest priority.\<close>

definition getActiveGoals :: "Goal list \<Rightarrow> nat list" where
  "getActiveGoals gs = filter (\<lambda>i. gl_Status (gs ! i) = GoalStatusActive) [0..<length gs]"

definition selectHighestPriorityGoal :: "Goal list \<Rightarrow> nat list \<Rightarrow> nat option" where
  "selectHighestPriorityGoal gs goals =
     (case goals of
        [] \<Rightarrow> None
      | g # rest \<Rightarrow> Some (fold (\<lambda>i best. if gl_Priority (gs ! i) > gl_Priority (gs ! best) then i else best) rest g))"

definition countCompletedGoals :: "Goal list \<Rightarrow> int" where
  "countCompletedGoals gs = int (length (filter (\<lambda>g. gl_Status g = GoalStatusCompleted) gs))"

text \<open>
  A worker returns the goals as it leaves them and whether the agent still runs (it may call
  \<open>Stop\<close>); its result is a text or an error.
\<close>

type_synonym 'w goal_worker = "go_ctx \<Rightarrow> nat \<Rightarrow> Goal list \<Rightarrow> 'w \<Rightarrow> string outcome \<times> Goal list \<times> bool \<times> 'w"

definition defaultWorker :: "'w goal_worker" where
  "defaultWorker ctx i gs w = (Ok (''Progress on: '' @ gl_Description (gs ! i)), gs, True, w)"

definition update_progress :: "nat \<Rightarrow> Goal list \<Rightarrow> Goal list" where
  "update_progress i gs =
     gs[i := let g = (gs ! i)\<lparr>gl_Progress := gl_Progress (gs ! i) + 2 / 10\<rparr>
             in if gl_Progress g \<ge> 1 then g\<lparr>gl_Status := GoalStatusCompleted\<rparr> else g]"

definition auto_result :: "AutonomousAgent \<Rightarrow> string list \<Rightarrow> AutonomousResult" where
  "auto_result a results =
     \<lparr>ar_Objective = aa_objective a, ar_Iterations = aa_iterationCount a,
      ar_GoalsCompleted = countCompletedGoals (aa_goals a), ar_Results = results\<rparr>"

function auto_loop ::
    "'w ctx_err \<Rightarrow> ('w \<Rightarrow> bool \<times> 'w) option \<Rightarrow> 'w goal_worker \<Rightarrow> go_ctx \<Rightarrow> string list \<Rightarrow> AutonomousAgent \<Rightarrow> 'w \<Rightarrow>
     AutonomousResult outcome \<times> AutonomousAgent \<times> 'w" where
  "auto_loop ctxerr stop worker ctx results a w =
     (if aa_iterationCount a < aa_maxIterations a \<and> aa_isRunning a then
        case ctxerr ctx w of
          Some e \<Rightarrow> (Err e, a\<lparr>aa_isRunning := False\<rparr>, w)
        | None \<Rightarrow>
            (case selectHighestPriorityGoal (aa_goals a) (getActiveGoals (aa_goals a)) of
               None \<Rightarrow> (Ok (auto_result a results), a\<lparr>aa_isRunning := False\<rparr>, w)
             | Some goal \<Rightarrow>
                 let a = a\<lparr>aa_iterationCount := aa_iterationCount a + 1\<rparr>;
                     (stopped, w) = (case stop of None \<Rightarrow> (False, w) | Some f \<Rightarrow> f w)
                 in if stopped then (Ok (auto_result a results), a\<lparr>aa_isRunning := False\<rparr>, w)
                    else
                      let (r, gs, running, w) = worker ctx goal (aa_goals a) w;
                          a = a\<lparr>aa_goals := gs, aa_isRunning := running\<rparr>
                      in case r of
                           Err e \<Rightarrow> (Err (Errorf ''work on goal failed: %w'' [] (Some e)), a, w)
                         | Panic p \<Rightarrow> (Panic p, a, w)
                         | Ok text \<Rightarrow>
                             auto_loop ctxerr stop worker ctx (results @ [text])
                               (a\<lparr>aa_goals := update_progress goal (aa_goals a)\<rparr>) w)
      else (Ok (auto_result a results), a\<lparr>aa_isRunning := False\<rparr>, w))"
  by pat_completeness auto
termination
  by (relation "measure (\<lambda>(ctxerr, stop, worker, ctx, results, a, _). nat (aa_maxIterations a - aa_iterationCount a))")
    (auto split: option.splits)

declare auto_loop.simps [simp del]

definition auto_Run ::
    "'w ctx_err \<Rightarrow> ('w \<Rightarrow> bool \<times> 'w) option \<Rightarrow> 'w goal_worker \<Rightarrow> go_ctx \<Rightarrow> AutonomousAgent \<Rightarrow> 'w \<Rightarrow>
     AutonomousResult outcome \<times> AutonomousAgent \<times> 'w" where
  "auto_Run ctxerr stop worker ctx a w = auto_loop ctxerr stop worker ctx [] (a\<lparr>aa_isRunning := True\<rparr>) w"

definition GetProgress :: "AutonomousAgent \<Rightarrow> real" where
  "GetProgress a =
     (if length (aa_goals a) = 0 then 0
      else sum_list (map gl_Progress (aa_goals a)) / real (length (aa_goals a)) * 100)"

section \<open>A task runs once\<close>

definition lift_clock :: "'w clock \<Rightarrow> 'w log clock" where
  "lift_clock clock = (\<lambda>(w, l). let (t, w) = clock w in (t, (w, l)))"

definition lift_ctx_err :: "'w ctx_err \<Rightarrow> 'w log ctx_err" where
  "lift_ctx_err ctxerr ctx = (\<lambda>(w, l). ctxerr ctx w)"

definition task_delay :: "int \<Rightarrow> duration" where
  "task_delay attempt = 100 * (attempt + 1) * millisecond"

text \<open>What a run of the loop from attempt \<open>i\<close> adds to the logs, and how it leaves the task.\<close>

definition task_post ::
    "'w log Task \<Rightarrow> int \<Rightarrow> int \<Rightarrow> reply list \<Rightarrow> duration list \<Rightarrow> reply \<times> 'w log Task \<times> 'w log \<Rightarrow> bool" where
  "task_post t n i rs ds R \<longleftrightarrow>
     (\<exists>new waits res t' w'. R = (res, t', w', rs @ new, ds @ waits) \<and>
        int (length new) \<le> max 0 (n - i) \<and> (i < n \<longrightarrow> new \<noteq> []) \<and>
        waits = map (\<lambda>j. task_delay (i + int j)) [0..<length waits] \<and> length waits \<le> length new \<and>
        (\<forall>r \<in> set (butlast new). \<exists>e. r = Err e) \<and>
        tk_completed t' = (\<not> is_Panic res) \<and> (is_Ok res \<longleftrightarrow> new \<noteq> [] \<and> is_Ok (last new)) \<and>
        (\<forall>r. res = Ok r \<longrightarrow> last new = Ok r \<and> t' = t\<lparr>tk_completed := True, tk_result := r\<rparr>) \<and>
        (\<forall>e. res = Err e \<longrightarrow> t' = t\<lparr>tk_completed := True\<rparr>))"

lemma task_post_single:
  assumes "i < n" "tk_completed t' = (\<not> is_Panic res)" "is_Ok res \<longleftrightarrow> is_Ok rep"
    "\<forall>r. res = Ok r \<longrightarrow> rep = Ok r \<and> t' = t\<lparr>tk_completed := True, tk_result := r\<rparr>"
    "\<forall>e. res = Err e \<longrightarrow> t' = t\<lparr>tk_completed := True\<rparr>"
  shows "task_post t n i rs ds (res, t', w', rs @ [rep], ds)"
  unfolding task_post_def using assms by (intro exI [of _ "[rep]"] exI [of _ "[]"]) auto

lemma task_post_step:
  assumes "task_post t n (i + 1) (rs @ [Err e]) (ds @ [task_delay i]) R" and "i + 1 < n"
  shows "task_post t n i rs ds R"
proof -
  from assms(1) obtain new waits res t' w' where
    R: "R = (res, t', w', (rs @ [Err e]) @ new, (ds @ [task_delay i]) @ waits)"
    and new: "int (length new) \<le> max 0 (n - (i + 1))" "new \<noteq> []" "length waits \<le> length new"
      "\<forall>r \<in> set (butlast new). \<exists>e. r = Err e"
    and waits: "waits = map (\<lambda>j. task_delay (i + 1 + int j)) [0..<length waits]"
    and res: "tk_completed t' = (\<not> is_Panic res)" "is_Ok res \<longleftrightarrow> new \<noteq> [] \<and> is_Ok (last new)"
      "\<forall>r. res = Ok r \<longrightarrow> last new = Ok r \<and> t' = t\<lparr>tk_completed := True, tk_result := r\<rparr>"
      "\<forall>e. res = Err e \<longrightarrow> t' = t\<lparr>tk_completed := True\<rparr>"
    unfolding task_post_def using assms(2) by blast
  have "map (\<lambda>j. task_delay (i + int j)) [0..<Suc (length waits)] =
      task_delay i # map (\<lambda>j. task_delay (i + 1 + int j)) [0..<length waits]"
    by (simp add: upt_conv_Cons map_Suc_upt [symmetric] comp_def add.assoc del: upt_Suc)
  with waits have "task_delay i # waits = map (\<lambda>j. task_delay (i + int j)) [0..<length (task_delay i # waits)]" by simp
  then show ?thesis
    unfolding task_post_def using R new res assms(2)
    by (intro exI [of _ "Err e # new"] exI [of _ "task_delay i # waits"] exI [of _ res] exI [of _ t'] exI [of _ w']) auto
qed

lemma task_loop_post:
  assumes "tk_agent t = logged a" and "\<not> tk_completed t"
  shows "task_post t n i rs ds (task_loop (lift_clock clock) (lift_ctx_err ctxerr) (logged_wait wait) t ctx msg n i le (w, rs, ds))"
proof (induction "nat (n - i)" arbitrary: i le rs ds w rule: less_induct)
  case less
  note loop = task_loop.simps [of "lift_clock clock" "lift_ctx_err ctxerr" "logged_wait wait" t ctx msg n i le "(w, rs, ds)"]
  show ?case
  proof (cases "i < n")
    case False
    then show ?thesis unfolding loop task_post_def by (auto intro!: exI [of _ "[]"])
  next
    case True
    obtain c w1 where c: "exec_ctx (lift_clock clock) t ctx (w, rs, ds) = (c, w1, rs, ds)"
      by (cases "tk_timeout t > 0"; cases "clock w") (auto simp: exec_ctx_def lift_clock_def Let_def)
    obtain rep w2 where r: "agent_Process a c msg w1 = (rep, w2)" by (metis prod.exhaust)
    have lr: "agent_Process (tk_agent t) c msg (w1, rs, ds) = (rep, w2, rs @ [rep], ds)" using r by (simp add: assms(1) logged_def)
    show ?thesis
    proof (cases "(\<exists>e. rep = Err e) \<and> ctxerr c w2 \<noteq> Some Context_DeadlineExceeded \<and> i \<noteq> n - 1")
      case False
      then show ?thesis
        using True c lr assms(2) unfolding loop
        by (cases rep) (auto simp: lift_ctx_err_def Let_def intro!: task_post_single)
    next
      case again: True
      then obtain e where e: "rep = Err e" by blast
      obtain ce w3 where wt: "wait (task_delay i) ctx w2 = (ce, w3)" by (metis prod.exhaust)
      have lw: "logged_wait wait (100 * (i + 1) * millisecond) ctx (w2, rs @ [rep], ds) = (ce, w3, rs @ [rep], ds @ [task_delay i])"
        using wt by (simp add: logged_wait_def task_delay_def)
      show ?thesis
      proof (cases ce)
        case None
        have "task_post t n (i + 1) (rs @ [Err e]) (ds @ [task_delay i])
            (task_loop (lift_clock clock) (lift_ctx_err ctxerr) (logged_wait wait) t ctx msg n (i + 1) (Some e)
              (w3, rs @ [Err e], ds @ [task_delay i]))"
          by (rule less.hyps) (use True in auto)
        from task_post_step [OF this] show ?thesis
          using True again c lr lw e None unfolding loop by (auto simp: lift_ctx_err_def Let_def)
      next
        case (Some x)
        have "task_post t n i rs ds (Err (TaskError ''task cancelled during retry backoff'' (Some x)), t\<lparr>tk_completed := True\<rparr>,
            w3, rs @ [rep], ds @ [task_delay i])"
          unfolding task_post_def using True e by (intro exI [of _ "[rep]"] exI [of _ "[task_delay i]"]) simp
        then show ?thesis
          using True again c lr lw e Some unfolding loop by (auto simp: lift_ctx_err_def Let_def)
      qed
    qed
  qed
qed

text \<open>
  A task runs once.  It calls its agent at most once more than the number of retries, after an
  error only, waiting a multiple of 100 milliseconds that grows by 100 with each retry; it
  succeeds exactly when the last reply is a success, which is then its result.  Unless the
  agent panics it is completed afterwards, and executing it again calls nothing and returns
  the error for a completed task.
\<close>
lemma task_runs_once:
  assumes "t = NewTask (logged a) config"
    and "task_Execute (lift_clock clock) (lift_ctx_err ctxerr) (logged_wait wait) ctx msg t (w, [], []) = (res, t', w', replies, waits)"
  shows "int (length replies) \<le> max 0 (tk_retries t + 1) \<and> (\<forall>r \<in> set (butlast replies). \<exists>e. r = Err e) \<and>
    waits = map (\<lambda>j. int (j + 1) * (100 * millisecond)) [0..<length waits] \<and>
    (is_Ok res \<longleftrightarrow> replies \<noteq> [] \<and> is_Ok (last replies)) \<and> (\<forall>r. res = Ok r \<longrightarrow> last replies = Ok r \<and> tk_result t' = r) \<and>
    (\<not> is_Panic res \<longrightarrow> task_Execute clock' ctxerr' wait' ctx' msg' t' v = (Err task_reused, t', v))"
proof -
  have t: "tk_agent t = logged a" "\<not> tk_completed t" using assms(1) by (simp_all add: NewTask_def Let_def)
  have "task_post t (tk_retries t + 1) 0 [] [] (res, t', w', replies, waits)"
    using task_loop_post [OF t(1) t(2), of "tk_retries t + 1" 0 "[]" "[]" clock ctxerr wait ctx msg None w] assms(2) t(2)
    by (simp add: task_Execute_def)
  then have post: "int (length replies) \<le> max 0 (tk_retries t + 1)" "\<forall>r \<in> set (butlast replies). \<exists>e. r = Err e"
      "waits = map (\<lambda>j. task_delay (int j)) [0..<length waits]" "tk_completed t' = (\<not> is_Panic res)"
      "is_Ok res \<longleftrightarrow> replies \<noteq> [] \<and> is_Ok (last replies)"
      "\<forall>r. res = Ok r \<longrightarrow> last replies = Ok r \<and> t' = t\<lparr>tk_completed := True, tk_result := r\<rparr>"
    unfolding task_post_def by auto
  have "waits = map (\<lambda>j. int (j + 1) * (100 * millisecond)) [0..<length waits]"
    using post(3) by (simp add: task_delay_def algebra_simps)
  moreover have "task_Execute clock' ctxerr' wait' ctx' msg' t' v = (Err task_reused, t', v)" if "\<not> is_Panic res"
    using post(4) that by (simp add: task_Execute_def)
  ultimately show ?thesis using post(1,2,5,6) by auto
qed

definition no_wait :: "'w waiter" where
  "no_wait d ctx w = (None, w)"

definition flaky_agent :: "nat agent" where
  "flaky_agent =
     \<lparr>agent_Name = ''flaky'', agent_Capabilities = [],
      agent_Process = (\<lambda>ctx m n. (if n = 0 then Err (Errors_New ''down'') else Ok m, n + 1))\<rparr>"

section \<open>The window of a conversation\<close>

text \<open>A conversation of several messages, with the transcript of what was said.\<close>

fun conv_run ::
    "go_ctx \<Rightarrow> message list \<Rightarrow> message option list \<Rightarrow> 'w ConversationalAgent \<Rightarrow> 'w \<Rightarrow>
     message option list \<times> 'w ConversationalAgent \<times> 'w" where
  "conv_run ctx [] said c w = (said, c, w)"
| "conv_run ctx (m # ms) said c w =
     (let (r, c, w) = conv_Process ctx (Some m) c w in
      conv_run ctx ms (said @ [Some m] @ (case r of Ok x \<Rightarrow> [x] | _ \<Rightarrow> [])) c w)"

definition speech :: "message option \<Rightarrow> bool" where
  "speech m \<longleftrightarrow> m \<noteq> None \<and> \<not> is_system m"

definition windowed :: "message option list \<Rightarrow> message option list \<Rightarrow> 'w ConversationalAgent \<Rightarrow> bool" where
  "windowed prompt said c \<longleftrightarrow> (\<forall>m \<in> set prompt. is_system m) \<and> (\<forall>m \<in> set said. speech m) \<and>
     int (length prompt) \<le> ca_maxHistory c \<and>
     ca_history c = prompt @ keep_last (nat (ca_maxHistory c - int (length prompt))) said"

lemma prune_added_window:
  assumes "windowed prompt said c" and "speech m"
  obtains c' where "prune_added m c = Some c'" and "windowed prompt (said @ [m]) c'"
    and "ca_llmClient c' = ca_llmClient c" and "ca_maxHistory c' = ca_maxHistory c"
proof -
  define k where "k = nat (ca_maxHistory c - int (length prompt))"
  let ?T = "keep_last k said @ [m]" and ?h = "prompt @ keep_last k said @ [m]"
  have w: "\<forall>x \<in> set prompt. is_system x" "\<forall>x \<in> set said. speech x" "ca_history c = prompt @ keep_last k said"
      "ca_maxHistory c = int (length prompt) + int k"
    using assms(1) by (auto simp: windowed_def k_def)
  have T: "\<forall>x \<in> set ?T. speech x" using w(2) assms(2) set_keep_last [of k said] by auto
  have fs: "filter is_system ?h = prompt" "filter (\<lambda>x. \<not> is_system x) ?h = ?T"
    using w(1) T by (auto simp: filter_id_conv filter_empty_conv speech_def)
  have none: "None \<notin> set ?h" using w(1) T by (auto simp: speech_def is_system_def)
  have win: "keep_last k (said @ [m]) = keep_last k ?T" by (simp add: keep_last_append)
  show thesis
  proof (cases "int (length ?h) \<le> ca_maxHistory c")
    case True
    then have "length ?T \<le> k" using w(4) by simp
    then have "keep_last k (said @ [m]) = ?T" using win by (simp add: keep_last_def)
    then show thesis
      using that [of "c\<lparr>ca_history := ?h\<rparr>"] True w T assms(2)
      by (auto simp: prune_added_def pruneHistory_def windowed_def)
  next
    case False
    then have more: "k < length ?T" using w(4) by simp
    let ?c = "c\<lparr>ca_history := prompt @ keep_last k (said @ [m])\<rparr>"
    have "prune_added m c = Some ?c"
    proof -
      have "prune_added m c = Some (c\<lparr>ca_history := prompt @
          (if int k > 0 \<and> int (length ?T) > int k then drop (nat (int (length ?T) - int k)) ?T
           else if int k > 0 then ?T else [])\<rparr>)"
        using False none w(3,4) fs by (simp add: prune_added_def pruneHistory_def Let_def)
      also have "\<dots> = Some ?c"
      proof -
        have "nat (int (length ?T) - int k) = length ?T - k" by linarith
        then show ?thesis unfolding win keep_last_drop [of k ?T] using more by (cases "k = 0") (simp_all only: of_nat_0_less_iff
          neq0_conv of_nat_less_iff if_True simp_thms less_irrefl if_False diff_zero drop_all order_refl)
      qed
      finally show ?thesis .
    qed
    then show thesis using that [of ?c] w assms(2) by (auto simp: windowed_def)
  qed
qed

lemma conv_Process_window:
  assumes "windowed prompt said c" and "\<And>h w x. fst (ca_llmClient c ctx h w) = Ok x \<Longrightarrow> speech x" and "speech (Some m)"
    and "conv_Process ctx (Some m) c w = (r, c', w')"
  shows "windowed prompt (said @ [Some m] @ (case r of Ok x \<Rightarrow> [x] | _ \<Rightarrow> [])) c'"
    and "ca_llmClient c' = ca_llmClient c" and "ca_maxHistory c' = ca_maxHistory c"
proof -
  obtain c1 where c1: "prune_added (Some m) c = Some c1" "windowed prompt (said @ [Some m]) c1" "ca_llmClient c1 = ca_llmClient c"
      "ca_maxHistory c1 = ca_maxHistory c"
    by (rule prune_added_window [OF assms(1,3)])
  obtain r1 w1 where r1: "ca_llmClient c1 ctx (ca_history c1) w = (r1, w1)" by (metis prod.exhaust)
  have "windowed prompt (said @ [Some m] @ (case r of Ok x \<Rightarrow> [x] | _ \<Rightarrow> [])) c' \<and> ca_llmClient c' = ca_llmClient c \<and>
    ca_maxHistory c' = ca_maxHistory c"
  proof (cases r1)
    case (Ok x)
    then have "speech x" using assms(2) [of "ca_history c1" w x] r1 c1(3) by simp
    from prune_added_window [OF c1(2) this] obtain c2 where "prune_added x c1 = Some c2"
        "windowed prompt ((said @ [Some m]) @ [x]) c2" "ca_llmClient c2 = ca_llmClient c1" "ca_maxHistory c2 = ca_maxHistory c1"
      by blast
    then show ?thesis using assms(4) c1 r1 Ok by (auto simp: conv_Process_def)
  qed (use assms(4) c1 r1 in \<open>auto simp: conv_Process_def\<close>)
  then show "windowed prompt (said @ [Some m] @ (case r of Ok x \<Rightarrow> [x] | _ \<Rightarrow> [])) c'" "ca_llmClient c' = ca_llmClient c"
    "ca_maxHistory c' = ca_maxHistory c" by blast+
qed

lemma conv_run_window:
  assumes "windowed prompt said c" and "\<And>h w x. fst (ca_llmClient c ctx h w) = Ok x \<Longrightarrow> speech x"
    and "\<forall>m \<in> set ms. msg_role m \<noteq> ''system''" and "conv_run ctx ms said c w = (said', c', w')"
  shows "windowed prompt said' c' \<and> ca_maxHistory c' = ca_maxHistory c"
  using assms
proof (induction ms arbitrary: said c w)
  case (Cons m ms)
  obtain r c1 w1 where p: "conv_Process ctx (Some m) c w = (r, c1, w1)" by (metis prod_cases3)
  have "speech (Some m)" using Cons.prems(3) by (simp add: speech_def is_system_def)
  note win = conv_Process_window [OF Cons.prems(1,2) this p]
  have "windowed prompt said' c' \<and> ca_maxHistory c' = ca_maxHistory c1"
    by (rule Cons.IH [OF win(1)]) (use win(2) Cons.prems p in auto)
  then show ?case using win(3) by simp
qed simp

text \<open>
  The history of a conversation is the system prompt, if it is included, followed by the most
  recent messages of the transcript, so many that the limit is kept: after any sequence of
  messages, with failing calls of the model among them, and for a model that does not answer
  with system messages.
\<close>
lemma conversation_window:
  assumes "NewConversationalAgent (Some config) = Ok c" and "0 < ca_maxHistory c"
    and "\<And>h w x. fst (ca_llmClient c ctx h w) = Ok x \<Longrightarrow> speech x"
    and "\<forall>m \<in> set ms. msg_role m \<noteq> ''system''" and "conv_run ctx ms [] c w = (said, c', w')"
  shows "ca_history c' = ca_history c @ keep_last (nat (ca_maxHistory c - HistoryLength c)) said \<and>
    HistoryLength c' \<le> ca_maxHistory c \<and> HistoryLength c \<le> 1"
proof -
  have c: "ca_history c = [] \<or> ca_history c = [Some (prompt_message (cc_SystemPrompt config))]"
    using assms(1) by (auto simp: NewConversationalAgent_def init_conversation_def Let_def split: option.splits)
  then have "windowed (ca_history c) [] c"
    using assms(2) by (auto simp: windowed_def keep_last_def is_system_def prompt_message_def)
  from conv_run_window [OF this assms(3-5)] have w: "windowed (ca_history c) said c'" "ca_maxHistory c' = ca_maxHistory c"
    by auto
  then have "ca_history c' = ca_history c @ keep_last (nat (ca_maxHistory c - HistoryLength c)) said"
    by (simp add: windowed_def HistoryLength_def)
  moreover from this have "HistoryLength c' \<le> ca_maxHistory c"
    using w by (auto simp: HistoryLength_def length_keep_last windowed_def)
  ultimately show ?thesis using c by (auto simp: HistoryLength_def)
qed

definition echo_chat :: "message option list list chat" where
  "echo_chat ctx h seen = (Ok (Some (NewMessage 0 ''assistant'' ''ok'')), seen @ [h])"

text \<open>
  Two configurations lose what they should pass on: with a limit of one message and a system
  prompt the model is never shown the message of the user; and the configuration of the
  package documentation, a limit and a prompt without \<open>IncludeSystem\<close>, drops the prompt.
\<close>
lemma conversation_loses_messages:
  "(let c = init_conversation echo_chat
        \<lparr>cc_LLMClient = Some echo_chat, cc_MaxHistory = 1, cc_SystemPrompt = ''p'', cc_IncludeSystem = True\<rparr>
    in snd (snd (conv_run Background [NewMessage 0 ''user'' ''a'', NewMessage 0 ''user'' ''b''] [] c [])) =
       [[Some (prompt_message ''p'')], [Some (prompt_message ''p'')]]) \<and>
   (let c = init_conversation echo_chat
        \<lparr>cc_LLMClient = Some echo_chat, cc_MaxHistory = 10, cc_SystemPrompt = ''p'', cc_IncludeSystem = False\<rparr>
    in snd (snd (conv_run Background [NewMessage 0 ''user'' ''a''] [] c [])) = [[Some (NewMessage 0 ''user'' ''a'')]])"
  by code_simp

section \<open>Goals are completed\<close>

lemma fold_priority:
  "fold (\<lambda>i best. if gl_Priority (gs ! i) > gl_Priority (gs ! best) then i else best) rest g \<in> insert g (set rest) \<and>
   (\<forall>i \<in> insert g (set rest). gl_Priority (gs ! i) \<le>
      gl_Priority (gs ! fold (\<lambda>i best. if gl_Priority (gs ! i) > gl_Priority (gs ! best) then i else best) rest g))"
proof (induction rest arbitrary: g)
  case (Cons i rest)
  show ?case using Cons [of "if gl_Priority (gs ! i) > gl_Priority (gs ! g) then i else g"] by fastforce
qed simp

lemma select_highest:
  "selectHighestPriorityGoal gs goals = Some i \<Longrightarrow> i \<in> set goals \<and> (\<forall>j \<in> set goals. gl_Priority (gs ! j) \<le> gl_Priority (gs ! i))"
  using fold_priority [of gs] by (auto simp: selectHighestPriorityGoal_def split: list.splits)

lemma select_none: "selectHighestPriorityGoal gs goals = None \<longleftrightarrow> goals = []"
  by (simp add: selectHighestPriorityGoal_def split: list.splits)

lemma active_mem: "i \<in> set (getActiveGoals gs) \<longleftrightarrow> i < length gs \<and> gl_Status (gs ! i) = GoalStatusActive"
  by (auto simp: getActiveGoals_def)

text \<open>
  Progress in steps of one fifth: a goal is active with some steps done, or completed.  (The
  sums 0.2, 0.4, 0.6, 0.8 and 1.0 reach 1.0 at the fifth step in 64-bit floats as well.)
\<close>

definition steps_left :: "Goal \<Rightarrow> nat \<Rightarrow> bool" where
  "steps_left g n \<longleftrightarrow> n \<le> 5 \<and> gl_Progress g = real (5 - n) / 5 \<and>
     gl_Status g = (if n = 0 then GoalStatusCompleted else GoalStatusActive)"

definition goals_left :: "Goal list \<Rightarrow> nat list \<Rightarrow> bool" where
  "goals_left gs ns \<longleftrightarrow> list_all2 steps_left gs ns"

lemma goals_left_nth: "goals_left gs ns \<Longrightarrow> i < length gs \<Longrightarrow> steps_left (gs ! i) (ns ! i)"
  by (simp add: goals_left_def list_all2_nthD)

lemma update_progress_left:
  assumes "goals_left gs ns" and "i < length gs" and "gl_Status (gs ! i) = GoalStatusActive"
  shows "goals_left (update_progress i gs) (ns[i := ns ! i - 1])" and "sum_list (ns[i := ns ! i - 1]) + 1 = sum_list ns"
proof -
  have s: "steps_left (gs ! i) (ns ! i)" by (rule goals_left_nth [OF assms(1,2)])
  then have pos: "0 < ns ! i" "ns ! i \<le> 5" using assms(3) by (auto simp: steps_left_def split: if_splits)
  then have "ns ! i \<in> {1, 2, 3, 4, 5}" by auto
  then have "steps_left (let g = (gs ! i)\<lparr>gl_Progress := gl_Progress (gs ! i) + 2 / 10\<rparr>
      in if gl_Progress g \<ge> 1 then g\<lparr>gl_Status := GoalStatusCompleted\<rparr> else g) (ns ! i - 1)"
    using s by (auto simp: steps_left_def Let_def)
  then show "goals_left (update_progress i gs) (ns[i := ns ! i - 1])"
    using assms(1) unfolding goals_left_def update_progress_def by (rule list_all2_update_cong [rotated])
  have len: "length ns = length gs" using assms(1) by (simp add: goals_left_def list_all2_lengthD)
  show "sum_list (ns[i := ns ! i - 1]) + 1 = sum_list ns"
    using pos assms(2) len member_le_sum_list [of "ns ! i" ns] by (simp add: sum_list_update)
qed

definition obedient :: "'w goal_worker \<Rightarrow> go_ctx \<Rightarrow> bool" where
  "obedient worker ctx \<longleftrightarrow> (\<forall>i gs w. \<exists>out w'. worker ctx i gs w = (Ok out, gs, True, w'))"

lemma no_active_left: "goals_left gs ns \<Longrightarrow> getActiveGoals gs = [] \<Longrightarrow> \<forall>n \<in> set ns. n = 0"
proof
  fix n assume a: "goals_left gs ns" "getActiveGoals gs = []" "n \<in> set ns"
  then obtain i where i: "i < length ns" "n = ns ! i" by (metis in_set_conv_nth)
  then have "steps_left (gs ! i) n" "i < length gs" using a(1) goals_left_nth by (auto simp: goals_left_def list_all2_lengthD)
  moreover have "i \<notin> set (getActiveGoals gs)" using a(2) by simp
  ultimately show "n = 0" by (auto simp: active_mem steps_left_def split: if_splits)
qed

lemma auto_loop_completes:
  assumes "obedient worker ctx" and "\<And>w. ctxerr ctx w = None"
  shows "goals_left (aa_goals a) ns \<Longrightarrow> aa_isRunning a \<Longrightarrow> int (sum_list ns) \<le> aa_maxIterations a - aa_iterationCount a \<Longrightarrow>
    \<exists>r a' w'. auto_loop ctxerr None worker ctx results a w = (Ok r, a', w') \<and> goals_left (aa_goals a') (map (\<lambda>n. 0) ns) \<and>
      ar_Iterations r = aa_iterationCount a + int (sum_list ns) \<and> length (ar_Results r) = length results + sum_list ns \<and>
      ar_GoalsCompleted r = countCompletedGoals (aa_goals a') \<and> \<not> aa_isRunning a'"
proof (induction "sum_list ns" arbitrary: ns results a w)
  case 0
  then have z: "ns = map (\<lambda>n. 0) ns" by (simp add: map_idI)
  have "getActiveGoals (aa_goals a) = []"
  proof -
    have "i \<notin> set (getActiveGoals (aa_goals a))" for i
    proof
      assume i: "i \<in> set (getActiveGoals (aa_goals a))"
      then have "steps_left (aa_goals a ! i) (ns ! i)" "i < length ns"
        using goals_left_nth [OF 0(2)] 0(2) by (auto simp: active_mem goals_left_def list_all2_lengthD)
      then show False using i 0(1) by (auto simp: active_mem steps_left_def split: if_splits)
    qed
    then show ?thesis by (metis equals0I set_empty)
  qed
  then have "selectHighestPriorityGoal (aa_goals a) (getActiveGoals (aa_goals a)) = None" by (simp add: select_none)
  then show ?case
    using 0 z assms(2) by (subst auto_loop.simps) (auto simp: auto_result_def)
next
  case (Suc k)
  have "getActiveGoals (aa_goals a) \<noteq> []" 
    using no_active_left [OF Suc.prems(1)] Suc.hyps(2) by (metis Zero_not_Suc sum_list_eq_0_iff)
  then obtain i where i: "selectHighestPriorityGoal (aa_goals a) (getActiveGoals (aa_goals a)) = Some i"
    using select_none by (metis option.exhaust)
  then have act: "i < length (aa_goals a)" "gl_Status (aa_goals a ! i) = GoalStatusActive"
    using select_highest [OF i] by (simp_all add: active_mem)
  note up = update_progress_left [OF Suc.prems(1) act]
  obtain out w1 where wk: "worker ctx i (aa_goals a) w = (Ok out, aa_goals a, True, w1)"
    using assms(1) unfolding obedient_def by blast
  let ?a = "a\<lparr>aa_iterationCount := aa_iterationCount a + 1, aa_isRunning := True, aa_goals := update_progress i (aa_goals a)\<rparr>"
  have "aa_iterationCount a < aa_maxIterations a" using Suc.prems(3) Suc.hyps(2) by simp
  then have loop: "auto_loop ctxerr None worker ctx results a w = auto_loop ctxerr None worker ctx (results @ [out]) ?a w1"
    using Suc.prems(2) assms(2) i wk by (subst auto_loop.simps) simp
  have "\<exists>r a' w'. auto_loop ctxerr None worker ctx (results @ [out]) ?a w1 = (Ok r, a', w') \<and>
      goals_left (aa_goals a') (map (\<lambda>n. 0) (ns[i := ns ! i - 1])) \<and>
      ar_Iterations r = aa_iterationCount ?a + int (sum_list (ns[i := ns ! i - 1])) \<and>
      length (ar_Results r) = length (results @ [out]) + sum_list (ns[i := ns ! i - 1]) \<and>
      ar_GoalsCompleted r = countCompletedGoals (aa_goals a') \<and> \<not> aa_isRunning a'"
    by (rule Suc.hyps(1)) (use up Suc.hyps(2) Suc.prems(3) in auto)
  moreover have "map (\<lambda>n. 0) (ns[i := ns ! i - 1]) = map (\<lambda>n. 0 :: nat) ns" 
    by (simp only: map_replicate_const length_list_update)
  ultimately show ?case unfolding loop using up(2) by fastforce
qed

text \<open>
  An autonomous agent completes its goals: with new goals, five iterations for each of them
  within the limit, a worker that succeeds and leaves the goals alone, and a context that is
  not cancelled, a run ends with every goal completed, after exactly five iterations for each
  goal, with one result for each iteration and a progress of 100 percent.
\<close>
lemma autonomous_completes:
  assumes "obedient worker ctx" and "\<And>w. ctxerr ctx w = None"
    and "\<forall>g \<in> set (aa_goals a). gl_Status g = GoalStatusActive \<and> gl_Progress g = 0"
    and "5 * int (length (aa_goals a)) \<le> aa_maxIterations a - aa_iterationCount a"
  shows "\<exists>r a' w'. auto_Run ctxerr None worker ctx a w = (Ok r, a', w') \<and>
    ar_GoalsCompleted r = int (length (aa_goals a)) \<and>
    ar_Iterations r = aa_iterationCount a + 5 * int (length (aa_goals a)) \<and>
    length (ar_Results r) = 5 * length (aa_goals a) \<and>
    GetProgress a' = (if aa_goals a = [] then 0 else 100)"
proof -
  let ?ns = "replicate (length (aa_goals a)) (5 :: nat)"
  have sum: "sum_list ?ns = 5 * length (aa_goals a)" by (simp add: sum_list_replicate)
  have "goals_left (aa_goals a) ?ns"
    using assms(3) by (auto simp: goals_left_def list_all2_conv_all_nth steps_left_def)
  then have "\<exists>r a' w'. auto_Run ctxerr None worker ctx a w = (Ok r, a', w') \<and> goals_left (aa_goals a') (map (\<lambda>n. 0) ?ns) \<and>
      ar_Iterations r = aa_iterationCount a + int (sum_list ?ns) \<and> length (ar_Results r) = sum_list ?ns \<and>
      ar_GoalsCompleted r = countCompletedGoals (aa_goals a')"
    unfolding auto_Run_def
    using auto_loop_completes [where worker = worker and ctx = ctx and ctxerr = ctxerr and a = "a\<lparr>aa_isRunning := True\<rparr>"
        and ns = ?ns and results = "[]" and w = w] assms(1,2,4) by (auto simp: sum)
  then obtain r a' w' where R: "auto_Run ctxerr None worker ctx a w = (Ok r, a', w')"
      "goals_left (aa_goals a') (replicate (length (aa_goals a)) 0)"
      "ar_Iterations r = aa_iterationCount a + int (5 * length (aa_goals a))" "length (ar_Results r) = 5 * length (aa_goals a)"
      "ar_GoalsCompleted r = countCompletedGoals (aa_goals a')"
    by (auto simp: sum map_replicate_const)
  have len: "length (aa_goals a') = length (aa_goals a)" using R(2) by (auto simp: goals_left_def dest: list_all2_lengthD)
  have finished: "gl_Status g = GoalStatusCompleted \<and> gl_Progress g = 1" if g: "g \<in> set (aa_goals a')" for g
  proof -
    obtain i where i: "i < length (aa_goals a')" "g = aa_goals a' ! i" using g unfolding in_set_conv_nth by blast
    then have "steps_left g 0" using goals_left_nth [OF R(2), of i] len by simp
    then show ?thesis by (simp add: steps_left_def)
  qed
  then have "filter (\<lambda>g. gl_Status g = GoalStatusCompleted) (aa_goals a') = aa_goals a'" by (simp add: filter_id_conv)
  then have "countCompletedGoals (aa_goals a') = int (length (aa_goals a))" using len by (simp add: countCompletedGoals_def)
  moreover have "map gl_Progress (aa_goals a') = replicate (length (aa_goals a)) 1"
    using finished len by (intro replicate_eqI) auto
  then have "GetProgress a' = (if aa_goals a = [] then 0 else 100)" using len by (auto simp: GetProgress_def sum_list_replicate)
  ultimately show ?thesis using R by auto
qed

end
