(* ===== verification/Planning.thy ===== *)
theory Planning
  imports Text_Lines Task_Patterns
begin

text \<open>
  The planning agent (\<open>patterns/planning.go\<close>): a language model writes a plan, the plan is parsed
  into steps, and the steps are executed as their dependencies allow, with replanning after
  failures.

  The loop of \<open>executePlan\<close> need not end for every plan, so it is a partial function; it is proved
  to return for plans numbered in order, the only ones \<open>parsePlan\<close> makes.  Step executors and the
  model are parameters; an executor is taken not to change the map it is shown.
\<close>

section \<open>Plans\<close>

datatype StepStatus = StepPending | StepInProgress | StepCompleted | StepFailed | StepSkipped

record PlanStep =
  ps_Description :: string
  ps_Dependencies :: "int list"
  ps_Status :: StepStatus
  ps_Result :: "gval option"
  ps_Error :: string
  ps_StepNumber :: int
  ps_Timestamp :: time

definition CreatePlanStep :: "time \<Rightarrow> string \<Rightarrow> int \<Rightarrow> int list \<Rightarrow> PlanStep" where
  "CreatePlanStep now description stepNumber dependencies =
     \<lparr>ps_Description = description, ps_Dependencies = dependencies, ps_Status = StepPending, ps_Result = None,
      ps_Error = [], ps_StepNumber = stepNumber, ps_Timestamp = now\<rparr>"

definition CanExecuteStep :: "PlanStep \<Rightarrow> int list \<Rightarrow> bool" where
  "CanExecuteStep step completedSteps \<longleftrightarrow> list_all (\<lambda>dep. dep \<in> set completedSteps) (ps_Dependencies step)"

record Plan =
  pn_Goal :: string
  pn_Steps :: "PlanStep list"
  pn_CreatedAt :: time

definition CreatePlan :: "time \<Rightarrow> string \<Rightarrow> PlanStep list \<Rightarrow> Plan" where
  "CreatePlan now goal steps = \<lparr>pn_Goal = goal, pn_Steps = steps, pn_CreatedAt = now\<rparr>"

definition completed_indices :: "PlanStep list \<Rightarrow> int list" where
  "completed_indices steps = map (int \<circ> fst) (filter (\<lambda>(i, s). ps_Status s = StepCompleted) (enumerate 0 steps))"

definition GetNextSteps :: "PlanStep list \<Rightarrow> PlanStep list" where
  "GetNextSteps steps =
     filter (\<lambda>s. ps_Status s = StepPending \<and> CanExecuteStep s (completed_indices steps)) steps"

definition IsPlanComplete :: "PlanStep list \<Rightarrow> bool" where
  "IsPlanComplete steps \<longleftrightarrow> list_all (\<lambda>s. ps_Status s = StepCompleted \<or> ps_Status s = StepSkipped) steps"

definition HasPlanFailures :: "PlanStep list \<Rightarrow> bool" where
  "HasPlanFailures steps \<longleftrightarrow> list_ex (\<lambda>s. ps_Status s = StepFailed) steps"

definition GetPlanProgress :: "PlanStep list \<Rightarrow> real" where
  "GetPlanProgress steps =
     (if length steps = 0 then 0
      else real (length (filter (\<lambda>s. ps_Status s = StepCompleted \<or> ps_Status s = StepSkipped) steps)) / real (length steps) * 100)"

section \<open>The agent\<close>

type_synonym 'w executor = "go_ctx \<Rightarrow> PlanStep \<Rightarrow> (string \<times> gval) list \<Rightarrow> 'w \<Rightarrow> gval outcome \<times> 'w"

definition DefaultStepExecutor :: "'w executor" where
  "DefaultStepExecutor ctx step context w = (Ok (GStr (''Completed: '' @ ps_Description step)), w)"

record 'w PlanningAgent =
  pa_llm :: "'w chat"
  pa_executor :: "'w executor"
  pa_maxSteps :: int
  pa_allowReplanning :: bool
  pa_systemPrompt :: string
  pa_currentPlan :: "Plan option"

definition defaultSystemPrompt :: "int \<Rightarrow> string" where
  "defaultSystemPrompt maxSteps =
     strings_Join [''You are a planning agent that breaks down complex tasks into steps.'', [],
       ''For each task, create a plan with specific, actionable steps.'', [], ''Format your plan as:'', ''Goal: [overall goal]'',
       ''Steps:'', ''1. [first step]'', ''2. [second step]'', ''...'', [], ''Maximum '' @ show_int maxSteps @ '' steps.'', [],
       ''Guidelines:'', ''- Make steps concrete and actionable'', ''- Consider dependencies between steps'',
       ''- Keep steps focused and achievable'', ''- Include verification steps when appropriate''] newline"

definition NewPlanningAgent :: "'w chat \<Rightarrow> 'w executor option \<Rightarrow> (int \<times> bool \<times> string) option \<Rightarrow> 'w PlanningAgent" where
  "NewPlanningAgent llm executor config =
     (let (maxSteps, allowReplanning, systemPrompt) = (case config of None \<Rightarrow> (0, False, []) | Some c \<Rightarrow> c);
          maxSteps = (if maxSteps = 0 then 10 else maxSteps)
      in \<lparr>pa_llm = llm, pa_executor = (case executor of None \<Rightarrow> DefaultStepExecutor | Some e \<Rightarrow> e), pa_maxSteps = maxSteps,
          pa_allowReplanning = allowReplanning,
          pa_systemPrompt = (if systemPrompt \<noteq> [] then systemPrompt else defaultSystemPrompt maxSteps),
          pa_currentPlan = None\<rparr>)"

text \<open>The match of \<open>^(\d+)[.)]\<close> at the start of a line is cut off.\<close>

definition strip_number :: "string \<Rightarrow> string option" where
  "strip_number s =
     (let ds = takeWhile is_digit s in
      case drop (length ds) s of
        c # rest \<Rightarrow> if ds \<noteq> [] \<and> (c = CHR ''.'' \<or> c = CHR '')'') then Some rest else None
      | [] \<Rightarrow> None)"

definition step_text :: "(string \<Rightarrow> string) \<Rightarrow> int \<Rightarrow> string \<Rightarrow> string" where
  "step_text trim stepNumber line =
     (let s = (case strip_number line of Some rest \<Rightarrow> trim rest | None \<Rightarrow> line);
          p = ''Step '' @ show_int (stepNumber + 1) @ '':''
      in if HasPrefix s p then trim (TrimPrefix s p) else s)"

fun parse_steps ::
    "(string \<Rightarrow> string) \<Rightarrow> 'w clock \<Rightarrow> int \<Rightarrow> bool \<Rightarrow> string list \<Rightarrow> PlanStep list \<Rightarrow> 'w \<Rightarrow> PlanStep list \<times> 'w" where
  "parse_steps trim clock maxSteps inSteps [] steps w = (steps, w)"
| "parse_steps trim clock maxSteps inSteps (l # ls) steps w =
     (let line = trim l in
      if HasPrefix line ''Steps:'' then parse_steps trim clock maxSteps True ls steps w
      else if inSteps \<and> line \<noteq> [] then
        (let s = step_text trim (int (length steps)) line in
         if s \<noteq> [] \<and> int (length steps) < maxSteps
         then (let (now, w) = clock w in
               parse_steps trim clock maxSteps inSteps ls (steps @ [CreatePlanStep now s (int (length steps)) []]) w)
         else parse_steps trim clock maxSteps inSteps ls steps w)
      else parse_steps trim clock maxSteps inSteps ls steps w)"

definition plan_goal :: "(string \<Rightarrow> string) \<Rightarrow> string list \<Rightarrow> string \<Rightarrow> string" where
  "plan_goal trim ls goal =
     (case find (\<lambda>l. HasPrefix (trim l) ''Goal:'') ls of
        None \<Rightarrow> goal
      | Some l \<Rightarrow> trim (TrimPrefix (trim l) ''Goal:''))"

definition parsePlan :: "(string \<Rightarrow> string) \<Rightarrow> 'w clock \<Rightarrow> int \<Rightarrow> string \<Rightarrow> string \<Rightarrow> 'w \<Rightarrow> Plan \<times> 'w" where
  "parsePlan trim clock maxSteps planText goal w =
     (let ls = split_char (CHR 0x0A) (trim planText);
          (steps, w) = parse_steps trim clock maxSteps False ls [] w;
          (now, w) = clock w
      in (CreatePlan now (plan_goal trim ls goal) steps, w))"

text \<open>A message literal: no metadata, zero time.\<close>

definition literal :: "string \<Rightarrow> string \<Rightarrow> message" where
  "literal role content = \<lparr>msg_role = role, msg_content = GStr content, msg_metadata = None, msg_timestamp = 0\<rparr>"

definition createPlan ::
    "(real \<Rightarrow> string) \<Rightarrow> (string \<Rightarrow> string) \<Rightarrow> 'w clock \<Rightarrow> 'w PlanningAgent \<Rightarrow> go_ctx \<Rightarrow> string \<Rightarrow> 'w \<Rightarrow> Plan outcome \<times> 'w" where
  "createPlan ff trim clock p ctx task w =
     (case pa_llm p ctx [Some (literal ''system'' (pa_systemPrompt p)), Some (literal ''user'' (''Create a plan for: '' @ task))] w of
        (Err e, w) \<Rightarrow> (Err (Errorf ''LLM chat failed: %w'' [] (Some e)), w)
      | (Panic q, w) \<Rightarrow> (Panic q, w)
      | (Ok None, w) \<Rightarrow> (Panic ''nil pointer dereference'', w)
      | (Ok (Some r), w) \<Rightarrow>
          (let (plan, w) = parsePlan trim clock (pa_maxSteps p) (ContentString ff r) task w in (Ok plan, w)))"

definition failed_text :: "PlanStep list \<Rightarrow> string" where
  "failed_text steps =
     strings_Join (map (\<lambda>s. ''- '' @ ps_Description s @ '' (Error: '' @ ps_Error s @ '')'')
       (filter (\<lambda>s. ps_Status s = StepFailed) steps)) newline"

definition skip_failed :: "PlanStep list \<Rightarrow> PlanStep list" where
  "skip_failed steps = map (\<lambda>s. if ps_Status s = StepFailed then s\<lparr>ps_Status := StepSkipped\<rparr> else s) steps"

definition replan :: "'w PlanningAgent \<Rightarrow> go_ctx \<Rightarrow> string \<Rightarrow> PlanStep list \<Rightarrow> 'w \<Rightarrow> PlanStep list outcome \<times> 'w" where
  "replan p ctx goal steps w =
     (if \<not> HasPlanFailures steps then (Ok steps, w)
      else
        case pa_llm p ctx [Some (literal ''system'' (pa_systemPrompt p)),
               Some (literal ''user'' (''The following steps failed:'' @ newline @ failed_text steps @ newline @ newline @
                 ''Create alternative steps to accomplish the goal: '' @ goal))] w of
          (Err e, w) \<Rightarrow> (Err (Errorf ''replanning LLM call failed: %w'' [] (Some e)), w)
        | (Panic q, w) \<Rightarrow> (Panic q, w)
        | (Ok r, w) \<Rightarrow> (Ok (skip_failed steps), w))"

text \<open>The steps, the context and the lines of the summary while the plan runs.\<close>

record running =
  rn_steps :: "PlanStep list"
  rn_context :: "(string \<times> gval) list"
  rn_results :: "string list"

definition check_mark :: string where
  "check_mark = [CHR 0xE2, CHR 0x9C, CHR 0x93]"

definition cross_mark :: string where
  "cross_mark = [CHR 0xE2, CHR 0x9C, CHR 0x97]"

fun index_of :: "('a \<Rightarrow> bool) \<Rightarrow> 'a list \<Rightarrow> nat option" where
  "index_of P [] = None"
| "index_of P (x # xs) = (if P x then Some 0 else map_option Suc (index_of P xs))"

definition step_line :: "PlanStep \<Rightarrow> string \<Rightarrow> string" where
  "step_line s result = ''Step '' @ show_int (ps_StepNumber s + 1) @ '': '' @ ps_Description s @ '' '' @ result"

definition run_step ::
    "(go_error \<Rightarrow> string) \<Rightarrow> 'w executor \<Rightarrow> go_ctx \<Rightarrow> PlanStep \<Rightarrow> running \<Rightarrow> 'w \<Rightarrow> running outcome \<times> 'w" where
  "run_step err_text execute ctx step rn w =
     (case index_of (\<lambda>s. ps_StepNumber s = ps_StepNumber step) (rn_steps rn) of
        None \<Rightarrow> (Ok rn, w)
      | Some i \<Rightarrow>
          let s = (rn_steps rn ! i)\<lparr>ps_Status := StepInProgress\<rparr> in
          (case execute ctx step (rn_context rn) w of
             (Err e, w) \<Rightarrow>
               (Ok (rn\<lparr>rn_steps := (rn_steps rn)[i := s\<lparr>ps_Error := err_text e, ps_Status := StepFailed\<rparr>],
                       rn_results := rn_results rn @ [step_line step (cross_mark @ '' ('' @ err_text e @ '')'')]\<rparr>), w)
           | (Panic q, w) \<Rightarrow> (Panic q, w)
           | (Ok result, w) \<Rightarrow>
               (Ok (rn\<lparr>rn_steps := (rn_steps rn)[i := s\<lparr>ps_Result := Some result, ps_Status := StepCompleted\<rparr>],
                       rn_context := go_set (''step_'' @ show_int (ps_StepNumber step) @ ''_result'') result (rn_context rn),
                       rn_results := rn_results rn @ [step_line step check_mark]\<rparr>), w)))"

fun run_steps ::
    "(go_error \<Rightarrow> string) \<Rightarrow> 'w executor \<Rightarrow> go_ctx \<Rightarrow> PlanStep list \<Rightarrow> running \<Rightarrow> 'w \<Rightarrow> running outcome \<times> 'w" where
  "run_steps err_text execute ctx [] rn w = (Ok rn, w)"
| "run_steps err_text execute ctx (s # ss) rn w =
     (case run_step err_text execute ctx s rn w of
        (Ok rn, w) \<Rightarrow> run_steps err_text execute ctx ss rn w
      | (Err e, w) \<Rightarrow> (Err e, w)
      | (Panic q, w) \<Rightarrow> (Panic q, w))"

partial_function (option) exec_loop ::
    "(go_error \<Rightarrow> string) \<Rightarrow> 'w PlanningAgent \<Rightarrow> go_ctx \<Rightarrow> string \<Rightarrow> running \<Rightarrow> 'w \<Rightarrow> (running outcome \<times> running \<times> 'w) option" where
  "exec_loop err_text p ctx goal rn w =
     (if IsPlanComplete (rn_steps rn) then Some (Ok rn, rn, w)
      else if GetNextSteps (rn_steps rn) = [] then
        (if HasPlanFailures (rn_steps rn) \<and> pa_allowReplanning p then
           (case replan p ctx goal (rn_steps rn) w of
              (Err e, w) \<Rightarrow> Some (Err (Errorf ''replanning failed: %w'' [] (Some e)), rn, w)
            | (Panic q, w) \<Rightarrow> Some (Panic q, rn, w)
            | (Ok steps, w) \<Rightarrow> exec_loop err_text p ctx goal (rn\<lparr>rn_steps := steps\<rparr>) w)
         else Some (Ok rn, rn, w))
      else
        (case run_steps err_text (pa_executor p) ctx (GetNextSteps (rn_steps rn)) rn w of
           (Ok rn, w) \<Rightarrow> exec_loop err_text p ctx goal rn w
         | (Err e, w) \<Rightarrow> Some (Err e, rn, w)
         | (Panic q, w) \<Rightarrow> Some (Panic q, rn, w)))"

declare exec_loop.simps [code]

definition plan_summary :: "(real \<Rightarrow> string) \<Rightarrow> running \<Rightarrow> string" where
  "plan_summary f0 rn =
     (let pct = f0 (GetPlanProgress (rn_steps rn)) in
      strings_Join (rn_results rn) newline @ newline @ newline @
      (if IsPlanComplete (rn_steps rn) then ''Plan completed successfully ('' @ pct @ ''%)''
       else if HasPlanFailures (rn_steps rn) then ''Plan failed ('' @ pct @ ''% complete)''
       else ''Plan partially completed ('' @ pct @ ''%)''))"

definition executePlan ::
    "(real \<Rightarrow> string) \<Rightarrow> (go_error \<Rightarrow> string) \<Rightarrow> 'w PlanningAgent \<Rightarrow> go_ctx \<Rightarrow> Plan \<Rightarrow> 'w \<Rightarrow> (string outcome \<times> Plan \<times> 'w) option" where
  "executePlan f0 err_text p ctx plan w =
     map_option (\<lambda>(r, rn, w). (map_outcome (plan_summary f0) r, plan\<lparr>pn_Steps := rn_steps rn\<rparr>, w))
       (exec_loop err_text p ctx (pn_Goal plan) \<lparr>rn_steps = pn_Steps plan, rn_context = [], rn_results = []\<rparr> w)"

definition plan_message :: "Plan \<Rightarrow> string \<Rightarrow> message" where
  "plan_message plan result =
     literal ''assistant'' (''Task completed.'' @ newline @ newline @ ''Goal: '' @ pn_Goal plan @ newline @ newline @
       ''Steps completed: '' @ show_int (int (length (filter (\<lambda>s. ps_Status s = StepCompleted) (pn_Steps plan)))) @ ''/'' @
       show_int (int (length (pn_Steps plan))) @ newline @ newline @ ''Result: '' @ result)"

definition planning_Process ::
    "(real \<Rightarrow> string) \<Rightarrow> (real \<Rightarrow> string) \<Rightarrow> (string \<Rightarrow> string) \<Rightarrow> (go_error \<Rightarrow> string) \<Rightarrow> 'w clock \<Rightarrow> 'w PlanningAgent \<Rightarrow> go_ctx \<Rightarrow>
     message option \<Rightarrow> 'w \<Rightarrow> (reply \<times> 'w PlanningAgent \<times> 'w) option" where
  "planning_Process ff f0 trim err_text clock p ctx msg w =
     (case msg of
        None \<Rightarrow> Some (Panic ''nil pointer dereference'', p, w)
      | Some m \<Rightarrow>
          (case createPlan ff trim clock p ctx (ContentString ff m) w of
             (Err e, w) \<Rightarrow> Some (Err (Errorf ''failed to create plan: %w'' [] (Some e)), p, w)
           | (Panic q, w) \<Rightarrow> Some (Panic q, p, w)
           | (Ok plan, w) \<Rightarrow>
               map_option (\<lambda>(r, plan, w).
                 ((case r of
                     Ok result \<Rightarrow> Ok (Some (plan_message plan result))
                   | Err e \<Rightarrow> Err (Errorf ''failed to execute plan: %w'' [] (Some e))
                   | Panic q \<Rightarrow> Panic q),
                  p\<lparr>pa_currentPlan := Some plan\<rparr>, w)) (executePlan f0 err_text p ctx plan w)))"

definition planning_GetProgress :: "'w PlanningAgent \<Rightarrow> real" where
  "planning_GetProgress p = (case pa_currentPlan p of None \<Rightarrow> 0 | Some plan \<Rightarrow> GetPlanProgress (pn_Steps plan))"

section \<open>Plans run in the order of their dependencies\<close>

text \<open>An agent whose executor records the numbers of the steps it runs.\<close>

definition logging_agent :: "'w PlanningAgent \<Rightarrow> ('w \<times> int list) PlanningAgent" where
  "logging_agent p =
     \<lparr>pa_llm = (\<lambda>ctx ms (w, l). let (r, w) = pa_llm p ctx ms w in (r, w, l)),
      pa_executor = (\<lambda>ctx s c (w, l). let (r, w) = pa_executor p ctx s c w in (r, w, l @ [ps_StepNumber s])),
      pa_maxSteps = pa_maxSteps p, pa_allowReplanning = pa_allowReplanning p, pa_systemPrompt = pa_systemPrompt p,
      pa_currentPlan = pa_currentPlan p\<rparr>"

text \<open>
  Steps \<open>steps\<close> of a running plan that started as \<open>s0\<close> and has executed the steps \<open>l\<close>; and the
  order of these executions, where \<open>done_before\<close> is the set of completed steps.
\<close>

definition plan_state :: "PlanStep list \<Rightarrow> PlanStep list \<Rightarrow> int list \<Rightarrow> bool" where
  "plan_state s0 steps l \<longleftrightarrow> length steps = length s0 \<and>
     (\<forall>i < length s0. ps_StepNumber (steps ! i) = int i \<and> ps_Dependencies (steps ! i) = ps_Dependencies (s0 ! i) \<and>
        ps_Status (steps ! i) \<noteq> StepInProgress \<and> (ps_Status (steps ! i) = StepPending \<longleftrightarrow> int i \<notin> set l))"

definition ordered_run :: "PlanStep list \<Rightarrow> int set \<Rightarrow> int list \<Rightarrow> bool" where
  "ordered_run s0 finished l \<longleftrightarrow> distinct l \<and> set l \<subseteq> int ` {..<length s0} \<and>
     (\<forall>k < length l. set (ps_Dependencies (s0 ! nat (l ! k))) \<subseteq> set (take k l) \<inter> finished)"

lemma completed_indices_iff:
  "set (completed_indices steps) = {int i | i. i < length steps \<and> ps_Status (steps ! i) = StepCompleted}"
  by (auto simp: completed_indices_def in_set_enumerate_eq image_iff)

lemma index_of_number:
  assumes "plan_state s0 steps l" and "i < length s0"
  shows "index_of (\<lambda>s. ps_StepNumber s = int i) steps = Some i"
proof -
  have "index_of (\<lambda>s. ps_StepNumber s = int i) xs = Some (i - k)"
    if "k \<le> i" "i - k < length xs" "\<forall>j < length xs. ps_StepNumber (xs ! j) = int (j + k)" for xs :: "PlanStep list" and k
    using that
  proof (induction xs arbitrary: k)
    case (Cons x xs)
    have x: "ps_StepNumber x = int k" using Cons.prems(3) [rule_format, of 0] by simp
    show ?case
    proof (cases "i = k")
      case False
      have "\<forall>j < length xs. ps_StepNumber (xs ! j) = int (j + Suc k)" using Cons.prems(3) by fastforce
      then have "index_of (\<lambda>s. ps_StepNumber s = int i) xs = Some (i - Suc k)" using Cons.IH [of "Suc k"] Cons.prems(1,2) False by auto
      then show ?thesis using x False Cons.prems(1) by simp
    qed (simp add: x)
  qed simp
  from this [of 0 steps] show ?thesis using assms by (simp add: plan_state_def)
qed

lemma ordered_run_extend:
  assumes "ordered_run s0 F l" and "i < length s0" and "int i \<notin> set l" and "set (ps_Dependencies (s0 ! i)) \<subseteq> F" and "F \<subseteq> set l"
  shows "ordered_run s0 F (l @ [int i])"
  using assms by (auto simp: ordered_run_def nth_append less_Suc_eq)

lemma ordered_run_mono: "ordered_run s0 F l \<Longrightarrow> F \<subseteq> G \<Longrightarrow> ordered_run s0 G l"
  unfolding ordered_run_def by blast

lemma ordered_run_length: "ordered_run s0 F l \<Longrightarrow> length l \<le> length s0"
  using card_mono [of "int ` {..<length s0}" "set l"]
  by (simp add: ordered_run_def distinct_card card_image inj_on_def)

text \<open>Running one step that is due.\<close>

definition due :: "PlanStep list \<Rightarrow> PlanStep list \<Rightarrow> PlanStep \<Rightarrow> bool" where
  "due s0 steps s \<longleftrightarrow> (\<exists>i < length s0. s = steps ! i \<and> ps_StepNumber s = int i \<and> ps_Status s = StepPending)"

lemma run_step_due:
  assumes st: "plan_state s0 (rn_steps rn) l" and "due s0 (rn_steps rn) s"
    and run: "run_step et (pa_executor (logging_agent p)) ctx s rn (w, l) = (r, w', l')"
  shows "l' = l @ [ps_StepNumber s] \<and> (\<forall>e. r \<noteq> Err e) \<and>
    (\<forall>rn'. r = Ok rn' \<longrightarrow> plan_state s0 (rn_steps rn') l' \<and>
       (\<forall>j. int j \<noteq> ps_StepNumber s \<longrightarrow> rn_steps rn' ! j = rn_steps rn ! j))"
proof -
  obtain i where i: "i < length s0" "s = rn_steps rn ! i" "ps_StepNumber s = int i" using assms(2) by (auto simp: due_def)
  have ix: "index_of (\<lambda>s'. ps_StepNumber s' = int i) (rn_steps rn) = Some i" using index_of_number [OF st i(1)] .
  have len: "length (rn_steps rn) = length s0" using st by (simp add: plan_state_def)
  have upd: "plan_state s0 ((rn_steps rn)[i := s']) (l @ [int i])"
    if "ps_StepNumber s' = int i" "ps_Dependencies s' = ps_Dependencies s" "ps_Status s' = StepCompleted \<or> ps_Status s' = StepFailed" for s'
    using st that i len by (auto simp: plan_state_def nth_list_update)
  obtain q w1 where q: "pa_executor p ctx s (rn_context rn) w = (q, w1)" by (metis prod.exhaust)
  show ?thesis
  proof (cases q)
    case (Ok g)
    then show ?thesis
      using run q ix i(3) i(2) upd [of "s\<lparr>ps_Result := Some g, ps_Status := StepCompleted\<rparr>"] i
      by (auto simp: run_step_def logging_agent_def Let_def)
  next
    case (Err e)
    then show ?thesis
      using run q ix i upd [of "s\<lparr>ps_Error := et e, ps_Status := StepFailed\<rparr>"]
      by (auto simp: run_step_def logging_agent_def Let_def)
  next
    case (Panic x)
    then show ?thesis using run q ix i by (auto simp: run_step_def logging_agent_def Let_def)
  qed
qed

lemma run_steps_due:
  assumes "plan_state s0 (rn_steps rn) l" and "ordered_run s0 F l" and "F \<subseteq> set l" and "F \<subseteq> set (completed_indices (rn_steps rn))"
    and "\<forall>s \<in> set ss. due s0 (rn_steps rn) s \<and> set (ps_Dependencies s) \<subseteq> F" and "distinct (map ps_StepNumber ss)"
    and "run_steps et (pa_executor (logging_agent p)) ctx ss rn (w, l) = (r, w', l')"
  shows "ordered_run s0 F l' \<and> (\<forall>e. r \<noteq> Err e) \<and>
    (\<forall>rn'. r = Ok rn' \<longrightarrow> plan_state s0 (rn_steps rn') l' \<and> length l' = length l + length ss \<and> F \<subseteq> set (completed_indices (rn_steps rn')))"
  using assms
proof (induction ss arbitrary: rn w l)
  case (Cons s ss)
  have due: "due s0 (rn_steps rn) s" "set (ps_Dependencies s) \<subseteq> F" using Cons.prems(5) by auto
  then obtain i where i: "i < length s0" "s = rn_steps rn ! i" "ps_StepNumber s = int i" "ps_Status s = StepPending"
    by (auto simp: due_def)
  have new: "int i \<notin> set l" and deps: "ps_Dependencies s = ps_Dependencies (s0 ! i)"
    using Cons.prems(1) i by (auto simp: plan_state_def)
  have ord: "ordered_run s0 F (l @ [int i])"
    using ordered_run_extend [OF Cons.prems(2) i(1) new] due(2) deps Cons.prems(3) by simp
  obtain q w1 l1 where q: "run_step et (pa_executor (logging_agent p)) ctx s rn (w, l) = (q, w1, l1)" by (metis prod_cases3)
  note step = run_step_due [OF Cons.prems(1) due(1) q]
  then have l1: "l1 = l @ [int i]" using i(3) by simp
  show ?case
  proof (cases q)
    case (Ok rn1)
    then have st: "plan_state s0 (rn_steps rn1) l1" and same: "\<forall>j. j \<noteq> i \<longrightarrow> rn_steps rn1 ! j = rn_steps rn ! j"
      using step i(3) by auto
    have len: "length (rn_steps rn1) = length (rn_steps rn)" using st Cons.prems(1) by (simp add: plan_state_def)
    have "F \<subseteq> set (completed_indices (rn_steps rn1))"
    proof
      fix d assume "d \<in> F"
      then obtain j where "d = int j" "j < length (rn_steps rn)" "ps_Status (rn_steps rn ! j) = StepCompleted"
        using Cons.prems(4) by (auto simp: completed_indices_iff)
      moreover from this have "j \<noteq> i" using i by auto
      ultimately show "d \<in> set (completed_indices (rn_steps rn1))" using same len by (auto simp: completed_indices_iff)
    qed
    moreover have "\<forall>s' \<in> set ss. due s0 (rn_steps rn1) s' \<and> set (ps_Dependencies s') \<subseteq> F"
    proof
      fix s' assume s': "s' \<in> set ss"
      then obtain j where j: "j < length s0" "s' = rn_steps rn ! j" "ps_StepNumber s' = int j" "ps_Status s' = StepPending"
        using Cons.prems(5) by (auto simp: due_def)
      moreover have "int j \<noteq> int i" using Cons.prems(6) s' i(3) j(3) by (metis distinct.simps(2) image_eqI list.set_map list.simps(9))
      ultimately show "due s0 (rn_steps rn1) s' \<and> set (ps_Dependencies s') \<subseteq> F"
        using same s' Cons.prems(5) by (auto simp: due_def)
    qed
    ultimately show ?thesis
      using Cons.IH [OF st, of w1] Cons.prems(3,6,7) ord l1 q Ok by auto
  next
    case (Err e)
    then show ?thesis using step by simp
  next
    case (Panic x)
    then show ?thesis using Cons.prems(7) q ord l1 by auto
  qed
qed auto

lemma next_steps_due:
  assumes "plan_state s0 steps l" and "s \<in> set (GetNextSteps steps)"
  shows "due s0 steps s \<and> set (ps_Dependencies s) \<subseteq> set (completed_indices steps)"
proof -
  obtain i where "i < length steps" "s = steps ! i" using assms(2) by (auto simp: GetNextSteps_def in_set_conv_nth)
  then show ?thesis using assms by (auto simp: due_def plan_state_def GetNextSteps_def CanExecuteStep_def list_all_iff)
qed

lemma next_steps_distinct:
  assumes "plan_state s0 steps l"
  shows "distinct (map ps_StepNumber (GetNextSteps steps))"
proof -
  have "map ps_StepNumber steps = map int [0..<length steps]"
    using assms by (intro nth_equalityI) (auto simp: plan_state_def)
  then have "distinct (map ps_StepNumber steps)" by (simp add: distinct_map)
  then show ?thesis unfolding GetNextSteps_def by (simp add: distinct_map_filter)
qed

lemma completed_ran: "plan_state s0 steps l \<Longrightarrow> set (completed_indices steps) \<subseteq> set l"
  unfolding completed_indices_iff plan_state_def by force

lemma skip_failed_state:
  assumes "plan_state s0 steps l"
  shows "plan_state s0 (skip_failed steps) l" and "set (completed_indices (skip_failed steps)) = set (completed_indices steps)"
  using assms by (auto simp: skip_failed_def plan_state_def completed_indices_iff split: if_splits)

lemma blocked_when_idle:
  assumes "plan_state s0 steps l" and "GetNextSteps steps = [] \<or> IsPlanComplete steps" and "i < length s0" and "int i \<notin> set l"
  shows "\<not> set (ps_Dependencies (s0 ! i)) \<subseteq> set (completed_indices steps)"
proof -
  have p: "ps_Status (steps ! i) = StepPending" "ps_Dependencies (steps ! i) = ps_Dependencies (s0 ! i)" "steps ! i \<in> set steps"
    using assms(1,3,4) by (auto simp: plan_state_def)
  then have "\<not> IsPlanComplete steps" by (force simp: IsPlanComplete_def list_all_iff)
  then show ?thesis
    using assms(2) p by (fastforce simp: GetNextSteps_def CanExecuteStep_def filter_empty_conv list_all_iff)
qed

lemma replan_logging:
  "\<exists>r w'. replan (logging_agent p) ctx goal steps (w, l) = (r, w', l) \<and> (r = Ok (skip_failed steps) \<or> \<not> is_Ok r)"
  if "HasPlanFailures steps"
proof -
  obtain q w' where "pa_llm p ctx [Some (literal ''system'' (pa_systemPrompt p)),
               Some (literal ''user'' (''The following steps failed:'' @ newline @ failed_text steps @ newline @ newline @
                 ''Create alternative steps to accomplish the goal: '' @ goal))] w = (q, w')" by (metis prod.exhaust)
  then show ?thesis using that by (cases q) (auto simp: replan_def logging_agent_def)
qed

definition failures :: "PlanStep list \<Rightarrow> nat" where
  "failures steps = length (filter (\<lambda>s. ps_Status s = StepFailed) steps)"

lemma skip_failed_decreases: "HasPlanFailures steps \<Longrightarrow> failures (skip_failed steps) < failures steps"
  by (auto simp: failures_def skip_failed_def HasPlanFailures_def list_ex_iff filter_map o_def length_greater_0_conv filter_empty_conv
      split: if_splits)

lemma exec_loop_ordered:
  assumes "plan_state s0 (rn_steps rn) l" and "ordered_run s0 (set (completed_indices (rn_steps rn))) l"
  shows "\<exists>r rn' w' l'. exec_loop et (logging_agent p) ctx goal rn (w, l) = Some (r, rn', w', l') \<and>
    ordered_run s0 (set (completed_indices (rn_steps rn'))) l' \<and>
    (is_Ok r \<longrightarrow> r = Ok rn' \<and> plan_state s0 (rn_steps rn') l' \<and> (GetNextSteps (rn_steps rn') = [] \<or> IsPlanComplete (rn_steps rn')))"
  using assms
proof (induction "(rn, w, l)" arbitrary: rn w l
    rule: wf_induct_rule [OF wf_measures, of "[\<lambda>(rn, w, l). length s0 - length l, \<lambda>(rn, w, l). failures (rn_steps rn)]"])
  case 1
  note st = 1(2) and ord = 1(3)
  let ?steps = "rn_steps rn" and ?p = "logging_agent p"
  consider (complete) "IsPlanComplete ?steps"
    | (stuck) "\<not> IsPlanComplete ?steps" "GetNextSteps ?steps = []" "\<not> (HasPlanFailures ?steps \<and> pa_allowReplanning ?p)"
    | (replan) "\<not> IsPlanComplete ?steps" "GetNextSteps ?steps = []" "HasPlanFailures ?steps" "pa_allowReplanning ?p"
    | (go) "\<not> IsPlanComplete ?steps" "GetNextSteps ?steps \<noteq> []" by blast
  then show ?case
  proof cases
    case complete
    then have "exec_loop et ?p ctx goal rn (w, l) = Some (Ok rn, rn, w, l)" by (subst exec_loop.simps) simp
    then show ?thesis using st ord complete by auto
  next
    case stuck
    have "exec_loop et ?p ctx goal rn (w, l) = Some (Ok rn, rn, w, l)"
      by (subst exec_loop.simps) (simp only: stuck if_False if_True simp_thms)
    then show ?thesis using st ord stuck(2) by auto
  next
    case replan
    obtain r w' where r: "Planning.replan ?p ctx goal ?steps (w, l) = (r, w', l)" "r = Ok (skip_failed ?steps) \<or> \<not> is_Ok r"
      using replan_logging [OF replan(3), of p ctx goal w l] by auto
    show ?thesis
    proof (cases "is_Ok r")
      case True
      then have r': "r = Ok (skip_failed ?steps)" using r(2) by simp
      have next': "exec_loop et ?p ctx goal rn (w, l) = exec_loop et ?p ctx goal (rn\<lparr>rn_steps := skip_failed ?steps\<rparr>) (w', l)"
        using replan r r' by (subst exec_loop.simps) simp
      show ?thesis
        unfolding next' using skip_failed_state [OF st] ord skip_failed_decreases [OF replan(3)]
        by (intro 1(1)) auto
    next
      case False
      then have "\<exists>r'. exec_loop et ?p ctx goal rn (w, l) = Some (r', rn, w', l) \<and> \<not> is_Ok r'"
        using replan r(1) by (subst exec_loop.simps) (cases r; simp)
      then show ?thesis using ord by blast
    qed
  next
    case go
    let ?next = "GetNextSteps ?steps" and ?F = "set (completed_indices ?steps)"
    obtain r w' l' where r: "run_steps et (pa_executor ?p) ctx ?next rn (w, l) = (r, w', l')" by (metis prod_cases3)
    have post: "ordered_run s0 ?F l' \<and> (\<forall>e. r \<noteq> Err e) \<and>
      (\<forall>rn'. r = Ok rn' \<longrightarrow> plan_state s0 (rn_steps rn') l' \<and> length l' = length l + length ?next \<and> ?F \<subseteq> set (completed_indices (rn_steps rn')))"
      using run_steps_due [OF st ord completed_ran [OF st] order_refl _ next_steps_distinct [OF st] r] next_steps_due [OF st] by blast
    show ?thesis
    proof (cases r)
      case (Ok rn')
      have next': "exec_loop et ?p ctx goal rn (w, l) = exec_loop et ?p ctx goal rn' (w', l')"
        using go r Ok by (subst exec_loop.simps) simp
      have "length l' \<le> length s0" using post ordered_run_length by blast
      moreover have "length l < length l'" using post Ok go(2) by simp
      ultimately have "length s0 - length l' < length s0 - length l" by linarith
      then have "((rn', w', l'), (rn, w, l)) \<in> measures [\<lambda>(rn, w, l). length s0 - length l, \<lambda>(rn, w, l). failures (rn_steps rn)]"
        by simp
      then show ?thesis unfolding next' using post Ok ordered_run_mono by (intro 1(1)) auto
    next
      case (Err e)
      then show ?thesis using post by simp
    next
      case (Panic x)
      then show ?thesis using go r post by (subst exec_loop.simps) simp
    qed
  qed
qed

definition fresh_plan :: "Plan \<Rightarrow> bool" where
  "fresh_plan plan \<longleftrightarrow> (\<forall>i < length (pn_Steps plan). ps_StepNumber (pn_Steps plan ! i) = int i \<and> ps_Status (pn_Steps plan ! i) = StepPending)"

text \<open>
  C27.
  Execution of a plan ends and respects the dependencies, whatever the step executor, the model
  and the failures do: for a plan whose pending steps are numbered in order \<open>executePlan\<close>
  returns; no step runs twice; every step runs after all the steps it depends on, and these have
  completed; and unless an error or a panic ended the run, a step that has not run depends on
  one that has not completed.
\<close>
theorem plan_runs_in_order:
  assumes "fresh_plan plan"
  shows "\<exists>r plan' w' l. executePlan f0 et (logging_agent p) ctx plan (w, []) = Some (r, plan', w', l) \<and>
    ordered_run (pn_Steps plan) (set (completed_indices (pn_Steps plan'))) l \<and>
    (is_Ok r \<longrightarrow> (\<forall>i < length (pn_Steps plan). int i \<notin> set l \<longrightarrow>
       \<not> set (ps_Dependencies (pn_Steps plan ! i)) \<subseteq> set (completed_indices (pn_Steps plan'))))"
proof -
  let ?s0 = "pn_Steps plan" and ?rn = "\<lparr>rn_steps = pn_Steps plan, rn_context = [], rn_results = []\<rparr>"
  have st: "plan_state ?s0 (rn_steps ?rn) []" using assms by (simp add: plan_state_def fresh_plan_def)
  have "ordered_run ?s0 (set (completed_indices (rn_steps ?rn))) []" by (simp add: ordered_run_def)
  from exec_loop_ordered [OF st this, of et p ctx "pn_Goal plan" w]
  obtain r rn' w' l where run: "exec_loop et (logging_agent p) ctx (pn_Goal plan) ?rn (w, []) = Some (r, rn', w', l)"
    and ord: "ordered_run ?s0 (set (completed_indices (rn_steps rn'))) l"
    and ok: "is_Ok r \<longrightarrow> plan_state ?s0 (rn_steps rn') l \<and> (GetNextSteps (rn_steps rn') = [] \<or> IsPlanComplete (rn_steps rn'))" by blast
  have is_ok: "is_Ok (map_outcome f r) = is_Ok r" for f :: "running \<Rightarrow> string" by (cases r) auto
  have "executePlan f0 et (logging_agent p) ctx plan (w, []) =
      Some (map_outcome (plan_summary f0) r, plan\<lparr>pn_Steps := rn_steps rn'\<rparr>, w', l)"
    using run by (simp add: executePlan_def)
  moreover have "\<forall>i < length ?s0. int i \<notin> set l \<longrightarrow> \<not> set (ps_Dependencies (?s0 ! i)) \<subseteq> set (completed_indices (rn_steps rn'))" if "is_Ok r"
    using blocked_when_idle ok that by blast
  ultimately show ?thesis using ord is_ok by fastforce
qed

definition two_step_plan :: Plan where
  "two_step_plan = CreatePlan 0 ''goal'' [CreatePlanStep 0 ''second'' 0 [1], CreatePlanStep 0 ''first'' 1 []]"

definition silent_model :: "'w chat" where
  "silent_model ctx ms w = (Ok None, w)"

definition planner_with :: "'w executor \<Rightarrow> bool \<Rightarrow> 'w PlanningAgent" where
  "planner_with execute allow = NewPlanningAgent silent_model (Some execute) (Some (10, allow, ''plan''))"

theorem plan_runs_in_order_witness:
  "\<exists>r plan' l. executePlan (\<lambda>r. []) (\<lambda>e. []) (logging_agent (planner_with DefaultStepExecutor False)) Background two_step_plan ((), []) = Some (r, plan', (), l) \<and>
     ordered_run (pn_Steps two_step_plan) (set (completed_indices (pn_Steps plan'))) l"
proof -
  have "fresh_plan two_step_plan"
    by (simp add: fresh_plan_def two_step_plan_def CreatePlan_def CreatePlanStep_def less_Suc_eq)
  from plan_runs_in_order [OF this, of "\<lambda>r. []" "\<lambda>e. []" "planner_with DefaultStepExecutor False" Background "()"]
  show ?thesis by (metis (full_types) old.unit.exhaust)
qed

text \<open>The plans the agent makes are fresh: their steps are pending, numbered in order, without dependencies, at most \<open>maxSteps\<close>.\<close>

definition parsed_steps :: "int \<Rightarrow> PlanStep list \<Rightarrow> bool" where
  "parsed_steps maxSteps steps \<longleftrightarrow> int (length steps) \<le> max 0 maxSteps \<and>
     (\<forall>i < length steps. ps_StepNumber (steps ! i) = int i \<and> ps_Status (steps ! i) = StepPending \<and>
        ps_Dependencies (steps ! i) = [] \<and> ps_Description (steps ! i) \<noteq> [])"

lemma parse_steps_parsed:
  "parsed_steps maxSteps steps \<Longrightarrow> parsed_steps maxSteps (fst (parse_steps trim clock maxSteps inSteps ls steps w))"
proof (induction ls arbitrary: inSteps steps w)
  case (Cons l ls)
  have step: "parsed_steps maxSteps (steps @ [CreatePlanStep now s (int (length steps)) []])"
    if "s \<noteq> []" "int (length steps) < maxSteps" for s now
    using Cons.prems that by (auto simp: parsed_steps_def nth_append CreatePlanStep_def less_Suc_eq)
  show ?case using Cons.IH Cons.prems step by (auto simp: Let_def split: prod.split)
qed simp

lemma parsePlan_parsed: "parsed_steps maxSteps (pn_Steps (fst (parsePlan trim clock maxSteps planText goal w)))"
  using parse_steps_parsed [of maxSteps "[]" trim clock False "split_char (CHR 0x0A) (trim planText)" w]
  by (simp add: parsePlan_def CreatePlan_def parsed_steps_def Let_def split_def)

definition quiet_clock :: "'w clock \<Rightarrow> ('w \<times> int list) clock" where
  "quiet_clock clock wl = (case wl of (w, l) \<Rightarrow> let (t, w) = clock w in (t, w, l))"

lemma parse_steps_quiet: "snd (snd (parse_steps trim (quiet_clock clock) maxSteps inSteps ls steps (w, l))) = l"
  by (induction ls arbitrary: inSteps steps w) (auto simp: Let_def quiet_clock_def split: prod.split)

lemma parsePlan_quiet: "snd (snd (parsePlan trim (quiet_clock clock) maxSteps planText goal (w, l))) = l"
  using parse_steps_quiet [of trim clock maxSteps False "split_char (CHR 0x0A) (trim planText)" "[]" w l]
  by (auto simp: parsePlan_def quiet_clock_def Let_def split_def split: prod.splits)

lemma createPlan_quiet:
  assumes "createPlan ff trim (quiet_clock clock) (logging_agent p) ctx task (w, l) = (r, w', l')"
  shows "l' = l \<and> (\<forall>plan. r = Ok plan \<longrightarrow> parsed_steps (pa_maxSteps p) (pn_Steps plan))"
proof -
  obtain q w1 where q: "pa_llm p ctx [Some (literal ''system'' (pa_systemPrompt p)), Some (literal ''user'' (''Create a plan for: '' @ task))] w = (q, w1)"
    by (metis prod.exhaust)
  have chat: "pa_llm (logging_agent p) ctx [Some (literal ''system'' (pa_systemPrompt (logging_agent p))), Some (literal ''user'' (''Create a plan for: '' @ task))] (w, l) = (q, w1, l)"
    using q by (simp add: logging_agent_def)
  show ?thesis
  proof (cases "\<exists>m. q = Ok (Some m)")
    case True
    then obtain m where m: "q = Ok (Some m)" by blast
    obtain plan wl where plan: "parsePlan trim (quiet_clock clock) (pa_maxSteps p) (ContentString ff m) task (w1, l) = (plan, wl)"
      by (metis prod.exhaust)
    then have "r = Ok plan" "(w', l') = wl" using assms chat m unfolding createPlan_def by (auto simp: logging_agent_def)
    moreover have "snd wl = l" using parsePlan_quiet [of trim clock "pa_maxSteps p" "ContentString ff m" task w1 l] plan by simp
    moreover have "parsed_steps (pa_maxSteps p) (pn_Steps plan)"
      using parsePlan_parsed [of "pa_maxSteps p" trim "quiet_clock clock" "ContentString ff m" task "(w1, l)"] plan by simp
    ultimately show ?thesis by auto
  next
    case False
    then show ?thesis using assms chat unfolding createPlan_def by (cases q) (auto split: option.splits)
  qed
qed

text \<open>
  The planning agent always answers, and runs every step of its plan: a call returns, its plan
  has at most \<open>maxSteps\<close> steps, and when the answer is not an error or a panic every step of
  the plan has been executed exactly once.
\<close>
lemma planning_agent_answers:
  "\<exists>r p' w' l. planning_Process ff f0 trim et (quiet_clock clock) (logging_agent p) ctx (Some m) (w, []) = Some (r, p', w', l) \<and>
    (is_Ok r \<longrightarrow> (\<exists>plan. pa_currentPlan p' = Some plan \<and> int (length (pn_Steps plan)) \<le> max 0 (pa_maxSteps p) \<and>
       distinct l \<and> set l = int ` {..<length (pn_Steps plan)}))"
proof -
  obtain r w1 l1 where c: "createPlan ff trim (quiet_clock clock) (logging_agent p) ctx (ContentString ff m) (w, []) = (r, w1, l1)"
    by (metis prod_cases3)
  note quiet = createPlan_quiet [OF c]
  show ?thesis
  proof (cases r)
    case (Ok plan)
    then have parsed: "parsed_steps (pa_maxSteps p) (pn_Steps plan)" and l1: "l1 = []" using quiet by auto
    let ?s0 = "pn_Steps plan" and ?rn = "\<lparr>rn_steps = pn_Steps plan, rn_context = [], rn_results = []\<rparr>"
    have st: "plan_state ?s0 (rn_steps ?rn) []" using parsed by (simp add: plan_state_def parsed_steps_def)
    have ord: "ordered_run ?s0 (set (completed_indices (rn_steps ?rn))) []" by (simp add: ordered_run_def)
    obtain q rn' w2 l where run: "exec_loop et (logging_agent p) ctx (pn_Goal plan) ?rn (w1, []) = Some (q, rn', w2, l)"
      and ord': "ordered_run ?s0 (set (completed_indices (rn_steps rn'))) l"
      and ok: "is_Ok q \<longrightarrow> plan_state ?s0 (rn_steps rn') l \<and> (GetNextSteps (rn_steps rn') = [] \<or> IsPlanComplete (rn_steps rn'))"
      using exec_loop_ordered [OF st ord, of et p ctx "pn_Goal plan" w1] by blast
    have all: "set l = int ` {..<length ?s0}" "length (rn_steps rn') = length ?s0" if "is_Ok q"
    proof -
      show "length (rn_steps rn') = length ?s0" using ok that by (simp add: plan_state_def)
      have "int i \<in> set l" if "i < length ?s0" for i
        using blocked_when_idle [of ?s0 "rn_steps rn'" l i] ok \<open>is_Ok q\<close> that parsed by (auto simp: parsed_steps_def)
      then show "set l = int ` {..<length ?s0}" using ord' by (auto simp: ordered_run_def)
    qed
    have "executePlan f0 et (logging_agent p) ctx plan (w1, []) = Some (map_outcome (plan_summary f0) q, plan\<lparr>pn_Steps := rn_steps rn'\<rparr>, w2, l)"
      using run by (simp add: executePlan_def)
    then have P: "planning_Process ff f0 trim et (quiet_clock clock) (logging_agent p) ctx (Some m) (w, []) =
        Some ((case map_outcome (plan_summary f0) q of
                 Ok result \<Rightarrow> Ok (Some (plan_message (plan\<lparr>pn_Steps := rn_steps rn'\<rparr>) result))
               | Err e \<Rightarrow> Err (Errorf ''failed to execute plan: %w'' [] (Some e))
               | Panic q \<Rightarrow> Panic q), (logging_agent p)\<lparr>pa_currentPlan := Some (plan\<lparr>pn_Steps := rn_steps rn'\<rparr>)\<rparr>, w2, l)"
      using c Ok l1 by (simp add: planning_Process_def)
    show ?thesis
      unfolding P using all ord' parsed by (cases q) (auto simp: ordered_run_def parsed_steps_def)
  qed (use c in \<open>auto simp: planning_Process_def\<close>)
qed

definition two_line_model :: "'w chat" where
  "two_line_model ctx ms w = (Ok (Some (literal ''assistant'' (''Steps:'' @ newline @ ''1. a'' @ newline @ ''2. b''))), w)"

text \<open>
  With replanning a failed plan is reported as a success: after the model has been asked for
  alternative steps its reply is dropped and the failed steps count as skipped, so a plan whose
  only step failed ends as completed, with the text of a completed plan.
\<close>
lemma replanning_reports_success:
  "(case executePlan (\<lambda>r. if r = 100 then ''100'' else ''?'') (\<lambda>e. ''boom'') (planner_with (\<lambda>ctx s c w. (Err (Errors_New ''boom''), w)) True)
      Background (CreatePlan 0 ''goal'' [CreatePlanStep 0 ''work'' 0 []]) () of
    None \<Rightarrow> False
  | Some (r, plan, w) \<Rightarrow> r = Ok (''Step 1: work '' @ cross_mark @ '' (boom)'' @ newline @ newline @ ''Plan completed successfully (100%)'') \<and>
      map ps_Status (pn_Steps plan) = [StepSkipped])"
  by code_simp

end
