(* ===== verification/Tools.thy ===== *)
theory Tools
  imports Text_Lines Message
begin

text \<open>
  Tools (\<open>agenkit/interfaces.go\<close>), the tool registry and the agent that executes tool calls
  (\<open>tools/tool_agent.go\<close>), and agents wrapped as tools (\<open>patterns/agents_as_tools.go\<close>).

  \<open>show_data\<close> is the verb \<open>%v\<close> on the data of a tool result, \<open>decode\<close> the way of the metadata
  value \<open>tool_calls\<close> through JSON into a list of calls, where \<open>None\<close> is a nil pointer.
\<close>

section \<open>Tools\<close>

text \<open>The data of a result are a plain value or, for an agent wrapped as a tool, a message.\<close>

datatype tool_data = Plain gval | Response message

record ToolResult =
  tr_Success :: bool
  tr_Data :: tool_data
  tr_Error :: string
  tr_Metadata :: "(string \<times> gval) list"

definition NewToolResult :: "tool_data \<Rightarrow> ToolResult" where
  "NewToolResult d = \<lparr>tr_Success = True, tr_Data = d, tr_Error = [], tr_Metadata = []\<rparr>"

definition NewToolError :: "string \<Rightarrow> ToolResult" where
  "NewToolError err = \<lparr>tr_Success = False, tr_Data = Plain GNil, tr_Error = err, tr_Metadata = []\<rparr>"

definition tr_WithMetadata :: "string \<Rightarrow> gval \<Rightarrow> ToolResult \<Rightarrow> ToolResult" where
  "tr_WithMetadata k v r = r\<lparr>tr_Metadata := go_set k v (tr_Metadata r)\<rparr>"

type_synonym params = "(string \<times> gval) list"

record 'w Tool =
  tool_Name :: string
  tool_Description :: string
  tool_Execute :: "go_ctx \<Rightarrow> params \<Rightarrow> 'w \<Rightarrow> ToolResult option outcome \<times> 'w"

type_synonym 'w tools = "(string \<times> 'w Tool) list"

section \<open>The registry\<close>

definition Register_tool :: "'w Tool option \<Rightarrow> 'w tools \<Rightarrow> go_error option \<times> 'w tools" where
  "Register_tool t tools =
     (case t of
        None \<Rightarrow> (Some (Errorf ''tool cannot be nil'' [] None), tools)
      | Some t \<Rightarrow>
          if tool_Name t = [] then (Some (Errorf ''tool name cannot be empty'' [] None), tools)
          else if go_get tools (tool_Name t) \<noteq> None
          then (Some (Errorf ''tool '%s' is already registered'' [GStr (tool_Name t)] None), tools)
          else (None, go_set (tool_Name t) t tools))"

definition GetToolDescriptions :: "'w tools \<Rightarrow> string" where
  "GetToolDescriptions tools =
     (if length tools = 0 then ''No tools available.''
      else ''Available tools:'' @ newline @
        concat (map (\<lambda>(n, t). ''- '' @ n @ '': '' @ tool_Description t @ newline) tools))"

section \<open>The tool agent\<close>

record ToolCall =
  tc_ToolName :: string
  tc_Parameters :: params

definition executeTool :: "'w tools \<Rightarrow> go_ctx \<Rightarrow> ToolCall \<Rightarrow> 'w \<Rightarrow> ToolResult option outcome \<times> 'w" where
  "executeTool tools ctx call w =
     (case go_get tools (tc_ToolName call) of
        None \<Rightarrow> (Err (Errorf ''tool '%s' not found'' [GStr (tc_ToolName call)] None), w)
      | Some t \<Rightarrow> tool_Execute t ctx (tc_Parameters call) w)"

fun run_calls ::
    "(go_error \<Rightarrow> string) \<Rightarrow> 'w tools \<Rightarrow> go_ctx \<Rightarrow> ToolCall option list \<Rightarrow> 'w \<Rightarrow> ToolResult option list outcome \<times> 'w" where
  "run_calls err_text tools ctx [] w = (Ok [], w)"
| "run_calls err_text tools ctx (None # cs) w = (Panic ''nil pointer dereference'', w)"
| "run_calls err_text tools ctx (Some c # cs) w =
     (case executeTool tools ctx c w of
        (Panic p, w) \<Rightarrow> (Panic p, w)
      | (r, w) \<Rightarrow>
          (case run_calls err_text tools ctx cs w of
             (Ok rs, w) \<Rightarrow> (Ok ((case r of Ok x \<Rightarrow> x | Err e \<Rightarrow> Some (NewToolError (err_text e)) | Panic p \<Rightarrow> None) # rs), w)
           | (Err e, w) \<Rightarrow> (Err e, w)
           | (Panic p, w) \<Rightarrow> (Panic p, w)))"

definition formatToolResults :: "(tool_data \<Rightarrow> string) \<Rightarrow> ToolResult list \<Rightarrow> string" where
  "formatToolResults show_data rs =
     ''Tool execution results:'' @ newline @
     concat (map (\<lambda>(i, r). show_int (int i + 1) @
       (if tr_Success r then ''. Success: '' @ show_data (tr_Data r) else ''. Error: '' @ tr_Error r) @ newline) (enumerate 0 rs))"

definition result_value :: "(tool_data \<Rightarrow> string) \<Rightarrow> ToolResult \<Rightarrow> gval" where
  "result_value show_data r =
     GMap [(''success'', GBool (tr_Success r)), (''data'', (case tr_Data r of Plain v \<Rightarrow> v | Response m \<Rightarrow> GStr (show_data (Response m)))),
       (''error'', GStr (tr_Error r)), (''metadata'', GMap (tr_Metadata r))]"

text \<open>A tool that returns a nil result without an error panics where the results are printed.\<close>

definition tool_agent_Process ::
    "(go_error \<Rightarrow> string) \<Rightarrow> (tool_data \<Rightarrow> string) \<Rightarrow> (gval \<Rightarrow> ToolCall option list outcome) \<Rightarrow> 'w clock \<Rightarrow> 'w agent \<Rightarrow> 'w tools \<Rightarrow> go_ctx \<Rightarrow>
     message option \<Rightarrow> 'w \<Rightarrow> reply \<times> 'w" where
  "tool_agent_Process err_text show_data decode clock a tools ctx msg w =
     (case msg of
        None \<Rightarrow> (Panic ''nil pointer dereference'', w)
      | Some m \<Rightarrow>
          (case meta_get m ''tool_calls'' of
             None \<Rightarrow> agent_Process a ctx msg w
           | Some v \<Rightarrow>
               (case decode v of
                  Err e \<Rightarrow> (Err (Errorf ''failed to parse tool calls: %w'' [] (Some e)), w)
                | Panic p \<Rightarrow> (Panic p, w)
                | Ok calls \<Rightarrow>
                    (case run_calls err_text tools ctx calls w of
                       (Panic p, w) \<Rightarrow> (Panic p, w)
                     | (Err e, w) \<Rightarrow> (Err e, w)
                     | (Ok rs, w) \<Rightarrow>
                         if None \<in> set rs then (Panic ''nil pointer dereference'', w)
                         else
                           let rs = map the rs; (now, w) = clock w;
                               response = NewMessage now ''agent'' (formatToolResults show_data rs)
                           in (Ok (Some (response\<lparr>msg_metadata := Some [(''tool_results'', GList (map (result_value show_data) rs))]\<rparr>)), w)))))"

section \<open>Agents as tools\<close>

record 'w AgentTool =
  at_agent :: "'w agent"
  at_name :: string
  at_description :: string
  at_inputKey :: string
  at_outputFormat :: string
  at_includeMetadata :: bool

definition NewAgentTool :: "'w agent option \<Rightarrow> string \<Rightarrow> string \<Rightarrow> string \<Rightarrow> string \<Rightarrow> bool \<Rightarrow> 'w AgentTool outcome" where
  "NewAgentTool a name description inputKey outputFormat includeMetadata =
     (case a of
        None \<Rightarrow> Err (Errorf ''agent cannot be nil'' [] None)
      | Some a \<Rightarrow>
          if name = [] then Err (Errorf ''tool name cannot be empty'' [] None)
          else if description = [] then Err (Errorf ''tool description cannot be empty'' [] None)
          else Ok \<lparr>at_agent = a, at_name = name, at_description = description,
                   at_inputKey = (if inputKey = [] then ''query'' else inputKey),
                   at_outputFormat = (if outputFormat = [] then ''str'' else outputFormat), at_includeMetadata = includeMetadata\<rparr>)"

definition formatOutput :: "(real \<Rightarrow> string) \<Rightarrow> 'w AgentTool \<Rightarrow> message \<Rightarrow> tool_data" where
  "formatOutput ff t r =
     (if at_outputFormat t = ''dict''
      then Plain (GMap ((''content'', GStr (ContentString ff r)) #
        (if at_includeMetadata t then [(''metadata'', GMap (case msg_metadata r of None \<Rightarrow> [] | Some md \<Rightarrow> md))] else [])))
      else if at_outputFormat t = ''message'' then Response r
      else Plain (GStr (ContentString ff r)))"

definition at_Execute ::
    "(real \<Rightarrow> string) \<Rightarrow> (go_error \<Rightarrow> string) \<Rightarrow> 'w clock \<Rightarrow> 'w AgentTool \<Rightarrow> go_ctx \<Rightarrow> params \<Rightarrow> 'w \<Rightarrow> ToolResult option outcome \<times> 'w" where
  "at_Execute ff err_text clock t ctx ps w =
     (case go_get ps (at_inputKey t) of
        None \<Rightarrow> (Ok (Some (NewToolError (''Missing required parameter '' @ [CHR 0x27] @ at_inputKey t @ [CHR 0x27] @
                  ''. Available parameters: '' @ sprint_v ff (GStrs (map fst ps))))), w)
      | Some query \<Rightarrow>
          (let (now, w) = clock w in
           case agent_Process (at_agent t) ctx (Some (NewMessage now ''user'' (sprint_v ff query))) w of
             (Err e, w) \<Rightarrow> (Ok (Some (NewToolError (''Agent '' @ [CHR 0x27] @ agent_Name (at_agent t) @ [CHR 0x27] @
                '' failed: '' @ err_text e))), w)
           | (Panic p, w) \<Rightarrow> (Panic p, w)
           | (Ok None, w) \<Rightarrow> (Panic ''nil pointer dereference'', w)
           | (Ok (Some r), w) \<Rightarrow>
               (Ok (Some (tr_WithMetadata ''tool_name'' (GStr (at_name t)) (tr_WithMetadata ''agent_name'' (GStr (agent_Name (at_agent t)))
                  (NewToolResult (formatOutput ff t r))))), w)))"

definition agent_tool :: "(real \<Rightarrow> string) \<Rightarrow> (go_error \<Rightarrow> string) \<Rightarrow> 'w clock \<Rightarrow> 'w AgentTool \<Rightarrow> 'w Tool" where
  "agent_tool ff err_text clock t =
     \<lparr>tool_Name = at_name t, tool_Description = at_description t, tool_Execute = at_Execute ff err_text clock t\<rparr>"

section \<open>The registry keeps its tools\<close>

text \<open>A tool map is well formed when every tool stands under its own, non-empty name.\<close>

definition tools_ok :: "'w tools \<Rightarrow> bool" where
  "tools_ok tools \<longleftrightarrow> go_map_ok tools \<and> (\<forall>(n, t) \<in> set tools. n \<noteq> [] \<and> tool_Name t = n)"

text \<open>
  Registration keeps the registry well formed, never replaces a tool, and makes a tool available
  exactly when it succeeds, that is, for a tool with a new non-empty name.
\<close>
lemma registration_keeps_tools:
  assumes "tools_ok tools" and "Register_tool (Some t) tools = (r, tools')"
  shows "tools_ok tools' \<and> (\<forall>n t'. go_get tools n = Some t' \<longrightarrow> go_get tools' n = Some t') \<and>
    (r = None \<longleftrightarrow> tool_Name t \<noteq> [] \<and> go_get tools (tool_Name t) = None) \<and>
    (if r = None then go_get tools' (tool_Name t) = Some t else tools' = tools)"
proof (cases "tool_Name t \<noteq> [] \<and> go_get tools (tool_Name t) = None")
  case True
  then have t': "r = None" "tools' = go_set (tool_Name t) t tools" using assms(2) by (auto simp: Register_tool_def)
  have ok: "go_map_ok tools'" using assms(1) by (simp add: t' tools_ok_def)
  moreover have "n \<noteq> [] \<and> tool_Name t' = n" if "(n, t') \<in> set tools'" for n t'
    using go_map_mem_get [OF ok that] True assms(1) go_get_Some_mem [of tools n t']
    by (auto simp: t' tools_ok_def split: if_splits)
  ultimately have "tools_ok tools'" by (auto simp: tools_ok_def)
  then show ?thesis using True t' by auto
next
  case False
  then have "tools' = tools" "r \<noteq> None" using assms(2) by (auto simp: Register_tool_def split: if_splits)
  then show ?thesis using False assms(1) by auto
qed

definition echo_tool :: "string \<Rightarrow> 'w Tool" where
  "echo_tool name =
     \<lparr>tool_Name = name, tool_Description = ''echo'', tool_Execute = (\<lambda>ctx ps w. (Ok (Some (NewToolResult (Plain (GMap ps)))), w))\<rparr>"

section \<open>Tool calls are executed in order\<close>

text \<open>Tools that record their calls.\<close>

definition logging_tools :: "'w tools \<Rightarrow> ('w \<times> ToolCall list) tools" where
  "logging_tools tools =
     map (\<lambda>(n, t). (n, \<lparr>tool_Name = tool_Name t, tool_Description = tool_Description t,
       tool_Execute = (\<lambda>ctx ps (w, l). let (r, w) = tool_Execute t ctx ps w in (r, w, l @ [\<lparr>tc_ToolName = n, tc_Parameters = ps\<rparr>]))\<rparr>)) tools"

lemma logging_tools_get:
  "go_get (logging_tools tools) n = map_option (\<lambda>t. \<lparr>tool_Name = tool_Name t, tool_Description = tool_Description t,
     tool_Execute = (\<lambda>ctx ps (w, l). let (r, w) = tool_Execute t ctx ps w in (r, w, l @ [\<lparr>tc_ToolName = n, tc_Parameters = ps\<rparr>]))\<rparr>) (go_get tools n)"
  by (induction tools) (auto simp: logging_tools_def)

lemma executeTool_logged:
  "\<exists>r w'. executeTool (logging_tools tools) ctx c (w, l) =
     (r, w', l @ (if go_get tools (tc_ToolName c) = None then [] else [c])) \<and>
     (go_get tools (tc_ToolName c) = None \<longrightarrow> \<not> is_Ok r \<and> \<not> is_Panic r)"
proof (cases "go_get tools (tc_ToolName c)")
  case None
  then show ?thesis by (simp add: executeTool_def logging_tools_get)
next
  case (Some t)
  obtain r w' where "tool_Execute t ctx (tc_Parameters c) w = (r, w')" by (metis prod.exhaust)
  then show ?thesis using Some by (simp add: executeTool_def logging_tools_get)
qed

text \<open>
  A tool agent executes the calls of a message in their order: when it has results there is one
  result per call, the tools that ran are the calls of registered tools, each once and in the
  order of the message, and a call of an unknown tool runs nothing and has an error as its result.
\<close>
lemma tool_calls_in_order:
  assumes "run_calls err_text (logging_tools tools) ctx (map Some calls) (w, l) = (Ok rs, w', l')"
  shows "length rs = length calls \<and> l' = l @ filter (\<lambda>c. go_get tools (tc_ToolName c) \<noteq> None) calls \<and>
    (\<forall>i < length calls. go_get tools (tc_ToolName (calls ! i)) = None \<longrightarrow> (\<exists>r. rs ! i = Some r \<and> \<not> tr_Success r))"
  using assms
proof (induction calls arbitrary: w l rs)
  case (Cons c cs)
  obtain r w1 where x: "executeTool (logging_tools tools) ctx c (w, l) =
      (r, w1, l @ (if go_get tools (tc_ToolName c) = None then [] else [c]))"
    and unknown: "go_get tools (tc_ToolName c) = None \<longrightarrow> \<not> is_Ok r \<and> \<not> is_Panic r"
    using executeTool_logged [of tools ctx c w l] by (elim exE conjE) (rule that)
  let ?l = "l @ (if go_get tools (tc_ToolName c) = None then [] else [c])"
  have "\<not> is_Panic r" using Cons.prems x by (cases r) auto
  then obtain rs1 where rest: "run_calls err_text (logging_tools tools) ctx (map Some cs) (w1, ?l) = (Ok rs1, w', l')"
    and rs: "rs = (case r of Ok v \<Rightarrow> v | Err e \<Rightarrow> Some (NewToolError (err_text e)) | Panic p \<Rightarrow> None) # rs1"
    using Cons.prems x by (cases r) (auto split: prod.splits outcome.splits)
  have head: "\<exists>v. rs ! 0 = Some v \<and> \<not> tr_Success v" if "go_get tools (tc_ToolName c) = None"
    using unknown that rs by (cases r) (auto simp: NewToolError_def)
  show ?case using Cons.IH [OF rest] rs head by (auto simp: nth_Cons split: nat.splits)
qed simp

text \<open>
  An agent wrapped as a tool never fails as a tool: whatever the parameters and whatever error
  the agent returns, the call returns a tool result, which is a success exactly when the input
  parameter was given and the agent answered, and then carries the answer's content; agents are
  taken not to panic and not to answer nil.
\<close>
lemma agent_tool_never_fails:
  assumes "\<forall>m w r w'. agent_Process (at_agent t) ctx m w = (r, w') \<longrightarrow> \<not> is_Panic r \<and> r \<noteq> Ok None"
  shows "\<exists>r w'. at_Execute ff err_text clock t ctx ps w = (Ok (Some r), w') \<and>
    (tr_Success r \<longrightarrow> (\<exists>query now w1 m. go_get ps (at_inputKey t) = Some query \<and> clock w = (now, w1) \<and>
       agent_Process (at_agent t) ctx (Some (NewMessage now ''user'' (sprint_v ff query))) w1 = (Ok (Some m), w') \<and>
       tr_Data r = formatOutput ff t m))"
proof (cases "go_get ps (at_inputKey t)")
  case None
  then show ?thesis by (simp add: at_Execute_def NewToolError_def)
next
  case (Some query)
  obtain now w1 where c: "clock w = (now, w1)" by (metis prod.exhaust)
  obtain r w' where a: "agent_Process (at_agent t) ctx (Some (NewMessage now ''user'' (sprint_v ff query))) w1 = (r, w')" by (metis prod.exhaust)
  have "\<not> is_Panic r \<and> r \<noteq> Ok None" using assms a by blast
  then consider m where "r = Ok (Some m)" | e where "r = Err e" by (cases r) auto
  then show ?thesis
  proof cases
    case 1
    then show ?thesis using Some c a by (auto simp: at_Execute_def NewToolResult_def tr_WithMetadata_def)
  next
    case 2
    then show ?thesis using Some c a by (simp add: at_Execute_def NewToolError_def)
  qed
qed

definition parrot :: "unit AgentTool" where
  "parrot = \<lparr>at_agent = \<lparr>agent_Name = ''parrot'', agent_Capabilities = [], agent_Process = (\<lambda>ctx m w. (Ok (Some (NewMessage 0 ''assistant'' ''hi'')), w))\<rparr>,
     at_name = ''parrot'', at_description = ''repeats'', at_inputKey = ''query'', at_outputFormat = ''str'', at_includeMetadata = False\<rparr>"

end
