(* ===== verification/React.thy ===== *)
theory React
  imports Tools
begin

text \<open>
  The agents that reason with tools: the loop of thought, action and observation
  (\<open>patterns/react.go\<close>), and the agent that calls tools while it reasons
  (\<open>patterns/reasoning_with_tools.go\<close>).

  The loops count down the steps that are left; \<open>trim\<close> and \<open>upper\<close> are \<open>strings.TrimSpace\<close> and
  \<open>strings.ToUpper\<close>, \<open>unmarshal\<close> is \<open>json.Unmarshal\<close> into a map.
\<close>

text \<open>A message literal: no metadata, zero time.\<close>

definition user_prompt :: "string \<Rightarrow> message" where
  "user_prompt content = \<lparr>msg_role = ''user'', msg_content = GStr content, msg_metadata = None, msg_timestamp = 0\<rparr>"

section \<open>ReAct\<close>

record ReActStep =
  st_Thought :: string
  st_Action :: string
  st_ActionInput :: string
  st_Observation :: string
  st_IsFinal :: bool

abbreviation empty_step :: ReActStep where
  "empty_step \<equiv> \<lparr>st_Thought = [], st_Action = [], st_ActionInput = [], st_Observation = [], st_IsFinal = False\<rparr>"

datatype ReActStopReason = StopReasonFinalAnswer | StopReasonMaxSteps | StopReasonInvalidAction | StopReasonToolError

fun stop_text :: "ReActStopReason \<Rightarrow> string" where
  "stop_text StopReasonFinalAnswer = ''final_answer''"
| "stop_text StopReasonMaxSteps = ''max_steps''"
| "stop_text StopReasonInvalidAction = ''invalid_action''"
| "stop_text StopReasonToolError = ''tool_error''"

record 'w ReActAgent =
  ra_agent :: "'w agent"
  ra_tools :: "'w tools"
  ra_maxSteps :: int
  ra_verbose :: bool
  ra_promptTemplate :: string

definition tool_lines :: "'w Tool list \<Rightarrow> string" where
  "tool_lines ts = strings_Join (map (\<lambda>t. ''- '' @ tool_Name t @ '': '' @ tool_Description t) ts) newline"

definition buildDefaultPrompt :: "'w Tool list \<Rightarrow> string" where
  "buildDefaultPrompt ts =
     strings_Join [''You are a helpful assistant that can use tools to answer questions.'', [], ''Available tools:'', tool_lines ts, [],
       ''Use the following format:'', [], ''Thought: Think about what to do next'', ''Action: [tool name]'',
       ''Action Input: [input for the tool]'', ''Observation: [result will be provided]'', [],
       ''... (repeat Thought/Action/Observation as needed)'', [], ''Thought: I now know the final answer'',
       ''Final Answer: [your final answer here]'', [], ''Begin!''] newline"

definition NewReActAgent :: "('w agent option \<times> 'w Tool list \<times> int \<times> bool \<times> string) option \<Rightarrow> 'w ReActAgent outcome" where
  "NewReActAgent config =
     (case config of
        None \<Rightarrow> Err (Errorf ''config is required'' [] None)
      | Some (a, ts, maxSteps, verbose, template) \<Rightarrow>
          (case a of
             None \<Rightarrow> Err (Errorf ''agent is required'' [] None)
           | Some a \<Rightarrow>
               if length ts = 0 then Err (Errorf ''at least one tool is required'' [] None)
               else Ok \<lparr>ra_agent = a, ra_tools = fold (\<lambda>t. go_set (tool_Name t) t) ts [],
                        ra_maxSteps = (if maxSteps = 0 then 10 else maxSteps), ra_verbose = verbose,
                        ra_promptTemplate = (if template = [] then buildDefaultPrompt ts else template)\<rparr>))"

text \<open>The loop over the lines stops at a final answer.\<close>

fun parse_lines :: "(string \<Rightarrow> string) \<Rightarrow> string list \<Rightarrow> ReActStep \<Rightarrow> ReActStep" where
  "parse_lines trim [] step = step"
| "parse_lines trim (l # ls) step =
     (let line = trim l in
      if HasPrefix line ''Thought:'' then parse_lines trim ls (step\<lparr>st_Thought := trim (TrimPrefix line ''Thought:'')\<rparr>)
      else if HasPrefix line ''Action:'' then parse_lines trim ls (step\<lparr>st_Action := trim (TrimPrefix line ''Action:'')\<rparr>)
      else if HasPrefix line ''Action Input:''
      then parse_lines trim ls (step\<lparr>st_ActionInput := trim (TrimPrefix line ''Action Input:'')\<rparr>)
      else if HasPrefix line ''Final Answer:''
      then step\<lparr>st_Thought := (if st_Thought step = [] then ''Reached final answer'' else st_Thought step),
                st_Observation := trim (TrimPrefix line ''Final Answer:''), st_IsFinal := True\<rparr>
      else parse_lines trim ls step)"

definition parseResponse :: "(string \<Rightarrow> string) \<Rightarrow> string \<Rightarrow> ReActStep" where
  "parseResponse trim response = parse_lines trim (split_char (CHR 0x0A) response) empty_step"

definition formatStep :: "ReActStep \<Rightarrow> string" where
  "formatStep s =
     ''Thought: '' @ st_Thought s @
     (if st_Action s \<noteq> [] then newline @ ''Action: '' @ st_Action s @ newline @ ''Action Input: '' @ st_ActionInput s else []) @
     (if st_Observation s \<noteq> [] then newline @ ''Observation: '' @ st_Observation s else [])"

definition step_value :: "ReActStep \<Rightarrow> gval" where
  "step_value s = GMap [(''Thought'', GStr (st_Thought s)), (''Action'', GStr (st_Action s)), (''ActionInput'', GStr (st_ActionInput s)),
     (''Observation'', GStr (st_Observation s)), (''IsFinal'', GBool (st_IsFinal s))]"

definition formatFinalAnswer :: "bool \<Rightarrow> ReActStep list \<Rightarrow> ReActStep \<Rightarrow> ReActStopReason \<Rightarrow> message" where
  "formatFinalAnswer verbose steps step stopReason =
     \<lparr>msg_role = ''assistant'',
      msg_content = GStr (
        (if verbose then strings_Join (map formatStep steps) (newline @ newline) @ newline @ newline @ ''---'' @ newline @ newline else []) @
        (if stopReason = StopReasonFinalAnswer
         then (if st_Observation step = [] then ''No final answer provided'' else st_Observation step)
         else ''Unable to complete task ('' @ stop_text stopReason @ '')'' @
           (if st_Thought step \<noteq> [] then newline @ ''Last thought: '' @ st_Thought step else []))),
      msg_metadata = Some [(''stop_reason'', GStr (stop_text stopReason)), (''steps'', GInt (int (length steps))),
        (''reasoning'', GList (map step_value steps))],
      msg_timestamp = 0\<rparr>"

definition not_found :: "'w tools \<Rightarrow> string \<Rightarrow> string" where
  "not_found tools action =
     ''Error: Tool '' @ [CHR 0x27] @ action @ [CHR 0x27] @ '' not found. Available tools: '' @ strings_Join (map fst tools) '', ''"

definition observation :: "(tool_data \<Rightarrow> string) \<Rightarrow> ToolResult \<Rightarrow> string" where
  "observation show_data r =
     (if tr_Success r then show_data (tr_Data r)
      else ''Error: '' @ (if tr_Error r \<noteq> [] then tr_Error r else ''Tool execution failed''))"

definition last_step :: "ReActStep list \<Rightarrow> ReActStep" where
  "last_step steps =
     (if length steps > 0 then last steps
      else empty_step\<lparr>st_Thought := ''Reached maximum steps without finding answer''\<rparr>)"

fun react_loop ::
    "(real \<Rightarrow> string) \<Rightarrow> (tool_data \<Rightarrow> string) \<Rightarrow> (string \<Rightarrow> string) \<Rightarrow> (go_error \<Rightarrow> string) \<Rightarrow> 'w ReActAgent \<Rightarrow> go_ctx \<Rightarrow> nat \<Rightarrow> ReActStep list \<Rightarrow>
     string list \<Rightarrow> 'w \<Rightarrow> reply \<times> ReActStep list \<times> 'w" where
  "react_loop ff sd trim et r ctx 0 steps history w =
     (Ok (Some (formatFinalAnswer (ra_verbose r) steps (last_step steps) StopReasonMaxSteps)), steps, w)"
| "react_loop ff sd trim et r ctx (Suc left) steps history w =
     (case agent_Process (ra_agent r) ctx (Some (user_prompt (strings_Join history newline))) w of
        (Err e, w) \<Rightarrow> (Err (Errorf ''agent process failed: %w'' [] (Some e)), steps, w)
      | (Panic p, w) \<Rightarrow> (Panic p, steps, w)
      | (Ok None, w) \<Rightarrow> (Panic ''nil pointer dereference'', steps, w)
      | (Ok (Some response), w) \<Rightarrow>
          (let parsed = parseResponse trim (ContentString ff response) in
           if st_IsFinal parsed
           then (Ok (Some (formatFinalAnswer (ra_verbose r) (steps @ [parsed]) parsed StopReasonFinalAnswer)), steps @ [parsed], w)
           else if st_Action parsed = []
           then (Ok (Some (formatFinalAnswer (ra_verbose r) (steps @ [parsed]) parsed StopReasonInvalidAction)), steps @ [parsed], w)
           else
             (case go_get (ra_tools r) (st_Action parsed) of
                None \<Rightarrow>
                  (let parsed = parsed\<lparr>st_Observation := not_found (ra_tools r) (st_Action parsed)\<rparr> in
                   react_loop ff sd trim et r ctx left (steps @ [parsed]) (history @ [formatStep parsed]) w)
              | Some tool \<Rightarrow>
                  (case tool_Execute tool ctx [(''input'', GStr (st_ActionInput parsed))] w of
                     (Err e, w) \<Rightarrow>
                       (let parsed = parsed\<lparr>st_Observation := ''Error: '' @ et e\<rparr> in
                        (Ok (Some (formatFinalAnswer (ra_verbose r) (steps @ [parsed]) parsed StopReasonToolError)), steps @ [parsed], w))
                   | (Panic p, w) \<Rightarrow> (Panic p, steps, w)
                   | (Ok None, w) \<Rightarrow> (Panic ''nil pointer dereference'', steps, w)
                   | (Ok (Some res), w) \<Rightarrow>
                       (let parsed = parsed\<lparr>st_Observation := observation sd res\<rparr> in
                        react_loop ff sd trim et r ctx left (steps @ [parsed]) (history @ [formatStep parsed]) w)))))"

definition react_Process ::
    "(real \<Rightarrow> string) \<Rightarrow> (tool_data \<Rightarrow> string) \<Rightarrow> (string \<Rightarrow> string) \<Rightarrow> (go_error \<Rightarrow> string) \<Rightarrow> 'w ReActAgent \<Rightarrow> go_ctx \<Rightarrow> message option \<Rightarrow> 'w \<Rightarrow>
     reply \<times> ReActStep list \<times> 'w" where
  "react_Process ff sd trim et r ctx msg w =
     (case msg of
        None \<Rightarrow> (Panic ''nil pointer dereference'', [], w)
      | Some m \<Rightarrow>
          react_loop ff sd trim et r ctx (nat (ra_maxSteps r)) []
            [ra_promptTemplate r, newline @ ''Question: '' @ ContentString ff m] w)"

section \<open>Reasoning with tools\<close>

datatype ReasoningStepType = ReasoningStepThinking | ReasoningStepToolCall | ReasoningStepToolResult | ReasoningStepConclusion

record RWTStep =
  rs_StepNumber :: int
  rs_StepType :: ReasoningStepType
  rs_Content :: string
  rs_ToolName :: string
  rs_ToolParameters :: params
  rs_ToolResult :: "tool_data option"
  rs_Timestamp :: int

record ReasoningTrace =
  rt_Steps :: "RWTStep list"
  rt_TotalToolsUsed :: int
  rt_TotalThinkingSteps :: int
  rt_StartTime :: int
  rt_EndTime :: int

record 'w RWTAgent =
  rw_llm :: "'w agent"
  rw_tools :: "'w tools"
  rw_maxReasoningSteps :: int
  rw_toolUsePrompt :: string
  rw_enableTrace :: bool
  rw_confidenceThreshold :: real

definition defaultToolPrompt :: "'w tools \<Rightarrow> string" where
  "defaultToolPrompt tools =
     strings_Join [''You can use tools WHILE reasoning about the problem.'',
       ''When you need information or computation, use a tool immediately.'',
       ''Don'' @ [CHR 0x27] @ ''t wait until you finish reasoning - use tools as needed.'', [], ''Available tools:'',
       tool_lines (map snd tools), [], ''To use a tool, output:'', ''TOOL_CALL: <tool_name>'',
       ''PARAMETERS: {'' @ [CHR 0x22] @ ''param1'' @ [CHR 0x22] @ '': '' @ [CHR 0x22] @ ''value1'' @ [CHR 0x22] @ '', ...}'', [],
       ''Continue reasoning after you get the tool result.''] newline"

definition NewReasoningWithToolsAgent ::
    "'w agent \<Rightarrow> 'w Tool list \<Rightarrow> (int \<times> string \<times> bool \<times> real) option \<Rightarrow> 'w RWTAgent" where
  "NewReasoningWithToolsAgent llm ts config =
     (let (maxSteps, prompt, enableTrace, threshold) = (case config of None \<Rightarrow> (0, [], True, 0) | Some c \<Rightarrow> c);
          tools = fold (\<lambda>t. go_set (tool_Name t) t) ts []
      in \<lparr>rw_llm = llm, rw_tools = tools, rw_maxReasoningSteps = (if maxSteps = 0 then 20 else maxSteps),
          rw_toolUsePrompt = (if prompt \<noteq> [] then prompt else defaultToolPrompt tools), rw_enableTrace = enableTrace,
          rw_confidenceThreshold = (if threshold = 0 then 8 / 10 else threshold)\<rparr>)"

text \<open>\<open>strings.Index\<close>, and the two parts of \<open>strings.SplitN\<close> with limit 2.\<close>

fun strings_Index :: "string \<Rightarrow> string \<Rightarrow> nat option" where
  "strings_Index s p =
     (if HasPrefix s p then Some 0 else case s of [] \<Rightarrow> None | c # s' \<Rightarrow> map_option Suc (strings_Index s' p))"

declare strings_Index.simps [simp del]

definition SplitN2 :: "string \<Rightarrow> string \<Rightarrow> (string \<times> string) option" where
  "SplitN2 s sep = map_option (\<lambda>i. (take i s, drop (i + length sep) s)) (strings_Index s sep)"

text \<open>The index just after the brace that closes the one at the start, 0 if there is none.\<close>

fun closing_brace :: "int \<Rightarrow> nat \<Rightarrow> string \<Rightarrow> nat" where
  "closing_brace depth i [] = 0"
| "closing_brace depth i (c # cs) =
     (if c = CHR 0x7B then closing_brace (depth + 1) (i + 1) cs
      else if c = CHR 0x7D then (if depth - 1 = 0 then i + 1 else closing_brace (depth - 1) (i + 1) cs)
      else closing_brace depth (i + 1) cs)"

definition parseToolCall ::
    "(string \<Rightarrow> string) \<Rightarrow> (string \<Rightarrow> params) \<Rightarrow> string \<Rightarrow> string option \<times> params \<times> string" where
  "parseToolCall trim unmarshal txt =
     (case SplitN2 txt ''TOOL_CALL:'' of
        None \<Rightarrow> (None, [], txt)
      | Some (before, after) \<Rightarrow>
          (Some (trim (hd (split_char (CHR 0x0A) after))),
           (case SplitN2 after ''PARAMETERS:'' of
              None \<Rightarrow> []
            | Some (_, rest) \<Rightarrow>
                let paramText = trim rest; tail = dropWhile (\<lambda>c. c \<noteq> CHR 0x7B) paramText in
                if tail = [] then [] else unmarshal (take (closing_brace 0 0 tail) tail)),
           before))"

definition conclusion_markers :: "string list" where
  "conclusion_markers = [''FINAL ANSWER:'', ''CONCLUSION:'', ''Therefore,'', ''In conclusion,'', ''The answer is'']"

definition isConclusion :: "(string \<Rightarrow> string) \<Rightarrow> string \<Rightarrow> bool" where
  "isConclusion upper txt = list_ex (\<lambda>m. strings_Contains (upper txt) (upper m)) conclusion_markers"

text \<open>The index is one of the text in upper case, the slice one of the text itself.\<close>

fun extract_marker :: "(string \<Rightarrow> string) \<Rightarrow> (string \<Rightarrow> string) \<Rightarrow> string list \<Rightarrow> string \<Rightarrow> string outcome" where
  "extract_marker upper trim [] txt = Ok txt"
| "extract_marker upper trim (m # ms) txt =
     (case strings_Index (upper txt) (upper m) of
        None \<Rightarrow> extract_marker upper trim ms txt
      | Some i \<Rightarrow> if i + length m > length txt then Panic ''slice bounds out of range'' else Ok (trim (drop (i + length m) txt)))"

definition extractAnswer :: "(string \<Rightarrow> string) \<Rightarrow> (string \<Rightarrow> string) \<Rightarrow> string \<Rightarrow> string outcome" where
  "extractAnswer upper trim txt = extract_marker upper trim [''FINAL ANSWER:'', ''CONCLUSION:'', ''The answer is''] txt"

definition currentTimeMillis :: "'w clock \<Rightarrow> 'w \<Rightarrow> int \<times> 'w" where
  "currentTimeMillis clock w = (let (now, w) = clock w in (now div 1000000, w))"

text \<open>Appending steps to the trace, if there is one; each reads the clock.\<close>

definition trace_step ::
    "'w clock \<Rightarrow> int \<Rightarrow> ReasoningStepType \<Rightarrow> string \<Rightarrow> string \<Rightarrow> params \<Rightarrow> tool_data option \<Rightarrow> ReasoningTrace option \<Rightarrow> 'w \<Rightarrow>
     ReasoningTrace option \<times> 'w" where
  "trace_step clock n ty content tool ps res trace w =
     (case trace of
        None \<Rightarrow> (None, w)
      | Some t \<Rightarrow>
          let (now, w) = currentTimeMillis clock w in
          (Some (t\<lparr>rt_Steps := rt_Steps t @ [\<lparr>rs_StepNumber = n, rs_StepType = ty, rs_Content = content, rs_ToolName = tool,
              rs_ToolParameters = ps, rs_ToolResult = res, rs_Timestamp = now\<rparr>],
            rt_TotalThinkingSteps := rt_TotalThinkingSteps t + (if ty = ReasoningStepThinking then 1 else 0)\<rparr>), w))"

definition count_tool :: "ReasoningTrace option \<Rightarrow> ReasoningTrace option" where
  "count_tool trace = map_option (\<lambda>t. t\<lparr>rt_TotalToolsUsed := rt_TotalToolsUsed t + 1\<rparr>) trace"

abbreviation para :: string where
  "para \<equiv> [CHR 0x0A, CHR 0x0A]"

definition with_result :: "(tool_data \<Rightarrow> string) \<Rightarrow> string \<Rightarrow> string \<Rightarrow> tool_data \<Rightarrow> string" where
  "with_result sd context name d =
     ''Previous reasoning: '' @ context @ para @ ''TOOL RESULT from '' @ name @ '':'' @ newline @ sd d @ para @
     ''Continue reasoning with this information.''"

definition with_error :: "string \<Rightarrow> string \<Rightarrow> string" where
  "with_error context e = context @ para @ ''ERROR: '' @ e @ para @ ''Continue reasoning without this tool.''"

text \<open>
  One tool call of a reply: the context and trace it leaves.  A nil result without an error
  panics where its data are read.
\<close>

definition rwt_call ::
    "(tool_data \<Rightarrow> string) \<Rightarrow> (string \<Rightarrow> string) \<Rightarrow> (go_error \<Rightarrow> string) \<Rightarrow> 'w clock \<Rightarrow> go_ctx \<Rightarrow> int \<Rightarrow> 'w Tool \<Rightarrow> string \<Rightarrow> params \<Rightarrow> string \<Rightarrow>
     string \<Rightarrow> ReasoningTrace option \<Rightarrow> 'w \<Rightarrow> (string \<times> ReasoningTrace option) outcome \<times> 'w" where
  "rwt_call sd trim et clock ctx n tool name ps before context trace w =
     (let (trace, w) = (if trim before \<noteq> [] then trace_step clock n ReasoningStepThinking (trim before) [] [] None trace w else (trace, w)) in
      case tool_Execute tool ctx ps w of
        (Panic p, w) \<Rightarrow> (Panic p, w)
      | (Ok None, w) \<Rightarrow> (Panic ''nil pointer dereference'', w)
      | (Ok (Some r), w) \<Rightarrow>
          (let (trace, w) = trace_step clock n ReasoningStepToolCall (''Called '' @ name) name ps None trace w;
               (trace, w) = trace_step clock n ReasoningStepToolResult (sd (tr_Data r)) name [] (Some (tr_Data r)) trace w
           in (Ok (with_result sd context name (tr_Data r), count_tool trace), w))
      | (Err e, w) \<Rightarrow>
          (let errorMsg = ''Tool '' @ name @ '' failed: '' @ et e;
               (trace, w) = trace_step clock n ReasoningStepToolResult errorMsg name [] None trace w
           in (Ok (with_error context errorMsg, trace), w)))"

record rwt_params =
  rp_ff :: "real \<Rightarrow> string"
  rp_show :: "tool_data \<Rightarrow> string"
  rp_trim :: "string \<Rightarrow> string"
  rp_upper :: "string \<Rightarrow> string"
  rp_err :: "go_error \<Rightarrow> string"
  rp_unmarshal :: "string \<Rightarrow> params"

text \<open>The loop ends with the answer found, empty if there is none, the context and the trace.\<close>

fun rwt_loop ::
    "rwt_params \<Rightarrow> 'w clock \<Rightarrow> 'w ctx_err \<Rightarrow> 'w RWTAgent \<Rightarrow> go_ctx \<Rightarrow> nat \<Rightarrow> int \<Rightarrow> string \<Rightarrow> ReasoningTrace option \<Rightarrow> 'w \<Rightarrow>
     (string \<times> string \<times> ReasoningTrace option) outcome \<times> 'w" where
  "rwt_loop P clock cerr r ctx 0 n context trace w = (Ok ([], context, trace), w)"
| "rwt_loop P clock cerr r ctx (Suc left) n context trace w =
     (case cerr ctx w of
        Some e \<Rightarrow> (Err e, w)
      | None \<Rightarrow>
          (case agent_Process (rw_llm r) ctx (Some (user_prompt context)) w of
             (Err e, w) \<Rightarrow> (Err (Errorf ''LLM process failed: %w'' [] (Some e)), w)
           | (Panic p, w) \<Rightarrow> (Panic p, w)
           | (Ok None, w) \<Rightarrow> (Panic ''nil pointer dereference'', w)
           | (Ok (Some response), w) \<Rightarrow>
               (let responseText = ContentString (rp_ff P) response in
                if strings_Contains responseText ''TOOL_CALL:'' then
                  (let (toolName, ps, before) = parseToolCall (rp_trim P) (rp_unmarshal P) responseText in
                   case Option.bind toolName (go_get (rw_tools r)) of
                     Some tool \<Rightarrow>
                       (case rwt_call (rp_show P) (rp_trim P) (rp_err P) clock ctx n tool (the toolName) ps before context trace w of
                          (Ok (context, trace), w) \<Rightarrow> rwt_loop P clock cerr r ctx left (n + 1) context trace w
                        | (Err e, w) \<Rightarrow> (Err e, w)
                        | (Panic p, w) \<Rightarrow> (Panic p, w))
                   | None \<Rightarrow>
                       (let (trace, w) = trace_step clock n ReasoningStepThinking responseText [] [] None trace w in
                        rwt_loop P clock cerr r ctx left (n + 1) (context @ para @ responseText @ para @ ''Continue.'') trace w))
                else if isConclusion (rp_upper P) responseText then
                  (case extractAnswer (rp_upper P) (rp_trim P) responseText of
                     Ok answer \<Rightarrow>
                       (let (trace, w) = trace_step clock n ReasoningStepConclusion answer [] [] None trace w in (Ok (answer, context, trace), w))
                   | Err e \<Rightarrow> (Err e, w)
                   | Panic p \<Rightarrow> (Panic p, w))
                else
                  (let (trace, w) = trace_step clock n ReasoningStepThinking responseText [] [] None trace w in
                   rwt_loop P clock cerr r ctx left (n + 1)
                     (context @ para @ responseText @ para @ ''Continue reasoning or provide final answer.'') trace w))))"

fun step_type_text :: "ReasoningStepType \<Rightarrow> string" where
  "step_type_text ReasoningStepThinking = ''thinking''"
| "step_type_text ReasoningStepToolCall = ''tool_call''"
| "step_type_text ReasoningStepToolResult = ''tool_result''"
| "step_type_text ReasoningStepConclusion = ''conclusion''"

definition traceToDict :: "(tool_data \<Rightarrow> string) \<Rightarrow> ReasoningTrace \<Rightarrow> gval" where
  "traceToDict sd t =
     GMap [(''steps'', GList (map (\<lambda>s. GMap [(''step_number'', GInt (rs_StepNumber s)), (''step_type'', GStr (step_type_text (rs_StepType s))),
         (''content'', GStr (rs_Content s)), (''tool_name'', GStr (rs_ToolName s)), (''tool_parameters'', GMap (rs_ToolParameters s)),
         (''tool_result'', (case rs_ToolResult s of None \<Rightarrow> GNil | Some (Plain v) \<Rightarrow> v | Some d \<Rightarrow> GStr (sd d))),
         (''confidence'', GFloat 0), (''timestamp'', GInt (rs_Timestamp s))]) (rt_Steps t))),
       (''total_tools_used'', GInt (rt_TotalToolsUsed t)), (''total_thinking_steps'', GInt (rt_TotalThinkingSteps t)),
       (''duration_seconds'', GFloat (real_of_int (rt_EndTime t - rt_StartTime t) / 1000))]"

definition start_trace :: "'w clock \<Rightarrow> 'w RWTAgent \<Rightarrow> 'w \<Rightarrow> ReasoningTrace option \<times> 'w" where
  "start_trace clock r w =
     (if rw_enableTrace r
      then (let (now, w) = currentTimeMillis clock w in
        (Some \<lparr>rt_Steps = [], rt_TotalToolsUsed = 0, rt_TotalThinkingSteps = 0, rt_StartTime = now, rt_EndTime = 0\<rparr>, w))
      else (None, w))"

definition rwt_finish ::
    "(tool_data \<Rightarrow> string) \<Rightarrow> 'w clock \<Rightarrow> string \<Rightarrow> string \<Rightarrow> ReasoningTrace option \<Rightarrow> 'w \<Rightarrow> message \<times> 'w" where
  "rwt_finish sd clock answer context trace w =
     (let (trace, w) = (case trace of
            None \<Rightarrow> (None, w)
          | Some t \<Rightarrow> (let (now, w) = currentTimeMillis clock w in (Some (t\<lparr>rt_EndTime := now\<rparr>), w)))
      in (\<lparr>msg_role = ''assistant'', msg_content = GStr (if answer = [] then context else answer),
           msg_metadata = Some (case trace of
             None \<Rightarrow> []
           | Some t \<Rightarrow> [(''reasoning_trace'', traceToDict sd t), (''reasoning_steps'', GInt (int (length (rt_Steps t)))),
               (''tools_used'', GInt (rt_TotalToolsUsed t))]),
           msg_timestamp = 0\<rparr>, w))"

definition rwt_Process ::
    "rwt_params \<Rightarrow> 'w clock \<Rightarrow> 'w ctx_err \<Rightarrow> 'w RWTAgent \<Rightarrow> go_ctx \<Rightarrow> message option \<Rightarrow> 'w \<Rightarrow> reply \<times> 'w" where
  "rwt_Process P clock cerr r ctx msg w =
     (case msg of
        None \<Rightarrow> (Panic ''nil pointer dereference'', snd (start_trace clock r w))
      | Some m \<Rightarrow>
          (let (trace, w) = start_trace clock r w;
               context = rw_toolUsePrompt r @ para @ ''USER QUESTION:'' @ newline @ ContentString (rp_ff P) m @ para @
                 ''Begin reasoning. Use tools as needed while thinking.''
           in case rwt_loop P clock cerr r ctx (nat (rw_maxReasoningSteps r)) 0 context trace w of
                (Ok (answer, context, trace), w) \<Rightarrow>
                  (let (m, w) = rwt_finish (rp_show P) clock answer context trace w in (Ok (Some m), w))
              | (Err e, w) \<Rightarrow> (Err e, w)
              | (Panic p, w) \<Rightarrow> (Panic p, w)))"

definition AddTool :: "'w Tool \<Rightarrow> 'w RWTAgent \<Rightarrow> 'w RWTAgent" where
  "AddTool t r = r\<lparr>rw_tools := go_set (tool_Name t) t (rw_tools r)\<rparr>"

definition RemoveTool :: "string \<Rightarrow> 'w RWTAgent \<Rightarrow> bool \<times> 'w RWTAgent" where
  "RemoveTool name r =
     (if go_get (rw_tools r) name \<noteq> None then (True, r\<lparr>rw_tools := go_delete name (rw_tools r)\<rparr>) else (False, r))"

section \<open>ReAct runs exactly the actions of the model\<close>

datatype react_event = Asked "message option" reply | Acted string params "ToolResult option outcome"

definition react_logged :: "'w ReActAgent \<Rightarrow> ('w \<times> react_event list) ReActAgent" where
  "react_logged r =
     \<lparr>ra_agent = \<lparr>agent_Name = agent_Name (ra_agent r), agent_Capabilities = agent_Capabilities (ra_agent r),
        agent_Process = (\<lambda>ctx m (w, l). let (x, w) = agent_Process (ra_agent r) ctx m w in (x, w, l @ [Asked m x]))\<rparr>,
      ra_tools = map (\<lambda>(n, t). (n, \<lparr>tool_Name = tool_Name t, tool_Description = tool_Description t,
        tool_Execute = (\<lambda>ctx ps (w, l). let (x, w) = tool_Execute t ctx ps w in (x, w, l @ [Acted n ps x]))\<rparr>)) (ra_tools r),
      ra_maxSteps = ra_maxSteps r, ra_verbose = ra_verbose r, ra_promptTemplate = ra_promptTemplate r\<rparr>"

lemma react_logged_get:
  "go_get (ra_tools (react_logged r)) n = map_option (\<lambda>t. \<lparr>tool_Name = tool_Name t, tool_Description = tool_Description t,
     tool_Execute = (\<lambda>ctx ps (w, l). let (x, w) = tool_Execute t ctx ps w in (x, w, l @ [Acted n ps x]))\<rparr>) (go_get (ra_tools r) n)"
proof -
  have "go_get (map (\<lambda>(n, t). (n, f n t)) ts) n = map_option (f n) (go_get ts n)" for f :: "string \<Rightarrow> 'a Tool \<Rightarrow> ('a \<times> react_event list) Tool" and ts
    by (induction ts) auto
  then show ?thesis by (simp add: react_logged_def)
qed

lemma react_logged_ask:
  "agent_Process (ra_agent (react_logged r)) ctx m (w, l) =
     (fst (agent_Process (ra_agent r) ctx m w), snd (agent_Process (ra_agent r) ctx m w),
      l @ [Asked m (fst (agent_Process (ra_agent r) ctx m w))])"
  by (simp add: react_logged_def split_def Let_def)

lemma react_logged_fields [simp]: "ra_verbose (react_logged r) = ra_verbose r" "ra_maxSteps (react_logged r) = ra_maxSteps r"
    "ra_promptTemplate (react_logged r) = ra_promptTemplate r" "map fst (ra_tools (react_logged r)) = map fst (ra_tools r)"
  by (simp_all add: react_logged_def split_def)

text \<open>
  What a reply of the model says, line by line: the lines before the first one that starts with
  \<open>Final Answer:\<close>, the text after the label on the last of them that has it, and the text after
  that label if there is such a line.
\<close>

definition reply_lines :: "(string \<Rightarrow> string) \<Rightarrow> string \<Rightarrow> string list" where
  "reply_lines trim reply = map trim (split_char (CHR 0x0A) reply)"

definition has_label :: "string \<Rightarrow> string \<Rightarrow> bool" where
  "has_label label line \<longleftrightarrow> prefix label line"

definition gives_answer :: "(string \<Rightarrow> string) \<Rightarrow> string \<Rightarrow> bool" where
  "gives_answer trim reply \<longleftrightarrow> (\<exists>l \<in> set (reply_lines trim reply). has_label ''Final Answer:'' l)"

definition last_field :: "(string \<Rightarrow> string) \<Rightarrow> string \<Rightarrow> string list \<Rightarrow> string" where
  "last_field trim label ls =
     (let xs = filter (has_label label) ls in if xs = [] then [] else trim (drop (length label) (last xs)))"

definition before_answer :: "(string \<Rightarrow> string) \<Rightarrow> string \<Rightarrow> string list" where
  "before_answer trim reply = takeWhile (\<lambda>l. \<not> has_label ''Final Answer:'' l) (reply_lines trim reply)"

definition answer_field :: "(string \<Rightarrow> string) \<Rightarrow> string \<Rightarrow> string" where
  "answer_field trim reply =
     trim (drop (length ''Final Answer:'') (hd (filter (has_label ''Final Answer:'') (reply_lines trim reply))))"

text \<open>A recorded step says what the reply says.\<close>

definition says :: "(string \<Rightarrow> string) \<Rightarrow> string \<Rightarrow> ReActStep \<Rightarrow> bool" where
  "says trim reply s \<longleftrightarrow>
     (let thought = last_field trim ''Thought:'' (before_answer trim reply) in
      st_Thought s = (if gives_answer trim reply \<and> thought = [] then ''Reached final answer'' else thought) \<and>
      st_Action s = last_field trim ''Action:'' (before_answer trim reply) \<and>
      st_ActionInput s = last_field trim ''Action Input:'' (before_answer trim reply) \<and>
      (st_IsFinal s \<longleftrightarrow> gives_answer trim reply) \<and>
      (gives_answer trim reply \<longrightarrow> st_Observation s = answer_field trim reply))"

lemma labels_distinct:
  "has_label ''Thought:'' l \<Longrightarrow> \<not> has_label ''Action:'' l \<and> \<not> has_label ''Action Input:'' l \<and> \<not> has_label ''Final Answer:'' l"
  "has_label ''Action:'' l \<Longrightarrow> \<not> has_label ''Action Input:'' l \<and> \<not> has_label ''Final Answer:'' l"
  "has_label ''Action Input:'' l \<Longrightarrow> \<not> has_label ''Final Answer:'' l"
  by (auto simp: has_label_def prefix_def)

lemma HasPrefix_label: "HasPrefix l p \<longleftrightarrow> has_label p l"
  by (auto simp: HasPrefix_def has_label_def prefix_def) (metis append_take_drop_id)

lemma last_field_snoc:
  "last_field trim label (ls @ [l]) = (if has_label label l then trim (drop (length label) l) else last_field trim label ls)"
  by (simp add: last_field_def Let_def)

text \<open>The loop of the parser after some lines without an answer.\<close>

lemma parse_lines_says:
  assumes "\<forall>l \<in> set read. \<not> has_label ''Final Answer:'' l"
    and "s = empty_step\<lparr>st_Thought := last_field trim ''Thought:'' read, st_Action := last_field trim ''Action:'' read,
      st_ActionInput := last_field trim ''Action Input:'' read\<rparr>"
    and "reply_lines trim reply = read @ map trim ls"
  shows "says trim reply (parse_lines trim ls s)"
  using assms
proof (induction ls arbitrary: read s)
  case Nil
  then have "before_answer trim reply = read" "\<not> gives_answer trim reply"
    by (auto simp: before_answer_def gives_answer_def)
  then show ?case using Nil by (simp add: says_def)
next
  case (Cons l ls)
  let ?l = "trim l"
  note parse = parse_lines.simps(2) [unfolded HasPrefix_label Let_def TrimPrefix_def]
  show ?case
  proof (cases "has_label ''Final Answer:'' ?l")
    case True
    then have "\<not> has_label ''Thought:'' ?l" "\<not> has_label ''Action:'' ?l" "\<not> has_label ''Action Input:'' ?l"
      using labels_distinct by blast+
    moreover have "before_answer trim reply = read" "gives_answer trim reply"
      "hd (filter (has_label ''Final Answer:'') (reply_lines trim reply)) = ?l"
      using Cons.prems(1,3) True by (auto simp: before_answer_def gives_answer_def takeWhile_append filter_False)
    moreover have "parse_lines trim (l # ls) s =
        s\<lparr>st_Thought := (if st_Thought s = [] then ''Reached final answer'' else st_Thought s),
          st_Observation := trim (drop (length ''Final Answer:'') ?l), st_IsFinal := True\<rparr>"
      using calculation(1-3) True unfolding parse by (simp only: if_True if_False)
    ultimately show ?thesis using Cons.prems(2) unfolding says_def answer_field_def by (simp only: Let_def ReActStep.simps) simp
  next
    case False
    then have r: "\<forall>l \<in> set (read @ [?l]). \<not> has_label ''Final Answer:'' l"
      "reply_lines trim reply = (read @ [?l]) @ map trim ls" using Cons.prems by auto
    have "parse_lines trim (l # ls) s = parse_lines trim ls
        (empty_step\<lparr>st_Thought := last_field trim ''Thought:'' (read @ [?l]), st_Action := last_field trim ''Action:'' (read @ [?l]),
          st_ActionInput := last_field trim ''Action Input:'' (read @ [?l])\<rparr>)"
      using False Cons.prems(2) labels_distinct [of ?l] unfolding last_field_snoc parse by auto
    then show ?thesis using Cons.IH [OF r(1) refl r(2)] by simp
  qed
qed

lemma parseResponse_says: "says trim reply (parseResponse trim reply)"
  unfolding parseResponse_def
  by (rule parse_lines_says [of "[]"]) (simp_all add: last_field_def reply_lines_def)

text \<open>
  A turn of the loop: the prompt of the question, the reply of the model, and what the tool
  returned if one was run.  The events of the turn are the question and the run of the tool that
  the step names, on its input, if there is such a tool.
\<close>

type_synonym react_turn = "string \<times> message \<times> ToolResult option outcome"

definition acts :: "'w tools \<Rightarrow> ReActStep \<Rightarrow> bool" where
  "acts tools s \<longleftrightarrow> \<not> st_IsFinal s \<and> st_Action s \<noteq> [] \<and> go_get tools (st_Action s) \<noteq> None"

definition turn_events :: "'w tools \<Rightarrow> react_turn \<Rightarrow> ReActStep \<Rightarrow> react_event list" where
  "turn_events tools t s =
     (case t of (prompt, response, result) \<Rightarrow>
        Asked (Some (user_prompt prompt)) (Ok (Some response)) #
        (if acts tools s then [Acted (st_Action s) [(''input'', GStr (st_ActionInput s))] result] else []))"

text \<open>What a step observes when it asks for an action.\<close>

definition observes :: "(tool_data \<Rightarrow> string) \<Rightarrow> (go_error \<Rightarrow> string) \<Rightarrow> 'w tools \<Rightarrow> react_turn \<Rightarrow> ReActStep \<Rightarrow> bool" where
  "observes sd et tools t s \<longleftrightarrow>
     (if acts tools s then
        case snd (snd t) of
          Ok (Some res) \<Rightarrow> st_Observation s =
            (if tr_Success res then sd (tr_Data res)
             else ''Error: '' @ (if tr_Error res \<noteq> [] then tr_Error res else ''Tool execution failed''))
        | Err e \<Rightarrow> st_Observation s = ''Error: '' @ et e
        | _ \<Rightarrow> False
      else HasPrefix (st_Observation s) ''Error: '' \<and> strings_Contains (st_Observation s) (st_Action s))"

definition turn_ok ::
    "(real \<Rightarrow> string) \<Rightarrow> (tool_data \<Rightarrow> string) \<Rightarrow> (string \<Rightarrow> string) \<Rightarrow> (go_error \<Rightarrow> string) \<Rightarrow> 'w tools \<Rightarrow> react_turn \<Rightarrow> ReActStep \<Rightarrow> bool" where
  "turn_ok ff sd trim et tools t s \<longleftrightarrow> says trim (ContentString ff (fst (snd t))) s \<and>
     (\<not> st_IsFinal s \<and> st_Action s \<noteq> [] \<longrightarrow> observes sd et tools t s)"

text \<open>The turn lets the loop go on.\<close>

definition goes_on :: "'w tools \<Rightarrow> react_turn \<Rightarrow> ReActStep \<Rightarrow> bool" where
  "goes_on tools t s \<longleftrightarrow> \<not> st_IsFinal s \<and> st_Action s \<noteq> [] \<and> \<not> (acts tools s \<and> (\<exists>e. snd (snd t) = Err e))"

definition stop_reason :: "'w tools \<Rightarrow> react_turn \<Rightarrow> ReActStep \<Rightarrow> string" where
  "stop_reason tools t s =
     (if st_IsFinal s then ''final_answer'' else if st_Action s = [] then ''invalid_action''
      else if acts tools s \<and> (\<exists>e. snd (snd t) = Err e) then ''tool_error'' else ''max_steps'')"

text \<open>The reply to the caller reports the record and why the loop stopped.\<close>

definition reports :: "bool \<Rightarrow> ReActStep list \<Rightarrow> string \<Rightarrow> message \<Rightarrow> bool" where
  "reports verbose steps reason m \<longleftrightarrow>
     meta_get m ''stop_reason'' = Some (GStr reason) \<and> meta_get m ''steps'' = Some (GInt (int (length steps))) \<and>
     meta_get m ''reasoning'' = Some (GList (map step_value steps)) \<and>
     (reason = ''final_answer'' \<and> \<not> verbose \<longrightarrow> msg_content m =
       GStr (if st_Observation (last steps) = [] then ''No final answer provided'' else st_Observation (last steps)))"

lemma not_found_observed:
  "HasPrefix (not_found tools n) ''Error: ''" "strings_Contains (not_found tools n) n"
  using contains_append [of n n "''Error: Tool '' @ [CHR 0x27]"]
  by (simp_all add: not_found_def HasPrefix_def strings_Contains_def)

lemma says_observation: "says trim reply s \<Longrightarrow> \<not> st_IsFinal s \<Longrightarrow> says trim reply (s\<lparr>st_Observation := x\<rparr>)"
  by (simp add: says_def Let_def)

lemma reports_format:
  "s = last steps \<or> reason = StopReasonMaxSteps \<Longrightarrow>
     reports verbose steps (stop_text reason) (formatFinalAnswer verbose steps s reason)"
  by (cases reason) (auto simp: reports_def formatFinalAnswer_def meta_get_def)

text \<open>One turn of the loop: it ends the loop, or goes on with the step in the history.\<close>

lemma react_turn:
  assumes "react_loop ff sd trim et (react_logged r) ctx (Suc left) steps history (w, l) = (Ok (Some m), steps', w', l')"
  obtains (stop) s t reason where "fst t = strings_Join history newline" "turn_ok ff sd trim et (ra_tools r) t s"
      "\<not> goes_on (ra_tools r) t s" "steps' = steps @ [s]" "l' = l @ turn_events (ra_tools r) t s"
      "m = formatFinalAnswer (ra_verbose r) steps' s reason" "stop_text reason = stop_reason (ra_tools r) t s"
    | (go) s t w1 where "fst t = strings_Join history newline" "turn_ok ff sd trim et (ra_tools r) t s" "goes_on (ra_tools r) t s"
      "react_loop ff sd trim et (react_logged r) ctx left (steps @ [s]) (history @ [formatStep s])
         (w1, l @ turn_events (ra_tools r) t s) = (Ok (Some m), steps', w', l')"
proof -
  let ?p = "strings_Join history newline"
  obtain x w1 where x: "agent_Process (ra_agent r) ctx (Some (user_prompt ?p)) w = (x, w1)" by (metis prod.exhaust)
  then obtain response where resp: "x = Ok (Some response)" using assms(1) by (auto simp: react_logged_ask split: outcome.splits option.splits)
  let ?parsed = "parseResponse trim (ContentString ff response)"
  have said: "says trim (ContentString ff response) ?parsed" by (rule parseResponse_says)
  note turn = assms(1) [simplified react_loop.simps react_logged_ask x resp fst_conv snd_conv prod.case outcome.case option.case Let_def]
  note defs = turn_ok_def goes_on_def turn_events_def acts_def stop_reason_def observes_def
  show thesis
  proof (cases "st_IsFinal ?parsed \<or> st_Action ?parsed = []")
    case True
    then show thesis
      using turn said by (intro stop [of "(?p, response, Panic [])" ?parsed
          "if st_IsFinal ?parsed then StopReasonFinalAnswer else StopReasonInvalidAction"]) (auto simp: defs split: if_splits)
  next
    case False
    then have said': "says trim (ContentString ff response) (?parsed\<lparr>st_Observation := y\<rparr>)" for y
      using says_observation [OF said] by simp
    show thesis
    proof (cases "go_get (ra_tools r) (st_Action ?parsed)")
      case None
      let ?s = "?parsed\<lparr>st_Observation := not_found (ra_tools (react_logged r)) (st_Action ?parsed)\<rparr>"
      show thesis
        using turn False None said' not_found_observed [of "ra_tools (react_logged r)" "st_Action ?parsed"]
        by (intro go [of "(?p, response, Panic [])" ?s w1]) (auto simp: react_logged_get defs)
    next
      case (Some t)
      obtain q w2 where q: "tool_Execute t ctx [(''input'', GStr (st_ActionInput ?parsed))] w1 = (q, w2)" by (metis prod.exhaust)
      then consider res where "q = Ok (Some res)" | e where "q = Err e"
        using turn False Some by (auto simp: react_logged_get split: outcome.splits option.splits)
      then show thesis
      proof cases
        case 1
        let ?s = "?parsed\<lparr>st_Observation := observation sd res\<rparr>"
        show thesis
          using turn False Some q 1 said' by (intro go [of "(?p, response, q)" ?s w2])
            (auto simp: react_logged_get defs observation_def)
      next
        case 2
        let ?s = "?parsed\<lparr>st_Observation := ''Error: '' @ et e\<rparr>"
        show thesis
          using turn False Some q 2 said' by (intro stop [of "(?p, response, q)" ?s StopReasonToolError])
            (auto simp: react_logged_get defs)
      qed
    qed
  qed
qed

text \<open>What the prompts of a run hold: the texts of the start and every earlier observation.\<close>

definition builds_on :: "string list \<Rightarrow> react_turn list \<Rightarrow> ReActStep list \<Rightarrow> bool" where
  "builds_on base turns steps \<longleftrightarrow> (\<forall>i < length turns. (\<forall>b \<in> set base. strings_Contains (fst (turns ! i)) b) \<and>
     (\<forall>j < i. strings_Contains (fst (turns ! i)) (st_Observation (steps ! j))))"

lemma formatStep_has_observation: "strings_Contains (formatStep s) (st_Observation s)"
proof (cases "st_Observation s = []")
  case False
  from contains_append [of "st_Observation s" "st_Observation s" "''Thought: '' @ st_Thought s @
     (if st_Action s \<noteq> [] then newline @ ''Action: '' @ st_Action s @ newline @ ''Action Input: '' @ st_ActionInput s else []) @
      newline @ ''Observation: ''" "[]"] False
  show ?thesis by (simp add: formatStep_def strings_Contains_def)
qed (simp add: strings_Contains_def)

lemma contains_trans: "strings_Contains s t \<Longrightarrow> strings_Contains t u \<Longrightarrow> strings_Contains s u"
  unfolding strings_Contains_def by (rule sublist_order.order.trans)

lemma builds_on_Cons:
  assumes "\<forall>b \<in> set base. strings_Contains (fst t) b" and "builds_on (base @ [formatStep s]) turns steps"
  shows "builds_on base (t # turns) (s # steps)"
proof -
  have o: "strings_Contains (fst (turns ! i)) (st_Observation s)" if "i < length turns" for i
    using assms(2) that contains_trans [OF _ formatStep_has_observation] by (auto simp: builds_on_def)
  show ?thesis unfolding builds_on_def
  proof (intro allI impI)
    fix i assume "i < length (t # turns)"
    then show "(\<forall>b \<in> set base. strings_Contains (fst ((t # turns) ! i)) b) \<and>
        (\<forall>j < i. strings_Contains (fst ((t # turns) ! i)) (st_Observation ((s # steps) ! j)))"
      using assms o by (cases i) (auto simp: builds_on_def nth_Cons split: nat.splits)
  qed
qed

lemma react_loop_sound:
  assumes "react_loop ff sd trim et (react_logged r) ctx left steps history (w, l) = (Ok (Some m), steps', w', l')"
    and "history \<noteq> []"
  shows "\<exists>new turns. steps' = steps @ new \<and> length turns = length new \<and> length new \<le> left \<and>
    l' = l @ concat (map2 (turn_events (ra_tools r)) turns new) \<and> builds_on history turns new \<and>
    list_all2 (turn_ok ff sd trim et (ra_tools r)) turns new \<and>
    list_all2 (goes_on (ra_tools r)) (butlast turns) (butlast new) \<and>
    (if new = [] \<or> goes_on (ra_tools r) (last turns) (last new)
     then length new = left \<and> m = formatFinalAnswer (ra_verbose r) steps' (last_step steps') StopReasonMaxSteps
     else \<exists>reason. m = formatFinalAnswer (ra_verbose r) steps' (last new) reason \<and>
       stop_text reason = stop_reason (ra_tools r) (last turns) (last new))"
  using assms
proof (induction left arbitrary: steps history w l)
  case 0
  then show ?case by (intro exI [of _ "[]"]) (auto simp: builds_on_def)
next
  case (Suc left)
  have base: "\<forall>b \<in> set history. strings_Contains (strings_Join history newline) b" by (simp add: contains_Join)
  from Suc.prems(1) show ?case
  proof (cases rule: react_turn)
    case (stop s t reason)
    then have "builds_on history [t] [s]" using base by (simp add: builds_on_def)
    then show ?thesis using stop by (intro exI [of _ "[s]"] exI [of _ "[t]"]) auto
  next
    case (go s t w1)
    from Suc.IH [OF go(4)] obtain new turns where new: "steps' = (steps @ [s]) @ new" "length turns = length new" "length new \<le> left"
      "l' = (l @ turn_events (ra_tools r) t s) @ concat (map2 (turn_events (ra_tools r)) turns new)"
      "builds_on (history @ [formatStep s]) turns new" "list_all2 (turn_ok ff sd trim et (ra_tools r)) turns new"
      "list_all2 (goes_on (ra_tools r)) (butlast turns) (butlast new)"
      "if new = [] \<or> goes_on (ra_tools r) (last turns) (last new)
       then length new = left \<and> m = formatFinalAnswer (ra_verbose r) steps' (last_step steps') StopReasonMaxSteps
       else \<exists>reason. m = formatFinalAnswer (ra_verbose r) steps' (last new) reason \<and>
         stop_text reason = stop_reason (ra_tools r) (last turns) (last new)" by blast
    have b: "builds_on history (t # turns) (s # new)" using builds_on_Cons [OF _ new(5)] go(1) base by simp
    show ?thesis
    proof (cases "new = []")
      case True
      then show ?thesis using new go b by (intro exI [of _ "[s]"] exI [of _ "[t]"]) simp
    next
      case False
      then have "turns \<noteq> []" using new(2) by auto
      then show ?thesis using False new go b by (intro exI [of _ "s # new"] exI [of _ "t # turns"]) (simp split: if_splits)
    qed
  qed
qed

text \<open>
  C28.
  The ReAct loop does what its record says, and its record is what the model said.  When it
  answers, it has asked the model once per recorded step, at most \<open>maxSteps\<close> times, and after each
  question it ran the tool that the step names, on its input, if there is such a tool, and nothing
  else.  Every recorded step has the thought, action and input of the lines of its reply before a
  line \<open>Final Answer:\<close> (of each the last), is final exactly when the reply has such a line, and
  then observes the answer on it; otherwise it observes what the tool returned.  Every prompt holds
  the template, the question and all earlier observations.  All steps but the last ask for an
  action and the tool, if there is one, returned no error.  The reply reports the steps, and
  \<open>final_answer\<close> as the reason with the answer as its text exactly when the last reply of the
  model has that line; \<open>invalid_action\<close> when it has neither that line nor an action;
  \<open>tool_error\<close> when the tool returned an error; \<open>max_steps\<close> when all steps were used.
\<close>
theorem react_runs_its_record:
  assumes "react_Process ff sd trim et (react_logged r) ctx (Some q) (w, []) = (Ok (Some m), steps, w', l)"
  shows "\<exists>turns. length turns = length steps \<and> length steps \<le> nat (ra_maxSteps r) \<and>
    l = concat (map2 (turn_events (ra_tools r)) turns steps) \<and>
    (\<forall>i < length steps. turn_ok ff sd trim et (ra_tools r) (turns ! i) (steps ! i)) \<and>
    builds_on [ra_promptTemplate r, newline @ ''Question: '' @ ContentString ff q] turns steps \<and>
    (\<forall>i. Suc i < length steps \<longrightarrow> goes_on (ra_tools r) (turns ! i) (steps ! i)) \<and>
    (if steps = [] \<or> goes_on (ra_tools r) (last turns) (last steps)
     then length steps = nat (ra_maxSteps r) \<and> reports (ra_verbose r) steps ''max_steps'' m
     else reports (ra_verbose r) steps (stop_reason (ra_tools r) (last turns) (last steps)) m \<and>
       (stop_reason (ra_tools r) (last turns) (last steps) = ''final_answer'' \<longleftrightarrow>
          gives_answer trim (ContentString ff (fst (snd (last turns))))))"
proof -
  have "react_loop ff sd trim et (react_logged r) ctx (nat (ra_maxSteps r)) []
      [ra_promptTemplate r, newline @ ''Question: '' @ ContentString ff q] (w, []) = (Ok (Some m), steps, w', l)"
    using assms by (simp add: react_Process_def)
  from react_loop_sound [OF this] obtain turns where t: "length turns = length steps" "length steps \<le> nat (ra_maxSteps r)"
    "l = concat (map2 (turn_events (ra_tools r)) turns steps)"
    "builds_on [ra_promptTemplate r, newline @ ''Question: '' @ ContentString ff q] turns steps"
    "list_all2 (turn_ok ff sd trim et (ra_tools r)) turns steps"
    "list_all2 (goes_on (ra_tools r)) (butlast turns) (butlast steps)"
    "if steps = [] \<or> goes_on (ra_tools r) (last turns) (last steps)
     then length steps = nat (ra_maxSteps r) \<and> m = formatFinalAnswer (ra_verbose r) steps (last_step steps) StopReasonMaxSteps
     else \<exists>reason. m = formatFinalAnswer (ra_verbose r) steps (last steps) reason \<and>
       stop_text reason = stop_reason (ra_tools r) (last turns) (last steps)" by auto
  have go: "goes_on (ra_tools r) (turns ! i) (steps ! i)" if "Suc i < length steps" for i
    using t(1,6) that by (auto simp: list_all2_conv_all_nth nth_butlast)
  have reason: "stop_reason (ra_tools r) (last turns) (last steps) = ''final_answer'' \<longleftrightarrow>
      gives_answer trim (ContentString ff (fst (snd (last turns))))" if "steps \<noteq> []"
  proof -
    have "turn_ok ff sd trim et (ra_tools r) (last turns) (last steps)"
      using that t(5) by (cases steps rule: rev_cases) (auto simp: list_all2_append2 list_all2_Cons2)
    then show ?thesis by (auto simp: turn_ok_def says_def stop_reason_def Let_def)
  qed
  have ok: "\<forall>i < length steps. turn_ok ff sd trim et (ra_tools r) (turns ! i) (steps ! i)"
    using t(1,5) by (simp add: list_all2_conv_all_nth)
  show ?thesis
  proof (rule exI [of _ turns], intro conjI t(1-4) ok allI impI go, assumption, goal_cases)
    case 1
    show ?case
    proof (cases "steps = [] \<or> goes_on (ra_tools r) (last turns) (last steps)")
      case True
      then show ?thesis using t(7) reports_format [of _ steps StopReasonMaxSteps "ra_verbose r"] by simp
    next
      case False
      then obtain reason where "m = formatFinalAnswer (ra_verbose r) steps (last steps) reason"
        "stop_text reason = stop_reason (ra_tools r) (last turns) (last steps)" using t(7) by auto
      then show ?thesis using False reason reports_format [of "last steps" steps reason "ra_verbose r"] by simp
    qed
  qed
qed

definition scripted_agent :: "nat ReActAgent" where
  "scripted_agent =
     \<lparr>ra_agent = \<lparr>agent_Name = ''m'', agent_Capabilities = [], agent_Process = (\<lambda>ctx m w.
        (Ok (Some (user_prompt (if w = 0 then ''Thought: look'' @ newline @ ''Action: a'' @ newline @ ''Action Input: 1'' else ''Final Answer:yes''))), w + 1))\<rparr>,
      ra_tools = [(''a'', echo_tool ''a'')], ra_maxSteps = 5, ra_verbose = False, ra_promptTemplate = ''go''\<rparr>"

theorem react_runs_its_record_witness:
  "\<exists>m steps w' l. react_Process (\<lambda>r. []) (\<lambda>d. ''x'') (\<lambda>s. dropWhile (\<lambda>c. c = CHR '' '') s) (\<lambda>e. []) (react_logged scripted_agent) Background
      (Some (user_prompt ''q'')) (0, []) = (Ok (Some m), steps, w', l) \<and> length steps = 2 \<and>
    (\<exists>turns. length turns = 2 \<and> l = concat (map2 (turn_events (ra_tools scripted_agent)) turns steps))"
proof -
  let ?run = "react_Process (\<lambda>r. []) (\<lambda>d. ''x'') (\<lambda>s. dropWhile (\<lambda>c. c = CHR '' '') s) (\<lambda>e. []) (react_logged scripted_agent) Background
      (Some (user_prompt ''q'')) (0, [])"
  have "case ?run of (Ok (Some m), steps, w', l) \<Rightarrow> length steps = 2 | _ \<Rightarrow> False" by code_simp
  then obtain m steps w' l where run: "?run = (Ok (Some m), steps, w', l)" "length steps = 2"
    by (auto split: prod.splits outcome.splits option.splits)
  from react_runs_its_record [OF run(1)] obtain turns where
    "length turns = length steps" "l = concat (map2 (turn_events (ra_tools scripted_agent)) turns steps)" by blast
  then show ?thesis using run by metis
qed

section \<open>The history is written as the model's replies are read\<close>

text \<open>What is used of \<open>strings.TrimSpace\<close>.\<close>

definition ascii_space :: "char \<Rightarrow> bool" where
  "ascii_space c \<longleftrightarrow> c \<in> {CHR '' '', CHR 0x09, CHR 0x0A, CHR 0x0B, CHR 0x0C, CHR 0x0D}"

definition plain_char :: "char \<Rightarrow> bool" where
  "plain_char c \<longleftrightarrow> \<not> ascii_space c \<and> (of_char c :: nat) < 128"

definition trims :: "(string \<Rightarrow> string) \<Rightarrow> bool" where
  "trims trim \<longleftrightarrow> trim [] = [] \<and> (\<forall>s. trim (CHR '' '' # s) = trim s) \<and> (\<forall>s. trim (s @ '' '') = trim s) \<and>
     (\<forall>a p b. plain_char a \<and> plain_char b \<longrightarrow> trim (a # p @ [b]) = a # p @ [b]) \<and>
     (\<forall>a p t. plain_char a \<and> t \<noteq> [] \<and> trim t = t \<longrightarrow> trim (a # p @ '' '' @ t) = a # p @ '' '' @ t)"

lemma trims_field:
  assumes "trims trim" and "plain_char a" and "plain_char b" and "trim t = t"
  shows "trim (a # p @ [b] @ '' '' @ t) = (if t = [] then a # p @ [b] else a # p @ [b] @ '' '' @ t)"
proof (cases "t = []")
  case True
  have "trim ((a # p @ [b]) @ '' '') = a # p @ [b]" using assms(1-3) unfolding trims_def by metis
  then show ?thesis using True by simp
next
  case False
  have "trim (a # (p @ [b]) @ '' '' @ t) = a # (p @ [b]) @ '' '' @ t" using assms False unfolding trims_def by blast
  then show ?thesis using False by simp
qed

lemma trims_space: "trims trim \<Longrightarrow> trim t = t \<Longrightarrow> trim (CHR '' '' # t) = t"
  by (simp add: trims_def)

lemma trims_nil: "trims trim \<Longrightarrow> trim [] = []"
  by (simp add: trims_def)

lemmas prefix_simps = HasPrefix_def TrimPrefix_def plain_char_def ascii_space_def

lemma field_lines:
  assumes "trims trim" and "trim t = t"
  shows "trim (''Thought: '' @ t) = ''Thought:'' @ (if t = [] then [] else CHR '' '' # t)"
    and "trim (''Action: '' @ t) = ''Action:'' @ (if t = [] then [] else CHR '' '' # t)"
    and "trim (''Action Input: '' @ t) = ''Action Input:'' @ (if t = [] then [] else CHR '' '' # t)"
    and "trim (''Observation: '' @ t) = ''Observation:'' @ (if t = [] then [] else CHR '' '' # t)"
  using trims_field [OF assms(1) _ _ assms(2), of "CHR ''T''" "CHR '':''" "''hought''"]
    trims_field [OF assms(1) _ _ assms(2), of "CHR ''A''" "CHR '':''" "''ction''"]
    trims_field [OF assms(1) _ _ assms(2), of "CHR ''A''" "CHR '':''" "''ction Input''"]
    trims_field [OF assms(1) _ _ assms(2), of "CHR ''O''" "CHR '':''" "''bservation''"]
  by (simp_all add: plain_char_def ascii_space_def)

text \<open>A field on its line.\<close>

definition clean :: "(string \<Rightarrow> string) \<Rightarrow> string \<Rightarrow> bool" where
  "clean trim t \<longleftrightarrow> trim t = t \<and> CHR 0x0A \<notin> set t"

lemma parse_line:
  "trim l = ''Thought:'' @ x \<Longrightarrow> parse_lines trim (l # ls) s = parse_lines trim ls (s\<lparr>st_Thought := trim x\<rparr>)"
  "trim l = ''Action:'' @ x \<Longrightarrow> parse_lines trim (l # ls) s = parse_lines trim ls (s\<lparr>st_Action := trim x\<rparr>)"
  "trim l = ''Action Input:'' @ x \<Longrightarrow> parse_lines trim (l # ls) s = parse_lines trim ls (s\<lparr>st_ActionInput := trim x\<rparr>)"
  "trim l = ''Observation:'' @ x \<Longrightarrow> parse_lines trim (l # ls) s = parse_lines trim ls s"
  by (simp_all add: Let_def HasPrefix_def TrimPrefix_def)

lemma parse_field_lines:
  assumes "trims trim" and "clean trim t"
  shows "parse_lines trim ((''Thought: '' @ t) # ls) s = parse_lines trim ls (s\<lparr>st_Thought := t\<rparr>)"
    and "parse_lines trim ((''Action: '' @ t) # ls) s = parse_lines trim ls (s\<lparr>st_Action := t\<rparr>)"
    and "parse_lines trim ((''Action Input: '' @ t) # ls) s = parse_lines trim ls (s\<lparr>st_ActionInput := t\<rparr>)"
    and "parse_lines trim ((''Observation: '' @ t) # ls) s = parse_lines trim ls s"
proof -
  have t: "trim t = t" using assms(2) by (simp add: clean_def)
  have field: "trim (if t = [] then [] else CHR '' '' # t) = t" using trims_space [OF assms(1) t] trims_nil [OF assms(1)] by simp
  note ls = field_lines [OF assms(1) t]
  show "parse_lines trim ((''Thought: '' @ t) # ls) s = parse_lines trim ls (s\<lparr>st_Thought := t\<rparr>)"
    using parse_line(1) [of trim, OF ls(1)] unfolding field .
  show "parse_lines trim ((''Action: '' @ t) # ls) s = parse_lines trim ls (s\<lparr>st_Action := t\<rparr>)"
    using parse_line(2) [of trim, OF ls(2)] unfolding field .
  show "parse_lines trim ((''Action Input: '' @ t) # ls) s = parse_lines trim ls (s\<lparr>st_ActionInput := t\<rparr>)"
    using parse_line(3) [of trim, OF ls(3)] unfolding field .
  show "parse_lines trim ((''Observation: '' @ t) # ls) s = parse_lines trim ls s"
    using parse_line(4) [of trim, OF ls(4)] .
qed

definition step_lines :: "ReActStep \<Rightarrow> string list" where
  "step_lines s =
     (''Thought: '' @ st_Thought s) #
     (if st_Action s \<noteq> [] then [''Action: '' @ st_Action s, ''Action Input: '' @ st_ActionInput s] else []) @
     (if st_Observation s \<noteq> [] then [''Observation: '' @ st_Observation s] else [])"

lemma formatStep_lines: "formatStep s = strings_Join (step_lines s) newline"
  by (simp add: formatStep_def step_lines_def)

text \<open>
  The conversation history has the format the agent expects of the model: a step that asks for
  an action, with fields free of line breaks and of white space at their ends, is read back from
  its text in the history, except for its observation, which the parser skips.
\<close>
lemma react_step_roundtrip:
  assumes "trims trim" and "\<not> st_IsFinal s \<and> st_Action s \<noteq> []"
    and "clean trim (st_Thought s)" and "clean trim (st_Action s)" and "clean trim (st_ActionInput s)" and "clean trim (st_Observation s)"
  shows "parseResponse trim (formatStep s) = s\<lparr>st_Observation := []\<rparr>"
proof -
  have nl: "\<forall>l \<in> set (step_lines s). CHR 0x0A \<notin> set l" using assms(3-6) by (auto simp: step_lines_def clean_def)
  have "parseResponse trim (formatStep s) = parse_lines trim (step_lines s) empty_step"
    unfolding parseResponse_def formatStep_lines by (subst split_join) (use nl in \<open>auto simp: step_lines_def\<close>)
  also have "\<dots> = s\<lparr>st_Observation := []\<rparr>"
  proof -
    let ?obs = "if st_Observation s = [] then [] else [''Observation: '' @ st_Observation s]"
    have ls: "step_lines s = (''Thought: '' @ st_Thought s) # (''Action: '' @ st_Action s) # (''Action Input: '' @ st_ActionInput s) # ?obs"
      using assms(2) by (simp add: step_lines_def)
    have skip: "parse_lines trim ?obs x = x" for x
      using parse_field_lines(4) [OF assms(1,6), of "[]" x] by (cases "st_Observation s = []") (simp_all only: if_True if_False simp_thms parse_lines.simps(1))
    show ?thesis
      unfolding ls parse_field_lines(1) [OF assms(1,3)] parse_field_lines(2) [OF assms(1,4)] parse_field_lines(3) [OF assms(1,5)] skip
      using assms(2) by simp
  qed
  finally show ?thesis .
qed

definition ascii_trim :: "string \<Rightarrow> string" where
  "ascii_trim s = rev (dropWhile ascii_space (rev (dropWhile ascii_space s)))"

lemma ascii_trim_plain: "plain_char a \<Longrightarrow> ascii_trim (a # t) = a # rev (dropWhile ascii_space (rev t))"
proof -
  assume a: "plain_char a"
  then have "dropWhile ascii_space (rev t @ [a]) = dropWhile ascii_space (rev t) @ [a]"
    by (simp add: dropWhile_append plain_char_def)
  then show "ascii_trim (a # t) = a # rev (dropWhile ascii_space (rev t))" using a by (simp add: ascii_trim_def plain_char_def)
qed

lemma ascii_trim_trims: "trims ascii_trim"
proof -
  have last: "dropWhile ascii_space (rev t) = rev t" if "ascii_trim t = t" "t \<noteq> []" for t
  proof -
    have "length (dropWhile ascii_space (rev (dropWhile ascii_space t))) = length t" using that(1) by (metis ascii_trim_def length_rev)
    then have "length t \<le> length (dropWhile ascii_space t)"
      using length_dropWhile_le [of ascii_space "rev (dropWhile ascii_space t)"] by simp
    then have "dropWhile ascii_space t = t"
      using length_dropWhile_le [of ascii_space "tl t"] by (cases t) (auto split: if_splits)
    then have "rev (dropWhile ascii_space (rev t)) = t" using that(1) by (simp add: ascii_trim_def)
    then show ?thesis by (metis rev_rev_ident)
  qed
  have sp: "ascii_space (CHR '' '')" by (simp add: ascii_space_def)
  have "ascii_trim (s @ '' '') = ascii_trim s" for s
  proof (cases "\<forall>c \<in> set s. ascii_space c")
    case True
    then show ?thesis using sp by (auto simp: ascii_trim_def dest: set_dropWhileD)
  next
    case False
    then have "dropWhile ascii_space (s @ '' '') = dropWhile ascii_space s @ '' ''" by (simp add: dropWhile_append)
    then show ?thesis using sp by (simp add: ascii_trim_def)
  qed
  moreover have "ascii_trim (a # p @ [b]) = a # p @ [b]" if "plain_char a" "plain_char b" for a b p
    using that by (simp add: ascii_trim_plain plain_char_def)
  moreover have "ascii_trim (a # p @ '' '' @ t) = a # p @ '' '' @ t" if "plain_char a" "t \<noteq> []" "ascii_trim t = t" for a p t
  proof -
    have "\<not> ascii_space (hd (rev t))" using last [OF that(3,2)] that(2) by (metis dropWhile_eq_self_iff rev_is_Nil_conv)
    then have "dropWhile ascii_space (rev t @ u) = rev t @ u" for u using that(2) by (cases "rev t") auto
    then show ?thesis using ascii_trim_plain [OF that(1), of "p @ '' '' @ t"] by simp
  qed
  moreover have "ascii_trim (CHR '' '' # s) = ascii_trim s" for s by (simp add: ascii_trim_def ascii_space_def)
  ultimately show ?thesis unfolding trims_def by (auto simp: ascii_trim_def)
qed

section \<open>Reasoning with tools keeps its trace\<close>

text \<open>
  The agent that reasons with tools loses the errors of tools: a tool that reports its failure in
  its result, as \<open>NewToolError\<close> and every agent wrapped as a tool do, is shown to the model as
  the result \<open>nil\<close>, whatever its error says, and counted as a tool used, while the ReAct agent
  shows the error.
\<close>
lemma reasoning_loses_tool_errors:
  assumes "tool_Execute tool ctx ps w = (Ok (Some (NewToolError e)), w')" and "trim before = []"
  shows "fst (rwt_call sd trim et clock ctx n tool name ps before context None w) = Ok (with_result sd context name (Plain GNil), None) \<and>
    observation sd (NewToolError e) = ''Error: '' @ (if e \<noteq> [] then e else ''Tool execution failed'')"
  using assms by (simp add: rwt_call_def trace_step_def count_tool_def NewToolError_def observation_def Let_def)

text \<open>The counters of a trace agree with its steps.\<close>

definition trace_counts :: "bool \<Rightarrow> ReasoningTrace option \<Rightarrow> bool" where
  "trace_counts traced trace \<longleftrightarrow> (case trace of
     None \<Rightarrow> \<not> traced
   | Some t \<Rightarrow> traced \<and> rt_TotalThinkingSteps t = int (length (filter (\<lambda>s. rs_StepType s = ReasoningStepThinking) (rt_Steps t))) \<and>
       rt_TotalToolsUsed t = int (length (filter (\<lambda>s. rs_StepType s = ReasoningStepToolCall) (rt_Steps t))))"

lemma trace_step_counts:
  assumes "trace_step clock n ty c tool ps res trace w = (trace', w')" and "trace_counts b trace"
  shows "trace_counts b (if ty = ReasoningStepToolCall then count_tool trace' else trace')"
  using assms by (cases ty) (auto simp: trace_step_def trace_counts_def count_tool_def currentTimeMillis_def Let_def split: option.splits prod.splits)

lemma count_tool_commutes:
  assumes "trace_step clock n ty c tool ps res trace w = (trace', w')"
  shows "trace_step clock n ty c tool ps res (count_tool trace) w = (count_tool trace', w')"
  using assms by (auto simp: trace_step_def count_tool_def currentTimeMillis_def Let_def split: option.splits prod.splits)

lemma rwt_call_counts:
  assumes "rwt_call sd trim et clock ctx n tool name ps before context trace w = (Ok (context', trace'), w')" and "trace_counts b trace"
  shows "trace_counts b trace'"
proof -
  obtain trace1 w1 where t1: "(if trim before \<noteq> [] then trace_step clock n ReasoningStepThinking (trim before) [] [] None trace w else (trace, w)) = (trace1, w1)"
    by (metis prod.exhaust)
  then have c1: "trace_counts b trace1"
    using assms(2) trace_step_counts [of clock n ReasoningStepThinking "trim before" "[]" "[]" None trace w trace1 w1] by (auto split: if_splits)
  obtain x w2 where x: "tool_Execute tool ctx ps w1 = (x, w2)" by (metis prod.exhaust)
  show ?thesis
  proof (cases x)
    case (Ok r)
    then obtain res where res: "r = Some res" using assms(1) t1 x by (cases r) (auto simp: rwt_call_def)
    obtain trace2 w3 where t2: "trace_step clock n ReasoningStepToolCall (''Called '' @ name) name ps None trace1 w2 = (trace2, w3)" by (metis prod.exhaust)
    obtain trace3 w4 where t3: "trace_step clock n ReasoningStepToolResult (sd (tr_Data res)) name [] (Some (tr_Data res)) trace2 w3 = (trace3, w4)"
      by (metis prod.exhaust)
    have "trace' = count_tool trace3" using assms(1) t1 x Ok res t2 t3 by (simp add: rwt_call_def)
    moreover have "trace_counts b (count_tool trace2)" using trace_step_counts [OF t2 c1] by simp
    ultimately show ?thesis using trace_step_counts [OF count_tool_commutes [OF t3]] by simp
  next
    case (Err e)
    obtain trace2 w3 where t2: "trace_step clock n ReasoningStepToolResult (''Tool '' @ name @ '' failed: '' @ et e) name [] None trace1 w2 = (trace2, w3)"
      by (metis prod.exhaust)
    then show ?thesis using trace_step_counts [OF t2 c1] assms(1) t1 x Err by (simp add: rwt_call_def)
  next
    case (Panic p)
    then show ?thesis using assms(1) t1 x by (simp add: rwt_call_def)
  qed
qed

lemma rwt_loop_counts:
  assumes "rwt_loop P clock cerr r ctx left n context trace w = (Ok (answer, context', trace'), w')" and "trace_counts b trace"
  shows "trace_counts b trace'"
  using assms
proof (induction left arbitrary: n "context" trace w)
  case (Suc left)
  obtain x w1 where x: "agent_Process (rw_llm r) ctx (Some (user_prompt context)) w = (x, w1)" by (metis prod.exhaust)
  obtain response where resp: "cerr ctx w = None" "x = Ok (Some response)" using Suc.prems(1) x by (auto split: option.splits outcome.splits)
  let ?txt = "ContentString (rp_ff P) response"
  obtain t1 w2 where think: "trace_step clock n ReasoningStepThinking ?txt [] [] None trace w1 = (t1, w2)" by (metis prod.exhaust)
  have c1: "trace_counts b t1" using trace_step_counts [OF think Suc.prems(2)] by simp
  obtain tn ps before where call: "parseToolCall (rp_trim P) (rp_unmarshal P) ?txt = (tn, ps, before)" by (metis prod_cases3)
  note turn = Suc.prems(1) [simplified rwt_loop.simps x resp think call prod.case outcome.case option.case Let_def]
  show ?case
  proof (cases "strings_Contains ?txt ''TOOL_CALL:''")
    case True
    show ?thesis
    proof (cases "Option.bind tn (go_get (rw_tools r))")
      case None
      then show ?thesis using turn True Suc.IH c1 by auto
    next
      case (Some tool)
      obtain y w3 where y: "rwt_call (rp_show P) (rp_trim P) (rp_err P) clock ctx n tool (the tn) ps before context trace w1 = (y, w3)" by (metis prod.exhaust)
      then obtain cx trace1 where yy: "y = Ok (cx, trace1)" using turn True Some by (cases y) auto
      have "trace_counts b trace1" using rwt_call_counts [OF y [unfolded yy] Suc.prems(2)] .
      moreover have "rwt_loop P clock cerr r ctx left (n + 1) cx trace1 w3 = (Ok (answer, context', trace'), w')" using turn True Some y yy by simp
      ultimately show ?thesis using Suc.IH by blast
    qed
  next
    case plain: False
    show ?thesis
    proof (cases "isConclusion (rp_upper P) ?txt")
      case True
      obtain a where "extractAnswer (rp_upper P) (rp_trim P) ?txt = Ok a" using turn plain True by (auto split: outcome.splits)
      moreover obtain t2 w3 where "trace_step clock n ReasoningStepConclusion a [] [] None trace w1 = (t2, w3)" by (metis prod.exhaust)
      ultimately show ?thesis using turn plain True trace_step_counts [of clock n ReasoningStepConclusion a "[]" "[]" None trace w1 t2 w3] Suc.prems(2) by auto
    next
      case False
      then show ?thesis using turn plain Suc.IH c1 by auto
    qed
  qed
qed simp

text \<open>
  The figures the agent reports about its reasoning are those of its trace: with tracing enabled
  an answer carries the number of steps of the trace and, as the number of tools used, the number
  of its tool calls.
\<close>
lemma reasoning_trace_exact:
  assumes "rwt_Process P clock cerr r ctx (Some m) w = (Ok (Some reply), w')" and "rw_enableTrace r"
  shows "\<exists>t. meta_get reply ''reasoning_trace'' = Some (traceToDict (rp_show P) t) \<and>
    meta_get reply ''reasoning_steps'' = Some (GInt (int (length (rt_Steps t)))) \<and>
    meta_get reply ''tools_used'' = Some (GInt (int (length (filter (\<lambda>s. rs_StepType s = ReasoningStepToolCall) (rt_Steps t))))) \<and>
    rt_TotalThinkingSteps t = int (length (filter (\<lambda>s. rs_StepType s = ReasoningStepThinking) (rt_Steps t)))"
proof -
  obtain now w0 where now: "currentTimeMillis clock w = (now, w0)" by (metis prod.exhaust)
  let ?t0 = "\<lparr>rt_Steps = [], rt_TotalToolsUsed = 0, rt_TotalThinkingSteps = 0, rt_StartTime = now, rt_EndTime = 0\<rparr>"
  let ?c = "rw_toolUsePrompt r @ para @ ''USER QUESTION:'' @ newline @ ContentString (rp_ff P) m @ para @ ''Begin reasoning. Use tools as needed while thinking.''"
  have start: "start_trace clock r w = (Some ?t0, w0)" using now assms(2) by (simp add: start_trace_def)
  obtain x w1 where x: "rwt_loop P clock cerr r ctx (nat (rw_maxReasoningSteps r)) 0 ?c (Some ?t0) w0 = (x, w1)" by (metis prod.exhaust)
  note run = assms(1) [unfolded rwt_Process_def option.case start Let_def prod.case x]
  obtain answer cx trace where ok: "x = Ok (answer, cx, trace)" using run by (cases x) auto
  have counts: "trace_counts True trace" using rwt_loop_counts [of P clock cerr r ctx _ 0 ?c "Some ?t0" w0 answer cx trace w1] x ok by (simp add: trace_counts_def)
  then obtain t where t: "trace = Some t" by (auto simp: trace_counts_def split: option.splits)
  obtain now' w2 where fin: "currentTimeMillis clock w1 = (now', w2)" by (metis prod.exhaust)
  have reply: "reply = fst (rwt_finish (rp_show P) clock answer cx trace w1)" using run ok by (simp add: split_def)
  show ?thesis
    using counts by (intro exI [of _ "t\<lparr>rt_EndTime := now'\<rparr>"]) (simp add: reply rwt_finish_def t fin meta_get_def trace_counts_def)
qed

definition concluding_agent :: "unit RWTAgent" where
  "concluding_agent = NewReasoningWithToolsAgent
     \<lparr>agent_Name = ''m'', agent_Capabilities = [], agent_Process = (\<lambda>ctx m w. (Ok (Some (user_prompt ''CONCLUSION:42'')), w))\<rparr> [] None"

definition sample_params :: rwt_params where
  "sample_params = \<lparr>rp_ff = (\<lambda>r. []), rp_show = (\<lambda>d. []), rp_trim = (\<lambda>s. s), rp_upper = (\<lambda>s. s), rp_err = (\<lambda>e. []), rp_unmarshal = (\<lambda>s. [])\<rparr>"

text \<open>
  Cutting the answer out of a conclusion can panic: the position of the marker is taken in the
  text in upper case, which may be longer than the text when a letter's upper case has more bytes.
\<close>
lemma conclusion_can_panic:
  assumes "upper ''FINAL ANSWER:'' = ''FINAL ANSWER:''" and "upper (letter @ ''FINAL ANSWER:'') = letter' @ ''FINAL ANSWER:''"
    and "length letter < length letter'" and "CHR ''F'' \<notin> set letter'"
  shows "extractAnswer upper trim (letter @ ''FINAL ANSWER:'') = Panic ''slice bounds out of range''"
proof -
  have "strings_Index (l @ ''FINAL ANSWER:'') ''FINAL ANSWER:'' = Some (length l)" if "CHR ''F'' \<notin> set l" for l
    using that by (induction l) (simp_all add: strings_Index.simps HasPrefix_def, auto simp: take_Cons')
  then show ?thesis using assms by (simp add: extractAnswer_def)
qed

end
