(* ===== verification/Graph_Of_Thought.thy ===== *)
theory Graph_Of_Thought
  imports Reasoning_Graph Tree_Of_Thought Text_Lines "HOL-Library.Multiset"
begin

text \<open>
  The agent that reasons in a graph (\<open>techniques/reasoning/graph_of_thought.go\<close>): it asks a model
  for premises, then for thoughts until the graph of theory \<open>Reasoning_Graph\<close> is full or no
  thought comes, asks for the relation of every pair of thoughts, asks for a conclusion, and
  answers with the conclusion of the best path from a premise to a conclusion.

  Trimming and upper case (\<open>trim\<close>, \<open>upper\<close>) are parameters.  The loops over Go maps visit their
  entries in an order that Go leaves open: \<open>it k\<close> reorders the entries of the node map for the
  \<open>k\<close>-th loop over it, \<open>is\<close> those of the map of node scores.
\<close>

section \<open>Configuration\<close>

abbreviation nl :: string where
  "nl \<equiv> [CHR 0x0A]"

type_synonym AggregatorType = string

definition AggregatorPathBased :: AggregatorType where "AggregatorPathBased = ''path_based''"
definition AggregatorNodeBased :: AggregatorType where "AggregatorNodeBased = ''node_based''"

definition EdgeTypeSupports :: EdgeType where "EdgeTypeSupports = ''supports''"
definition EdgeTypeDependsOn :: EdgeType where "EdgeTypeDependsOn = ''depends_on''"
definition EdgeTypeContradicts :: EdgeType where "EdgeTypeContradicts = ''contradicts''"
definition EdgeTypeRefines :: EdgeType where "EdgeTypeRefines = ''refines''"

record 'w GraphOfThought =
  got_agent :: "'w agent"
  got_maxNodes :: int
  got_maxEdges :: int
  got_aggregator :: AggregatorType
  got_allowCycles :: bool
  got_mem :: "'w artifact_memory option"
  got_verifier :: "(string \<Rightarrow> string \<Rightarrow> 'w \<Rightarrow> gval option \<times> 'w) option"
  got_sessionID :: string

definition WithMaxNodes :: "int \<Rightarrow> 'w GraphOfThought \<Rightarrow> 'w GraphOfThought" where
  "WithMaxNodes n got = got\<lparr>got_maxNodes := n\<rparr>"

definition WithMaxEdges :: "int \<Rightarrow> 'w GraphOfThought \<Rightarrow> 'w GraphOfThought" where
  "WithMaxEdges n got = got\<lparr>got_maxEdges := n\<rparr>"

definition WithAggregator :: "AggregatorType \<Rightarrow> 'w GraphOfThought \<Rightarrow> 'w GraphOfThought" where
  "WithAggregator agg got = got\<lparr>got_aggregator := agg\<rparr>"

definition WithAllowCycles :: "bool \<Rightarrow> 'w GraphOfThought \<Rightarrow> 'w GraphOfThought" where
  "WithAllowCycles allow got = got\<lparr>got_allowCycles := allow\<rparr>"

definition WithGraphMemory :: "'w artifact_memory \<Rightarrow> 'w GraphOfThought \<Rightarrow> 'w GraphOfThought" where
  "WithGraphMemory mem got = got\<lparr>got_mem := Some mem\<rparr>"

definition WithGraphVerifier ::
    "(string \<Rightarrow> string \<Rightarrow> 'w \<Rightarrow> gval option \<times> 'w) \<Rightarrow> 'w GraphOfThought \<Rightarrow> 'w GraphOfThought" where
  "WithGraphVerifier v got = got\<lparr>got_verifier := Some v\<rparr>"

definition WithGraphSessionID :: "string \<Rightarrow> 'w GraphOfThought \<Rightarrow> 'w GraphOfThought" where
  "WithGraphSessionID i got = got\<lparr>got_sessionID := i\<rparr>"

definition NewGraphOfThought :: "'w agent \<Rightarrow> ('w GraphOfThought \<Rightarrow> 'w GraphOfThought) list \<Rightarrow> 'w GraphOfThought" where
  "NewGraphOfThought a options =
     fold (\<lambda>option. option) options
       \<lparr>got_agent = a, got_maxNodes = 20, got_maxEdges = 40, got_aggregator = AggregatorPathBased,
        got_allowCycles = False, got_mem = None, got_verifier = None, got_sessionID = []\<rparr>"

section \<open>Asking the model\<close>

definition llmCall :: "(real \<Rightarrow> string) \<Rightarrow> 'w agent \<Rightarrow> go_ctx \<Rightarrow> string \<Rightarrow> ('w, string) call" where
  "llmCall ff a ctx prompt w =
     (case agent_Process a ctx
        (Some \<lparr>msg_role = ''user'', msg_content = GStr prompt, msg_metadata = Some [], msg_timestamp = 0\<rparr>) w of
        (Ok (Some response), w) \<Rightarrow> (Ok (ContentString ff response), w)
      | (Ok None, w) \<Rightarrow> (Panic ''nil pointer dereference'', w)
      | (Err e, w) \<Rightarrow> (Err (Errorf ''llm call failed: %w'' [] (Some e)), w)
      | (Panic p, w) \<Rightarrow> (Panic p, w))"

text \<open>
  The regular expression that removes numbering and bullets from the start of a line: one or more
  of the bullet character (three bytes), \<open>-\<close>, \<open>*\<close> and digits, then dots, parentheses and white space.
\<close>

definition is_mark :: "char \<Rightarrow> bool" where
  "is_mark c \<longleftrightarrow> c \<in> set ''-*0123456789''"

fun drop_marks :: "string \<Rightarrow> string" where
  "drop_marks [] = []"
| "drop_marks (c # s) =
     (if is_mark c then drop_marks s
      else if c = CHR 0xE2 \<and> take 2 s = [CHR 0x80, CHR 0xA2] then drop_marks (drop 2 s)
      else c # s)"

definition strip_marks :: "string \<Rightarrow> string" where
  "strip_marks line =
     (let rest = drop_marks line in
      if rest = line then line
      else dropWhile (\<lambda>c. c \<in> set ''.) '' \<union> {CHR 0x09, CHR 0x0A, CHR 0x0C, CHR 0x0D}) rest)"

fun collect_lines :: "(string \<Rightarrow> string) \<Rightarrow> int \<Rightarrow> string list \<Rightarrow> string list \<Rightarrow> string list" where
  "collect_lines trim limit [] acc = acc"
| "collect_lines trim limit (l # ls) acc =
     (let line = trim l in
      if line \<noteq> [] \<and> \<not> HasPrefix line ''#'' then
        (let cleaned = strip_marks line in
         if cleaned \<noteq> [] \<and> int (length acc) < limit then collect_lines trim limit ls (acc @ [cleaned])
         else collect_lines trim limit ls acc)
      else collect_lines trim limit ls acc)"

definition GeneratePremises ::
    "(real \<Rightarrow> string) \<Rightarrow> (string \<Rightarrow> string) \<Rightarrow> 'w agent \<Rightarrow> go_ctx \<Rightarrow> string \<Rightarrow> ('w, string list) call" where
  "GeneratePremises ff trim a ctx problem w =
     (let prompt = ''Identify the key facts and premises for this problem.'' @ nl @
        ''List 2-4 foundational facts or assumptions, one per line.'' @ nl @ nl @
        ''Problem: '' @ problem @ nl @ nl @ ''Premises:'' in
      case llmCall ff a ctx prompt w of
        (Ok response, w) \<Rightarrow> (Ok (collect_lines trim 4 (split_char (CHR 0x0A) (trim response)) []), w)
      | (Err e, w) \<Rightarrow> (Err e, w)
      | (Panic p, w) \<Rightarrow> (Panic p, w))"

definition bullet_list :: "string list \<Rightarrow> string" where
  "bullet_list ts = concat (map (\<lambda>t. ''- '' @ t @ nl) ts)"

definition thoughts_prompt :: "string \<Rightarrow> string list \<Rightarrow> int \<Rightarrow> string" where
  "thoughts_prompt problem existingThoughts maxNew =
     (if existingThoughts \<noteq> [] then
        ''Given this problem and existing thoughts, generate '' @ show_int maxNew @ '' new insights or conclusions.'' @
        nl @ nl @ ''Problem: '' @ problem @ nl @ nl @ ''Existing thoughts:'' @ nl @ bullet_list existingThoughts @
        nl @ nl @ ''New thoughts (one per line):''
      else
        ''Generate '' @ show_int maxNew @ '' initial thoughts or insights about this problem.'' @ nl @ nl @
        ''Problem: '' @ problem @ nl @ nl @ ''Thoughts (one per line):'')"

definition GenerateThoughts ::
    "(real \<Rightarrow> string) \<Rightarrow> (string \<Rightarrow> string) \<Rightarrow> 'w agent \<Rightarrow> go_ctx \<Rightarrow> string \<Rightarrow> string list \<Rightarrow> int \<Rightarrow> ('w, string list) call" where
  "GenerateThoughts ff trim a ctx problem existingThoughts maxNew w =
     (case llmCall ff a ctx (thoughts_prompt problem existingThoughts maxNew) w of
        (Ok response, w) \<Rightarrow> (Ok (collect_lines trim maxNew (split_char (CHR 0x0A) (trim response)) []), w)
      | (Err e, w) \<Rightarrow> (Err e, w)
      | (Panic p, w) \<Rightarrow> (Panic p, w))"

definition connection_prompt :: "string \<Rightarrow> string \<Rightarrow> string" where
  "connection_prompt thought1 thought2 =
     ''Analyze the logical relationship between these two statements.'' @ nl @ nl @
     ''Statement 1: '' @ thought1 @ nl @ nl @ ''Statement 2: '' @ thought2 @ nl @ nl @
     ''Does statement 2:'' @ nl @
     ''- SUPPORT statement 1 (provides evidence or reasoning for it)'' @ nl @
     ''- DEPEND on statement 1 (requires it to be true)'' @ nl @
     ''- CONTRADICT statement 1 (conflicts with it)'' @ nl @
     ''- REFINE statement 1 (improves or clarifies it)'' @ nl @
     ''- NO_RELATION (no clear logical connection)'' @ nl @ nl @
     ''Answer with one word: SUPPORT, DEPEND, CONTRADICT, REFINE, or NO_RELATION''"

definition IdentifyConnections ::
    "(real \<Rightarrow> string) \<Rightarrow> (string \<Rightarrow> string) \<Rightarrow> (string \<Rightarrow> string) \<Rightarrow> 'w agent \<Rightarrow> go_ctx \<Rightarrow> string \<Rightarrow> string \<Rightarrow> ('w, EdgeType) call" where
  "IdentifyConnections ff trim upper a ctx thought1 thought2 w =
     (case llmCall ff a ctx (connection_prompt thought1 thought2) w of
        (Err e, w) \<Rightarrow> (Err e, w)
      | (Panic p, w) \<Rightarrow> (Panic p, w)
      | (Ok response, w) \<Rightarrow>
          (let responseUpper = upper (trim response) in
           if strings_Contains responseUpper ''SUPPORT'' then (Ok EdgeTypeSupports, w)
           else if strings_Contains responseUpper ''DEPEND'' then (Ok EdgeTypeDependsOn, w)
           else if strings_Contains responseUpper ''CONTRADICT'' then (Ok EdgeTypeContradicts, w)
           else if strings_Contains responseUpper ''REFINE'' then (Ok EdgeTypeRefines, w)
           else (Err (Errorf ''no relation identified'' [] None), w)))"

section \<open>Building the graph\<close>

fun add_premises :: "string list \<Rightarrow> int list \<Rightarrow> ReasoningGraph \<Rightarrow> int list \<times> ReasoningGraph" where
  "add_premises [] premiseIDs g = (premiseIDs, g)"
| "add_premises (premise # ps) premiseIDs g =
     (let (nodeID, g) = AddNode premise NodeTypePremise (9 / 10) None g in add_premises ps (premiseIDs @ [nodeID]) g)"

fun add_intermediate ::
    "int \<Rightarrow> string list \<Rightarrow> string list \<Rightarrow> int list \<Rightarrow> ReasoningGraph \<Rightarrow> string list \<times> int list \<times> ReasoningGraph" where
  "add_intermediate maxNodes [] allThoughts nodeIDs g = (allThoughts, nodeIDs, g)"
| "add_intermediate maxNodes (thought # ts) allThoughts nodeIDs g =
     (if int (length (rg_nodes g)) \<ge> maxNodes then (allThoughts, nodeIDs, g)
      else
        let (nodeID, g) = AddNode thought NodeTypeIntermediate (7 / 10) None g in
        add_intermediate maxNodes ts (allThoughts @ [thought]) (nodeIDs @ [nodeID]) g)"

text \<open>\<open>None\<close>: the loop does not end.\<close>

partial_function (option) think_loop ::
    "(real \<Rightarrow> string) \<Rightarrow> (string \<Rightarrow> string) \<Rightarrow> 'w GraphOfThought \<Rightarrow> go_ctx \<Rightarrow> string \<Rightarrow> string list \<Rightarrow> int list \<Rightarrow> ReasoningGraph \<Rightarrow> 'w \<Rightarrow>
     ((string list \<times> int list \<times> ReasoningGraph) outcome \<times> 'w) option" where
  "think_loop ff trim got ctx problem allThoughts nodeIDs g w =
     (if int (length (rg_nodes g)) < got_maxNodes got then
        (let maxNew = min 3 (got_maxNodes got - int (length (rg_nodes g))) in
         if maxNew \<le> 0 then Some (Ok (allThoughts, nodeIDs, g), w)
         else
           (case GenerateThoughts ff trim (got_agent got) ctx problem allThoughts maxNew w of
              (Err e, w) \<Rightarrow> Some (Err (Errorf ''failed to generate thoughts: %w'' [] (Some e)), w)
            | (Panic p, w) \<Rightarrow> Some (Panic p, w)
            | (Ok newThoughts, w) \<Rightarrow>
                if newThoughts = [] then Some (Ok (allThoughts, nodeIDs, g), w)
                else
                  (case add_intermediate (got_maxNodes got) newThoughts allThoughts nodeIDs g of
                     (allThoughts, nodeIDs, g) \<Rightarrow> think_loop ff trim got ctx problem allThoughts nodeIDs g w)))
      else Some (Ok (allThoughts, nodeIDs, g), w))"

declare think_loop.simps [code]

text \<open>The inner loop over \<open>j\<close>, then the outer one over \<open>i\<close>.\<close>

fun connect_from ::
    "(real \<Rightarrow> string) \<Rightarrow> (string \<Rightarrow> string) \<Rightarrow> (string \<Rightarrow> string) \<Rightarrow> 'w GraphOfThought \<Rightarrow> go_ctx \<Rightarrow> int \<Rightarrow> int list \<Rightarrow> int \<Rightarrow>
     ReasoningGraph \<Rightarrow> ('w, int \<times> ReasoningGraph) call" where
  "connect_from ff trim upper got ctx node1ID [] edgeCount g w = (Ok (edgeCount, g), w)"
| "connect_from ff trim upper got ctx node1ID (node2ID # js) edgeCount g w =
     (if edgeCount < got_maxEdges got then
        (case (GetNode node1ID g, GetNode node2ID g) of
           (Some node1, Some node2) \<Rightarrow>
             (case IdentifyConnections ff trim upper (got_agent got) ctx (tn_Content node1) (tn_Content node2) w of
                (Panic p, w) \<Rightarrow> (Panic p, w)
              | (Err e, w) \<Rightarrow> connect_from ff trim upper got ctx node1ID js edgeCount g w
              | (Ok edgeType, w) \<Rightarrow>
                  (case AddEdge node1ID node2ID edgeType (8 / 10) None g of
                     Ok g \<Rightarrow> connect_from ff trim upper got ctx node1ID js (edgeCount + 1) g w
                   | Err e \<Rightarrow> connect_from ff trim upper got ctx node1ID js edgeCount g w
                   | Panic p \<Rightarrow> (Panic p, w)))
         | _ \<Rightarrow> (Panic ''nil pointer dereference'', w))
      else (Ok (edgeCount, g), w))"

fun connect_all ::
    "(real \<Rightarrow> string) \<Rightarrow> (string \<Rightarrow> string) \<Rightarrow> (string \<Rightarrow> string) \<Rightarrow> 'w GraphOfThought \<Rightarrow> go_ctx \<Rightarrow> int list \<Rightarrow> int \<Rightarrow>
     ReasoningGraph \<Rightarrow> ('w, int \<times> ReasoningGraph) call" where
  "connect_all ff trim upper got ctx [] edgeCount g w = (Ok (edgeCount, g), w)"
| "connect_all ff trim upper got ctx (node1ID # js) edgeCount g w =
     (if edgeCount < got_maxEdges got then
        (case connect_from ff trim upper got ctx node1ID js edgeCount g w of
           (Ok (edgeCount, g), w) \<Rightarrow> connect_all ff trim upper got ctx js edgeCount g w
         | (Err e, w) \<Rightarrow> (Err e, w)
         | (Panic p, w) \<Rightarrow> (Panic p, w))
      else (Ok (edgeCount, g), w))"

fun connect_conclusion :: "int \<Rightarrow> int \<Rightarrow> int list \<Rightarrow> int \<Rightarrow> ReasoningGraph \<Rightarrow> ReasoningGraph" where
  "connect_conclusion maxEdges conclusionID [] edgeCount g = g"
| "connect_conclusion maxEdges conclusionID (k # ks) edgeCount g =
     (if edgeCount < maxEdges then
        (case AddEdge k conclusionID EdgeTypeSupports (9 / 10) None g of
           Ok g \<Rightarrow> connect_conclusion maxEdges conclusionID ks (edgeCount + 1) g
         | _ \<Rightarrow> connect_conclusion maxEdges conclusionID ks edgeCount g)
      else g)"

definition conclusion_prompt :: "string \<Rightarrow> string list \<Rightarrow> string" where
  "conclusion_prompt problem allThoughts =
     ''Based on all these thoughts, what is the final conclusion?'' @ nl @ nl @ ''Problem: '' @ problem @ nl @ nl @
     ''Thoughts:'' @ nl @ bullet_list allThoughts @ nl @ nl @ ''Final conclusion:''"

definition conclude ::
    "(real \<Rightarrow> string) \<Rightarrow> (string \<Rightarrow> string) \<Rightarrow> 'w GraphOfThought \<Rightarrow> go_ctx \<Rightarrow> string \<Rightarrow> string list \<Rightarrow> int list \<Rightarrow> int \<Rightarrow>
     ReasoningGraph \<Rightarrow> ('w, ReasoningGraph) call" where
  "conclude ff trim got ctx problem allThoughts nodeIDs edgeCount g w =
     (if int (length (rg_nodes g)) < got_maxNodes got then
        (case llmCall ff (got_agent got) ctx (conclusion_prompt problem allThoughts) w of
           (Panic p, w) \<Rightarrow> (Panic p, w)
         | (Err e, w) \<Rightarrow> (Ok g, w)
         | (Ok conclusion, w) \<Rightarrow>
             (let (conclusionID, g) = AddNode (trim conclusion) NodeTypeConclusion (8 / 10) None g;
                  recentStart = length nodeIDs - 3
              in (Ok (connect_conclusion (got_maxEdges got) conclusionID (drop recentStart nodeIDs) edgeCount g), w)))
      else (Ok g, w))"

definition BuildGraph ::
    "(real \<Rightarrow> string) \<Rightarrow> (string \<Rightarrow> string) \<Rightarrow> (string \<Rightarrow> string) \<Rightarrow> 'w GraphOfThought \<Rightarrow> go_ctx \<Rightarrow> string \<Rightarrow> 'w \<Rightarrow>
     (ReasoningGraph outcome \<times> 'w) option" where
  "BuildGraph ff trim upper got ctx problem w =
     (case GeneratePremises ff trim (got_agent got) ctx problem w of
        (Err e, w) \<Rightarrow> Some (Err (Errorf ''failed to generate premises: %w'' [] (Some e)), w)
      | (Panic p, w) \<Rightarrow> Some (Panic p, w)
      | (Ok premises, w) \<Rightarrow>
          (case add_premises premises [] NewReasoningGraph of
             (premiseIDs, g) \<Rightarrow>
               (case think_loop ff trim got ctx problem premises premiseIDs g w of
                  None \<Rightarrow> None
                | Some (Err e, w) \<Rightarrow> Some (Err e, w)
                | Some (Panic p, w) \<Rightarrow> Some (Panic p, w)
                | Some (Ok (allThoughts, nodeIDs, g), w) \<Rightarrow>
                    Some (case connect_all ff trim upper got ctx nodeIDs 0 g w of
                            (Ok (edgeCount, g), w) \<Rightarrow> conclude ff trim got ctx problem allThoughts nodeIDs edgeCount g w
                          | (Err e, w) \<Rightarrow> (Err e, w)
                          | (Panic p, w) \<Rightarrow> (Panic p, w)))))"

section \<open>Paths and the answer\<close>

type_synonym node_order = "nat \<Rightarrow> (int \<times> ThoughtNode) list \<Rightarrow> (int \<times> ThoughtNode) list"

text \<open>The graph as the \<open>k\<close>-th loop over its nodes sees it.\<close>

definition ranged :: "node_order \<Rightarrow> nat \<Rightarrow> ReasoningGraph \<Rightarrow> ReasoningGraph" where
  "ranged it k g = g\<lparr>rg_nodes := it k (rg_nodes g)\<rparr>"

fun paths_to :: "ReasoningGraph \<Rightarrow> int \<Rightarrow> ThoughtNode list \<Rightarrow> int list list option" where
  "paths_to g premiseID [] = Some []"
| "paths_to g premiseID (conclusion # cs) =
     (case (FindPaths premiseID (tn_ID conclusion) 6 g, paths_to g premiseID cs) of
        (Some paths, Some allPaths) \<Rightarrow> Some (paths @ allPaths)
      | _ \<Rightarrow> None)"

fun paths_from :: "ReasoningGraph \<Rightarrow> ThoughtNode list \<Rightarrow> ThoughtNode list \<Rightarrow> int list list option" where
  "paths_from g [] conclusions = Some []"
| "paths_from g (premise # ps) conclusions =
     (case (paths_to g (tn_ID premise) conclusions, paths_from g ps conclusions) of
        (Some paths, Some allPaths) \<Rightarrow> Some (paths @ allPaths)
      | _ \<Rightarrow> None)"

definition FindReasoningPaths :: "node_order \<Rightarrow> ReasoningGraph \<Rightarrow> int list list option" where
  "FindReasoningPaths it g = paths_from g (GetPremises (ranged it 0 g)) (GetConclusions (ranged it 1 g))"

definition best_path :: "ReasoningGraph \<Rightarrow> int list list \<Rightarrow> int list" where
  "best_path g paths =
     fst (fold (\<lambda>path (bestPath, bestScore).
        let score = GetPathScore path g in if score > bestScore then (path, score) else (bestPath, bestScore))
        (tl paths) (hd paths, GetPathScore (hd paths) g))"

definition node_counts :: "int list list \<Rightarrow> (int \<times> int) list" where
  "node_counts paths = fold go_incr (concat paths) []"

fun node_scores :: "ReasoningGraph \<Rightarrow> (int \<times> int) list \<Rightarrow> (int \<times> real) list option" where
  "node_scores g [] = Some []"
| "node_scores g ((nodeID, n) # cs) =
     (case (GetNode nodeID g, node_scores g cs) of
        (Some node, Some ss) \<Rightarrow> Some ((nodeID, real_of_int n * tn_Confidence node) # ss)
      | _ \<Rightarrow> None)"

definition best_node :: "(int \<times> real) list \<Rightarrow> int" where
  "best_node scores =
     fst (fold (\<lambda>(nodeID, score) (bestNodeID, bestScore).
        if score > bestScore then (nodeID, score) else (bestNodeID, bestScore)) scores (- 1, 0))"

definition node_content :: "int \<Rightarrow> ReasoningGraph \<Rightarrow> string outcome" where
  "node_content nodeID g =
     (case GetNode nodeID g of
        None \<Rightarrow> Panic ''nil pointer dereference''
      | Some node \<Rightarrow> Ok (tn_Content node))"

definition AggregatePaths ::
    "node_order \<Rightarrow> ((int \<times> real) list \<Rightarrow> (int \<times> real) list) \<Rightarrow> AggregatorType \<Rightarrow> ReasoningGraph \<Rightarrow> int list list \<Rightarrow> string outcome" where
  "AggregatePaths it is aggregator g paths =
     (if paths = [] then
        (case GetConclusions (ranged it 2 g) of
           c # _ \<Rightarrow> Ok (tn_Content c)
         | [] \<Rightarrow>
             (case rg_nodes (ranged it 3 g) of
                (_, node) # _ \<Rightarrow> Ok (tn_Content node)
              | [] \<Rightarrow> Ok ''Unable to reach conclusion''))
      else if aggregator = AggregatorPathBased then
        (let bestPath = best_path g paths in
         if bestPath = [] then Panic ''index out of range'' else node_content (last bestPath) g)
      else if aggregator = AggregatorNodeBased then
        (case node_scores g (node_counts paths) of
           None \<Rightarrow> Panic ''nil pointer dereference''
         | Some nodeScores \<Rightarrow>
             (let bestNodeID = best_node (is nodeScores) in
              if bestNodeID \<ge> 0 then node_content bestNodeID g else Ok ''Unable to reach conclusion''))
      else Ok ''Invalid aggregator type'')"

definition graph_value :: "ReasoningGraph \<Rightarrow> gval" where
  "graph_value g =
     GMap [(''nodes'', GList (map (\<lambda>(i, n). GMap [(''ID'', GInt i), (''Content'', GStr (tn_Content n)),
              (''NodeType'', GStr (tn_NodeType n)), (''Confidence'', GFloat (tn_Confidence n)),
              (''Metadata'', GMap (tn_Metadata n))]) (rg_nodes g))),
           (''edges'', GList (map (\<lambda>e. GMap [(''FromNode'', GInt (le_FromNode e)), (''ToNode'', GInt (le_ToNode e)),
              (''EdgeType'', GStr (le_EdgeType e)), (''Strength'', GFloat (le_Strength e)),
              (''Metadata'', GMap (le_Metadata e))]) (rg_edges g)))]"

definition got_candidates :: "ThoughtNode list \<Rightarrow> string \<Rightarrow> ScoredCandidate list" where
  "got_candidates conclusions finalAnswer =
     (let candidates = map (\<lambda>c. \<lparr>sc_Text = tn_Content c, sc_Score = tn_Confidence c\<rparr>) conclusions in
      if candidates = [] then [\<lparr>sc_Text = finalAnswer, sc_Score = 8 / 10\<rparr>] else candidates)"

definition got_verify ::
    "'w GraphOfThought \<Rightarrow> string \<Rightarrow> string \<Rightarrow> (string \<times> gval) list \<Rightarrow> 'w \<Rightarrow> (string \<times> gval) list \<times> 'w" where
  "got_verify got problem finalAnswer artifactMeta w =
     (case got_verifier got of
        None \<Rightarrow> (artifactMeta, w)
      | Some v \<Rightarrow>
          (case v problem finalAnswer w of
             (Some result, w) \<Rightarrow> (go_set ''verification'' result artifactMeta, w)
           | (None, w) \<Rightarrow> (artifactMeta, w)))"

definition got_store :: "'w GraphOfThought \<Rightarrow> string \<Rightarrow> reasoningArtifact \<Rightarrow> 'w \<Rightarrow> 'w" where
  "got_store got finalAnswer artifact w =
     (case got_mem got of
        None \<Rightarrow> w
      | Some (ReasoningMemory f) \<Rightarrow> f (got_sessionID got) artifact w
      | Some (PlainMemory f) \<Rightarrow> f (got_sessionID got) finalAnswer artifact w)"

definition got_respond ::
    "node_order \<Rightarrow> 'w GraphOfThought \<Rightarrow> string \<Rightarrow> ReasoningGraph \<Rightarrow> int list list \<Rightarrow> bool \<Rightarrow> string \<Rightarrow> 'w \<Rightarrow> message \<times> 'w" where
  "got_respond it got problem g reasoningPaths hasCycles finalAnswer w =
     (let stats = Statistics g;
          candidates = got_candidates (GetConclusions (ranged it 4 g)) finalAnswer;
          (artifactMeta, w) = got_verify got problem finalAnswer
            [(''aggregator'', GStr (got_aggregator got)), (''num_nodes'', GInt (gs_NumNodes stats)),
             (''num_edges'', GInt (gs_NumEdges stats))] w;
          artifact = newArtifact ''graph_of_thought'' (got_sessionID got) candidates (Some artifactMeta);
          response = assistant_message finalAnswer
            [(''technique'', GStr ''graph_of_thought''), (''graph'', graph_value g),
             (''reasoning_paths'', GList (map (\<lambda>p. GList (map GInt p)) reasoningPaths)),
             (''num_nodes'', GInt (gs_NumNodes stats)), (''num_edges'', GInt (gs_NumEdges stats)),
             (''has_cycles'', GBool hasCycles),
             (''node_types'', GMap (map (\<lambda>(k, n). (k, GInt n)) (gs_NodeTypes stats))),
             (''edge_types'', GMap (map (\<lambda>(k, n). (k, GInt n)) (gs_EdgeTypes stats))),
             (''aggregator'', GStr (got_aggregator got)), (''allow_cycles'', GBool (got_allowCycles got)),
             (''reasoning_artifact'', artifact_value artifact)]
      in (response, got_store got finalAnswer artifact w))"

definition got_Process ::
    "(real \<Rightarrow> string) \<Rightarrow> (string \<Rightarrow> string) \<Rightarrow> (string \<Rightarrow> string) \<Rightarrow> node_order \<Rightarrow> ((int \<times> real) list \<Rightarrow> (int \<times> real) list) \<Rightarrow>
     'w GraphOfThought \<Rightarrow> go_ctx \<Rightarrow> message \<Rightarrow> 'w \<Rightarrow> (reply \<times> 'w) option" where
  "got_Process ff trim upper it is got ctx message w =
     (let problem = ContentString ff message in
      case BuildGraph ff trim upper got ctx problem w of
        None \<Rightarrow> None
      | Some (Err e, w) \<Rightarrow> Some (Err (Errorf ''failed to build graph: %w'' [] (Some e)), w)
      | Some (Panic p, w) \<Rightarrow> Some (Panic p, w)
      | Some (Ok g, w) \<Rightarrow>
          (case (FindReasoningPaths it g, gs_HasCycles (Statistics g)) of
             (Some reasoningPaths, Some hasCycles) \<Rightarrow>
               (case AggregatePaths it is (got_aggregator got) g reasoningPaths of
                  Ok finalAnswer \<Rightarrow>
                    (let (response, w) = got_respond it got problem g reasoningPaths hasCycles finalAnswer w
                     in Some (Ok (Some response), w))
                | Err e \<Rightarrow> Some (Err e, w)
                | Panic p \<Rightarrow> Some (Panic p, w))
           | _ \<Rightarrow> None))"

section \<open>The graph that is built\<close>

text \<open>
  Nodes are numbered in the order in which they are added, are stored under their number, and
  every edge leads to a later node.
\<close>

definition in_order :: "ReasoningGraph \<Rightarrow> bool" where
  "in_order g \<longleftrightarrow> rg_built g \<and> node_ids g = map int [0..<length (rg_nodes g)] \<and> rg_nextID g = int (length (rg_nodes g)) \<and>
     (\<forall>(i, n) \<in> set (rg_nodes g). tn_ID n = i) \<and> (\<forall>e \<in> set (rg_edges g). le_FromNode e < le_ToNode e)"

lemma in_order_new: "in_order NewReasoningGraph"
  using built_new by (auto simp: in_order_def NewReasoningGraph_def node_ids_def)

lemma in_order_node_ids: "in_order g \<Longrightarrow> set (node_ids g) = {0..<int (length (rg_nodes g))}"
  by (simp add: in_order_def image_int_atLeastLessThan)

lemma in_order_sorted: "in_order g \<Longrightarrow> sorted_wrt (<) (node_ids g)"
  by (simp add: in_order_def sorted_wrt_map)

lemma update_fresh: "go_get m k = None \<Longrightarrow> go_set k v m = m @ [(k, v)]"
  by (induction m) (auto split: if_splits)

lemma in_order_AddNode:
  assumes "in_order g" and "AddNode c t f md g = (i, g')"
  obtains node where "i = int (length (rg_nodes g))" and "in_order g'" and "node_ids g' = node_ids g @ [i]"
    and "rg_nodes g' = rg_nodes g @ [(i, node)]" and "tn_NodeType node = t" and "tn_Content node = c" and "rg_edges g' = rg_edges g"
proof -
  have i: "i = int (length (rg_nodes g))" "i = rg_nextID g" using assms by (auto simp: in_order_def AddNode_def Let_def)
  have "go_get (rg_nodes g) i = None"
    using in_order_node_ids [OF assms(1)] node_ids_get [of g i] i by auto
  then have nodes: "rg_nodes g' = rg_nodes g @ [(i, \<lparr>tn_ID = i, tn_Content = c, tn_NodeType = t, tn_Confidence = f,
      tn_Metadata = (case md of None \<Rightarrow> [] | Some md \<Rightarrow> md)\<rparr>)]" (is "_ = _ @ [(i, ?node)]")
    using assms(2) by (auto simp: AddNode_def Let_def update_fresh)
  have ids: "node_ids g' = node_ids g @ [i]" using nodes by (simp add: node_ids_def)
  have edges: "rg_edges g' = rg_edges g" and nxt: "rg_nextID g' = i + 1"
    using assms(2) by (auto simp: AddNode_def Let_def)
  have "rg_built g'" using assms built_node [of g c t f md] by (auto simp: in_order_def)
  then have "in_order g'" using assms(1) nodes ids edges nxt i unfolding in_order_def by auto
  then show thesis using that [of ?node] i nodes ids edges by simp
qed

lemma in_order_AddEdge:
  assumes "in_order g" and "u \<in> set (node_ids g)" and "v \<in> set (node_ids g)" and "u < v"
  obtains g' where "AddEdge u v t s md g = Ok g'" and "in_order g'" and "rg_nodes g' = rg_nodes g"
    and "length (rg_edges g') = Suc (length (rg_edges g))"
proof -
  have "go_get (rg_nodes g) u \<noteq> None" "go_get (rg_nodes g) v \<noteq> None"
    using assms(2,3) node_ids_get by blast+
  then obtain g' where g': "AddEdge u v t s md g = Ok g'" by (auto simp: AddEdge_def Let_def)
  have nodes: "rg_nodes g' = rg_nodes g" "rg_nextID g' = rg_nextID g"
    and edges: "\<exists>e. rg_edges g' = rg_edges g @ [e] \<and> le_FromNode e = u \<and> le_ToNode e = v"
    using g' by (auto simp: AddEdge_def Let_def split: if_splits)
  have "rg_built g'" using assms(1) built_edge [OF _ g'] by (simp add: in_order_def)
  then have "in_order g'" using assms(1,4) nodes edges by (auto simp: in_order_def node_ids_def)
  then show thesis using that [OF g'] nodes edges by auto
qed

lemma add_premises_in_order:
  "in_order g \<Longrightarrow> ids = node_ids g \<Longrightarrow> add_premises ps ids g = (ids', g') \<Longrightarrow>
     in_order g' \<and> ids' = node_ids g' \<and> length (rg_nodes g') = length (rg_nodes g) + length ps \<and> rg_edges g' = rg_edges g \<and>
     (GetConclusions g = [] \<longrightarrow> GetConclusions g' = [])"
proof (induction ps ids g rule: add_premises.induct)
  case (2 p ps ids g)
  obtain i g1 where add: "AddNode p NodeTypePremise (9 / 10) None g = (i, g1)" by (metis prod.exhaust)
  from in_order_AddNode [OF 2(2) add] obtain node where g1: "in_order g1" "node_ids g1 = node_ids g @ [i]"
    "rg_nodes g1 = rg_nodes g @ [(i, node)]" "tn_NodeType node = NodeTypePremise" "rg_edges g1 = rg_edges g" by metis
  have "GetConclusions g1 = GetConclusions g"
    using g1 by (simp add: GetConclusions_def NodeTypePremise_def NodeTypeConclusion_def)
  then show ?case using 2(1) [OF add [symmetric] refl g1(1)] 2(3,4) add g1 by simp
qed simp

lemma add_intermediate_in_order:
  "in_order g \<Longrightarrow> ids = node_ids g \<Longrightarrow> add_intermediate M ts all ids g = (all', ids', g') \<Longrightarrow>
     in_order g' \<and> ids' = node_ids g' \<and> length (rg_nodes g) \<le> length (rg_nodes g') \<and> rg_edges g' = rg_edges g \<and>
     (ts \<noteq> [] \<and> int (length (rg_nodes g)) < M \<longrightarrow> length (rg_nodes g) < length (rg_nodes g')) \<and>
     (int (length (rg_nodes g)) \<le> M \<longrightarrow> int (length (rg_nodes g')) \<le> M) \<and>
     (GetConclusions g = [] \<longrightarrow> GetConclusions g' = [])"
proof (induction M ts all ids g rule: add_intermediate.induct)
  case (2 M t ts all ids g)
  show ?case
  proof (cases "int (length (rg_nodes g)) \<ge> M")
    case False
    obtain i g1 where add: "AddNode t NodeTypeIntermediate (7 / 10) None g = (i, g1)" by (metis prod.exhaust)
    from in_order_AddNode [OF 2(2) add] obtain node where g1: "in_order g1" "node_ids g1 = node_ids g @ [i]"
      "rg_nodes g1 = rg_nodes g @ [(i, node)]" "tn_NodeType node = NodeTypeIntermediate" "rg_edges g1 = rg_edges g" by metis
    have "GetConclusions g1 = GetConclusions g"
      using g1 by (simp add: GetConclusions_def NodeTypeIntermediate_def NodeTypeConclusion_def)
    then show ?thesis using 2(1) [OF False add [symmetric] refl g1(1)] 2(3,4) add g1 False by auto
  qed (use 2 in auto)
qed simp

text \<open>The loop that asks for thoughts ends: every round adds a node or is the last one.\<close>

definition think_result :: "int \<Rightarrow> nat \<Rightarrow> (string list \<times> int list \<times> ReasoningGraph) outcome \<Rightarrow> bool" where
  "think_result M n r =
     (case r of
        Ok (all, ids, g) \<Rightarrow> in_order g \<and> ids = node_ids g \<and> rg_edges g = [] \<and> GetConclusions g = [] \<and>
          n \<le> length (rg_nodes g) \<and> int (length (rg_nodes g)) \<le> max (int n) M
      | _ \<Rightarrow> True)"

lemma think_loop_ends:
  assumes "in_order g" and "ids = node_ids g" and "rg_edges g = []" and "GetConclusions g = []"
  shows "\<exists>r w'. think_loop ff trim got ctx problem all ids g w = Some (r, w') \<and>
    think_result (got_maxNodes got) (length (rg_nodes g)) r"
  using assms
proof (induction "nat (got_maxNodes got - int (length (rg_nodes g)))" arbitrary: all ids g w rule: less_induct)
  case less
  let ?M = "got_maxNodes got" and ?n = "int (length (rg_nodes g))"
  note step = think_loop.simps [of ff trim got ctx problem all ids g w]
  show ?case
  proof (cases "?n < ?M")
    case False
    then show ?thesis using less.prems by (subst step) (simp add: think_result_def)
  next
    case True
    then have pos: "\<not> min 3 (?M - ?n) \<le> 0" by simp
    obtain r w1 where gen: "GenerateThoughts ff trim (got_agent got) ctx problem all (min 3 (?M - ?n)) w = (r, w1)"
      by (metis prod.exhaust)
    show ?thesis
    proof (cases r)
      case (Ok ts)
      show ?thesis
      proof (cases "ts = []")
        case True
        with \<open>?n < ?M\<close> pos gen Ok less.prems show ?thesis by (subst step) (simp add: Let_def think_result_def)
      next
        case ne: False
        obtain all' ids' g' where add: "add_intermediate ?M ts all ids g = (all', ids', g')" by (metis prod_cases3)
        note g' = add_intermediate_in_order [OF less.prems(1,2) add]
        have smaller: "nat (?M - int (length (rg_nodes g'))) < nat (?M - ?n)" using g' ne \<open>?n < ?M\<close> by auto
        have "\<exists>r w'. think_loop ff trim got ctx problem all' ids' g' w1 = Some (r, w') \<and>
            think_result ?M (length (rg_nodes g')) r"
          by (rule less.hyps [OF smaller]) (use g' less.prems in auto)
        then obtain r' w2 where IH: "think_loop ff trim got ctx problem all' ids' g' w1 = Some (r', w2)"
          "think_result ?M (length (rg_nodes g')) r'" by blast
        have "think_loop ff trim got ctx problem all ids g w = Some (r', w2)"
          using True pos gen Ok ne add IH(1) by (subst step) (simp add: Let_def)
        moreover have "think_result ?M (length (rg_nodes g)) r'"
          using IH(2) g' \<open>?n < ?M\<close> by (auto simp: think_result_def split: outcome.splits)
        ultimately show ?thesis by blast
      qed
    qed (use True pos gen in \<open>subst step, simp add: Let_def think_result_def\<close>)+
  qed
qed

text \<open>What the loops over pairs keep, when they count the edges.\<close>

definition edges_within :: "int \<Rightarrow> ReasoningGraph \<Rightarrow> int \<Rightarrow> ReasoningGraph \<Rightarrow> bool" where
  "edges_within M g n g' \<longleftrightarrow> in_order g' \<and> rg_nodes g' = rg_nodes g \<and> n = int (length (rg_edges g')) \<and> n \<le> max 0 M"

lemma connect_from_edges:
  assumes "edges_within (got_maxEdges got) g0 n g" and "i \<in> set (node_ids g)" and "\<forall>j \<in> set js. i < j \<and> j \<in> set (node_ids g)"
  shows "case fst (connect_from ff trim upper got ctx i js n g w) of
    Ok (n', g') \<Rightarrow> edges_within (got_maxEdges got) g0 n' g' | Err e \<Rightarrow> False | Panic p \<Rightarrow> True"
  using assms
proof (induction js arbitrary: n g w)
  case (Cons j js)
  have ij: "i < j" "j \<in> set (node_ids g)" using Cons.prems(3) by simp_all
  obtain a b where ab: "GetNode i g = Some a" "GetNode j g = Some b"
    using Cons.prems(2) ij(2) node_ids_get [of g i] node_ids_get [of g j] by (auto simp: GetNode_def)
  obtain r w1 where ask: "IdentifyConnections ff trim upper (got_agent got) ctx (tn_Content a) (tn_Content b) w = (r, w1)"
    by (metis prod.exhaust)
  show ?case
  proof (cases "n < got_maxEdges got")
    case True
    show ?thesis
    proof (cases r)
      case (Ok t)
      have "in_order g" using Cons.prems(1) by (simp add: edges_within_def)
      from in_order_AddEdge [OF this Cons.prems(2) ij(2,1)] obtain g' where
        g': "AddEdge i j t (8 / 10) None g = Ok g'" "in_order g'" "rg_nodes g' = rg_nodes g"
          "length (rg_edges g') = Suc (length (rg_edges g))" by metis
      have "edges_within (got_maxEdges got) g0 (n + 1) g'"
        using Cons.prems(1) g' True by (auto simp: edges_within_def)
      from Cons.IH [OF this, of w1] Cons.prems(2,3) g' show ?thesis
        using True ab ask Ok by (simp add: node_ids_def)
    next
      case (Err e)
      then show ?thesis using Cons.IH [OF Cons.prems(1,2), of w1] Cons.prems(3) True ab ask by simp
    qed (use True ab ask in simp)
  qed (use Cons.prems(1) in simp)
qed simp

lemma connect_all_edges:
  assumes "edges_within (got_maxEdges got) g0 n g" and "set is \<subseteq> set (node_ids g)" and "sorted_wrt (<) is"
  shows "case fst (connect_all ff trim upper got ctx is n g w) of
    Ok (n', g') \<Rightarrow> edges_within (got_maxEdges got) g0 n' g' | Err e \<Rightarrow> False | Panic p \<Rightarrow> True"
  using assms
proof (induction "is" arbitrary: n g w)
  case (Cons i js)
  obtain r w1 where c: "connect_from ff trim upper got ctx i js n g w = (r, w1)" by (metis prod.exhaust)
  have r: "case r of Ok (n', g') \<Rightarrow> edges_within (got_maxEdges got) g0 n' g' | Err e \<Rightarrow> False | Panic p \<Rightarrow> True"
    using connect_from_edges [OF Cons.prems(1), of i js ff trim upper ctx w] Cons.prems(2,3) c by auto
  show ?case
  proof (cases "n < got_maxEdges got")
    case True
    show ?thesis
    proof (cases r)
      case (Ok p)
      obtain n' g' where p: "p = (n', g')" by (metis prod.exhaust)
      have e: "edges_within (got_maxEdges got) g0 n' g'" using r Ok p by simp
      then have "node_ids g' = node_ids g" using Cons.prems(1) by (simp add: edges_within_def node_ids_def)
      then show ?thesis using Cons.IH [OF e, of w1] Cons.prems(2,3) True c Ok p by simp
    qed (use True c r in simp_all)
  qed (use Cons.prems(1) in simp)
qed simp

lemma connect_conclusion_edges:
  assumes "edges_within M g0 n g" and "c \<in> set (node_ids g)" and "\<forall>k \<in> set ks. k < c \<and> k \<in> set (node_ids g)"
  shows "\<exists>n'. edges_within M g0 n' (connect_conclusion M c ks n g)"
  using assms
proof (induction ks arbitrary: n g)
  case (Cons k ks)
  have kc: "k < c" "k \<in> set (node_ids g)" using Cons.prems(3) by simp_all
  show ?case
  proof (cases "n < M")
    case True
    have "in_order g" using Cons.prems(1) by (simp add: edges_within_def)
    from in_order_AddEdge [OF this kc(2) Cons.prems(2) kc(1)] obtain g' where
      g': "AddEdge k c EdgeTypeSupports (9 / 10) None g = Ok g'" "in_order g'" "rg_nodes g' = rg_nodes g"
        "length (rg_edges g') = Suc (length (rg_edges g))" by metis
    have "edges_within M g0 (n + 1) g'" using Cons.prems(1) g' True by (auto simp: edges_within_def)
    from Cons.IH [OF this] Cons.prems(2,3) g' show ?thesis using True by (simp add: node_ids_def)
  qed (use Cons.prems(1) in auto)
qed auto

lemma collect_lines_length: "int (length acc) \<le> limit \<Longrightarrow> int (length (collect_lines trim limit ls acc)) \<le> limit"
  by (induction trim limit ls acc rule: collect_lines.induct) (auto simp: Let_def)

text \<open>Reading a reply is taking the first of the lines that hold a thought.\<close>

definition thought_lines :: "(string \<Rightarrow> string) \<Rightarrow> string list \<Rightarrow> string list" where
  "thought_lines trim ls =
     filter (\<lambda>t. t \<noteq> []) (map strip_marks (filter (\<lambda>l. l \<noteq> [] \<and> \<not> HasPrefix l ''#'') (map trim ls)))"

lemma collect_lines_take:
  "collect_lines trim limit ls acc = acc @ take (nat (limit - int (length acc))) (thought_lines trim ls)"
proof (induction ls arbitrary: acc)
  case (Cons l ls)
  have "nat (limit - int (length acc)) = Suc (nat (limit - (1 + int (length acc))))" if "int (length acc) < limit"
    using that by simp
  then show ?case using Cons by (auto simp: Let_def thought_lines_def take_Cons')
qed (simp add: thought_lines_def)

lemma GeneratePremises_at_most_4:
  "GeneratePremises ff trim a ctx problem w = (Ok ps, w') \<Longrightarrow> length ps \<le> 4"
  using collect_lines_length [of "[]" 4 trim]
  by (auto simp: GeneratePremises_def Let_def split: prod.splits outcome.splits)

lemma conclude_edges:
  assumes "edges_within (got_maxEdges got) g0 n g" and "ids = node_ids g" and "GetConclusions g = []"
  shows "case fst (conclude ff trim got ctx problem all ids n g w) of
    Ok g' \<Rightarrow> in_order g' \<and> int (length (rg_edges g')) \<le> max 0 (got_maxEdges got) \<and>
      int (length (rg_nodes g')) \<le> max (int (length (rg_nodes g))) (got_maxNodes got) \<and> length (GetConclusions g') \<le> 1 \<and>
      (got_maxNodes got \<le> int (length (rg_nodes g)) \<longrightarrow> g' = g)
  | Err e \<Rightarrow> False | Panic p \<Rightarrow> True"
proof (cases "int (length (rg_nodes g)) < got_maxNodes got")
  case room: True
  obtain r w1 where ask: "llmCall ff (got_agent got) ctx (conclusion_prompt problem all) w = (r, w1)" by (metis prod.exhaust)
  show ?thesis
  proof (cases r)
    case (Ok c)
    obtain i g1 where add: "AddNode (trim c) NodeTypeConclusion (8 / 10) None g = (i, g1)" by (metis prod.exhaust)
    have io: "in_order g" using assms(1) by (simp add: edges_within_def)
    from in_order_AddNode [OF io add] obtain node where g1: "i = int (length (rg_nodes g))" "in_order g1"
      "node_ids g1 = node_ids g @ [i]" "rg_nodes g1 = rg_nodes g @ [(i, node)]" "rg_edges g1 = rg_edges g" by metis
    have e1: "edges_within (got_maxEdges got) g1 n g1" using assms(1) g1 by (simp add: edges_within_def)
    have below: "\<forall>k \<in> set (drop (length ids - 3) ids). k < i \<and> k \<in> set (node_ids g1)"
      using in_order_node_ids [OF io] g1(1,3) assms(2) by (auto dest!: in_set_dropD)
    have "i \<in> set (node_ids g1)" using g1(3) by simp
    from connect_conclusion_edges [OF e1 this below] obtain n' where
      e2: "edges_within (got_maxEdges got) g1 n' (connect_conclusion (got_maxEdges got) i (drop (length ids - 3) ids) n g1)" ..
    then have "GetConclusions (connect_conclusion (got_maxEdges got) i (drop (length ids - 3) ids) n g1) = GetConclusions g1"
      by (simp add: edges_within_def GetConclusions_def)
    moreover have "length (GetConclusions g1) \<le> 1"
      using assms(3) g1(4) by (auto simp: GetConclusions_def filter_empty_conv)
    ultimately show ?thesis using room ask Ok add e2 g1(4) by (auto simp: conclude_def edges_within_def)
  qed (use room ask assms in \<open>auto simp: conclude_def edges_within_def\<close>)
qed (use assms in \<open>auto simp: conclude_def edges_within_def\<close>)

definition got_graph_ok :: "'w GraphOfThought \<Rightarrow> ReasoningGraph \<Rightarrow> bool" where
  "got_graph_ok got g \<longleftrightarrow> in_order g \<and> int (length (rg_edges g)) \<le> max 0 (got_maxEdges got) \<and>
     int (length (rg_nodes g)) \<le> max 4 (got_maxNodes got) \<and> length (GetConclusions g) \<le> 1"

lemma BuildGraph_ok:
  "\<exists>r w'. BuildGraph ff trim upper got ctx problem w = Some (r, w') \<and>
     (case r of Ok g \<Rightarrow> got_graph_ok got g | _ \<Rightarrow> True)"
proof -
  obtain r0 w0 where gen: "GeneratePremises ff trim (got_agent got) ctx problem w = (r0, w0)" by (metis prod.exhaust)
  show ?thesis
  proof (cases r0)
    case (Ok ps)
    obtain ids0 g0 where add: "add_premises ps [] NewReasoningGraph = (ids0, g0)" by (metis prod.exhaust)
    have "[] = node_ids NewReasoningGraph" by (simp add: node_ids_def NewReasoningGraph_def)
    note g0 = add_premises_in_order [OF in_order_new this add]
    have g0': "rg_edges g0 = []" "GetConclusions g0 = []" "length (rg_nodes g0) \<le> 4"
      using g0 GeneratePremises_at_most_4 gen Ok by (auto simp: NewReasoningGraph_def GetConclusions_def)
    obtain r1 w1 where think: "think_loop ff trim got ctx problem ps ids0 g0 w0 = Some (r1, w1)"
      and r1: "think_result (got_maxNodes got) (length (rg_nodes g0)) r1"
      using think_loop_ends [of g0 ids0] g0 g0' by metis
    show ?thesis
    proof (cases r1)
      case Ok1: (Ok p)
      obtain all ids g where p: "p = (all, ids, g)" by (metis prod_cases3)
      have g: "in_order g" "ids = node_ids g" "rg_edges g = []" "GetConclusions g = []"
        "int (length (rg_nodes g)) \<le> max 4 (got_maxNodes got)"
        using r1 Ok1 p g0'(3) by (auto simp: think_result_def)
      obtain r2 w2 where conn: "connect_all ff trim upper got ctx ids 0 g w1 = (r2, w2)" by (metis prod.exhaust)
      have e: "edges_within (got_maxEdges got) g 0 g" using g by (simp add: edges_within_def)
      have r2: "case r2 of Ok (n', g') \<Rightarrow> edges_within (got_maxEdges got) g n' g' | Err e \<Rightarrow> False | Panic p \<Rightarrow> True"
        using connect_all_edges [OF e, of ids ff trim upper ctx w1] in_order_sorted [OF g(1)] g(2) conn by simp
      show ?thesis
      proof (cases r2)
        case Ok2: (Ok q)
        obtain n g2 where q: "q = (n, g2)" by (metis prod.exhaust)
        have e2: "edges_within (got_maxEdges got) g n g2" using r2 Ok2 q by simp
        then have same: "ids = node_ids g2" "GetConclusions g2 = []" "rg_nodes g2 = rg_nodes g"
          using g by (auto simp: edges_within_def node_ids_def GetConclusions_def)
        show ?thesis
          using conclude_edges [OF e2 same(1,2), of ff trim ctx problem all w2] same(3) g(5) gen Ok add think Ok1 p conn Ok2 q
          by (cases "conclude ff trim got ctx problem all ids n g2 w2")
            (auto simp: BuildGraph_def got_graph_ok_def split: outcome.splits)
      qed (use gen Ok add think Ok1 p conn r2 in \<open>auto simp: BuildGraph_def\<close>)
    qed (use gen Ok add think in \<open>auto simp: BuildGraph_def\<close>)
  qed (use gen in \<open>auto simp: BuildGraph_def\<close>)
qed

lemma in_order_acyclic:
  assumes "in_order g"
  shows "HasCycle g = Some False"
proof -
  have b: "rg_built g" using assms by (simp add: in_order_def)
  have "edge_rel g \<subseteq> {(u, v). u < v}"
    using assms edge_rel_edges [OF rg_built_ok [OF b]] by (auto simp: in_order_def)
  moreover have "trans {(u, v :: int). u < v}" by (auto intro: transI)
  ultimately have "(edge_rel g)\<^sup>+ \<subseteq> {(u, v). u < v}" by (metis trancl_id trancl_mono_subset)
  then show ?thesis using HasCycle_iff [OF b] by auto
qed

text \<open>
  C32.
  Building the graph of thoughts always ends, whatever the model answers: the loop that asks for
  thoughts adds a node in every round but the last.  A graph that is built is the result of
  \<open>AddNode\<close> and \<open>AddEdge\<close>, numbers its nodes consecutively, has no cycle, at most the configured
  number of edges, at most the configured number of nodes or the four premises, which are added
  without looking at the limit, and at most one conclusion.
\<close>
theorem thought_graph_well_formed:
  "\<exists>r w'. BuildGraph ff trim upper got ctx problem w = Some (r, w') \<and>
     (case r of
        Ok g \<Rightarrow> rg_built g \<and> HasCycle g = Some False \<and> node_ids g = map int [0..<length (rg_nodes g)] \<and>
          int (length (rg_edges g)) \<le> max 0 (got_maxEdges got) \<and>
          int (length (rg_nodes g)) \<le> max 4 (got_maxNodes got) \<and> length (GetConclusions g) \<le> 1
      | _ \<Rightarrow> True)"
proof -
  obtain r w' where b: "BuildGraph ff trim upper got ctx problem w = Some (r, w')"
    "case r of Ok g \<Rightarrow> got_graph_ok got g | _ \<Rightarrow> True"
    using BuildGraph_ok [of ff trim upper got ctx problem w] by blast
  then have "case r of
        Ok g \<Rightarrow> rg_built g \<and> HasCycle g = Some False \<and> node_ids g = map int [0..<length (rg_nodes g)] \<and>
          int (length (rg_edges g)) \<le> max 0 (got_maxEdges got) \<and>
          int (length (rg_nodes g)) \<le> max 4 (got_maxNodes got) \<and> length (GetConclusions g) \<le> 1
      | _ \<Rightarrow> True"
    using in_order_acyclic by (auto simp: got_graph_ok_def in_order_def split: outcome.splits)
  with b show ?thesis by blast
qed

section \<open>A graph without a conclusion\<close>

text \<open>
  When every reply of the model holds a thought, the loop that asks for thoughts ends only when
  the graph is full, and then there is no room for the conclusion.
\<close>

definition always_thinks :: "(real \<Rightarrow> string) \<Rightarrow> (string \<Rightarrow> string) \<Rightarrow> 'w agent \<Rightarrow> go_ctx \<Rightarrow> bool" where
  "always_thinks ff trim a ctx \<longleftrightarrow>
     (\<forall>m w. \<exists>r w'. agent_Process a ctx (Some m) w = (Ok (Some r), w') \<and>
        thought_lines trim (split_char (CHR 0x0A) (trim (ContentString ff r))) \<noteq> [])"

lemma always_thinks_call:
  assumes "always_thinks ff trim a ctx"
  obtains r w' where "llmCall ff a ctx prompt w = (Ok r, w')" and "thought_lines trim (split_char (CHR 0x0A) (trim r)) \<noteq> []"
proof -
  let ?m = "\<lparr>msg_role = ''user'', msg_content = GStr prompt, msg_metadata = Some [], msg_timestamp = 0\<rparr>"
  obtain r w' where "agent_Process a ctx (Some ?m) w = (Ok (Some r), w')"
    "thought_lines trim (split_char (CHR 0x0A) (trim (ContentString ff r))) \<noteq> []"
    using assms unfolding always_thinks_def by blast
  then show thesis using that [of "ContentString ff r" w'] by (simp add: llmCall_def)
qed

lemma think_loop_fills:
  assumes "always_thinks ff trim (got_agent got) ctx"
    and "in_order g" and "ids = node_ids g" and "rg_edges g = []" and "GetConclusions g = []"
  shows "\<exists>all' ids' g' w'. think_loop ff trim got ctx problem all ids g w = Some (Ok (all', ids', g'), w') \<and>
    got_maxNodes got \<le> int (length (rg_nodes g'))"
  using assms(2-)
proof (induction "nat (got_maxNodes got - int (length (rg_nodes g)))" arbitrary: all ids g w rule: less_induct)
  case less
  let ?M = "got_maxNodes got" and ?n = "int (length (rg_nodes g))"
  note step = think_loop.simps [of ff trim got ctx problem all ids g w]
  show ?case
  proof (cases "?n < ?M")
    case False
    then show ?thesis by (subst step) simp
  next
    case True
    then have pos: "\<not> min 3 (?M - ?n) \<le> 0" by simp
    obtain r w1 where r: "llmCall ff (got_agent got) ctx (thoughts_prompt problem all (min 3 (?M - ?n))) w = (Ok r, w1)"
      "thought_lines trim (split_char (CHR 0x0A) (trim r)) \<noteq> []"
      by (rule always_thinks_call [OF assms(1)])
    obtain ts where gen: "GenerateThoughts ff trim (got_agent got) ctx problem all (min 3 (?M - ?n)) w = (Ok ts, w1)"
      and ne: "ts \<noteq> []"
      using r pos by (simp add: GenerateThoughts_def collect_lines_take)
    obtain all' ids' g' where add: "add_intermediate ?M ts all ids g = (all', ids', g')" by (metis prod_cases3)
    note g' = add_intermediate_in_order [OF less.prems(1,2) add]
    have smaller: "nat (?M - int (length (rg_nodes g'))) < nat (?M - ?n)" using g' ne True by auto
    have "\<exists>all2 ids2 g2 w'. think_loop ff trim got ctx problem all' ids' g' w1 = Some (Ok (all2, ids2, g2), w') \<and>
        ?M \<le> int (length (rg_nodes g2))"
      by (rule less.hyps [OF smaller]) (use g' less.prems in auto)
    then show ?thesis using True pos gen ne add by (subst step) (simp add: Let_def)
  qed
qed

lemma connect_all_ok:
  assumes "always_thinks ff trim (got_agent got) ctx"
    and "edges_within (got_maxEdges got) g0 n g" and "set is \<subseteq> set (node_ids g)" and "sorted_wrt (<) is"
  shows "\<exists>p w'. connect_all ff trim upper got ctx is n g w = (Ok p, w')"
proof -
  have ask: "\<exists>r w'. IdentifyConnections ff trim upper (got_agent got) ctx s t w = (r, w') \<and> (\<forall>p. r \<noteq> Panic p)" for s t w
  proof -
    obtain r w1 where "llmCall ff (got_agent got) ctx (connection_prompt s t) w = (Ok r, w1)"
      by (rule always_thinks_call [OF assms(1)])
    then show ?thesis by (simp add: IdentifyConnections_def Let_def)
  qed
  have inner: "\<exists>p w'. connect_from ff trim upper got ctx i js n g w = (Ok p, w')"
    if "i \<in> set (node_ids g)" "set js \<subseteq> set (node_ids g)" for i js n g w
    using that
  proof (induction js arbitrary: n g w)
    case (Cons j js)
    obtain a b where ab: "GetNode i g = Some a" "GetNode j g = Some b"
      using Cons.prems node_ids_get [of g i] node_ids_get [of g j] by (auto simp: GetNode_def)
    obtain r w1 where r: "IdentifyConnections ff trim upper (got_agent got) ctx (tn_Content a) (tn_Content b) w = (r, w1)"
      "\<forall>p. r \<noteq> Panic p" using ask by blast
    have keep: "\<exists>p w'. connect_from ff trim upper got ctx i js n' g' w1 = (Ok p, w')" if "rg_nodes g' = rg_nodes g" for n' g'
      using Cons.IH [of g' n' w1] Cons.prems that by (simp add: node_ids_def)
    have edge: "case AddEdge i j t s md g of Ok g' \<Rightarrow> rg_nodes g' = rg_nodes g | Err e \<Rightarrow> True | Panic p \<Rightarrow> False" for t s md
      by (auto simp: AddEdge_def Let_def)
    show ?case
    proof (cases r)
      case (Ok t)
      then show ?thesis using ab r keep edge [of t "8 / 10" None]
        by (cases "AddEdge i j t (8 / 10) None g") auto
    qed (use ab r keep in auto)
  qed simp
  show ?thesis using assms(2-)
  proof (induction "is" arbitrary: n g w)
    case (Cons i js)
    obtain n' g' w1 where c: "connect_from ff trim upper got ctx i js n g w = (Ok (n', g'), w1)"
      using inner [of i g js n w] Cons.prems(2) by auto
    then have e: "edges_within (got_maxEdges got) g0 n' g'"
      using connect_from_edges [OF Cons.prems(1), of i js ff trim upper ctx w] Cons.prems(2,3) by auto
    then have "node_ids g' = node_ids g" using Cons.prems(1) by (simp add: edges_within_def node_ids_def)
    then show ?case using Cons.IH [OF e, of w1] Cons.prems(2,3) c by simp
  qed simp
qed

lemma full_graph:
  assumes think: "always_thinks ff trim (got_agent got) ctx"
  shows "\<exists>g w'. BuildGraph ff trim upper got ctx problem w = Some (Ok g, w') \<and>
    GetConclusions g = [] \<and> got_maxNodes got \<le> int (length (rg_nodes g)) \<and> rg_nodes g \<noteq> []"
proof -
  obtain r0 w0 where "llmCall ff (got_agent got) ctx (''Identify the key facts and premises for this problem.'' @ nl @
        ''List 2-4 foundational facts or assumptions, one per line.'' @ nl @ nl @
        ''Problem: '' @ problem @ nl @ nl @ ''Premises:'') w = (Ok r0, w0)"
    "thought_lines trim (split_char (CHR 0x0A) (trim r0)) \<noteq> []"
    by (rule always_thinks_call [OF think])
  then obtain ps where gen: "GeneratePremises ff trim (got_agent got) ctx problem w = (Ok ps, w0)" and ne: "ps \<noteq> []"
    by (simp add: GeneratePremises_def collect_lines_take)
  obtain ids0 g0 where add: "add_premises ps [] NewReasoningGraph = (ids0, g0)" by (metis prod.exhaust)
  have "[] = node_ids NewReasoningGraph" by (simp add: node_ids_def NewReasoningGraph_def)
  note g0 = add_premises_in_order [OF in_order_new this add]
  have g0': "rg_edges g0 = []" "GetConclusions g0 = []" "length (rg_nodes g0) = length ps"
    using g0 by (auto simp: NewReasoningGraph_def GetConclusions_def)
  obtain all ids g w1 where t: "think_loop ff trim got ctx problem ps ids0 g0 w0 = Some (Ok (all, ids, g), w1)"
    "got_maxNodes got \<le> int (length (rg_nodes g))"
    using think_loop_fills [OF think, of g0 ids0] g0 g0' by metis
  have "think_result (got_maxNodes got) (length (rg_nodes g0)) (Ok (all, ids, g))"
    using think_loop_ends [of g0 ids0 ff trim got ctx problem ps w0] g0 g0' t by simp
  then have g: "in_order g" "ids = node_ids g" "rg_edges g = []" "GetConclusions g = []" "length (rg_nodes g0) \<le> length (rg_nodes g)"
    by (simp_all add: think_result_def)
  have e: "edges_within (got_maxEdges got) g 0 g" using g by (simp add: edges_within_def)
  obtain n2 g2 w2 where c: "connect_all ff trim upper got ctx ids 0 g w1 = (Ok (n2, g2), w2)"
    using connect_all_ok [OF think e, of ids upper w1] in_order_sorted [OF g(1)] g(2) by auto
  have e2: "edges_within (got_maxEdges got) g n2 g2"
    using connect_all_edges [OF e, of ids ff trim upper ctx w1] in_order_sorted [OF g(1)] g(2) c by simp
  then have same: "rg_nodes g2 = rg_nodes g" "GetConclusions g2 = []"
    using g by (auto simp: edges_within_def GetConclusions_def)
  have "conclude ff trim got ctx problem all ids n2 g2 w2 = (Ok g2, w2)" using t(2) same by (simp add: conclude_def)
  moreover have "rg_nodes g \<noteq> []" using g(5) g0'(3) ne by auto
  ultimately show ?thesis using gen add t c same by (simp add: BuildGraph_def)
qed

section \<open>The answer\<close>

text \<open>A path of reasoning: a simple path of at most six nodes from a premise to a conclusion.\<close>

definition reasoning_path :: "ReasoningGraph \<Rightarrow> int list \<Rightarrow> bool" where
  "reasoning_path g p \<longleftrightarrow> p \<noteq> [] \<and> hd p \<in> tn_ID ` set (GetPremises g) \<and> last p \<in> tn_ID ` set (GetConclusions g) \<and>
     distinct p \<and> walk g p \<and> length p \<le> 6"

lemma in_order_GetNode: "in_order g \<Longrightarrow> n \<in> set (map snd (rg_nodes g)) \<Longrightarrow> GetNode (tn_ID n) g = Some n"
proof -
  assume io: "in_order g" and "n \<in> set (map snd (rg_nodes g))"
  then obtain i where i: "(i, n) \<in> set (rg_nodes g)" by auto
  then have "tn_ID n = i" using io by (auto simp: in_order_def)
  moreover have "distinct (map fst (rg_nodes g))"
    using io by (auto simp: in_order_def node_ids_def distinct_map inj_on_def)
  ultimately show ?thesis using i by (simp add: GetNode_def map_of_eq_Some_iff)
qed

lemma in_order_tn_ID: "in_order g \<Longrightarrow> n \<in> set (map snd (rg_nodes g)) \<Longrightarrow> tn_ID n \<in> set (node_ids g)"
  using in_order_GetNode [of g n] node_ids_get [of g "tn_ID n"] by (auto simp: GetNode_def)

lemma paths_to_correct:
  assumes "in_order g" and "a \<in> set (node_ids g)" and "set cs \<subseteq> set (map snd (rg_nodes g))"
  shows "\<exists>ps. paths_to g a cs = Some ps \<and>
    (\<forall>p. p \<in> set ps \<longleftrightarrow> p \<noteq> [] \<and> hd p = a \<and> last p \<in> tn_ID ` set cs \<and> distinct p \<and> walk g p \<and> length p \<le> 6)"
  using assms(3)
proof (induction cs)
  case (Cons c cs)
  have b: "rg_built g" using assms(1) by (simp add: in_order_def)
  have "tn_ID c \<in> set (node_ids g)" using in_order_tn_ID [OF assms(1)] Cons.prems by simp
  from FindPaths_iff [OF b assms(2) this, of 6] obtain ps where ps: "FindPaths a (tn_ID c) 6 g = Some ps"
    "\<forall>p. p \<in> set ps \<longleftrightarrow> p \<noteq> [] \<and> hd p = a \<and> last p = tn_ID c \<and> distinct p \<and> walk g p \<and> length p \<le> 6"
    by auto
  from Cons obtain qs where "paths_to g a cs = Some qs"
    "\<forall>p. p \<in> set qs \<longleftrightarrow> p \<noteq> [] \<and> hd p = a \<and> last p \<in> tn_ID ` set cs \<and> distinct p \<and> walk g p \<and> length p \<le> 6"
    by auto
  with ps show ?case by auto
qed simp

lemma paths_from_correct:
  assumes "in_order g" and "set as \<subseteq> set (map snd (rg_nodes g))" and "set cs \<subseteq> set (map snd (rg_nodes g))"
  shows "\<exists>ps. paths_from g as cs = Some ps \<and>
    (\<forall>p. p \<in> set ps \<longleftrightarrow> p \<noteq> [] \<and> hd p \<in> tn_ID ` set as \<and> last p \<in> tn_ID ` set cs \<and> distinct p \<and> walk g p \<and> length p \<le> 6)"
  using assms(2)
proof (induction as)
  case (Cons a as)
  have "tn_ID a \<in> set (node_ids g)" using in_order_tn_ID [OF assms(1)] Cons.prems by simp
  from paths_to_correct [OF assms(1) this assms(3)] obtain ps where ps: "paths_to g (tn_ID a) cs = Some ps"
    "\<forall>p. p \<in> set ps \<longleftrightarrow> p \<noteq> [] \<and> hd p = tn_ID a \<and> last p \<in> tn_ID ` set cs \<and> distinct p \<and> walk g p \<and> length p \<le> 6"
    by auto
  from Cons obtain qs where "paths_from g as cs = Some qs"
    "\<forall>p. p \<in> set qs \<longleftrightarrow> p \<noteq> [] \<and> hd p \<in> tn_ID ` set as \<and> last p \<in> tn_ID ` set cs \<and> distinct p \<and> walk g p \<and> length p \<le> 6"
    by auto
  with ps show ?case by auto
qed simp

lemma ranged_sets:
  assumes "\<forall>k xs. mset (it k xs) = mset xs"
  shows "set (GetPremises (ranged it k g)) = set (GetPremises g)" "set (GetConclusions (ranged it k g)) = set (GetConclusions g)"
    "length (GetConclusions (ranged it k g)) = length (GetConclusions g)" "mset (rg_nodes (ranged it k g)) = mset (rg_nodes g)"
proof -
  have m: "mset (it k (rg_nodes g)) = mset (rg_nodes g)" using assms by blast
  have "mset (GetPremises (ranged it k g)) = mset (GetPremises g)"
    "mset (GetConclusions (ranged it k g)) = mset (GetConclusions g)"
    using m by (simp_all add: GetPremises_def GetConclusions_def ranged_def)
  then show "set (GetPremises (ranged it k g)) = set (GetPremises g)" "set (GetConclusions (ranged it k g)) = set (GetConclusions g)"
    "length (GetConclusions (ranged it k g)) = length (GetConclusions g)"
    by (metis set_mset_mset, metis set_mset_mset, metis size_mset)
  show "mset (rg_nodes (ranged it k g)) = mset (rg_nodes g)" using m by (simp add: ranged_def)
qed

lemma FindReasoningPaths_correct:
  assumes "in_order g" and "\<forall>k xs. mset (it k xs) = mset xs"
  shows "\<exists>ps. FindReasoningPaths it g = Some ps \<and> (\<forall>p. p \<in> set ps \<longleftrightarrow> reasoning_path g p)"
proof -
  have "set (GetPremises (ranged it 0 g)) \<subseteq> set (map snd (rg_nodes g))"
    "set (GetConclusions (ranged it 1 g)) \<subseteq> set (map snd (rg_nodes g))"
    unfolding ranged_sets [OF assms(2)] by (auto simp: GetPremises_def GetConclusions_def)
  from paths_from_correct [OF assms(1) this] show ?thesis
    unfolding FindReasoningPaths_def reasoning_path_def ranged_sets [OF assms(2)] by blast
qed

lemma best_path_fold:
  "fold (\<lambda>path (bestPath, bestScore).
      let score = GetPathScore path g in if score > bestScore then (path, score) else (bestPath, bestScore))
      ps (b, GetPathScore b g) = (b', s') \<Longrightarrow>
     b' \<in> insert b (set ps) \<and> s' = GetPathScore b' g \<and> (\<forall>q \<in> insert b (set ps). GetPathScore q g \<le> s')"
proof (induction ps arbitrary: b)
  case (Cons p ps)
  show ?case
  proof (cases "GetPathScore p g > GetPathScore b g")
    case True
    with Cons.IH [of p] Cons.prems show ?thesis by (auto simp: Let_def)
  next
    case False
    with Cons.IH [of b] Cons.prems show ?thesis by (auto simp: Let_def)
  qed
qed auto

text \<open>Aggregation by paths takes a path with the highest score.\<close>

lemma best_path_max:
  assumes "paths \<noteq> []"
  shows "best_path g paths \<in> set paths \<and> (\<forall>q \<in> set paths. GetPathScore q g \<le> GetPathScore (best_path g paths) g)"
proof -
  obtain b s where "fold (\<lambda>path (bestPath, bestScore).
      let score = GetPathScore path g in if score > bestScore then (path, score) else (bestPath, bestScore))
      (tl paths) (hd paths, GetPathScore (hd paths) g) = (b, s)" by (rule prod.exhaust)
  note best_path_fold [OF this] and this
  then have "best_path g paths = b" "b \<in> insert (hd paths) (set (tl paths)) \<and> s = GetPathScore b g \<and>
      (\<forall>q \<in> insert (hd paths) (set (tl paths)). GetPathScore q g \<le> s)"
    by (simp add: best_path_def, blast)
  moreover have "insert (hd paths) (set (tl paths)) = set paths" using assms by (cases paths) simp_all
  ultimately show ?thesis by auto
qed

text \<open>Aggregation by nodes finds every node of the paths, and a node with a positive score.\<close>

lemma node_counts_keys: "set (map fst (node_counts paths)) = set (concat paths)"
proof -
  have "fst ` set (fold go_incr xs m) = fst ` set m \<union> set xs" for xs and m :: "(int \<times> int) list"
  proof (induction xs arbitrary: m)
    case (Cons x xs)
    have "fst ` set (go_incr x m) = insert x (fst ` set m)" 
      unfolding go_incr_def dom_map_of_conv_image_fst [symmetric] by (auto split: if_splits)
    with Cons show ?case by simp
  qed simp
  then show ?thesis by (simp add: node_counts_def)
qed

lemma node_scores_found:
  "(\<forall>i \<in> set (map fst cs). GetNode i g \<noteq> None) \<Longrightarrow> \<exists>ss. node_scores g cs = Some ss \<and> map fst ss = map fst cs"
  by (induction g cs rule: node_scores.induct) auto

lemma best_node_key: "best_node ss = - 1 \<or> best_node ss \<in> set (map fst ss)"
proof -
  have "fst (fold (\<lambda>(nodeID, score) (bestNodeID, bestScore).
      if score > bestScore then (nodeID, score) else (bestNodeID, bestScore)) ss (b, s)) \<in> insert b (fst ` set ss)"
    for b and s :: real
  proof (induction ss arbitrary: b s)
    case (Cons x ss)
    obtain i t where x: "x = (i, t)" by (metis prod.exhaust)
    show ?case
    proof (cases "t > s")
      case True
      then show ?thesis using Cons.IH [of i t] x by simp
    next
      case False
      then show ?thesis using Cons.IH [of b s] x by (simp del: not_less) blast
    qed
  qed simp
  from this [of "- 1" 0] show ?thesis by (auto simp: best_node_def)
qed

lemma walk_nodes:
  assumes "in_order g" and "walk g p" and "hd p \<in> set (node_ids g)" and "p \<noteq> []"
  shows "set p \<subseteq> set (node_ids g)"
proof -
  have ok: "rg_ok g" using assms(1) rg_built_ok by (simp add: in_order_def)
  show ?thesis using assms(2-)
  proof (induction p rule: induct_list012)
    case (3 x y zs)
    then have "(x, y) \<in> edge_rel g" "walk g (y # zs)" by (simp_all add: walk_def)
    then show ?case using 3 edge_rel_nodes [OF ok] by auto
  qed simp_all
qed

lemma reasoning_path_nodes: "in_order g \<Longrightarrow> reasoning_path g p \<Longrightarrow> set p \<subseteq> set (node_ids g)"
  using walk_nodes [of g p] in_order_tn_ID by (fastforce simp: reasoning_path_def GetPremises_def)

text \<open>The answer drawn from the paths of reasoning of a graph, for each way of aggregation.\<close>

lemma AggregatePaths_path_based:
  assumes io: "in_order g" and it: "\<forall>k xs. mset (it k xs) = mset xs" and one: "length (GetConclusions g) \<le> 1"
    and ps: "\<forall>p \<in> set ps. reasoning_path g p"
  shows "\<exists>s. AggregatePaths it is AggregatorPathBased g ps = Ok s \<and>
    (case GetConclusions g of
       c # _ \<Rightarrow> s = tn_Content c
     | [] \<Rightarrow> if rg_nodes g = [] then s = ''Unable to reach conclusion'' else s \<in> tn_Content ` set (map snd (rg_nodes g)))"
proof (cases "GetConclusions g")
  case Nil
  then have "ps = []" using ps by (cases ps) (auto simp: reasoning_path_def)
  moreover have "GetConclusions (ranged it 2 g) = []" using Nil ranged_sets(3) [OF it, of 2 g] by simp
  moreover have "set (rg_nodes (ranged it 3 g)) = set (rg_nodes g)" "rg_nodes (ranged it 3 g) = [] \<longleftrightarrow> rg_nodes g = []"
    using ranged_sets(4) [OF it, of 3 g] by (metis set_mset_mset, metis mset_zero_iff)
  ultimately show ?thesis using Nil
    by (cases "rg_nodes (ranged it 3 g)") (force simp: AggregatePaths_def)+
next
  case (Cons c cs)
  then have c: "GetConclusions g = [c]" using one by simp
  show ?thesis
  proof (cases "ps = []")
    case True
    obtain c' where c': "GetConclusions (ranged it 2 g) = [c']"
      using ranged_sets(3) [OF it, of 2 g] c by (auto simp: length_Suc_conv)
    then have "c' = c" using ranged_sets(2) [OF it, of 2 g] c by simp
    then show ?thesis using True c c' by (simp add: AggregatePaths_def)
  next
    case False
    have "reasoning_path g (best_path g ps)" using best_path_max [OF False] ps by blast
    then have best: "best_path g ps \<noteq> []" "last (best_path g ps) = tn_ID c" using c by (auto simp: reasoning_path_def)
    have "c \<in> set (GetConclusions g)" using c by simp
    then have "c \<in> set (map snd (rg_nodes g))" by (auto simp: GetConclusions_def)
    then have "GetNode (tn_ID c) g = Some c" by (rule in_order_GetNode [OF io])
    then show ?thesis using False best c by (simp add: AggregatePaths_def AggregatorPathBased_def node_content_def)
  qed
qed

lemma AggregatePaths_total:
  assumes io: "in_order g" and "is": "\<forall>xs. mset (is xs) = mset xs" and ps: "\<forall>p \<in> set ps. reasoning_path g p"
  shows "\<exists>s. AggregatePaths it is agg g ps = Ok s"
proof (cases "ps = []")
  case True
  then show ?thesis by (auto simp: AggregatePaths_def split: list.splits)
next
  case False
  have found: "\<exists>n. GetNode i g = Some n" if "p \<in> set ps" "i \<in> set p" for p i
    using that ps reasoning_path_nodes [OF io, of p] node_ids_get [of g i] by (fastforce simp: GetNode_def)
  have best: "best_path g ps \<in> set ps" "best_path g ps \<noteq> []"
    using best_path_max [OF False] ps by (auto simp: reasoning_path_def)
  then obtain n where n: "GetNode (last (best_path g ps)) g = Some n" using found last_in_set by blast
  have "\<forall>i \<in> set (map fst (node_counts ps)). GetNode i g \<noteq> None"
    unfolding node_counts_keys using found by fastforce
  from node_scores_found [OF this] obtain ss where
    ss: "node_scores g (node_counts ps) = Some ss" "map fst ss = map fst (node_counts ps)" by blast
  have "set (is ss) = set ss" using "is" by (metis set_mset_mset)
  then have "best_node (is ss) = - 1 \<or> best_node (is ss) \<in> set (concat ps)"
    using best_node_key [of "is ss"] ss(2) node_counts_keys [of ps] by (metis set_map)
  then have "best_node (is ss) \<ge> 0 \<longrightarrow> (\<exists>n. GetNode (best_node (is ss)) g = Some n)" using found by fastforce
  then show ?thesis using False best n ss by (auto simp: AggregatePaths_def Let_def node_content_def)
qed

lemma got_respond_content: "msg_content (fst (got_respond it got problem g ps hc s w)) = GStr s"
  by (simp add: got_respond_def Let_def assistant_message_def split: prod.splits)

lemma got_Process_steps:
  assumes it: "\<forall>k xs. mset (it k xs) = mset xs" and "is": "\<forall>xs. mset (is xs) = mset xs"
    and b: "BuildGraph ff trim upper got ctx (ContentString ff m) w = Some (Ok g, w1)"
  obtains ps s where "\<forall>p. p \<in> set ps \<longleftrightarrow> reasoning_path g p" and "AggregatePaths it is (got_aggregator got) g ps = Ok s"
    and "\<exists>r w2. got_Process ff trim upper it is got ctx m w = Some (Ok (Some r), w2) \<and> msg_content r = GStr s"
proof -
  have io: "in_order g" using BuildGraph_ok [of ff trim upper got ctx "ContentString ff m" w] b
    by (simp add: got_graph_ok_def)
  obtain ps where ps: "FindReasoningPaths it g = Some ps" "\<forall>p. p \<in> set ps \<longleftrightarrow> reasoning_path g p"
    using FindReasoningPaths_correct [OF io it] by blast
  obtain s where s: "AggregatePaths it is (got_aggregator got) g ps = Ok s"
    using AggregatePaths_total [OF io "is"] ps(2) by blast
  obtain r w2 where r: "got_respond it got (ContentString ff m) g ps False s w1 = (r, w2)" by (metis prod.exhaust)
  then have "msg_content r = GStr s" using got_respond_content by (metis fst_conv)
  moreover have "got_Process ff trim upper it is got ctx m w = Some (Ok (Some r), w2)"
    using b ps(1) s r in_order_acyclic [OF io] by (simp add: got_Process_def Statistics_def Let_def)
  ultimately show thesis using that [OF ps(2) s] by blast
qed

text \<open>
  The answer of graph-of-thought reasoning: when the graph can be built, \<open>Process\<close> answers,
  whatever the order in which Go visits its maps.  With aggregation by paths the answer is the
  text of the conclusion of the graph.  When the graph has no conclusion it is the text of some
  thought, and when it has no node at all a fixed text.
\<close>
lemma thought_graph_answers:
  assumes "\<forall>k xs. mset (it k xs) = mset xs" and "\<forall>xs. mset (is xs) = mset xs"
    and "got_aggregator got = AggregatorPathBased"
    and "BuildGraph ff trim upper got ctx (ContentString ff m) w = Some (Ok g, w1)"
  shows "\<exists>r w2 s. got_Process ff trim upper it is got ctx m w = Some (Ok (Some r), w2) \<and> msg_content r = GStr s \<and>
    (case GetConclusions g of
       c # _ \<Rightarrow> s = tn_Content c
     | [] \<Rightarrow> if rg_nodes g = [] then s = ''Unable to reach conclusion'' else s \<in> tn_Content ` set (map snd (rg_nodes g)))"
proof -
  have ok: "got_graph_ok got g" using BuildGraph_ok [of ff trim upper got ctx "ContentString ff m" w] assms(4) by simp
  obtain ps s where ps: "\<forall>p. p \<in> set ps \<longleftrightarrow> reasoning_path g p" "AggregatePaths it is (got_aggregator got) g ps = Ok s"
    and run: "\<exists>r w2. got_Process ff trim upper it is got ctx m w = Some (Ok (Some r), w2) \<and> msg_content r = GStr s"
    by (rule got_Process_steps [OF assms(1,2,4)])
  have "case GetConclusions g of
       c # _ \<Rightarrow> s = tn_Content c
     | [] \<Rightarrow> if rg_nodes g = [] then s = ''Unable to reach conclusion'' else s \<in> tn_Content ` set (map snd (rg_nodes g))"
    using AggregatePaths_path_based [OF _ assms(1), of g ps "is"] ps ok assms(3) by (auto simp: got_graph_ok_def)
  then show ?thesis using run by blast
qed

definition example_model :: "unit agent" where
  "example_model =
     \<lparr>agent_Name = ''model'', agent_Capabilities = [],
      agent_Process = (\<lambda>ctx m w.
        (Ok (Some (assistant_message
          (case m of
             Some msg \<Rightarrow>
               (case msg_content msg of
                  GStr s \<Rightarrow> if HasPrefix s ''Ident'' then ''1. fact'' else if HasPrefix s ''Given'' then ''#''
                    else if HasPrefix s ''Analyze'' then ''SUPPORT'' else ''so''
                | _ \<Rightarrow> [])
           | None \<Rightarrow> []) [])), w))\<rparr>"

lemma example_graph:
  "case BuildGraph (\<lambda>_. []) id id (NewGraphOfThought example_model []) Background ''why'' () of
     Some (Ok g, u) \<Rightarrow> map tn_Content (GetConclusions g) = [''so''] \<and> length (rg_nodes g) = 2 \<and> length (rg_edges g) = 1
   | _ \<Rightarrow> False"
  by code_simp

text \<open>
  A model that always has another thought never gets to its conclusion: the graph is full before
  the step that asks for it, and the answer is the text of a premise or of an intermediate thought.
\<close>

lemma endless_thoughts_hide_conclusion:
  assumes "\<forall>k xs. mset (it k xs) = mset xs" and "\<forall>xs. mset (is xs) = mset xs"
    and "got_aggregator got = AggregatorPathBased" and "always_thinks ff trim (got_agent got) ctx"
  shows "\<exists>g w1 r w2 n. BuildGraph ff trim upper got ctx (ContentString ff m) w = Some (Ok g, w1) \<and>
    got_Process ff trim upper it is got ctx m w = Some (Ok (Some r), w2) \<and> msg_content r = GStr (tn_Content n) \<and>
    n \<in> set (map snd (rg_nodes g)) \<and> tn_NodeType n \<noteq> NodeTypeConclusion"
proof -
  obtain g w1 where b: "BuildGraph ff trim upper got ctx (ContentString ff m) w = Some (Ok g, w1)"
    and none: "GetConclusions g = []" "rg_nodes g \<noteq> []"
    using full_graph [OF assms(4), of upper "ContentString ff m" w] by blast
  have io: "in_order g" using BuildGraph_ok [of ff trim upper got ctx "ContentString ff m" w] b by (simp add: got_graph_ok_def)
  obtain ps s where ps: "\<forall>p. p \<in> set ps \<longleftrightarrow> reasoning_path g p" "AggregatePaths it is (got_aggregator got) g ps = Ok s"
    and run: "\<exists>r w2. got_Process ff trim upper it is got ctx m w = Some (Ok (Some r), w2) \<and> msg_content r = GStr s"
    by (rule got_Process_steps [OF assms(1,2) b])
  have "s \<in> tn_Content ` set (map snd (rg_nodes g))"
    using AggregatePaths_path_based [OF io assms(1), of ps "is"] ps none assms(3) by auto
  then obtain n where n: "s = tn_Content n" "n \<in> set (map snd (rg_nodes g))" by blast
  moreover have "tn_NodeType n \<noteq> NodeTypeConclusion" using none(1) n(2) by (auto simp: GetConclusions_def filter_empty_conv)
  ultimately show ?thesis using b run by blast
qed

text \<open>
  Aggregation by nodes weighs every node of the paths: on a path from a premise (confidence 0.9)
  straight to the conclusion (0.8) the premise wins and is the answer.
\<close>

lemma node_aggregation_answers_premise:
  assumes "\<forall>xs. mset (is xs) = mset xs" and "GetNode u g = Some p" and "GetNode v g = Some c" and "u \<noteq> v" and "0 \<le> u"
    and "tn_Confidence p = 9 / 10" and "tn_Confidence c = 8 / 10"
  shows "AggregatePaths it is AggregatorNodeBased g [[u, v]] = Ok (tn_Content p)"
proof -
  have scores: "node_scores g (node_counts [[u, v]]) = Some [(u, 9 / 10), (v, 8 / 10)]"
    using assms by (simp add: node_counts_def go_incr_def)
  have "mset (is [(u, 9 / 10), (v, 8 / 10)]) = {#(u, 9 / 10), (v, 8 / 10)#}" using assms(1) by simp
  moreover from this have "length (is [(u, 9 / 10), (v, 8 / 10)]) = 2" by (metis size_mset size_add_mset size_empty One_nat_def Suc_1)
  ultimately have "is [(u, 9 / 10), (v, 8 / 10)] = [(u, 9 / 10), (v, 8 / 10)] \<or>
      is [(u, 9 / 10), (v, 8 / 10)] = [(v, 8 / 10), (u, 9 / 10)]"
    by (auto simp: numeral_2_eq_2 length_Suc_conv add_eq_conv_ex)
  then have "best_node (is [(u, 9 / 10), (v, 8 / 10)]) = u" by (auto simp: best_node_def)
  then show ?thesis using scores assms(2,5)
    by (simp add: AggregatePaths_def AggregatorNodeBased_def AggregatorPathBased_def node_content_def)
qed

end
