(* ===== verification/Self_Consistency.thy ===== *)
theory Self_Consistency
  imports Patterns Tree_Of_Thought "HOL-Library.Multiset"
begin

text \<open>
  The agent that samples another one several times and answers with the answer that most samples
  agree on (\<open>techniques/reasoning/self_consistency.go\<close>).

  The goroutines that take the samples run in any order (\<open>ord\<close>), each writes its own cell of the
  array of samples.  The loops over Go maps visit their entries in an order that Go leaves open
  (\<open>it\<close> for the counts, \<open>ig\<close> for the weighted groups, \<open>ie\<close> for the candidates).  Lower case and
  trimming (\<open>lower\<close>, \<open>trim\<close>) are parameters, and so is the default extractor of answers, which
  rests on regular expressions.
\<close>

section \<open>Configuration\<close>

type_synonym VotingStrategy = string

definition VotingStrategyMajority :: VotingStrategy where "VotingStrategyMajority = ''majority''"
definition VotingStrategyWeighted :: VotingStrategy where "VotingStrategyWeighted = ''weighted''"
definition VotingStrategyFirst :: VotingStrategy where "VotingStrategyFirst = ''first''"

record 'w SelfConsistency =
  con_agent :: "'w agent"
  con_numSamples :: int
  con_votingStrategy :: VotingStrategy
  con_temperature :: "real option"
  con_answerExtractor :: "string \<Rightarrow> string"
  con_mem :: "'w artifact_memory option"
  con_verifier :: "(string \<Rightarrow> string \<Rightarrow> 'w \<Rightarrow> gval option \<times> 'w) option"
  con_sessionID :: string

definition WithNumSamples :: "int \<Rightarrow> 'w SelfConsistency \<Rightarrow> 'w SelfConsistency" where
  "WithNumSamples n sc = sc\<lparr>con_numSamples := n\<rparr>"

definition WithVotingStrategy :: "VotingStrategy \<Rightarrow> 'w SelfConsistency \<Rightarrow> 'w SelfConsistency" where
  "WithVotingStrategy strategy sc = sc\<lparr>con_votingStrategy := strategy\<rparr>"

definition WithTemperature :: "real \<Rightarrow> 'w SelfConsistency \<Rightarrow> 'w SelfConsistency" where
  "WithTemperature temp sc = sc\<lparr>con_temperature := Some temp\<rparr>"

definition WithAnswerExtractor :: "(string \<Rightarrow> string) \<Rightarrow> 'w SelfConsistency \<Rightarrow> 'w SelfConsistency" where
  "WithAnswerExtractor extractor sc = sc\<lparr>con_answerExtractor := extractor\<rparr>"

definition WithSCMemory :: "'w artifact_memory \<Rightarrow> 'w SelfConsistency \<Rightarrow> 'w SelfConsistency" where
  "WithSCMemory mem sc = sc\<lparr>con_mem := Some mem\<rparr>"

definition WithSCVerifier ::
    "(string \<Rightarrow> string \<Rightarrow> 'w \<Rightarrow> gval option \<times> 'w) \<Rightarrow> 'w SelfConsistency \<Rightarrow> 'w SelfConsistency" where
  "WithSCVerifier v sc = sc\<lparr>con_verifier := Some v\<rparr>"

definition WithSCSessionID :: "string \<Rightarrow> 'w SelfConsistency \<Rightarrow> 'w SelfConsistency" where
  "WithSCSessionID i sc = sc\<lparr>con_sessionID := i\<rparr>"

definition NewSelfConsistency ::
    "(string \<Rightarrow> string) \<Rightarrow> 'w agent \<Rightarrow> ('w SelfConsistency \<Rightarrow> 'w SelfConsistency) list \<Rightarrow> 'w SelfConsistency" where
  "NewSelfConsistency defaultAnswerExtractor a options =
     fold (\<lambda>option. option) options
       \<lparr>con_agent = a, con_numSamples = 5, con_votingStrategy = VotingStrategyMajority, con_temperature = None,
        con_answerExtractor = defaultAnswerExtractor, con_mem = None, con_verifier = None, con_sessionID = []\<rparr>"

section \<open>Sampling\<close>

record sample =
  smp_fullResponse :: string
  smp_extractedAnswer :: string
  smp_err :: "go_error option"

definition sampleOnce ::
    "(real \<Rightarrow> string) \<Rightarrow> 'w SelfConsistency \<Rightarrow> go_ctx \<Rightarrow> message \<Rightarrow> ('w, string \<times> string) call" where
  "sampleOnce ff sc ctx message w =
     (case agent_Process (con_agent sc) ctx (Some message) w of
        (Err e, w) \<Rightarrow> (Err e, w)
      | (Panic p, w) \<Rightarrow> (Panic p, w)
      | (Ok None, w) \<Rightarrow> (Panic ''nil pointer dereference'', w)
      | (Ok (Some response), w) \<Rightarrow>
          (let fullResponse = ContentString ff response in (Ok (fullResponse, con_answerExtractor sc fullResponse), w)))"

text \<open>The goroutines in the order in which they run; a panic in one of them ends the program.\<close>

fun run_samples ::
    "(real \<Rightarrow> string) \<Rightarrow> 'w SelfConsistency \<Rightarrow> go_ctx \<Rightarrow> message \<Rightarrow> nat list \<Rightarrow> sample list \<Rightarrow> ('w, sample list) call" where
  "run_samples ff sc ctx message [] samples w = (Ok samples, w)"
| "run_samples ff sc ctx message (idx # is) samples w =
     (case sampleOnce ff sc ctx message w of
        (Panic p, w) \<Rightarrow> (Panic p, w)
      | (Err e, w) \<Rightarrow>
          run_samples ff sc ctx message is
            (samples[idx := \<lparr>smp_fullResponse = [], smp_extractedAnswer = [], smp_err = Some e\<rparr>]) w
      | (Ok (fullResp, extracted), w) \<Rightarrow>
          run_samples ff sc ctx message is
            (samples[idx := \<lparr>smp_fullResponse = fullResp, smp_extractedAnswer = extracted, smp_err = None\<rparr>]) w)"

fun collect_samples :: "sample list \<Rightarrow> (string list \<times> string list) outcome" where
  "collect_samples [] = Ok ([], [])"
| "collect_samples (s # ss) =
     (case smp_err s of
        Some e \<Rightarrow> Err (Errorf ''sampling failed: %w'' [] (Some e))
      | None \<Rightarrow> map_outcome (\<lambda>(rs, as). (smp_fullResponse s # rs, smp_extractedAnswer s # as)) (collect_samples ss))"

definition generateSamples ::
    "(real \<Rightarrow> string) \<Rightarrow> 'w order \<Rightarrow> 'w SelfConsistency \<Rightarrow> go_ctx \<Rightarrow> message \<Rightarrow> ('w, string list \<times> string list) call" where
  "generateSamples ff ord sc ctx message w =
     (if con_numSamples sc < 0 then (Panic ''makeslice: len out of range'', w)
      else
        (case run_samples ff sc ctx message (ord w (nat (con_numSamples sc)))
           (replicate (nat (con_numSamples sc)) \<lparr>smp_fullResponse = [], smp_extractedAnswer = [], smp_err = None\<rparr>) w of
           (Ok samples, w) \<Rightarrow> (collect_samples samples, w)
         | (Err e, w) \<Rightarrow> (Err e, w)
         | (Panic p, w) \<Rightarrow> (Panic p, w)))"

section \<open>Voting\<close>

definition originalCase :: "(string \<Rightarrow> string) \<Rightarrow> string list \<Rightarrow> (string \<times> string) list" where
  "originalCase normed answers =
     fold (\<lambda>answer m. if go_get m (normed answer) = None then go_set (normed answer) answer m else m) answers []"

definition voteMajority ::
    "(string \<Rightarrow> string) \<Rightarrow> ((string \<times> int) list \<Rightarrow> (string \<times> int) list) \<Rightarrow> string list \<Rightarrow> string \<times> real" where
  "voteMajority normed it answers =
     (if answers = [] then ([], 0)
      else
        let counts = count_votes (map normed answers);
            original = originalCase normed answers;
            (winningAnswer, maxCount) = vote_winner (it counts);
            winner = (case go_get original winningAnswer of None \<Rightarrow> [] | Some a \<Rightarrow> a)
        in (winner, real_of_int maxCount / real (length answers)))"

record answerGroup =
  ag_original :: string
  ag_weight :: int
  ag_count :: int

definition answer_groups :: "(string \<Rightarrow> string) \<Rightarrow> (string \<times> string) list \<Rightarrow> (string \<times> answerGroup) list" where
  "answer_groups normed pairs =
     fold (\<lambda>(answer, response) groups.
        case go_get groups (normed answer) of
          Some grp \<Rightarrow>
            go_set (normed answer)
              (grp\<lparr>ag_weight := ag_weight grp + int (length response), ag_count := ag_count grp + 1\<rparr>) groups
        | None \<Rightarrow>
            go_set (normed answer) \<lparr>ag_original = answer, ag_weight = int (length response), ag_count = 1\<rparr> groups)
       pairs []"

definition heaviest :: "(string \<times> answerGroup) list \<Rightarrow> string \<times> int \<times> int" where
  "heaviest groups =
     fold (\<lambda>(_, grp) (winningAnswer, maxWeight, totalWeight).
        if ag_weight grp > maxWeight then (ag_original grp, ag_weight grp, totalWeight + ag_weight grp)
        else (winningAnswer, maxWeight, totalWeight + ag_weight grp)) groups ([], 0, 0)"

definition voteWeighted ::
    "(string \<Rightarrow> string) \<Rightarrow> ((string \<times> answerGroup) list \<Rightarrow> (string \<times> answerGroup) list) \<Rightarrow> string list \<Rightarrow> string list \<Rightarrow> string \<times> real" where
  "voteWeighted normed ig answers responses =
     (if answers = [] then ([], 0)
      else
        let (winningAnswer, maxWeight, totalWeight) = heaviest (ig (answer_groups normed (zip answers responses)))
        in (winningAnswer, if totalWeight > 0 then real_of_int maxWeight / real_of_int totalWeight else 0))"

definition voteFirst :: "string list \<Rightarrow> string \<times> real" where
  "voteFirst answers = (case answers of [] \<Rightarrow> ([], 0) | a # _ \<Rightarrow> (a, 1))"

definition vote ::
    "(string \<Rightarrow> string) \<Rightarrow> ((string \<times> int) list \<Rightarrow> (string \<times> int) list) \<Rightarrow>
     ((string \<times> answerGroup) list \<Rightarrow> (string \<times> answerGroup) list) \<Rightarrow> VotingStrategy \<Rightarrow> string list \<Rightarrow> string list \<Rightarrow>
     (string \<times> real) outcome" where
  "vote normed it ig strategy answers responses =
     (if strategy = VotingStrategyMajority then Ok (voteMajority normed it answers)
      else if strategy = VotingStrategyWeighted then Ok (voteWeighted normed ig answers responses)
      else if strategy = VotingStrategyFirst then Ok (voteFirst answers)
      else Err (Errorf ''invalid voting strategy: %s'' [GStr strategy] None))"

section \<open>Answering\<close>

text \<open>The distinct answers with the share of the samples that gave them.\<close>

definition candidateMap :: "(string \<Rightarrow> string) \<Rightarrow> int \<Rightarrow> string list \<Rightarrow> (string \<times> ScoredCandidate) list" where
  "candidateMap normed numSamples answers =
     fold (\<lambda>answer m.
        case go_get m (normed answer) of
          Some entry \<Rightarrow> go_set (normed answer) (entry\<lparr>sc_Score := sc_Score entry + 1 / real_of_int numSamples\<rparr>) m
        | None \<Rightarrow> go_set (normed answer) \<lparr>sc_Text = answer, sc_Score = 1 / real_of_int numSamples\<rparr> m)
       answers []"

definition con_verify ::
    "'w SelfConsistency \<Rightarrow> string \<Rightarrow> string \<Rightarrow> (string \<times> gval) list \<Rightarrow> 'w \<Rightarrow> (string \<times> gval) list \<times> 'w" where
  "con_verify sc query consensusAnswer artifactMeta w =
     (case con_verifier sc of
        None \<Rightarrow> (artifactMeta, w)
      | Some v \<Rightarrow>
          (case v query consensusAnswer w of
             (Some result, w) \<Rightarrow> (go_set ''verification'' result artifactMeta, w)
           | (None, w) \<Rightarrow> (artifactMeta, w)))"

definition con_store :: "'w SelfConsistency \<Rightarrow> string \<Rightarrow> reasoningArtifact \<Rightarrow> 'w \<Rightarrow> 'w" where
  "con_store sc consensusAnswer artifact w =
     (case con_mem sc of
        None \<Rightarrow> w
      | Some (ReasoningMemory f) \<Rightarrow> f (con_sessionID sc) artifact w
      | Some (PlainMemory f) \<Rightarrow> f (con_sessionID sc) consensusAnswer artifact w)"

definition con_respond ::
    "(real \<Rightarrow> string) \<Rightarrow> (string \<Rightarrow> string) \<Rightarrow> ((string \<times> ScoredCandidate) list \<Rightarrow> (string \<times> ScoredCandidate) list) \<Rightarrow>
     'w SelfConsistency \<Rightarrow> message \<Rightarrow> time \<Rightarrow> string list \<Rightarrow> string list \<Rightarrow> string \<times> real \<Rightarrow> 'w \<Rightarrow> message \<times> 'w" where
  "con_respond ff normed ie sc message now fullResponses extractedAnswers consensus w =
     (let (consensusAnswer, consistencyScore) = consensus;
          answerCounts = count_votes (map normed extractedAnswers);
          candidates = map snd (ie (candidateMap normed (con_numSamples sc) extractedAnswers));
          (artifactMeta, w) = con_verify sc (ContentString ff message) consensusAnswer
            [(''voting_strategy'', GStr (con_votingStrategy sc)), (''consistency_score'', GFloat consistencyScore),
             (''num_samples'', GInt (con_numSamples sc))] w;
          artifact = newArtifact ''self_consistency'' (con_sessionID sc) candidates (Some artifactMeta);
          response = (NewMessage now ''assistant'' consensusAnswer)\<lparr>msg_metadata := Some
            [(''technique'', GStr ''self_consistency''), (''num_samples'', GInt (con_numSamples sc)),
             (''voting_strategy'', GStr (con_votingStrategy sc)), (''consistency_score'', GFloat consistencyScore),
             (''samples'', GStrs fullResponses), (''extracted_answers'', GStrs extractedAnswers),
             (''answer_counts'', GMap (map (\<lambda>(k, n). (k, GInt n)) answerCounts)),
             (''base_agent'', GStr (agent_Name (con_agent sc))), (''reasoning_artifact'', artifact_value artifact)]\<rparr>
      in (response, con_store sc consensusAnswer artifact w))"

definition con_Process ::
    "(real \<Rightarrow> string) \<Rightarrow> 'w clock \<Rightarrow> 'w order \<Rightarrow> (string \<Rightarrow> string) \<Rightarrow> (string \<Rightarrow> string) \<Rightarrow>
     ((string \<times> int) list \<Rightarrow> (string \<times> int) list) \<Rightarrow> ((string \<times> answerGroup) list \<Rightarrow> (string \<times> answerGroup) list) \<Rightarrow>
     ((string \<times> ScoredCandidate) list \<Rightarrow> (string \<times> ScoredCandidate) list) \<Rightarrow> 'w SelfConsistency \<Rightarrow> go_ctx \<Rightarrow> message \<Rightarrow> 'w \<Rightarrow>
     reply \<times> 'w" where
  "con_Process ff now ord lower trim it ig ie sc ctx message w =
     (let normed = (\<lambda>answer. lower (trim answer)) in
      case generateSamples ff ord sc ctx message w of
        (Err e, w) \<Rightarrow> (Err e, w)
      | (Panic p, w) \<Rightarrow> (Panic p, w)
      | (Ok (fullResponses, extractedAnswers), w) \<Rightarrow>
          (case vote normed it ig (con_votingStrategy sc) extractedAnswers fullResponses of
             Err e \<Rightarrow> (Err e, w)
           | Panic p \<Rightarrow> (Panic p, w)
           | Ok consensus \<Rightarrow>
               (let (t, w) = now w;
                    (response, w) = con_respond ff normed ie sc message t fullResponses extractedAnswers consensus w
                in (Ok (Some response), w))))"

section \<open>The vote\<close>

lemma run_samples_length:
  "run_samples ff sc ctx m is samples w = (Ok samples', w') \<Longrightarrow> length samples' = length samples"
  by (induction ff sc ctx m "is" samples w rule: run_samples.induct) (auto split: prod.splits outcome.splits)

lemma collect_samples_length:
  "collect_samples ss = Ok (rs, as) \<Longrightarrow> length rs = length ss \<and> length as = length ss"
proof (induction ss arbitrary: rs as)
  case (Cons s ss)
  then show ?case by (cases "collect_samples ss"; cases "smp_err s") auto
qed simp

lemma generateSamples_length:
  "generateSamples ff ord sc ctx m w = (Ok (rs, as), w') \<Longrightarrow>
     int (length rs) = con_numSamples sc \<and> int (length as) = con_numSamples sc"
  by (auto simp: generateSamples_def split: if_splits prod.splits outcome.splits
      dest!: run_samples_length collect_samples_length)

lemma originalCase_first: "go_get (originalCase normed as) n = find (\<lambda>a. normed a = n) as"
proof (induction as rule: rev_induct)
  case (snoc a as)
  have find_snoc: "find P (xs @ [x]) = (case find P xs of Some y \<Rightarrow> Some y | None \<Rightarrow> if P x then Some x else None)" for P xs and x :: string
    by (induction xs) auto
  have step: "originalCase normed (as @ [a]) =
      (if go_get (originalCase normed as) (normed a) = None then go_set (normed a) a (originalCase normed as) else originalCase normed as)"
    by (simp add: originalCase_def)
  show ?case using snoc unfolding step find_snoc by (auto split: option.splits)
qed (simp add: originalCase_def)

text \<open>The winner of the votes, whatever the order in which the loop visits them.\<close>

lemma vote_winner_any_order:
  assumes "cs \<noteq> []" and "set votes = set (count_votes cs)" and "vote_winner votes = (winner, n)"
  shows "winner \<in> set cs \<and> n = int (count_list cs winner) \<and> (\<forall>c. int (count_list cs c) \<le> n)"
proof -
  have "fold (\<lambda>x (b, n). if snd x > n then (fst x, snd x) else (b, n)) votes ([], 0) = (winner, n)"
    using assms(3) by (simp add: vote_winner_def split_def)
  note best = fold_best_entry [OF this]
  have entry: "int (count_list cs c) \<le> n" if "c \<in> set cs" for c
  proof -
    have "(c, int (count_list cs c)) \<in> set (count_votes cs)"
      by (rule go_get_Some_mem) (simp add: count_votes_get that)
    then show ?thesis using best assms(2) by force
  qed
  have all: "int (count_list cs c) \<le> n" for c
    using entry [of c] best by (cases "c \<in> set cs") (auto simp: count_list_0_iff)
  obtain c where "c \<in> set cs" using assms(1) by (cases cs) auto
  then have "0 < count_list cs c" by (metis count_list_0_iff gr0I)
  then have "0 < n" using all [of c] by linarith
  then obtain x where x: "x \<in> set (count_votes cs)" "winner = fst x" "n = snd x" using best assms(2) by auto
  then have "go_get (count_votes cs) winner = Some n" using go_map_mem_get [OF count_votes_ok, of winner n cs] by simp
  then show ?thesis using all by (auto simp: count_votes_get split: if_splits)
qed

lemma voteMajority_wins:
  assumes "as \<noteq> []" and "\<forall>xs. mset (it xs) = mset xs" and "voteMajority normed it as = (a, score)"
  shows "find (\<lambda>b. normed b = normed a) as = Some a \<and>
    (\<forall>n. count_list (map normed as) n \<le> count_list (map normed as) (normed a)) \<and>
    score = real (count_list (map normed as) (normed a)) / real (length as)"
proof -
  obtain c n where v: "vote_winner (it (count_votes (map normed as))) = (c, n)" by (metis prod.exhaust)
  have "set (it (count_votes (map normed as))) = set (count_votes (map normed as))" using assms(2) by (metis set_mset_mset)
  from vote_winner_any_order [OF _ this v] assms(1) have
    w: "c \<in> normed ` set as" "n = int (count_list (map normed as) c)" "\<forall>x. int (count_list (map normed as) x) \<le> n" by auto
  obtain b where b: "find (\<lambda>b. normed b = c) as = Some b" using w(1) by (cases "find (\<lambda>b. normed b = c) as") (auto simp: find_None_iff)
  then have "normed b = c" by (auto simp: find_Some_iff)
  moreover have "a = b" "score = real_of_int n / real (length as)"
    using assms(1,3) v b by (auto simp: voteMajority_def Let_def originalCase_first)
  ultimately show ?thesis using b w by auto
qed

text \<open>The weight of a grp: the lengths of the responses that gave its answer.\<close>

definition weight_of :: "(string \<Rightarrow> string) \<Rightarrow> (string \<times> string) list \<Rightarrow> string \<Rightarrow> int" where
  "weight_of normed pairs n = (\<Sum>(a, r) \<leftarrow> pairs. if normed a = n then int (length r) else 0)"

lemma weight_of_zero: "n \<notin> normed ` fst ` set pairs \<Longrightarrow> weight_of normed pairs n = 0"
  by (induction pairs) (auto simp: weight_of_def)

lemma answer_groups_snoc:
  "answer_groups normed (pairs @ [(a, r)]) =
      (case go_get (answer_groups normed pairs) (normed a) of
         Some grp \<Rightarrow> go_set (normed a) (grp\<lparr>ag_weight := ag_weight grp + int (length r), ag_count := ag_count grp + 1\<rparr>) (answer_groups normed pairs)
       | None \<Rightarrow> go_set (normed a) \<lparr>ag_original = a, ag_weight = int (length r), ag_count = 1\<rparr> (answer_groups normed pairs))"
  unfolding answer_groups_def by simp

lemma answer_groups_get:
  "case go_get (answer_groups normed pairs) n of
     None \<Rightarrow> n \<notin> normed ` fst ` set pairs
   | Some grp \<Rightarrow> ag_weight grp = weight_of normed pairs n \<and> n \<in> normed ` fst ` set pairs \<and>
       ag_original grp \<in> fst ` set pairs \<and> normed (ag_original grp) = n"
proof (induction pairs rule: rev_induct)
  case (snoc x pairs)
  obtain a r where x: "x = (a, r)" by (metis prod.exhaust)
  note zero = weight_of_zero [of n normed pairs]
  have snoc_weight: "weight_of normed (pairs @ [(a, r)]) n = weight_of normed pairs n + (if normed a = n then int (length r) else 0)"
    by (simp add: weight_of_def)
  show ?case
  proof (cases "normed a = n")
    case True
    then show ?thesis using snoc zero unfolding x answer_groups_snoc snoc_weight
      by (cases "go_get (answer_groups normed pairs) n") auto
  next
    case False
    then have "go_get (answer_groups normed (pairs @ [(a, r)])) n = go_get (answer_groups normed pairs) n"
      unfolding answer_groups_snoc by (auto split: option.splits)
    then show ?thesis using snoc False unfolding x snoc_weight by (auto split: option.splits)
  qed
qed (simp add: answer_groups_def)

lemma answer_groups_ok: "go_map_ok (answer_groups normed pairs)"
proof (induction pairs rule: rev_induct)
  case (snoc x pairs)
  obtain a r where "x = (a, r)" by (metis prod.exhaust)
  then show ?case using snoc by (simp add: answer_groups_snoc split: option.splits)
qed (simp add: answer_groups_def)

lemma heaviest_best:
  assumes "heaviest gs = (a, m, t)"
  shows "fold (\<lambda>x (b, n). if ag_weight (snd x) > n then (ag_original (snd x), ag_weight (snd x)) else (b, n)) gs ([], 0) = (a, m)"
    and "t = sum_list (map (ag_weight \<circ> snd) gs)"
proof -
  have step: "fold (\<lambda>(_, grp) (winningAnswer, maxWeight, totalWeight).
        if ag_weight grp > maxWeight then (ag_original grp, ag_weight grp, totalWeight + ag_weight grp)
        else (winningAnswer, maxWeight, totalWeight + ag_weight grp)) gs (b, n, s) =
      (fst (fold (\<lambda>x (b, n). if ag_weight (snd x) > n then (ag_original (snd x), ag_weight (snd x)) else (b, n)) gs (b, n)),
       snd (fold (\<lambda>x (b, n). if ag_weight (snd x) > n then (ag_original (snd x), ag_weight (snd x)) else (b, n)) gs (b, n)),
       s + sum_list (map (ag_weight \<circ> snd) gs))" for b n s
  proof (induction gs arbitrary: b n s)
    case (Cons x gs)
    obtain k g where x: "x = (k, g)" by (metis prod.exhaust)
    show ?case
    proof (cases "n < ag_weight g")
      case True
      then show ?thesis using Cons.IH [of "ag_original g" "ag_weight g" "s + ag_weight g"] x by simp
    next
      case False
      then show ?thesis using Cons.IH [of b n "s + ag_weight g"] x by simp
    qed
  qed simp
  show "fold (\<lambda>x (b, n). if ag_weight (snd x) > n then (ag_original (snd x), ag_weight (snd x)) else (b, n)) gs ([], 0) = (a, m)"
    "t = sum_list (map (ag_weight \<circ> snd) gs)"
    using assms unfolding heaviest_def step by auto
qed

lemma weight_of_nonneg: "0 \<le> weight_of normed pairs n"
  unfolding weight_of_def by (induction pairs) auto

lemma weight_of_pos: "(x, r) \<in> set ps \<Longrightarrow> r \<noteq> [] \<Longrightarrow> 0 < weight_of normed ps (normed x)"
proof (induction ps)
  case (Cons p ps)
  obtain y s where p: "p = (y, s)" by (metis prod.exhaust)
  have split: "weight_of normed (p # ps) (normed x) = (if normed y = normed x then int (length s) else 0) + weight_of normed ps (normed x)"
    by (simp add: weight_of_def p)
  show ?case
  proof (cases "(x, r) = p")
    case True
    then show ?thesis using split p Cons.prems(2) weight_of_nonneg [where pairs = ps and n = "normed x" and normed = normed]
      by (auto intro: add_pos_nonneg)
  next
    case False
    then show ?thesis using split Cons by (auto intro: add_nonneg_pos)
  qed
qed simp

text \<open>
  The weighted vote is won by an answer whose responses are together at least as long as those
  of any other answer; when all responses are empty there is no winner.
\<close>
lemma voteWeighted_wins:
  assumes "\<forall>xs. mset (ig xs) = mset xs" and "length as = length rs" and "\<exists>r \<in> set rs. r \<noteq> []"
    and "voteWeighted normed ig as rs = (a, score)"
  shows "a \<in> set as \<and> (\<forall>n. weight_of normed (zip as rs) n \<le> weight_of normed (zip as rs) (normed a))"
proof -
  let ?gs = "answer_groups normed (zip as rs)" and ?w = "weight_of normed (zip as rs)"
  obtain a' m t where h: "heaviest (ig ?gs) = (a', m, t)" by (metis prod_cases3)
  have sets: "set (ig ?gs) = set ?gs" using assms(1) by (metis set_mset_mset)
  have ok: "go_map_ok ?gs" by (rule answer_groups_ok)
  note best = fold_best_entry [OF heaviest_best(1) [OF h], unfolded sets]
  have le: "?w n \<le> m" for n
  proof (cases "go_get ?gs n")
    case None
    then have "?w n = 0" using answer_groups_get [where normed = normed and pairs = "zip as rs" and n = n] weight_of_zero by auto
    then show ?thesis using best by simp
  next
    case (Some grp)
    then have "(n, grp) \<in> set ?gs" "ag_weight grp = ?w n"
      using answer_groups_get [where normed = normed and pairs = "zip as rs" and n = n] go_get_Some_mem by auto
    then show ?thesis using best by force
  qed
  have "0 < m"
  proof -
    from assms(2,3) obtain i where i: "i < length as" "rs ! i \<noteq> []" by (auto simp: in_set_conv_nth)
    then have mem: "(as ! i, rs ! i) \<in> set (zip as rs)" using assms(2) by (auto simp: in_set_zip)
    from weight_of_pos [OF mem i(2), of normed] show ?thesis using le [of "normed (as ! i)"] by simp
  qed
  then obtain x where x: "x \<in> set ?gs" "a' = ag_original (snd x)" "m = ag_weight (snd x)" using best by auto
  then have "go_get ?gs (fst x) = Some (snd x)" using go_map_mem_get [OF ok, of "fst x" "snd x"] by simp
  with answer_groups_get [where normed = normed and pairs = "zip as rs" and n = "fst x"] x(2,3) have
    "a' \<in> fst ` set (zip as rs)" "m = ?w (normed a')" by auto
  moreover from this have "a' \<in> set as" by (auto dest: set_zip_leftD)
  moreover have "a = a'" using assms(2,3,4) h by (auto simp: voteWeighted_def Let_def split: if_splits)
  ultimately show ?thesis using le by simp
qed

section \<open>The answer\<close>

lemma con_Process_answer:
  assumes "con_Process ff now ord lower trim it ig ie sc ctx m w = (Ok (Some r), w')"
  obtains rs as w1 a score where "generateSamples ff ord sc ctx m w = (Ok (rs, as), w1)"
    and "vote (\<lambda>a. lower (trim a)) it ig (con_votingStrategy sc) as rs = Ok (a, score)"
    and "msg_content r = GStr a" and "meta_get r ''consistency_score'' = Some (GFloat score)"
    and "meta_get r ''extracted_answers'' = Some (GStrs as)"
proof -
  obtain g w1 where g: "generateSamples ff ord sc ctx m w = (g, w1)" by (metis prod.exhaust)
  then obtain rs as where ok: "g = Ok (rs, as)" using assms by (cases g) (auto simp: con_Process_def Let_def)
  let ?v = "vote (\<lambda>a. lower (trim a)) it ig (con_votingStrategy sc) as rs"
  obtain a score where v: "?v = Ok (a, score)" using assms g ok by (cases ?v) (auto simp: con_Process_def Let_def)
  obtain t w2 where t: "now w1 = (t, w2)" by (metis prod.exhaust)
  have "r = fst (con_respond ff (\<lambda>a. lower (trim a)) ie sc m t rs as (a, score) w2)"
    using assms g ok v t by (simp add: con_Process_def Let_def split: prod.splits)
  then have "msg_content r = GStr a" "meta_get r ''consistency_score'' = Some (GFloat score)"
    "meta_get r ''extracted_answers'' = Some (GStrs as)"
    by (simp_all add: con_respond_def Let_def NewMessage_def meta_get_def split: prod.splits)
  then show thesis using that [of rs as w1 a score] g ok v by simp
qed

text \<open>
  C33.
  Self-consistency answers with a majority.  When the agent answers under the default strategy
  with a positive number of samples, there are exactly that many extracted answers; the reply is
  the first of them that has its normalised form (trimmed, lower case); no normalised form is
  given by more samples; and the reported consistency score is its share of the samples.  This
  holds for every order in which the samples are taken and in which Go visits the counts.
\<close>
theorem self_consistency_majority:
  assumes "\<forall>xs. mset (it xs) = mset xs" and "con_votingStrategy sc = VotingStrategyMajority" and "0 < con_numSamples sc"
    and "con_Process ff now ord lower trim it ig ie sc ctx m w = (Ok (Some r), w')"
  shows "\<exists>as a. meta_get r ''extracted_answers'' = Some (GStrs as) \<and> int (length as) = con_numSamples sc \<and>
    msg_content r = GStr a \<and> find (\<lambda>b. lower (trim b) = lower (trim a)) as = Some a \<and>
    (\<forall>n. count_list (map (\<lambda>b. lower (trim b)) as) n \<le> count_list (map (\<lambda>b. lower (trim b)) as) (lower (trim a))) \<and>
    meta_get r ''consistency_score'' =
      Some (GFloat (real (count_list (map (\<lambda>b. lower (trim b)) as) (lower (trim a))) / real (length as)))"
proof -
  from con_Process_answer [OF assms(4)] obtain rs as w1 a score where
    g: "generateSamples ff ord sc ctx m w = (Ok (rs, as), w1)"
      "vote (\<lambda>a. lower (trim a)) it ig (con_votingStrategy sc) as rs = Ok (a, score)"
      "msg_content r = GStr a" "meta_get r ''consistency_score'' = Some (GFloat score)"
      "meta_get r ''extracted_answers'' = Some (GStrs as)" by metis
  have len: "int (length as) = con_numSamples sc" using generateSamples_length [OF g(1)] by simp
  then have "as \<noteq> []" using assms(3) by auto
  moreover have "voteMajority (\<lambda>a. lower (trim a)) it as = (a, score)" using g(2) assms(2) by (simp add: vote_def)
  ultimately show ?thesis using voteMajority_wins [OF _ assms(1), of as "\<lambda>a. lower (trim a)" a score] g len by blast
qed

definition alternating_agent :: "nat agent" where
  "alternating_agent =
     \<lparr>agent_Name = ''alternating'', agent_Capabilities = [],
      agent_Process = (\<lambda>ctx m n. (Ok (Some (assistant_message (if even n then ''yes'' else ''no'') [])), Suc n))\<rparr>"

definition three_samples :: "nat SelfConsistency" where
  "three_samples = NewSelfConsistency id alternating_agent [WithNumSamples 3]"

lemma three_samples_run:
  "case con_Process (\<lambda>_. []) (\<lambda>w. (0, w)) (\<lambda>w n. rev [0..<n]) id id rev id id three_samples Background
     (assistant_message ''why'' []) 0 of
     (Ok (Some r), w) \<Rightarrow> msg_content r = GStr ''yes'' \<and> w = 3
   | _ \<Rightarrow> False"
  by code_simp

theorem self_consistency_majority_witness:
  "\<exists>r w as. con_Process (\<lambda>_. []) (\<lambda>w. (0, w)) (\<lambda>w n. rev [0..<n]) id id rev id id three_samples Background
     (assistant_message ''why'' []) 0 = (Ok (Some r), w) \<and> meta_get r ''extracted_answers'' = Some (GStrs as) \<and>
     length as = 3 \<and> find (\<lambda>b. b = ''yes'') as = Some ''yes'' \<and> (\<forall>n. count_list as n \<le> count_list as ''yes'')"
proof -
  obtain r w where r: "con_Process (\<lambda>_. []) (\<lambda>w. (0, w)) (\<lambda>w n. rev [0..<n]) id id rev id id three_samples Background
     (assistant_message ''why'' []) 0 = (Ok (Some r), w)" "msg_content r = GStr ''yes''"
    using three_samples_run by (auto split: prod.splits outcome.splits option.splits)
  have "con_votingStrategy three_samples = VotingStrategyMajority" "con_numSamples three_samples = 3"
    by (simp_all add: three_samples_def NewSelfConsistency_def WithNumSamples_def)
  with self_consistency_majority [OF _ _ _ r(1)] r show ?thesis by auto
qed

end
