(* ===== verification/Deliberation.thy ===== *)
theory Deliberation
  imports Tree_Of_Thought Text_Lines
begin

text \<open>
  The reasoning agents that ask a model for steps and then work through them:
  \<open>techniques/reasoning/chain_of_thought.go\<close>, \<open>techniques/reasoning/plan_and_solve.go\<close> and
  \<open>techniques/reasoning/least_to_most.go\<close>.

  The regular expressions with which they take the numbering off a line are functions here; the
  expressions of \<open>extractSteps\<close> may run over the end of a line, because \<open>\s\<close> matches a line break.
  Trimming and upper case (\<open>trim\<close>, \<open>upper\<close>) are parameters, as is \<open>explode\<close>, the splitting of a
  text into its UTF-8 characters.
\<close>

section \<open>Numbered lines\<close>

abbreviation lf :: string where
  "lf \<equiv> [CHR 0x0A]"

text \<open>White space of regular expressions.\<close>

definition re_space :: "char \<Rightarrow> bool" where
  "re_space c \<longleftrightarrow> c \<in> {CHR 0x09, CHR 0x0A, CHR 0x0C, CHR 0x0D, CHR 0x20}"

text \<open>What follows \<open>\d+[.)]\<close> at the start of the text.\<close>

definition number_mark :: "string \<Rightarrow> string option" where
  "number_mark s =
     (case dropWhile is_digit s of
        c # rest \<Rightarrow> if takeWhile is_digit s \<noteq> [] \<and> c \<in> set ''.)'' then Some rest else None
      | [] \<Rightarrow> None)"

text \<open>What follows one of the three bullets at the start of the text.\<close>

definition bullet_mark :: "string \<Rightarrow> string option" where
  "bullet_mark s =
     (if HasPrefix s bullet then Some (drop (length bullet) s)
      else case s of c # rest \<Rightarrow> if c \<in> set ''-*'' then Some rest else None | [] \<Rightarrow> None)"

text \<open>Removing \<open>^\d+[.)]\s*\<close>.\<close>

definition strip_numbering :: "string \<Rightarrow> string" where
  "strip_numbering line = (case number_mark line of None \<Rightarrow> line | Some rest \<Rightarrow> dropWhile re_space rest)"

section \<open>Chain of thought\<close>

record 'w ChainOfThought =
  cot_agent :: "'w agent"
  cot_promptTemplate :: string
  cot_parseSteps :: bool
  cot_stepDelimiter :: string
  cot_maxSteps :: "int option"
  cot_mem :: "'w artifact_memory option"
  cot_verifier :: "(string \<Rightarrow> string \<Rightarrow> 'w \<Rightarrow> gval option \<times> 'w) option"
  cot_sessionID :: string

definition WithPromptTemplate :: "string \<Rightarrow> 'w ChainOfThought \<Rightarrow> 'w ChainOfThought" where
  "WithPromptTemplate template ct = ct\<lparr>cot_promptTemplate := template\<rparr>"

definition WithParseSteps :: "bool \<Rightarrow> 'w ChainOfThought \<Rightarrow> 'w ChainOfThought" where
  "WithParseSteps parse ct = ct\<lparr>cot_parseSteps := parse\<rparr>"

definition WithStepDelimiter :: "string \<Rightarrow> 'w ChainOfThought \<Rightarrow> 'w ChainOfThought" where
  "WithStepDelimiter delimiter ct = ct\<lparr>cot_stepDelimiter := delimiter\<rparr>"

definition WithMaxSteps :: "int \<Rightarrow> 'w ChainOfThought \<Rightarrow> 'w ChainOfThought" where
  "WithMaxSteps m ct = ct\<lparr>cot_maxSteps := Some m\<rparr>"

definition WithCOTMemory :: "'w artifact_memory \<Rightarrow> 'w ChainOfThought \<Rightarrow> 'w ChainOfThought" where
  "WithCOTMemory mem ct = ct\<lparr>cot_mem := Some mem\<rparr>"

definition WithCOTVerifier ::
    "(string \<Rightarrow> string \<Rightarrow> 'w \<Rightarrow> gval option \<times> 'w) \<Rightarrow> 'w ChainOfThought \<Rightarrow> 'w ChainOfThought" where
  "WithCOTVerifier v ct = ct\<lparr>cot_verifier := Some v\<rparr>"

definition WithCOTSessionID :: "string \<Rightarrow> 'w ChainOfThought \<Rightarrow> 'w ChainOfThought" where
  "WithCOTSessionID i ct = ct\<lparr>cot_sessionID := i\<rparr>"

definition NewChainOfThought :: "'w agent \<Rightarrow> ('w ChainOfThought \<Rightarrow> 'w ChainOfThought) list \<Rightarrow> 'w ChainOfThought" where
  "NewChainOfThought a options =
     fold (\<lambda>option. option) options
       \<lparr>cot_agent = a, cot_promptTemplate = ''Let'' @ [CHR 0x27] @ ''s think step by step:'' @ lf @ ''{query}'',
        cot_parseSteps = True, cot_stepDelimiter = lf, cot_maxSteps = None, cot_mem = None, cot_verifier = None,
        cot_sessionID = []\<rparr>"

text \<open>
  \<open>FindAllStringSubmatch\<close> of \<open>(?m)^<mark>\s*(.+)$\<close>, line by line.  After the mark, white space and
  line breaks are skipped up to the first line with another character, whose rest is the group.
  At the end of the text the match gives back white space: the group is the last blank.
\<close>

fun first_text :: "string list \<Rightarrow> (string \<times> string list) option" where
  "first_text [] = None"
| "first_text (x # xs) =
     (let y = dropWhile re_space x in if y \<noteq> [] then Some (y, xs) else first_text xs)"

definition last_blank :: "string list \<Rightarrow> string list" where
  "last_blank xs = (case rev (filter (\<lambda>x. x \<noteq> []) xs) of [] \<Rightarrow> [] | x # _ \<Rightarrow> [[last x]])"

lemma first_text_shorter: "first_text xs = Some (y, ys) \<Longrightarrow> length ys < length xs"
  by (induction xs) (auto simp: Let_def split: if_splits)

function find_marked :: "(string \<Rightarrow> string option) \<Rightarrow> string list \<Rightarrow> string list" where
  "find_marked mark [] = []"
| "find_marked mark (l # ls) =
     (case mark l of
        None \<Rightarrow> find_marked mark ls
      | Some rest \<Rightarrow>
          (case first_text (rest # ls) of
             Some (step, ls') \<Rightarrow> step # find_marked mark ls'
           | None \<Rightarrow> last_blank (rest # ls)))"
  by pat_completeness auto
termination
  by (relation "measure (\<lambda>(mark, ls). length ls)") (auto split: if_splits dest: first_text_shorter)

text \<open>\<open>strings.Split\<close>.\<close>

function split_on :: "string \<Rightarrow> string \<Rightarrow> string list" where
  "split_on sep [] = [[]]"
| "split_on sep (c # s) =
     (if sep \<noteq> [] \<and> HasPrefix (c # s) sep then [] # split_on sep (drop (length sep) (c # s))
      else case split_on sep s of [] \<Rightarrow> [[c]] | l # ls \<Rightarrow> (c # l) # ls)"
  by pat_completeness auto
termination
  by (relation "measure (\<lambda>(sep, s). length s)") auto

definition strings_Split :: "(string \<Rightarrow> string list) \<Rightarrow> string \<Rightarrow> string \<Rightarrow> string list" where
  "strings_Split explode s sep = (if sep = [] then explode s else split_on sep s)"

text \<open>\<open>strings.ReplaceAll\<close> of a text that is not empty.\<close>

definition ReplaceAll :: "string \<Rightarrow> string \<Rightarrow> string \<Rightarrow> string" where
  "ReplaceAll s old new = strings_Join (split_on old s) new"

definition limitSteps :: "'w ChainOfThought \<Rightarrow> string list \<Rightarrow> string list outcome" where
  "limitSteps ct steps =
     (case cot_maxSteps ct of
        None \<Rightarrow> Ok steps
      | Some m \<Rightarrow>
          if int (length steps) > m then (if m < 0 then Panic ''slice bounds out of range'' else Ok (take (nat m) steps))
          else Ok steps)"

definition extractSteps ::
    "(string \<Rightarrow> string) \<Rightarrow> (string \<Rightarrow> string list) \<Rightarrow> 'w ChainOfThought \<Rightarrow> string \<Rightarrow> string list outcome" where
  "extractSteps trim explode ct text =
     (let numberedMatches = find_marked number_mark (split_char (CHR 0x0A) text) in
      if length numberedMatches \<ge> 2 then limitSteps ct (map trim numberedMatches)
      else
        let bulletMatches = find_marked bullet_mark (split_char (CHR 0x0A) text) in
        if length bulletMatches \<ge> 2 then limitSteps ct (map trim bulletMatches)
        else limitSteps ct (filter (\<lambda>s. s \<noteq> []) (map trim (strings_Split explode text (cot_stepDelimiter ct)))))"

definition cot_verify ::
    "'w ChainOfThought \<Rightarrow> string \<Rightarrow> string \<Rightarrow> (string \<times> gval) list \<Rightarrow> 'w \<Rightarrow> (string \<times> gval) list \<times> 'w" where
  "cot_verify ct query response artifactMeta w =
     (case cot_verifier ct of
        None \<Rightarrow> (artifactMeta, w)
      | Some v \<Rightarrow>
          (case v query response w of
             (Some result, w) \<Rightarrow> (go_set ''verification'' result artifactMeta, w)
           | (None, w) \<Rightarrow> (artifactMeta, w)))"

definition cot_store :: "'w ChainOfThought \<Rightarrow> string \<Rightarrow> reasoningArtifact \<Rightarrow> 'w \<Rightarrow> 'w" where
  "cot_store ct response artifact w =
     (case cot_mem ct of
        None \<Rightarrow> w
      | Some (ReasoningMemory f) \<Rightarrow> f (cot_sessionID ct) artifact w
      | Some (PlainMemory f) \<Rightarrow> f (cot_sessionID ct) response artifact w)"

text \<open>The metadata of the response after the steps are recorded.\<close>

definition cot_steps_meta ::
    "(real \<Rightarrow> string) \<Rightarrow> (string \<Rightarrow> string) \<Rightarrow> (string \<Rightarrow> string list) \<Rightarrow> 'w ChainOfThought \<Rightarrow> message \<Rightarrow> (string \<times> gval) list outcome" where
  "cot_steps_meta ff trim explode ct response =
     (let md = (case msg_metadata response of None \<Rightarrow> [] | Some md \<Rightarrow> md) in
      if cot_parseSteps ct then
        map_outcome (\<lambda>steps. go_set ''num_steps'' (GInt (int (length steps))) (go_set ''reasoning_steps'' (GStrs steps) md))
          (extractSteps trim explode ct (ContentString ff response))
      else Ok md)"

definition cot_Process ::
    "(real \<Rightarrow> string) \<Rightarrow> (string \<Rightarrow> string) \<Rightarrow> (string \<Rightarrow> string list) \<Rightarrow> 'w ChainOfThought \<Rightarrow> go_ctx \<Rightarrow> message \<Rightarrow> 'w \<Rightarrow> reply \<times> 'w" where
  "cot_Process ff trim explode ct ctx message w =
     (if \<not> strings_Contains (cot_promptTemplate ct) ''{query}''
      then (Err (Errorf ''prompt template must contain {query} placeholder'' [] None), w)
      else
        let cotPrompt = ReplaceAll (cot_promptTemplate ct) ''{query}'' (ContentString ff message) in
        case agent_Process (cot_agent ct) ctx
          (Some \<lparr>msg_role = ''user'', msg_content = GStr cotPrompt, msg_metadata = Some [], msg_timestamp = 0\<rparr>) w of
          (Err e, w) \<Rightarrow> (Err (Errorf ''chain of thought processing failed: %w'' [] (Some e)), w)
        | (Panic p, w) \<Rightarrow> (Panic p, w)
        | (Ok None, w) \<Rightarrow> (Panic ''nil pointer dereference'', w)
        | (Ok (Some response), w) \<Rightarrow>
            (case cot_steps_meta ff trim explode ct response of
               Err e \<Rightarrow> (Err e, w)
             | Panic p \<Rightarrow> (Panic p, w)
             | Ok md \<Rightarrow>
                 (let md = go_set ''technique'' (GStr ''chain_of_thought'') md;
                      reply = ContentString ff response;
                      (artifactMeta, w) = cot_verify ct (ContentString ff message) reply
                        [(''prompt_template'', GStr (cot_promptTemplate ct))] w;
                      artifact = newArtifact ''chain_of_thought'' (cot_sessionID ct)
                        [\<lparr>sc_Text = reply, sc_Score = 1\<rparr>] (Some artifactMeta);
                      md = go_set ''reasoning_artifact'' (artifact_value artifact) md
                  in (Ok (Some (response\<lparr>msg_metadata := Some md\<rparr>)), cot_store ct reply artifact w))))"

section \<open>Least to most\<close>

record Subproblem =
  sp_Content :: string
  sp_Difficulty :: int
  sp_Dependencies :: "int list"

record 'w LeastToMost =
  ltm_agent :: "'w agent"
  ltm_decomposer :: "(string \<Rightarrow> ('w, string list) call) option"
  ltm_maxSubproblems :: int
  ltm_composeSolutions :: bool

definition WithLTMDecomposer :: "(string \<Rightarrow> ('w, string list) call) \<Rightarrow> 'w LeastToMost \<Rightarrow> 'w LeastToMost" where
  "WithLTMDecomposer decomposer ltm = ltm\<lparr>ltm_decomposer := Some decomposer\<rparr>"

definition WithLTMMaxSubproblems :: "int \<Rightarrow> 'w LeastToMost \<Rightarrow> 'w LeastToMost" where
  "WithLTMMaxSubproblems m ltm = ltm\<lparr>ltm_maxSubproblems := m\<rparr>"

definition WithComposeSolutions :: "bool \<Rightarrow> 'w LeastToMost \<Rightarrow> 'w LeastToMost" where
  "WithComposeSolutions compose ltm = ltm\<lparr>ltm_composeSolutions := compose\<rparr>"

definition NewLeastToMost :: "'w agent \<Rightarrow> ('w LeastToMost \<Rightarrow> 'w LeastToMost) list \<Rightarrow> 'w LeastToMost" where
  "NewLeastToMost a options =
     fold (\<lambda>option. option) options
       \<lparr>ltm_agent = a, ltm_decomposer = None, ltm_maxSubproblems = 5, ltm_composeSolutions = True\<rparr>"

fun custom_subproblems :: "int \<Rightarrow> int \<Rightarrow> string list \<Rightarrow> Subproblem list" where
  "custom_subproblems m i [] = []"
| "custom_subproblems m i (text # texts) =
     (if i \<ge> m then []
      else \<lparr>sp_Content = text, sp_Difficulty = i, sp_Dependencies = []\<rparr> # custom_subproblems m (i + 1) texts)"

fun numbered_subproblems :: "(string \<Rightarrow> string) \<Rightarrow> int \<Rightarrow> int \<Rightarrow> string list \<Rightarrow> Subproblem list \<Rightarrow> Subproblem list" where
  "numbered_subproblems trim m i [] subproblems = subproblems"
| "numbered_subproblems trim m i (l # ls) subproblems =
     (let line = trim l in
      if line = [] then numbered_subproblems trim m (i + 1) ls subproblems
      else if number_mark line = None then numbered_subproblems trim m (i + 1) ls subproblems
      else
        let cleaned = strip_numbering line in
        if cleaned \<noteq> [] \<and> int (length subproblems) < m
        then numbered_subproblems trim m (i + 1) ls
          (subproblems @ [\<lparr>sp_Content = cleaned, sp_Difficulty = i, sp_Dependencies = []\<rparr>])
        else numbered_subproblems trim m (i + 1) ls subproblems)"

definition parseSubproblems :: "(string \<Rightarrow> string) \<Rightarrow> 'w LeastToMost \<Rightarrow> string \<Rightarrow> string \<Rightarrow> Subproblem list" where
  "parseSubproblems trim ltm responseText originalProblem =
     (let subproblems = numbered_subproblems trim (ltm_maxSubproblems ltm) 0 (split_char (CHR 0x0A) (trim responseText)) [] in
      if subproblems = [] then [\<lparr>sp_Content = originalProblem, sp_Difficulty = 0, sp_Dependencies = []\<rparr>]
      else subproblems)"

text \<open>A call of the wrapped agent with a prompt; \<open>wrap\<close> is what becomes of its error.\<close>

definition ask ::
    "(real \<Rightarrow> string) \<Rightarrow> 'w agent \<Rightarrow> go_ctx \<Rightarrow> (string \<times> gval) list option \<Rightarrow> (go_error \<Rightarrow> go_error) \<Rightarrow> string \<Rightarrow> ('w, string) call" where
  "ask ff a ctx md wrap prompt w =
     (case agent_Process a ctx
        (Some \<lparr>msg_role = ''user'', msg_content = GStr prompt, msg_metadata = md, msg_timestamp = 0\<rparr>) w of
        (Ok (Some response), w) \<Rightarrow> (Ok (ContentString ff response), w)
      | (Ok None, w) \<Rightarrow> (Panic ''nil pointer dereference'', w)
      | (Err e, w) \<Rightarrow> (Err (wrap e), w)
      | (Panic p, w) \<Rightarrow> (Panic p, w))"

definition decomposition_prompt :: "string \<Rightarrow> string" where
  "decomposition_prompt problem =
     ''Break down this problem into simpler subproblems, ordered from easiest to hardest.'' @ lf @
     ''List each subproblem on a separate line, numbered 1, 2, 3, etc.'' @ lf @ lf @
     ''Problem: '' @ problem @ lf @ lf @ ''Subproblems (from simplest to most complex):''"

definition decompose ::
    "(real \<Rightarrow> string) \<Rightarrow> (string \<Rightarrow> string) \<Rightarrow> 'w LeastToMost \<Rightarrow> go_ctx \<Rightarrow> string \<Rightarrow> ('w, Subproblem list) call" where
  "decompose ff trim ltm ctx problem w =
     (case ltm_decomposer ltm of
        Some d \<Rightarrow>
          (case d problem w of
             (Ok texts, w) \<Rightarrow> (Ok (custom_subproblems (ltm_maxSubproblems ltm) 0 texts), w)
           | (Err e, w) \<Rightarrow> (Err (Errorf ''custom decomposer failed: %w'' [] (Some e)), w)
           | (Panic p, w) \<Rightarrow> (Panic p, w))
      | None \<Rightarrow>
          (case ask ff (ltm_agent ltm) ctx (Some []) (\<lambda>e. Errorf ''decomposition failed: %w'' [] (Some e)) (decomposition_prompt problem) w of
             (Ok response, w) \<Rightarrow> (Ok (parseSubproblems trim ltm response problem), w)
           | (Err e, w) \<Rightarrow> (Err e, w)
           | (Panic p, w) \<Rightarrow> (Panic p, w)))"

definition numbered_context :: "string \<Rightarrow> string \<Rightarrow> string list \<Rightarrow> string" where
  "numbered_context before between texts =
     strings_Join (map (\<lambda>(i, t). before @ show_int (int i + 1) @ between @ t) (List.enumerate 0 texts)) lf"

definition subproblem_prompt :: "bool \<Rightarrow> string \<Rightarrow> string list \<Rightarrow> string" where
  "subproblem_prompt compose content previousSolutions =
     (if compose \<and> previousSolutions \<noteq> [] then
        ''Given these previous solutions to simpler subproblems:'' @ lf @ lf @
        numbered_context ''Previous solution '' '': '' previousSolutions @ lf @ lf @
        ''Now solve this subproblem:'' @ lf @ content @ lf @ lf @ ''Solution:''
      else ''Solve this subproblem:'' @ lf @ lf @ content @ lf @ lf @ ''Solution:'')"

definition solveSubproblem ::
    "(real \<Rightarrow> string) \<Rightarrow> (string \<Rightarrow> string) \<Rightarrow> 'w LeastToMost \<Rightarrow> go_ctx \<Rightarrow> Subproblem \<Rightarrow> string list \<Rightarrow> ('w, string) call" where
  "solveSubproblem ff trim ltm ctx subproblem previousSolutions w =
     (case ask ff (ltm_agent ltm) ctx (Some []) (\<lambda>e. Errorf ''subproblem solving failed: %w'' [] (Some e))
        (subproblem_prompt (ltm_composeSolutions ltm) (sp_Content subproblem) previousSolutions) w of
        (Ok response, w) \<Rightarrow> (Ok (trim response), w)
      | (Err e, w) \<Rightarrow> (Err e, w)
      | (Panic p, w) \<Rightarrow> (Panic p, w))"

fun solve_all ::
    "(real \<Rightarrow> string) \<Rightarrow> (string \<Rightarrow> string) \<Rightarrow> 'w LeastToMost \<Rightarrow> go_ctx \<Rightarrow> Subproblem list \<Rightarrow> string list \<Rightarrow> ('w, string list) call" where
  "solve_all ff trim ltm ctx [] solutions w = (Ok solutions, w)"
| "solve_all ff trim ltm ctx (subproblem # sps) solutions w =
     (case solveSubproblem ff trim ltm ctx subproblem solutions w of
        (Ok solution, w) \<Rightarrow> solve_all ff trim ltm ctx sps (solutions @ [solution]) w
      | (Err e, w) \<Rightarrow> (Err (Errorf ''subproblem solving failed: %w'' [] (Some e)), w)
      | (Panic p, w) \<Rightarrow> (Panic p, w))"

definition final_of :: "string list \<Rightarrow> string" where
  "final_of solutions = (if solutions \<noteq> [] then last solutions else [])"

definition ltm_Process ::
    "(real \<Rightarrow> string) \<Rightarrow> 'w clock \<Rightarrow> (string \<Rightarrow> string) \<Rightarrow> 'w LeastToMost \<Rightarrow> go_ctx \<Rightarrow> message \<Rightarrow> 'w \<Rightarrow> reply \<times> 'w" where
  "ltm_Process ff now trim ltm ctx message w =
     (case decompose ff trim ltm ctx (ContentString ff message) w of
        (Err e, w) \<Rightarrow> (Err (Errorf ''least to most decomposition failed: %w'' [] (Some e)), w)
      | (Panic p, w) \<Rightarrow> (Panic p, w)
      | (Ok subproblems, w) \<Rightarrow>
          (case solve_all ff trim ltm ctx subproblems [] w of
             (Err e, w) \<Rightarrow> (Err e, w)
           | (Panic p, w) \<Rightarrow> (Panic p, w)
           | (Ok solutions, w) \<Rightarrow>
               (let (t, w) = now w in
                (Ok (Some ((NewMessage t ''assistant'' (final_of solutions))\<lparr>msg_metadata := Some
                   [(''technique'', GStr ''least_to_most''), (''num_subproblems'', GInt (int (length subproblems))),
                    (''subproblems'', GStrs (map sp_Content subproblems)), (''subproblem_solutions'', GStrs solutions),
                    (''compose_solutions'', GBool (ltm_composeSolutions ltm))]\<rparr>)), w))))"

section \<open>Plan and solve\<close>

record PSStep =
  pst_Description :: string
  pst_Order :: int
  pst_Dependencies :: "int list"
  pst_EstimatedComplexity :: int
  pst_Result :: string
  pst_Executed :: bool

record PSPlan =
  psp_Steps :: "PSStep list"
  psp_Problem :: string
  psp_Strategy :: string
  psp_Validated :: bool
  psp_ValidationNotes :: string

text \<open>A planner may return a nil plan.\<close>

record 'w PlanAndSolveAgent =
  psa_agent :: "'w agent"
  psa_planner :: "(go_ctx \<Rightarrow> string \<Rightarrow> ('w, PSPlan option) call) option"
  psa_solver :: "(go_ctx \<Rightarrow> PSStep \<Rightarrow> string list \<Rightarrow> ('w, string) call) option"
  psa_validatePlan :: bool
  psa_allowReplanning :: bool

record 'w PlanAndSolveConfig =
  psc_Planner :: "(go_ctx \<Rightarrow> string \<Rightarrow> ('w, PSPlan option) call) option"
  psc_Solver :: "(go_ctx \<Rightarrow> PSStep \<Rightarrow> string list \<Rightarrow> ('w, string) call) option"
  psc_ValidatePlan :: bool
  psc_AllowReplanning :: bool

definition NewPlanAndSolveAgent :: "'w agent \<Rightarrow> 'w PlanAndSolveConfig \<Rightarrow> 'w PlanAndSolveAgent" where
  "NewPlanAndSolveAgent a config =
     \<lparr>psa_agent = a, psa_planner = psc_Planner config, psa_solver = psc_Solver config,
      psa_validatePlan = psc_ValidatePlan config, psa_allowReplanning = psc_AllowReplanning config\<rparr>"

definition ps_llmCall :: "(real \<Rightarrow> string) \<Rightarrow> 'w PlanAndSolveAgent \<Rightarrow> go_ctx \<Rightarrow> string \<Rightarrow> ('w, string) call" where
  "ps_llmCall ff a ctx prompt = ask ff (psa_agent a) ctx None (\<lambda>e. e) prompt"

fun plan_lines :: "(string \<Rightarrow> string) \<Rightarrow> int \<Rightarrow> string list \<Rightarrow> PSStep list" where
  "plan_lines trim i [] = []"
| "plan_lines trim i (l # ls) =
     (let line = trim l; cleaned = strip_numbering line in
      if line = [] then plan_lines trim (i + 1) ls
      else if cleaned \<noteq> [] then
        \<lparr>pst_Description = cleaned, pst_Order = i, pst_Dependencies = [], pst_EstimatedComplexity = 1, pst_Result = [],
         pst_Executed = False\<rparr> # plan_lines trim (i + 1) ls
      else plan_lines trim (i + 1) ls)"

definition ps_CreatePlan ::
    "(real \<Rightarrow> string) \<Rightarrow> (string \<Rightarrow> string) \<Rightarrow> 'w PlanAndSolveAgent \<Rightarrow> go_ctx \<Rightarrow> string \<Rightarrow> ('w, PSPlan option) call" where
  "ps_CreatePlan ff trim a ctx problem w =
     (case psa_planner a of
        Some planner \<Rightarrow> planner ctx problem w
      | None \<Rightarrow>
          (let prompt = ''Create a detailed step-by-step plan to solve this problem.'' @ lf @
             ''List each step on a separate line, numbered 1, 2, 3, etc.'' @ lf @
             ''Focus on WHAT needs to be done, not HOW to do it yet.'' @ lf @ lf @
             ''Problem: '' @ problem @ lf @ lf @ ''Solution Plan:'' in
           case ps_llmCall ff a ctx prompt w of
             (Err e, w) \<Rightarrow> (Err e, w)
           | (Panic p, w) \<Rightarrow> (Panic p, w)
           | (Ok response, w) \<Rightarrow>
               (Ok (Some \<lparr>psp_Steps = plan_lines trim 0 (split_char (CHR 0x0A) (trim response)), psp_Problem = problem,
                  psp_Strategy = [], psp_Validated = False, psp_ValidationNotes = []\<rparr>), w)))"

text \<open>The marks are a circle and a check mark, three bytes each.\<close>

definition formatPlan :: "PSPlan \<Rightarrow> string" where
  "formatPlan plan =
     strings_Join (map (\<lambda>(i, step). show_int (int i + 1) @ ''. ['' @
        (if pst_Executed step then [CHR 0xE2, CHR 0x9C, CHR 0x93] else [CHR 0xE2, CHR 0x97, CHR 0x8B]) @ ''] '' @
        pst_Description step) (List.enumerate 0 (psp_Steps plan))) lf"

definition validation_prompt :: "PSPlan \<Rightarrow> string" where
  "validation_prompt plan =
     ''Review this solution plan for completeness and feasibility.'' @ lf @
     ''Is this plan sufficient to solve the problem? Are there any missing steps or issues?'' @ lf @ lf @
     ''Problem: '' @ psp_Problem plan @ lf @ lf @ ''Plan:'' @ lf @ formatPlan plan @ lf @ lf @
     ''Validation (answer '' @ [CHR 0x22] @ ''VALID'' @ [CHR 0x22] @ '' or describe issues):''"

definition ps_Validate ::
    "(real \<Rightarrow> string) \<Rightarrow> (string \<Rightarrow> string) \<Rightarrow> (string \<Rightarrow> string) \<Rightarrow> 'w PlanAndSolveAgent \<Rightarrow> go_ctx \<Rightarrow> PSPlan option \<Rightarrow> ('w, PSPlan) call" where
  "ps_Validate ff trim upper a ctx p w =
     (case p of
        None \<Rightarrow> (Panic ''nil pointer dereference'', w)
      | Some plan \<Rightarrow>
          (case ps_llmCall ff a ctx (validation_prompt plan) w of
             (Err e, w) \<Rightarrow> (Err e, w)
           | (Panic p, w) \<Rightarrow> (Panic p, w)
           | (Ok response, w) \<Rightarrow>
               (let responseUpper = upper response;
                    isValid = strings_Contains responseUpper ''VALID'' \<or> strings_Contains responseUpper ''YES''
                in (Ok (plan\<lparr>psp_Validated := isValid, psp_ValidationNotes := trim response\<rparr>), w))))"

definition step_prompt :: "string \<Rightarrow> string list \<Rightarrow> string" where
  "step_prompt description previousResults =
     (if previousResults \<noteq> [] then
        ''Execute this step of the plan, using previous results as context.'' @ lf @ lf @ ''Previous Results:'' @ lf @
        numbered_context ''Previous step '' '' result: '' previousResults @ lf @ lf @
        ''Current Step: '' @ description @ lf @ lf @ ''Execution Result:''
      else ''Execute this step of the plan:'' @ lf @ lf @ ''Step: '' @ description @ lf @ lf @ ''Execution Result:'')"

definition ExecuteStep ::
    "(real \<Rightarrow> string) \<Rightarrow> (string \<Rightarrow> string) \<Rightarrow> 'w PlanAndSolveAgent \<Rightarrow> go_ctx \<Rightarrow> PSStep \<Rightarrow> string list \<Rightarrow> ('w, string) call" where
  "ExecuteStep ff trim a ctx step previousResults w =
     (case psa_solver a of
        Some solver \<Rightarrow> solver ctx step previousResults w
      | None \<Rightarrow>
          (case ps_llmCall ff a ctx (step_prompt (pst_Description step) previousResults) w of
             (Ok result, w) \<Rightarrow> (Ok (trim result), w)
           | (Err e, w) \<Rightarrow> (Err e, w)
           | (Panic p, w) \<Rightarrow> (Panic p, w)))"

text \<open>The steps done so far come back with their results, also when a step fails.\<close>

fun execute_steps ::
    "(real \<Rightarrow> string) \<Rightarrow> (string \<Rightarrow> string) \<Rightarrow> 'w PlanAndSolveAgent \<Rightarrow> go_ctx \<Rightarrow> PSStep list \<Rightarrow> string list \<Rightarrow> 'w \<Rightarrow>
     string list outcome \<times> PSStep list \<times> 'w" where
  "execute_steps ff trim a ctx [] results w = (Ok results, [], w)"
| "execute_steps ff trim a ctx (step # steps) results w =
     (case ExecuteStep ff trim a ctx step results w of
        (Ok result, w) \<Rightarrow>
          (case execute_steps ff trim a ctx steps (results @ [result]) w of
             (r, steps, w) \<Rightarrow> (r, step\<lparr>pst_Result := result, pst_Executed := True\<rparr> # steps, w))
      | (Err e, w) \<Rightarrow> (Err e, step # steps, w)
      | (Panic p, w) \<Rightarrow> (Panic p, step # steps, w))"

definition ExecutePlan ::
    "(real \<Rightarrow> string) \<Rightarrow> (string \<Rightarrow> string) \<Rightarrow> 'w PlanAndSolveAgent \<Rightarrow> go_ctx \<Rightarrow> PSPlan \<Rightarrow> 'w \<Rightarrow> string list outcome \<times> PSPlan \<times> 'w" where
  "ExecutePlan ff trim a ctx plan w =
     (case execute_steps ff trim a ctx (psp_Steps plan) [] w of
        (r, steps, w) \<Rightarrow> (r, plan\<lparr>psp_Steps := steps\<rparr>, w))"

definition improved_prompt :: "string \<Rightarrow> string \<Rightarrow> string" where
  "improved_prompt problem notes =
     ''The previous plan had issues. Create an improved plan.'' @ lf @ lf @ ''Problem: '' @ problem @ lf @ lf @
     ''Previous Plan Issues:'' @ lf @ notes @ lf @ lf @ ''Improved Plan:''"

text \<open>The plan that is executed: validated and once made anew, as the configuration says.\<close>

definition ps_plan ::
    "(real \<Rightarrow> string) \<Rightarrow> (string \<Rightarrow> string) \<Rightarrow> (string \<Rightarrow> string) \<Rightarrow> 'w PlanAndSolveAgent \<Rightarrow> go_ctx \<Rightarrow> string \<Rightarrow> ('w, PSPlan option) call" where
  "ps_plan ff trim upper a ctx problem w =
     (case ps_CreatePlan ff trim a ctx problem w of
        (Err e, w) \<Rightarrow> (Err e, w)
      | (Panic p, w) \<Rightarrow> (Panic p, w)
      | (Ok plan, w) \<Rightarrow>
          if \<not> psa_validatePlan a then (Ok plan, w)
          else
            (case ps_Validate ff trim upper a ctx plan w of
               (Err e, w) \<Rightarrow> (Err e, w)
             | (Panic p, w) \<Rightarrow> (Panic p, w)
             | (Ok plan, w) \<Rightarrow>
                 if \<not> psp_Validated plan \<and> psa_allowReplanning a then
                   (case ps_llmCall ff a ctx (improved_prompt problem (psp_ValidationNotes plan)) w of
                      (Panic p, w) \<Rightarrow> (Panic p, w)
                    | (_, w) \<Rightarrow>
                        (case ps_CreatePlan ff trim a ctx problem w of
                           (Err e, w) \<Rightarrow> (Err e, w)
                         | (Panic p, w) \<Rightarrow> (Panic p, w)
                         | (Ok plan, w) \<Rightarrow>
                             (case ps_Validate ff trim upper a ctx plan w of
                                (Err e, w) \<Rightarrow> (Err e, w)
                              | (Panic p, w) \<Rightarrow> (Panic p, w)
                              | (Ok plan, w) \<Rightarrow> (Ok (Some plan), w))))
                 else (Ok (Some plan), w)))"

definition ps_Process ::
    "(real \<Rightarrow> string) \<Rightarrow> (string \<Rightarrow> string) \<Rightarrow> (string \<Rightarrow> string) \<Rightarrow> 'w PlanAndSolveAgent \<Rightarrow> go_ctx \<Rightarrow> message \<Rightarrow> 'w \<Rightarrow> reply \<times> 'w" where
  "ps_Process ff trim upper a ctx message w =
     (case ps_plan ff trim upper a ctx (ContentString ff message) w of
        (Err e, w) \<Rightarrow> (Err e, w)
      | (Panic p, w) \<Rightarrow> (Panic p, w)
      | (Ok None, w) \<Rightarrow> (Panic ''nil pointer dereference'', w)
      | (Ok (Some plan), w) \<Rightarrow>
          (case ExecutePlan ff trim a ctx plan w of
             (Err e, plan, w) \<Rightarrow> (Err e, w)
           | (Panic p, plan, w) \<Rightarrow> (Panic p, w)
           | (Ok executionResults, plan, w) \<Rightarrow>
               (Ok (Some (assistant_message (final_of executionResults)
                  [(''technique'', GStr ''plan_and_solve''), (''plan_steps'', GStrs (map pst_Description (psp_Steps plan))),
                   (''execution_steps'', GStrs executionResults), (''num_steps'', GInt (int (length (psp_Steps plan)))),
                   (''validated'', GBool (psp_Validated plan)), (''validation_notes'', GStr (psp_ValidationNotes plan)),
                   (''allow_replanning'', GBool (psa_allowReplanning a))])), w)))"

section \<open>Reading numbered lines\<close>

definition numbered_lines :: "nat \<Rightarrow> string list \<Rightarrow> string list" where
  "numbered_lines k steps = map (\<lambda>(i, s). show_int (int i + 1) @ ''. '' @ s) (List.enumerate k steps)"

text \<open>A step that survives: it starts with a visible character and has no line break.\<close>

definition plain_step :: "string \<Rightarrow> bool" where
  "plain_step s \<longleftrightarrow> s \<noteq> [] \<and> \<not> re_space (hd s) \<and> CHR 0x0A \<notin> set s"

lemma number_mark_number: "number_mark (show_int (int i + 1) @ ''. '' @ s) = Some (CHR '' '' # s)"
proof -
  let ?ds = "show_int (int i + 1)"
  have ds: "\<forall>c \<in> set ?ds. is_digit c" "?ds \<noteq> []"
    using show_digits_spec [of "nat (int i + 1)"] by (auto simp: show_int_def list_all_iff)
  have "\<not> is_digit (CHR ''.'')" by (simp add: is_digit_def less_eq_char_def)
  then have "dropWhile is_digit (?ds @ ''. '' @ s) = ''. '' @ s" "takeWhile is_digit (?ds @ ''. '' @ s) = ?ds"
    using ds(1) by (simp_all add: dropWhile_append2 takeWhile_append2)
  then show ?thesis using ds(2) by (simp add: number_mark_def)
qed

lemma plain_step_drop: "plain_step s \<Longrightarrow> dropWhile re_space (CHR '' '' # s) = s"
  by (cases s) (auto simp: plain_step_def re_space_def)

lemma strip_numbering_number: "plain_step s \<Longrightarrow> strip_numbering (show_int (int i + 1) @ ''. '' @ s) = s"
  using plain_step_drop [of s] by (simp only: strip_numbering_def number_mark_number option.case)

lemma numbered_lines_Cons: "numbered_lines k (s # ss) = (show_int (int k + 1) @ ''. '' @ s) # numbered_lines (Suc k) ss"
  by (simp add: numbered_lines_def)

lemma find_marked_numbered:
  "\<forall>s \<in> set steps. plain_step s \<Longrightarrow> find_marked number_mark (numbered_lines k steps) = steps"
proof (induction steps arbitrary: k)
  case (Cons s ss)
  then have s: "plain_step s" by simp
  then have "first_text ((CHR '' '' # s) # xs) = Some (s, xs)" for xs
    using plain_step_drop [OF s] by (simp only: first_text.simps Let_def) (simp add: plain_step_def)
  then have "find_marked number_mark ((show_int (int k + 1) @ ''. '' @ s) # xs) = s # find_marked number_mark xs" for xs
    by (simp only: find_marked.simps number_mark_number option.case prod.case)
  then show ?case using Cons by (simp only: numbered_lines_Cons list.set_intros) simp
qed (simp add: numbered_lines_def)

lemma numbered_lines_no_break:
  assumes "\<forall>s \<in> set steps. plain_step s"
  shows "\<forall>l \<in> set (numbered_lines k steps). CHR 0x0A \<notin> set l"
proof -
  have "CHR 0x0A \<notin> set (show_int (int i + 1))" for i
    using show_digits_no_char [of "CHR 0x0A" "nat (int i + 1)"] by (auto simp: show_int_def is_digit_def less_eq_char_def)
  then show ?thesis using assms by (auto simp: numbered_lines_def plain_step_def in_set_enumerate_eq)
qed

lemma split_numbered:
  "steps \<noteq> [] \<Longrightarrow> \<forall>s \<in> set steps. plain_step s \<Longrightarrow>
     split_char (CHR 0x0A) (strings_Join (numbered_lines k steps) lf) = numbered_lines k steps"
  by (rule split_join) (use numbered_lines_no_break [of steps k] in \<open>cases steps, auto simp: numbered_lines_Cons\<close>)

text \<open>
  Steps written one to a line and numbered from one are read back in order: by the parser of
  chain of thought (two or more steps), and by the one of least to most, up to its limit.
\<close>

lemma chain_steps_roundtrip:
  assumes "2 \<le> length steps" and "\<forall>s \<in> set steps. plain_step s \<and> trim s = s" and "cot_maxSteps ct = None"
  shows "extractSteps trim explode ct (strings_Join (numbered_lines 0 steps) lf) = Ok steps"
proof -
  have ne: "steps \<noteq> []" and plain: "\<forall>s \<in> set steps. plain_step s" using assms(1,2) by auto
  have "map trim steps = steps" using assms(2) by (simp add: map_idI)
  then show ?thesis
    using assms(1,3) split_numbered [OF ne plain, of 0] find_marked_numbered [OF plain, of 0]
    by (simp add: extractSteps_def limitSteps_def)
qed

lemma numbered_subproblems_numbered:
  assumes "\<forall>s \<in> set steps. plain_step s" and "\<forall>l \<in> set (numbered_lines k steps). trim l = l"
  shows "map sp_Content (numbered_subproblems trim m i (numbered_lines k steps) sps) =
    map sp_Content sps @ take (nat (m - int (length sps))) steps"
  using assms
proof (induction steps arbitrary: k i sps)
  case (Cons s ss)
  let ?l = "show_int (int k + 1) @ ''. '' @ s"
  have l: "trim ?l = ?l" "plain_step s" using Cons.prems by (auto simp: numbered_lines_Cons)
  have strip: "strip_numbering ?l = s" "number_mark ?l \<noteq> None" "?l \<noteq> []" "s \<noteq> []"
    using strip_numbering_number [OF l(2)] number_mark_number l(2) by (auto simp: plain_step_def)
  have step: "numbered_subproblems trim m i (?l # xs) sps =
      (if int (length sps) < m
       then numbered_subproblems trim m (i + 1) xs (sps @ [\<lparr>sp_Content = s, sp_Difficulty = i, sp_Dependencies = []\<rparr>])
       else numbered_subproblems trim m (i + 1) xs sps)" for xs
    using strip l(1) by (simp only: numbered_subproblems.simps Let_def if_False simp_thms)
  show ?case
  proof (cases "int (length sps) < m")
    case True
    then have "nat (m - int (length sps)) = Suc (nat (m - int (Suc (length sps))))" by simp
    then show ?thesis using True step Cons by (simp add: numbered_lines_Cons)
  next
    case False
    then show ?thesis using step Cons.IH [of "Suc k" "i + 1" sps] Cons.prems by (simp add: numbered_lines_Cons)
  qed
qed (simp add: numbered_lines_def)

lemma subproblems_roundtrip:
  assumes "steps \<noteq> []" and "0 < ltm_maxSubproblems ltm" and "\<forall>s \<in> set steps. plain_step s"
    and "\<forall>l \<in> set (numbered_lines 0 steps). trim l = l"
    and "trim (strings_Join (numbered_lines 0 steps) lf) = strings_Join (numbered_lines 0 steps) lf"
  shows "map sp_Content (parseSubproblems trim ltm (strings_Join (numbered_lines 0 steps) lf) problem) =
    take (nat (ltm_maxSubproblems ltm)) steps"
proof -
  let ?sps = "numbered_subproblems trim (ltm_maxSubproblems ltm) 0 (numbered_lines 0 steps) []"
  have c: "map sp_Content ?sps = take (nat (ltm_maxSubproblems ltm)) steps"
    using numbered_subproblems_numbered [OF assms(3,4), of "ltm_maxSubproblems ltm" 0 "[]"] by simp
  moreover have "take (nat (ltm_maxSubproblems ltm)) steps \<noteq> []" using assms(1,2) by simp
  ultimately have "?sps \<noteq> []" by (metis list.simps(8))
  then show ?thesis using c assms(5) split_numbered [OF assms(1,3), of 0] by (simp add: parseSubproblems_def)
qed

section \<open>Working through the steps\<close>

text \<open>
  Every step is worked on once, in order, in the world that its predecessor left and with the
  results of all its predecessors.
\<close>

definition threaded :: "('s \<Rightarrow> string list \<Rightarrow> ('w, string) call) \<Rightarrow> 's list \<Rightarrow> string list \<Rightarrow> 'w list \<Rightarrow> bool" where
  "threaded solve steps rs ws \<longleftrightarrow> length rs = length steps \<and> length ws = Suc (length steps) \<and>
     (\<forall>i < length steps. solve (steps ! i) (take i rs) (ws ! i) = (Ok (rs ! i), ws ! Suc i))"

lemma threaded_Nil [simp]: "threaded solve [] rs ws \<longleftrightarrow> rs = [] \<and> (\<exists>w. ws = [w])"
  by (auto simp: threaded_def length_Suc_conv)

lemma threaded_Cons:
  assumes "threaded (\<lambda>s prev. solve s (r # prev)) steps rs ws" and "solve s [] w = (Ok r, ws ! 0)"
  shows "threaded solve (s # steps) (r # rs) (w # ws)"
  using assms unfolding threaded_def by (auto simp: less_Suc_eq_0_disj nth_Cons split: nat.splits)

text \<open>A loop that hands every step the results so far and stops at the first failure.\<close>

locale solver_loop =
  fixes solve :: "'s \<Rightarrow> string list \<Rightarrow> 'w \<Rightarrow> string outcome \<times> 'w"
    and loop :: "'s list \<Rightarrow> string list \<Rightarrow> 'w \<Rightarrow> string list outcome \<times> 'w"
  assumes loop_end: "loop [] prev w = (Ok prev, w)"
    and loop_step: "solve s prev w = (Ok r, w') \<Longrightarrow> loop (s # steps) prev w = loop steps (prev @ [r]) w'"
    and loop_fails: "solve s prev w = (x, w') \<Longrightarrow> \<nexists>r. x = Ok r \<Longrightarrow> \<nexists>rs. fst (loop (s # steps) prev w) = Ok rs"
begin

lemma loop_threads:
  assumes "loop steps prev w = (Ok rs, w')"
  shows "\<exists>new ws. rs = prev @ new \<and> threaded (\<lambda>s p. solve s (prev @ p)) steps new ws \<and> hd ws = w \<and> last ws = w'"
  using assms
proof (induction steps arbitrary: prev w)
  case Nil
  then have "rs = prev @ []" "threaded (\<lambda>s p. solve s (prev @ p)) [] [] [w]" "hd [w] = w" "last [w] = w'"
    by (simp_all add: loop_end)
  then show ?case by blast
next
  case (Cons s steps)
  obtain x w1 where x: "solve s prev w = (x, w1)" by (metis prod.exhaust)
  obtain r where r: "x = Ok r" using loop_fails [OF x, of steps] Cons.prems by auto
  from Cons.IH [of "prev @ [r]" w1] Cons.prems loop_step [of s prev w r w1 steps] x r obtain new ws where
    IH: "rs = (prev @ [r]) @ new" "threaded (\<lambda>s p. solve s ((prev @ [r]) @ p)) steps new ws" "hd ws = w1" "last ws = w'"
    by auto
  have ne: "ws \<noteq> []" using IH(2) by (auto simp: threaded_def)
  have "threaded (\<lambda>s p. solve s (prev @ p)) (s # steps) (r # new) (w # ws)"
    by (rule threaded_Cons) (use IH x r ne in \<open>simp_all add: hd_conv_nth\<close>)
  moreover have "rs = prev @ (r # new)" "hd (w # ws) = w" "last (w # ws) = w'" using IH ne by simp_all
  ultimately show ?case by blast
qed

end

interpretation ltm: solver_loop "solveSubproblem ff trim ltm ctx" "solve_all ff trim ltm ctx" for ff trim ltm ctx
proof unfold_locales
  fix s prev w x w' steps
  assume "solveSubproblem ff trim ltm ctx s prev w = (x, w')" "\<nexists>r. x = Ok r"
  then show "\<nexists>rs. fst (solve_all ff trim ltm ctx (s # steps) prev w) = Ok rs" by (cases x) auto
qed simp_all

definition execute_results where
  "execute_results ff trim a ctx steps results w =
     (case execute_steps ff trim a ctx steps results w of (r, _, w) \<Rightarrow> (r, w))"

interpretation psa: solver_loop "ExecuteStep ff trim a ctx" "execute_results ff trim a ctx" for ff trim a ctx
proof unfold_locales
  fix s prev w x w' steps
  assume "ExecuteStep ff trim a ctx s prev w = (x, w')" "\<nexists>r. x = Ok r"
  then show "\<nexists>rs. fst (execute_results ff trim a ctx (s # steps) prev w) = Ok rs"
    by (cases x) (auto simp: execute_results_def)
qed (simp_all add: execute_results_def split: prod.splits)

lemma custom_subproblems_length: "length (custom_subproblems m i texts) \<le> nat (m - i)"
  by (induction m i texts rule: custom_subproblems.induct) auto

lemma numbered_subproblems_length:
  "int (length sps) \<le> max 0 m \<Longrightarrow> int (length (numbered_subproblems trim m i ls sps)) \<le> max 0 m"
  by (induction trim m i ls sps rule: numbered_subproblems.induct) (auto simp: Let_def)

lemma decompose_length:
  assumes "decompose ff trim ltm ctx problem w = (Ok sps, w')"
  shows "int (length sps) \<le> max 1 (ltm_maxSubproblems ltm)"
proof (cases "ltm_decomposer ltm")
  case None
  then obtain response where "sps = parseSubproblems trim ltm response problem"
    using assms by (auto simp: decompose_def split: prod.splits outcome.splits)
  then show ?thesis using numbered_subproblems_length [of "[]" "ltm_maxSubproblems ltm" trim 0]
    by (auto simp: parseSubproblems_def Let_def le_max_iff_disj)
next
  case (Some d)
  then obtain texts where "sps = custom_subproblems (ltm_maxSubproblems ltm) 0 texts"
    using assms by (auto simp: decompose_def split: prod.splits outcome.splits)
  then show ?thesis using custom_subproblems_length [of "ltm_maxSubproblems ltm" 0 texts] by auto
qed

text \<open>
  A line of a numbered list and the item on it: digits, a dot or a parenthesis, white space, and
  the item, which starts with another character.
\<close>

definition numbered_item :: "string \<Rightarrow> string \<Rightarrow> bool" where
  "numbered_item line item \<longleftrightarrow> (\<exists>ds c sp. line = ds @ c # sp @ item \<and> ds \<noteq> [] \<and> list_all is_digit ds \<and>
     c \<in> {CHR ''.'', CHR '')''} \<and> list_all re_space sp \<and> item \<noteq> [] \<and> \<not> re_space (hd item))"

text \<open>The items of the numbered lines of a text, in the order of the lines.\<close>

definition lists_items :: "(string \<Rightarrow> string) \<Rightarrow> string \<Rightarrow> string list \<Rightarrow> bool" where
  "lists_items trim s items \<longleftrightarrow>
     list_all2 numbered_item (filter (\<lambda>l. \<exists>t. numbered_item l t) (map trim (split_char (CHR 0x0A) (trim s)))) items"

lemma numbered_item_iff:
  "numbered_item line item \<longleftrightarrow> number_mark line \<noteq> None \<and> item = strip_numbering line \<and> item \<noteq> []"
proof
  assume "numbered_item line item"
  then obtain ds c sp where l: "line = ds @ c # sp @ item" "ds \<noteq> []" "list_all is_digit ds"
      "c \<in> {CHR ''.'', CHR '')''}" "list_all re_space sp" "item \<noteq> []" "\<not> re_space (hd item)"
    unfolding numbered_item_def by blast
  have c: "\<not> is_digit c" "c \<in> set ''.)''" using l(4) by (auto simp: is_digit_def)
  have tw: "takeWhile is_digit line = ds" "dropWhile is_digit line = c # sp @ item"
    using l(1,3) c(1) by (auto simp: list_all_iff takeWhile_append2 dropWhile_append2)
  have "dropWhile re_space (sp @ item) = item"
    using l(5-7) by (cases item) (auto simp: list_all_iff dropWhile_append2)
  then show "number_mark line \<noteq> None \<and> item = strip_numbering line \<and> item \<noteq> []"
    using tw l(2,6) c(2) by (simp add: number_mark_def strip_numbering_def)
next
  assume a: "number_mark line \<noteq> None \<and> item = strip_numbering line \<and> item \<noteq> []"
  then obtain rest where r: "number_mark line = Some rest" by auto
  obtain c where c: "dropWhile is_digit line = c # rest" "takeWhile is_digit line \<noteq> []" "c \<in> set ''.)''"
    using r by (auto simp: number_mark_def split: list.splits if_splits)
  have i: "item = dropWhile re_space rest" using a r by (simp add: strip_numbering_def)
  have "line = takeWhile is_digit line @ c # takeWhile re_space rest @ item"
    using c(1) i by (metis takeWhile_dropWhile_id)
  moreover have "\<not> re_space (hd item)" using a unfolding i by (metis hd_dropWhile i)
  moreover have "list_all is_digit (takeWhile is_digit line)" "list_all re_space (takeWhile re_space rest)"
    by (auto simp: list_all_iff dest: set_takeWhileD)
  ultimately show "numbered_item line item" unfolding numbered_item_def using a c(2,3) by auto
qed

lemma numbered_subproblems_items:
  assumes "list_all2 numbered_item (filter (\<lambda>l. \<exists>t. numbered_item l t) (map trim ls)) items"
  shows "map sp_Content (numbered_subproblems trim m i ls sps) =
    map sp_Content sps @ take (nat (m - int (length sps))) items"
  using assms
proof (induction ls arbitrary: i sps items)
  case (Cons l ls)
  let ?n = "\<lambda>l. \<exists>t. numbered_item l t"
  have skip: "numbered_subproblems trim m i (l # ls) sps = numbered_subproblems trim m (i + 1) ls sps"
    if "\<not> ?n (trim l)"
    using that by (auto simp: numbered_item_iff Let_def)
  show ?case
  proof (cases "?n (trim l)")
    case False
    then have "filter ?n (map trim (l # ls)) = filter ?n (map trim ls)" by simp
    then have "list_all2 numbered_item (filter ?n (map trim ls)) items" using Cons.prems by metis
    from Cons.IH [OF this, of "i + 1" sps] show ?thesis unfolding skip [OF False] .
  next
    case True
    then obtain t ts where t: "items = t # ts" "numbered_item (trim l) t"
      "list_all2 numbered_item (filter ?n (map trim ls)) ts"
      using Cons.prems by (auto simp: list_all2_Cons1)
    have n: "number_mark (trim l) \<noteq> None" "strip_numbering (trim l) = t" "t \<noteq> []" "trim l \<noteq> []"
      using t(2) by (auto simp: numbered_item_iff number_mark_def)
    show ?thesis
    proof (cases "int (length sps) < m")
      case True
      then have "nat (m - int (length sps)) = Suc (nat (m - int (Suc (length sps))))" by simp
      then show ?thesis using True n t(1)
          Cons.IH [OF t(3), of "i + 1" "sps @ [\<lparr>sp_Content = t, sp_Difficulty = i, sp_Dependencies = []\<rparr>]"]
        by (auto simp: Let_def)
    next
      case False
      then show ?thesis using n t(1) Cons.IH [OF t(3), of "i + 1" sps] by (auto simp: Let_def)
    qed
  qed
qed simp

lemma lists_items_exist: "\<exists>items. lists_items trim s items"
proof -
  have "\<exists>items. list_all2 numbered_item (filter (\<lambda>l. \<exists>t. numbered_item l t) ls) items" for ls
    by (induction ls) (auto simp: list_all2_Cons1)
  then show ?thesis unfolding lists_items_def by blast
qed

lemma parseSubproblems_items:
  assumes "lists_items trim s items"
  shows "map sp_Content (parseSubproblems trim ltm s problem) =
    (let found = take (nat (ltm_maxSubproblems ltm)) items in if found = [] then [problem] else found)"
proof -
  let ?sps = "numbered_subproblems trim (ltm_maxSubproblems ltm) 0 (split_char (CHR 0x0A) (trim s)) []"
  have c: "map sp_Content ?sps = take (nat (ltm_maxSubproblems ltm)) items"
    using numbered_subproblems_items [OF assms [unfolded lists_items_def], of "ltm_maxSubproblems ltm" 0 "[]"] by simp
  then have "?sps = [] \<longleftrightarrow> take (nat (ltm_maxSubproblems ltm)) items = []" by (metis list.map_disc_iff)
  then show ?thesis using c by (simp add: parseSubproblems_def Let_def)
qed

lemma custom_subproblems_contents: "map sp_Content (custom_subproblems m i texts) = take (nat (m - i)) texts"
proof (induction m i texts rule: custom_subproblems.induct)
  case (2 m i t texts)
  show ?case
  proof (cases "i \<ge> m")
    case False
    then have "nat (m - i) = Suc (nat (m - (i + 1)))" by simp
    then show ?thesis using False 2 by simp
  qed simp
qed simp

text \<open>What the model is asked, as a message of the user.\<close>

definition plain_prompt :: "string \<Rightarrow> message" where
  "plain_prompt prompt = \<lparr>msg_role = ''user'', msg_content = GStr prompt, msg_metadata = Some [], msg_timestamp = 0\<rparr>"

lemma ask_ok:
  "ask ff a ctx (Some []) wrap prompt w = (Ok s, w') \<longleftrightarrow>
     (\<exists>response. agent_Process a ctx (Some (plain_prompt prompt)) w = (Ok (Some response), w') \<and> s = ContentString ff response)"
  by (auto simp: ask_def plain_prompt_def split: prod.splits outcome.splits option.splits)

lemma prompt_has_content: "strings_Contains (subproblem_prompt c content prev) content"
proof -
  have "strings_Contains (xs @ content @ ys) content" for xs ys by (rule contains_append) (simp add: strings_Contains_def)
  from this [of "''Solve this subproblem:'' @ lf @ lf"]
    this [of "''Given these previous solutions to simpler subproblems:'' @ lf @ lf @
      numbered_context ''Previous solution '' '': '' prev @ lf @ lf @ ''Now solve this subproblem:'' @ lf"]
  show ?thesis by (simp add: subproblem_prompt_def)
qed

lemma prompt_has_solution:
  assumes "c" and "j < length prev"
  shows "strings_Contains (subproblem_prompt c content prev) (''Previous solution '' @ show_int (int j + 1) @ '': '' @ prev ! j)"
    (is "strings_Contains _ ?line")
proof -
  have "?line \<in> set (map (\<lambda>(i, t). ''Previous solution '' @ show_int (int i + 1) @ '': '' @ t) (List.enumerate 0 prev))"
    using assms(2) by (auto simp: in_set_enumerate_eq intro!: image_eqI [of _ _ "(j, prev ! j)"])
  then have "strings_Contains (numbered_context ''Previous solution '' '': '' prev) ?line"
    unfolding numbered_context_def by (rule contains_Join)
  from contains_append [OF this, of "''Given these previous solutions to simpler subproblems:'' @ lf @ lf"]
  show ?thesis using assms by (auto simp: subproblem_prompt_def)
qed

text \<open>
  Where the subproblems come from.  A custom decomposer gives the texts; otherwise the model is
  asked, with the problem in the prompt, and its numbered lines are the subproblems, or the
  problem itself is when there is none.
\<close>

lemma decompose_contents:
  assumes "decompose ff trim ltm ctx problem w = (Ok sps, w0)"
  shows "case ltm_decomposer ltm of
      Some d \<Rightarrow> \<exists>texts. d problem w = (Ok texts, w0) \<and> map sp_Content sps = take (nat (ltm_maxSubproblems ltm)) texts
    | None \<Rightarrow> \<exists>prompt response. strings_Contains prompt problem \<and>
        agent_Process (ltm_agent ltm) ctx (Some (plain_prompt prompt)) w = (Ok (Some response), w0) \<and>
        (\<forall>items. lists_items trim (ContentString ff response) items \<longrightarrow>
          map sp_Content sps =
            (let found = take (nat (ltm_maxSubproblems ltm)) items in if found = [] then [problem] else found))"
proof (cases "ltm_decomposer ltm")
  case None
  then obtain s where s: "ask ff (ltm_agent ltm) ctx (Some []) (\<lambda>e. Errorf ''decomposition failed: %w'' [] (Some e))
      (decomposition_prompt problem) w = (Ok s, w0)" "sps = parseSubproblems trim ltm s problem"
    using assms by (auto simp: decompose_def split: prod.splits outcome.splits)
  have "strings_Contains (decomposition_prompt problem) problem"
    using contains_append [of problem problem "''Break down this problem into simpler subproblems, ordered from easiest to hardest.'' @ lf @
      ''List each subproblem on a separate line, numbered 1, 2, 3, etc.'' @ lf @ lf @ ''Problem: ''"]
    by (simp add: decomposition_prompt_def strings_Contains_def)
  then show ?thesis using None s parseSubproblems_items [of trim s _ ltm problem] unfolding ask_ok by auto
next
  case (Some d)
  then show ?thesis using assms custom_subproblems_contents [of "ltm_maxSubproblems ltm" 0]
    by (auto simp: decompose_def split: prod.splits outcome.splits)
qed

text \<open>How a subproblem is solved after others.\<close>

lemma solveSubproblem_ok:
  assumes "solveSubproblem ff trim ltm ctx sp prev w = (Ok r, w')"
  shows "\<exists>prompt response. agent_Process (ltm_agent ltm) ctx (Some (plain_prompt prompt)) w = (Ok (Some response), w') \<and>
    r = trim (ContentString ff response) \<and> strings_Contains prompt (sp_Content sp) \<and>
    (if ltm_composeSolutions ltm
     then \<forall>j < length prev. strings_Contains prompt (''Previous solution '' @ show_int (int j + 1) @ '': '' @ prev ! j)
     else prompt = ''Solve this subproblem:'' @ lf @ lf @ sp_Content sp @ lf @ lf @ ''Solution:'')"
proof -
  let ?p = "subproblem_prompt (ltm_composeSolutions ltm) (sp_Content sp) prev"
  obtain response where "agent_Process (ltm_agent ltm) ctx (Some (plain_prompt ?p)) w = (Ok (Some response), w')"
      "r = trim (ContentString ff response)"
    using assms by (auto simp: solveSubproblem_def ask_ok split: prod.splits outcome.splits)
  then show ?thesis using prompt_has_content prompt_has_solution [of "ltm_composeSolutions ltm" _ prev "sp_Content sp"]
    by (intro exI [of _ ?p] exI [of _ response]) (auto simp: subproblem_prompt_def)
qed

text \<open>
  C34.
  Least-to-most solves its subproblems in order and builds on the solutions.  When \<open>Process\<close>
  answers, the subproblems are the first of the texts of the custom decomposer, as many as
  configured, or, without one, the first numbered items of the reply of the model to a prompt with
  the problem, and the problem itself when the reply has none.  For every subproblem the model is
  asked exactly once, in order, each time in the world the previous call left; its prompt has the
  text of the subproblem and, when solutions are composed, every earlier solution with its number
  (and none otherwise); the solution is the trimmed reply.  The reply lists the subproblems and the
  solutions and its text is the last solution, or empty when there is no subproblem.
\<close>
theorem least_to_most_builds_up:
  assumes "ltm_Process ff now trim ltm ctx m w = (Ok (Some r), w')"
  shows "\<exists>subproblems w0 prompts responses solutions ws.
    (case ltm_decomposer ltm of
       Some d \<Rightarrow> \<exists>texts. d (ContentString ff m) w = (Ok texts, w0) \<and> subproblems = take (nat (ltm_maxSubproblems ltm)) texts
     | None \<Rightarrow> \<exists>prompt response. strings_Contains prompt (ContentString ff m) \<and>
         agent_Process (ltm_agent ltm) ctx (Some (plain_prompt prompt)) w = (Ok (Some response), w0) \<and>
         (\<exists>items. lists_items trim (ContentString ff response) items) \<and>
         (\<forall>items. lists_items trim (ContentString ff response) items \<longrightarrow>
           subproblems = (let found = take (nat (ltm_maxSubproblems ltm)) items
             in if found = [] then [ContentString ff m] else found))) \<and>
    length prompts = length subproblems \<and> length responses = length subproblems \<and>
    length solutions = length subproblems \<and> length ws = Suc (length subproblems) \<and> ws ! 0 = w0 \<and>
    (\<forall>i < length subproblems.
       agent_Process (ltm_agent ltm) ctx (Some (plain_prompt (prompts ! i))) (ws ! i) = (Ok (Some (responses ! i)), ws ! Suc i) \<and>
       solutions ! i = trim (ContentString ff (responses ! i)) \<and> strings_Contains (prompts ! i) (subproblems ! i) \<and>
       (if ltm_composeSolutions ltm
        then \<forall>j < i. strings_Contains (prompts ! i) (''Previous solution '' @ show_int (int j + 1) @ '': '' @ solutions ! j)
        else prompts ! i = ''Solve this subproblem:'' @ lf @ lf @ subproblems ! i @ lf @ lf @ ''Solution:'')) \<and>
    w' = snd (now (ws ! length subproblems)) \<and> meta_get r ''subproblems'' = Some (GStrs subproblems) \<and>
    meta_get r ''subproblem_solutions'' = Some (GStrs solutions) \<and>
    msg_content r = GStr (if subproblems = [] then [] else last solutions)"
proof -
  obtain d w0 where d: "decompose ff trim ltm ctx (ContentString ff m) w = (d, w0)" by (metis prod.exhaust)
  then obtain sps where sps: "d = Ok sps" using assms by (cases d) (auto simp: ltm_Process_def)
  obtain s w1 where s: "solve_all ff trim ltm ctx sps [] w0 = (s, w1)" by (metis prod.exhaust)
  then obtain rs where rs: "s = Ok rs" using assms d sps by (cases s) (auto simp: ltm_Process_def)
  from ltm.loop_threads [of ff trim ltm ctx sps "[]" w0 rs w1] s rs obtain ws where
    ws: "threaded (solveSubproblem ff trim ltm ctx) sps rs ws" "hd ws = w0" "last ws = w1" by auto
  then have len: "length rs = length sps" "length ws = Suc (length sps)" by (auto simp: threaded_def)
  then have "ws \<noteq> []" by auto
  then have ends: "ws ! 0 = w0" "ws ! length sps = w1" using ws(2,3) len(2) by (auto simp: hd_conv_nth last_conv_nth)
  have "\<forall>i < length sps. \<exists>p x. agent_Process (ltm_agent ltm) ctx (Some (plain_prompt p)) (ws ! i) = (Ok (Some x), ws ! Suc i) \<and>
      rs ! i = trim (ContentString ff x) \<and> strings_Contains p (sp_Content (sps ! i)) \<and>
      (if ltm_composeSolutions ltm
       then \<forall>j < i. strings_Contains p (''Previous solution '' @ show_int (int j + 1) @ '': '' @ rs ! j)
       else p = ''Solve this subproblem:'' @ lf @ lf @ sp_Content (sps ! i) @ lf @ lf @ ''Solution:'')"
  proof (intro allI impI)
    fix i assume i: "i < length sps"
    then have "solveSubproblem ff trim ltm ctx (sps ! i) (take i rs) (ws ! i) = (Ok (rs ! i), ws ! Suc i)"
      using ws(1) by (simp add: threaded_def)
    from solveSubproblem_ok [OF this] show "\<exists>p x. agent_Process (ltm_agent ltm) ctx (Some (plain_prompt p)) (ws ! i) = (Ok (Some x), ws ! Suc i) \<and>
      rs ! i = trim (ContentString ff x) \<and> strings_Contains p (sp_Content (sps ! i)) \<and>
      (if ltm_composeSolutions ltm
       then \<forall>j < i. strings_Contains p (''Previous solution '' @ show_int (int j + 1) @ '': '' @ rs ! j)
       else p = ''Solve this subproblem:'' @ lf @ lf @ sp_Content (sps ! i) @ lf @ lf @ ''Solution:'')"
      using i len by (auto simp: min_def split: if_splits)
  qed
  then obtain P X where PX: "\<And>i. i < length sps \<Longrightarrow>
      agent_Process (ltm_agent ltm) ctx (Some (plain_prompt (P i))) (ws ! i) = (Ok (Some (X i)), ws ! Suc i) \<and>
      rs ! i = trim (ContentString ff (X i)) \<and> strings_Contains (P i) (sp_Content (sps ! i)) \<and>
      (if ltm_composeSolutions ltm
       then \<forall>j < i. strings_Contains (P i) (''Previous solution '' @ show_int (int j + 1) @ '': '' @ rs ! j)
       else P i = ''Solve this subproblem:'' @ lf @ lf @ sp_Content (sps ! i) @ lf @ lf @ ''Solution:'')"
    by metis
  have r: "meta_get r ''subproblems'' = Some (GStrs (map sp_Content sps))" "w' = snd (now w1)"
    "meta_get r ''subproblem_solutions'' = Some (GStrs rs)" "msg_content r = GStr (final_of rs)"
    using assms d sps s rs by (auto simp: ltm_Process_def meta_get_def NewMessage_def split: prod.splits)
  moreover have "final_of rs = (if map sp_Content sps = [] then [] else last rs)"
    using len(1) by (auto simp: final_of_def)
  ultimately have reply: "meta_get r ''subproblems'' = Some (GStrs (map sp_Content sps))" "w' = snd (now (ws ! length sps))"
    "meta_get r ''subproblem_solutions'' = Some (GStrs rs)"
    "msg_content r = GStr (if map sp_Content sps = [] then [] else last rs)" using ends(2) by simp_all
  have source: "case ltm_decomposer ltm of
      Some d \<Rightarrow> \<exists>texts. d (ContentString ff m) w = (Ok texts, w0) \<and> map sp_Content sps = take (nat (ltm_maxSubproblems ltm)) texts
    | None \<Rightarrow> \<exists>prompt response. strings_Contains prompt (ContentString ff m) \<and>
        agent_Process (ltm_agent ltm) ctx (Some (plain_prompt prompt)) w = (Ok (Some response), w0) \<and>
        (\<exists>items. lists_items trim (ContentString ff response) items) \<and>
        (\<forall>items. lists_items trim (ContentString ff response) items \<longrightarrow>
          map sp_Content sps = (let found = take (nat (ltm_maxSubproblems ltm)) items
            in if found = [] then [ContentString ff m] else found))"
    using decompose_contents [of ff trim ltm ctx "ContentString ff m" w sps w0] d sps lists_items_exist [of trim]
    by (cases "ltm_decomposer ltm") simp_all
  have calls: "\<forall>i < length (map sp_Content sps).
      agent_Process (ltm_agent ltm) ctx (Some (plain_prompt (map P [0..<length sps] ! i))) (ws ! i) =
        (Ok (Some (map X [0..<length sps] ! i)), ws ! Suc i) \<and>
      rs ! i = trim (ContentString ff (map X [0..<length sps] ! i)) \<and>
      strings_Contains (map P [0..<length sps] ! i) (map sp_Content sps ! i) \<and>
      (if ltm_composeSolutions ltm
       then \<forall>j < i. strings_Contains (map P [0..<length sps] ! i)
         (''Previous solution '' @ show_int (int j + 1) @ '': '' @ rs ! j)
       else map P [0..<length sps] ! i =
         ''Solve this subproblem:'' @ lf @ lf @ map sp_Content sps ! i @ lf @ lf @ ''Solution:'')"
    (is "\<forall>i < _. ?calls i")
  proof (intro allI impI)
    fix i assume "i < length (map sp_Content sps)"
    then have i: "i < length sps" by simp
    then have "map P [0..<length sps] ! i = P i" "map X [0..<length sps] ! i = X i" "map sp_Content sps ! i = sp_Content (sps ! i)"
      by simp_all
    note eqs = this
    show "?calls i" unfolding eqs by (rule PX [OF i])
  qed
  show ?thesis
    by (rule exI [of _ "map sp_Content sps"], rule exI [of _ w0], rule exI [of _ "map P [0..<length sps]"],
        rule exI [of _ "map X [0..<length sps]"], rule exI [of _ rs], rule exI [of _ ws])
      (intro conjI source calls reply ends(1); simp add: len reply)
qed

definition plan_model :: "nat agent" where
  "plan_model =
     \<lparr>agent_Name = ''model'', agent_Capabilities = [],
      agent_Process = (\<lambda>ctx m n. (Ok (Some (assistant_message
        (if n = 0 then ''1. add'' @ lf @ ''2. double'' else show_int (int n)) [])), Suc n))\<rparr>"

lemma plan_model_run:
  "case ltm_Process (\<lambda>_. []) (\<lambda>w. (0, w)) id (NewLeastToMost plan_model []) Background (assistant_message ''why'' []) 0 of
     (Ok (Some r), w) \<Rightarrow> msg_content r = GStr ''2'' \<and> w = 3
   | _ \<Rightarrow> False"
  by code_simp

theorem least_to_most_builds_up_witness:
  "\<exists>r w'. ltm_Process (\<lambda>_. []) (\<lambda>w. (0, w)) id (NewLeastToMost plan_model []) Background
       (assistant_message ''why'' []) 0 = (Ok (Some r), w') \<and>
     (\<exists>solutions :: string list. solutions \<noteq> [] \<and> last solutions = ''2'' \<and>
        meta_get r ''subproblem_solutions'' = Some (GStrs solutions))"
proof -
  obtain r w' where r: "ltm_Process (\<lambda>_. []) (\<lambda>w. (0, w)) id (NewLeastToMost plan_model []) Background
      (assistant_message ''why'' []) 0 = (Ok (Some r), w')" "msg_content r = GStr ''2''"
    using plan_model_run by (auto split: prod.splits outcome.splits option.splits)
  from least_to_most_builds_up [OF r(1)] obtain subproblems solutions :: "string list" where
    t: "length solutions = length subproblems" "meta_get r ''subproblem_solutions'' = Some (GStrs solutions)"
      "msg_content r = GStr (if subproblems = [] then [] else last solutions)" by blast
  have "subproblems \<noteq> []" using t(3) r(2) by auto
  then have "solutions \<noteq> []" "last solutions = ''2''" using t(1,3) r(2) by auto
  then show ?thesis using r(1) t(2) by blast
qed

text \<open>
  Plan-and-solve executes the plan it reports: its steps exactly once, in order, each with the
  results of all earlier ones; the answer is the result of the last step.
\<close>

lemma execute_steps_descriptions:
  "execute_steps ff trim a ctx steps rs w = (r, steps', w') \<Longrightarrow> map pst_Description steps' = map pst_Description steps"
  by (induction ff trim a ctx steps rs w arbitrary: r steps' w' rule: execute_steps.induct)
    (auto split: prod.splits outcome.splits)

lemma execute_steps_done:
  "execute_steps ff trim a ctx steps rs w = (Ok rs', steps', w') \<Longrightarrow>
     rs' = rs @ map pst_Result steps' \<and> list_all pst_Executed steps'"
  by (induction ff trim a ctx steps rs w arbitrary: rs' steps' w' rule: execute_steps.induct)
    (auto split: prod.splits outcome.splits)

lemma plan_and_solve_executes_plan:
  assumes "ps_Process ff trim upper a ctx m w = (Ok (Some r), w')"
  shows "\<exists>plan w0 rs ws. ps_plan ff trim upper a ctx (ContentString ff m) w = (Ok (Some plan), w0) \<and>
    threaded (ExecuteStep ff trim a ctx) (psp_Steps plan) rs ws \<and> hd ws = w0 \<and> last ws = w' \<and>
    meta_get r ''plan_steps'' = Some (GStrs (map pst_Description (psp_Steps plan))) \<and>
    meta_get r ''execution_steps'' = Some (GStrs rs) \<and> msg_content r = GStr (if psp_Steps plan = [] then [] else last rs)"
proof -
  obtain p w0 where p: "ps_plan ff trim upper a ctx (ContentString ff m) w = (p, w0)" by (metis prod.exhaust)
  then obtain plan where plan: "p = Ok (Some plan)"
    using assms by (cases p) (auto simp: ps_Process_def split: option.splits)
  obtain x steps w1 where x: "execute_steps ff trim a ctx (psp_Steps plan) [] w0 = (x, steps, w1)" by (metis prod_cases3)
  then obtain rs where rs: "x = Ok rs" using assms p plan by (cases x) (auto simp: ps_Process_def ExecutePlan_def)
  have "execute_results ff trim a ctx (psp_Steps plan) [] w0 = (Ok rs, w1)" using x rs by (simp add: execute_results_def)
  from psa.loop_threads [OF this] obtain ws where
    ws: "threaded (ExecuteStep ff trim a ctx) (psp_Steps plan) rs ws" "hd ws = w0" "last ws = w1" by auto
  have "meta_get r ''plan_steps'' = Some (GStrs (map pst_Description steps))"
    "meta_get r ''execution_steps'' = Some (GStrs rs)" "msg_content r = GStr (final_of rs)" "w' = w1"
    using assms p plan x rs by (auto simp: ps_Process_def ExecutePlan_def meta_get_def assistant_message_def)
  moreover have "final_of rs = (if psp_Steps plan = [] then [] else last rs)"
    using ws(1) by (auto simp: final_of_def threaded_def)
  ultimately show ?thesis using p plan ws execute_steps_descriptions [OF x] by auto
qed

text \<open>
  The check of the validation looks for VALID anywhere in the reply, so a plan that the model
  calls INVALID counts as validated.
\<close>

lemma contains_suffix: "strings_Contains s (p @ q) \<Longrightarrow> strings_Contains s q"
  unfolding strings_Contains_def by (rule sublist_order.order.trans [OF suffix_imp_sublist]) (simp_all add: suffix_def)

lemma invalid_plan_is_validated:
  assumes "ps_llmCall ff a ctx (validation_prompt plan) w = (Ok response, w1)"
    and "strings_Contains (upper response) ''INVALID''"
  shows "\<exists>plan'. ps_Validate ff trim upper a ctx (Some plan) w = (Ok plan', w1) \<and> psp_Validated plan'"
proof -
  have "strings_Contains (upper response) ''VALID''"
    using contains_suffix [of "upper response" "''IN''" "''VALID''"] assms(2) by simp
  then show ?thesis using assms(1) by (simp add: ps_Validate_def Let_def)
qed

end
