(* ===== verification/Reflection.thy ===== *)
theory Reflection
  imports Message Text_Lines
begin

text \<open>
  The reflection pattern (\<open>patterns/reflection.go\<close>): a generator writes, a critic scores, and the
  generator refines until the score is good enough, stops improving or the iterations are used up.

  The regular expressions with which scores are found in free text are functions here.  Decoding
  of JSON (\<open>unmarshal\<close>, giving score and feedback) and trimming (\<open>trim\<close>) are parameters.
\<close>

section \<open>Finding a score in free text\<close>

text \<open>Letters under \<open>(?i)\<close>: the other case, and for \<open>s\<close> also the long s, two bytes.\<close>

fun fold_prefix :: "string \<Rightarrow> string \<Rightarrow> string option" where
  "fold_prefix [] s = Some s"
| "fold_prefix (p # ps) [] = None"
| "fold_prefix (p # ps) (c # s) =
     (if c = p \<or> of_char c + (32 :: nat) = of_char p then fold_prefix ps s
      else if p = CHR ''s'' \<and> c = CHR 0xC5 then (case s of d # s' \<Rightarrow> if d = CHR 0xBF then fold_prefix ps s' else None | [] \<Rightarrow> None)
      else None)"

text \<open>The group \<open>[0-9]*\.?[0-9]+\<close> at the start of the text, and what follows it.\<close>

definition number_token :: "string \<Rightarrow> (string \<times> string) option" where
  "number_token s =
     (let ds = takeWhile is_digit s; rest = dropWhile is_digit s in
      case rest of
        c # r \<Rightarrow>
          if c = CHR ''.'' \<and> takeWhile is_digit r \<noteq> []
          then Some (ds @ [c] @ takeWhile is_digit r, dropWhile is_digit r)
          else if ds \<noteq> [] then Some (ds, rest) else None
      | [] \<Rightarrow> if ds \<noteq> [] then Some (ds, []) else None)"

definition colon_space :: "char \<Rightarrow> bool" where
  "colon_space c \<longleftrightarrow> c \<in> {CHR '':'', CHR 0x09, CHR 0x0A, CHR 0x0C, CHR 0x0D, CHR 0x20}"

text \<open>\<open>(?i)<word>[:\s]+([0-9]*\.?[0-9]+)\<close> at the start of the text.\<close>

definition match_word :: "string \<Rightarrow> string \<Rightarrow> string option" where
  "match_word word s =
     (case fold_prefix word s of
        None \<Rightarrow> None
      | Some r \<Rightarrow>
          if takeWhile colon_space r = [] then None
          else map_option fst (number_token (dropWhile colon_space r)))"

text \<open>\<open>([0-9]+)/10\<close> and \<open>([0-9]*\.?[0-9]+)/1\.?0\<close> at the start of the text.\<close>

definition match_out_of_10 :: "string \<Rightarrow> string option" where
  "match_out_of_10 s =
     (let ds = takeWhile is_digit s in
      if ds \<noteq> [] \<and> HasPrefix (dropWhile is_digit s) ''/10'' then Some ds else None)"

definition match_out_of_1 :: "string \<Rightarrow> string option" where
  "match_out_of_1 s =
     (case number_token s of
        Some (g, rest) \<Rightarrow> if HasPrefix rest ''/10'' \<or> HasPrefix rest ''/1.0'' then Some g else None
      | None \<Rightarrow> None)"

fun FindSubmatch :: "(string \<Rightarrow> string option) \<Rightarrow> string \<Rightarrow> string option" where
  "FindSubmatch mt [] = mt []"
| "FindSubmatch mt (c # s) = (case mt (c # s) of Some g \<Rightarrow> Some g | None \<Rightarrow> FindSubmatch mt s)"

definition scorePatterns :: "(string \<Rightarrow> string option) list" where
  "scorePatterns = [match_word ''score'', match_word ''rating'', match_out_of_10, match_out_of_1]"

text \<open>\<open>strconv.ParseFloat\<close> on digits with at most one dot; an error when the value is out of range.\<close>

definition ParseFloat :: "string \<Rightarrow> real option" where
  "ParseFloat s =
     (let ds = takeWhile is_digit s; fs = drop 1 (dropWhile is_digit s);
          v = real_of_int (digits_value ds) + real_of_int (digits_value fs) / 10 ^ length fs
      in if v \<ge> 2 ^ 1024 - 2 ^ 970 then None else Some v)"

definition clamp :: "real \<Rightarrow> real" where
  "clamp score = (let score = (if score < 0 then 0 else score) in if score > 1 then 1 else score)"

fun free_score :: "(string \<Rightarrow> string option) list \<Rightarrow> string \<Rightarrow> real" where
  "free_score [] content = 1 / 2"
| "free_score (pattern # ps) content =
     (case FindSubmatch pattern content of
        None \<Rightarrow> free_score ps content
      | Some g \<Rightarrow>
          (case ParseFloat g of
             None \<Rightarrow> free_score ps content
           | Some v \<Rightarrow> clamp (if v > 1 then v / 10 else v)))"

definition parseFreeFormCritique :: "string \<Rightarrow> real \<times> string" where
  "parseFreeFormCritique content = (free_score scorePatterns content, content)"

definition backticks :: string where
  "backticks = [CHR 0x60, CHR 0x60, CHR 0x60]"

definition parseStructuredCritique ::
    "(string \<Rightarrow> string) \<Rightarrow> (string \<Rightarrow> (real \<times> string) option) \<Rightarrow> string \<Rightarrow> real \<times> string" where
  "parseStructuredCritique trim unmarshal text =
     (let content = trim text in
      if \<not> strings_Contains content ''{'' \<or> \<not> strings_Contains content ''}'' then parseFreeFormCritique content
      else
        let content =
              (if HasPrefix content backticks
               then strings_Join (filter (\<lambda>l. l \<noteq> [] \<and> \<not> HasPrefix l backticks) (split_char (CHR 0x0A) content)) [CHR 0x0A]
               else content)
        in case unmarshal content of
             None \<Rightarrow> parseFreeFormCritique content
           | Some (score, feedback) \<Rightarrow> (clamp score, if feedback = [] then content else feedback))"

section \<open>The agent\<close>

datatype StopReason = StopQualityThreshold | StopMinimalImprovement | StopMaxIterations | StopPerfectScore

definition stop_reason_text :: "StopReason \<Rightarrow> string" where
  "stop_reason_text r =
     (case r of
        StopQualityThreshold \<Rightarrow> ''quality_threshold_met''
      | StopMinimalImprovement \<Rightarrow> ''minimal_improvement''
      | StopMaxIterations \<Rightarrow> ''max_iterations''
      | StopPerfectScore \<Rightarrow> ''perfect_score'')"

definition CritiqueStructured :: string where "CritiqueStructured = ''structured''"
definition CritiqueFreeForm :: string where "CritiqueFreeForm = ''free_form''"

record ReflectionStep =
  rs_Iteration :: int
  rs_Output :: string
  rs_Critique :: string
  rs_QualityScore :: real
  rs_Improvement :: real
  rs_Timestamp :: time

record 'w ReflectionAgent =
  ra_generator :: "'w agent"
  ra_critic :: "'w agent"
  ra_maxIterations :: int
  ra_qualityThreshold :: real
  ra_improvementThreshold :: real
  ra_critiqueFormat :: string
  ra_verbose :: bool
  ra_history :: "ReflectionStep list"

record 'w ReflectionConfig =
  rfc_Generator :: "'w agent option"
  rfc_Critic :: "'w agent option"
  rfc_MaxIterations :: int
  rfc_QualityThreshold :: real
  rfc_ImprovementThreshold :: real
  rfc_CritiqueFormat :: string
  rfc_Verbose :: bool

definition NewReflectionAgent :: "'w ReflectionConfig \<Rightarrow> 'w ReflectionAgent outcome" where
  "NewReflectionAgent config =
     (case rfc_Generator config of
        None \<Rightarrow> Err (Errorf ''generator agent is required'' [] None)
      | Some g \<Rightarrow>
          (case rfc_Critic config of
             None \<Rightarrow> Err (Errorf ''critic agent is required'' [] None)
           | Some c \<Rightarrow>
               if rfc_MaxIterations config < 1
               then Err (Errorf ''max_iterations must be at least 1, got %d'' [GInt (rfc_MaxIterations config)] None)
               else if rfc_QualityThreshold config < 0 \<or> rfc_QualityThreshold config > 1
               then Err (Errorf ''quality_threshold must be between 0.0 and 1.0, got %f'' [GFloat (rfc_QualityThreshold config)] None)
               else if rfc_ImprovementThreshold config < 0 \<or> rfc_ImprovementThreshold config > 1
               then Err (Errorf ''improvement_threshold must be between 0.0 and 1.0, got %f'' [GFloat (rfc_ImprovementThreshold config)] None)
               else
                 Ok \<lparr>ra_generator = g, ra_critic = c,
                     ra_maxIterations = (if rfc_MaxIterations config = 0 then 5 else rfc_MaxIterations config),
                     ra_qualityThreshold = (if rfc_QualityThreshold config = 0 then 9 / 10 else rfc_QualityThreshold config),
                     ra_improvementThreshold = (if rfc_ImprovementThreshold config = 0 then 5 / 100 else rfc_ImprovementThreshold config),
                     ra_critiqueFormat = (if rfc_CritiqueFormat config = [] then CritiqueStructured else rfc_CritiqueFormat config),
                     ra_verbose = rfc_Verbose config, ra_history = []\<rparr>))"

abbreviation rnl :: string where
  "rnl \<equiv> [CHR 0x0A]"

abbreviation dq :: string where
  "dq \<equiv> [CHR 0x22]"

definition critique_text :: "string \<Rightarrow> string \<Rightarrow> string \<Rightarrow> string" where
  "critique_text fmt originalQuery currentOutput =
     (if fmt = CritiqueStructured then
        ''Please evaluate the following output and provide structured feedback.'' @ rnl @ rnl @ ''Original Request:'' @ rnl @
        originalQuery @ rnl @ rnl @ ''Current Output:'' @ rnl @ currentOutput @ rnl @ rnl @
        ''Provide your evaluation in this JSON format:'' @ rnl @ ''{'' @ rnl @
        ''  '' @ dq @ ''score'' @ dq @ '': <float between 0.0 and 1.0>,'' @ rnl @
        ''  '' @ dq @ ''feedback'' @ dq @ '': '' @ dq @ ''<specific feedback on what could be improved>'' @ dq @ rnl @ ''}'' @ rnl @ rnl @
        ''Focus on:'' @ rnl @ ''- Correctness: Does it solve the problem?'' @ rnl @
        ''- Quality: Is it well-structured and clear?'' @ rnl @ ''- Completeness: Does it address all aspects?'' @ rnl @
        ''- Potential Issues: Are there bugs or edge cases?''
      else
        ''Please evaluate the following output on a scale of 0.0 to 1.0.'' @ rnl @ rnl @ ''Original Request:'' @ rnl @
        originalQuery @ rnl @ rnl @ ''Current Output:'' @ rnl @ currentOutput @ rnl @ rnl @
        ''Provide:'' @ rnl @ ''1. A score (0.0-1.0) indicating quality'' @ rnl @
        ''2. Specific feedback on what could be improved'' @ rnl @ rnl @ ''Your evaluation:'')"

definition buildCritiquePrompt :: "'w clock \<Rightarrow> 'w ReflectionAgent \<Rightarrow> string \<Rightarrow> string \<Rightarrow> 'w \<Rightarrow> message \<times> 'w" where
  "buildCritiquePrompt now r originalQuery currentOutput w =
     (let (t, w) = now w in (NewMessage t ''user'' (critique_text (ra_critiqueFormat r) originalQuery currentOutput), w))"

definition refinement_text :: "string \<Rightarrow> string \<Rightarrow> string \<Rightarrow> int \<Rightarrow> string" where
  "refinement_text originalQuery currentOutput critique iteration =
     ''Please refine your previous output based on the following critique.'' @ rnl @ rnl @ ''Original Request:'' @ rnl @
     originalQuery @ rnl @ rnl @ ''Your Previous Output (Iteration '' @ show_int iteration @ ''):'' @ rnl @ currentOutput @
     rnl @ rnl @ ''Critique:'' @ rnl @ critique @ rnl @ rnl @
     ''Please provide an improved version that addresses the critique while maintaining what was already good.'' @
     rnl @ rnl @ ''Refined Output:''"

definition buildRefinementPrompt :: "'w clock \<Rightarrow> string \<Rightarrow> string \<Rightarrow> string \<Rightarrow> int \<Rightarrow> 'w \<Rightarrow> message \<times> 'w" where
  "buildRefinementPrompt now originalQuery currentOutput critique iteration w =
     (let (t, w) = now w in (NewMessage t ''user'' (refinement_text originalQuery currentOutput critique iteration), w))"

definition parseCritique ::
    "(string \<Rightarrow> string) \<Rightarrow> (string \<Rightarrow> (real \<times> string) option) \<Rightarrow> 'w ReflectionAgent \<Rightarrow> string \<Rightarrow> real \<times> string" where
  "parseCritique trim unmarshal r content =
     (if ra_critiqueFormat r = CritiqueStructured then parseStructuredCritique trim unmarshal content
      else parseFreeFormCritique content)"

definition checkStopConditions :: "'w ReflectionAgent \<Rightarrow> real \<Rightarrow> real \<Rightarrow> StopReason option" where
  "checkStopConditions r score improvement =
     (if score \<ge> 1 then Some StopPerfectScore
      else if score \<ge> ra_qualityThreshold r then Some StopQualityThreshold
      else if length (ra_history r) > 1 \<and> improvement < ra_improvementThreshold r then Some StopMinimalImprovement
      else None)"

definition rs_value :: "ReflectionStep \<Rightarrow> gval" where
  "rs_value s =
     GMap [(''iteration'', GInt (rs_Iteration s)), (''output'', GStr (rs_Output s)), (''critique'', GStr (rs_Critique s)),
           (''quality_score'', GFloat (rs_QualityScore s)), (''improvement'', GFloat (rs_Improvement s)),
           (''timestamp'', GInt (rs_Timestamp s))]"

definition reflection_meta :: "'w ReflectionAgent \<Rightarrow> StopReason \<Rightarrow> (string \<times> gval) list \<Rightarrow> (string \<times> gval) list" where
  "reflection_meta r stopReason md =
     (let h = ra_history r;
          md = go_set ''stop_reason'' (GStr (stop_reason_text stopReason))
                 (go_set ''reflection_iterations'' (GInt (int (length h))) md);
          md = (if h \<noteq> [] then
                  go_set ''total_improvement'' (GFloat (rs_QualityScore (last h) - rs_QualityScore (hd h)))
                    (go_set ''initial_quality_score'' (GFloat (rs_QualityScore (hd h)))
                      (go_set ''final_quality_score'' (GFloat (rs_QualityScore (last h))) md))
                else go_set ''final_quality_score'' (GFloat 0) md)
      in if ra_verbose r then go_set ''reflection_history'' (GList (map rs_value h)) md else md)"

definition formatResult ::
    "(real \<Rightarrow> string) \<Rightarrow> 'w clock \<Rightarrow> 'w ReflectionAgent \<Rightarrow> message \<Rightarrow> StopReason \<Rightarrow> 'w \<Rightarrow> message \<times> 'w" where
  "formatResult ff now r output stopReason w =
     (let md = (case msg_metadata output of None \<Rightarrow> [] | Some md \<Rightarrow> md); (t, w) = now w in
      (\<lparr>msg_role = msg_role output, msg_content = GStr (ContentString ff output),
        msg_metadata = Some (reflection_meta r stopReason md), msg_timestamp = t\<rparr>, w))"

text \<open>The step of the history; the time is taken only when the agent is verbose.\<close>

definition record_step ::
    "(real \<Rightarrow> string) \<Rightarrow> 'w clock \<Rightarrow> int \<Rightarrow> message \<Rightarrow> string \<Rightarrow> real \<Rightarrow> real \<Rightarrow> 'w ReflectionAgent \<Rightarrow> 'w \<Rightarrow> 'w ReflectionAgent \<times> 'w" where
  "record_step ff now iteration output feedback score improvement r w =
     (let (t, w) = (if ra_verbose r then now w else (0, w)) in
      (r\<lparr>ra_history := ra_history r @
          [\<lparr>rs_Iteration = iteration, rs_Output = ContentString ff output, rs_Critique = feedback, rs_QualityScore = score,
            rs_Improvement = improvement, rs_Timestamp = t\<rparr>]\<rparr>, w))"

text \<open>The loop, with the number of iterations that are left.\<close>

fun reflect_loop ::
    "(real \<Rightarrow> string) \<Rightarrow> 'w clock \<Rightarrow> 'w ctx_err \<Rightarrow> (string \<Rightarrow> string) \<Rightarrow> (string \<Rightarrow> (real \<times> string) option) \<Rightarrow> go_ctx \<Rightarrow> message \<Rightarrow>
     nat \<Rightarrow> int \<Rightarrow> message option \<Rightarrow> real \<Rightarrow> 'w ReflectionAgent \<Rightarrow> 'w \<Rightarrow> reply \<times> 'w ReflectionAgent \<times> 'w" where
  "reflect_loop ff now ce trim unmarshal ctx message 0 iteration output previousScore r w =
     (case output of
        None \<Rightarrow> (Panic ''nil pointer dereference'', r, w)
      | Some out \<Rightarrow> (let (m, w) = formatResult ff now r out StopMaxIterations w in (Ok (Some m), r, w)))"
| "reflect_loop ff now ce trim unmarshal ctx message (Suc left) iteration output previousScore r w =
     (case ce ctx w of
        Some e \<Rightarrow> (Err e, r, w)
      | None \<Rightarrow>
          (case output of
             None \<Rightarrow> (Panic ''nil pointer dereference'', r, w)
           | Some out \<Rightarrow>
               (let (prompt, w) = buildCritiquePrompt now r (ContentString ff message) (ContentString ff out) w in
                case agent_Process (ra_critic r) ctx (Some prompt) w of
                  (Err e, w) \<Rightarrow> (Err (Errorf ''critique failed at iteration %d: %w'' [GInt iteration] (Some e)), r, w)
                | (Panic p, w) \<Rightarrow> (Panic p, r, w)
                | (Ok None, w) \<Rightarrow> (Panic ''nil pointer dereference'', r, w)
                | (Ok (Some critique), w) \<Rightarrow>
                    (let (score, feedback) = parseCritique trim unmarshal r (ContentString ff critique);
                         improvement = score - previousScore;
                         (r, w) = record_step ff now iteration out feedback score improvement r w
                     in case checkStopConditions r score improvement of
                          Some stopReason \<Rightarrow> (let (m, w) = formatResult ff now r out stopReason w in (Ok (Some m), r, w))
                        | None \<Rightarrow>
                            (let (prompt, w) = buildRefinementPrompt now (ContentString ff message) (ContentString ff out) feedback iteration w in
                             case agent_Process (ra_generator r) ctx (Some prompt) w of
                               (Err e, w) \<Rightarrow> (Err (Errorf ''refinement failed at iteration %d: %w'' [GInt iteration] (Some e)), r, w)
                             | (Panic p, w) \<Rightarrow> (Panic p, r, w)
                             | (Ok output, w) \<Rightarrow>
                                 reflect_loop ff now ce trim unmarshal ctx message left (iteration + 1) output score r w)))))"

definition reflection_Process ::
    "(real \<Rightarrow> string) \<Rightarrow> 'w clock \<Rightarrow> 'w ctx_err \<Rightarrow> (string \<Rightarrow> string) \<Rightarrow> (string \<Rightarrow> (real \<times> string) option) \<Rightarrow> go_ctx \<Rightarrow> message \<Rightarrow>
     'w ReflectionAgent \<Rightarrow> 'w \<Rightarrow> reply \<times> 'w ReflectionAgent \<times> 'w" where
  "reflection_Process ff now ce trim unmarshal ctx message r w =
     (let r = r\<lparr>ra_history := []\<rparr> in
      case agent_Process (ra_generator r) ctx (Some message) w of
        (Err e, w) \<Rightarrow> (Err (Errorf ''initial generation failed: %w'' [] (Some e)), r, w)
      | (Panic p, w) \<Rightarrow> (Panic p, r, w)
      | (Ok output, w) \<Rightarrow>
          reflect_loop ff now ce trim unmarshal ctx message (nat (ra_maxIterations r)) 1 output 0 r w)"

definition reflection_GetHistory :: "'w ReflectionAgent \<Rightarrow> ReflectionStep list" where
  "reflection_GetHistory r = ra_history r"

definition reflection_ClearHistory :: "'w ReflectionAgent \<Rightarrow> 'w ReflectionAgent" where
  "reflection_ClearHistory r = r\<lparr>ra_history := []\<rparr>"

section \<open>Scores\<close>

lemma clamp_range: "0 \<le> clamp s" "clamp s \<le> 1"
  by (auto simp: clamp_def Let_def)

lemma free_score_range: "0 \<le> free_score ps c \<and> free_score ps c \<le> 1"
  by (induction ps) (auto simp: clamp_range split: option.splits)

lemma parseCritique_range: "parseCritique trim unmarshal r c = (score, feedback) \<Longrightarrow> 0 \<le> score \<and> score \<le> 1"
  using free_score_range clamp_range
  by (auto simp: parseCritique_def parseStructuredCritique_def parseFreeFormCritique_def Let_def split: if_splits option.splits)

text \<open>
  Two defects of the search for scores: a rating of one out of ten is read as a perfect score,
  and of a rating such as 8.5 out of ten only the digit after the point is seen.
\<close>

lemma ParseFloat_digits:
  assumes "digits_value (takeWhile is_digit s) = n" and "drop 1 (dropWhile is_digit s) = []" and "n \<le> 1000"
  shows "ParseFloat s = Some (real_of_int n)"
proof -
  have "real_of_int n \<le> 1000" using assms(3) by linarith
  moreover have "(1000 :: real) < 2 ^ 1024 - 2 ^ 970" by simp
  ultimately have "\<not> real_of_int n \<ge> 2 ^ 1024 - 2 ^ 970" by linarith
  then show ?thesis using assms(1,2) by (simp add: ParseFloat_def digits_value_def)
qed

lemma out_of_ten_score:
  assumes "FindSubmatch (match_word ''score'') c = None" and "FindSubmatch (match_word ''rating'') c = None"
    and "FindSubmatch match_out_of_10 c = Some g" and "ParseFloat g = Some v"
  shows "fst (parseFreeFormCritique c) = clamp (if v > 1 then v / 10 else v)"
  using assms by (simp add: parseFreeFormCritique_def scorePatterns_def)

lemma lowest_rating_is_perfect: "fst (parseFreeFormCritique ''I give it 1/10'') = 1"
proof -
  have "ParseFloat ''1'' = Some (real_of_int 1)" by (rule ParseFloat_digits) (code_simp, code_simp, simp)
  then have "fst (parseFreeFormCritique ''I give it 1/10'') = clamp (if real_of_int 1 > 1 then real_of_int 1 / 10 else real_of_int 1)"
    by (rule out_of_ten_score [rotated 3]) code_simp+
  then show ?thesis by (simp add: clamp_def)
qed

lemma decimal_rating_is_cut: "fst (parseFreeFormCritique ''8.5/10'') = 1 / 2"
proof -
  have "ParseFloat ''5'' = Some (real_of_int 5)" by (rule ParseFloat_digits) (code_simp, code_simp, simp)
  then have "fst (parseFreeFormCritique ''8.5/10'') = clamp (if real_of_int 5 > 1 then real_of_int 5 / 10 else real_of_int 5)"
    by (rule out_of_ten_score [rotated 3]) code_simp+
  then show ?thesis by (simp add: clamp_def)
qed

section \<open>What a run records\<close>

text \<open>The decision after step \<open>s\<close>, when it is the \<open>n\<close>-th of the run.\<close>

definition stop_rule :: "'w ReflectionAgent \<Rightarrow> nat \<Rightarrow> ReflectionStep \<Rightarrow> StopReason option" where
  "stop_rule r n s =
     (if rs_QualityScore s \<ge> 1 then Some StopPerfectScore
      else if rs_QualityScore s \<ge> ra_qualityThreshold r then Some StopQualityThreshold
      else if n > 1 \<and> rs_Improvement s < ra_improvementThreshold r then Some StopMinimalImprovement
      else None)"

definition trace_ok :: "ReflectionStep list \<Rightarrow> bool" where
  "trace_ok h \<longleftrightarrow> (\<forall>i < length h. rs_Iteration (h ! i) = int i + 1 \<and> 0 \<le> rs_QualityScore (h ! i) \<and> rs_QualityScore (h ! i) \<le> 1 \<and>
     rs_Improvement (h ! i) = rs_QualityScore (h ! i) - (if i = 0 then 0 else rs_QualityScore (h ! (i - 1))))"

definition same_setup :: "'w ReflectionAgent \<Rightarrow> 'w ReflectionAgent \<Rightarrow> bool" where
  "same_setup r r' \<longleftrightarrow> (\<exists>h. r' = r\<lparr>ra_history := h\<rparr>)"

definition reflected :: "'w ReflectionAgent \<Rightarrow> nat \<Rightarrow> message \<Rightarrow> ReflectionStep list \<Rightarrow> bool" where
  "reflected r N m h \<longleftrightarrow> h \<noteq> [] \<and> length h \<le> N \<and> trace_ok h \<and> (\<forall>i < length h - 1. stop_rule r (Suc i) (h ! i) = None) \<and>
     meta_get m ''reflection_iterations'' = Some (GInt (int (length h))) \<and>
     meta_get m ''final_quality_score'' = Some (GFloat (rs_QualityScore (last h))) \<and>
     (case stop_rule r (length h) (last h) of
        Some reason \<Rightarrow> meta_get m ''stop_reason'' = Some (GStr (stop_reason_text reason)) \<and> msg_content m = GStr (rs_Output (last h))
      | None \<Rightarrow> length h = N \<and> meta_get m ''stop_reason'' = Some (GStr (stop_reason_text StopMaxIterations)))"

lemma formatResult_meta:
  assumes "formatResult ff now r out reason w = (m, w')" and "ra_history r \<noteq> []"
  shows "meta_get m ''reflection_iterations'' = Some (GInt (int (length (ra_history r))))"
    "meta_get m ''final_quality_score'' = Some (GFloat (rs_QualityScore (last (ra_history r))))"
    "meta_get m ''stop_reason'' = Some (GStr (stop_reason_text reason))" "msg_content m = GStr (ContentString ff out)"
  using assms by (auto simp: formatResult_def meta_get_def reflection_meta_def Let_def split: prod.splits)

lemma trace_ok_snoc:
  assumes "trace_ok h" and "rs_Iteration s = int (length h) + 1" and "0 \<le> rs_QualityScore s" and "rs_QualityScore s \<le> 1"
    and "rs_Improvement s = rs_QualityScore s - (if h = [] then 0 else rs_QualityScore (last h))"
  shows "trace_ok (h @ [s])"
  using assms unfolding trace_ok_def by (auto simp: nth_append less_Suc_eq last_conv_nth)

definition going_on :: "'w ReflectionAgent \<Rightarrow> ReflectionStep list \<Rightarrow> real \<Rightarrow> bool" where
  "going_on r h prev \<longleftrightarrow> trace_ok h \<and> (\<forall>i < length h. stop_rule r (Suc i) (h ! i) = None) \<and>
     prev = (if h = [] then 0 else rs_QualityScore (last h))"

lemma going_on_snoc:
  assumes "going_on r h prev" and "stop_rule r (Suc (length h)) s = None" and "trace_ok (h @ [s])"
  shows "going_on r (h @ [s]) (rs_QualityScore s)"
  using assms by (auto simp: going_on_def nth_append less_Suc_eq)

lemma reflect_loop_reflected:
  assumes "reflect_loop ff now ce trim unmarshal ctx message left iteration output prev r w = (Ok (Some m), r', w')"
    and "going_on r (ra_history r) prev" and "iteration = int (length (ra_history r)) + 1"
    and "length (ra_history r) + left = N" and "0 < N"
  shows "same_setup r r' \<and> reflected r N m (ra_history r')"
  using assms(1-4)
proof (induction left arbitrary: iteration "output" prev r w)
  case 0
  then obtain out where out: "output = Some out" by (cases "output") auto
  obtain m1 w1 where f: "formatResult ff now r out StopMaxIterations w = (m1, w1)" by (metis prod.exhaust)
  have eq: "m1 = m" "r' = r" using 0(1) out f by auto
  have h: "ra_history r \<noteq> []" "length (ra_history r) = N" using 0(4) assms(5) by auto
  have "stop_rule r (length (ra_history r)) (last (ra_history r)) = None"
    using 0(2) h(1) by (auto simp: going_on_def last_conv_nth dest!: spec [of _ "length (ra_history r) - 1"])
  then show ?case using 0(2) eq h formatResult_meta [OF f h(1)]
    by (auto simp: reflected_def going_on_def same_setup_def intro: exI [of _ "ra_history r"])
next
  case (Suc left)
  from Suc.prems(1) have ce: "ce ctx w = None" by (cases "ce ctx w") auto
  from Suc.prems(1) ce obtain out where out: "output = Some out" by (cases "output") auto
  obtain p w1 where p: "buildCritiquePrompt now r (ContentString ff message) (ContentString ff out) w = (p, w1)" by (metis prod.exhaust)
  obtain c w2 where c: "agent_Process (ra_critic r) ctx (Some p) w1 = (c, w2)" by (metis prod.exhaust)
  from Suc.prems(1) ce out p c obtain cm where cm: "c = Ok (Some cm)" by (cases c) (auto split: option.splits)
  obtain score feedback where sf: "parseCritique trim unmarshal r (ContentString ff cm) = (score, feedback)" by (metis prod.exhaust)
  obtain r1 w3 where rec: "record_step ff now iteration out feedback score (score - prev) r w2 = (r1, w3)" by (metis prod.exhaust)
  then obtain s where s: "r1 = r\<lparr>ra_history := ra_history r @ [s]\<rparr>" "rs_Iteration s = iteration"
    "rs_Output s = ContentString ff out" "rs_QualityScore s = score" "rs_Improvement s = score - prev"
    by (auto simp: record_step_def split: prod.splits)
  have tr: "trace_ok (ra_history r @ [s])"
    by (rule trace_ok_snoc) (use Suc.prems(2,3) s parseCritique_range [OF sf] in \<open>auto simp: going_on_def\<close>)
  have rule: "checkStopConditions r1 score (score - prev) = stop_rule r (Suc (length (ra_history r))) s"
    using s by (simp add: checkStopConditions_def stop_rule_def)
  note run = Suc.prems(1) [unfolded reflect_loop.simps, simplified ce out p c cm sf rec rule option.case prod.case outcome.case Let_def]
  show ?case
  proof (cases "stop_rule r (Suc (length (ra_history r))) s")
    case (Some reason)
    obtain m1 w4 where f: "formatResult ff now r1 out reason w3 = (m1, w4)" by (metis prod.exhaust)
    have eq: "m1 = m" "r' = r1" using run Some f by auto
    have "\<forall>i < length (ra_history r). stop_rule r (Suc i) ((ra_history r @ [s]) ! i) = None"
      using Suc.prems(2) by (auto simp: going_on_def nth_append)
    then show ?thesis using Some eq s tr Suc.prems(4) formatResult_meta [OF f]
      by (auto simp: reflected_def same_setup_def)
  next
    case None
    obtain q w4 where q: "buildRefinementPrompt now (ContentString ff message) (ContentString ff out) feedback iteration w3 = (q, w4)"
      by (metis prod.exhaust)
    obtain g w5 where g: "agent_Process (ra_generator r1) ctx (Some q) w4 = (g, w5)" by (metis prod.exhaust)
    then obtain output' where g': "g = Ok output'" using run None q by (cases g) auto
    have loop: "reflect_loop ff now ce trim unmarshal ctx message left (iteration + 1) output' score r1 w5 = (Ok (Some m), r', w')"
      using run None q g g' by simp
    have sr: "stop_rule r1 = stop_rule r" using s(1) by (auto simp: stop_rule_def fun_eq_iff)
    have on: "going_on r1 (ra_history r1) score"
      using going_on_snoc [OF Suc.prems(2) None tr] s sr by (simp add: going_on_def)
    have "same_setup r1 r' \<and> reflected r1 N m (ra_history r')"
      by (rule Suc.IH [OF loop on]) (use Suc.prems(3,4) s in auto)
    moreover have "reflected r1 = reflected r" using sr by (simp add: reflected_def fun_eq_iff)
    ultimately show ?thesis using s(1) by (auto simp: same_setup_def)
  qed
qed

text \<open>
  C35.
  A reflection stops for the reason it reports.  When an agent with a positive number of
  iterations answers, its history has between one and that many steps, numbered from one, each
  with a score between 0 and 1 and with the improvement over the score before; no step but the
  last meets a stopping condition; the reply carries the number of steps and the last score; and
  when the last step meets a condition the reply names it and is the very output that was scored,
  otherwise all iterations were used.
\<close>
theorem reflection_stops_right:
  assumes "0 < ra_maxIterations r"
    and "reflection_Process ff now ce trim unmarshal ctx message r w = (Ok (Some m), r', w')"
  shows "\<exists>h. reflection_GetHistory r' = h \<and> h \<noteq> [] \<and> int (length h) \<le> ra_maxIterations r \<and> trace_ok h \<and>
    (\<forall>i < length h - 1. stop_rule r (Suc i) (h ! i) = None) \<and>
    meta_get m ''reflection_iterations'' = Some (GInt (int (length h))) \<and>
    meta_get m ''final_quality_score'' = Some (GFloat (rs_QualityScore (last h))) \<and>
    (case stop_rule r (length h) (last h) of
       Some reason \<Rightarrow> meta_get m ''stop_reason'' = Some (GStr (stop_reason_text reason)) \<and> msg_content m = GStr (rs_Output (last h))
     | None \<Rightarrow> int (length h) = ra_maxIterations r \<and> meta_get m ''stop_reason'' = Some (GStr (stop_reason_text StopMaxIterations)))"
proof -
  let ?r = "r\<lparr>ra_history := []\<rparr>"
  obtain g w1 where g: "agent_Process (ra_generator ?r) ctx (Some message) w = (g, w1)" by (metis prod.exhaust)
  then obtain out where out: "g = Ok out" using assms(2) by (cases g) (auto simp: reflection_Process_def)
  have loop: "reflect_loop ff now ce trim unmarshal ctx message (nat (ra_maxIterations r)) 1 out 0 ?r w1 = (Ok (Some m), r', w')"
    using assms(2) g out by (simp add: reflection_Process_def)
  have "reflected ?r (nat (ra_maxIterations r)) m (ra_history r')"
    using reflect_loop_reflected [OF loop, of "nat (ra_maxIterations r)"] assms(1) by (auto simp: going_on_def trace_ok_def)
  moreover have "stop_rule ?r = stop_rule r" by (auto simp: stop_rule_def fun_eq_iff)
  ultimately show ?thesis using assms(1)
    by (auto simp: reflected_def reflection_GetHistory_def split: option.splits)
qed

definition counting_agent :: "string \<Rightarrow> nat agent" where
  "counting_agent s =
     \<lparr>agent_Name = s, agent_Capabilities = [],
      agent_Process = (\<lambda>ctx m n. (Ok (Some (NewMessage 0 ''assistant'' (s @ show_int (int n)))), Suc n))\<rparr>"

definition silent_critic :: "nat agent" where
  "silent_critic =
     \<lparr>agent_Name = ''critic'', agent_Capabilities = [],
      agent_Process = (\<lambda>ctx m n. (Ok (Some (NewMessage 0 ''assistant'' ''fine'')), n))\<rparr>"

definition two_rounds :: "nat ReflectionAgent" where
  "two_rounds =
     \<lparr>ra_generator = counting_agent ''draft '', ra_critic = silent_critic, ra_maxIterations = 2, ra_qualityThreshold = 9 / 10,
      ra_improvementThreshold = 1 / 20, ra_critiqueFormat = CritiqueFreeForm, ra_verbose = False, ra_history = []\<rparr>"

abbreviation example_reflection where
  "example_reflection r \<equiv> reflection_Process (\<lambda>_. []) (\<lambda>w. (0, w)) (\<lambda>ctx w. None) id (\<lambda>_. None) Background (NewMessage 0 ''user'' ''task'') r 0"

lemma two_rounds_run:
  "case example_reflection two_rounds of
     (Ok (Some m), r, w) \<Rightarrow> msg_content m = GStr ''draft 1'' \<and> map rs_Output (ra_history r) = [''draft 0'', ''draft 1'']
   | _ \<Rightarrow> False"
  by code_simp

theorem reflection_stops_right_witness:
  "\<exists>m r w. example_reflection two_rounds = (Ok (Some m), r, w) \<and> trace_ok (reflection_GetHistory r) \<and>
     int (length (reflection_GetHistory r)) \<le> 2 \<and> meta_get m ''reflection_iterations'' = Some (GInt 2)"
proof -
  obtain m r w where run: "example_reflection two_rounds = (Ok (Some m), r, w)" "map rs_Output (ra_history r) = [''draft 0'', ''draft 1'']"
    using two_rounds_run by (auto split: prod.splits outcome.splits option.splits)
  have len: "length (ra_history r) = 2" using arg_cong [OF run(2), of length] by simp
  have pos: "0 < ra_maxIterations two_rounds" "ra_maxIterations two_rounds = 2" by (simp_all add: two_rounds_def)
  from reflection_stops_right [OF pos(1) run(1)] have "trace_ok (reflection_GetHistory r)"
    "meta_get m ''reflection_iterations'' = Some (GInt (int (length (reflection_GetHistory r))))" by auto
  then show ?thesis using run(1) len by (auto simp: reflection_GetHistory_def)
qed

text \<open>
  When the iterations are used up, the reply is an output that was never scored, under the score
  of the one before: one iteration, two drafts, and only the first of them in the history.
\<close>

lemma last_refinement_is_unscored:
  "case example_reflection (two_rounds\<lparr>ra_maxIterations := 1\<rparr>) of
     (Ok (Some m), r, w) \<Rightarrow> msg_content m = GStr ''draft 1'' \<and> map rs_Output (ra_history r) = [''draft 0'']
   | _ \<Rightarrow> False"
  by code_simp

text \<open>Generator and critic that always reply make the agent reply, within the deadline.\<close>

lemma reflect_loop_answers:
  assumes "\<forall>m w. \<exists>x w'. agent_Process (ra_generator r) ctx (Some m) w = (Ok (Some x), w')"
    and "\<forall>m w. \<exists>x w'. agent_Process (ra_critic r) ctx (Some m) w = (Ok (Some x), w')" and "\<forall>w. ce ctx w = None"
  shows "\<exists>m r' w'. reflect_loop ff now ce trim unmarshal ctx message left i (Some out) prev r w = (Ok (Some m), r', w')"
  using assms(1,2)
proof (induction left arbitrary: i out prev r w)
  case 0
  then show ?case by (simp split: prod.splits)
next
  case (Suc left)
  obtain p w1 where p: "buildCritiquePrompt now r (ContentString ff message) (ContentString ff out) w = (p, w1)" by (metis prod.exhaust)
  obtain c w2 where c: "agent_Process (ra_critic r) ctx (Some p) w1 = (Ok (Some c), w2)" using Suc.prems(2) by blast
  obtain score feedback where sf: "parseCritique trim unmarshal r (ContentString ff c) = (score, feedback)" by (metis prod.exhaust)
  obtain r1 w3 where rec: "record_step ff now i out feedback score (score - prev) r w2 = (r1, w3)" by (metis prod.exhaust)
  have same: "ra_generator r1 = ra_generator r" "ra_critic r1 = ra_critic r"
    using rec by (auto simp: record_step_def split: prod.splits)
  obtain q w4 where q: "buildRefinementPrompt now (ContentString ff message) (ContentString ff out) feedback i w3 = (q, w4)"
    by (metis prod.exhaust)
  obtain g w5 where g: "agent_Process (ra_generator r1) ctx (Some q) w4 = (Ok (Some g), w5)" using Suc.prems(1) same by metis
  have "\<exists>m r' w'. reflect_loop ff now ce trim unmarshal ctx message left (i + 1) (Some g) score r1 w5 = (Ok (Some m), r', w')"
    by (rule Suc.IH) (use Suc.prems same in simp_all)
  then show ?case using assms(3) p c sf rec q g
    by (auto split: option.splits prod.splits)
qed

end
