(* ===== verification/Collaboration.thy ===== *)
theory Collaboration
  imports Patterns
begin

text \<open>
  Agents that work together as peers: rounds of collaboration (\<open>patterns/collaborative.go\<close>), and
  the orchestrator and the consensus agent of \<open>patterns/multiagent.go\<close>.

  Maps of agents are association lists whose order stands for the iteration order.  The functions
  that detect consensus and merge responses belong to the configuration; those that the package
  offers are defined here.  Lower case (\<open>lower\<close>) and the text of errors (\<open>et\<close>) are parameters.
\<close>

section \<open>Collaboration in rounds\<close>

type_synonym 'w consensus_func = "message option list \<Rightarrow> 'w \<Rightarrow> bool outcome \<times> 'w"
type_synonym 'w merge_func = "message option list \<Rightarrow> 'w \<Rightarrow> reply \<times> 'w"

record 'w CollaborativeAgent =
  col_name :: string
  col_agents :: "'w agent list"
  col_maxRounds :: int
  col_consensusFunc :: "'w consensus_func option"
  col_mergeFunc :: "'w merge_func"

record 'w CollaborativeConfig =
  cc_Agents :: "'w agent list"
  cc_MaxRounds :: int
  cc_ConsensusFunc :: "'w consensus_func option"
  cc_MergeFunc :: "'w merge_func option"

definition NewCollaborativeAgent :: "'w CollaborativeConfig option \<Rightarrow> 'w CollaborativeAgent outcome" where
  "NewCollaborativeAgent cfg =
     (case cfg of
        None \<Rightarrow> Err (Errorf ''config is required'' [] None)
      | Some config \<Rightarrow>
          if length (cc_Agents config) < 2
          then Err (Errorf ''at least two agents are required for collaboration'' [] None)
          else
            (case cc_MergeFunc config of
               None \<Rightarrow> Err (Errorf ''merge function is required'' [] None)
             | Some merge \<Rightarrow>
                 Ok \<lparr>col_name = ''CollaborativeAgent'', col_agents = cc_Agents config,
                     col_maxRounds = (if cc_MaxRounds config = 0 then 3 else cc_MaxRounds config),
                     col_consensusFunc = cc_ConsensusFunc config, col_mergeFunc = merge\<rparr>))"

record roundResult =
  rr_round :: int
  rr_responses :: "message option list"
  rr_consensus :: bool

abbreviation cnl :: string where
  "cnl \<equiv> [CHR 0x0A]"

text \<open>The text of a turn; \<open>responses\<close> is the context after the first message.\<close>

definition turn_text :: "(real \<Rightarrow> string) \<Rightarrow> message \<Rightarrow> message list \<Rightarrow> int \<Rightarrow> string \<Rightarrow> string" where
  "turn_text ff request responses rnd agentName =
     ''=== Collaboration Round '' @ show_int rnd @ '' ==='' @ cnl @ ''Agent: '' @ agentName @ cnl @ cnl @
     ''Original Request:'' @ cnl @ ContentString ff request @
     (if rnd = 0 then []
      else
        cnl @ cnl @ ''--- Previous Responses ---'' @ cnl @ cnl @
        concat (map (\<lambda>(i, m). ''Response '' @ show_int (int i + 1) @ '':'' @ cnl @ ContentString ff m @ cnl @ cnl)
          (List.enumerate 0 responses)) @
        ''--- Your Turn ---'' @ cnl @
        ''Please review the above responses and provide your refined contribution.'' @ cnl)"

definition buildContextMessage ::
    "(real \<Rightarrow> string) \<Rightarrow> 'w clock \<Rightarrow> message \<Rightarrow> message option list \<Rightarrow> int \<Rightarrow> string \<Rightarrow> ('w, message) call" where
  "buildContextMessage ff now request responses rnd agentName w =
     (if rnd \<noteq> 0 \<and> None \<in> set responses then (Panic ''nil pointer dereference'', w)
      else let (t, w) = now w in
        (Ok (NewMessage t ''user'' (turn_text ff request (map the responses) rnd agentName)), w))"

fun run_round ::
    "(real \<Rightarrow> string) \<Rightarrow> 'w clock \<Rightarrow> go_ctx \<Rightarrow> message \<Rightarrow> message option list \<Rightarrow> int \<Rightarrow> 'w agent list \<Rightarrow> message option list \<Rightarrow>
     ('w, message option list) call" where
  "run_round ff now ctx request history rnd [] responses w = (Ok responses, w)"
| "run_round ff now ctx request history rnd (a # as) responses w =
     (case buildContextMessage ff now request history rnd (agent_Name a) w of
        (Err e, w) \<Rightarrow> (Err e, w)
      | (Panic p, w) \<Rightarrow> (Panic p, w)
      | (Ok contextMsg, w) \<Rightarrow>
          (case agent_Process a ctx (Some contextMsg) w of
             (Ok response, w) \<Rightarrow> run_round ff now ctx request history rnd as (responses @ [response]) w
           | (Err e, w) \<Rightarrow>
               (Err (Errorf ''agent %s failed in round %d: %w'' [GStr (agent_Name a), GInt rnd] (Some e)), w)
           | (Panic p, w) \<Rightarrow> (Panic p, w)))"

definition round_value :: "roundResult \<Rightarrow> gval" where
  "round_value r =
     GMap [(''round'', GInt (rr_round r)), (''responses'', GInt (int (length (rr_responses r)))), (''consensus'', GBool (rr_consensus r))]"

definition collaboration_meta :: "'w CollaborativeAgent \<Rightarrow> roundResult list \<Rightarrow> string \<Rightarrow> message \<Rightarrow> message" where
  "collaboration_meta c rounds stopReason merged =
     (let md = (case msg_metadata merged of None \<Rightarrow> [] | Some md \<Rightarrow> md) in
      merged\<lparr>msg_metadata := Some
        (go_set ''rounds'' (GList (map round_value rounds))
          (go_set ''stop_reason'' (GStr stopReason)
            (go_set ''collaboration_agents'' (GInt (int (length (col_agents c))))
              (go_set ''collaboration_rounds'' (GInt (int (length rounds))) md))))\<rparr>)"

definition buildFinalResult :: "'w CollaborativeAgent \<Rightarrow> roundResult list \<Rightarrow> string \<Rightarrow> 'w \<Rightarrow> reply \<times> 'w" where
  "buildFinalResult c rounds stopReason w =
     (if rounds = [] then (Panic ''index out of range'', w)
      else
        (case col_mergeFunc c (rr_responses (last rounds)) w of
           (Ok (Some merged), w) \<Rightarrow> (Ok (Some (collaboration_meta c rounds stopReason merged)), w)
         | (Ok None, w) \<Rightarrow> (Panic ''nil pointer dereference'', w)
         | (Err e, w) \<Rightarrow> (Err e, w)
         | (Panic p, w) \<Rightarrow> (Panic p, w)))"

definition check_consensus :: "'w CollaborativeAgent \<Rightarrow> message option list \<Rightarrow> ('w, bool) call" where
  "check_consensus c responses w =
     (case col_consensusFunc c of None \<Rightarrow> (Ok False, w) | Some f \<Rightarrow> f responses w)"

fun collab_loop ::
    "(real \<Rightarrow> string) \<Rightarrow> 'w clock \<Rightarrow> 'w ctx_err \<Rightarrow> 'w CollaborativeAgent \<Rightarrow> go_ctx \<Rightarrow> message \<Rightarrow> nat \<Rightarrow> int \<Rightarrow>
     message option list \<Rightarrow> roundResult list \<Rightarrow> 'w \<Rightarrow> reply \<times> 'w" where
  "collab_loop ff now ce c ctx request 0 rnd history rounds w = buildFinalResult c rounds ''max_rounds'' w"
| "collab_loop ff now ce c ctx request (Suc left) rnd history rounds w =
     (case ce ctx w of
        Some e \<Rightarrow> (Err (Errorf ''collaboration cancelled at round %d: %w'' [GInt rnd] (Some e)), w)
      | None \<Rightarrow>
          (case run_round ff now ctx request history rnd (col_agents c) [] w of
             (Err e, w) \<Rightarrow> (Err e, w)
           | (Panic p, w) \<Rightarrow> (Panic p, w)
           | (Ok responses, w) \<Rightarrow>
               (case check_consensus c responses w of
                  (Err e, w) \<Rightarrow> (Err e, w)
                | (Panic p, w) \<Rightarrow> (Panic p, w)
                | (Ok hasConsensus, w) \<Rightarrow>
                    (let rounds = rounds @ [\<lparr>rr_round = rnd, rr_responses = responses, rr_consensus = hasConsensus\<rparr>] in
                     if hasConsensus then buildFinalResult c rounds ''consensus'' w
                     else collab_loop ff now ce c ctx request left (rnd + 1) (history @ responses) rounds w))))"

definition collab_Process ::
    "(real \<Rightarrow> string) \<Rightarrow> 'w clock \<Rightarrow> 'w ctx_err \<Rightarrow> 'w CollaborativeAgent \<Rightarrow> go_ctx \<Rightarrow> message option \<Rightarrow> 'w \<Rightarrow> reply \<times> 'w" where
  "collab_Process ff now ce c ctx m w =
     (case m of
        None \<Rightarrow> (Err (Errorf ''message cannot be nil'' [] None), w)
      | Some request \<Rightarrow>
          if col_maxRounds c < 0 then (Panic ''makeslice: cap out of range'', w)
          else collab_loop ff now ce c ctx request (nat (col_maxRounds c)) 0 [] [] w)"

section \<open>Detecting consensus\<close>

text \<open>A nil response panics where its content is read; the first one is read first.\<close>

definition ExactMatch :: "(real \<Rightarrow> string) \<Rightarrow> message option list \<Rightarrow> bool outcome" where
  "ExactMatch ff messages =
     (if length messages \<le> 1 then Ok True
      else
        (case messages of
           Some m # ms \<Rightarrow>
             fold (\<lambda>msg r.
               case r of
                 Ok True \<Rightarrow> (case msg of None \<Rightarrow> Panic ''nil pointer dereference''
                              | Some x \<Rightarrow> Ok (ContentString ff x = ContentString ff m))
               | _ \<Rightarrow> r) ms (Ok True)
         | _ \<Rightarrow> Panic ''nil pointer dereference''))"

definition SimilarityThreshold :: "(real \<Rightarrow> string) \<Rightarrow> (string \<Rightarrow> string) \<Rightarrow> real \<Rightarrow> message option list \<Rightarrow> bool outcome" where
  "SimilarityThreshold ff lower threshold messages =
     (if length messages \<le> 1 then Ok True
      else
        (case messages of
           Some m # ms \<Rightarrow>
             fold (\<lambda>msg r.
               case r of
                 Ok True \<Rightarrow> (case msg of None \<Rightarrow> Panic ''nil pointer dereference''
                              | Some x \<Rightarrow> Ok (strings_Contains (lower (ContentString ff m)) (take 20 (lower (ContentString ff x)))))
               | _ \<Rightarrow> r) ms (Ok True)
         | _ \<Rightarrow> Panic ''nil pointer dereference''))"

definition MajorityAgreement :: "(real \<Rightarrow> string) \<Rightarrow> message option list \<Rightarrow> bool outcome" where
  "MajorityAgreement ff messages =
     (if length messages \<le> 1 then Ok True
      else if None \<in> set messages then Panic ''nil pointer dereference''
      else
        let contentCount = count_votes (map (ContentString ff \<circ> the) messages);
            majority = int (length messages) div 2 + 1
        in Ok (\<exists>(_, n) \<in> set contentCount. n \<ge> majority))"

section \<open>Merging responses\<close>

definition no_responses :: "'w clock \<Rightarrow> 'w \<Rightarrow> reply \<times> 'w" where
  "no_responses now w = (let (t, w) = now w in (Ok (Some (NewMessage t ''assistant'' ''No responses to merge'')), w))"

definition merge_Concatenate :: "(real \<Rightarrow> string) \<Rightarrow> 'w clock \<Rightarrow> 'w merge_func" where
  "merge_Concatenate ff now messages w =
     (if messages = [] then no_responses now w
      else if None \<in> set messages then (Panic ''nil pointer dereference'', w)
      else let (t, w) = now w in
        (Ok (Some (NewMessage t ''assistant'' (strings_Join (map (ContentString ff \<circ> the) messages) separator))), w))"

definition merge_Vote :: "(real \<Rightarrow> string) \<Rightarrow> 'w clock \<Rightarrow> 'w merge_func" where
  "merge_Vote ff now messages w =
     (if messages = [] then no_responses now w
      else if None \<in> set messages then (Panic ''nil pointer dereference'', w)
      else
        let (winner, maxVotes) = vote_winner (count_votes (map (ContentString ff \<circ> the) messages));
            msgByContent = fold (\<lambda>m. go_set (ContentString ff (the m)) (the m)) messages []
        in case go_get msgByContent winner of
             None \<Rightarrow> (Panic ''nil pointer dereference'', w)
           | Some m \<Rightarrow>
               (case WithMetadata ''votes'' (GInt maxVotes) m of
                  Ok m \<Rightarrow> (map_outcome Some (WithMetadata ''total'' (GInt (int (length messages))) m), w)
                | Err e \<Rightarrow> (Err e, w)
                | Panic p \<Rightarrow> (Panic p, w)))"

definition merge_First :: "'w clock \<Rightarrow> 'w merge_func" where
  "merge_First now messages w = (case messages of [] \<Rightarrow> no_responses now w | m # _ \<Rightarrow> (Ok m, w))"

definition merge_Last :: "'w clock \<Rightarrow> 'w merge_func" where
  "merge_Last now messages w = (if messages = [] then no_responses now w else (Ok (last messages), w))"

section \<open>The orchestrator\<close>

datatype TaskStatus = TaskStatusPending | TaskStatusInProgress | TaskStatusCompleted | TaskStatusFailed

record AgentTask =
  tk_AgentName :: string
  tk_Description :: string
  tk_Result :: "string option"
  tk_Status :: TaskStatus
  tk_Error :: string

definition StrategySequential :: string where "StrategySequential = ''sequential''"

record 'w MultiAgentOrchestrator =
  mao_name :: string
  mao_agents :: "(string \<times> 'w agent) list"
  mao_strategy :: string
  mao_tasks :: "AgentTask list"

definition NewMultiAgentOrchestrator :: "string \<Rightarrow> 'w MultiAgentOrchestrator" where
  "NewMultiAgentOrchestrator strategy =
     \<lparr>mao_name = ''MultiAgentOrchestrator'', mao_agents = [],
      mao_strategy = (if strategy = [] then StrategySequential else strategy), mao_tasks = []\<rparr>"

definition mao_RegisterAgent :: "string \<Rightarrow> 'w agent \<Rightarrow> 'w MultiAgentOrchestrator \<Rightarrow> 'w MultiAgentOrchestrator" where
  "mao_RegisterAgent name a m = m\<lparr>mao_agents := go_set name a (mao_agents m)\<rparr>"

definition mao_UnregisterAgent :: "string \<Rightarrow> 'w MultiAgentOrchestrator \<Rightarrow> 'w MultiAgentOrchestrator" where
  "mao_UnregisterAgent name m = m\<lparr>mao_agents := go_delete name (mao_agents m)\<rparr>"

definition mao_ListAgents :: "'w MultiAgentOrchestrator \<Rightarrow> string list" where
  "mao_ListAgents m = map fst (mao_agents m)"

fun mao_loop ::
    "(real \<Rightarrow> string) \<Rightarrow> (go_error \<Rightarrow> string) \<Rightarrow> go_ctx \<Rightarrow> message \<Rightarrow> (string \<times> 'w agent) list \<Rightarrow> string list \<Rightarrow> AgentTask list \<Rightarrow> 'w \<Rightarrow>
     string list outcome \<times> AgentTask list \<times> 'w" where
  "mao_loop ff et ctx message [] results tasks w = (Ok results, tasks, w)"
| "mao_loop ff et ctx message ((agentName, a) # as) results tasks w =
     (let task = \<lparr>tk_AgentName = agentName, tk_Description = ContentString ff message, tk_Result = None,
                  tk_Status = TaskStatusInProgress, tk_Error = []\<rparr> in
      case agent_Process a ctx (Some message) w of
        (Err e, w) \<Rightarrow>
          mao_loop ff et ctx message as (results @ [agentName @ '': Failed - '' @ et e])
            (tasks @ [task\<lparr>tk_Error := et e, tk_Status := TaskStatusFailed\<rparr>]) w
      | (Panic p, w) \<Rightarrow> (Panic p, tasks @ [task], w)
      | (Ok None, w) \<Rightarrow> (Panic ''nil pointer dereference'', tasks @ [task], w)
      | (Ok (Some response), w) \<Rightarrow>
          mao_loop ff et ctx message as (results @ [agentName @ '': '' @ ContentString ff response])
            (tasks @ [task\<lparr>tk_Result := Some (ContentString ff response), tk_Status := TaskStatusCompleted\<rparr>]) w)"

definition plain_reply :: "string \<Rightarrow> message" where
  "plain_reply content = \<lparr>msg_role = ''assistant'', msg_content = GStr content, msg_metadata = None, msg_timestamp = 0\<rparr>"

definition mao_Process ::
    "(real \<Rightarrow> string) \<Rightarrow> (go_error \<Rightarrow> string) \<Rightarrow> go_ctx \<Rightarrow> message \<Rightarrow> 'w MultiAgentOrchestrator \<Rightarrow> 'w \<Rightarrow> reply \<times> 'w MultiAgentOrchestrator \<times> 'w" where
  "mao_Process ff et ctx message m w =
     (case mao_loop ff et ctx message (mao_agents m) [] (mao_tasks m) w of
        (Ok results, tasks, w) \<Rightarrow> (Ok (Some (plain_reply (strings_Join results (cnl @ cnl)))), m\<lparr>mao_tasks := tasks\<rparr>, w)
      | (Err e, tasks, w) \<Rightarrow> (Err e, m\<lparr>mao_tasks := tasks\<rparr>, w)
      | (Panic p, tasks, w) \<Rightarrow> (Panic p, m\<lparr>mao_tasks := tasks\<rparr>, w))"

definition mao_GetTasks :: "'w MultiAgentOrchestrator \<Rightarrow> AgentTask list" where
  "mao_GetTasks m = mao_tasks m"

section \<open>The consensus agent\<close>

definition VotingMajority :: string where "VotingMajority = ''majority''"

record 'w ConsensusAgent =
  ca_name :: string
  ca_agents :: "'w agent list"
  ca_votingStrategy :: string

definition NewConsensusAgent :: "string \<Rightarrow> 'w ConsensusAgent" where
  "NewConsensusAgent votingStrategy =
     \<lparr>ca_name = ''ConsensusAgent'', ca_agents = [],
      ca_votingStrategy = (if votingStrategy = [] then VotingMajority else votingStrategy)\<rparr>"

definition consensus_AddAgent :: "'w agent \<Rightarrow> 'w ConsensusAgent \<Rightarrow> 'w ConsensusAgent" where
  "consensus_AddAgent a c = c\<lparr>ca_agents := ca_agents c @ [a]\<rparr>"

fun consensus_loop :: "(real \<Rightarrow> string) \<Rightarrow> go_ctx \<Rightarrow> message \<Rightarrow> 'w agent list \<Rightarrow> string list \<Rightarrow> ('w, string list) call" where
  "consensus_loop ff ctx message [] responses w = (Ok responses, w)"
| "consensus_loop ff ctx message (a # as) responses w =
     (case agent_Process a ctx (Some message) w of
        (Err e, w) \<Rightarrow> (Err (Errorf ''agent %s failed: %w'' [GStr (agent_Name a)] (Some e)), w)
      | (Panic p, w) \<Rightarrow> (Panic p, w)
      | (Ok None, w) \<Rightarrow> (Panic ''nil pointer dereference'', w)
      | (Ok (Some response), w) \<Rightarrow> consensus_loop ff ctx message as (responses @ [ContentString ff response]) w)"

definition consensus_text :: "string list \<Rightarrow> string" where
  "consensus_text responses =
     ''Consensus from '' @ show_int (int (length responses)) @ '' agents:'' @ cnl @ cnl @
     strings_Join (map (\<lambda>(i, resp). ''Agent '' @ show_int (int i + 1) @ '': '' @ resp) (List.enumerate 0 responses)) (cnl @ cnl)"

definition consensus_Process ::
    "(real \<Rightarrow> string) \<Rightarrow> go_ctx \<Rightarrow> message \<Rightarrow> 'w ConsensusAgent \<Rightarrow> 'w \<Rightarrow> reply \<times> 'w" where
  "consensus_Process ff ctx message c w =
     (case consensus_loop ff ctx message (ca_agents c) [] w of
        (Ok responses, w) \<Rightarrow> (Ok (Some (plain_reply (consensus_text responses))), w)
      | (Err e, w) \<Rightarrow> (Err e, w)
      | (Panic p, w) \<Rightarrow> (Panic p, w))"

section \<open>The rounds of a collaboration\<close>

lemma run_round_length:
  "run_round ff now ctx request history n as responses w = (Ok rs, w') \<Longrightarrow> length rs = length responses + length as"
  by (induction ff now ctx request history n as responses w rule: run_round.induct) (auto split: prod.splits outcome.splits)

text \<open>Round \<open>i\<close> asked every agent, with the responses of all earlier rounds as its history.\<close>

definition round_done ::
    "(real \<Rightarrow> string) \<Rightarrow> 'w clock \<Rightarrow> go_ctx \<Rightarrow> 'w CollaborativeAgent \<Rightarrow> message \<Rightarrow> roundResult list \<Rightarrow> nat \<Rightarrow> bool" where
  "round_done ff now ctx c request rounds i \<longleftrightarrow>
     rr_round (rounds ! i) = int i \<and> length (rr_responses (rounds ! i)) = length (col_agents c) \<and>
     (\<exists>u u'. run_round ff now ctx request (concat (map rr_responses (take i rounds))) (int i) (col_agents c) [] u =
        (Ok (rr_responses (rounds ! i)), u'))"

lemma round_done_append:
  "i < length rounds \<Longrightarrow> round_done ff now ctx c request (rounds @ extra) i = round_done ff now ctx c request rounds i"
  by (simp add: round_done_def nth_append)

definition finished ::
    "(real \<Rightarrow> string) \<Rightarrow> 'w clock \<Rightarrow> go_ctx \<Rightarrow> 'w CollaborativeAgent \<Rightarrow> message \<Rightarrow> nat \<Rightarrow> message \<Rightarrow> 'w \<Rightarrow> roundResult list \<Rightarrow> bool" where
  "finished ff now ctx c request N m w' rounds \<longleftrightarrow> rounds \<noteq> [] \<and> length rounds \<le> N \<and>
     (\<forall>i < length rounds. round_done ff now ctx c request rounds i) \<and>
     (\<forall>i < length rounds - 1. \<not> rr_consensus (rounds ! i)) \<and> (rr_consensus (last rounds) \<or> length rounds = N) \<and>
     (\<exists>merged u. col_mergeFunc c (rr_responses (last rounds)) u = (Ok (Some merged), w') \<and>
        m = collaboration_meta c rounds (if rr_consensus (last rounds) then ''consensus'' else ''max_rounds'') merged)"

lemma buildFinalResult_Ok:
  assumes "buildFinalResult c rounds reason w = (Ok (Some m), w')"
  obtains merged where "rounds \<noteq> []" and "col_mergeFunc c (rr_responses (last rounds)) w = (Ok (Some merged), w')"
    and "m = collaboration_meta c rounds reason merged"
proof -
  have ne: "rounds \<noteq> []" using assms by (auto simp: buildFinalResult_def)
  obtain x u where x: "col_mergeFunc c (rr_responses (last rounds)) w = (x, u)" by (metis prod.exhaust)
  then obtain merged where "x = Ok (Some merged)" using assms ne
    by (cases x) (auto simp: buildFinalResult_def split: option.splits)
  then show thesis using that [of merged] assms ne x by (auto simp: buildFinalResult_def)
qed

lemma collab_loop_finished:
  assumes "collab_loop ff now ce c ctx request left (int (length rounds)) (concat (map rr_responses rounds)) rounds w = (Ok (Some m), w')"
    and "\<forall>i < length rounds. round_done ff now ctx c request rounds i \<and> \<not> rr_consensus (rounds ! i)"
    and "length rounds + left = N"
  shows "\<exists>rs. finished ff now ctx c request N m w' rs"
  using assms
proof (induction left arbitrary: rounds w)
  case 0
  then obtain merged where m: "rounds \<noteq> []" "col_mergeFunc c (rr_responses (last rounds)) w = (Ok (Some merged), w')"
    "m = collaboration_meta c rounds ''max_rounds'' merged" by (auto elim: buildFinalResult_Ok)
  have "\<not> rr_consensus (last rounds)" using 0(2) m(1) by (simp add: last_conv_nth)
  then have "finished ff now ctx c request N m w' rounds" using 0 m by (auto simp: finished_def)
  then show ?case ..
next
  case (Suc left)
  have ce: "ce ctx w = None" using Suc.prems(1) by (cases "ce ctx w") auto
  obtain x w1 where x: "run_round ff now ctx request (concat (map rr_responses rounds)) (int (length rounds)) (col_agents c) [] w = (x, w1)"
    by (metis prod.exhaust)
  then obtain responses where ok: "x = Ok responses" using Suc.prems(1) ce by (cases x) auto
  obtain y w2 where y: "check_consensus c responses w1 = (y, w2)" by (metis prod.exhaust)
  then obtain b where b: "y = Ok b" using Suc.prems(1) ce x ok by (cases y) auto
  let ?r = "\<lparr>rr_round = int (length rounds), rr_responses = responses, rr_consensus = b\<rparr>"
  have "length responses = length (col_agents c)" using run_round_length [of ff now ctx request _ _ "col_agents c" "[]"] x ok by auto
  then have new: "round_done ff now ctx c request (rounds @ [?r]) (length rounds)"
    using x ok by (auto simp: round_done_def)
  have old: "round_done ff now ctx c request (rounds @ [?r]) i" "\<not> rr_consensus ((rounds @ [?r]) ! i)" if "i < length rounds" for i
    using Suc.prems(2) that by (simp_all add: round_done_append nth_append)
  show ?case
  proof (cases b)
    case True
    then have "buildFinalResult c (rounds @ [?r]) ''consensus'' w2 = (Ok (Some m), w')"
      using Suc.prems(1) ce x ok y b by simp
    then obtain merged where m: "col_mergeFunc c responses w2 = (Ok (Some merged), w')"
      "m = collaboration_meta c (rounds @ [?r]) ''consensus'' merged" by (auto elim: buildFinalResult_Ok)
    have "finished ff now ctx c request N m w' (rounds @ [?r])"
      using m new old True Suc.prems(3) by (auto simp: finished_def less_Suc_eq)
    then show ?thesis ..
  next
    case False
    have loop: "collab_loop ff now ce c ctx request left (int (length (rounds @ [?r]))) (concat (map rr_responses (rounds @ [?r])))
        (rounds @ [?r]) w2 = (Ok (Some m), w')"
      using Suc.prems(1) ce x ok y b False by (simp add: add.commute)
    show ?thesis
      by (rule Suc.IH [OF loop]) (use new old False Suc.prems(3) in \<open>auto simp: less_Suc_eq\<close>)
  qed
qed

text \<open>
  A collaboration runs its rounds and stops at the first consensus.  When it answers, there were
  between one and the maximum number of rounds; every round asked every agent once, in order,
  with the responses of all earlier rounds as its history; no round but the last had a consensus,
  and without one all rounds were used; the reply is the merge of the responses of the last round,
  and its metadata say which of the two it was.
\<close>
lemma collaboration_rounds:
  assumes "collab_Process ff now ce c ctx (Some request) w = (Ok (Some m), w')"
  shows "\<exists>rounds merged u. rounds \<noteq> [] \<and> int (length rounds) \<le> col_maxRounds c \<and>
    (\<forall>i < length rounds. round_done ff now ctx c request rounds i) \<and>
    (\<forall>i < length rounds - 1. \<not> rr_consensus (rounds ! i)) \<and>
    (rr_consensus (last rounds) \<or> int (length rounds) = col_maxRounds c) \<and>
    col_mergeFunc c (rr_responses (last rounds)) u = (Ok (Some merged), w') \<and>
    m = collaboration_meta c rounds (if rr_consensus (last rounds) then ''consensus'' else ''max_rounds'') merged"
proof -
  have pos: "0 \<le> col_maxRounds c" using assms by (auto simp: collab_Process_def split: if_splits)
  then have "collab_loop ff now ce c ctx request (nat (col_maxRounds c)) (int (length [])) (concat (map rr_responses [])) [] w = (Ok (Some m), w')"
    using assms by (simp add: collab_Process_def)
  from collab_loop_finished [OF this] obtain rounds where "finished ff now ctx c request (nat (col_maxRounds c)) m w' rounds" by auto
  moreover from this have "int (length rounds) \<le> col_maxRounds c" "rr_consensus (last rounds) \<or> int (length rounds) = col_maxRounds c"
    using pos by (auto simp: finished_def)
  ultimately show ?thesis unfolding finished_def by blast
qed

definition yes_agent :: "unit agent" where
  "yes_agent = \<lparr>agent_Name = ''peer'', agent_Capabilities = [], agent_Process = (\<lambda>ctx m w. (Ok (Some (plain_reply ''yes'')), w))\<rparr>"

definition two_peers :: "unit CollaborativeAgent" where
  "two_peers =
     \<lparr>col_name = ''CollaborativeAgent'', col_agents = [yes_agent, yes_agent], col_maxRounds = 3,
      col_consensusFunc = Some (\<lambda>ms w. (ExactMatch (\<lambda>_. []) ms, w)), col_mergeFunc = merge_First (\<lambda>w. (0, w))\<rparr>"

abbreviation example_collaboration where
  "example_collaboration \<equiv>
     collab_Process (\<lambda>_. []) (\<lambda>w. (0, w)) (\<lambda>ctx w. None) two_peers Background (Some (plain_reply ''ok?'')) ()"

lemma two_peers_agree:
  "case example_collaboration of (Ok (Some m), w) \<Rightarrow> meta_get m ''stop_reason'' = Some (GStr ''consensus'') | _ \<Rightarrow> False"
  by code_simp

section \<open>Consensus\<close>

lemma ExactMatch_exact:
  assumes "None \<notin> set ms" and "ms \<noteq> []"
  shows "ExactMatch ff ms = Ok (\<forall>x \<in> set ms. ContentString ff (the x) = ContentString ff (the (hd ms)))"
proof -
  have step: "fold (\<lambda>msg r. case r of
        Ok True \<Rightarrow> (case msg of None \<Rightarrow> Panic ''nil pointer dereference'' | Some x \<Rightarrow> Ok (ContentString ff x = s))
      | _ \<Rightarrow> r) xs (Ok b) = Ok (b \<and> (\<forall>x \<in> set xs. ContentString ff (the x) = s))" if "None \<notin> set xs" for xs s b
    using that
  proof (induction xs arbitrary: b)
    case (Cons x xs)
    then obtain y where y: "x = Some y" by (cases x) auto
    show ?case using Cons y by (cases b) simp_all
  qed simp
  obtain m rest where ms: "ms = Some m # rest" using assms by (cases ms; cases "hd ms") auto
  show ?thesis
  proof (cases rest)
    case (Cons y ys)
    have "ExactMatch ff ms = Ok (True \<and> (\<forall>x \<in> set rest. ContentString ff (the x) = ContentString ff m))"
      using step [of rest "ContentString ff m" True] assms(1) ms Cons by (simp add: ExactMatch_def)
    then show ?thesis using ms by simp
  qed (use ms in \<open>simp add: ExactMatch_def\<close>)
qed

lemma MajorityAgreement_exact:
  assumes "None \<notin> set ms" and "2 \<le> length ms"
  shows "MajorityAgreement ff ms = Ok (\<exists>s. length ms < 2 * count_list (map (ContentString ff \<circ> the) ms) s)"
proof -
  let ?cs = "map (ContentString ff \<circ> the) ms"
  have mem: "(s, n) \<in> set (count_votes ?cs) \<longleftrightarrow> s \<in> set ?cs \<and> n = int (count_list ?cs s)" for s n
    using count_votes_get [of ?cs s] go_get_Some_mem [of "count_votes ?cs" s n] go_map_mem_get [OF count_votes_ok, of s n ?cs]
    by (auto split: if_splits)
  have "(\<exists>(_, n) \<in> set (count_votes ?cs). n \<ge> int (length ms) div 2 + 1) \<longleftrightarrow>
      (\<exists>s \<in> set ?cs. int (count_list ?cs s) \<ge> int (length ms) div 2 + 1)" using mem by fastforce
  also have "\<dots> \<longleftrightarrow> (\<exists>s. length ms < 2 * count_list ?cs s)"
  proof -
    have iff: "int k \<ge> int (length ms) div 2 + 1 \<longleftrightarrow> length ms < 2 * k" for k by presburger
    have "s \<in> set ?cs" if "length ms < 2 * count_list ?cs s" for s
      using that by (metis count_list_0_iff mult_0_right not_less_zero)
    then show ?thesis unfolding iff by blast
  qed
  finally show ?thesis using assms by (simp add: MajorityAgreement_def Let_def)
qed

text \<open>The threshold of \<open>SimilarityThreshold\<close> is never looked at, and an empty response is similar to anything.\<close>

lemma similarity_ignores_threshold: "SimilarityThreshold ff lower t ms = SimilarityThreshold ff lower t' ms"
  by (simp add: SimilarityThreshold_def)

lemma similarity_with_empty:
  assumes "lower [] = []" and "ContentString ff e = []"
  shows "SimilarityThreshold ff lower t [Some m, Some e] = Ok True"
  using assms by (simp add: SimilarityThreshold_def strings_Contains_def)

text \<open>A negative number of rounds is accepted by the constructor and panics in every call.\<close>

lemma negative_rounds_panic:
  assumes "NewCollaborativeAgent (Some config) = Ok c" and "cc_MaxRounds config < 0"
  shows "collab_Process ff now ce c ctx (Some request) w = (Panic ''makeslice: cap out of range'', w)"
  using assms by (auto simp: NewCollaborativeAgent_def collab_Process_def split: if_splits option.splits)

section \<open>The orchestrator's tasks\<close>

text \<open>Every run appends one task for every agent, in the order of the loop, completed or failed.\<close>

lemma mao_loop_tasks:
  "mao_loop ff et ctx m as results tasks w = (Ok rs, tasks', w') \<Longrightarrow>
     \<exists>new. tasks' = tasks @ new \<and> map tk_AgentName new = map fst as \<and> length rs = length results + length as \<and>
       (\<forall>t \<in> set new. tk_Status t = TaskStatusCompleted \<and> tk_Result t \<noteq> None \<or> tk_Status t = TaskStatusFailed \<and> tk_Result t = None)"
proof (induction ff et ctx m as results tasks w arbitrary: rs tasks' w' rule: mao_loop.induct)
  case (2 ff et ctx m name a as results tasks w)
  obtain x w1 where x: "agent_Process a ctx (Some m) w = (x, w1)" by (metis prod.exhaust)
  show ?case
  proof (cases x)
    case (Ok y)
    then obtain r where y: "y = Some r" using 2(3) x by (cases y) auto
    from 2(1) [OF refl x [symmetric] Ok y] 2(3) x Ok y show ?thesis by auto
  next
    case (Err e)
    from 2(2) [OF refl x [symmetric] Err] 2(3) x Err show ?thesis by auto
  qed (use 2(3) x in auto)
qed simp

end
