(* ===== verification/Vector_Memory.thy ===== *)
theory Vector_Memory
  imports Memory "HOL-Library.Multiset"
begin

text \<open>
  The memory with semantic search (\<open>memory/vector_memory.go\<close>): the in-process vector store with
  cosine similarity and the memory on top of it.

  The embedding provider is a parameter \<open>emb\<close>, a function of the text that may fail.  Package
  \<open>sort\<close> is a parameter for each of the two sorts (\<open>srt\<close> for scored results, \<open>sre\<close> for entries).
  The arithmetic of \<open>float64\<close> is a parameter \<open>fo\<close>: every operation of the similarity rounds, and a
  product that is added may be fused with the sum; no law of it is used for the search, so
  the scores are those that the program computes, as long as they are finite.
\<close>

section \<open>The store\<close>

record vectorEntry =
  ve_messageID :: string
  ve_embedding :: "real list"
  ve_message :: message
  ve_metadata :: "(string \<times> gval) list"
  ve_timestamp :: real

record MemoryVectorStore =
  vs_storage :: "(string \<times> vectorEntry list) list"
  vs_idCounter :: int

definition NewMemoryVectorStore :: MemoryVectorStore where
  "NewMemoryVectorStore = \<lparr>vs_storage = [], vs_idCounter = 0\<rparr>"

text \<open>\<open>float64\<close> operations: \<open>fma_of x y s\<close> is \<open>s + x * y\<close> as it is rounded, \<open>rounded\<close> rounds a result.\<close>

record float_ops =
  fma_of :: "real \<Rightarrow> real \<Rightarrow> real \<Rightarrow> real"
  rounded :: "real \<Rightarrow> real"

text \<open>One of the three sums of the loop over the components.\<close>

definition dot :: "float_ops \<Rightarrow> real list \<Rightarrow> real list \<Rightarrow> real" where
  "dot fo a b = fold (\<lambda>(x, y) s. fma_of fo x y s) (zip a b) 0"

definition cosineSimilarity :: "float_ops \<Rightarrow> real list \<Rightarrow> real list \<Rightarrow> real" where
  "cosineSimilarity fo a b =
     (if length a \<noteq> length b then 0
      else
        let dotProduct = dot fo a b;
            magnitudeA = rounded fo (sqrt (dot fo a a));
            magnitudeB = rounded fo (sqrt (dot fo b b)) in
        if magnitudeA = 0 \<or> magnitudeB = 0 then 0
        else rounded fo (dotProduct / rounded fo (magnitudeA * magnitudeB)))"

definition vs_entries :: "MemoryVectorStore \<Rightarrow> string \<Rightarrow> vectorEntry list" where
  "vs_entries s sessionID = (case go_get (vs_storage s) sessionID of None \<Rightarrow> [] | Some es \<Rightarrow> es)"

definition vs_Add ::
    "string \<Rightarrow> string \<Rightarrow> real list \<Rightarrow> message \<Rightarrow> (string \<times> gval) list \<Rightarrow> real \<Rightarrow> MemoryVectorStore \<Rightarrow> MemoryVectorStore" where
  "vs_Add sessionID messageID embedding message metadata timestamp s =
     s\<lparr>vs_storage := go_set sessionID (vs_entries s sessionID @
        [\<lparr>ve_messageID = messageID, ve_embedding = embedding, ve_message = message, ve_metadata = metadata,
          ve_timestamp = timestamp\<rparr>]) (vs_storage s)\<rparr>"

text \<open>The filters are those of the ephemeral memory.\<close>

definition ve_item :: "vectorEntry \<Rightarrow> MessageWithMetadata" where
  "ve_item e = \<lparr>mm_Timestamp = ve_timestamp e, mm_Message = ve_message e, mm_Metadata = ve_metadata e\<rparr>"

fun collect_upto :: "int \<Rightarrow> ('a \<Rightarrow> bool) \<Rightarrow> 'a list \<Rightarrow> 'a list \<Rightarrow> 'a list" where
  "collect_upto limit P [] filtered = filtered"
| "collect_upto limit P (x # xs) filtered =
     (if P x then
        let filtered = filtered @ [x] in
        if int (length filtered) \<ge> limit then filtered else collect_upto limit P xs filtered
      else collect_upto limit P xs filtered)"

definition cut_at :: "int \<Rightarrow> 'a list \<Rightarrow> 'a list outcome" where
  "cut_at limit filtered =
     (if int (length filtered) > limit then
        if limit < 0 then Panic ''slice bounds out of range'' else Ok (take (nat limit) filtered)
      else Ok filtered)"

record MessageSearchResult =
  sr_Message :: message
  sr_Metadata :: "(string \<times> gval) list"
  sr_Score :: real

type_synonym scored_sort = "(vectorEntry \<times> real \<Rightarrow> vectorEntry \<times> real \<Rightarrow> bool) \<Rightarrow> (vectorEntry \<times> real) list \<Rightarrow> (vectorEntry \<times> real) list"
type_synonym entry_sort = "(vectorEntry \<Rightarrow> vectorEntry \<Rightarrow> bool) \<Rightarrow> vectorEntry list \<Rightarrow> vectorEntry list"

definition higher_score :: "vectorEntry \<times> real \<Rightarrow> vectorEntry \<times> real \<Rightarrow> bool" where
  "higher_score x y \<longleftrightarrow> snd x > snd y"

definition later :: "vectorEntry \<Rightarrow> vectorEntry \<Rightarrow> bool" where
  "later x y \<longleftrightarrow> ve_timestamp x > ve_timestamp y"

definition search_result :: "vectorEntry \<times> real \<Rightarrow> MessageSearchResult" where
  "search_result x = \<lparr>sr_Message = ve_message (fst x), sr_Metadata = ve_metadata (fst x), sr_Score = snd x\<rparr>"

definition vs_Search ::
    "float_ops \<Rightarrow> scored_sort \<Rightarrow> string \<Rightarrow> real list \<Rightarrow> int \<Rightarrow> RetrieveOptions \<Rightarrow> MemoryVectorStore \<Rightarrow> MessageSearchResult list outcome" where
  "vs_Search fo srt sessionID queryEmbedding limit opts s =
     (case go_get (vs_storage s) sessionID of
        None \<Rightarrow> Ok []
      | Some entries \<Rightarrow>
          let results = srt higher_score (map (\<lambda>e. (e, cosineSimilarity fo queryEmbedding (ve_embedding e))) entries) in
          map_outcome (map search_result)
            (cut_at limit (collect_upto limit (\<lambda>x. em_matches opts (ve_item (fst x))) results [])))"

definition vs_GetRecent ::
    "entry_sort \<Rightarrow> string \<Rightarrow> int \<Rightarrow> RetrieveOptions \<Rightarrow> MemoryVectorStore \<Rightarrow> MessageWithMetadata list outcome" where
  "vs_GetRecent sre sessionID limit opts s =
     (case go_get (vs_storage s) sessionID of
        None \<Rightarrow> Ok []
      | Some entries \<Rightarrow>
          map_outcome (map ve_item)
            (cut_at limit (collect_upto limit (\<lambda>e. em_matches opts (ve_item e)) (sre later entries) [])))"

definition vs_Clear :: "string \<Rightarrow> MemoryVectorStore \<Rightarrow> MemoryVectorStore" where
  "vs_Clear sessionID s = s\<lparr>vs_storage := go_delete sessionID (vs_storage s)\<rparr>"

section \<open>The memory\<close>

text \<open>The memory over the in-process store, which is the default.\<close>

record VectorMemory =
  vm_vectorStore :: MemoryVectorStore
  vm_idCounter :: int

definition NewVectorMemory :: "MemoryVectorStore option \<Rightarrow> VectorMemory" where
  "NewVectorMemory vectorStore =
     \<lparr>vm_vectorStore = (case vectorStore of None \<Rightarrow> NewMemoryVectorStore | Some s \<Rightarrow> s), vm_idCounter = 0\<rparr>"

definition generateID :: "VectorMemory \<Rightarrow> string \<times> VectorMemory" where
  "generateID v =
     (let v = v\<lparr>vm_idCounter := vm_idCounter v + 1\<rparr> in (''msg-'' @ show_int (vm_idCounter v), v))"

type_synonym embedding = "string \<Rightarrow> real list outcome"

definition vm_Store ::
    "(real \<Rightarrow> string) \<Rightarrow> embedding \<Rightarrow> time \<Rightarrow> string \<Rightarrow> message \<Rightarrow> (string \<times> gval) list option \<Rightarrow> VectorMemory \<Rightarrow> unit outcome \<times> VectorMemory" where
  "vm_Store ff emb now sessionID message metadata v =
     (case emb (ContentString ff message) of
        Err e \<Rightarrow> (Err (Errorf ''failed to generate embedding: %w'' [] (Some e)), v)
      | Panic p \<Rightarrow> (Panic p, v)
      | Ok embedding \<Rightarrow>
          (let timestamp = real_of_int now / 1000000000;
               (messageID, v) = generateID v;
               metadata = (case metadata of None \<Rightarrow> [] | Some md \<Rightarrow> md)
           in (Ok (), v\<lparr>vm_vectorStore := vs_Add sessionID messageID embedding message metadata timestamp (vm_vectorStore v)\<rparr>)))"

definition vm_Retrieve ::
    "float_ops \<Rightarrow> scored_sort \<Rightarrow> entry_sort \<Rightarrow> embedding \<Rightarrow> string \<Rightarrow> RetrieveOptions \<Rightarrow> VectorMemory \<Rightarrow> message list outcome" where
  "vm_Retrieve fo srt sre emb sessionID opts v =
     (let limit = (case ro_Limit opts of None \<Rightarrow> 10 | Some n \<Rightarrow> n) in
      if ro_Query opts \<noteq> [] then
        (case emb (ro_Query opts) of
           Err e \<Rightarrow> Err (Errorf ''failed to generate query embedding: %w'' [] (Some e))
         | Panic p \<Rightarrow> Panic p
         | Ok queryEmbedding \<Rightarrow>
             map_outcome (map sr_Message) (vs_Search fo srt sessionID queryEmbedding limit opts (vm_vectorStore v)))
      else map_outcome (map mm_Message) (vs_GetRecent sre sessionID limit opts (vm_vectorStore v)))"

definition RetrieveWithScores ::
    "float_ops \<Rightarrow> scored_sort \<Rightarrow> embedding \<Rightarrow> string \<Rightarrow> string \<Rightarrow> int option \<Rightarrow> VectorMemory \<Rightarrow> MessageSearchResult list outcome" where
  "RetrieveWithScores fo srt emb sessionID query limit v =
     (let actualLimit = (case limit of None \<Rightarrow> 10 | Some n \<Rightarrow> n) in
      case emb query of
        Err e \<Rightarrow> Err (Errorf ''failed to generate query embedding: %w'' [] (Some e))
      | Panic p \<Rightarrow> Panic p
      | Ok queryEmbedding \<Rightarrow>
          vs_Search fo srt sessionID queryEmbedding actualLimit
            \<lparr>ro_Query = [], ro_Limit = None, ro_TimeRange = None, ro_ImportanceThreshold = None, ro_Tags = []\<rparr> (vm_vectorStore v))"

definition vm_Summarize ::
    "float_ops \<Rightarrow> (real \<Rightarrow> string) \<Rightarrow> scored_sort \<Rightarrow> entry_sort \<Rightarrow> embedding \<Rightarrow> string \<Rightarrow> VectorMemory \<Rightarrow> message outcome" where
  "vm_Summarize fo ff srt sre emb sessionID v =
     (case vm_Retrieve fo srt sre emb sessionID (with_limit 100) v of
        Ok messages \<Rightarrow>
          if messages = [] then Ok (system_message ''No messages in session.'')
          else Ok (system_message (summary_text ff messages))
      | Err e \<Rightarrow> Err e
      | Panic p \<Rightarrow> Panic p)"

definition vm_Clear :: "string \<Rightarrow> VectorMemory \<Rightarrow> VectorMemory" where
  "vm_Clear sessionID v = v\<lparr>vm_vectorStore := vs_Clear sessionID (vm_vectorStore v)\<rparr>"

section \<open>Cosine similarity\<close>

text \<open>
  In exact arithmetic the similarity is symmetric, lies between -1 and 1, and is 1 for a vector
  and itself.  (Rounded it can exceed 1: the program gives 1.0000000000000002 for [1, 1, 1]
  and itself.)
\<close>

definition exact_ops :: float_ops where
  "exact_ops = \<lparr>fma_of = (\<lambda>x y s. s + x * y), rounded = (\<lambda>x. x)\<rparr>"

abbreviation edot :: "real list \<Rightarrow> real list \<Rightarrow> real" where
  "edot \<equiv> dot exact_ops"

lemma dot_exact: "edot a b = sum_list (map (\<lambda>(x, y). x * y) (zip a b))"
proof -
  have "fold (\<lambda>(x, y) s. s + x * y) ps c = c + sum_list (map (\<lambda>(x, y). x * y) ps)" for ps and c :: real
    by (induction ps arbitrary: c) auto
  then show ?thesis by (simp add: dot_def exact_ops_def)
qed

lemma dot_Cons [simp]: "edot (x # a) (y # b) = x * y + edot a b"
  by (simp add: dot_exact)

lemma dot_Nil [simp]: "edot [] b = 0" "edot a [] = 0"
  by (simp_all add: dot_exact)

lemma dot_commute: "length a = length b \<Longrightarrow> edot a b = edot b a"
  by (induction a b rule: list_induct2) auto

lemma dot_self_nonneg: "0 \<le> edot a a"
  by (induction a) auto

lemma cauchy_schwarz: "length a = length b \<Longrightarrow> (edot a b)\<^sup>2 \<le> edot a a * edot b b"
proof (induction a b rule: list_induct2)
  case (Cons x a y b)
  let ?S = "edot a b" and ?A = "edot a a" and ?B = "edot b b"
  have nn: "0 \<le> ?A" "0 \<le> ?B" by (rule dot_self_nonneg)+
  have S: "\<bar>?S\<bar> \<le> sqrt ?A * sqrt ?B"
    using real_sqrt_le_mono [OF Cons.IH] by (simp add: real_sqrt_mult)
  have "2 * (x * y) * ?S \<le> 2 * (\<bar>x\<bar> * \<bar>y\<bar>) * \<bar>?S\<bar>"
  proof -
    have "(x * y) * ?S \<le> \<bar>(x * y) * ?S\<bar>" by (rule abs_ge_self)
    then show ?thesis by (simp add: abs_mult)
  qed
  also have "\<dots> \<le> 2 * (\<bar>x\<bar> * \<bar>y\<bar>) * (sqrt ?A * sqrt ?B)" using S by (intro mult_left_mono) auto
  also have "\<dots> = 2 * (\<bar>x\<bar> * sqrt ?B) * (\<bar>y\<bar> * sqrt ?A)" by simp
  also have "\<dots> \<le> (\<bar>x\<bar> * sqrt ?B)\<^sup>2 + (\<bar>y\<bar> * sqrt ?A)\<^sup>2"
    using sum_squares_ge_zero [of "\<bar>x\<bar> * sqrt ?B - \<bar>y\<bar> * sqrt ?A" 0] by (simp add: power2_eq_square algebra_simps)
  also have "\<dots> = x\<^sup>2 * ?B + y\<^sup>2 * ?A" using nn by (simp add: power_mult_distrib)
  finally have "2 * (x * y) * ?S \<le> x\<^sup>2 * ?B + y\<^sup>2 * ?A" .
  then show ?case using Cons.IH by (simp add: power2_eq_square algebra_simps)
qed simp

lemma ops: "rounded exact_ops x = x"
  by (simp add: exact_ops_def)

lemma cosine_bounded: "\<bar>cosineSimilarity exact_ops a b\<bar> \<le> 1"
proof (cases "length a = length b \<and> sqrt (edot a a) \<noteq> 0 \<and> sqrt (edot b b) \<noteq> 0")
  case True
  have "\<bar>edot a b\<bar> \<le> sqrt (edot a a) * sqrt (edot b b)"
    using real_sqrt_le_mono [OF cauchy_schwarz [of a b]] True by (simp add: real_sqrt_mult)
  moreover have "0 < sqrt (edot a a) * sqrt (edot b b)"
    using True dot_self_nonneg [of a] dot_self_nonneg [of b] by (simp add: less_le)
  ultimately show ?thesis using True by (simp add: cosineSimilarity_def Let_def ops)
qed (auto simp: cosineSimilarity_def Let_def ops)

lemma cosine_commute: "cosineSimilarity exact_ops a b = cosineSimilarity exact_ops b a"
  using dot_commute [of a b] by (auto simp: cosineSimilarity_def Let_def ops mult.commute)

lemma cosine_self: "edot a a \<noteq> 0 \<Longrightarrow> cosineSimilarity exact_ops a a = 1"
  using dot_self_nonneg [of a] by (simp add: cosineSimilarity_def Let_def ops)

section \<open>Search\<close>

lemma collect_upto_take:
  assumes "int (length acc) < limit"
  shows "collect_upto limit P xs acc = acc @ take (nat limit - length acc) (filter P xs)"
  using assms
proof (induction xs arbitrary: acc)
  case (Cons x xs)
  show ?case
  proof (cases "P x")
    case True
    have d: "nat limit - length acc = Suc (nat limit - Suc (length acc))" using Cons.prems by auto
    show ?thesis
    proof (cases "int (length (acc @ [x])) \<ge> limit")
      case True
      then have "nat limit - Suc (length acc) = 0" by auto
      then show ?thesis using True \<open>P x\<close> d by simp
    next
      case False
      then show ?thesis using Cons.IH [of "acc @ [x]"] \<open>P x\<close> d by simp
    qed
  qed (use Cons in simp)
qed simp

text \<open>For every limit that is not negative the loop and the cut give the first matches.\<close>

lemma cut_collect:
  assumes "0 \<le> limit"
  shows "cut_at limit (collect_upto limit P xs []) = Ok (take (nat limit) (filter P xs))"
proof (cases "limit = 0")
  case True
  have "\<exists>ys. collect_upto 0 P xs [] = ys" by blast
  then show ?thesis using True by (auto simp: cut_at_def)
next
  case False
  then show ?thesis using collect_upto_take [of "[]" limit P xs] assms by (simp add: cut_at_def min_def)
qed

definition vs_matching :: "RetrieveOptions \<Rightarrow> string \<Rightarrow> MemoryVectorStore \<Rightarrow> vectorEntry list" where
  "vs_matching opts sid s = filter (\<lambda>e. em_matches opts (ve_item e)) (vs_entries s sid)"

lemma sorted_take_best:
  assumes "sorted_wrt (\<lambda>x y. \<not> lt y x) xs" and "x \<in> set (take n xs)" and "y \<in> set (drop n xs)"
  shows "\<not> lt y x"
proof -
  have "sorted_wrt (\<lambda>x y. \<not> lt y x) (take n xs @ drop n xs)" using assms(1) by simp
  then show ?thesis using assms(2,3) by (auto simp only: sorted_wrt_append)
qed

text \<open>
  C36.
  Semantic search returns the best matches of the session.  For every limit that is not negative
  the search returns as many results as there are entries that pass the filters, at most the
  limit; they are entries of this session, each with its similarity to the query as the program
  computes it, in whatever way its arithmetic rounds; they come in descending order; and no
  entry that passes the filters and is left out scores higher than one that is returned.
\<close>
theorem vector_search_ranked:
  assumes "sort_slice srt" and "0 \<le> limit"
  shows "\<exists>es left. vs_Search fo srt sid q limit opts s = Ok (map (\<lambda>e. search_result (e, cosineSimilarity fo q (ve_embedding e))) es) \<and>
    mset es + mset left = mset (vs_matching opts sid s) \<and> length es = min (nat limit) (length (vs_matching opts sid s)) \<and>
    sorted_wrt (\<lambda>x y. cosineSimilarity fo q (ve_embedding x) \<ge> cosineSimilarity fo q (ve_embedding y)) es \<and>
    (\<forall>x \<in> set es. \<forall>y \<in> set left. cosineSimilarity fo q (ve_embedding y) \<le> cosineSimilarity fo q (ve_embedding x))"
proof -
  let ?sc = "\<lambda>e. cosineSimilarity fo q (ve_embedding e)" and ?P = "\<lambda>e. em_matches opts (ve_item e)"
  let ?results = "srt higher_score (map (\<lambda>e. (e, ?sc e)) (vs_entries s sid))"
  let ?hits = "filter (\<lambda>x. ?P (fst x)) ?results"
  have perm: "mset ?results = mset (map (\<lambda>e. (e, ?sc e)) (vs_entries s sid))" by (rule sort_slice.perm [OF assms(1)])
  have form: "x = (fst x, ?sc (fst x))" if "x \<in> set ?results" for x
    using that mset_eq_setD [OF perm] by auto
  have "mset (map fst ?hits) = mset (vs_matching opts sid s)"
  proof -
    have step: "image_mset fst (filter_mset (\<lambda>x. ?P (fst x)) (mset (map (\<lambda>e. (e, ?sc e)) es))) = mset (filter ?P es)" for es
      by (induction es) auto
    have "mset (map fst ?hits) = image_mset fst (filter_mset (\<lambda>x. ?P (fst x)) (mset ?results))" by simp
    also have "\<dots> = mset (vs_matching opts sid s)"
      unfolding perm vs_matching_def by (rule step)
    finally show ?thesis .
  qed
  then have parts: "mset (take (nat limit) (map fst ?hits)) + mset (drop (nat limit) (map fst ?hits)) = mset (vs_matching opts sid s)"
    by (metis append_take_drop_id mset_append)
  have len: "length ?hits = length (vs_matching opts sid s)"
    using \<open>mset (map fst ?hits) = mset (vs_matching opts sid s)\<close> by (metis length_map mset_eq_length)
  have sorted: "sorted_wrt (\<lambda>x y. \<not> ?sc y > ?sc x) (map fst ?hits)"
  proof -
    have wo: "weak_order higher_score" unfolding weak_order_def higher_score_def by auto
    have "sorted_wrt (\<lambda>x y. \<not> higher_score y x) ?hits" by (rule sorted_wrt_filter) (rule sort_slice.sorted [OF assms(1) wo])
    then show ?thesis unfolding sorted_wrt_map
      by (rule sorted_wrt_mono_rel [rotated]) (use form in \<open>force simp: higher_score_def\<close>)
  qed
  have run: "vs_Search fo srt sid q limit opts s = Ok (map search_result (take (nat limit) ?hits))"
  proof (cases "go_get (vs_storage s) sid")
    case None
    then have "srt higher_score [] = []" using sort_slice.length_srt [OF assms(1), of higher_score "[]"] by simp
    then show ?thesis using None by (simp add: vs_Search_def vs_entries_def)
  next
    case (Some es)
    then show ?thesis by (simp add: vs_Search_def vs_entries_def cut_collect [OF assms(2)])
  qed
  have "map search_result (take (nat limit) ?hits) = map (\<lambda>e. search_result (e, ?sc e)) (take (nat limit) (map fst ?hits))"
    using form by (auto simp: take_map dest!: in_set_takeD)
  then show ?thesis
    using run parts len sorted_wrt_take [OF sorted, of "nat limit"] sorted_take_best [OF sorted, of _ "nat limit"]
    by (intro exI [of _ "take (nat limit) (map fst ?hits)"] exI [of _ "drop (nat limit) (map fst ?hits)"]) (auto simp: not_less)
qed

definition two_entries :: MemoryVectorStore where
  "two_entries =
     vs_Add ''s'' ''msg-2'' [0, 1] (NewMessage 0 ''user'' ''b'') [] 2 (vs_Add ''s'' ''msg-1'' [1, 0] (NewMessage 0 ''user'' ''a'') [] 1 NewMemoryVectorStore)"

theorem vector_search_ranked_witness:
  "\<exists>es. vs_Search exact_ops go_insort ''s'' [1, 0] 1 (with_limit 1) two_entries =
      Ok (map (\<lambda>e. search_result (e, cosineSimilarity exact_ops [1, 0] (ve_embedding e))) es) \<and> length es = 1"
proof -
  have "length (vs_matching (with_limit 1) ''s'' two_entries) = 2"
    by (simp add: vs_matching_def two_entries_def vs_Add_def vs_entries_def NewMemoryVectorStore_def em_matches_def
        em_in_range_def em_important_def em_tagged_def with_limit_def)
  then show ?thesis
    using vector_search_ranked [OF insertion.sort_slice_axioms, of 1 exact_ops "''s''" "[1, 0]" "with_limit 1" two_entries] by auto
qed

section \<open>The memory\<close>

text \<open>A negative limit panics as soon as an entry matches.\<close>

lemma negative_limit_panics:
  assumes "limit < 0" and "P x"
  shows "cut_at limit (collect_upto limit P (x # xs) []) = Panic ''slice bounds out of range''"
  using assms by (simp add: cut_at_def)

text \<open>Storing appends to its session and leaves the others alone; clearing empties one session.\<close>

lemma vm_Store_entries:
  assumes "vm_Store ff emb now sid m md v = (Ok (), v')"
  shows "\<exists>e. vs_entries (vm_vectorStore v') sid = vs_entries (vm_vectorStore v) sid @ [e] \<and> ve_message e = m \<and>
      ve_timestamp e = real_of_int now / 1000000000 \<and> emb (ContentString ff m) = Ok (ve_embedding e)"
    and "sid' \<noteq> sid \<Longrightarrow> vs_entries (vm_vectorStore v') sid' = vs_entries (vm_vectorStore v) sid'"
  using assms
  by (auto simp: vm_Store_def generateID_def Let_def vs_Add_def vs_entries_def split: outcome.splits)

lemma vm_Store_error:
  assumes "vm_Store ff emb now sid m md v = (r, v')" and "r \<noteq> Ok ()"
  shows "v' = v"
  using assms by (auto simp: vm_Store_def Let_def split: outcome.splits prod.splits)

lemma vm_Clear_entries: "vs_entries (vm_vectorStore (vm_Clear sid v)) sid' = (if sid' = sid then [] else vs_entries (vm_vectorStore v) sid')"
  by (simp add: vm_Clear_def vs_Clear_def vs_entries_def)

text \<open>
  Without a query the memory returns the most recent messages first: when the stored times
  increase, these are the last messages in reverse order.
\<close>

lemma recent_in_reverse:
  assumes "sort_slice sre" and "0 \<le> n" and "sorted_wrt (<) (map ve_timestamp (vs_entries (vm_vectorStore v) sid))"
  shows "vm_Retrieve fo srt sre emb sid (with_limit n) v =
    Ok (take (nat n) (rev (map ve_message (vs_entries (vm_vectorStore v) sid))))"
proof -
  let ?es = "vs_entries (vm_vectorStore v) sid"
  have wo: "weak_order later" unfolding weak_order_def later_def by auto
  have inj: "inj_on ve_timestamp (set ?es)" and dist: "distinct (map ve_timestamp ?es)"
    using assms(3) strict_sorted_iff distinct_map by blast+
  have "sre later ?es = rev ?es"
  proof (rule map_inj_on [of ve_timestamp])
    let ?s = "map ve_timestamp (sre later ?es)"
    have sets: "set (sre later ?es) = set ?es" by (rule sort_slice.set_srt [OF assms(1)])
    have "sorted_wrt (\<lambda>x y. \<not> later y x) (sre later ?es)" by (rule sort_slice.sorted [OF assms(1) wo])
    then have "sorted (rev ?s)"
      by (simp add: sorted_wrt_rev sorted_wrt_map later_def not_less)
    moreover have "distinct (rev ?s)"
      using sort_slice.distinct_srt [OF assms(1), of later ?es] dist inj sets by (simp add: distinct_map)
    moreover have "set (rev ?s) = set (map ve_timestamp ?es)" using sets by simp
    moreover have "sorted (map ve_timestamp ?es)" using assms(3) by (simp add: strict_sorted_iff)
    ultimately have "rev ?s = map ve_timestamp ?es" using dist by (intro sorted_distinct_set_unique) simp_all
    then have "?s = rev (map ve_timestamp ?es)" by (metis rev_rev_ident)
    then show "map ve_timestamp (sre later ?es) = map ve_timestamp (rev ?es)" by (simp add: rev_map)
    show "inj_on ve_timestamp (set (sre later ?es) \<union> set (rev ?es))" using inj sets by simp
  qed
  moreover have "filter (\<lambda>e. em_matches (with_limit n) (ve_item e)) xs = xs" for xs
    by (simp add: em_matches_def em_in_range_def em_important_def em_tagged_def with_limit_def)
  moreover have "map (mm_Message \<circ> ve_item) xs = map ve_message xs" for xs by (simp add: ve_item_def)
  ultimately have "go_get (vs_storage (vm_vectorStore v)) sid = Some es \<Longrightarrow>
      vm_Retrieve fo srt sre emb sid (with_limit n) v = Ok (take (nat n) (rev (map ve_message ?es)))" for es
    using cut_collect [OF assms(2), of "\<lambda>e. em_matches (with_limit n) (ve_item e)" "sre later ?es"]
    by (simp add: vm_Retrieve_def vs_GetRecent_def vs_entries_def with_limit_def rev_map take_map)
  moreover have "go_get (vs_storage (vm_vectorStore v)) sid = None \<Longrightarrow>
      vm_Retrieve fo srt sre emb sid (with_limit n) v = Ok (take (nat n) (rev (map ve_message ?es)))"
    by (simp add: vm_Retrieve_def vs_GetRecent_def vs_entries_def with_limit_def)
  ultimately show ?thesis by (cases "go_get (vs_storage (vm_vectorStore v)) sid") auto
qed

end
