(* ===== verification/Model_Optimizer.thy ===== *)
theory Model_Optimizer
  imports Budget
begin

text \<open>
  Routing of requests to cheap, medium and expensive models by complexity
  (\<open>budget/optimizer.go\<close>): the two detectors, the routing with and without fallback, and the
  estimates over the price table of theory \<open>Budget\<close>.

  A client of a language model is a function of the messages and the world; a detector may fail.
  Log output is left out.  Lower case and trimming (\<open>lower\<close>, \<open>trim\<close>) are parameters.
\<close>

section \<open>Detecting complexity\<close>

type_synonym 'w llm_client = "go_ctx \<Rightarrow> message list \<Rightarrow> (string \<times> gval) list option \<Rightarrow> 'w \<Rightarrow> reply \<times> 'w"

text \<open>A detector returns a level and perhaps an error beside it.\<close>

type_synonym 'w detector = "go_ctx \<Rightarrow> message list \<Rightarrow> 'w \<Rightarrow> (string \<times> go_error option) outcome \<times> 'w"

record HeuristicComplexityDetector =
  hd_longQueryThreshold :: int
  hd_longHistoryThreshold :: int

definition NewHeuristicComplexityDetector :: "int \<Rightarrow> int \<Rightarrow> HeuristicComplexityDetector" where
  "NewHeuristicComplexityDetector longQueryThreshold longHistoryThreshold =
     \<lparr>hd_longQueryThreshold = longQueryThreshold, hd_longHistoryThreshold = longHistoryThreshold\<rparr>"

definition complexKeywords :: "string list" where
  "complexKeywords =
     [''analyze'', ''compare'', ''reasoning'', ''explain why'', ''step by step'', ''think through'', ''evaluate'',
      ''pros and cons'', ''trade-offs'', ''implications'', ''in detail'', ''comprehensive'', ''thorough'']"

definition heuristic_Detect :: "(real \<Rightarrow> string) \<Rightarrow> (string \<Rightarrow> string) \<Rightarrow> HeuristicComplexityDetector \<Rightarrow> message list \<Rightarrow> string" where
  "heuristic_Detect ff lower h messages =
     (if messages = [] then ''simple''
      else
        let latest = ContentString ff (last messages);
            hasComplexKeywords = list_ex (\<lambda>keyword. strings_Contains (lower latest) keyword) complexKeywords;
            isLongQuery = int (length latest) > hd_longQueryThreshold h;
            isLongHistory = int (length messages) > hd_longHistoryThreshold h
        in if isLongQuery \<or> hasComplexKeywords then ''complex''
           else if isLongHistory then ''medium''
           else ''simple'')"

definition heuristic_detector :: "(real \<Rightarrow> string) \<Rightarrow> (string \<Rightarrow> string) \<Rightarrow> HeuristicComplexityDetector \<Rightarrow> 'w detector" where
  "heuristic_detector ff lower h ctx messages w = (Ok (heuristic_Detect ff lower h messages, None), w)"

abbreviation onl :: string where
  "onl \<equiv> [CHR 0x0A]"

abbreviation oq :: string where
  "oq \<equiv> [CHR 0x22]"

definition detect_prompt :: "string \<Rightarrow> string" where
  "detect_prompt latest =
     ''Analyze the following query and classify its complexity:'' @ onl @ onl @ ''Query: '' @ oq @ latest @ oq @ onl @ onl @
     ''Classify as:'' @ onl @
     ''- '' @ oq @ ''simple'' @ oq @ '': Basic questions, greetings, short requests'' @ onl @
     ''- '' @ oq @ ''medium'' @ oq @ '': Standard questions requiring some thought'' @ onl @
     ''- '' @ oq @ ''complex'' @ oq @ '': Deep analysis, reasoning, multi-step problems'' @ onl @ onl @
     ''Respond with only one word: simple, medium, or complex.''"

definition llm_Detect ::
    "(real \<Rightarrow> string) \<Rightarrow> (string \<Rightarrow> string) \<Rightarrow> (string \<Rightarrow> string) \<Rightarrow> 'w llm_client \<Rightarrow> 'w detector" where
  "llm_Detect ff lower trim llm ctx messages w =
     (if messages = [] then (Ok (''simple'', None), w)
      else
        (case llm ctx [\<lparr>msg_role = ''user'', msg_content = GStr (detect_prompt (ContentString ff (last messages))),
                        msg_metadata = None, msg_timestamp = 0\<rparr>] None w of
           (Err e, w) \<Rightarrow> (Ok (''medium'', Some e), w)
         | (Panic p, w) \<Rightarrow> (Panic p, w)
         | (Ok None, w) \<Rightarrow> (Panic ''nil pointer dereference'', w)
         | (Ok (Some response), w) \<Rightarrow>
             (let complexity = lower (trim (ContentString ff response)) in
              (Ok (if complexity \<noteq> ''simple'' \<and> complexity \<noteq> ''medium'' \<and> complexity \<noteq> ''complex'' then ''medium'' else complexity,
                   None), w))))"

section \<open>Routing\<close>

record 'w ModelOptimizer =
  mo_cheapModel :: string
  mo_mediumModel :: string
  mo_expensiveModel :: string
  mo_llmClients :: "(string \<times> 'w llm_client) list"
  mo_detector :: "'w detector"

definition NewModelOptimizer ::
    "(real \<Rightarrow> string) \<Rightarrow> (string \<Rightarrow> string) \<Rightarrow> string \<Rightarrow> string \<Rightarrow> string \<Rightarrow> (string \<times> 'w llm_client) list \<Rightarrow> 'w detector option \<Rightarrow>
     'w ModelOptimizer outcome" where
  "NewModelOptimizer ff lower cheapModel mediumModel expensiveModel llmClients detector =
     (case find (\<lambda>model. go_get llmClients model = None) [cheapModel, mediumModel, expensiveModel] of
        Some model \<Rightarrow> Err (Errorf ''LLM client for %s not provided'' [GStr model] None)
      | None \<Rightarrow>
          Ok \<lparr>mo_cheapModel = cheapModel, mo_mediumModel = mediumModel, mo_expensiveModel = expensiveModel,
              mo_llmClients = llmClients,
              mo_detector = (case detector of
                 None \<Rightarrow> heuristic_detector ff lower (NewHeuristicComplexityDetector 500 10)
               | Some d \<Rightarrow> d)\<rparr>)"

text \<open>The level that is used: medium when the detector reports an error.\<close>

definition detect_level :: "'w ModelOptimizer \<Rightarrow> go_ctx \<Rightarrow> message list \<Rightarrow> ('w, string) call" where
  "detect_level m ctx messages w =
     (case mo_detector m ctx messages w of
        (Ok (complexity, None), w) \<Rightarrow> (Ok complexity, w)
      | (Ok (_, Some e), w) \<Rightarrow> (Ok ''medium'', w)
      | (Err e, w) \<Rightarrow> (Err e, w)
      | (Panic p, w) \<Rightarrow> (Panic p, w))"

definition select_model :: "'w ModelOptimizer \<Rightarrow> string \<Rightarrow> string \<times> string" where
  "select_model m complexity =
     (if complexity = ''simple'' then (mo_cheapModel m, ''Simple query, using cheap model'')
      else if complexity = ''medium'' then (mo_mediumModel m, ''Medium complexity, using mid-tier model'')
      else if complexity = ''complex'' then (mo_expensiveModel m, ''Complex query, using expensive model'')
      else (mo_mediumModel m, ''Unknown complexity, using mid-tier model''))"

text \<open>Entries added to the metadata of a response, whose map is made when it is nil.\<close>

definition add_meta :: "(string \<times> gval) list \<Rightarrow> message \<Rightarrow> message" where
  "add_meta kvs m =
     m\<lparr>msg_metadata := Some (fold (\<lambda>(k, v). go_set k v) kvs (case msg_metadata m of None \<Rightarrow> [] | Some md \<Rightarrow> md))\<rparr>"

definition mo_Complete ::
    "'w ModelOptimizer \<Rightarrow> go_ctx \<Rightarrow> message list \<Rightarrow> (string \<times> gval) list option \<Rightarrow> 'w \<Rightarrow> reply \<times> 'w" where
  "mo_Complete m ctx messages kwargs w =
     (case detect_level m ctx messages w of
        (Err e, w) \<Rightarrow> (Err e, w)
      | (Panic p, w) \<Rightarrow> (Panic p, w)
      | (Ok complexity, w) \<Rightarrow>
          (let (modelName, reason) = select_model m complexity in
           case go_get (mo_llmClients m) modelName of
             None \<Rightarrow> (Panic ''nil pointer dereference'', w)
           | Some llm \<Rightarrow>
               (case llm ctx messages kwargs w of
                  (Err e, w) \<Rightarrow> (Err e, w)
                | (Panic p, w) \<Rightarrow> (Panic p, w)
                | (Ok None, w) \<Rightarrow> (Panic ''nil pointer dereference'', w)
                | (Ok (Some response), w) \<Rightarrow>
                    (Ok (Some (add_meta [(''selected_model'', GStr modelName), (''complexity'', GStr complexity),
                       (''routing_reason'', GStr reason)] response)), w))))"

definition fallback_models :: "'w ModelOptimizer \<Rightarrow> string \<Rightarrow> string list" where
  "fallback_models m complexity =
     (if complexity = ''complex'' then [mo_expensiveModel m, mo_mediumModel m, mo_cheapModel m]
      else if complexity = ''medium'' then [mo_mediumModel m, mo_cheapModel m]
      else if complexity = ''simple'' then [mo_cheapModel m]
      else [mo_mediumModel m, mo_cheapModel m])"

fun try_models ::
    "'w ModelOptimizer \<Rightarrow> go_ctx \<Rightarrow> message list \<Rightarrow> (string \<times> gval) list option \<Rightarrow> int \<Rightarrow> string \<Rightarrow> int \<Rightarrow> string list \<Rightarrow>
     go_error option \<Rightarrow> 'w \<Rightarrow> reply \<times> 'w" where
  "try_models m ctx messages kwargs maxAttempts complexity i [] lastError w =
     (case lastError of Some e \<Rightarrow> (Err e, w) | None \<Rightarrow> (Err (Errorf ''all model attempts failed'' [] None), w))"
| "try_models m ctx messages kwargs maxAttempts complexity i (modelName # models) lastError w =
     (if i \<ge> maxAttempts then
        (case lastError of Some e \<Rightarrow> (Err e, w) | None \<Rightarrow> (Err (Errorf ''all model attempts failed'' [] None), w))
      else
        (case go_get (mo_llmClients m) modelName of
           None \<Rightarrow> try_models m ctx messages kwargs maxAttempts complexity (i + 1) models lastError w
         | Some llm \<Rightarrow>
             (case llm ctx messages kwargs w of
                (Err e, w) \<Rightarrow> try_models m ctx messages kwargs maxAttempts complexity (i + 1) models (Some e) w
              | (Panic p, w) \<Rightarrow> (Panic p, w)
              | (Ok None, w) \<Rightarrow> (Panic ''nil pointer dereference'', w)
              | (Ok (Some response), w) \<Rightarrow>
                  (Ok (Some (add_meta ([(''selected_model'', GStr modelName), (''complexity'', GStr complexity),
                     (''fallback_attempt'', GInt (i + 1))] @
                     (if i > 0 then [(''fallback_reason'', GStr ''Budget constraint or error'')] else [])) response)), w))))"

definition CompleteWithFallback ::
    "'w ModelOptimizer \<Rightarrow> go_ctx \<Rightarrow> message list \<Rightarrow> int \<Rightarrow> (string \<times> gval) list option \<Rightarrow> 'w \<Rightarrow> reply \<times> 'w" where
  "CompleteWithFallback m ctx messages maxAttempts kwargs w =
     (case detect_level m ctx messages w of
        (Err e, w) \<Rightarrow> (Err e, w)
      | (Panic p, w) \<Rightarrow> (Panic p, w)
      | (Ok complexity, w) \<Rightarrow>
          try_models m ctx messages kwargs maxAttempts complexity 0 (fallback_models m complexity) None w)"

definition GetModelForComplexity :: "'w ModelOptimizer \<Rightarrow> string \<Rightarrow> string outcome" where
  "GetModelForComplexity m complexity =
     (if complexity = ''simple'' then Ok (mo_cheapModel m)
      else if complexity = ''medium'' then Ok (mo_mediumModel m)
      else if complexity = ''complex'' then Ok (mo_expensiveModel m)
      else Err (Errorf ''unknown complexity: %s'' [GStr complexity] None))"

fun estimate_models :: "string list \<Rightarrow> int \<Rightarrow> int \<Rightarrow> (string \<times> real) list \<Rightarrow> (string \<times> real) list outcome" where
  "estimate_models [] inputTokens outputTokens estimates = Ok estimates"
| "estimate_models (modelName # models) inputTokens outputTokens estimates =
     (case Calculate NewModelPricing modelName inputTokens ''input'' of
        Err e \<Rightarrow> Err e
      | Panic p \<Rightarrow> Panic p
      | Ok inputCost \<Rightarrow>
          (case Calculate NewModelPricing modelName outputTokens ''output'' of
             Err e \<Rightarrow> Err e
           | Panic p \<Rightarrow> Panic p
           | Ok outputCost \<Rightarrow>
               estimate_models models inputTokens outputTokens (go_set modelName (inputCost + outputCost) estimates)))"

definition EstimateCost :: "'w ModelOptimizer \<Rightarrow> int \<Rightarrow> int \<Rightarrow> (string \<times> real) list outcome" where
  "EstimateCost m inputTokens outputTokens =
     estimate_models [mo_cheapModel m, mo_mediumModel m, mo_expensiveModel m] inputTokens outputTokens []"

section \<open>Properties\<close>

text \<open>The constructor makes sure that every model that can be selected has a client.\<close>

definition clients_ok :: "'w ModelOptimizer \<Rightarrow> bool" where
  "clients_ok m \<longleftrightarrow> (\<forall>model \<in> {mo_cheapModel m, mo_mediumModel m, mo_expensiveModel m}. go_get (mo_llmClients m) model \<noteq> None)"

lemma NewModelOptimizer_clients: "NewModelOptimizer ff lower c md e cs d = Ok m \<Longrightarrow> clients_ok m"
  by (auto simp: NewModelOptimizer_def clients_ok_def find_None_iff split: option.splits if_splits)

lemma select_model_client: "clients_ok m \<Longrightarrow> go_get (mo_llmClients m) (fst (select_model m c)) \<noteq> None"
  by (auto simp: clients_ok_def select_model_def)

lemma select_model_agrees: "GetModelForComplexity m c = Ok model \<Longrightarrow> fst (select_model m c) = model"
  by (auto simp: GetModelForComplexity_def select_model_def split: if_splits)

lemma add_meta_get:
  "distinct (map fst kvs) \<Longrightarrow> (k, v) \<in> set kvs \<Longrightarrow> meta_get (add_meta kvs m) k = Some v"
proof -
  have "go_get (fold (\<lambda>(k, v). go_set k v) kvs md) k = (case go_get (rev kvs) k of Some v \<Rightarrow> Some v | None \<Rightarrow> go_get md k)" for md
    by (induction kvs arbitrary: md) (auto simp: map_add_def split: option.splits)
  moreover assume "distinct (map fst kvs)" "(k, v) \<in> set kvs"
  then have "go_get (rev kvs) k = Some v" by (simp add: map_of_eq_Some_iff rev_map [symmetric])
  ultimately show ?thesis by (simp add: add_meta_def meta_get_def)
qed

text \<open>
  A request is routed to the model of its level: \<open>Complete\<close> calls one client, the one of the
  selected model, once, and its reply is that of the client with the three entries of the routing.
\<close>

lemma mo_Complete_routes:
  assumes "clients_ok m" and "detect_level m ctx messages w = (Ok c, w1)"
  shows "\<exists>llm. go_get (mo_llmClients m) (fst (select_model m c)) = Some llm \<and>
    (case llm ctx messages kwargs w1 of
       (Ok (Some response), w2) \<Rightarrow>
         mo_Complete m ctx messages kwargs w =
           (Ok (Some (add_meta [(''selected_model'', GStr (fst (select_model m c))), (''complexity'', GStr c),
              (''routing_reason'', GStr (snd (select_model m c)))] response)), w2)
     | (Err e, w2) \<Rightarrow> mo_Complete m ctx messages kwargs w = (Err e, w2)
     | _ \<Rightarrow> True)"
proof -
  obtain model reason where sel: "select_model m c = (model, reason)" by (metis prod.exhaust)
  then obtain llm where llm: "go_get (mo_llmClients m) model = Some llm" using select_model_client [OF assms(1), of c] by auto
  obtain r w2 where run: "llm ctx messages kwargs w1 = (r, w2)" by (metis prod.exhaust)
  show ?thesis using sel llm run assms(2)
    by (auto simp: mo_Complete_def split: outcome.splits option.splits)
qed

text \<open>
  The first \<open>n\<close> of the models fail one after the other, from world to world.
\<close>

definition failed_first :: "(string \<times> 'w llm_client) list \<Rightarrow> go_ctx \<Rightarrow> message list \<Rightarrow> (string \<times> gval) list option \<Rightarrow> string list \<Rightarrow> nat \<Rightarrow> 'w list \<Rightarrow> bool" where
  "failed_first cs ctx messages kwargs models n ws \<longleftrightarrow> length ws = Suc n \<and> n \<le> length models \<and>
     (\<forall>j < n. \<exists>llm e. go_get cs (models ! j) = Some llm \<and> llm ctx messages kwargs (ws ! j) = (Err e, ws ! Suc j))"

lemma failed_first_0: "failed_first cs ctx messages kwargs models 0 [w]"
  by (simp add: failed_first_def)

lemma failed_first_Suc:
  assumes "failed_first cs ctx messages kwargs models n ws" and "go_get cs model = Some llm"
    and "llm ctx messages kwargs w = (Err e, hd ws)"
  shows "failed_first cs ctx messages kwargs (model # models) (Suc n) (w # ws)"
  using assms by (cases ws) (auto simp: failed_first_def less_Suc_eq_0_disj nth_Cons split: nat.splits)

lemma try_models_tries:
  assumes "\<forall>model \<in> set models. go_get (mo_llmClients m) model \<noteq> None"
    and "try_models m ctx messages kwargs k c i models le w = (r, w')"
  shows "(\<exists>response n ws llm. r = Ok (Some response) \<and> n < length models \<and> i + int n < k \<and>
        failed_first (mo_llmClients m) ctx messages kwargs models n ws \<and> hd ws = w \<and> go_get (mo_llmClients m) (models ! n) = Some llm \<and>
        (\<exists>x. llm ctx messages kwargs (last ws) = (Ok (Some x), w') \<and> msg_content response = msg_content x) \<and>
        meta_get response ''selected_model'' = Some (GStr (models ! n)) \<and> meta_get response ''fallback_attempt'' = Some (GInt (i + int n + 1))) \<or>
    (\<exists>e ws. r = Err e \<and> failed_first (mo_llmClients m) ctx messages kwargs models (min (length models) (nat (k - i))) ws \<and>
        hd ws = w \<and> last ws = w') \<or> (\<exists>p. r = Panic p)"
  using assms
proof (induction m ctx messages kwargs k c i models le w rule: try_models.induct)
  case (1 m ctx messages kwargs k c i le w)
  then show ?case using failed_first_0 [of "mo_llmClients m" ctx messages kwargs "[]" w]
    by (force split: option.splits)
next
  case (2 m ctx messages kwargs k c i model models le w)
  show ?case
  proof (cases "i \<ge> k")
    case True
    then have "(\<exists>e. r = Err e) \<and> w' = w" using 2(4) by (auto split: option.splits)
    moreover have "min (length (model # models)) (nat (k - i)) = 0" using True by simp
    ultimately show ?thesis using failed_first_0 [of "mo_llmClients m" ctx messages kwargs "model # models" w] by force
  next
    case False
    obtain llm where llm: "go_get (mo_llmClients m) model = Some llm" using 2(3) by auto
    obtain x w1 where x: "llm ctx messages kwargs w = (x, w1)" by (metis prod.exhaust)
    show ?thesis
    proof (cases x)
      case (Err e)
      have run: "try_models m ctx messages kwargs k c (i + 1) models (Some e) w1 = (r, w')"
        using 2(4) False llm x Err by simp
      have clients: "\<forall>model \<in> set models. go_get (mo_llmClients m) model \<noteq> None" using 2(3) by simp
      have len: "min (length (model # models)) (nat (k - i)) = Suc (min (length models) (nat (k - (i + 1))))" using False by auto
      note step = failed_first_Suc [OF _ llm, of ctx messages kwargs models _ _ w e]
      consider (ok) response n ws llm' where "r = Ok (Some response)" "n < length models" "i + 1 + int n < k"
          "failed_first (mo_llmClients m) ctx messages kwargs models n ws" "hd ws = w1" "go_get (mo_llmClients m) (models ! n) = Some llm'"
          "\<exists>x. llm' ctx messages kwargs (last ws) = (Ok (Some x), w') \<and> msg_content response = msg_content x"
          "meta_get response ''selected_model'' = Some (GStr (models ! n))"
          "meta_get response ''fallback_attempt'' = Some (GInt (i + 1 + int n + 1))"
        | (err) e' ws where "r = Err e'" "failed_first (mo_llmClients m) ctx messages kwargs models (min (length models) (nat (k - (i + 1)))) ws"
          "hd ws = w1" "last ws = w'"
        | (panic) p where "r = Panic p"
        using 2(2) [OF False llm x [symmetric] Err clients run] by metis
      then show ?thesis
      proof cases
        case ok
        have "ws \<noteq> []" using ok(4) by (auto simp: failed_first_def)
        then have "failed_first (mo_llmClients m) ctx messages kwargs (model # models) (Suc n) (w # ws)" "last (w # ws) = last ws"
          using step [OF ok(4)] ok(5) x Err by auto
        then show ?thesis using ok by (intro disjI1 exI [of _ response] exI [of _ "Suc n"] exI [of _ "w # ws"] exI [of _ llm']) (auto simp: algebra_simps)
      next
        case err
        have "ws \<noteq> []" using err(2) by (auto simp: failed_first_def)
        then have "failed_first (mo_llmClients m) ctx messages kwargs (model # models) (Suc (min (length models) (nat (k - (i + 1))))) (w # ws)"
          "last (w # ws) = w'" "hd (w # ws) = w"
          using step [OF err(2)] err(3,4) x Err by auto
        then show ?thesis using err(1) unfolding len by blast
      qed blast
    next
      case (Ok y)
      show ?thesis
      proof (cases y)
        case (Some response)
        then show ?thesis using 2(4) False llm x Ok failed_first_0 [of "mo_llmClients m" ctx messages kwargs "model # models" w]
          by (intro disjI1 exI [of _ "the (case r of Ok r \<Rightarrow> r | _ \<Rightarrow> None)"] exI [of _ 0] exI [of _ "[w]"] exI [of _ llm])
            (auto simp: add_meta_def meta_get_def)
      qed (use 2(4) False llm x Ok in auto)
    qed (use 2(4) False llm x in auto)
  qed
qed

text \<open>
  Fallback goes from expensive to cheap: the models of the level are tried in order, at most as
  many as allowed, each in the world its predecessor left; the reply is that of the first model
  that succeeds, with its name and the number of the attempt; an error means that all the models
  that may be tried have failed.
\<close>

lemma fallback_tries_in_order:
  assumes "clients_ok m" and "detect_level m ctx messages w = (Ok c, w0)"
    and "CompleteWithFallback m ctx messages k kwargs w = (r, w')" and "\<forall>p. r \<noteq> Panic p"
  shows "(\<exists>response n ws llm. r = Ok (Some response) \<and> n < length (fallback_models m c) \<and> int n < k \<and>
        failed_first (mo_llmClients m) ctx messages kwargs (fallback_models m c) n ws \<and> hd ws = w0 \<and>
        go_get (mo_llmClients m) (fallback_models m c ! n) = Some llm \<and>
        (\<exists>x. llm ctx messages kwargs (last ws) = (Ok (Some x), w') \<and> msg_content response = msg_content x) \<and>
        meta_get response ''selected_model'' = Some (GStr (fallback_models m c ! n)) \<and>
        meta_get response ''fallback_attempt'' = Some (GInt (int n + 1))) \<or>
    (\<exists>e ws. r = Err e \<and> failed_first (mo_llmClients m) ctx messages kwargs (fallback_models m c) (min (length (fallback_models m c)) (nat k)) ws \<and>
        hd ws = w0 \<and> last ws = w')"
proof -
  have clients: "\<forall>model \<in> set (fallback_models m c). go_get (mo_llmClients m) model \<noteq> None"
    using assms(1) by (auto simp: clients_ok_def fallback_models_def)
  have "try_models m ctx messages kwargs k c 0 (fallback_models m c) None w0 = (r, w')"
    using assms(2,3) by (simp add: CompleteWithFallback_def)
  from try_models_tries [OF clients this] assms(4) show ?thesis by (simp only: add_0 diff_zero) blast
qed

text \<open>
  The heuristic never looks at the words of earlier messages, and the level medium is reached by
  long histories only: a short query without a keyword in a short history is always simple.
\<close>

lemma heuristic_levels:
  assumes "messages \<noteq> []"
  shows "heuristic_Detect ff lower h messages = ''medium'' \<longleftrightarrow>
    int (length messages) > hd_longHistoryThreshold h \<and> int (length (ContentString ff (last messages))) \<le> hd_longQueryThreshold h \<and>
    (\<forall>keyword \<in> set complexKeywords. \<not> strings_Contains (lower (ContentString ff (last messages))) keyword)"
  using assms by (auto simp: heuristic_Detect_def Let_def list_ex_iff not_less)

lemma EstimateCost_total: "\<exists>es. EstimateCost m i j = Ok es"
  by (simp add: EstimateCost_def Calculate_def)

end
