(* ===== verification/Evaluation.thy ===== *)
theory Evaluation
  imports Message Go_Json
begin

text \<open>
  The evaluator (\<open>evaluation/core.go\<close>) and the error tracker (\<open>evaluation/error_tracker.go\<close>).

  A metric is a record of its three methods; measuring may fail and acts on the world.  The text
  of an error (\<open>et\<close>) and of a float (\<open>ff\<close>), the clock (\<open>clk\<close>) and a fresh identifier are
  parameters.  The map \<open>Metadata\<close> of a result has the two keys \<open>errors\<close> and \<open>latencies\<close>, which
  are fields here.
\<close>

section \<open>Text\<close>

definition toLower :: "nat \<Rightarrow> nat" where
  "toLower r = (if r \<ge> of_char CHR ''A'' \<and> r \<le> of_char CHR ''Z'' then r + (of_char CHR ''a'' - of_char CHR ''A'') else r)"

definition contains :: "string \<Rightarrow> string \<Rightarrow> bool" where
  "contains haystack needle =
     (let h = runes haystack; n = runes needle in
      if n = [] then True
      else if length h < length n then False
      else list_ex (\<lambda>i. list_all (\<lambda>j. toLower (h ! (i + j)) = toLower (n ! j)) [0..<length n]) [0..<length h - length n + 1])"

text \<open>The loops decide whether the one text occurs in the other, up to the case of ASCII letters.\<close>

lemma contains_iff: "contains haystack needle \<longleftrightarrow> sublist (map toLower (runes needle)) (map toLower (runes haystack))"
proof -
  let ?h = "runes haystack" and ?n = "runes needle"
  have "list_all (\<lambda>j. toLower (?h ! (i + j)) = toLower (?n ! j)) [0..<length ?n] \<longleftrightarrow>
      take (length ?n) (drop i (map toLower ?h)) = map toLower ?n" if "i + length ?n \<le> length ?h" for i
  proof -
    have "take (length ?n) (drop i (map toLower ?h)) = map toLower ?n \<longleftrightarrow> (\<forall>j < length ?n. toLower (?h ! (i + j)) = toLower (?n ! j))"
      using that by (simp add: list_eq_iff_nth_eq [of "take _ _"])
    then show ?thesis by (auto simp: list_all_iff)
  qed
  moreover have "sublist (map toLower ?n) (map toLower ?h) \<longleftrightarrow>
      (\<exists>i. i + length ?n \<le> length ?h \<and> take (length ?n) (drop i (map toLower ?h)) = map toLower ?n)" (is "?l = ?r")
  proof
    assume ?l
    then obtain xs ys where "map toLower ?h = xs @ map toLower ?n @ ys" by (auto simp: sublist_def)
    moreover from this have "length ?h = length (xs @ map toLower ?n @ ys)" by (metis length_map)
    ultimately show ?r by (intro exI [of _ "length xs"]) auto
  next
    assume ?r
    then obtain i where "take (length ?n) (drop i (map toLower ?h)) = map toLower ?n" by blast
    then have "map toLower ?h = take i (map toLower ?h) @ map toLower ?n @ drop (length ?n) (drop i (map toLower ?h))"
      by (metis append_take_drop_id)
    then show ?l unfolding sublist_def by blast
  qed
  moreover have "contains haystack needle \<longleftrightarrow>
      (\<exists>i. i + length ?n \<le> length ?h \<and> list_all (\<lambda>j. toLower (?h ! (i + j)) = toLower (?n ! j)) [0..<length ?n])"
  proof (cases "?n = [] \<or> length ?h < length ?n")
    case False
    then have "i < length ?h - length ?n + 1 \<longleftrightarrow> i + length ?n \<le> length ?h" for i by auto
    then show ?thesis using False by (simp add: contains_def Let_def list_ex_iff Bex_def del: upt_Suc)
  qed (auto simp: contains_def Let_def)
  ultimately show ?thesis by metis
qed

section \<open>Results\<close>

record EvaluationResult =
  ev_EvaluationID :: string
  ev_AgentName :: string
  ev_Timestamp :: time
  ev_Metrics :: "(string \<times> real list) list"
  ev_AggregatedMetrics :: "(string \<times> (string \<times> real) list) list"
  ev_ContextLength :: "int option"
  ev_CompressedLength :: "int option"
  ev_CompressionRatio :: "real option"
  ev_Accuracy :: "real option"
  ev_QualityScore :: "real option"
  ev_AvgLatencyMs :: "real option"
  ev_P95LatencyMs :: "real option"
  ev_TotalTests :: int
  ev_PassedTests :: int
  ev_FailedTests :: int
  ev_errors :: "string list option" \<comment> \<open>\<open>Metadata["errors"]\<close>\<close>
  ev_latencies :: "real list option" \<comment> \<open>\<open>Metadata["latencies"]\<close>\<close>

definition SuccessRate :: "EvaluationResult \<Rightarrow> real" where
  "SuccessRate r = (if ev_TotalTests r = 0 then 0 else real_of_int (ev_PassedTests r) / real_of_int (ev_TotalTests r))"

definition opt_entry :: "string \<Rightarrow> ('a \<Rightarrow> gval) \<Rightarrow> 'a option \<Rightarrow> (string \<times> gval) list" where
  "opt_entry k f x = (case x of None \<Rightarrow> [] | Some v \<Rightarrow> [(k, f v)])"

definition er_ToDict :: "(time \<Rightarrow> string) \<Rightarrow> EvaluationResult \<Rightarrow> (string \<times> gval) list" where
  "er_ToDict fmt r =
     [(''evaluation_id'', GStr (ev_EvaluationID r)), (''agent_name'', GStr (ev_AgentName r)),
      (''timestamp'', GStr (fmt (ev_Timestamp r))),
      (''metrics'', GMap (map (\<lambda>(k, vs). (k, GList (map GFloat vs))) (ev_Metrics r))),
      (''aggregated_metrics'', GMap (map (\<lambda>(k, vs). (k, GMap (map (\<lambda>(k, v). (k, GFloat v)) vs))) (ev_AggregatedMetrics r))),
      (''total_tests'', GInt (ev_TotalTests r)), (''passed_tests'', GInt (ev_PassedTests r)),
      (''failed_tests'', GInt (ev_FailedTests r)), (''success_rate'', GFloat (SuccessRate r)),
      (''metadata'', GMap (opt_entry ''errors'' GStrs (ev_errors r) @
         opt_entry ''latencies'' (\<lambda>vs. GList (map GFloat vs)) (ev_latencies r)))] @
     opt_entry ''context_length'' GInt (ev_ContextLength r) @
     opt_entry ''compressed_length'' GInt (ev_CompressedLength r) @
     opt_entry ''compression_ratio'' GFloat (ev_CompressionRatio r) @
     opt_entry ''accuracy'' GFloat (ev_Accuracy r) @
     opt_entry ''quality_score'' GFloat (ev_QualityScore r) @
     opt_entry ''avg_latency_ms'' GFloat (ev_AvgLatencyMs r) @
     opt_entry ''p95_latency_ms'' GFloat (ev_P95LatencyMs r)"

section \<open>The evaluator\<close>

type_synonym test_case = "(string \<times> gval) list"

record 'w Metric =
  met_Name :: string
  met_Measure :: "'w agent \<Rightarrow> message \<Rightarrow> message option \<Rightarrow> (string \<times> gval) list \<Rightarrow> ('w, real) call"
  met_Aggregate :: "real list \<Rightarrow> 'w \<Rightarrow> (string \<times> real) list"

record 'w Evaluator =
  evl_agent :: "'w agent"
  evl_metrics :: "'w Metric list"
  evl_sessionID :: string

definition NewEvaluator :: "time \<Rightarrow> 'w agent \<Rightarrow> 'w Metric list \<Rightarrow> string \<Rightarrow> 'w Evaluator" where
  "NewEvaluator now agent metrics sessionID =
     \<lparr>evl_agent = agent, evl_metrics = metrics,
      evl_sessionID = (if sessionID = [] then ''eval-'' @ show_int (now div second) else sessionID)\<rparr>"

definition checkTest :: "(real \<Rightarrow> string) \<Rightarrow> message option \<Rightarrow> test_case \<Rightarrow> bool outcome" where
  "checkTest ff output testCase =
     (case go_get testCase ''expected'' of
        None \<Rightarrow> Ok True
      | Some (GStr expectedStr) \<Rightarrow>
          (case output of
             None \<Rightarrow> Panic ''nil pointer dereference''
           | Some m \<Rightarrow> Ok (contains (ContentString ff m) expectedStr))
      | Some _ \<Rightarrow> Ok True)"

text \<open>\<open>Duration.Milliseconds()\<close> truncates.\<close>

definition Milliseconds :: "duration \<Rightarrow> int" where
  "Milliseconds d = (if d < 0 then - (- d div millisecond) else d div millisecond)"

definition append_value :: "string \<Rightarrow> real \<Rightarrow> (string \<times> real list) list \<Rightarrow> (string \<times> real list) list" where
  "append_value name v ms = go_set name ((case go_get ms name of None \<Rightarrow> [] | Some vs \<Rightarrow> vs) @ [v]) ms"

fun run_metrics ::
    "'w agent \<Rightarrow> message \<Rightarrow> message option \<Rightarrow> (string \<times> gval) list \<Rightarrow> 'w Metric list \<Rightarrow> EvaluationResult \<Rightarrow> ('w, EvaluationResult) call" where
  "run_metrics agent inputMsg outputMsg ctx [] result w = (Ok result, w)"
| "run_metrics agent inputMsg outputMsg ctx (metric # metrics) result w =
     (case met_Measure metric agent inputMsg outputMsg ctx w of
        (Ok v, w) \<Rightarrow>
          run_metrics agent inputMsg outputMsg ctx metrics (result\<lparr>ev_Metrics := append_value (met_Name metric) v (ev_Metrics result)\<rparr>) w
      | (Err e, w) \<Rightarrow> run_metrics agent inputMsg outputMsg ctx metrics result w
      | (Panic p, w) \<Rightarrow> (Panic p, w))"

definition test_input :: "test_case \<Rightarrow> string option" where
  "test_input testCase = (case go_get testCase ''input'' of Some (GStr s) \<Rightarrow> Some s | _ \<Rightarrow> None)"

definition input_message :: "string \<Rightarrow> string \<Rightarrow> message" where
  "input_message sessionID inputContent =
     \<lparr>msg_role = ''user'', msg_content = GStr inputContent, msg_metadata = Some [(''session_id'', GStr sessionID)], msg_timestamp = 0\<rparr>"

definition metric_context :: "test_case \<Rightarrow> real \<Rightarrow> (string \<times> gval) list" where
  "metric_context testCase latency =
     [(''expected'', case go_get testCase ''expected'' of Some v \<Rightarrow> v | None \<Rightarrow> GNil), (''test_case'', GMap testCase),
      (''latency_ms'', GFloat latency)]"

definition evaluate_case ::
    "(real \<Rightarrow> string) \<Rightarrow> (go_error \<Rightarrow> string) \<Rightarrow> 'w clock \<Rightarrow> 'w Evaluator \<Rightarrow> test_case \<Rightarrow> EvaluationResult \<Rightarrow> ('w, EvaluationResult) call" where
  "evaluate_case ff et clk e testCase result w =
     (case test_input testCase of
        None \<Rightarrow> (Ok (result\<lparr>ev_FailedTests := ev_FailedTests result + 1\<rparr>), w)
      | Some inputContent \<Rightarrow>
          (let inputMsg = input_message (evl_sessionID e) inputContent;
               (start, w) = clk w;
               (reply, w) = agent_Process (evl_agent e) Background (Some inputMsg) w;
               (end, w) = clk w;
               latency = real_of_int (Milliseconds (end - start))
           in case reply of
             Panic p \<Rightarrow> (Panic p, w)
           | Err err \<Rightarrow>
               (Ok (result\<lparr>ev_FailedTests := ev_FailedTests result + 1,
                   ev_errors := Some ((case ev_errors result of None \<Rightarrow> [] | Some es \<Rightarrow> es) @ [et err])\<rparr>), w)
           | Ok outputMsg \<Rightarrow>
               (case checkTest ff outputMsg testCase of
                  Ok testPassed \<Rightarrow>
                    (let result = (if testPassed then result\<lparr>ev_PassedTests := ev_PassedTests result + 1\<rparr>
                                   else result\<lparr>ev_FailedTests := ev_FailedTests result + 1\<rparr>);
                         result = result\<lparr>ev_latencies := Some ((case ev_latencies result of None \<Rightarrow> [] | Some ls \<Rightarrow> ls) @ [latency])\<rparr>
                     in run_metrics (evl_agent e) inputMsg outputMsg (metric_context testCase latency) (evl_metrics e) result w)
                | Err err \<Rightarrow> (Err err, w)
                | Panic p \<Rightarrow> (Panic p, w))))"

fun evaluate_cases ::
    "(real \<Rightarrow> string) \<Rightarrow> (go_error \<Rightarrow> string) \<Rightarrow> 'w clock \<Rightarrow> 'w Evaluator \<Rightarrow> test_case list \<Rightarrow> EvaluationResult \<Rightarrow> ('w, EvaluationResult) call" where
  "evaluate_cases ff et clk e [] result w = (Ok result, w)"
| "evaluate_cases ff et clk e (testCase # testCases) result w =
     (case evaluate_case ff et clk e testCase result w of
        (Ok result, w) \<Rightarrow> evaluate_cases ff et clk e testCases result w
      | (Err err, w) \<Rightarrow> (Err err, w)
      | (Panic p, w) \<Rightarrow> (Panic p, w))"

definition aggregate_metrics :: "'w Metric list \<Rightarrow> 'w \<Rightarrow> EvaluationResult \<Rightarrow> EvaluationResult" where
  "aggregate_metrics metrics w result =
     fold (\<lambda>metric result.
       case go_get (ev_Metrics result) (met_Name metric) of
         None \<Rightarrow> result
       | Some measurements \<Rightarrow>
           result\<lparr>ev_AggregatedMetrics := go_set (met_Name metric) (met_Aggregate metric measurements w) (ev_AggregatedMetrics result)\<rparr>)
     metrics result"

text \<open>\<open>sorted[int(float64(n) * q)]\<close> of a copy sorted by \<open>sort.Float64s\<close>.\<close>

definition quantile :: "real \<Rightarrow> real list \<Rightarrow> real" where
  "quantile q xs = sort xs ! nat (go_trunc (real (length xs) * q))"

definition average :: "real list \<Rightarrow> real" where
  "average xs = sum_list xs / real (length xs)"

definition overall :: "EvaluationResult \<Rightarrow> EvaluationResult" where
  "overall result =
     (let result = result\<lparr>ev_Accuracy := Some (SuccessRate result)\<rparr> in
      case ev_latencies result of
        None \<Rightarrow> result
      | Some latencies \<Rightarrow>
          if latencies = [] then result
          else result\<lparr>ev_AvgLatencyMs := Some (average latencies), ev_P95LatencyMs := Some (quantile 0.95 latencies)\<rparr>)"

definition empty_result :: "string \<Rightarrow> string \<Rightarrow> time \<Rightarrow> int \<Rightarrow> EvaluationResult" where
  "empty_result evaluationID agentName now totalTests =
     \<lparr>ev_EvaluationID = evaluationID, ev_AgentName = agentName, ev_Timestamp = now, ev_Metrics = [], ev_AggregatedMetrics = [],
      ev_ContextLength = None, ev_CompressedLength = None, ev_CompressionRatio = None, ev_Accuracy = None, ev_QualityScore = None,
      ev_AvgLatencyMs = None, ev_P95LatencyMs = None, ev_TotalTests = totalTests, ev_PassedTests = 0, ev_FailedTests = 0,
      ev_errors = None, ev_latencies = None\<rparr>"

definition Evaluate ::
    "(real \<Rightarrow> string) \<Rightarrow> (go_error \<Rightarrow> string) \<Rightarrow> 'w clock \<Rightarrow> string \<Rightarrow> 'w Evaluator \<Rightarrow> test_case list \<Rightarrow> string \<Rightarrow> ('w, EvaluationResult) call" where
  "Evaluate ff et clk newID e testCases evaluationID w =
     (let (now, w) = clk w;
          result = empty_result (if evaluationID = [] then newID else evaluationID) (agent_Name (evl_agent e)) now (int (length testCases))
      in case evaluate_cases ff et clk e testCases result w of
           (Ok result, w) \<Rightarrow> (Ok (overall (aggregate_metrics (evl_metrics e) w result)), w)
         | (Err err, w) \<Rightarrow> (Err err, w)
         | (Panic p, w) \<Rightarrow> (Panic p, w))"

fun single_metrics ::
    "'w agent \<Rightarrow> message \<Rightarrow> message option \<Rightarrow> (string \<times> gval) list \<Rightarrow> 'w Metric list \<Rightarrow> (string \<times> real) list \<Rightarrow> ('w, (string \<times> real) list) call" where
  "single_metrics agent inputMsg outputMsg ctx [] results w = (Ok results, w)"
| "single_metrics agent inputMsg outputMsg ctx (metric # metrics) results w =
     (case met_Measure metric agent inputMsg outputMsg ctx w of
        (Ok v, w) \<Rightarrow> single_metrics agent inputMsg outputMsg ctx metrics (go_set (met_Name metric) v results) w
      | (Err e, w) \<Rightarrow> single_metrics agent inputMsg outputMsg ctx metrics results w
      | (Panic p, w) \<Rightarrow> (Panic p, w))"

definition EvaluateSingle :: "'w Evaluator \<Rightarrow> message \<Rightarrow> gval \<Rightarrow> ('w, (string \<times> real) list) call" where
  "EvaluateSingle e inputMessage expectedOutput w =
     (case agent_Process (evl_agent e) Background (Some inputMessage) w of
        (Err err, w) \<Rightarrow> (Err err, w)
      | (Panic p, w) \<Rightarrow> (Panic p, w)
      | (Ok outputMessage, w) \<Rightarrow>
          single_metrics (evl_agent e) inputMessage outputMessage [(''expected'', expectedOutput)] (evl_metrics e) [] w)"

section \<open>What an evaluation reports\<close>

text \<open>
  The reference: what happens to one test case, without the running totals.  An answer comes with
  whether it passed, its latency and the values of the metrics that could be measured.
\<close>

datatype verdict = No_Input | Call_Failed string | Answered bool real "(string \<times> real) list"

fun measured ::
    "'w agent \<Rightarrow> message \<Rightarrow> message option \<Rightarrow> (string \<times> gval) list \<Rightarrow> 'w Metric list \<Rightarrow> ('w, (string \<times> real) list) call" where
  "measured agent inputMsg outputMsg ctx [] w = (Ok [], w)"
| "measured agent inputMsg outputMsg ctx (metric # metrics) w =
     (case met_Measure metric agent inputMsg outputMsg ctx w of
        (Ok v, w) \<Rightarrow> and_then (measured agent inputMsg outputMsg ctx metrics) (\<lambda>vs. ret ((met_Name metric, v) # vs)) w
      | (Err e, w) \<Rightarrow> measured agent inputMsg outputMsg ctx metrics w
      | (Panic p, w) \<Rightarrow> (Panic p, w))"

definition case_verdict ::
    "(real \<Rightarrow> string) \<Rightarrow> (go_error \<Rightarrow> string) \<Rightarrow> 'w clock \<Rightarrow> 'w Evaluator \<Rightarrow> test_case \<Rightarrow> ('w, verdict) call" where
  "case_verdict ff et clk e testCase w =
     (case test_input testCase of
        None \<Rightarrow> (Ok No_Input, w)
      | Some inputContent \<Rightarrow>
          (let inputMsg = input_message (evl_sessionID e) inputContent;
               (start, w) = clk w;
               (reply, w) = agent_Process (evl_agent e) Background (Some inputMsg) w;
               (end, w) = clk w;
               latency = real_of_int (Milliseconds (end - start))
           in case reply of
             Panic p \<Rightarrow> (Panic p, w)
           | Err err \<Rightarrow> (Ok (Call_Failed (et err)), w)
           | Ok outputMsg \<Rightarrow>
               (case checkTest ff outputMsg testCase of
                  Ok passed \<Rightarrow>
                    and_then (measured (evl_agent e) inputMsg outputMsg (metric_context testCase latency) (evl_metrics e))
                      (\<lambda>vs. ret (Answered passed latency vs)) w
                | Err err \<Rightarrow> (Err err, w)
                | Panic p \<Rightarrow> (Panic p, w))))"

fun verdicts ::
    "(real \<Rightarrow> string) \<Rightarrow> (go_error \<Rightarrow> string) \<Rightarrow> 'w clock \<Rightarrow> 'w Evaluator \<Rightarrow> test_case list \<Rightarrow> ('w, verdict list) call" where
  "verdicts ff et clk e [] w = (Ok [], w)"
| "verdicts ff et clk e (testCase # testCases) w =
     and_then (case_verdict ff et clk e testCase) (\<lambda>v. and_then (verdicts ff et clk e testCases) (\<lambda>vs. ret (v # vs))) w"

text \<open>The totals of a list of verdicts.\<close>

definition passed_count :: "verdict list \<Rightarrow> int" where
  "passed_count vs = int (length (filter (\<lambda>v. case v of Answered b _ _ \<Rightarrow> b | _ \<Rightarrow> False) vs))"

definition error_list :: "verdict list \<Rightarrow> string list" where
  "error_list vs = concat (map (\<lambda>v. case v of Call_Failed t \<Rightarrow> [t] | _ \<Rightarrow> []) vs)"

definition latency_list :: "verdict list \<Rightarrow> real list" where
  "latency_list vs = concat (map (\<lambda>v. case v of Answered _ l _ \<Rightarrow> [l] | _ \<Rightarrow> []) vs)"

definition value_list :: "verdict list \<Rightarrow> (string \<times> real) list" where
  "value_list vs = concat (map (\<lambda>v. case v of Answered _ _ ms \<Rightarrow> ms | _ \<Rightarrow> []) vs)"

definition extend :: "'a list option \<Rightarrow> 'a list \<Rightarrow> 'a list option" where
  "extend x ys = (if ys = [] then x else Some ((case x of None \<Rightarrow> [] | Some xs \<Rightarrow> xs) @ ys))"

definition add_verdicts :: "verdict list \<Rightarrow> EvaluationResult \<Rightarrow> EvaluationResult" where
  "add_verdicts vs r =
     r\<lparr>ev_Metrics := fold (\<lambda>(k, v). append_value k v) (value_list vs) (ev_Metrics r),
       ev_PassedTests := ev_PassedTests r + passed_count vs,
       ev_FailedTests := ev_FailedTests r + (int (length vs) - passed_count vs),
       ev_errors := extend (ev_errors r) (error_list vs),
       ev_latencies := extend (ev_latencies r) (latency_list vs)\<rparr>"

lemmas verdict_totals = passed_count_def error_list_def latency_list_def value_list_def

lemma extend_Nil [simp]: "extend x [] = x"
  by (simp add: extend_def)

lemma extend_append: "extend (extend x ys) zs = extend x (ys @ zs)"
  by (simp add: extend_def)

lemma add_verdicts_Cons: "add_verdicts (v # vs) r = add_verdicts vs (add_verdicts [v] r)"
  by (simp add: add_verdicts_def verdict_totals extend_append split: verdict.split)

lemma add_verdicts_Nil [simp]: "add_verdicts [] r = r"
  by (simp add: add_verdicts_def verdict_totals)

lemma run_metrics_measured:
  "run_metrics agent i out ctx ms r w =
    (case measured agent i out ctx ms w of
       (Ok vs, w) \<Rightarrow> (Ok (r\<lparr>ev_Metrics := fold (\<lambda>(k, v). append_value k v) vs (ev_Metrics r)\<rparr>), w)
     | (Err e, w) \<Rightarrow> (Err e, w)
     | (Panic p, w) \<Rightarrow> (Panic p, w))"
  by (induction agent i out ctx ms r w rule: run_metrics.induct)
    (auto simp: and_then_def split: prod.splits outcome.splits)

lemma evaluate_case_verdict:
  "evaluate_case ff et clk e tc r w =
    (case case_verdict ff et clk e tc w of
       (Ok v, w) \<Rightarrow> (Ok (add_verdicts [v] r), w)
     | (Err err, w) \<Rightarrow> (Err err, w)
     | (Panic p, w) \<Rightarrow> (Panic p, w))"
  by (auto simp: evaluate_case_def case_verdict_def Let_def run_metrics_measured and_then_def add_verdicts_def verdict_totals extend_def
      split: prod.splits outcome.splits option.splits)

lemma evaluate_cases_verdicts:
  "evaluate_cases ff et clk e tcs r w =
    (case verdicts ff et clk e tcs w of
       (Ok vs, w) \<Rightarrow> (Ok (add_verdicts vs r), w)
     | (Err err, w) \<Rightarrow> (Err err, w)
     | (Panic p, w) \<Rightarrow> (Panic p, w))"
  by (induction tcs arbitrary: r w)
    (auto simp: evaluate_case_verdict and_then_def add_verdicts_Cons [symmetric] split: prod.splits outcome.splits)

text \<open>A quantile is one of the values; a share of at most \<open>q\<close> is smaller, more than \<open>q\<close> is not greater.\<close>

lemma length_filter_sort: "length (filter P (sort xs)) = length (filter P (xs :: real list))"
  by (metis mset_filter mset_sort size_mset)

lemma quantile_correct:
  assumes "xs \<noteq> []" and "0 \<le> q" and "q < 1"
  shows "quantile q xs \<in> set xs" and "q * real (length xs) < real (length (filter (\<lambda>x. x \<le> quantile q xs) xs))"
    and "real (length (filter (\<lambda>x. x < quantile q xs) xs)) \<le> q * real (length xs)"
proof -
  let ?i = "nat (go_trunc (real (length xs) * q))" and ?ys = "sort xs"
  have nn: "0 \<le> real (length xs) * q" using assms(2) by simp
  have lo: "real ?i \<le> q * real (length xs)" using go_trunc_le [OF nn] go_trunc_nonneg [OF nn] by (simp add: mult.commute)
  have hi: "q * real (length xs) < real ?i + 1" using go_trunc_gt [of "real (length xs) * q"] go_trunc_nonneg [OF nn] by (simp add: mult.commute)
  have "q * real (length xs) < real (length xs)" using assms(1,3) by simp
  then have i: "?i < length ?ys" using lo by simp
  have eq: "quantile q xs = ?ys ! ?i" by (simp add: quantile_def)
  show "quantile q xs \<in> set xs" using nth_mem [OF i] unfolding eq by simp
  have sorted: "sorted ?ys" by simp
  have parts: "length (filter P ?ys) = length (filter P (take n ?ys)) + length (filter P (drop n ?ys))" for P n
    by (metis append_take_drop_id filter_append length_append)
  have "filter (\<lambda>x. x \<le> ?ys ! ?i) (take (Suc ?i) ?ys) = take (Suc ?i) ?ys"
    using i sorted_nth_mono [OF sorted _ i] by (auto simp: filter_id_conv in_set_conv_nth)
  then have "Suc ?i \<le> length (filter (\<lambda>x. x \<le> ?ys ! ?i) ?ys)" using parts [of _ "Suc ?i"] i by simp
  then show "q * real (length xs) < real (length (filter (\<lambda>x. x \<le> quantile q xs) xs))"
    using hi unfolding length_filter_sort eq by linarith
  have "filter (\<lambda>x. x < ?ys ! ?i) (drop ?i ?ys) = []"
    using sorted_nth_mono [OF sorted le_add1] by (auto simp: filter_empty_conv in_set_conv_nth not_less)
  then have "length (filter (\<lambda>x. x < ?ys ! ?i) ?ys) = length (filter (\<lambda>x. x < ?ys ! ?i) (take ?i ?ys))" by (simp only: parts [of _ ?i]) simp
  also have "\<dots> \<le> length (take ?i ?ys)" by (rule length_filter_le)
  also have "\<dots> \<le> ?i" by simp
  finally have "length (filter (\<lambda>x. x < ?ys ! ?i) ?ys) \<le> ?i" .
  then show "real (length (filter (\<lambda>x. x < quantile q xs) xs)) \<le> q * real (length xs)"
    using lo unfolding length_filter_sort eq by linarith
qed

lemma average_between:
  assumes "xs \<noteq> []"
  shows "Min (set xs) \<le> average xs \<and> average xs \<le> Max (set xs)"
proof -
  have "real (length xs) * Min (set xs) \<le> sum_list xs \<and> sum_list xs \<le> real (length xs) * Max (set xs)"
    using sum_list_mono [of xs "\<lambda>x. Min (set xs)" "\<lambda>x. x"] sum_list_mono [of xs "\<lambda>x. x" "\<lambda>x. Max (set xs)"]
    by (simp add: sum_list_triv)
  then show ?thesis using assms by (simp add: average_def field_simps)
qed

lemma fold_append_value:
  "go_get (fold (\<lambda>(k, v). append_value k v) ps ms) k =
    (let xs = map snd (filter (\<lambda>p. fst p = k) ps) in
     if xs = [] then go_get ms k else Some ((case go_get ms k of None \<Rightarrow> [] | Some ys \<Rightarrow> ys) @ xs))"
  by (induction ps arbitrary: ms) (auto simp: append_value_def Let_def split: option.splits)

lemma aggregate_metrics_keeps:
  "ev_Metrics (aggregate_metrics mets w r) = ev_Metrics r" "ev_PassedTests (aggregate_metrics mets w r) = ev_PassedTests r"
  "ev_FailedTests (aggregate_metrics mets w r) = ev_FailedTests r" "ev_TotalTests (aggregate_metrics mets w r) = ev_TotalTests r"
  "ev_errors (aggregate_metrics mets w r) = ev_errors r" "ev_latencies (aggregate_metrics mets w r) = ev_latencies r"
  unfolding aggregate_metrics_def by (induction mets arbitrary: r) (auto split: option.splits)

lemma overall_keeps:
  "ev_Metrics (overall r) = ev_Metrics r" "ev_PassedTests (overall r) = ev_PassedTests r" "ev_FailedTests (overall r) = ev_FailedTests r"
  "ev_TotalTests (overall r) = ev_TotalTests r" "ev_errors (overall r) = ev_errors r" "ev_latencies (overall r) = ev_latencies r"
  "ev_Accuracy (overall r) = Some (SuccessRate r)"
  by (auto simp: overall_def Let_def SuccessRate_def split: option.splits)

lemma verdicts_length: "verdicts ff et clk e tcs w = (Ok vs, w') \<Longrightarrow> length vs = length tcs"
  by (induction tcs arbitrary: w vs) (auto elim!: and_then_OkE)

lemma passed_count_bounds: "0 \<le> passed_count vs" "passed_count vs \<le> int (length vs)"
  by (simp_all add: passed_count_def)

text \<open>
  C37.
  An evaluation reports what happened.  The result of \<open>Evaluate\<close> is the summary of running the
  test cases one after the other: passed and failed tests add up to the number of test cases, the
  passed ones are those whose answer passed its check, the errors and the latencies are those of
  the calls in their order, and every metric lists the values that were measured.  The accuracy is
  the share of passed tests, between 0 and 1; the reported 95% latency was observed, more than 95%
  of the answers took no longer and at most 95% were faster.
\<close>
theorem evaluation_accounts:
  assumes "Evaluate ff et clk newID e tcs eid w = (Ok res, w')"
  shows "\<exists>vs. verdicts ff et clk e tcs (snd (clk w)) = (Ok vs, w') \<and> length vs = length tcs \<and>
    ev_TotalTests res = int (length tcs) \<and> ev_PassedTests res = passed_count vs \<and>
    ev_PassedTests res + ev_FailedTests res = ev_TotalTests res \<and>
    (\<exists>a. ev_Accuracy res = Some a \<and> 0 \<le> a \<and> a \<le> 1 \<and> a * real (length tcs) = real_of_int (passed_count vs)) \<and>
    (case ev_errors res of None \<Rightarrow> [] | Some es \<Rightarrow> es) = error_list vs \<and>
    (case ev_latencies res of None \<Rightarrow> [] | Some ls \<Rightarrow> ls) = latency_list vs \<and>
    (\<forall>k. (case go_get (ev_Metrics res) k of None \<Rightarrow> [] | Some xs \<Rightarrow> xs) = map snd (filter (\<lambda>p. fst p = k) (value_list vs))) \<and>
    (latency_list vs \<noteq> [] \<longrightarrow> (\<exists>p. ev_P95LatencyMs res = Some p \<and> p \<in> set (latency_list vs) \<and>
      0.95 * real (length (latency_list vs)) < real (length (filter (\<lambda>x. x \<le> p) (latency_list vs))) \<and>
      real (length (filter (\<lambda>x. x < p) (latency_list vs))) \<le> 0.95 * real (length (latency_list vs))))"
proof -
  obtain now w0 where clk: "clk w = (now, w0)" by (rule prod.exhaust)
  let ?r0 = "empty_result (if eid = [] then newID else eid) (agent_Name (evl_agent e)) now (int (length tcs))"
  obtain vs where vs: "verdicts ff et clk e tcs w0 = (Ok vs, w')"
    and res: "res = overall (aggregate_metrics (evl_metrics e) w' (add_verdicts vs ?r0))"
    using assms by (auto simp: Evaluate_def clk evaluate_cases_verdicts split: prod.splits outcome.splits)
  note len = verdicts_length [OF vs]
  have fields: "ev_TotalTests res = int (length tcs)" "ev_PassedTests res = passed_count vs"
    "ev_FailedTests res = int (length vs) - passed_count vs" "ev_errors res = extend None (error_list vs)"
    "ev_latencies res = extend None (latency_list vs)"
    "ev_Metrics res = fold (\<lambda>(k, v). append_value k v) (value_list vs) []"
    by (simp_all add: res overall_keeps aggregate_metrics_keeps add_verdicts_def empty_result_def)
  have acc: "ev_Accuracy res = Some (if tcs = [] then 0 else real_of_int (passed_count vs) / real (length tcs))"
    by (simp add: res overall_keeps SuccessRate_def aggregate_metrics_keeps add_verdicts_def empty_result_def)
  have "(\<exists>a. ev_Accuracy res = Some a \<and> 0 \<le> a \<and> a \<le> 1 \<and> a * real (length tcs) = real_of_int (passed_count vs))"
    using acc len passed_count_bounds [of vs] by (cases "tcs = []") (auto simp: passed_count_def)
  moreover have "ev_P95LatencyMs res = Some (quantile 0.95 (latency_list vs))" if "latency_list vs \<noteq> []"
    using that by (simp add: res overall_def Let_def aggregate_metrics_keeps add_verdicts_def empty_result_def extend_def)
  moreover have "(case go_get (ev_Metrics res) k of None \<Rightarrow> [] | Some xs \<Rightarrow> xs) = map snd (filter (\<lambda>p. fst p = k) (value_list vs))" for k
    by (simp add: fields fold_append_value Let_def)
  ultimately show ?thesis
    using vs len fields quantile_correct [of "latency_list vs" "0.95"] clk
    by (intro exI [of _ vs]) (auto simp: extend_def)
qed

text \<open>An agent that answers the first question only, on a clock that counts milliseconds.\<close>

definition knows_one :: "int agent" where
  "knows_one = \<lparr>agent_Name = ''a'', agent_Capabilities = [],
     agent_Process = (\<lambda>ctx m w. (if w < 4 then Ok (Some (NewMessage 0 ''agent'' ''It is FOUR'')) else Err Context_Canceled, w))\<rparr>"

definition two_cases :: "test_case list" where
  "two_cases = [[(''input'', GStr ''2+2?''), (''expected'', GStr ''four'')], [(''input'', GStr ''3+3?''), (''expected'', GStr ''six'')]]"

theorem evaluation_accounts_witness:
  "\<exists>res w'. Evaluate (\<lambda>x. []) (\<lambda>e. ''E'') (\<lambda>w. (w * 1000000, w + 1)) ''id''
      \<lparr>evl_agent = knows_one, evl_metrics = [], evl_sessionID = ''s''\<rparr> two_cases [] 0 = (Ok res, w') \<and>
    ev_PassedTests res + ev_FailedTests res = 2 \<and> (\<exists>a. ev_Accuracy res = Some a \<and> 0 \<le> a \<and> a \<le> 1)"
proof -
  let ?e = "\<lparr>evl_agent = knows_one, evl_metrics = [], evl_sessionID = ''s''\<rparr>"
  have "\<exists>res w'. Evaluate (\<lambda>x. []) (\<lambda>e. ''E'') (\<lambda>w. (w * 1000000, w + 1)) ''id'' ?e two_cases [] 0 = (Ok res, w')"
    by (simp add: Evaluate_def evaluate_case_def two_cases_def test_input_def checkTest_def knows_one_def Let_def
        split: prod.split option.split)
  then obtain res w' where run: "Evaluate (\<lambda>x. []) (\<lambda>e. ''E'') (\<lambda>w. (w * 1000000, w + 1)) ''id'' ?e two_cases [] 0 = (Ok res, w')" by blast
  show ?thesis using evaluation_accounts [OF run] run by (auto simp: two_cases_def)
qed

section \<open>The error tracker\<close>

record StepResult =
  sr_Success :: bool
  sr_Name :: string
  sr_Error :: string

record ErrorTracker =
  et_Enabled :: bool
  et_stepResults :: "StepResult list"

type_synonym RecordStepOption = "StepResult \<Rightarrow> StepResult"

definition WithStepName :: "string \<Rightarrow> RecordStepOption" where
  "WithStepName name r = r\<lparr>sr_Name := name\<rparr>"

definition WithStepError :: "string \<Rightarrow> RecordStepOption" where
  "WithStepError errMsg r = r\<lparr>sr_Error := errMsg\<rparr>"

definition RecordStep :: "bool \<Rightarrow> RecordStepOption list \<Rightarrow> ErrorTracker \<Rightarrow> ErrorTracker" where
  "RecordStep success opts t =
     (if \<not> et_Enabled t then t
      else t\<lparr>et_stepResults := et_stepResults t @ [fold (\<lambda>opt. opt) opts \<lparr>sr_Success = success, sr_Name = [], sr_Error = []\<rparr>]\<rparr>)"

definition TotalSteps :: "ErrorTracker \<Rightarrow> int" where
  "TotalSteps t = int (length (et_stepResults t))"

definition FailedSteps :: "ErrorTracker \<Rightarrow> int" where
  "FailedSteps t = int (length (filter (\<lambda>r. \<not> sr_Success r) (et_stepResults t)))"

definition PerStepErrorRate :: "ErrorTracker \<Rightarrow> real" where
  "PerStepErrorRate t = (if TotalSteps t = 0 then 0 else real_of_int (FailedSteps t) / real_of_int (TotalSteps t))"

definition CumulativeFailureProbabilityOver :: "int \<Rightarrow> ErrorTracker \<Rightarrow> real" where
  "CumulativeFailureProbabilityOver n t = (if n \<le> 0 then 0 else 1 - (1 - PerStepErrorRate t) ^ nat n)"

definition CumulativeFailureProbability :: "ErrorTracker \<Rightarrow> real" where
  "CumulativeFailureProbability t = CumulativeFailureProbabilityOver (TotalSteps t) t"

definition et_Reset :: "ErrorTracker \<Rightarrow> ErrorTracker" where
  "et_Reset t = t\<lparr>et_stepResults := []\<rparr>"

text \<open>A disabled tracker stays empty; the rate and every projection are probabilities.\<close>

lemma disabled_tracker: "\<not> et_Enabled t \<Longrightarrow> fold (\<lambda>(s, opts). RecordStep s opts) steps t = t"
  by (induction steps) (auto simp: RecordStep_def)

lemma PerStepErrorRate_range: "0 \<le> PerStepErrorRate t \<and> PerStepErrorRate t \<le> 1"
  by (auto simp: PerStepErrorRate_def TotalSteps_def FailedSteps_def divide_le_eq_1)

lemma CumulativeFailureProbability_range:
  "0 \<le> CumulativeFailureProbabilityOver n t \<and> CumulativeFailureProbabilityOver n t \<le> 1"
  using PerStepErrorRate_range [of t] by (auto simp: CumulativeFailureProbabilityOver_def power_le_one)

text \<open>Errors compound: a longer run fails at least as often, and one more step multiplies the chance of success.\<close>

lemma failure_compounds:
  assumes "0 \<le> m" and "0 \<le> n"
  shows "1 - CumulativeFailureProbabilityOver (m + n) t =
      (1 - CumulativeFailureProbabilityOver m t) * (1 - CumulativeFailureProbabilityOver n t)"
  using assms by (auto simp: CumulativeFailureProbabilityOver_def nat_add_distrib power_add)

lemma failure_mono: "m \<le> n \<Longrightarrow> CumulativeFailureProbabilityOver m t \<le> CumulativeFailureProbabilityOver n t"
  using PerStepErrorRate_range [of t] CumulativeFailureProbability_range [of n t]
  by (auto simp: CumulativeFailureProbabilityOver_def intro: power_decreasing)

end
