(* ===== verification/Eval_Metrics.thy ===== *)
theory Eval_Metrics
  imports Evaluation
begin

text \<open>
  The metrics of the evaluation package: context length, compression and latency
  (\<open>evaluation/context_metrics.go\<close>), accuracy, quality, precision and recall
  (\<open>evaluation/quality_metrics.go\<close>).

  Lower case (\<open>lower\<close>) and the words of a text (\<open>words\<close>, for \<open>strings.Fields\<close>) are parameters.
\<close>

section \<open>Minimum, maximum and deviation\<close>

fun minFloat64 :: "real list \<Rightarrow> real" where
  "minFloat64 [] = 0"
| "minFloat64 (x # xs) = fold (\<lambda>v minVal. if v < minVal then v else minVal) xs x"

fun maxFloat64 :: "real list \<Rightarrow> real" where
  "maxFloat64 [] = 0"
| "maxFloat64 (x # xs) = fold (\<lambda>v maxVal. if v > maxVal then v else maxVal) xs x"

definition std_deviation :: "real list \<Rightarrow> real" where
  "std_deviation xs =
     (let mean = average xs in sqrt (sum_list (map (\<lambda>x. (x - mean) * (x - mean)) xs) / real (length xs)))"

lemma minFloat64_Min: "xs \<noteq> [] \<Longrightarrow> minFloat64 xs = Min (set xs)"
proof (cases xs)
  case (Cons x ys)
  have "(\<lambda>v minVal. if v < minVal then v else minVal) = (min :: real \<Rightarrow> real \<Rightarrow> real)" by (auto simp: fun_eq_iff min_def)
  then show ?thesis using Min.set_eq_fold [of x ys] Cons by simp
qed simp

lemma maxFloat64_Max: "xs \<noteq> [] \<Longrightarrow> maxFloat64 xs = Max (set xs)"
proof (cases xs)
  case (Cons x ys)
  have "(\<lambda>v maxVal. if v > maxVal then v else maxVal) = (max :: real \<Rightarrow> real \<Rightarrow> real)" by (auto simp: fun_eq_iff max_def)
  then show ?thesis using Max.set_eq_fold [of x ys] Cons by simp
qed simp

section \<open>Context length\<close>

definition estimateTokens :: "string \<Rightarrow> int" where
  "estimateTokens content = int (length content) div 4"

text \<open>\<open>history\<close> is \<open>ctx["conversation_history"]\<close>, where it is a slice of messages.\<close>

definition cm_Measure :: "(real \<Rightarrow> string) \<Rightarrow> message \<Rightarrow> message list option \<Rightarrow> real" where
  "cm_Measure ff inputMessage history =
     (case meta_get inputMessage ''context_length'' of
        Some (GFloat len) \<Rightarrow> len
      | Some (GInt len) \<Rightarrow> real_of_int len
      | _ \<Rightarrow>
          (case history of
             Some msgs \<Rightarrow> real_of_int (sum_list (map (\<lambda>m. estimateTokens (ContentString ff m)) msgs))
           | None \<Rightarrow> 0))"

definition cm_Aggregate :: "real list \<Rightarrow> (string \<times> real) list" where
  "cm_Aggregate ms =
     (if ms = [] then [(''mean'', 0), (''min'', 0), (''max'', 0), (''final'', 0), (''growth_rate'', 0)]
      else
        [(''mean'', average ms), (''min'', minFloat64 ms), (''max'', maxFloat64 ms), (''final'', last ms),
         (''growth_rate'', if length ms > 1 then (last ms - hd ms) / real (length ms) else 0)])"

section \<open>Compression\<close>

record CompressionStats =
  cs_RawTokens :: int
  cs_CompressedTokens :: int
  cs_CompressionRatio :: real
  cs_RetrievalAccuracy :: real
  cs_ContextLengthTested :: int
  cs_Timestamp :: time

record CompressionMetrics =
  cp_testLengths :: "int list"
  cp_needleCount :: int

definition NewCompressionMetrics :: "int list option \<Rightarrow> int \<Rightarrow> CompressionMetrics" where
  "NewCompressionMetrics testLengths needleCount =
     \<lparr>cp_testLengths = (case testLengths of None \<Rightarrow> [1000000, 10000000, 25000000] | Some ls \<Rightarrow> ls), cp_needleCount = needleCount\<rparr>"

definition cp_Measure :: "message \<Rightarrow> real" where
  "cp_Measure outputMessage =
     (case meta_get outputMessage ''compression_ratio'' of Some (GFloat ratio) \<Rightarrow> ratio | _ \<Rightarrow> 1)"

definition cp_Aggregate :: "real list \<Rightarrow> (string \<times> real) list" where
  "cp_Aggregate ms =
     (if ms = [] then [(''mean'', 1), (''min'', 1), (''max'', 1), (''std'', 0)]
      else [(''mean'', average ms), (''min'', minFloat64 ms), (''max'', maxFloat64 ms), (''std'', std_deviation ms)])"

text \<open>The verb \<open>%04d\<close> for a number that is not negative.\<close>

definition pad4 :: "int \<Rightarrow> string" where
  "pad4 i = replicate (4 - length (show_int i)) CHR ''0'' @ show_int i"

definition needle_fact :: "int \<Rightarrow> string" where
  "needle_fact i = ''NEEDLE FACT '' @ show_int i @ '': The secret code is ALPHA-'' @ pad4 i @ ''-OMEGA.''"

definition defaultNeedles :: "CompressionMetrics \<Rightarrow> string list outcome" where
  "defaultNeedles m =
     (if cp_needleCount m < 0 then Panic ''makeslice: len out of range''
      else Ok (map (\<lambda>i. needle_fact (int i)) [0..<nat (cp_needleCount m)]))"

definition filler :: string where
  "filler = concat (replicate 20 ''This is filler content for context expansion. '')"

lemma filler_tokens: "int (length filler) div 4 = 230"
  by (simp add: filler_def length_concat sum_list_replicate)

text \<open>The loop that fills a context up to its length, one needle at each interval.\<close>

function context_loop :: "int \<Rightarrow> int \<Rightarrow> int \<Rightarrow> int \<Rightarrow> string list \<Rightarrow> string list \<Rightarrow> string list" where
  "context_loop targetTokens needleInterval nextNeedleAt currentTokens needles messages =
     (if currentTokens < targetTokens then
        if currentTokens \<ge> nextNeedleAt \<and> needles \<noteq> [] then
          context_loop targetTokens needleInterval (nextNeedleAt + needleInterval) (currentTokens + int (length (hd needles)) div 4)
            (tl needles) (messages @ [hd needles])
        else
          context_loop targetTokens needleInterval nextNeedleAt (currentTokens + int (length filler) div 4) needles (messages @ [filler])
      else messages)"
  by pat_completeness auto
termination
  by (relation "measures [\<lambda>(t, ni, nn, c, ns, ms). nat (t - c), \<lambda>(t, ni, nn, c, ns, ms). length ns]")
    (auto simp: filler_tokens)

declare context_loop.simps [simp del]

definition generateTestContext :: "int \<Rightarrow> string list \<Rightarrow> string list" where
  "generateTestContext targetTokens needles =
     (let needleInterval = go_trunc (real_of_int targetTokens / real (length needles + 1)) in
      context_loop targetTokens needleInterval needleInterval 0 needles [])"

definition recall_query :: "string \<Rightarrow> message" where
  "recall_query needle =
     \<lparr>msg_role = ''user'',
      msg_content = GStr (''Recall: What was mentioned about '' @ (if length needle > 50 then take 50 needle else needle) @ ''?''),
      msg_metadata = None, msg_timestamp = 0\<rparr>"

fun retrieval_loop ::
    "(real \<Rightarrow> string) \<Rightarrow> (string \<Rightarrow> string) \<Rightarrow> 'w agent \<Rightarrow> string list \<Rightarrow> int \<Rightarrow> ('w, int) call" where
  "retrieval_loop ff lower agent [] correct w = (Ok correct, w)"
| "retrieval_loop ff lower agent (needle # needles) correct w =
     (case agent_Process agent Background (Some (recall_query needle)) w of
        (Err e, w) \<Rightarrow> retrieval_loop ff lower agent needles correct w
      | (Panic p, w) \<Rightarrow> (Panic p, w)
      | (Ok None, w) \<Rightarrow> (Panic ''nil pointer dereference'', w)
      | (Ok (Some response), w) \<Rightarrow>
          retrieval_loop ff lower agent needles
            (if strings_Contains (lower (ContentString ff response)) (lower needle) then correct + 1 else correct) w)"

definition testRetrieval :: "(real \<Rightarrow> string) \<Rightarrow> (string \<Rightarrow> string) \<Rightarrow> 'w agent \<Rightarrow> string list \<Rightarrow> ('w, real) call" where
  "testRetrieval ff lower agent needles w =
     (case retrieval_loop ff lower agent needles 0 w of
        (Ok correct, w) \<Rightarrow> (Ok (if needles = [] then 0 else real_of_int correct / real (length needles)), w)
      | (Err e, w) \<Rightarrow> (Err e, w)
      | (Panic p, w) \<Rightarrow> (Panic p, w))"

definition user_message :: "string \<Rightarrow> message" where
  "user_message content = \<lparr>msg_role = ''user'', msg_content = GStr content, msg_metadata = None, msg_timestamp = 0\<rparr>"

fun feed :: "'w agent \<Rightarrow> string list \<Rightarrow> ('w, unit) call" where
  "feed agent [] w = (Ok (), w)"
| "feed agent (m # ms) w =
     (case agent_Process agent Background (Some (user_message m)) w of
        (Ok _, w) \<Rightarrow> feed agent ms w
      | (Err e, w) \<Rightarrow> (Err e, w)
      | (Panic p, w) \<Rightarrow> (Panic p, w))"

definition compression_stats :: "int \<Rightarrow> real \<Rightarrow> time \<Rightarrow> CompressionStats" where
  "compression_stats len accuracy now =
     \<lparr>cs_RawTokens = len, cs_CompressedTokens = go_trunc (real_of_int len / 100), cs_CompressionRatio = 100,
      cs_RetrievalAccuracy = accuracy, cs_ContextLengthTested = len, cs_Timestamp = now\<rparr>"

fun lengths_loop ::
    "(real \<Rightarrow> string) \<Rightarrow> (string \<Rightarrow> string) \<Rightarrow> 'w clock \<Rightarrow> 'w agent \<Rightarrow> string list \<Rightarrow> int list \<Rightarrow> (int \<times> CompressionStats) list \<Rightarrow>
     ('w, (int \<times> CompressionStats) list) call" where
  "lengths_loop ff lower clk agent needles [] results w = (Ok results, w)"
| "lengths_loop ff lower clk agent needles (len # lens) results w =
     (case feed agent (generateTestContext len needles) w of
        (Err e, w) \<Rightarrow> (Err e, w)
      | (Panic p, w) \<Rightarrow> (Panic p, w)
      | (Ok _, w) \<Rightarrow>
          (case testRetrieval ff lower agent needles w of
             (Err e, w) \<Rightarrow> (Err e, w)
           | (Panic p, w) \<Rightarrow> (Panic p, w)
           | (Ok accuracy, w) \<Rightarrow>
               (let (now, w) = clk w in
                lengths_loop ff lower clk agent needles lens (go_set len (compression_stats len accuracy now) results) w)))"

definition EvaluateAtLengths ::
    "(real \<Rightarrow> string) \<Rightarrow> (string \<Rightarrow> string) \<Rightarrow> 'w clock \<Rightarrow> CompressionMetrics \<Rightarrow> 'w agent \<Rightarrow> string list option \<Rightarrow>
     ('w, (int \<times> CompressionStats) list) call" where
  "EvaluateAtLengths ff lower clk m agent needleContent w =
     (case (case needleContent of None \<Rightarrow> defaultNeedles m | Some ns \<Rightarrow> Ok ns) of
        Ok needles \<Rightarrow> lengths_loop ff lower clk agent needles (cp_testLengths m) [] w
      | Err e \<Rightarrow> (Err e, w)
      | Panic p \<Rightarrow> (Panic p, w))"

section \<open>Latency\<close>

definition lm_Measure :: "(string \<times> gval) list \<Rightarrow> real" where
  "lm_Measure ctx = (case go_get ctx ''latency_ms'' of Some (GFloat latency) \<Rightarrow> latency | _ \<Rightarrow> 0)"

definition lm_Aggregate :: "real list \<Rightarrow> (string \<times> real) list" where
  "lm_Aggregate ms =
     (if ms = [] then [(''mean'', 0), (''p50'', 0), (''p95'', 0), (''p99'', 0), (''min'', 0), (''max'', 0)]
      else
        [(''mean'', average ms), (''p50'', quantile 0.50 ms), (''p95'', quantile 0.95 ms), (''p99'', quantile 0.99 ms),
         (''min'', sort ms ! 0), (''max'', sort ms ! (length ms - 1))])"

section \<open>Accuracy\<close>

record AccuracyMetric =
  am_validator :: "(string \<Rightarrow> string \<Rightarrow> bool) option"
  am_caseSensitive :: bool

definition NewAccuracyMetric :: "(string \<Rightarrow> string \<Rightarrow> bool) option \<Rightarrow> bool \<Rightarrow> AccuracyMetric" where
  "NewAccuracyMetric validator caseSensitive = \<lparr>am_validator = validator, am_caseSensitive = caseSensitive\<rparr>"

definition am_Measure ::
    "(real \<Rightarrow> string) \<Rightarrow> (string \<Rightarrow> string) \<Rightarrow> AccuracyMetric \<Rightarrow> message option \<Rightarrow> (string \<times> gval) list \<Rightarrow> real outcome" where
  "am_Measure ff lower m outputMessage ctx =
     (case go_get ctx ''expected'' of
        None \<Rightarrow> Ok 1
      | Some expected \<Rightarrow>
          (case outputMessage of
             None \<Rightarrow> Panic ''nil pointer dereference''
           | Some out \<Rightarrow>
               (let actual = ContentString ff out; expectedStr = sprint_v ff expected in
                case am_validator m of
                  Some validator \<Rightarrow> Ok (if validator expectedStr actual then 1 else 0)
                | None \<Rightarrow>
                    (let expectedStr = (if am_caseSensitive m then expectedStr else lower expectedStr);
                         actual = (if am_caseSensitive m then actual else lower actual)
                     in Ok (if strings_Contains actual expectedStr then 1 else 0)))))"

definition am_Aggregate :: "real list \<Rightarrow> (string \<times> real) list" where
  "am_Aggregate ms =
     (if ms = [] then [(''accuracy'', 0), (''total'', 0), (''correct'', 0), (''incorrect'', 0)]
      else
        let n = real (length ms); correct = sum_list ms in
        [(''accuracy'', correct / n), (''total'', n), (''correct'', correct), (''incorrect'', n - correct)])"

section \<open>Quality\<close>

record QualityMetrics =
  qm_useLLMJudge :: bool
  qm_judgeModel :: string
  qm_weights :: "(string \<times> real) list"

definition NewQualityMetrics :: "bool \<Rightarrow> string \<Rightarrow> (string \<times> real) list option \<Rightarrow> QualityMetrics" where
  "NewQualityMetrics useLLMJudge judgeModel weights =
     \<lparr>qm_useLLMJudge = useLLMJudge, qm_judgeModel = judgeModel,
      qm_weights = (case weights of
         None \<Rightarrow> [(''relevance'', 0.3), (''completeness'', 0.3), (''coherence'', 0.2), (''accuracy'', 0.2)]
       | Some ws \<Rightarrow> ws)\<rparr>"

definition phrase :: "string list \<Rightarrow> nat \<Rightarrow> string" where
  "phrase ws i = strings_Join (take 3 (drop i ws)) '' ''"

fun repeated :: "string list \<Rightarrow> string list \<Rightarrow> bool" where
  "repeated [] seen = False"
| "repeated (p # ps) seen = (if p \<in> set seen then True else repeated ps (p # seen))"

definition hasRepetition :: "(string \<Rightarrow> string list) \<Rightarrow> string \<Rightarrow> bool" where
  "hasRepetition words s =
     (let ws = words s in
      if length ws < 10 then False else repeated (map (phrase ws) [0..<length ws - 2]) [])"

definition relevance_score :: "(string \<Rightarrow> string list) \<Rightarrow> string \<Rightarrow> string \<Rightarrow> real" where
  "relevance_score words inputText outputText =
     (let query = remdups (words inputText);
          overlap = length (filter (\<lambda>t. t \<in> set (words outputText)) query);
          relevance = real overlap / max (real (length query)) 1
      in if relevance > 1 then 1 else relevance)"

definition completeness_score :: "string \<Rightarrow> string \<Rightarrow> real" where
  "completeness_score inputText outputText =
     (let completeness = real (length outputText) / max (real (length inputText * 2)) 100 in
      if completeness > 1 then 1 else completeness)"

definition coherence_score :: "(string \<Rightarrow> string list) \<Rightarrow> string \<Rightarrow> real" where
  "coherence_score words outputText =
     (if length outputText > 20 then 0.5 else 0) + (if \<not> hasRepetition words outputText then 0.5 else 0)"

definition accuracy_score :: "(real \<Rightarrow> string) \<Rightarrow> (string \<Rightarrow> string) \<Rightarrow> string \<Rightarrow> (string \<times> gval) list \<Rightarrow> real" where
  "accuracy_score ff lower outputText ctx =
     (case go_get ctx ''expected'' of
        None \<Rightarrow> 0.5
      | Some expected \<Rightarrow> if strings_Contains outputText (lower (sprint_v ff expected)) then 1 else 0)"

definition ruleBasedQuality ::
    "(real \<Rightarrow> string) \<Rightarrow> (string \<Rightarrow> string) \<Rightarrow> (string \<Rightarrow> string list) \<Rightarrow> QualityMetrics \<Rightarrow> message \<Rightarrow> message option \<Rightarrow>
     (string \<times> gval) list \<Rightarrow> real outcome" where
  "ruleBasedQuality ff lower words m inputMessage outputMessage ctx =
     (case outputMessage of
        None \<Rightarrow> Panic ''nil pointer dereference''
      | Some out \<Rightarrow>
          (let inputText = lower (ContentString ff inputMessage); outputText = lower (ContentString ff out);
               scores = [(''relevance'', relevance_score words inputText outputText),
                         (''completeness'', completeness_score inputText outputText),
                         (''coherence'', coherence_score words outputText),
                         (''accuracy'', accuracy_score ff lower outputText ctx)]
           in Ok (sum_list (map (\<lambda>(dim, score). score * (case go_get (qm_weights m) dim of Some x \<Rightarrow> x | None \<Rightarrow> 0)) scores))))"

definition qm_Aggregate :: "real list \<Rightarrow> (string \<times> real) list" where
  "qm_Aggregate ms =
     (if ms = [] then [(''mean'', 0), (''min'', 0), (''max'', 0), (''std'', 0)]
      else [(''mean'', average ms), (''min'', minFloat64 ms), (''max'', maxFloat64 ms), (''std'', std_deviation ms)])"

section \<open>Precision and recall\<close>

record PrecisionRecallMetric =
  pr_truePositives :: int
  pr_falsePositives :: int
  pr_falseNegatives :: int
  pr_trueNegatives :: int

definition NewPrecisionRecallMetric :: PrecisionRecallMetric where
  "NewPrecisionRecallMetric = \<lparr>pr_truePositives = 0, pr_falsePositives = 0, pr_falseNegatives = 0, pr_trueNegatives = 0\<rparr>"

definition Precision :: "PrecisionRecallMetric \<Rightarrow> real" where
  "Precision s =
     (if pr_truePositives s + pr_falsePositives s = 0 then 0
      else real_of_int (pr_truePositives s) / real_of_int (pr_truePositives s + pr_falsePositives s))"

definition Recall :: "PrecisionRecallMetric \<Rightarrow> real" where
  "Recall s =
     (if pr_truePositives s + pr_falseNegatives s = 0 then 0
      else real_of_int (pr_truePositives s) / real_of_int (pr_truePositives s + pr_falseNegatives s))"

definition F1Score :: "PrecisionRecallMetric \<Rightarrow> real" where
  "F1Score s =
     (let p = Precision s; r = Recall s in if p + r = 0 then 0 else 2 * (p * r) / (p + r))"

definition toBool :: "gval \<Rightarrow> bool" where
  "toBool v =
     (case v of
        GBool b \<Rightarrow> b
      | GInt i \<Rightarrow> i \<noteq> 0
      | GFloat x \<Rightarrow> x \<noteq> 0
      | GStr s \<Rightarrow> s = ''true'' \<or> s = ''True'' \<or> s = ''1''
      | _ \<Rightarrow> False)"

definition pr_Measure :: "(string \<times> gval) list option \<Rightarrow> PrecisionRecallMetric \<Rightarrow> real \<times> PrecisionRecallMetric" where
  "pr_Measure ctx m =
     (case ctx of
        None \<Rightarrow> (1, m)
      | Some c \<Rightarrow>
          (case (go_get c ''true_label'', go_get c ''predicted_label'') of
             (Some t, Some p) \<Rightarrow>
               if toBool t \<and> toBool p then (1, m\<lparr>pr_truePositives := pr_truePositives m + 1\<rparr>)
               else if \<not> toBool t \<and> toBool p then (0, m\<lparr>pr_falsePositives := pr_falsePositives m + 1\<rparr>)
               else if toBool t \<and> \<not> toBool p then (0, m\<lparr>pr_falseNegatives := pr_falseNegatives m + 1\<rparr>)
               else (1, m\<lparr>pr_trueNegatives := pr_trueNegatives m + 1\<rparr>)
           | _ \<Rightarrow> (1, m)))"

definition pr_ToDict :: "PrecisionRecallMetric \<Rightarrow> (string \<times> real) list" where
  "pr_ToDict s =
     [(''true_positives'', real_of_int (pr_truePositives s)), (''false_positives'', real_of_int (pr_falsePositives s)),
      (''false_negatives'', real_of_int (pr_falseNegatives s)), (''true_negatives'', real_of_int (pr_trueNegatives s)),
      (''precision'', Precision s), (''recall'', Recall s), (''f1_score'', F1Score s)]"

definition pr_Reset :: "PrecisionRecallMetric \<Rightarrow> PrecisionRecallMetric" where
  "pr_Reset m = NewPrecisionRecallMetric"

section \<open>The metrics as the evaluator uses them\<close>

definition accuracy_metric :: "(real \<Rightarrow> string) \<Rightarrow> (string \<Rightarrow> string) \<Rightarrow> AccuracyMetric \<Rightarrow> 'w Metric" where
  "accuracy_metric ff lower m =
     \<lparr>met_Name = ''accuracy'', met_Measure = (\<lambda>ag i out ctx w. (am_Measure ff lower m out ctx, w)), met_Aggregate = (\<lambda>ms w. am_Aggregate ms)\<rparr>"

definition latency_metric :: "'w Metric" where
  "latency_metric =
     \<lparr>met_Name = ''latency'', met_Measure = (\<lambda>ag i out ctx w. (Ok (lm_Measure ctx), w)), met_Aggregate = (\<lambda>ms w. lm_Aggregate ms)\<rparr>"

definition quality_metric :: "(real \<Rightarrow> string) \<Rightarrow> (string \<Rightarrow> string) \<Rightarrow> (string \<Rightarrow> string list) \<Rightarrow> QualityMetrics \<Rightarrow> 'w Metric" where
  "quality_metric ff lower words m =
     \<lparr>met_Name = ''quality'', met_Measure = (\<lambda>ag i out ctx w. (ruleBasedQuality ff lower words m i out ctx, w)),
      met_Aggregate = (\<lambda>ms w. qm_Aggregate ms)\<rparr>"

section \<open>Properties\<close>

text \<open>A phrase is found repeated exactly when the phrases of three words are not distinct.\<close>

lemma repeated_iff: "repeated ps seen \<longleftrightarrow> \<not> distinct ps \<or> set ps \<inter> set seen \<noteq> {}"
  by (induction ps arbitrary: seen) auto

lemma hasRepetition_iff:
  "hasRepetition words s \<longleftrightarrow> 10 \<le> length (words s) \<and> \<not> distinct (map (phrase (words s)) [0..<length (words s) - 2])"
  by (simp add: hasRepetition_def Let_def repeated_iff not_less del: map_map distinct_map)

lemma relevance_range: "0 \<le> relevance_score words i out \<and> relevance_score words i out \<le> 1"
  by (auto simp: relevance_score_def Let_def)

lemma completeness_range: "0 \<le> completeness_score i out \<and> completeness_score i out \<le> 1"
  by (auto simp: completeness_score_def Let_def intro!: divide_nonneg_nonneg)

lemma coherence_range: "0 \<le> coherence_score words out \<and> coherence_score words out \<le> 1"
  by (simp add: coherence_score_def)

lemma accuracy_range: "0 \<le> accuracy_score ff lower out ctx \<and> accuracy_score ff lower out ctx \<le> 1"
  by (simp add: accuracy_score_def split: option.split)

definition quality_weight :: "QualityMetrics \<Rightarrow> string \<Rightarrow> real" where
  "quality_weight m d = (case go_get (qm_weights m) d of Some x \<Rightarrow> x | None \<Rightarrow> 0)"

lemma weighted_unit: "0 \<le> s \<Longrightarrow> s \<le> (1 :: real) \<Longrightarrow> 0 \<le> w \<Longrightarrow> 0 \<le> s * w \<and> s * w \<le> w"
  using mult_right_mono [of s 1 w] by simp

text \<open>The quality score lies between 0 and 1 for weights that are not negative and add up to at most 1, the default among them.\<close>

lemma quality_score_bounded:
  assumes "\<forall>d \<in> {''relevance'', ''completeness'', ''coherence'', ''accuracy''}. 0 \<le> quality_weight m d"
    and "quality_weight m ''relevance'' + quality_weight m ''completeness'' + quality_weight m ''coherence'' + quality_weight m ''accuracy'' \<le> 1"
    and "ruleBasedQuality ff lower words m i out ctx = Ok q"
  shows "0 \<le> q \<and> q \<le> 1"
proof -
  obtain x where out: "out = Some x" using assms(3) by (auto simp: ruleBasedQuality_def split: option.splits)
  let ?i = "lower (ContentString ff i)" and ?o = "lower (ContentString ff x)"
  have "q = relevance_score words ?i ?o * quality_weight m ''relevance'' + completeness_score ?i ?o * quality_weight m ''completeness'' +
      coherence_score words ?o * quality_weight m ''coherence'' + accuracy_score ff lower ?o ctx * quality_weight m ''accuracy''"
    using assms(3) by (simp add: ruleBasedQuality_def out Let_def quality_weight_def)
  then show ?thesis
    using weighted_unit [of "relevance_score words ?i ?o" "quality_weight m ''relevance''"] relevance_range [of words ?i ?o]
      weighted_unit [of "completeness_score ?i ?o" "quality_weight m ''completeness''"] completeness_range [of ?i ?o]
      weighted_unit [of "coherence_score words ?o" "quality_weight m ''coherence''"] coherence_range [of words ?o]
      weighted_unit [of "accuracy_score ff lower ?o ctx" "quality_weight m ''accuracy''"] accuracy_range [of ff lower ?o ctx] assms(1,2)
    by auto
qed

lemma default_weights:
  "quality_weight (NewQualityMetrics b j None) ''relevance'' + quality_weight (NewQualityMetrics b j None) ''completeness'' +
    quality_weight (NewQualityMetrics b j None) ''coherence'' + quality_weight (NewQualityMetrics b j None) ''accuracy'' = 1"
  by (simp add: NewQualityMetrics_def quality_weight_def)

text \<open>
  The evaluator puts a key \<open>expected\<close> into every context, also for a test case without one, so the
  accuracy metric compares the answer with the text of nil: the test passes and its accuracy is 0.
\<close>

lemma accuracy_without_expectation:
  assumes "go_get tc ''expected'' = None" and "\<not> strings_Contains (ContentString ff m) ''<nil>''"
  shows "checkTest ff (Some m) tc = Ok True"
    and "am_Measure ff lower (NewAccuracyMetric None True) (Some m) (metric_context tc l) = Ok 0"
  using assms by (simp_all add: checkTest_def am_Measure_def metric_context_def NewAccuracyMetric_def)

text \<open>The percentiles are ordered between the least and the greatest latency.\<close>

lemma quantile_mono:
  assumes "xs \<noteq> []" and "0 \<le> p" and "p \<le> q" and "q < 1"
  shows "quantile p xs \<le> quantile q xs"
proof -
  have le: "go_trunc (real (length xs) * p) \<le> go_trunc (real (length xs) * q)"
    using assms(3) by (intro go_trunc_mono mult_left_mono) simp_all
  have "real_of_int (go_trunc (real (length xs) * q)) \<le> real (length xs) * q" using assms by (intro go_trunc_le) simp
  also have "\<dots> < real (length xs)" using assms(1,4) by simp
  finally have "go_trunc (real (length xs) * q) < int (length xs)" by linarith
  then have "nat (go_trunc (real (length xs) * q)) < length xs" using assms(1) by (cases "length xs") auto
  then show ?thesis unfolding quantile_def using le by (intro sorted_nth_mono) (auto simp: nat_mono)
qed

lemma percentiles_ordered:
  assumes "ms \<noteq> []"
  shows "sort ms ! 0 \<le> quantile 0.50 ms \<and> quantile 0.50 ms \<le> quantile 0.95 ms \<and> quantile 0.95 ms \<le> quantile 0.99 ms \<and>
    quantile 0.99 ms \<le> sort ms ! (length ms - 1)"
proof -
  have "quantile 0 ms \<le> quantile 0.50 ms" using assms by (intro quantile_mono) auto
  then have "sort ms ! 0 \<le> quantile 0.50 ms" by (simp add: quantile_def go_trunc_def)
  moreover have "quantile 0.99 ms \<le> sort ms ! (length ms - 1)"
  proof -
    have "quantile 0.99 ms \<in> set (sort ms)" using quantile_correct(1) [of ms "0.99"] assms by simp
    then obtain i where "i < length (sort ms)" "quantile 0.99 ms = sort ms ! i" by (metis in_set_conv_nth)
    then show ?thesis using sorted_nth_mono [of "sort ms" i "length ms - 1"] by simp
  qed
  ultimately show ?thesis using quantile_mono [of ms "0.50" "0.95"] quantile_mono [of ms "0.95" "0.99"] assms by simp
qed

text \<open>Precision, recall and the F1 score, which lies between the two.\<close>

definition counts_ok :: "PrecisionRecallMetric \<Rightarrow> bool" where
  "counts_ok s \<longleftrightarrow> 0 \<le> pr_truePositives s \<and> 0 \<le> pr_falsePositives s \<and> 0 \<le> pr_falseNegatives s \<and> 0 \<le> pr_trueNegatives s"

lemma counts_ok_Measure: "counts_ok m \<Longrightarrow> counts_ok (snd (pr_Measure ctx m))"
  by (auto simp: counts_ok_def pr_Measure_def split: option.splits)

lemma Precision_range: "counts_ok s \<Longrightarrow> 0 \<le> Precision s \<and> Precision s \<le> 1"
  by (auto simp: counts_ok_def Precision_def divide_le_eq_1)

lemma Recall_range: "counts_ok s \<Longrightarrow> 0 \<le> Recall s \<and> Recall s \<le> 1"
  by (auto simp: counts_ok_def Recall_def divide_le_eq_1)

lemma F1Score_between:
  assumes "counts_ok s"
  shows "min (Precision s) (Recall s) \<le> F1Score s \<and> F1Score s \<le> max (Precision s) (Recall s)"
proof -
  let ?p = "Precision s" and ?r = "Recall s"
  have harmonic: "p * (p + r) \<le> 2 * (p * r) \<and> 2 * (p * r) \<le> r * (p + r)" if "0 \<le> p" "p \<le> r" for p r :: real
    using that mult_left_mono [of p r p] mult_left_mono [of p r r] by (auto simp: algebra_simps)
  have nn: "0 \<le> ?p" "0 \<le> ?r" using Precision_range [OF assms] Recall_range [OF assms] by auto
  show ?thesis
  proof (cases "?p + ?r = 0")
    case True
    then have "?p = 0" "?r = 0" using nn by linarith+
    then show ?thesis by (simp add: F1Score_def)
  next
    case False
    then have "0 < ?p + ?r" using nn by linarith
    then show ?thesis using harmonic [of ?p ?r] harmonic [of ?r ?p] nn False
      by (cases "?p \<le> ?r") (auto simp: F1Score_def Let_def le_divide_eq divide_le_eq algebra_simps)
  qed
qed

text \<open>What was measured is what the counters say: each labelled measurement is in one cell, the correct ones on the diagonal.\<close>

lemma pr_Measure_counts:
  assumes "pr_Measure (Some c) m = (x, m')" and "go_get c ''true_label'' = Some t" and "go_get c ''predicted_label'' = Some p"
  shows "pr_truePositives m' + pr_falsePositives m' + pr_falseNegatives m' + pr_trueNegatives m' =
      pr_truePositives m + pr_falsePositives m + pr_falseNegatives m + pr_trueNegatives m + 1"
    and "real_of_int (pr_truePositives m' + pr_trueNegatives m') = real_of_int (pr_truePositives m + pr_trueNegatives m) + x"
    and "x = (if toBool t = toBool p then 1 else 0)"
  using assms by (auto simp: pr_Measure_def split: if_splits)

text \<open>
  The generated context reaches its length, and it is filler with needles in their order between
  it: the needles that fit are a prefix of those given.
\<close>

definition estimated :: "string list \<Rightarrow> int" where
  "estimated ms = sum_list (map estimateTokens ms)"

lemma context_loop_correct:
  assumes "context_loop t ni nn c ns ms = ms'" and "estimated ms = c"
  shows "t \<le> estimated ms' \<and> (\<exists>k added. ms' = ms @ added \<and> k \<le> length ns \<and>
      (\<exists>mask. length mask = length added \<and> map snd (filter fst (zip mask added)) = take k ns \<and>
        (\<forall>x \<in> set (zip mask added). \<not> fst x \<longrightarrow> snd x = filler)))"
  using assms
proof (induction t ni nn c ns ms rule: context_loop.induct)
  case (1 t ni nn c ns ms)
  show ?case
  proof (cases "c < t")
    case False
    then have "ms' = ms" using 1(3) by (simp add: context_loop.simps [of t])
    then show ?thesis using False 1(4) by (auto intro!: exI [of _ 0] exI [of _ "[]"])
  next
    case True
    show ?thesis
    proof (cases "nn \<le> c \<and> ns \<noteq> []")
      case needle: True
      then obtain n rest where ns: "ns = n # rest" by (cases ns) auto
      have run: "context_loop t ni (nn + ni) (c + int (length n) div 4) rest (ms @ [n]) = ms'"
        using 1(3) True needle ns by (simp add: context_loop.simps [of t ni nn])
      have "estimated (ms @ [n]) = c + int (length n) div 4" using 1(4) by (simp add: estimated_def estimateTokens_def)
      with 1(1) [OF True needle] run ns obtain k added mask where "t \<le> estimated ms'" "ms' = (ms @ [n]) @ added" "k \<le> length rest"
        "length mask = length added" "map snd (filter fst (zip mask added)) = take k rest"
        "\<forall>x \<in> set (zip mask added). \<not> fst x \<longrightarrow> snd x = filler" by auto
      then show ?thesis unfolding ns by (intro conjI exI [of _ "Suc k"] exI [of _ "n # added"] exI [of _ "True # mask"]) auto
    next
      case plain: False
      have run: "context_loop t ni nn (c + int (length filler) div 4) ns (ms @ [filler]) = ms'"
        using 1(3) True plain by (simp add: context_loop.simps [of t ni nn c])
      have "estimated (ms @ [filler]) = c + int (length filler) div 4" using 1(4) by (simp add: estimated_def estimateTokens_def)
      with 1(2) [OF True plain] run obtain k added mask where "t \<le> estimated ms'" "ms' = (ms @ [filler]) @ added" "k \<le> length ns"
        "length mask = length added" "map snd (filter fst (zip mask added)) = take k ns"
        "\<forall>x \<in> set (zip mask added). \<not> fst x \<longrightarrow> snd x = filler" by auto
      then show ?thesis by (intro conjI exI [of _ k] exI [of _ "filler # added"] exI [of _ "False # mask"]) auto
    qed
  qed
qed

lemma generateTestContext_reaches: "t \<le> estimated (generateTestContext t ns)"
  using context_loop_correct [OF refl, of "[]" 0 t] by (simp add: generateTestContext_def Let_def estimated_def)

text \<open>The reported ratio is the constant 100 whatever the agent does.\<close>

lemma compression_is_not_measured:
  assumes "lengths_loop ff lower clk ag ns lens acc w = (Ok rs, w')" and "\<forall>x \<in> set acc. cs_CompressionRatio (snd x) = 100"
  shows "\<forall>x \<in> set rs. cs_CompressionRatio (snd x) = 100"
  using assms
proof (induction lens arbitrary: acc w)
  case (Cons len lens)
  have keep: "\<forall>x \<in> set (go_set len (compression_stats len a now) acc). cs_CompressionRatio (snd x) = 100" for a now
    using Cons.prems(2) by (induction acc) (auto simp: compression_stats_def)
  from Cons.prems(1) obtain a now w1 where
    "lengths_loop ff lower clk ag ns lens (go_set len (compression_stats len a now) acc) w1 = (Ok rs, w')"
    by (auto split: prod.splits outcome.splits)
  then show ?case using keep by (rule Cons.IH)
qed simp

end
