(* ===== verification/Regression.thy ===== *)
theory Regression
  imports Evaluation
begin

text \<open>
  Detection of regressions between evaluations (\<open>evaluation/regression.go\<close>): the comparison with
  a baseline, the severity of a degradation and the trend of a metric over the history.

  The clock reading of a report is the parameter \<open>now\<close>.
\<close>

section \<open>Reports\<close>

datatype Severity = SeverityNone | SeverityMinor | SeverityModerate | SeverityMajor | SeverityCritical

fun severity_text :: "Severity \<Rightarrow> string" where
  "severity_text SeverityNone = ''none''"
| "severity_text SeverityMinor = ''minor''"
| "severity_text SeverityModerate = ''moderate''"
| "severity_text SeverityMajor = ''major''"
| "severity_text SeverityCritical = ''critical''"

record Regression =
  rg_MetricName :: string
  rg_BaselineValue :: real
  rg_CurrentValue :: real
  rg_DegradationPercent :: real
  rg_Severity :: Severity
  rg_Timestamp :: time
  rg_Context :: "(string \<times> gval) list"

definition IsRegression :: "Regression \<Rightarrow> bool" where
  "IsRegression r \<longleftrightarrow> rg_DegradationPercent r > 0"

definition regression_ToDict :: "(time \<Rightarrow> string) \<Rightarrow> Regression \<Rightarrow> (string \<times> gval) list" where
  "regression_ToDict fmt r =
     [(''metric_name'', GStr (rg_MetricName r)), (''baseline_value'', GFloat (rg_BaselineValue r)),
      (''current_value'', GFloat (rg_CurrentValue r)), (''degradation_percent'', GFloat (rg_DegradationPercent r)),
      (''severity'', GStr (severity_text (rg_Severity r))), (''timestamp'', GStr (fmt (rg_Timestamp r))),
      (''context'', GMap (rg_Context r))]"

section \<open>The detector\<close>

record RegressionDetector =
  rd_thresholds :: "(string \<times> real) list"
  rd_baseline :: "EvaluationResult option"
  rd_history :: "EvaluationResult list"

definition NewRegressionDetector :: "(string \<times> real) list option \<Rightarrow> EvaluationResult option \<Rightarrow> RegressionDetector" where
  "NewRegressionDetector thresholds baseline =
     \<lparr>rd_thresholds = (case thresholds of
        None \<Rightarrow> [(''accuracy'', 0.10), (''quality'', 0.10), (''latency'', 0.20), (''context_length'', 0.30)]
      | Some t \<Rightarrow> t),
      rd_baseline = baseline, rd_history = []\<rparr>"

definition SetBaseline :: "EvaluationResult \<Rightarrow> RegressionDetector \<Rightarrow> RegressionDetector" where
  "SetBaseline result d = d\<lparr>rd_baseline := Some result\<rparr>"

definition calculateSeverity :: "real \<Rightarrow> Severity" where
  "calculateSeverity degradation =
     (if degradation < 0.10 then SeverityNone
      else if degradation < 0.20 then SeverityMinor
      else if degradation < 0.50 then SeverityModerate
      else SeverityCritical)"

text \<open>\<open>None\<close>: both values are zero, and nothing is reported.\<close>

definition degradation_of :: "real \<Rightarrow> real \<Rightarrow> bool \<Rightarrow> real option" where
  "degradation_of baseline current higherIsBetter =
     (if baseline = 0 then
        if current = 0 then None else Some (if higherIsBetter then 1 else -1)
      else Some (if higherIsBetter then (baseline - current) / baseline else (current - baseline) / baseline))"

definition threshold_of :: "RegressionDetector \<Rightarrow> string \<Rightarrow> real" where
  "threshold_of d name = (case go_get (rd_thresholds d) name of Some t \<Rightarrow> t | None \<Rightarrow> 0.10)"

definition checkMetric :: "time \<Rightarrow> RegressionDetector \<Rightarrow> string \<Rightarrow> real \<Rightarrow> real \<Rightarrow> bool \<Rightarrow> Regression option" where
  "checkMetric now d name baseline current higherIsBetter =
     (case degradation_of baseline current higherIsBetter of
        None \<Rightarrow> None
      | Some degradation \<Rightarrow>
          let threshold = threshold_of d name in
          if degradation > threshold then
            Some \<lparr>rg_MetricName = name, rg_BaselineValue = baseline, rg_CurrentValue = current,
                  rg_DegradationPercent = degradation * 100, rg_Severity = calculateSeverity degradation, rg_Timestamp = now,
                  rg_Context = [(''threshold_percent'', GFloat (threshold * 100)), (''higher_is_better'', GBool higherIsBetter)]\<rparr>
          else None)"

text \<open>A check runs when both results have the value.\<close>

definition check_both :: "time \<Rightarrow> RegressionDetector \<Rightarrow> string \<Rightarrow> real option \<Rightarrow> real option \<Rightarrow> bool \<Rightarrow> Regression list" where
  "check_both now d name baseline current higherIsBetter =
     (case (current, baseline) of
        (Some c, Some b) \<Rightarrow> (case checkMetric now d name b c higherIsBetter of None \<Rightarrow> [] | Some r \<Rightarrow> [r])
      | _ \<Rightarrow> [])"

definition regression_Detect :: "time \<Rightarrow> EvaluationResult \<Rightarrow> bool \<Rightarrow> RegressionDetector \<Rightarrow> Regression list \<times> RegressionDetector" where
  "regression_Detect now result storeHistory d0 =
     (let d = (if storeHistory then d0\<lparr>rd_history := rd_history d0 @ [result]\<rparr> else d0) in
      case rd_baseline d of
        None \<Rightarrow> ([], d)
      | Some b \<Rightarrow>
          (check_both now d ''accuracy'' (ev_Accuracy b) (ev_Accuracy result) True @
           check_both now d ''quality'' (ev_QualityScore b) (ev_QualityScore result) True @
           check_both now d ''latency'' (ev_AvgLatencyMs b) (ev_AvgLatencyMs result) False @
           check_both now d ''context_length'' (map_option real_of_int (ev_ContextLength b)) (map_option real_of_int (ev_ContextLength result)) False @
           check_both now d ''compression_ratio'' (ev_CompressionRatio b) (ev_CompressionRatio result) True, d))"

section \<open>Trends\<close>

definition metric_value :: "string \<Rightarrow> EvaluationResult \<Rightarrow> real option" where
  "metric_value metricName r =
     (if metricName = ''accuracy'' then ev_Accuracy r
      else if metricName = ''quality'' then ev_QualityScore r
      else if metricName = ''latency'' then ev_AvgLatencyMs r
      else if metricName = ''context_length'' then map_option real_of_int (ev_ContextLength r)
      else None)"

record Trend =
  tr_metric :: string
  tr_slope :: real
  tr_direction :: string
  tr_variance :: real
  tr_current :: real
  tr_mean :: real
  tr_window_size :: int

definition sum_over :: "nat \<Rightarrow> (nat \<Rightarrow> real) \<Rightarrow> real" where
  "sum_over n f = sum_list (map f [0..<n])"

definition x_mean :: "nat \<Rightarrow> real" where
  "x_mean n = sum_over n real / real n"

definition trend_slope :: "real list \<Rightarrow> real" where
  "trend_slope ys =
     (let n = length ys; numerator = sum_over n (\<lambda>i. (real i - x_mean n) * (ys ! i - average ys));
          denominator = sum_over n (\<lambda>i. (real i - x_mean n) * (real i - x_mean n))
      in if denominator \<noteq> 0 then numerator / denominator else 0)"

definition trend_of :: "string \<Rightarrow> real list \<Rightarrow> Trend" where
  "trend_of metricName ys =
     \<lparr>tr_metric = metricName, tr_slope = trend_slope ys,
      tr_direction = (if trend_slope ys > 0 then ''improving'' else if trend_slope ys < 0 then ''degrading'' else ''stable''),
      tr_variance = sum_list (map (\<lambda>v. (v - average ys) * (v - average ys)) ys) / real (length ys),
      tr_current = last ys, tr_mean = average ys, tr_window_size = int (length ys)\<rparr>"

definition GetTrend :: "string \<Rightarrow> int \<Rightarrow> RegressionDetector \<Rightarrow> Trend option outcome" where
  "GetTrend metricName window d =
     (let history = rd_history d in
      if length history < 2 then Ok None
      else
        let start = max 0 (int (length history) - window) in
        if start > int (length history) then Panic ''slice bounds out of range''
        else
          let ys = concat (map (\<lambda>r. case metric_value metricName r of Some v \<Rightarrow> [v] | None \<Rightarrow> []) (drop (nat start) history)) in
          if length ys < 2 then Ok None else Ok (Some (trend_of metricName ys)))"

definition compare_values :: "string \<Rightarrow> real option \<Rightarrow> real option \<Rightarrow> (string \<times> (string \<times> real) list) list" where
  "compare_values name a b =
     (case (a, b) of
        (Some a, Some b) \<Rightarrow>
          let change = b - a in
          [(name, [(''baseline'', a), (''current'', b), (''change'', change), (''change_percent'', if a \<noteq> 0 then change / a * 100 else 0)])]
      | _ \<Rightarrow> [])"

definition CompareResults :: "EvaluationResult \<Rightarrow> EvaluationResult \<Rightarrow> (string \<times> (string \<times> real) list) list" where
  "CompareResults resultA resultB =
     compare_values ''accuracy'' (ev_Accuracy resultA) (ev_Accuracy resultB) @
     compare_values ''quality'' (ev_QualityScore resultA) (ev_QualityScore resultB) @
     compare_values ''latency'' (ev_AvgLatencyMs resultA) (ev_AvgLatencyMs resultB)"

definition regression_ClearHistory :: "RegressionDetector \<Rightarrow> RegressionDetector" where
  "regression_ClearHistory d = d\<lparr>rd_history := []\<rparr>"

definition regression_GetSummary :: "RegressionDetector \<Rightarrow> (string \<times> gval) list" where
  "regression_GetSummary d =
     [(''has_baseline'', GBool (rd_baseline d \<noteq> None)),
      (''baseline_id'', GStr (case rd_baseline d of None \<Rightarrow> [] | Some b \<Rightarrow> ev_EvaluationID b)),
      (''history_count'', GInt (int (length (rd_history d)))),
      (''thresholds'', GMap (map (\<lambda>(k, t). (k, GFloat t)) (rd_thresholds d)))]"

section \<open>Detection\<close>

text \<open>
  For a positive baseline a metric is reported exactly when it is worse by more than its threshold.
\<close>

lemma checkMetric_exact:
  assumes "0 < b"
  shows "checkMetric now d name b c hib \<noteq> None \<longleftrightarrow>
    (if hib then c < b * (1 - threshold_of d name) else c > b * (1 + threshold_of d name))"
  using assms by (auto simp: checkMetric_def degradation_of_def Let_def field_simps)

lemma checkMetric_is_worse:
  assumes "0 < b" and "0 \<le> threshold_of d name" and "checkMetric now d name b c hib = Some r"
  shows "IsRegression r \<and> (if hib then c < b else c > b) \<and> rg_DegradationPercent r > 100 * threshold_of d name"
proof -
  let ?t = "threshold_of d name"
  obtain x where x: "degradation_of b c hib = Some x" "?t < x" "rg_DegradationPercent r = x * 100"
    using assms(1,3) by (auto simp: checkMetric_def Let_def split: option.splits if_splits)
  then have "0 < x" using assms(2) by simp
  moreover have "x = (if hib then (b - c) / b else (c - b) / b)" using x(1) assms(1) by (simp add: degradation_of_def split: if_splits)
  ultimately show ?thesis using x(2,3) assms(1) by (auto simp: IsRegression_def zero_less_divide_iff split: if_splits)
qed

text \<open>
  From a baseline of zero a better value is reported as a critical regression where higher is
  better, and a worse one is never reported where lower is better.
\<close>

lemma improvement_from_zero_is_critical:
  assumes "0 < c" and "threshold_of d name < 1"
  shows "\<exists>r. checkMetric now d name 0 c True = Some r \<and> rg_Severity r = SeverityCritical \<and> IsRegression r"
  using assms by (simp add: checkMetric_def degradation_of_def calculateSeverity_def IsRegression_def)

lemma slowdown_from_zero_is_missed:
  assumes "-1 \<le> threshold_of d name"
  shows "checkMetric now d name 0 c False = None"
  using assms by (simp add: checkMetric_def degradation_of_def)

text \<open>The severity major is never given; a report above a threshold of 10% is never without severity.\<close>

lemma severity_never_major: "calculateSeverity x \<noteq> SeverityMajor"
  by (simp add: calculateSeverity_def)

lemma severity_mono:
  assumes "x \<le> y"
  shows "(case calculateSeverity x of SeverityNone \<Rightarrow> 0 | SeverityMinor \<Rightarrow> 1 | SeverityModerate \<Rightarrow> 2 | SeverityMajor \<Rightarrow> 3 | SeverityCritical \<Rightarrow> 4)
    \<le> (case calculateSeverity y of SeverityNone \<Rightarrow> (0 :: nat) | SeverityMinor \<Rightarrow> 1 | SeverityModerate \<Rightarrow> 2 | SeverityMajor \<Rightarrow> 3 | SeverityCritical \<Rightarrow> 4)"
  using assms by (simp add: calculateSeverity_def)

section \<open>The trend is the line of least squares\<close>

lemma sum_over_sum: "sum_over n f = (\<Sum>i<n. f i)"
  by (simp add: sum_over_def interv_sum_list_conv_sum_set_nat lessThan_atLeast0)

lemma average_sum: "average ys = (\<Sum>i<length ys. ys ! i) / real (length ys)"
  by (simp add: average_def sum_list_sum_nth lessThan_atLeast0)

definition squared_error :: "real list \<Rightarrow> real \<Rightarrow> real \<Rightarrow> real" where
  "squared_error ys a b = (\<Sum>i<length ys. (ys ! i - (a + b * real i))\<^sup>2)"

lemma centred_sums:
  assumes "ys \<noteq> []"
  shows "(\<Sum>i<length ys. real i - x_mean (length ys)) = 0" and "(\<Sum>i<length ys. ys ! i - average ys) = 0"
  using assms by (simp_all add: sum_subtractf x_mean_def sum_over_sum average_sum)

lemma spread_positive:
  assumes "2 \<le> n"
  shows "0 < sum_over n (\<lambda>i. (real i - x_mean n) * (real i - x_mean n))"
proof -
  have "(real 0 - x_mean n) * (real 0 - x_mean n) + (real 1 - x_mean n) * (real 1 - x_mean n) > 0"
  proof (cases "x_mean n = 0")
    case False
    then have "0 < x_mean n * x_mean n" by (auto simp: zero_less_mult_iff linorder_neq_iff)
    moreover have "0 \<le> (1 - x_mean n) * (1 - x_mean n)" by simp
    ultimately show ?thesis by (simp add: add_pos_nonneg)
  qed simp
  moreover have "(\<Sum>i\<in>{0, 1}. (real i - x_mean n) * (real i - x_mean n)) \<le> (\<Sum>i<n. (real i - x_mean n) * (real i - x_mean n))"
    using assms by (intro sum_mono2) auto
  ultimately show ?thesis by (simp add: sum_over_sum)
qed

text \<open>The error of a line splits into the error of its slope, its offset and what no line can avoid.\<close>

lemma squared_error_split:
  assumes "2 \<le> length ys"
  shows "squared_error ys a b =
    (\<Sum>i<length ys. (ys ! i - average ys)\<^sup>2) - trend_slope ys * trend_slope ys * sum_over (length ys) (\<lambda>i. (real i - x_mean (length ys)) * (real i - x_mean (length ys))) +
    sum_over (length ys) (\<lambda>i. (real i - x_mean (length ys)) * (real i - x_mean (length ys))) * (b - trend_slope ys)\<^sup>2 +
    real (length ys) * (average ys - a - b * x_mean (length ys))\<^sup>2"
proof -
  let ?n = "length ys" and ?xm = "x_mean (length ys)" and ?ym = "average ys" and ?s = "trend_slope ys"
  let ?D = "sum_over ?n (\<lambda>i. (real i - ?xm) * (real i - ?xm))" and ?N = "sum_over ?n (\<lambda>i. (real i - ?xm) * (ys ! i - ?ym))"
  let ?c = "?ym - a - b * ?xm"
  have D: "?D \<noteq> 0" using spread_positive [OF assms] by simp
  then have N: "?N = ?s * ?D" by (simp add: trend_slope_def Let_def)
  have "squared_error ys a b = (\<Sum>i<?n. (ys ! i - ?ym)\<^sup>2 - 2 * b * ((real i - ?xm) * (ys ! i - ?ym)) + b\<^sup>2 * ((real i - ?xm) * (real i - ?xm)) +
      2 * ?c * (ys ! i - ?ym) - 2 * ?c * b * (real i - ?xm) + ?c\<^sup>2)"
    unfolding squared_error_def by (intro sum.cong refl) (simp add: power2_eq_square algebra_simps)
  also have "\<dots> = (\<Sum>i<?n. (ys ! i - ?ym)\<^sup>2) - 2 * b * ?N + b\<^sup>2 * ?D + 2 * ?c * (\<Sum>i<?n. ys ! i - ?ym) -
      2 * ?c * b * (\<Sum>i<?n. real i - ?xm) + real ?n * ?c\<^sup>2"
    by (simp only: sum.distrib sum_subtractf sum_distrib_left [symmetric] sum_over_sum sum_constant card_lessThan)
  also have "\<dots> = (\<Sum>i<?n. (ys ! i - ?ym)\<^sup>2) - 2 * b * (?s * ?D) + b\<^sup>2 * ?D + real ?n * ?c\<^sup>2"
  proof -
    have "ys \<noteq> []" using assms by auto
    note zero = centred_sums [OF this]
    show ?thesis unfolding zero N by simp
  qed
  also have "\<dots> = (\<Sum>i<?n. (ys ! i - ?ym)\<^sup>2) - ?s * ?s * ?D + ?D * (b - ?s)\<^sup>2 + real ?n * ?c\<^sup>2"
    by (simp add: power2_eq_square algebra_simps)
  finally show ?thesis .
qed

text \<open>
  C39.
  A trend is the line of least squares through the values of the window.  Of all lines, the one
  with the reported slope through the reported mean has the least sum of squared distances; the
  mean and the last value of the window are reported with it.  For the metrics of which more is
  better, accuracy and quality, the reported direction is that of the line: improving if it
  rises, degrading if it falls, stable if it does neither.  (The numbers are real numbers;
  for the other metrics see \<open>slower_is_improving\<close>.)
\<close>
theorem trend_least_squares:
  assumes "GetTrend metricName window d = Ok (Some t)"
  shows "\<exists>ys. 2 \<le> length ys \<and> tr_window_size t = int (length ys) \<and>
    ys = concat (map (\<lambda>r. case metric_value metricName r of Some v \<Rightarrow> [v] | None \<Rightarrow> []) (keep_last (nat window) (rd_history d))) \<and>
    tr_mean t = average ys \<and> tr_current t = last ys \<and>
    (\<forall>a b. squared_error ys (tr_mean t - tr_slope t * x_mean (length ys)) (tr_slope t) \<le> squared_error ys a b) \<and>
    (metricName \<in> {''accuracy'', ''quality''} \<longrightarrow>
      tr_direction t = (if tr_slope t > 0 then ''improving'' else if tr_slope t < 0 then ''degrading'' else ''stable''))"
proof -
  let ?h = "rd_history d" and ?start = "max 0 (int (length (rd_history d)) - window)"
  let ?ys = "concat (map (\<lambda>r. case metric_value metricName r of Some v \<Rightarrow> [v] | None \<Rightarrow> []) (drop (nat ?start) ?h))"
  from assms have start: "?start \<le> int (length ?h)" and len: "2 \<le> length ?ys" and t: "t = trend_of metricName ?ys"
    by (auto simp: GetTrend_def Let_def not_less split: if_splits)
  have recent: "drop (nat ?start) ?h = keep_last (nat window) ?h"
    using start by (auto simp: keep_last_drop max_def nat_diff_distrib split: if_splits)
  have "squared_error ?ys (average ?ys - trend_slope ?ys * x_mean (length ?ys)) (trend_slope ?ys) \<le> squared_error ?ys a b" for a b
    unfolding squared_error_split [OF len] using spread_positive [OF len] by (simp add: mult_nonneg_nonneg)
  then show ?thesis using len by (intro exI [of _ ?ys]) (simp add: t trend_of_def recent)
qed

definition two_results :: RegressionDetector where
  "two_results = (NewRegressionDetector None None)\<lparr>rd_history :=
     [(empty_result ''1'' ''a'' 0 1)\<lparr>ev_Accuracy := Some 1\<rparr>, (empty_result ''2'' ''a'' 0 1)\<lparr>ev_Accuracy := Some 0\<rparr>]\<rparr>"

theorem trend_least_squares_witness:
  "\<exists>t. GetTrend ''accuracy'' 2 two_results = Ok (Some t) \<and> tr_window_size t = 2 \<and> tr_mean t = 1 / 2"
proof -
  have run: "GetTrend ''accuracy'' 2 two_results = Ok (Some (trend_of ''accuracy'' [1, 0]))"
    by (simp add: GetTrend_def two_results_def metric_value_def empty_result_def)
  from trend_least_squares [OF run] show ?thesis using run by (auto simp: trend_of_def average_def)
qed

text \<open>
  Improving means a growing value, also for latencies; a window below zero panics.
\<close>

lemma slower_is_improving:
  assumes "rd_history d = [r1, r2]" and "ev_AvgLatencyMs r1 = Some x" and "ev_AvgLatencyMs r2 = Some y" and "x < y"
  shows "\<exists>t. GetTrend ''latency'' 2 d = Ok (Some t) \<and> tr_direction t = ''improving''"
proof -
  have "trend_slope [x, y] = y - x" by (simp add: trend_slope_def Let_def sum_over_def x_mean_def average_def upt_conv_Cons field_simps)
  then show ?thesis using assms by (simp add: GetTrend_def metric_value_def trend_of_def Let_def)
qed

lemma negative_window_panics:
  assumes "window < 0" and "2 \<le> length (rd_history d)"
  shows "GetTrend metricName window d = Panic ''slice bounds out of range''"
  using assms by (simp add: GetTrend_def Let_def)

end
