(* ===== verification/Recorder.thy ===== *)
theory Recorder
  imports Local_Storage Evaluation
begin

text \<open>
  Recording and replay of sessions (\<open>evaluation/recorder.go\<close>): the records and their texts, the
  two storages, the recorder with the agent that it wraps, replay and comparison.

  The file storage stands on the model of package \<open>os\<close> of theory \<open>Local_Storage\<close>; modification
  times of files (\<open>mt\<close>), fresh identifiers (\<open>uid\<close>) and the clock (\<open>clk\<close>) are parameters.
\<close>

section \<open>Records\<close>

record InteractionRecord =
  ir_InteractionID :: string
  ir_SessionID :: string
  ir_InputMessage :: gmap
  ir_OutputMessage :: gmap
  ir_Timestamp :: time
  ir_LatencyMs :: real
  ir_Metadata :: gmap

definition ir_ToDict :: "time_texts \<Rightarrow> InteractionRecord \<Rightarrow> gmap" where
  "ir_ToDict tt r =
     [(''interaction_id'', GStr (ir_InteractionID r)), (''session_id'', GStr (ir_SessionID r)),
      (''input_message'', GMap (ir_InputMessage r)), (''output_message'', GMap (ir_OutputMessage r)),
      (''timestamp'', GStr (format_RFC3339 tt (ir_Timestamp r))), (''latency_ms'', GFloat (ir_LatencyMs r)),
      (''metadata'', GMap (ir_Metadata r))]"

definition getMapOrEmpty :: "gmap \<Rightarrow> string \<Rightarrow> gmap" where
  "getMapOrEmpty data key = (case get_map data key of Some m \<Rightarrow> m | None \<Rightarrow> [])"

definition assert_map :: "gmap \<Rightarrow> string \<Rightarrow> gmap outcome" where
  "assert_map data k = (case go_get data k of Some (GMap m) \<Rightarrow> Ok m | _ \<Rightarrow> Panic ''interface conversion'')"

definition parse_time :: "time_texts \<Rightarrow> string \<Rightarrow> time outcome" where
  "parse_time tt s = (case parse_RFC3339 tt s of Some t \<Rightarrow> Ok t | None \<Rightarrow> Err (Errors_New ''parsing time''))"

definition InteractionRecordFromDict :: "time_texts \<Rightarrow> gmap \<Rightarrow> InteractionRecord outcome" where
  "InteractionRecordFromDict tt data =
     (case get_string data ''timestamp'' of
        None \<Rightarrow> Err (Errorf ''missing or invalid timestamp'' [] None)
      | Some timestampStr \<Rightarrow>
          (case parse_time tt timestampStr of
             Err e \<Rightarrow> Err e
           | Panic p \<Rightarrow> Panic p
           | Ok timestamp \<Rightarrow>
               (case (assert_string data ''interaction_id'', assert_string data ''session_id'', assert_map data ''input_message'',
                      assert_map data ''output_message'', assert_float data ''latency_ms'') of
                  (Ok iid, Ok sid, Ok input, Ok out, Ok latency) \<Rightarrow>
                    Ok \<lparr>ir_InteractionID = iid, ir_SessionID = sid, ir_InputMessage = input, ir_OutputMessage = out,
                        ir_Timestamp = timestamp, ir_LatencyMs = latency, ir_Metadata = getMapOrEmpty data ''metadata''\<rparr>
                | _ \<Rightarrow> Panic ''interface conversion'')))"

record SessionRecording =
  sn_SessionID :: string
  sn_AgentName :: string
  sn_StartTime :: time
  sn_EndTime :: "time option"
  sn_Interactions :: "InteractionRecord list"
  sn_Metadata :: gmap

definition sn_DurationSeconds :: "SessionRecording \<Rightarrow> real" where
  "sn_DurationSeconds r = (case sn_EndTime r of None \<Rightarrow> 0 | Some t \<Rightarrow> Seconds (t - sn_StartTime r))"

definition InteractionCount :: "SessionRecording \<Rightarrow> int" where
  "InteractionCount r = int (length (sn_Interactions r))"

definition TotalLatencyMs :: "SessionRecording \<Rightarrow> real" where
  "TotalLatencyMs r = sum_list (map ir_LatencyMs (sn_Interactions r))"

definition sn_ToDict :: "time_texts \<Rightarrow> SessionRecording \<Rightarrow> gmap" where
  "sn_ToDict tt r =
     [(''session_id'', GStr (sn_SessionID r)), (''agent_name'', GStr (sn_AgentName r)),
      (''start_time'', GStr (format_RFC3339 tt (sn_StartTime r))),
      (''interactions'', GList (map (\<lambda>i. GMap (ir_ToDict tt i)) (sn_Interactions r))), (''metadata'', GMap (sn_Metadata r)),
      (''end_time'', case sn_EndTime r of Some t \<Rightarrow> GStr (format_RFC3339 tt t) | None \<Rightarrow> GNil)]"

text \<open>Entries that are not maps, or whose time cannot be read, are skipped.\<close>

fun read_interactions :: "time_texts \<Rightarrow> gval list \<Rightarrow> InteractionRecord list outcome" where
  "read_interactions tt [] = Ok []"
| "read_interactions tt (GMap m # vs) =
     (case InteractionRecordFromDict tt m of
        Ok i \<Rightarrow> (case read_interactions tt vs of Ok is \<Rightarrow> Ok (i # is) | Err e \<Rightarrow> Err e | Panic p \<Rightarrow> Panic p)
      | Err e \<Rightarrow> read_interactions tt vs
      | Panic p \<Rightarrow> Panic p)"
| "read_interactions tt (_ # vs) = read_interactions tt vs"

definition read_end_time :: "time_texts \<Rightarrow> gmap \<Rightarrow> time option" where
  "read_end_time tt data =
     (case get_string data ''end_time'' of
        Some s \<Rightarrow> if s \<noteq> [] then parse_RFC3339 tt s else None
      | None \<Rightarrow> None)"

definition SessionRecordingFromDict :: "time_texts \<Rightarrow> gmap \<Rightarrow> SessionRecording outcome" where
  "SessionRecordingFromDict tt data =
     (case get_string data ''start_time'' of
        None \<Rightarrow> Err (Errorf ''missing or invalid start_time'' [] None)
      | Some startTimeStr \<Rightarrow>
          (case parse_time tt startTimeStr of
             Err e \<Rightarrow> Err e
           | Panic p \<Rightarrow> Panic p
           | Ok startTime \<Rightarrow>
               (case (case go_get data ''interactions'' of Some (GList vs) \<Rightarrow> read_interactions tt vs | _ \<Rightarrow> Ok []) of
                  Err e \<Rightarrow> Err e
                | Panic p \<Rightarrow> Panic p
                | Ok interactions \<Rightarrow>
                    (case (assert_string data ''session_id'', assert_string data ''agent_name'') of
                       (Ok sid, Ok name) \<Rightarrow>
                         Ok \<lparr>sn_SessionID = sid, sn_AgentName = name, sn_StartTime = startTime, sn_EndTime = read_end_time tt data,
                             sn_Interactions = interactions, sn_Metadata = getMapOrEmpty data ''metadata''\<rparr>
                     | _ \<Rightarrow> Panic ''interface conversion''))))"

section \<open>Storages\<close>

definition recording_path :: "path \<Rightarrow> string \<Rightarrow> path" where
  "recording_path dir sessionID = filepath_Join dir (sessionID @ ''.json'')"

text \<open>\<open>os.Create\<close> empties the file before \<open>Encode\<close> runs, which writes nothing if it fails.\<close>

definition lr_SaveRecording :: "time_texts \<Rightarrow> path \<Rightarrow> SessionRecording \<Rightarrow> (disk, unit) call" where
  "lr_SaveRecording tt dir r =
     (let filePath = recording_path dir (sn_SessionID r) in
      case json_Marshal (GMap (sn_ToDict tt r)) of
        Ok t \<Rightarrow> os_WriteFile filePath t
      | Err e \<Rightarrow> and_then (os_WriteFile filePath (Malformed (Errors_New ''EOF''))) (\<lambda>_ s. (Err e, s))
      | Panic p \<Rightarrow> (\<lambda>s. (Panic p, s)))"

definition decode_recording :: "time_texts \<Rightarrow> json_text \<Rightarrow> SessionRecording outcome" where
  "decode_recording tt t =
     (case t of
        Malformed e \<Rightarrow> Err e
      | Json (GMap data) \<Rightarrow> SessionRecordingFromDict tt data
      | Json GNil \<Rightarrow> SessionRecordingFromDict tt []
      | Json _ \<Rightarrow> Err (Errors_New ''json: cannot unmarshal into Go value of type map[string]interface {}''))"

definition lr_LoadRecording :: "time_texts \<Rightarrow> path \<Rightarrow> string \<Rightarrow> (disk, SessionRecording option) call" where
  "lr_LoadRecording tt dir sessionID s =
     (case os_ReadFile (recording_path dir sessionID) s of
        (Ok t, s) \<Rightarrow>
          (case decode_recording tt t of Ok r \<Rightarrow> (Ok (Some r), s) | Err e \<Rightarrow> (Err e, s) | Panic p \<Rightarrow> (Panic p, s))
      | (Err e, s) \<Rightarrow> (if e = ErrNotExist then (Ok None, s) else (Err e, s))
      | (Panic p, s) \<Rightarrow> (Panic p, s))"

text \<open>A page of a slice; a start below zero, or an end before the start, is out of range.\<close>

definition page :: "int \<Rightarrow> int \<Rightarrow> 'a list \<Rightarrow> 'a list outcome" where
  "page limit offset xs =
     (let start = offset; end = min (offset + limit) (int (length xs)) in
      if start \<ge> int (length xs) then Ok []
      else if start < 0 \<or> end < start then Panic ''slice bounds out of range''
      else Ok (take (nat (end - start)) (drop (nat start) xs)))"

fun load_files :: "time_texts \<Rightarrow> path \<Rightarrow> string list \<Rightarrow> (disk, SessionRecording list) call" where
  "load_files tt dir [] s = (Ok [], s)"
| "load_files tt dir (f # fs) s =
     (case os_ReadFile (dir @ [f]) s of
        (Ok t, s) \<Rightarrow>
          (case decode_recording tt t of
             Ok r \<Rightarrow> and_then (load_files tt dir fs) (\<lambda>rs. ret (r # rs)) s
           | Err e \<Rightarrow> load_files tt dir fs s
           | Panic p \<Rightarrow> (Panic p, s))
      | (Err e, s) \<Rightarrow> load_files tt dir fs s
      | (Panic p, s) \<Rightarrow> (Panic p, s))"

definition glob_json :: "path \<Rightarrow> disk \<Rightarrow> string list" where
  "glob_json dir s = filter (\<lambda>f. suffix ''.json'' f) (map fst (fs_children s dir))"

definition lr_ListRecordings ::
    "((string \<Rightarrow> string \<Rightarrow> bool) \<Rightarrow> string list \<Rightarrow> string list) \<Rightarrow> time_texts \<Rightarrow> (path \<Rightarrow> time) \<Rightarrow> path \<Rightarrow> int \<Rightarrow> int \<Rightarrow>
     (disk, SessionRecording list) call" where
  "lr_ListRecordings srt tt mt dir limit offset s =
     (let files = filter (\<lambda>f. case os_Stat (dir @ [f]) s of (Ok _, _) \<Rightarrow> True | _ \<Rightarrow> False) (glob_json dir s);
          fileInfos = srt (\<lambda>x y. mt (dir @ [x]) > mt (dir @ [y])) files
      in case page limit offset fileInfos of
           Ok fs \<Rightarrow> load_files tt dir fs s
         | Err e \<Rightarrow> (Err e, s)
         | Panic p \<Rightarrow> (Panic p, s))"

definition lr_DeleteRecording :: "path \<Rightarrow> string \<Rightarrow> (disk, unit) call" where
  "lr_DeleteRecording dir sessionID s =
     (case os_Stat (recording_path dir sessionID) s of
        (Ok _, s) \<Rightarrow> os_Remove (recording_path dir sessionID) s
      | (Err e, s) \<Rightarrow> (if e = ErrNotExist then (Ok (), s) else (Err e, s))
      | (Panic p, s) \<Rightarrow> (Panic p, s))"

type_synonym MemoryRecordingStorage = "(string \<times> SessionRecording) list"

definition mr_SaveRecording :: "SessionRecording \<Rightarrow> (MemoryRecordingStorage, unit) call" where
  "mr_SaveRecording r s = (Ok (), go_set (sn_SessionID r) r s)"

definition mr_LoadRecording :: "string \<Rightarrow> (MemoryRecordingStorage, SessionRecording option) call" where
  "mr_LoadRecording sessionID s = (Ok (go_get s sessionID), s)"

definition mr_ListRecordings ::
    "((SessionRecording \<Rightarrow> SessionRecording \<Rightarrow> bool) \<Rightarrow> SessionRecording list \<Rightarrow> SessionRecording list) \<Rightarrow> int \<Rightarrow> int \<Rightarrow>
     (MemoryRecordingStorage, SessionRecording list) call" where
  "mr_ListRecordings srt limit offset s =
     (page limit offset (srt (\<lambda>x y. sn_StartTime x > sn_StartTime y) (map snd s)), s)"

definition mr_DeleteRecording :: "string \<Rightarrow> (MemoryRecordingStorage, unit) call" where
  "mr_DeleteRecording sessionID s = (Ok (), go_delete sessionID s)"

section \<open>The recorder\<close>

record SessionRecorder =
  rc_activeSessions :: "(string \<times> SessionRecording) list"

definition NewSessionRecorder :: SessionRecorder where
  "NewSessionRecorder = \<lparr>rc_activeSessions = []\<rparr>"

definition messageToDict :: "(real \<Rightarrow> string) \<Rightarrow> message option \<Rightarrow> gmap" where
  "messageToDict ff m =
     (case m of
        None \<Rightarrow> [(''role'', GStr []), (''content'', GStr []), (''metadata'', GMap [])]
      | Some m \<Rightarrow>
          [(''role'', GStr (msg_role m)), (''content'', GStr (ContentString ff m)), (''metadata'', GMap (map_or_empty (msg_metadata m)))])"

definition StartSession :: "time \<Rightarrow> string \<Rightarrow> string \<Rightarrow> gmap option \<Rightarrow> SessionRecorder \<Rightarrow> SessionRecorder" where
  "StartSession now sessionID agentName metadata r =
     r\<lparr>rc_activeSessions := go_set sessionID
        \<lparr>sn_SessionID = sessionID, sn_AgentName = agentName, sn_StartTime = now, sn_EndTime = None, sn_Interactions = [],
         sn_Metadata = map_or_empty metadata\<rparr> (rc_activeSessions r)\<rparr>"

definition add_interaction :: "InteractionRecord \<Rightarrow> SessionRecording \<Rightarrow> SessionRecording" where
  "add_interaction i s = s\<lparr>sn_Interactions := sn_Interactions s @ [i]\<rparr>"

definition RecordInteraction ::
    "(real \<Rightarrow> string) \<Rightarrow> time \<Rightarrow> time \<Rightarrow> string \<Rightarrow> string \<Rightarrow> message option \<Rightarrow> message option \<Rightarrow> real \<Rightarrow> gmap option \<Rightarrow> SessionRecorder \<Rightarrow> SessionRecorder" where
  "RecordInteraction ff started now iid sessionID inputMessage outputMessage latencyMs metadata r0 =
     (let r = (if go_get (rc_activeSessions r0) sessionID = None then StartSession started sessionID ''unknown'' None r0 else r0);
          i = \<lparr>ir_InteractionID = iid, ir_SessionID = sessionID, ir_InputMessage = messageToDict ff inputMessage,
               ir_OutputMessage = messageToDict ff outputMessage, ir_Timestamp = now, ir_LatencyMs = latencyMs,
               ir_Metadata = map_or_empty metadata\<rparr>
      in case go_get (rc_activeSessions r) sessionID of
           Some session \<Rightarrow> r\<lparr>rc_activeSessions := go_set sessionID (add_interaction i session) (rc_activeSessions r)\<rparr>
         | None \<Rightarrow> r)"

definition session_of :: "message \<Rightarrow> string" where
  "session_of m = (case meta_get m ''session_id'' of Some (GStr sid) \<Rightarrow> sid | _ \<Rightarrow> ''default'')"

text \<open>The agent that \<open>Wrap\<close> returns.\<close>

definition recording_Process ::
    "(real \<Rightarrow> string) \<Rightarrow> 'w clock \<Rightarrow> ('w \<Rightarrow> string \<times> 'w) \<Rightarrow> 'w agent \<Rightarrow> go_ctx \<Rightarrow> message option \<Rightarrow> SessionRecorder \<times> 'w \<Rightarrow>
     reply \<times> SessionRecorder \<times> 'w" where
  "recording_Process ff clk uid agent ctx message rw =
     (case message of
        None \<Rightarrow> (Panic ''nil pointer dereference'', rw)
      | Some m \<Rightarrow>
          (let (r, w) = rw;
               sessionID = session_of m;
               (r, w) = (if go_get (rc_activeSessions r) sessionID = None
                         then let (now, w) = clk w in (StartSession now sessionID (agent_Name agent) None r, w) else (r, w));
               (start, w) = clk w;
               (reply, w) = agent_Process agent ctx message w;
               (end, w) = clk w
           in case reply of
                Panic p \<Rightarrow> (Panic p, r, w)
              | _ \<Rightarrow>
                  (let (iid, w) = uid w; (now, w) = clk w;
                       r = RecordInteraction ff now now iid sessionID message (case reply of Ok out \<Rightarrow> out | _ \<Rightarrow> None)
                             (real_of_int (Milliseconds (end - start))) None r
                   in (reply, r, w))))"

definition FinalizeSession ::
    "(SessionRecording \<Rightarrow> ('s, unit) call) \<Rightarrow> time \<Rightarrow> string \<Rightarrow> SessionRecorder \<times> 's \<Rightarrow> SessionRecording outcome \<times> SessionRecorder \<times> 's" where
  "FinalizeSession save now sessionID rs =
     (let (r, s) = rs in
      case go_get (rc_activeSessions r) sessionID of
        None \<Rightarrow> (Err (Errorf ''no active session: %s'' [GStr sessionID] None), r, s)
      | Some session \<Rightarrow>
          (let r = r\<lparr>rc_activeSessions := go_delete sessionID (rc_activeSessions r)\<rparr>;
               session = session\<lparr>sn_EndTime := Some now\<rparr>
           in case save session s of
                (Ok _, s) \<Rightarrow> (Ok session, r, s)
              | (Err e, s) \<Rightarrow> (Err e, r, s)
              | (Panic p, s) \<Rightarrow> (Panic p, r, s)))"

section \<open>Replay\<close>

text \<open>An interaction of a replay: an error, or the replayed output with the two latencies.\<close>

record replayed =
  rp_input :: gmap
  rp_original_output :: gmap
  rp_result :: "string + gmap \<times> real \<times> real"

record replay_results =
  rr_session_id :: string
  rr_original_session_id :: string
  rr_interactions :: "replayed list"
  rr_total_latency_ms :: real
  rr_error_count :: int

definition replay_input :: "gmap \<Rightarrow> message outcome" where
  "replay_input d =
     (case (assert_string d ''role'', assert_string d ''content'') of
        (Ok role, Ok content) \<Rightarrow>
          Ok \<lparr>msg_role = role, msg_content = GStr content, msg_metadata = Some (getMapOrEmpty d ''metadata''), msg_timestamp = 0\<rparr>
      | _ \<Rightarrow> Panic ''interface conversion'')"

fun replay_interactions ::
    "(real \<Rightarrow> string) \<Rightarrow> (go_error \<Rightarrow> string) \<Rightarrow> 'w clock \<Rightarrow> 'w agent \<Rightarrow> InteractionRecord list \<Rightarrow> replay_results \<Rightarrow> ('w, replay_results) call" where
  "replay_interactions ff et clk agent [] results w = (Ok results, w)"
| "replay_interactions ff et clk agent (i # is) results w =
     (case replay_input (ir_InputMessage i) of
        Err e \<Rightarrow> (Err e, w)
      | Panic p \<Rightarrow> (Panic p, w)
      | Ok inputMsg \<Rightarrow>
          (let (start, w) = clk w; (reply, w) = agent_Process agent Background (Some inputMsg) w; (end, w) = clk w;
               latency = real_of_int (Milliseconds (end - start))
           in case reply of
             Panic p \<Rightarrow> (Panic p, w)
           | Err err \<Rightarrow>
               replay_interactions ff et clk agent is
                 (results\<lparr>rr_error_count := rr_error_count results + 1,
                    rr_interactions := rr_interactions results @
                      [\<lparr>rp_input = ir_InputMessage i, rp_original_output = ir_OutputMessage i, rp_result = Inl (et err)\<rparr>]\<rparr>) w
           | Ok outputMsg \<Rightarrow>
               replay_interactions ff et clk agent is
                 (results\<lparr>rr_interactions := rr_interactions results @
                      [\<lparr>rp_input = ir_InputMessage i, rp_original_output = ir_OutputMessage i,
                        rp_result = Inr (messageToDict ff outputMsg, ir_LatencyMs i, latency)\<rparr>],
                    rr_total_latency_ms := rr_total_latency_ms results + latency\<rparr>) w))"

definition Replay ::
    "(real \<Rightarrow> string) \<Rightarrow> (go_error \<Rightarrow> string) \<Rightarrow> 'w clock \<Rightarrow> SessionRecording \<Rightarrow> 'w agent \<Rightarrow> string \<Rightarrow> ('w, replay_results) call" where
  "Replay ff et clk recording agent sessionID w =
     replay_interactions ff et clk agent (sn_Interactions recording)
       \<lparr>rr_session_id = (if sessionID = [] then sn_SessionID recording else sessionID), rr_original_session_id = sn_SessionID recording,
        rr_interactions = [], rr_total_latency_ms = 0, rr_error_count = 0\<rparr> w"

record comparison =
  cmp_interaction_count :: int
  cmp_latency_diff_ms :: real
  cmp_latency_diff_percent :: real
  cmp_error_diff :: int
  cmp_output_differences :: "(int \<times> string \<times> string) list"

definition output_content :: "gmap \<Rightarrow> string outcome" where
  "output_content d = assert_string d ''content''"

fun compare_outputs :: "int \<Rightarrow> replayed list \<Rightarrow> replayed list \<Rightarrow> (int \<times> string \<times> string) list outcome" where
  "compare_outputs i (a # as) (b # bs) =
     (case (rp_result a, rp_result b) of
        (Inr (oa, _), Inr (ob, _)) \<Rightarrow>
          (case (output_content oa, output_content ob) of
             (Ok ca, Ok cb) \<Rightarrow>
               (case compare_outputs (i + 1) as bs of
                  Ok ds \<Rightarrow> Ok (if ca \<noteq> cb then (i, ca, cb) # ds else ds)
                | e \<Rightarrow> e)
           | _ \<Rightarrow> Panic ''interface conversion'')
      | _ \<Rightarrow> compare_outputs (i + 1) as bs)"
| "compare_outputs i _ _ = Ok []"

definition Compare :: "replay_results \<Rightarrow> replay_results \<Rightarrow> comparison outcome" where
  "Compare a b =
     (case compare_outputs 0 (rr_interactions a) (rr_interactions b) of
        Ok ds \<Rightarrow>
          Ok \<lparr>cmp_interaction_count = int (length (rr_interactions a)),
              cmp_latency_diff_ms = rr_total_latency_ms b - rr_total_latency_ms a,
              cmp_latency_diff_percent = (if rr_total_latency_ms a > 0
                then (rr_total_latency_ms b - rr_total_latency_ms a) / rr_total_latency_ms a * 100 else 0),
              cmp_error_diff = rr_error_count b - rr_error_count a, cmp_output_differences = ds\<rparr>
      | Err e \<Rightarrow> Err e
      | Panic p \<Rightarrow> Panic p)"

section \<open>What is recorded\<close>

definition recorded :: "SessionRecorder \<Rightarrow> string \<Rightarrow> InteractionRecord list" where
  "recorded r sid = (case go_get (rc_activeSessions r) sid of None \<Rightarrow> [] | Some s \<Rightarrow> sn_Interactions s)"

definition exchange :: "InteractionRecord \<Rightarrow> gmap \<times> gmap" where
  "exchange i = (ir_InputMessage i, ir_OutputMessage i)"

definition output_of :: "reply \<Rightarrow> message option" where
  "output_of reply = (case reply of Ok out \<Rightarrow> out | _ \<Rightarrow> None)"

fun recording_calls ::
    "(real \<Rightarrow> string) \<Rightarrow> 'w clock \<Rightarrow> ('w \<Rightarrow> string \<times> 'w) \<Rightarrow> 'w agent \<Rightarrow> go_ctx \<Rightarrow> message list \<Rightarrow> SessionRecorder \<times> 'w \<Rightarrow>
     reply list \<times> SessionRecorder \<times> 'w" where
  "recording_calls ff clk uid ag ctx [] rw = ([], rw)"
| "recording_calls ff clk uid ag ctx (m # ms) rw =
     (let (reply, rw) = recording_Process ff clk uid ag ctx (Some m) rw; (replies, rw) = recording_calls ff clk uid ag ctx ms rw
      in (reply # replies, rw))"

text \<open>One call is transparent and adds one record to its own session.\<close>

lemma recording_transparent:
  assumes "recording_Process ff clk uid ag ctx (Some m) (r, w) = (reply, r', w')" and "\<forall>p. reply \<noteq> Panic p"
  shows "\<exists>w1. reply = fst (agent_Process ag ctx (Some m) w1)"
proof -
  have "\<exists>w1 w2. agent_Process ag ctx (Some m) w1 = (reply, w2)"
    using assms by (auto simp: recording_Process_def Let_def split: prod.splits if_splits outcome.splits)
  then show ?thesis by (metis fst_conv)
qed

lemma recording_Process_step:
  assumes "recording_Process ff clk uid ag ctx (Some m) (r, w) = (reply, r', w')" and "\<forall>p. reply \<noteq> Panic p"
  shows "map exchange (recorded r' sid) = map exchange (recorded r sid) @
      (if session_of m = sid then [(messageToDict ff (Some m), messageToDict ff (output_of reply))] else [])"
    and "go_get (rc_activeSessions r') (session_of m) \<noteq> None"
    and "(\<forall>s. go_get (rc_activeSessions r) sid = Some s \<longrightarrow> sn_SessionID s = sid) \<Longrightarrow>
      (\<forall>s. go_get (rc_activeSessions r') sid = Some s \<longrightarrow> sn_SessionID s = sid)"
    and "go_get (rc_activeSessions r) sid \<noteq> None \<Longrightarrow> go_get (rc_activeSessions r') sid \<noteq> None"
  using assms
  by (auto simp: recording_Process_def Let_def StartSession_def RecordInteraction_def recorded_def exchange_def output_of_def
      add_interaction_def split: prod.splits if_splits outcome.splits option.splits)

lemma recording_calls_exchanges:
  assumes "recording_calls ff clk uid ag ctx ms (r, w) = (replies, r', w')" and "\<forall>p. Panic p \<notin> set replies"
  shows "length replies = length ms \<and>
    map exchange (recorded r' sid) = map exchange (recorded r sid) @
      map (\<lambda>(m, reply). (messageToDict ff (Some m), messageToDict ff (output_of reply))) (filter (\<lambda>(m, reply). session_of m = sid) (zip ms replies)) \<and>
    (\<forall>reply \<in> set (zip ms replies). \<exists>w1. snd reply = fst (agent_Process ag ctx (Some (fst reply)) w1))"
  using assms
proof (induction ms arbitrary: r w replies)
  case (Cons m ms)
  obtain reply r1 w1 where step: "recording_Process ff clk uid ag ctx (Some m) (r, w) = (reply, r1, w1)" by (metis prod_cases3)
  obtain rest where rest: "recording_calls ff clk uid ag ctx ms (r1, w1) = (rest, r', w')" and replies: "replies = reply # rest"
    using Cons.prems(1) step by (auto split: prod.splits)
  have np1: "\<forall>p. reply \<noteq> Panic p" and np: "\<forall>p. Panic p \<notin> set rest" using Cons.prems(2) replies by auto
  note one = recording_Process_step [OF step np1]
  show ?case using Cons.IH [OF rest np] recording_transparent [OF step np1] one(1) [of sid] unfolding replies by auto
qed simp

section \<open>Replay reproduces a recording\<close>

text \<open>The message that a replay sends: role, text and metadata of the original.\<close>

definition flat :: "(real \<Rightarrow> string) \<Rightarrow> message \<Rightarrow> message" where
  "flat ff m = \<lparr>msg_role = msg_role m, msg_content = GStr (ContentString ff m), msg_metadata = Some (map_or_empty (msg_metadata m)), msg_timestamp = 0\<rparr>"

lemma replay_input_flat: "replay_input (messageToDict ff (Some m)) = Ok (flat ff m)"
  by (simp add: replay_input_def messageToDict_def assert_string_def getMapOrEmpty_def get_map_def flat_def)

text \<open>An interaction \<open>x\<close> of a replay in which the agent answered \<open>reply\<close> to the interaction \<open>i\<close>.\<close>

definition replays :: "(real \<Rightarrow> string) \<Rightarrow> (go_error \<Rightarrow> string) \<Rightarrow> reply \<Rightarrow> InteractionRecord \<Rightarrow> replayed \<Rightarrow> bool" where
  "replays ff et reply i x \<longleftrightarrow> rp_input x = ir_InputMessage i \<and> rp_original_output x = ir_OutputMessage i \<and>
     (case reply of
        Ok out \<Rightarrow> \<exists>l. rp_result x = Inr (messageToDict ff out, ir_LatencyMs i, l)
      | Err e \<Rightarrow> rp_result x = Inl (et e)
      | Panic p \<Rightarrow> False)"

definition is_Err :: "reply \<Rightarrow> bool" where
  "is_Err r = (case r of Err _ \<Rightarrow> True | _ \<Rightarrow> False)"

lemma replay_interactions_pure:
  assumes "\<And>ctx m w. fst (agent_Process ag ctx (Some m) w) = f m" and "\<And>m p. f m \<noteq> Panic p"
    and "list_all2 (\<lambda>i m. replay_input (ir_InputMessage i) = Ok m) is ms"
  shows "\<exists>res w' xs. replay_interactions ff et clk ag is acc w = (Ok res, w') \<and> rr_interactions res = rr_interactions acc @ xs \<and>
    list_all2 (\<lambda>(i, m) x. replays ff et (f m) i x) (zip is ms) xs \<and>
    rr_error_count res = rr_error_count acc + int (length (filter (\<lambda>m. is_Err (f m)) ms))"
  using assms(3)
proof (induction "is" ms arbitrary: acc w rule: list_all2_induct)
  case (Cons i "is" m ms)
  obtain start w1 where c1: "clk w = (start, w1)" by (rule prod.exhaust)
  obtain reply w2 where run: "agent_Process ag Background (Some m) w1 = (reply, w2)" by (rule prod.exhaust)
  obtain fin w3 where c2: "clk w2 = (fin, w3)" by (rule prod.exhaust)
  have f: "f m = reply" using assms(1) [of Background m w1] run by simp
  show ?case
  proof (cases reply)
    case (Ok out)
    let ?x = "\<lparr>rp_input = ir_InputMessage i, rp_original_output = ir_OutputMessage i,
        rp_result = Inr (messageToDict ff out, ir_LatencyMs i, real_of_int (Milliseconds (fin - start)))\<rparr>"
    obtain res w' xs where "replay_interactions ff et clk ag is (acc\<lparr>rr_interactions := rr_interactions acc @ [?x],
          rr_total_latency_ms := rr_total_latency_ms acc + real_of_int (Milliseconds (fin - start))\<rparr>) w3 = (Ok res, w')"
        "rr_interactions res = (rr_interactions acc @ [?x]) @ xs" "list_all2 (\<lambda>(i, m) x. replays ff et (f m) i x) (zip is ms) xs"
        "rr_error_count res = rr_error_count acc + int (length (filter (\<lambda>m. is_Err (f m)) ms))"
      using Cons(3) by fastforce
    then show ?thesis using Cons(1) c1 run c2 Ok f
      by (intro exI [of _ res] exI [of _ w'] exI [of _ "?x # xs"]) (simp add: replays_def is_Err_def)
  next
    case (Err e)
    let ?x = "\<lparr>rp_input = ir_InputMessage i, rp_original_output = ir_OutputMessage i, rp_result = Inl (et e)\<rparr>"
    obtain res w' xs where "replay_interactions ff et clk ag is (acc\<lparr>rr_error_count := rr_error_count acc + 1,
          rr_interactions := rr_interactions acc @ [?x]\<rparr>) w3 = (Ok res, w')"
        "rr_interactions res = (rr_interactions acc @ [?x]) @ xs" "list_all2 (\<lambda>(i, m) x. replays ff et (f m) i x) (zip is ms) xs"
        "rr_error_count res = rr_error_count acc + 1 + int (length (filter (\<lambda>m. is_Err (f m)) ms))"
      using Cons(3) by fastforce
    then show ?thesis using Cons(1) c1 run c2 Err f
      by (intro exI [of _ res] exI [of _ w'] exI [of _ "?x # xs"]) (simp add: replays_def is_Err_def)
  next
    case (Panic p)
    then show ?thesis using f assms(2) by blast
  qed
qed simp

lemma compare_outputs_same:
  assumes "list_all2 (\<lambda>(i, m) x. replays ff et (f m) i x) ps xs" and "list_all2 (\<lambda>(i, m) x. replays ff et (f m) i x) ps ys"
  shows "compare_outputs k xs ys = Ok []"
  using assms
proof (induction ps xs arbitrary: ys k rule: list_all2_induct)
  case (Cons p ps x xs)
  obtain i m where p: "p = (i, m)" by (rule prod.exhaust)
  obtain y ys' where ys: "ys = y # ys'" "replays ff et (f m) i y" "list_all2 (\<lambda>(i, m) x. replays ff et (f m) i x) ps ys'"
    using Cons.prems p by (auto simp: list_all2_Cons1)
  have x: "replays ff et (f m) i x" using Cons(1) p by simp
  have content: "\<exists>c. output_content (messageToDict ff out) = Ok c" for out
    by (simp add: output_content_def messageToDict_def assert_string_def split: option.split)
  show ?case
  proof (cases "f m")
    case (Ok out)
    then show ?thesis using x ys Cons.IH [OF ys(3), of "k + 1"] content [of out] by (auto simp: replays_def)
  next
    case (Err e)
    then show ?thesis using x ys Cons.IH [OF ys(3), of "k + 1"] by (auto simp: replays_def)
  qed (use x in \<open>auto simp: replays_def\<close>)
qed simp

section \<open>The storage contract\<close>

text \<open>
  What the recorder relies on: a storage keeps of every recording what \<open>keep\<close> says, under the
  identifier of its session.  \<open>good\<close> are the identifiers it can store, \<open>writable\<close> the recordings.
\<close>

locale recording_storage =
  fixes save :: "SessionRecording \<Rightarrow> ('s, unit) call"
    and load :: "string \<Rightarrow> ('s, SessionRecording option) call"
    and del :: "string \<Rightarrow> ('s, unit) call"
    and ok :: "'s \<Rightarrow> bool"
    and stored :: "'s \<Rightarrow> string \<Rightarrow> SessionRecording option"
    and keep :: "SessionRecording \<Rightarrow> SessionRecording"
    and good :: "string \<Rightarrow> bool"
    and writable :: "SessionRecording \<Rightarrow> bool"
  assumes save_ok: "ok s \<Longrightarrow> good (sn_SessionID r) \<Longrightarrow> writable r \<Longrightarrow>
      \<exists>s'. save r s = (Ok (), s') \<and> ok s' \<and> stored s' = (stored s)(sn_SessionID r \<mapsto> keep r)"
    and load_ok: "ok s \<Longrightarrow> good sid \<Longrightarrow> load sid s = (Ok (stored s sid), s)"
    and del_ok: "ok s \<Longrightarrow> good sid \<Longrightarrow> \<exists>s'. del sid s = (Ok (), s') \<and> ok s' \<and> stored s' = (stored s)(sid := None)"
begin

text \<open>A finished session can be loaded, and it is no longer active.\<close>

lemma finalize_stores:
  assumes "ok s" and "good sid" and "go_get (rc_activeSessions r) sid = Some session" and "sn_SessionID session = sid"
    and "writable (session\<lparr>sn_EndTime := Some now\<rparr>)"
  shows "\<exists>r' s'. FinalizeSession save now sid (r, s) = (Ok (session\<lparr>sn_EndTime := Some now\<rparr>), r', s') \<and> ok s' \<and>
    go_get (rc_activeSessions r') sid = None \<and> load sid s' = (Ok (Some (keep (session\<lparr>sn_EndTime := Some now\<rparr>))), s')"
proof -
  let ?done = "session\<lparr>sn_EndTime := Some now\<rparr>"
  have "good (sn_SessionID ?done)" using assms(2,4) by simp
  from save_ok [OF assms(1) this assms(5)] obtain s' where s': "save ?done s = (Ok (), s')" "ok s'" "stored s' = (stored s)(sid \<mapsto> keep ?done)"
    using assms(4) by auto
  then show ?thesis using assms(3) load_ok [OF s'(2) assms(2)] by (simp add: FinalizeSession_def)
qed

lemma deleted_is_gone:
  assumes "ok s" and "good sid" and "del sid s = (Ok (), s')"
  shows "load sid s' = (Ok None, s')"
  using del_ok [OF assms(1,2)] load_ok [of s' sid] assms(2,3) by auto

end

interpretation memory: recording_storage mr_SaveRecording mr_LoadRecording mr_DeleteRecording "\<lambda>s. True" "\<lambda>s. go_get s" id "\<lambda>sid. True" "\<lambda>r. True"
  by unfold_locales (auto simp: mr_SaveRecording_def mr_LoadRecording_def mr_DeleteRecording_def fun_eq_iff)

section \<open>The file storage keeps the contract\<close>

definition json_interaction :: "InteractionRecord \<Rightarrow> InteractionRecord" where
  "json_interaction i =
     i\<lparr>ir_InputMessage := json_map (ir_InputMessage i), ir_OutputMessage := json_map (ir_OutputMessage i),
       ir_Timestamp := ir_Timestamp i div second * second, ir_Metadata := json_map (ir_Metadata i)\<rparr>"

definition json_recording :: "SessionRecording \<Rightarrow> SessionRecording" where
  "json_recording r =
     r\<lparr>sn_StartTime := sn_StartTime r div second * second, sn_EndTime := map_option (\<lambda>t. t div second * second) (sn_EndTime r),
       sn_Interactions := map json_interaction (sn_Interactions r), sn_Metadata := json_map (sn_Metadata r)\<rparr>"

text \<open>The texts of times are not empty and keep whole seconds.\<close>

definition rfc3339_text :: "time_texts \<Rightarrow> bool" where
  "rfc3339_text tt \<longleftrightarrow> rfc3339 tt \<and> (\<forall>t. format_RFC3339 tt t \<noteq> [])"

text \<open>Recordings whose texts are UTF-8, whose integers have at most 53 bits and that hold no function.\<close>

definition exact_interaction :: "InteractionRecord \<Rightarrow> bool" where
  "exact_interaction i \<longleftrightarrow>
     valid_utf8 (ir_InteractionID i) \<and> valid_utf8 (ir_SessionID i) \<and> json_ok (GMap (ir_InputMessage i)) \<and>
     json_ok (GMap (ir_OutputMessage i)) \<and> json_ok (GMap (ir_Metadata i))"

definition exact_recording :: "SessionRecording \<Rightarrow> bool" where
  "exact_recording r \<longleftrightarrow>
     valid_utf8 (sn_SessionID r) \<and> valid_utf8 (sn_AgentName r) \<and> list_all exact_interaction (sn_Interactions r) \<and>
     json_ok (GMap (sn_Metadata r))"

lemma ToDict_keys [simp]: "valid_keys (ir_ToDict tt i)" "valid_keys (sn_ToDict tt r)"
  by (simp_all add: ir_ToDict_def sn_ToDict_def)

lemma exact_ToDict:
  assumes "rfc3339 tt" and "exact_recording r"
  shows "json_ok (GMap (sn_ToDict tt r))"
proof -
  have "json_ok (GMap (ir_ToDict tt i))" if "exact_interaction i" for i
    using that assms(1) by (simp add: exact_interaction_def ir_ToDict_def rfc3339_def)
  then have "list_all (\<lambda>i. json_ok (GMap (ir_ToDict tt i))) (sn_Interactions r)"
    using assms(2) unfolding exact_recording_def list_all_iff by blast
  then show ?thesis
    using assms by (simp add: exact_recording_def sn_ToDict_def rfc3339_def list.pred_map comp_def split: option.split)
qed

lemma interaction_roundtrip:
  assumes "rfc3339 tt" and "exact_interaction i"
  shows "InteractionRecordFromDict tt (json_map (ir_ToDict tt i)) = Ok (json_interaction i)"
proof -
  have "json_map (ir_ToDict tt i) =
     [(''interaction_id'', GStr (ir_InteractionID i)), (''session_id'', GStr (ir_SessionID i)),
      (''input_message'', GMap (json_map (ir_InputMessage i))), (''output_message'', GMap (json_map (ir_OutputMessage i))),
      (''timestamp'', GStr (format_RFC3339 tt (ir_Timestamp i))), (''latency_ms'', GFloat (ir_LatencyMs i)),
      (''metadata'', GMap (json_map (ir_Metadata i)))]"
    using assms by (simp add: json_map_valid) (simp add: ir_ToDict_def exact_interaction_def rfc3339_def)
  then show ?thesis using assms(1)
    by (simp add: InteractionRecordFromDict_def get_string_def get_map_def assert_string_def assert_map_def assert_float_def
      getMapOrEmpty_def parse_time_def rfc3339_def json_interaction_def)
qed

lemma read_interactions_roundtrip:
  assumes "rfc3339 tt" and "list_all exact_interaction is"
  shows "read_interactions tt (map (json_value \<circ> (\<lambda>i. GMap (ir_ToDict tt i))) is) = Ok (map json_interaction is)"
  using assms(2) by (induction "is") (simp_all add: interaction_roundtrip [OF assms(1)])

lemma recording_roundtrip:
  assumes "rfc3339_text tt" and "exact_recording r"
  shows "\<exists>t. json_Marshal (GMap (sn_ToDict tt r)) = Ok t \<and> decode_recording tt t = Ok (json_recording r)"
proof -
  have tt: "rfc3339 tt" "\<And>t. format_RFC3339 tt t \<noteq> []" using assms by (auto simp: rfc3339_text_def)
  let ?d = "json_map (sn_ToDict tt r)"
  have data: "go_get ?d ''session_id'' = Some (GStr (sn_SessionID r))" "go_get ?d ''agent_name'' = Some (GStr (sn_AgentName r))"
    "go_get ?d ''start_time'' = Some (GStr (format_RFC3339 tt (sn_StartTime r)))"
    "go_get ?d ''interactions'' = Some (GList (map (json_value \<circ> (\<lambda>i. GMap (ir_ToDict tt i))) (sn_Interactions r)))"
    "go_get ?d ''metadata'' = Some (GMap (json_map (sn_Metadata r)))"
    "go_get ?d ''end_time'' = Some (case sn_EndTime r of Some t \<Rightarrow> GStr (format_RFC3339 tt t) | None \<Rightarrow> GNil)"
    using assms(2) tt(1)
    by (simp_all add: json_map_get, simp_all add: sn_ToDict_def exact_recording_def rfc3339_def split: option.split)
  have ok: "list_all exact_interaction (sn_Interactions r)" using assms(2) by (simp add: exact_recording_def)
  have "read_end_time tt ?d = map_option (\<lambda>t. t div second * second) (sn_EndTime r)"
    using tt by (cases "sn_EndTime r") (simp_all add: read_end_time_def get_string_def data rfc3339_def)
  then have "decode_recording tt (Json (GMap ?d)) = Ok (json_recording r)" using tt(1)
    by (simp add: decode_recording_def SessionRecordingFromDict_def get_string_def data parse_time_def rfc3339_def
        read_interactions_roundtrip [OF tt(1) ok] assert_string_def getMapOrEmpty_def get_map_def json_recording_def)
  then show ?thesis using json_Marshal_ok [OF exact_ToDict [OF tt(1) assms(2)]] by simp
qed

definition lr_ok :: "time_texts \<Rightarrow> path \<Rightarrow> disk \<Rightarrow> bool" where
  "lr_ok tt dir s \<longleftrightarrow>
     (\<forall>op p. fs_fault s op p = None) \<and> (\<forall>i \<le> length dir. fs_get s (take i dir) = Some Dir) \<and>
     (\<forall>sid nd. fs_get s (dir @ [sid @ ''.json'']) = Some nd \<longrightarrow> (\<exists>t r. nd = File t \<and> decode_recording tt t = Ok r))"

definition lr_stored :: "time_texts \<Rightarrow> path \<Rightarrow> disk \<Rightarrow> string \<Rightarrow> SessionRecording option" where
  "lr_stored tt dir s sid =
     (case fs_get s (dir @ [sid @ ''.json'']) of
        Some (File t) \<Rightarrow> (case decode_recording tt t of Ok r \<Rightarrow> Some r | _ \<Rightarrow> None)
      | _ \<Rightarrow> None)"

lemma recording_path_clean: "clean_id sid \<Longrightarrow> recording_path dir sid = dir @ [sid @ ''.json'']"
  by (simp add: recording_path_def)

lemma lr_missing:
  assumes "lr_ok tt dir s" and "fs_get s (dir @ [f]) = None"
  shows "missing s (dir @ [f]) = ErrNotExist"
proof -
  have dirs: "fs_get s (take i (dir @ [f])) = Some Dir" if "i < length (dir @ [f])" for i
    using that assms(1) by (auto simp: lr_ok_def)
  have "\<not> under_file s (dir @ [f])"
  proof
    assume "under_file s (dir @ [f])"
    then obtain i where "i < length (dir @ [f])" "case fs_get s (take i (dir @ [f])) of Some (File _) \<Rightarrow> True | _ \<Rightarrow> False"
      unfolding under_file_def list_ex_iff set_upt by (metis (no_types, lifting) atLeastLessThan_iff)
    then show False using dirs [of i] by simp
  qed
  then show ?thesis by (simp add: missing_def)
qed

lemma lr_get_set:
  "p \<noteq> [] \<Longrightarrow> fs_get (s\<lparr>fs_nodes := go_set p nd (fs_nodes s)\<rparr>) q = (if q = p then Some nd else fs_get s q)"
  "p \<noteq> [] \<Longrightarrow> fs_get (s\<lparr>fs_nodes := go_delete p (fs_nodes s)\<rparr>) q = (if q = p then None else fs_get s q)"
  by (auto simp: fs_get_def)

lemma lr_file_not_above: "take i dir \<noteq> dir @ [f]"
proof
  assume "take i dir = dir @ [f]"
  then have "length (take i dir) = length (dir @ [f])" by simp
  then show False by simp
qed

lemma local_recording_storage:
  assumes "rfc3339_text tt"
  shows "recording_storage (lr_SaveRecording tt dir) (lr_LoadRecording tt dir) (lr_DeleteRecording dir)
    (lr_ok tt dir) (lr_stored tt dir) json_recording clean_id exact_recording"
proof
  fix s and r :: SessionRecording assume ok: "lr_ok tt dir s" and good: "clean_id (sn_SessionID r)" and exact: "exact_recording r"
  obtain t where t: "json_Marshal (GMap (sn_ToDict tt r)) = Ok t" "decode_recording tt t = Ok (json_recording r)"
    using recording_roundtrip [OF assms exact] by blast
  let ?p = "dir @ [sn_SessionID r @ ''.json'']"
  let ?s = "s\<lparr>fs_nodes := go_set ?p (File t) (fs_nodes s)\<rparr>"
  have "fs_get s ?p \<noteq> Some Dir" and "fs_get s dir = Some Dir" and "fs_fault s op p = None" for op p
    using ok by (auto simp: lr_ok_def dest: spec [of _ "length dir"])
  then have "lr_SaveRecording tt dir r s = (Ok (), ?s)"
    by (simp add: lr_SaveRecording_def recording_path_clean [OF good] os_WriteFile_def may_fail_def t(1) Let_def)
  moreover have "lr_ok tt dir ?s" using ok t(2)
    by (auto simp: lr_ok_def lr_get_set lr_file_not_above)
  moreover have "lr_stored tt dir ?s = (lr_stored tt dir s)(sn_SessionID r \<mapsto> json_recording r)"
    using t(2) by (auto simp: lr_stored_def lr_get_set fun_eq_iff)
  ultimately show "\<exists>s'. lr_SaveRecording tt dir r s = (Ok (), s') \<and> lr_ok tt dir s' \<and> lr_stored tt dir s' = (lr_stored tt dir s)(sn_SessionID r \<mapsto> json_recording r)"
    by blast
next
  fix s sid assume ok: "lr_ok tt dir s" and good: "clean_id sid"
  show "lr_LoadRecording tt dir sid s = (Ok (lr_stored tt dir s sid), s)"
  proof (cases "fs_get s (dir @ [sid @ ''.json''])")
    case None
    then show ?thesis using ok lr_missing [OF ok None]
      by (simp add: lr_LoadRecording_def recording_path_clean [OF good] os_ReadFile_def may_fail_def lr_stored_def lr_ok_def)
  next
    case (Some nd)
    then obtain t r where "nd = File t" "decode_recording tt t = Ok r" using ok unfolding lr_ok_def by blast
    then show ?thesis using ok Some
      by (simp add: lr_LoadRecording_def recording_path_clean [OF good] os_ReadFile_def may_fail_def lr_stored_def lr_ok_def)
  qed
next
  fix s sid assume ok: "lr_ok tt dir s" and good: "clean_id sid"
  let ?p = "dir @ [sid @ ''.json'']"
  show "\<exists>s'. lr_DeleteRecording dir sid s = (Ok (), s') \<and> lr_ok tt dir s' \<and> lr_stored tt dir s' = (lr_stored tt dir s)(sid := None)"
  proof (cases "fs_get s ?p")
    case None
    then show ?thesis using ok lr_missing [OF ok None]
      by (auto simp: lr_DeleteRecording_def recording_path_clean [OF good] os_Stat_def may_fail_def lr_stored_def lr_ok_def fun_eq_iff)
  next
    case (Some nd)
    then obtain t r where nd: "nd = File t" "decode_recording tt t = Ok r" using ok unfolding lr_ok_def by blast
    let ?s = "s\<lparr>fs_nodes := go_delete ?p (fs_nodes s)\<rparr>"
    have fault: "fs_fault s op p = None" for op p using ok by (simp add: lr_ok_def)
    then have "lr_DeleteRecording dir sid s = (Ok (), ?s)" using Some nd(1)
      by (simp add: lr_DeleteRecording_def recording_path_clean [OF good] os_Stat_def os_Remove_def may_fail_def)
    moreover have "lr_ok tt dir ?s" using ok by (auto simp: lr_ok_def lr_get_set lr_file_not_above)
    moreover have "lr_stored tt dir ?s = (lr_stored tt dir s)(sid := None)" by (auto simp: lr_stored_def lr_get_set fun_eq_iff)
    ultimately show ?thesis by blast
  qed
qed

text \<open>A session identifier with a path in it names a file outside the directory of the storage.\<close>

lemma recording_escapes: "recording_path [''data'', ''rec''] ''../../etc/x'' = [''etc'', ''x.json'']"
  by (simp add: recording_path_def filepath_Join_def path_step_def)

text \<open>A session written to a file can be read back, as its text keeps it.\<close>

lemmas local_finalize_stores = recording_storage.finalize_stores [OF local_recording_storage]

section \<open>Recording and replay together\<close>

lemma recording_calls_pure:
  assumes "\<And>ctx m w. fst (agent_Process ag ctx (Some m) w) = f m"
  shows "fst (recording_calls ff clk uid ag ctx ms rw) = map f ms"
proof (induction ms arbitrary: rw)
  case (Cons m ms)
  have "fst (recording_Process ff clk uid ag ctx (Some m) rw) = f m"
    using assms by (auto simp: recording_Process_def Let_def split: prod.splits outcome.splits) (metis fst_conv)+
  then show ?case using Cons by (simp add: case_prod_beta Let_def)
qed simp

definition sessions_named :: "SessionRecorder \<Rightarrow> bool" where
  "sessions_named r \<longleftrightarrow> (\<forall>sid s. go_get (rc_activeSessions r) sid = Some s \<longrightarrow> sn_SessionID s = sid)"

lemma recording_calls_sessions:
  assumes "recording_calls ff clk uid ag ctx ms (r, w) = (replies, r', w')" and "\<forall>p. Panic p \<notin> set replies" and "sessions_named r"
  shows "sessions_named r' \<and>
    (\<forall>sid. go_get (rc_activeSessions r) sid \<noteq> None \<or> sid \<in> session_of ` set ms \<longrightarrow> go_get (rc_activeSessions r') sid \<noteq> None)"
  using assms
proof (induction ms arbitrary: r w replies)
  case (Cons m ms)
  obtain reply r1 w1 where step: "recording_Process ff clk uid ag ctx (Some m) (r, w) = (reply, r1, w1)" by (metis prod_cases3)
  obtain rest where rest: "recording_calls ff clk uid ag ctx ms (r1, w1) = (rest, r', w')" and replies: "replies = reply # rest"
    using Cons.prems(1) step by (auto split: prod.splits)
  have np1: "\<forall>p. reply \<noteq> Panic p" and np: "\<forall>p. Panic p \<notin> set rest" using Cons.prems(2) replies by auto
  note one = recording_Process_step [OF step np1]
  have "sessions_named r1" using one(3) Cons.prems(3) unfolding sessions_named_def by blast
  from Cons.IH [OF rest np this] one(2) one(4) show ?case by auto
qed simp

text \<open>The calls of the agent itself, on the state \<open>v\<close> it works on.\<close>

fun plain_calls :: "(message \<Rightarrow> 'v \<Rightarrow> reply \<times> 'v) \<Rightarrow> message list \<Rightarrow> 'v \<Rightarrow> reply list \<times> 'v" where
  "plain_calls step [] v = ([], v)"
| "plain_calls step (m # ms) v =
     (let (reply, v) = step m v; (replies, v) = plain_calls step ms v in (reply # replies, v))"

lemma recording_Process_view:
  assumes "\<And>w. view (snd (clk w)) = view w" and "\<And>w. view (snd (uid w)) = view w"
    and "\<And>m w. (fst (agent_Process ag ctx (Some m) w), view (snd (agent_Process ag ctx (Some m) w))) = step m (view w)"
    and "recording_Process ff clk uid ag ctx (Some m) (r, w) = (reply, r', w')"
  shows "step m (view w) = (reply, view w')"
proof -
  have clk: "view w2 = view w1" if "clk w1 = (t, w2)" for t w1 w2 using assms(1) [of w1] that by simp
  have uid: "view w2 = view w1" if "uid w1 = (t, w2)" for t w1 w2 using assms(2) [of w1] that by simp
  have ag: "step m (view w1) = (x, view w2)" if "agent_Process ag ctx (Some m) w1 = (x, w2)" for x w1 w2
    using assms(3) [of m w1] that by simp
  show ?thesis using assms(4)
    by (auto simp: recording_Process_def Let_def split: prod.splits if_splits outcome.splits dest!: clk uid ag)
qed

lemma recording_calls_view:
  assumes "\<And>w. view (snd (clk w)) = view w" and "\<And>w. view (snd (uid w)) = view w"
    and "\<And>m w. (fst (agent_Process ag ctx (Some m) w), view (snd (agent_Process ag ctx (Some m) w))) = step m (view w)"
    and "recording_calls ff clk uid ag ctx ms (r, w) = (replies, r', w')"
  shows "plain_calls step ms (view w) = (replies, view w')"
  using assms(4)
proof (induction ms arbitrary: r w replies)
  case (Cons m ms)
  obtain reply r1 w1 where one: "recording_Process ff clk uid ag ctx (Some m) (r, w) = (reply, r1, w1)" by (rule prod_cases3)
  obtain rest where rest: "recording_calls ff clk uid ag ctx ms (r1, w1) = (rest, r', w')" "replies = reply # rest"
    using Cons.prems one by (auto split: prod.splits)
  then show ?case
    using Cons.IH [OF rest(1)] recording_Process_view [where view = view and step = step, OF assms(1-3) one] by simp
qed simp

text \<open>
  An interaction \<open>x\<close> of a replay repeats the call with message \<open>m\<close> that was answered by \<open>reply\<close>:
  the recorded output comes out again, or the error.
\<close>

definition repeats :: "(real \<Rightarrow> string) \<Rightarrow> (go_error \<Rightarrow> string) \<Rightarrow> message \<Rightarrow> reply \<Rightarrow> replayed \<Rightarrow> bool" where
  "repeats ff et m reply x \<longleftrightarrow>
     rp_input x = messageToDict ff (Some m) \<and> rp_original_output x = messageToDict ff (output_of reply) \<and>
     (case reply of
        Ok out \<Rightarrow> \<exists>l. rp_result x = Inr (rp_original_output x, l)
      | Err e \<Rightarrow> rp_result x = Inl (et e)
      | Panic p \<Rightarrow> False)"

lemma replays_repeats:
  assumes "list_all2 (\<lambda>i m. exchange i = (messageToDict ff (Some m), messageToDict ff (output_of (f m)))) is own"
  shows "list_all2 (\<lambda>(i, m) x. replays ff et (f m) i x) (zip is (map g own)) xs \<Longrightarrow> (\<And>m. f (g m) = f m) \<Longrightarrow>
    list_all2 (\<lambda>m x. repeats ff et m (f m) x) own xs"
  using assms
proof (induction "is" own arbitrary: xs rule: list_all2_induct)
  case (Cons i "is" m own)
  obtain x xs' where xs: "xs = x # xs'" "replays ff et (f m) i x"
      "list_all2 (\<lambda>(i, m) x. replays ff et (f m) i x) (zip is (map g own)) xs'"
    using Cons.prems by (auto simp: list_all2_Cons1)
  have "repeats ff et m (f m) x"
    using xs(2) Cons(1) by (auto simp: repeats_def replays_def exchange_def output_of_def split: outcome.splits)
  then show ?case using xs Cons.IH [OF xs(3) Cons.prems(2)] by simp
qed simp

text \<open>Two replays of the recorded exchanges of an agent that is a function of the flattened message.\<close>

lemma replays_alike:
  assumes pure: "\<forall>ctx m w. fst (agent_Process ag ctx (Some m) w) = f m" and flat: "\<forall>m. f (flat ff m) = f m"
    and total: "\<forall>m p. f m \<noteq> Panic p"
    and pairs: "list_all2 (\<lambda>i m. exchange i = (messageToDict ff (Some m), messageToDict ff (output_of (f m)))) (sn_Interactions rec) own"
  shows "\<exists>a b c v1' v2'. Replay ff et clk1 rec ag [] v1 = (Ok a, v1') \<and> Replay ff et clk2 rec ag [] v2 = (Ok b, v2') \<and>
    list_all2 (\<lambda>m x. repeats ff et m (f m) x) own (rr_interactions a) \<and>
    rr_error_count a = int (length (filter (\<lambda>m. is_Err (f m)) own)) \<and>
    Compare a b = Ok c \<and> cmp_output_differences c = [] \<and> cmp_error_diff c = 0"
proof -
  have inputs: "list_all2 (\<lambda>i m. replay_input (ir_InputMessage i) = Ok m) (sn_Interactions rec) (map (flat ff) own)"
    unfolding list.rel_map using pairs by (rule list.rel_mono_strong) (simp add: exchange_def replay_input_flat)
  let ?ps = "zip (sn_Interactions rec) (map (flat ff) own)"
  have one: "\<exists>a v'. Replay ff et clk rec ag [] v = (Ok a, v') \<and> list_all2 (\<lambda>(i, m) x. replays ff et (f m) i x) ?ps (rr_interactions a) \<and>
      rr_error_count a = int (length (filter (\<lambda>m. is_Err (f m)) own))" for clk v
  proof -
    have errs: "length (filter (\<lambda>m. is_Err (f m)) (map (flat ff) own)) = length (filter (\<lambda>m. is_Err (f m)) own)"
      by (simp add: filter_map comp_def flat)
    show ?thesis using replay_interactions_pure [of ag f "sn_Interactions rec" "map (flat ff) own" ff et clk _ v] pure total inputs
      unfolding Replay_def errs by (metis (no_types, lifting) append_Nil add_0 replay_results.simps(3) replay_results.simps(5))
  qed
  obtain a v1' where a: "Replay ff et clk1 rec ag [] v1 = (Ok a, v1')" "list_all2 (\<lambda>(i, m) x. replays ff et (f m) i x) ?ps (rr_interactions a)"
    "rr_error_count a = int (length (filter (\<lambda>m. is_Err (f m)) own))" using one by blast
  obtain b v2' where b: "Replay ff et clk2 rec ag [] v2 = (Ok b, v2')" "list_all2 (\<lambda>(i, m) x. replays ff et (f m) i x) ?ps (rr_interactions b)"
    "rr_error_count b = int (length (filter (\<lambda>m. is_Err (f m)) own))" using one by blast
  have "list_all2 (\<lambda>m x. repeats ff et m (f m) x) own (rr_interactions a)"
    by (rule replays_repeats [OF pairs a(2)]) (simp add: flat)
  moreover have "compare_outputs 0 (rr_interactions a) (rr_interactions b) = Ok []" by (rule compare_outputs_same [OF a(2) b(2)])
  ultimately show ?thesis using a(1,3) b(1,3) by (force simp: Compare_def)
qed

text \<open>When a session that had calls is finished, both storages return its recording.\<close>

lemma finalize_both:
  assumes "go_get (rc_activeSessions r) sid = Some session" and "sn_SessionID session = sid"
  shows "\<exists>r' s'. FinalizeSession mr_SaveRecording now sid (r, s) = (Ok (session\<lparr>sn_EndTime := Some now\<rparr>), r', s') \<and>
      mr_LoadRecording sid s' = (Ok (Some (session\<lparr>sn_EndTime := Some now\<rparr>)), s')"
    and "rfc3339_text tt \<and> lr_ok tt dir d \<and> clean_id sid \<and> exact_recording (session\<lparr>sn_EndTime := Some now\<rparr>) \<longrightarrow>
      (\<exists>r' d'. FinalizeSession (lr_SaveRecording tt dir) now sid (r, d) = (Ok (session\<lparr>sn_EndTime := Some now\<rparr>), r', d') \<and>
        lr_LoadRecording tt dir sid d' = (Ok (Some (json_recording (session\<lparr>sn_EndTime := Some now\<rparr>))), d'))"
proof -
  show "\<exists>r' s'. FinalizeSession mr_SaveRecording now sid (r, s) = (Ok (session\<lparr>sn_EndTime := Some now\<rparr>), r', s') \<and>
      mr_LoadRecording sid s' = (Ok (Some (session\<lparr>sn_EndTime := Some now\<rparr>)), s')"
    using memory.finalize_stores [OF _ _ assms, where s = s and now = now] by auto
qed (use recording_storage.finalize_stores [OF local_recording_storage _ _ assms] in blast)

text \<open>
  C38.
  A recorded session replays to the same outputs.  Calls through the wrapped agent, one after
  the other and none of them panicking, return what the agent returns and leave it in the
  state in which the calls alone leave it, if the clock and the identifiers do not touch that
  state.  When a session that had calls is finished, its recording has one interaction for
  each of its messages, in order, with the message and the answer, and can be loaded: from the
  memory storage as it is, from the file storage (on files that do not fault, for a recording
  that JSON represents exactly) as its text keeps it.  For an agent whose answer depends only
  on the role, the text and the metadata of a message, a replay of the recording ends, has one
  interaction for each recorded one, in order, each with the recorded output again or, where
  the call failed, with the error, counts the failed calls, and two replays compare without a
  difference.
\<close>
theorem recording_replays:
  fixes view :: "'w \<Rightarrow> 'v" and ag :: "'w agent"
  assumes calls: "recording_calls ff clk uid ag ctx ms (NewSessionRecorder, w) = (replies, r, w')"
    and np: "\<forall>p. Panic p \<notin> set replies" and sid: "sid \<in> session_of ` set ms"
  shows "((\<forall>w. view (snd (clk w)) = view w) \<and> (\<forall>w. view (snd (uid w)) = view w) \<and>
      (\<forall>m w. (fst (agent_Process ag ctx (Some m) w), view (snd (agent_Process ag ctx (Some m) w))) = step m (view w)) \<longrightarrow>
      plain_calls step ms (view w) = (replies, view w')) \<and>
    (\<exists>rec. map exchange (sn_Interactions rec) =
        map (\<lambda>(m, reply). (messageToDict ff (Some m), messageToDict ff (output_of reply)))
          (filter (\<lambda>(m, reply). session_of m = sid) (zip ms replies)) \<and>
      (\<exists>r' s'. FinalizeSession mr_SaveRecording now sid (r, s) = (Ok rec, r', s') \<and> mr_LoadRecording sid s' = (Ok (Some rec), s')) \<and>
      (rfc3339_text tt \<and> lr_ok tt dir d \<and> clean_id sid \<and> exact_recording rec \<longrightarrow>
        (\<exists>r' d'. FinalizeSession (lr_SaveRecording tt dir) now sid (r, d) = (Ok rec, r', d') \<and>
          lr_LoadRecording tt dir sid d' = (Ok (Some (json_recording rec)), d'))) \<and>
      ((\<forall>ctx m w. fst (agent_Process ag ctx (Some m) w) = f m) \<and> (\<forall>m. f (flat ff m) = f m) \<and> (\<forall>m p. f m \<noteq> Panic p) \<longrightarrow>
        (\<exists>a b c v1' v2'. Replay ff et clk1 rec ag [] v1 = (Ok a, v1') \<and> Replay ff et clk2 rec ag [] v2 = (Ok b, v2') \<and>
          list_all2 (\<lambda>m x. rp_input x = messageToDict ff (Some m) \<and> rp_original_output x = messageToDict ff (output_of (f m)) \<and>
              (case f m of
                 Ok out \<Rightarrow> \<exists>l. rp_result x = Inr (rp_original_output x, l)
               | Err e \<Rightarrow> rp_result x = Inl (et e)
               | Panic p \<Rightarrow> False)) (filter (\<lambda>m. session_of m = sid) ms) (rr_interactions a) \<and>
          rr_error_count a = int (length (filter (\<lambda>m. is_Err (f m)) (filter (\<lambda>m. session_of m = sid) ms))) \<and>
          Compare a b = Ok c \<and> cmp_output_differences c = [] \<and> cmp_error_diff c = 0)))"
proof -
  let ?own = "filter (\<lambda>m. session_of m = sid) ms"
  have "sessions_named NewSessionRecorder" by (simp add: sessions_named_def NewSessionRecorder_def)
  from recording_calls_sessions [OF calls np this] sid obtain session where
    act: "go_get (rc_activeSessions r) sid = Some session" "sn_SessionID session = sid" by (force simp: sessions_named_def)
  let ?rec = "session\<lparr>sn_EndTime := Some now\<rparr>"
  let ?ex = "\<lambda>(m, reply). (messageToDict ff (Some m), messageToDict ff (output_of reply))"
  have ex: "map exchange (sn_Interactions ?rec) = map ?ex (filter (\<lambda>(m, reply). session_of m = sid) (zip ms replies))"
    using recording_calls_exchanges [OF calls np, of sid] act(1) by (simp add: recorded_def NewSessionRecorder_def)
  have rep: "\<exists>a b c v1' v2'. Replay ff et clk1 ?rec ag [] v1 = (Ok a, v1') \<and> Replay ff et clk2 ?rec ag [] v2 = (Ok b, v2') \<and>
      list_all2 (\<lambda>m x. repeats ff et m (f m) x) ?own (rr_interactions a) \<and>
      rr_error_count a = int (length (filter (\<lambda>m. is_Err (f m)) ?own)) \<and>
      Compare a b = Ok c \<and> cmp_output_differences c = [] \<and> cmp_error_diff c = 0"
    if pure: "\<forall>ctx m w. fst (agent_Process ag ctx (Some m) w) = f m" and fl: "\<forall>m. f (flat ff m) = f m" "\<forall>m p. f m \<noteq> Panic p"
  proof -
    have "replies = map f ms" using recording_calls_pure [of ag f ff clk uid ctx ms "(NewSessionRecorder, w)"] pure calls by simp
    moreover have "map ?ex (filter (\<lambda>(m, reply). session_of m = sid) (zip xs (map f xs))) =
        map (\<lambda>m. (messageToDict ff (Some m), messageToDict ff (output_of (f m)))) (filter (\<lambda>m. session_of m = sid) xs)" for xs
      by (induction xs) auto
    ultimately have "map exchange (sn_Interactions ?rec) =
        map (\<lambda>m. (messageToDict ff (Some m), messageToDict ff (output_of (f m)))) ?own" using ex by simp
    then have "list_all2 (\<lambda>i m. exchange i = (messageToDict ff (Some m), messageToDict ff (output_of (f m)))) (sn_Interactions ?rec) ?own"
      by (simp add: list_all2_conv_all_nth list_eq_iff_nth_eq)
    then show ?thesis by (rule replays_alike [OF pure fl])
  qed
  show ?thesis
  proof (intro conjI impI exI [of _ ?rec], goal_cases)
    case 1
    then show ?case using recording_calls_view [where view = view and step = step, OF _ _ _ calls] by blast
  next
    case 2
    show ?case by (rule ex)
  next
    case 3
    show ?case by (rule finalize_both(1) [OF act])
  next
    case 4
    then show ?case using finalize_both(2) [OF act] by blast
  next
    case 5
    then show ?case using rep unfolding repeats_def by blast
  qed
qed

definition echo_text :: "message \<Rightarrow> reply" where
  "echo_text m = Ok (Some (NewMessage 0 ''agent'' (ContentString (\<lambda>x. []) m)))"

definition echo_agent :: "int agent" where
  "echo_agent = \<lparr>agent_Name = ''echo'', agent_Capabilities = [],
     agent_Process = (\<lambda>ctx m w. (case m of Some m \<Rightarrow> echo_text m | None \<Rightarrow> Ok None, w))\<rparr>"

theorem recording_replays_witness:
  "\<exists>replies r w' rec r' s' a v. recording_calls (\<lambda>x. []) (\<lambda>w. (w, w + 1)) (\<lambda>w. (''i'', w)) echo_agent Background [NewMessage 0 ''user'' ''hi'']
      (NewSessionRecorder, 0) = (replies, r, w') \<and>
    FinalizeSession mr_SaveRecording 9 ''default'' (r, []) = (Ok rec, r', s') \<and>
    map exchange (sn_Interactions rec) = [(messageToDict (\<lambda>x. []) (Some (NewMessage 0 ''user'' ''hi'')),
      messageToDict (\<lambda>x. []) (Some (NewMessage 0 ''agent'' ''hi'')))] \<and>
    Replay (\<lambda>x. []) (\<lambda>e. []) (\<lambda>w. (w, w + 1)) rec echo_agent [] 0 = (Ok a, v) \<and> rr_error_count a = 0 \<and>
    length (rr_interactions a) = 1"
proof -
  let ?ff = "\<lambda>x :: real. [] :: string" and ?ms = "[NewMessage 0 ''user'' ''hi'']" and ?uid = "\<lambda>w :: int. (''i'', w)"
  have calls: "recording_calls ?ff (\<lambda>w. (w, w + 1)) ?uid echo_agent Background ?ms (NewSessionRecorder, 0) =
      ([echo_text (hd ?ms)], snd (recording_calls ?ff (\<lambda>w. (w, w + 1)) ?uid echo_agent Background ?ms (NewSessionRecorder, 0)))"
    by (simp add: recording_Process_def echo_agent_def echo_text_def Let_def NewMessage_def ContentString_def)
  obtain r w' where rw: "snd (recording_calls ?ff (\<lambda>w. (w, w + 1)) ?uid echo_agent Background ?ms (NewSessionRecorder, 0)) = (r, w')"
    by (rule prod.exhaust)
  note run = calls [unfolded rw]
  have agent: "\<forall>ctx m w. fst (agent_Process echo_agent ctx (Some m) w) = echo_text m" "\<forall>m. echo_text (flat ?ff m) = echo_text m"
    "\<forall>m p. echo_text m \<noteq> Panic p" "''default'' \<in> session_of ` set ?ms" "\<forall>p. Panic p \<notin> set [echo_text (hd ?ms)]"
    by (simp_all add: echo_agent_def echo_text_def flat_def ContentString_def session_of_def NewMessage_def meta_get_def)
  have own: "filter (\<lambda>m. session_of m = ''default'') ?ms = ?ms"
    "filter (\<lambda>(m, reply). session_of m = ''default'') (zip ?ms [echo_text (hd ?ms)]) = [(hd ?ms, echo_text (hd ?ms))]"
    by (simp_all add: session_of_def NewMessage_def meta_get_def)
  note inst = recording_replays [OF run agent(5,4), where now = 9 and s = "[]" and f = echo_text and et = "\<lambda>e. []"
      and ?clk1.0 = "\<lambda>w. (w, w + 1)" and ?clk2.0 = "\<lambda>w. (w, w + 1)" and ?v1.0 = 0 and ?v2.0 = 0, unfolded own]
  from conjunct2 [OF inst] obtain rec where ex: "map exchange (sn_Interactions rec) =
        map (\<lambda>(m, reply). (messageToDict ?ff (Some m), messageToDict ?ff (output_of reply))) [(hd ?ms, echo_text (hd ?ms))]"
      and fin: "\<exists>r' s'. FinalizeSession mr_SaveRecording 9 ''default'' (r, []) = (Ok rec, r', s')"
      and rep: "\<exists>a v. Replay ?ff (\<lambda>e. []) (\<lambda>w. (w, w + 1)) rec echo_agent [] 0 = (Ok a, v) \<and>
        length (rr_interactions a) = length ?ms \<and> rr_error_count a = int (length (filter (\<lambda>m. is_Err (echo_text m)) ?ms))"
    using agent(1-3) by (metis (no_types, lifting) list_all2_lengthD)
  obtain r' s' a v where fin': "FinalizeSession mr_SaveRecording 9 ''default'' (r, []) = (Ok rec, r', s')"
    and rep': "Replay ?ff (\<lambda>e. []) (\<lambda>w. (w, w + 1)) rec echo_agent [] 0 = (Ok a, v)" "rr_error_count a = 0" "length (rr_interactions a) = 1"
    using fin rep by (auto simp: is_Err_def echo_text_def)
  have ex': "map exchange (sn_Interactions rec) = [(messageToDict ?ff (Some (NewMessage 0 ''user'' ''hi'')),
      messageToDict ?ff (Some (NewMessage 0 ''agent'' ''hi'')))]"
    using ex by (simp add: output_of_def echo_text_def ContentString_def NewMessage_def)
  show ?thesis by (intro exI conjI) (rule run, rule fin', rule ex', rule rep'(1), rule rep'(2), rule rep'(3))
qed

end
