(* ===== verification/Spec2Isabelle.thy ===== *)
theory Spec2Isabelle
  imports Circuit_Breaker Rate_Limiter Retry Caching Composition Load_Balancer
    Reasoning_Graph Reasoning_Tree Registry Health Budget Memory Timeout Local_Storage Memory_Hierarchy Batching Remote Tree_Of_Thought Permissions Anomaly Enhanced_Retry Patterns Planning React Graph_Of_Thought Self_Consistency Deliberation
    Reflection Collaboration Vector_Memory Model_Optimizer
    Evaluation Eval_Metrics Regression Recorder
begin

text \<open>
  A verification library for \<open>agenkit-go\<close>, a Go toolkit for building agents.

  \<^bold>\<open>The program.\<close>  An agent (\<open>agenkit/interfaces.go\<close>) turns a message into a message or an
  error.  Everything else is built around that interface: middleware that wraps one agent
  (\<open>middleware/\<close>), agents composed of agents (\<open>composition/\<close>, \<open>infrastructure/load_balancer.go\<close>),
  supervision (\<open>infrastructure/health.go\<close>, \<open>adapter/registry/registry.go\<close>), cost control
  (\<open>budget/\<close>) and the data structures of reasoning agents (\<open>techniques/reasoning/\<close>).
  Wrappers interact only through \<open>Agent.Process\<close>; within a wrapper, requests interact through
  the wrapper's mutex-protected state.

  \<^bold>\<open>Conventions.\<close>  An agent is a record whose \<open>Process\<close> acts on an arbitrary world \<open>'w\<close>; a
  wrapper is an operation on (its own state, world), so a theorem about it holds for every
  agent.  A call ends in an \<open>outcome\<close>: a value, an error or a run-time panic.  Clock readings
  are parameters of the operations, in the order in which the code reads the clock, and may
  be any integers unless a theorem says that they do not go back.  Where the code holds a mutex, the critical section is one
  operation; a method that releases the mutex in between is split into a beginning and an
  end, and concurrent requests are interleavings of these.  Integers are unbounded
  (the counters count requests and durations are nanoseconds: neither reaches \<open>2^63\<close>,
  except the time to live of \<open>Memory_Hierarchy\<close>, a product that wraps around),
  \<open>float64\<close> is \<open>real\<close>; a statement about a comparison of floats is therefore about the exact
  values.  Log output is left out.

  \<^bold>\<open>The theories.\<close>
  \<^item> \<open>Go_Prelude\<close>: the part of Go the code uses (errors and their wrapping, outcomes, maps,
    strings, durations), reachability and the locale \<open>inductive_invariant\<close>.
  \<^item> \<open>Message\<close> (\<open>agenkit/interfaces.go\<close>): messages with their validation, contexts, agents.
  \<^item> \<open>Circuit_Breaker\<close> (\<open>middleware/circuit_breaker.go\<close>): \<open>cb_begin\<close> and \<open>cb_finish\<close> are the
    two critical sections of \<open>Process\<close>; \<open>cb_step\<close> interleaves any number of requests.  The
    invariant holds in every reachable state, the sections refine the documented
    automaton \<open>breaker_spec\<close>, and opening, recovery and fast failure follow from it.
  \<^item> \<open>Rate_Limiter\<close> (\<open>middleware/rate_limiter.go\<close>): both token buckets.  The locale
    \<open>token_bucket\<close> bounds what a bucket grants in any window of time; it is interpreted on
    the global limiter and on the bucket of each user.
  \<^item> \<open>Retry\<close> (\<open>middleware/retry.go\<close>): the loop with its back-off, and what it returns as a
    function of the replies it drew.
  \<^item> \<open>Caching\<close> (\<open>middleware/caching.go\<close>): the memory store with its map and linked list
    is a map of bounded size, whatever entry it evicts; the locale \<open>cache_store\<close> is the interface \<open>CacheStore\<close>, in which the
    decorator's properties are proved, interpreted on the memory store.
  \<^item> \<open>Composition\<close> (\<open>composition/\<close>): sequential, fallback, conditional and parallel agents,
    against rule-based specifications of the calls they make.
  \<^item> \<open>Load_Balancer\<close> (\<open>infrastructure/load_balancer.go\<close>): selection, failover, health checks.
  \<^item> \<open>Health\<close> (\<open>infrastructure/health.go\<close>) and \<open>Registry\<close> (\<open>adapter/registry/registry.go\<close>):
    probes and flags; registration, heartbeats, pruning and the shutdown protocol as a step
    relation.
  \<^item> \<open>Budget\<close> (\<open>budget/\<close>): prices, the tracker over the locale \<open>cost_storage\<close> (the interface
    \<open>Storage\<close>, interpreted on the in-memory storage) and the limiter with requests in flight.
  \<^item> \<open>Reasoning_Graph\<close> and \<open>Reasoning_Tree\<close> (\<open>techniques/reasoning/\<close>): path search, cycle
    detection and topological sorting against their mathematical definitions; paths in trees.
  \<^item> \<open>Memory\<close> (\<open>memory/\<close>): session memories and the strategies that select a context; the
    interface is the locale \<open>session_memory\<close>, interpreted on the in-process memory.
    \<open>Memory_Hierarchy\<close> (\<open>patterns/memory.go\<close>, \<open>memory/hierarchy.go\<close>): three tiers over shared
    entries in an explicit store, the locale \<open>memory_tier\<close>, and the adapter to sessions.
  \<^item> \<open>Timeout\<close> (\<open>middleware/timeout.go\<close>, \<open>middleware/metrics.go\<close>): the race between agent and
    deadline, the stream proxy as a step relation, the counters.
  \<^item> \<open>Checkpoint\<close>, \<open>Checkpoint_Manager\<close>, \<open>Durable\<close>, \<open>Local_Storage\<close> (\<open>checkpointing/\<close>): the
    interface of storages is the locale \<open>checkpoint_storage\<close>, interpreted on the in-memory and
    on the file storage (over a model of the file system); the manager's history, replay and
    pruning are proved in it; the durable agent runs over a heap of state maps.
  \<^item> \<open>Batching\<close> (\<open>middleware/batching.go\<close>): channel, background goroutine and callers as one step
    relation; every request is answered once, in order, with its own result, unless the context of
    its caller ends or the decorator shuts down before it is accepted.
  \<^item> \<open>Framing\<close> and \<open>Remote\<close> (\<open>adapter/transport/transport.go\<close>, \<open>adapter/codec/\<close>,
    \<open>adapter/local/\<close>, \<open>adapter/remote/\<close>): length-prefixed frames over 32-bit words, envelopes,
    server and client; a remote call behaves as the local agent.
  \<^item> \<open>Tree_Of_Thought\<close> (\<open>techniques/reasoning/tree_of_thought.go\<close>): the three searches as
    interpretations of the locale \<open>search_strategy\<close>.
  \<^item> \<open>Permissions\<close> and \<open>Anomaly\<close> (\<open>safety/\<close>): the permission gate, the sandbox's path, command and
    domain checks, and the detectors over their windows.
  \<^item> \<open>Enhanced_Retry\<close> (\<open>infrastructure/retry_enhanced.go\<close>): error classes, jitter, budget and
    backpressure; the loop refines the plain description of its attempts.
  \<^item> \<open>Task_Patterns\<close> (\<open>patterns/task.go\<close>, \<open>conversational.go\<close>, \<open>autonomous.go\<close>): patterns with
    state.  \<open>Patterns\<close> (\<open>sequential.go\<close>, \<open>parallel.go\<close>, \<open>router.go\<close>, \<open>fallback.go\<close>,
    \<open>supervisor.go\<close>, \<open>human_in_loop.go\<close>, \<open>orchestration.go\<close>): patterns without state.
  \<^item> \<open>Text_Lines\<close>: splitting and prefixes of texts.  \<open>Planning\<close> (\<open>patterns/planning.go\<close>): plans
    run in the order of their dependencies and end.  \<open>Tools\<close> (\<open>tools/tool_agent.go\<close>,
    \<open>patterns/agents_as_tools.go\<close>) and \<open>React\<close> (\<open>patterns/react.go\<close>,
    \<open>patterns/reasoning_with_tools.go\<close>): agents that call tools do what they record.
  \<^item> \<open>Go_Json\<close>: what \<open>encoding/json\<close> does to a value that is written and read back.  Bytes that are not
    UTF-8 become U+FFFD, integers become \<open>float64\<close> and are rounded above \<open>2 ^ 53\<close>, nil maps become
    null, of keys with the same text one is left, and a value with a function in it is an error.  The round trips of
    \<open>Checkpoint\<close>, \<open>Local_Storage\<close>, \<open>Remote\<close> and \<open>Recorder\<close> say which values survive exactly.
  \<^item> \<open>Graph_Of_Thought\<close>, \<open>Self_Consistency\<close>, \<open>Deliberation\<close> (\<open>techniques/reasoning/\<close>): the agents
    that reason in a graph, by a vote over samples, and step by step.  The graph is always built,
    acyclic and within its limits, the vote is won by a majority, and the loops over steps, which
    are interpretations of the locale \<open>solver_loop\<close>, hand every step the results before it.
  \<^item> \<open>Reflection\<close> and \<open>Collaboration\<close> (\<open>patterns/reflection.go\<close>, \<open>collaborative.go\<close>,
    \<open>multiagent.go\<close>): critique and refinement until a stopping condition holds, rounds of agents
    until consensus, and the two simple orchestrators.  The recorded steps are the calls that were
    made, and the loops end at the first step where a condition holds.
  \<^item> \<open>Vector_Memory\<close> (\<open>memory/vector_memory.go\<close>): the store with cosine similarity, whose sums and
    quotient may be rounded in any way, and a search that returns the best matches in order.
  \<^item> \<open>Model_Optimizer\<close> (\<open>budget/optimizer.go\<close>): routing by complexity, fallback to cheaper models
    in order, and estimates over the price table.
  \<^item> \<open>Evaluation\<close>, \<open>Eval_Metrics\<close>, \<open>Regression\<close> (\<open>evaluation/core.go\<close>, \<open>error_tracker.go\<close>,
    \<open>context_metrics.go\<close>, \<open>quality_metrics.go\<close>, \<open>regression.go\<close>): the evaluator, whose result is
    the summary of a run without accumulators, the metrics with their ranges, and the detector of
    regressions, whose trend is the line of least squares.
  \<^item> \<open>Recorder\<close> (\<open>evaluation/recorder.go\<close>): records, their texts, two storages behind the locale
    \<open>recording_storage\<close>, and replay.  A recorded session replays to the same outputs.
  \<^item> This theory: the stack of a retry around a circuit breaker.

  Package \<open>sort\<close> is a parameter with the laws of the locale \<open>sort_slice\<close>; trimming and case
  mapping of Unicode text, the text of errors and of floats, JSON decoding of foreign text and
  random numbers are parameters too.  Goroutines that the code starts and waits for run whole,
  one after the other, in any order, unless a theory says otherwise: the goroutines of
  \<open>ParallelAgent\<close> and of the batching decorator are steps of a relation.

  \<^bold>\<open>Fuel.\<close>  Some recursions carry fuel.  The searches of \<open>Reasoning_Graph\<close> get one unit per
  nested call; the callers pass the number of nodes (\<open>FindPaths\<close> one more), and the theorems
  state the result itself, so this is proved to be enough.  The same holds of the search loop of
  \<open>Tree_Of_Thought\<close> with the number of nodes of a full tree, and of the stream and frame readers
  of \<open>Remote\<close> and \<open>Framing\<close> with the length of the input.  The request loop of \<open>Load_Balancer\<close> may
  really run forever: with \<open>n\<close> backends, \<open>n * n\<close> iterations are proved enough for round
  robin when the backends are healthy and distinctly named, and in two other reachable
  situations no fuel is enough.  The loops of \<open>GetPath\<close>, \<open>executePlan\<close> and \<open>BuildGraph\<close> are partial functions,
  proved to return: on every tree that the operations build, on every plan that is numbered
  in order, and whatever the model answers.  Loops bounded by a configured number of steps
  count it down.

  \<^bold>\<open>What is not modelled.\<close>  Network and file input and output beyond the models above, the
  HTTP, WebSocket and gRPC transports, log and metric exporters, clients of language models, of
  databases and of object stores, protocol bindings, A/B tests, optimizers and benchmarks of evaluations, and data races:
  where the code updates shared fields without its mutex (the backends of the load balancer)
  requests are taken one at a time.
\<close>

section \<open>A retry around a circuit breaker\<close>

text \<open>
  The stack \<open>NewRetryDecorator(NewCircuitBreakerDecorator(a))\<close> of the documentation.  The wait
  of the outer decorator does not touch the breaker; the clock does not touch the log of calls.
\<close>

definition breaker_wait :: "'w waiter \<Rightarrow> (CircuitBreaker \<times> 'w) waiter" where
  "breaker_wait wait d ctx cw = (let (c, w) = cw; (e, w') = wait d ctx w in (e, c, w'))"

definition log_clock :: "'w clock \<Rightarrow> 'w log clock" where
  "log_clock clk lg = (let (w, rs, ds) = lg; (t, w') = clk w in (t, w', rs, ds))"

text \<open>How many calls the breaker can let through before the first success.\<close>

definition cb_allowance :: "CircuitBreaker \<Rightarrow> int" where
  "cb_allowance c =
     (case cb_state c of
        StateClosed \<Rightarrow> cb_FailureThreshold (cb_config c) - cb_failureCount c
      | StateHalfOpen \<Rightarrow> 1
      | StateOpen \<Rightarrow> 0)"

text \<open>An open breaker has failed at \<open>T\<close> or later.\<close>

definition opened_since :: "time \<Rightarrow> CircuitBreaker \<Rightarrow> bool" where
  "opened_since T c \<longleftrightarrow>
     cb_state c = StateOpen \<longrightarrow> (\<exists>t. cb_lastFailureTime c = Some t \<and> T \<le> t)"

lemma cb_begin_window:
  assumes "opened_since T c" and "now < T + cb_RecoveryTimeout (cb_config c)"
  shows "if cb_state c = StateOpen
         then \<exists>e c'. cb_begin now now' c = (Some e, c') \<and> cb_state c' = StateOpen \<and>
                cb_lastFailureTime c' = cb_lastFailureTime c
         else \<exists>c'. cb_begin now now' c = (None, c') \<and> cb_state c' = cb_state c \<and>
                cb_failureCount c' = cb_failureCount c"
  using assms by (auto simp: opened_since_def cb_flow)

lemma cb_finish_err_window:
  assumes "cb_ok c" and "cb_state c \<noteq> StateOpen" and "T \<le> now"
  shows "opened_since T (snd (cb_finish now now' (Err e) c)) \<and>
         cb_allowance (snd (cb_finish now now' (Err e) c)) \<le> cb_allowance c - 1"
  using assms
  by (auto simp: opened_since_def cb_allowance_def cb_flow inv_defs split: CircuitState.splits)

lemma cb_allowance_pos: "cb_ok c \<Longrightarrow> cb_state c \<noteq> StateOpen \<Longrightarrow> 1 \<le> cb_allowance c"
  by (auto simp: cb_allowance_def inv_defs split: CircuitState.splits)

lemma cb_allowance_nonneg: "cb_ok c \<Longrightarrow> 0 \<le> cb_allowance c"
  by (auto simp: cb_allowance_def inv_defs split: CircuitState.splits)

text \<open>One attempt of the outer decorator, in the window of \<open>RecoveryTimeout\<close> after \<open>T\<close>.\<close>

lemma cb_attempt_window:
  assumes "cb_ok c" and "opened_since T c"
    and clk: "\<And>w. T \<le> fst (clk w) \<and> fst (clk w) < T + cb_RecoveryTimeout (cb_config c)"
    and run: "cb_Process (log_clock clk) (logged a) ctx msg (c, w, rs, ds) = (rep, c', w', rs', ds')"
  shows "cb_config c' = cb_config c \<and> cb_ok c' \<and> ds' = ds \<and>
     (\<exists>new. rs' = rs @ new \<and> int (length new) \<le> cb_allowance c \<and>
        (\<forall>e. rep = Err e \<longrightarrow>
           opened_since T c' \<and> cb_allowance c' \<le> cb_allowance c - int (length new)))"
proof -
  obtain t1 w1 where 1: "clk w = (t1, w1)" by force
  obtain t2 w2 where 2: "clk w1 = (t2, w2)" by force
  have t1: "t1 < T + cb_RecoveryTimeout (cb_config c)" using clk [of w] 1 by simp
  obtain b c1 where b: "cb_begin t1 t2 c = (b, c1)" by force
  have c1: "cb_ok c1" "cb_config c1 = cb_config c"
    using cb_ok_begin [OF assms(1), of t1 t2] cb_begin_config [of t1 t2 c] b by simp_all
  note win = cb_begin_window [OF assms(2) t1, of t2]
  show ?thesis
  proof (cases "cb_state c = StateOpen")
    case True
    with win b obtain e where "b = Some e" "cb_state c1 = StateOpen"
      "cb_lastFailureTime c1 = cb_lastFailureTime c" by auto
    with run b 1 2 True assms(2) c1 show ?thesis
      by (auto simp: cb_Process_def log_clock_def opened_since_def cb_allowance_def)
  next
    case False
    with win b have bn: "b = None" and st: "cb_state c1 = cb_state c"
      and fc: "cb_failureCount c1 = cb_failureCount c" by auto
    obtain t3 w3 where 3: "clk w2 = (t3, w3)" by force
    let ?ctx = "WithTimeout t3 (cb_Timeout (cb_config c1)) ctx"
    obtain r w4 where r: "agent_Process a ?ctx msg w3 = (r, w4)" by force
    obtain t4 w5 where 4: "clk w4 = (t4, w5)" by force
    obtain t5 w6 where 5: "clk w5 = (t5, w6)" by force
    have t4: "T \<le> t4" using clk [of w4] 4 by simp
    have fin: "cb_finish t4 t5 r c1 = (rep, c')" and rs': "rs' = rs @ [r]" and ds': "ds' = ds"
      using run b bn 1 2 3 4 5 r
      by (auto simp: cb_Process_def log_clock_def logged_def split: prod.splits)
    have al: "cb_allowance c1 = cb_allowance c" 
      using st fc c1 by (simp add: cb_allowance_def split: CircuitState.split)
    have ok': "cb_ok c'" and cf': "cb_config c' = cb_config c"
      using cb_ok_finish [OF c1(1), of t4 t5 r] cb_finish_config [of t4 t5 r c1] fin c1 by simp_all
    have err: "opened_since T c' \<and> cb_allowance c' \<le> cb_allowance c - 1" if rep: "rep = Err e" for e
    proof -
      obtain e' where "r = Err e'" using rep fin by (cases r) auto
      then show ?thesis
        using cb_finish_err_window [OF c1(1) _ t4, of t5 e'] False st fin al by simp
    qed
    show ?thesis
      using rs' ds' ok' cf' err cb_allowance_pos [OF assms(1) False] by auto
  qed
qed

lemma retry_loop_window:
  assumes "cb_ok c" and "opened_since T c"
    and clk: "\<And>w. T \<le> fst (clk w) \<and> fst (clk w) < T + cb_RecoveryTimeout (cb_config c)"
    and "retry_loop (breaker_wait (logged_wait wait)) (cb_agent (log_clock clk) (logged a)) ctx msg
           k i b le m (c, w, rs, ds) = (res, m', c', w', rs', ds')"
  shows "\<exists>new. rs' = rs @ new \<and> int (length new) \<le> cb_allowance c"
  using assms
proof (induction "nat (rc_MaxRetries k + 1 - i)" arbitrary: i b le m c w rs ds)
  case 0
  then have "\<not> i \<le> rc_MaxRetries k" by simp
  with 0 show ?case by (auto simp: retry_loop.simps [of _ _ _ _ _ i] cb_allowance_nonneg)
next
  case (Suc n)
  then have i: "i \<le> rc_MaxRetries k" and n: "n = nat (rc_MaxRetries k + 1 - (i + 1))" by auto
  obtain rep c1 w1 rs1 ds1 where
    p: "cb_Process (log_clock clk) (logged a) ctx msg (c, w, rs, ds) = (rep, c1, w1, rs1, ds1)"
    by (metis prod.exhaust)
  from cb_attempt_window [OF Suc.prems(1-3) p] obtain new where
    c1: "cb_config c1 = cb_config c" "cb_ok c1" and rs1: "rs1 = rs @ new"
    and len: "int (length new) \<le> cb_allowance c"
    and err: "\<And>e. rep = Err e \<Longrightarrow>
      opened_since T c1 \<and> cb_allowance c1 \<le> cb_allowance c - int (length new)" by blast
  obtain we w2 where wt: "wait b ctx w1 = (we, w2)" by force
  show ?case
  proof (cases "\<exists>e. rep = Err e \<and> retryable k e \<and> i \<noteq> rc_MaxRetries k \<and> we = None")
    case True
    then obtain e where e: "rep = Err e" "retryable k e" "i \<noteq> rc_MaxRetries k" "we = None" by blast
    have "\<exists>new2. rs' = rs1 @ new2 \<and> int (length new2) \<le> cb_allowance c1"
    proof (rule Suc.hyps(1) [OF n c1(2)])
      show "opened_since T c1" using err e by blast
      show "\<And>w. T \<le> fst (clk w) \<and> fst (clk w) < T + cb_RecoveryTimeout (cb_config c1)"
        using Suc.prems(3) c1 by simp
      show "retry_loop (breaker_wait (logged_wait wait)) (cb_agent (log_clock clk) (logged a)) ctx msg
          k (i + 1) (next_backoff k b) (Some e)
          (m\<lparr>rm_TotalAttempts := rm_TotalAttempts m + 1, rm_TotalRetries := rm_TotalRetries m + 1\<rparr>)
          (c1, w2, rs1, ds1 @ [b]) = (res, m', c', w', rs', ds')"
        using Suc.prems(4) i p e wt
        by (subst (asm) retry_loop.simps)
          (simp add: cb_agent_def breaker_wait_def logged_wait_def Let_def)
    qed
    then show ?thesis using rs1 err [OF e(1)] by auto
  next
    case False
    have "rs' = rs1"
      using Suc.prems(4) i p wt False
      by (subst (asm) retry_loop.simps)
        (auto simp: cb_agent_def breaker_wait_def logged_wait_def Let_def
          split: outcome.splits if_splits option.splits)
    then show ?thesis using rs1 len by auto
  qed
qed

text \<open>
  C1. The breaker protects the agent from the retries around it: a request that is retried
  through a circuit breaker, with all its clock readings within one \<open>RecoveryTimeout\<close> of each
  other and of the failure that opened the breaker, calls the agent at most as often as a
  closed breaker has failures left before its threshold, at most once if it is half-open and
  not at all if it is open, whatever \<open>MaxRetries\<close>, the waits and the agent are.
\<close>

theorem breaker_caps_retries:
  assumes "cb_ok c" and "opened_since T c"
    and "\<And>w. T \<le> fst (clk w) \<and> fst (clk w) < T + cb_RecoveryTimeout (cb_config c)"
    and "retry_Process (breaker_wait (logged_wait wait)) (cb_agent (log_clock clk) (logged a)) ctx msg
           (d, c, w, [], []) = (res, d', c', w', calls, waits)"
  shows "int (length calls) \<le>
     (case cb_state c of
        StateClosed \<Rightarrow> cb_FailureThreshold (cb_config c) - cb_failureCount c
      | StateHalfOpen \<Rightarrow> 1
      | StateOpen \<Rightarrow> 0)"
proof -
  obtain m' where "retry_loop (breaker_wait (logged_wait wait)) (cb_agent (log_clock clk) (logged a))
      ctx msg (rd_config d) 1 (rc_InitialRetryDelay (rd_config d)) None (rd_metrics d) (c, w, [], []) =
      (res, m', c', w', calls, waits)"
    using assms(4) by (auto simp: retry_Process_def Let_def split: prod.splits)
  from retry_loop_window [OF assms(1-3) this] show ?thesis by (auto simp: cb_allowance_def)
qed

theorem breaker_caps_retries_witness:
  "let c = NewCircuitBreakerDecorator (DefaultCircuitBreakerConfig\<lparr>cb_FailureThreshold := 2\<rparr>);
       down = \<lparr>agent_Name = ''a'', agent_Capabilities = [],
               agent_Process = (\<lambda>ctx m (w :: unit). (Err Context_Canceled, w))\<rparr>;
       (res, d, c', w, calls, waits) =
         retry_Process (breaker_wait (logged_wait (\<lambda>d ctx w. (None, w))))
           (cb_agent (log_clock (\<lambda>w. (0, w))) (logged down)) Background None
           (NewRetryDecorator DefaultRetryConfig, c, (), [], [])
   in int (length calls) \<le> 2 - 0"
  (is "let c = ?c; down = ?a; (res, d, c', w, calls, waits) = ?run c down in _")
proof -
  obtain res d c' w calls waits where
    run: "?run ?c ?a = (res, d, c', w, calls, waits)" by (metis prod.exhaust)
  have c: "cb_state ?c = StateClosed" "cb_failureCount ?c = 0" "cb_FailureThreshold (cb_config ?c) = 2"
    "cb_RecoveryTimeout (cb_config ?c) = 60000000000"
    by (simp_all add: NewCircuitBreakerDecorator_def DefaultCircuitBreakerConfig_def second_def Let_def)
  have "int (length calls) \<le> 2 - 0"
    using breaker_caps_retries [OF cb_ok_new _ _ run, of 0] c by (simp add: opened_since_def)
  then show ?thesis using run by (simp add: Let_def)
qed

end
